(* ===== verification/Prelude.thy ===== *)
theory Prelude
  imports Main "HOL-Library.AList" "HOL-Library.Word" "HOL-Library.Char_ord"
    "HOL-Library.List_Lexorder" "HOL-Library.Product_Lexorder"
begin

text \<open>
  Shared vocabulary of the development: machine integers with the saturating operations the
  sources use, Rust's \<open>Result\<close> as a sum, the hash tables and hash sets of the runtime, the
  iterator adaptors (\<open>find\<close>, \<open>min_by\<close>, \<open>max_by\<close>, sets of seen keys) and generic list lemmas.

  A Rust \<open>HashMap\<close> is an association list with distinct keys. The order of the list stands for
  the iteration order of the table, which Rust leaves unspecified: every theorem quantifies over
  the whole list, hence over every iteration order of the entries a table holds, and results that
  are collected by iterating are characterised as sets or as sorted lists. The interface a client
  of a table relies on is the locale \<open>hash_table\<close>, interpreted below on the association lists.

  Strings are byte lists. The order on them (\<open>List_Lexorder\<close> over \<open>Char_ord\<close>) is the bytewise
  lexicographic order, which is the order of Rust's \<open>str\<close>.
\<close>

named_theorems registry_simps \<open>unfolding rules for the task registry operations\<close>
named_theorems keeps_inv \<open>an operation keeps the invariant of its component\<close>

section \<open>Machine integers\<close>

type_synonym u8 = "8 word"
type_synonym u32 = "32 word"
type_synonym u64 = "64 word"

definition saturating_sub :: "u64 \<Rightarrow> u64 \<Rightarrow> u64" where
  "saturating_sub a b = (if b \<le> a then a - b else 0)"

definition saturating_add :: "u64 \<Rightarrow> u64 \<Rightarrow> u64" where
  "saturating_add a b = (if unat a + unat b < 2 ^ 64 then a + b else - 1)"

definition saturating_mul :: "u64 \<Rightarrow> u64 \<Rightarrow> u64" where
  "saturating_mul a b = (if unat a * unat b < 2 ^ 64 then a * b else - 1)"

lemma unat_saturating_sub: "unat (saturating_sub a b) = unat a - unat b"
  by (simp add: saturating_sub_def unat_sub word_le_nat_alt)

lemma unat_saturating_add: "unat (saturating_add a b) = min (unat a + unat b) (2 ^ 64 - 1)"
proof (cases "unat a + unat b < 2 ^ 64")
  case True
  then have "unat (a + b) = unat a + unat b"
    by (simp add: unat_word_ariths)
  with True show ?thesis by (simp add: saturating_add_def)
next
  case False
  then show ?thesis by (simp add: saturating_add_def unsigned_minus_1_eq_mask mask_eq_exp_minus_1)
qed

lemma saturating_sub_gt_iff: "t < saturating_sub a b \<longleftrightarrow> unat b + unat t < unat a"
  by (auto simp: word_less_nat_alt unat_saturating_sub)

lemma saturating_sub_ge_iff: "t \<le> saturating_sub a b \<longleftrightarrow> unat b + unat t \<le> unat a \<or> t = 0"
proof -
  have "t \<noteq> 0 \<Longrightarrow> 0 < unat t" by (simp add: unat_gt_0)
  then show ?thesis by (auto simp: word_le_nat_alt unat_saturating_sub)
qed

lemma saturating_sub_self [simp]: "saturating_sub a a = 0"
  by (simp add: saturating_sub_def)

section \<open>Results\<close>

text \<open>A method \<open>fn op(&mut self, ..) -> Result<T, E>\<close> returns the state it leaves behind
  together with its result, so that an early return is visible in both components.\<close>

type_synonym ('s, 'e, 'a) fallible = "'s \<times> ('e + 'a)"

abbreviation ok_unit :: "'e + unit" where
  "ok_unit \<equiv> Inr ()"

definition is_err :: "'e + 'a \<Rightarrow> bool" where
  "is_err r = (case r of Inl _ \<Rightarrow> True | Inr _ \<Rightarrow> False)"

lemma is_err_simps [simp]: "is_err (Inl e)" "\<not> is_err (Inr a)"
  by (simp_all add: is_err_def)

text \<open>The loop \<open>for x in xs { check(x)?; }\<close>: the first error stops it.\<close>

fun try_for_each :: "('a \<Rightarrow> 'e + unit) \<Rightarrow> 'a list \<Rightarrow> 'e + unit" where
  "try_for_each f [] = Inr ()"
| "try_for_each f (x # xs) = (case f x of Inl e \<Rightarrow> Inl e | Inr _ \<Rightarrow> try_for_each f xs)"

lemma try_for_each_ok: "try_for_each f xs = Inr u \<longleftrightarrow> (\<forall>x\<in>set xs. f x = Inr ())"
  by (induction xs) (auto split: sum.splits)

lemma try_for_each_err:
  "try_for_each f xs = Inl e \<Longrightarrow>
     \<exists>ys x zs. xs = ys @ x # zs \<and> f x = Inl e \<and> (\<forall>y\<in>set ys. f y = Inr ())"
proof (induction xs)
  case Nil
  then show ?case by simp
next
  case (Cons a xs)
  show ?case
  proof (cases "f a")
    case (Inl e')
    with Cons.prems show ?thesis by (intro exI [of _ "[]"]) auto
  next
    case (Inr u)
    with Cons.prems have "try_for_each f xs = Inl e" by simp
    from Cons.IH [OF this] obtain ys x zs
      where "xs = ys @ x # zs" "f x = Inl e" "\<forall>y\<in>set ys. f y = Inr ()" by blast
    with Inr show ?thesis by (intro exI [of _ "a # ys"]) auto
  qed
qed

text \<open>Sequencing with \<open>?\<close>.\<close>

definition and_then :: "'e + unit \<Rightarrow> 'e + 'a \<Rightarrow> 'e + 'a" where
  "and_then r k = (case r of Inl e \<Rightarrow> Inl e | Inr _ \<Rightarrow> k)"

lemma and_then_ok [simp]: "and_then r k = Inr a \<longleftrightarrow> r = Inr () \<and> k = Inr a"
  by (auto simp: and_then_def split: sum.splits)

lemma and_then_simps [simp]: "and_then (Inl e) k = Inl e" "and_then (Inr u) k = k"
  by (simp_all add: and_then_def)

section \<open>Hash tables\<close>

type_synonym ('k, 'v) hmap = "('k \<times> 'v) list"

abbreviation hm_keys :: "('k, 'v) hmap \<Rightarrow> 'k list" where
  "hm_keys m \<equiv> map fst m"

abbreviation hm_values :: "('k, 'v) hmap \<Rightarrow> 'v list" where
  "hm_values m \<equiv> map snd m"

definition hm_wf :: "('k, 'v) hmap \<Rightarrow> bool" where
  "hm_wf m = distinct (hm_keys m)"

definition hm_get :: "('k, 'v) hmap \<Rightarrow> 'k \<Rightarrow> 'v option" where
  "hm_get m k = map_of m k"

definition hm_insert :: "'k \<Rightarrow> 'v \<Rightarrow> ('k, 'v) hmap \<Rightarrow> ('k, 'v) hmap" where
  "hm_insert k v m = AList.update k v m"

definition hm_remove :: "'k \<Rightarrow> ('k, 'v) hmap \<Rightarrow> ('k, 'v) hmap" where
  "hm_remove k m = filter (\<lambda>p. fst p \<noteq> k) m"

text \<open>\<open>values_mut\<close> with an update that may look at the key, and \<open>retain\<close>.\<close>

definition hm_map :: "('k \<Rightarrow> 'v \<Rightarrow> 'v) \<Rightarrow> ('k, 'v) hmap \<Rightarrow> ('k, 'v) hmap" where
  "hm_map f m = map (\<lambda>(k, v). (k, f k v)) m"

definition hm_retain :: "('k \<Rightarrow> 'v \<Rightarrow> bool) \<Rightarrow> ('k, 'v) hmap \<Rightarrow> ('k, 'v) hmap" where
  "hm_retain P m = filter (\<lambda>(k, v). P k v) m"

text \<open>\<open>into_iter().collect()\<close>: later pairs overwrite earlier ones.\<close>

definition hm_collect :: "('k \<times> 'v) list \<Rightarrow> ('k, 'v) hmap" where
  "hm_collect ps = foldl (\<lambda>m (k, v). hm_insert k v m) [] ps"

lemma hm_wf_Nil [simp]: "hm_wf []"
  by (simp add: hm_wf_def)

lemma hm_get_Nil [simp]: "hm_get [] k = None"
  by (simp add: hm_get_def)

lemma hm_get_insert [simp]: "hm_get (hm_insert k v m) k' = (if k' = k then Some v else hm_get m k')"
  by (simp add: hm_get_def hm_insert_def update_conv')

lemma hm_wf_insert [simp]: "hm_wf m \<Longrightarrow> hm_wf (hm_insert k v m)"
  by (simp add: hm_wf_def hm_insert_def distinct_update)

lemma hm_get_remove [simp]: "hm_get (hm_remove k m) k' = (if k' = k then None else hm_get m k')"
  by (induction m) (auto simp: hm_get_def hm_remove_def)

lemma hm_wf_filter: "hm_wf m \<Longrightarrow> hm_wf (filter P m)"
  unfolding hm_wf_def by (induction m) auto

lemma hm_wf_remove [simp]: "hm_wf m \<Longrightarrow> hm_wf (hm_remove k m)"
  by (simp add: hm_remove_def hm_wf_filter)

lemma hm_get_map [simp]: "hm_get (hm_map f m) k = map_option (f k) (hm_get m k)"
  by (induction m) (auto simp: hm_get_def hm_map_def)

lemma hm_keys_map [simp]: "hm_keys (hm_map f m) = hm_keys m"
  by (induction m) (auto simp: hm_map_def)

lemma hm_wf_map [simp]: "hm_wf (hm_map f m) = hm_wf m"
  by (simp add: hm_wf_def)

lemma hm_wf_retain [simp]: "hm_wf m \<Longrightarrow> hm_wf (hm_retain P m)"
  by (simp add: hm_retain_def hm_wf_filter)

lemma hm_get_Some_iff: "hm_wf m \<Longrightarrow> hm_get m k = Some v \<longleftrightarrow> (k, v) \<in> set m"
  by (simp add: hm_wf_def hm_get_def)

lemma hm_get_SomeD: "hm_get m k = Some v \<Longrightarrow> (k, v) \<in> set m"
  by (simp add: hm_get_def map_of_SomeD)

lemma hm_get_None_iff: "hm_get m k = None \<longleftrightarrow> k \<notin> set (hm_keys m)"
  by (simp add: hm_get_def map_of_eq_None_iff)

lemma hm_get_retain:
  "hm_wf m \<Longrightarrow> hm_get (hm_retain P m) k =
     (case hm_get m k of None \<Rightarrow> None | Some v \<Rightarrow> if P k v then Some v else None)"
proof -
  assume wf: "hm_wf m"
  then have "hm_wf (hm_retain P m)" by simp
  with wf show ?thesis
    by (auto simp: hm_get_Some_iff hm_retain_def hm_get_None_iff split: option.splits
        intro!: option.expand)
      (metis hm_get_Some_iff [OF wf] hm_get_None_iff fst_conv image_eqI list.set_map
        option.distinct(1) option.inject)+
qed

lemma hm_wf_foldl_insert:
  "hm_wf m \<Longrightarrow> hm_wf (foldl (\<lambda>m (k, v). hm_insert k v m) m ps)"
  by (induction ps arbitrary: m) (auto split: prod.splits)

lemma hm_wf_collect [simp]: "hm_wf (hm_collect ps)"
  by (simp add: hm_collect_def hm_wf_foldl_insert)

lemma hm_get_foldl_insert:
  "hm_get (foldl (\<lambda>m (k, v). hm_insert k v m) m ps) k =
     (case map_of (rev ps) k of Some v \<Rightarrow> Some v | None \<Rightarrow> hm_get m k)"
  by (induction ps arbitrary: m)
    (auto split: prod.splits option.splits simp: map_add_def)

lemma hm_get_collect: "hm_get (hm_collect ps) k = map_of (rev ps) k"
  by (simp add: hm_collect_def hm_get_foldl_insert split: option.splits)

lemma map_of_rev_distinct: "distinct (map fst ps) \<Longrightarrow> map_of (rev ps) = map_of ps"
proof (induction ps)
  case Nil
  then show ?case by simp
next
  case (Cons p ps)
  then have "fst p \<notin> dom (map_of ps)" by (simp add: dom_map_of_conv_image_fst)
  with Cons show ?case by (simp add: map_add_upd_left)
qed

lemma hm_collect_SomeD: "hm_get (hm_collect ps) k = Some v \<Longrightarrow> (k, v) \<in> set ps"
  by (metis hm_get_collect map_of_SomeD set_rev)


lemma find_append_disj: "find P (xs @ ys) = (case find P xs of Some x \<Rightarrow> Some x | None \<Rightarrow> find P ys)"
  by (induction xs) auto

text \<open>What the runtime relies on when it keeps a table: lookups see exactly the last write, a
  removal forgets one key, every operation keeps keys unique, and iteration visits each entry
  exactly once.\<close>

locale hash_table =
  fixes wf :: "'t \<Rightarrow> bool"
    and get :: "'t \<Rightarrow> 'k \<Rightarrow> 'v option"
    and insert :: "'k \<Rightarrow> 'v \<Rightarrow> 't \<Rightarrow> 't"
    and remove :: "'k \<Rightarrow> 't \<Rightarrow> 't"
    and entries :: "'t \<Rightarrow> ('k \<times> 'v) list"
  assumes wf_insert: "wf m \<Longrightarrow> wf (insert k v m)"
    and wf_remove: "wf m \<Longrightarrow> wf (remove k m)"
    and get_insert: "wf m \<Longrightarrow> get (insert k v m) k' = (if k' = k then Some v else get m k')"
    and get_remove: "wf m \<Longrightarrow> get (remove k m) k' = (if k' = k then None else get m k')"
    and entries_iff: "wf m \<Longrightarrow> (k, v) \<in> set (entries m) \<longleftrightarrow> get m k = Some v"
    and entries_once: "wf m \<Longrightarrow> distinct (map fst (entries m))"
begin

text \<open>Writing a batch of entries in order, as the loops over injected tasks do.\<close>

lemma insert_batch:
  assumes "wf m"
  shows "wf (foldl (\<lambda>m x. insert (key x) x m) m xs) \<and>
    get (foldl (\<lambda>m x. insert (key x) x m) m xs) k =
      (case find (\<lambda>x. key x = k) (rev xs) of Some x \<Rightarrow> Some x | None \<Rightarrow> get m k)"
  using assms
proof (induction xs arbitrary: m)
  case Nil
  then show ?case by simp
next
  case (Cons x xs)
  have "wf (insert (key x) x m)" using Cons.prems by (rule wf_insert)
  note IH = Cons.IH [OF this]
  have "find (\<lambda>x. key x = k) (rev (x # xs)) =
      (case find (\<lambda>x. key x = k) (rev xs) of Some y \<Rightarrow> Some y | None \<Rightarrow> if key x = k then Some x else None)"
    by (simp add: find_append_disj split: option.split)
  with IH Cons.prems show ?case
    by (auto simp: get_insert split: option.splits)
qed

lemma remove_batch:
  assumes "wf m"
  shows "wf (foldl (\<lambda>m k. remove k m) m ks) \<and>
    get (foldl (\<lambda>m k. remove k m) m ks) k = (if k \<in> set ks then None else get m k)"
  using assms
  by (induction ks arbitrary: m) (auto simp: wf_remove get_remove)

lemma entry_unique: "wf m \<Longrightarrow> (k, v) \<in> set (entries m) \<Longrightarrow> (k, v') \<in> set (entries m) \<Longrightarrow> v = v'"
  by (simp add: entries_iff)

end

interpretation hm: hash_table hm_wf hm_get hm_insert hm_remove "\<lambda>m. m"
  by unfold_locales (auto simp: hm_get_Some_iff, simp_all add: hm_wf_def)

section \<open>Iterators\<close>

text \<open>\<open>if !seen.insert(x)\<close> in a loop: the first element that was already seen.\<close>

fun find_dup :: "'a set \<Rightarrow> 'a list \<Rightarrow> 'a option" where
  "find_dup seen [] = None"
| "find_dup seen (x # xs) = (if x \<in> seen then Some x else find_dup (insert x seen) xs)"

lemma find_dup_None: "find_dup S xs = None \<longleftrightarrow> distinct xs \<and> set xs \<inter> S = {}"
  by (induction xs arbitrary: S) auto

lemma find_dup_Some: "find_dup S xs = Some x \<Longrightarrow> x \<in> set xs \<and> (x \<in> S \<or> \<not> distinct xs)"
proof (induction xs arbitrary: S)
  case Nil
  then show ?case by simp
next
  case (Cons y ys)
  show ?case
  proof (cases "y \<in> S")
    case True
    with Cons.prems show ?thesis by simp
  next
    case False
    with Cons.prems have "find_dup (insert y S) ys = Some x" by simp
    from Cons.IH [OF this] show ?thesis by auto
  qed
qed

text \<open>\<open>windows(2)\<close>.\<close>

fun windows2 :: "'a list \<Rightarrow> ('a \<times> 'a) list" where
  "windows2 (x # y # zs) = (x, y) # windows2 (y # zs)"
| "windows2 _ = []"

lemma windows2_append:
  "ys \<noteq> [] \<Longrightarrow> windows2 (xs @ ys) = windows2 (xs @ [hd ys]) @ windows2 ys"
proof (induction xs)
  case Nil
  then show ?case by (cases ys) auto
next
  case (Cons x xs)
  then show ?case by (cases xs; cases ys) auto
qed

text \<open>\<open>Iterator::min_by\<close> returns the first of several minimal elements, \<open>max_by\<close> the last of
  several maximal ones. A comparator that may panic returns \<open>None\<close>, and so does the search.\<close>

datatype ordering = Less | Equal | Greater

fun min_by_from :: "('a \<Rightarrow> 'a \<Rightarrow> ordering option) \<Rightarrow> 'a \<Rightarrow> 'a list \<Rightarrow> 'a option" where
  "min_by_from cmp x [] = Some x"
| "min_by_from cmp x (y # ys) =
     (case cmp x y of None \<Rightarrow> None
      | Some Greater \<Rightarrow> min_by_from cmp y ys
      | Some _ \<Rightarrow> min_by_from cmp x ys)"

definition min_by :: "('a \<Rightarrow> 'a \<Rightarrow> ordering option) \<Rightarrow> 'a list \<Rightarrow> 'a option option" where
  "min_by cmp xs = (case xs of [] \<Rightarrow> Some None | x # ys \<Rightarrow> map_option Some (min_by_from cmp x ys))"

definition reverse_cmp :: "('a \<Rightarrow> 'a \<Rightarrow> ordering option) \<Rightarrow> 'a \<Rightarrow> 'a \<Rightarrow> ordering option" where
  "reverse_cmp cmp x y = map_option (\<lambda>c. case c of Less \<Rightarrow> Greater | Equal \<Rightarrow> Greater | Greater \<Rightarrow> Less) (cmp x y)"

text \<open>\<open>max_by\<close> keeps the later element unless the earlier one is strictly greater.\<close>

definition max_by :: "('a \<Rightarrow> 'a \<Rightarrow> ordering option) \<Rightarrow> 'a list \<Rightarrow> 'a option option" where
  "max_by cmp xs = min_by (reverse_cmp cmp) xs"

lemma min_by_from_mem: "min_by_from cmp x ys = Some z \<Longrightarrow> z \<in> insert x (set ys)"
  by (induction cmp x ys rule: min_by_from.induct) (auto split: option.splits ordering.splits)

lemma min_by_mem: "min_by cmp xs = Some (Some z) \<Longrightarrow> z \<in> set xs"
  by (auto simp: min_by_def split: list.splits dest: min_by_from_mem)

lemma min_by_empty_iff: "min_by cmp xs = Some None \<longleftrightarrow> xs = []"
  by (auto simp: min_by_def split: list.splits)

lemma max_by_mem: "max_by cmp xs = Some (Some z) \<Longrightarrow> z \<in> set xs"
  by (auto simp: max_by_def dest: min_by_mem)

lemma max_by_empty_iff: "max_by cmp xs = Some None \<longleftrightarrow> xs = []"
  by (simp add: max_by_def min_by_empty_iff)

lemma min_by_from_total:
  "(\<And>a b. a \<in> insert x (set ys) \<Longrightarrow> b \<in> insert x (set ys) \<Longrightarrow> cmp a b \<noteq> None) \<Longrightarrow>
     \<exists>z. min_by_from cmp x ys = Some z"
proof (induction ys arbitrary: x)
  case Nil
  then show ?case by simp
next
  case (Cons y ys)
  have "\<exists>z. min_by_from cmp x ys = Some z" "\<exists>z. min_by_from cmp y ys = Some z"
    by (rule Cons.IH; use Cons.prems in auto)+
  moreover obtain c where "cmp x y = Some c" using Cons.prems [of x y] by auto
  ultimately show ?case by (cases c) auto
qed

lemma min_by_total:
  "(\<And>a b. a \<in> set xs \<Longrightarrow> b \<in> set xs \<Longrightarrow> cmp a b \<noteq> None) \<Longrightarrow> min_by cmp xs \<noteq> None"
proof (cases xs)
  case Nil
  then show ?thesis by (simp add: min_by_def)
next
  case (Cons x ys)
  assume "\<And>a b. a \<in> set xs \<Longrightarrow> b \<in> set xs \<Longrightarrow> cmp a b \<noteq> None"
  with Cons have "\<exists>z. min_by_from cmp x ys = Some z"
    by (intro min_by_from_total) auto
  with Cons show ?thesis by (auto simp: min_by_def)
qed

text \<open>With a comparator that orders by a key of a linear order, the result has the least key.\<close>

lemma min_by_from_least:
  assumes cmp: "\<And>a b. a \<in> insert x (set ys) \<Longrightarrow> b \<in> insert x (set ys) \<Longrightarrow>
      cmp a b = Some (if key a < key b then Less else if key b < (key a :: 'k :: linorder) then Greater else Equal)"
    and "min_by_from cmp x ys = Some z" and "y \<in> insert x (set ys)"
  shows "key z \<le> key y"
  using assms
proof (induction ys arbitrary: x y)
  case Nil
  then show ?case by simp
next
  case (Cons w ws)
  show ?case
  proof (cases "key w < key x")
    case True
    then have "cmp x w = Some Greater" using Cons.prems(1) [of x w] by auto
    with Cons.prems(2) have z: "min_by_from cmp w ws = Some z" by simp
    have "key z \<le> key u" if "u \<in> insert w (set ws)" for u
      by (rule Cons.IH [OF _ z that]) (use Cons.prems(1) in auto)
    with True Cons.prems(3) show ?thesis by (metis insertCI insertE less_le_not_le list.set(2) order.trans linorder_le_cases)
  next
    case False
    then obtain c where "cmp x w = Some c" "c \<noteq> Greater"
      using Cons.prems(1) [of x w] by (auto split: if_splits)
    with Cons.prems(2) have z: "min_by_from cmp x ws = Some z" by (cases c) auto
    have "key z \<le> key u" if "u \<in> insert x (set ws)" for u
      by (rule Cons.IH [OF _ z that]) (use Cons.prems(1) in auto)
    with False Cons.prems(3) show ?thesis by (metis insertCI insertE list.set(2) order.trans linorder_not_less)
  qed
qed

lemma min_by_least:
  assumes cmp: "\<And>a b. a \<in> set xs \<Longrightarrow> b \<in> set xs \<Longrightarrow>
      cmp a b = Some (if key a < key b then Less else if key b < (key a :: 'k :: linorder) then Greater else Equal)"
    and "min_by cmp xs = Some (Some z)" and "y \<in> set xs"
  shows "key z \<le> key y"
proof (cases xs)
  case Nil
  with assms(3) show ?thesis by simp
next
  case (Cons w ws)
  then show ?thesis
    using min_by_from_least [of w ws cmp key z y] assms by (auto simp: min_by_def)
qed

end
