(* ===== verification/F64.thy ===== *)
theory F64
  imports Prelude "HOL-Library.Log_Nat"
begin

text \<open>
  IEEE 754 binary64, the type \<open>f64\<close> of the sources, as exact values: a not-a-number, the two
  infinities, and finite values given by a sign and a rational magnitude (so that \<open>-0.0\<close> is a
  value of its own). Arithmetic computes the exact rational result and rounds it to the nearest
  binary64 value, ties to even, as the standard and Rust prescribe; \<open>sqrt\<close> is correctly rounded;
  comparisons are exact. Everything is executable.
\<close>

section \<open>Values\<close>

datatype f64 = NaN | Inf (neg: bool) | Fin (neg: bool) (mag: rat)

definition is_nan :: "f64 \<Rightarrow> bool" where
  "is_nan x = (x = NaN)"

definition is_finite :: "f64 \<Rightarrow> bool" where
  "is_finite x = (case x of Fin _ _ \<Rightarrow> True | _ \<Rightarrow> False)"

definition val :: "f64 \<Rightarrow> rat" where
  "val x = (case x of Fin s m \<Rightarrow> (if s then - m else m) | _ \<Rightarrow> 0)"

abbreviation f64_zero :: f64 where
  "f64_zero \<equiv> Fin False 0"

text \<open>A literal whose decimal value is a binary64 value.\<close>

abbreviation f64_lit :: "rat \<Rightarrow> f64" where
  "f64_lit q \<equiv> Fin False q"

section \<open>Rounding\<close>

text \<open>Round half to even on the rationals.\<close>

definition round_even :: "rat \<Rightarrow> int" where
  "round_even x = (let f = \<lfloor>x\<rfloor>; r = x - of_int f in
     if r < 1 / 2 then f else if 1 / 2 < r then f + 1 else if even f then f else f + 1)"

text \<open>\<open>floor_log2 m\<close> is the exponent of the leading bit of a positive \<open>m\<close>: the bit lengths of
  numerator and denominator give it up to one.\<close>

definition floor_log2 :: "rat \<Rightarrow> int" where
  "floor_log2 m = (case quotient_of m of (n, d) \<Rightarrow>
     let k = bitlen n - bitlen d in if m < 2 powi k then k - 1 else k)"

text \<open>53 bits of significand, least exponent \<open>-1074\<close>, overflow at \<open>2 ^ 1024\<close>.\<close>

definition f64_round :: "bool \<Rightarrow> rat \<Rightarrow> f64" where
  "f64_round s m = (if m = 0 then Fin s 0 else
     let e = max (floor_log2 m - 52) (- 1074);
         v = of_int (round_even (m / 2 powi e)) * 2 powi e
     in if 2 ^ 1024 \<le> v then Inf s else Fin s v)"

text \<open>The rounded value of an exact rational result that is not a signed zero.\<close>

definition of_exact :: "rat \<Rightarrow> f64" where
  "of_exact q = f64_round (q < 0) \<bar>q\<bar>"

section \<open>Arithmetic\<close>

fun f64_neg :: "f64 \<Rightarrow> f64" where
  "f64_neg NaN = NaN"
| "f64_neg (Inf s) = Inf (\<not> s)"
| "f64_neg (Fin s m) = Fin (\<not> s) m"

fun f64_abs :: "f64 \<Rightarrow> f64" where
  "f64_abs NaN = NaN"
| "f64_abs (Inf s) = Inf False"
| "f64_abs (Fin s m) = Fin False m"

fun f64_add :: "f64 \<Rightarrow> f64 \<Rightarrow> f64" where
  "f64_add NaN y = NaN"
| "f64_add x NaN = NaN"
| "f64_add (Inf s) (Inf t) = (if s = t then Inf s else NaN)"
| "f64_add (Inf s) (Fin t n) = Inf s"
| "f64_add (Fin s m) (Inf t) = Inf t"
| "f64_add (Fin s m) (Fin t n) =
     (let q = val (Fin s m) + val (Fin t n) in
      if q = 0 then Fin (s \<and> t) 0 else of_exact q)"

definition f64_sub :: "f64 \<Rightarrow> f64 \<Rightarrow> f64" where
  "f64_sub x y = f64_add x (f64_neg y)"

fun f64_mul :: "f64 \<Rightarrow> f64 \<Rightarrow> f64" where
  "f64_mul NaN y = NaN"
| "f64_mul x NaN = NaN"
| "f64_mul (Inf s) (Inf t) = Inf (s \<noteq> t)"
| "f64_mul (Inf s) (Fin t n) = (if n = 0 then NaN else Inf (s \<noteq> t))"
| "f64_mul (Fin s m) (Inf t) = (if m = 0 then NaN else Inf (s \<noteq> t))"
| "f64_mul (Fin s m) (Fin t n) = f64_round (s \<noteq> t) (m * n)"

fun f64_div :: "f64 \<Rightarrow> f64 \<Rightarrow> f64" where
  "f64_div NaN y = NaN"
| "f64_div x NaN = NaN"
| "f64_div (Inf s) (Inf t) = NaN"
| "f64_div (Inf s) (Fin t n) = Inf (s \<noteq> t)"
| "f64_div (Fin s m) (Inf t) = Fin (s \<noteq> t) 0"
| "f64_div (Fin s m) (Fin t n) =
     (if n = 0 then (if m = 0 then NaN else Inf (s \<noteq> t)) else f64_round (s \<noteq> t) (m / n))"

text \<open>Integer square root, bit by bit.\<close>

fun isqrt :: "nat \<Rightarrow> nat" where
  "isqrt n = (if n = 0 then 0 else
     let r = 2 * isqrt (n div 4) in if (r + 1) * (r + 1) \<le> n then r + 1 else r)"

declare isqrt.simps [simp del]

fun f64_sqrt :: "f64 \<Rightarrow> f64" where
  "f64_sqrt NaN = NaN"
| "f64_sqrt (Inf s) = (if s then NaN else Inf False)"
| "f64_sqrt (Fin s m) =
     (if m = 0 then Fin s 0 else if s then NaN else
      let e = floor_log2 m div 2 - 52;
          t = m / 4 powi e;
          f = int (isqrt (nat \<lfloor>t\<rfloor>));
          h = (of_int f + 1 / 2) * (of_int f + 1 / 2);
          q = (if t < h then f else if h < t then f + 1 else if even f then f else f + 1)
      in Fin False (of_int q * 2 powi e))"

section \<open>Comparison\<close>

text \<open>The extended order: infinities around the finite values. \<open>NaN\<close> is unordered.\<close>

fun f64_key :: "f64 \<Rightarrow> int \<times> rat" where
  "f64_key NaN = (0, 0)"
| "f64_key (Inf s) = ((if s then - 1 else 1), 0)"
| "f64_key (Fin s m) = (0, if s then - m else m)"

definition f64_lt :: "f64 \<Rightarrow> f64 \<Rightarrow> bool" where
  "f64_lt x y = (\<not> is_nan x \<and> \<not> is_nan y \<and> f64_key x < f64_key y)"

definition f64_le :: "f64 \<Rightarrow> f64 \<Rightarrow> bool" where
  "f64_le x y = (\<not> is_nan x \<and> \<not> is_nan y \<and> f64_key x \<le> f64_key y)"

definition f64_eq :: "f64 \<Rightarrow> f64 \<Rightarrow> bool" where
  "f64_eq x y = (\<not> is_nan x \<and> \<not> is_nan y \<and> f64_key x = f64_key y)"

definition partial_cmp :: "f64 \<Rightarrow> f64 \<Rightarrow> ordering option" where
  "partial_cmp x y = (if is_nan x \<or> is_nan y then None
     else Some (if f64_key x < f64_key y then Less
       else if f64_key y < f64_key x then Greater else Equal))"

text \<open>\<open>f64::max\<close> and \<open>f64::min\<close> ignore a \<open>NaN\<close> operand.\<close>

definition f64_max :: "f64 \<Rightarrow> f64 \<Rightarrow> f64" where
  "f64_max x y = (if is_nan x then y else if is_nan y then x else if f64_lt x y then y else x)"

definition f64_min :: "f64 \<Rightarrow> f64 \<Rightarrow> f64" where
  "f64_min x y = (if is_nan x then y else if is_nan y then x else if f64_lt y x then y else x)"

text \<open>\<open>f64::clamp\<close> keeps a \<open>NaN\<close>; the bounds are the literals the code passes.\<close>

definition f64_clamp :: "f64 \<Rightarrow> f64 \<Rightarrow> f64 \<Rightarrow> f64" where
  "f64_clamp x lo hi = (if f64_lt x lo then lo else if f64_lt hi x then hi else x)"

text \<open>\<open>n as f64\<close> for an unsigned integer.\<close>

definition f64_of_nat :: "nat \<Rightarrow> f64" where
  "f64_of_nat n = f64_round False (of_nat n)"


section \<open>Rounding is right\<close>

lemma round_even_of_int [simp]: "round_even (of_int k) = k"
  by (simp add: round_even_def)

lemma round_even_near: "\<bar>x - of_int (round_even x)\<bar> \<le> 1 / 2"
proof -
  have "0 \<le> x - of_int \<lfloor>x\<rfloor>" "x - of_int \<lfloor>x\<rfloor> < 1"
    using floor_correct [of x] by linarith+
  then have "\<bar>x - of_int \<lfloor>x\<rfloor>\<bar> = x - of_int \<lfloor>x\<rfloor>" "\<bar>x - of_int (\<lfloor>x\<rfloor> + 1)\<bar> = of_int \<lfloor>x\<rfloor> + 1 - x"
    by simp_all
  then show ?thesis by (simp add: round_even_def Let_def)
qed

lemma round_even_nonneg: "0 \<le> x \<Longrightarrow> 0 \<le> round_even x"
  by (auto simp: round_even_def Let_def)

lemma bitlen_rat_bounds:
  assumes "0 < n"
  shows "2 powi (bitlen n - 1) \<le> (of_int n :: rat)" "(of_int n :: rat) < 2 powi bitlen n"
proof -
  have ub: "n < 2 ^ nat (bitlen n)" and lb: "2 ^ nat (bitlen n - 1) \<le> n"
    using assms bitlen_bounds [of n] by auto
  have b: "0 < bitlen n" using ub assms by (cases "0 < bitlen n") auto
  have "(2 :: rat) powi (bitlen n - 1) = of_int (2 ^ nat (bitlen n - 1))"
    using b by (simp add: power_int_def)
  also have "\<dots> \<le> of_int n" using lb by (simp only: of_int_le_iff)
  finally show "2 powi (bitlen n - 1) \<le> (of_int n :: rat)" .
  have "(of_int n :: rat) < of_int (2 ^ nat (bitlen n))" using ub by (simp only: of_int_less_iff)
  also have "\<dots> = 2 powi bitlen n" using b by (simp add: power_int_def)
  finally show "(of_int n :: rat) < 2 powi bitlen n" .
qed

lemma floor_log2_bounds:
  assumes "0 < m"
  shows "2 powi floor_log2 m \<le> m" "m < 2 powi (floor_log2 m + 1)"
proof -
  obtain n d where q: "quotient_of m = (n, d)" by (cases "quotient_of m")
  then have d: "0 < d" and m: "m = of_int n / of_int d"
    by (simp_all add: quotient_of_denom_pos quotient_of_div)
  with assms have n: "0 < n" by (simp add: zero_less_divide_iff)
  let ?k = "bitlen n - bitlen d"
  have lo: "2 powi (?k - 1) \<le> m"
  proof -
    have "2 powi (?k - 1) = (2 :: rat) powi (bitlen n - 1) / 2 powi bitlen d"
      by (simp add: power_int_diff)
    also have "\<dots> \<le> of_int n / of_int d"
      by (rule frac_le) (use bitlen_rat_bounds [OF n] bitlen_rat_bounds [OF d] n d in
        \<open>auto intro: less_imp_le\<close>)
    finally show ?thesis by (simp add: m)
  qed
  have hi: "m < 2 powi (?k + 1)"
  proof -
    have "of_int n / of_int d < (2 :: rat) powi bitlen n / 2 powi (bitlen d - 1)"
      by (rule frac_less) (use bitlen_rat_bounds [OF n] bitlen_rat_bounds [OF d] n d in auto)
    also have "\<dots> = 2 powi (?k + 1)"
      by (simp add: power_int_diff [symmetric] algebra_simps)
    finally show ?thesis by (simp add: m)
  qed
  show "2 powi floor_log2 m \<le> m" "m < 2 powi (floor_log2 m + 1)"
    using lo hi by (auto simp: floor_log2_def q Let_def)
qed

text \<open>An integer below \<open>2 ^ 53\<close> is represented exactly.\<close>

lemma f64_round_of_nat:
  assumes "n < 2 ^ 53"
  shows "f64_round s (of_nat n) = Fin s (of_nat n)"
proof (cases "n = 0")
  case True
  then show ?thesis by (simp add: f64_round_def)
next
  case False
  let ?m = "of_nat n :: rat"
  let ?l = "floor_log2 ?m"
  have pos: "0 < ?m" using False by simp
  have lt: "?m < 2 powi 53"
  proof -
    have "?m < of_nat (2 ^ 53)" using assms by (simp only: of_nat_less_iff)
    then show ?thesis by (simp add: power_int_def)
  qed
  have "(2 :: rat) powi ?l < 2 powi 53" using floor_log2_bounds(1) [OF pos] lt by linarith
  then have "?l < 53" by (metis power_int_increasing [of 53 ?l "2 :: rat"] linorder_not_less one_le_numeral)
  moreover have "0 \<le> ?l"
  proof -
    have "(2 :: rat) powi 0 < 2 powi (?l + 1)"
      using floor_log2_bounds(2) [OF pos] False by (simp add: Suc_le_eq)
    then show ?thesis
      by (metis power_int_increasing [of "?l + 1" 0 "2 :: rat"] linorder_not_less one_le_numeral
          zless_add1_eq add.commute order_le_less zle_add1_eq_le)
  qed
  ultimately obtain k where k: "max (?l - 52) (- 1074) = - int k"
    by (intro that [of "nat (52 - ?l)"]) auto
  have "?m / 2 powi (- int k) = of_int (int n * 2 ^ k)"
    by (simp add: power_int_minus field_simps)
  then have "round_even (?m / 2 powi (- int k)) = int n * 2 ^ k"
    by (simp only: round_even_of_int)
  then have r: "of_int (round_even (?m / 2 powi (- int k))) * 2 powi (- int k) = ?m"
    by (simp add: power_int_minus field_simps)
  have "\<not> 2 ^ 1024 \<le> ?m"
  proof -
    have "(2 :: rat) ^ 53 \<le> 2 ^ 1024" by (rule power_increasing) auto
    with lt show ?thesis by (simp add: power_int_def)
  qed
  with False r show ?thesis by (simp add: f64_round_def k Let_def del: of_int_mult of_int_power)
qed

lemma f64_of_nat_exact: "n < 2 ^ 53 \<Longrightarrow> f64_of_nat n = Fin False (of_nat n)"
  by (simp add: f64_of_nat_def f64_round_of_nat)

lemma f64_round_numeral [simp]:
  "numeral n < (2 :: nat) ^ 53 \<Longrightarrow> f64_round s (numeral n) = Fin s (numeral n)"
  "f64_round s 1 = Fin s 1" "f64_round s 0 = Fin s 0"
  using f64_round_of_nat [of "numeral n" s] f64_round_of_nat [of 1 s] f64_round_of_nat [of 0 s]
  by simp_all

text \<open>The integer square root is the floor of the square root, and \<open>sqrt\<close> is exact on squares.\<close>

lemma isqrt_bounds: "isqrt n * isqrt n \<le> n \<and> n < (isqrt n + 1) * (isqrt n + 1)"
proof (induction n rule: isqrt.induct)
  case (1 n)
  show ?case
  proof (cases "n = 0")
    case True
    then show ?thesis by (simp add: isqrt.simps)
  next
    case False
    let ?q = "isqrt (n div 4)"
    have IH: "?q * ?q \<le> n div 4" "n div 4 < (?q + 1) * (?q + 1)" using 1 [OF False] by auto
    have "4 * (?q * ?q) \<le> n" using IH(1) by linarith
    moreover have "n < 4 * ((?q + 1) * (?q + 1))" using IH(2) by linarith
    moreover have "isqrt n = (if (2 * ?q + 1) * (2 * ?q + 1) \<le> n then 2 * ?q + 1 else 2 * ?q)"
      using False by (subst isqrt.simps) (simp add: Let_def)
    ultimately show ?thesis by (auto simp: algebra_simps)
  qed
qed

lemma isqrt_square: "isqrt (k * k) = k"
proof -
  have "isqrt (k * k) \<le> k"
    using isqrt_bounds [of "k * k"] by (metis linorder_not_le mult_strict_mono' not_less_zero zero_le order.strict_trans2 linorder_neqE_nat)
  moreover have "k < isqrt (k * k) + 1"
    using isqrt_bounds [of "k * k"] by (metis linorder_not_le mult_le_mono)
  ultimately show ?thesis by simp
qed

lemma f64_sqrt_square:
  assumes "0 < n" "n < 2 ^ 26"
  shows "f64_sqrt (Fin False (of_nat n * of_nat n)) = Fin False (of_nat n)"
proof -
  let ?m = "of_nat n * of_nat n :: rat"
  have pos: "0 < ?m" using assms by simp
  have "n * n < 2 ^ 26 * 2 ^ 26" using assms by (intro mult_strict_mono) auto
  then have "of_nat (n * n) < (of_nat (2 ^ 26 * 2 ^ 26) :: rat)" by (simp only: of_nat_less_iff)
  then have "?m < 2 powi 52" by (simp add: power_int_def)
  with floor_log2_bounds(1) [OF pos] have "(2 :: rat) powi floor_log2 ?m < 2 powi 52" by linarith
  then have "floor_log2 ?m < 52"
    by (metis power_int_increasing [of 52 "floor_log2 ?m" "2 :: rat"] linorder_not_less one_le_numeral)
  then obtain k where k: "floor_log2 ?m div 2 - 52 = - int k"
    by (intro that [of "nat (52 - floor_log2 ?m div 2)"]) auto
  let ?f = "n * 2 ^ k"
  have t: "?m / 4 powi (- int k) = of_nat (?f * ?f)"
    by (simp add: power_int_minus power_mult_distrib [symmetric] field_simps)
  then have "nat \<lfloor>?m / 4 powi (- int k)\<rfloor> = ?f * ?f"
    by (simp only: floor_of_nat nat_int)
  then have f: "int (isqrt (nat \<lfloor>?m / 4 powi (- int k)\<rfloor>)) = int ?f"
    by (simp only: isqrt_square)
  have h: "?m / 4 powi (- int k) < (of_int (int ?f) + 1 / 2) * (of_int (int ?f) + 1 / 2)"
    by (simp add: t algebra_simps add_pos_pos add_pos_nonneg)
  have "f64_sqrt (Fin False ?m) = Fin False (of_int (int ?f) * 2 powi (- int k))"
    using pos by (simp only: f64_sqrt.simps Let_def k f h less_irrefl if_True if_False
        order_less_imp_not_eq2)
  then show ?thesis by (simp add: power_int_minus)
qed

lemma f64_sqrt_zero [simp]: "f64_sqrt (Fin s 0) = Fin s 0"
  by (simp add: f64_sqrt.simps(3))

lemma f64_sqrt_numeral [simp]:
  "numeral n < (2 :: nat) ^ 26 \<Longrightarrow> f64_sqrt (Fin False (numeral n * numeral n)) = Fin False (numeral n)"
  using f64_sqrt_square [of "numeral n"] by simp

section \<open>Order and sign\<close>

lemma partial_cmp_Some: "\<not> is_nan x \<Longrightarrow> \<not> is_nan y \<Longrightarrow>
   partial_cmp x y = Some (if f64_key x < f64_key y then Less
       else if f64_key y < f64_key x then Greater else Equal)"
  by (simp add: partial_cmp_def)

lemma is_finite_not_nan: "is_finite x \<Longrightarrow> \<not> is_nan x"
  by (auto simp: is_finite_def is_nan_def)

lemma f64_le_refl [simp]: "f64_le x x \<longleftrightarrow> \<not> is_nan x"
  by (simp add: f64_le_def)

lemma f64_not_lt: "\<not> is_nan x \<Longrightarrow> \<not> is_nan y \<Longrightarrow> \<not> f64_lt x y \<longleftrightarrow> f64_le y x"
  by (auto simp: f64_lt_def f64_le_def)

lemma is_nan_simps [simp]: "is_nan NaN" "\<not> is_nan (Inf s)" "\<not> is_nan (Fin s m)"
  by (simp_all add: is_nan_def)

lemma f64_NaN2 [simp]: "f64_add x NaN = NaN" "f64_mul x NaN = NaN"
  by (cases x; simp)+

lemma f64_max_ge: "\<not> is_nan y \<Longrightarrow> f64_le y (f64_max x y)"
  by (auto simp: f64_max_def f64_lt_def f64_le_def)

lemma f64_min_le: "\<not> is_nan y \<Longrightarrow> f64_le (f64_min x y) y"
  by (auto simp: f64_min_def f64_lt_def f64_le_def)

lemma f64_min_le1: "\<not> is_nan x \<Longrightarrow> f64_le (f64_min x y) x"
  by (auto simp: f64_min_def f64_lt_def f64_le_def)

lemma f64_clamp_bounds:
  assumes "\<not> is_nan x" "f64_le lo hi"
  shows "f64_le lo (f64_clamp x lo hi)" "f64_le (f64_clamp x lo hi) hi"
  using assms by (auto simp: f64_clamp_def f64_lt_def f64_le_def)

text \<open>\<open>nonneg x\<close>: not a number, or carrying no minus sign.\<close>

definition nonneg :: "f64 \<Rightarrow> bool" where
  "nonneg x = (case x of NaN \<Rightarrow> True | Inf s \<Rightarrow> \<not> s | Fin s m \<Rightarrow> \<not> s \<and> 0 \<le> m)"

lemma nonneg_le: "nonneg x \<Longrightarrow> \<not> is_nan x \<Longrightarrow> f64_le f64_zero x"
  by (cases x) (auto simp: nonneg_def f64_le_def)

lemma nonneg_round: "0 \<le> m \<Longrightarrow> nonneg (f64_round False m)"
  by (simp add: f64_round_def nonneg_def Let_def round_even_nonneg del: power_numeral)

lemma nonneg_square: "0 \<le> mag x \<or> \<not> is_finite x \<Longrightarrow> nonneg (f64_mul x x)"
  by (cases x) (auto simp: nonneg_round, auto simp: nonneg_def is_finite_def)

lemma nonneg_add: "nonneg x \<Longrightarrow> nonneg y \<Longrightarrow> nonneg (f64_add x y)"
proof (cases "is_finite x \<and> is_finite y")
  case True
  moreover assume "nonneg x" "nonneg y"
  ultimately obtain m n where "x = Fin False m" "y = Fin False n" "0 \<le> m" "0 \<le> n"
    by (auto simp: is_finite_def nonneg_def split: f64.splits)
  then show ?thesis
    by (simp add: val_def of_exact_def Let_def nonneg_round) (simp add: nonneg_def)
next
  case False
  moreover assume "nonneg x" "nonneg y"
  ultimately show ?thesis by (cases x; cases y) (auto simp: nonneg_def is_finite_def)
qed

lemma nonneg_sqrt: "nonneg x \<Longrightarrow> nonneg (f64_sqrt x)"
  by (cases x) (auto simp: nonneg_def Let_def)

lemma f64_round_neg: "f64_round (\<not> s) m = f64_neg (f64_round s m)"
  by (simp add: f64_round_def Let_def)

lemma f64_abs_neg [simp]: "f64_abs (f64_neg x) = f64_abs x"
  by (cases x) auto

lemma f64_sub_swap_abs: "f64_abs (f64_sub x y) = f64_abs (f64_sub y x)"
proof (cases "is_finite x \<and> is_finite y")
  case True
  then obtain s m t n where x: "x = Fin s m" and y: "y = Fin t n"
    by (auto simp: is_finite_def split: f64.splits)
  let ?q = "val x - val y"
  have xy: "f64_sub x y = (if ?q = 0 then Fin (s \<and> \<not> t) 0 else of_exact ?q)"
    by (simp add: x y f64_sub_def val_def Let_def)
  have yx: "f64_sub y x = (if ?q = 0 then Fin (t \<and> \<not> s) 0 else of_exact (- ?q))"
    by (simp add: x y f64_sub_def val_def Let_def algebra_simps)
  have "of_exact (- ?q) = f64_neg (of_exact ?q)" if "?q \<noteq> 0"
    using that f64_round_neg [of "?q < 0" "\<bar>?q\<bar>"]
    by (auto simp: of_exact_def abs_if linorder_not_less order_le_less split: if_splits)
  with xy yx show ?thesis by auto
next
  case False
  then show ?thesis
    by (cases x; cases y) (auto simp: f64_sub_def is_finite_def)
qed

lemma f64_square_abs: "f64_mul (f64_abs x) (f64_abs x) = f64_mul x x"
  by (cases x) auto

lemma f64_square_sub: "f64_mul (f64_sub x y) (f64_sub x y) = f64_mul (f64_sub y x) (f64_sub y x)"
  by (metis f64_square_abs f64_sub_swap_abs)

text \<open>Rounding a magnitude of at most one moves it by less than one.\<close>

lemma f64_round_small:
  assumes "0 < m" "m \<le> 1"
  obtains v where "f64_round s m = Fin s v" "v \<le> m + 1"
proof -
  let ?e = "max (floor_log2 m - 52) (- 1074)"
  let ?v = "of_int (round_even (m / 2 powi ?e)) * 2 powi ?e :: rat"
  have "(2 :: rat) powi floor_log2 m \<le> 2 powi 0" using floor_log2_bounds(1) [OF assms(1)] assms(2) by simp
  then have "floor_log2 m \<le> 0"
    by (metis linorder_not_less power_int_strict_increasing [of 0 "floor_log2 m" "2 :: rat"] one_less_numeral_iff semiring_norm(76))
  then have "(2 :: rat) powi ?e \<le> 2 powi 0" by (intro power_int_increasing) auto
  then have e: "(2 :: rat) powi ?e \<le> 1" by simp
  have "of_int (round_even (m / 2 powi ?e)) \<le> m / 2 powi ?e + 1 / 2"
    using round_even_near [of "m / 2 powi ?e"] by linarith
  then have "?v \<le> (m / 2 powi ?e + 1 / 2) * 2 powi ?e" by (intro mult_right_mono) auto
  also have "\<dots> = m + 2 powi ?e / 2" by (simp add: field_simps)
  also have "\<dots> \<le> m + 1" using e by simp
  finally have v: "?v \<le> m + 1" .
  have "(2 :: rat) ^ 1 \<le> 2 ^ 1023" by (rule power_increasing) auto
  then have "(2 :: rat) < 2 ^ 1024" by (simp only: power_one_right power_Suc eval_nat_numeral) simp
  then have "\<not> 2 ^ 1024 \<le> ?v" using v assms(2) by linarith
  then have "f64_round s m = Fin s ?v" using assms(1) by (simp only: f64_round_def Let_def if_False order_less_imp_not_eq2)
  then show ?thesis using v by (rule that)
qed

lemma f64_cmp_Fin [simp]:
  "f64_lt (Fin s m) (Fin t n) \<longleftrightarrow> val (Fin s m) < val (Fin t n)"
  "f64_le (Fin s m) (Fin t n) \<longleftrightarrow> val (Fin s m) \<le> val (Fin t n)"
  by (auto simp: f64_lt_def f64_le_def val_def)

declare f64_sqrt.simps(3) [simp del]

end
