(* ===== verification/SwarmTypes.thy ===== *)
theory SwarmTypes
  imports F64
begin

text \<open>
  The data model of the crate \<open>swarm-types\<close>: poses, agents, tasks, the agent view handed to the
  allocators and the mission adapters. Newtype identifiers are byte strings; field names carry the
  prefix of their struct. Serialisation attributes have no counterpart.
\<close>

type_synonym AgentId = string
type_synonym TaskId = string
type_synonym Capability = string
type_synonym EdgeId = string

section \<open>Poses\<close>

record Pose =
  px :: f64
  py :: f64
  pz :: f64

definition default_pose :: Pose where
  "default_pose = \<lparr>px = f64_zero, py = f64_zero, pz = f64_zero\<rparr>"

definition distance_to :: "Pose \<Rightarrow> Pose \<Rightarrow> f64" where
  "distance_to a b =
     (let dx = f64_sub (px a) (px b); dy = f64_sub (py a) (py b); dz = f64_sub (pz a) (pz b)
      in f64_sqrt (f64_add (f64_add (f64_mul dx dx) (f64_mul dy dy)) (f64_mul dz dz)))"

definition distance_to_2d :: "Pose \<Rightarrow> Pose \<Rightarrow> f64" where
  "distance_to_2d a b =
     (let dx = f64_sub (px a) (px b); dy = f64_sub (py a) (py b)
      in f64_sqrt (f64_add (f64_mul dx dx) (f64_mul dy dy)))"

record Aabb =
  min_x :: f64
  min_y :: f64
  max_x :: f64
  max_y :: f64

definition aabb_contains :: "Aabb \<Rightarrow> Pose \<Rightarrow> bool" where
  "aabb_contains b p = (f64_le (min_x b) (px p) \<and> f64_le (px p) (max_x b)
     \<and> f64_le (min_y b) (py p) \<and> f64_le (py p) (max_y b))"

section \<open>Agents\<close>

datatype Health = Alive | Degraded | Dead

datatype Role = Scout | Relay | Mapper | Inspector | Carrier | Thermal

record BatteryModel =
  hover_drain_per_tick :: f64
  climb_drain_per_meter :: f64
  cruise_drain_per_meter :: f64
  bm_reserve_fraction :: f64

record Agent =
  a_id :: AgentId
  a_role :: Role
  a_health :: Health
  a_pose :: Pose
  a_capabilities :: "Capability list"
  a_current_task :: "TaskId option"
  a_battery :: f64
  a_comms_range :: f64
  a_generation :: u64
  a_speed :: f64
  a_max_range :: f64
  a_battery_drain_rate :: f64
  a_battery_model :: "BatteryModel option"

section \<open>Tasks\<close>

datatype TaskStatus = Unassigned | Assigned | InProgress | Completed | Failed

datatype TaskKind = CoverageCell | SarScan | SarConfirmationScan | InspectionEdge
  | RelayPlacement | Waypoint | MappingZone

record Task =
  t_id :: TaskId
  t_status :: TaskStatus
  t_assigned_to :: "AgentId option"
  t_priority :: u8
  t_required_capabilities :: "Capability list"
  t_required_role :: "Role option"
  t_preferred_role :: "Role option"
  t_expires_at :: "u64 option"
  t_pose :: "Pose option"
  t_grid_cell :: "(u32 \<times> u32) option"
  t_edge_id :: "EdgeId option"
  t_kind :: "TaskKind option"

section \<open>The agent view of the allocators\<close>

record AllocationAgent =
  aa_id :: AgentId
  aa_pose :: Pose
  aa_battery :: f64
  aa_capabilities :: "Capability list"
  aa_role :: Role
  aa_comms_range :: f64
  aa_speed :: f64
  aa_max_range :: f64
  aa_battery_drain_rate :: f64

section \<open>Mission adapters\<close>

text \<open>The trait object \<open>&dyn MissionAdapter\<close> ranges over the six unit structs of \<open>adapter.rs\<close>;
  it is a tag, and the trait methods dispatch on it.\<close>

datatype MissionAdapter = CoverageAdapter | SarAdapter | InspectionAdapter | WildfireAdapter
  | RelayAdapter | WaypointAdapter

record RunState =
  scanned_cells :: "(u32 \<times> u32) set"
  covered_edges :: "EdgeId set"
  completed_tasks :: "TaskId set"
  mapped_zones :: "string set"

definition adapter_route_cost :: "MissionAdapter \<Rightarrow> Pose \<Rightarrow> Task \<Rightarrow> f64" where
  "adapter_route_cost ad from t =
     (let dest = (case t_pose t of Some p \<Rightarrow> p | None \<Rightarrow> default_pose) in distance_to_2d from dest)"

fun adapter_is_completed :: "MissionAdapter \<Rightarrow> Task \<Rightarrow> RunState \<Rightarrow> bool" where
  "adapter_is_completed CoverageAdapter t s = (t_id t \<in> completed_tasks s)"
| "adapter_is_completed SarAdapter t s =
     (case t_grid_cell t of Some c \<Rightarrow> c \<in> scanned_cells s | None \<Rightarrow> False)"
| "adapter_is_completed InspectionAdapter t s =
     (case t_edge_id t of Some e \<Rightarrow> e \<in> covered_edges s | None \<Rightarrow> False)"
| "adapter_is_completed WildfireAdapter t s = (t_id t \<in> mapped_zones s)"
| "adapter_is_completed RelayAdapter t s = (t_id t \<in> completed_tasks s)"
| "adapter_is_completed WaypointAdapter t s = (t_id t \<in> completed_tasks s)"

definition proximity_battery :: "rat \<Rightarrow> MissionAdapter \<Rightarrow> AllocationAgent \<Rightarrow> Task \<Rightarrow> f64" where
  "proximity_battery w ad a t =
     (let distance = adapter_route_cost ad (aa_pose a) t;
          battery_factor = f64_div (aa_battery a) (f64_lit 100)
      in f64_add (f64_sub (f64_lit 1000) distance) (f64_mul battery_factor (f64_lit w)))"

fun adapter_score :: "MissionAdapter \<Rightarrow> AllocationAgent \<Rightarrow> Task \<Rightarrow> f64" where
  "adapter_score CoverageAdapter a t = proximity_battery 100 CoverageAdapter a t"
| "adapter_score SarAdapter a t =
     f64_add (proximity_battery 50 SarAdapter a t)
       (f64_mul (f64_of_nat (unat (t_priority t))) (f64_lit 10))"
| "adapter_score InspectionAdapter a t =
     f64_add (proximity_battery 50 InspectionAdapter a t)
       (f64_mul (f64_of_nat (unat (t_priority t))) (f64_lit 5))"
| "adapter_score WildfireAdapter a t =
     f64_add (f64_add (proximity_battery 50 WildfireAdapter a t)
         (f64_mul (f64_of_nat (unat (t_priority t))) (f64_lit 20)))
       (if 8 \<le> t_priority t then f64_lit 200 else f64_zero)"
| "adapter_score RelayAdapter a t = proximity_battery 50 RelayAdapter a t"
| "adapter_score WaypointAdapter a t = proximity_battery 50 WaypointAdapter a t"

text \<open>\<open>AdapterRegistry::get\<close>.\<close>

fun adapter_get :: "TaskKind \<Rightarrow> MissionAdapter" where
  "adapter_get CoverageCell = CoverageAdapter"
| "adapter_get SarScan = SarAdapter"
| "adapter_get SarConfirmationScan = SarAdapter"
| "adapter_get InspectionEdge = InspectionAdapter"
| "adapter_get MappingZone = WildfireAdapter"
| "adapter_get RelayPlacement = RelayAdapter"
| "adapter_get Waypoint = WaypointAdapter"

definition adapter_for_task :: "Task \<Rightarrow> MissionAdapter option" where
  "adapter_for_task t = map_option adapter_get (t_kind t)"

fun adapter_task_kind :: "MissionAdapter \<Rightarrow> TaskKind" where
  "adapter_task_kind CoverageAdapter = CoverageCell"
| "adapter_task_kind SarAdapter = SarScan"
| "adapter_task_kind InspectionAdapter = InspectionEdge"
| "adapter_task_kind WildfireAdapter = MappingZone"
| "adapter_task_kind RelayAdapter = RelayPlacement"
| "adapter_task_kind WaypointAdapter = Waypoint"

section \<open>Properties\<close>

lemma distance_to_sym: "distance_to a b = distance_to b a"
  unfolding distance_to_def Let_def
  by (simp only: f64_square_sub [of "px a" "px b"] f64_square_sub [of "py a" "py b"]
      f64_square_sub [of "pz a" "pz b"])

lemma distance_to_2d_sym: "distance_to_2d a b = distance_to_2d b a"
  unfolding distance_to_2d_def Let_def
  by (simp only: f64_square_sub [of "px a" "px b"] f64_square_sub [of "py a" "py b"])

lemma adapter_get_serves_kind:
  "adapter_task_kind (adapter_get k) = (if k = SarConfirmationScan then SarScan else k)"
  by (cases k) auto

end
