(* ===== verification/Connectivity.thy ===== *)
theory Connectivity
  imports SwarmTypes
begin

text \<open>
  \<open>swarm-comms/src/connectivity.rs\<close>: the mesh as a graph of range-limited links and the breadth
  first searches over it. Hop counts are \<open>usize\<close>; they are bounded by the number of nodes, so they
  are naturals here. Both search loops are total: each round takes one node off the queue and only
  puts nodes on it that it adds to the visited set.

  The properties: the adjacency lists are exactly the symmetric link relation, and both searches
  return exactly the least number of hops.
\<close>

section \<open>The link graph\<close>

record ConnectivitySnapshot =
  agent_entries :: "(AgentId \<times> Pose \<times> f64 \<times> Health) list"
  ground_nodes :: "(string \<times> Pose \<times> f64) list"
  cs_base_id :: string
  base_pose :: Pose

definition is_infinite :: "f64 \<Rightarrow> bool" where
  "is_infinite x = (\<not> is_nan x \<and> \<not> is_finite x)"

definition direct_link :: "Pose \<Rightarrow> f64 \<Rightarrow> Pose \<Rightarrow> f64 \<Rightarrow> bool" where
  "direct_link a range_a b range_b =
     (let dx = f64_sub (px a) (px b); dy = f64_sub (py a) (py b);
          distance = f64_sqrt (f64_add (f64_mul dx dx) (f64_mul dy dy));
          min_range = f64_min range_a range_b
      in if is_infinite min_range then True else f64_le distance min_range)"

type_synonym mesh_node = "string \<times> Pose \<times> f64"

definition mesh_nodes :: "ConnectivitySnapshot \<Rightarrow> mesh_node list" where
  "mesh_nodes s = [(cs_base_id s, base_pose s, Inf False)]
     @ map (\<lambda>(i, p, r, h). (i, p, r)) (filter (\<lambda>(i, p, r, h). h = Alive) (agent_entries s))
     @ ground_nodes s"

definition node_link :: "mesh_node \<Rightarrow> mesh_node \<Rightarrow> bool" where
  "node_link a b = (case a of (_, pa, ra) \<Rightarrow> case b of (_, pb, rb) \<Rightarrow> direct_link pa ra pb rb)"

type_synonym adjacency = "(string, string list) hmap"

definition neighbors :: "adjacency \<Rightarrow> string \<Rightarrow> string list" where
  "neighbors adj x = (case hm_get adj x of Some ns \<Rightarrow> ns | None \<Rightarrow> [])"

text \<open>\<open>entry(k).or_default().push(v)\<close>\<close>

definition push_neighbor :: "string \<Rightarrow> string \<Rightarrow> adjacency \<Rightarrow> adjacency" where
  "push_neighbor k v adj = hm_insert k (neighbors adj k @ [v]) adj"

definition link_pair :: "mesh_node \<Rightarrow> adjacency \<Rightarrow> mesh_node \<Rightarrow> adjacency" where
  "link_pair a adj b =
     (if node_link a b then push_neighbor (fst b) (fst a) (push_neighbor (fst a) (fst b) adj) else adj)"

text \<open>The two nested index loops: each node against all later ones.\<close>

fun link_all :: "mesh_node list \<Rightarrow> adjacency \<Rightarrow> adjacency" where
  "link_all [] adj = adj"
| "link_all (a # ns) adj = link_all ns (foldl (link_pair a) adj ns)"

definition build_adjacency :: "ConnectivitySnapshot \<Rightarrow> adjacency" where
  "build_adjacency s = link_all (mesh_nodes s) []"

section \<open>Breadth first search\<close>

type_synonym hop_queue = "(string \<times> nat) list"

text \<open>The loop over the neighbours of the node taken off the queue.\<close>

fun visit_neighbors ::
  "nat \<Rightarrow> string list \<Rightarrow> (string, nat) hmap \<times> hop_queue \<Rightarrow> (string, nat) hmap \<times> hop_queue"
where
  "visit_neighbors hops [] s = s"
| "visit_neighbors hops (n # ns) (visited, queue) =
     (if hm_get visited n = None
      then visit_neighbors hops ns (hm_insert n (hops + 1) visited, queue @ [(n, hops + 1)])
      else visit_neighbors hops ns (visited, queue))"

definition universe :: "adjacency \<Rightarrow> string set" where
  "universe adj = (\<Union>ns\<in>set (hm_values adj). set ns)"

definition unseen :: "adjacency \<Rightarrow> (string, nat) hmap \<Rightarrow> string set" where
  "unseen adj visited = {x \<in> universe adj. hm_get visited x = None}"

lemma finite_universe [simp]: "finite (universe adj)" "finite (unseen adj v)"
  by (auto simp: universe_def unseen_def)

lemma neighbors_universe: "set (neighbors adj x) \<subseteq> universe adj"
proof (cases "hm_get adj x")
  case None
  then show ?thesis by (simp add: neighbors_def)
next
  case (Some ns)
  then have "ns \<in> set (hm_values adj)" by (force dest: hm_get_SomeD)
  with Some show ?thesis by (auto simp: neighbors_def universe_def)
qed

text \<open>Every push is paid for by a node that stops being unseen.\<close>

lemma visit_neighbors_measure:
  "set ns \<subseteq> universe adj \<Longrightarrow>
   2 * card (unseen adj (fst (visit_neighbors h ns (v, q)))) + length (snd (visit_neighbors h ns (v, q)))
     \<le> 2 * card (unseen adj v) + length q"
proof (induction ns arbitrary: v q)
  case Nil
  then show ?case by simp
next
  case (Cons n ns)
  show ?case
  proof (cases "hm_get v n = None")
    case True
    have "unseen adj (hm_insert n (h + 1) v) = unseen adj v - {n}" by (auto simp: unseen_def)
    moreover have "n \<in> unseen adj v" using True Cons.prems by (simp add: unseen_def)
    ultimately have "Suc (card (unseen adj (hm_insert n (h + 1) v))) = card (unseen adj v)"
      using card_Suc_Diff1 [of "unseen adj v" n] by simp
    with Cons.IH [of "hm_insert n (h + 1) v" "q @ [(n, h + 1)]"] Cons.prems True show ?thesis
      by simp
  next
    case False
    with Cons show ?thesis by auto
  qed
qed

lemma visit_step_measure:
  "(case visit_neighbors h (neighbors adj x) (v, q) of (v', q') \<Rightarrow> 2 * card (unseen adj v') + length q')
     < Suc (2 * card (unseen adj v) + length q)"
  using visit_neighbors_measure [OF neighbors_universe, of adj h x v q] by (cases "visit_neighbors h (neighbors adj x) (v, q)") auto

function bfs_loop :: "adjacency \<Rightarrow> (string, nat) hmap \<Rightarrow> hop_queue \<Rightarrow> (string, nat) hmap" where
  "bfs_loop adj visited [] = visited"
| "bfs_loop adj visited ((current, hops) # queue) =
     (case visit_neighbors hops (neighbors adj current) (visited, queue) of
        (visited', queue') \<Rightarrow> bfs_loop adj visited' queue')"
  by pat_completeness auto

termination
  by (relation "measure (\<lambda>(adj, v, q). 2 * card (unseen adj v) + length q)")
    (auto simp: visit_step_measure)

definition reachability_from_base :: "ConnectivitySnapshot \<Rightarrow> (string, nat) hmap" where
  "reachability_from_base s =
     bfs_loop (build_adjacency s) (hm_insert (cs_base_id s) 0 []) [(cs_base_id s, 0)]"

definition availability_fraction :: "(string, nat) hmap \<Rightarrow> AgentId list \<Rightarrow> f64" where
  "availability_fraction reachability ids =
     (if ids = [] then f64_lit 1
      else f64_div (f64_of_nat (length (filter (\<lambda>i. hm_get reachability i \<noteq> None) ids)))
             (f64_of_nat (length ids)))"

text \<open>\<open>hop_count_between\<close> keeps a set of visited nodes and stops at the target.\<close>

fun visit_neighbors_set :: "nat \<Rightarrow> string list \<Rightarrow> string set \<times> hop_queue \<Rightarrow> string set \<times> hop_queue" where
  "visit_neighbors_set hops [] s = s"
| "visit_neighbors_set hops (n # ns) (visited, queue) =
     (if n \<notin> visited then visit_neighbors_set hops ns (insert n visited, queue @ [(n, hops + 1)])
      else visit_neighbors_set hops ns (visited, queue))"

lemma visit_neighbors_set_measure:
  "set ns \<subseteq> universe adj \<Longrightarrow>
   2 * card (universe adj - fst (visit_neighbors_set h ns (v, q))) + length (snd (visit_neighbors_set h ns (v, q)))
     \<le> 2 * card (universe adj - v) + length q"
proof (induction ns arbitrary: v q)
  case Nil
  then show ?case by simp
next
  case (Cons n ns)
  show ?case
  proof (cases "n \<in> v")
    case False
    have "universe adj - insert n v = universe adj - v - {n}" by auto
    moreover have "n \<in> universe adj - v" using False Cons.prems by simp
    ultimately have "Suc (card (universe adj - insert n v)) = card (universe adj - v)"
      using card_Suc_Diff1 [of "universe adj - v" n] by simp
    with Cons.IH [of "insert n v" "q @ [(n, h + 1)]"] Cons.prems False show ?thesis
      by simp
  next
    case True
    with Cons show ?thesis by auto
  qed
qed

lemma visit_step_set_measure:
  "(case visit_neighbors_set h (neighbors adj x) (v, q) of
      (v', q') \<Rightarrow> 2 * card (universe adj - v') + length q') < Suc (2 * card (universe adj - v) + length q)"
  using visit_neighbors_set_measure [OF neighbors_universe, of adj h x v q]
  by (cases "visit_neighbors_set h (neighbors adj x) (v, q)") auto

function hop_loop :: "adjacency \<Rightarrow> string \<Rightarrow> string set \<Rightarrow> hop_queue \<Rightarrow> nat option" where
  "hop_loop adj dest visited [] = None"
| "hop_loop adj dest visited ((current, hops) # queue) =
     (if current = dest then Some hops
      else case visit_neighbors_set hops (neighbors adj current) (visited, queue) of
        (visited', queue') \<Rightarrow> hop_loop adj dest visited' queue')"
  by pat_completeness auto

termination
  by (relation "measure (\<lambda>(adj, d, v, q). 2 * card (universe adj - v) + length q)")
    (auto simp: visit_step_set_measure)

definition hop_count_between :: "ConnectivitySnapshot \<Rightarrow> string \<Rightarrow> string \<Rightarrow> nat option" where
  "hop_count_between s from_id to_id = hop_loop (build_adjacency s) to_id {from_id} [(from_id, 0)]"

section \<open>The adjacency lists are the link relation\<close>

definition linked :: "mesh_node list \<Rightarrow> string \<Rightarrow> string \<Rightarrow> bool" where
  "linked ns x y = (\<exists>i j. i < j \<and> j < length ns \<and> node_link (ns ! i) (ns ! j) \<and>
     (fst (ns ! i) = x \<and> fst (ns ! j) = y \<or> fst (ns ! i) = y \<and> fst (ns ! j) = x))"

lemma linked_sym: "linked ns x y = linked ns y x"
  by (auto simp: linked_def)

lemma linked_Nil [simp]: "\<not> linked [] x y"
  by (simp add: linked_def)

lemma linked_Cons:
  "linked (a # ns) x y \<longleftrightarrow> linked ns x y \<or>
     (\<exists>b\<in>set ns. node_link a b \<and> (fst a = x \<and> fst b = y \<or> fst a = y \<and> fst b = x))"
proof
  assume "linked (a # ns) x y"
  then obtain i j where ij: "i < j" "j < length (a # ns)" "node_link ((a # ns) ! i) ((a # ns) ! j)"
    "fst ((a # ns) ! i) = x \<and> fst ((a # ns) ! j) = y \<or> fst ((a # ns) ! i) = y \<and> fst ((a # ns) ! j) = x"
    unfolding linked_def by blast
  then obtain j' where j: "j = Suc j'" "j' < length ns" by (cases j) auto
  show "linked ns x y \<or> (\<exists>b\<in>set ns. node_link a b \<and> (fst a = x \<and> fst b = y \<or> fst a = y \<and> fst b = x))"
  proof (cases i)
    case 0
    with ij j show ?thesis by (intro disjI2 bexI [of _ "ns ! j'"]) auto
  next
    case (Suc i')
    with ij j have "linked ns x y" by (auto simp: linked_def)
    then show ?thesis ..
  qed
next
  assume "linked ns x y \<or> (\<exists>b\<in>set ns. node_link a b \<and> (fst a = x \<and> fst b = y \<or> fst a = y \<and> fst b = x))"
  then show "linked (a # ns) x y"
  proof
    assume "linked ns x y"
    then obtain i j where "i < j" "j < length ns" "node_link (ns ! i) (ns ! j)"
      "fst (ns ! i) = x \<and> fst (ns ! j) = y \<or> fst (ns ! i) = y \<and> fst (ns ! j) = x"
      unfolding linked_def by blast
    then show ?thesis unfolding linked_def by (intro exI [of _ "Suc i"] exI [of _ "Suc j"]) simp
  next
    assume "\<exists>b\<in>set ns. node_link a b \<and> (fst a = x \<and> fst b = y \<or> fst a = y \<and> fst b = x)"
    then obtain j where "j < length ns" "node_link a (ns ! j)"
      "fst a = x \<and> fst (ns ! j) = y \<or> fst a = y \<and> fst (ns ! j) = x"
      by (auto simp: in_set_conv_nth)
    then show ?thesis unfolding linked_def by (intro exI [of _ 0] exI [of _ "Suc j"]) simp
  qed
qed

lemma neighbors_push [simp]:
  "set (neighbors (push_neighbor k v adj) x) = (if x = k then {v} else {}) \<union> set (neighbors adj x)"
proof -
  have "hm_get (push_neighbor k v adj) x = (if x = k then Some (neighbors adj k @ [v]) else hm_get adj x)"
    unfolding push_neighbor_def by (rule hm_get_insert)
  then have "neighbors (push_neighbor k v adj) x = (if x = k then neighbors adj k @ [v] else neighbors adj x)"
    unfolding neighbors_def [of _ x] by (simp only: option.case if_split) simp
  then show ?thesis by simp
qed

lemma neighbors_link_pair:
  "y \<in> set (neighbors (link_pair a adj b) x) \<longleftrightarrow> y \<in> set (neighbors adj x) \<or>
     node_link a b \<and> (fst a = x \<and> fst b = y \<or> fst a = y \<and> fst b = x)"
  by (auto simp: link_pair_def split: if_splits)

lemma neighbors_link_row:
  "y \<in> set (neighbors (foldl (link_pair a) adj ns) x) \<longleftrightarrow> y \<in> set (neighbors adj x) \<or>
     (\<exists>b\<in>set ns. node_link a b \<and> (fst a = x \<and> fst b = y \<or> fst a = y \<and> fst b = x))"
  by (induction ns arbitrary: adj) (auto simp: neighbors_link_pair)

lemma neighbors_link_all:
  "y \<in> set (neighbors (link_all ns adj) x) \<longleftrightarrow> y \<in> set (neighbors adj x) \<or> linked ns x y"
  by (induction ns arbitrary: adj) (auto simp: linked_Cons neighbors_link_row)

lemma neighbors_build:
  "y \<in> set (neighbors (build_adjacency s) x) \<longleftrightarrow> linked (mesh_nodes s) x y"
  by (simp add: build_adjacency_def neighbors_link_all) (simp add: neighbors_def)

section \<open>Walks\<close>

fun walk :: "adjacency \<Rightarrow> nat \<Rightarrow> string \<Rightarrow> string \<Rightarrow> bool" where
  "walk adj 0 x y = (x = y)"
| "walk adj (Suc n) x z = (\<exists>y. walk adj n x y \<and> z \<in> set (neighbors adj y))"

text \<open>The invariant of the search from \<open>src\<close>: visited nodes carry the length of a walk, queued nodes
  are visited, the queue is ordered and spans at most two levels, nothing visited is deeper than the
  level after the front, and the neighbours of every finished node are visited at most one level
  below it.\<close>

definition bfs_inv :: "adjacency \<Rightarrow> string \<Rightarrow> (string \<rightharpoonup> nat) \<Rightarrow> hop_queue \<Rightarrow> bool" where
  "bfs_inv adj src seen q = (
     seen src = Some 0 \<and>
     (\<forall>x h. seen x = Some h \<longrightarrow> walk adj h src x) \<and>
     (\<forall>(x, h)\<in>set q. seen x = Some h) \<and>
     sorted (map snd q) \<and>
     (\<forall>x h. q \<noteq> [] \<and> seen x = Some h \<longrightarrow> h \<le> Suc (snd (hd q))) \<and>
     (\<forall>x h. seen x = Some h \<and> (x, h) \<notin> set q \<longrightarrow>
        (\<forall>y\<in>set (neighbors adj x). \<exists>k. seen y = Some k \<and> k \<le> Suc h)))"

text \<open>A walk no longer than the level of the queue front ends in a node visited at most that deep.\<close>

lemma bfs_inv_walk:
  assumes "bfs_inv adj src seen q" "walk adj n src x" "q \<noteq> [] \<Longrightarrow> n \<le> snd (hd q)"
  shows "\<exists>k. seen x = Some k \<and> k \<le> n"
  using assms(2,3)
proof (induction n arbitrary: x)
  case 0
  then show ?case using assms(1) by (simp add: bfs_inv_def)
next
  case (Suc n)
  then obtain y where y: "walk adj n src y" "x \<in> set (neighbors adj y)" by auto
  have "q \<noteq> [] \<Longrightarrow> n \<le> snd (hd q)" using Suc.prems(2) by simp
  from Suc.IH [OF y(1) this] obtain k where k: "seen y = Some k" "k \<le> n" by blast
  have "(y, k) \<notin> set q"
  proof
    assume m: "(y, k) \<in> set q"
    then obtain a qs where q: "q = a # qs" by (cases q) auto
    have "sorted (map snd q)" using assms(1) by (simp add: bfs_inv_def)
    with m q have "snd (hd q) \<le> k" by auto
    with Suc.prems(2) k(2) q show False by simp
  qed
  then have "\<exists>k'. seen x = Some k' \<and> k' \<le> Suc k"
    using assms(1) k(1) y(2) by (simp add: bfs_inv_def)
  with k(2) show ?case by (meson Suc_le_mono order_trans)
qed

lemma visit_neighbors_spec:
  "visit_neighbors h ns (v, q) = (v', q') \<Longrightarrow>
     (\<forall>y. hm_get v' y = (if y \<in> set ns \<and> hm_get v y = None then Some (Suc h) else hm_get v y)) \<and>
     (\<exists>new. q' = q @ new \<and> set new = {(y, Suc h) | y. y \<in> set ns \<and> hm_get v y = None})"
proof (induction ns arbitrary: v q)
  case Nil
  then show ?case by simp
next
  case (Cons n ns)
  show ?case
  proof (cases "hm_get v n = None")
    case True
    with Cons.prems have "visit_neighbors h ns (hm_insert n (Suc h) v, q @ [(n, Suc h)]) = (v', q')"
      by simp
    from Cons.IH [OF this] obtain new where
      "\<forall>y. hm_get v' y = (if y \<in> set ns \<and> hm_get (hm_insert n (Suc h) v) y = None then Some (Suc h)
         else hm_get (hm_insert n (Suc h) v) y)"
      "q' = (q @ [(n, Suc h)]) @ new"
      "set new = {(y, Suc h) | y. y \<in> set ns \<and> hm_get (hm_insert n (Suc h) v) y = None}" by blast
    with True show ?thesis
      by (intro conjI exI [of _ "(n, Suc h) # new"]) auto
  next
    case False
    with Cons.prems Cons.IH [of v q] show ?thesis by auto
  qed
qed

lemma visit_neighbors_set_spec:
  "visit_neighbors_set h ns (v, q) = (v', q') \<Longrightarrow>
     v' = v \<union> set ns \<and>
     (\<exists>new. q' = q @ new \<and> set new = {(y, Suc h) | y. y \<in> set ns \<and> y \<notin> v})"
proof (induction ns arbitrary: v q)
  case Nil
  then show ?case by simp
next
  case (Cons n ns)
  show ?case
  proof (cases "n \<in> v")
    case False
    with Cons.prems have "visit_neighbors_set h ns (insert n v, q @ [(n, Suc h)]) = (v', q')"
      by simp
    from Cons.IH [OF this] obtain new where "v' = insert n v \<union> set ns"
      "q' = (q @ [(n, Suc h)]) @ new" "set new = {(y, Suc h) | y. y \<in> set ns \<and> y \<notin> insert n v}" by blast
    with False show ?thesis
      by (intro conjI exI [of _ "(n, Suc h) # new"]) auto
  next
    case True
    with Cons.prems Cons.IH [of v q] show ?thesis by auto
  qed
qed

definition see_level :: "nat \<Rightarrow> string list \<Rightarrow> (string \<rightharpoonup> nat) \<Rightarrow> string \<rightharpoonup> nat" where
  "see_level h ns seen = (\<lambda>y. if y \<in> set ns \<and> seen y = None then Some (Suc h) else seen y)"

lemma bfs_inv_step:
  assumes inv: "bfs_inv adj src seen ((x, h) # q)"
    and new: "set new = {(y, Suc h) | y. y \<in> set (neighbors adj x) \<and> seen y = None}"
  shows "bfs_inv adj src (see_level h (neighbors adj x) seen) (q @ new)"
proof -
  let ?seen = "see_level h (neighbors adj x) seen"
  note d = inv [unfolded bfs_inv_def]
  have src: "seen src = Some 0" and x: "seen x = Some h" and srt: "sorted (map snd q)"
    using d by auto
  have wlk: "walk adj k src y" if "seen y = Some k" for y k using d that by blast
  have que: "seen y = Some k" if "(y, k) \<in> set q" for y k using d that by auto
  have low: "h \<le> k" if "(y, k) \<in> set q" for y k using d that by auto
  have dep: "k \<le> Suc h" if "seen y = Some k" for y k using d that by simp
  have fin: "\<exists>m. seen z = Some m \<and> m \<le> Suc k"
    if "seen y = Some k" "(y, k) \<noteq> (x, h)" "(y, k) \<notin> set q" "z \<in> set (neighbors adj y)" for y k z
    using d that by auto
  have mono: "seen y = Some k \<Longrightarrow> ?seen y = Some k" for y k by (simp add: see_level_def)
  have split: "?seen y = Some k \<Longrightarrow> seen y = Some k \<or> y \<in> set (neighbors adj x) \<and> seen y = None \<and> k = Suc h" for y k
    by (auto simp: see_level_def split: if_splits)
  show ?thesis
    unfolding bfs_inv_def
  proof (intro conjI allI impI ballI)
    show "?seen src = Some 0" by (rule mono [OF src])
    show "walk adj k src y" if "?seen y = Some k" for y k
      using split [OF that]
    proof
      assume "y \<in> set (neighbors adj x) \<and> seen y = None \<and> k = Suc h"
      with wlk [OF x] show ?thesis by auto
    qed (rule wlk)
    show "case p of (y, k) \<Rightarrow> ?seen y = Some k" if "p \<in> set (q @ new)" for p
      using that que mono new by (auto simp: see_level_def)
    show "sorted (map snd (q @ new))"
    proof -
      have "map snd new = replicate (length new) (Suc h)"
        by (rule replicate_eqI) (use new in auto)
      moreover have "\<forall>p\<in>set q. snd p \<le> Suc h"
      proof
        fix p assume "p \<in> set q"
        then have "seen (fst p) = Some (snd p)" by (intro que) simp
        then show "snd p \<le> Suc h" by (rule dep)
      qed
      ultimately show ?thesis using srt by (simp add: sorted_append)
    qed
    show "k \<le> Suc (snd (hd (q @ new)))" if "q @ new \<noteq> [] \<and> ?seen y = Some k" for y k
    proof -
      have "hd (q @ new) \<in> set q \<union> set new" using that hd_in_set [of "q @ new"] unfolding set_append by blast
      moreover have "h \<le> snd p" if "p \<in> set q \<union> set new" for p
        using that low [of "fst p" "snd p"] new by auto
      ultimately have "h \<le> snd (hd (q @ new))" by blast
      moreover have "k \<le> Suc h" using that split dep by blast
      ultimately show ?thesis by simp
    qed
    show "\<exists>m. ?seen z = Some m \<and> m \<le> Suc k"
      if a: "?seen y = Some k \<and> (y, k) \<notin> set (q @ new)" and z: "z \<in> set (neighbors adj y)" for y k z
    proof (cases "(y, k) = (x, h)")
      case True
      then show ?thesis using z dep by (cases "seen z") (auto simp: see_level_def)
    next
      case False
      have "seen y = Some k" using split [of y k] a new by auto
      moreover have "(y, k) \<notin> set q" using a by simp
      ultimately have "\<exists>m. seen z = Some m \<and> m \<le> Suc k" using fin [OF _ False _ z] by blast
      with mono show ?thesis by blast
    qed
  qed
qed

lemma bfs_inv_start: "bfs_inv adj src (\<lambda>y. if y = src then Some 0 else None) [(src, 0)]"
  by (auto simp: bfs_inv_def)

text \<open>At the end of the search the visited map holds exactly the lengths of shortest walks.\<close>

definition hop_distance :: "adjacency \<Rightarrow> string \<Rightarrow> string \<Rightarrow> nat \<Rightarrow> bool" where
  "hop_distance adj src x h = (walk adj h src x \<and> (\<forall>n. walk adj n src x \<longrightarrow> h \<le> n))"

lemma bfs_loop_spec:
  "bfs_inv adj src (hm_get visited) q \<Longrightarrow>
   hm_get (bfs_loop adj visited q) x = Some h \<longleftrightarrow> hop_distance adj src x h"
proof (induction adj visited q rule: bfs_loop.induct)
  case (1 adj visited)
  have a: "\<exists>k. hm_get visited y = Some k \<and> k \<le> n" if "walk adj n src y" for n y
    using bfs_inv_walk [OF 1 that] by simp
  have b: "walk adj k src y" if "hm_get visited y = Some k" for y k
    using 1 that by (simp add: bfs_inv_def)
  have "hm_get visited x = Some h \<longleftrightarrow> hop_distance adj src x h"
    unfolding hop_distance_def by (metis a b le_antisym option.inject)
  then show ?case by simp
next
  case (2 adj visited current hops queue)
  obtain v' q' where v: "visit_neighbors hops (neighbors adj current) (visited, queue) = (v', q')"
    by (cases "visit_neighbors hops (neighbors adj current) (visited, queue)")
  obtain new where q': "q' = queue @ new"
    "set new = {(y, Suc hops) | y. y \<in> set (neighbors adj current) \<and> hm_get visited y = None}"
    and g: "hm_get v' = see_level hops (neighbors adj current) (hm_get visited)"
    using visit_neighbors_spec [OF v] by (auto simp: see_level_def fun_eq_iff)
  have "bfs_inv adj src (hm_get v') q'"
    unfolding g q'(1) using 2(2) q'(2) by (rule bfs_inv_step)
  from 2(1) [OF v [symmetric] this] v show ?case by simp
qed

lemma hop_loop_spec:
  assumes "bfs_inv adj src seen q" "visited = dom seen"
    and "\<And>k. seen dest = Some k \<Longrightarrow> (dest, k) \<in> set q"
  shows "hop_loop adj dest visited q = Some h \<longleftrightarrow> hop_distance adj src dest h"
  using assms
proof (induction adj dest visited q arbitrary: seen rule: hop_loop.induct)
  case (1 adj dest visited)
  have "\<not> walk adj n src dest" for n
    using bfs_inv_walk [OF 1(1), of n dest] 1(3) by auto
  then show ?case by (simp add: hop_distance_def)
next
  case (2 adj dest visited current hops queue)
  show ?case
  proof (cases "current = dest")
    case True
    have w: "walk adj hops src dest" using 2(2) True by (auto simp: bfs_inv_def)
    have "hops \<le> n" if n: "walk adj n src dest" for n
    proof (rule ccontr)
      assume "\<not> hops \<le> n"
      then obtain k where "seen dest = Some k" "k \<le> n"
        using bfs_inv_walk [OF 2(2) n] by auto
      moreover have "seen dest = Some hops" using 2(2) True by (simp add: bfs_inv_def)
      ultimately show False using \<open>\<not> hops \<le> n\<close> by simp
    qed
    with w True show ?thesis by (auto simp: hop_distance_def intro: antisym)
  next
    case False
    obtain v' q' where v: "visit_neighbors_set hops (neighbors adj current) (visited, queue) = (v', q')"
      by (cases "visit_neighbors_set hops (neighbors adj current) (visited, queue)")
    obtain new where q': "q' = queue @ new"
      "set new = {(y, Suc hops) | y. y \<in> set (neighbors adj current) \<and> seen y = None}"
      and v': "v' = dom (see_level hops (neighbors adj current) seen)"
    proof -
      have "v' = dom seen \<union> set (neighbors adj current)"
        using visit_neighbors_set_spec [OF v] 2(3) by simp
      also have "\<dots> = dom (see_level hops (neighbors adj current) seen)"
        by (auto simp: see_level_def split: if_splits)
      finally have v': "v' = dom (see_level hops (neighbors adj current) seen)" .
      obtain new where "q' = queue @ new"
        "set new = {(y, Suc hops) | y. y \<in> set (neighbors adj current) \<and> y \<notin> dom seen}"
        using visit_neighbors_set_spec [OF v] 2(3) by blast
      with that v' show ?thesis by (simp add: domIff)
    qed
    have inv: "bfs_inv adj src (see_level hops (neighbors adj current) seen) q'"
      unfolding q'(1) using 2(2) q'(2) by (rule bfs_inv_step)
    have "\<And>k. see_level hops (neighbors adj current) seen dest = Some k \<Longrightarrow> (dest, k) \<in> set q'"
      using 2(4) False q' by (auto simp: see_level_def split: if_splits)
    from 2(1) [OF False v [symmetric] inv v' this] v False show ?thesis by simp
  qed
qed

section \<open>Properties\<close>

text \<open>Walks over the link relation of a snapshot.\<close>

fun mesh_walk :: "ConnectivitySnapshot \<Rightarrow> nat \<Rightarrow> string \<Rightarrow> string \<Rightarrow> bool" where
  "mesh_walk s 0 x y = (x = y)"
| "mesh_walk s (Suc n) x z = (\<exists>y. mesh_walk s n x y \<and> linked (mesh_nodes s) y z)"

lemma walk_mesh: "walk (build_adjacency s) n x y = mesh_walk s n x y"
  by (induction n arbitrary: y) (simp_all add: neighbors_build)

lemma mesh_walk_Suc_left: "mesh_walk s (Suc n) x z \<longleftrightarrow> (\<exists>y. linked (mesh_nodes s) x y \<and> mesh_walk s n y z)"
proof (induction n arbitrary: z)
  case 0
  then show ?case by simp
next
  case (Suc n)
  have "mesh_walk s (Suc (Suc n)) x z \<longleftrightarrow> (\<exists>y. mesh_walk s (Suc n) x y \<and> linked (mesh_nodes s) y z)"
    by simp
  also have "\<dots> \<longleftrightarrow> (\<exists>y w. linked (mesh_nodes s) x w \<and> mesh_walk s n w y \<and> linked (mesh_nodes s) y z)"
    unfolding Suc.IH by blast
  finally show ?case by (simp del: mesh_walk.simps(2) add: mesh_walk.simps(2) [of s n]) blast
qed

lemma mesh_walk_sym: "mesh_walk s n x y = mesh_walk s n y x"
proof (induction n arbitrary: x y)
  case 0
  then show ?case by auto
next
  case (Suc n)
  have "mesh_walk s (Suc n) y x \<longleftrightarrow> (\<exists>w. linked (mesh_nodes s) y w \<and> mesh_walk s n w x)"
    by (rule mesh_walk_Suc_left)
  with Suc show ?case by (auto simp: linked_sym [of _ y])
qed

lemma hop_count_spec:
  "hop_count_between s x y = Some h \<longleftrightarrow> hop_distance (build_adjacency s) x y h"
  unfolding hop_count_between_def
proof (rule hop_loop_spec [OF bfs_inv_start])
  show "{x} = dom (\<lambda>y. if y = x then Some (0 :: nat) else None)" by (auto split: if_splits)
qed (simp split: if_splits)

text \<open>(C37) Mesh reachability. The search from the base station finds exactly the nodes connected to it
  by a chain of links between the base, the live agents and the ground nodes, and the hop count it
  reports is the length of a shortest chain.\<close>

theorem reachability_from_base_exact:
  "hm_get (reachability_from_base s) x = Some h \<longleftrightarrow>
     mesh_walk s h (cs_base_id s) x \<and> (\<forall>n. mesh_walk s n (cs_base_id s) x \<longrightarrow> h \<le> n)"
proof -
  have "hm_get (hm_insert (cs_base_id s) 0 []) = (\<lambda>y. if y = cs_base_id s then Some (0 :: nat) else None)"
    by (simp add: fun_eq_iff)
  then have "bfs_inv (build_adjacency s) (cs_base_id s) (hm_get (hm_insert (cs_base_id s) 0 []))
      [(cs_base_id s, 0)]"
    using bfs_inv_start by simp
  from bfs_loop_spec [OF this, of x h] show ?thesis
    by (simp add: reachability_from_base_def hop_distance_def walk_mesh)
qed

theorem reachability_from_base_exact_witness:
  "hm_get (reachability_from_base \<lparr>agent_entries = [], ground_nodes = [(''g'', default_pose, Inf False)],
     cs_base_id = ''base'', base_pose = default_pose\<rparr>) ''g'' = Some 1"
proof -
  let ?s = "\<lparr>agent_entries = [], ground_nodes = [(''g'', default_pose, Inf False)],
     cs_base_id = ''base'', base_pose = default_pose\<rparr>"
  have nodes: "mesh_nodes ?s = [(''base'', default_pose, Inf False), (''g'', default_pose, Inf False)]"
    by (simp add: mesh_nodes_def)
  have "linked (mesh_nodes ?s) ''base'' ''g''"
    by (simp add: nodes linked_Cons node_link_def direct_link_def Let_def f64_min_def is_infinite_def is_finite_def)
  moreover have "mesh_walk ?s n ''base'' ''g'' \<Longrightarrow> 1 \<le> n" for n by (cases n) auto
  ultimately show ?thesis
    using reachability_from_base_exact [of ?s "''g''" 1] by simp
qed

text \<open>Hop counts. The search between two nodes returns exactly the length of a shortest chain of
  links, none if there is no chain, and the same in both directions.\<close>

theorem hop_count_between_exact:
  "(\<forall>h. hop_count_between s x y = Some h \<longleftrightarrow> mesh_walk s h x y \<and> (\<forall>n. mesh_walk s n x y \<longrightarrow> h \<le> n)) \<and>
   (hop_count_between s x y = None \<longleftrightarrow> (\<forall>n. \<not> mesh_walk s n x y)) \<and>
   hop_count_between s x y = hop_count_between s y x"
proof -
  have spec: "hop_count_between s a b = Some h \<longleftrightarrow>
      mesh_walk s h a b \<and> (\<forall>n. mesh_walk s n a b \<longrightarrow> h \<le> n)" for a b h
    by (simp add: hop_count_spec hop_distance_def walk_mesh)
  have none: "hop_count_between s a b = None \<longleftrightarrow> (\<forall>n. \<not> mesh_walk s n a b)" for a b
  proof
    assume none: "hop_count_between s a b = None"
    show "\<forall>n. \<not> mesh_walk s n a b"
    proof (intro allI notI)
      fix n assume "mesh_walk s n a b"
      then have "hop_count_between s a b = Some (LEAST n. mesh_walk s n a b)"
        unfolding spec by (auto intro: LeastI Least_le)
      with none show False by simp
    qed
  next
    assume "\<forall>n. \<not> mesh_walk s n a b"
    then show "hop_count_between s a b = None" using spec by (cases "hop_count_between s a b") auto
  qed
  have "hop_count_between s x y = hop_count_between s y x"
  proof (cases "hop_count_between s x y")
    case None
    then show ?thesis using none mesh_walk_sym by metis
  next
    case (Some h)
    then have "hop_count_between s y x = Some h" unfolding spec using mesh_walk_sym by metis
    with Some show ?thesis by simp
  qed
  with spec none show ?thesis by blast
qed

theorem hop_count_between_exact_witness:
  "hop_count_between \<lparr>agent_entries = [], ground_nodes = [], cs_base_id = ''base'', base_pose = default_pose\<rparr>
     ''base'' ''x'' = None"
proof -
  let ?s = "\<lparr>agent_entries = [], ground_nodes = [], cs_base_id = ''base'', base_pose = default_pose\<rparr>"
  have "mesh_nodes ?s = [(''base'', default_pose, Inf False)]" by (simp add: mesh_nodes_def)
  then have "\<not> mesh_walk ?s n ''base'' ''x''" for n by (cases n) (simp_all add: linked_Cons)
  then show ?thesis using hop_count_between_exact [of ?s "''base''" "''x''"] by blast
qed

end
