(* ===== verification/MissionIr.thy ===== *)
theory MissionIr
  imports SwarmTypes
begin

text \<open>
  The crate \<open>swarm-mission-ir\<close>: the hardware-agnostic mission plan, its validation and its summary.
  The strings serde gives to the enum variants of the frame and the altitude reference are
  arguments of \<open>from_plan\<close>. A \<open>BTreeMap\<close> is an association list sorted by key.

  The properties: validation accepts exactly the plans that satisfy the declarative rules and
  otherwise names the first offender, and the summary counts exactly.
\<close>

section \<open>Plans\<close>

type_synonym CommandId = string
type_synonym MissionId = string
type_synonym RouteId = string

record GeoPosition =
  lat_deg :: f64
  lon_deg :: f64
  alt_m :: f64

record LocalPosition =
  x_m :: f64
  y_m :: f64
  z_m :: f64

datatype Position = Geo GeoPosition | Local LocalPosition

datatype CoordinateFrame = Wgs84 | LocalNed | LocalEnu

datatype AltitudeReference = Amsl | Agl | RelativeHome | Ellipsoid

record MissionWaypoint =
  wp_position :: Position
  acceptance_radius_m :: "f64 option"

datatype OrbitDirection = Clockwise | CounterClockwise

datatype TimeoutAction = TimeoutAbort | TimeoutReturnToLaunch | TimeoutHold

record TimeoutPolicy =
  command_timeout_secs :: f64
  completion_timeout_secs :: f64
  on_timeout :: TimeoutAction

datatype TerminalState = Landed | Hovering | AtWaypoint | OrbitComplete | RouteComplete | Aborted

record CompletionTolerance =
  position_m :: f64
  altitude_tol_m :: f64

datatype MissionCommand =
  Arm
| Disarm
| Takeoff (altitude_m: f64)
| Hold (duration_secs: f64)
| Land
| ReturnToLaunch
| GoTo (position: Position)
| FollowRoute (route_id: RouteId) (waypoints: "MissionWaypoint list")
| LoiterTime (duration_secs: f64)
| Orbit (center: Position) (radius_m: f64) (turns: f64) (direction: OrbitDirection)
| Pause
| Resume
| Abort

fun kind_name :: "MissionCommand \<Rightarrow> string" where
  "kind_name Arm = ''arm''"
| "kind_name Disarm = ''disarm''"
| "kind_name (Takeoff _) = ''takeoff''"
| "kind_name (Hold _) = ''hold''"
| "kind_name Land = ''land''"
| "kind_name ReturnToLaunch = ''return_to_launch''"
| "kind_name (GoTo _) = ''go_to''"
| "kind_name (FollowRoute _ _) = ''follow_route''"
| "kind_name (LoiterTime _) = ''loiter_time''"
| "kind_name (Orbit _ _ _ _) = ''orbit''"
| "kind_name Pause = ''pause''"
| "kind_name Resume = ''resume''"
| "kind_name Abort = ''abort''"

record MissionCommandEntry =
  command_id :: CommandId
  command :: MissionCommand
  source_task_id :: "string option"
  source_route_id :: "string option"
  source_agent_id :: "string option"

record MissionCommandPlan =
  mp_schema_version :: string
  mission_id :: MissionId
  coordinate_frame :: CoordinateFrame
  altitude_reference :: AltitudeReference
  timeout_policy :: TimeoutPolicy
  expected_terminal_state :: TerminalState
  completion_tolerance :: CompletionTolerance
  commands :: "MissionCommandEntry list"

section \<open>Validation\<close>

datatype MissionIrError =
  DuplicateCommandId string
| InvalidTakeoffAltitude f64
| InvalidDuration f64
| InvalidOrbitRadius f64
| InvalidOrbitTurns f64
| EmptyRoute string
| NonFiniteCoordinate string f64 f64 f64
| AmbiguousCoordinateFrame string string

text \<open>Decimal notation, as \<open>format!\<close> prints an index, and \<open>{:?}\<close> of a frame.\<close>

definition digit :: "nat \<Rightarrow> char" where
  "digit d = char_of (48 + d)"

fun show_nat :: "nat \<Rightarrow> string" where
  "show_nat n = (if n < 10 then [digit n] else show_nat (n div 10) @ [digit (n mod 10)])"

declare show_nat.simps [simp del]

fun debug_frame :: "CoordinateFrame \<Rightarrow> string" where
  "debug_frame Wgs84 = ''Wgs84''"
| "debug_frame LocalNed = ''LocalNed''"
| "debug_frame LocalEnu = ''LocalEnu''"

definition validate_position :: "Position \<Rightarrow> string \<Rightarrow> CoordinateFrame \<Rightarrow> MissionIrError + unit" where
  "validate_position p context frame = (case p of
       Geo geo \<Rightarrow>
         if \<not> is_finite (lat_deg geo) \<or> \<not> is_finite (lon_deg geo) \<or> \<not> is_finite (alt_m geo)
         then Inl (NonFiniteCoordinate context (lat_deg geo) (lon_deg geo) (alt_m geo))
         else if frame \<noteq> Wgs84 then Inl (AmbiguousCoordinateFrame ''geo'' (debug_frame frame))
         else Inr ()
     | Local loc \<Rightarrow>
         if \<not> is_finite (x_m loc) \<or> \<not> is_finite (y_m loc) \<or> \<not> is_finite (z_m loc)
         then Inl (NonFiniteCoordinate context (x_m loc) (y_m loc) (z_m loc))
         else if frame = Wgs84 then Inl (AmbiguousCoordinateFrame ''local'' ''Wgs84'')
         else Inr ())"

definition not_positive :: "f64 \<Rightarrow> bool" where
  "not_positive x = (\<not> is_finite x \<or> f64_le x f64_zero)"

fun validate_command :: "MissionCommand \<Rightarrow> CoordinateFrame \<Rightarrow> MissionIrError + unit" where
  "validate_command (Takeoff altitude) frame =
     (if not_positive altitude then Inl (InvalidTakeoffAltitude altitude) else Inr ())"
| "validate_command (Hold duration) frame =
     (if not_positive duration then Inl (InvalidDuration duration) else Inr ())"
| "validate_command (LoiterTime duration) frame =
     (if not_positive duration then Inl (InvalidDuration duration) else Inr ())"
| "validate_command (GoTo p) frame = validate_position p ''go_to.position'' frame"
| "validate_command (FollowRoute rid wps) frame =
     (if wps = [] then Inl (EmptyRoute rid)
      else try_for_each (\<lambda>(i, wp). validate_position (wp_position wp)
             (''follow_route.waypoints['' @ show_nat i @ '']'') frame) (enumerate 0 wps))"
| "validate_command (Orbit c radius n dir) frame =
     and_then (validate_position c ''orbit.center'' frame)
       (if not_positive radius then Inl (InvalidOrbitRadius radius)
        else if not_positive n then Inl (InvalidOrbitTurns n) else Inr ())"
| "validate_command Arm frame = Inr ()"
| "validate_command Disarm frame = Inr ()"
| "validate_command Land frame = Inr ()"
| "validate_command ReturnToLaunch frame = Inr ()"
| "validate_command Pause frame = Inr ()"
| "validate_command Resume frame = Inr ()"
| "validate_command Abort frame = Inr ()"

definition check_duplicate_ids :: "MissionCommandPlan \<Rightarrow> MissionIrError + unit" where
  "check_duplicate_ids plan = (case find_dup {} (map command_id (commands plan)) of
     Some i \<Rightarrow> Inl (DuplicateCommandId i) | None \<Rightarrow> Inr ())"

definition validate :: "MissionCommandPlan \<Rightarrow> MissionIrError + unit" where
  "validate plan = and_then (check_duplicate_ids plan)
     (try_for_each (\<lambda>e. validate_command (command e) (coordinate_frame plan)) (commands plan))"

section \<open>Summary\<close>

record MissionCommandSummary =
  ms_mission_id :: string
  command_count :: nat
  commands_by_kind :: "(string \<times> nat) list"
  ms_coordinate_frame :: string
  ms_altitude_reference :: string
  total_waypoints :: nat
  ms_timeout_policy :: TimeoutPolicy
  ms_expected_terminal_state :: TerminalState
  ms_completion_tolerance :: CompletionTolerance

text \<open>\<open>*map.entry(k).or_insert(0) += 1\<close> on a sorted map.\<close>

fun bt_bump :: "('k :: linorder) \<Rightarrow> ('k \<times> nat) list \<Rightarrow> ('k \<times> nat) list" where
  "bt_bump k [] = [(k, 1)]"
| "bt_bump k ((k', n) # m) =
     (if k = k' then (k', n + 1) # m else if k < k' then (k, 1) # (k', n) # m else (k', n) # bt_bump k m)"

fun command_waypoints :: "MissionCommand \<Rightarrow> nat" where
  "command_waypoints (FollowRoute _ wps) = length wps"
| "command_waypoints (GoTo _) = 1"
| "command_waypoints _ = 0"

fun summary_loop :: "MissionCommandEntry list \<Rightarrow> (string \<times> nat) list \<Rightarrow> nat \<Rightarrow> (string \<times> nat) list \<times> nat" where
  "summary_loop [] by_kind n = (by_kind, n)"
| "summary_loop (e # es) by_kind n =
     summary_loop es (bt_bump (kind_name (command e)) by_kind) (n + command_waypoints (command e))"

definition from_plan ::
  "(CoordinateFrame \<Rightarrow> string) \<Rightarrow> (AltitudeReference \<Rightarrow> string) \<Rightarrow> MissionCommandPlan \<Rightarrow> MissionCommandSummary"
where
  "from_plan frame_name altitude_name plan =
     (case summary_loop (commands plan) [] 0 of (by_kind, wps) \<Rightarrow>
       \<lparr>ms_mission_id = mission_id plan, command_count = length (commands plan),
        commands_by_kind = by_kind, ms_coordinate_frame = frame_name (coordinate_frame plan),
        ms_altitude_reference = altitude_name (altitude_reference plan), total_waypoints = wps,
        ms_timeout_policy = timeout_policy plan,
        ms_expected_terminal_state = expected_terminal_state plan,
        ms_completion_tolerance = completion_tolerance plan\<rparr>)"

section \<open>The rules, declaratively\<close>

definition positive :: "f64 \<Rightarrow> bool" where
  "positive x = (is_finite x \<and> f64_lt f64_zero x)"

fun position_ok :: "CoordinateFrame \<Rightarrow> Position \<Rightarrow> bool" where
  "position_ok frame (Geo g) =
     (frame = Wgs84 \<and> is_finite (lat_deg g) \<and> is_finite (lon_deg g) \<and> is_finite (alt_m g))"
| "position_ok frame (Local l) =
     (frame \<noteq> Wgs84 \<and> is_finite (x_m l) \<and> is_finite (y_m l) \<and> is_finite (z_m l))"

fun command_ok :: "CoordinateFrame \<Rightarrow> MissionCommand \<Rightarrow> bool" where
  "command_ok frame (Takeoff a) = positive a"
| "command_ok frame (Hold d) = positive d"
| "command_ok frame (LoiterTime d) = positive d"
| "command_ok frame (GoTo p) = position_ok frame p"
| "command_ok frame (FollowRoute r wps) = (wps \<noteq> [] \<and> (\<forall>w\<in>set wps. position_ok frame (wp_position w)))"
| "command_ok frame (Orbit c r n d) = (position_ok frame c \<and> positive r \<and> positive n)"
| "command_ok frame _ = True"

lemma not_positive_iff: "not_positive x \<longleftrightarrow> \<not> positive x"
  by (auto simp: not_positive_def positive_def f64_not_lt [symmetric] is_finite_not_nan f64_le_def f64_lt_def)

lemma validate_position_ok: "validate_position p ctx frame = Inr () \<longleftrightarrow> position_ok frame p"
  by (cases p) (auto simp: validate_position_def)

lemma validate_command_ok: "validate_command c frame = Inr () \<longleftrightarrow> command_ok frame c"
proof (cases c)
  case (FollowRoute rid wps)
  have "(\<forall>x\<in>set (enumerate 0 wps). position_ok frame (wp_position (snd x))) \<longleftrightarrow>
      (\<forall>w\<in>set wps. position_ok frame (wp_position w))"
    by (metis (no_types, lifting) image_iff list.set_map map_snd_enumerate)
  with FollowRoute show ?thesis
    by (simp add: try_for_each_ok case_prod_beta validate_position_ok)
qed (auto simp: not_positive_iff validate_position_ok)

lemma check_duplicate_ids_ok: "check_duplicate_ids plan = Inr () \<longleftrightarrow> distinct (map command_id (commands plan))"
  using find_dup_None [of "{}" "map command_id (commands plan)"]
  by (auto simp: check_duplicate_ids_def split: option.split)

lemma validate_ok:
  "validate plan = Inr () \<longleftrightarrow> distinct (map command_id (commands plan)) \<and>
     (\<forall>e\<in>set (commands plan). command_ok (coordinate_frame plan) (command e))"
  by (simp add: validate_def check_duplicate_ids_ok try_for_each_ok validate_command_ok)

section \<open>Counting\<close>

definition bt_wf :: "('k :: linorder \<times> 'v) list \<Rightarrow> bool" where
  "bt_wf m = (sorted (map fst m) \<and> distinct (map fst m))"

lemma bt_bump_keys: "set (map fst (bt_bump k m)) = insert k (set (map fst m))"
  by (induction k m rule: bt_bump.induct) auto

lemma bt_bump_wf: "bt_wf m \<Longrightarrow> bt_wf (bt_bump k m)"
proof (induction k m rule: bt_bump.induct)
  case (2 k k' n m)
  have "fst ` set (bt_bump k m) = insert k (fst ` set m)" using bt_bump_keys [of k m] by simp
  with 2 show ?case by (auto simp: bt_wf_def)
qed (simp add: bt_wf_def)

definition bt_count :: "('k \<times> nat) list \<Rightarrow> 'k \<Rightarrow> nat" where
  "bt_count m k = (case map_of m k of Some n \<Rightarrow> n | None \<Rightarrow> 0)"

lemma bt_count_bump: "bt_wf m \<Longrightarrow> bt_count (bt_bump k m) j = (if j = k then Suc (bt_count m j) else bt_count m j)"
proof (induction k m rule: bt_bump.induct)
  case (1 k)
  then show ?case by (simp add: bt_count_def)
next
  case (2 k k' n m)
  have wf: "bt_wf m" using 2(2) by (simp add: bt_wf_def)
  show ?case
  proof (cases "k < k'")
    case True
    then have "map_of ((k', n) # m) k = None"
      using 2(2) by (auto simp: bt_wf_def map_of_eq_None_iff)
    with True show ?thesis by (auto simp: bt_count_def)
  next
    case False
    with 2(1) wf show ?thesis by (auto simp: bt_count_def)
  qed
qed

lemma summary_loop_spec:
  "bt_wf m \<Longrightarrow> bt_wf (fst (summary_loop es m n)) \<and>
     bt_count (fst (summary_loop es m n)) k =
       bt_count m k + length (filter (\<lambda>e. kind_name (command e) = k) es) \<and>
     snd (summary_loop es m n) = n + sum_list (map (\<lambda>e. command_waypoints (command e)) es)"
  by (induction es arbitrary: m n) (auto simp: bt_bump_wf bt_count_bump)

section \<open>Properties\<close>

definition sample_plan :: "MissionCommand list \<Rightarrow> MissionCommandPlan" where
  "sample_plan cs = \<lparr>mp_schema_version = ''mission_command_ir.v1'', mission_id = ''m'', coordinate_frame = Wgs84,
     altitude_reference = RelativeHome,
     timeout_policy = \<lparr>command_timeout_secs = f64_lit 5, completion_timeout_secs = f64_lit 120, on_timeout = TimeoutAbort\<rparr>,
     expected_terminal_state = Landed,
     completion_tolerance = \<lparr>position_m = f64_lit 1, altitude_tol_m = f64_lit 1\<rparr>,
     commands = map (\<lambda>(i, c). \<lparr>command_id = show_nat i, command = c, source_task_id = None,
       source_route_id = None, source_agent_id = None\<rparr>) (enumerate 0 cs)\<rparr>"

text \<open>(C39) Plan validation. \<open>validate\<close> accepts exactly the plans whose command identifiers are
  distinct and whose commands each have finite positive altitudes, durations, radii and turns,
  non-empty routes, and finite positions of the kind the coordinate frame calls for.\<close>

theorem validate_exact:
  "validate plan = Inr () \<longleftrightarrow> distinct (map command_id (commands plan)) \<and>
     (\<forall>e\<in>set (commands plan). command_ok (coordinate_frame plan) (command e))"
  by (rule validate_ok)

theorem validate_exact_witness:
  "validate (sample_plan [Arm, Takeoff (f64_lit 10), Land]) = Inr () \<and>
   validate (sample_plan [Arm, Hold f64_zero]) \<noteq> Inr ()"
  unfolding validate_exact
  by (simp add: sample_plan_def positive_def is_finite_def show_nat.simps digit_def val_def)

text \<open>Validation errors. A rejected plan repeats the reported identifier, or has distinct
  identifiers and the error is that of the first offending command, all commands before it being
  in order.\<close>

theorem validate_error:
  assumes "validate plan = Inl err"
  shows "(\<exists>i. err = DuplicateCommandId i \<and> i \<in> set (map command_id (commands plan)) \<and>
      \<not> distinct (map command_id (commands plan))) \<or>
    (distinct (map command_id (commands plan)) \<and>
     (\<exists>es e es'. commands plan = es @ e # es' \<and>
        validate_command (command e) (coordinate_frame plan) = Inl err \<and>
        \<not> command_ok (coordinate_frame plan) (command e) \<and>
        (\<forall>d\<in>set es. command_ok (coordinate_frame plan) (command d))))"
proof (cases "find_dup {} (map command_id (commands plan))")
  case None
  then have d: "distinct (map command_id (commands plan))" by (simp add: find_dup_None)
  from None assms have "try_for_each (\<lambda>e. validate_command (command e) (coordinate_frame plan)) (commands plan) = Inl err"
    by (simp add: validate_def check_duplicate_ids_def)
  from try_for_each_err [OF this] obtain es e es' where e: "commands plan = es @ e # es'"
    "validate_command (command e) (coordinate_frame plan) = Inl err"
    "\<forall>y\<in>set es. validate_command (command y) (coordinate_frame plan) = Inr ()" by blast
  have "\<not> command_ok (coordinate_frame plan) (command e)"
    using e(2) validate_command_ok [of "command e" "coordinate_frame plan"] by auto
  with e d show ?thesis by (auto simp: validate_command_ok)
next
  case (Some i)
  with assms have "err = DuplicateCommandId i" by (simp add: validate_def check_duplicate_ids_def)
  with find_dup_Some [OF Some] show ?thesis by auto
qed

theorem validate_error_witness:
  "\<exists>err. validate (sample_plan [Arm, Hold f64_zero]) = Inl err \<and>
     (\<exists>es e es'. commands (sample_plan [Arm, Hold f64_zero]) = es @ e # es' \<and>
        validate_command (command e) Wgs84 = Inl err)"
proof -
  let ?p = "sample_plan [Arm, Hold f64_zero]"
  have d: "distinct (map command_id (commands ?p))"
    by (simp add: sample_plan_def show_nat.simps digit_def)
  have v: "validate ?p = Inl (InvalidDuration f64_zero)"
    by (simp add: validate_def check_duplicate_ids_def sample_plan_def show_nat.simps digit_def
        not_positive_def is_finite_def)
  have "coordinate_frame ?p = Wgs84" by (simp add: sample_plan_def)
  with validate_error [OF v] d v show ?thesis by auto
qed

text \<open>Plan summary. The summary lists each command kind at most once in sorted order with the
  number of commands of that kind, and the waypoint total is the number of waypoints of all routes
  plus one per direct flight.\<close>

theorem from_plan_counts:
  "sorted (map fst (commands_by_kind (from_plan fn an plan))) \<and>
   distinct (map fst (commands_by_kind (from_plan fn an plan))) \<and>
   bt_count (commands_by_kind (from_plan fn an plan)) k =
     length (filter (\<lambda>e. kind_name (command e) = k) (commands plan)) \<and>
   command_count (from_plan fn an plan) = length (commands plan) \<and>
   total_waypoints (from_plan fn an plan) =
     sum_list (map (\<lambda>e. case command e of FollowRoute r wps \<Rightarrow> length wps | GoTo p \<Rightarrow> 1 | _ \<Rightarrow> 0) (commands plan))"
proof -
  have w: "command_waypoints c = (case c of FollowRoute r wps \<Rightarrow> length wps | GoTo p \<Rightarrow> 1 | _ \<Rightarrow> 0)" for c
    by (cases c) auto
  show ?thesis
    using summary_loop_spec [of "[]" "commands plan" 0 k]
    by (simp add: from_plan_def case_prod_beta bt_wf_def bt_count_def w)
qed

end
