(* ===== verification/SwarmProtocol.thy ===== *)
theory SwarmProtocol
  imports MissionIr "HOL-Library.Sublist"
begin

text \<open>
  \<open>swarm-comms/src/swarm_protocol.rs\<close>, \<open>transport.rs\<close> and the outcome type of
  \<open>mavlink_executor.rs\<close>: the typed coordination protocol, leases, envelopes and duplicate suppression.
  Instants (\<open>chrono::DateTime<Utc>\<close>) are a type parameter \<open>'dt\<close>; validity of a lease compares them
  with a linear order. JSON encoding is a pair of parameters of the envelope operations.
\<close>

section \<open>Transport\<close>

type_synonym byte = u8

record RawMessage =
  rm_from :: AgentId
  rm_to :: AgentId
  payload :: "byte list"

record CommandEnvelope =
  ce_envelope_id :: string
  ce_route_id :: string
  ce_from :: AgentId
  ce_to :: AgentId
  ce_payload :: "byte list"
  ce_topology_kind :: string

definition command_into_raw_message :: "CommandEnvelope \<Rightarrow> RawMessage" where
  "command_into_raw_message e = \<lparr>rm_from = ce_from e, rm_to = ce_to e, payload = ce_payload e\<rparr>"

section \<open>Leases\<close>

type_synonym LeaseId = string
type_synonym UrbanEdgeId = string

record 'dt Lease =
  l_lease_id :: LeaseId
  holder :: AgentId
  l_resource_id :: string
  l_resource_kind :: string
  granted_at :: 'dt
  expires_at :: 'dt

definition is_valid_at :: "('dt :: linorder) Lease \<Rightarrow> 'dt \<Rightarrow> bool" where
  "is_valid_at l now = (now < expires_at l)"

section \<open>States and reasons\<close>

record CommandPosition =
  cp_lat_deg :: f64
  cp_lon_deg :: f64
  cp_alt_m :: f64

datatype AbortAction = AbortReturnToLaunch | AbortHoverInPlace | AbortLand | AbortContinue

datatype ProtocolRole = PScout | PObserver | PRelay | PLeader | PCoordinator | PMothership | PCarrier
  | PReserve | PRecovery

datatype ReplanReason = SegmentBlocked | MissionReassigned | GcsCommand | ReplanLeaseExpired

datatype 'dt AgentMissionState =
  MsIdle
| WaitingForMission
| ExecutingSegment UrbanEdgeId LeaseId u64
| WaitingForSegment UrbanEdgeId AgentId u64
| WaitingForNeighborReconnect AgentId u64 u64
| ContinuingUnderLease LeaseId 'dt
| Replanning ReplanReason
| GcsLost u64 string
| Aborting string
| MsCompleted string u64
| MsFailed string

datatype MissionRejectReason = Overloaded | IncompatibleRole | RejectLeaseExpired | DuplicateOffer

datatype ReleaseReason = ReleaseCompleted | ReleaseAborted | ReleaseLeaseExpired | AgentFailed | Reassigned

datatype SegmentDenyReason = AlreadyHeld | PolicyDenied | DenyCoordinatorUnavailable

datatype DeconflictionMode = SharedMemory | NetworkProtocol AgentId

datatype DegradedReason = DegradedGcsUnavailable | DegradedCoordinatorUnavailable
  | DegradedMothershipUnavailable | PartitionDetected | LeaseExpirySoon

datatype ConnectivityLossKind = LossGcsUnavailable | LossCoordinatorUnavailable
  | LossMothershipUnavailable | DroneIsolated | SwarmPartitioned "nat list"

datatype AgentAbsenceKind = NodeFailure | LinkLoss u64

datatype SupervisorDecision = ContinueUnderLease | HoldAndWaitRenew | ReleaseAfterTimeout u64
  | SupervisorReturnToLaunch | ForbidReassignment | ReconcileOnReconnect

datatype ConflictResolution = OlderLeaseWins AgentId | SupervisorReset

record 'dt OwnershipConflict =
  oc_resource_id :: string
  holder_a :: AgentId
  lease_a :: "'dt Lease"
  holder_b :: AgentId
  lease_b :: "'dt Lease"
  resolution :: ConflictResolution

record 'dt SupervisorReconcileResult =
  accepted :: "string list"
  rejected :: "string list"
  conflicts :: "'dt OwnershipConflict list"

record LeaseTickSnapshot =
  lt_lease_id :: LeaseId
  lt_holder :: AgentId
  lt_resource_id :: string
  lt_resource_kind :: string
  lt_granted_tick :: u64
  lt_expiry_tick :: u64

record PartitionReport =
  partition_tick :: u64
  heal_tick :: "u64 option"
  pr_affected_agents :: "AgentId list"
  leases_at_partition :: "LeaseTickSnapshot list"

record 'dt ReconciliationReport =
  reconnect_tick :: u64
  rr_result :: "'dt SupervisorReconcileResult"

record DegradedDecisionLog =
  dd_tick :: u64
  dd_condition :: ConnectivityLossKind
  dd_decision :: SupervisorDecision
  dd_affected_resources :: "string list"
  dd_affected_agents :: "AgentId list"
  dd_absence_kind :: "AgentAbsenceKind option"

datatype MavlinkExecutionOutcome = ExecCompleted | ExecRetried u32 | ExecAborted nat string | ExecFailed nat string

fun outcome_is_success :: "MavlinkExecutionOutcome \<Rightarrow> bool" where
  "outcome_is_success ExecCompleted = True"
| "outcome_is_success (ExecRetried _) = True"
| "outcome_is_success (ExecAborted _ _) = False"
| "outcome_is_success (ExecFailed _ _) = False"

section \<open>Messages\<close>

datatype 'dt SwarmMessage =
  SmHeartbeat u64 u64 "'dt AgentMissionState"
| Presence ProtocolRole "string list"
| MissionOffer string MissionCommandPlan u32
| MissionAccept string LeaseId
| MissionReject string MissionRejectReason
| MissionResult string MavlinkExecutionOutcome "UrbanEdgeId list"
| OwnershipClaim string string LeaseId 'dt
| OwnershipRelease string LeaseId ReleaseReason
| LeaseRenew LeaseId 'dt
| LeaseExpired LeaseId string
| SegmentReserve UrbanEdgeId nat AgentId u64
| SegmentGrant UrbanEdgeId AgentId "'dt Lease"
| SegmentDeny UrbanEdgeId AgentId AgentId SegmentDenyReason
| SegmentRelease UrbanEdgeId LeaseId
| ProgressUpdate string u8 "CommandPosition option" u64
| ReplacementOffer string MissionCommandPlan
| AbortNotice string string AbortAction
| DegradedNotice DegradedReason "string list"
| TopologyUpdate string "AgentId list"
| StateRequest AgentId string
| StateResponse "'dt AgentMissionState" "'dt Lease list" "string list" u64

record 'dt SwarmMessageEnvelope =
  se_schema_version :: string
  envelope_id :: string
  correlation_id :: "string option"
  se_from :: AgentId
  se_to :: AgentId
  sent_at :: 'dt
  ttl_ticks :: u32
  message :: "'dt SwarmMessage"

definition swarm_protocol_schema_version :: string where
  "swarm_protocol_schema_version = ''swarm_protocol.v1''"

definition into_raw_message ::
  "('dt SwarmMessageEnvelope \<Rightarrow> byte list) \<Rightarrow> 'dt SwarmMessageEnvelope \<Rightarrow> RawMessage"
where
  "into_raw_message to_vec env = \<lparr>rm_from = se_from env, rm_to = se_to env, payload = to_vec env\<rparr>"

definition from_raw_message ::
  "(byte list \<Rightarrow> 'dt SwarmMessageEnvelope option) \<Rightarrow> RawMessage \<Rightarrow> 'dt SwarmMessageEnvelope option"
where
  "from_raw_message from_slice raw = (case from_slice (payload raw) of
       None \<Rightarrow> None
     | Some env \<Rightarrow> if se_schema_version env = swarm_protocol_schema_version then Some env else None)"

section \<open>Duplicate suppression\<close>

record DuplicateSuppressor =
  ds_seen :: "string list"
  window :: nat

definition suppressor_new :: "nat \<Rightarrow> DuplicateSuppressor" where
  "suppressor_new w = \<lparr>ds_seen = [], window = w\<rparr>"

definition with_default_window :: DuplicateSuppressor where
  "with_default_window = suppressor_new 256"

definition is_duplicate :: "string \<Rightarrow> DuplicateSuppressor \<Rightarrow> DuplicateSuppressor \<times> bool" where
  "is_duplicate i s =
     (if i \<in> set (ds_seen s) then (s, True)
      else (let kept = (if window s \<le> length (ds_seen s) then drop 1 (ds_seen s) else ds_seen s)
            in (s\<lparr>ds_seen := kept @ [i]\<rparr>, False)))"

text \<open>A receiver that drops duplicates: the identifiers it lets through.\<close>

fun let_through :: "DuplicateSuppressor \<Rightarrow> string list \<Rightarrow> string list" where
  "let_through s [] = []"
| "let_through s (i # is) = (case is_duplicate i s of
     (s', dup) \<Rightarrow> if dup then let_through s' is else i # let_through s' is)"

section \<open>Lemmas\<close>

text \<open>The last \<open>w\<close> elements of a history.\<close>

definition recent :: "nat \<Rightarrow> 'a list \<Rightarrow> 'a list" where
  "recent w hist = drop (length hist - w) hist"

lemma recent_snoc: "0 < w \<Longrightarrow> recent w (hist @ [x]) = recent (w - 1) hist @ [x]"
  by (simp add: recent_def)

lemma recent_drop1: "0 < w \<Longrightarrow> recent (w - 1) hist = (if w \<le> length (recent w hist) then drop 1 (recent w hist) else recent w hist)"
proof -
  assume w: "0 < w"
  show ?thesis
  proof (cases "w \<le> length hist")
    case True
    then have "length hist - (w - 1) = Suc (length hist - w)" using w by simp
    with True show ?thesis by (simp add: recent_def)
  next
    case False
    then show ?thesis by (simp add: recent_def)
  qed
qed

text \<open>Every stretch of at most \<open>w\<close> elements is free of repetitions.\<close>

definition spaced :: "nat \<Rightarrow> 'a list \<Rightarrow> bool" where
  "spaced w xs = (\<forall>n. distinct (take w (drop n xs)))"

lemma spaced_snoc:
  assumes "spaced w xs" "x \<notin> set (recent (w - 1) xs)"
  shows "spaced w (xs @ [x])"
  unfolding spaced_def
proof
  fix n
  show "distinct (take w (drop n (xs @ [x])))"
  proof (cases "n \<le> length xs \<and> length xs - n < w")
    case True
    have "length (drop n (xs @ [x])) \<le> w" using True by (simp add: Suc_diff_le)
    then have t: "take w (drop n (xs @ [x])) = drop n xs @ [x]" using True by (simp only: take_all) simp
    have "drop n xs = take w (drop n xs)" using True by simp
    with assms(1) have "distinct (drop n xs)" unfolding spaced_def by metis
    moreover have "set (drop n xs) \<subseteq> set (recent (w - 1) xs)"
      unfolding recent_def using True by (intro set_drop_subset_set_drop) linarith
    ultimately show ?thesis using assms(2) unfolding t by auto
  next
    case False
    then have "take w (drop n (xs @ [x])) = take w (drop n xs) \<or> take w (drop n (xs @ [x])) = []"
      by (auto simp: not_le)
    with assms(1) show ?thesis unfolding spaced_def by (metis distinct.simps(1))
  qed
qed

lemma let_through_history:
  assumes "0 < window s" "ds_seen s = recent (window s) hist" "spaced (window s) hist"
  shows "spaced (window s) (hist @ let_through s ids) \<and> set (hist @ let_through s ids) = set hist \<union> set ids"
  using assms
proof (induction ids arbitrary: s hist)
  case Nil
  then show ?case by simp
next
  case (Cons i ids)
  show ?case
  proof (cases "i \<in> set (ds_seen s)")
    case True
    then have "i \<in> set hist" using Cons.prems(2) by (auto simp: recent_def dest: in_set_dropD)
    with True Cons.IH [OF Cons.prems] show ?thesis by (auto simp: is_duplicate_def)
  next
    case False
    let ?kept = "if window s \<le> length (ds_seen s) then drop 1 (ds_seen s) else ds_seen s"
    let ?s = "s\<lparr>ds_seen := ?kept @ [i]\<rparr>"
    have kept: "?kept = recent (window s - 1) hist"
      using recent_drop1 [OF Cons.prems(1), of hist] Cons.prems(2) by simp
    then have seen: "ds_seen ?s = recent (window ?s) (hist @ [i])"
      using recent_snoc [OF Cons.prems(1), of hist i] by simp
    have "set ?kept \<subseteq> set (ds_seen s)" by (auto dest: in_set_dropD)
    with False kept have "i \<notin> set (recent (window s - 1) hist)" by (auto split: if_splits)
    then have "spaced (window ?s) (hist @ [i])" using Cons.prems(3) by (simp add: spaced_snoc)
    from Cons.IH [OF _ seen this] Cons.prems(1) False show ?thesis
      by (simp add: is_duplicate_def Let_def)
  qed
qed

section \<open>Properties\<close>

lemma is_duplicate_bound:
  "length (ds_seen s) \<le> max 1 (window s) \<Longrightarrow>
   length (ds_seen (fst (is_duplicate i s))) \<le> max 1 (window s) \<and> window (fst (is_duplicate i s)) = window s"
  by (auto simp: is_duplicate_def Let_def)

text \<open>Duplicate suppression. A receiver with a positive window lets every identifier through at
  least once, and among any \<open>window\<close> consecutive identifiers it lets through none repeats.\<close>

theorem duplicate_suppression:
  assumes "0 < w"
  shows "set (let_through (suppressor_new w) ids) = set ids \<and>
    (\<forall>n. distinct (take w (drop n (let_through (suppressor_new w) ids))))"
  using let_through_history [of "suppressor_new w" "[]" ids] assms
  by (simp add: suppressor_new_def recent_def spaced_def)

theorem duplicate_suppression_witness:
  "let_through (suppressor_new 2) [''a'', ''a'', ''b'', ''c'', ''a''] = [''a'', ''b'', ''c'', ''a''] \<and>
   set (let_through (suppressor_new 2) [''a'', ''a'', ''b'', ''c'', ''a'']) = {''a'', ''b'', ''c''}"
  using duplicate_suppression [of 2 "[''a'', ''a'', ''b'', ''c'', ''a'']"]
  by (auto simp: suppressor_new_def is_duplicate_def)

text \<open>Memory of the suppressor. However many identifiers arrive, the suppressor remembers at most
  \<open>window\<close> of them, one if the window is zero.\<close>

theorem suppressor_bounded:
  "length (ds_seen (foldl (\<lambda>s i. fst (is_duplicate i s)) (suppressor_new w) ids)) \<le> max 1 w"
proof -
  have "length (ds_seen s) \<le> max 1 (window s) \<Longrightarrow>
      length (ds_seen (foldl (\<lambda>s i. fst (is_duplicate i s)) s ids)) \<le> max 1 (window s)" for s
  proof (induction ids arbitrary: s)
    case (Cons i ids)
    note b = is_duplicate_bound [OF Cons.prems, of i]
    from Cons.IH [of "fst (is_duplicate i s)"] b show ?case by simp
  qed simp
  from this [of "suppressor_new w"] show ?thesis by (simp add: suppressor_new_def)
qed

end
