(* ===== verification/Network.thy ===== *)
theory Network
  imports Connectivity SwarmProtocol "HOL-Library.Multiset"
begin

text \<open>
  \<open>swarm-comms/src/network.rs\<close> and the trait of \<open>transport.rs\<close>: the simulated network with loss,
  latency, jitter, partitions and mesh reachability, and the transport of one agent on it. The
  random generator (\<open>rand\<close>) is a parameter, a record of its draws. The shared bus
  (\<open>Rc<RefCell<..>>\<close>) of an agent transport is part of the state its operations thread through.
  Counters and ticks are machine words.

  The locale \<open>transport\<close> is what a node needs of a transport: \<open>poll\<close> hands out the pending messages
  one by one and then reports an empty inbox. It is interpreted on the agent transport.
\<close>

section \<open>The network\<close>

text \<open>The error type of the in-memory transports has no values in Rust; HOL has no empty type, and no
  operation below returns \<open>Inl\<close>.\<close>

type_synonym Infallible = unit

record NetworkConfig =
  packet_loss_rate :: f64
  latency_ticks :: u64
  latency_per_hop :: u64
  nc_seed :: u64
  nc_partitions :: "(AgentId \<times> AgentId) set"
  comms_jitter_ticks :: u64

record 'r rng_source =
  gen_f64 :: "'r \<Rightarrow> f64 \<times> 'r"
  gen_u64 :: "'r \<Rightarrow> u64 \<times> 'r"
  seed_from_u64 :: "u64 \<Rightarrow> 'r"

record 'r InMemNetwork =
  in_flight :: "(AgentId, (u64 \<times> RawMessage) list) hmap"
  net_config :: NetworkConfig
  net_rng :: 'r
  net_tick :: u64
  messages_attempted :: u64
  messages_dropped :: u64
  bytes_sent :: u64
  net_partitions :: "(AgentId \<times> AgentId) set"
  net_connectivity :: "ConnectivitySnapshot option"

definition network_new :: "'r rng_source \<Rightarrow> NetworkConfig \<Rightarrow> 'r InMemNetwork" where
  "network_new g config = \<lparr>in_flight = [], net_config = config, net_rng = seed_from_u64 g (nc_seed config),
     net_tick = 0, messages_attempted = 0, messages_dropped = 0, bytes_sent = 0,
     net_partitions = nc_partitions config, net_connectivity = None\<rparr>"

definition set_connectivity_snapshot :: "ConnectivitySnapshot \<Rightarrow> 'r InMemNetwork \<Rightarrow> 'r InMemNetwork" where
  "set_connectivity_snapshot s n = n\<lparr>net_connectivity := Some s\<rparr>"

definition advance_tick :: "'r InMemNetwork \<Rightarrow> 'r InMemNetwork" where
  "advance_tick n = n\<lparr>net_tick := net_tick n + 1\<rparr>"

text \<open>The loop that empties the queue of a recipient.\<close>

fun drain_loop ::
  "u64 \<Rightarrow> (u64 \<times> RawMessage) list \<Rightarrow> RawMessage list \<Rightarrow> (u64 \<times> RawMessage) list \<Rightarrow>
   RawMessage list \<times> (u64 \<times> RawMessage) list"
where
  "drain_loop now [] ready delayed = (ready, delayed)"
| "drain_loop now ((delivery_tick, m) # queue) ready delayed =
     (if delivery_tick \<le> now then drain_loop now queue (ready @ [m]) delayed
      else drain_loop now queue ready (delayed @ [(delivery_tick, m)]))"

definition drain_ready :: "AgentId \<Rightarrow> 'r InMemNetwork \<Rightarrow> 'r InMemNetwork \<times> RawMessage list" where
  "drain_ready recipient n = (case hm_get (in_flight n) recipient of
       None \<Rightarrow> (n, [])
     | Some queue \<Rightarrow> (case drain_loop (net_tick n) queue [] [] of (ready, delayed) \<Rightarrow>
         (n\<lparr>in_flight := hm_insert recipient delayed (in_flight n)\<rparr>, ready)))"

definition ordered_pair :: "AgentId \<Rightarrow> AgentId \<Rightarrow> AgentId \<times> AgentId" where
  "ordered_pair a b = (if a \<le> b then (a, b) else (b, a))"

definition add_partition :: "AgentId \<Rightarrow> AgentId \<Rightarrow> 'r InMemNetwork \<Rightarrow> 'r InMemNetwork" where
  "add_partition a b n = n\<lparr>net_partitions := insert (ordered_pair a b) (net_partitions n)\<rparr>"

definition remove_partition :: "AgentId \<Rightarrow> AgentId \<Rightarrow> 'r InMemNetwork \<Rightarrow> 'r InMemNetwork" where
  "remove_partition a b n = n\<lparr>net_partitions := net_partitions n - {ordered_pair a b}\<rparr>"

text \<open>The hops a message takes: none if the mesh does not connect the two ends, one without a
  snapshot.\<close>

definition route_hops :: "'r InMemNetwork \<Rightarrow> RawMessage \<Rightarrow> nat option" where
  "route_hops n m = (case net_connectivity n of
       Some s \<Rightarrow> hop_count_between s (rm_from m) (rm_to m)
     | None \<Rightarrow> Some 1)"

definition draw_jitter :: "'r rng_source \<Rightarrow> u64 \<Rightarrow> 'r \<Rightarrow> u64 \<times> 'r" where
  "draw_jitter g jitter_ticks r =
     (if 0 < jitter_ticks then (case gen_u64 g r of (x, r') \<Rightarrow> (x mod (jitter_ticks * 2 + 1), r'))
      else (0, r))"

definition enqueue :: "AgentId \<Rightarrow> u64 \<times> RawMessage \<Rightarrow> 'r InMemNetwork \<Rightarrow> 'r InMemNetwork" where
  "enqueue i x n =
     (let queue = (case hm_get (in_flight n) i of Some q \<Rightarrow> q | None \<Rightarrow> [])
      in n\<lparr>in_flight := hm_insert i (queue @ [x]) (in_flight n)\<rparr>)"

definition drop_message :: "'r InMemNetwork \<Rightarrow> 'r InMemNetwork" where
  "drop_message n = n\<lparr>messages_dropped := messages_dropped n + 1\<rparr>"

definition network_send ::
  "'r rng_source \<Rightarrow> RawMessage \<Rightarrow> 'r InMemNetwork \<Rightarrow> ('r InMemNetwork, Infallible, unit) fallible"
where
  "network_send g m n =
     (let n1 = n\<lparr>messages_attempted := messages_attempted n + 1,
                bytes_sent := bytes_sent n + of_nat (length (payload m))\<rparr>
      in if ordered_pair (rm_from m) (rm_to m) \<in> net_partitions n1 then (drop_message n1, Inr ())
         else case route_hops n1 m of
           None \<Rightarrow> (drop_message n1, Inr ())
         | Some hop_count \<Rightarrow>
             (let loss = f64_clamp (packet_loss_rate (net_config n1)) f64_zero (f64_lit 1);
                  (x, r) = gen_f64 g (net_rng n1);
                  n2 = n1\<lparr>net_rng := r\<rparr>
              in if f64_lt x loss then (drop_message n2, Inr ())
                 else (let (jitter, r') = draw_jitter g (comms_jitter_ticks (net_config n2)) (net_rng n2);
                           delivery_tick = net_tick n2 + latency_ticks (net_config n2)
                             + of_nat hop_count * latency_per_hop (net_config n2) + jitter
                       in (enqueue (rm_to m) (delivery_tick, m) (n2\<lparr>net_rng := r'\<rparr>), Inr ()))))"

definition network_poll :: "'r InMemNetwork \<Rightarrow> ('r InMemNetwork, Infallible, RawMessage option) fallible" where
  "network_poll n = (n, Inr None)"

section \<open>The transport of an agent\<close>

record InMemAgentTransport =
  at_own_id :: AgentId
  at_buffer :: "RawMessage list"

definition agent_transport_new :: "AgentId \<Rightarrow> InMemAgentTransport" where
  "agent_transport_new i = \<lparr>at_own_id = i, at_buffer = []\<rparr>"

type_synonym 'r agent_bus = "'r InMemNetwork \<times> InMemAgentTransport"

definition agent_send ::
  "'r rng_source \<Rightarrow> RawMessage \<Rightarrow> 'r agent_bus \<Rightarrow> ('r agent_bus, Infallible, unit) fallible"
where
  "agent_send g m s = (case s of (bus, tr) \<Rightarrow>
     (case network_send g m bus of (bus', res) \<Rightarrow> ((bus', tr), res)))"

definition agent_poll :: "'r agent_bus \<Rightarrow> ('r agent_bus, Infallible, RawMessage option) fallible" where
  "agent_poll s = (case s of (bus, tr) \<Rightarrow>
     (case at_buffer tr of
        m # ms \<Rightarrow> ((bus, tr\<lparr>at_buffer := ms\<rparr>), Inr (Some m))
      | [] \<Rightarrow> (case drain_ready (at_own_id tr) bus of
          (bus', []) \<Rightarrow> ((bus', tr), Inr None)
        | (bus', first # ready) \<Rightarrow> ((bus', tr\<lparr>at_buffer := ready\<rparr>), Inr (Some first)))))"

text \<open>The loop with which a node empties its inbox (\<open>swarm-runtime/src/node/runtime.rs\<close>); \<open>None\<close> stands
  for a transport whose inbox never empties.\<close>

partial_function (option) drain_inbox ::
  "('tr \<Rightarrow> ('tr, 'e, RawMessage option) fallible) \<Rightarrow> 'tr \<Rightarrow> RawMessage list \<Rightarrow> ('tr \<times> RawMessage list) option"
where
  "drain_inbox poll tr all_msgs =
     (case snd (poll tr) of
        Inl e \<Rightarrow> Some (fst (poll tr), all_msgs)
      | Inr r \<Rightarrow> (case r of
          None \<Rightarrow> Some (fst (poll tr), all_msgs)
        | Some m \<Rightarrow> drain_inbox poll (fst (poll tr)) (all_msgs @ [m])))"

section \<open>Queues\<close>

definition queue_of :: "'r InMemNetwork \<Rightarrow> AgentId \<Rightarrow> (u64 \<times> RawMessage) list" where
  "queue_of n i = (case hm_get (in_flight n) i of Some q \<Rightarrow> q | None \<Rightarrow> [])"

definition due :: "'r InMemNetwork \<Rightarrow> AgentId \<Rightarrow> RawMessage list" where
  "due n i = map snd (filter (\<lambda>x. fst x \<le> net_tick n) (queue_of n i))"

lemma drain_loop_eq:
  "drain_loop now q ready delayed =
     (ready @ map snd (filter (\<lambda>x. fst x \<le> now) q), delayed @ filter (\<lambda>x. \<not> fst x \<le> now) q)"
  by (induction now q ready delayed rule: drain_loop.induct) auto

lemma drain_ready_ready [simp]: "snd (drain_ready i n) = due n i"
  by (simp add: drain_ready_def due_def queue_of_def drain_loop_eq split: option.split)

lemma drain_ready_queue:
  "queue_of (fst (drain_ready i n)) j =
     (if j = i then filter (\<lambda>x. \<not> fst x \<le> net_tick n) (queue_of n i) else queue_of n j)"
  by (auto simp: drain_ready_def queue_of_def drain_loop_eq split: option.split)

lemma drain_ready_frame [simp]:
  "net_config (fst (drain_ready i n)) = net_config n" "net_tick (fst (drain_ready i n)) = net_tick n"
  "messages_attempted (fst (drain_ready i n)) = messages_attempted n"
  "messages_dropped (fst (drain_ready i n)) = messages_dropped n"
  by (simp_all add: drain_ready_def drain_loop_eq split: option.split)

lemma due_after_drain [simp]: "due (fst (drain_ready i n)) i = []"
  by (simp add: due_def drain_ready_queue filter_empty_conv)

lemma queue_enqueue: "queue_of (enqueue i x n) j = (if j = i then queue_of n i @ [x] else queue_of n j)"
  by (simp add: enqueue_def queue_of_def Let_def)

lemma queue_update [simp]:
  "queue_of (n\<lparr>messages_attempted := a\<rparr>) i = queue_of n i" "queue_of (n\<lparr>bytes_sent := b\<rparr>) i = queue_of n i"
  "queue_of (n\<lparr>net_rng := r\<rparr>) i = queue_of n i" "queue_of (drop_message n) i = queue_of n i"
  "queue_of (n\<lparr>net_tick := t\<rparr>) i = queue_of n i" "queue_of (n\<lparr>net_connectivity := c\<rparr>) i = queue_of n i"
  "queue_of (n\<lparr>net_partitions := p\<rparr>) i = queue_of n i"
  by (simp_all add: queue_of_def drop_message_def)

section \<open>The transport interface\<close>

locale transport =
  fixes poll :: "'tr \<Rightarrow> ('tr, 'e, RawMessage option) fallible"
    and pending :: "'tr \<Rightarrow> RawMessage list"
  assumes poll_empty: "pending tr = [] \<Longrightarrow> snd (poll tr) = Inr None \<and> pending (fst (poll tr)) = []"
    and poll_next: "pending tr = m # ms \<Longrightarrow> snd (poll tr) = Inr (Some m) \<and> pending (fst (poll tr)) = ms"
begin

lemma drain_inbox_pending:
  "\<exists>tr'. drain_inbox poll tr acc = Some (tr', acc @ pending tr) \<and> pending tr' = []"
proof (induction "pending tr" arbitrary: tr acc)
  case Nil
  then show ?case using poll_empty [of tr] by (simp add: drain_inbox.simps)
next
  case (Cons m ms)
  from Cons(2) poll_next [of tr m ms]
  have p: "snd (poll tr) = Inr (Some m)" "pending (fst (poll tr)) = ms" by simp_all
  have "\<exists>tr'. drain_inbox poll (fst (poll tr)) (acc @ [m]) = Some (tr', (acc @ [m]) @ pending (fst (poll tr))) \<and>
      pending tr' = []"
    by (rule Cons(1)) (simp add: p)
  then show ?case using p Cons(2) [symmetric] by (simp add: drain_inbox.simps [of poll tr acc])
qed

end

definition agent_pending :: "'r agent_bus \<Rightarrow> RawMessage list" where
  "agent_pending s = at_buffer (snd s) @ due (fst s) (at_own_id (snd s))"

interpretation agent: transport agent_poll agent_pending
proof unfold_locales
  fix tr :: "'r agent_bus"
  obtain bus t where tr: "tr = (bus, t)" by (cases tr)
  obtain bus' rd where d: "drain_ready (at_own_id t) bus = (bus', rd)" by (cases "drain_ready (at_own_id t) bus")
  have rd: "rd = due bus (at_own_id t)" "due bus' (at_own_id t) = []"
    using drain_ready_ready [of "at_own_id t" bus] due_after_drain [of "at_own_id t" bus] by (simp_all add: d)
  show "snd (agent_poll tr) = Inr None \<and> agent_pending (fst (agent_poll tr)) = []" if "agent_pending tr = []"
    using that rd by (simp add: agent_poll_def agent_pending_def tr d)
  show "snd (agent_poll tr) = Inr (Some m) \<and> agent_pending (fst (agent_poll tr)) = ms"
    if "agent_pending tr = m # ms" for m ms
    using that rd by (cases "at_buffer t") (simp_all add: agent_poll_def agent_pending_def tr d)
qed

section \<open>Sending\<close>

text \<open>What the code relies on of \<open>rand\<close>: a drawn float lies in the half-open unit interval.\<close>

definition unit_interval :: "('r \<Rightarrow> f64 \<times> 'r) \<Rightarrow> bool" where
  "unit_interval draw = (\<forall>r. f64_le f64_zero (fst (draw r)) \<and> f64_lt (fst (draw r)) (f64_lit 1))"

definition blocked :: "'r InMemNetwork \<Rightarrow> RawMessage \<Rightarrow> bool" where
  "blocked n m = (ordered_pair (rm_from m) (rm_to m) \<in> net_partitions n \<or> route_hops n m = None)"

lemma ordered_pair_sym: "ordered_pair a b = ordered_pair b a"
  by (auto simp: ordered_pair_def)

lemma route_hops_update [simp]:
  "route_hops (n\<lparr>messages_attempted := a\<rparr>) m = route_hops n m" "route_hops (n\<lparr>bytes_sent := b\<rparr>) m = route_hops n m"
  by (simp_all add: route_hops_def)

lemma enqueue_frame [simp]:
  "net_tick (enqueue i x n) = net_tick n" "net_config (enqueue i x n) = net_config n"
  "net_partitions (enqueue i x n) = net_partitions n" "net_connectivity (enqueue i x n) = net_connectivity n"
  "messages_attempted (enqueue i x n) = messages_attempted n" "messages_dropped (enqueue i x n) = messages_dropped n"
  by (simp_all add: enqueue_def Let_def)

lemma drop_frame [simp]:
  "net_tick (drop_message n) = net_tick n" "net_config (drop_message n) = net_config n"
  "net_partitions (drop_message n) = net_partitions n" "net_connectivity (drop_message n) = net_connectivity n"
  "messages_attempted (drop_message n) = messages_attempted n"
  "messages_dropped (drop_message n) = messages_dropped n + 1" "in_flight (drop_message n) = in_flight n"
  by (simp_all add: drop_message_def)

text \<open>Every send is one of two: the message is counted as dropped, or it is appended to the queue of
  its recipient.\<close>

lemma network_send_cases:
  obtains (dropped) "in_flight (fst (network_send g m n)) = in_flight n"
      "messages_dropped (fst (network_send g m n)) = messages_dropped n + 1"
  | (queued) h j r where "\<not> blocked n m" "route_hops n m = Some h"
      "\<not> f64_lt (fst (gen_f64 g (net_rng n))) (f64_clamp (packet_loss_rate (net_config n)) f64_zero (f64_lit 1))"
      "j = fst (draw_jitter g (comms_jitter_ticks (net_config n)) r)"
      "in_flight (fst (network_send g m n)) = in_flight (enqueue (rm_to m)
         (net_tick n + latency_ticks (net_config n) + of_nat h * latency_per_hop (net_config n) + j, m) n)"
      "messages_dropped (fst (network_send g m n)) = messages_dropped n"
proof -
  let ?blocked = "blocked n m"
  obtain x r where x: "gen_f64 g (net_rng n) = (x, r)" by (cases "gen_f64 g (net_rng n)")
  obtain j r' where j: "draw_jitter g (comms_jitter_ticks (net_config n)) r = (j, r')"
    by (cases "draw_jitter g (comms_jitter_ticks (net_config n)) r")
  let ?lost = "f64_lt x (f64_clamp (packet_loss_rate (net_config n)) f64_zero (f64_lit 1))"
  show thesis
  proof (cases "?blocked \<or> ?lost")
    case True
    then show ?thesis
      by (intro dropped) (auto simp: network_send_def Let_def blocked_def x split: option.split)
  next
    case False
    then obtain h where h: "route_hops n m = Some h" by (auto simp: blocked_def)
    show ?thesis
      by (rule queued [of h j r])
        (use False h in \<open>simp_all add: network_send_def Let_def blocked_def x j enqueue_def\<close>)
  qed
qed

lemma network_send_frame [simp]:
  "net_tick (fst (network_send g m n)) = net_tick n" "net_config (fst (network_send g m n)) = net_config n"
  "net_partitions (fst (network_send g m n)) = net_partitions n"
  "net_connectivity (fst (network_send g m n)) = net_connectivity n"
  "messages_attempted (fst (network_send g m n)) = messages_attempted n + 1"
  "snd (network_send g m n) = Inr ()"
  by (simp_all add: network_send_def Let_def split: option.split prod.split)

lemma odd_word_nonzero: "(j * 2 + 1 :: u64) \<noteq> 0"
proof
  assume "j * 2 + 1 = 0"
  then have "even (j * 2 + 1)" by simp
  then show False by simp
qed

lemma draw_jitter_bound:
  assumes "2 * unat jt + 1 < 2 ^ 64"
  shows "unat (fst (draw_jitter g jt r)) \<le> 2 * unat jt"
proof (cases "0 < jt")
  case True
  have u: "unat (jt * 2 + 1) = 2 * unat jt + 1"
    using assms by (simp add: unat_word_ariths)
  have "unat (x mod (jt * 2 + 1)) < unat (jt * 2 + 1)" for x :: u64
    by (simp add: unat_mod u)
  with True u show ?thesis by (auto simp: draw_jitter_def less_Suc_eq_le split: prod.split)
qed (simp add: draw_jitter_def)

lemma advance_ticks:
  "net_tick ((advance_tick ^^ k) n) = net_tick n + of_nat k" "queue_of ((advance_tick ^^ k) n) i = queue_of n i"
  by (induction k) (simp_all add: advance_tick_def)

section \<open>Reachable networks\<close>

text \<open>The runs of a network with their history: the messages handed to \<open>send\<close> and the deliveries, each
  with its recipient.\<close>

inductive net_run ::
  "'r rng_source \<Rightarrow> 'r InMemNetwork \<Rightarrow> RawMessage list \<Rightarrow> (AgentId \<times> RawMessage) list \<Rightarrow> bool"
  for g :: "'r rng_source" where
  run_new: "net_run g (network_new g config) [] []"
| run_send: "net_run g n sent got \<Longrightarrow> net_run g (fst (network_send g m n)) (sent @ [m]) got"
| run_drain: "net_run g n sent got \<Longrightarrow>
    net_run g (fst (drain_ready i n)) sent (got @ map (Pair i) (snd (drain_ready i n)))"
| run_advance: "net_run g n sent got \<Longrightarrow> net_run g (advance_tick n) sent got"
| run_snapshot: "net_run g n sent got \<Longrightarrow> net_run g (set_connectivity_snapshot s n) sent got"
| run_add: "net_run g n sent got \<Longrightarrow> net_run g (add_partition a b n) sent got"
| run_remove: "net_run g n sent got \<Longrightarrow> net_run g (remove_partition a b n) sent got"

definition flying :: "'r InMemNetwork \<Rightarrow> RawMessage multiset" where
  "flying n = mset (concat (map (map snd \<circ> snd) (in_flight n)))"

lemma flying_insert:
  "mset (concat (map (map snd \<circ> snd) (hm_insert i q f))) + mset (map snd (case hm_get f i of Some p \<Rightarrow> p | None \<Rightarrow> [])) =
   mset (concat (map (map snd \<circ> snd) f)) + mset (map snd q)"
  by (induction f) (auto simp: hm_insert_def hm_get_def)

lemma flying_enqueue: "flying (enqueue i x n) = flying n + {#snd x#}"
  using flying_insert [of i "queue_of n i @ [x]" "in_flight n"]
  by (simp add: flying_def enqueue_def queue_of_def Let_def split: option.splits)

lemma flying_drain: "flying (fst (drain_ready i n)) + mset (due n i) = flying n"
proof (cases "hm_get (in_flight n) i")
  case None
  then show ?thesis by (simp add: drain_ready_def due_def queue_of_def)
next
  case (Some q)
  let ?late = "mset (map snd (filter (\<lambda>x. \<not> fst x \<le> net_tick n) q))"
    and ?due = "mset (map snd (filter (\<lambda>x. fst x \<le> net_tick n) q))"
  have q: "mset (map snd q) = ?due + ?late" by (induction q) simp_all
  have d: "due n i = map snd (filter (\<lambda>x. fst x \<le> net_tick n) q)" by (simp add: due_def queue_of_def Some)
  have "flying (fst (drain_ready i n)) + mset (map snd q) = flying n + ?late"
    using Some flying_insert [of i "filter (\<lambda>x. \<not> fst x \<le> net_tick n) q" "in_flight n"]
    by (simp add: drain_ready_def drain_loop_eq flying_def)
  then have "flying (fst (drain_ready i n)) + ?due + ?late = flying n + ?late" by (simp only: q add.assoc)
  then show ?thesis by (simp only: add_right_cancel d)
qed

lemma flying_other [simp]:
  "flying (network_new g config) = {#}" "flying (advance_tick n) = flying n"
  "flying (set_connectivity_snapshot s n) = flying n" "flying (add_partition a b n) = flying n"
  "flying (remove_partition a b n) = flying n"
  by (simp_all add: flying_def network_new_def advance_tick_def set_connectivity_snapshot_def add_partition_def
      remove_partition_def)

lemma queue_run [simp]:
  "queue_of (network_new g config) i = []" "queue_of (advance_tick n) i = queue_of n i"
  "queue_of (set_connectivity_snapshot s n) i = queue_of n i" "queue_of (add_partition a b n) i = queue_of n i"
  "queue_of (remove_partition a b n) i = queue_of n i"
  by (simp_all add: queue_of_def network_new_def advance_tick_def set_connectivity_snapshot_def add_partition_def
      remove_partition_def)

lemma counters_run [simp]:
  "messages_attempted (network_new g config) = 0" "messages_dropped (network_new g config) = 0"
  "messages_attempted (advance_tick n) = messages_attempted n" "messages_dropped (advance_tick n) = messages_dropped n"
  "messages_attempted (set_connectivity_snapshot s n) = messages_attempted n"
  "messages_dropped (set_connectivity_snapshot s n) = messages_dropped n"
  "messages_attempted (add_partition a b n) = messages_attempted n"
  "messages_dropped (add_partition a b n) = messages_dropped n"
  "messages_attempted (remove_partition a b n) = messages_attempted n"
  "messages_dropped (remove_partition a b n) = messages_dropped n"
  by (simp_all add: network_new_def advance_tick_def set_connectivity_snapshot_def add_partition_def
      remove_partition_def)

lemma net_run_addressed:
  "net_run g n sent got \<Longrightarrow>
     (\<forall>i. \<forall>x\<in>set (queue_of n i). rm_to (snd x) = i) \<and> (\<forall>(i, m)\<in>set got. rm_to m = i)"
proof (induction rule: net_run.induct)
  case (run_send n sent got m)
  then show ?case
    by (cases rule: network_send_cases [of g m n])
      (auto simp: queue_of_def enqueue_def Let_def split: option.splits)
next
  case (run_drain n sent got i)
  then show ?case by (auto simp: drain_ready_queue due_def)
qed simp_all

lemma net_run_balance:
  "net_run g n sent got \<Longrightarrow> \<exists>lost. mset sent = mset (map snd got) + flying n + lost \<and>
     messages_attempted n = of_nat (length sent) \<and> messages_dropped n = of_nat (size lost)"
proof (induction rule: net_run.induct)
  case (run_send n sent got m)
  then obtain lost where l: "mset sent = mset (map snd got) + flying n + lost"
    "messages_attempted n = of_nat (length sent)" "messages_dropped n = of_nat (size lost)" by blast
  show ?case
  proof (cases rule: network_send_cases [of g m n])
    case dropped
    then show ?thesis
      using l by (intro exI [of _ "lost + {#m#}"]) (simp add: flying_def)
  next
    case (queued h j r)
    have "flying (fst (network_send g m n)) = flying n + {#m#}"
      unfolding flying_def queued(5) unfolding flying_def [symmetric] flying_enqueue by simp
    with queued l show ?thesis by (intro exI [of _ lost]) simp
  qed
next
  case (run_drain n sent got i)
  then obtain lost where l: "mset sent = mset (map snd got) + flying n + lost"
    "messages_attempted n = of_nat (length sent)" "messages_dropped n = of_nat (size lost)" by blast
  then show ?case
    by (intro exI [of _ lost]) (simp add: flying_drain [of i n, symmetric] add.assoc add.left_commute comp_def)
qed simp_all

lemma lossless:
  assumes "unit_interval draw" "f64_le rate f64_zero"
  shows "\<not> f64_lt (fst (draw r)) (f64_clamp rate f64_zero (f64_lit 1))"
proof -
  have "f64_le f64_zero (fst (draw r))" using assms(1) by (simp add: unit_interval_def)
  moreover have "f64_le (f64_clamp rate f64_zero (f64_lit 1)) f64_zero"
    using assms(2) by (auto simp: f64_clamp_def f64_lt_def f64_le_def dest: order.strict_trans2)
  ultimately show ?thesis by (auto simp: f64_lt_def f64_le_def)
qed

lemma delivery_sum:
  fixes t l p j :: u64
  shows "unat t + unat l + h * unat p + unat j < 2 ^ 64 \<Longrightarrow>
     unat (t + l + of_nat h * p + j) = unat t + unat l + h * unat p + unat j"
proof -
  assume a: "unat t + unat l + h * unat p + unat j < 2 ^ 64"
  have "t + l + of_nat h * p + j = of_nat (unat t + unat l + h * unat p + unat j)" by simp
  then show ?thesis using a by (simp only: unat_of_nat take_bit_nat_eq_self word_size) (simp add: take_bit_nat_eq_self)
qed

section \<open>Properties\<close>

text \<open>Accounting of the network. In every run each message handed to \<open>send\<close> is delivered once, still
  queued, or lost, none is duplicated or made up; the counters are the numbers of messages sent and
  lost; and a delivered message was addressed to the agent that received it.\<close>

theorem network_accounting:
  assumes "net_run g n sent got"
  shows "(\<exists>lost. mset sent = mset (map snd got) + flying n + lost \<and>
      messages_attempted n = of_nat (length sent) \<and> messages_dropped n = of_nat (size lost)) \<and>
    (\<forall>(i, m)\<in>set got. rm_to m = i)"
  using net_run_balance [OF assms] net_run_addressed [OF assms] by blast

definition fair_rng :: "unit rng_source" where
  "fair_rng = \<lparr>gen_f64 = (\<lambda>r. (f64_zero, r)), gen_u64 = (\<lambda>r. (7, r)), seed_from_u64 = (\<lambda>_. ())\<rparr>"

definition sample_config :: NetworkConfig where
  "sample_config = \<lparr>packet_loss_rate = f64_zero, latency_ticks = 2, latency_per_hop = 1, nc_seed = 42,
     nc_partitions = {(''a'', ''c'')}, comms_jitter_ticks = 1\<rparr>"

definition sample_message :: "AgentId \<Rightarrow> RawMessage" where
  "sample_message i = \<lparr>rm_from = ''a'', rm_to = i, payload = [1, 2]\<rparr>"

theorem network_accounting_witness:
  "let n = fst (network_send fair_rng (sample_message ''c'')
        (fst (network_send fair_rng (sample_message ''b'') (network_new fair_rng sample_config))))
   in messages_attempted n = 2 \<and> flying n \<subseteq># {#sample_message ''b'', sample_message ''c''#}"
proof -
  let ?n = "fst (network_send fair_rng (sample_message ''c'')
        (fst (network_send fair_rng (sample_message ''b'') (network_new fair_rng sample_config))))"
  have "net_run fair_rng ?n (([] @ [sample_message ''b'']) @ [sample_message ''c'']) []"
    by (intro run_send run_new)
  from network_accounting [OF this] show ?thesis by (auto simp: Let_def)
qed

text \<open>Delivery. In a network that loses no packets a message between two agents that are neither
  partitioned nor disconnected is received by the inbox loop of its recipient once the latency,
  the hops and the largest jitter have passed, and not before the latency and the hops have.\<close>

theorem network_delivery:
  assumes rng: "unit_interval (gen_f64 g)" and rate: "f64_le (packet_loss_rate (net_config n)) f64_zero"
    and free: "ordered_pair (rm_from m) (rm_to m) \<notin> net_partitions n" "route_hops n m = Some h"
    and small: "unat (net_tick n) + unat (latency_ticks (net_config n)) + h * unat (latency_per_hop (net_config n))
        + 2 * unat (comms_jitter_ticks (net_config n)) + 1 < 2 ^ 64" "unat (net_tick n) + k < 2 ^ 64"
  shows "\<exists>bus msgs. drain_inbox agent_poll
      ((advance_tick ^^ k) (fst (network_send g m n)), agent_transport_new (rm_to m)) [] = Some (bus, msgs) \<and>
    (unat (latency_ticks (net_config n)) + h * unat (latency_per_hop (net_config n))
        + 2 * unat (comms_jitter_ticks (net_config n)) \<le> k \<longrightarrow> m \<in> set msgs) \<and>
    (k < unat (latency_ticks (net_config n)) + h * unat (latency_per_hop (net_config n)) \<and>
        m \<notin> snd ` set (queue_of n (rm_to m)) \<longrightarrow> m \<notin> set msgs)"
proof -
  let ?c = "net_config n" and ?n = "(advance_tick ^^ k) (fst (network_send g m n))"
  obtain bus where bus: "drain_inbox agent_poll (?n, agent_transport_new (rm_to m)) [] = Some (bus, due ?n (rm_to m))"
    using agent.drain_inbox_pending [of "(?n, agent_transport_new (rm_to m))" "[]"]
    by (auto simp: agent_pending_def agent_transport_new_def)
  have nb: "\<not> blocked n m" using free by (simp add: blocked_def)
  have nl: "\<not> f64_lt (fst (gen_f64 g (net_rng n))) (f64_clamp (packet_loss_rate ?c) f64_zero (f64_lit 1))"
    using rng rate by (rule lossless)
  obtain x where x: "queue_of ?n (rm_to m) = queue_of n (rm_to m) @ [(x, m)]"
    "unat (latency_ticks ?c) + h * unat (latency_per_hop ?c) + unat (net_tick n) \<le> unat x"
    "unat x \<le> unat (latency_ticks ?c) + h * unat (latency_per_hop ?c) + unat (net_tick n) + 2 * unat (comms_jitter_ticks ?c)"
  proof (rule that)
    let ?j = "fst (draw_jitter g (comms_jitter_ticks ?c) (snd (gen_f64 g (net_rng n))))"
    let ?x = "net_tick n + latency_ticks ?c + of_nat h * latency_per_hop ?c + ?j"
    have j: "unat ?j \<le> 2 * unat (comms_jitter_ticks ?c)" using small(1) by (intro draw_jitter_bound) simp
    then have u: "unat ?x = unat (net_tick n) + unat (latency_ticks ?c) + h * unat (latency_per_hop ?c) + unat ?j"
      using small(1) by (intro delivery_sum) simp
    show "queue_of ?n (rm_to m) = queue_of n (rm_to m) @ [(?x, m)]"
      using free nl nb by (simp add: advance_ticks network_send_def Let_def queue_enqueue case_prod_unfold)
    show "unat (latency_ticks ?c) + h * unat (latency_per_hop ?c) + unat (net_tick n) \<le> unat ?x"
      "unat ?x \<le> unat (latency_ticks ?c) + h * unat (latency_per_hop ?c) + unat (net_tick n) + 2 * unat (comms_jitter_ticks ?c)"
      using j by (simp_all add: u)
  qed
  have t: "unat (net_tick ?n) = unat (net_tick n) + k"
    using small(2) delivery_sum [of "net_tick n" 0 k 1 0] by (simp add: advance_ticks)
  show ?thesis
    by (rule exI [of _ bus], rule exI [of _ "due ?n (rm_to m)"]) (use bus x t in \<open>auto simp: due_def word_le_nat_alt\<close>)
qed

theorem network_delivery_witness:
  "\<exists>bus msgs. drain_inbox agent_poll
      ((advance_tick ^^ 5) (fst (network_send fair_rng (sample_message ''b'') (network_new fair_rng sample_config))),
       agent_transport_new ''b'') [] = Some (bus, msgs) \<and> sample_message ''b'' \<in> set msgs"
  using network_delivery [of fair_rng "network_new fair_rng sample_config" "sample_message ''b''" 1 5]
  by (auto simp: unit_interval_def fair_rng_def network_new_def sample_config_def sample_message_def ordered_pair_def
      route_hops_def f64_le_def f64_lt_def)

end
