(* ===== verification/Registry.thy ===== *)
theory Registry
  imports SwarmTypes
begin

text \<open>
  \<open>swarm-runtime/src/task_registry.rs\<close>: the table of tasks of one node and the task lifecycle.
  The state is the record \<open>TaskRegistry\<close>; every method that takes \<open>&mut self\<close> returns the new
  state, and a method that returns a \<open>Result\<close> also its result. The lifecycle is then stated as a
  step relation, and the ownership discipline as an invariant of its reachable states. The locale
  \<open>task_store\<close> is the interface the coordinator, the gossip merge and the reallocation rely on.
\<close>

section \<open>State and operations\<close>

datatype RuntimeError = TaskNotFound TaskId | InvalidTransition TaskStatus TaskStatus

record TaskRegistry =
  tasks :: "(TaskId, Task) hmap"

definition registry_new :: "Task list \<Rightarrow> TaskRegistry" where
  "registry_new ts = \<lparr>tasks = hm_collect (map (\<lambda>t. (t_id t, t)) ts)\<rparr>"

definition registry_insert :: "Task \<Rightarrow> TaskRegistry \<Rightarrow> TaskRegistry" where
  "registry_insert t r = r\<lparr>tasks := hm_insert (t_id t) t (tasks r)\<rparr>"

definition task_mut :: "TaskRegistry \<Rightarrow> TaskId \<Rightarrow> RuntimeError + Task" where
  "task_mut r tid = (case hm_get (tasks r) tid of None \<Rightarrow> Inl (TaskNotFound tid) | Some t \<Rightarrow> Inr t)"

text \<open>Writing through the reference \<open>task_mut\<close> returned.\<close>

definition put_task :: "TaskId \<Rightarrow> Task \<Rightarrow> TaskRegistry \<Rightarrow> TaskRegistry" where
  "put_task tid t r = r\<lparr>tasks := hm_insert tid t (tasks r)\<rparr>"

definition assign :: "TaskRegistry \<Rightarrow> TaskId \<Rightarrow> AgentId \<Rightarrow> (TaskRegistry, RuntimeError, unit) fallible" where
  "assign r tid aid = (case task_mut r tid of
       Inl e \<Rightarrow> (r, Inl e)
     | Inr t \<Rightarrow>
         if t_status t \<noteq> Unassigned \<or> t_assigned_to t \<noteq> None
         then (r, Inl (InvalidTransition (t_status t) Assigned))
         else (put_task tid (t\<lparr>t_status := Assigned, t_assigned_to := Some aid\<rparr>) r, ok_unit))"

definition transition ::
  "TaskRegistry \<Rightarrow> TaskId \<Rightarrow> TaskStatus list \<Rightarrow> TaskStatus \<Rightarrow> (TaskRegistry, RuntimeError, unit) fallible"
where
  "transition r tid allowed_from dest = (case task_mut r tid of
       Inl e \<Rightarrow> (r, Inl e)
     | Inr t \<Rightarrow>
         if t_status t \<notin> set allowed_from then (r, Inl (InvalidTransition (t_status t) dest))
         else (put_task tid (t\<lparr>t_status := dest\<rparr>) r, ok_unit))"

definition start :: "TaskRegistry \<Rightarrow> TaskId \<Rightarrow> (TaskRegistry, RuntimeError, unit) fallible" where
  "start r tid = transition r tid [Assigned] InProgress"

definition complete :: "TaskRegistry \<Rightarrow> TaskId \<Rightarrow> (TaskRegistry, RuntimeError, unit) fallible" where
  "complete r tid = transition r tid [InProgress] Completed"

definition fail_task :: "TaskRegistry \<Rightarrow> TaskId \<Rightarrow> (TaskRegistry, RuntimeError, unit) fallible" where
  "fail_task r tid = transition r tid [Assigned, InProgress] Failed"

text \<open>\<open>matches!(task.status, Assigned | InProgress)\<close>\<close>

definition unfinished :: "Task \<Rightarrow> bool" where
  "unfinished t = (t_status t = Assigned \<or> t_status t = InProgress)"

definition owned_unfinished :: "AgentId \<Rightarrow> Task \<Rightarrow> bool" where
  "owned_unfinished aid t = (t_assigned_to t = Some aid \<and> unfinished t)"

definition release_agent_tasks :: "TaskRegistry \<Rightarrow> AgentId \<Rightarrow> TaskRegistry \<times> TaskId list" where
  "release_agent_tasks r aid =
     (r\<lparr>tasks := hm_map (\<lambda>_ t. if owned_unfinished aid t
          then t\<lparr>t_status := Unassigned, t_assigned_to := None\<rparr> else t) (tasks r)\<rparr>,
      map t_id (filter (owned_unfinished aid) (hm_values (tasks r))))"

definition release_task :: "TaskRegistry \<Rightarrow> TaskId \<Rightarrow> TaskRegistry \<times> AgentId option" where
  "release_task r tid = (case hm_get (tasks r) tid of
       None \<Rightarrow> (r, None)
     | Some t \<Rightarrow> if \<not> unfinished t then (r, None)
         else (put_task tid (t\<lparr>t_assigned_to := None, t_status := Unassigned\<rparr>) r, t_assigned_to t))"

definition complete_assigned_task :: "TaskRegistry \<Rightarrow> TaskId \<Rightarrow> TaskRegistry \<times> AgentId option" where
  "complete_assigned_task r tid = (case hm_get (tasks r) tid of
       None \<Rightarrow> (r, None)
     | Some t \<Rightarrow> if \<not> unfinished t then (r, None)
         else (put_task tid (t\<lparr>t_assigned_to := None, t_status := Completed\<rparr>) r, t_assigned_to t))"

definition expired :: "u64 \<Rightarrow> Task \<Rightarrow> bool" where
  "expired now t = ((case t_expires_at t of Some x \<Rightarrow> x \<le> now | None \<Rightarrow> False) \<and> t_status t \<noteq> InProgress)"

definition expire_tasks :: "TaskRegistry \<Rightarrow> u64 \<Rightarrow> TaskRegistry \<times> TaskId list" where
  "expire_tasks r now =
     (let ids = map t_id (filter (expired now) (hm_values (tasks r)))
      in (r\<lparr>tasks := foldl (\<lambda>m k. hm_remove k m) (tasks r) ids\<rparr>, ids))"

definition unassigned :: "TaskRegistry \<Rightarrow> Task list" where
  "unassigned r =
     filter (\<lambda>t. t_status t = Unassigned \<or> t_assigned_to t = None) (hm_values (tasks r))"

definition all_assigned_or_completed :: "TaskRegistry \<Rightarrow> bool" where
  "all_assigned_or_completed r = list_all (\<lambda>t. t_status t = Completed \<or>
     (t_status t \<noteq> Unassigned \<and> t_assigned_to t \<noteq> None)) (hm_values (tasks r))"

section \<open>Well-formedness and ownership\<close>

text \<open>The table is keyed by the identifiers of its tasks.\<close>

definition reg_wf :: "TaskRegistry \<Rightarrow> bool" where
  "reg_wf r = (hm_wf (tasks r) \<and> (\<forall>(k, t)\<in>set (tasks r). t_id t = k))"

text \<open>The ownership discipline: unfinished work has an owner, unassigned work has none.\<close>

definition owner_ok :: "Task \<Rightarrow> bool" where
  "owner_ok t = ((unfinished t \<longrightarrow> t_assigned_to t \<noteq> None) \<and>
     (t_status t = Unassigned \<longrightarrow> t_assigned_to t = None))"

definition reg_inv :: "TaskRegistry \<Rightarrow> bool" where
  "reg_inv r = (reg_wf r \<and> (\<forall>t\<in>set (hm_values (tasks r)). owner_ok t))"

definition task_of :: "TaskRegistry \<Rightarrow> TaskId \<Rightarrow> Task option" where
  "task_of r tid = hm_get (tasks r) tid"

lemma reg_wfD: "reg_wf r \<Longrightarrow> hm_wf (tasks r)" "reg_wf r \<Longrightarrow> task_of r k = Some t \<Longrightarrow> t_id t = k"
  by (auto simp: reg_wf_def task_of_def dest: hm_get_SomeD)

lemma reg_wf_iff: "reg_wf r \<longleftrightarrow> hm_wf (tasks r) \<and> (\<forall>k t. task_of r k = Some t \<longrightarrow> t_id t = k)"
  by (auto simp: reg_wf_def task_of_def hm_get_Some_iff)

lemma reg_inv_iff: "reg_inv r \<longleftrightarrow> hm_wf (tasks r) \<and>
    (\<forall>k t. task_of r k = Some t \<longrightarrow> t_id t = k \<and> owner_ok t)"
  by (fastforce simp: reg_inv_def reg_wf_def task_of_def hm_get_Some_iff)

lemma values_iff: "reg_wf r \<Longrightarrow> t \<in> set (hm_values (tasks r)) \<longleftrightarrow> task_of r (t_id t) = Some t"
  by (force simp: reg_wf_def task_of_def hm_get_Some_iff)

lemma distinct_ids: "reg_wf r \<Longrightarrow> distinct (map t_id (hm_values (tasks r)))"
proof -
  assume wf: "reg_wf r"
  then have "map t_id (hm_values (tasks r)) = hm_keys (tasks r)"
    by (auto simp: reg_wf_def)
  with wf show ?thesis by (simp only: reg_wf_def hm_wf_def)
qed

lemma owner_ok_simps [simp]:
  "owner_ok (t\<lparr>t_status := Assigned, t_assigned_to := Some a\<rparr>)"
  "owner_ok (t\<lparr>t_status := Unassigned, t_assigned_to := None\<rparr>)"
  "owner_ok (t\<lparr>t_assigned_to := None, t_status := Unassigned\<rparr>)"
  "owner_ok (t\<lparr>t_assigned_to := None, t_status := Completed\<rparr>)"
  "owner_ok (t\<lparr>t_status := Completed\<rparr>)"
  "owner_ok (t\<lparr>t_status := Failed\<rparr>)"
  "owner_ok t \<Longrightarrow> unfinished t \<Longrightarrow> owner_ok (t\<lparr>t_status := InProgress\<rparr>)"
  by (auto simp: owner_ok_def unfinished_def)

section \<open>What each operation does to a lookup\<close>

lemma task_of_put [simp]: "task_of (put_task k t r) k' = (if k' = k then Some t else task_of r k')"
  by (simp add: task_of_def put_task_def)

lemma hm_wf_put [simp]: "hm_wf (tasks r) \<Longrightarrow> hm_wf (tasks (put_task k t r))"
  by (simp add: put_task_def)

lemma task_of_insert [simp]:
  "task_of (registry_insert t r) k = (if k = t_id t then Some t else task_of r k)"
  by (simp add: task_of_def registry_insert_def)

lemma task_of_release_agent:
  "task_of (fst (release_agent_tasks r aid)) k =
     map_option (\<lambda>t. if owned_unfinished aid t
       then t\<lparr>t_status := Unassigned, t_assigned_to := None\<rparr> else t) (task_of r k)"
  by (simp add: task_of_def release_agent_tasks_def)

lemma task_of_expire:
  assumes "reg_wf r"
  shows "task_of (fst (expire_tasks r now)) k =
     (case task_of r k of Some t \<Rightarrow> if expired now t then None else Some t | None \<Rightarrow> None)"
proof -
  let ?ids = "map t_id (filter (expired now) (hm_values (tasks r)))"
  have "task_of (fst (expire_tasks r now)) k = (if k \<in> set ?ids then None else task_of r k)"
    using hm.remove_batch [OF reg_wfD(1) [OF assms], of ?ids k]
    by (simp add: task_of_def expire_tasks_def Let_def)
  moreover have "k \<in> set ?ids \<longleftrightarrow> (\<exists>t. task_of r k = Some t \<and> expired now t)"
  proof -
    have "k \<in> set ?ids \<longleftrightarrow> (\<exists>t\<in>set (hm_values (tasks r)). expired now t \<and> t_id t = k)"
      by auto
    then show ?thesis
      by (simp only: Bex_def values_iff [OF assms]) (metis reg_wfD(2) [OF assms])
  qed
  ultimately show ?thesis by (auto split: option.splits)
qed

lemma expired_ids:
  assumes "reg_wf r"
  shows "k \<in> set (snd (expire_tasks r now)) \<longleftrightarrow> (\<exists>t. task_of r k = Some t \<and> expired now t)"
proof -
  have "k \<in> set (snd (expire_tasks r now)) \<longleftrightarrow> (\<exists>t\<in>set (hm_values (tasks r)). expired now t \<and> t_id t = k)"
    by (auto simp: expire_tasks_def Let_def)
  then show ?thesis
    by (simp only: Bex_def values_iff [OF assms]) (metis reg_wfD(2) [OF assms])
qed

lemma hm_wf_expire: "hm_wf (tasks r) \<Longrightarrow> hm_wf (tasks (fst (expire_tasks r now)))"
  by (simp add: expire_tasks_def Let_def hm.remove_batch [THEN conjunct1])

lemma hm_wf_release_agent: "hm_wf (tasks r) \<Longrightarrow> hm_wf (tasks (fst (release_agent_tasks r aid)))"
  by (simp add: release_agent_tasks_def)

lemmas task_of_simps = task_of_put task_of_insert task_of_release_agent task_of_expire

section \<open>Every operation keeps the invariant\<close>

lemma transition_inv:
  assumes "reg_inv r" and "\<And>t. t_status t \<in> set from \<Longrightarrow> owner_ok t \<Longrightarrow> owner_ok (t\<lparr>t_status := dest\<rparr>)"
  shows "reg_inv (fst (transition r tid from dest))"
  using assms by (auto simp: reg_inv_iff transition_def task_mut_def task_of_def [symmetric]
      split: option.splits)

lemma assign_inv [keeps_inv]: "reg_inv r \<Longrightarrow> reg_inv (fst (assign r tid aid))"
  by (auto simp: reg_inv_iff assign_def task_mut_def task_of_def [symmetric] split: option.splits)

lemma insert_inv [keeps_inv]: "reg_inv r \<Longrightarrow> owner_ok t \<Longrightarrow> reg_inv (registry_insert t r)"
  by (auto simp: reg_inv_iff) (simp add: registry_insert_def)

lemma start_inv [keeps_inv]: "reg_inv r \<Longrightarrow> reg_inv (fst (start r tid))"
  unfolding start_def by (rule transition_inv) (auto simp: unfinished_def)

lemma complete_inv [keeps_inv]: "reg_inv r \<Longrightarrow> reg_inv (fst (complete r tid))"
  unfolding complete_def by (rule transition_inv) auto

lemma fail_task_inv [keeps_inv]: "reg_inv r \<Longrightarrow> reg_inv (fst (fail_task r tid))"
  unfolding fail_task_def by (rule transition_inv) auto

lemma release_agent_inv [keeps_inv]: "reg_inv r \<Longrightarrow> reg_inv (fst (release_agent_tasks r aid))"
  by (auto simp: reg_inv_iff task_of_release_agent hm_wf_release_agent)

lemma release_task_inv [keeps_inv]: "reg_inv r \<Longrightarrow> reg_inv (fst (release_task r tid))"
  by (auto simp: reg_inv_iff release_task_def task_of_def [symmetric] split: option.splits)

lemma complete_assigned_inv [keeps_inv]: "reg_inv r \<Longrightarrow> reg_inv (fst (complete_assigned_task r tid))"
  by (auto simp: reg_inv_iff complete_assigned_task_def task_of_def [symmetric] split: option.splits)

lemma reg_inv_wf: "reg_inv r \<Longrightarrow> reg_wf r"
  by (simp add: reg_inv_def)

lemma expire_inv [keeps_inv]: "reg_inv r \<Longrightarrow> reg_inv (fst (expire_tasks r now))"
  using reg_inv_wf [of r]
  by (auto simp: reg_inv_iff task_of_expire hm_wf_expire split: option.splits if_splits)

lemma new_inv [keeps_inv]: "\<forall>t\<in>set ts. owner_ok t \<Longrightarrow> reg_inv (registry_new ts)"
  by (auto simp: reg_inv_iff task_of_def registry_new_def dest!: hm_collect_SomeD)


section \<open>The interface other components rely on\<close>

text \<open>A task store promises its clients: invariant-preserving ownership changes, an assignment
  that succeeds only on a free task and then makes the agent its owner, and a release of an agent
  that leaves it no unfinished task and disturbs nobody else.\<close>

lemma not_owned_released [simp]:
  "\<not> owned_unfinished a (t\<lparr>t_status := Unassigned, t_assigned_to := None\<rparr>)"
  by (simp add: owned_unfinished_def)

locale task_store =
  fixes inv :: "'r \<Rightarrow> bool"
    and look :: "'r \<Rightarrow> TaskId \<Rightarrow> Task option"
    and asg :: "'r \<Rightarrow> TaskId \<Rightarrow> AgentId \<Rightarrow> ('r, RuntimeError, unit) fallible"
    and rel :: "'r \<Rightarrow> AgentId \<Rightarrow> 'r \<times> TaskId list"
  assumes asg_inv: "inv r \<Longrightarrow> inv (fst (asg r tid aid))"
    and rel_inv: "inv r \<Longrightarrow> inv (fst (rel r aid))"
    and inv_owner: "inv r \<Longrightarrow> look r tid = Some t \<Longrightarrow> owner_ok t"
    and asg_ok: "inv r \<Longrightarrow> \<not> is_err (snd (asg r tid aid)) \<Longrightarrow>
      \<exists>t. look r tid = Some t \<and> t_status t = Unassigned \<and> t_assigned_to t = None \<and>
        look (fst (asg r tid aid)) tid = Some (t\<lparr>t_status := Assigned, t_assigned_to := Some aid\<rparr>)"
    and asg_err: "is_err (snd (asg r tid aid)) \<Longrightarrow> fst (asg r tid aid) = r"
    and asg_frame: "k \<noteq> tid \<Longrightarrow> look (fst (asg r tid aid)) k = look r k"
    and rel_look: "inv r \<Longrightarrow> look (fst (rel r aid)) k = map_option (\<lambda>t. if owned_unfinished aid t
       then t\<lparr>t_status := Unassigned, t_assigned_to := None\<rparr> else t) (look r k)"
begin

text \<open>Applying a list of assignment decisions, ignoring the ones that fail.\<close>

definition asg_all :: "'r \<Rightarrow> (TaskId \<times> AgentId) list \<Rightarrow> 'r" where
  "asg_all r ds = foldl (\<lambda>r (t, a). fst (asg r t a)) r ds"

lemma asg_all_inv: "inv r \<Longrightarrow> inv (asg_all r ds)"
  unfolding asg_all_def by (induction ds arbitrary: r) (auto simp: asg_inv)

text \<open>An assignment never takes a task away from its owner.\<close>

lemma asg_keeps_owner:
  assumes "inv r" "look r k = Some t" "t_assigned_to t = Some a"
  shows "look (fst (asg r tid aid)) k = Some t"
proof (cases "is_err (snd (asg r tid aid))")
  case True
  with assms show ?thesis by (simp add: asg_err)
next
  case False
  with asg_ok [OF assms(1) False] assms have "k \<noteq> tid" by auto
  with assms show ?thesis by (simp add: asg_frame)
qed

lemma asg_all_keeps_owner:
  "inv r \<Longrightarrow> look r k = Some t \<Longrightarrow> t_assigned_to t = Some a \<Longrightarrow> look (asg_all r ds) k = Some t"
  unfolding asg_all_def
  by (induction ds arbitrary: r) (auto simp: asg_inv asg_keeps_owner)

text \<open>Releasing a list of agents one after the other leaves none of them unfinished work.\<close>

definition rel_all :: "'r \<Rightarrow> AgentId list \<Rightarrow> 'r" where
  "rel_all r as = foldl (\<lambda>r a. fst (rel r a)) r as"

lemma rel_all_inv: "inv r \<Longrightarrow> inv (rel_all r as)"
  unfolding rel_all_def by (induction as arbitrary: r) (auto simp: rel_inv)

lemma rel_all_look:
  "inv r \<Longrightarrow> look (rel_all r as) k = map_option (\<lambda>t. if \<exists>a\<in>set as. owned_unfinished a t
     then t\<lparr>t_status := Unassigned, t_assigned_to := None\<rparr> else t) (look r k)"
proof (induction as arbitrary: r)
  case Nil
  then show ?case by (simp add: rel_all_def option.map_ident)
next
  case (Cons a as)
  have "look (rel_all (fst (rel r a)) as) k = map_option (\<lambda>t. if \<exists>a\<in>set as. owned_unfinished a t
     then t\<lparr>t_status := Unassigned, t_assigned_to := None\<rparr> else t) (look (fst (rel r a)) k)"
    using Cons.prems by (intro Cons.IH rel_inv)
  also have "\<dots> = map_option (\<lambda>t. if \<exists>a\<in>set (a # as). owned_unfinished a t
     then t\<lparr>t_status := Unassigned, t_assigned_to := None\<rparr> else t) (look r k)"
    by (cases "look r k") (auto simp: rel_look [OF Cons.prems] owned_unfinished_def unfinished_def)
  finally show ?case by (simp add: rel_all_def)
qed

lemma rel_all_clean:
  "inv r \<Longrightarrow> a \<in> set as \<Longrightarrow> look (rel_all r as) k = Some t \<Longrightarrow> \<not> owned_unfinished a t"
  by (cases "look r k") (auto simp: rel_all_look not_owned_released split: if_splits)

end

interpretation reg: task_store reg_inv task_of assign release_agent_tasks
proof unfold_locales
  fix r :: TaskRegistry and tid aid k and t :: Task
  show "reg_inv r \<Longrightarrow> reg_inv (fst (assign r tid aid))" by (rule assign_inv)
  show "reg_inv r \<Longrightarrow> reg_inv (fst (release_agent_tasks r aid))" by (rule release_agent_inv)
  show "reg_inv r \<Longrightarrow> task_of r tid = Some t \<Longrightarrow> owner_ok t" by (simp add: reg_inv_iff)
  show "reg_inv r \<Longrightarrow> \<not> is_err (snd (assign r tid aid)) \<Longrightarrow>
      \<exists>t. task_of r tid = Some t \<and> t_status t = Unassigned \<and> t_assigned_to t = None \<and>
        task_of (fst (assign r tid aid)) tid = Some (t\<lparr>t_status := Assigned, t_assigned_to := Some aid\<rparr>)"
    by (auto simp: assign_def task_mut_def task_of_def [symmetric] split: option.splits if_splits)
  show "is_err (snd (assign r tid aid)) \<Longrightarrow> fst (assign r tid aid) = r"
    by (auto simp: assign_def split: sum.splits if_splits)
  show "k \<noteq> tid \<Longrightarrow> task_of (fst (assign r tid aid)) k = task_of r k"
    by (auto simp: assign_def split: sum.splits)
  show "reg_inv r \<Longrightarrow> task_of (fst (release_agent_tasks r aid)) k =
      map_option (\<lambda>t. if owned_unfinished aid t
       then t\<lparr>t_status := Unassigned, t_assigned_to := None\<rparr> else t) (task_of r k)"
    by (rule task_of_release_agent)
qed

section \<open>The lifecycle as a step relation\<close>

text \<open>One rule per public mutating method of \<open>TaskRegistry\<close>. An inserted task comes from the
  outside and has to respect the ownership discipline itself.\<close>

inductive reg_op :: "TaskRegistry \<Rightarrow> TaskRegistry \<Rightarrow> bool" where
  op_assign: "reg_op r (fst (assign r tid aid))"
| op_start: "reg_op r (fst (start r tid))"
| op_complete: "reg_op r (fst (complete r tid))"
| op_fail: "reg_op r (fst (fail_task r tid))"
| op_release_agent: "reg_op r (fst (release_agent_tasks r aid))"
| op_release: "reg_op r (fst (release_task r tid))"
| op_complete_assigned: "reg_op r (fst (complete_assigned_task r tid))"
| op_expire: "reg_op r (fst (expire_tasks r now))"

inductive reg_reachable :: "TaskRegistry \<Rightarrow> bool" where
  reach_new: "\<forall>t\<in>set ts. owner_ok t \<Longrightarrow> reg_reachable (registry_new ts)"
| reach_insert: "reg_reachable r \<Longrightarrow> owner_ok t \<Longrightarrow> reg_reachable (registry_insert t r)"
| reach_op: "reg_reachable r \<Longrightarrow> reg_op r r' \<Longrightarrow> reg_reachable r'"

lemma reg_op_inv: "reg_op r r' \<Longrightarrow> reg_inv r \<Longrightarrow> reg_inv r'"
  by (induction rule: reg_op.induct) (auto intro: keeps_inv)

lemma reg_reachable_inv: "reg_reachable r \<Longrightarrow> reg_inv r"
  by (induction rule: reg_reachable.induct) (auto intro: keeps_inv reg_op_inv)

text \<open>The lifecycle graph of \<open>TaskStatus\<close>.\<close>

fun lifecycle :: "TaskStatus \<Rightarrow> TaskStatus \<Rightarrow> bool" where
  "lifecycle Unassigned s = (s = Assigned)"
| "lifecycle Assigned s = (s \<in> {InProgress, Failed, Unassigned, Completed})"
| "lifecycle InProgress s = (s \<in> {Completed, Failed, Unassigned})"
| "lifecycle Completed s = False"
| "lifecycle Failed s = False"

lemma transition_lifecycle:
  assumes "\<And>s. s \<in> set from \<Longrightarrow> lifecycle s dest"
    and "task_of r k = Some t" "task_of (fst (transition r tid from dest)) k = Some t'"
  shows "t_status t' = t_status t \<or> lifecycle (t_status t) (t_status t')"
  using assms
  by (auto simp: transition_def task_mut_def task_of_def [symmetric] split: option.splits if_splits)

lemma reg_op_lifecycle:
  assumes "reg_op r r'" "reg_wf r" "task_of r k = Some t" "task_of r' k = Some t'"
  shows "t_status t' = t_status t \<or> lifecycle (t_status t) (t_status t')"
  using assms
proof (induction rule: reg_op.induct)
  case (op_assign r tid aid)
  then show ?case
    by (auto simp: assign_def task_mut_def task_of_def [symmetric] split: option.splits if_splits)
next
  case (op_start r tid)
  show ?case
    by (rule transition_lifecycle [OF _ op_start.prems(2) op_start.prems(3) [unfolded start_def]]) simp
next
  case (op_complete r tid)
  show ?case
    by (rule transition_lifecycle
        [OF _ op_complete.prems(2) op_complete.prems(3) [unfolded complete_def]]) simp
next
  case (op_fail r tid)
  show ?case
    by (rule transition_lifecycle [OF _ op_fail.prems(2) op_fail.prems(3) [unfolded fail_task_def]]) auto
next
  case (op_release_agent r aid)
  then show ?case
    by (auto simp: task_of_release_agent owned_unfinished_def unfinished_def split: if_splits)
next
  case (op_release r tid)
  then show ?case
    by (auto simp: release_task_def task_of_def [symmetric] unfinished_def
        split: option.splits if_splits)
next
  case (op_complete_assigned r tid)
  then show ?case
    by (auto simp: complete_assigned_task_def task_of_def [symmetric] unfinished_def
        split: option.splits if_splits)
next
  case (op_expire r now)
  then show ?case by (auto simp: task_of_expire split: if_splits)
qed

section \<open>Properties\<close>

definition sample_task :: "TaskId \<Rightarrow> Task" where
  "sample_task i = \<lparr>t_id = i, t_status = Unassigned, t_assigned_to = None, t_priority = 1,
     t_required_capabilities = [], t_required_role = None, t_preferred_role = None,
     t_expires_at = Some 5, t_pose = None, t_grid_cell = None, t_edge_id = None, t_kind = None\<rparr>"

text \<open>(C1) Task ownership. In every state a registry can reach from well-owned tasks by its public
  methods, the table is keyed by task identifiers, every assigned or running task has an owner and
  every unassigned task has none.\<close>

theorem registry_ownership:
  assumes "reg_reachable r" "task_of r k = Some t"
  shows "t_id t = k \<and> (t_status t \<in> {Assigned, InProgress} \<longrightarrow> t_assigned_to t \<noteq> None) \<and>
    (t_status t = Unassigned \<longrightarrow> t_assigned_to t = None)"
  using reg_reachable_inv [OF assms(1)] assms(2)
  by (auto simp: reg_inv_iff owner_ok_def unfinished_def)

theorem registry_ownership_witness:
  "t_status (the (task_of (fst (assign (registry_new [sample_task ''t0'']) ''t0'' ''a0'')) ''t0'')) = Assigned
   \<and> t_assigned_to (the (task_of (fst (assign (registry_new [sample_task ''t0'']) ''t0'' ''a0'')) ''t0'')) \<noteq> None"
proof -
  let ?r = "fst (assign (registry_new [sample_task ''t0'']) ''t0'' ''a0'')"
  have r: "reg_reachable ?r"
    by (rule reach_op [OF reach_new op_assign]) (simp add: sample_task_def owner_ok_def unfinished_def)
  have t: "task_of ?r ''t0'' =
      Some (sample_task ''t0''\<lparr>t_status := Assigned, t_assigned_to := Some ''a0''\<rparr>)"
    by (simp add: assign_def task_mut_def registry_new_def task_of_def put_task_def hm_get_collect
        sample_task_def)
  from registry_ownership [OF r t] t show ?thesis by simp
qed

text \<open>Task lifecycle. Every mutating method other than the insertion of a new description moves
  a task that stays in the table along the lifecycle graph or leaves its status alone; completed
  and failed tasks never change status again.\<close>

theorem registry_lifecycle:
  assumes "reg_reachable r" "reg_op r r'" "task_of r k = Some t" "task_of r' k = Some t'"
  shows "(t_status t' = t_status t \<or> lifecycle (t_status t) (t_status t')) \<and>
    (t_status t \<in> {Completed, Failed} \<longrightarrow> t_status t' = t_status t)"
proof -
  have "t_status t' = t_status t \<or> lifecycle (t_status t) (t_status t')"
    by (rule reg_op_lifecycle [OF assms(2) reg_inv_wf [OF reg_reachable_inv [OF assms(1)]] assms(3,4)])
  then show ?thesis by (cases "t_status t") auto
qed

theorem registry_lifecycle_witness:
  "lifecycle (t_status (sample_task ''t0''))
     (t_status (sample_task ''t0''\<lparr>t_status := Assigned, t_assigned_to := Some ''a0''\<rparr>))"
proof -
  let ?r = "registry_new [sample_task ''t0'']"
  have r: "reg_reachable ?r"
    by (rule reach_new) (simp add: sample_task_def owner_ok_def unfinished_def)
  have t: "task_of ?r ''t0'' = Some (sample_task ''t0'')"
    by (simp add: registry_new_def task_of_def hm_get_collect sample_task_def)
  have t': "task_of (fst (assign ?r ''t0'' ''a0'')) ''t0'' =
      Some (sample_task ''t0''\<lparr>t_status := Assigned, t_assigned_to := Some ''a0''\<rparr>)"
    by (simp add: assign_def task_mut_def registry_new_def task_of_def put_task_def hm_get_collect
        sample_task_def)
  from registry_lifecycle [OF r op_assign t t'] show ?thesis by (simp add: sample_task_def)
qed

text \<open>Releasing a lost agent. The returned identifiers are exactly the unfinished tasks the
  agent owned, each listed once; these become unassigned and ownerless, every other task is
  unchanged, and afterwards the agent owns no unfinished task.\<close>

theorem release_agent_tasks_exact:
  assumes "reg_wf r"
  shows "set (snd (release_agent_tasks r aid)) =
      {k. \<exists>t. task_of r k = Some t \<and> t_assigned_to t = Some aid \<and> t_status t \<in> {Assigned, InProgress}} \<and>
    distinct (snd (release_agent_tasks r aid)) \<and>
    (\<forall>k. task_of (fst (release_agent_tasks r aid)) k =
      (if k \<in> set (snd (release_agent_tasks r aid))
       then map_option (\<lambda>t. t\<lparr>t_status := Unassigned, t_assigned_to := None\<rparr>) (task_of r k)
       else task_of r k))"
proof (intro conjI allI)
  have ids: "k \<in> set (snd (release_agent_tasks r aid)) \<longleftrightarrow>
      (\<exists>t. task_of r k = Some t \<and> owned_unfinished aid t)" for k
  proof -
    have "k \<in> set (snd (release_agent_tasks r aid)) \<longleftrightarrow>
        (\<exists>t\<in>set (hm_values (tasks r)). owned_unfinished aid t \<and> t_id t = k)"
      by (auto simp: release_agent_tasks_def)
    then show ?thesis
      by (simp only: Bex_def values_iff [OF assms]) (metis reg_wfD(2) [OF assms])
  qed
  then show "set (snd (release_agent_tasks r aid)) =
      {k. \<exists>t. task_of r k = Some t \<and> t_assigned_to t = Some aid \<and> t_status t \<in> {Assigned, InProgress}}"
    by (auto simp: owned_unfinished_def unfinished_def)
  show "distinct (snd (release_agent_tasks r aid))"
    using distinct_ids [OF assms] by (simp add: release_agent_tasks_def distinct_map_filter)
  fix k
  show "task_of (fst (release_agent_tasks r aid)) k =
      (if k \<in> set (snd (release_agent_tasks r aid))
       then map_option (\<lambda>t. t\<lparr>t_status := Unassigned, t_assigned_to := None\<rparr>) (task_of r k)
       else task_of r k)"
    using ids [of k] by (cases "task_of r k") (auto simp: task_of_release_agent)
qed

theorem release_agent_tasks_exact_witness:
  "snd (release_agent_tasks (fst (assign (registry_new [sample_task ''t0'']) ''t0'' ''a0'')) ''a0'') = [''t0'']
   \<and> distinct (snd (release_agent_tasks (fst (assign (registry_new [sample_task ''t0'']) ''t0'' ''a0'')) ''a0''))"
proof -
  let ?r = "fst (assign (registry_new [sample_task ''t0'']) ''t0'' ''a0'')"
  have "reg_inv ?r"
    by (intro assign_inv new_inv) (simp add: sample_task_def owner_ok_def unfinished_def)
  then have "reg_wf ?r" by (rule reg_inv_wf)
  from release_agent_tasks_exact [OF this, of "''a0''"] show ?thesis
    by (simp add: release_agent_tasks_def assign_def task_mut_def registry_new_def put_task_def
        hm_collect_def hm_insert_def hm_get_def sample_task_def owned_unfinished_def unfinished_def)
qed

text \<open>Expiry. \<open>expire_tasks\<close> removes exactly the tasks whose deadline has passed and that are
  not in progress, whatever their status otherwise, reports each once, and keeps every other task
  untouched. In particular finished tasks expire too.\<close>

theorem expire_tasks_exact:
  assumes "reg_wf r"
  shows "(\<forall>k. task_of (fst (expire_tasks r now)) k =
      (case task_of r k of None \<Rightarrow> None
       | Some t \<Rightarrow> if (\<exists>x. t_expires_at t = Some x \<and> x \<le> now) \<and> t_status t \<noteq> InProgress
                   then None else Some t)) \<and>
    set (snd (expire_tasks r now)) =
      {k. task_of r k \<noteq> None \<and> task_of (fst (expire_tasks r now)) k = None} \<and>
    distinct (snd (expire_tasks r now))"
proof (intro conjI allI)
  have look: "task_of (fst (expire_tasks r now)) k =
      (case task_of r k of Some t \<Rightarrow> if expired now t then None else Some t | None \<Rightarrow> None)" for k
    by (rule task_of_expire [OF assms])
  fix k
  show "task_of (fst (expire_tasks r now)) k =
      (case task_of r k of None \<Rightarrow> None
       | Some t \<Rightarrow> if (\<exists>x. t_expires_at t = Some x \<and> x \<le> now) \<and> t_status t \<noteq> InProgress
                   then None else Some t)"
    by (auto simp: look expired_def split: option.splits)
  have "k \<in> set (snd (expire_tasks r now)) \<longleftrightarrow>
        (\<exists>t\<in>set (hm_values (tasks r)). expired now t \<and> t_id t = k)" for k
    by (auto simp: expire_tasks_def Let_def)
  then have "k \<in> set (snd (expire_tasks r now)) \<longleftrightarrow> (\<exists>t. task_of r k = Some t \<and> expired now t)" for k
    by (simp only: Bex_def values_iff [OF assms]) (metis reg_wfD(2) [OF assms])
  then show "set (snd (expire_tasks r now)) =
      {k. task_of r k \<noteq> None \<and> task_of (fst (expire_tasks r now)) k = None}"
    by (auto simp: look split: option.splits if_splits)
  show "distinct (snd (expire_tasks r now))"
    using distinct_ids [OF assms] by (simp add: expire_tasks_def Let_def distinct_map_filter)
qed

theorem expire_tasks_exact_witness:
  "snd (expire_tasks (registry_new [sample_task ''t0''\<lparr>t_status := Completed\<rparr>]) 5) = [''t0''] \<and>
   task_of (fst (expire_tasks (registry_new [sample_task ''t0''\<lparr>t_status := Completed\<rparr>]) 5)) ''t0'' = None"
proof -
  let ?r = "registry_new [sample_task ''t0''\<lparr>t_status := Completed\<rparr>]"
  have "reg_inv ?r" by (rule new_inv) simp
  then have wf: "reg_wf ?r" by (rule reg_inv_wf)
  have "task_of ?r ''t0'' = Some (sample_task ''t0''\<lparr>t_status := Completed\<rparr>)"
    by (simp add: registry_new_def task_of_def hm_get_collect sample_task_def)
  moreover have "snd (expire_tasks ?r 5) = [''t0'']"
    by (simp add: expire_tasks_def registry_new_def hm_collect_def hm_insert_def expired_def
        sample_task_def)
  ultimately show ?thesis
    using expire_tasks_exact [OF wf, of 5] by (simp add: sample_task_def)
qed

text \<open>Assignment. \<open>assign\<close> succeeds exactly on a present, unassigned and ownerless task; it then
  makes the agent the owner and changes nothing else. Otherwise the registry is unchanged and the
  error says whether the task is missing or in the wrong state.\<close>

theorem assign_exact:
  "assign r tid aid =
    (case task_of r tid of
       None \<Rightarrow> (r, Inl (TaskNotFound tid))
     | Some t \<Rightarrow>
        if t_status t = Unassigned \<and> t_assigned_to t = None
        then (put_task tid (t\<lparr>t_status := Assigned, t_assigned_to := Some aid\<rparr>) r, Inr ())
        else (r, Inl (InvalidTransition (t_status t) Assigned))) \<and>
   (\<forall>k. k \<noteq> tid \<longrightarrow> task_of (fst (assign r tid aid)) k = task_of r k)"
  using reg.asg_frame [of _ tid r aid]
  by (auto simp: assign_def task_mut_def task_of_def split: option.splits)

theorem assign_exact_witness:
  "is_err (snd (assign (fst (assign (registry_new [sample_task ''t0'']) ''t0'' ''a0'')) ''t0'' ''a1''))"
  using assign_exact [of "fst (assign (registry_new [sample_task ''t0'']) ''t0'' ''a0'')" "''t0''" "''a1''"]
  by (simp add: assign_def task_mut_def registry_new_def task_of_def put_task_def hm_get_collect
      sample_task_def)

end
