(* ===== verification/Membership.thy ===== *)
theory Membership
  imports Registry "HOL-Library.Multiset"
begin

text \<open>
  \<open>swarm-runtime/src/membership.rs\<close> and \<open>failure.rs\<close>: what a node believes about the agents of the
  swarm, the heartbeat rules with generations, the movement and battery update of a tick, and the
  timeout detector. The random source of \<open>apply_environment_effects\<close> comes from the crate \<open>rand\<close>
  and is a parameter: a function from a generator state to a sample and the next state.
\<close>

section \<open>State\<close>

record AgentEntry =
  e_role :: Role
  e_health :: Health
  e_capabilities :: "Capability list"
  e_last_heartbeat_tick :: u64
  e_battery :: f64
  e_pose :: Pose
  e_comms_range :: f64
  e_generation :: u64
  e_speed :: f64
  e_max_range :: f64
  e_battery_drain_rate :: f64
  e_battery_model :: "BatteryModel option"

record MembershipView =
  agents :: "(AgentId, AgentEntry) hmap"

definition entry_of_agent :: "Agent \<Rightarrow> AgentEntry" where
  "entry_of_agent a = \<lparr>
     e_role = a_role a,
     e_health = a_health a,
     e_capabilities = a_capabilities a,
     e_last_heartbeat_tick = 0,
     e_battery = a_battery a,
     e_pose = a_pose a,
     e_comms_range = a_comms_range a,
     e_generation = a_generation a,
     e_speed = a_speed a,
     e_max_range = a_max_range a,
     e_battery_drain_rate =
       (if f64_lt f64_zero (a_battery_drain_rate a) then a_battery_drain_rate a
        else if f64_lt f64_zero (a_max_range a) then f64_div (f64_lit 100) (a_max_range a)
        else f64_zero),
     e_battery_model = a_battery_model a\<rparr>"

definition membership_new :: "Agent list \<Rightarrow> MembershipView" where
  "membership_new as = \<lparr>agents = hm_collect (map (\<lambda>a. (a_id a, entry_of_agent a)) as)\<rparr>"

section \<open>Heartbeats and health\<close>

definition entry_heartbeat :: "u64 \<Rightarrow> u64 \<Rightarrow> AgentEntry \<Rightarrow> AgentEntry" where
  "entry_heartbeat sender_tick generation e =
     (if generation < e_generation e then e
      else if e_generation e < generation then
        (let e' = e\<lparr>e_generation := generation, e_last_heartbeat_tick := sender_tick\<rparr>
         in if e_health e' \<noteq> Alive then e'\<lparr>e_health := Alive\<rparr> else e')
      else if e_last_heartbeat_tick e < sender_tick then
        (let e' = e\<lparr>e_last_heartbeat_tick := sender_tick\<rparr>
         in if e_health e' \<noteq> Alive then e'\<lparr>e_health := Alive\<rparr> else e')
      else e)"

definition record_heartbeat :: "AgentId \<Rightarrow> u64 \<Rightarrow> u64 \<Rightarrow> MembershipView \<Rightarrow> MembershipView" where
  "record_heartbeat aid sender_tick generation v =
     (case hm_get (agents v) aid of None \<Rightarrow> v
      | Some e \<Rightarrow> v\<lparr>agents := hm_insert aid (entry_heartbeat sender_tick generation e) (agents v)\<rparr>)"

definition mark_dead :: "AgentId \<Rightarrow> MembershipView \<Rightarrow> MembershipView" where
  "mark_dead aid v = (case hm_get (agents v) aid of None \<Rightarrow> v
     | Some e \<Rightarrow> v\<lparr>agents := hm_insert aid (e\<lparr>e_health := Dead\<rparr>) (agents v)\<rparr>)"

definition update_pose :: "AgentId \<Rightarrow> Pose \<Rightarrow> MembershipView \<Rightarrow> MembershipView" where
  "update_pose aid new_pose v = (case hm_get (agents v) aid of None \<Rightarrow> v
     | Some e \<Rightarrow> if e_health e = Alive
         then v\<lparr>agents := hm_insert aid (e\<lparr>e_pose := new_pose\<rparr>) (agents v)\<rparr> else v)"

definition alive_agents :: "MembershipView \<Rightarrow> (AgentId \<times> AgentEntry) list" where
  "alive_agents v = filter (\<lambda>(_, e). e_health e = Alive) (agents v)"

definition member :: "MembershipView \<Rightarrow> AgentId \<Rightarrow> AgentEntry option" where
  "member v aid = hm_get (agents v) aid"

definition is_alive :: "MembershipView \<Rightarrow> AgentId \<Rightarrow> bool" where
  "is_alive v aid = (case member v aid of Some e \<Rightarrow> e_health e = Alive | None \<Rightarrow> False)"

definition generation_of :: "MembershipView \<Rightarrow> AgentId \<Rightarrow> u64" where
  "generation_of v aid = (case member v aid of Some e \<Rightarrow> e_generation e | None \<Rightarrow> 0)"

definition all_generations :: "MembershipView \<Rightarrow> (AgentId \<times> u64) list" where
  "all_generations v = map (\<lambda>(i, e). (i, e_generation e)) (agents v)"

section \<open>Environment effects and movement\<close>

definition drift :: "f64 \<Rightarrow> f64 \<times> f64 \<times> f64 \<Rightarrow> Pose \<Rightarrow> Pose" where
  "drift dt w p = (case w of (wx, wy, wz) \<Rightarrow>
     \<lparr>px = f64_add (px p) (f64_mul wx dt), py = f64_add (py p) (f64_mul wy dt),
      pz = f64_add (pz p) (f64_mul wz dt)\<rparr>)"

definition jitter :: "f64 \<Rightarrow> f64 \<Rightarrow> f64 \<Rightarrow> f64" where
  "jitter noise sample x = f64_add x (f64_sub (f64_mul sample noise) (f64_div noise (f64_lit 2)))"

fun environment_loop ::
  "('g \<Rightarrow> f64 \<times> 'g) \<Rightarrow> (f64 \<times> f64 \<times> f64) option \<Rightarrow> f64 \<Rightarrow> f64 \<Rightarrow> 'g \<Rightarrow>
   (AgentId, AgentEntry) hmap \<Rightarrow> (AgentId, AgentEntry) hmap \<times> 'g"
where
  "environment_loop gen wind noise dt g [] = ([], g)"
| "environment_loop gen wind noise dt g ((i, e) # es) =
     (if e_health e \<noteq> Alive then
        (let (es', g') = environment_loop gen wind noise dt g es in ((i, e) # es', g'))
      else
        (let p1 = (case wind of Some w \<Rightarrow> drift dt w (e_pose e) | None \<Rightarrow> e_pose e);
             (p2, g1) = (if f64_lt f64_zero noise then
                (let (sx, ga) = gen g; (sy, gb) = gen ga; (sz, gc) = gen gb
                 in (\<lparr>px = jitter noise sx (px p1), py = jitter noise sy (py p1),
                      pz = jitter noise sz (pz p1)\<rparr>, gc))
                else (p1, g));
             (es', g') = environment_loop gen wind noise dt g1 es
         in ((i, e\<lparr>e_pose := p2\<rparr>) # es', g')))"

definition apply_environment_effects ::
  "('g \<Rightarrow> f64 \<times> 'g) \<Rightarrow> (f64 \<times> f64 \<times> f64) option \<Rightarrow> f64 \<Rightarrow> 'g \<Rightarrow> f64 \<Rightarrow>
   MembershipView \<Rightarrow> MembershipView \<times> 'g"
where
  "apply_environment_effects gen wind noise g dt v =
     (let (es, g') = environment_loop gen wind noise dt g (agents v) in (v\<lparr>agents := es\<rparr>, g'))"

text \<open>The nearest assigned task with a pose, ties broken by identifier; an incomparable distance
  counts as equal, so the comparator never fails.\<close>

definition nearest_cmp :: "Pose \<Rightarrow> Task \<Rightarrow> Task \<Rightarrow> ordering option" where
  "nearest_cmp p l r =
     (let c = (case partial_cmp (distance_to p (the (t_pose l))) (distance_to p (the (t_pose r))) of
                 Some c \<Rightarrow> c | None \<Rightarrow> Equal)
      in Some (if c = Equal
        then (if t_id l < t_id r then Less else if t_id r < t_id l then Greater else Equal) else c))"

definition movement_target :: "TaskRegistry \<Rightarrow> AgentId \<Rightarrow> Pose \<Rightarrow> Task option" where
  "movement_target reg aid p =
     (case min_by (nearest_cmp p)
        (filter (\<lambda>t. t_pose t \<noteq> None) (filter (\<lambda>t. t_assigned_to t = Some aid) (hm_values (tasks reg))))
      of Some r \<Rightarrow> r | None \<Rightarrow> None)"

definition arrival_epsilon :: f64 where
  "arrival_epsilon = of_exact (1 / 10 ^ 9)"

lemma arrival_epsilon_small: "\<not> f64_lt (f64_lit 10) arrival_epsilon"
proof -
  obtain v where "f64_round False (1 / 10 ^ 9) = Fin False v" "v \<le> 1 / 10 ^ 9 + 1"
    by (rule f64_round_small [of "1 / 10 ^ 9" False]) auto
  then show ?thesis by (simp add: arrival_epsilon_def of_exact_def val_def)
qed

text \<open>One agent's movement: \<open>None\<close> where the loop body reaches \<open>continue\<close>, otherwise the moved entry
  and the distance.\<close>

definition move_entry :: "TaskRegistry \<Rightarrow> f64 \<Rightarrow> AgentId \<Rightarrow> AgentEntry \<Rightarrow> (AgentEntry \<times> f64) option" where
  "move_entry reg dt aid e =
     (if e_health e \<noteq> Alive \<or> f64_le (e_speed e) f64_zero then None
      else case movement_target reg aid (e_pose e) of None \<Rightarrow> None
      | Some t \<Rightarrow>
        (let dest = the (t_pose t); p = e_pose e;
             dx = f64_sub (px dest) (px p); dy = f64_sub (py dest) (py p); dz = f64_sub (pz dest) (pz p);
             dist = f64_sqrt (f64_add (f64_add (f64_mul dx dx) (f64_mul dy dy)) (f64_mul dz dz))
         in if f64_lt dist arrival_epsilon then None
         else
          (let max_step = f64_mul (e_speed e) dt;
               moved = f64_min dist max_step;
               ratio = f64_div moved dist;
               p' = \<lparr>px = f64_add (px p) (f64_mul dx ratio), py = f64_add (py p) (f64_mul dy ratio),
                     pz = f64_add (pz p) (f64_mul dz ratio)\<rparr>;
               drain = (case e_battery_model e of
                   Some bm \<Rightarrow>
                     (let horizontal = f64_min (f64_sqrt (f64_add (f64_mul dx dx) (f64_mul dy dy))) moved;
                          vertical = f64_mul (f64_abs dz) ratio
                      in f64_add (f64_add (f64_mul horizontal (cruise_drain_per_meter bm))
                            (f64_mul vertical (climb_drain_per_meter bm)))
                           (hover_drain_per_tick bm))
                 | None \<Rightarrow> f64_mul moved (e_battery_drain_rate e))
           in Some (e\<lparr>e_pose := p', e_battery := f64_max (f64_sub (e_battery e) drain) f64_zero\<rparr>, moved))))"

fun movement_loop ::
  "TaskRegistry \<Rightarrow> f64 \<Rightarrow> (AgentId, AgentEntry) hmap \<Rightarrow>
   (AgentId, AgentEntry) hmap \<times> AgentId list \<times> (AgentId \<times> f64) list"
where
  "movement_loop reg dt [] = ([], [], [])"
| "movement_loop reg dt ((i, e) # es) =
     (case movement_loop reg dt es of (es', exhausted, distances) \<Rightarrow>
       (case move_entry reg dt i e of
          None \<Rightarrow> ((i, e) # es', exhausted, distances)
        | Some (e', d) \<Rightarrow>
            ((i, e') # es',
             (if f64_le (e_battery e') f64_zero then i # exhausted else exhausted),
             (i, d) # distances)))"

definition apply_movement ::
  "TaskRegistry \<Rightarrow> u64 \<Rightarrow> MembershipView \<Rightarrow> MembershipView \<times> AgentId list \<times> (AgentId \<times> f64) list"
where
  "apply_movement reg tick_ms v =
     (let dt = f64_div (f64_of_nat (unat tick_ms)) (f64_lit 1000)
      in case movement_loop reg dt (agents v) of (es, ex, ds) \<Rightarrow> (v\<lparr>agents := es\<rparr>, ex, ds))"

section \<open>The failure detector\<close>

record FailureDetector =
  timeout_ticks :: u64

definition timed_out :: "FailureDetector \<Rightarrow> u64 \<Rightarrow> AgentEntry \<Rightarrow> bool" where
  "timed_out d now e = (timeout_ticks d < saturating_sub now (e_last_heartbeat_tick e))"

definition detect :: "FailureDetector \<Rightarrow> MembershipView \<Rightarrow> u64 \<Rightarrow> AgentId list" where
  "detect d v now = map fst (filter (\<lambda>(_, e). timed_out d now e) (alive_agents v))"

section \<open>Lookup lemmas\<close>

abbreviation mem_wf :: "MembershipView \<Rightarrow> bool" where
  "mem_wf v \<equiv> hm_wf (agents v)"

lemma member_heartbeat [simp]:
  "member (record_heartbeat aid t g v) k =
     (if k = aid then map_option (entry_heartbeat t g) (member v k) else member v k)"
  by (auto simp: member_def record_heartbeat_def split: option.splits)

lemma member_mark_dead [simp]:
  "member (mark_dead aid v) k =
     (if k = aid then map_option (\<lambda>e. e\<lparr>e_health := Dead\<rparr>) (member v k) else member v k)"
  by (auto simp: member_def mark_dead_def split: option.splits)

lemma member_update_pose:
  "member (update_pose aid p v) k =
     (if k = aid then map_option (\<lambda>e. if e_health e = Alive then e\<lparr>e_pose := p\<rparr> else e) (member v k)
      else member v k)"
  by (auto simp: member_def update_pose_def split: option.splits)

lemma mem_wf_ops [simp]:
  "mem_wf v \<Longrightarrow> mem_wf (record_heartbeat aid t g v)"
  "mem_wf v \<Longrightarrow> mem_wf (mark_dead aid v)"
  "mem_wf v \<Longrightarrow> mem_wf (update_pose aid p v)"
  by (auto simp: record_heartbeat_def mark_dead_def update_pose_def split: option.splits)

lemma alive_agents_iff:
  "mem_wf v \<Longrightarrow> (i, e) \<in> set (alive_agents v) \<longleftrightarrow> member v i = Some e \<and> e_health e = Alive"
  by (auto simp: alive_agents_def member_def hm_get_Some_iff)

lemma is_alive_iff: "is_alive v i \<longleftrightarrow> (\<exists>e. member v i = Some e \<and> e_health e = Alive)"
  by (auto simp: is_alive_def split: option.splits)

lemma is_alive_mark_dead [simp]: "is_alive (mark_dead a v) k \<longleftrightarrow> k \<noteq> a \<and> is_alive v k"
  by (auto simp: is_alive_iff)

lemma distinct_alive: "mem_wf v \<Longrightarrow> distinct (map fst (alive_agents v))"
  by (simp add: alive_agents_def hm_wf_def distinct_map_filter)

lemma set_detect:
  "mem_wf v \<Longrightarrow> set (detect d v now) =
     {i. \<exists>e. member v i = Some e \<and> e_health e = Alive \<and>
        unat (e_last_heartbeat_tick e) + unat (timeout_ticks d) < unat now}"
  by (force simp: detect_def timed_out_def saturating_sub_gt_iff alive_agents_iff add.commute)

lemma distinct_detect: "mem_wf v \<Longrightarrow> distinct (detect d v now)"
  by (simp add: detect_def distinct_map_filter distinct_alive)

lemma movement_loop_keys: "map fst (fst (movement_loop reg dt es)) = map fst es"
  by (induction es) (auto split: prod.splits option.splits)

lemma movement_loop_lookup:
  "hm_get (fst (movement_loop reg dt es)) i =
     map_option (\<lambda>e. case move_entry reg dt i e of None \<Rightarrow> e | Some (e', d) \<Rightarrow> e') (hm_get es i)"
  by (induction es) (auto simp: hm_get_def split: prod.splits option.splits)

lemma movement_loop_distances:
  "(i, d) \<in> set (snd (snd (movement_loop reg dt es))) \<longleftrightarrow>
     (\<exists>e e'. (i, e) \<in> set es \<and> move_entry reg dt i e = Some (e', d))"
proof (induction es)
  case (Cons p es)
  obtain k e where p: "p = (k, e)" by (cases p)
  obtain x y z where l: "movement_loop reg dt es = (x, y, z)" by (cases "movement_loop reg dt es")
  show ?case
    using Cons by (cases "move_entry reg dt k e") (auto simp: p l)
qed simp

lemma movement_loop_exhausted:
  "i \<in> set (fst (snd (movement_loop reg dt es))) \<longleftrightarrow>
     (\<exists>e e' d. (i, e) \<in> set es \<and> move_entry reg dt i e = Some (e', d) \<and> f64_le (e_battery e') f64_zero)"
proof (induction es)
  case (Cons p es)
  obtain k e where p: "p = (k, e)" by (cases p)
  obtain x y z where l: "movement_loop reg dt es = (x, y, z)" by (cases "movement_loop reg dt es")
  show ?case
    using Cons by (cases "move_entry reg dt k e") (auto simp: p l split: if_splits)
qed simp

text \<open>What a movement step leaves alone, and what it guarantees of the battery.\<close>

lemma move_entry_Some:
  assumes "move_entry reg dt i e = Some (e', d)"
  shows "e_health e = Alive" "e' = e\<lparr>e_pose := e_pose e', e_battery := e_battery e'\<rparr>"
    "f64_le f64_zero (e_battery e')"
    "\<exists>t. movement_target reg i (e_pose e) = Some t"
  using assms
  by (auto simp: move_entry_def Let_def split: if_splits option.splits intro!: f64_max_ge)

lemma movement_target_owned:
  "movement_target reg i p = Some t \<Longrightarrow> t \<in> set (hm_values (tasks reg)) \<and> t_assigned_to t = Some i \<and> t_pose t \<noteq> None"
  by (auto simp: movement_target_def split: option.splits dest!: min_by_mem)

lemma mem_wf_apply_movement: "mem_wf v \<Longrightarrow> mem_wf (fst (apply_movement reg ms v))"
  using movement_loop_keys
  by (simp add: apply_movement_def hm_wf_def Let_def split: prod.splits) (metis fst_conv)

lemma member_apply_movement:
  "member (fst (apply_movement reg ms v)) i =
     map_option (\<lambda>e. case move_entry reg (f64_div (f64_of_nat (unat ms)) (f64_lit 1000)) i e of
        None \<Rightarrow> e | Some (e', d) \<Rightarrow> e') (member v i)"
  using movement_loop_lookup [of reg "f64_div (f64_of_nat (unat ms)) (f64_lit 1000)" "agents v" i]
  by (simp add: apply_movement_def member_def Let_def case_prod_beta)

section \<open>Heartbeats commute\<close>

text \<open>A heartbeat carries a stamp, the pair of its generation and tick, compared lexicographically.\<close>

definition stamp :: "AgentEntry \<Rightarrow> u64 \<times> u64" where
  "stamp e = (e_generation e, e_last_heartbeat_tick e)"

definition accept :: "u64 \<times> u64 \<Rightarrow> AgentEntry \<Rightarrow> AgentEntry" where
  "accept p e = e\<lparr>e_generation := fst p, e_last_heartbeat_tick := snd p, e_health := Alive\<rparr>"

lemma stamp_accept [simp]: "stamp (accept p e) = p" "accept p (accept q e) = accept p e"
  by (simp_all add: stamp_def accept_def)

lemma entry_heartbeat_stamp: "entry_heartbeat t g e = (if stamp e < (g, t) then accept (g, t) e else e)"
  by (auto simp: entry_heartbeat_def stamp_def accept_def Let_def)

lemma accept_commute:
  defines "u \<equiv> (\<lambda>p e. if stamp e < p then accept p e else e)"
  shows "u p (u q e) = u q (u p e)"
  by (rule linorder_cases [of p q]) (auto simp: u_def)

lemma entry_heartbeat_commute:
  "entry_heartbeat t1 g1 (entry_heartbeat t2 g2 e) = entry_heartbeat t2 g2 (entry_heartbeat t1 g1 e)"
  unfolding entry_heartbeat_stamp by (rule accept_commute [simplified])

text \<open>Recording a sequence of heartbeats, given as (sender, tick, generation).\<close>

definition record_all :: "(AgentId \<times> u64 \<times> u64) list \<Rightarrow> MembershipView \<Rightarrow> MembershipView" where
  "record_all hbs v = fold (\<lambda>(a, t, g) v. record_heartbeat a t g v) hbs v"

lemma member_record_all:
  "member (record_all hbs v) k = map_option
     (fold (\<lambda>(a, t, g). entry_heartbeat t g) (filter (\<lambda>(a, t, g). a = k) hbs)) (member v k)"
  unfolding record_all_def
  by (induction hbs arbitrary: v) (auto simp: option.map_comp comp_def option.map_id split: if_splits)

lemma mem_wf_record_all: "mem_wf v \<Longrightarrow> mem_wf (record_all hbs v)"
  unfolding record_all_def by (induction hbs arbitrary: v) auto


section \<open>Properties\<close>

definition sample_agent :: "AgentId \<Rightarrow> Agent" where
  "sample_agent i = \<lparr>a_id = i, a_role = Scout, a_health = Alive, a_pose = default_pose,
     a_capabilities = [], a_current_task = None, a_battery = f64_lit 100,
     a_comms_range = Inf False, a_generation = 1, a_speed = f64_zero, a_max_range = f64_zero,
     a_battery_drain_rate = f64_zero, a_battery_model = None\<rparr>"

text \<open>(C4) Heartbeat acceptance. A heartbeat changes only the sender's entry, and only if its
  (generation, tick) pair is lexicographically above the recorded one; it then stores that pair and
  makes the sender alive, leaving every other field alone. A stale heartbeat, in particular one of
  an older generation, changes nothing, so it never resurrects a dead agent.\<close>

theorem record_heartbeat_exact:
  "member (record_heartbeat aid tick gen v) k =
     (case member v k of None \<Rightarrow> None
      | Some e \<Rightarrow> Some (if k = aid \<and> (e_generation e < gen \<or>
            e_generation e = gen \<and> e_last_heartbeat_tick e < tick)
          then e\<lparr>e_generation := gen, e_last_heartbeat_tick := tick, e_health := Alive\<rparr> else e))"
  by (auto simp: entry_heartbeat_stamp stamp_def accept_def split: option.splits)

text \<open>Heartbeats may arrive in any order. Recording the same heartbeats in two different orders
  leads to the same view of every agent.\<close>

theorem heartbeat_order_irrelevant:
  assumes "mset hbs = mset hbs'"
  shows "member (record_all hbs v) k = member (record_all hbs' v) k"
proof -
  let ?f = "\<lambda>(a, t, g). entry_heartbeat t g" and ?P = "\<lambda>(a, t, g). a = k"
  have "fold ?f (filter ?P hbs) = fold ?f (filter ?P hbs')"
  proof (rule fold_multiset_equiv)
    show "mset (filter ?P hbs) = mset (filter ?P hbs')" using assms by simp
  qed (auto simp: fun_eq_iff entry_heartbeat_commute)
  then show ?thesis by (simp add: member_record_all)
qed

theorem heartbeat_order_irrelevant_witness:
  "member (record_all [(''a'', 7, 1), (''a'', 3, 2)] (membership_new [sample_agent ''a''])) ''a'' =
   member (record_all [(''a'', 3, 2), (''a'', 7, 1)] (membership_new [sample_agent ''a''])) ''a''"
  by (rule heartbeat_order_irrelevant) simp

text \<open>Failure detection. The detector reports exactly the agents believed alive whose last
  heartbeat is more than \<open>timeout_ticks\<close> old, each once; a heartbeat stamped in the future of the
  local clock counts as fresh.\<close>

theorem detect_exact:
  assumes "mem_wf v"
  shows "distinct (detect d v now) \<and>
    (\<forall>i. i \<in> set (detect d v now) \<longleftrightarrow> (\<exists>e. member v i = Some e \<and> e_health e = Alive \<and>
        unat (e_last_heartbeat_tick e) + unat (timeout_ticks d) < unat now))"
  using set_detect [OF assms, of d now] distinct_detect [OF assms] by auto

theorem detect_exact_witness:
  "detect \<lparr>timeout_ticks = 3\<rparr> (membership_new [sample_agent ''a'']) 4 = [''a''] \<and>
   distinct (detect \<lparr>timeout_ticks = 3\<rparr> (membership_new [sample_agent ''a'']) 4)"
proof -
  have "mem_wf (membership_new [sample_agent ''a''])" by (simp add: membership_new_def)
  from detect_exact [OF this, of "\<lparr>timeout_ticks = 3\<rparr>" 4] show ?thesis
    by (simp add: detect_def alive_agents_def timed_out_def saturating_sub_def membership_new_def
        hm_collect_def hm_insert_def entry_of_agent_def sample_agent_def)
qed

text \<open>Movement and battery. A tick of movement touches only the pose and the battery of agents
  that are alive and have an assigned task with a pose; the battery of an agent that moved is a
  number and not negative; the agents reported exhausted are exactly the ones that moved and have no
  battery left; the reported distances belong exactly to the agents that moved.\<close>

theorem apply_movement_safe:
  assumes "mem_wf v" and "apply_movement reg ms v = (v', exhausted, distances)"
  shows "\<forall>i. (case member v i of None \<Rightarrow> member v' i = None
     | Some e \<Rightarrow> \<exists>e'. member v' i = Some e' \<and>
         e' = e\<lparr>e_pose := e_pose e', e_battery := e_battery e'\<rparr> \<and>
         (i \<notin> fst ` set distances \<longrightarrow> e' = e) \<and>
         (i \<in> fst ` set distances \<longrightarrow> e_health e = Alive \<and> f64_le f64_zero (e_battery e') \<and>
            (\<exists>t\<in>set (hm_values (tasks reg)). t_assigned_to t = Some i \<and> t_pose t \<noteq> None)) \<and>
         (i \<in> set exhausted \<longleftrightarrow> i \<in> fst ` set distances \<and> f64_le (e_battery e') f64_zero))"
proof
  fix i
  let ?dt = "f64_div (f64_of_nat (unat ms)) (f64_lit 1000)"
  have v': "v' = fst (apply_movement reg ms v)" and
    ds: "distances = snd (snd (movement_loop reg ?dt (agents v)))" and
    ex: "exhausted = fst (snd (movement_loop reg ?dt (agents v)))"
    using assms(2) by (simp_all add: apply_movement_def Let_def case_prod_beta)
  show "case member v i of None \<Rightarrow> member v' i = None
     | Some e \<Rightarrow> \<exists>e'. member v' i = Some e' \<and>
         e' = e\<lparr>e_pose := e_pose e', e_battery := e_battery e'\<rparr> \<and>
         (i \<notin> fst ` set distances \<longrightarrow> e' = e) \<and>
         (i \<in> fst ` set distances \<longrightarrow> e_health e = Alive \<and> f64_le f64_zero (e_battery e') \<and>
            (\<exists>t\<in>set (hm_values (tasks reg)). t_assigned_to t = Some i \<and> t_pose t \<noteq> None)) \<and>
         (i \<in> set exhausted \<longleftrightarrow> i \<in> fst ` set distances \<and> f64_le (e_battery e') f64_zero)"
  proof (cases "member v i")
    case None
    then show ?thesis by (simp add: v' member_apply_movement)
  next
    case (Some e)
    then have mem: "(i, e2) \<in> set (agents v) \<longleftrightarrow> e2 = e" for e2
      using hm_get_Some_iff [OF assms(1)] by (metis member_def option.inject)
    have moved: "i \<in> fst ` set distances \<longleftrightarrow> (\<exists>e' d. move_entry reg ?dt i e = Some (e', d))"
      using movement_loop_distances [of i _ reg ?dt "agents v"] mem by (force simp: ds image_iff)
    have exh: "i \<in> set exhausted \<longleftrightarrow>
        (\<exists>e' d. move_entry reg ?dt i e = Some (e', d) \<and> f64_le (e_battery e') f64_zero)"
      using movement_loop_exhausted [of i reg ?dt "agents v"] mem by (auto simp: ex)
    show ?thesis
    proof (cases "move_entry reg ?dt i e")
      case None
      with Some moved exh show ?thesis by (simp add: v' member_apply_movement)
    next
      case (Some p)
      then obtain e' d where m: "move_entry reg ?dt i e = Some (e', d)" by (cases p) auto
      have "member v' i = Some e'"
        using \<open>member v i = Some e\<close> m by (simp add: v' member_apply_movement)
      moreover obtain t where "movement_target reg i (e_pose e) = Some t"
        using move_entry_Some(4) [OF m] by blast
      then have "\<exists>t\<in>set (hm_values (tasks reg)). t_assigned_to t = Some i \<and> t_pose t \<noteq> None"
        using movement_target_owned by blast
      ultimately show ?thesis
        using \<open>member v i = Some e\<close> moved exh m move_entry_Some(1-3) [OF m] by simp
    qed
  qed
qed

definition moving_view :: MembershipView where
  "moving_view = membership_new [sample_agent ''a''\<lparr>a_speed := f64_lit 5, a_battery_drain_rate := f64_lit 2\<rparr>]"

definition moving_registry :: TaskRegistry where
  "moving_registry = registry_new [sample_task ''t''\<lparr>t_status := Assigned, t_assigned_to := Some ''a'',
     t_pose := Some \<lparr>px = f64_lit 10, py = f64_zero, pz = f64_zero\<rparr>\<rparr>]"

theorem apply_movement_safe_witness:
  "snd (snd (apply_movement moving_registry 1000 moving_view)) = [(''a'', f64_lit 5)] \<and>
   (\<exists>e'. member (fst (apply_movement moving_registry 1000 moving_view)) ''a'' = Some e' \<and>
     f64_le f64_zero (e_battery e'))"
proof -
  have wf: "mem_wf moving_view" by (simp add: moving_view_def membership_new_def)
  obtain v' ex ds where m: "apply_movement moving_registry 1000 moving_view = (v', ex, ds)"
    by (cases "apply_movement moving_registry 1000 moving_view")
  have ten: "f64_sqrt (f64_lit 100) = f64_lit 10" using f64_sqrt_square [of 10] by simp
  have "snd (snd (apply_movement moving_registry 1000 moving_view)) = [(''a'', f64_lit 5)]"
    by (simp add: apply_movement_def moving_view_def moving_registry_def registry_new_def
        membership_new_def hm_collect_def hm_insert_def move_entry_def movement_target_def min_by_def
        sample_agent_def sample_task_def entry_of_agent_def f64_sub_def
        default_pose_def val_def of_exact_def Let_def f64_of_nat_def f64_min_def ten
        arrival_epsilon_small)
  moreover have "member moving_view ''a'' \<noteq> None"
    by (simp add: moving_view_def membership_new_def member_def hm_get_collect sample_agent_def)
  ultimately show ?thesis
    using apply_movement_safe [OF wf m] m by (auto dest!: spec [of _ "''a''"])
qed

end
