(* ===== verification/Coordination.thy ===== *)
theory Coordination
  imports Membership
begin

text \<open>
  \<open>swarm-runtime/src/coordinator.rs\<close>: the coordinator of one node owns the membership view, the
  failure detector and the task registry; \<open>process_tick\<close> injects tasks, declares silent agents
  failed, gives their unfinished work back to the pool and expires overdue tasks. The properties
  rest on the interface \<open>task_store\<close> of the registry through its interpretation \<open>reg\<close>.
\<close>

section \<open>State and operations\<close>

record FailureRelease =
  failed_agent_id :: AgentId
  fr_released_tasks :: "TaskId list"
  detected_at_tick :: u64

record CoordinatorOutput =
  newly_failed :: "AgentId list"
  failure_releases :: "FailureRelease list"
  released_tasks :: "TaskId list"
  expired_task_ids :: "TaskId list"

record Coordinator =
  membership :: MembershipView
  detector :: FailureDetector
  registry :: TaskRegistry

definition coordinator_new :: "Agent list \<Rightarrow> Task list \<Rightarrow> u64 \<Rightarrow> Coordinator" where
  "coordinator_new as ts timeout =
     \<lparr>membership = membership_new as, detector = \<lparr>timeout_ticks = timeout\<rparr>, registry = registry_new ts\<rparr>"

definition inject_task :: "Task \<Rightarrow> Coordinator \<Rightarrow> Coordinator" where
  "inject_task t c = c\<lparr>registry := registry_insert t (registry c)\<rparr>"

text \<open>The loop over the newly failed agents.\<close>

fun failure_loop ::
  "u64 \<Rightarrow> AgentId list \<Rightarrow> Coordinator \<Rightarrow> Coordinator \<times> TaskId list \<times> FailureRelease list"
where
  "failure_loop now [] c = (c, [], [])"
| "failure_loop now (a # as) c =
     (let (r, released) = release_agent_tasks (registry c) a;
          c' = c\<lparr>membership := mark_dead a (membership c), registry := r\<rparr>;
          (c'', all_released, releases) = failure_loop now as c'
      in (c'', released @ all_released,
          \<lparr>failed_agent_id = a, fr_released_tasks = released, detected_at_tick = now\<rparr> # releases))"

definition process_tick ::
  "AgentId list \<Rightarrow> u64 \<Rightarrow> Task list \<Rightarrow> Coordinator \<Rightarrow> Coordinator \<times> CoordinatorOutput"
where
  "process_tick heartbeat_senders now injected c =
     (let c1 = foldl (\<lambda>c t. c\<lparr>registry := registry_insert t (registry c)\<rparr>) c injected;
          failed = detect (detector c1) (membership c1) now;
          (c2, released, releases) = failure_loop now failed c1;
          (r, expired_ids) = expire_tasks (registry c2) now
      in (c2\<lparr>registry := r\<rparr>,
          \<lparr>newly_failed = failed, failure_releases = releases, released_tasks = released,
           expired_task_ids = expired_ids\<rparr>))"

section \<open>Invariant\<close>

definition coord_inv :: "Coordinator \<Rightarrow> bool" where
  "coord_inv c = (mem_wf (membership c) \<and> reg_inv (registry c))"

lemma coord_inv_new: "\<forall>t\<in>set ts. owner_ok t \<Longrightarrow> coord_inv (coordinator_new as ts n)"
  by (simp add: coord_inv_def coordinator_new_def membership_new_def new_inv)

lemma inject_all:
  "foldl (\<lambda>c t. c\<lparr>registry := registry_insert t (registry c)\<rparr>) c ts =
     c\<lparr>registry := foldl (\<lambda>r t. registry_insert t r) (registry c) ts\<rparr>"
  by (induction ts arbitrary: c) auto

lemma inject_all_inv:
  "reg_inv r \<Longrightarrow> \<forall>t\<in>set ts. owner_ok t \<Longrightarrow> reg_inv (foldl (\<lambda>r t. registry_insert t r) r ts)"
  by (induction ts arbitrary: r) (auto intro: keeps_inv)

text \<open>The tasks a failed agent leaves behind, expressed on the state before the loop: releasing one
  agent never touches the work of another.\<close>

lemma failure_loop_state:
  "fst (failure_loop now as c) =
     c\<lparr>membership := foldl (\<lambda>v a. mark_dead a v) (membership c) as,
       registry := reg.rel_all (registry c) as\<rparr>"
  by (induction as arbitrary: c) (simp_all add: reg.rel_all_def Let_def case_prod_beta)

lemma failure_loop_releases:
  "map failed_agent_id (snd (snd (failure_loop now as c))) = as \<and>
   concat (map fr_released_tasks (snd (snd (failure_loop now as c)))) = fst (snd (failure_loop now as c)) \<and>
   (\<forall>f\<in>set (snd (snd (failure_loop now as c))). detected_at_tick f = now)"
  by (induction as arbitrary: c) (simp_all add: Let_def case_prod_beta)

lemma release_ids:
  assumes "reg_wf r"
  shows "k \<in> set (snd (release_agent_tasks r a)) \<longleftrightarrow>
    (\<exists>t. task_of r k = Some t \<and> owned_unfinished a t)"
proof -
  have "k \<in> set (snd (release_agent_tasks r a)) \<longleftrightarrow>
      (\<exists>t\<in>set (hm_values (tasks r)). owned_unfinished a t \<and> t_id t = k)"
    by (auto simp: release_agent_tasks_def)
  then show ?thesis
    by (simp only: Bex_def values_iff [OF assms]) (metis reg_wfD(2) [OF assms])
qed

lemma failure_loop_released:
  assumes "reg_inv (registry c)"
  shows "set (fst (snd (failure_loop now as c))) =
    {k. \<exists>t a. a \<in> set as \<and> task_of (registry c) k = Some t \<and> owned_unfinished a t}"
  using assms
proof (induction as arbitrary: c)
  case Nil
  then show ?case by simp
next
  case (Cons a as)
  let ?r = "fst (release_agent_tasks (registry c) a)"
  let ?c = "c\<lparr>membership := mark_dead a (membership c), registry := ?r\<rparr>"
  have inv: "reg_inv (registry ?c)" using Cons.prems by (simp add: release_agent_inv)
  have "set (fst (snd (failure_loop now (a # as) c))) =
      set (snd (release_agent_tasks (registry c) a)) \<union> set (fst (snd (failure_loop now as ?c)))"
    by (simp add: Let_def case_prod_beta)
  also have "\<dots> = {k. \<exists>t. task_of (registry c) k = Some t \<and> owned_unfinished a t} \<union>
      {k. \<exists>t b. b \<in> set as \<and> task_of ?r k = Some t \<and> owned_unfinished b t}"
    using release_ids [OF reg_inv_wf [OF Cons.prems]] Cons.IH [OF inv] by auto
  also have "\<dots> = {k. \<exists>t b. b \<in> set (a # as) \<and> task_of (registry c) k = Some t \<and> owned_unfinished b t}"
    by (auto simp: task_of_release_agent owned_unfinished_def split: if_splits)
  finally show ?case .
qed

lemma member_mark_all:
  "member (foldl (\<lambda>v a. mark_dead a v) v as) k =
     (if k \<in> set as then map_option (\<lambda>e. e\<lparr>e_health := Dead\<rparr>) (member v k) else member v k)"
  by (induction as arbitrary: v) (auto simp: option.map_comp comp_def)

lemma mem_wf_mark_all: "mem_wf v \<Longrightarrow> mem_wf (foldl (\<lambda>v a. mark_dead a v) v as)"
  by (induction as arbitrary: v) auto

text \<open>The tick in closed form.\<close>

lemma process_tick_state:
  assumes "process_tick hs now injected c = (c', out)"
  defines "r1 \<equiv> foldl (\<lambda>r t. registry_insert t r) (registry c) injected"
  defines "failed \<equiv> detect (detector c) (membership c) now"
  shows "membership c' = foldl (\<lambda>v a. mark_dead a v) (membership c) failed"
    "registry c' = fst (expire_tasks (reg.rel_all r1 failed) now)"
    "detector c' = detector c"
    "newly_failed out = failed"
    "expired_task_ids out = snd (expire_tasks (reg.rel_all r1 failed) now)"
    "released_tasks out = fst (snd (failure_loop now failed (c\<lparr>registry := r1\<rparr>)))"
    "failure_releases out = snd (snd (failure_loop now failed (c\<lparr>registry := r1\<rparr>)))"
  using assms(1) failure_loop_state [of now failed "c\<lparr>registry := r1\<rparr>"]
  by (auto simp: process_tick_def inject_all r1_def failed_def Let_def case_prod_beta)

lemma process_tick_inv:
  assumes "coord_inv c" "\<forall>t\<in>set injected. owner_ok t"
  shows "coord_inv (fst (process_tick hs now injected c))"
proof -
  obtain c' out where p: "process_tick hs now injected c = (c', out)"
    by (cases "process_tick hs now injected c")
  show ?thesis
    using assms process_tick_state(1,2) [OF p]
    by (simp add: p coord_inv_def mem_wf_mark_all expire_inv reg.rel_all_inv inject_all_inv)
qed

text \<open>What a tick does to one task: lookup after the injection, release of the work of failed agents,
  expiry.\<close>

lemma task_of_inject_all:
  "task_of (foldl (\<lambda>r t. registry_insert t r) r ts) k =
     (case List.find (\<lambda>t. t_id t = k) (rev ts) of Some t \<Rightarrow> Some t | None \<Rightarrow> task_of r k)"
proof (induction ts rule: rev_induct)
  case Nil
  then show ?case by simp
next
  case (snoc t ts)
  then show ?case by auto
qed

lemma failure_loop_releases_exact:
  assumes "reg_inv (registry c)" "distinct as"
    "f \<in> set (snd (snd (failure_loop now as c)))"
  shows "set (fr_released_tasks f) =
    {k. \<exists>t. task_of (registry c) k = Some t \<and> owned_unfinished (failed_agent_id f) t}"
  using assms
proof (induction as arbitrary: c)
  case Nil
  then show ?case by simp
next
  case (Cons a as)
  let ?r = "fst (release_agent_tasks (registry c) a)"
  let ?c = "c\<lparr>membership := mark_dead a (membership c), registry := ?r\<rparr>"
  have inv: "reg_inv (registry ?c)" using Cons.prems(1) by (simp add: release_agent_inv)
  have eq: "snd (snd (failure_loop now (a # as) c)) =
      \<lparr>failed_agent_id = a, fr_released_tasks = snd (release_agent_tasks (registry c) a),
       detected_at_tick = now\<rparr> # snd (snd (failure_loop now as ?c))"
    by (simp add: Let_def case_prod_beta)
  show ?case
  proof (cases "f \<in> set (snd (snd (failure_loop now as ?c)))")
    case False
    with Cons.prems(3) eq have f: "f = \<lparr>failed_agent_id = a,
        fr_released_tasks = snd (release_agent_tasks (registry c) a), detected_at_tick = now\<rparr>" by simp
    show ?thesis using release_ids [OF reg_inv_wf [OF Cons.prems(1)], of _ a] by (auto simp: f)
  next
    case True
    then have "failed_agent_id f \<in> set as"
      using failure_loop_releases [of now as ?c] by (metis imageI set_map)
    with Cons.prems(2) have "failed_agent_id f \<noteq> a" by auto
    then have "(\<exists>t. task_of ?r k = Some t \<and> owned_unfinished (failed_agent_id f) t) \<longleftrightarrow>
        (\<exists>t. task_of (registry c) k = Some t \<and> owned_unfinished (failed_agent_id f) t)" for k
      by (cases "task_of (registry c) k")
        (auto simp: task_of_release_agent owned_unfinished_def split: if_splits)
    then show ?thesis using Cons.IH [OF inv _ True] Cons.prems(2) by simp
  qed
qed

section \<open>Properties\<close>

text \<open>(C2) A tick, exactly. The agents declared failed are the ones believed alive whose last
  heartbeat is more than the timeout old, each once; their entries become dead and no other entry
  changes. The registry after the tick is given task by task: starting from the injected task of
  that identifier (the last one injected) or else the task already there, an assigned or running
  task of a failed agent comes back unassigned and without owner, every other task stays as it is,
  and then a task whose expiry tick has come is removed, unless it is in progress (an overdue task
  in progress stays). The report lists the released tasks per failed agent, in the order of the
  failures and with the tick, and the identifiers of the removed tasks.\<close>

theorem process_tick_recovers:
  assumes inv: "coord_inv c" "\<forall>t\<in>set injected. owner_ok t"
    and tick: "process_tick hs now injected c = (c', out)"
  defines "before \<equiv> \<lambda>k. case List.find (\<lambda>t. t_id t = k) (rev injected) of
      Some t \<Rightarrow> Some t | None \<Rightarrow> task_of (registry c) k"
    and "lost \<equiv> \<lambda>t. \<exists>a\<in>set (newly_failed out). t_assigned_to t = Some a \<and> t_status t \<in> {Assigned, InProgress}"
  defines "after \<equiv> \<lambda>t. if lost t then t\<lparr>t_status := Unassigned, t_assigned_to := None\<rparr> else t"
  defines "overdue \<equiv> \<lambda>t. (\<exists>x. t_expires_at t = Some x \<and> x \<le> now) \<and> t_status t \<noteq> InProgress"
  shows "set (newly_failed out) = {i. \<exists>e. member (membership c) i = Some e \<and> e_health e = Alive \<and>
       unat (e_last_heartbeat_tick e) + unat (timeout_ticks (detector c)) < unat now} \<and>
    distinct (newly_failed out) \<and> detector c' = detector c \<and>
    (\<forall>i. member (membership c') i =
       (if i \<in> set (newly_failed out) then map_option (\<lambda>e. e\<lparr>e_health := Dead\<rparr>) (member (membership c) i)
        else member (membership c) i)) \<and>
    (\<forall>k. task_of (registry c') k =
       (case before k of None \<Rightarrow> None | Some t \<Rightarrow> if overdue (after t) then None else Some (after t))) \<and>
    set (released_tasks out) = {k. \<exists>t. before k = Some t \<and> lost t} \<and>
    set (expired_task_ids out) = {k. \<exists>t. before k = Some t \<and> overdue (after t)} \<and>
    map failed_agent_id (failure_releases out) = newly_failed out \<and>
    concat (map fr_released_tasks (failure_releases out)) = released_tasks out \<and>
    (\<forall>f\<in>set (failure_releases out). detected_at_tick f = now \<and> set (fr_released_tasks f) =
       {k. \<exists>t. before k = Some t \<and> t_assigned_to t = Some (failed_agent_id f) \<and>
          t_status t \<in> {Assigned, InProgress}})"
proof -
  note st = process_tick_state [OF tick]
  let ?r1 = "foldl (\<lambda>r t. registry_insert t r) (registry c) injected"
  let ?f = "detect (detector c) (membership c) now"
  have mem: "mem_wf (membership c)" using inv(1) by (simp add: coord_inv_def)
  have r1: "reg_inv ?r1" using inv by (simp add: coord_inv_def inject_all_inv)
  then have r2: "reg_wf (reg.rel_all ?r1 ?f)" by (simp add: reg.rel_all_inv reg_inv_wf)
  have before: "task_of ?r1 k = before k" for k by (simp add: task_of_inject_all before_def)
  have lost: "lost t \<longleftrightarrow> (\<exists>a\<in>set ?f. owned_unfinished a t)" for t
    by (auto simp: lost_def st(4) owned_unfinished_def unfinished_def)
  have overdue: "expired now t \<longleftrightarrow> overdue t" for t
    by (auto simp: expired_def overdue_def split: option.splits)
  have mid: "task_of (reg.rel_all ?r1 ?f) k = map_option after (before k)" for k
    by (simp add: reg.rel_all_look [OF r1] before lost after_def)
  have rel: "set (released_tasks out) = {k. \<exists>t. before k = Some t \<and> lost t}"
    using failure_loop_released [of "c\<lparr>registry := ?r1\<rparr>" now ?f] r1
    by (auto simp: st(6) before lost)
  have expd: "k \<in> set (expired_task_ids out) \<longleftrightarrow> (\<exists>t. before k = Some t \<and> overdue (after t))" for k
  proof -
    have "k \<in> set (expired_task_ids out) \<longleftrightarrow>
        (\<exists>t. task_of (reg.rel_all ?r1 ?f) k = Some t \<and> expired now t)"
      by (simp add: st(5) expired_ids [OF r2])
    then show ?thesis by (auto simp: mid overdue)
  qed
  have per_agent: "detected_at_tick f = now \<and> set (fr_released_tasks f) =
       {k. \<exists>t. before k = Some t \<and> t_assigned_to t = Some (failed_agent_id f) \<and>
          t_status t \<in> {Assigned, InProgress}}" if "f \<in> set (failure_releases out)" for f
    using failure_loop_releases_exact [of "c\<lparr>registry := ?r1\<rparr>" ?f f now] r1 distinct_detect [OF mem]
      failure_loop_releases [of now ?f "c\<lparr>registry := ?r1\<rparr>"] that
    by (auto simp: st(7) before owned_unfinished_def unfinished_def)
  show ?thesis
    using set_detect [OF mem, of "detector c" now] distinct_detect [OF mem] rel expd per_agent
    by (auto simp: st(1-4,7) member_mark_all task_of_expire [OF r2] mid overdue failure_loop_releases
        st(6) add.commute split: option.split)
qed

theorem process_tick_recovers_witness:
  "newly_failed (snd (process_tick [] 4
     [sample_task ''t''\<lparr>t_status := Assigned, t_assigned_to := Some ''a''\<rparr>]
     (coordinator_new [sample_agent ''a''] [] 3))) = [''a''] \<and>
   set (released_tasks (snd (process_tick [] 4
     [sample_task ''t''\<lparr>t_status := Assigned, t_assigned_to := Some ''a''\<rparr>]
     (coordinator_new [sample_agent ''a''] [] 3)))) = {''t''} \<and>
   task_of (registry (fst (process_tick [] 4
     [sample_task ''t''\<lparr>t_status := Assigned, t_assigned_to := Some ''a''\<rparr>]
     (coordinator_new [sample_agent ''a''] [] 3)))) ''t'' =
     Some (sample_task ''t''\<lparr>t_status := Unassigned, t_assigned_to := None\<rparr>)"
proof -
  let ?t = "sample_task ''t''\<lparr>t_status := Assigned, t_assigned_to := Some ''a''\<rparr>"
  let ?c = "coordinator_new [sample_agent ''a''] [] 3"
  obtain c' out where p: "process_tick [] 4 [?t] ?c = (c', out)"
    by (cases "process_tick [] 4 [?t] ?c")
  have inv: "coord_inv ?c" by (simp add: coord_inv_new)
  have owner: "\<forall>t\<in>set [?t]. owner_ok t" by simp
  have old: "member (membership ?c) i =
      (if i = ''a'' then Some (entry_of_agent (sample_agent ''a'')) else None)" for i
    by (simp add: coordinator_new_def membership_new_def member_def hm_collect_def hm_insert_def
        hm_get_def sample_agent_def)
  have empty: "task_of (registry ?c) k = None" for k
    by (simp add: coordinator_new_def registry_new_def task_of_def hm_collect_def)
  have sample: "t_id ?t = ''t''" "t_expires_at ?t = Some 5" by (simp_all add: sample_task_def)
  have e: "e_health (entry_of_agent (sample_agent ''a'')) = Alive"
    "e_last_heartbeat_tick (entry_of_agent (sample_agent ''a'')) = 0" "timeout_ticks (detector ?c) = 3"
    by (simp_all add: entry_of_agent_def sample_agent_def coordinator_new_def)
  note all = process_tick_recovers [OF inv owner p]
  from all have "set (newly_failed out) = {''a''}" "distinct (newly_failed out)"
    by (auto simp: old e split: if_splits)
  then have failed: "newly_failed out = [''a'']"
    by (cases "newly_failed out"; cases "tl (newly_failed out)") (auto simp: neq_Nil_conv)
  note to_registry = all [THEN conjunct2, THEN conjunct2, THEN conjunct2, THEN conjunct2]
  have "task_of (registry c') ''t'' = Some (sample_task ''t''\<lparr>t_status := Unassigned, t_assigned_to := None\<rparr>)"
    using to_registry [THEN conjunct1, rule_format, of "''t''"] sample by (simp add: failed)
  moreover have "set (released_tasks out) = {''t''}"
    using to_registry [THEN conjunct2, THEN conjunct1] sample by (simp add: failed empty)
  ultimately show ?thesis using p failed by simp
qed

end
