(* ===== verification/Gossip.thy ===== *)
theory Gossip
  imports Coordination
begin

text \<open>
  \<open>swarm-runtime/src/message.rs\<close> and \<open>swarm-runtime/src/node/gossip.rs\<close>: the messages nodes exchange
  and the merge of received gossip into the local coordinator. The byte encoding of a message is
  \<open>serde_json\<close> and stays a parameter of the node model; here messages are values. \<open>gossip_of\<close> is the
  message \<open>send_gossip\<close> builds.

  The properties: the merge in closed form per task, that it keeps the invariants, and that two
  nodes that agree on who is alive agree on the owner of every open task after one exchange.
\<close>

section \<open>Messages\<close>

record CbbaBid =
  cb_agent_id :: AgentId
  cb_value :: f64

datatype RuntimeMessage =
  Heartbeat (sender_tick: u64) (hb_generation: u64)
| Gossip (assignments: "(TaskId, AgentId) hmap") (generations: "(AgentId, u64) hmap")
| Cbba (round: u32) (winning_bids_msg: "(TaskId, CbbaBid) hmap") (sender_bundle: "TaskId list")

definition gossip_of :: "Coordinator \<Rightarrow> RuntimeMessage" where
  "gossip_of c = Gossip
     (hm_collect (List.map_filter (\<lambda>t. map_option (\<lambda>a. (t_id t, a)) (t_assigned_to t))
        (hm_values (tasks (registry c)))))
     (hm_collect (all_generations (membership c)))"

section \<open>The merge\<close>

definition local_owner :: "Coordinator \<Rightarrow> TaskId \<Rightarrow> AgentId option" where
  "local_owner c tid =
     Option.bind (find (\<lambda>t. t_id t = tid) (hm_values (tasks (registry c)))) t_assigned_to"

definition set_registry :: "Coordinator \<Rightarrow> TaskRegistry \<Rightarrow> Coordinator" where
  "set_registry c r = c\<lparr>registry := r\<rparr>"

text \<open>The remote claim wins over a different local owner by its generation, then by identifier.\<close>

definition remote_wins :: "(AgentId, u64) hmap \<Rightarrow> Coordinator \<Rightarrow> AgentId \<Rightarrow> AgentId \<Rightarrow> bool" where
  "remote_wins gens c local_id remote_id =
     (let local_generation = generation_of (membership c) local_id;
          remote_generation = (case hm_get gens remote_id of Some g \<Rightarrow> g | None \<Rightarrow> 1)
      in local_generation < remote_generation \<or>
         (remote_generation = local_generation \<and> local_id < remote_id))"

text \<open>The body of the loop over the ordered assignments; the state is the coordinator and the
  counters \<open>merged\<close> and \<open>stale\<close>.\<close>

definition merge_assignment ::
  "(AgentId, u64) hmap \<Rightarrow> Coordinator \<times> u64 \<times> u64 \<Rightarrow> TaskId \<times> AgentId \<Rightarrow> Coordinator \<times> u64 \<times> u64"
where
  "merge_assignment gens s p = (case s of (c, merged, stale) \<Rightarrow> case p of (tid, remote_id) \<Rightarrow>
     (case local_owner c tid of
        None \<Rightarrow>
          if is_alive (membership c) remote_id
          then (set_registry c (fst (assign (registry c) tid remote_id)), merged + 1, stale)
          else (c, merged, stale + 1)
      | Some local_id \<Rightarrow>
          if local_id = remote_id then (c, merged, stale)
          else if \<not> is_alive (membership c) remote_id then (c, merged, stale + 1)
          else if remote_wins gens c local_id remote_id
          then (let r1 = fst (release_task (registry c) tid)
                in (set_registry c (fst (assign r1 tid remote_id)), merged + 1, stale))
          else (c, merged, stale + 1)))"

definition merge_generation :: "Coordinator \<Rightarrow> AgentId \<times> u64 \<Rightarrow> Coordinator" where
  "merge_generation c p = (case p of (aid, remote_generation) \<Rightarrow>
     if generation_of (membership c) aid < remote_generation
     then c\<lparr>membership := record_heartbeat aid 0 remote_generation (membership c)\<rparr> else c)"

definition apply_gossip_message ::
  "Coordinator \<times> u64 \<times> u64 \<Rightarrow> RuntimeMessage \<Rightarrow> Coordinator \<times> u64 \<times> u64"
where
  "apply_gossip_message s m = (case m of
       Gossip asg gens \<Rightarrow>
         (case foldl (merge_assignment gens) s (sort_key fst asg) of (c, merged, stale) \<Rightarrow>
            (foldl merge_generation c (sort_key fst gens), merged, stale))
     | _ \<Rightarrow> s)"

definition apply_gossip_messages :: "Coordinator \<Rightarrow> RuntimeMessage list \<Rightarrow> Coordinator \<times> u64 \<times> u64" where
  "apply_gossip_messages c buffer = foldl apply_gossip_message (c, 0, 0) buffer"

section \<open>Closed form of one claim\<close>

text \<open>The effect of a claim on the task it names, on the task alone: \<open>alive\<close> and \<open>wins\<close> are the
  verdicts on the claimant.\<close>

definition merge_task :: "bool \<Rightarrow> (AgentId \<Rightarrow> bool) \<Rightarrow> AgentId \<Rightarrow> Task \<Rightarrow> Task" where
  "merge_task alive wins a t =
     (if alive \<and> (t_assigned_to t = None \<and> t_status t = Unassigned \<or>
         (\<exists>l. t_assigned_to t = Some l \<and> l \<noteq> a \<and> wins l \<and> unfinished t))
      then t\<lparr>t_status := Assigned, t_assigned_to := Some a\<rparr> else t)"

lemma merge_task_exact:
  "merge_task alive (\<lambda>l. remote_wins gens c l a) a t =
     (if alive \<and>
          (case t_assigned_to t of
             None \<Rightarrow> t_status t = Unassigned
           | Some l \<Rightarrow> l \<noteq> a \<and> t_status t \<in> {Assigned, InProgress} \<and>
               (let g = (case hm_get gens a of Some g \<Rightarrow> g | None \<Rightarrow> 1) in
                generation_of (membership c) l < g \<or> (generation_of (membership c) l = g \<and> l < a)))
      then t\<lparr>t_status := Assigned, t_assigned_to := Some a\<rparr> else t)"
  unfolding merge_task_def remote_wins_def Let_def unfinished_def
  by (cases "t_assigned_to t") (simp_all, metis)

lemma find_task:
  assumes "reg_wf r"
  shows "find (\<lambda>t. t_id t = k) (hm_values (tasks r)) = task_of r k"
proof (cases "task_of r k")
  case None
  have "t_id t \<noteq> k" if "t \<in> set (hm_values (tasks r))" for t
    using that None assms by (metis values_iff option.distinct(1))
  then have "find (\<lambda>t. t_id t = k) (hm_values (tasks r)) = None"
    unfolding find_None_iff by blast
  with None show ?thesis by (simp only:)
next
  case (Some t)
  then have id: "t_id t = k" by (rule reg_wfD(2) [OF assms])
  with Some have mem: "t \<in> set (hm_values (tasks r))" by (simp only: values_iff [OF assms])
  have "find (\<lambda>t. t_id t = k) (hm_values (tasks r)) \<noteq> None"
    unfolding find_None_iff using mem id by blast
  then obtain u where u: "find (\<lambda>t. t_id t = k) (hm_values (tasks r)) = Some u" by blast
  then have "u \<in> set (hm_values (tasks r))" "t_id u = k"
    by (auto simp: find_Some_iff)
  then have "task_of r k = Some u" using assms by (simp only: values_iff)
  with Some u show ?thesis by simp
qed

lemma local_owner_eq:
  "reg_inv (registry c) \<Longrightarrow> local_owner c k = Option.bind (task_of (registry c) k) t_assigned_to"
  by (simp add: local_owner_def find_task reg_inv_wf)

lemma set_registry_simps [simp]:
  "registry (set_registry c r) = r" "membership (set_registry c r) = membership c"
  "detector (set_registry c r) = detector c"
  by (simp_all add: set_registry_def)

lemma merge_assignment_membership [simp]:
  "membership (fst (merge_assignment gens s p)) = membership (fst s)"
  "detector (fst (merge_assignment gens s p)) = detector (fst s)"
  by (simp_all add: merge_assignment_def Let_def case_prod_beta split: option.split)

lemma merge_assignment_inv:
  "reg_inv (registry (fst s)) \<Longrightarrow> reg_inv (registry (fst (merge_assignment gens s p)))"
  by (simp add: merge_assignment_def Let_def case_prod_beta assign_inv release_task_inv split: option.split)

lemma remote_wins_membership:
  "membership c = membership c' \<Longrightarrow> remote_wins gens c = remote_wins gens c'"
  by (simp add: remote_wins_def fun_eq_iff)

lemma merge_assignment_task:
  assumes "reg_inv (registry c)"
  shows "task_of (registry (fst (merge_assignment gens (c, m, s) (tid, a)))) k =
    (if k = tid then map_option (merge_task (is_alive (membership c) a) (\<lambda>l. remote_wins gens c l a) a)
         (task_of (registry c) k)
     else task_of (registry c) k)"
proof (cases "task_of (registry c) tid")
  case None
  then show ?thesis
    using local_owner_eq [OF assms, of tid]
    by (simp add: merge_assignment_def assign_def task_mut_def task_of_def [symmetric])
next
  case (Some t)
  then have ok: "owner_ok t" using assms by (simp add: reg_inv_iff)
  show ?thesis
  proof (cases "t_assigned_to t")
    case None
    with Some show ?thesis
      using local_owner_eq [OF assms, of tid]
      by (auto simp: merge_assignment_def assign_def task_mut_def task_of_def [symmetric] merge_task_def)
  next
    case (Some l)
    with \<open>task_of (registry c) tid = Some t\<close> ok show ?thesis
      using local_owner_eq [OF assms, of tid]
      by (cases "unfinished t") (auto simp: merge_assignment_def assign_def release_task_def task_mut_def Let_def
          task_of_def [symmetric] merge_task_def owner_ok_def unfinished_def)
  qed
qed

text \<open>A whole message: each task sees the one claim the message holds for it.\<close>

lemma merge_assignments_fold:
  assumes "reg_inv (registry c)" "distinct (map fst ps)"
  shows "membership (fst (foldl (merge_assignment gens) (c, m, s) ps)) = membership c \<and>
    detector (fst (foldl (merge_assignment gens) (c, m, s) ps)) = detector c \<and>
    reg_inv (registry (fst (foldl (merge_assignment gens) (c, m, s) ps))) \<and>
    task_of (registry (fst (foldl (merge_assignment gens) (c, m, s) ps))) k =
      (case map_of ps k of None \<Rightarrow> task_of (registry c) k
       | Some a \<Rightarrow> map_option (merge_task (is_alive (membership c) a)
           (\<lambda>l. remote_wins gens c l a) a) (task_of (registry c) k))"
  using assms
proof (induction ps arbitrary: c m s)
  case Nil
  then show ?case by simp
next
  case (Cons p ps)
  obtain tid a where p: "p = (tid, a)" by (cases p)
  obtain c' m' s' where q: "merge_assignment gens (c, m, s) p = (c', m', s')"
    by (cases "merge_assignment gens (c, m, s) p")
  have mem: "membership c' = membership c" "detector c' = detector c"
    using merge_assignment_membership [of gens "(c, m, s)" p] q by auto
  have inv: "reg_inv (registry c')"
    using merge_assignment_inv [of "(c, m, s)" gens p] Cons.prems q by simp
  have dist: "distinct (map fst ps)" "tid \<notin> fst ` set ps" using Cons.prems by (auto simp: p)
  have tsk: "task_of (registry c') k = (if k = tid
      then map_option (merge_task (is_alive (membership c) a) (\<lambda>l. remote_wins gens c l a) a)
         (task_of (registry c) k) else task_of (registry c) k)"
    using merge_assignment_task [OF Cons.prems(1), of gens m s tid a k] q by (simp add: p)
  have "map_of ps tid = None" using dist(2) by (simp add: map_of_eq_None_iff)
  then show ?case
    using Cons.IH [OF inv dist(1), of m' s'] tsk remote_wins_membership [OF mem(1), of gens]
    by (auto simp: p mem q [unfolded p] split: option.split)
qed

lemma merge_generations_fold:
  "registry (foldl merge_generation c gs) = registry c \<and>
   detector (foldl merge_generation c gs) = detector c \<and>
   (mem_wf (membership c) \<longrightarrow> mem_wf (membership (foldl merge_generation c gs)))"
  by (induction gs arbitrary: c) (auto simp: merge_generation_def)

lemma merge_generation_member:
  "member (membership (merge_generation c (a, g))) k =
     map_option (\<lambda>e. if k = a \<and> e_generation e < g
        then e\<lparr>e_generation := g, e_last_heartbeat_tick := 0, e_health := Alive\<rparr> else e)
       (member (membership c) k)"
  by (cases "member (membership c) k"; cases "k = a")
    (simp_all add: merge_generation_def generation_of_def entry_heartbeat_def Let_def)

lemma merge_generations_member:
  assumes "distinct (map fst gs)"
  shows "member (membership (foldl merge_generation c gs)) k =
    map_option (\<lambda>e. case map_of gs k of None \<Rightarrow> e | Some g \<Rightarrow> if e_generation e < g
        then e\<lparr>e_generation := g, e_last_heartbeat_tick := 0, e_health := Alive\<rparr> else e)
      (member (membership c) k)"
  using assms
proof (induction gs arbitrary: c)
  case Nil
  then show ?case by (simp add: option.map_ident)
next
  case (Cons p gs)
  obtain a g where p: "p = (a, g)" by (cases p)
  have IH: "member (membership (foldl merge_generation (merge_generation c p) gs)) k =
    map_option (\<lambda>e. case map_of gs k of None \<Rightarrow> e | Some g \<Rightarrow> if e_generation e < g
        then e\<lparr>e_generation := g, e_last_heartbeat_tick := 0, e_health := Alive\<rparr> else e)
      (member (membership (merge_generation c p)) k)"
    using Cons.prems by (intro Cons.IH) simp
  have "k = a \<Longrightarrow> map_of gs k = None" using Cons.prems by (simp add: p map_of_eq_None_iff)
  with IH show ?case
    by (cases "k = a"; cases "member (membership c) k")
      (simp_all add: p merge_generation_member split: option.split)
qed

text \<open>Sorting a table by key changes the order of its entries and nothing else.\<close>

lemma sorted_entries:
  assumes "hm_wf m"
  shows "distinct (map fst (sort_key fst m))" "map_of (sort_key fst m) k = hm_get m k"
proof -
  have ms: "mset (map fst (sort_key fst m)) = mset (map fst m)" by simp
  then show d: "distinct (map fst (sort_key fst m))"
    using assms unfolding hm_wf_def by (metis mset_eq_imp_distinct_iff)
  show "map_of (sort_key fst m) k = hm_get m k"
  proof (rule option.expand)
    show "(map_of (sort_key fst m) k = None) = (hm_get m k = None)"
      by (simp add: map_of_eq_None_iff hm_get_def)
  next
    assume "map_of (sort_key fst m) k \<noteq> None" "hm_get m k \<noteq> None"
    then obtain v w where v: "map_of (sort_key fst m) k = Some v" and w: "hm_get m k = Some w" by blast
    then have "(k, v) \<in> set m" "(k, w) \<in> set m"
      by (metis map_of_SomeD set_sort) (metis hm_get_SomeD w)
    with assms have "v = w" by (rule hm.entry_unique)
    with v w show "the (map_of (sort_key fst m) k) = the (hm_get m k)" by simp
  qed
qed

section \<open>Closed form of a message\<close>

lemma gossip_message_registry:
  assumes "reg_inv (registry c)" "hm_wf asg"
  shows "reg_inv (registry (fst (apply_gossip_message (c, m, s) (Gossip asg gens)))) \<and>
    task_of (registry (fst (apply_gossip_message (c, m, s) (Gossip asg gens)))) k =
      (case hm_get asg k of None \<Rightarrow> task_of (registry c) k
       | Some a \<Rightarrow> map_option (merge_task (is_alive (membership c) a)
           (\<lambda>l. remote_wins gens c l a) a) (task_of (registry c) k))"
  using merge_assignments_fold [OF assms(1) sorted_entries(1) [OF assms(2)], of gens m s k]
  by (simp add: apply_gossip_message_def case_prod_beta merge_generations_fold sorted_entries(2) [OF assms(2)])

lemma gossip_message_membership:
  assumes "reg_inv (registry c)" "hm_wf asg" "hm_wf gens"
  shows "detector (fst (apply_gossip_message (c, m, s) (Gossip asg gens))) = detector c \<and>
    (mem_wf (membership c) \<longrightarrow> mem_wf (membership (fst (apply_gossip_message (c, m, s) (Gossip asg gens))))) \<and>
    member (membership (fst (apply_gossip_message (c, m, s) (Gossip asg gens)))) k =
      map_option (\<lambda>e. case hm_get gens k of None \<Rightarrow> e | Some g \<Rightarrow> if e_generation e < g
        then e\<lparr>e_generation := g, e_last_heartbeat_tick := 0, e_health := Alive\<rparr> else e)
      (member (membership c) k)"
  using merge_assignments_fold [OF assms(1) sorted_entries(1) [OF assms(2)], of gens m s k]
  by (simp add: apply_gossip_message_def case_prod_beta merge_generations_fold
      merge_generations_member sorted_entries [OF assms(3)])

definition message_wf :: "RuntimeMessage \<Rightarrow> bool" where
  "message_wf m = (case m of Gossip asg gens \<Rightarrow> hm_wf asg \<and> hm_wf gens
     | Cbba n bids bundle \<Rightarrow> hm_wf bids | Heartbeat t g \<Rightarrow> True)"

lemma gossip_message_inv:
  assumes "coord_inv (fst s)" "message_wf m"
  shows "coord_inv (fst (apply_gossip_message s m))"
proof (cases m)
  case (Gossip asg gens)
  obtain c a b where s: "s = (c, a, b)" by (cases s)
  from assms Gossip show ?thesis
    using gossip_message_registry [of c asg a b gens] gossip_message_membership [of c asg gens a b]
    by (simp add: s coord_inv_def message_wf_def)
qed (use assms in \<open>simp_all add: apply_gossip_message_def\<close>)

lemma gossip_messages_inv:
  "coord_inv c \<Longrightarrow> \<forall>m\<in>set ms. message_wf m \<Longrightarrow> coord_inv (fst (apply_gossip_messages c ms))"
proof -
  have "coord_inv (fst s) \<Longrightarrow> \<forall>m\<in>set ms. message_wf m \<Longrightarrow> coord_inv (fst (foldl apply_gossip_message s ms))" for s
    by (induction ms arbitrary: s) (simp_all add: gossip_message_inv)
  from this [of "(c, 0, 0)"] show "coord_inv c \<Longrightarrow> \<forall>m\<in>set ms. message_wf m \<Longrightarrow> ?thesis"
    by (simp add: apply_gossip_messages_def)
qed

section \<open>What a node gossips\<close>

lemma map_of_filter_owner:
  "distinct (map t_id ts) \<Longrightarrow>
   map_of (rev (List.map_filter (\<lambda>t. map_option (\<lambda>a. (t_id t, a)) (t_assigned_to t)) ts)) k =
     Option.bind (find (\<lambda>t. t_id t = k) ts) t_assigned_to"
proof (induction ts)
  case Nil
  then show ?case by (simp add: List.map_filter_def)
next
  case (Cons t ts)
  have "t_id t = k \<Longrightarrow> find (\<lambda>t. t_id t = k) ts = None"
    using Cons.prems unfolding find_None_iff by (metis distinct.simps(2) image_eqI list.set_map list.simps(9))
  with Cons show ?case
    by (cases "t_assigned_to t") (auto simp: List.map_filter_def map_add_def split: option.split)
qed

lemma gossip_of_assignments:
  assumes "reg_inv (registry c)"
  shows "hm_get (assignments (gossip_of c)) k = Option.bind (task_of (registry c) k) t_assigned_to"
  using map_of_filter_owner [OF distinct_ids [OF reg_inv_wf [OF assms]], of k]
  by (simp add: gossip_of_def hm_get_collect find_task [OF reg_inv_wf [OF assms]])

lemma gossip_of_generations:
  assumes "mem_wf (membership c)"
  shows "hm_get (generations (gossip_of c)) i = map_option e_generation (member (membership c) i)"
proof -
  have d: "distinct (map fst (agents (membership c)))" using assms by (simp add: hm_wf_def)
  let ?g = "map (\<lambda>(i, e). (i, e_generation e)) (agents (membership c))"
  have "map fst ?g = map fst (agents (membership c))" by auto
  with d have "map_of (rev ?g) i = map_of ?g i" by (simp only: map_of_rev_distinct)
  also have "\<dots> = map_option e_generation (map_of (agents (membership c)) i)"
    by (induction "agents (membership c)") (auto simp: map_of_map)
  also have "map_of (agents (membership c)) i = member (membership c) i"
    by (simp add: member_def hm_get_def)
  finally show ?thesis
    by (simp add: gossip_of_def hm_get_collect all_generations_def)
qed

section \<open>One exchange\<close>

text \<open>The order in which a view ranks competing owners.\<close>

definition outranked :: "MembershipView \<Rightarrow> AgentId \<Rightarrow> AgentId \<Rightarrow> bool" where
  "outranked v l r = (generation_of v l < generation_of v r \<or>
     (generation_of v l = generation_of v r \<and> l < r))"

lemma outranked_total: "l \<noteq> r \<Longrightarrow> outranked v l r \<longleftrightarrow> \<not> outranked v r l"
  by (auto simp: outranked_def)

definition open_task :: "Task \<Rightarrow> bool" where
  "open_task t = (t_status t \<in> {Unassigned, Assigned, InProgress})"

text \<open>The owner of an open task after hearing the other node's claim.\<close>

definition joined_owner :: "MembershipView \<Rightarrow> AgentId option \<Rightarrow> AgentId option \<Rightarrow> AgentId option" where
  "joined_owner v l r = (case (l, r) of
       (Some a, Some b) \<Rightarrow> if outranked v a b then Some b else Some a
     | (None, _) \<Rightarrow> r | (_, None) \<Rightarrow> l)"

lemma joined_owner_sym: "joined_owner v l r = joined_owner v r l"
  using outranked_total by (fastforce simp: joined_owner_def split: option.split)

lemma gossip_of_wf: "\<exists>asg gens. gossip_of c = Gossip asg gens \<and> hm_wf asg \<and> hm_wf gens"
  by (simp add: gossip_of_def)

lemma hear_owner:
  assumes inv: "coord_inv c" "coord_inv d"
    and gen: "\<forall>i. generation_of (membership c) i = generation_of (membership d) i"
    and alive: "\<forall>a. t_assigned_to u = Some a \<longrightarrow> is_alive (membership c) a \<and> is_alive (membership d) a"
    and t: "task_of (registry c) k = Some t" "task_of (registry d) k = Some u" "open_task t"
  shows "\<exists>t'. task_of (registry (fst (apply_gossip_messages c [gossip_of d]))) k = Some t' \<and>
    t_assigned_to t' = joined_owner (membership c) (t_assigned_to t) (t_assigned_to u)"
proof -
  obtain asg gens where g: "gossip_of d = Gossip asg gens" "hm_wf asg" "hm_wf gens"
    using gossip_of_wf by blast
  have ic: "reg_inv (registry c)" and id: "reg_inv (registry d)" and wd: "mem_wf (membership d)"
    using inv by (simp_all add: coord_inv_def)
  have ok: "owner_ok t" using ic t(1) by (simp add: reg_inv_iff)
  have asg: "hm_get asg k = t_assigned_to u"
    using gossip_of_assignments [OF id, of k] t(2) g(1) by simp
  have gens: "hm_get gens a = Some (generation_of (membership c) a)" if own: "t_assigned_to u = Some a" for a
  proof -
    obtain e where "member (membership d) a = Some e" using alive own is_alive_iff by blast
    then show ?thesis
      using gossip_of_generations [OF wd, of a] g(1) gen by (simp add: generation_of_def)
  qed
  have st: "t_assigned_to t = None \<longleftrightarrow> t_status t = Unassigned"
    using ok t(3) by (auto simp: owner_ok_def open_task_def unfinished_def)
  show ?thesis
  proof (cases "t_assigned_to u")
    case None
    then show ?thesis
      using gossip_message_registry [OF ic g(2), of 0 0 gens k] t
      by (simp add: apply_gossip_messages_def g(1) asg joined_owner_def split: option.split)
  next
    case (Some b)
    then have "t_assigned_to (merge_task True (\<lambda>l. remote_wins gens c l b) b t) =
        joined_owner (membership c) (t_assigned_to t) (Some b)"
      using gens [OF Some] st t(3)
      by (cases "t_assigned_to t")
        (auto simp: merge_task_exact joined_owner_def outranked_def open_task_def Let_def)
    with Some show ?thesis
      using gossip_message_registry [OF ic g(2), of 0 0 gens k] t alive
      by (simp add: apply_gossip_messages_def g(1) asg)
  qed
qed

section \<open>Properties\<close>

text \<open>Gossip merge. A gossip message changes a task only if it holds a claim for it by an agent
  the node believes alive, and then only a free task, or an assigned or running task whose local
  owner loses against the claimant: by the generation the message states for the claimant
  against the generation known locally for the owner, ties broken by identifier. The task is then
  assigned to the claimant. Nothing else in the registry changes and the invariants are kept.\<close>

theorem gossip_merge_exact:
  assumes "coord_inv c" "hm_wf asg" "hm_wf gens"
    and "apply_gossip_messages c [Gossip asg gens] = (c', merged, stale)"
  shows "coord_inv c' \<and> (\<forall>k. task_of (registry c') k = (case (task_of (registry c) k, hm_get asg k) of
      (Some t, Some a) \<Rightarrow>
        if is_alive (membership c) a \<and>
          (case t_assigned_to t of
             None \<Rightarrow> t_status t = Unassigned
           | Some l \<Rightarrow> l \<noteq> a \<and> t_status t \<in> {Assigned, InProgress} \<and>
               (let g = (case hm_get gens a of Some g \<Rightarrow> g | None \<Rightarrow> 1) in
                generation_of (membership c) l < g \<or> (generation_of (membership c) l = g \<and> l < a)))
        then Some (t\<lparr>t_status := Assigned, t_assigned_to := Some a\<rparr>) else Some t
    | (t, _) \<Rightarrow> t))"
proof (intro conjI allI)
  have inv: "reg_inv (registry c)" using assms(1) by (simp add: coord_inv_def)
  have c': "c' = fst (apply_gossip_message (c, 0, 0) (Gossip asg gens))"
    using assms(4) by (simp add: apply_gossip_messages_def)
  show "coord_inv c'"
    unfolding c' using assms by (intro gossip_message_inv) (simp_all add: message_wf_def)
  fix k
  show "task_of (registry c') k = (case (task_of (registry c) k, hm_get asg k) of
      (Some t, Some a) \<Rightarrow>
        if is_alive (membership c) a \<and>
          (case t_assigned_to t of
             None \<Rightarrow> t_status t = Unassigned
           | Some l \<Rightarrow> l \<noteq> a \<and> t_status t \<in> {Assigned, InProgress} \<and>
               (let g = (case hm_get gens a of Some g \<Rightarrow> g | None \<Rightarrow> 1) in
                generation_of (membership c) l < g \<or> (generation_of (membership c) l = g \<and> l < a)))
        then Some (t\<lparr>t_status := Assigned, t_assigned_to := Some a\<rparr>) else Some t
    | (t, _) \<Rightarrow> t)"
    unfolding c' gossip_message_registry [OF inv assms(2), THEN conjunct2]
    by (cases "task_of (registry c) k"; cases "hm_get asg k")
      (simp_all add: merge_task_exact)
qed

theorem gossip_merge_exact_witness:
  "\<exists>c' m s. apply_gossip_messages (coordinator_new [sample_agent ''a''] [sample_task ''t''] 3)
      [Gossip [(''t'', ''a'')] []] = (c', m, s) \<and>
    map_option t_assigned_to (task_of (registry c') ''t'') = Some (Some ''a'')"
proof -
  let ?c = "coordinator_new [sample_agent ''a''] [sample_task ''t''] 3"
  obtain c' m s where g: "apply_gossip_messages ?c [Gossip [(''t'', ''a'')] []] = (c', m, s)"
    by (cases "apply_gossip_messages ?c [Gossip [(''t'', ''a'')] []]")
  have inv: "coord_inv ?c"
    by (rule coord_inv_new) (simp add: sample_task_def owner_ok_def unfinished_def)
  have wf: "hm_wf [(''t'', ''a'')]" by (simp add: hm_wf_def)
  have t: "task_of (registry ?c) ''t'' = Some (sample_task ''t'')"
    by (simp add: coordinator_new_def registry_new_def task_of_def hm_get_collect sample_task_def)
  have a: "is_alive (membership ?c) ''a''"
    by (simp add: coordinator_new_def membership_new_def is_alive_def member_def hm_get_collect
        sample_agent_def entry_of_agent_def)
  have "map_option t_assigned_to (task_of (registry c') ''t'') = Some (Some ''a'')"
    using gossip_merge_exact [OF inv wf _ g] t a
    by (simp add: hm_get_def sample_task_def)
  with g show ?thesis by blast
qed

text \<open>(C3) Gossip convergence. Two nodes that agree on who is alive and on the generations, and that
  send each other their assignments, agree afterwards on the owner of every task that is open on
  both and claimed by live agents only. The common owner is the best ranked of the two claims, and
  a task claimed on either side stays claimed.\<close>

theorem gossip_convergence:
  assumes inv: "coord_inv c" "coord_inv d"
    and alive: "\<forall>i. is_alive (membership c) i = is_alive (membership d) i"
    and gen: "\<forall>i. generation_of (membership c) i = generation_of (membership d) i"
    and t: "task_of (registry c) k = Some t" "task_of (registry d) k = Some u"
    and st: "t_status t \<in> {Unassigned, Assigned, InProgress}"
      "t_status u \<in> {Unassigned, Assigned, InProgress}"
    and owners: "\<forall>a. t_assigned_to t = Some a \<or> t_assigned_to u = Some a \<longrightarrow> is_alive (membership c) a"
  shows "\<exists>t' u'. task_of (registry (fst (apply_gossip_messages c [gossip_of d]))) k = Some t' \<and>
    task_of (registry (fst (apply_gossip_messages d [gossip_of c]))) k = Some u' \<and>
    t_assigned_to t' = t_assigned_to u' \<and>
    (t_assigned_to t' = None \<longleftrightarrow> t_assigned_to t = None \<and> t_assigned_to u = None) \<and>
    (\<forall>a b. t_assigned_to t' = Some a \<and> (t_assigned_to t = Some b \<or> t_assigned_to u = Some b) \<longrightarrow>
       (t_assigned_to t = Some a \<or> t_assigned_to u = Some a) \<and>
       (generation_of (membership c) b < generation_of (membership c) a \<or>
        (generation_of (membership c) b = generation_of (membership c) a \<and> b \<le> a)))"
proof -
  have "outranked (membership d) = outranked (membership c)"
    using gen by (simp add: outranked_def fun_eq_iff)
  then have v: "joined_owner (membership d) = joined_owner (membership c)"
    unfolding joined_owner_def by (simp only:)
  obtain t' where t': "task_of (registry (fst (apply_gossip_messages c [gossip_of d]))) k = Some t'"
    "t_assigned_to t' = joined_owner (membership c) (t_assigned_to t) (t_assigned_to u)"
    using hear_owner [OF inv gen _ t] st owners alive by (auto simp: open_task_def)
  obtain u' where u': "task_of (registry (fst (apply_gossip_messages d [gossip_of c]))) k = Some u'"
    "t_assigned_to u' = joined_owner (membership c) (t_assigned_to t) (t_assigned_to u)"
    using hear_owner [OF inv(2,1) _ _ t(2,1)] st owners alive gen
    by (auto simp: open_task_def v joined_owner_sym [of _ "t_assigned_to u"])
  show ?thesis
    using t' u'
    by (cases "t_assigned_to t"; cases "t_assigned_to u")
      (force simp: joined_owner_def outranked_def split: if_splits)+
qed

theorem gossip_convergence_witness:
  "\<exists>t' u'. task_of (registry (fst (apply_gossip_messages
        (coordinator_new [sample_agent ''a'', sample_agent ''b'']
          [sample_task ''t''\<lparr>t_status := Assigned, t_assigned_to := Some ''a''\<rparr>] 3)
        [gossip_of (coordinator_new [sample_agent ''a'', sample_agent ''b'']
          [sample_task ''t''\<lparr>t_status := Assigned, t_assigned_to := Some ''b''\<rparr>] 3)]))) ''t'' = Some t' \<and>
    task_of (registry (fst (apply_gossip_messages
        (coordinator_new [sample_agent ''a'', sample_agent ''b'']
          [sample_task ''t''\<lparr>t_status := Assigned, t_assigned_to := Some ''b''\<rparr>] 3)
        [gossip_of (coordinator_new [sample_agent ''a'', sample_agent ''b'']
          [sample_task ''t''\<lparr>t_status := Assigned, t_assigned_to := Some ''a''\<rparr>] 3)]))) ''t'' = Some u' \<and>
    t_assigned_to t' = t_assigned_to u'"
proof -
  let ?c = "\<lambda>a. coordinator_new [sample_agent ''a'', sample_agent ''b'']
      [sample_task ''t''\<lparr>t_status := Assigned, t_assigned_to := Some a\<rparr>] 3"
  have inv: "coord_inv (?c a)" for a by (rule coord_inv_new) simp
  have t: "task_of (registry (?c a)) ''t'' =
      Some (sample_task ''t''\<lparr>t_status := Assigned, t_assigned_to := Some a\<rparr>)" for a
    by (simp add: coordinator_new_def registry_new_def task_of_def hm_get_collect sample_task_def)
  have mem: "membership (?c ''a'') = membership (?c ''b'')" by (simp add: coordinator_new_def)
  have alive: "is_alive (membership (?c a)) ''a''" "is_alive (membership (?c a)) ''b''" for a
    by (simp_all add: coordinator_new_def membership_new_def is_alive_def member_def hm_get_collect
        sample_agent_def entry_of_agent_def)
  show ?thesis
    using gossip_convergence [OF inv inv _ _ t t, of "''a''" "''b''"] mem alive
    by (auto simp: sample_task_def)
qed

text \<open>A generation learnt by gossip. When gossip reports a higher generation for a known agent, the
  merge makes that agent alive again but records tick 0 as its last heartbeat, so the failure
  detector reports it as failed at every later tick beyond the timeout, however recently it had
  been heard, until a heartbeat of the new generation arrives.\<close>

theorem gossip_generation_timeout:
  assumes "coord_inv c" "hm_wf asg" "hm_wf gens"
    and "apply_gossip_messages c [Gossip asg gens] = (c', merged, stale)"
    and "member (membership c) i = Some e" "hm_get gens i = Some g" "e_generation e < g"
    and "timeout_ticks (detector c) < now"
  shows "is_alive (membership c') i \<and> generation_of (membership c') i = g \<and>
    i \<in> set (detect (detector c') (membership c') now)"
proof -
  have inv: "reg_inv (registry c)" and wf: "mem_wf (membership c)" using assms(1) by (simp_all add: coord_inv_def)
  have c': "c' = fst (apply_gossip_message (c, 0, 0) (Gossip asg gens))"
    using assms(4) by (simp add: apply_gossip_messages_def)
  note m = gossip_message_membership [OF inv assms(2,3), of 0 0 i, folded c']
  have e: "member (membership c') i =
      Some (e\<lparr>e_generation := g, e_last_heartbeat_tick := 0, e_health := Alive\<rparr>)"
    using m assms(5-7) by simp
  have "mem_wf (membership c')" and d: "detector c' = detector c" using m wf by simp_all
  from set_detect [OF this(1), of "detector c" now] assms(8) show ?thesis
    by (simp add: d e is_alive_iff generation_of_def word_less_nat_alt)
qed

theorem gossip_generation_timeout_witness:
  "\<exists>c' m s. apply_gossip_messages (coordinator_new [sample_agent ''a''] [] 3) [Gossip [] [(''a'', 2)]] = (c', m, s) \<and>
    ''a'' \<in> set (detect (detector c') (membership c') 4)"
proof -
  let ?c = "coordinator_new [sample_agent ''a''] [] 3"
  obtain c' m s where g: "apply_gossip_messages ?c [Gossip [] [(''a'', 2)]] = (c', m, s)"
    by (cases "apply_gossip_messages ?c [Gossip [] [(''a'', 2)]]")
  have e: "member (membership ?c) ''a'' = Some (entry_of_agent (sample_agent ''a''))"
    by (simp add: coordinator_new_def membership_new_def member_def hm_get_collect sample_agent_def)
  have "''a'' \<in> set (detect (detector c') (membership c') 4)"
    using gossip_generation_timeout [OF coord_inv_new _ _ g e, of 2 4]
    by (simp add: hm_wf_def hm_get_def entry_of_agent_def sample_agent_def coordinator_new_def)
  with g show ?thesis by blast
qed

end
