(* ===== verification/Allocators.thy ===== *)
theory Allocators
  imports Connectivity "HOL-Library.Multiset" "HOL-Library.Sublist"
begin

text \<open>
  \<open>swarm-alloc/src/allocator.rs\<close>: the greedy and the auction allocator. An allocation task is the
  task it borrows. A comparison of scores uses \<open>partial_cmp(..).unwrap()\<close>, which panics on an
  undefined score: an allocation returns \<open>None\<close> then. \<open>sort_by\<close> is stable, hence \<open>sort_key\<close>.

  The interface between an allocator and the runtime is the locale \<open>allocator\<close>, extended by
  \<open>eligible_allocator\<close> for allocators that also respect the hard constraints of a task.
\<close>

section \<open>Eligibility and scores\<close>

record ConnectivityContext =
  snapshot :: ConnectivitySnapshot
  base_id :: AgentId

definition has_all_capabilities :: "AllocationAgent \<Rightarrow> Capability list \<Rightarrow> bool" where
  "has_all_capabilities a required = list_all (\<lambda>cap. cap \<in> set (aa_capabilities a)) required"

definition has_required_role :: "AllocationAgent \<Rightarrow> Role option \<Rightarrow> bool" where
  "has_required_role a required = (case required of None \<Rightarrow> True | Some r \<Rightarrow> aa_role a = r)"

definition eligible :: "Task \<Rightarrow> AllocationAgent \<Rightarrow> bool" where
  "eligible t a = (has_all_capabilities a (t_required_capabilities t)
     \<and> has_required_role a (t_required_role t) \<and> f64_lt f64_zero (aa_battery a))"

lemma eligible_iff: "eligible t a \<longleftrightarrow> set (t_required_capabilities t) \<subseteq> set (aa_capabilities a) \<and>
    (\<forall>r. t_required_role t = Some r \<longrightarrow> aa_role a = r) \<and> f64_lt f64_zero (aa_battery a)"
  by (auto simp: eligible_def has_all_capabilities_def has_required_role_def list_all_iff split: option.splits)

definition communication_penalty :: "f64 \<Rightarrow> Task \<Rightarrow> AllocationAgent \<Rightarrow> f64" where
  "communication_penalty weight t a =
     (if f64_le weight f64_zero then f64_zero
      else case t_pose t of None \<Rightarrow> f64_zero
      | Some task_pose \<Rightarrow>
          if \<not> is_finite (aa_comms_range a) \<or> f64_le (aa_comms_range a) f64_zero then f64_zero
          else (let over_range = f64_sub (distance_to (aa_pose a) task_pose) (aa_comms_range a)
                in f64_mul weight (f64_max over_range f64_zero)))"

definition rotation_unit :: f64 where
  "rotation_unit = of_exact (1 / 10 ^ 9)"

definition greedy_comms_score :: "f64 \<Rightarrow> Task \<Rightarrow> AllocationAgent \<Rightarrow> nat \<Rightarrow> nat \<Rightarrow> f64" where
  "greedy_comms_score weight t a global_idx capable_idx =
     (let rotation_penalty = f64_mul
            (f64_of_nat (if global_idx \<le> capable_idx then capable_idx - global_idx
                         else capable_idx + global_idx)) rotation_unit
      in f64_add (communication_penalty weight t a) rotation_penalty)"

fun position :: "('a \<Rightarrow> bool) \<Rightarrow> 'a list \<Rightarrow> nat option" where
  "position P [] = None"
| "position P (x # xs) = (if P x then Some 0 else map_option Suc (position P xs))"

definition greedy_adapter_score ::
  "f64 \<Rightarrow> MissionAdapter \<Rightarrow> Task \<Rightarrow> AllocationAgent \<Rightarrow> nat \<Rightarrow> AllocationAgent list \<Rightarrow> f64"
where
  "greedy_adapter_score weight adapter t a global_idx capable =
     (let capable_idx = (case position (\<lambda>c. aa_id c = aa_id a) capable of Some i \<Rightarrow> i | None \<Rightarrow> 0)
      in f64_sub (adapter_score adapter a t)
           (greedy_comms_score weight t a (global_idx mod length capable) capable_idx))"

text \<open>Tasks in descending priority, then by identifier.\<close>

definition priority_key :: "Task \<Rightarrow> nat \<times> TaskId" where
  "priority_key t = (255 - unat (t_priority t), t_id t)"

definition by_priority :: "Task list \<Rightarrow> Task list" where
  "by_priority ts = sort_key priority_key ts"

section \<open>The greedy allocator\<close>

record GreedyAllocator =
  ga_comms_penalty_weight :: f64

definition best_greedy_agent ::
  "GreedyAllocator \<Rightarrow> Task \<Rightarrow> AllocationAgent list \<Rightarrow> nat \<Rightarrow> AllocationAgent option option"
where
  "best_greedy_agent g t capable global_idx =
     (if f64_le (ga_comms_penalty_weight g) f64_zero then Some None
      else (let start = global_idx mod length capable;
                score = (\<lambda>(i, a). greedy_comms_score (ga_comms_penalty_weight g) t a start i)
            in map_option (map_option snd)
                 (min_by (\<lambda>x y. partial_cmp (score x) (score y)) (enumerate 0 capable))))"

text \<open>The round-robin fallback of \<open>unwrap_or\<close>.\<close>

definition greedy_choice :: "GreedyAllocator \<Rightarrow> Task \<Rightarrow> AllocationAgent list \<Rightarrow> nat \<Rightarrow> AllocationAgent option" where
  "greedy_choice g t capable global_idx =
     (case best_greedy_agent g t capable global_idx of
        None \<Rightarrow> None
      | Some None \<Rightarrow> Some (capable ! (global_idx mod length capable))
      | Some (Some a) \<Rightarrow> Some a)"

definition greedy_adapter_choice ::
  "GreedyAllocator \<Rightarrow> MissionAdapter \<Rightarrow> Task \<Rightarrow> AllocationAgent list \<Rightarrow> nat \<Rightarrow> AllocationAgent option"
where
  "greedy_adapter_choice g adapter t capable global_idx =
     (let score = (\<lambda>a. greedy_adapter_score (ga_comms_penalty_weight g) adapter t a global_idx capable)
      in case max_by (\<lambda>x y. partial_cmp (score x) (score y)) capable of
           None \<Rightarrow> None
         | Some None \<Rightarrow> Some (capable ! (global_idx mod length capable))
         | Some (Some a) \<Rightarrow> Some a)"

type_synonym decisions = "(TaskId \<times> AgentId) list"

text \<open>The loop over the ordered tasks, with the running index of the round robin.\<close>

fun greedy_loop ::
  "(Task \<Rightarrow> AllocationAgent list \<Rightarrow> nat \<Rightarrow> AllocationAgent option) \<Rightarrow> AllocationAgent list \<Rightarrow>
   Task list \<Rightarrow> nat \<Rightarrow> decisions option"
where
  "greedy_loop pick as [] global_idx = Some []"
| "greedy_loop pick as (t # ts) global_idx =
     (let capable = filter (eligible t) as
      in if capable = [] then greedy_loop pick as ts global_idx
         else case pick t capable global_idx of
           None \<Rightarrow> None
         | Some a \<Rightarrow> map_option (Cons (t_id t, aa_id a)) (greedy_loop pick as ts (global_idx + 1)))"

definition greedy_allocate :: "GreedyAllocator \<Rightarrow> Task list \<Rightarrow> AllocationAgent list \<Rightarrow> decisions option" where
  "greedy_allocate g ts as =
     (if as = [] then Some [] else greedy_loop (greedy_choice g) as (by_priority ts) 0)"

definition greedy_allocate_with_adapter ::
  "GreedyAllocator \<Rightarrow> MissionAdapter \<Rightarrow> Task list \<Rightarrow> AllocationAgent list \<Rightarrow> decisions option"
where
  "greedy_allocate_with_adapter g adapter ts as =
     (if as = [] then Some [] else greedy_loop (greedy_adapter_choice g adapter) as (by_priority ts) 0)"

text \<open>The provided trait method: the set of kinds among the tasks decides.\<close>

definition allocate_with_registry ::
  "(Task list \<Rightarrow> AllocationAgent list \<Rightarrow> decisions option) \<Rightarrow>
   (MissionAdapter \<Rightarrow> Task list \<Rightarrow> AllocationAgent list \<Rightarrow> decisions option) \<Rightarrow>
   Task list \<Rightarrow> AllocationAgent list \<Rightarrow> decisions option"
where
  "allocate_with_registry allocate allocate_with_adapter ts as =
     (case remdups (List.map_filter t_kind ts) of
        [] \<Rightarrow> allocate ts as
      | [kind] \<Rightarrow> allocate_with_adapter (adapter_get kind) ts as
      | _ \<Rightarrow> allocate ts as)"

definition greedy_allocate_with_connectivity ::
  "GreedyAllocator \<Rightarrow> Task list \<Rightarrow> AllocationAgent list \<Rightarrow> ConnectivityContext \<Rightarrow> decisions option"
where
  "greedy_allocate_with_connectivity g ts as conn =
     allocate_with_registry (greedy_allocate g) (greedy_allocate_with_adapter g) ts as"

section \<open>The auction allocator\<close>

record AuctionAllocator =
  weight_distance :: f64
  weight_battery :: f64
  weight_role :: f64
  au_comms_penalty_weight :: f64

definition role_bonus :: "AuctionAllocator \<Rightarrow> Task \<Rightarrow> AllocationAgent \<Rightarrow> f64" where
  "role_bonus u t a = (if t_preferred_role t = Some (aa_role a) then f64_neg (weight_role u) else f64_zero)"

definition battery_cost :: "AuctionAllocator \<Rightarrow> AllocationAgent \<Rightarrow> f64" where
  "battery_cost u a =
     f64_mul (weight_battery u) (f64_sub (f64_lit 1) (f64_div (aa_battery a) (f64_lit 100)))"

definition auction_cost :: "AuctionAllocator \<Rightarrow> Task \<Rightarrow> AllocationAgent \<Rightarrow> f64" where
  "auction_cost u t a =
     (if \<not> has_all_capabilities a (t_required_capabilities t)
         \<or> \<not> has_required_role a (t_required_role t)
         \<or> f64_le (aa_battery a) f64_zero
      then Inf False
      else
        (let task_pose = (case t_pose t of Some p \<Rightarrow> p | None \<Rightarrow> default_pose);
             dx = f64_sub (px (aa_pose a)) (px task_pose);
             dy = f64_sub (py (aa_pose a)) (py task_pose);
             distance_cost = f64_mul (weight_distance u)
               (f64_sqrt (f64_add (f64_mul dx dx) (f64_mul dy dy)))
         in f64_add (f64_add (f64_add distance_cost (battery_cost u a)) (role_bonus u t a))
              (communication_penalty (au_comms_penalty_weight u) t a)))"

definition auction_adapter_cost :: "AuctionAllocator \<Rightarrow> MissionAdapter \<Rightarrow> Task \<Rightarrow> AllocationAgent \<Rightarrow> f64" where
  "auction_adapter_cost u adapter t a =
     (let base_cost = adapter_route_cost adapter (aa_pose a) t;
          score_bonus = f64_mul (f64_neg (adapter_score adapter a t)) (of_exact (1 / 1000));
          comms_penalty = communication_penalty (au_comms_penalty_weight u) t a
      in f64_add (f64_add (f64_add (f64_add base_cost (battery_cost u a)) (role_bonus u t a))
           score_bonus) comms_penalty)"

text \<open>The cheapest candidate of finite cost; the outer option is the panic of \<open>unwrap\<close>.\<close>

definition cheapest :: "('a \<times> f64) list \<Rightarrow> ('a \<times> f64) option option" where
  "cheapest cs = min_by (\<lambda>x y. partial_cmp (snd x) (snd y)) (filter (\<lambda>c. is_finite (snd c)) cs)"

fun auction_loop ::
  "(Task \<Rightarrow> (AllocationAgent \<times> f64) list) \<Rightarrow> Task list \<Rightarrow> decisions option"
where
  "auction_loop bids [] = Some []"
| "auction_loop bids (t # ts) = (case cheapest (bids t) of
       None \<Rightarrow> None
     | Some None \<Rightarrow> auction_loop bids ts
     | Some (Some (a, _)) \<Rightarrow> map_option (Cons (t_id t, aa_id a)) (auction_loop bids ts))"

definition auction_allocate :: "AuctionAllocator \<Rightarrow> Task list \<Rightarrow> AllocationAgent list \<Rightarrow> decisions option" where
  "auction_allocate u ts as = (if as = [] then Some []
     else auction_loop (\<lambda>t. map (\<lambda>a. (a, auction_cost u t a)) as) (by_priority ts))"

definition auction_allocate_with_adapter ::
  "AuctionAllocator \<Rightarrow> MissionAdapter \<Rightarrow> Task list \<Rightarrow> AllocationAgent list \<Rightarrow> decisions option"
where
  "auction_allocate_with_adapter u adapter ts as = (if as = [] then Some []
     else auction_loop (\<lambda>t. map (\<lambda>a. (a, auction_adapter_cost u adapter t a)) (filter (eligible t) as))
            (by_priority ts))"

definition auction_allocate_with_connectivity ::
  "AuctionAllocator \<Rightarrow> Task list \<Rightarrow> AllocationAgent list \<Rightarrow> ConnectivityContext \<Rightarrow> decisions option"
where
  "auction_allocate_with_connectivity u ts as conn =
     allocate_with_registry (auction_allocate u) (auction_allocate_with_adapter u) ts as"

section \<open>Lemmas\<close>

lemma by_priority_perm [simp]: "set (by_priority ts) = set ts" "mset (by_priority ts) = mset ts"
  by (simp_all add: by_priority_def)

lemma by_priority_ids: "distinct (map t_id ts) \<Longrightarrow> distinct (map t_id (by_priority ts))"
  by (metis by_priority_perm(2) mset_eq_imp_distinct_iff mset_map)

lemma cheapest_total: "cheapest cs \<noteq> None"
  unfolding cheapest_def
  by (rule min_by_total) (auto simp: partial_cmp_def is_finite_not_nan)

lemma cheapest_None: "cheapest cs = Some None \<longleftrightarrow> (\<forall>c\<in>set cs. \<not> is_finite (snd c))"
  by (auto simp: cheapest_def min_by_empty_iff filter_empty_conv)

lemma cheapest_Some:
  assumes "cheapest cs = Some (Some c)"
  shows "c \<in> set cs" "is_finite (snd c)" "\<And>d. d \<in> set cs \<Longrightarrow> is_finite (snd d) \<Longrightarrow> f64_le (snd c) (snd d)"
proof -
  have c: "c \<in> set (filter (\<lambda>c. is_finite (snd c)) cs)"
    using assms unfolding cheapest_def by (rule min_by_mem)
  then show "c \<in> set cs" "is_finite (snd c)" by auto
  fix d
  assume d: "d \<in> set cs" "is_finite (snd d)"
  have "f64_key (snd c) \<le> f64_key (snd d)"
    by (rule min_by_least [OF _ assms [unfolded cheapest_def]])
      (use d in \<open>auto simp: partial_cmp_def is_finite_not_nan\<close>)
  with c d show "f64_le (snd c) (snd d)" by (simp add: f64_le_def is_finite_not_nan)
qed

text \<open>What the auction loop decides: one decision per task that has a bid of finite cost, in order,
  for a cheapest bidder.\<close>

definition sold :: "(Task \<Rightarrow> (AllocationAgent \<times> f64) list) \<Rightarrow> Task \<Rightarrow> TaskId \<times> AgentId \<Rightarrow> bool" where
  "sold bids t p = (\<exists>(a, c)\<in>set (bids t). p = (t_id t, aa_id a) \<and> is_finite c \<and>
     (\<forall>(b, c')\<in>set (bids t). is_finite c' \<longrightarrow> f64_le c c'))"

lemma cheapest_sold: "cheapest (bids t) = Some (Some (a, c)) \<Longrightarrow> sold bids t (t_id t, aa_id a)"
  using cheapest_Some [of "bids t" "(a, c)"] by (force simp: sold_def)

lemma auction_loop_spec:
  "\<exists>ds. auction_loop bids ts = Some ds \<and>
     map fst ds = map t_id (filter (\<lambda>t. \<exists>c\<in>set (bids t). is_finite (snd c)) ts) \<and>
     (\<forall>p\<in>set ds. \<exists>t\<in>set ts. sold bids t p)"
proof (induction ts)
  case Nil
  then show ?case by simp
next
  case (Cons t ts)
  then obtain ds where ds: "auction_loop bids ts = Some ds"
    "map fst ds = map t_id (filter (\<lambda>t. \<exists>c\<in>set (bids t). is_finite (snd c)) ts)"
    "\<forall>p\<in>set ds. \<exists>t\<in>set ts. sold bids t p" by blast
  obtain r where r: "cheapest (bids t) = Some r" using cheapest_total by blast
  show ?case
  proof (cases r)
    case None
    with r have "\<not> (\<exists>c\<in>set (bids t). is_finite (snd c))" by (simp add: cheapest_None)
    with ds None r show ?thesis by auto
  next
    case (Some p)
    then obtain a c where ac: "cheapest (bids t) = Some (Some (a, c))" using r by (cases p) auto
    have "\<exists>c\<in>set (bids t). is_finite (snd c)" using cheapest_Some [OF ac] by blast
    with ds ac cheapest_sold [of bids t a c] show ?thesis
      by (intro exI [of _ "(t_id t, aa_id a) # ds"]) simp
  qed
qed

lemma greedy_loop_spec:
  assumes "\<And>t capable i a. capable \<noteq> [] \<Longrightarrow> pick t capable i = Some a \<Longrightarrow> a \<in> set capable"
  shows "greedy_loop pick as ts idx = Some ds \<Longrightarrow>
     map fst ds = map t_id (filter (\<lambda>t. \<exists>a\<in>set as. eligible t a) ts) \<and>
     (\<forall>(k, i)\<in>set ds. \<exists>t\<in>set ts. \<exists>a\<in>set as. t_id t = k \<and> aa_id a = i \<and> eligible t a)"
proof (induction ts arbitrary: idx ds)
  case Nil
  then show ?case by simp
next
  case (Cons t ts)
  show ?case
  proof (cases "filter (eligible t) as = []")
    case True
    then have "\<not> (\<exists>a\<in>set as. eligible t a)" by (simp add: filter_empty_conv)
    with True Cons show ?thesis by (fastforce simp: Let_def)
  next
    case False
    with Cons.prems obtain a ds' where a: "pick t (filter (eligible t) as) idx = Some a"
      and ds': "greedy_loop pick as ts (idx + 1) = Some ds'" "ds = (t_id t, aa_id a) # ds'"
      by (auto simp: Let_def split: option.splits)
    have "a \<in> set as" "eligible t a" using assms [OF False a] by auto
    with Cons.IH [OF ds'(1)] show ?thesis by (fastforce simp: ds'(2))
  qed
qed

lemma greedy_loop_total:
  assumes "\<And>t capable i. t \<in> set ts \<Longrightarrow> capable \<noteq> [] \<Longrightarrow> set capable \<subseteq> set as \<Longrightarrow> pick t capable i \<noteq> None"
  shows "greedy_loop pick as ts idx \<noteq> None"
  using assms
proof (induction ts arbitrary: idx)
  case Nil
  then show ?case by simp
next
  case (Cons t ts)
  have "greedy_loop pick as ts i \<noteq> None" for i by (rule Cons.IH) (use Cons.prems in auto)
  moreover have "filter (eligible t) as \<noteq> [] \<Longrightarrow> pick t (filter (eligible t) as) idx \<noteq> None"
    by (rule Cons.prems) auto
  ultimately show ?case by (auto simp: Let_def)
qed

lemma greedy_choice_mem: "capable \<noteq> [] \<Longrightarrow> greedy_choice g t capable i = Some a \<Longrightarrow> a \<in> set capable"
  by (auto simp: greedy_choice_def best_greedy_agent_def Let_def in_set_enumerate_eq
      split: option.splits if_splits dest!: min_by_mem)

lemma greedy_adapter_choice_mem:
  "capable \<noteq> [] \<Longrightarrow> greedy_adapter_choice g ad t capable i = Some a \<Longrightarrow> a \<in> set capable"
  by (auto simp: greedy_adapter_choice_def Let_def split: option.splits dest!: max_by_mem)

lemma eligible_of_finite_cost: "is_finite (auction_cost u t a) \<Longrightarrow> eligible t a"
proof -
  assume fin: "is_finite (auction_cost u t a)"
  have nan: "is_nan (aa_battery a) \<Longrightarrow> auction_cost u t a = NaN \<or> auction_cost u t a = Inf False"
    by (cases "aa_battery a")
      (auto simp: auction_cost_def battery_cost_def Let_def f64_sub_def is_nan_def)
  with fin have "\<not> is_nan (aa_battery a)" by (auto simp: is_finite_def)
  with fin show ?thesis
    by (auto simp: auction_cost_def eligible_def is_finite_def f64_le_def f64_lt_def split: if_splits)
qed

section \<open>The interface of an allocator\<close>

text \<open>What the runtime relies on: an allocator keeps its own invariant and decides offered tasks only.
  \<open>st\<close> is the state of the allocator. An exclusive allocator decides each task at most once when the
  offered identifiers are distinct; an eligible one also respects the hard constraints.\<close>

locale allocator =
  fixes inv :: "'st \<Rightarrow> bool"
    and alloc :: "'st \<Rightarrow> Task list \<Rightarrow> AllocationAgent list \<Rightarrow> ConnectivityContext \<Rightarrow> (decisions \<times> 'st) option"
  assumes keeps: "inv st \<Longrightarrow> alloc st ts as conn = Some (ds, st') \<Longrightarrow> inv st'"
    and offered: "inv st \<Longrightarrow> alloc st ts as conn = Some (ds, st') \<Longrightarrow> fst ` set ds \<subseteq> t_id ` set ts"
begin

lemma nothing_offered: "inv st \<Longrightarrow> alloc st [] as conn = Some (ds, st') \<Longrightarrow> ds = []"
  using offered [of st "[]" as conn ds st'] by auto

end

locale exclusive_allocator = allocator +
  assumes once: "inv st \<Longrightarrow> distinct (map t_id ts) \<Longrightarrow> alloc st ts as conn = Some (ds, st') \<Longrightarrow>
      distinct (map fst ds)"
begin

lemma at_most_offered:
  assumes "inv st" "distinct (map t_id ts)" "alloc st ts as conn = Some (ds, st')"
  shows "length ds \<le> length ts"
proof -
  have "length ds = card (set (map fst ds))"
    using once [OF assms] by (metis distinct_card length_map)
  also have "\<dots> \<le> card (set (map t_id ts))" using offered [OF assms(1,3)] by (intro card_mono) auto
  also have "\<dots> \<le> length ts" using card_length [of "map t_id ts"] by simp
  finally show ?thesis .
qed

end

locale eligible_allocator = exclusive_allocator +
  assumes respects: "inv st \<Longrightarrow> alloc st ts as conn = Some (ds, st') \<Longrightarrow> (k, i) \<in> set ds \<Longrightarrow>
      \<exists>t\<in>set ts. \<exists>a\<in>set as. t_id t = k \<and> aa_id a = i \<and> eligible t a"
begin

lemma no_agent_no_decision: "inv st \<Longrightarrow> alloc st ts [] conn = Some (ds, st') \<Longrightarrow> ds = []"
proof -
  assume a: "inv st" "alloc st ts [] conn = Some (ds, st')"
  have False if "p \<in> set ds" for p using respects [OF a, of "fst p" "snd p"] that by simp
  then show ?thesis by (cases ds) auto
qed

end

text \<open>A decision list that lists the identifiers of some of the tasks in priority order.\<close>

lemma decisions_once:
  assumes "map fst ds = map t_id (filter P (by_priority ts))"
  shows "fst ` set ds \<subseteq> t_id ` set ts" "distinct (map t_id ts) \<Longrightarrow> distinct (map fst ds)"
proof -
  have "fst ` set ds = set (map fst ds)" by simp
  also have "\<dots> \<subseteq> t_id ` set ts" unfolding assms by auto
  finally show "fst ` set ds \<subseteq> t_id ` set ts" .
  show "distinct (map t_id ts) \<Longrightarrow> distinct (map fst ds)"
    unfolding assms by (intro distinct_map_filter by_priority_ids)
qed

lemma registry_cases:
  "allocate_with_registry al ad ts as = al ts as \<or>
   (\<exists>kind. allocate_with_registry al ad ts as = ad (adapter_get kind) ts as)"
  by (auto simp: allocate_with_registry_def split: list.split)

lemma greedy_connectivity_spec:
  assumes "greedy_allocate_with_connectivity g ts as conn = Some ds"
  shows "map fst ds = map t_id (filter (\<lambda>t. \<exists>a\<in>set as. eligible t a) (by_priority ts)) \<and>
    (\<forall>(k, i)\<in>set ds. \<exists>t\<in>set ts. \<exists>a\<in>set as. t_id t = k \<and> aa_id a = i \<and> eligible t a)"
proof (cases "as = []")
  case True
  then have "ds = []"
    using assms registry_cases [of "greedy_allocate g" "greedy_allocate_with_adapter g" ts as]
    by (auto simp: greedy_allocate_with_connectivity_def greedy_allocate_def greedy_allocate_with_adapter_def)
  with True show ?thesis by simp
next
  case False
  from registry_cases [of "greedy_allocate g" "greedy_allocate_with_adapter g" ts as] show ?thesis
  proof
    assume "allocate_with_registry (greedy_allocate g) (greedy_allocate_with_adapter g) ts as = greedy_allocate g ts as"
    with assms False have "greedy_loop (greedy_choice g) as (by_priority ts) 0 = Some ds"
      by (simp add: greedy_allocate_with_connectivity_def greedy_allocate_def)
    from greedy_loop_spec [OF greedy_choice_mem this] show ?thesis by simp
  next
    assume "\<exists>kind. allocate_with_registry (greedy_allocate g) (greedy_allocate_with_adapter g) ts as =
      greedy_allocate_with_adapter g (adapter_get kind) ts as"
    with assms False obtain kind
      where "greedy_loop (greedy_adapter_choice g (adapter_get kind)) as (by_priority ts) 0 = Some ds"
      by (auto simp: greedy_allocate_with_connectivity_def greedy_allocate_with_adapter_def)
    from greedy_loop_spec [OF greedy_adapter_choice_mem this] show ?thesis by simp
  qed
qed

lemma auction_spec:
  "\<exists>ds. auction_allocate u ts as = Some ds \<and>
     map fst ds = map t_id (filter (\<lambda>t. \<exists>a\<in>set as. is_finite (auction_cost u t a)) (by_priority ts)) \<and>
     (\<forall>(k, i)\<in>set ds. \<exists>t\<in>set ts. \<exists>a\<in>set as. t_id t = k \<and> aa_id a = i \<and> is_finite (auction_cost u t a) \<and>
        (\<forall>b\<in>set as. is_finite (auction_cost u t b) \<longrightarrow> f64_le (auction_cost u t a) (auction_cost u t b)))"
proof (cases "as = []")
  case True
  then show ?thesis by (simp add: auction_allocate_def)
next
  case False
  let ?bids = "\<lambda>t. map (\<lambda>a. (a, auction_cost u t a)) as"
  obtain ds where ds: "auction_loop ?bids (by_priority ts) = Some ds"
    "map fst ds = map t_id (filter (\<lambda>t. \<exists>c\<in>set (?bids t). is_finite (snd c)) (by_priority ts))"
    "\<forall>p\<in>set ds. \<exists>t\<in>set (by_priority ts). sold ?bids t p"
    using auction_loop_spec [of ?bids "by_priority ts"] by blast
  show ?thesis
  proof (intro exI conjI)
    show "auction_allocate u ts as = Some ds" using ds(1) False by (simp add: auction_allocate_def)
    show "map fst ds = map t_id (filter (\<lambda>t. \<exists>a\<in>set as. is_finite (auction_cost u t a)) (by_priority ts))"
      using ds(2) by (simp add: bex_simps)
  qed (use ds(3) in \<open>fastforce simp: sold_def\<close>)
qed

lemma auction_adapter_spec:
  "\<exists>ds. auction_allocate_with_adapter u ad ts as = Some ds \<and>
     map fst ds = map t_id (filter (\<lambda>t. \<exists>a\<in>set as. eligible t a \<and> is_finite (auction_adapter_cost u ad t a)) (by_priority ts)) \<and>
     (\<forall>(k, i)\<in>set ds. \<exists>t\<in>set ts. \<exists>a\<in>set as. t_id t = k \<and> aa_id a = i \<and> eligible t a)"
proof (cases "as = []")
  case True
  then show ?thesis by (simp add: auction_allocate_with_adapter_def)
next
  case False
  let ?bids = "\<lambda>t. map (\<lambda>a. (a, auction_adapter_cost u ad t a)) (filter (eligible t) as)"
  obtain ds where ds: "auction_loop ?bids (by_priority ts) = Some ds"
    "map fst ds = map t_id (filter (\<lambda>t. \<exists>c\<in>set (?bids t). is_finite (snd c)) (by_priority ts))"
    "\<forall>p\<in>set ds. \<exists>t\<in>set (by_priority ts). sold ?bids t p"
    using auction_loop_spec [of ?bids "by_priority ts"] by blast
  show ?thesis
  proof (intro exI conjI)
    show "auction_allocate_with_adapter u ad ts as = Some ds"
      using ds(1) False by (simp add: auction_allocate_with_adapter_def)
    show "map fst ds = map t_id (filter (\<lambda>t. \<exists>a\<in>set as. eligible t a \<and> is_finite (auction_adapter_cost u ad t a)) (by_priority ts))"
      using ds(2) by (simp add: Bex_def conj_assoc)
  qed (use ds(3) in \<open>fastforce simp: sold_def\<close>)
qed

lemma auction_connectivity_spec:
  assumes "auction_allocate_with_connectivity u ts as conn = Some ds"
  shows "(\<exists>P. map fst ds = map t_id (filter P (by_priority ts))) \<and>
    (\<forall>(k, i)\<in>set ds. \<exists>t\<in>set ts. \<exists>a\<in>set as. t_id t = k \<and> aa_id a = i \<and> eligible t a)"
  using registry_cases [of "auction_allocate u" "auction_allocate_with_adapter u" ts as]
proof
  assume "allocate_with_registry (auction_allocate u) (auction_allocate_with_adapter u) ts as = auction_allocate u ts as"
  with assms have a: "auction_allocate u ts as = Some ds" by (simp add: auction_allocate_with_connectivity_def)
  show ?thesis
    using auction_spec [of u ts as] by (auto simp: a dest!: eligible_of_finite_cost split: prod.splits) (metis eligible_of_finite_cost case_prodD)+
next
  assume "\<exists>kind. allocate_with_registry (auction_allocate u) (auction_allocate_with_adapter u) ts as =
      auction_allocate_with_adapter u (adapter_get kind) ts as"
  with assms obtain kind where a: "auction_allocate_with_adapter u (adapter_get kind) ts as = Some ds"
    by (auto simp: auction_allocate_with_connectivity_def)
  show ?thesis using auction_adapter_spec [of u "adapter_get kind" ts as] by (auto simp: a)
qed

text \<open>Both allocators keep no state between calls.\<close>

definition stateless ::
  "(Task list \<Rightarrow> AllocationAgent list \<Rightarrow> ConnectivityContext \<Rightarrow> decisions option) \<Rightarrow>
   'st \<Rightarrow> Task list \<Rightarrow> AllocationAgent list \<Rightarrow> ConnectivityContext \<Rightarrow> (decisions \<times> 'st) option"
where
  "stateless f st ts as conn = map_option (\<lambda>ds. (ds, st)) (f ts as conn)"

lemma stateless_Some: "stateless f st ts as conn = Some (ds, st') \<longleftrightarrow> f ts as conn = Some ds \<and> st' = st"
  by (auto simp: stateless_def)

interpretation greedy: eligible_allocator "\<lambda>_. True" "stateless (greedy_allocate_with_connectivity g)" for g
proof unfold_locales
  fix st st' :: 'a and ts as conn ds k i
  assume "stateless (greedy_allocate_with_connectivity g) st ts as conn = Some (ds, st')"
  then have "greedy_allocate_with_connectivity g ts as conn = Some ds" by (simp add: stateless_Some)
  from greedy_connectivity_spec [OF this]
  obtain P where m: "map fst ds = map t_id (filter P (by_priority ts))"
    and r: "\<forall>(k, i)\<in>set ds. \<exists>t\<in>set ts. \<exists>a\<in>set as. t_id t = k \<and> aa_id a = i \<and> eligible t a"
    by blast
  show "fst ` set ds \<subseteq> t_id ` set ts" "distinct (map t_id ts) \<Longrightarrow> distinct (map fst ds)"
    "(k, i) \<in> set ds \<Longrightarrow> \<exists>t\<in>set ts. \<exists>a\<in>set as. t_id t = k \<and> aa_id a = i \<and> eligible t a"
    using decisions_once [OF m] r by auto
qed simp

interpretation auction: eligible_allocator "\<lambda>_. True" "stateless (auction_allocate_with_connectivity u)" for u
proof unfold_locales
  fix st st' :: 'a and ts as conn ds k i
  assume "stateless (auction_allocate_with_connectivity u) st ts as conn = Some (ds, st')"
  then have "auction_allocate_with_connectivity u ts as conn = Some ds" by (simp add: stateless_Some)
  from auction_connectivity_spec [OF this]
  obtain P where m: "map fst ds = map t_id (filter P (by_priority ts))"
    and r: "\<forall>(k, i)\<in>set ds. \<exists>t\<in>set ts. \<exists>a\<in>set as. t_id t = k \<and> aa_id a = i \<and> eligible t a"
    by blast
  show "fst ` set ds \<subseteq> t_id ` set ts" "distinct (map t_id ts) \<Longrightarrow> distinct (map fst ds)"
    "(k, i) \<in> set ds \<Longrightarrow> \<exists>t\<in>set ts. \<exists>a\<in>set as. t_id t = k \<and> aa_id a = i \<and> eligible t a"
    using decisions_once [OF m] r by auto
qed simp

section \<open>The connectivity-aware allocator\<close>

text \<open>\<open>swarm-alloc/src/connectivity_aware.rs\<close>. Relay tasks go to the relay whose presence at the task
  gives the best availability; every other task is auctioned.\<close>

definition simulate_reachability_with_agent_at_pose ::
  "ConnectivityContext \<Rightarrow> AllocationAgent list \<Rightarrow> AgentId \<Rightarrow> Pose \<Rightarrow> f64"
where
  "simulate_reachability_with_agent_at_pose conn as aid new_pose =
     (let entries = map (\<lambda>a. (aa_id a, (if aa_id a = aid then new_pose else aa_pose a),
            aa_comms_range a, Alive)) as;
          snap = \<lparr>agent_entries = entries, ground_nodes = ground_nodes (snapshot conn),
            cs_base_id = base_id conn, base_pose = base_pose (snapshot conn)\<rparr>
      in availability_fraction (reachability_from_base snap) (map aa_id as))"

text \<open>The loop over the candidates, with \<open>best_score\<close> and \<open>best_agent_id\<close>.\<close>

fun best_relay :: "(AgentId \<Rightarrow> f64) \<Rightarrow> AllocationAgent list \<Rightarrow> f64 \<Rightarrow> AgentId option \<Rightarrow> AgentId option" where
  "best_relay score [] best_score best_id = best_id"
| "best_relay score (c # cs) best_score best_id =
     (let s = score (aa_id c)
      in if f64_lt best_score s then best_relay score cs s (Some (aa_id c))
         else best_relay score cs best_score best_id)"

fun relay_loop ::
  "AuctionAllocator \<Rightarrow> ConnectivityContext \<Rightarrow> AllocationAgent list \<Rightarrow> Task list \<Rightarrow> decisions option"
where
  "relay_loop base conn as [] = Some []"
| "relay_loop base conn as (t # ts) =
     (let capable = filter (\<lambda>a. aa_role a = Relay) as
      in if capable = [] then relay_loop base conn as ts
         else case (case t_pose t of
             Some task_pose \<Rightarrow> Some (best_relay
               (\<lambda>i. simulate_reachability_with_agent_at_pose conn as i task_pose) capable (f64_lit (- 1)) None)
           | None \<Rightarrow> (case auction_allocate base [t] as of
               None \<Rightarrow> None | Some [] \<Rightarrow> Some None | Some ((_, i) # _) \<Rightarrow> Some (Some i))) of
           None \<Rightarrow> None
         | Some None \<Rightarrow> relay_loop base conn as ts
         | Some (Some i) \<Rightarrow> map_option (Cons (t_id t, i)) (relay_loop base conn as ts))"

definition connectivity_aware_allocate ::
  "AuctionAllocator \<Rightarrow> Task list \<Rightarrow> AllocationAgent list \<Rightarrow> ConnectivityContext \<Rightarrow> decisions option"
where
  "connectivity_aware_allocate base ts as conn =
     (let relay_tasks = filter (\<lambda>t. t_required_role t = Some Relay) ts;
          scout_tasks = filter (\<lambda>t. t_required_role t \<noteq> Some Relay) ts
      in case auction_allocate base scout_tasks as of
           None \<Rightarrow> None
         | Some scout_assignments \<Rightarrow>
             map_option (\<lambda>rs. scout_assignments @ rs) (relay_loop base conn as relay_tasks))"

lemma best_relay_mem:
  "best_relay score cs b d = Some i \<Longrightarrow> d = Some i \<or> i \<in> aa_id ` set cs"
  by (induction cs arbitrary: b d) (fastforce simp: Let_def split: if_splits)+

lemma auction_single:
  assumes "auction_allocate u [t] as = Some ((k, i) # ds)"
  shows "\<exists>a\<in>set as. aa_id a = i \<and> eligible t a"
proof -
  obtain ds' where "auction_allocate u [t] as = Some ds'"
    "\<forall>(k, i)\<in>set ds'. \<exists>t\<in>set [t]. \<exists>a\<in>set as. t_id t = k \<and> aa_id a = i \<and> is_finite (auction_cost u t a) \<and>
        (\<forall>b\<in>set as. is_finite (auction_cost u t b) \<longrightarrow> f64_le (auction_cost u t a) (auction_cost u t b))"
    using auction_spec [of u "[t]" as] by blast
  with assms show ?thesis by (auto intro: eligible_of_finite_cost)
qed

text \<open>Relay decisions list a subsequence of the relay tasks and name relays only.\<close>

lemma relay_loop_spec:
  "relay_loop base conn as ts = Some ds \<Longrightarrow> \<forall>t\<in>set ts. t_required_role t = Some Relay \<Longrightarrow>
     subseq (map fst ds) (map t_id ts) \<and>
     (\<forall>(k, i)\<in>set ds. \<exists>t\<in>set ts. \<exists>a\<in>set as. t_id t = k \<and> aa_id a = i \<and> aa_role a = Relay)"
proof (induction ts arbitrary: ds)
  case Nil
  then show ?case by simp
next
  case (Cons t ts)
  let ?capable = "filter (\<lambda>a. aa_role a = Relay) as"
  let ?choice = "case t_pose t of
             Some task_pose \<Rightarrow> Some (best_relay
               (\<lambda>i. simulate_reachability_with_agent_at_pose conn as i task_pose) ?capable (f64_lit (- 1)) None)
           | None \<Rightarrow> (case auction_allocate base [t] as of
               None \<Rightarrow> None | Some [] \<Rightarrow> Some None | Some ((_, i) # _) \<Rightarrow> Some (Some i))"
  have role: "t_required_role t = Some Relay" using Cons.prems by simp
  have chosen: "\<exists>a\<in>set as. aa_id a = i \<and> aa_role a = Relay" if ch: "?choice = Some (Some i)" for i
  proof (cases "t_pose t")
    case None
    then obtain k ds' where "auction_allocate base [t] as = Some ((k, i) # ds')"
      using ch by (auto split: option.splits list.splits)
    from auction_single [OF this] role show ?thesis by (auto simp: eligible_def has_required_role_def)
  next
    case (Some p)
    with ch best_relay_mem [of _ ?capable "f64_lit (- 1)" None i] show ?thesis by auto
  qed
  consider (skip) "relay_loop base conn as ts = Some ds"
    | (take) i ds' where "?choice = Some (Some i)" "relay_loop base conn as ts = Some ds'" "ds = (t_id t, i) # ds'"
    using Cons.prems(1) by (auto simp: Let_def split: if_splits option.splits)
  then show ?case
  proof cases
    case skip
    with Cons show ?thesis by (fastforce intro: list_emb_Cons)
  next
    case take
    have "subseq (map fst ds') (map t_id ts) \<and>
      (\<forall>(k, i)\<in>set ds'. \<exists>t\<in>set ts. \<exists>a\<in>set as. t_id t = k \<and> aa_id a = i \<and> aa_role a = Relay)"
      using Cons.IH [OF take(2)] Cons.prems(2) by simp
    with chosen [OF take(1)] show ?thesis by (simp add: take(3)) fastforce
  qed
qed

lemma subseq_distinct: "subseq xs ys \<Longrightarrow> distinct ys \<Longrightarrow> distinct xs"
  by (induction rule: list_emb.induct) (auto dest: list_emb_set)

lemma connectivity_aware_once:
  assumes "connectivity_aware_allocate base ts as conn = Some ds"
  shows "fst ` set ds \<subseteq> t_id ` set ts" "distinct (map t_id ts) \<Longrightarrow> distinct (map fst ds)"
proof -
  let ?R = "filter (\<lambda>t. t_required_role t = Some Relay) ts"
  let ?S = "filter (\<lambda>t. t_required_role t \<noteq> Some Relay) ts"
  obtain ss rs where ss: "auction_allocate base ?S as = Some ss"
    and rs: "relay_loop base conn as ?R = Some rs" and ds: "ds = ss @ rs"
    using assms by (auto simp: connectivity_aware_allocate_def Let_def split: option.splits)
  obtain P where P: "map fst ss = map t_id (filter P (by_priority ?S))"
    using auction_spec [of base ?S as] ss by auto
  have sub: "subseq (map fst rs) (map t_id ?R)" using relay_loop_spec [OF rs] by simp
  have inS: "fst ` set ss \<subseteq> t_id ` set ?S" by (rule decisions_once(1) [OF P])
  have inR: "fst ` set rs \<subseteq> t_id ` set ?R"
    using list_emb_set [OF sub] by (metis (no_types, lifting) image_set subsetI)
  from inS inR show "fst ` set ds \<subseteq> t_id ` set ts" by (auto simp: ds)
  assume d: "distinct (map t_id ts)"
  have "distinct (map fst ss)"
    using decisions_once(2) [OF P] d by (simp add: distinct_map_filter)
  moreover have "distinct (map fst rs)"
    using subseq_distinct [OF sub] d by (simp add: distinct_map_filter)
  moreover have "fst ` set ss \<inter> fst ` set rs = {}"
  proof -
    have "inj_on t_id (set ts)" using d by (simp add: distinct_map)
    then have "t_id ` set ?S \<inter> t_id ` set ?R = t_id ` (set ?S \<inter> set ?R)"
      by (intro inj_on_image_Int [symmetric]) auto
    also have "\<dots> = {}" by auto
    finally show ?thesis using inS inR by blast
  qed
  ultimately show "distinct (map fst ds)" by (simp add: ds)
qed

interpretation connectivity_aware: exclusive_allocator "\<lambda>_. True" "stateless (connectivity_aware_allocate base)" for base
proof unfold_locales
  fix st st' :: 'a and ts as conn ds
  assume "stateless (connectivity_aware_allocate base) st ts as conn = Some (ds, st')"
  then have "connectivity_aware_allocate base ts as conn = Some ds" by (simp add: stateless_Some)
  note c = connectivity_aware_once [OF this]
  show "fst ` set ds \<subseteq> t_id ` set ts" by (rule c(1))
  show "distinct (map t_id ts) \<Longrightarrow> distinct (map fst ds)" by (rule c(2))
qed simp

section \<open>Properties\<close>

definition sample_alloc_agent :: "AgentId \<Rightarrow> Role \<Rightarrow> AllocationAgent" where
  "sample_alloc_agent i r = \<lparr>aa_id = i, aa_pose = default_pose, aa_battery = f64_lit 100,
     aa_capabilities = [], aa_role = r, aa_comms_range = Inf False, aa_speed = f64_zero,
     aa_max_range = f64_zero, aa_battery_drain_rate = f64_zero\<rparr>"

definition sample_alloc_task :: "TaskId \<Rightarrow> Task" where
  "sample_alloc_task i = \<lparr>t_id = i, t_status = Unassigned, t_assigned_to = None, t_priority = 1,
     t_required_capabilities = [], t_required_role = None, t_preferred_role = None,
     t_expires_at = None, t_pose = Some default_pose, t_grid_cell = None, t_edge_id = None, t_kind = None\<rparr>"

definition sample_context :: ConnectivityContext where
  "sample_context = \<lparr>snapshot = \<lparr>agent_entries = [], ground_nodes = [], cs_base_id = ''base'',
     base_pose = default_pose\<rparr>, base_id = ''base''\<rparr>"

text \<open>Greedy allocation. The decisions name exactly the tasks that some agent may take, once per
  task and in descending priority with ties broken by identifier, and every decision respects the
  hard constraints: the chosen agent has all required capabilities, the required role and battery.\<close>

theorem greedy_allocation_exact:
  assumes "greedy_allocate_with_connectivity g ts as conn = Some ds"
  shows "map fst ds = map t_id (filter (\<lambda>t. \<exists>a\<in>set as. eligible t a) (by_priority ts)) \<and>
    (\<forall>(k, i)\<in>set ds. \<exists>t\<in>set ts. \<exists>a\<in>set as. t_id t = k \<and> aa_id a = i \<and>
       set (t_required_capabilities t) \<subseteq> set (aa_capabilities a) \<and>
       (\<forall>r. t_required_role t = Some r \<longrightarrow> aa_role a = r) \<and> f64_lt f64_zero (aa_battery a))"
  using greedy_connectivity_spec [OF assms] unfolding eligible_iff .

theorem greedy_allocation_exact_witness:
  "greedy_allocate_with_connectivity \<lparr>ga_comms_penalty_weight = f64_zero\<rparr> [sample_alloc_task ''t'']
     [sample_alloc_agent ''a'' Scout] sample_context = Some [(''t'', ''a'')] \<and>
   map fst [(''t'', ''a'')] = map t_id (filter (\<lambda>t. \<exists>a\<in>set [sample_alloc_agent ''a'' Scout]. eligible t a)
     (by_priority [sample_alloc_task ''t'']))"
proof -
  have a: "greedy_allocate_with_connectivity \<lparr>ga_comms_penalty_weight = f64_zero\<rparr> [sample_alloc_task ''t'']
     [sample_alloc_agent ''a'' Scout] sample_context = Some [(''t'', ''a'')]"
    by (simp add: greedy_allocate_with_connectivity_def allocate_with_registry_def greedy_allocate_def
        List.map_filter_def sample_alloc_task_def sample_alloc_agent_def by_priority_def Let_def
        eligible_def has_all_capabilities_def has_required_role_def greedy_choice_def best_greedy_agent_def
        val_def)
  with greedy_allocation_exact [OF a] show ?thesis by blast
qed

lemma greedy_loop_round_robin:
  assumes "\<And>t capable i. pick t capable i = Some (capable ! (i mod length capable))"
  shows "\<exists>ds. greedy_loop pick as ts idx = Some ds \<and>
    (let open_tasks = filter (\<lambda>t. \<exists>a\<in>set as. eligible t a) ts in
     length ds = length open_tasks \<and>
     (\<forall>n < length ds. let capable = filter (eligible (open_tasks ! n)) as in
        ds ! n = (t_id (open_tasks ! n), aa_id (capable ! ((idx + n) mod length capable)))))"
proof (induction ts arbitrary: idx)
  case Nil
  then show ?case by simp
next
  case (Cons t ts)
  show ?case
  proof (cases "filter (eligible t) as = []")
    case True
    then have "\<not> (\<exists>a\<in>set as. eligible t a)" by (simp add: filter_empty_conv)
    with True Cons [of idx] show ?thesis by (simp add: Let_def)
  next
    case False
    then have ex: "\<exists>a\<in>set as. eligible t a" by (simp add: filter_empty_conv)
    from Cons [of "Suc idx"] obtain ds where ds: "greedy_loop pick as ts (Suc idx) = Some ds"
      "length ds = length (filter (\<lambda>t. \<exists>a\<in>set as. eligible t a) ts)"
      "\<And>n. n < length ds \<Longrightarrow> ds ! n = (t_id (filter (\<lambda>t. \<exists>a\<in>set as. eligible t a) ts ! n),
         aa_id (filter (eligible (filter (\<lambda>t. \<exists>a\<in>set as. eligible t a) ts ! n)) as !
           ((Suc idx + n) mod length (filter (eligible (filter (\<lambda>t. \<exists>a\<in>set as. eligible t a) ts ! n)) as))))"
      by (auto simp: Let_def)
    let ?c = "filter (eligible t) as"
    have "greedy_loop pick as (t # ts) idx = Some ((t_id t, aa_id (?c ! (idx mod length ?c))) # ds)"
      using False ds(1) assms by (simp add: Let_def)
    with ex ds(2,3) show ?thesis
      by (intro exI conjI) (assumption, simp add: Let_def nth_Cons split: nat.split)
  qed
qed

text \<open>Round robin. Without a communication weight the greedy allocator never fails, and its n-th
  decision goes to the agent at position n, modulo their number, among the agents that may take the
  task.\<close>

theorem greedy_round_robin:
  assumes "f64_le (ga_comms_penalty_weight g) f64_zero"
  shows "\<exists>ds. greedy_allocate g ts as = Some ds \<and>
    (let open_tasks = filter (\<lambda>t. \<exists>a\<in>set as. eligible t a) (by_priority ts) in
     length ds = length open_tasks \<and>
     (\<forall>n < length ds. let capable = filter (eligible (open_tasks ! n)) as in
        ds ! n = (t_id (open_tasks ! n), aa_id (capable ! (n mod length capable)))))"
proof (cases "as = []")
  case True
  then show ?thesis by (simp add: greedy_allocate_def)
next
  case False
  have "greedy_choice g t capable i = Some (capable ! (i mod length capable))" for t capable i
    using assms by (simp add: greedy_choice_def best_greedy_agent_def)
  from greedy_loop_round_robin [OF this, where as = as and ts = "by_priority ts" and idx = 0] False show ?thesis
    by (simp add: greedy_allocate_def)
qed

theorem greedy_round_robin_witness:
  "\<exists>ds. greedy_allocate \<lparr>ga_comms_penalty_weight = f64_zero\<rparr> [sample_alloc_task ''t'']
     [sample_alloc_agent ''a'' Scout] = Some ds \<and> length ds = 1"
proof -
  have "f64_le (ga_comms_penalty_weight \<lparr>ga_comms_penalty_weight = f64_zero\<rparr>) f64_zero" by simp
  from greedy_round_robin [OF this, of "[sample_alloc_task ''t'']" "[sample_alloc_agent ''a'' Scout]"]
  show ?thesis
    by (auto simp: Let_def by_priority_def sample_alloc_task_def sample_alloc_agent_def eligible_def
        has_all_capabilities_def has_required_role_def val_def)
qed

text \<open>The order of a stable sort by priority, without reference to the sort: descending priority, then
  identifier, and tasks with equal keys in the order they came in.\<close>

lemma by_priority_sorted:
  "sorted_wrt (\<lambda>t t'. t_priority t' < t_priority t \<or> t_priority t = t_priority t' \<and> t_id t \<le> t_id t') (by_priority ts)"
proof -
  have le: "unat p \<le> 255" for p :: "8 word"
  proof -
    have "unat p < 2 ^ LENGTH(8)" by (rule unsigned_less)
    then show ?thesis by simp
  qed
  have "sorted_wrt (\<lambda>t t'. priority_key t \<le> priority_key t') (by_priority ts)"
    using sorted_sort_key [of priority_key ts] by (simp add: by_priority_def sorted_wrt_map sorted_map)
  then show ?thesis
  proof (rule sorted_wrt_mono_rel [rotated])
    fix t t' assume "priority_key t \<le> priority_key t'"
    then show "t_priority t' < t_priority t \<or> t_priority t = t_priority t' \<and> t_id t \<le> t_id t'"
      using le [of "t_priority t"] le [of "t_priority t'"]
      by (auto simp: priority_key_def less_eq_prod_def word_less_nat_alt word_unat_eq_iff)
  qed
qed

lemma by_priority_stable:
  "filter (\<lambda>t. t_priority t = p \<and> t_id t = k) (by_priority ts) = filter (\<lambda>t. t_priority t = p \<and> t_id t = k) ts"
proof -
  have le: "unat q \<le> 255" for q :: "8 word"
  proof -
    have "unat q < 2 ^ LENGTH(8)" by (rule unsigned_less)
    then show ?thesis by simp
  qed
  have "(t_priority t = p \<and> t_id t = k) \<longleftrightarrow> priority_key t = (255 - unat p, k)" for t
    using le [of "t_priority t"] le [of p] by (auto simp: priority_key_def word_unat_eq_iff)
  then show ?thesis by (simp add: by_priority_def sort_key_stable)
qed

lemma auction_loop_sold:
  "\<exists>ds. auction_loop bids ts = Some ds \<and>
     list_all2 (sold bids) (filter (\<lambda>t. \<exists>c\<in>set (bids t). is_finite (snd c)) ts) ds"
proof (induction ts)
  case Nil
  then show ?case by simp
next
  case (Cons t ts)
  then obtain ds where ds: "auction_loop bids ts = Some ds"
    "list_all2 (sold bids) (filter (\<lambda>t. \<exists>c\<in>set (bids t). is_finite (snd c)) ts) ds" by blast
  obtain r where r: "cheapest (bids t) = Some r" using cheapest_total [of "bids t"] by auto
  show ?case
  proof (cases r)
    case None
    then show ?thesis using ds r cheapest_None [of "bids t"] by auto
  next
    case (Some ac)
    then obtain a c where ac: "r = Some (a, c)" by (cases ac) auto
    then have "sold bids t (t_id t, aa_id a)" using r by (simp add: cheapest_sold)
    moreover have "\<exists>c\<in>set (bids t). is_finite (snd c)" using cheapest_Some [of "bids t" "(a, c)"] r ac by blast
    ultimately show ?thesis using ds r ac by simp
  qed
qed

lemma sales_ids: "list_all2 (\<lambda>t (k, i). k = f t \<and> Q t k i) ts ds \<Longrightarrow> map f ts = map fst ds"
  by (induction ts ds rule: list_all2_induct) auto

text \<open>(C38) Auction. The auction never fails. It sells exactly the tasks for which some agent bids a
  finite cost, in descending priority, then by identifier, then in the order of the request, and the
  n-th decision is about the n-th task sold: the winner may take the task (capabilities, role and
  battery) and no agent with a finite cost is cheaper. Without agents nothing is sold.\<close>

theorem auction_optimal:
  "\<exists>ds sales. auction_allocate u ts as = Some ds \<and>
     sorted_wrt (\<lambda>t t'. t_priority t' < t_priority t \<or> t_priority t = t_priority t' \<and> t_id t \<le> t_id t') sales \<and>
     (\<forall>p k. filter (\<lambda>t. t_priority t = p \<and> t_id t = k) sales =
        filter (\<lambda>t. t_priority t = p \<and> t_id t = k \<and> (\<exists>a\<in>set as. is_finite (auction_cost u t a))) ts) \<and>
     list_all2 (\<lambda>t (k, i). k = t_id t \<and> (\<exists>a\<in>set as. i = aa_id a \<and>
        set (t_required_capabilities t) \<subseteq> set (aa_capabilities a) \<and>
        (\<forall>r. t_required_role t = Some r \<longrightarrow> aa_role a = r) \<and> f64_lt f64_zero (aa_battery a) \<and>
        is_finite (auction_cost u t a) \<and>
        (\<forall>b\<in>set as. is_finite (auction_cost u t b) \<longrightarrow> f64_le (auction_cost u t a) (auction_cost u t b)))) sales ds"
proof -
  define bids where "bids = (\<lambda>t. map (\<lambda>a. (a, auction_cost u t a)) as)"
  define open_task where "open_task = (\<lambda>t. \<exists>a\<in>set as. is_finite (auction_cost u t a))"
  define sales where "sales = filter open_task (by_priority ts)"
  have "(\<exists>c\<in>set (bids t). is_finite (snd c)) \<longleftrightarrow> open_task t" for t
    by (auto simp: bids_def open_task_def)
  then obtain ds where ds: "auction_loop bids (by_priority ts) = Some ds" "list_all2 (sold bids) sales ds"
    using auction_loop_sold [of bids "by_priority ts"] by (auto simp: sales_def)
  have run: "auction_allocate u ts as = Some ds"
  proof (cases "as = []")
    case True
    then have "sales = []" by (simp add: sales_def open_task_def)
    with ds(2) True show ?thesis by (simp add: auction_allocate_def)
  qed (use ds(1) in \<open>simp add: auction_allocate_def bids_def\<close>)
  have sorted: "sorted_wrt (\<lambda>t t'. t_priority t' < t_priority t \<or> t_priority t = t_priority t' \<and> t_id t \<le> t_id t') sales"
    unfolding sales_def by (rule sorted_wrt_filter [OF by_priority_sorted])
  have stable: "filter (\<lambda>t. t_priority t = p \<and> t_id t = k) sales =
      filter (\<lambda>t. t_priority t = p \<and> t_id t = k \<and> open_task t) ts" for p k
  proof -
    have "filter (\<lambda>t. t_priority t = p \<and> t_id t = k) sales =
        filter open_task (filter (\<lambda>t. t_priority t = p \<and> t_id t = k) (by_priority ts))"
      unfolding sales_def filter_filter by (rule filter_cong) auto
    also have "\<dots> = filter open_task (filter (\<lambda>t. t_priority t = p \<and> t_id t = k) ts)"
      by (simp only: by_priority_stable)
    also have "\<dots> = filter (\<lambda>t. t_priority t = p \<and> t_id t = k \<and> open_task t) ts"
      unfolding filter_filter by (rule filter_cong) auto
    finally show ?thesis .
  qed
  define winner where "winner = (\<lambda>t (k, i). k = t_id t \<and> (\<exists>a\<in>set as. i = aa_id a \<and>
        set (t_required_capabilities t) \<subseteq> set (aa_capabilities a) \<and>
        (\<forall>r. t_required_role t = Some r \<longrightarrow> aa_role a = r) \<and> f64_lt f64_zero (aa_battery a) \<and>
        is_finite (auction_cost u t a) \<and>
        (\<forall>b\<in>set as. is_finite (auction_cost u t b) \<longrightarrow> f64_le (auction_cost u t a) (auction_cost u t b))))"
  have "sold bids t ki \<Longrightarrow> winner t ki" for t ki
    using eligible_of_finite_cost [of u t] by (auto simp: sold_def bids_def eligible_iff winner_def)
  then have "list_all2 winner sales ds" using ds(2) by (rule list_all2_mono [rotated])
  with run sorted stable show ?thesis unfolding open_task_def winner_def by blast
qed

text \<open>Two tasks in ascending priority, two agents, the first with an empty battery: the urgent task is sold
  first and the other agent wins both.\<close>

theorem auction_optimal_witness:
  "auction_allocate \<lparr>weight_distance = f64_zero, weight_battery = f64_lit 100, weight_role = f64_zero,
      au_comms_penalty_weight = f64_zero\<rparr>
     [sample_alloc_task ''routine'', sample_alloc_task ''urgent''\<lparr>t_priority := 9\<rparr>]
     [sample_alloc_agent ''low'' Scout\<lparr>aa_battery := f64_zero\<rparr>, sample_alloc_agent ''full'' Scout] =
     Some [(''urgent'', ''full''), (''routine'', ''full'')] \<and>
   (\<exists>sales :: Task list. sorted_wrt (\<lambda>t t'. t_priority t' < t_priority t \<or> t_priority t = t_priority t' \<and> t_id t \<le> t_id t') sales \<and>
     map t_id sales = [''urgent'', ''routine''])"
proof -
  let ?u = "\<lparr>weight_distance = f64_zero, weight_battery = f64_lit 100, weight_role = f64_zero,
      au_comms_penalty_weight = f64_zero\<rparr>"
  let ?ts = "[sample_alloc_task ''routine'', sample_alloc_task ''urgent''\<lparr>t_priority := 9\<rparr>]"
  let ?as = "[sample_alloc_agent ''low'' Scout\<lparr>aa_battery := f64_zero\<rparr>, sample_alloc_agent ''full'' Scout]"
  have order: "by_priority ?ts = [sample_alloc_task ''urgent''\<lparr>t_priority := 9\<rparr>, sample_alloc_task ''routine'']"
    by (simp add: by_priority_def priority_key_def sample_alloc_task_def less_eq_prod_def)
  have cost: "auction_cost ?u t (sample_alloc_agent ''low'' Scout\<lparr>aa_battery := f64_zero\<rparr>) = Inf False"
    "auction_cost ?u t (sample_alloc_agent ''full'' Scout) = f64_zero" if "t \<in> set ?ts" for t
    using that by (auto simp: auction_cost_def sample_alloc_agent_def sample_alloc_task_def Let_def default_pose_def
        has_all_capabilities_def has_required_role_def battery_cost_def role_bonus_def communication_penalty_def val_def
        f64_sub_def)
  have run: "auction_allocate ?u ?ts ?as = Some [(''urgent'', ''full''), (''routine'', ''full'')]"
    by (simp add: auction_allocate_def order cost cheapest_def is_finite_def min_by_def) (simp add: sample_alloc_task_def sample_alloc_agent_def)
  have "\<exists>sales :: Task list. sorted_wrt (\<lambda>t t'. t_priority t' < t_priority t \<or> t_priority t = t_priority t' \<and> t_id t \<le> t_id t') sales \<and>
      map t_id sales = map fst [(''urgent'', ''full''), (''routine'', ''full'')]"
    using auction_optimal [of ?u ?ts ?as] unfolding run option.inject
    by (elim exE conjE) (drule sales_ids, intro exI conjI, assumption, simp)
  with run show ?thesis by simp
qed

text \<open>Relay placement. The connectivity-aware allocator gives a relay task with a position to the
  only relay at hand whatever the capabilities the task requires and whatever the battery of the
  relay: the hard constraints other than the role are not checked on this path.\<close>

theorem relay_ignores_constraints:
  assumes "t_required_role t = Some Relay" "t_pose t = Some p" "aa_role a = Relay"
  shows "connectivity_aware_allocate base [t] [a] conn = Some [(t_id t, aa_id a)]"
proof -
  have "f64_lt (f64_lit (- 1)) (availability_fraction m [aa_id a])" for m
    by (cases "hm_get m (aa_id a)")
      (simp_all add: availability_fraction_def f64_of_nat_def val_def)
  then show ?thesis
    using assms
    by (simp add: connectivity_aware_allocate_def auction_allocate_def by_priority_def Let_def
        simulate_reachability_with_agent_at_pose_def)
qed

theorem relay_ignores_constraints_witness:
  "connectivity_aware_allocate \<lparr>weight_distance = f64_lit 1, weight_battery = f64_zero, weight_role = f64_zero,
      au_comms_penalty_weight = f64_zero\<rparr> [sample_alloc_task ''t''\<lparr>t_required_role := Some Relay,
       t_required_capabilities := [''camera'']\<rparr>]
     [sample_alloc_agent ''a'' Relay\<lparr>aa_battery := f64_zero\<rparr>] sample_context = Some [(''t'', ''a'')]"
  using relay_ignores_constraints [of "sample_alloc_task ''t''\<lparr>t_required_role := Some Relay,
       t_required_capabilities := [''camera'']\<rparr>" default_pose "sample_alloc_agent ''a'' Relay\<lparr>aa_battery := f64_zero\<rparr>"]
  by (simp add: sample_alloc_task_def sample_alloc_agent_def)

end
