(* ===== verification/RoutePlanner.thy ===== *)
theory RoutePlanner
  imports Allocators
begin

text \<open>
  \<open>swarm-alloc/src/route_planner.rs\<close>: nearest-neighbour ordering, 2-opt improvement and the
  battery-aware planner. The nearest-neighbour search iterates over a hash set, whose order Rust
  leaves open: \<open>iter\<close> maps the inserted identifiers to that order, and all a theorem assumes of it
  is \<open>hash_order\<close>. What the allocators rely on is the locale \<open>route_planner\<close>.
\<close>

section \<open>Routes\<close>

fun route_cost_from :: "Pose \<Rightarrow> f64 \<Rightarrow> Task list \<Rightarrow> f64" where
  "route_cost_from current acc [] = acc"
| "route_cost_from current acc (t # ts) = (case t_pose t of
       Some p \<Rightarrow> route_cost_from p (f64_add acc (distance_to current p)) ts
     | None \<Rightarrow> route_cost_from current acc ts)"

definition route_cost :: "Pose \<Rightarrow> Task list \<Rightarrow> f64" where
  "route_cost start ts = route_cost_from start f64_zero ts"

definition hash_order :: "('a list \<Rightarrow> 'a list) \<Rightarrow> bool" where
  "hash_order iter = (\<forall>xs. distinct (iter xs) \<and> set (iter xs) = set xs)"

lemma hash_order_remdups: "hash_order remdups"
  by (simp add: hash_order_def)

type_synonym planner = "(TaskId list \<Rightarrow> TaskId list) \<Rightarrow> Pose \<Rightarrow> Task list \<Rightarrow> Agent \<Rightarrow> TaskId list"

section \<open>Nearest neighbour\<close>

definition nn_distance :: "Task list \<Rightarrow> Pose \<Rightarrow> TaskId \<Rightarrow> f64" where
  "nn_distance ts current i = (case Option.bind (find (\<lambda>t. t_id t = i) ts) t_pose of
     Some p \<Rightarrow> distance_to current p | None \<Rightarrow> f64_zero)"

definition nn_cmp :: "Task list \<Rightarrow> Pose \<Rightarrow> TaskId \<Rightarrow> TaskId \<Rightarrow> ordering option" where
  "nn_cmp ts current a b = Some (case partial_cmp (nn_distance ts current a) (nn_distance ts current b) of
     Some c \<Rightarrow> c | None \<Rightarrow> Equal)"

definition nn_next :: "Task list \<Rightarrow> Pose \<Rightarrow> TaskId list \<Rightarrow> TaskId option" where
  "nn_next ts current remaining =
     (case min_by (nn_cmp ts current) remaining of Some r \<Rightarrow> r | None \<Rightarrow> None)"

lemma nn_next_mem: "nn_next ts current remaining = Some i \<Longrightarrow> i \<in> set remaining"
  by (auto simp: nn_next_def split: option.splits dest: min_by_mem)

lemma nn_next_total: "remaining \<noteq> [] \<Longrightarrow> \<exists>i. nn_next ts current remaining = Some i"
proof -
  assume ne: "remaining \<noteq> []"
  have "min_by (nn_cmp ts current) remaining \<noteq> None" by (rule min_by_total) (simp add: nn_cmp_def)
  then obtain r where r: "min_by (nn_cmp ts current) remaining = Some r" by blast
  then have "r \<noteq> None" using ne min_by_empty_iff by metis
  with r show ?thesis by (auto simp: nn_next_def)
qed

text \<open>The loop runs while identifiers remain; \<open>unwrap\<close> on the minimum never fails then.\<close>

function nn_loop :: "Task list \<Rightarrow> Pose \<Rightarrow> TaskId list \<Rightarrow> TaskId list" where
  "nn_loop ts current remaining = (case nn_next ts current remaining of
       None \<Rightarrow> []
     | Some i \<Rightarrow>
        (let current' = (case find (\<lambda>t. t_id t = i) ts of
               Some t \<Rightarrow> (case t_pose t of Some p \<Rightarrow> p | None \<Rightarrow> current) | None \<Rightarrow> current)
         in i # nn_loop ts current' (filter (\<lambda>x. x \<noteq> i) remaining)))"
  by pat_completeness auto

termination
  by (relation "measure (\<lambda>(ts, current, remaining). length remaining)")
    (auto dest!: nn_next_mem intro: length_filter_less)

declare nn_loop.simps [simp del]

definition nearest_neighbour_order :: planner where
  "nearest_neighbour_order iter start ts agent =
     (if length ts \<le> 1 then map t_id ts else nn_loop ts start (iter (map t_id ts)))"

section \<open>2-opt\<close>

definition task_by_id :: "Task list \<Rightarrow> (TaskId, Task) hmap" where
  "task_by_id ts = hm_collect (map (\<lambda>t. (t_id t, t)) ts)"

definition tour_cost :: "Pose \<Rightarrow> (TaskId, Task) hmap \<Rightarrow> TaskId list \<Rightarrow> f64" where
  "tour_cost start m r =
     (let acc = route_cost start (map (\<lambda>i. the (hm_get m i)) r)
      in case (if r = [] then None else Option.bind (hm_get m (last r)) t_pose) of
           Some p \<Rightarrow> f64_add acc (distance_to p start) | None \<Rightarrow> acc)"

text \<open>\<open>route[i + 1 ..= j].reverse()\<close>\<close>

definition reverse_segment :: "nat \<Rightarrow> nat \<Rightarrow> 'a list \<Rightarrow> 'a list" where
  "reverse_segment i j r = take (i + 1) r @ rev (take (j - i) (drop (i + 1) r)) @ drop (j + 1) r"

definition two_opt_try :: "(TaskId list \<Rightarrow> f64) \<Rightarrow> TaskId list \<times> bool \<Rightarrow> nat \<times> nat \<Rightarrow> TaskId list \<times> bool" where
  "two_opt_try cost s ij = (case s of (route, improved) \<Rightarrow> case ij of (i, j) \<Rightarrow>
     (let new_route = reverse_segment i j route
      in if f64_lt (cost new_route) (cost route) then (new_route, True) else (route, improved)))"

definition two_opt_pairs :: "nat \<Rightarrow> (nat \<times> nat) list" where
  "two_opt_pairs n = concat (map (\<lambda>i. map (\<lambda>j. (i, j)) [i + 2..<n]) [0..<n])"

definition two_opt_pass :: "(TaskId list \<Rightarrow> f64) \<Rightarrow> nat \<Rightarrow> TaskId list \<Rightarrow> TaskId list \<times> bool" where
  "two_opt_pass cost n route = foldl (two_opt_try cost) (route, False) (two_opt_pairs n)"

text \<open>The outer loop; its bound is the field \<open>max_iterations\<close>.\<close>

fun two_opt_loop :: "(TaskId list \<Rightarrow> f64) \<Rightarrow> nat \<Rightarrow> nat \<Rightarrow> TaskId list \<Rightarrow> TaskId list" where
  "two_opt_loop cost n 0 route = route"
| "two_opt_loop cost n (Suc k) route = (case two_opt_pass cost n route of
     (route', improved) \<Rightarrow> if improved then two_opt_loop cost n k route' else route')"

definition two_opt_order :: "nat \<Rightarrow> planner" where
  "two_opt_order max_iterations iter start ts agent =
     (if length ts \<le> 2 then nearest_neighbour_order iter start ts agent
      else (let route = nearest_neighbour_order iter start ts agent
            in two_opt_loop (tour_cost start (task_by_id ts)) (length route) max_iterations route))"

section \<open>The battery-aware planner\<close>

text \<open>The legs of a route with the battery model: horizontal and vertical metres have their price.\<close>

definition leg_drain :: "BatteryModel \<Rightarrow> Pose \<Rightarrow> Pose \<Rightarrow> f64" where
  "leg_drain m a b =
     f64_add (f64_mul (distance_to_2d a b) (cruise_drain_per_meter m))
       (f64_mul (f64_abs (f64_sub (pz a) (pz b))) (climb_drain_per_meter m))"

fun route_drain_from :: "BatteryModel \<Rightarrow> Pose \<Rightarrow> Pose \<Rightarrow> f64 \<Rightarrow> Task list \<Rightarrow> f64" where
  "route_drain_from m start current acc [] = f64_add acc (leg_drain m current start)"
| "route_drain_from m start current acc (t # ts) = (case t_pose t of
       Some p \<Rightarrow> route_drain_from m start p (f64_add acc (leg_drain m current p)) ts
     | None \<Rightarrow> route_drain_from m start current acc ts)"

definition compute_route_battery_drain :: "Pose \<Rightarrow> Task list \<Rightarrow> Agent \<Rightarrow> f64" where
  "compute_route_battery_drain start ts agent = (case a_battery_model agent of
       Some m \<Rightarrow> route_drain_from m start start f64_zero ts
     | None \<Rightarrow>
        (let acc = route_cost start ts;
             total_distance = (case (if ts = [] then None else t_pose (last ts)) of
                Some p \<Rightarrow> f64_add acc (distance_to p start) | None \<Rightarrow> acc)
         in f64_mul total_distance (a_battery_drain_rate agent)))"

definition battery_feasible :: "f64 \<Rightarrow> Pose \<Rightarrow> Task list \<Rightarrow> Agent \<Rightarrow> bool" where
  "battery_feasible reserve_fraction start ts agent =
     (if ts = [] then True
      else (let reserve = (case a_battery_model agent of Some m \<Rightarrow> bm_reserve_fraction m | None \<Rightarrow> reserve_fraction);
                required_battery = compute_route_battery_drain start ts agent
            in f64_le required_battery (f64_mul (a_battery agent) (f64_sub (f64_lit 1) reserve))))"

function trim_route :: "(Task list \<Rightarrow> bool) \<Rightarrow> TaskId list \<Rightarrow> Task list \<Rightarrow> TaskId list" where
  "trim_route feasible ordered ordered_tasks =
     (if ordered_tasks \<noteq> [] \<and> \<not> feasible ordered_tasks
      then trim_route feasible (butlast ordered) (butlast ordered_tasks) else ordered)"
  by pat_completeness auto

termination
  by (relation "measure (\<lambda>(f, ids, ts). length ts)") auto

declare trim_route.simps [simp del]

definition battery_aware_order :: "f64 \<Rightarrow> planner \<Rightarrow> planner" where
  "battery_aware_order reserve_fraction inner iter start ts agent =
     (let ordered = inner iter start ts agent;
          ordered_tasks = List.map_filter (hm_get (task_by_id ts)) ordered
      in trim_route (\<lambda>os. battery_feasible reserve_fraction start os agent) ordered ordered_tasks)"

section \<open>The interface of a planner\<close>

text \<open>A planner returns some of the offered tasks, each at most once.\<close>

locale route_planner =
  fixes order :: planner
  assumes order_ids: "hash_order iter \<Longrightarrow> distinct (map t_id ts) \<Longrightarrow>
      distinct (order iter start ts agent) \<and> set (order iter start ts agent) \<subseteq> t_id ` set ts"
begin

lemma order_length: "hash_order iter \<Longrightarrow> distinct (map t_id ts) \<Longrightarrow> length (order iter start ts agent) \<le> length ts"
proof -
  assume a: "hash_order iter" "distinct (map t_id ts)"
  have "length (order iter start ts agent) = card (set (order iter start ts agent))"
    using order_ids [OF a] by (simp add: distinct_card)
  also have "\<dots> \<le> card (t_id ` set ts)" using order_ids [OF a] by (intro card_mono) auto
  also have "\<dots> \<le> length ts" using card_length [of "map t_id ts"] by simp
  finally show ?thesis .
qed

text \<open>Every identifier of a plan has its task in the lookup table.\<close>

lemma order_lookup:
  assumes "hash_order iter" "distinct (map t_id ts)" "i \<in> set (order iter start ts agent)"
  shows "\<exists>t. hm_get (task_by_id ts) i = Some t \<and> t \<in> set ts \<and> t_id t = i"
proof -
  have "i \<in> set (hm_keys (map (\<lambda>t. (t_id t, t)) ts))"
    using order_ids [OF assms(1,2)] assms(3) by (force simp: comp_def)
  then obtain t where t: "hm_get (task_by_id ts) i = Some t"
    unfolding task_by_id_def hm_get_collect
    by (metis map_of_eq_None_iff not_Some_eq rev_map set_rev list.set_map)
  from hm_collect_SomeD [OF t [unfolded task_by_id_def]] t show ?thesis by auto
qed

end

section \<open>Permutations\<close>

lemma nn_loop_perm: "distinct remaining \<Longrightarrow> mset (nn_loop ts current remaining) = mset remaining"
proof (induction ts current remaining rule: nn_loop.induct)
  case (1 ts current remaining)
  show ?case
  proof (cases "nn_next ts current remaining")
    case None
    then have "remaining = []" using nn_next_total by (metis option.distinct(1))
    with None show ?thesis by (simp add: nn_loop.simps)
  next
    case (Some i)
    then have i: "i \<in> set remaining" by (rule nn_next_mem)
    have "filter (\<lambda>x. x \<noteq> i) remaining = remove1 i remaining"
      using 1(2) by (simp add: distinct_remove1_removeAll removeAll_filter_not_eq fun_eq_iff)
         (metis (mono_tags, lifting) filter_cong)
    then have m: "mset remaining = add_mset i (mset (filter (\<lambda>x. x \<noteq> i) remaining))"
      using i by simp
    have "mset (nn_loop ts (case find (\<lambda>t. t_id t = i) ts of
               Some t \<Rightarrow> (case t_pose t of Some p \<Rightarrow> p | None \<Rightarrow> current) | None \<Rightarrow> current)
        (filter (\<lambda>x. x \<noteq> i) remaining)) = mset (filter (\<lambda>x. x \<noteq> i) remaining)"
      using 1(2) by (intro 1(1) [OF Some refl]) simp
    with Some m show ?thesis by (subst nn_loop.simps) (simp add: Let_def)
  qed
qed

lemma nn_order_perm:
  assumes "hash_order iter" "distinct (map t_id ts)"
  shows "mset (nearest_neighbour_order iter start ts agent) = mset (map t_id ts)"
proof (cases "length ts \<le> 1")
  case True
  then show ?thesis by (simp add: nearest_neighbour_order_def)
next
  case False
  have it: "distinct (iter (map t_id ts))" "set (iter (map t_id ts)) = set (map t_id ts)"
    using assms(1) by (simp_all add: hash_order_def)
  then have "mset (iter (map t_id ts)) = mset (map t_id ts)"
    using assms(2) by (metis set_eq_iff_mset_eq_distinct)
  with False it(1) show ?thesis by (simp add: nearest_neighbour_order_def nn_loop_perm)
qed

lemma reverse_segment_perm: "i \<le> j \<Longrightarrow> mset (reverse_segment i j r) = mset r"
proof -
  assume le: "i \<le> j"
  have "r = take (i + 1) r @ take (j - i) (drop (i + 1) r) @ drop (j - i) (drop (i + 1) r)"
    by (simp only: append_take_drop_id)
  also have "drop (j - i) (drop (i + 1) r) = drop (j + 1) r" using le by (simp add: add.commute)
  finally have "mset r = mset (take (i + 1) r) + mset (take (j - i) (drop (i + 1) r)) + mset (drop (j + 1) r)"
    by (metis mset_append add.assoc)
  then show ?thesis by (simp add: reverse_segment_def)
qed

section \<open>2-opt never makes a route worse\<close>

lemma f64_lt_trans: "f64_lt x y \<Longrightarrow> f64_lt y z \<Longrightarrow> f64_lt x z"
  by (auto simp: f64_lt_def)

text \<open>A state of the local search: a permutation of the first route that is the first route itself or
  strictly cheaper.\<close>

definition improves :: "(TaskId list \<Rightarrow> f64) \<Rightarrow> TaskId list \<Rightarrow> TaskId list \<Rightarrow> bool" where
  "improves cost r0 r = (mset r = mset r0 \<and> (r = r0 \<or> f64_lt (cost r) (cost r0)))"

lemma improves_refl [simp]: "improves cost r r"
  by (simp add: improves_def)

lemma improves_trans: "improves cost r0 r1 \<Longrightarrow> improves cost r1 r2 \<Longrightarrow> improves cost r0 r2"
  by (auto simp: improves_def intro: f64_lt_trans)

lemma two_opt_try_improves:
  "improves cost r0 (fst s) \<Longrightarrow> i \<le> j \<Longrightarrow> improves cost r0 (fst (two_opt_try cost s (i, j)))"
  using reverse_segment_perm [of i j "fst s"]
  by (auto simp: two_opt_try_def improves_def Let_def case_prod_beta intro: f64_lt_trans)

lemma two_opt_pass_improves: "improves cost r (fst (two_opt_pass cost n r))"
proof -
  have "\<forall>(i, j)\<in>set ps. i \<le> j \<Longrightarrow> improves cost r (fst s) \<Longrightarrow>
      improves cost r (fst (foldl (two_opt_try cost) s ps))" for ps s
  proof (induction ps arbitrary: s)
    case (Cons p ps)
    obtain i j where p: "p = (i, j)" by (cases p)
    have "improves cost r (fst (two_opt_try cost s (i, j)))"
      using Cons.prems by (intro two_opt_try_improves) (simp_all add: p)
    with Cons show ?case by (simp add: p)
  qed simp
  from this [of "two_opt_pairs n" "(r, False)"] show ?thesis
    by (auto simp: two_opt_pass_def two_opt_pairs_def)
qed

lemma two_opt_loop_improves: "improves cost r (two_opt_loop cost n k r)"
proof (induction k arbitrary: r)
  case 0
  then show ?case by simp
next
  case (Suc k)
  show ?case
    using two_opt_pass_improves [of cost r n] improves_trans [OF _ Suc [of "fst (two_opt_pass cost n r)"]]
    by (auto simp: case_prod_beta)
qed

lemma two_opt_order_improves:
  "improves (tour_cost start (task_by_id ts)) (nearest_neighbour_order iter start ts agent)
     (two_opt_order k iter start ts agent)"
  by (simp add: two_opt_order_def Let_def two_opt_loop_improves)

lemma perm_ids:
  assumes "mset r = mset (map t_id ts)" "distinct (map t_id ts)"
  shows "distinct r \<and> set r \<subseteq> t_id ` set ts"
  using assms by (metis list.set_map mset_eq_imp_distinct_iff mset_eq_setD order_refl)

interpretation nn: route_planner nearest_neighbour_order
  by unfold_locales (rule perm_ids [OF nn_order_perm])

interpretation two_opt: route_planner "two_opt_order k" for k
proof unfold_locales
  fix iter :: "TaskId list \<Rightarrow> TaskId list" and ts :: "Task list" and start agent
  assume a: "hash_order iter" "distinct (map t_id ts)"
  then have "mset (two_opt_order k iter start ts agent) = mset (map t_id ts)"
    using two_opt_order_improves [of start ts iter agent k] nn_order_perm [OF a]
    by (auto simp: improves_def)
  then show "distinct (two_opt_order k iter start ts agent) \<and>
      set (two_opt_order k iter start ts agent) \<subseteq> t_id ` set ts"
    using a(2) by (rule perm_ids)
qed

section \<open>Trimming a route\<close>

lemma trim_route_spec:
  assumes "length ordered = length ordered_tasks"
  shows "\<exists>n \<le> length ordered. trim_route feasible ordered ordered_tasks = take n ordered \<and>
    (n = 0 \<or> feasible (take n ordered_tasks)) \<and>
    (\<forall>m. n < m \<and> m \<le> length ordered \<longrightarrow> \<not> feasible (take m ordered_tasks))"
  using assms
proof (induction feasible ordered ordered_tasks rule: trim_route.induct)
  case (1 feasible ordered ordered_tasks)
  let ?l = "length ordered"
  show ?case
  proof (cases "ordered_tasks \<noteq> [] \<and> \<not> feasible ordered_tasks")
    case True
    have "length (butlast ordered) = length (butlast ordered_tasks)" using 1(2) by simp
    from 1(1) [OF True this] obtain n where n: "n \<le> length (butlast ordered)"
      "trim_route feasible (butlast ordered) (butlast ordered_tasks) = take n (butlast ordered)"
      "n = 0 \<or> feasible (take n (butlast ordered_tasks))"
      "\<forall>m. n < m \<and> m \<le> length (butlast ordered) \<longrightarrow> \<not> feasible (take m (butlast ordered_tasks))" by blast
    have tk: "m \<le> length (butlast ordered) \<Longrightarrow> take m (butlast ordered) = take m ordered \<and>
        take m (butlast ordered_tasks) = take m ordered_tasks" for m
      using 1(2) by (simp add: butlast_conv_take min.absorb1)
    have "\<not> feasible (take m ordered_tasks)" if "n < m \<and> m \<le> ?l" for m
    proof (cases "m = ?l")
      case True
      with \<open>ordered_tasks \<noteq> [] \<and> \<not> feasible ordered_tasks\<close> 1(2) show ?thesis by simp
    next
      case False
      with that have "m \<le> length (butlast ordered)" unfolding length_butlast by linarith
      with n(4) tk that show ?thesis by auto
    qed
    then show ?thesis
      using n(1,3) tk [OF n(1)] n(2) True
      by (intro exI [of _ n]) (subst trim_route.simps, auto)
  next
    case False
    then show ?thesis
      using 1(2) by (intro exI [of _ ?l]) (subst trim_route.simps, auto)
  qed
qed

text \<open>The tasks a plan visits, and the part of the plan the battery allows.\<close>

definition plan_tasks :: "Task list \<Rightarrow> TaskId list \<Rightarrow> Task list" where
  "plan_tasks ts ids = List.map_filter (hm_get (task_by_id ts)) ids"

lemma task_by_id_defined: "i \<in> t_id ` set ts \<Longrightarrow> \<exists>t. hm_get (task_by_id ts) i = Some t"
  unfolding task_by_id_def hm_get_collect
  by (auto simp: map_of_eq_None_iff not_None_eq [symmetric] image_image simp del: not_None_eq)

lemma plan_tasks_take:
  assumes "set ids \<subseteq> t_id ` set ts"
  shows "length (plan_tasks ts ids) = length ids" "plan_tasks ts (take n ids) = take n (plan_tasks ts ids)"
proof -
  have m: "set js \<subseteq> t_id ` set ts \<Longrightarrow> plan_tasks ts js = map (\<lambda>i. the (hm_get (task_by_id ts) i)) js" for js
    by (induction js) (auto simp: plan_tasks_def List.map_filter_def intro!: task_by_id_defined)
  have "set (take n ids) \<subseteq> t_id ` set ts" using assms set_take_subset [of n ids] by blast
  from m [OF assms] m [OF this]
  show "length (plan_tasks ts ids) = length ids" "plan_tasks ts (take n ids) = take n (plan_tasks ts ids)"
    by (simp_all add: take_map)
qed

lemma battery_aware_spec:
  assumes "set (inner iter start ts agent) \<subseteq> t_id ` set ts"
  shows "\<exists>n \<le> length (inner iter start ts agent).
    battery_aware_order r inner iter start ts agent = take n (inner iter start ts agent) \<and>
    battery_feasible r start (plan_tasks ts (take n (inner iter start ts agent))) agent \<and>
    (\<forall>m. n < m \<and> m \<le> length (inner iter start ts agent) \<longrightarrow>
       \<not> battery_feasible r start (plan_tasks ts (take m (inner iter start ts agent))) agent)"
proof -
  let ?o = "inner iter start ts agent"
  note pt = plan_tasks_take [OF assms]
  obtain n where n: "n \<le> length ?o"
    "trim_route (\<lambda>os. battery_feasible r start os agent) ?o (plan_tasks ts ?o) = take n ?o"
    "n = 0 \<or> battery_feasible r start (take n (plan_tasks ts ?o)) agent"
    "\<forall>m. n < m \<and> m \<le> length ?o \<longrightarrow> \<not> battery_feasible r start (take m (plan_tasks ts ?o)) agent"
    using trim_route_spec [OF pt(1) [symmetric], of "\<lambda>os. battery_feasible r start os agent"] by blast
  have "battery_feasible r start (take n (plan_tasks ts ?o)) agent"
    using n(3) by (auto simp: battery_feasible_def)
  with n show ?thesis
    unfolding pt(2) by (intro exI [of _ n]) (simp add: battery_aware_order_def Let_def plan_tasks_def)
qed

text \<open>Trimming any planner gives a planner again.\<close>

context route_planner
begin

lemma trimmed_ids:
  assumes "hash_order iter" "distinct (map t_id ts)"
  shows "distinct (battery_aware_order r order iter start ts agent) \<and>
    set (battery_aware_order r order iter start ts agent) \<subseteq> t_id ` set ts"
proof -
  note o = order_ids [OF assms, of start agent]
  then obtain n where "battery_aware_order r order iter start ts agent = take n (order iter start ts agent)"
    using battery_aware_spec [of order iter start ts agent r] by blast
  with o show ?thesis using set_take_subset [of n "order iter start ts agent"] by auto
qed

end

interpretation battery_nn: route_planner "battery_aware_order r nearest_neighbour_order" for r
  by unfold_locales (rule nn.trimmed_ids)

interpretation battery_two_opt: route_planner "battery_aware_order r (two_opt_order k)" for r k
  by unfold_locales (rule two_opt.trimmed_ids)

section \<open>Nearest neighbour picks a nearest task at every step\<close>

fun next_position :: "Task list \<Rightarrow> Pose \<Rightarrow> TaskId \<Rightarrow> Pose" where
  "next_position ts current i = (case find (\<lambda>t. t_id t = i) ts of
     Some t \<Rightarrow> (case t_pose t of Some p \<Rightarrow> p | None \<Rightarrow> current) | None \<Rightarrow> current)"

fun nearest_chain :: "Task list \<Rightarrow> Pose \<Rightarrow> TaskId list \<Rightarrow> bool" where
  "nearest_chain ts current [] = True"
| "nearest_chain ts current (i # is) =
     ((\<forall>k\<in>set is. \<not> f64_lt (nn_distance ts current k) (nn_distance ts current i)) \<and>
      nearest_chain ts (next_position ts current i) is)"

definition measurable :: "Task list \<Rightarrow> Pose \<Rightarrow> bool" where
  "measurable ts p = (\<forall>i. \<not> is_nan (nn_distance ts p i))"

lemma nn_next_least:
  assumes "measurable ts current" "nn_next ts current remaining = Some i" "k \<in> set remaining"
  shows "\<not> f64_lt (nn_distance ts current k) (nn_distance ts current i)"
proof -
  have m: "min_by (nn_cmp ts current) remaining = Some (Some i)"
    using assms(2) by (auto simp: nn_next_def split: option.splits)
  have "f64_key (nn_distance ts current i) \<le> f64_key (nn_distance ts current k)"
    by (rule min_by_least [OF _ m assms(3)])
      (use assms(1) in \<open>auto simp: nn_cmp_def partial_cmp_def measurable_def\<close>)
  then show ?thesis by (auto simp: f64_lt_def)
qed

lemma nn_loop_chain:
  assumes "\<And>p. p = current \<or> Some p \<in> t_pose ` set ts \<Longrightarrow> measurable ts p" "distinct remaining"
  shows "nearest_chain ts current (nn_loop ts current remaining)"
  using assms
proof (induction ts current remaining rule: nn_loop.induct)
  case (1 ts current remaining)
  show ?case
  proof (cases "nn_next ts current remaining")
    case None
    then show ?thesis by (simp add: nn_loop.simps)
  next
    case (Some i)
    let ?r = "filter (\<lambda>x. x \<noteq> i) remaining"
    have nx: "next_position ts current i = current \<or> Some (next_position ts current i) \<in> t_pose ` set ts"
      by (auto split: option.splits simp: find_Some_iff) (metis image_eqI nth_mem)+
    have IH: "nearest_chain ts (next_position ts current i) (nn_loop ts (next_position ts current i) ?r)"
      unfolding next_position.simps
      by (rule 1(1) [OF Some refl]) (use 1(2,3) nx in auto)
    have "set (nn_loop ts (next_position ts current i) ?r) = set ?r"
      using nn_loop_perm [of ?r ts "next_position ts current i"] 1(3) by (metis distinct_filter mset_eq_setD)
    then have "\<forall>k\<in>set (nn_loop ts (next_position ts current i) ?r).
        \<not> f64_lt (nn_distance ts current k) (nn_distance ts current i)"
      using nn_next_least [OF 1(2) Some] by auto
    with IH Some show ?thesis by (subst nn_loop.simps) (simp add: Let_def del: next_position.simps add: next_position.simps [symmetric])
  qed
qed

section \<open>Properties\<close>

definition posed_task :: "TaskId \<Rightarrow> rat \<Rightarrow> Task" where
  "posed_task i x = sample_alloc_task i\<lparr>t_pose := Some \<lparr>px = f64_lit x, py = f64_zero, pz = f64_zero\<rparr>\<rparr>"

definition plan_agent :: Agent where
  "plan_agent = \<lparr>a_id = ''a'', a_role = Scout, a_health = Alive, a_pose = default_pose,
     a_capabilities = [], a_current_task = None, a_battery = f64_lit 100,
     a_comms_range = Inf False, a_generation = 1, a_speed = f64_zero, a_max_range = f64_zero,
     a_battery_drain_rate = f64_lit 1, a_battery_model = None\<rparr>"

text \<open>Nearest-neighbour planning. Whatever the iteration order of the hash set, the plan visits
  every task exactly once, and where no distance is undefined each step goes to a task that no
  remaining task undercuts in distance from the current position.\<close>

theorem nearest_neighbour_plan:
  assumes "hash_order iter" "distinct (map t_id ts)" "1 < length ts"
    and "\<forall>p. p = start \<or> Some p \<in> t_pose ` set ts \<longrightarrow> measurable ts p"
  shows "mset (nearest_neighbour_order iter start ts agent) = mset (map t_id ts) \<and>
    nearest_chain ts start (nearest_neighbour_order iter start ts agent)"
  using nn_order_perm [OF assms(1,2)] nn_loop_chain [of start ts "iter (map t_id ts)"] assms
  by (simp add: nearest_neighbour_order_def hash_order_def)

theorem nearest_neighbour_plan_witness:
  "mset (nearest_neighbour_order remdups default_pose [sample_alloc_task ''t'', sample_alloc_task ''u''] plan_agent)
     = mset [''t'', ''u'']"
proof -
  let ?ts = "[sample_alloc_task ''t'', sample_alloc_task ''u'']"
  have "distance_to default_pose default_pose = f64_zero"
    by (simp add: distance_to_def default_pose_def f64_sub_def of_exact_def val_def Let_def)
  then have "measurable ?ts default_pose"
    by (auto simp: measurable_def nn_distance_def sample_alloc_task_def)
  then show ?thesis
    using nearest_neighbour_plan [OF hash_order_remdups, of ?ts default_pose plan_agent]
    by (auto simp: sample_alloc_task_def)
qed

text \<open>2-opt. The improved route is a permutation of the tasks, and it is the nearest-neighbour
  route itself or strictly cheaper as a round trip. The search ends after at most
  \<open>max_iterations\<close> passes.\<close>

theorem two_opt_never_worse:
  assumes "hash_order iter" "distinct (map t_id ts)"
  shows "mset (two_opt_order k iter start ts agent) = mset (map t_id ts) \<and>
    (two_opt_order k iter start ts agent = nearest_neighbour_order iter start ts agent \<or>
     f64_lt (tour_cost start (task_by_id ts) (two_opt_order k iter start ts agent))
       (tour_cost start (task_by_id ts) (nearest_neighbour_order iter start ts agent)))"
  using two_opt_order_improves [of start ts iter agent k] nn_order_perm [OF assms]
  by (auto simp: improves_def)

theorem two_opt_never_worse_witness:
  "mset (two_opt_order 1000 remdups default_pose
     [sample_alloc_task ''t'', sample_alloc_task ''u'', sample_alloc_task ''v''] plan_agent)
   = mset [''t'', ''u'', ''v'']"
  using two_opt_never_worse [OF hash_order_remdups, of
      "[sample_alloc_task ''t'', sample_alloc_task ''u'', sample_alloc_task ''v'']" 1000 default_pose plan_agent]
  by (simp add: sample_alloc_task_def)

text \<open>Battery-aware planning. For any inner planner that returns offered tasks, the plan is the
  longest prefix of the inner plan that the battery allows: it is feasible with the reserve, and
  every longer prefix is not.\<close>

theorem battery_aware_longest_feasible:
  assumes "set (inner iter start ts agent) \<subseteq> t_id ` set ts"
  shows "\<exists>n \<le> length (inner iter start ts agent).
    battery_aware_order r inner iter start ts agent = take n (inner iter start ts agent) \<and>
    battery_feasible r start (plan_tasks ts (take n (inner iter start ts agent))) agent \<and>
    (\<forall>m. n < m \<and> m \<le> length (inner iter start ts agent) \<longrightarrow>
       \<not> battery_feasible r start (plan_tasks ts (take m (inner iter start ts agent))) agent)"
  by (rule battery_aware_spec [of inner iter start ts agent r, OF assms])

theorem battery_aware_longest_feasible_witness:
  "\<exists>n \<le> 1. battery_aware_order f64_zero nearest_neighbour_order remdups default_pose
     [sample_alloc_task ''t''] plan_agent = take n [''t'']"
proof -
  have o: "nearest_neighbour_order remdups default_pose [sample_alloc_task ''t''] plan_agent = [''t'']"
    by (simp add: nearest_neighbour_order_def sample_alloc_task_def)
  have tid: "t_id (sample_alloc_task ''t'') = ''t''" by (simp add: sample_alloc_task_def)
  show ?thesis
    using battery_aware_longest_feasible [of nearest_neighbour_order remdups default_pose
        "[sample_alloc_task ''t'']" plan_agent f64_zero]
    by (auto simp: o tid)
qed

text \<open>The return leg of the legacy battery model. Without a battery model the drain of a route counts
  the way back only if its last task has a position: appending a task without a position to a route
  removes the return leg from the estimate.\<close>

theorem legacy_drain_omits_return:
  assumes "a_battery_model agent = None" "ts \<noteq> []" "t_pose (last ts) = Some p" "t_pose u = None"
  shows "compute_route_battery_drain start ts agent =
      f64_mul (f64_add (route_cost start ts) (distance_to p start)) (a_battery_drain_rate agent) \<and>
    compute_route_battery_drain start (ts @ [u]) agent = f64_mul (route_cost start ts) (a_battery_drain_rate agent)"
proof -
  have "route_cost_from c x (ts @ [u]) = route_cost_from c x ts" for c x
    using assms(4) by (induction ts arbitrary: c x) (auto split: option.split)
  with assms show ?thesis by (simp add: compute_route_battery_drain_def route_cost_def)
qed

theorem legacy_drain_omits_return_witness:
  "compute_route_battery_drain default_pose [posed_task ''t'' 10, sample_alloc_task ''u''\<lparr>t_pose := None\<rparr>] plan_agent
   = f64_mul (route_cost default_pose [posed_task ''t'' 10]) (f64_lit 1)"
  using legacy_drain_omits_return [of plan_agent "[posed_task ''t'' 10]" _ "sample_alloc_task ''u''\<lparr>t_pose := None\<rparr>" default_pose]
  by (simp add: plan_agent_def posed_task_def sample_alloc_task_def)


end
