(* ===== verification/Cbba.thy ===== *)
theory Cbba
  imports RoutePlanner
begin

text \<open>
  \<open>swarm-alloc/src/cbba.rs\<close>: the consensus-based bundle allocator, with the state of the struct as
  a record. The route planner in the box is a function; the iteration orders of hash tables are the
  orders of the association lists. The counters are machine words and wrap where the release build
  wraps.
\<close>

section \<open>State\<close>

record CbbaConfig =
  max_bundle_size :: nat
  max_rounds :: u32
  score_weight_distance :: f64
  score_weight_battery :: f64
  retransmit_max_attempts :: u32
  retransmit_backoff_ticks :: u64
  retransmit_threshold_packet_loss :: f64

type_synonym bid_table = "(TaskId, AgentId \<times> f64) hmap"

record CbbaAllocator =
  cb_config :: CbbaConfig
  cb_bundles :: "(AgentId, TaskId list) hmap"
  cb_winning_bids :: bid_table
  cb_prev_winning_bids :: bid_table
  cb_current_round :: u32
  cb_converged :: bool
  cb_messages_exchanged :: u64
  cb_bundle_travel_distance :: f64
  cb_packet_loss_rate :: f64
  cb_force_rebroadcast :: bool
  cb_route_planner :: planner

definition cbba_new :: "CbbaConfig \<Rightarrow> CbbaAllocator" where
  "cbba_new config = \<lparr>cb_config = config, cb_bundles = [], cb_winning_bids = [], cb_prev_winning_bids = [],
     cb_current_round = 0, cb_converged = False, cb_messages_exchanged = 0,
     cb_bundle_travel_distance = f64_zero, cb_packet_loss_rate = f64_zero, cb_force_rebroadcast = False,
     cb_route_planner = nearest_neighbour_order\<rparr>"

section \<open>Bundle building\<close>

definition marginal_score :: "CbbaConfig \<Rightarrow> AllocationAgent \<Rightarrow> Task \<Rightarrow> TaskId list \<Rightarrow> f64" where
  "marginal_score cfg a t bundle =
     (let task_pose = (case t_pose t of Some p \<Rightarrow> p | None \<Rightarrow> default_pose);
          dist = distance_to (aa_pose a) task_pose;
          base = f64_add (f64_mul (f64_neg (score_weight_distance cfg)) dist)
                   (f64_mul (score_weight_battery cfg) (aa_battery a))
      in if \<not> has_all_capabilities a (t_required_capabilities t)
            \<or> \<not> has_required_role a (t_required_role t)
            \<or> f64_le (aa_battery a) f64_zero
         then Inf True
         else if bundle \<noteq> []
         then f64_sub base (f64_mul (f64_mul (f64_of_nat (length bundle)) (of_exact (1 / 10))) dist)
         else base)"

text \<open>Whether a task is passed over in the inner loop: already in the bundle, no usable score, or
  somebody else holds a bid at least as high.\<close>

definition passed_over :: "CbbaAllocator \<Rightarrow> AllocationAgent \<Rightarrow> TaskId list \<Rightarrow> Task \<Rightarrow> bool" where
  "passed_over st a bundle t =
     (let score = marginal_score (cb_config st) a t bundle
      in t_id t \<in> set bundle \<or> f64_le score (f64_add (Inf True) (f64_lit 1)) \<or>
         (case hm_get (cb_winning_bids st) (t_id t) of
            Some (winner, existing_bid) \<Rightarrow> winner \<noteq> aa_id a \<and> f64_le score existing_bid
          | None \<Rightarrow> False))"

fun best_task ::
  "CbbaAllocator \<Rightarrow> AllocationAgent \<Rightarrow> TaskId list \<Rightarrow> Task list \<Rightarrow> f64 \<Rightarrow> TaskId option \<Rightarrow> f64 \<times> TaskId option"
where
  "best_task st a bundle [] best_score best_id = (best_score, best_id)"
| "best_task st a bundle (t # ts) best_score best_id =
     (let score = marginal_score (cb_config st) a t bundle
      in if passed_over st a bundle t then best_task st a bundle ts best_score best_id
         else if f64_lt best_score score then best_task st a bundle ts score (Some (t_id t))
         else best_task st a bundle ts best_score best_id)"

definition bundle_of :: "CbbaAllocator \<Rightarrow> AgentId \<Rightarrow> TaskId list" where
  "bundle_of st i = (case hm_get (cb_bundles st) i of Some b \<Rightarrow> b | None \<Rightarrow> [])"

definition build_agent :: "Task list \<Rightarrow> CbbaAllocator \<Rightarrow> AllocationAgent \<Rightarrow> CbbaAllocator" where
  "build_agent ts st a =
     (let bundle = bundle_of st (aa_id a);
          st' = st\<lparr>cb_bundles := hm_insert (aa_id a) bundle (cb_bundles st)\<rparr>
      in if max_bundle_size (cb_config st) \<le> length bundle then st'
         else case best_task st' a bundle ts (Inf True) None of
           (best_score, Some k) \<Rightarrow>
             if f64_lt (Inf True) best_score
             then st'\<lparr>cb_bundles := hm_insert (aa_id a) (bundle @ [k]) (cb_bundles st'),
                      cb_winning_bids := hm_insert k (aa_id a, best_score) (cb_winning_bids st')\<rparr>
             else st'
         | (_, None) \<Rightarrow> st')"

definition build_bundles :: "AllocationAgent list \<Rightarrow> Task list \<Rightarrow> CbbaAllocator \<Rightarrow> CbbaAllocator" where
  "build_bundles as ts st = (if cb_converged st then st else foldl (build_agent ts) st as)"

section \<open>Consensus\<close>

definition apply_bid :: "CbbaAllocator \<Rightarrow> TaskId \<times> AgentId \<times> f64 \<Rightarrow> CbbaAllocator" where
  "apply_bid st p = (case p of (k, remote_agent, remote_bid) \<Rightarrow>
     (case hm_get (cb_winning_bids st) k of
        None \<Rightarrow> st\<lparr>cb_winning_bids := hm_insert k (remote_agent, remote_bid) (cb_winning_bids st)\<rparr>
      | Some (local_agent, local_bid) \<Rightarrow>
          if f64_lt local_bid remote_bid
          then (let b1 = (case hm_get (cb_bundles st) local_agent of
                     Some lb \<Rightarrow> hm_insert local_agent (filter (\<lambda>t. t \<noteq> k) lb) (cb_bundles st)
                   | None \<Rightarrow> cb_bundles st);
                    b2 = (case hm_get b1 remote_agent of
                     Some rb \<Rightarrow> if k \<in> set rb then b1 else hm_insert remote_agent (rb @ [k]) b1
                   | None \<Rightarrow> b1)
                in st\<lparr>cb_bundles := b2,
                      cb_winning_bids := hm_insert k (remote_agent, remote_bid) (cb_winning_bids st)\<rparr>)
          else st))"

definition apply_remote_bids :: "(AgentId \<times> bid_table) list \<Rightarrow> CbbaAllocator \<Rightarrow> CbbaAllocator" where
  "apply_remote_bids remote st =
     (if cb_converged st then st
      else (let st' = foldl (\<lambda>st (_, bids). foldl apply_bid st bids) st remote
            in st'\<lparr>cb_messages_exchanged := cb_messages_exchanged st' + of_nat (length remote)\<rparr>))"

text \<open>Equality of two bid tables: same size and equal entries, with the equality of floats.\<close>

definition bids_eq :: "bid_table \<Rightarrow> bid_table \<Rightarrow> bool" where
  "bids_eq p w = (length p = length w \<and>
     list_all (\<lambda>(k, a, v). case hm_get w k of Some (a', v') \<Rightarrow> a = a' \<and> f64_eq v v' | None \<Rightarrow> False) p)"

definition check_convergence :: "CbbaAllocator \<Rightarrow> CbbaAllocator \<times> bool" where
  "check_convergence st =
     (if cb_converged st then (st, True)
      else if bids_eq (cb_prev_winning_bids st) (cb_winning_bids st) \<and> cb_winning_bids st \<noteq> []
      then (st\<lparr>cb_converged := True\<rparr>, True)
      else (let st' = st\<lparr>cb_prev_winning_bids := cb_winning_bids st\<rparr>
            in if max_rounds (cb_config st') \<le> cb_current_round st'
               then (st'\<lparr>cb_converged := True\<rparr>, True) else (st', False)))"

definition current_assignments :: "CbbaAllocator \<Rightarrow> decisions" where
  "current_assignments st = concat (map (\<lambda>(i, bundle). map (\<lambda>k. (k, i)) bundle) (cb_bundles st))"

section \<open>One allocation round\<close>

definition full_agent :: "AllocationAgent \<Rightarrow> Agent" where
  "full_agent a = \<lparr>a_id = aa_id a, a_role = aa_role a, a_health = Alive, a_pose = aa_pose a,
     a_capabilities = aa_capabilities a, a_current_task = None, a_battery = aa_battery a,
     a_comms_range = aa_comms_range a, a_generation = 1, a_speed = aa_speed a,
     a_max_range = aa_max_range a, a_battery_drain_rate = aa_battery_drain_rate a,
     a_battery_model = None\<rparr>"

definition bundle_tasks :: "Task list \<Rightarrow> TaskId list \<Rightarrow> Task list" where
  "bundle_tasks ts bundle = List.map_filter (\<lambda>k. find (\<lambda>t. t_id t = k) ts) bundle"

definition clear_stale :: "Task list \<Rightarrow> AllocationAgent list \<Rightarrow> CbbaAllocator \<Rightarrow> CbbaAllocator" where
  "clear_stale ts as st =
     (let alive = aa_id ` set as;
          live_bid = (\<lambda>k (i, _). i \<in> alive \<and> list_ex (\<lambda>t. t_id t = k) ts);
          st1 = st\<lparr>cb_bundles := hm_retain (\<lambda>i _. i \<in> alive) (cb_bundles st),
                   cb_winning_bids := hm_retain live_bid (cb_winning_bids st),
                   cb_prev_winning_bids := hm_retain live_bid (cb_prev_winning_bids st)\<rparr>
      in st1\<lparr>cb_bundles := hm_map (\<lambda>_ bundle. filter (\<lambda>k. hm_get (cb_winning_bids st1) k \<noteq> None) bundle)
               (cb_bundles st1)\<rparr>)"

definition order_bundles ::
  "(TaskId list \<Rightarrow> TaskId list) \<Rightarrow> Task list \<Rightarrow> AllocationAgent list \<Rightarrow> CbbaAllocator \<Rightarrow> CbbaAllocator"
where
  "order_bundles iter ts as st = st\<lparr>cb_bundles := hm_map (\<lambda>i bundle.
     case find (\<lambda>a. aa_id a = i) as of
       Some a \<Rightarrow> cb_route_planner st iter (aa_pose a) (bundle_tasks ts bundle) (full_agent a)
     | None \<Rightarrow> bundle) (cb_bundles st)\<rparr>"

text \<open>\<open>u32::is_multiple_of\<close>\<close>

definition is_multiple_of :: "u32 \<Rightarrow> u32 \<Rightarrow> bool" where
  "is_multiple_of x y = (if y = 0 then x = 0 else x mod y = 0)"

definition retransmit :: "AllocationAgent list \<Rightarrow> CbbaAllocator \<Rightarrow> CbbaAllocator" where
  "retransmit as st =
     (let st1 = (if f64_lt (retransmit_threshold_packet_loss (cb_config st)) (cb_packet_loss_rate st)
             \<and> is_multiple_of (cb_current_round st) (ucast (retransmit_backoff_ticks (cb_config st)))
            then st\<lparr>cb_force_rebroadcast := True,
                    cb_messages_exchanged := cb_messages_exchanged st + of_nat (length as)\<rparr> else st)
      in if cb_force_rebroadcast st1
         then st1\<lparr>cb_prev_winning_bids := [], cb_force_rebroadcast := False\<rparr> else st1)"

definition measure_travel :: "Task list \<Rightarrow> AllocationAgent list \<Rightarrow> CbbaAllocator \<Rightarrow> CbbaAllocator" where
  "measure_travel ts as st = st\<lparr>cb_bundle_travel_distance :=
     foldl (\<lambda>d (i, bundle). case find (\<lambda>a. aa_id a = i) as of
         Some a \<Rightarrow> f64_add d (route_cost (aa_pose a) (bundle_tasks ts bundle)) | None \<Rightarrow> d)
       f64_zero (cb_bundles st)\<rparr>"

definition cbba_allocate ::
  "(TaskId list \<Rightarrow> TaskId list) \<Rightarrow> CbbaAllocator \<Rightarrow> Task list \<Rightarrow> AllocationAgent list \<Rightarrow> decisions \<times> CbbaAllocator"
where
  "cbba_allocate iter st ts as =
     (let st1 = st\<lparr>cb_current_round := cb_current_round st + 1\<rparr>;
          st2 = (if ts \<noteq> [] \<and> cb_converged st1 then st1\<lparr>cb_converged := False\<rparr> else st1);
          st3 = clear_stale ts as st2;
          st4 = build_bundles as ts st3;
          st5 = order_bundles iter ts as st4;
          st6 = retransmit as st5;
          st7 = fst (check_convergence st6);
          st8 = measure_travel ts as st7
      in (current_assignments st8, st8))"

definition allocation_metrics :: "CbbaAllocator \<Rightarrow> u64 \<times> bool \<times> u64" where
  "allocation_metrics st = (ucast (cb_current_round st), cb_converged st, cb_messages_exchanged st)"

section \<open>What bundle building does\<close>

lemma best_task_offered:
  "best_task st a bundle ts s d = (s', Some k) \<Longrightarrow> d = Some k \<or> (k \<in> t_id ` set ts \<and> k \<notin> set bundle)"
proof (induction ts arbitrary: s d)
  case Nil
  then show ?case by simp
next
  case (Cons t ts)
  have "t_id t \<notin> set bundle" if "\<not> passed_over st a bundle t"
    using that by (auto simp: passed_over_def Let_def)
  with Cons show ?case by (fastforce simp: Let_def split: if_splits)
qed

lemma bundle_of_insert [simp]:
  "bundle_of (st\<lparr>cb_bundles := hm_insert i b m\<rparr>) j = (if j = i then b else bundle_of (st\<lparr>cb_bundles := m\<rparr>) j)"
  by (simp add: bundle_of_def)

text \<open>One step appends at most one new task to the bundle of the agent and touches no other bundle.\<close>

lemma build_agent_cases:
  obtains (none) "cb_bundles (build_agent ts st a) = hm_insert (aa_id a) (bundle_of st (aa_id a)) (cb_bundles st)"
      "cb_winning_bids (build_agent ts st a) = cb_winning_bids st"
  | (push) k s where "cb_bundles (build_agent ts st a) =
        hm_insert (aa_id a) (bundle_of st (aa_id a) @ [k]) (hm_insert (aa_id a) (bundle_of st (aa_id a)) (cb_bundles st))"
      "cb_winning_bids (build_agent ts st a) = hm_insert k (aa_id a, s) (cb_winning_bids st)"
      "k \<in> t_id ` set ts" "k \<notin> set (bundle_of st (aa_id a))"
      "length (bundle_of st (aa_id a)) < max_bundle_size (cb_config st)"
proof -
  let ?b = "bundle_of st (aa_id a)"
  let ?st = "st\<lparr>cb_bundles := hm_insert (aa_id a) ?b (cb_bundles st)\<rparr>"
  obtain s d where r: "best_task ?st a ?b ts (Inf True) None = (s, d)"
    by (cases "best_task ?st a ?b ts (Inf True) None")
  show thesis
  proof (cases "max_bundle_size (cb_config st) \<le> length ?b \<or> d = None \<or> \<not> f64_lt (Inf True) s")
    case True
    then have "build_agent ts st a = ?st"
      using r by (auto simp: build_agent_def Let_def split: option.split)
    with none show ?thesis by simp
  next
    case False
    then obtain k where k: "d = Some k" by auto
    have "build_agent ts st a = ?st\<lparr>cb_bundles := hm_insert (aa_id a) (?b @ [k]) (cb_bundles ?st),
        cb_winning_bids := hm_insert k (aa_id a, s) (cb_winning_bids ?st)\<rparr>"
      using False r k by (simp add: build_agent_def Let_def)
    with best_task_offered [OF r [unfolded k]] False push [of k s] show ?thesis by simp
  qed
qed

section \<open>The invariant of the bundles\<close>

text \<open>Bundles list tasks without repetition, all of them from a given set.\<close>

definition bundles_ok :: "TaskId set \<Rightarrow> (AgentId, TaskId list) hmap \<Rightarrow> bool" where
  "bundles_ok T m = (hm_wf m \<and> (\<forall>i b. hm_get m i = Some b \<longrightarrow> distinct b \<and> set b \<subseteq> T))"

lemma bundles_ok_insert:
  "bundles_ok T m \<Longrightarrow> distinct b \<Longrightarrow> set b \<subseteq> T \<Longrightarrow> bundles_ok T (hm_insert i b m)"
  by (simp add: bundles_ok_def)

lemma bundles_ok_bundle_of: "bundles_ok T (cb_bundles st) \<Longrightarrow> distinct (bundle_of st i) \<and> set (bundle_of st i) \<subseteq> T"
  by (auto simp: bundles_ok_def bundle_of_def split: option.split)

lemma bundles_ok_mono: "bundles_ok T m \<Longrightarrow> T \<subseteq> T' \<Longrightarrow> bundles_ok T' m"
  by (auto simp: bundles_ok_def)

lemma build_agent_ok:
  assumes "bundles_ok T (cb_bundles st)" "t_id ` set ts \<subseteq> T"
  shows "bundles_ok T (cb_bundles (build_agent ts st a))"
proof -
  note b = bundles_ok_bundle_of [OF assms(1), of "aa_id a"]
  show ?thesis
  proof (cases rule: build_agent_cases [of ts st a])
    case none
    with b assms(1) show ?thesis by (simp add: bundles_ok_insert)
  next
    case (push k s)
    then have "k \<in> T" using assms(2) by blast
    with push b assms(1) show ?thesis by (simp add: bundles_ok_insert)
  qed
qed

lemma build_bundles_ok:
  assumes "bundles_ok T (cb_bundles st)" "t_id ` set ts \<subseteq> T"
  shows "bundles_ok T (cb_bundles (build_bundles as ts st))"
proof -
  have "bundles_ok T (cb_bundles s) \<Longrightarrow> bundles_ok T (cb_bundles (foldl (build_agent ts) s as))" for s
    by (induction as arbitrary: s) (simp_all add: build_agent_ok assms(2))
  with assms show ?thesis by (simp add: build_bundles_def)
qed

lemma build_agent_frame [simp]:
  "cb_config (build_agent ts st a) = cb_config st"
  "cb_route_planner (build_agent ts st a) = cb_route_planner st"
  "cb_prev_winning_bids (build_agent ts st a) = cb_prev_winning_bids st"
  by (simp_all add: build_agent_def Let_def split: prod.split option.split)

lemma build_bundles_frame [simp]:
  "cb_route_planner (build_bundles as ts st) = cb_route_planner st"
  "cb_config (build_bundles as ts st) = cb_config st"
  "cb_prev_winning_bids (build_bundles as ts st) = cb_prev_winning_bids st"
proof -
  have "cb_route_planner (foldl (build_agent ts) s as) = cb_route_planner s"
    "cb_config (foldl (build_agent ts) s as) = cb_config s"
    "cb_prev_winning_bids (foldl (build_agent ts) s as) = cb_prev_winning_bids s" for s
    by (induction as arbitrary: s) simp_all
  then show "cb_route_planner (build_bundles as ts st) = cb_route_planner st"
    "cb_config (build_bundles as ts st) = cb_config st"
    "cb_prev_winning_bids (build_bundles as ts st) = cb_prev_winning_bids st"
    by (simp_all add: build_bundles_def)
qed

lemma build_bundles_bids_wf: "hm_wf (cb_winning_bids st) \<Longrightarrow> hm_wf (cb_winning_bids (build_bundles as ts st))"
proof -
  have step: "hm_wf (cb_winning_bids s) \<Longrightarrow> hm_wf (cb_winning_bids (build_agent ts s a))" for s a
    by (cases rule: build_agent_cases [of ts s a]) simp_all
  have "hm_wf (cb_winning_bids s) \<Longrightarrow> hm_wf (cb_winning_bids (foldl (build_agent ts) s as))" for s
    by (induction as arbitrary: s) (simp_all add: step)
  then show "hm_wf (cb_winning_bids st) \<Longrightarrow> ?thesis" by (simp add: build_bundles_def)
qed

definition planner_ok :: "planner \<Rightarrow> bool" where
  "planner_ok p = (\<forall>iter ts start agent. hash_order iter \<longrightarrow> distinct (map t_id ts) \<longrightarrow>
     distinct (p iter start ts agent) \<and> set (p iter start ts agent) \<subseteq> t_id ` set ts)"

definition cbba_inv :: "CbbaAllocator \<Rightarrow> bool" where
  "cbba_inv st = (bundles_ok UNIV (cb_bundles st) \<and> hm_wf (cb_winning_bids st) \<and>
     hm_wf (cb_prev_winning_bids st) \<and> planner_ok (cb_route_planner st))"

lemma clear_stale_ok:
  assumes "cbba_inv st"
  shows "bundles_ok (t_id ` set ts) (cb_bundles (clear_stale ts as st))"
proof -
  let ?st = "clear_stale ts as st"
  have wf: "hm_wf (cb_winning_bids st)" "hm_wf (cb_bundles st)"
    using assms by (simp_all add: cbba_inv_def bundles_ok_def)
  have keys: "k \<in> t_id ` set ts" if "hm_get (cb_winning_bids ?st) k \<noteq> None" for k
    using that wf by (auto simp: clear_stale_def Let_def hm_get_retain list_ex_iff split: option.splits if_splits)
  have wb: "cb_winning_bids ?st = hm_retain (\<lambda>k (i, _). i \<in> aa_id ` set as \<and> list_ex (\<lambda>t. t_id t = k) ts) (cb_winning_bids st)"
    by (simp add: clear_stale_def Let_def)
  show ?thesis
    unfolding bundles_ok_def
  proof (intro conjI allI impI)
    show "hm_wf (cb_bundles ?st)" using wf by (simp add: clear_stale_def Let_def)
    fix i b
    assume "hm_get (cb_bundles ?st) i = Some b"
    then obtain b0 where b0: "hm_get (cb_bundles st) i = Some b0"
      "b = filter (\<lambda>k. hm_get (cb_winning_bids ?st) k \<noteq> None) b0"
      using wf by (auto simp: wb) (auto simp: clear_stale_def Let_def hm_get_retain split: option.splits if_splits)
    have "distinct b0" using assms b0(1) by (simp add: cbba_inv_def bundles_ok_def)
    with b0(2) keys show "distinct b" "set b \<subseteq> t_id ` set ts" by auto
  qed
qed

lemma find_mem: "find P xs = Some x \<Longrightarrow> x \<in> set xs \<and> P x"
  by (induction xs) (auto split: if_splits)

lemma bundle_tasks_ids: "map t_id (bundle_tasks ts b) = filter (\<lambda>k. k \<in> t_id ` set ts) b"
proof (induction b)
  case Nil
  then show ?case by (simp add: bundle_tasks_def List.map_filter_def)
next
  case (Cons k b)
  show ?case
  proof (cases "find (\<lambda>t. t_id t = k) ts")
    case None
    then have "k \<notin> t_id ` set ts" by (auto simp: find_None_iff)
    with Cons None show ?thesis by (simp add: bundle_tasks_def List.map_filter_def)
  next
    case (Some t)
    with find_mem [OF Some] Cons show ?thesis by (auto simp: bundle_tasks_def List.map_filter_def)
  qed
qed

lemma order_bundles_ok:
  assumes "bundles_ok (t_id ` set ts) (cb_bundles st)" "planner_ok (cb_route_planner st)" "hash_order iter"
  shows "bundles_ok (t_id ` set ts) (cb_bundles (order_bundles iter ts as st))"
  unfolding bundles_ok_def
proof (intro conjI allI impI)
  show "hm_wf (cb_bundles (order_bundles iter ts as st))"
    using assms(1) by (simp add: bundles_ok_def order_bundles_def)
  fix i b
  assume "hm_get (cb_bundles (order_bundles iter ts as st)) i = Some b"
  then obtain b0 where b0: "hm_get (cb_bundles st) i = Some b0"
    "b = (case find (\<lambda>a. aa_id a = i) as of
       Some a \<Rightarrow> cb_route_planner st iter (aa_pose a) (bundle_tasks ts b0) (full_agent a) | None \<Rightarrow> b0)"
    by (auto simp: order_bundles_def)
  have d: "distinct b0" "set b0 \<subseteq> t_id ` set ts" using assms(1) b0(1) by (auto simp: bundles_ok_def)
  then have "distinct (map t_id (bundle_tasks ts b0))" by (simp add: bundle_tasks_ids)
  then have "distinct (cb_route_planner st iter p (bundle_tasks ts b0) ag) \<and>
      set (cb_route_planner st iter p (bundle_tasks ts b0) ag) \<subseteq> t_id ` set (bundle_tasks ts b0)" for p ag
    using assms(2,3) by (simp add: planner_ok_def)
  moreover have "t_id ` set (bundle_tasks ts b0) \<subseteq> t_id ` set ts"
    using bundle_tasks_ids [of ts b0] by (metis (no_types, lifting) filter_is_subset d(2) list.set_map order_trans)
  ultimately show "distinct b" "set b \<subseteq> t_id ` set ts"
    using b0(2) d by (auto split: option.split) blast+
qed

lemma stage_frames [simp]:
  "cb_bundles (retransmit as st) = cb_bundles st"
  "cb_bundles (fst (check_convergence st)) = cb_bundles st"
  "cb_bundles (measure_travel ts as st) = cb_bundles st"
  "cb_winning_bids (retransmit as st) = cb_winning_bids st"
  "cb_winning_bids (fst (check_convergence st)) = cb_winning_bids st"
  "cb_winning_bids (measure_travel ts as st) = cb_winning_bids st"
  "cb_winning_bids (order_bundles iter ts as st) = cb_winning_bids st"
  "cb_route_planner (retransmit as st) = cb_route_planner st"
  "cb_route_planner (fst (check_convergence st)) = cb_route_planner st"
  "cb_route_planner (measure_travel ts as st) = cb_route_planner st"
  "cb_route_planner (order_bundles iter ts as st) = cb_route_planner st"
  "cb_route_planner (clear_stale ts as st) = cb_route_planner st"
  "cb_prev_winning_bids (order_bundles iter ts as st) = cb_prev_winning_bids st"
  "cb_prev_winning_bids (measure_travel ts as st) = cb_prev_winning_bids st"
  by (simp_all add: retransmit_def check_convergence_def measure_travel_def order_bundles_def
      clear_stale_def Let_def)

lemma prev_wf:
  "hm_wf (cb_prev_winning_bids st) \<Longrightarrow> hm_wf (cb_prev_winning_bids (retransmit as st))"
  "hm_wf (cb_prev_winning_bids st) \<Longrightarrow> hm_wf (cb_winning_bids st) \<Longrightarrow>
     hm_wf (cb_prev_winning_bids (fst (check_convergence st)))"
  by (simp_all add: retransmit_def check_convergence_def Let_def)

lemma cbba_allocate_inv:
  assumes "cbba_inv st" "hash_order iter" "cbba_allocate iter st ts as = (ds, st')"
  shows "bundles_ok (t_id ` set ts) (cb_bundles st')" "cbba_inv st'"
proof -
  let ?st1 = "st\<lparr>cb_current_round := cb_current_round st + 1\<rparr>"
  define st2 where "st2 = (if ts \<noteq> [] \<and> cb_converged ?st1 then ?st1\<lparr>cb_converged := False\<rparr> else ?st1)"
  define st4 where "st4 = build_bundles as ts (clear_stale ts as st2)"
  define st6 where "st6 = retransmit as (order_bundles iter ts as st4)"
  have st': "st' = measure_travel ts as (fst (check_convergence st6))"
    using assms(3) by (simp add: cbba_allocate_def Let_def st2_def st4_def st6_def)
  have i2: "cbba_inv st2" using assms(1) by (simp add: cbba_inv_def st2_def)
  have wb: "hm_wf (cb_winning_bids (clear_stale ts as st2))" "hm_wf (cb_prev_winning_bids (clear_stale ts as st2))"
    using i2 by (simp_all add: clear_stale_def Let_def cbba_inv_def)
  have p: "planner_ok (cb_route_planner st4)" using i2 by (simp add: st4_def cbba_inv_def)
  have b4: "bundles_ok (t_id ` set ts) (cb_bundles st4)"
    unfolding st4_def by (intro build_bundles_ok clear_stale_ok i2) simp
  show b: "bundles_ok (t_id ` set ts) (cb_bundles st')"
    using order_bundles_ok [OF b4 p assms(2)] by (simp add: st' st6_def)
  have w4: "hm_wf (cb_winning_bids st4)" unfolding st4_def by (rule build_bundles_bids_wf [OF wb(1)])
  have "hm_wf (cb_prev_winning_bids st6)" unfolding st6_def using wb(2) by (intro prev_wf(1)) (simp add: st4_def)
  with w4 have "hm_wf (cb_prev_winning_bids st')" by (simp add: st' prev_wf(2) st6_def)
  moreover have "bundles_ok UNIV (cb_bundles st')" by (rule bundles_ok_mono [OF b]) simp
  moreover have "cb_route_planner st' = cb_route_planner st4" "cb_winning_bids st' = cb_winning_bids st4"
    by (simp_all add: st' st6_def)
  ultimately show "cbba_inv st'" using w4 p by (simp add: cbba_inv_def)
qed

lemma current_assignments_iff:
  "(k, i) \<in> set (current_assignments st) \<longleftrightarrow> (\<exists>b. (i, b) \<in> set (cb_bundles st) \<and> k \<in> set b)"
  by (auto simp: current_assignments_def)

lemma current_assignments_offered:
  assumes "bundles_ok T (cb_bundles st)"
  shows "fst ` set (current_assignments st) \<subseteq> T"
  using assms by (auto simp: bundles_ok_def current_assignments_iff hm_get_Some_iff) blast

text \<open>The allocator with the iteration order of its hash sets as part of its state.\<close>

definition cbba_alloc ::
  "(TaskId list \<Rightarrow> TaskId list) \<times> CbbaAllocator \<Rightarrow> Task list \<Rightarrow> AllocationAgent list \<Rightarrow> ConnectivityContext \<Rightarrow>
   (decisions \<times> (TaskId list \<Rightarrow> TaskId list) \<times> CbbaAllocator) option"
where
  "cbba_alloc s ts as conn = (case cbba_allocate (fst s) (snd s) ts as of (ds, st') \<Rightarrow> Some (ds, fst s, st'))"

interpretation cbba: allocator "\<lambda>s. hash_order (fst s) \<and> cbba_inv (snd s)" cbba_alloc
proof unfold_locales
  fix s s' ts as conn ds
  assume i: "hash_order (fst s) \<and> cbba_inv (snd s)" and a: "cbba_alloc s ts as conn = Some (ds, s')"
  then have c: "cbba_allocate (fst s) (snd s) ts as = (ds, snd s')" "fst s' = fst s"
    by (auto simp: cbba_alloc_def split: prod.splits)
  note inv = cbba_allocate_inv [OF conjunct2 [OF i] conjunct1 [OF i] c(1)]
  show "hash_order (fst s') \<and> cbba_inv (snd s')" using i inv(2) c(2) by simp
  have "ds = current_assignments (snd s')" using c(1) by (auto simp: cbba_allocate_def Let_def)
  then show "fst ` set ds \<subseteq> t_id ` set ts" using current_assignments_offered [OF inv(1)] by simp
qed

section \<open>Consensus\<close>

text \<open>The winning bid of a task after hearing a remote bid.\<close>

definition better_bid :: "(AgentId \<times> f64) option \<Rightarrow> (AgentId \<times> f64) option \<Rightarrow> (AgentId \<times> f64) option" where
  "better_bid l r = (case (l, r) of
       (None, _) \<Rightarrow> r | (_, None) \<Rightarrow> l
     | (Some (a, v), Some (b, w)) \<Rightarrow> if f64_lt v w then r else l)"

lemma apply_bid_winning:
  "hm_get (cb_winning_bids (apply_bid st (k, b))) j =
     (if j = k then better_bid (hm_get (cb_winning_bids st) k) (Some b) else hm_get (cb_winning_bids st) j)"
  by (cases b) (auto simp: apply_bid_def better_bid_def Let_def split: option.split prod.split)

lemma apply_bids_winning:
  assumes "distinct (map fst bids)"
  shows "hm_get (cb_winning_bids (foldl apply_bid st bids)) j =
    better_bid (hm_get (cb_winning_bids st) j) (map_of bids j)"
  using assms
proof (induction bids arbitrary: st)
  case Nil
  then show ?case by (simp add: better_bid_def split: option.split)
next
  case (Cons p bids)
  obtain k b where p: "p = (k, b)" by (cases p)
  have "map_of bids k = None" using Cons.prems by (simp add: p map_of_eq_None_iff)
  moreover have "better_bid x None = x" for x by (simp add: better_bid_def split: option.split)
  ultimately show ?case using Cons by (simp add: p apply_bid_winning)
qed

lemma apply_one_sender:
  assumes "\<not> cb_converged st" "hm_wf bids"
  shows "hm_get (cb_winning_bids (apply_remote_bids [(s, bids)] st)) j =
    better_bid (hm_get (cb_winning_bids st) j) (hm_get bids j)"
  using assms apply_bids_winning [of bids st j]
  by (simp add: apply_remote_bids_def Let_def hm_wf_def hm_get_def)

section \<open>Properties\<close>

lemma build_agent_bundles:
  "prefix (bundle_of st i) (bundle_of (build_agent ts st a) i) \<and>
   length (bundle_of (build_agent ts st a) i) \<le> max (length (bundle_of st i)) (max_bundle_size (cb_config st)) \<and>
   (distinct (bundle_of st i) \<longrightarrow> distinct (bundle_of (build_agent ts st a) i)) \<and>
   set (bundle_of (build_agent ts st a) i) \<subseteq> set (bundle_of st i) \<union> t_id ` set ts"
  by (cases rule: build_agent_cases [of ts st a])
    (auto simp: bundle_of_def split: option.splits)

text \<open>Bundle building. A building phase never takes a task out of a bundle: every bundle is
  extended at its end, by offered tasks it did not hold, and never beyond the configured size.\<close>

theorem build_bundles_extends:
  "prefix (bundle_of st i) (bundle_of (build_bundles as ts st) i) \<and>
   length (bundle_of (build_bundles as ts st) i) \<le> max (length (bundle_of st i)) (max_bundle_size (cb_config st)) \<and>
   (distinct (bundle_of st i) \<longrightarrow> distinct (bundle_of (build_bundles as ts st) i)) \<and>
   set (bundle_of (build_bundles as ts st) i) \<subseteq> set (bundle_of st i) \<union> t_id ` set ts"
proof -
  have "prefix (bundle_of s i) (bundle_of (foldl (build_agent ts) s as) i) \<and>
    length (bundle_of (foldl (build_agent ts) s as) i) \<le> max (length (bundle_of s i)) (max_bundle_size (cb_config s)) \<and>
    (distinct (bundle_of s i) \<longrightarrow> distinct (bundle_of (foldl (build_agent ts) s as) i)) \<and>
    set (bundle_of (foldl (build_agent ts) s as) i) \<subseteq> set (bundle_of s i) \<union> t_id ` set ts" for s
  proof (induction as arbitrary: s)
    case Nil
    then show ?case by simp
  next
    case (Cons a as)
    show ?case
      using Cons.IH [of "build_agent ts s a"] build_agent_bundles [of s i ts a]
      by (auto intro: prefix_order.trans)
  qed
  then show ?thesis by (simp add: build_bundles_def)
qed

definition bid_state :: "AgentId \<Rightarrow> rat \<Rightarrow> CbbaAllocator" where
  "bid_state i v = (cbba_new \<lparr>max_bundle_size = 5, max_rounds = 20, score_weight_distance = f64_lit 1,
     score_weight_battery = f64_lit 1, retransmit_max_attempts = 3, retransmit_backoff_ticks = 2,
     retransmit_threshold_packet_loss = f64_zero\<rparr>)\<lparr>cb_winning_bids := [(''t'', i, f64_lit v)]\<rparr>"

theorem build_bundles_extends_witness:
  "let st = build_bundles [sample_alloc_agent ''a'' Scout] [sample_alloc_task ''t'', sample_alloc_task ''u'']
       (bid_state ''b'' 5)
   in distinct (bundle_of st ''a'') \<and> length (bundle_of st ''a'') \<le> 5 \<and> set (bundle_of st ''a'') \<subseteq> {''t'', ''u''}"
proof -
  have "bundle_of (bid_state ''b'' 5) ''a'' = []" "max_bundle_size (cb_config (bid_state ''b'' 5)) = 5"
    "t_id (sample_alloc_task i) = i" for i
    by (simp_all add: bundle_of_def bid_state_def cbba_new_def sample_alloc_task_def)
  then show ?thesis
    using build_bundles_extends [of "bid_state ''b'' 5" "''a''" "[sample_alloc_agent ''a'' Scout]"
        "[sample_alloc_task ''t'', sample_alloc_task ''u'']"]
    by (simp add: Let_def)
qed

text \<open>Consensus. After two nodes have exchanged their tables of winning bids they hold the same
  winning value for every task both had bids for, the larger of the two; and they hold the same
  winner if the values differed. If the values were equal each node keeps its own winner.\<close>

theorem cbba_consensus:
  assumes "\<not> cb_converged c" "\<not> cb_converged d"
    and "hm_wf (cb_winning_bids c)" "hm_wf (cb_winning_bids d)"
    and "hm_get (cb_winning_bids c) k = Some (a, v)" "hm_get (cb_winning_bids d) k = Some (b, w)"
    and "\<not> is_nan v" "\<not> is_nan w"
  shows "\<exists>a' v' b' w'.
    hm_get (cb_winning_bids (apply_remote_bids [(j, cb_winning_bids d)] c)) k = Some (a', v') \<and>
    hm_get (cb_winning_bids (apply_remote_bids [(i, cb_winning_bids c)] d)) k = Some (b', w') \<and>
    f64_eq v' w' \<and> f64_le v v' \<and> f64_le w v' \<and>
    (if f64_eq v w then a' = a \<and> b' = b else a' = b' \<and> v' = w')"
  using apply_one_sender [OF assms(1,4), of j k] apply_one_sender [OF assms(2,3), of i k] assms(5-8)
  by (cases "f64_key v" "f64_key w" rule: linorder_cases)
    (auto simp: better_bid_def f64_lt_def f64_le_def f64_eq_def dest: order.asym)

theorem cbba_consensus_witness:
  "\<exists>a' v' b' w'.
    hm_get (cb_winning_bids (apply_remote_bids [(''b'', cb_winning_bids (bid_state ''b'' 9))] (bid_state ''a'' 5))) ''t''
      = Some (a', v') \<and>
    hm_get (cb_winning_bids (apply_remote_bids [(''a'', cb_winning_bids (bid_state ''a'' 5))] (bid_state ''b'' 9))) ''t''
      = Some (b', w') \<and> a' = b'"
proof -
  have "\<not> f64_eq (f64_lit 5) (f64_lit 9)" by (simp add: f64_eq_def)
  then show ?thesis
    using cbba_consensus [of "bid_state ''a'' 5" "bid_state ''b'' 9" "''t''" "''a''" "f64_lit 5" "''b''" "f64_lit 9"
        "''b''" "''a''"]
    by (simp add: bid_state_def cbba_new_def hm_wf_def hm_get_def) blast
qed

text \<open>Outbidding inside a building phase. When a later agent of the same phase scores a task higher
  than an earlier one, it adds the task to its own bundle and takes over the winning bid, but the
  task also stays in the bundle of the earlier agent: the resulting assignments give the task to
  both.\<close>

theorem cbba_double_assignment:
  assumes "aa_id a \<noteq> aa_id b" "0 < max_bundle_size cfg"
    and "is_finite (marginal_score cfg a t [])" "is_finite (marginal_score cfg b t [])"
    and "f64_lt (marginal_score cfg a t []) (marginal_score cfg b t [])"
  shows "current_assignments (build_bundles [a, b] [t] (cbba_new cfg)) = [(t_id t, aa_id a), (t_id t, aa_id b)]"
proof -
  let ?A = "marginal_score cfg a t []" and ?B = "marginal_score cfg b t []"
  have fin: "f64_lt (Inf True) x \<and> \<not> f64_le x (Inf True)" if "is_finite x" for x
    using that by (cases x) (simp_all add: is_finite_def f64_lt_def f64_le_def)
  have "\<not> f64_le ?B ?A" using assms(5) by (auto simp: f64_lt_def f64_le_def)
  then show ?thesis
    using assms fin [OF assms(3)] fin [OF assms(4)]
    by (simp add: build_bundles_def cbba_new_def build_agent_def bundle_of_def passed_over_def Let_def
        current_assignments_def hm_insert_def hm_get_def)
qed

theorem cbba_double_assignment_witness:
  "current_assignments (build_bundles
      [sample_alloc_agent ''a'' Scout\<lparr>aa_battery := f64_lit 50\<rparr>, sample_alloc_agent ''b'' Scout\<lparr>aa_battery := f64_lit 100\<rparr>]
      [sample_alloc_task ''t''] (cbba_new (cb_config (bid_state ''a'' 5)))) = [(''t'', ''a''), (''t'', ''b'')]"
proof -
  have d: "distance_to default_pose default_pose = f64_zero"
    by (simp add: distance_to_def default_pose_def f64_sub_def of_exact_def val_def Let_def)
  have m: "marginal_score (cb_config (bid_state ''a'' 5)) (sample_alloc_agent ''a'' Scout\<lparr>aa_battery := f64_lit 50\<rparr>)
      (sample_alloc_task ''t'') [] = f64_lit 50"
    "marginal_score (cb_config (bid_state ''a'' 5)) (sample_alloc_agent ''b'' Scout\<lparr>aa_battery := f64_lit 100\<rparr>)
      (sample_alloc_task ''t'') [] = f64_lit 100"
    by (simp_all add: marginal_score_def bid_state_def cbba_new_def sample_alloc_agent_def sample_alloc_task_def d Let_def
        has_all_capabilities_def has_required_role_def val_def of_exact_def)
  have ids: "aa_id (sample_alloc_agent i r\<lparr>aa_battery := x\<rparr>) = i" "t_id (sample_alloc_task i) = i"
    "0 < max_bundle_size (cb_config (bid_state i y))" for i r x y
    by (simp_all add: sample_alloc_agent_def sample_alloc_task_def bid_state_def cbba_new_def)
  show ?thesis
    by (subst cbba_double_assignment) (simp_all add: m ids is_finite_def val_def)
qed

text \<open>A CBBA round decides offered tasks only, and keeps the bundles free of repetitions, for any
  route planner that returns offered tasks.\<close>

theorem cbba_round_offers:
  assumes "cbba_inv st" "hash_order iter" "cbba_allocate iter st ts as = (ds, st')"
  shows "fst ` set ds \<subseteq> t_id ` set ts \<and> cbba_inv st' \<and> (\<forall>i. distinct (bundle_of st' i))"
  using cbba.offered [of "(iter, st)" ts as sample_context ds "(iter, st')"]
    cbba.keeps [of "(iter, st)" ts as sample_context ds "(iter, st')"] assms bundles_ok_bundle_of [of UNIV st']
  by (simp add: cbba_alloc_def cbba_inv_def)

theorem cbba_round_offers_witness:
  "fst ` set (fst (cbba_allocate remdups (cbba_new (cb_config (bid_state ''a'' 5)))
     [sample_alloc_task ''t''] [])) \<subseteq> {''t''}"
proof -
  have "cbba_inv (cbba_new (cb_config (bid_state ''a'' 5)))"
    using nn.order_ids by (auto simp: cbba_inv_def cbba_new_def bundles_ok_def planner_ok_def)
  then show ?thesis
    using cbba_round_offers [OF _ hash_order_remdups surjective_pairing, of "cbba_new (cb_config (bid_state ''a'' 5))"
        "[sample_alloc_task ''t'']" "[]"]
    by (simp add: sample_alloc_task_def)
qed

end
