(* ===== verification/Reallocation.thy ===== *)
theory Reallocation
  imports Gossip Cbba
begin

text \<open>
  \<open>swarm-runtime/src/node/reallocation.rs\<close>: offering the free tasks of a coordinator to an allocator
  and applying its decisions. The allocator is an argument: a function from its state, the tasks,
  the agents and the connectivity to decisions and its new state, \<open>None\<close> where it panics. What the
  client needs of it is the locale \<open>allocator\<close>; the lemmas about reallocation are proved in it and
  in its extensions, and reach the greedy, auction, connectivity-aware and CBBA allocators through
  their interpretations.
\<close>

section \<open>Definitions\<close>

record AssignmentChange =
  ac_task_id :: TaskId
  ac_agent_id :: AgentId

record AllocationOutcome =
  ao_assignments :: "AssignmentChange list"
  ao_conflicting_assignments :: u64

definition allocation_agent :: "AgentId \<times> AgentEntry \<Rightarrow> AllocationAgent" where
  "allocation_agent p = (case p of (i, e) \<Rightarrow>
     \<lparr>aa_id = i, aa_pose = e_pose e, aa_battery = e_battery e, aa_capabilities = e_capabilities e,
      aa_role = e_role e, aa_comms_range = e_comms_range e, aa_speed = f64_zero,
      aa_max_range = f64_zero, aa_battery_drain_rate = f64_zero\<rparr>)"

definition offered_tasks :: "Coordinator \<Rightarrow> Task list" where
  "offered_tasks c = sort_key t_id (unassigned (registry c))"

definition offered_agents :: "Coordinator \<Rightarrow> AllocationAgent list" where
  "offered_agents c = sort_key aa_id (map allocation_agent (alive_agents (membership c)))"

definition connectivity_context :: "Coordinator \<Rightarrow> ConnectivityContext" where
  "connectivity_context c =
     (let as = offered_agents c;
          entries = map (\<lambda>(i, e). (i, e_pose e, e_comms_range e, Alive)) (alive_agents (membership c));
          bid = (case as of a # _ \<Rightarrow> aa_id a | [] \<Rightarrow> ''base'');
          bpose = (case as of a # _ \<Rightarrow> aa_pose a | [] \<Rightarrow> default_pose)
      in \<lparr>snapshot = \<lparr>agent_entries = entries, ground_nodes = [], cs_base_id = bid, base_pose = bpose\<rparr>,
          base_id = bid\<rparr>)"

text \<open>The loop over the decisions with the set \<open>seen\<close> and the outcome so far.\<close>

fun apply_decisions ::
  "decisions \<Rightarrow> TaskId set \<Rightarrow> TaskRegistry \<Rightarrow> AllocationOutcome \<Rightarrow> TaskRegistry \<times> AllocationOutcome"
where
  "apply_decisions [] seen r out = (r, out)"
| "apply_decisions ((k, i) # ds) seen r out =
     (if k \<in> seen
      then apply_decisions ds seen r (out\<lparr>ao_conflicting_assignments := ao_conflicting_assignments out + 1\<rparr>)
      else case assign r k i of
        (r', Inl _) \<Rightarrow> apply_decisions ds (insert k seen) r'
           (out\<lparr>ao_conflicting_assignments := ao_conflicting_assignments out + 1\<rparr>)
      | (r', Inr _) \<Rightarrow> apply_decisions ds (insert k seen) r'
           (out\<lparr>ao_assignments := ao_assignments out @ [\<lparr>ac_task_id = k, ac_agent_id = i\<rparr>]\<rparr>))"

definition empty_outcome :: AllocationOutcome where
  "empty_outcome = \<lparr>ao_assignments = [], ao_conflicting_assignments = 0\<rparr>"

type_synonym 'st alloc_fun =
  "'st \<Rightarrow> Task list \<Rightarrow> AllocationAgent list \<Rightarrow> ConnectivityContext \<Rightarrow> (decisions \<times> 'st) option"

definition allocate_unassigned ::
  "'st alloc_fun \<Rightarrow> 'st \<Rightarrow> Coordinator \<Rightarrow> (Coordinator \<times> AllocationOutcome \<times> 'st) option"
where
  "allocate_unassigned alloc st c =
     (case alloc st (offered_tasks c) (offered_agents c) (connectivity_context c) of
        None \<Rightarrow> None
      | Some (ds, st') \<Rightarrow> (case apply_decisions ds {} (registry c) empty_outcome of
          (r, out) \<Rightarrow> Some (c\<lparr>registry := r\<rparr>, out, st')))"

section \<open>What is offered\<close>

lemma mset_offered_tasks: "mset (offered_tasks c) = mset (unassigned (registry c))"
  by (simp add: offered_tasks_def)

lemma offered_task_iff:
  assumes "reg_inv (registry c)"
  shows "t \<in> set (offered_tasks c) \<longleftrightarrow>
    task_of (registry c) (t_id t) = Some t \<and> t_assigned_to t = None"
proof -
  have wf: "reg_wf (registry c)" using assms by (rule reg_inv_wf)
  have "t \<in> set (offered_tasks c) \<longleftrightarrow> t \<in> set (hm_values (tasks (registry c))) \<and>
      (t_status t = Unassigned \<or> t_assigned_to t = None)"
    by (simp add: offered_tasks_def unassigned_def)
  also have "\<dots> \<longleftrightarrow> task_of (registry c) (t_id t) = Some t \<and> (t_status t = Unassigned \<or> t_assigned_to t = None)"
    by (simp only: values_iff [OF wf])
  finally show ?thesis using assms by (auto simp: reg_inv_iff owner_ok_def)
qed

lemma distinct_offered: "reg_inv (registry c) \<Longrightarrow> distinct (map t_id (offered_tasks c))"
proof -
  assume inv: "reg_inv (registry c)"
  have "distinct (map t_id (unassigned (registry c)))"
    unfolding unassigned_def by (rule distinct_map_filter [OF distinct_ids [OF reg_inv_wf [OF inv]]])
  then show ?thesis
    using mset_offered_tasks [of c] by (metis mset_eq_imp_distinct_iff mset_map)
qed

lemma offered_agent_alive:
  assumes "mem_wf (membership c)" "a \<in> set (offered_agents c)"
  shows "\<exists>e. member (membership c) (aa_id a) = Some e \<and> e_health e = Alive \<and> a = allocation_agent (aa_id a, e)"
proof -
  obtain i e where ie: "(i, e) \<in> set (alive_agents (membership c))" "a = allocation_agent (i, e)"
    using assms(2) by (auto simp: offered_agents_def)
  then have "aa_id a = i" by (simp add: allocation_agent_def)
  with ie alive_agents_iff [OF assms(1), of i e] show ?thesis by auto
qed

section \<open>Applying decisions\<close>

text \<open>The outcome as a value of the decisions: a decision takes effect if it is the first for its task
  and the task is free.\<close>

definition free_task :: "TaskRegistry \<Rightarrow> TaskId \<Rightarrow> bool" where
  "free_task r k = (\<exists>t. task_of r k = Some t \<and> t_status t = Unassigned \<and> t_assigned_to t = None)"

fun effective :: "TaskRegistry \<Rightarrow> TaskId set \<Rightarrow> decisions \<Rightarrow> decisions" where
  "effective r seen [] = []"
| "effective r seen ((k, i) # ds) =
     (if k \<in> seen \<or> \<not> free_task r k then effective r (insert k seen) ds
      else (k, i) # effective r (insert k seen) ds)"

lemma assign_result:
  "assign r k i = (if free_task r k
     then (put_task k ((the (task_of r k))\<lparr>t_status := Assigned, t_assigned_to := Some i\<rparr>) r, Inr ())
     else (r, snd (assign r k i))) \<and> (\<not> free_task r k \<longrightarrow> is_err (snd (assign r k i)))"
  by (auto simp: assign_def task_mut_def free_task_def task_of_def split: option.splits)

lemma effective_frame:
  assumes "\<And>j. j \<notin> seen \<Longrightarrow> task_of r j = task_of r' j"
  shows "effective r seen ds = effective r' seen ds"
  using assms
proof (induction ds arbitrary: seen)
  case Nil
  then show ?case by simp
next
  case (Cons d ds)
  obtain k i where d: "d = (k, i)" by (cases d)
  have "effective r (insert k seen) ds = effective r' (insert k seen) ds"
    by (rule Cons.IH) (use Cons.prems in auto)
  moreover have "k \<notin> seen \<Longrightarrow> free_task r k = free_task r' k" using Cons.prems by (simp add: free_task_def)
  ultimately show ?case by (auto simp: d)
qed

lemma apply_decisions_spec:
  "apply_decisions ds seen r out = (r', out') \<Longrightarrow>
     ao_assignments out' = ao_assignments out @
       map (\<lambda>(k, i). \<lparr>ac_task_id = k, ac_agent_id = i\<rparr>) (effective r seen ds) \<and>
     ao_conflicting_assignments out' + of_nat (length (effective r seen ds)) =
       ao_conflicting_assignments out + of_nat (length ds) \<and>
     task_of r' j = (case map_of (effective r seen ds) j of
        None \<Rightarrow> task_of r j
      | Some i \<Rightarrow> map_option (\<lambda>t. t\<lparr>t_status := Assigned, t_assigned_to := Some i\<rparr>) (task_of r j))"
proof (induction ds arbitrary: seen r out)
  case Nil
  then show ?case by simp
next
  case (Cons d ds)
  obtain k i where d: "d = (k, i)" by (cases d)
  consider (dup) "k \<in> seen" | (bad) "k \<notin> seen" "\<not> free_task r k" | (ok) "k \<notin> seen" "free_task r k" by blast
  then show ?case
  proof cases
    case dup
    with Cons.prems have "apply_decisions ds seen r
        (out\<lparr>ao_conflicting_assignments := ao_conflicting_assignments out + 1\<rparr>) = (r', out')" by (simp add: d)
    from Cons.IH [OF this] dup show ?thesis by (simp add: d insert_absorb algebra_simps)
  next
    case bad
    then obtain e where "assign r k i = (r, Inl e)"
      using assign_result [of r k i] by (cases "assign r k i") (auto simp: is_err_def split: sum.splits)
    with Cons.prems bad have "apply_decisions ds (insert k seen) r
        (out\<lparr>ao_conflicting_assignments := ao_conflicting_assignments out + 1\<rparr>) = (r', out')" by (simp add: d)
    from Cons.IH [OF this] bad show ?thesis by (simp add: d algebra_simps)
  next
    case ok
    let ?t = "(the (task_of r k))\<lparr>t_status := Assigned, t_assigned_to := Some i\<rparr>"
    have a: "assign r k i = (put_task k ?t r, Inr ())" using assign_result [of r k i] ok by simp
    with Cons.prems ok have "apply_decisions ds (insert k seen) (put_task k ?t r)
        (out\<lparr>ao_assignments := ao_assignments out @ [\<lparr>ac_task_id = k, ac_agent_id = i\<rparr>]\<rparr>) = (r', out')"
      by (simp add: d)
    note IH = Cons.IH [OF this]
    have eff: "effective (put_task k ?t r) (insert k seen) ds = effective r (insert k seen) ds"
      by (rule effective_frame) auto
    have notin: "k \<in> S \<Longrightarrow> map_of (effective r S ds) k = None" for S
      by (induction r S ds rule: effective.induct) auto
    obtain t where "task_of r k = Some t" using ok by (auto simp: free_task_def)
    then show ?thesis
      using IH ok notin [of "insert k seen"] unfolding eff by (auto simp: d algebra_simps split: option.split)
  qed
qed

lemma effective_props:
  "distinct (map fst (effective r seen ds)) \<and> set (effective r seen ds) \<subseteq> set ds \<and>
   (\<forall>(k, i)\<in>set (effective r seen ds). free_task r k \<and> k \<notin> seen)"
  by (induction r seen ds rule: effective.induct) (fastforce split: if_splits)+

lemma effective_distinct:
  "distinct (map fst ds) \<Longrightarrow> fst ` set ds \<inter> seen = {} \<Longrightarrow> effective r seen ds = filter (\<lambda>(k, _). free_task r k) ds"
  by (induction r seen ds rule: effective.induct) auto

lemma rest_count: "n = a + b \<Longrightarrow> x + of_nat a = (of_nat n :: 'a::ring_1) \<Longrightarrow> x = of_nat b"
  by simp

lemma allocate_unassigned_cases:
  assumes "allocate_unassigned alloc st c = Some (c', out, st')"
  obtains ds r where "alloc st (offered_tasks c) (offered_agents c) (connectivity_context c) = Some (ds, st')"
    "apply_decisions ds {} (registry c) empty_outcome = (r, out)" "c' = c\<lparr>registry := r\<rparr>"
  using assms by (auto simp: allocate_unassigned_def split: option.splits prod.splits)

lemma apply_decisions_inv: "reg_inv r \<Longrightarrow> reg_inv (fst (apply_decisions ds seen r out))"
proof (induction ds seen r out rule: apply_decisions.induct)
  case (2 k i ds seen r out)
  obtain r' res where a: "assign r k i = (r', res)" by (cases "assign r k i")
  have "reg_inv r'" using assign_inv [OF 2(4), of k i] a by simp
  with 2 a show ?case by (cases res) auto
qed simp

definition changes :: "AllocationOutcome \<Rightarrow> decisions" where
  "changes out = map (\<lambda>a. (ac_task_id a, ac_agent_id a)) (ao_assignments out)"

lemma changes_effective:
  "apply_decisions ds {} r empty_outcome = (r', out) \<Longrightarrow> changes out = effective r {} ds"
  using apply_decisions_spec [of ds "{}" r empty_outcome r' out]
  by (simp add: changes_def empty_outcome_def comp_def case_prod_beta)

text \<open>For any allocator whatsoever.\<close>

lemma reallocation_spec:
  assumes "coord_inv c" "allocate_unassigned alloc st c = Some (c', out, st')"
  shows "coord_inv c'" "membership c' = membership c" "detector c' = detector c"
    "distinct (map fst (changes out))"
    "(k, i) \<in> set (changes out) \<Longrightarrow> free_task (registry c) k"
    "task_of (registry c') k = (case map_of (changes out) k of
        None \<Rightarrow> task_of (registry c) k
      | Some i \<Rightarrow> map_option (\<lambda>t. t\<lparr>t_status := Assigned, t_assigned_to := Some i\<rparr>) (task_of (registry c) k))"
proof -
  obtain ds r where ds: "apply_decisions ds {} (registry c) empty_outcome = (r, out)" "c' = c\<lparr>registry := r\<rparr>"
    using assms(2) by (rule allocate_unassigned_cases)
  note ch = changes_effective [OF ds(1)]
  have "reg_inv r" using apply_decisions_inv [of "registry c" ds "{}" empty_outcome] ds(1) assms(1)
    by (simp add: coord_inv_def)
  with assms(1) show "coord_inv c'" by (simp add: ds(2) coord_inv_def)
  show "membership c' = membership c" "detector c' = detector c" by (simp_all add: ds(2))
  show "distinct (map fst (changes out))" unfolding ch using effective_props by blast
  show "(k, i) \<in> set (changes out) \<Longrightarrow> free_task (registry c) k"
    unfolding ch using effective_props [of "registry c" "{}" ds] by blast
  show "task_of (registry c') k = (case map_of (changes out) k of
        None \<Rightarrow> task_of (registry c) k
      | Some i \<Rightarrow> map_option (\<lambda>t. t\<lparr>t_status := Assigned, t_assigned_to := Some i\<rparr>) (task_of (registry c) k))"
    unfolding ch using apply_decisions_spec [OF ds(1), of k] by (simp add: ds(2))
qed

section \<open>Clients of the allocator interface\<close>

context allocator
begin

lemma realloc_offered:
  assumes "inv st" "allocate_unassigned alloc st c = Some (c', out, st')"
  shows "inv st'" "fst ` set (changes out) \<subseteq> t_id ` set (offered_tasks c)"
proof -
  obtain ds r where ds: "alloc st (offered_tasks c) (offered_agents c) (connectivity_context c) = Some (ds, st')"
    "apply_decisions ds {} (registry c) empty_outcome = (r, out)"
    using assms(2) by (rule allocate_unassigned_cases)
  show "inv st'" by (rule keeps [OF assms(1) ds(1)])
  have "set (changes out) \<subseteq> set ds"
    unfolding changes_effective [OF ds(2)] using effective_props [of "registry c" "{}" ds] by blast
  with offered [OF assms(1) ds(1)] show "fst ` set (changes out) \<subseteq> t_id ` set (offered_tasks c)" by blast
qed

end

context exclusive_allocator
begin

text \<open>A decision is a conflict exactly when its task is not free.\<close>

lemma realloc_conflicts:
  assumes "inv st" "reg_inv (registry c)"
    and "allocate_unassigned alloc st c = Some (c', out, st')"
  shows "\<exists>ds. alloc st (offered_tasks c) (offered_agents c) (connectivity_context c) = Some (ds, st') \<and>
    changes out = filter (\<lambda>(k, _). free_task (registry c) k) ds \<and>
    ao_conflicting_assignments out = of_nat (length (filter (\<lambda>(k, _). \<not> free_task (registry c) k) ds))"
proof -
  obtain ds r where ds: "alloc st (offered_tasks c) (offered_agents c) (connectivity_context c) = Some (ds, st')"
    "apply_decisions ds {} (registry c) empty_outcome = (r, out)"
    using assms(3) by (rule allocate_unassigned_cases)
  have e: "effective (registry c) {} ds = filter (\<lambda>(k, _). free_task (registry c) k) ds"
    by (intro effective_distinct once [OF assms(1) distinct_offered [OF assms(2)] ds(1)]) simp
  have "length ds = length (filter (\<lambda>(k, _). free_task (registry c) k) ds) +
      length (filter (\<lambda>(k, _). \<not> free_task (registry c) k) ds)"
    using sum_length_filter_compl [of "\<lambda>x. free_task (registry c) (fst x)" ds] by (simp add: case_prod_unfold)
  moreover have "ao_conflicting_assignments out + of_nat (length (filter (\<lambda>(k, _). free_task (registry c) k) ds)) =
      (of_nat (length ds) :: u64)"
    using apply_decisions_spec [OF ds(2), THEN conjunct2, THEN conjunct1] unfolding e empty_outcome_def by simp
  ultimately have "ao_conflicting_assignments out = of_nat (length (filter (\<lambda>(k, _). \<not> free_task (registry c) k) ds))"
    by (rule rest_count)
  then show ?thesis using ds(1) changes_effective [OF ds(2)] e by (intro exI conjI) simp_all
qed

end

context eligible_allocator
begin

lemma realloc_eligible:
  assumes "inv st" "mem_wf (membership c)" "allocate_unassigned alloc st c = Some (c', out, st')"
    and "(k, i) \<in> set (changes out)"
  shows "\<exists>t\<in>set (offered_tasks c). \<exists>e. t_id t = k \<and> member (membership c) i = Some e \<and> e_health e = Alive \<and>
    eligible t (allocation_agent (i, e))"
proof -
  obtain ds r where ds: "alloc st (offered_tasks c) (offered_agents c) (connectivity_context c) = Some (ds, st')"
    "apply_decisions ds {} (registry c) empty_outcome = (r, out)"
    using assms(3) by (rule allocate_unassigned_cases)
  have "(k, i) \<in> set ds"
    using assms(4) unfolding changes_effective [OF ds(2)] using effective_props [of "registry c" "{}" ds] by blast
  from respects [OF assms(1) ds(1) this] obtain t a where
    "t \<in> set (offered_tasks c)" "a \<in> set (offered_agents c)" "t_id t = k" "aa_id a = i" "eligible t a" by blast
  with offered_agent_alive [OF assms(2)] show ?thesis by metis
qed

end

section \<open>Properties\<close>

text \<open>(C27) Reallocation is safe for every allocator. Whatever the allocator decides, the invariants hold
  afterwards, the reported changes name each task at most once, only tasks that were unassigned and
  ownerless change, they end up assigned to the reported agent, and every other task, in particular
  every owned one, is untouched.\<close>

theorem reallocation_safe:
  assumes "coord_inv c" "allocate_unassigned alloc st c = Some (c', out, st')"
  shows "coord_inv c' \<and> membership c' = membership c \<and>
    distinct (map ac_task_id (ao_assignments out)) \<and>
    (\<forall>k. task_of (registry c') k =
       (case map_of (map (\<lambda>a. (ac_task_id a, ac_agent_id a)) (ao_assignments out)) k of
          None \<Rightarrow> task_of (registry c) k
        | Some i \<Rightarrow> map_option (\<lambda>t. t\<lparr>t_status := Assigned, t_assigned_to := Some i\<rparr>) (task_of (registry c) k))) \<and>
    (\<forall>a\<in>set (ao_assignments out). \<exists>t. task_of (registry c) (ac_task_id a) = Some t \<and>
       t_status t = Unassigned \<and> t_assigned_to t = None)"
proof (intro conjI allI ballI)
  note r = reallocation_spec [OF assms]
  show "coord_inv c'" "membership c' = membership c" by (rule r)+
  show "distinct (map ac_task_id (ao_assignments out))" using r(4) by (simp add: changes_def comp_def)
  show "task_of (registry c') k =
       (case map_of (map (\<lambda>a. (ac_task_id a, ac_agent_id a)) (ao_assignments out)) k of
          None \<Rightarrow> task_of (registry c) k
        | Some i \<Rightarrow> map_option (\<lambda>t. t\<lparr>t_status := Assigned, t_assigned_to := Some i\<rparr>) (task_of (registry c) k))" for k
    using r(6) [of k] by (simp add: changes_def)
  show "\<exists>t. task_of (registry c) (ac_task_id a) = Some t \<and> t_status t = Unassigned \<and> t_assigned_to t = None"
    if "a \<in> set (ao_assignments out)" for a
    using r(5) [of "ac_task_id a" "ac_agent_id a"] that by (auto simp: changes_def free_task_def)
qed

definition free_coordinator :: Coordinator where
  "free_coordinator = coordinator_new [sample_agent ''a''] [sample_task ''t''] 3"

lemma free_coordinator_inv: "coord_inv free_coordinator"
  unfolding free_coordinator_def
  by (rule coord_inv_new) (simp add: sample_task_def owner_ok_def unfinished_def)

theorem reallocation_safe_witness:
  "\<exists>c' out. allocate_unassigned (\<lambda>st ts as conn. Some ([(''t'', ''a''), (''t'', ''b'')], st)) () free_coordinator
      = Some (c', out, ()) \<and> distinct (map ac_task_id (ao_assignments out))"
proof -
  let ?alloc = "\<lambda>st ts as conn. Some ([(''t'', ''a''), (''t'', ''b'')], st) :: (decisions \<times> unit) option"
  obtain c' out where a: "allocate_unassigned ?alloc () free_coordinator = Some (c', out, ())"
    by (cases "apply_decisions [(''t'', ''a''), (''t'', ''b'')] {} (registry free_coordinator) empty_outcome")
      (simp add: allocate_unassigned_def)
  with reallocation_safe [OF free_coordinator_inv a] show ?thesis by blast
qed

text \<open>(C28) Greedy reallocation is complete. Every task that is unassigned and ownerless and that some
  live agent may take (capabilities, role and battery) is assigned to such an agent, and exactly these
  tasks are reported as assigned; every other task of the registry stays as it is and none appears.
  The conflicts counted are the ownerless tasks in another status, completed or failed ones, that a
  live agent could take: the registry offers them again and the assignment is refused.\<close>

theorem greedy_reallocation_complete:
  assumes inv: "coord_inv c"
    and run: "allocate_unassigned (stateless (greedy_allocate_with_connectivity g)) () c = Some (c', out, ())"
  defines "takers \<equiv> \<lambda>t. {i. \<exists>e. member (membership c) i = Some e \<and> e_health e = Alive \<and> eligible t (allocation_agent (i, e))}"
  shows "(\<forall>k. case task_of (registry c) k of
       None \<Rightarrow> task_of (registry c') k = None
     | Some t \<Rightarrow> if t_status t = Unassigned \<and> t_assigned_to t = None \<and> takers t \<noteq> {}
         then \<exists>i\<in>takers t. task_of (registry c') k = Some (t\<lparr>t_status := Assigned, t_assigned_to := Some i\<rparr>)
         else task_of (registry c') k = Some t) \<and>
    ac_task_id ` set (ao_assignments out) =
      {k. \<exists>t. task_of (registry c) k = Some t \<and> t_status t = Unassigned \<and> t_assigned_to t = None \<and> takers t \<noteq> {}} \<and>
    ao_conflicting_assignments out = of_nat (card
      {k. \<exists>t. task_of (registry c) k = Some t \<and> t_status t \<noteq> Unassigned \<and> t_assigned_to t = None \<and> takers t \<noteq> {}})"
proof -
  have ri: "reg_inv (registry c)" and mw: "mem_wf (membership c)" using inv by (simp_all add: coord_inv_def)
  obtain ds where ds: "greedy_allocate_with_connectivity g (offered_tasks c) (offered_agents c) (connectivity_context c) = Some ds"
    and ch: "changes out = filter (\<lambda>(k, _). free_task (registry c) k) ds"
    and cf: "ao_conflicting_assignments out = of_nat (length (filter (\<lambda>(k, _). \<not> free_task (registry c) k) ds))"
    using greedy.realloc_conflicts [OF TrueI ri run] by (auto simp: stateless_Some)
  have takers: "takers t \<noteq> {} \<longleftrightarrow> (\<exists>a\<in>set (offered_agents c). eligible t a)" for t
    using offered_agent_alive [OF mw] alive_agents_iff [OF mw]
    by (fastforce simp: takers_def offered_agents_def)
  have decided: "k \<in> set (map fst ds) \<longleftrightarrow>
      (\<exists>t. task_of (registry c) k = Some t \<and> t_assigned_to t = None \<and> takers t \<noteq> {})" for k
  proof -
    have "k \<in> set (map fst ds) \<longleftrightarrow> (\<exists>t\<in>set (offered_tasks c). t_id t = k \<and> takers t \<noteq> {})"
      unfolding greedy_connectivity_spec [OF ds, THEN conjunct1] takers by auto
    then show ?thesis using ri by (auto simp: offered_task_iff [OF ri] reg_inv_iff)
  qed
  have "distinct (map fst ds)"
    unfolding greedy_connectivity_spec [OF ds, THEN conjunct1]
    by (intro distinct_map_filter by_priority_ids distinct_offered ri)
  then have refused: "distinct (map fst (filter (\<lambda>(k, _). \<not> free_task (registry c) k) ds))"
    by (rule distinct_map_filter)
  have "length (filter (\<lambda>(k, _). \<not> free_task (registry c) k) ds) =
      card (set (map fst (filter (\<lambda>(k, _). \<not> free_task (registry c) k) ds)))"
    using distinct_card [OF refused] by simp
  also have "set (map fst (filter (\<lambda>(k, _). \<not> free_task (registry c) k) ds)) = {k \<in> set (map fst ds). \<not> free_task (registry c) k}"
    by force
  also have "\<dots> = {k. \<exists>t. task_of (registry c) k = Some t \<and> t_status t \<noteq> Unassigned \<and> t_assigned_to t = None \<and> takers t \<noteq> {}}"
    by (auto simp: decided free_task_def simp del: set_map)
  finally have conflicts: "ao_conflicting_assignments out = of_nat (card
      {k. \<exists>t. task_of (registry c) k = Some t \<and> t_status t \<noteq> Unassigned \<and> t_assigned_to t = None \<and> takers t \<noteq> {}})"
    by (simp add: cf)
  have changed: "set (map fst (changes out)) =
      {k. \<exists>t. task_of (registry c) k = Some t \<and> t_status t = Unassigned \<and> t_assigned_to t = None \<and> takers t \<noteq> {}}"
  proof -
    have "set (map fst (changes out)) = {k \<in> set (map fst ds). free_task (registry c) k}" unfolding ch by force
    then show ?thesis by (auto simp: decided free_task_def simp del: set_map)
  qed
  have each: "case task_of (registry c) k of
       None \<Rightarrow> task_of (registry c') k = None
     | Some t \<Rightarrow> if t_status t = Unassigned \<and> t_assigned_to t = None \<and> takers t \<noteq> {}
         then \<exists>i\<in>takers t. task_of (registry c') k = Some (t\<lparr>t_status := Assigned, t_assigned_to := Some i\<rparr>)
         else task_of (registry c') k = Some t" for k
  proof (cases "map_of (changes out) k")
    case None
    then have "k \<notin> set (map fst (changes out))" by (simp add: map_of_eq_None_iff)
    with None reallocation_spec(6) [OF inv run, of k] show ?thesis
      unfolding changed by (auto split: option.splits)
  next
    case (Some i)
    then have i: "(k, i) \<in> set (changes out)" by (rule map_of_SomeD)
    then obtain u e where u: "u \<in> set (offered_tasks c)" "t_id u = k" "member (membership c) i = Some e"
      "e_health e = Alive" "eligible u (allocation_agent (i, e))"
      using greedy.realloc_eligible [OF TrueI mw run] by blast
    then have "task_of (registry c) k = Some u" "i \<in> takers u"
      using offered_task_iff [OF ri, of u] by (auto simp: takers_def)
    moreover have "k \<in> set (map fst (changes out))" using i by force
    ultimately show ?thesis
      using reallocation_spec(6) [OF inv run, of k] Some unfolding changed by auto
  qed
  show ?thesis
    using each changed conflicts by (simp add: changes_def image_image)
qed

definition plain_greedy :: GreedyAllocator where
  "plain_greedy = \<lparr>ga_comms_penalty_weight = f64_zero\<rparr>"

lemma free_coordinator_offers:
  "offered_tasks free_coordinator = [sample_task ''t'']"
  "offered_agents free_coordinator = [allocation_agent (''a'', entry_of_agent (sample_agent ''a''))]"
  "eligible (sample_task ''t'') (allocation_agent (''a'', entry_of_agent (sample_agent ''a'')))"
  by (simp_all add: offered_tasks_def offered_agents_def unassigned_def free_coordinator_def coordinator_new_def
      registry_new_def membership_new_def hm_collect_def hm_insert_def alive_agents_def entry_of_agent_def
      sample_agent_def sample_task_def eligible_def has_all_capabilities_def has_required_role_def
      allocation_agent_def val_def)

theorem greedy_reallocation_complete_witness:
  "\<exists>c' out. allocate_unassigned (stateless (greedy_allocate_with_connectivity plain_greedy)) () free_coordinator
      = Some (c', out, ()) \<and> ao_conflicting_assignments out = 0 \<and>
     (\<exists>i. task_of (registry c') ''t'' = Some (sample_task ''t''\<lparr>t_status := Assigned, t_assigned_to := Some i\<rparr>))"
proof -
  have g: "greedy_allocate_with_connectivity plain_greedy (offered_tasks free_coordinator)
      (offered_agents free_coordinator) conn = Some [(''t'', ''a'')]" for conn
    using free_coordinator_offers(3)
    by (simp add: free_coordinator_offers greedy_allocate_with_connectivity_def allocate_with_registry_def
        List.map_filter_def by_priority_def greedy_allocate_def plain_greedy_def greedy_choice_def
        best_greedy_agent_def Let_def) (simp add: sample_task_def allocation_agent_def)
  obtain c' out where r: "allocate_unassigned (stateless (greedy_allocate_with_connectivity plain_greedy)) () free_coordinator
      = Some (c', out, ())"
    by (cases "apply_decisions [(''t'', ''a'')] {} (registry free_coordinator) empty_outcome")
      (simp add: allocate_unassigned_def stateless_def g)
  have t: "task_of (registry free_coordinator) k = (if k = ''t'' then Some (sample_task ''t'') else None)" for k
    by (simp add: free_coordinator_def coordinator_new_def registry_new_def task_of_def hm_get_collect sample_task_def)
  have m: "member (membership free_coordinator) ''a'' = Some (entry_of_agent (sample_agent ''a''))"
    by (simp add: free_coordinator_def coordinator_new_def membership_new_def member_def hm_get_collect sample_agent_def)
  have al: "e_health (entry_of_agent (sample_agent ''a'')) = Alive" by (simp add: entry_of_agent_def sample_agent_def)
  have own: "t_assigned_to (sample_task ''t'') = None" "t_status (sample_task ''t'') = Unassigned"
    by (simp_all add: sample_task_def)
  have taker: "\<exists>i e. member (membership free_coordinator) i = Some e \<and> e_health e = Alive \<and>
      eligible (sample_task ''t'') (allocation_agent (i, e))"
    using m al free_coordinator_offers(3) by blast
  note gr = greedy_reallocation_complete [OF free_coordinator_inv r]
  have "\<exists>i. task_of (registry c') ''t'' = Some (sample_task ''t''\<lparr>t_status := Assigned, t_assigned_to := Some i\<rparr>)"
    using gr [THEN conjunct1, rule_format, of "''t''"] taker own by (auto simp: t split: if_splits)
  moreover have "ao_conflicting_assignments out = 0"
    using gr [THEN conjunct2, THEN conjunct2] own by (simp add: t)
  ultimately show ?thesis using r by blast
qed

text \<open>Finished tasks are offered again. A task that \<open>complete_assigned_task\<close> finished has no owner, so
  the registry still counts it as unassigned: the greedy allocator decides it again whenever some
  live agent could take it, the assignment is refused, and the refusal is counted as a conflict.\<close>

theorem completed_task_conflicts:
  assumes inv: "coord_inv c"
    and t: "task_of (registry c) k = Some t" "t_status t = Completed" "t_assigned_to t = None"
    and elig: "\<exists>a\<in>set (offered_agents c). eligible t a"
    and run: "allocate_unassigned (stateless (greedy_allocate_with_connectivity g)) () c = Some (c', out, ())"
    and small: "length (offered_tasks c) < 2 ^ 64"
  shows "ao_conflicting_assignments out \<noteq> 0 \<and> task_of (registry c') k = Some t"
proof -
  have ri: "reg_inv (registry c)" using inv by (simp add: coord_inv_def)
  obtain ds r where d: "stateless (greedy_allocate_with_connectivity g) () (offered_tasks c) (offered_agents c)
      (connectivity_context c) = Some (ds, ())" "apply_decisions ds {} (registry c) empty_outcome = (r, out)"
    using run by (rule allocate_unassigned_cases)
  then have ds: "greedy_allocate_with_connectivity g (offered_tasks c) (offered_agents c) (connectivity_context c) = Some ds"
    by (simp add: stateless_Some)
  have tid: "t_id t = k" using t(1) ri by (simp add: reg_inv_iff)
  have "t \<in> set (offered_tasks c)" using t tid offered_task_iff [OF ri, of t] by simp
  then have "k \<in> set (map fst ds)"
    unfolding greedy_connectivity_spec [OF ds, THEN conjunct1] using elig tid by auto
  moreover have nfree: "\<not> free_task (registry c) k" using t by (simp add: free_task_def)
  then have "k \<notin> fst ` set (effective (registry c) {} ds)"
    using effective_props [of "registry c" "{}" ds] by auto
  ultimately have ne: "set (effective (registry c) {} ds) \<noteq> set ds" by (metis list.set_map)
  have len: "length (effective r' S ds') \<le> length ds' \<and>
      (length (effective r' S ds') = length ds' \<longrightarrow> effective r' S ds' = ds')" for r' S ds'
    by (induction r' S ds' rule: effective.induct) auto
  have lt: "length (effective (registry c) {} ds) < length ds"
    using len [of "registry c" "{}" ds] ne by (metis order_le_less)
  have "length ds \<le> length (offered_tasks c)"
    by (rule greedy.at_most_offered [OF TrueI distinct_offered [OF ri] d(1)])
  with small have "length ds < 2 ^ 64" by simp
  moreover have "ao_conflicting_assignments out + of_nat (length (effective (registry c) {} ds)) = (of_nat (length ds) :: u64)"
    using apply_decisions_spec [OF d(2)] by (simp add: empty_outcome_def)
  ultimately have "ao_conflicting_assignments out \<noteq> 0"
    using lt by (auto simp: word_of_nat_eq_iff take_bit_nat_eq_self)
  moreover have "task_of (registry c') k = Some t"
  proof -
    have "map_of (changes out) k = None"
      unfolding map_of_eq_None_iff using reallocation_spec(5) [OF inv run] nfree by auto
    with reallocation_spec(6) [OF inv run, of k] t(1) show ?thesis by simp
  qed
  ultimately show ?thesis ..
qed


definition finished_task :: Task where
  "finished_task = sample_task ''t''\<lparr>t_status := Completed\<rparr>"

definition finished_coordinator :: Coordinator where
  "finished_coordinator = coordinator_new [sample_agent ''a''] [finished_task] 3"

lemma finished_coordinator_offers:
  "offered_tasks finished_coordinator = [finished_task]"
  "offered_agents finished_coordinator = [allocation_agent (''a'', entry_of_agent (sample_agent ''a''))]"
  "eligible finished_task (allocation_agent (''a'', entry_of_agent (sample_agent ''a'')))"
  by (simp_all add: offered_tasks_def offered_agents_def unassigned_def finished_coordinator_def finished_task_def
      coordinator_new_def registry_new_def membership_new_def hm_collect_def hm_insert_def alive_agents_def
      entry_of_agent_def sample_agent_def sample_task_def eligible_def has_all_capabilities_def
      has_required_role_def allocation_agent_def val_def)

theorem completed_task_conflicts_witness:
  "\<exists>c' out. allocate_unassigned (stateless (greedy_allocate_with_connectivity plain_greedy)) () finished_coordinator
      = Some (c', out, ()) \<and> ao_conflicting_assignments out \<noteq> 0 \<and> task_of (registry c') ''t'' = Some finished_task"
proof -
  have inv: "coord_inv finished_coordinator"
    unfolding finished_coordinator_def
    by (rule coord_inv_new) (simp add: finished_task_def sample_task_def owner_ok_def unfinished_def)
  have g: "greedy_allocate_with_connectivity plain_greedy (offered_tasks finished_coordinator)
      (offered_agents finished_coordinator) conn = Some [(''t'', ''a'')]" for conn
    using finished_coordinator_offers(3)
    by (simp add: finished_coordinator_offers greedy_allocate_with_connectivity_def allocate_with_registry_def
        List.map_filter_def by_priority_def greedy_allocate_def plain_greedy_def greedy_choice_def
        best_greedy_agent_def Let_def) (simp add: finished_task_def sample_task_def allocation_agent_def)
  obtain c' out where r: "allocate_unassigned (stateless (greedy_allocate_with_connectivity plain_greedy)) ()
      finished_coordinator = Some (c', out, ())"
    by (cases "apply_decisions [(''t'', ''a'')] {} (registry finished_coordinator) empty_outcome")
      (simp add: allocate_unassigned_def stateless_def g)
  have t: "task_of (registry finished_coordinator) ''t'' = Some finished_task"
    by (simp add: finished_coordinator_def finished_task_def coordinator_new_def registry_new_def task_of_def
        hm_get_collect sample_task_def)
  have st: "t_status finished_task = Completed" "t_assigned_to finished_task = None"
    by (simp_all add: finished_task_def sample_task_def)
  have el: "\<exists>a\<in>set (offered_agents finished_coordinator). eligible finished_task a"
    using finished_coordinator_offers(3) by (simp add: finished_coordinator_offers(2))
  have sm: "length (offered_tasks finished_coordinator) < 2 ^ 64"
    by (simp add: finished_coordinator_offers(1))
  show ?thesis using completed_task_conflicts [OF inv t st el r sm] r by blast
qed

end
