(* ===== verification/Autonomy.thy ===== *)
theory Autonomy
  imports SwarmProtocol
begin

text \<open>
  \<open>swarm-runtime/src/autonomy.rs\<close> and the lease records of \<open>swarm-runtime/src/node/runtime.rs\<close>: the
  failsafe policies of an agent, its configuration with the defaults, the report it makes when the
  ground control station returns, and leases counted in ticks. The instant a number of
  milliseconds after the epoch (\<open>chrono\<close>) is a parameter \<open>at_millis\<close>, \<open>None\<close> where it overflows and
  panics.
\<close>

section \<open>Policies\<close>

datatype GcsLostPolicy =
  ContinueMission (cm_max_gcs_lost_ticks: u64)
| GcsHoverInPlace (hp_max_gcs_lost_ticks: u64)
| GcsReturnToLaunch (after_ticks: u64)
| AbortImmediate

definition default_gcs_lost_policy :: GcsLostPolicy where
  "default_gcs_lost_policy = GcsHoverInPlace 30"

datatype MothershipLostPolicy =
  WaitAtStaging (ws_max_ticks: u64)
| ProceedAutonomously
| MothershipReturnToLaunch

definition default_mothership_lost_policy :: MothershipLostPolicy where
  "default_mothership_lost_policy = WaitAtStaging 50"

datatype NeighborLostPolicy =
  ReleaseLocksAndContinue
| WaitForReconnect (wr_max_ticks: u64)
| AbortMission

definition default_gcs_heartbeat_timeout :: u64 where
  "default_gcs_heartbeat_timeout = 10"

definition default_peer_heartbeat_timeout :: u64 where
  "default_peer_heartbeat_timeout = 15"

record AgentAutonomyConfig =
  gcs_lost_policy :: GcsLostPolicy
  mothership_lost_policy :: MothershipLostPolicy
  neighbor_lost_policy :: NeighborLostPolicy
  gcs_heartbeat_timeout_ticks :: u64
  peer_heartbeat_timeout_ticks :: u64

definition default_autonomy :: AgentAutonomyConfig where
  "default_autonomy = \<lparr>gcs_lost_policy = default_gcs_lost_policy,
     mothership_lost_policy = default_mothership_lost_policy,
     neighbor_lost_policy = ReleaseLocksAndContinue,
     gcs_heartbeat_timeout_ticks = default_gcs_heartbeat_timeout,
     peer_heartbeat_timeout_ticks = default_peer_heartbeat_timeout\<rparr>"

record 'dt StateReconcileReport =
  sr_agent_id :: AgentId
  gcs_lost_ticks :: u64
  policy_applied :: string
  completed_resources :: "string list"
  active_leases_at_reconnect :: "'dt Lease list"
  mission_state_at_reconnect :: "'dt AgentMissionState"

fun policy_name :: "GcsLostPolicy \<Rightarrow> string" where
  "policy_name (ContinueMission _) = ''continue_mission''"
| "policy_name (GcsHoverInPlace _) = ''hover_in_place''"
| "policy_name (GcsReturnToLaunch _) = ''return_to_launch''"
| "policy_name AbortImmediate = ''abort_immediate''"

definition gcs_timeout :: "AgentAutonomyConfig \<Rightarrow> u64" where
  "gcs_timeout a = (case gcs_lost_policy a of
       GcsReturnToLaunch after \<Rightarrow> after
     | AbortImmediate \<Rightarrow> 1
     | _ \<Rightarrow> gcs_heartbeat_timeout_ticks a)"

definition mothership_timeout :: "AgentAutonomyConfig \<Rightarrow> u64" where
  "mothership_timeout a = (case mothership_lost_policy a of
       WaitAtStaging max_ticks \<Rightarrow> max_ticks
     | MothershipReturnToLaunch \<Rightarrow> 1
     | ProceedAutonomously \<Rightarrow> - 1)"

section \<open>Leases in ticks\<close>

record ActiveLeaseRecord =
  al_lease_id :: LeaseId
  al_resource_id :: string
  al_resource_kind :: string
  granted_tick :: u64
  expiry_tick :: u64

definition is_valid_at_tick :: "ActiveLeaseRecord \<Rightarrow> u64 \<Rightarrow> bool" where
  "is_valid_at_tick l now = (now < expiry_tick l)"

definition as_lease :: "(int \<Rightarrow> 'dt option) \<Rightarrow> AgentId \<Rightarrow> u64 \<Rightarrow> ActiveLeaseRecord \<Rightarrow> 'dt Lease option" where
  "as_lease at_millis i tick_ms l =
     (case at_millis (sint (saturating_mul (granted_tick l) tick_ms)) of
        None \<Rightarrow> None
      | Some granted \<Rightarrow> (case at_millis (sint (saturating_mul (expiry_tick l) tick_ms)) of
          None \<Rightarrow> None
        | Some expires \<Rightarrow> Some \<lparr>l_lease_id = al_lease_id l, holder = i, l_resource_id = al_resource_id l,
            l_resource_kind = al_resource_kind l, granted_at = granted, expires_at = expires\<rparr>))"

end
