(* ===== verification/Node.thy ===== *)
theory Node
  imports Network Reallocation Autonomy
begin

text \<open>
  \<open>swarm-runtime/src/node/runtime.rs\<close>: the node of one agent. A tick sends heartbeats, empties the
  inbox, records heartbeats, runs the coordinator, merges gossip, reallocates, builds CBBA bundles,
  gossips, moves the agents and runs the autonomy state machines for peers, mothership and ground
  control station. One definition per stage, composed in the order of the source.

  Parameters are the transport (\<open>send\<close>, \<open>poll\<close>), the JSON encoder and decoder of \<open>RuntimeMessage\<close>
  (\<open>serde_json\<close>) and the clock of the leases; they are collected in \<open>NodeEnv\<close>. The result \<open>None\<close> of a
  tick stands for a panic of the allocator or the clock, or for an inbox that never empties.
\<close>

section \<open>State\<close>

record ('tr, 'e, 'dt) NodeEnv =
  env_send :: "RawMessage \<Rightarrow> 'tr \<Rightarrow> ('tr, 'e, unit) fallible"
  env_poll :: "'tr \<Rightarrow> ('tr, 'e, RawMessage option) fallible"
  to_vec :: "RuntimeMessage \<Rightarrow> byte list option"
  from_slice :: "byte list \<Rightarrow> RuntimeMessage option"
  at_millis :: "int \<Rightarrow> 'dt option"

definition to_payload :: "('tr, 'e, 'dt) NodeEnv \<Rightarrow> RuntimeMessage \<Rightarrow> byte list" where
  "to_payload env m = (case to_vec env m of Some bs \<Rightarrow> bs | None \<Rightarrow> [])"

record NodeConfig =
  tick_duration_ms :: u64
  enable_movement :: bool

definition default_node_config :: NodeConfig where
  "default_node_config = \<lparr>tick_duration_ms = 100, enable_movement = False\<rparr>"

record ('tr, 'dt) AgentNode =
  coordinator :: Coordinator
  an_transport :: 'tr
  own_id :: AgentId
  peer_ids :: "AgentId list"
  gossip_interval_ticks :: u64
  generation :: u64
  node_config :: NodeConfig
  ticks_since_last_gossip :: u64
  discarded_this_tick :: u64
  an_cbba :: "CbbaAllocator option"
  autonomy :: AgentAutonomyConfig
  mission_state :: "'dt AgentMissionState"
  gcs_id :: "AgentId option"
  last_gcs_heartbeat_tick :: "u64 option"
  continuing_lease_expiry_tick :: "u64 option"
  pre_gcs_loss_mission_state :: "'dt AgentMissionState option"
  last_peer_heartbeat_ticks :: "(AgentId, u64) hmap"
  gcs_lost_since_tick :: "u64 option"
  lost_peers_detected :: "AgentId set"
  active_leases :: "ActiveLeaseRecord list"
  mothership_id :: "AgentId option"
  last_mothership_heartbeat_tick :: "u64 option"
  pre_neighbor_wait_mission_state :: "'dt AgentMissionState option"
  waiting_for_neighbor_reconnect :: "(AgentId \<times> u64) option"

definition agent_node_new :: "AgentId \<Rightarrow> AgentId list \<Rightarrow> Coordinator \<Rightarrow> 'tr \<Rightarrow> ('tr, 'dt) AgentNode" where
  "agent_node_new i peers c tr = \<lparr>coordinator = c, an_transport = tr, own_id = i, peer_ids = peers,
     gossip_interval_ticks = 3, generation = 1, node_config = default_node_config,
     ticks_since_last_gossip = 0, discarded_this_tick = 0, an_cbba = None, autonomy = default_autonomy,
     mission_state = MsIdle, gcs_id = None, last_gcs_heartbeat_tick = None,
     continuing_lease_expiry_tick = None, pre_gcs_loss_mission_state = None,
     last_peer_heartbeat_ticks = [], gcs_lost_since_tick = None, lost_peers_detected = {},
     active_leases = [], mothership_id = None, last_mothership_heartbeat_tick = None,
     pre_neighbor_wait_mission_state = None, waiting_for_neighbor_reconnect = None\<rparr>"

record 'dt NodeTickOutput =
  nt_newly_failed :: "AgentId list"
  nt_failure_releases :: "FailureRelease list"
  nt_released_tasks :: "TaskId list"
  reassigned_tasks :: "AssignmentChange list"
  tasks_recovered :: "TaskId list"
  reassignment_count :: u64
  reallocation_latency_ticks :: "u64 option"
  nt_expired_task_ids :: "TaskId list"
  conflicting_assignments :: u64
  discarded_messages :: u64
  distance_travelled :: "(AgentId \<times> f64) list"
  gcs_lost_this_tick :: bool
  gcs_lost_policy_name :: "string option"
  gcs_reconnected_this_tick :: bool
  gcs_recovered_lost_ticks :: u64
  reconcile_report :: "'dt StateReconcileReport option"
  neighbors_lost_this_tick :: "AgentId list"
  lease_expired_in_gcs_loss :: "(string \<times> string) option"
  continuing_under_lease_this_tick :: "string option"
  mothership_lost_this_tick :: bool

section \<open>Sending\<close>

text \<open>The loop over the peers; the first error of the transport ends it.\<close>

fun send_all ::
  "(RawMessage \<Rightarrow> 'tr \<Rightarrow> ('tr, 'e, unit) fallible) \<Rightarrow> RawMessage \<Rightarrow> AgentId list \<Rightarrow> 'tr \<Rightarrow> ('tr, 'e, unit) fallible"
where
  "send_all send msg [] tr = (tr, Inr ())"
| "send_all send msg (p # peers) tr = (case send (msg\<lparr>rm_to := p\<rparr>) tr of
      (tr', Inl e) \<Rightarrow> (tr', Inl e)
    | (tr', Inr _) \<Rightarrow> send_all send msg peers tr')"

definition broadcast ::
  "('tr, 'e, 'dt) NodeEnv \<Rightarrow> string \<Rightarrow> RuntimeMessage \<Rightarrow> ('tr, 'dt) AgentNode \<Rightarrow>
   (('tr, 'dt) AgentNode, 'e, unit) fallible"
where
  "broadcast env placeholder m n =
     (case send_all (env_send env) \<lparr>rm_from = own_id n, rm_to = placeholder, payload = to_payload env m\<rparr>
         (peer_ids n) (an_transport n) of
        (tr, res) \<Rightarrow> (n\<lparr>an_transport := tr\<rparr>, res))"

definition send_heartbeats ::
  "('tr, 'e, 'dt) NodeEnv \<Rightarrow> u64 \<Rightarrow> ('tr, 'dt) AgentNode \<Rightarrow> (('tr, 'dt) AgentNode, 'e, unit) fallible"
where
  "send_heartbeats env now n = broadcast env ''placeholder'' (Heartbeat now (generation n)) n"

definition send_gossip ::
  "('tr, 'e, 'dt) NodeEnv \<Rightarrow> ('tr, 'dt) AgentNode \<Rightarrow> (('tr, 'dt) AgentNode, 'e, unit) fallible"
where
  "send_gossip env n = broadcast env ''placeholder'' (gossip_of (coordinator n)) n"

definition send_cbba_bids ::
  "('tr, 'e, 'dt) NodeEnv \<Rightarrow> ('tr, 'dt) AgentNode \<Rightarrow> (('tr, 'dt) AgentNode, 'e, unit) fallible"
where
  "send_cbba_bids env n = (case an_cbba n of
       None \<Rightarrow> (n, Inr ())
     | Some cb \<Rightarrow>
         (let bids = hm_collect (map (\<lambda>(k, a, v). (k, \<lparr>cb_agent_id = a, cb_value = v\<rparr>)) (cb_winning_bids cb))
          in broadcast env [] (Cbba (cb_current_round cb) bids (bundle_of cb (own_id n))) n))"

definition maybe_send_gossip ::
  "('tr, 'e, 'dt) NodeEnv \<Rightarrow> ('tr, 'dt) AgentNode \<Rightarrow> (('tr, 'dt) AgentNode, 'e, unit) fallible"
where
  "maybe_send_gossip env n =
     (let n1 = n\<lparr>ticks_since_last_gossip := ticks_since_last_gossip n + 1\<rparr>
      in if gossip_interval_ticks n1 \<le> ticks_since_last_gossip n1
         then (case send_gossip env n1 of
             (n2, Inl e) \<Rightarrow> (n2, Inl e)
           | (n2, Inr _) \<Rightarrow>
               (let n3 = n2\<lparr>ticks_since_last_gossip := 0\<rparr>
                in (if an_cbba n3 \<noteq> None then fst (send_cbba_bids env n3) else n3, Inr ())))
         else (n1, Inr ()))"

section \<open>Receiving\<close>

type_synonym heartbeat_list = "(AgentId \<times> u64 \<times> u64) list"

definition assign_bid :: "TaskRegistry \<Rightarrow> TaskId \<times> CbbaBid \<Rightarrow> TaskRegistry" where
  "assign_bid r p = (case p of (k, bid) \<Rightarrow>
     if list_ex (\<lambda>t. t_id t = k) (hm_values (tasks r)) then fst (assign r k (cb_agent_id bid)) else r)"

definition apply_cbba_message ::
  "AgentId \<Rightarrow> (TaskId, CbbaBid) hmap \<Rightarrow> ('tr, 'dt) AgentNode \<Rightarrow> ('tr, 'dt) AgentNode"
where
  "apply_cbba_message sender bids n = (case an_cbba n of
       None \<Rightarrow> n
     | Some cb \<Rightarrow>
         n\<lparr>an_cbba := Some (apply_remote_bids
              [(sender, hm_collect (map (\<lambda>(k, b). (k, cb_agent_id b, cb_value b)) bids))] cb),
           coordinator := set_registry (coordinator n) (foldl assign_bid (registry (coordinator n)) bids)\<rparr>)"

text \<open>The body of the loop over the received messages.\<close>

definition receive_message ::
  "('tr, 'e, 'dt) NodeEnv \<Rightarrow> ('tr, 'dt) AgentNode \<times> heartbeat_list \<times> RuntimeMessage list \<Rightarrow> RawMessage \<Rightarrow>
   ('tr, 'dt) AgentNode \<times> heartbeat_list \<times> RuntimeMessage list"
where
  "receive_message env s m = (case s of (n, hbs, gossips) \<Rightarrow>
     (case from_slice env (payload m) of
        Some (Heartbeat tk gen) \<Rightarrow> (n, hbs @ [(rm_from m, tk, gen)], gossips)
      | Some (Gossip asg gens) \<Rightarrow> (n, hbs, gossips @ [Gossip asg gens])
      | Some (Cbba rnd bids bundle) \<Rightarrow> (apply_cbba_message (rm_from m) bids n, hbs, gossips)
      | None \<Rightarrow> (n\<lparr>discarded_this_tick := discarded_this_tick n + 1\<rparr>, hbs, gossips)))"

definition receive_stage ::
  "('tr, 'e, 'dt) NodeEnv \<Rightarrow> ('tr, 'dt) AgentNode \<Rightarrow>
   (('tr, 'dt) AgentNode \<times> heartbeat_list \<times> RuntimeMessage list) option"
where
  "receive_stage env n = (case drain_inbox (env_poll env) (an_transport n) [] of
       None \<Rightarrow> None
     | Some (tr, all_msgs) \<Rightarrow>
         Some (foldl (receive_message env) (n\<lparr>an_transport := tr, discarded_this_tick := 0\<rparr>, [], []) all_msgs))"

definition record_heartbeats ::
  "u64 \<Rightarrow> heartbeat_list \<Rightarrow> ('tr, 'dt) AgentNode \<Rightarrow> ('tr, 'dt) AgentNode"
where
  "record_heartbeats now hbs n =
     (let c = coordinator n;
          m1 = record_heartbeat (own_id n) now (generation n) (membership c);
          m2 = foldl (\<lambda>m (i, tk, gen). record_heartbeat i tk gen m) m1 hbs
      in n\<lparr>coordinator := c\<lparr>membership := m2\<rparr>\<rparr>)"

definition heartbeat_senders :: "AgentId \<Rightarrow> heartbeat_list \<Rightarrow> AgentId list" where
  "heartbeat_senders i hbs =
     (let senders = map fst hbs in if i \<in> set senders then senders else senders @ [i])"

section \<open>Allocation\<close>

definition has_idle_agents :: "Coordinator \<Rightarrow> bool" where
  "has_idle_agents c = list_ex (\<lambda>(i, _). find (\<lambda>t. t_assigned_to t = Some i) (hm_values (tasks (registry c))) = None)
     (alive_agents (membership c))"

text \<open>The merge of gossip and the reallocation of a tick; the result carries the number of
  conflicting assignments and the assignments made.\<close>

definition allocation_stage ::
  "'st alloc_fun \<Rightarrow> 'st \<Rightarrow> RuntimeMessage list \<Rightarrow> CoordinatorOutput \<Rightarrow> ('tr, 'dt) AgentNode \<Rightarrow>
   (('tr, 'dt) AgentNode \<times> 'st \<times> u64 \<times> AssignmentChange list) option"
where
  "allocation_stage alloc st gossips out n =
     (let (c, n_conflicts) = (if gossips \<noteq> []
            then (case apply_gossip_messages (coordinator n) gossips of (c, merged, _) \<Rightarrow> (c, merged))
            else (coordinator n, 0));
          n1 = n\<lparr>coordinator := c\<rparr>
      in if (released_tasks out \<noteq> [] \<or> expired_task_ids out \<noteq> [] \<or> unassigned (registry c) \<noteq> []
             \<or> has_idle_agents c) \<and> an_cbba n1 = None
         then (case allocate_unassigned alloc st c of
             None \<Rightarrow> None
           | Some (c', outcome, st') \<Rightarrow> Some (n1\<lparr>coordinator := c'\<rparr>, st',
               n_conflicts + ao_conflicting_assignments outcome, ao_assignments outcome))
         else Some (n1, st, n_conflicts, []))"

definition recovered :: "TaskId list \<Rightarrow> AssignmentChange list \<Rightarrow> TaskId list" where
  "recovered released reassigned = sort (map ac_task_id (filter (\<lambda>a. ac_task_id a \<in> set released) reassigned))"

text \<open>The local building phase of CBBA.\<close>

definition assign_own :: "AgentId \<Rightarrow> TaskRegistry \<Rightarrow> TaskId \<times> AgentId \<Rightarrow> TaskRegistry" where
  "assign_own i r p = (case p of (k, a) \<Rightarrow> if a = i then fst (assign r k a) else r)"

definition cbba_stage :: "('tr, 'dt) AgentNode \<Rightarrow> ('tr, 'dt) AgentNode" where
  "cbba_stage n = (case an_cbba n of
       None \<Rightarrow> n
     | Some cb \<Rightarrow>
         (let c = coordinator n;
              cb1 = fst (check_convergence (cb\<lparr>cb_current_round := cb_current_round cb + 1\<rparr>));
              cb2 = build_bundles (map allocation_agent (alive_agents (membership c)))
                      (hm_values (tasks (registry c))) cb1
          in n\<lparr>an_cbba := Some cb2,
               coordinator := set_registry c (foldl (assign_own (own_id n)) (registry c) (current_assignments cb2))\<rparr>))"

section \<open>Movement\<close>

definition exhaust_agent :: "Coordinator \<Rightarrow> AgentId \<Rightarrow> Coordinator" where
  "exhaust_agent c i = c\<lparr>membership := mark_dead i (membership c),
     registry := fst (release_agent_tasks (registry c) i)\<rparr>"

definition movement_stage :: "('tr, 'dt) AgentNode \<Rightarrow> ('tr, 'dt) AgentNode \<times> (AgentId \<times> f64) list" where
  "movement_stage n =
     (if enable_movement (node_config n)
      then (let c = coordinator n in
            case apply_movement (registry c) (tick_duration_ms (node_config n)) (membership c) of
              (m, exhausted, distances) \<Rightarrow>
                (n\<lparr>coordinator := foldl exhaust_agent (c\<lparr>membership := m\<rparr>) exhausted\<rparr>, distances))
      else (n, []))"

section \<open>The autonomy state machines\<close>

text \<open>Ticks since an event, counted from tick zero if it never happened.\<close>

definition ticks_since :: "u64 \<Rightarrow> u64 option \<Rightarrow> u64" where
  "ticks_since now heard = (case heard of Some l \<Rightarrow> saturating_sub now l | None \<Rightarrow> now)"

subsection \<open>Peer heartbeats\<close>

definition note_peer :: "u64 \<Rightarrow> ('tr, 'dt) AgentNode \<Rightarrow> AgentId \<Rightarrow> ('tr, 'dt) AgentNode" where
  "note_peer now n i =
     (if gcs_id n \<noteq> Some i \<and> mothership_id n \<noteq> Some i \<and> i \<noteq> own_id n
      then (let n1 = n\<lparr>last_peer_heartbeat_ticks := hm_insert i now (last_peer_heartbeat_ticks n),
                      lost_peers_detected := lost_peers_detected n - {i}\<rparr>
            in if (case waiting_for_neighbor_reconnect n1 of Some (p, _) \<Rightarrow> p = i | None \<Rightarrow> False)
               then n1\<lparr>waiting_for_neighbor_reconnect := None, pre_neighbor_wait_mission_state := None,
                      mission_state := (case pre_neighbor_wait_mission_state n1 of Some st \<Rightarrow> st | None \<Rightarrow> MsIdle)\<rparr>
               else n1)
      else n)"

definition peer_stage :: "u64 \<Rightarrow> heartbeat_list \<Rightarrow> ('tr, 'dt) AgentNode \<Rightarrow> ('tr, 'dt) AgentNode" where
  "peer_stage now hbs n = foldl (note_peer now) n (map fst hbs)"

subsection \<open>Mothership\<close>

fun is_aborting :: "'dt AgentMissionState \<Rightarrow> bool" where
  "is_aborting (Aborting _) = True"
| "is_aborting _ = False"

definition mothership_stage ::
  "u64 \<Rightarrow> heartbeat_list \<Rightarrow> ('tr, 'dt) AgentNode \<Rightarrow> ('tr, 'dt) AgentNode \<times> bool"
where
  "mothership_stage now hbs n = (case mothership_id n of
       None \<Rightarrow> (n, False)
     | Some i \<Rightarrow>
         if i \<in> set (map fst hbs) then (n\<lparr>last_mothership_heartbeat_tick := Some now\<rparr>, False)
         else if mothership_timeout (autonomy n) \<le> ticks_since now (last_mothership_heartbeat_tick n)
         then (case mothership_lost_policy (autonomy n) of
             ProceedAutonomously \<Rightarrow> (n, False)
           | _ \<Rightarrow> if \<not> is_aborting (mission_state n)
                  then (n\<lparr>mission_state := Aborting ''mothership_lost''\<rparr>, True) else (n, False))
         else (n, False))"

subsection \<open>Ground control station\<close>

record 'dt GcsEvents =
  ge_lost :: bool
  ge_policy_name :: "string option"
  ge_reconnected :: bool
  ge_recovered_ticks :: u64
  ge_report :: "'dt StateReconcileReport option"
  ge_lease_expired :: "(string \<times> string) option"
  ge_continuing :: "string option"

definition no_gcs_events :: "'dt GcsEvents" where
  "no_gcs_events = \<lparr>ge_lost = False, ge_policy_name = None, ge_reconnected = False, ge_recovered_ticks = 0,
     ge_report = None, ge_lease_expired = None, ge_continuing = None\<rparr>"

fun is_autonomous :: "'dt AgentMissionState \<Rightarrow> bool" where
  "is_autonomous (GcsLost _ _) = True"
| "is_autonomous (ContinuingUnderLease _ _) = True"
| "is_autonomous _ = False"

definition gcs_reconnect ::
  "('tr, 'e, 'dt) NodeEnv \<Rightarrow> u64 \<Rightarrow> ('tr, 'dt) AgentNode \<Rightarrow> (('tr, 'dt) AgentNode \<times> 'dt GcsEvents) option"
where
  "gcs_reconnect env now n =
     (let n1 = n\<lparr>last_gcs_heartbeat_tick := Some now\<rparr> in
      if is_autonomous (mission_state n1)
      then (let since = (case gcs_lost_since_tick n1 of Some s \<Rightarrow> s | None \<Rightarrow> now);
                lost_ticks = saturating_sub now since
            in case those (map (as_lease (at_millis env) (own_id n1) (tick_duration_ms (node_config n1)))
                     (filter (\<lambda>l. is_valid_at_tick l now) (active_leases n1))) of
                 None \<Rightarrow> None
               | Some active \<Rightarrow>
                   Some (n1\<lparr>mission_state := (case pre_gcs_loss_mission_state n1 of Some st \<Rightarrow> st | None \<Rightarrow> MsIdle),
                           pre_gcs_loss_mission_state := None, gcs_lost_since_tick := None,
                           continuing_lease_expiry_tick := None\<rparr>,
                     no_gcs_events\<lparr>ge_reconnected := True, ge_recovered_ticks := lost_ticks,
                       ge_report := Some \<lparr>sr_agent_id = own_id n1, gcs_lost_ticks = lost_ticks,
                         policy_applied = policy_name (gcs_lost_policy (autonomy n1)), completed_resources = [],
                         active_leases_at_reconnect = active, mission_state_at_reconnect = mission_state n1\<rparr>\<rparr>))
      else Some (n1, no_gcs_events))"

text \<open>The entry into autonomy from any other state: under a valid lease, or lost.\<close>

definition remember_state :: "('tr, 'dt) AgentNode \<Rightarrow> ('tr, 'dt) AgentNode" where
  "remember_state n = (if pre_gcs_loss_mission_state n = None
     then n\<lparr>pre_gcs_loss_mission_state := Some (mission_state n)\<rparr> else n)"

definition gcs_enter_loss ::
  "('tr, 'e, 'dt) NodeEnv \<Rightarrow> u64 \<Rightarrow> ('tr, 'dt) AgentNode \<Rightarrow> (('tr, 'dt) AgentNode \<times> 'dt GcsEvents) option"
where
  "gcs_enter_loss env now n =
     (let policy_str = policy_name (gcs_lost_policy (autonomy n)) in
      case find (\<lambda>l. is_valid_at_tick l now) (active_leases n) of
        Some lease \<Rightarrow>
          (case as_lease (at_millis env) (own_id n) (tick_duration_ms (node_config n)) lease of
             None \<Rightarrow> None
           | Some l \<Rightarrow>
               Some ((remember_state (n\<lparr>continuing_lease_expiry_tick := Some (expiry_tick lease),
                        gcs_lost_since_tick := Some now\<rparr>))
                       \<lparr>mission_state := ContinuingUnderLease (al_lease_id lease) (expires_at l)\<rparr>,
                 no_gcs_events\<lparr>ge_continuing := Some (al_lease_id lease)\<rparr>))
      | None \<Rightarrow>
          Some ((remember_state (n\<lparr>gcs_lost_since_tick := Some now\<rparr>))\<lparr>mission_state := GcsLost now policy_str\<rparr>,
            no_gcs_events\<lparr>ge_lost := True, ge_policy_name := Some policy_str\<rparr>))"

definition gcs_silent ::
  "('tr, 'e, 'dt) NodeEnv \<Rightarrow> u64 \<Rightarrow> ('tr, 'dt) AgentNode \<Rightarrow> (('tr, 'dt) AgentNode \<times> 'dt GcsEvents) option"
where
  "gcs_silent env now n =
     (if gcs_timeout (autonomy n) \<le> ticks_since now (last_gcs_heartbeat_tick n)
      then (case mission_state n of
          GcsLost _ _ \<Rightarrow> Some (n, no_gcs_events)
        | ContinuingUnderLease lease_id _ \<Rightarrow>
            if (case continuing_lease_expiry_tick n of Some ex \<Rightarrow> now < ex | None \<Rightarrow> False)
            then Some (n, no_gcs_events)
            else (let policy_str = policy_name (gcs_lost_policy (autonomy n)) in
                  Some (n\<lparr>mission_state := GcsLost (case gcs_lost_since_tick n of Some s \<Rightarrow> s | None \<Rightarrow> now) policy_str,
                          continuing_lease_expiry_tick := None\<rparr>,
                    no_gcs_events\<lparr>ge_lease_expired := Some (lease_id, policy_str)\<rparr>))
        | _ \<Rightarrow> gcs_enter_loss env now n)
      else Some (n, no_gcs_events))"

definition gcs_stage ::
  "('tr, 'e, 'dt) NodeEnv \<Rightarrow> u64 \<Rightarrow> heartbeat_list \<Rightarrow> ('tr, 'dt) AgentNode \<Rightarrow>
   (('tr, 'dt) AgentNode \<times> 'dt GcsEvents) option"
where
  "gcs_stage env now hbs n = (case gcs_id n of
       None \<Rightarrow> Some (n, no_gcs_events)
     | Some i \<Rightarrow> if i \<in> set (map fst hbs) then gcs_reconnect env now n else gcs_silent env now n)"

subsection \<open>Neighbours\<close>

definition neighbor_wait_stage :: "u64 \<Rightarrow> ('tr, 'dt) AgentNode \<Rightarrow> ('tr, 'dt) AgentNode" where
  "neighbor_wait_stage now n = (case waiting_for_neighbor_reconnect n of
       Some (p, until_tick) \<Rightarrow>
         if until_tick \<le> now
         then n\<lparr>waiting_for_neighbor_reconnect := None, pre_neighbor_wait_mission_state := None,
                mission_state := Aborting (''neighbor_reconnect_timeout:'' @ p)\<rparr>
         else n
     | None \<Rightarrow> n)"

definition lose_neighbor :: "u64 \<Rightarrow> ('tr, 'dt) AgentNode \<Rightarrow> AgentId \<Rightarrow> ('tr, 'dt) AgentNode" where
  "lose_neighbor now n p = (case neighbor_lost_policy (autonomy n) of
       AbortMission \<Rightarrow> n\<lparr>mission_state := Aborting (''neighbor_lost:'' @ p)\<rparr>
     | ReleaseLocksAndContinue \<Rightarrow> n
     | WaitForReconnect max_ticks \<Rightarrow>
         if waiting_for_neighbor_reconnect n = None
         then n\<lparr>pre_neighbor_wait_mission_state := Some (mission_state n),
                waiting_for_neighbor_reconnect := Some (p, saturating_add now max_ticks),
                mission_state := WaitingForNeighborReconnect p now (saturating_add now max_ticks)\<rparr>
         else n)"

definition check_peer ::
  "u64 \<Rightarrow> ('tr, 'dt) AgentNode \<times> AgentId list \<Rightarrow> AgentId \<Rightarrow> ('tr, 'dt) AgentNode \<times> AgentId list"
where
  "check_peer now s p = (case s of (n, lost) \<Rightarrow>
     if peer_heartbeat_timeout_ticks (autonomy n) \<le> ticks_since now (hm_get (last_peer_heartbeat_ticks n) p)
        \<and> p \<notin> lost_peers_detected n
     then (lose_neighbor now (n\<lparr>lost_peers_detected := insert p (lost_peers_detected n)\<rparr>) p, lost @ [p])
     else (n, lost))"

definition peer_loss_stage :: "u64 \<Rightarrow> ('tr, 'dt) AgentNode \<Rightarrow> ('tr, 'dt) AgentNode \<times> AgentId list" where
  "peer_loss_stage now n = foldl (check_peer now) (n, []) (peer_ids n)"

section \<open>A tick\<close>

definition process_inbox_and_allocate ::
  "('tr, 'e, 'dt) NodeEnv \<Rightarrow> 'st alloc_fun \<Rightarrow> u64 \<Rightarrow> 'st \<Rightarrow> Task list \<Rightarrow> ('tr, 'dt) AgentNode \<Rightarrow>
   (('tr, 'dt) AgentNode \<times> 'st \<times> 'dt NodeTickOutput) option"
where
  "process_inbox_and_allocate env alloc now st injected n =
     (case receive_stage env n of None \<Rightarrow> None | Some (n1, hbs, gossips) \<Rightarrow>
       (let n2 = record_heartbeats now hbs n1;
            (c, out) = process_tick (heartbeat_senders (own_id n2) hbs) now injected (coordinator n2);
            n3 = n2\<lparr>coordinator := c\<rparr>
        in case allocation_stage alloc st gossips out n3 of None \<Rightarrow> None
           | Some (n4, st', n_conflicts, reassigned) \<Rightarrow>
       (let recov = recovered (released_tasks out) reassigned;
            n5 = cbba_stage n4;
            n6 = fst (maybe_send_gossip env n5);
            (n7, distances) = movement_stage n6;
            n8 = peer_stage now hbs n7;
            (n9, mothership_lost) = mothership_stage now hbs n8
        in case gcs_stage env now hbs n9 of None \<Rightarrow> None
           | Some (n10, ev) \<Rightarrow>
       (let n11 = neighbor_wait_stage now n10;
            (n12, lost) = peer_loss_stage now n11
        in Some (n12, st',
           \<lparr>nt_newly_failed = newly_failed out, nt_failure_releases = failure_releases out,
            nt_released_tasks = released_tasks out, reassigned_tasks = reassigned, tasks_recovered = recov,
            reassignment_count = of_nat (length recov),
            reallocation_latency_ticks = (if recov = [] then None else Some 0),
            nt_expired_task_ids = expired_task_ids out, conflicting_assignments = n_conflicts,
            discarded_messages = discarded_this_tick n12, distance_travelled = distances,
            gcs_lost_this_tick = ge_lost ev, gcs_lost_policy_name = ge_policy_name ev,
            gcs_reconnected_this_tick = ge_reconnected ev, gcs_recovered_lost_ticks = ge_recovered_ticks ev,
            reconcile_report = ge_report ev, neighbors_lost_this_tick = lost,
            lease_expired_in_gcs_loss = ge_lease_expired ev,
            continuing_under_lease_this_tick = ge_continuing ev,
            mothership_lost_this_tick = mothership_lost\<rparr>)))))"

definition tick ::
  "('tr, 'e, 'dt) NodeEnv \<Rightarrow> 'st alloc_fun \<Rightarrow> u64 \<Rightarrow> 'st \<Rightarrow> Task list \<Rightarrow> ('tr, 'dt) AgentNode \<Rightarrow>
   (('tr, 'dt) AgentNode \<times> 'st \<times> ('e + 'dt NodeTickOutput)) option"
where
  "tick env alloc now st injected n = (case send_heartbeats env now n of
       (n1, Inl e) \<Rightarrow> Some (n1, st, Inl e)
     | (n1, Inr _) \<Rightarrow> (case process_inbox_and_allocate env alloc now st injected n1 of
         None \<Rightarrow> None
       | Some (n2, st', out) \<Rightarrow> Some (n2, st', Inr out)))"

section \<open>The coordinator's invariant\<close>

text \<open>What the node relies on of the decoder: a decoded message is well formed, its tables having
  distinct keys.\<close>

definition decoder_wf :: "('tr, 'e, 'dt) NodeEnv \<Rightarrow> bool" where
  "decoder_wf env = (\<forall>bs m. from_slice env bs = Some m \<longrightarrow> message_wf m)"

lemma coord_inv_registry: "coord_inv c \<Longrightarrow> reg_inv (registry c)"
  by (simp add: coord_inv_def)

lemma coord_inv_set_registry: "coord_inv c \<Longrightarrow> reg_inv r \<Longrightarrow> coord_inv (set_registry c r)"
  by (simp add: coord_inv_def)

lemma coord_inv_membership: "coord_inv c \<Longrightarrow> mem_wf v \<Longrightarrow> coord_inv (c\<lparr>membership := v\<rparr>)"
  by (simp add: coord_inv_def)

lemma foldl_inv: "P s \<Longrightarrow> (\<And>s x. x \<in> set xs \<Longrightarrow> P s \<Longrightarrow> P (f s x)) \<Longrightarrow> P (foldl f s xs)"
  by (induction xs arbitrary: s) auto

lemma assign_bid_inv: "reg_inv r \<Longrightarrow> reg_inv (assign_bid r p)"
  by (auto simp: assign_bid_def keeps_inv split: prod.split)

lemma assign_own_inv: "reg_inv r \<Longrightarrow> reg_inv (assign_own i r p)"
  by (auto simp: assign_own_def keeps_inv split: prod.split)

lemma cbba_message_inv:
  "coord_inv (coordinator n) \<Longrightarrow> coord_inv (coordinator (apply_cbba_message i bids n))"
  by (auto simp: apply_cbba_message_def coord_inv_registry
      intro!: coord_inv_set_registry foldl_inv [where P = reg_inv] assign_bid_inv split: option.split)

lemma receive_message_inv:
  assumes "decoder_wf env" "coord_inv (coordinator (fst s))" "\<forall>m\<in>set (snd (snd s)). message_wf m"
  shows "coord_inv (coordinator (fst (receive_message env s m))) \<and>
    (\<forall>m\<in>set (snd (snd (receive_message env s m))). message_wf m)"
proof (cases "from_slice env (payload m)")
  case (Some r)
  then have "message_wf r" using assms(1) by (simp add: decoder_wf_def)
  then show ?thesis
    using assms(2,3) Some by (auto simp: receive_message_def cbba_message_inv split: prod.splits RuntimeMessage.split)
qed (use assms(2,3) in \<open>auto simp: receive_message_def split: prod.splits\<close>)

lemma receive_messages_inv:
  "decoder_wf env \<Longrightarrow> coord_inv (coordinator (fst s)) \<Longrightarrow> \<forall>m\<in>set (snd (snd s)). message_wf m \<Longrightarrow>
    coord_inv (coordinator (fst (foldl (receive_message env) s ms))) \<and>
    (\<forall>m\<in>set (snd (snd (foldl (receive_message env) s ms))). message_wf m)"
proof (induction ms arbitrary: s)
  case (Cons m ms)
  note step = receive_message_inv [OF Cons.prems, of m]
  show ?case unfolding foldl_Cons
    by (rule Cons.IH [OF Cons.prems(1) step [THEN conjunct1] step [THEN conjunct2]])
qed simp

lemma receive_stage_inv:
  assumes "decoder_wf env" "coord_inv (coordinator n)" "receive_stage env n = Some (n', hbs, gossips)"
  shows "coord_inv (coordinator n') \<and> (\<forall>m\<in>set gossips. message_wf m)"
proof -
  obtain tr msgs where d:
      "foldl (receive_message env) (n\<lparr>an_transport := tr, discarded_this_tick := 0\<rparr>, [], []) msgs = (n', hbs, gossips)"
    using assms(3) by (auto simp: receive_stage_def split: option.splits)
  then show ?thesis
    using receive_messages_inv [OF assms(1), of "(n\<lparr>an_transport := tr, discarded_this_tick := 0\<rparr>, [], [])" msgs] assms(2)
    by (simp add: d)
qed

lemma record_heartbeats_inv: "coord_inv (coordinator n) \<Longrightarrow> coord_inv (coordinator (record_heartbeats now hbs n))"
  by (auto simp: record_heartbeats_def Let_def coord_inv_def split: prod.split
      intro!: coord_inv_membership foldl_inv [where P = mem_wf])

lemma allocation_stage_inv:
  assumes "coord_inv (coordinator n)" "\<forall>m\<in>set gossips. message_wf m"
    and "allocation_stage alloc st gossips out n = Some (n', st', k, reassigned)"
  shows "coord_inv (coordinator n')"
proof -
  obtain c a b where g: "apply_gossip_messages (coordinator n) gossips = (c, a, b)"
    by (cases "apply_gossip_messages (coordinator n) gossips")
  have "coord_inv c" using gossip_messages_inv [OF assms(1,2)] by (simp add: g)
  then show ?thesis
    using assms(1,3) g
    by (auto simp: allocation_stage_def Let_def split: if_splits option.splits intro: reallocation_spec(1))
qed

lemma cbba_stage_inv: "coord_inv (coordinator n) \<Longrightarrow> coord_inv (coordinator (cbba_stage n))"
  by (auto simp: cbba_stage_def Let_def coord_inv_registry
      intro!: coord_inv_set_registry foldl_inv [where P = reg_inv] assign_own_inv split: option.split)

lemma exhaust_agent_inv: "coord_inv c \<Longrightarrow> coord_inv (exhaust_agent c i)"
  by (simp add: exhaust_agent_def coord_inv_def keeps_inv)

lemma movement_stage_inv: "coord_inv (coordinator n) \<Longrightarrow> coord_inv (coordinator (fst (movement_stage n)))"
  using mem_wf_apply_movement [of "membership (coordinator n)" "registry (coordinator n)" "tick_duration_ms (node_config n)"]
  by (auto simp: movement_stage_def Let_def coord_inv_def [of "coordinator n"] split: prod.split
      intro!: foldl_inv [where P = coord_inv] exhaust_agent_inv)
    (simp add: coord_inv_def)

section \<open>Frames\<close>

text \<open>The fields of the autonomy layer and the identity of the node. The stages before the autonomy
  machines leave all of them alone.\<close>

definition fsm :: "('tr, 'dt) AgentNode \<Rightarrow> _" where
  "fsm n = ((own_id n, peer_ids n, generation n, node_config n, autonomy n, active_leases n),
     (mission_state n, gcs_id n, last_gcs_heartbeat_tick n, continuing_lease_expiry_tick n,
      pre_gcs_loss_mission_state n, gcs_lost_since_tick n),
     (last_peer_heartbeat_ticks n, lost_peers_detected n, mothership_id n, last_mothership_heartbeat_tick n,
      pre_neighbor_wait_mission_state n, waiting_for_neighbor_reconnect n))"

lemma fsm_update [simp]:
  "fsm (n\<lparr>coordinator := c\<rparr>) = fsm n" "fsm (n\<lparr>an_transport := tr\<rparr>) = fsm n" "fsm (n\<lparr>an_cbba := cb\<rparr>) = fsm n"
  "fsm (n\<lparr>discarded_this_tick := d\<rparr>) = fsm n" "fsm (n\<lparr>ticks_since_last_gossip := k\<rparr>) = fsm n"
  by (simp_all add: fsm_def)

lemma fsm_broadcast [simp]: "fsm (fst (broadcast env p m n)) = fsm n"
  by (simp add: broadcast_def split: prod.split)

lemma fsm_maybe_send_gossip [simp]: "fsm (fst (maybe_send_gossip env n)) = fsm n"
proof -
  have g: "fsm n' = fsm m" if "send_gossip env m = (n', r)" for m n' r
    using fsm_broadcast [of env _ _ m] that by (metis fst_conv send_gossip_def)
  have "fsm (fst (send_cbba_bids env m)) = fsm m" for m
    by (simp add: send_cbba_bids_def Let_def split: option.split)
  with g show ?thesis
    by (auto simp: maybe_send_gossip_def Let_def split: prod.split sum.split dest!: g)
qed

lemma fsm_receive_message [simp]: "fsm (fst (receive_message env s m)) = fsm (fst s)"
  by (auto simp: receive_message_def apply_cbba_message_def split: prod.split option.split RuntimeMessage.split)

lemma fsm_receive_stage: "receive_stage env n = Some (n', hbs, gossips) \<Longrightarrow> fsm n' = fsm n"
proof -
  assume "receive_stage env n = Some (n', hbs, gossips)"
  then obtain tr msgs where d:
      "foldl (receive_message env) (n\<lparr>an_transport := tr, discarded_this_tick := 0\<rparr>, [], []) msgs = (n', hbs, gossips)"
    by (auto simp: receive_stage_def split: option.splits)
  have "fsm (fst (foldl (receive_message env) s msgs)) = fsm (fst s)" for s
    by (induction msgs arbitrary: s) simp_all
  from this [of "(n\<lparr>an_transport := tr, discarded_this_tick := 0\<rparr>, [], [])"] show ?thesis by (simp add: d)
qed

lemma fsm_record_heartbeats [simp]: "fsm (record_heartbeats now hbs n) = fsm n"
  by (simp add: record_heartbeats_def Let_def)

lemma fsm_allocation_stage:
  "allocation_stage alloc st gossips out n = Some (n', st', k, reassigned) \<Longrightarrow> fsm n' = fsm n"
  by (auto simp: allocation_stage_def Let_def split: if_splits option.splits prod.splits)

lemma fsm_cbba_stage [simp]: "fsm (cbba_stage n) = fsm n"
  by (simp add: cbba_stage_def Let_def split: option.split)

lemma fsm_movement_stage [simp]: "fsm (fst (movement_stage n)) = fsm n"
  by (simp add: movement_stage_def Let_def split: prod.split)

text \<open>The autonomy machines leave the coordinator alone.\<close>

lemma coordinator_note_peer [simp]: "coordinator (note_peer now n i) = coordinator n"
  by (simp add: note_peer_def Let_def)

lemma coordinator_peer_stage [simp]: "coordinator (peer_stage now hbs n) = coordinator n"
proof -
  have "coordinator (foldl (note_peer now) n is) = coordinator n" for "is"
    by (induction "is" arbitrary: n) simp_all
  then show ?thesis by (simp add: peer_stage_def)
qed

lemma coordinator_mothership_stage [simp]: "coordinator (fst (mothership_stage now hbs n)) = coordinator n"
  by (simp add: mothership_stage_def split: option.split MothershipLostPolicy.split)

lemma coordinator_remember [simp]: "coordinator (remember_state n) = coordinator n"
  by (simp add: remember_state_def)

lemma coordinator_enter_loss: "gcs_enter_loss env now n = Some (n', ev) \<Longrightarrow> coordinator n' = coordinator n"
  by (auto simp: gcs_enter_loss_def Let_def split: option.splits)

lemma coordinator_gcs_stage: "gcs_stage env now hbs n = Some (n', ev) \<Longrightarrow> coordinator n' = coordinator n"
  by (auto simp: gcs_stage_def gcs_reconnect_def gcs_silent_def Let_def coordinator_enter_loss
      split: option.splits if_splits AgentMissionState.splits)

lemma coordinator_neighbor_wait [simp]: "coordinator (neighbor_wait_stage now n) = coordinator n"
  by (simp add: neighbor_wait_stage_def split: option.split prod.split)

lemma coordinator_peer_loss [simp]: "coordinator (fst (peer_loss_stage now n)) = coordinator n"
proof -
  have c: "coordinator (fst (check_peer now s p)) = coordinator (fst s)" for s p
    by (cases s) (simp add: check_peer_def lose_neighbor_def split: NeighborLostPolicy.split)
  have "coordinator (fst (foldl (check_peer now) s ps)) = coordinator (fst s)" for s ps
    by (induction ps arbitrary: s) (simp_all add: c)
  from this [of "(n, [])"] show ?thesis by (simp add: peer_loss_stage_def)
qed

lemma maybe_send_gossip_coordinator [simp]: "coordinator (fst (maybe_send_gossip env n)) = coordinator n"
proof -
  have b: "coordinator (fst (broadcast env p m k)) = coordinator k" for p m and k
    by (simp add: broadcast_def split: prod.split)
  have g: "coordinator n' = coordinator m" if "send_gossip env m = (n', r)" for m n' r
    using b [of _ _ m] that by (metis fst_conv send_gossip_def)
  have "coordinator (fst (send_cbba_bids env m)) = coordinator m" for m
    by (simp add: send_cbba_bids_def Let_def b split: option.split)
  with g show ?thesis
    by (auto simp: maybe_send_gossip_def Let_def split: prod.split sum.split dest!: g)
qed

end
