(* ===== verification/NodeSafety.thy ===== *)
theory NodeSafety
  imports Node
begin

text \<open>
  Properties of the node of \<open>Node\<close>: a tick keeps the invariants of the coordinator and always returns
  on the in-memory transport; the monitor of the ground control station refines a machine with two
  states, linked and unlinked; the detection of lost neighbours; and what happens when two failsafe
  machines interleave.
\<close>

section \<open>One tick\<close>

text \<open>The stages of a tick that returns.\<close>

lemma process_inbox_stages:
  assumes "process_inbox_and_allocate env alloc now st injected n = Some (n', st', out)"
  obtains n1 hbs gossips c cout n4 k reassigned n9 ev where
    "receive_stage env n = Some (n1, hbs, gossips)"
    "process_tick (heartbeat_senders (own_id (record_heartbeats now hbs n1)) hbs) now injected
       (coordinator (record_heartbeats now hbs n1)) = (c, cout)"
    "allocation_stage alloc st gossips cout ((record_heartbeats now hbs n1)\<lparr>coordinator := c\<rparr>) = Some (n4, st', k, reassigned)"
    "n9 = fst (mothership_stage now hbs (peer_stage now hbs
       (fst (movement_stage (fst (maybe_send_gossip env (cbba_stage n4)))))))"
    "gcs_stage env now hbs n9 = Some (ev)"
    "n' = fst (peer_loss_stage now (neighbor_wait_stage now (fst ev)))"
    "gcs_reconnected_this_tick out = ge_reconnected (snd ev)"
    "gcs_recovered_lost_ticks out = ge_recovered_ticks (snd ev)"
    "gcs_lost_this_tick out = ge_lost (snd ev)"
    "continuing_under_lease_this_tick out = ge_continuing (snd ev)"
    "neighbors_lost_this_tick out = snd (peer_loss_stage now (neighbor_wait_stage now (fst ev)))"
proof -
  note def = assms [unfolded process_inbox_and_allocate_def Let_def case_prod_unfold]
  obtain n1 hbs gossips where r: "receive_stage env n = Some (n1, hbs, gossips)"
    using def by (cases "receive_stage env n") auto
  obtain c cout where t: "process_tick (heartbeat_senders (own_id (record_heartbeats now hbs n1)) hbs) now injected
       (coordinator (record_heartbeats now hbs n1)) = (c, cout)" by (rule prod.exhaust)
  obtain n4 st4 k reassigned where a:
    "allocation_stage alloc st gossips cout ((record_heartbeats now hbs n1)\<lparr>coordinator := c\<rparr>) = Some (n4, st4, k, reassigned)"
    using def by (cases "allocation_stage alloc st gossips cout ((record_heartbeats now hbs n1)\<lparr>coordinator := c\<rparr>)")
      (auto simp: r t)
  let ?n9 = "fst (mothership_stage now hbs (peer_stage now hbs
       (fst (movement_stage (fst (maybe_send_gossip env (cbba_stage n4)))))))"
  obtain n10 ev where g: "gcs_stage env now hbs ?n9 = Some (n10, ev)"
    using def by (cases "gcs_stage env now hbs ?n9") (auto simp: r t a)
  have "st4 = st'" using def by (simp add: r t a g)
  with a have a': "allocation_stage alloc st gossips cout ((record_heartbeats now hbs n1)\<lparr>coordinator := c\<rparr>)
      = Some (n4, st', k, reassigned)" by simp
  show thesis
    by (rule that [OF r t a' refl g]) (use def in \<open>auto simp: r t a g\<close>)
qed

lemma process_inbox_inv:
  assumes "decoder_wf env" "coord_inv (coordinator n)" "\<forall>t\<in>set injected. owner_ok t"
    and "process_inbox_and_allocate env alloc now st injected n = Some (n', st', out)"
  shows "coord_inv (coordinator n')"
proof (rule process_inbox_stages [OF assms(4)])
  fix n1 hbs gossips c cout n4 k reassigned n9 ev
  assume r: "receive_stage env n = Some (n1, hbs, gossips)"
    and t: "process_tick (heartbeat_senders (own_id (record_heartbeats now hbs n1)) hbs) now injected
       (coordinator (record_heartbeats now hbs n1)) = (c, cout)"
    and a: "allocation_stage alloc st gossips cout ((record_heartbeats now hbs n1)\<lparr>coordinator := c\<rparr>) = Some (n4, st', k, reassigned)"
    and n9: "n9 = fst (mothership_stage now hbs (peer_stage now hbs
       (fst (movement_stage (fst (maybe_send_gossip env (cbba_stage n4)))))))"
    and g: "gcs_stage env now hbs n9 = Some (ev)"
    and n': "n' = fst (peer_loss_stage now (neighbor_wait_stage now (fst ev)))"
  note ri = receive_stage_inv [OF assms(1,2) r]
  have "coord_inv c"
    using process_tick_inv [OF record_heartbeats_inv [OF conjunct1 [OF ri], of now hbs] assms(3)] t by (metis fst_conv)
  then have "coord_inv (coordinator n4)" using allocation_stage_inv [OF _ conjunct2 [OF ri] a] by simp
  then have "coord_inv (coordinator n9)" unfolding n9 by (simp add: movement_stage_inv cbba_stage_inv)
  then show ?thesis using g coordinator_gcs_stage [of env now hbs n9 "fst ev" "snd ev"] by (simp add: n')
qed

text \<open>(C5) The invariant of a node. Whatever arrives in the inbox and whatever the allocator decides, a tick
  keeps the invariants of membership and registry, as long as the decoder builds tables with
  distinct keys and the injected tasks are consistent.\<close>

theorem node_tick_invariant:
  assumes "decoder_wf env" "coord_inv (coordinator n)" "\<forall>t\<in>set injected. owner_ok t"
    and "process_inbox_and_allocate env alloc now st injected n = Some (n', st', out)"
  shows "coord_inv (coordinator n')"
  using assms by (rule process_inbox_inv)


section \<open>A tick returns\<close>

text \<open>What \<open>chrono\<close> documents of its calendar: dates reach beyond the year 262000, so the instants of the first
  8 * 10 ^ 15 milliseconds after the epoch exist; past its last date the addition panics. A lease is in range
  when its two ticks, in milliseconds, are below this bound.\<close>

definition calendar_limit :: nat where
  "calendar_limit = 8 * 10 ^ 15"

definition calendar_documented :: "('tr, 'e, 'dt) NodeEnv \<Rightarrow> bool" where
  "calendar_documented env \<longleftrightarrow> (\<forall>x. 0 \<le> x \<and> x \<le> int calendar_limit \<longrightarrow> at_millis env x \<noteq> None)"

definition lease_in_range :: "u64 \<Rightarrow> ActiveLeaseRecord \<Rightarrow> bool" where
  "lease_in_range ms l \<longleftrightarrow> unat (granted_tick l) * unat ms \<le> calendar_limit \<and> unat (expiry_tick l) * unat ms \<le> calendar_limit"

lemma millis_in_range:
  assumes "unat t * unat ms \<le> calendar_limit"
  shows "sint (saturating_mul t ms) = int (unat t * unat ms)"
proof -
  have small: "unat t * unat ms < 2 ^ 63" using assms by (simp add: calendar_limit_def)
  then have "saturating_mul t ms = of_nat (unat t * unat ms)" by (simp add: saturating_mul_def)
  then show ?thesis
    using small by (simp add: signed_of_nat signed_take_bit_int_eq_self del: of_nat_mult)
qed

lemma as_lease_total:
  assumes "calendar_documented env" "lease_in_range ms l"
  shows "as_lease (at_millis env) i ms l \<noteq> None"
proof -
  have "at_millis env (sint (saturating_mul (granted_tick l) ms)) \<noteq> None" "at_millis env (sint (saturating_mul (expiry_tick l) ms)) \<noteq> None"
    using assms unfolding lease_in_range_def calendar_documented_def
    by (simp_all only: millis_in_range of_nat_le_iff of_nat_0_le_iff simp_thms)
  then show ?thesis by (simp del: not_None_eq add: as_lease_def split: option.split)
qed

lemma those_total: "\<forall>x\<in>set xs. x \<noteq> None \<Longrightarrow> those xs \<noteq> None"
  by (induction xs) (auto split: option.split)

text \<open>The clock is asked about the leases of the node only, and no stage of a tick changes them.\<close>

definition lview :: "('tr, 'dt) AgentNode \<Rightarrow> NodeConfig \<times> ActiveLeaseRecord list" where
  "lview n = (node_config n, active_leases n)"

definition leases_in_range :: "('tr, 'dt) AgentNode \<Rightarrow> bool" where
  "leases_in_range n \<longleftrightarrow> (\<forall>l\<in>set (active_leases n). lease_in_range (tick_duration_ms (node_config n)) l)"

lemma fsm_lview: "fsm n = fsm m \<Longrightarrow> lview n = lview m"
  by (simp add: fsm_def lview_def)

lemma lview_range: "lview n = lview m \<Longrightarrow> leases_in_range n = leases_in_range m"
  by (simp add: lview_def leases_in_range_def)

lemma peer_stage_lview [simp]: "lview (peer_stage now hbs n) = lview n"
proof -
  have "lview (foldl (note_peer now) n ps) = lview n" for ps
    by (induction ps arbitrary: n) (simp_all add: note_peer_def lview_def Let_def)
  then show ?thesis by (simp add: peer_stage_def)
qed

lemma mothership_stage_lview [simp]: "lview (fst (mothership_stage now hbs n)) = lview n"
  by (simp add: mothership_stage_def lview_def split: option.split MothershipLostPolicy.split)

lemma peer_loss_lview [simp]: "lview (fst (peer_loss_stage now (neighbor_wait_stage now n))) = lview n"
proof -
  have fold: "lview (fst (foldl (check_peer now) s ps)) = lview (fst s)" for s ps
  proof (induction ps arbitrary: s)
    case (Cons p ps)
    have "lview (fst (check_peer now s p)) = lview (fst s)"
      by (cases s) (auto simp: check_peer_def lose_neighbor_def lview_def split: NeighborLostPolicy.split)
    then show ?case using Cons.IH by simp
  qed simp
  have loss: "lview (fst (peer_loss_stage now m)) = lview m" for m using fold [of "(m, [])"] by (simp add: peer_loss_stage_def)
  have "lview (neighbor_wait_stage now n) = lview n"
    by (simp add: neighbor_wait_stage_def lview_def split: option.split)
  then show ?thesis by (simp add: loss)
qed

lemma gcs_stage_lview: "gcs_stage env now hbs n = Some (n', ev) \<Longrightarrow> lview n' = lview n"
  by (auto simp: gcs_stage_def gcs_reconnect_def gcs_silent_def gcs_enter_loss_def remember_state_def lview_def Let_def
      split: option.splits if_splits AgentMissionState.splits)

lemma before_gcs_lview:
  assumes "receive_stage env n = Some (n1, hbs, gossips)"
    "allocation_stage alloc st gossips cout ((record_heartbeats now hbs n1)\<lparr>coordinator := c\<rparr>) = Some (n4, st', k, reassigned)"
  shows "lview (fst (mothership_stage now hbs (peer_stage now hbs
       (fst (movement_stage (fst (maybe_send_gossip env (cbba_stage n4)))))))) = lview n"
proof -
  have "fsm (fst (movement_stage (fst (maybe_send_gossip env (cbba_stage n4))))) = fsm n"
    using fsm_receive_stage [OF assms(1)] fsm_allocation_stage [OF assms(2)] by simp
  then show ?thesis unfolding mothership_stage_lview peer_stage_lview by (rule fsm_lview)
qed

lemma process_inbox_lview:
  assumes "process_inbox_and_allocate env alloc now st injected n = Some (n', st', out)"
  shows "lview n' = lview n"
proof (rule process_inbox_stages [OF assms])
  fix n1 hbs gossips c cout n4 k reassigned n9 ev
  assume r: "receive_stage env n = Some (n1, hbs, gossips)"
    and a: "allocation_stage alloc st gossips cout ((record_heartbeats now hbs n1)\<lparr>coordinator := c\<rparr>) = Some (n4, st', k, reassigned)"
    and n9: "n9 = fst (mothership_stage now hbs (peer_stage now hbs
       (fst (movement_stage (fst (maybe_send_gossip env (cbba_stage n4)))))))"
    and g: "gcs_stage env now hbs n9 = Some ev"
    and n': "n' = fst (peer_loss_stage now (neighbor_wait_stage now (fst ev)))"
  show ?thesis
    using before_gcs_lview [OF r a] gcs_stage_lview [of env now hbs n9 "fst ev" "snd ev"] g by (simp add: n' n9)
qed

lemma gcs_stage_total:
  assumes "calendar_documented env" "leases_in_range n"
  shows "gcs_stage env now hbs n \<noteq> None"
proof -
  have lease: "as_lease (at_millis env) i (tick_duration_ms (node_config n)) l \<noteq> None" if "l \<in> set (active_leases n)" for i l
    using as_lease_total [OF assms(1)] assms(2) that by (simp add: leases_in_range_def)
  have "those (map (as_lease (at_millis env) (own_id n) (tick_duration_ms (node_config n))) (filter P (active_leases n))) \<noteq> None" for P
    by (rule those_total) (use lease in auto)
  then have re: "gcs_reconnect env now n \<noteq> None"
    by (simp del: not_None_eq add: gcs_reconnect_def Let_def split: option.split)
  have found: "l \<in> set (active_leases n)" if "find P (active_leases n) = Some l" for P l
    using that by (metis find_Some_iff nth_mem)
  have "gcs_enter_loss env now n \<noteq> None"
  proof (cases "find (\<lambda>l. is_valid_at_tick l now) (active_leases n)")
    case None
    then show ?thesis by (simp add: gcs_enter_loss_def Let_def)
  next
    case (Some l)
    then obtain x where "as_lease (at_millis env) (own_id n) (tick_duration_ms (node_config n)) l = Some x"
      using lease [OF found [OF Some]] by (metis not_None_eq)
    with Some show ?thesis by (simp add: gcs_enter_loss_def Let_def)
  qed
  then have "gcs_silent env now n \<noteq> None"
    by (simp del: not_None_eq add: gcs_silent_def Let_def split: AgentMissionState.split)
  with re show ?thesis by (simp del: not_None_eq add: gcs_stage_def split: option.split)
qed

lemma allocation_stage_total:
  assumes "\<And>c. alloc st (offered_tasks c) (offered_agents c) (connectivity_context c) \<noteq> None"
  shows "allocation_stage alloc st gossips out n \<noteq> None"
proof -
  have "allocate_unassigned alloc st c \<noteq> None" for c
    using assms [of c] by (simp del: not_None_eq add: allocate_unassigned_def split: option.split prod.split)
  then show ?thesis by (simp del: not_None_eq add: allocation_stage_def Let_def split: option.split prod.split)
qed

text \<open>Only the allocator can stop a tick.\<close>

lemma process_inbox_total:
  assumes "transport (env_poll env) pending" "calendar_documented env" "leases_in_range n"
    "\<And>c. alloc st (offered_tasks c) (offered_agents c) (connectivity_context c) \<noteq> None"
  shows "\<exists>r. process_inbox_and_allocate env alloc now st injected n = Some r"
proof -
  obtain tr where "drain_inbox (env_poll env) (an_transport n) [] = Some (tr, pending (an_transport n))"
    using transport.drain_inbox_pending [OF assms(1), of "an_transport n" "[]"] by auto
  then obtain n1 hbs gossips where r: "receive_stage env n = Some (n1, hbs, gossips)"
    by (cases "foldl (receive_message env) (n\<lparr>an_transport := tr, discarded_this_tick := 0\<rparr>, [], [])
          (pending (an_transport n))") (auto simp: receive_stage_def)
  obtain c cout where t: "process_tick (heartbeat_senders (own_id (record_heartbeats now hbs n1)) hbs) now injected
       (coordinator (record_heartbeats now hbs n1)) = (c, cout)" by (rule prod.exhaust)
  obtain n4 st4 k reassigned where a:
    "allocation_stage alloc st gossips cout ((record_heartbeats now hbs n1)\<lparr>coordinator := c\<rparr>) = Some (n4, st4, k, reassigned)"
    using allocation_stage_total [of alloc st gossips cout "(record_heartbeats now hbs n1)\<lparr>coordinator := c\<rparr>"] assms(4)
    by auto
  let ?n9 = "fst (mothership_stage now hbs (peer_stage now hbs
       (fst (movement_stage (fst (maybe_send_gossip env (cbba_stage n4)))))))"
  have "leases_in_range ?n9" using lview_range [OF before_gcs_lview [OF r a]] assms(3) by simp
  then obtain n10 ev where g: "gcs_stage env now hbs ?n9 = Some (n10, ev)"
    using gcs_stage_total [OF assms(2), of ?n9 now hbs] by auto
  show ?thesis unfolding process_inbox_and_allocate_def by (simp add: Let_def case_prod_unfold r t a g)
qed

lemma agent_send_all_ok: "snd (send_all (agent_send g) msg peers tr) = Inr ()"
proof (induction peers arbitrary: tr)
  case (Cons p peers)
  obtain bus t where "tr = (bus, t)" by (cases tr)
  moreover obtain bus' where "network_send g (msg\<lparr>rm_to := p\<rparr>) bus = (bus', Inr ())"
    using network_send_frame(6) by (metis prod.exhaust_sel)
  ultimately show ?case using Cons by (simp add: agent_send_def)
qed simp

text \<open>The auction, the connectivity-aware allocator and CBBA never panic.\<close>

lemma auction_connectivity_total: "auction_allocate_with_connectivity u ts as conn \<noteq> None"
proof -
  have "auction_allocate u ts as \<noteq> None" using auction_spec [of u ts as] by auto
  moreover have "auction_allocate_with_adapter u ad ts as \<noteq> None" for ad using auction_adapter_spec [of u ad ts as] by auto
  ultimately show ?thesis
    by (simp del: not_None_eq add: auction_allocate_with_connectivity_def allocate_with_registry_def split: list.split)
qed

lemma relay_loop_total: "relay_loop base conn as ts \<noteq> None"
proof (induction ts)
  case (Cons t ts)
  obtain ds where "auction_allocate base [t] as = Some ds" using auction_spec [of base "[t]" as] by blast
  then show ?case using Cons by (auto simp: Let_def split: option.split list.split)
qed simp

lemma connectivity_aware_total: "connectivity_aware_allocate base ts as conn \<noteq> None"
  using auction_spec [of base "filter (\<lambda>t. t_required_role t \<noteq> Some Relay) ts" as] relay_loop_total
  by (auto simp: connectivity_aware_allocate_def Let_def split: option.split)

lemma cbba_alloc_total: "cbba_alloc s ts as conn \<noteq> None"
  by (simp add: cbba_alloc_def split: prod.split)

lemma allocators_total:
  "stateless (auction_allocate_with_connectivity u) su ts as conn \<noteq> None"
  "stateless (connectivity_aware_allocate u) su ts as conn \<noteq> None"
  "cbba_alloc cb ts as conn \<noteq> None"
  using auction_connectivity_total connectivity_aware_total cbba_alloc_total by (simp_all add: stateless_def del: not_None_eq)

lemma heartbeats_sent:
  assumes "env_send env = agent_send g" "send_heartbeats env now n = (n1, r)"
  shows "r = Inr () \<and> lview n1 = lview n"
proof -
  have "r = Inr ()"
    using assms(2) agent_send_all_ok [of g] by (simp add: assms(1) send_heartbeats_def broadcast_def case_prod_unfold)
  moreover have "fsm n1 = fsm n" using assms(2) fsm_broadcast [of env _ _ n] unfolding send_heartbeats_def by (metis fst_conv)
  ultimately show ?thesis by (intro conjI fsm_lview)
qed

lemma tick_result:
  assumes "env_send env = agent_send g" "tick env alloc now st injected n = Some (n', st', r)"
  shows "(\<exists>out. r = Inr out) \<and> lview n' = lview n"
proof -
  obtain n1 r1 where s: "send_heartbeats env now n = (n1, r1)" by (cases "send_heartbeats env now n")
  note h = heartbeats_sent [OF assms(1) s]
  obtain n2 st2 out where "process_inbox_and_allocate env alloc now st injected n1 = Some (n2, st2, out)" "n' = n2" "r = Inr out"
    using assms(2) h by (auto simp: tick_def s split: option.splits)
  then show ?thesis using h process_inbox_lview [of env alloc now st injected n1 n2 st2 out] by simp
qed

lemma tick_total:
  assumes "env_poll env = agent_poll" "env_send env = agent_send g" "calendar_documented env" "leases_in_range n"
    "\<And>c. alloc st (offered_tasks c) (offered_agents c) (connectivity_context c) \<noteq> None"
  shows "\<exists>n' st' out. tick env alloc now st injected n = Some (n', st', Inr out)"
proof -
  obtain n1 r where s: "send_heartbeats env now n = (n1, r)" by (cases "send_heartbeats env now n")
  note h = heartbeats_sent [OF assms(2) s]
  have "leases_in_range n1" using lview_range [OF conjunct2 [OF h]] assms(4) by simp
  moreover have "transport (env_poll env) agent_pending" using assms(1) agent.transport_axioms by simp
  ultimately obtain n2 st2 out where "process_inbox_and_allocate env alloc now st injected n1 = Some (n2, st2, out)"
    using process_inbox_total [of env agent_pending n1 alloc st now injected] assms(3,5) by auto
  then show ?thesis using h by (simp add: tick_def s)
qed


section \<open>The link to the ground control station\<close>

text \<open>The abstract machine: linked with a mission state, or unlinked since a tick with the mission state
  to return to. It leaves \<open>Linked\<close> when the station has been silent for the timeout, and returns when it is
  heard.\<close>

datatype 's gcs_link = Linked 's | Unlinked u64 's

fun gcs_spec :: "bool \<Rightarrow> bool \<Rightarrow> u64 \<Rightarrow> 's gcs_link \<Rightarrow> 's gcs_link" where
  "gcs_spec heard timed now (Linked s) = (if \<not> heard \<and> timed then Unlinked now s else Linked s)"
| "gcs_spec heard timed now (Unlinked since s) = (if heard then Linked s else Unlinked since s)"

definition gcs_ok :: "('tr, 'dt) AgentNode \<Rightarrow> bool" where
  "gcs_ok n = (if is_autonomous (mission_state n)
     then gcs_lost_since_tick n \<noteq> None \<and> pre_gcs_loss_mission_state n \<noteq> None \<and>
       \<not> is_autonomous (the (pre_gcs_loss_mission_state n))
     else pre_gcs_loss_mission_state n = None)"

definition gcs_abs :: "('tr, 'dt) AgentNode \<Rightarrow> 'dt AgentMissionState gcs_link" where
  "gcs_abs n = (if is_autonomous (mission_state n)
     then Unlinked (the (gcs_lost_since_tick n)) (the (pre_gcs_loss_mission_state n))
     else Linked (mission_state n))"

definition gcs_timed_out :: "u64 \<Rightarrow> ('tr, 'dt) AgentNode \<Rightarrow> bool" where
  "gcs_timed_out now n = (gcs_timeout (autonomy n) \<le> ticks_since now (last_gcs_heartbeat_tick n))"

text \<open>What a stage reports of a step of the abstract machine: the loss, under a lease or not, and the
  return with the length of the outage.\<close>

definition gcs_reports :: "u64 \<Rightarrow> 's gcs_link \<Rightarrow> 's gcs_link \<Rightarrow> bool \<Rightarrow> string option \<Rightarrow> bool \<Rightarrow> u64 \<Rightarrow> bool" where
  "gcs_reports now l l' lost continuing reconnected ticks =
     (case (l, l') of
        (Linked _, Linked _) \<Rightarrow> \<not> lost \<and> continuing = None \<and> \<not> reconnected
      | (Linked _, Unlinked _ _) \<Rightarrow> lost = (continuing = None) \<and> \<not> reconnected
      | (Unlinked since _, Linked _) \<Rightarrow> \<not> lost \<and> continuing = None \<and> reconnected \<and> ticks = saturating_sub now since
      | (Unlinked _ _, Unlinked _ _) \<Rightarrow> \<not> lost \<and> continuing = None \<and> \<not> reconnected)"

lemma enter_loss_refines:
  assumes "gcs_enter_loss env now n = Some (n', ev)" "\<not> is_autonomous (mission_state n)"
    "pre_gcs_loss_mission_state n = None"
  shows "gcs_ok n' \<and> gcs_abs n' = Unlinked now (mission_state n) \<and>
    ge_lost ev = (ge_continuing ev = None) \<and> \<not> ge_reconnected ev"
  using assms by (auto simp: gcs_enter_loss_def Let_def remember_state_def gcs_ok_def gcs_abs_def no_gcs_events_def
      split: option.splits)

lemma gcs_silent_refines:
  assumes "gcs_ok n" "gcs_silent env now n = Some (n', ev)"
  shows "gcs_ok n' \<and> gcs_abs n' = gcs_spec False (gcs_timed_out now n) now (gcs_abs n) \<and>
    gcs_reports now (gcs_abs n) (gcs_abs n') (ge_lost ev) (ge_continuing ev) (ge_reconnected ev) (ge_recovered_ticks ev)"
proof (cases "gcs_timed_out now n \<and> \<not> is_autonomous (mission_state n)")
  case True
  then have "gcs_enter_loss env now n = Some (n', ev)"
    using assms(2) by (cases "mission_state n") (auto simp: gcs_silent_def gcs_timed_out_def)
  with True enter_loss_refines [of env now n n' ev] assms(1) show ?thesis
    by (simp add: gcs_ok_def gcs_reports_def) (simp add: gcs_abs_def)
next
  case False
  then show ?thesis
    using assms by (cases "mission_state n")
      (auto simp: gcs_silent_def gcs_timed_out_def gcs_ok_def gcs_abs_def gcs_reports_def no_gcs_events_def Let_def
        split: if_splits)
qed

lemma gcs_reconnect_refines:
  assumes "gcs_ok n" "gcs_reconnect env now n = Some (n', ev)"
  shows "gcs_ok n' \<and> gcs_abs n' = gcs_spec True timed now (gcs_abs n) \<and>
    gcs_reports now (gcs_abs n) (gcs_abs n') (ge_lost ev) (ge_continuing ev) (ge_reconnected ev) (ge_recovered_ticks ev)"
  using assms
  by (auto simp: gcs_reconnect_def gcs_ok_def gcs_abs_def gcs_reports_def no_gcs_events_def Let_def
      split: if_splits option.splits)

lemma gcs_stage_refines:
  assumes "gcs_ok n" "gcs_stage env now hbs n = Some (n', ev)" "gcs_id n = Some i"
  shows "gcs_ok n' \<and> gcs_abs n' = gcs_spec (i \<in> set (map fst hbs)) (gcs_timed_out now n) now (gcs_abs n) \<and>
    gcs_reports now (gcs_abs n) (gcs_abs n') (ge_lost ev) (ge_continuing ev) (ge_reconnected ev) (ge_recovered_ticks ev)"
proof (cases "i \<in> set (map fst hbs)")
  case True
  then have "gcs_reconnect env now n = Some (n', ev)" using assms(2,3) by (simp add: gcs_stage_def)
  then show ?thesis unfolding eqTrueI [OF True] by (rule gcs_reconnect_refines [OF assms(1)])
next
  case False
  then have "gcs_silent env now n = Some (n', ev)" using assms(2,3) by (simp add: gcs_stage_def)
  then show ?thesis unfolding Eq_FalseI [OF False] by (rule gcs_silent_refines [OF assms(1)])
qed

text \<open>The heartbeats a node finds in its inbox.\<close>

definition heard_from :: "('tr, 'e, 'dt) NodeEnv \<Rightarrow> RawMessage list \<Rightarrow> AgentId set" where
  "heard_from env msgs = {rm_from m | m. m \<in> set msgs \<and> (\<exists>tk gen. from_slice env (payload m) = Some (Heartbeat tk gen))}"

lemma receive_heartbeats:
  "fst ` set (fst (snd (foldl (receive_message env) s msgs))) = fst ` set (fst (snd s)) \<union> heard_from env msgs"
proof (induction msgs arbitrary: s)
  case Nil
  then show ?case by (simp add: heard_from_def)
next
  case (Cons m msgs)
  have "fst ` set (fst (snd (receive_message env s m))) = fst ` set (fst (snd s)) \<union> heard_from env [m]"
    by (cases s) (auto simp: receive_message_def heard_from_def split: option.split RuntimeMessage.split)
  moreover have "heard_from env (m # msgs) = heard_from env [m] \<union> heard_from env msgs"
    by (auto simp: heard_from_def)
  ultimately show ?case using Cons [of "receive_message env s m"] by auto
qed

lemma receive_stage_heard:
  assumes "drain_inbox (env_poll env) (an_transport n) [] = Some (tr, msgs)" "receive_stage env n = Some (n1, hbs, gossips)"
  shows "set (map fst hbs) = heard_from env msgs"
  using assms receive_heartbeats [of env "(n\<lparr>an_transport := tr, discarded_this_tick := 0\<rparr>, [], [])" msgs]
  by (simp add: receive_stage_def)

text \<open>The fields the monitor reads, and a node on which no other failsafe acts: no mothership, not
  waiting for a neighbour, and neighbours lost without consequence.\<close>

definition gview :: "('tr, 'dt) AgentNode \<Rightarrow> _" where
  "gview n = (autonomy n, mission_state n, gcs_id n, last_gcs_heartbeat_tick n, pre_gcs_loss_mission_state n,
     gcs_lost_since_tick n)"

definition gcs_only :: "('tr, 'dt) AgentNode \<Rightarrow> bool" where
  "gcs_only n = (mothership_id n = None \<and> waiting_for_neighbor_reconnect n = None \<and>
     neighbor_lost_policy (autonomy n) = ReleaseLocksAndContinue)"

lemma gview_cong:
  "gview n = gview m \<Longrightarrow> gcs_ok n = gcs_ok m \<and> gcs_abs n = gcs_abs m \<and> gcs_timed_out now n = gcs_timed_out now m \<and>
     gcs_id n = gcs_id m"
  by (simp add: gview_def gcs_ok_def gcs_abs_def gcs_timed_out_def)

lemma fsm_gview: "fsm n = fsm m \<Longrightarrow> gview n = gview m \<and> gcs_only n = gcs_only m"
  by (simp add: fsm_def gview_def gcs_only_def)

lemma peer_stage_gview:
  "gcs_only n \<Longrightarrow> gview (peer_stage now hbs n) = gview n \<and> gcs_only (peer_stage now hbs n)"
proof -
  have "gcs_only n \<Longrightarrow> gview (foldl (note_peer now) n ps) = gview n \<and> gcs_only (foldl (note_peer now) n ps)" for ps
  proof (induction ps arbitrary: n)
    case (Cons p ps)
    have "gview (note_peer now n p) = gview n" "gcs_only (note_peer now n p)"
      using Cons.prems by (auto simp: note_peer_def gview_def gcs_only_def Let_def)
    with Cons.IH [of "note_peer now n p"] show ?case by simp
  qed simp
  then show "gcs_only n \<Longrightarrow> ?thesis" by (simp add: peer_stage_def)
qed

lemma gcs_stage_only: "gcs_stage env now hbs n = Some (n', ev) \<Longrightarrow> gcs_only n \<Longrightarrow> gcs_only n'"
  by (auto simp: gcs_stage_def gcs_reconnect_def gcs_silent_def gcs_enter_loss_def remember_state_def gcs_only_def Let_def
      split: option.splits if_splits AgentMissionState.splits)

lemma peer_loss_gview: "gcs_only n \<Longrightarrow> gview (fst (peer_loss_stage now n)) = gview n \<and> gcs_only (fst (peer_loss_stage now n))"
proof -
  have "gcs_only (fst s) \<Longrightarrow> gview (fst (foldl (check_peer now) s ps)) = gview (fst s) \<and>
      gcs_only (fst (foldl (check_peer now) s ps))" for s ps
  proof (induction ps arbitrary: s)
    case (Cons p ps)
    have "gview (fst (check_peer now s p)) = gview (fst s)" "gcs_only (fst (check_peer now s p))"
      using Cons.prems by (cases s; simp add: check_peer_def lose_neighbor_def gview_def gcs_only_def)+
    with Cons.IH [of "check_peer now s p"] show ?case by simp
  qed simp
  from this [of "(n, [])"] show "gcs_only n \<Longrightarrow> ?thesis" by (simp add: peer_loss_stage_def)
qed

lemma before_gcs_gview:
  assumes "receive_stage env n = Some (n1, hbs, gossips)" "gcs_only n"
    "allocation_stage alloc st gossips cout ((record_heartbeats now hbs n1)\<lparr>coordinator := c\<rparr>) = Some (n4, st', k, reassigned)"
  defines "n9 \<equiv> fst (mothership_stage now hbs (peer_stage now hbs
       (fst (movement_stage (fst (maybe_send_gossip env (cbba_stage n4)))))))"
  shows "gview n9 = gview n \<and> gcs_only n9"
proof -
  let ?n7 = "fst (movement_stage (fst (maybe_send_gossip env (cbba_stage n4))))"
  have "fsm ?n7 = fsm n"
    using fsm_receive_stage [OF assms(1)] fsm_allocation_stage [OF assms(3)] by simp
  with assms(2) have "gview ?n7 = gview n" "gcs_only ?n7" using fsm_gview by blast+
  with peer_stage_gview [of ?n7 now hbs] show ?thesis
    by (simp add: n9_def mothership_stage_def gcs_only_def)
qed

text \<open>One tick as a step of the machine, the timeout still measured on the field of the node; and what the tick makes of
  that field.\<close>

lemma gcs_stage_heard:
  assumes "gcs_stage env now hbs n = Some (n', ev)" "gcs_id n = Some i"
  shows "last_gcs_heartbeat_tick n' = (if i \<in> set (map fst hbs) then Some now else last_gcs_heartbeat_tick n) \<and>
    autonomy n' = autonomy n \<and> gcs_id n' = Some i"
  using assms
  by (auto simp: gcs_stage_def gcs_reconnect_def gcs_silent_def gcs_enter_loss_def remember_state_def Let_def
      split: option.splits if_splits AgentMissionState.splits)

lemma tick_gcs_step:
  assumes "gcs_ok n" "gcs_only n" "gcs_id n = Some i"
    and "drain_inbox (env_poll env) (an_transport n) [] = Some (tr, msgs)"
    and "process_inbox_and_allocate env alloc now st injected n = Some (n', st', out)"
  shows "gcs_ok n' \<and> gcs_only n' \<and> gcs_id n' = Some i \<and> autonomy n' = autonomy n \<and>
    last_gcs_heartbeat_tick n' = (if i \<in> heard_from env msgs then Some now else last_gcs_heartbeat_tick n) \<and>
    gcs_abs n' = gcs_spec (i \<in> heard_from env msgs) (gcs_timed_out now n) now (gcs_abs n) \<and>
    gcs_reports now (gcs_abs n) (gcs_abs n') (gcs_lost_this_tick out) (continuing_under_lease_this_tick out)
      (gcs_reconnected_this_tick out) (gcs_recovered_lost_ticks out)"
proof (rule process_inbox_stages [OF assms(5)])
  fix n1 hbs gossips c cout n4 k reassigned n9 ev
  assume r: "receive_stage env n = Some (n1, hbs, gossips)"
    and a: "allocation_stage alloc st gossips cout ((record_heartbeats now hbs n1)\<lparr>coordinator := c\<rparr>) = Some (n4, st', k, reassigned)"
    and n9: "n9 = fst (mothership_stage now hbs (peer_stage now hbs
       (fst (movement_stage (fst (maybe_send_gossip env (cbba_stage n4)))))))"
    and g: "gcs_stage env now hbs n9 = Some ev"
    and n': "n' = fst (peer_loss_stage now (neighbor_wait_stage now (fst ev)))"
    and o: "gcs_reconnected_this_tick out = ge_reconnected (snd ev)"
      "gcs_recovered_lost_ticks out = ge_recovered_ticks (snd ev)"
      "gcs_lost_this_tick out = ge_lost (snd ev)" "continuing_under_lease_this_tick out = ge_continuing (snd ev)"
  have v: "gview n9 = gview n" "gcs_only n9" using before_gcs_gview [OF r assms(2) a] by (simp_all add: n9)
  have g': "gcs_stage env now hbs n9 = Some (fst ev, snd ev)" using g by simp
  have id9: "gcs_ok n9" "gcs_id n9 = Some i" using gview_cong [OF v(1), of now] assms(1,3) by simp_all
  have only: "gcs_only (fst ev)" by (rule gcs_stage_only [OF g' v(2)])
  then have w: "neighbor_wait_stage now (fst ev) = fst ev" by (simp add: neighbor_wait_stage_def gcs_only_def)
  have v': "gview n' = gview (fst ev)" "gcs_only n'" using peer_loss_gview [OF only] by (simp_all add: n' w)
  have eq: "gcs_abs n9 = gcs_abs n" "gcs_timed_out now n9 = gcs_timed_out now n"
    "gcs_abs (fst ev) = gcs_abs n'" "gcs_ok (fst ev) = gcs_ok n'"
    using gview_cong [OF v(1), of now] gview_cong [OF v'(1), of now] by simp_all
  have "last_gcs_heartbeat_tick n' = (if i \<in> heard_from env msgs then Some now else last_gcs_heartbeat_tick n)"
    "autonomy n' = autonomy n" "gcs_id n' = Some i"
    using gcs_stage_heard [OF g' id9(2)] v(1) v'(1) receive_stage_heard [OF assms(4) r] by (simp_all add: gview_def)
  then show ?thesis unfolding o
    using gcs_stage_refines [OF id9(1) g' id9(2), unfolded eq receive_stage_heard [OF assms(4) r]] v'(2) by blast
qed

text \<open>The history of a link: for each tick, newest first, whether a heartbeat of the station was in the inbox. What the
  history alone makes of the link: the tick of the last heartbeat, how long the station has been silent, and the
  state of the link that began as linked with mission state \<open>m\<close>.\<close>

type_synonym gcs_history = "(u64 \<times> bool) list"

fun last_heard :: "gcs_history \<Rightarrow> nat" where
  "last_heard [] = 0"
| "last_heard ((t, heard) # h) = (if heard then unat t else last_heard h)"

fun link_after :: "nat \<Rightarrow> 's \<Rightarrow> gcs_history \<Rightarrow> 's gcs_link" where
  "link_after limit m [] = Linked m"
| "link_after limit m ((now, heard) # h) =
     gcs_spec heard (limit \<le> unat now - last_heard h) now (link_after limit m h)"

text \<open>The nodes a run of ticks reaches, with the history of the run: it starts before any heartbeat of the station, on
  a node on which no other failsafe acts, and between two ticks the transport may change in any way.\<close>

inductive monitored ::
  "('tr, 'e, 'dt) NodeEnv \<Rightarrow> 'st alloc_fun \<Rightarrow> AgentId \<Rightarrow> ('tr, 'dt) AgentNode \<Rightarrow> gcs_history \<Rightarrow> ('tr, 'dt) AgentNode \<Rightarrow> bool"
  for env alloc i n0
where
  monitored_start: "gcs_only n0 \<Longrightarrow> gcs_id n0 = Some i \<Longrightarrow> \<not> is_autonomous (mission_state n0) \<Longrightarrow>
    pre_gcs_loss_mission_state n0 = None \<Longrightarrow> last_gcs_heartbeat_tick n0 = None \<Longrightarrow> monitored env alloc i n0 [] n0"
| monitored_deliver: "monitored env alloc i n0 h n \<Longrightarrow> monitored env alloc i n0 h (n\<lparr>an_transport := tr\<rparr>)"
| monitored_tick: "monitored env alloc i n0 h n \<Longrightarrow> drain_inbox (env_poll env) (an_transport n) [] = Some (tr, msgs) \<Longrightarrow>
    process_inbox_and_allocate env alloc now st injected n = Some (n', st', out) \<Longrightarrow>
    monitored env alloc i n0 ((now, i \<in> heard_from env msgs) # h) n'"

definition gcs_limit :: "('tr, 'dt) AgentNode \<Rightarrow> nat" where
  "gcs_limit n = unat (case gcs_lost_policy (autonomy n) of
     GcsReturnToLaunch ticks \<Rightarrow> ticks | AbortImmediate \<Rightarrow> 1 | _ \<Rightarrow> gcs_heartbeat_timeout_ticks (autonomy n))"

lemma gcs_timed_out_iff:
  "gcs_timed_out now n \<longleftrightarrow> gcs_limit n \<le> unat now - (case last_gcs_heartbeat_tick n of None \<Rightarrow> 0 | Some t \<Rightarrow> unat t)"
  by (auto simp: gcs_timed_out_def gcs_limit_def gcs_timeout_def ticks_since_def word_le_nat_alt unat_saturating_sub
      split: option.split GcsLostPolicy.split)

lemma monitored_state:
  assumes "monitored env alloc i n0 h n"
  shows "gcs_ok n \<and> gcs_only n \<and> gcs_id n = Some i \<and> autonomy n = autonomy n0 \<and>
    (case last_gcs_heartbeat_tick n of None \<Rightarrow> 0 | Some t \<Rightarrow> unat t) = last_heard h \<and>
    gcs_abs n = link_after (gcs_limit n0) (mission_state n0) h"
  using assms
proof (induction rule: monitored.induct)
  case monitored_start
  then show ?case by (simp add: gcs_ok_def gcs_abs_def)
next
  case (monitored_deliver h n tr)
  have "gview (n\<lparr>an_transport := tr\<rparr>) = gview n" "gcs_only (n\<lparr>an_transport := tr\<rparr>) = gcs_only n"
    by (simp_all add: gview_def gcs_only_def)
  from gview_cong [OF this(1)] this monitored_deliver.IH show ?case by simp
next
  case (monitored_tick h n tr msgs now st injected n' st' out)
  then have ih: "gcs_ok n" "gcs_only n" "gcs_id n = Some i" "autonomy n = autonomy n0"
    "(case last_gcs_heartbeat_tick n of None \<Rightarrow> 0 | Some t \<Rightarrow> unat t) = last_heard h"
    "gcs_abs n = link_after (gcs_limit n0) (mission_state n0) h" by simp_all
  have limit: "gcs_limit n = gcs_limit n0" by (simp only: gcs_limit_def ih(4))
  show ?case
    using tick_gcs_step [OF ih(1,2,3) monitored_tick.hyps(2,3)] ih(4,5,6) limit by (simp add: gcs_timed_out_iff)
qed

text \<open>(C6) The monitor of the ground control station. On a node on which no other failsafe acts, the state of the link is
  a function of the history of heartbeats of the station alone: it is put aside at the first tick without a heartbeat at which
  the last one is the timeout of the policy or more away (counted from tick zero before the first heartbeat), with the
  mission state kept, and taken up again at the first tick with a heartbeat. The node remembers the
  tick of the last heartbeat, and a tick reports the loss, the flight under a lease, and the return with the
  length of the outage, exactly when the link changes so.\<close>

theorem tick_refines_gcs_machine:
  assumes "monitored env alloc i n0 h n"
    and "drain_inbox (env_poll env) (an_transport n) [] = Some (tr, msgs)"
    and "process_inbox_and_allocate env alloc now st injected n = Some (n', st', out)"
  defines "limit \<equiv> unat (case gcs_lost_policy (autonomy n0) of
      GcsReturnToLaunch ticks \<Rightarrow> ticks | AbortImmediate \<Rightarrow> 1 | _ \<Rightarrow> gcs_heartbeat_timeout_ticks (autonomy n0))"
    and "h' \<equiv> (now, i \<in> heard_from env msgs) # h"
  shows "gcs_abs n = link_after limit (mission_state n0) h \<and> gcs_abs n' = link_after limit (mission_state n0) h' \<and>
    (case last_gcs_heartbeat_tick n' of None \<Rightarrow> 0 | Some t \<Rightarrow> unat t) = last_heard h' \<and>
    gcs_reports now (link_after limit (mission_state n0) h) (link_after limit (mission_state n0) h') (gcs_lost_this_tick out)
      (continuing_under_lease_this_tick out) (gcs_reconnected_this_tick out) (gcs_recovered_lost_ticks out)"
proof -
  have limit: "limit = gcs_limit n0" by (simp add: limit_def gcs_limit_def)
  have "monitored env alloc i n0 h' n'" unfolding h'_def by (rule monitored_tick [OF assms(1,2,3)])
  note n = monitored_state [OF assms(1)] and n' = monitored_state [OF this]
  have "gcs_reports now (gcs_abs n) (gcs_abs n') (gcs_lost_this_tick out) (continuing_under_lease_this_tick out)
      (gcs_reconnected_this_tick out) (gcs_recovered_lost_ticks out)"
    using tick_gcs_step [OF _ _ _ assms(2,3)] n by blast
  then show ?thesis using n n' unfolding limit by simp
qed

section \<open>Neighbours\<close>

definition peer_silent :: "u64 \<Rightarrow> ('tr, 'dt) AgentNode \<Rightarrow> AgentId \<Rightarrow> bool" where
  "peer_silent now n p =
     (peer_heartbeat_timeout_ticks (autonomy n) \<le> ticks_since now (hm_get (last_peer_heartbeat_ticks n) p))"

text \<open>The mission state and the wait after the peers \<open>lost\<close> have been declared lost, in this order.\<close>

definition after_losses ::
  "u64 \<Rightarrow> AgentId list \<Rightarrow> ('tr, 'dt) AgentNode \<Rightarrow>
   'dt AgentMissionState \<times> (AgentId \<times> u64) option \<times> 'dt AgentMissionState option"
where
  "after_losses now lost n =
     (let same = (mission_state n, waiting_for_neighbor_reconnect n, pre_neighbor_wait_mission_state n)
      in if lost = [] then same else
      case neighbor_lost_policy (autonomy n) of
        ReleaseLocksAndContinue \<Rightarrow> same
      | AbortMission \<Rightarrow> (Aborting (''neighbor_lost:'' @ last lost), snd same)
      | WaitForReconnect k \<Rightarrow> if waiting_for_neighbor_reconnect n = None
          then (WaitingForNeighborReconnect (hd lost) now (saturating_add now k),
                Some (hd lost, saturating_add now k), Some (mission_state n))
          else same)"

lemma check_peer_keeps:
  assumes "check_peer now (n, lost) p = (n', lost')"
  shows "peer_silent now n' = peer_silent now n" "autonomy n' = autonomy n"
    "lost' = (if peer_silent now n p \<and> p \<notin> lost_peers_detected n then lost @ [p] else lost)"
    "lost_peers_detected n' = (if peer_silent now n p then insert p (lost_peers_detected n) else lost_peers_detected n)"
  using assms
  by (auto simp: check_peer_def peer_silent_def lose_neighbor_def fun_eq_iff split: if_splits NeighborLostPolicy.splits)

lemma check_peer_mission:
  assumes "check_peer now (n, lost) p = (n', lost')"
  shows "(mission_state n', waiting_for_neighbor_reconnect n', pre_neighbor_wait_mission_state n') =
    after_losses now (if peer_silent now n p \<and> p \<notin> lost_peers_detected n then [p] else []) n"
  using assms
  by (auto simp: check_peer_def peer_silent_def lose_neighbor_def after_losses_def Let_def
      split: if_splits NeighborLostPolicy.splits)

lemma after_losses_step:
  assumes "(mission_state n', waiting_for_neighbor_reconnect n', pre_neighbor_wait_mission_state n') = after_losses now l1 n"
    "autonomy n' = autonomy n"
  shows "after_losses now l2 n' = after_losses now (l1 @ l2) n"
  using assms
  by (auto simp: after_losses_def Let_def split: if_splits NeighborLostPolicy.splits)

lemma check_peers_spec:
  "foldl (check_peer now) (n, lost) ps = (n', lost') \<Longrightarrow>
   \<exists>new. lost' = lost @ new \<and> distinct new \<and>
     set new = {p \<in> set ps. peer_silent now n p \<and> p \<notin> lost_peers_detected n} \<and>
     lost_peers_detected n' = lost_peers_detected n \<union> set new \<and>
     (mission_state n', waiting_for_neighbor_reconnect n', pre_neighbor_wait_mission_state n') = after_losses now new n"
proof (induction ps arbitrary: n lost)
  case Nil
  then show ?case by (intro exI [of _ "[]"]) (auto simp: after_losses_def)
next
  case (Cons p ps)
  obtain n1 lost1 where c: "check_peer now (n, lost) p = (n1, lost1)" by (cases "check_peer now (n, lost) p")
  let ?new1 = "if peer_silent now n p \<and> p \<notin> lost_peers_detected n then [p] else []"
  note k = check_peer_keeps [OF c] and m = check_peer_mission [OF c]
  from Cons.prems have "foldl (check_peer now) (n1, lost1) ps = (n', lost')" by (simp add: c)
  from Cons.IH [OF this] obtain new where new: "lost' = lost1 @ new" "distinct new"
    "set new = {p \<in> set ps. peer_silent now n1 p \<and> p \<notin> lost_peers_detected n1}"
    "lost_peers_detected n' = lost_peers_detected n1 \<union> set new"
    "(mission_state n', waiting_for_neighbor_reconnect n', pre_neighbor_wait_mission_state n') = after_losses now new n1"
    by blast
  show ?case
  proof (intro exI [of _ "?new1 @ new"] conjI)
    show "(mission_state n', waiting_for_neighbor_reconnect n', pre_neighbor_wait_mission_state n') =
        after_losses now (?new1 @ new) n"
      using new(5) after_losses_step [OF m k(2), of new] by simp
  qed (use new(1-4) k in auto)
qed

text \<open>Lost neighbours. A tick reports as lost exactly the peers that have been silent for the timeout
  and were not reported before, each once; it remembers them; and the mission aborts, waits for
  the first of them or goes on as the policy says.\<close>

theorem peer_loss_exact:
  assumes "peer_loss_stage now n = (n', lost)"
  shows "distinct lost \<and>
    set lost = {p \<in> set (peer_ids n). peer_silent now n p \<and> p \<notin> lost_peers_detected n} \<and>
    lost_peers_detected n' = lost_peers_detected n \<union> set lost \<and>
    (mission_state n', waiting_for_neighbor_reconnect n', pre_neighbor_wait_mission_state n') = after_losses now lost n"
  using check_peers_spec [of now n "[]" "peer_ids n" n' lost] assms by (auto simp: peer_loss_stage_def)

section \<open>Interleaved failsafes\<close>

lemma note_peers_gcs:
  "gcs_id n = Some g \<Longrightarrow>
   hm_get (last_peer_heartbeat_ticks (foldl (note_peer now) n ps)) g = hm_get (last_peer_heartbeat_ticks n) g \<and>
   (g \<in> lost_peers_detected (foldl (note_peer now) n ps) \<longleftrightarrow> g \<in> lost_peers_detected n) \<and>
   autonomy (foldl (note_peer now) n ps) = autonomy n \<and> peer_ids (foldl (note_peer now) n ps) = peer_ids n"
proof (induction ps arbitrary: n)
  case (Cons p ps)
  have "gcs_id (note_peer now n p) = Some g"
    "hm_get (last_peer_heartbeat_ticks (note_peer now n p)) g = hm_get (last_peer_heartbeat_ticks n) g"
    "g \<in> lost_peers_detected (note_peer now n p) \<longleftrightarrow> g \<in> lost_peers_detected n"
    "autonomy (note_peer now n p) = autonomy n" "peer_ids (note_peer now n p) = peer_ids n"
    using Cons.prems by (auto simp: note_peer_def Let_def)
  with Cons.IH [of "note_peer now n p"] show ?case by simp
qed simp

text \<open>A ground control station that is also listed as a peer is declared lost at the peer timeout
  although its heartbeats arrive, because they are not recorded for the peer monitor.\<close>

theorem gcs_peer_declared_lost:
  assumes "gcs_id n = Some g" "g \<in> set (peer_ids n)" "hm_get (last_peer_heartbeat_ticks n) g = None"
    and "g \<notin> lost_peers_detected n" "peer_heartbeat_timeout_ticks (autonomy n) \<le> now"
  shows "g \<in> set (snd (peer_loss_stage now (peer_stage now hbs n)))"
proof -
  obtain n' lost where l: "peer_loss_stage now (peer_stage now hbs n) = (n', lost)"
    by (cases "peer_loss_stage now (peer_stage now hbs n)")
  obtain new where "lost = new" "set new = {p \<in> set (peer_ids (peer_stage now hbs n)).
      peer_silent now (peer_stage now hbs n) p \<and> p \<notin> lost_peers_detected (peer_stage now hbs n)}"
    using check_peers_spec [of now "peer_stage now hbs n" "[]" "peer_ids (peer_stage now hbs n)" n' lost] l
    by (auto simp: peer_loss_stage_def)
  then have "g \<in> set lost"
    using note_peers_gcs [OF assms(1), of now "map fst hbs"] assms(2-5)
    by (simp add: peer_stage_def peer_silent_def ticks_since_def)
  then show ?thesis by (simp add: l)
qed

definition link_fields :: "('tr, 'dt) AgentNode \<Rightarrow> _" where
  "link_fields n = (autonomy n, gcs_id n, last_gcs_heartbeat_tick n, pre_gcs_loss_mission_state n,
     gcs_lost_since_tick n, active_leases n)"

lemma peer_loss_link_fields: "link_fields (fst (peer_loss_stage now n)) = link_fields n"
proof -
  have c: "link_fields (fst (check_peer now s p)) = link_fields (fst s)" for s p
    by (cases s) (simp add: check_peer_def lose_neighbor_def link_fields_def split: NeighborLostPolicy.split)
  have "link_fields (fst (foldl (check_peer now) s ps)) = link_fields (fst s)" for s ps
    by (induction ps arbitrary: s) (simp_all add: c)
  from this [of "(n, [])"] show ?thesis by (simp add: peer_loss_stage_def)
qed

text \<open>Without leases a silent station takes any other state to \<open>GcsLost\<close>, and its return takes
  \<open>GcsLost\<close> to the state put aside.\<close>

lemma silent_to_lost:
  assumes "gcs_id n = Some g" "g \<notin> set (map fst hbs)" "gcs_timed_out now n" "\<not> is_autonomous (mission_state n)"
    "active_leases n = []"
  shows "\<exists>ev. gcs_stage env now hbs n =
    Some ((remember_state (n\<lparr>gcs_lost_since_tick := Some now\<rparr>))
      \<lparr>mission_state := GcsLost now (policy_name (gcs_lost_policy (autonomy n)))\<rparr>, ev)"
  using assms by (cases "mission_state n")
    (auto simp: gcs_stage_def gcs_silent_def gcs_timed_out_def gcs_enter_loss_def Let_def)

lemma heard_restores:
  assumes "gcs_id n = Some g" "g \<in> set (map fst hbs)" "is_autonomous (mission_state n)" "active_leases n = []"
    "pre_gcs_loss_mission_state n = Some st"
  shows "\<exists>n' ev. gcs_stage env now hbs n = Some (n', ev) \<and> mission_state n' = st"
  using assms by (auto simp: gcs_stage_def gcs_reconnect_def Let_def)

text \<open>A forgotten abort. While the ground control station is lost, the abort a lost neighbour causes is
  overwritten at the next silent tick, and the return of the station resumes the mission that was
  running before the loss.\<close>

theorem abort_forgotten:
  assumes n: "gcs_id n = Some g" "\<not> is_autonomous (mission_state n)" "pre_gcs_loss_mission_state n = None"
      "active_leases n = []" "neighbor_lost_policy (autonomy n) = AbortMission"
    and p: "p \<in> set (peer_ids n)" "peer_silent t1 n p" "p \<notin> lost_peers_detected n"
    and silent: "gcs_timed_out t1 n" "gcs_timed_out t2 n" "g \<notin> set (map fst hbs1)" "g \<notin> set (map fst hbs2)"
    and heard: "g \<in> set (map fst hbs3)"
  shows "\<exists>n1 ev1 n2 ev2 n3 ev3.
    gcs_stage env t1 hbs1 n = Some (n1, ev1) \<and> is_aborting (mission_state (fst (peer_loss_stage t1 n1))) \<and>
    gcs_stage env t2 hbs2 (fst (peer_loss_stage t1 n1)) = Some (n2, ev2) \<and> is_autonomous (mission_state n2) \<and>
    gcs_stage env t3 hbs3 n2 = Some (n3, ev3) \<and> mission_state n3 = mission_state n"
proof -
  let ?pol = "policy_name (gcs_lost_policy (autonomy n))"
  let ?n1 = "(remember_state (n\<lparr>gcs_lost_since_tick := Some t1\<rparr>))\<lparr>mission_state := GcsLost t1 ?pol\<rparr>"
  obtain ev1 where e1: "gcs_stage env t1 hbs1 n = Some (?n1, ev1)"
    using silent_to_lost [OF n(1) silent(3,1) n(2,4), of env] by blast
  obtain m lost where l: "peer_loss_stage t1 ?n1 = (m, lost)" by (cases "peer_loss_stage t1 ?n1")
  have f1: "link_fields ?n1 = (autonomy n, Some g, last_gcs_heartbeat_tick n, Some (mission_state n), Some t1, [])"
    using n by (simp add: link_fields_def remember_state_def)
  then have fm: "link_fields m = (autonomy n, Some g, last_gcs_heartbeat_tick n, Some (mission_state n), Some t1, [])"
    using peer_loss_link_fields [of t1 ?n1] by (simp add: l)
  obtain new where "lost = new" and new: "set new = {q \<in> set (peer_ids ?n1). peer_silent t1 ?n1 q \<and> q \<notin> lost_peers_detected ?n1}"
    "(mission_state m, waiting_for_neighbor_reconnect m, pre_neighbor_wait_mission_state m) = after_losses t1 new ?n1"
    using check_peers_spec [of t1 ?n1 "[]" "peer_ids ?n1" m lost] l by (auto simp: peer_loss_stage_def)
  have "p \<in> set new" using new(1) p n(3) by (simp add: remember_state_def peer_silent_def)
  then have "new \<noteq> []" by auto
  then have abort: "is_aborting (mission_state m)" "\<not> is_autonomous (mission_state m)"
    using new(2) n(3,5) by (auto simp: after_losses_def Let_def remember_state_def)
  let ?n2 = "(remember_state (m\<lparr>gcs_lost_since_tick := Some t2\<rparr>))\<lparr>mission_state := GcsLost t2 (policy_name (gcs_lost_policy (autonomy m)))\<rparr>"
  have "gcs_timed_out t2 m" using silent(2) fm by (simp add: gcs_timed_out_def link_fields_def)
  then obtain ev2 where e2: "gcs_stage env t2 hbs2 m = Some (?n2, ev2)"
    using silent_to_lost [of m g hbs2 t2 env] fm silent(4) abort(2) by (auto simp: link_fields_def)
  have "gcs_id ?n2 = Some g" "active_leases ?n2 = []" "pre_gcs_loss_mission_state ?n2 = Some (mission_state n)"
    "is_autonomous (mission_state ?n2)"
    using fm by (simp_all add: link_fields_def remember_state_def)
  then obtain n3 ev3 where "gcs_stage env t3 hbs3 ?n2 = Some (n3, ev3)" "mission_state n3 = mission_state n"
    using heard_restores [of ?n2 g hbs3 "mission_state n" env t3] heard by blast
  with e1 e2 abort show ?thesis
    by (intro exI [of _ ?n1] exI [of _ ev1] exI [of _ ?n2] exI [of _ ev2] exI [of _ n3] exI [of _ ev3]) (simp add: l)
qed

section \<open>Instances\<close>

definition sample_env :: "(unit agent_bus, Infallible, int) NodeEnv" where
  "sample_env = \<lparr>env_send = agent_send fair_rng, env_poll = agent_poll, to_vec = (\<lambda>m. Some [1]),
     from_slice = (\<lambda>bs. if bs = [] then None else Some (Heartbeat 0 1)), at_millis = (\<lambda>x. if x \<in> {- 8334601228800000..8210266876799999} then Some x else None)\<rparr>"

definition sample_node :: "(unit agent_bus, int) AgentNode" where
  "sample_node = agent_node_new ''a'' [''b'']  free_coordinator
     (network_new fair_rng sample_config, agent_transport_new ''a'')"

definition sample_cbba :: "(TaskId list \<Rightarrow> TaskId list) \<times> CbbaAllocator" where
  "sample_cbba = (remdups, cbba_new (cb_config (bid_state ''a'' 5)))"

lemma sample_env_ok: "decoder_wf sample_env" "calendar_documented sample_env" "transport (env_poll sample_env) agent_pending"
  using agent.transport_axioms
  by (simp_all add: decoder_wf_def sample_env_def message_wf_def calendar_documented_def calendar_limit_def)

lemma sample_leases: "active_leases sample_node = []"
  by (simp add: sample_node_def agent_node_new_def)

lemma sample_tick:
  "active_leases n = [] \<Longrightarrow> \<exists>n' st' out. process_inbox_and_allocate sample_env cbba_alloc now sample_cbba [] n = Some (n', st', out)"
  using process_inbox_total [of sample_env agent_pending n cbba_alloc sample_cbba now "[]"] sample_env_ok(2,3) cbba_alloc_total
  by (auto simp: leases_in_range_def)

lemma sample_inbox:
  "an_transport n = an_transport sample_node \<Longrightarrow> \<exists>tr. drain_inbox (env_poll sample_env) (an_transport n) [] = Some (tr, [])"
  using agent.drain_inbox_pending [of "an_transport sample_node" "[]"]
  by (auto simp: sample_env_def sample_node_def agent_node_new_def agent_pending_def agent_transport_new_def due_def)

theorem node_tick_invariant_witness:
  "\<exists>n' st' out. process_inbox_and_allocate sample_env cbba_alloc 1 sample_cbba [] sample_node = Some (n', st', out) \<and>
     coord_inv (coordinator n')"
proof -
  obtain n' st' out where r:
    "process_inbox_and_allocate sample_env cbba_alloc 1 sample_cbba [] sample_node = Some (n', st', out)"
    using sample_tick [OF sample_leases] by blast
  have "coord_inv (coordinator sample_node)" by (simp add: sample_node_def agent_node_new_def free_coordinator_inv)
  from node_tick_invariant [OF sample_env_ok(1) this _ r] r show ?thesis by auto
qed


text \<open>The station is silent from the start: the node loses it at tick 20.\<close>

theorem tick_refines_gcs_machine_witness:
  "\<exists>n' st' out. process_inbox_and_allocate sample_env cbba_alloc 20 sample_cbba [] (sample_node\<lparr>gcs_id := Some ''g''\<rparr>)
     = Some (n', st', out) \<and> gcs_abs n' = Unlinked 20 MsIdle \<and> \<not> gcs_reconnected_this_tick out"
proof -
  let ?n = "sample_node\<lparr>gcs_id := Some ''g''\<rparr>"
  obtain n' st' out where r: "process_inbox_and_allocate sample_env cbba_alloc 20 sample_cbba [] ?n = Some (n', st', out)"
    using sample_tick [of ?n 20] sample_leases by (simp del: split_paired_Ex) blast
  obtain tr where d: "drain_inbox (env_poll sample_env) (an_transport ?n) [] = Some (tr, [])"
    using sample_inbox [of ?n] by auto
  have n: "mission_state ?n = MsIdle" "gcs_lost_policy (autonomy ?n) = GcsHoverInPlace 30" "gcs_heartbeat_timeout_ticks (autonomy ?n) = 10"
    by (simp_all add: sample_node_def agent_node_new_def default_autonomy_def default_gcs_lost_policy_def default_gcs_heartbeat_timeout_def)
  have m: "monitored sample_env cbba_alloc ''g'' ?n [] ?n"
    by (rule monitored_start) (simp_all add: sample_node_def agent_node_new_def gcs_only_def default_autonomy_def)
  note t = tick_refines_gcs_machine [OF m d r, unfolded n]
  have "gcs_abs n' = Unlinked 20 MsIdle" using t by (simp add: heard_from_def)
  moreover have "\<not> gcs_reconnected_this_tick out" using t by (simp add: heard_from_def gcs_reports_def)
  ultimately show ?thesis using r by blast
qed

definition aborting_node :: "(unit agent_bus, int) AgentNode" where
  "aborting_node = sample_node\<lparr>gcs_id := Some ''g'', autonomy := default_autonomy\<lparr>neighbor_lost_policy := AbortMission\<rparr>\<rparr>"

lemma aborting_node_fields:
  "gcs_id aborting_node = Some ''g''" "mission_state aborting_node = MsIdle" "pre_gcs_loss_mission_state aborting_node = None"
  "active_leases aborting_node = []" "neighbor_lost_policy (autonomy aborting_node) = AbortMission"
  "peer_ids aborting_node = [''b'']" "lost_peers_detected aborting_node = {}"
  "last_peer_heartbeat_ticks aborting_node = []" "last_gcs_heartbeat_tick aborting_node = None"
  "gcs_timeout (autonomy aborting_node) = 10" "peer_heartbeat_timeout_ticks (autonomy aborting_node) = 15"
  by (simp_all add: aborting_node_def sample_node_def agent_node_new_def default_autonomy_def gcs_timeout_def
      default_gcs_lost_policy_def default_gcs_heartbeat_timeout_def default_peer_heartbeat_timeout_def)

theorem peer_loss_exact_witness:
  "set (snd (peer_loss_stage 20 aborting_node)) = {''b''} \<and>
   mission_state (fst (peer_loss_stage 20 aborting_node)) = Aborting ''neighbor_lost:b''"
proof -
  obtain n' lost where l: "peer_loss_stage 20 aborting_node = (n', lost)"
    by (cases "peer_loss_stage 20 aborting_node")
  note e = peer_loss_exact [OF l]
  have s: "set lost = {''b''}" using e by (auto simp: aborting_node_fields peer_silent_def ticks_since_def)
  moreover have "distinct lost" using e by blast
  ultimately have "lost = [''b'']" by (cases lost; cases "tl lost") auto
  with e l s show ?thesis by (simp add: after_losses_def aborting_node_fields Let_def)
qed

theorem abort_forgotten_witness:
  "\<exists>n1 ev1 n2 ev2 n3 ev3.
    gcs_stage sample_env 20 [] aborting_node = Some (n1, ev1) \<and> is_aborting (mission_state (fst (peer_loss_stage 20 n1))) \<and>
    gcs_stage sample_env 21 [] (fst (peer_loss_stage 20 n1)) = Some (n2, ev2) \<and> is_autonomous (mission_state n2) \<and>
    gcs_stage sample_env 22 [(''g'', 22, 1)] n2 = Some (n3, ev3) \<and> mission_state n3 = MsIdle"
  using abort_forgotten [of aborting_node "''g''" "''b''" 20 21 "[]" "[]" "[(''g'', 22, 1)]" sample_env 22]
  by (simp add: aborting_node_fields peer_silent_def gcs_timed_out_def ticks_since_def)

end
