(* ===== verification/UrbanTypes.thy ===== *)
theory UrbanTypes
  imports SwarmProtocol
begin

text \<open>
  \<open>swarm-types/src/urban.rs\<close>: the road graph of urban missions, routes, buses with their schedules,
  temporary obstacles, and the validation of these inputs. Validation collects messages, one per
  defect, in the order of the source; the theorems say that the list is empty exactly on sound
  inputs, and that a validated bus has a position exactly during its schedule.
\<close>

section \<open>Data\<close>

type_synonym UrbanNodeId = string
type_synonym UrbanObstacleId = string
type_synonym UrbanBusId = string

record UrbanBusStop =
  bs_node_id :: UrbanNodeId
  arrival_tick :: u64

record UrbanBusRoute =
  stops :: "UrbanBusStop list"
  speed_m_per_tick :: f64

record UrbanGeoPoint =
  ug_lat_deg :: f64
  ug_lon_deg :: f64
  ug_alt_m :: f64

record UrbanNode =
  un_id :: UrbanNodeId
  un_pose :: Pose
  un_geo :: "UrbanGeoPoint option"

record UrbanEdge =
  ue_id :: UrbanEdgeId
  ue_from :: UrbanNodeId
  ue_to :: UrbanNodeId
  ue_cost :: f64
  ue_length_m :: f64
  corridor_width_m :: "f64 option"
  blocked_flag :: bool

record UrbanStaticObstacle =
  so_id :: UrbanObstacleId
  so_bounds :: Aabb
  so_label :: "string option"

record UrbanMap =
  map_nodes :: "UrbanNode list"
  map_edges :: "UrbanEdge list"
  static_obstacles :: "UrbanStaticObstacle list"

record UrbanRouteLoop =
  loop_nodes :: "UrbanNodeId list"

record UrbanRouteSegment =
  rs_edge_id :: UrbanEdgeId
  rs_from :: UrbanNodeId
  rs_to :: UrbanNodeId
  rs_length_m :: f64
  rs_cost :: f64

record UrbanPlannedRoute =
  segments :: "UrbanRouteSegment list"
  total_length_m :: f64
  total_cost :: f64

datatype UrbanViolation =
  MissingEdge UrbanEdgeId
| BlockedEdge UrbanEdgeId
| ObstacleIntersection UrbanEdgeId UrbanObstacleId Pose

record UrbanBus =
  bus_id :: UrbanBusId
  bus_pose :: Pose
  active_from_tick :: "u64 option"
  active_until_tick :: "u64 option"
  bus_route :: "UrbanBusRoute option"

record UrbanPerimeterPatrol =
  pp_polygon :: "Pose list"
  pp_spacing_m :: f64

record UrbanDetectorConfig =
  detection_range_m :: f64
  detection_probability :: f64
  false_positive_rate :: f64
  ud_seed :: u64

record UrbanSearchState =
  buses :: "UrbanBus list"
  ss_detector :: UrbanDetectorConfig

datatype ObstacleSeverity = Hard | Soft

record UrbanTemporaryObstacle =
  to_edge_id :: UrbanEdgeId
  appears_at_tick :: u64
  disappears_at_tick :: "u64 option"
  to_reason :: "string option"
  to_severity :: "ObstacleSeverity option"

definition is_hard_block :: "UrbanTemporaryObstacle \<Rightarrow> bool" where
  "is_hard_block o' = (to_severity o' \<noteq> Some Soft)"

definition obstacle_is_active :: "u64 \<Rightarrow> UrbanTemporaryObstacle \<Rightarrow> bool" where
  "obstacle_is_active tk o' = (appears_at_tick o' \<le> tk \<and>
     (case disappears_at_tick o' of None \<Rightarrow> True | Some d \<Rightarrow> tk < d))"

datatype UrbanBlockedPolicy = BlockedWait | BlockedReplan | BlockedAbort

datatype UrbanRightOfWayPolicy = FirstCome | RowPriority | RoundRobin | MissionCriticalOverride

record UrbanMapValidationError =
  ve_field :: string
  ve_message :: string

abbreviation verr :: "string \<Rightarrow> string \<Rightarrow> UrbanMapValidationError" where
  "verr f m \<equiv> \<lparr>ve_field = f, ve_message = m\<rparr>"

definition report_if :: "bool \<Rightarrow> string \<Rightarrow> string \<Rightarrow> UrbanMapValidationError list" where
  "report_if bad f m = (if bad then [verr f m] else [])"

definition indexed :: "string \<Rightarrow> nat \<Rightarrow> string \<Rightarrow> string" where
  "indexed f i rest = f @ ''['' @ show_nat i @ '']'' @ rest"

definition quoted :: "string \<Rightarrow> string" where
  "quoted s = CHR 0x27 # s @ [CHR 0x27]"

definition map_node :: "UrbanMap \<Rightarrow> UrbanNodeId \<Rightarrow> UrbanNode option" where
  "map_node m i = find (\<lambda>n. un_id n = i) (map_nodes m)"

definition map_edge :: "UrbanMap \<Rightarrow> UrbanEdgeId \<Rightarrow> UrbanEdge option" where
  "map_edge m i = find (\<lambda>e. ue_id e = i) (map_edges m)"

section \<open>Validation of maps\<close>

definition pose_finite :: "Pose \<Rightarrow> bool" where
  "pose_finite p = (is_finite (px p) \<and> is_finite (py p) \<and> is_finite (pz p))"

definition validate_pose :: "nat \<Rightarrow> Pose \<Rightarrow> UrbanMapValidationError list" where
  "validate_pose i p = report_if (\<not> pose_finite p) (indexed ''nodes'' i ''.pose'') ''Node pose coordinates must be finite''"

definition validate_geo :: "nat \<Rightarrow> UrbanGeoPoint \<Rightarrow> UrbanMapValidationError list" where
  "validate_geo i g =
     report_if (\<not> is_finite (ug_lat_deg g) \<or> f64_lt (ug_lat_deg g) (f64_lit (- 90)) \<or> f64_lt (f64_lit 90) (ug_lat_deg g))
       (indexed ''nodes'' i ''.geo.lat_deg'') ''lat_deg must be finite and within [-90, 90]''
     @ report_if (\<not> is_finite (ug_lon_deg g) \<or> f64_lt (ug_lon_deg g) (f64_lit (- 180)) \<or> f64_lt (f64_lit 180) (ug_lon_deg g))
       (indexed ''nodes'' i ''.geo.lon_deg'') ''lon_deg must be finite and within [-180, 180]''
     @ report_if (\<not> is_finite (ug_alt_m g)) (indexed ''nodes'' i ''.geo.alt_m'') ''alt_m must be finite''"

fun validate_nodes :: "nat \<Rightarrow> UrbanNodeId set \<Rightarrow> UrbanNode list \<Rightarrow> UrbanMapValidationError list" where
  "validate_nodes i seen [] = []"
| "validate_nodes i seen (n # ns) =
     report_if (un_id n \<in> seen) (indexed ''nodes'' i ''.id'') (''Duplicate urban node id '' @ quoted (un_id n))
     @ validate_pose i (un_pose n)
     @ (case un_geo n of Some g \<Rightarrow> validate_geo i g | None \<Rightarrow> [])
     @ validate_nodes (Suc i) (insert (un_id n) seen) ns"

definition nonneg_finite :: "f64 \<Rightarrow> bool" where
  "nonneg_finite x = (is_finite x \<and> \<not> f64_lt x f64_zero)"

fun validate_edges :: "UrbanNodeId set \<Rightarrow> nat \<Rightarrow> UrbanEdgeId set \<Rightarrow> UrbanEdge list \<Rightarrow> UrbanMapValidationError list" where
  "validate_edges ns i seen [] = []"
| "validate_edges ns i seen (e # es) =
     report_if (ue_id e \<in> seen) (indexed ''edges'' i ''.id'') (''Duplicate urban edge id '' @ quoted (ue_id e))
     @ report_if (ue_from e \<notin> ns) (indexed ''edges'' i ''.from'') (''Unknown urban node id '' @ quoted (ue_from e))
     @ report_if (ue_to e \<notin> ns) (indexed ''edges'' i ''.to'') (''Unknown urban node id '' @ quoted (ue_to e))
     @ report_if (\<not> nonneg_finite (ue_cost e)) (indexed ''edges'' i ''.cost'') ''Edge cost must be finite and >= 0''
     @ report_if (\<not> nonneg_finite (ue_length_m e)) (indexed ''edges'' i ''.length_m'') ''Edge length_m must be finite and >= 0''
     @ report_if (case corridor_width_m e of Some w \<Rightarrow> \<not> nonneg_finite w | None \<Rightarrow> False)
         (indexed ''edges'' i ''.corridor_width_m'') ''corridor_width_m must be finite and >= 0''
     @ validate_edges ns (Suc i) (insert (ue_id e) seen) es"

definition bounds_bad :: "Aabb \<Rightarrow> bool" where
  "bounds_bad b = (\<not> is_finite (min_x b) \<or> \<not> is_finite (min_y b) \<or> \<not> is_finite (max_x b) \<or> \<not> is_finite (max_y b)
     \<or> f64_lt (max_x b) (min_x b) \<or> f64_lt (max_y b) (min_y b))"

fun validate_obstacles :: "nat \<Rightarrow> UrbanObstacleId set \<Rightarrow> UrbanStaticObstacle list \<Rightarrow> UrbanMapValidationError list" where
  "validate_obstacles i seen [] = []"
| "validate_obstacles i seen (ob # obs) =
     report_if (so_id ob \<in> seen) (indexed ''static_obstacles'' i ''.id'')
       (''Duplicate urban obstacle id '' @ quoted (so_id ob))
     @ report_if (bounds_bad (so_bounds ob)) (indexed ''static_obstacles'' i ''.bounds'')
         ''AABB bounds must be finite and min <= max''
     @ validate_obstacles (Suc i) (insert (so_id ob) seen) obs"

definition urban_map_validate :: "UrbanMap \<Rightarrow> UrbanMapValidationError list" where
  "urban_map_validate m =
     (let nodes_with_geo = length (filter (\<lambda>n. un_geo n \<noteq> None) (map_nodes m)) in
      report_if (map_nodes m = []) ''nodes'' ''Urban map must contain at least one node''
      @ report_if (map_edges m = []) ''edges'' ''Urban map must contain at least one edge''
      @ validate_nodes 0 {} (map_nodes m)
      @ report_if (0 < nodes_with_geo \<and> nodes_with_geo \<noteq> length (map_nodes m)) ''nodes[].geo''
          ''Urban map nodes must either all carry geo coordinates or all omit them''
      @ validate_edges (un_id ` set (map_nodes m)) 0 {} (map_edges m)
      @ validate_obstacles 0 {} (static_obstacles m))"

definition validate_route_loop :: "UrbanMap \<Rightarrow> UrbanRouteLoop \<Rightarrow> UrbanMapValidationError list" where
  "validate_route_loop m l =
     report_if (length (loop_nodes l) < 2) ''route_loop.nodes'' ''Urban route loop must contain at least two nodes''
     @ concat (map (\<lambda>(i, n). report_if (n \<notin> un_id ` set (map_nodes m)) (indexed ''route_loop.nodes'' i [])
          (''Unknown urban node id '' @ quoted n)) (enumerate 0 (loop_nodes l)))"

definition validate_temporary_obstacles ::
  "UrbanMap \<Rightarrow> UrbanTemporaryObstacle list \<Rightarrow> UrbanMapValidationError list"
where
  "validate_temporary_obstacles m obs =
     concat (map (\<lambda>(i, ob).
         report_if (to_edge_id ob \<notin> ue_id ` set (map_edges m)) (indexed ''temporary_obstacles'' i ''.edge_id'')
           (''Unknown urban edge id '' @ quoted (to_edge_id ob))
         @ report_if (case disappears_at_tick ob of Some d \<Rightarrow> d \<le> appears_at_tick ob | None \<Rightarrow> False)
             (indexed ''temporary_obstacles'' i ''.disappears_at_tick'')
             ''disappears_at_tick must be greater than appears_at_tick'')
       (enumerate 0 obs))"

section \<open>Validation of the search state\<close>

definition bus_field :: "nat \<Rightarrow> string \<Rightarrow> string" where
  "bus_field i rest = indexed ''buses'' i rest"

fun validate_stops ::
  "nat \<Rightarrow> UrbanMap option \<Rightarrow> nat \<Rightarrow> u64 option \<Rightarrow> UrbanBusStop list \<Rightarrow> UrbanMapValidationError list"
where
  "validate_stops b m i previous [] = []"
| "validate_stops b m i previous (s # ss) =
     report_if (case previous of Some p \<Rightarrow> arrival_tick s \<le> p | None \<Rightarrow> False)
       (bus_field b (indexed ''.route.stops'' i ''.arrival_tick'')) ''arrival_tick values must be strictly increasing''
     @ (case m of None \<Rightarrow> []
        | Some mp \<Rightarrow> report_if (map_node mp (bs_node_id s) = None) (bus_field b (indexed ''.route.stops'' i ''.node_id''))
            (''Unknown urban bus route stop node id '' @ quoted (bs_node_id s)))
     @ validate_stops b m (Suc i) (Some (arrival_tick s)) ss"

definition validate_bus_route :: "nat \<Rightarrow> UrbanBusRoute \<Rightarrow> UrbanMap option \<Rightarrow> UrbanMapValidationError list" where
  "validate_bus_route b r m =
     report_if (stops r = []) (bus_field b ''.route.stops'') ''Bus route requires at least one stop''
     @ report_if (\<not> is_finite (speed_m_per_tick r) \<or> f64_le (speed_m_per_tick r) f64_zero)
         (bus_field b ''.route.speed_m_per_tick'') ''speed_m_per_tick must be finite and > 0''
     @ validate_stops b m 0 None (stops r)"

fun validate_buses ::
  "UrbanMap option \<Rightarrow> nat \<Rightarrow> UrbanBusId set \<Rightarrow> UrbanBus list \<Rightarrow> UrbanMapValidationError list"
where
  "validate_buses m i seen [] = []"
| "validate_buses m i seen (b # bs) =
     report_if (bus_id b \<in> seen) (bus_field i ''.id'') (''Duplicate urban bus id '' @ quoted (bus_id b))
     @ report_if (\<not> pose_finite (bus_pose b)) (bus_field i ''.pose'') ''Bus pose coordinates must be finite''
     @ report_if (case (active_from_tick b, active_until_tick b) of (Some f, Some u) \<Rightarrow> u < f | _ \<Rightarrow> False)
         (bus_field i ''.active_until_tick'') ''active_until_tick must be >= active_from_tick''
     @ (case bus_route b of Some r \<Rightarrow> validate_bus_route i r m | None \<Rightarrow> [])
     @ validate_buses m (Suc i) (insert (bus_id b) seen) bs"

definition validate_probability :: "string \<Rightarrow> f64 \<Rightarrow> UrbanMapValidationError list" where
  "validate_probability field v =
     report_if (\<not> is_finite v \<or> \<not> (f64_le f64_zero v \<and> f64_le v (f64_lit 1))) field
       ''probability must be finite and in [0, 1]''"

definition validate_inner :: "UrbanSearchState \<Rightarrow> UrbanMap option \<Rightarrow> UrbanMapValidationError list" where
  "validate_inner s m =
     report_if (buses s = []) ''buses'' ''Urban Search requires at least one bus''
     @ validate_buses m 0 {} (buses s)
     @ report_if (\<not> nonneg_finite (detection_range_m (ss_detector s))) ''detector.detection_range_m''
         ''detection_range_m must be finite and >= 0''
     @ validate_probability ''detector.detection_probability'' (detection_probability (ss_detector s))
     @ validate_probability ''detector.false_positive_rate'' (false_positive_rate (ss_detector s))"

definition search_validate :: "UrbanSearchState \<Rightarrow> UrbanMapValidationError list" where
  "search_validate s = validate_inner s None"

definition search_validate_with_map :: "UrbanSearchState \<Rightarrow> UrbanMap \<Rightarrow> UrbanMapValidationError list" where
  "search_validate_with_map s m = validate_inner s (Some m)"

section \<open>The position of a bus\<close>

definition bus_static_window_active :: "UrbanBus \<Rightarrow> u64 \<Rightarrow> bool" where
  "bus_static_window_active b tk =
     ((case active_from_tick b of None \<Rightarrow> True | Some f \<Rightarrow> f \<le> tk) \<and>
      (case active_until_tick b of None \<Rightarrow> True | Some u \<Rightarrow> tk \<le> u))"

definition interpolate :: "Pose \<Rightarrow> Pose \<Rightarrow> f64 \<Rightarrow> Pose" where
  "interpolate a b ratio = \<lparr>px = f64_add (px a) (f64_mul (f64_sub (px b) (px a)) ratio),
     py = f64_add (py a) (f64_mul (f64_sub (py b) (py a)) ratio),
     pz = f64_add (pz a) (f64_mul (f64_sub (pz b) (pz a)) ratio)\<rparr>"

text \<open>The loop over the windows of two consecutive stops.\<close>

fun pose_between :: "UrbanMap \<Rightarrow> u64 \<Rightarrow> UrbanBusStop list \<Rightarrow> Pose option" where
  "pose_between m tk (a # b # ss) =
     (if tk < arrival_tick a \<or> arrival_tick b < tk then pose_between m tk (b # ss)
      else case map_node m (bs_node_id a) of None \<Rightarrow> None | Some na \<Rightarrow>
        (case map_node m (bs_node_id b) of None \<Rightarrow> None | Some nb \<Rightarrow>
          (let duration = saturating_sub (arrival_tick b) (arrival_tick a) in
           if duration = 0 then None
           else Some (interpolate (un_pose na) (un_pose nb)
             (f64_div (f64_of_nat (unat (tk - arrival_tick a))) (f64_of_nat (unat duration)))))))"
| "pose_between m tk ss = None"

definition pose_at_tick :: "UrbanMap \<Rightarrow> u64 \<Rightarrow> UrbanBus \<Rightarrow> Pose option" where
  "pose_at_tick m tk b = (case bus_route b of
       None \<Rightarrow> if bus_static_window_active b tk then Some (bus_pose b) else None
     | Some r \<Rightarrow> (case stops r of
         [] \<Rightarrow> None
       | s # ss \<Rightarrow>
           if tk < arrival_tick s \<or> arrival_tick (last (s # ss)) < tk then None
           else if ss = [] then
             (if tk = arrival_tick s then map_option un_pose (map_node m (bs_node_id s)) else None)
           else pose_between m tk (s # ss)))"

section \<open>Soundness of validated inputs\<close>

lemma report_if_Nil [simp]: "report_if bad f m = [] \<longleftrightarrow> \<not> bad"
  by (simp add: report_if_def)

definition geo_ok :: "UrbanGeoPoint \<Rightarrow> bool" where
  "geo_ok g = (is_finite (ug_lat_deg g) \<and> is_finite (ug_lon_deg g) \<and> is_finite (ug_alt_m g) \<and>
     \<not> f64_lt (ug_lat_deg g) (f64_lit (- 90)) \<and> \<not> f64_lt (f64_lit 90) (ug_lat_deg g) \<and>
     \<not> f64_lt (ug_lon_deg g) (f64_lit (- 180)) \<and> \<not> f64_lt (f64_lit 180) (ug_lon_deg g))"

definition edge_ok :: "UrbanNodeId set \<Rightarrow> UrbanEdge \<Rightarrow> bool" where
  "edge_ok ns e = (ue_from e \<in> ns \<and> ue_to e \<in> ns \<and> nonneg_finite (ue_cost e) \<and> nonneg_finite (ue_length_m e) \<and>
     (\<forall>w. corridor_width_m e = Some w \<longrightarrow> nonneg_finite w))"

definition map_ok :: "UrbanMap \<Rightarrow> bool" where
  "map_ok m =
     (map_nodes m \<noteq> [] \<and> map_edges m \<noteq> [] \<and>
      distinct (map un_id (map_nodes m)) \<and> distinct (map ue_id (map_edges m)) \<and>
      distinct (map so_id (static_obstacles m)) \<and>
      (\<forall>n\<in>set (map_nodes m). pose_finite (un_pose n) \<and> (\<forall>g. un_geo n = Some g \<longrightarrow> geo_ok g)) \<and>
      ((\<forall>n\<in>set (map_nodes m). un_geo n \<noteq> None) \<or> (\<forall>n\<in>set (map_nodes m). un_geo n = None)) \<and>
      (\<forall>e\<in>set (map_edges m). edge_ok (un_id ` set (map_nodes m)) e) \<and>
      (\<forall>ob\<in>set (static_obstacles m). \<not> bounds_bad (so_bounds ob)))"

lemma validate_geo_Nil: "validate_geo i g = [] \<longleftrightarrow> geo_ok g"
  by (auto simp: validate_geo_def geo_ok_def)

lemma validate_nodes_Nil:
  "validate_nodes i seen ns = [] \<longleftrightarrow> distinct (map un_id ns) \<and> un_id ` set ns \<inter> seen = {} \<and>
     (\<forall>n\<in>set ns. pose_finite (un_pose n) \<and> (\<forall>g. un_geo n = Some g \<longrightarrow> geo_ok g))"
  by (induction i seen ns rule: validate_nodes.induct)
    (auto simp: validate_pose_def validate_geo_Nil split: option.splits)

lemma validate_edges_Nil:
  "validate_edges ns i seen es = [] \<longleftrightarrow> distinct (map ue_id es) \<and> ue_id ` set es \<inter> seen = {} \<and> (\<forall>e\<in>set es. edge_ok ns e)"
  by (induction ns i seen es rule: validate_edges.induct) (auto simp: edge_ok_def split: option.splits)

lemma validate_obstacles_Nil:
  "validate_obstacles i seen obs = [] \<longleftrightarrow> distinct (map so_id obs) \<and> so_id ` set obs \<inter> seen = {} \<and>
     (\<forall>ob\<in>set obs. \<not> bounds_bad (so_bounds ob))"
  by (induction i seen obs rule: validate_obstacles.induct) auto

lemma all_or_none:
  "\<not> (0 < length (filter P xs) \<and> length (filter P xs) \<noteq> length xs) \<longleftrightarrow> (\<forall>x\<in>set xs. P x) \<or> (\<forall>x\<in>set xs. \<not> P x)"
proof -
  have "length (filter P xs) = length xs \<longleftrightarrow> (\<forall>x\<in>set xs. P x)"
    by (metis filter_True filter_id_conv length_filter_less less_irrefl)
  moreover have "length (filter P xs) = 0 \<longleftrightarrow> (\<forall>x\<in>set xs. \<not> P x)" by (simp add: filter_empty_conv)
  ultimately show ?thesis by auto
qed

lemma stops_Nil:
  "validate_stops b (Some m) i previous ss = [] \<longleftrightarrow>
     sorted_wrt (<) (map arrival_tick ss) \<and> (\<forall>p. previous = Some p \<longrightarrow> (\<forall>s\<in>set ss. p < arrival_tick s)) \<and>
     (\<forall>s\<in>set ss. map_node m (bs_node_id s) \<noteq> None)"
proof (induction ss arbitrary: i previous)
  case (Cons s ss)
  show ?case unfolding validate_stops.simps append_is_Nil_conv Cons
    by (auto simp: not_le split: option.splits)
qed simp

lemma buses_Nil:
  "validate_buses m i seen bs = [] \<Longrightarrow> b \<in> set bs \<Longrightarrow> bus_route b = Some r \<Longrightarrow> \<exists>j. validate_bus_route j r m = []"
  by (induction m i seen bs rule: validate_buses.induct) auto

lemma pose_between_Some:
  assumes "sorted_wrt (<) (map arrival_tick (a # b # ss))" "\<forall>s\<in>set (a # b # ss). map_node m (bs_node_id s) \<noteq> None"
    and "arrival_tick a \<le> tk" "tk \<le> arrival_tick (last (a # b # ss))"
  shows "pose_between m tk (a # b # ss) \<noteq> None"
  using assms
proof (induction ss arbitrary: a b)
  case Nil
  then show ?case by (auto simp: saturating_sub_def Let_def)
next
  case (Cons c ss)
  show ?case
  proof (cases "tk \<le> arrival_tick b")
    case True
    with Cons.prems show ?thesis by (auto simp: saturating_sub_def Let_def)
  next
    case False
    with Cons.prems Cons.IH [of b c] show ?thesis by auto
  qed
qed

section \<open>Properties\<close>

text \<open>Map validation. A road graph passes validation exactly if it has nodes and edges, identifiers
  are unique, poses and geographic positions are in range and given for all nodes or for none,
  every edge joins known nodes with finite non-negative cost, length and width, and obstacle boxes
  are finite and not inverted.\<close>

theorem urban_map_validate_exact: "urban_map_validate m = [] \<longleftrightarrow> map_ok m"
  unfolding urban_map_validate_def map_ok_def Let_def append_is_Nil_conv report_if_Nil validate_nodes_Nil
    validate_edges_Nil validate_obstacles_Nil all_or_none
  by auto

text \<open>Bus schedules. In a search state that passes validation against the map, a bus with a route has
  a position exactly from its first to its last stop, and a bus without one exactly in its active
  window.\<close>

theorem bus_schedule_exact:
  assumes "search_validate_with_map s m = []" "b \<in> set (buses s)"
  shows "pose_at_tick m tk b \<noteq> None \<longleftrightarrow>
    (case bus_route b of
       None \<Rightarrow> bus_static_window_active b tk
     | Some r \<Rightarrow> stops r \<noteq> [] \<and> arrival_tick (hd (stops r)) \<le> tk \<and> tk \<le> arrival_tick (last (stops r)))"
proof (cases "bus_route b")
  case None
  then show ?thesis by (simp add: pose_at_tick_def)
next
  case (Some r)
  obtain j where "validate_bus_route j r (Some m) = []"
    using assms buses_Nil [of "Some m" 0 "{}" "buses s" b r] Some by (auto simp: search_validate_with_map_def validate_inner_def)
  then have r: "sorted_wrt (<) (map arrival_tick (stops r))" "\<forall>s\<in>set (stops r). map_node m (bs_node_id s) \<noteq> None"
    by (simp_all add: validate_bus_route_def stops_Nil)
  show ?thesis
  proof (cases "stops r" rule: remdups_adj.cases)
    case (3 a c ss)
    have "pose_between m tk (a # c # ss) \<noteq> None" if "arrival_tick a \<le> tk" "tk \<le> arrival_tick (last (a # c # ss))"
      using r that unfolding 3 by (rule pose_between_Some)
    then show ?thesis using Some
      by (simp add: pose_at_tick_def 3 not_less del: pose_between.simps not_None_eq) (simp add: not_less [symmetric])
  qed (use Some r in \<open>auto simp: pose_at_tick_def not_less\<close>)
qed

definition sample_node_at :: "UrbanNodeId \<Rightarrow> UrbanNode" where
  "sample_node_at i = \<lparr>un_id = i, un_pose = default_pose, un_geo = None\<rparr>"

definition sample_edge :: "UrbanEdgeId \<Rightarrow> UrbanNodeId \<Rightarrow> UrbanNodeId \<Rightarrow> UrbanEdge" where
  "sample_edge i a b = \<lparr>ue_id = i, ue_from = a, ue_to = b, ue_cost = f64_lit 1, ue_length_m = f64_lit 1,
     corridor_width_m = None, blocked_flag = False\<rparr>"

definition sample_map :: UrbanMap where
  "sample_map = \<lparr>map_nodes = [sample_node_at ''n1'', sample_node_at ''n2''],
     map_edges = [sample_edge ''e'' ''n1'' ''n2''], static_obstacles = []\<rparr>"

definition sample_bus :: UrbanBus where
  "sample_bus = \<lparr>bus_id = ''bus'', bus_pose = default_pose, active_from_tick = None, active_until_tick = None,
     bus_route = Some \<lparr>stops = [\<lparr>bs_node_id = ''n1'', arrival_tick = 3\<rparr>, \<lparr>bs_node_id = ''n2'', arrival_tick = 9\<rparr>],
       speed_m_per_tick = f64_lit 1\<rparr>\<rparr>"

definition sample_search :: UrbanSearchState where
  "sample_search = \<lparr>buses = [sample_bus], ss_detector = \<lparr>detection_range_m = f64_lit 5,
     detection_probability = f64_lit 1, false_positive_rate = f64_zero, ud_seed = 7\<rparr>\<rparr>"

theorem bus_schedule_exact_witness:
  "pose_at_tick sample_map 5 sample_bus \<noteq> None \<and> pose_at_tick sample_map 10 sample_bus = None"
proof -
  have v: "search_validate_with_map sample_search sample_map = []"
    by (simp add: search_validate_with_map_def validate_inner_def sample_search_def sample_bus_def pose_finite_def
        default_pose_def validate_bus_route_def validate_probability_def nonneg_finite_def f64_le_def f64_lt_def
        is_finite_def map_node_def sample_map_def sample_node_at_def)
  have b: "sample_bus \<in> set (buses sample_search)" by (simp add: sample_search_def)
  show ?thesis
    using bus_schedule_exact [OF v b, of 5] bus_schedule_exact [OF v b, of 10] by (simp add: sample_bus_def)
qed

end
