(* ===== verification/F64Order.thy ===== *)
theory F64Order
  imports F64
begin

text \<open>
  Rounding is monotone and idempotent, so that addition of a non-negative number to a sum of
  non-negative numbers never decreases it and respects the order: what the shortest-path search
  relies on when it adds costs in floating point. Also the total order of \<open>f64::total_cmp\<close>.
\<close>

section \<open>Monotone rounding\<close>

lemma round_even_mono:
  assumes "x \<le> y"
  shows "round_even x \<le> round_even y"
proof (cases "\<lfloor>x\<rfloor> = \<lfloor>y\<rfloor>")
  case True
  then show ?thesis using assms by (auto simp: round_even_def Let_def)
next
  case False
  then have f: "\<lfloor>x\<rfloor> + 1 \<le> \<lfloor>y\<rfloor>" using floor_mono [OF assms] by linarith
  have "round_even x \<le> \<lfloor>x\<rfloor> + 1" by (simp add: round_even_def Let_def)
  moreover have "\<lfloor>y\<rfloor> \<le> round_even y" by (simp add: round_even_def Let_def)
  ultimately show ?thesis using f by linarith
qed

lemma powi_le_iff: "(2 :: rat) powi a \<le> 2 powi b \<longleftrightarrow> a \<le> b"
  by (metis linorder_not_less power_int_increasing power_int_strict_increasing one_le_numeral one_less_numeral_iff semiring_norm(76))

lemma powi_less_iff: "(2 :: rat) powi a < 2 powi b \<longleftrightarrow> a < b"
  by (meson linorder_not_less powi_le_iff)

lemma floor_log2_mono: "0 < m \<Longrightarrow> m \<le> n \<Longrightarrow> floor_log2 m \<le> floor_log2 n"
proof -
  assume "0 < m" "m \<le> n"
  then have "(2 :: rat) powi floor_log2 m < 2 powi (floor_log2 n + 1)"
    using floor_log2_bounds(1) [of m] floor_log2_bounds(2) [of n] by linarith
  then show ?thesis by (simp add: powi_less_iff)
qed

lemma floor_log2_less: "0 < m \<Longrightarrow> m < 2 powi k \<Longrightarrow> floor_log2 m < k"
  using floor_log2_bounds(1) [of m] by (metis order_le_less_trans powi_less_iff)

lemma floor_log2_ge: "0 < m \<Longrightarrow> 2 powi k \<le> m \<Longrightarrow> k \<le> floor_log2 m"
proof -
  assume "0 < m" "2 powi k \<le> m"
  then have "(2 :: rat) powi k < 2 powi (floor_log2 m + 1)"
    using floor_log2_bounds(2) [of m] by linarith
  then show ?thesis by (simp add: powi_less_iff)
qed

text \<open>The unit in the last place and the unbounded rounding.\<close>

definition ulp_exp :: "rat \<Rightarrow> int" where
  "ulp_exp m = max (floor_log2 m - 52) (- 1074)"

definition round_mag :: "rat \<Rightarrow> rat" where
  "round_mag m = (if m = 0 then 0 else of_int (round_even (m / 2 powi ulp_exp m)) * 2 powi ulp_exp m)"

lemma f64_round_mag: "f64_round s m = (if m \<noteq> 0 \<and> 2 ^ 1024 \<le> round_mag m then Inf s else Fin s (round_mag m))"
  by (simp add: f64_round_def round_mag_def ulp_exp_def Let_def)

lemma int_multiple:
  assumes "(e :: int) \<le> k"
  shows "\<exists>j. (2 :: rat) powi k / 2 powi e = of_int j"
proof -
  have "(2 :: rat) powi k / 2 powi e = 2 powi (k - e)" by (simp add: power_int_diff)
  also have "\<dots> = of_int (2 ^ nat (k - e))" using assms by (simp add: power_int_def)
  finally show ?thesis by blast
qed

lemma round_mag_upper:
  assumes "0 < m" "m \<le> 2 powi k" "ulp_exp m \<le> k"
  shows "round_mag m \<le> 2 powi k"
proof -
  obtain j where j: "(2 :: rat) powi k / 2 powi ulp_exp m = of_int j" using int_multiple [OF assms(3)] by blast
  have "m / 2 powi ulp_exp m \<le> of_int j" using assms(2) unfolding j [symmetric] by (intro divide_right_mono) auto
  then have "round_even (m / 2 powi ulp_exp m) \<le> j" using round_even_mono by fastforce
  then have "round_mag m \<le> of_int j * 2 powi ulp_exp m" using assms(1) by (simp add: round_mag_def mult_right_mono)
  also have "\<dots> = 2 powi k" by (simp add: j [symmetric])
  finally show ?thesis .
qed

lemma round_mag_lower:
  assumes "0 < m" "2 powi k \<le> m" "ulp_exp m \<le> k"
  shows "2 powi k \<le> round_mag m"
proof -
  obtain j where j: "(2 :: rat) powi k / 2 powi ulp_exp m = of_int j" using int_multiple [OF assms(3)] by blast
  have "of_int j \<le> m / 2 powi ulp_exp m" using assms(2) unfolding j [symmetric] by (intro divide_right_mono) auto
  then have "j \<le> round_even (m / 2 powi ulp_exp m)" using round_even_mono by fastforce
  then have "of_int j * 2 powi ulp_exp m \<le> round_mag m" using assms(1) by (simp add: round_mag_def mult_right_mono)
  then show ?thesis by (simp add: j [symmetric])
qed

lemma round_mag_nonneg: "0 \<le> m \<Longrightarrow> 0 \<le> round_mag m"
  by (simp add: round_mag_def round_even_nonneg)

lemma round_mag_mono:
  assumes "0 \<le> m" "m \<le> n"
  shows "round_mag m \<le> round_mag n"
proof (cases "m = 0")
  case True
  then show ?thesis using round_mag_nonneg assms by (simp add: round_mag_def)
next
  case False
  then have pos: "0 < m" "0 < n" using assms by auto
  have le: "ulp_exp m \<le> ulp_exp n" using floor_log2_mono [OF pos(1) assms(2)] by (simp add: ulp_exp_def)
  show ?thesis
  proof (cases "ulp_exp m = ulp_exp n")
    case True
    have "round_even (m / 2 powi ulp_exp n) \<le> round_even (n / 2 powi ulp_exp n)"
      using assms(2) by (intro round_even_mono divide_right_mono) auto
    then show ?thesis using pos True by (simp add: round_mag_def mult_right_mono)
  next
    case False
    then have lt: "floor_log2 m < floor_log2 n" "ulp_exp n = floor_log2 n - 52" using le by (auto simp: ulp_exp_def)
    have "m \<le> 2 powi floor_log2 n"
    proof -
      have "m < 2 powi (floor_log2 m + 1)" using floor_log2_bounds(2) [OF pos(1)] .
      also have "\<dots> \<le> 2 powi floor_log2 n" using lt(1) by (simp add: powi_le_iff)
      finally show ?thesis by simp
    qed
    then have "round_mag m \<le> 2 powi floor_log2 n" using pos(1) le lt by (intro round_mag_upper) auto
    also have "\<dots> \<le> round_mag n" using pos floor_log2_bounds(1) lt(2) by (intro round_mag_lower) auto
    finally show ?thesis .
  qed
qed

section \<open>Representable numbers\<close>

lemma round_mag_exact:
  assumes "0 < v" "v / 2 powi ulp_exp v = of_int k"
  shows "round_mag v = v"
  using assms by (simp add: round_mag_def) (metis nonzero_eq_divide_eq power_int_eq_0_iff zero_neq_numeral)

lemma round_mag_idem:
  assumes "0 \<le> m"
  shows "round_mag (round_mag m) = round_mag m"
proof (cases "round_mag m = 0")
  case True
  then show ?thesis by (simp add: round_mag_def)
next
  case False
  then have m: "0 < m" and v: "0 < round_mag m"
    using assms round_mag_nonneg [OF assms] by (auto simp: round_mag_def order_less_le)
  let ?e = "ulp_exp m" and ?v = "round_mag m"
  let ?r = "round_even (m / 2 powi ?e)"
  have r: "?v = of_int ?r * 2 powi ?e" using m by (simp add: round_mag_def)
  have "m \<le> 2 powi (?e + 53)"
  proof -
    have "m < 2 powi (floor_log2 m + 1)" using floor_log2_bounds(2) [OF m] .
    also have "\<dots> \<le> 2 powi (?e + 53)" by (simp add: powi_le_iff ulp_exp_def)
    finally show ?thesis by simp
  qed
  then have ub: "?v \<le> 2 powi (?e + 53)" using m by (intro round_mag_upper) auto
  show ?thesis
  proof (cases "?v = 2 powi (?e + 53)")
    case True
    have "floor_log2 ?v = ?e + 53"
      using floor_log2_ge [OF v, of "?e + 53"] floor_log2_less [OF v, of "?e + 54"] True by (simp add: powi_less_iff)
    then have "ulp_exp ?v = ?e + 1" by (simp add: ulp_exp_def)
    then have "ulp_exp ?v \<le> ?e + 53" by simp
    then obtain j where "?v / 2 powi ulp_exp ?v = of_int j" using int_multiple True by metis
    then show ?thesis by (rule round_mag_exact [OF v])
  next
    case False
    then have "floor_log2 ?v < ?e + 53" using ub floor_log2_less [OF v] by (simp add: order_less_le)
    then have "ulp_exp ?v \<le> ?e" by (auto simp: ulp_exp_def)
    then obtain j where "(2 :: rat) powi ?e / 2 powi ulp_exp ?v = of_int j" using int_multiple by metis
    then have "?v / 2 powi ulp_exp ?v = of_int (?r * j)" unfolding r by (metis of_int_mult times_divide_eq_right)
    then show ?thesis by (rule round_mag_exact [OF v])
  qed
qed

section \<open>Sums of costs\<close>

text \<open>A cost is a number that is not negative; it may carry the sign of the negative zero, and it may be
  infinite. A running sum of costs is a representable non-negative number or the positive infinity.\<close>

definition cost_ok :: "f64 \<Rightarrow> bool" where
  "cost_ok x = (\<not> is_nan x \<and> \<not> f64_lt x f64_zero)"

definition sum_ok :: "f64 \<Rightarrow> bool" where
  "sum_ok x = (case x of NaN \<Rightarrow> False | Inf s \<Rightarrow> \<not> s
     | Fin s m \<Rightarrow> \<not> s \<and> 0 \<le> val x \<and> round_mag (val x) = val x \<and> val x < 2 ^ 1024)"

definition round_key :: "rat \<Rightarrow> int \<times> rat" where
  "round_key q = (if q \<noteq> 0 \<and> 2 ^ 1024 \<le> round_mag q then (1, 0) else (0, round_mag q))"

lemma cost_ok_cases: "cost_ok x \<Longrightarrow> x = Inf False \<or> (\<exists>s m. x = Fin s m \<and> 0 \<le> val x)"
  by (cases x) (auto simp: cost_ok_def f64_lt_def val_def split: if_splits)

lemma nonneg_cost_ok: "nonneg x \<Longrightarrow> \<not> is_nan x \<Longrightarrow> cost_ok x"
  by (cases x) (auto simp: cost_ok_def f64_lt_def nonneg_def)

lemma key_le_inf: "f64_key x \<le> (1, 0)"
  by (cases x) auto

lemma sum_add_inf: "sum_ok a \<Longrightarrow> f64_add a (Inf False) = Inf False"
  by (cases a) (simp_all add: sum_ok_def)

lemma sum_ok_key_inj: "sum_ok x \<Longrightarrow> sum_ok y \<Longrightarrow> f64_key x = f64_key y \<Longrightarrow> x = y"
  by (cases x; cases y) (simp_all add: sum_ok_def)

lemma sum_ok_zero [simp]: "sum_ok f64_zero"
  by (simp add: sum_ok_def val_def round_mag_def)

lemma sum_ok_FinD:
  assumes "sum_ok x" "x = Fin s m"
  shows "0 \<le> val x" "\<not> s"
proof -
  have "\<not> s \<and> 0 \<le> val x \<and> round_mag (val x) = val x \<and> val x < 2 ^ 1024"
    using assms(1) unfolding sum_ok_def assms(2) f64.case .
  then show "0 \<le> val x" "\<not> s" by blast+
qed

lemma sum_ok_not_nan: "sum_ok x \<Longrightarrow> \<not> is_nan x"
  by (cases x) (simp_all add: sum_ok_def)

lemma round_key_mono: "0 \<le> p \<Longrightarrow> p \<le> q \<Longrightarrow> round_key p \<le> round_key q"
  using round_mag_mono [of p q] by (auto simp: round_key_def round_mag_def)

lemma add_Fin:
  assumes "0 \<le> val (Fin s m) + val (Fin t n)" "\<not> s"
  shows "f64_key (f64_add (Fin s m) (Fin t n)) = round_key (val (Fin s m) + val (Fin t n)) \<and>
    sum_ok (f64_add (Fin s m) (Fin t n))"
proof -
  let ?q = "val (Fin s m) + val (Fin t n)"
  show ?thesis
  proof (cases "?q = 0")
    case True
    then have "f64_add (Fin s m) (Fin t n) = Fin (s \<and> t) 0" by (simp add: Let_def)
    moreover have "round_key ?q = (0, 0)" by (simp add: True round_key_def round_mag_def)
    ultimately show ?thesis using assms(2) by (simp add: sum_ok_def val_def round_mag_def)
  next
    case False
    then have add: "f64_add (Fin s m) (Fin t n) = f64_round False ?q" using assms(1) by (simp add: of_exact_def Let_def)
    show ?thesis
      using False round_mag_idem [OF assms(1)] round_mag_nonneg [OF assms(1)]
      by (simp only: add f64_round_mag round_key_def) (auto simp: sum_ok_def val_def)
  qed
qed

lemma sum_ok_key:
  assumes "sum_ok (Fin s m)"
  shows "f64_key (Fin s m) = round_key (val (Fin s m))"
  using assms by (auto simp: sum_ok_def round_key_def val_def not_le[symmetric])

lemma add_cost:
  assumes "sum_ok a" "cost_ok e"
  shows "sum_ok (f64_add a e)" "f64_key a \<le> f64_key (f64_add a e)"
proof -
  have "sum_ok (f64_add a e) \<and> f64_key a \<le> f64_key (f64_add a e)" if e: "e = Fin t n" "0 \<le> val e" for t n
  proof (cases a)
    case (Fin s m)
    have a: "0 \<le> val a" "\<not> s" using sum_ok_FinD [OF assms(1) Fin] .
    then have "round_key (val a) \<le> round_key (val a + val e)" using e(2) by (intro round_key_mono) auto
    then show ?thesis
      using add_Fin [of s m t n] sum_ok_key [of s m] assms(1) a e unfolding Fin by (metis add_nonneg_nonneg)
  qed (use assms(1) e in \<open>auto simp: sum_ok_def\<close>)
  then have "sum_ok (f64_add a e) \<and> f64_key a \<le> f64_key (f64_add a e)"
    using cost_ok_cases [OF assms(2)] sum_add_inf [OF assms(1)] key_le_inf [of a] by (auto simp: sum_ok_def)
  then show "sum_ok (f64_add a e)" "f64_key a \<le> f64_key (f64_add a e)" by simp_all
qed

lemma add_cost_mono:
  assumes "sum_ok a" "sum_ok b" "cost_ok e" "f64_key a \<le> f64_key b"
  shows "f64_key (f64_add a e) \<le> f64_key (f64_add b e)"
proof -
  have k: "f64_key (Fin s m) = (0, val (Fin s m))" for s m by (simp add: val_def)
  have "?thesis" if e: "e = Fin t n" "0 \<le> val e" for t n
  proof (cases "is_finite a \<and> is_finite b")
    case True
    then obtain s m s' m' where ab: "a = Fin s m" "b = Fin s' m'" by (auto simp: is_finite_def split: f64.splits)
    note sgn = sum_ok_FinD [OF assms(1) ab(1)] sum_ok_FinD [OF assms(2) ab(2)]
    have "0 \<le> val a" "0 \<le> val b" "val a \<le> val b" using sgn assms(4) unfolding ab k by simp_all
    then have "round_key (val a + val e) \<le> round_key (val b + val e)" using e(2) by (intro round_key_mono) auto
    then show ?thesis using add_Fin sgn \<open>0 \<le> val a\<close> \<open>0 \<le> val b\<close> e ab by (metis add_nonneg_nonneg)
  next
    case False
    then have "b = Inf False \<or> a = Inf False"
      using assms(1,2) by (cases a; cases b) (auto simp: is_finite_def sum_ok_def)
    then have b: "b = Inf False" using assms(2,4) by (cases b) (auto simp: sum_ok_def)
    then show ?thesis using key_le_inf by (simp add: b e(1))
  qed
  then show ?thesis using cost_ok_cases [OF assms(3)] sum_add_inf assms(1,2) by auto
qed

section \<open>The total order\<close>

text \<open>\<open>f64::total_cmp\<close> separates the two zeros and puts \<open>NaN\<close> above everything; the sign of a \<open>NaN\<close>
  is not modelled.\<close>

definition f64_total_key :: "f64 \<Rightarrow> (int \<times> rat) \<times> int" where
  "f64_total_key x = (case x of NaN \<Rightarrow> ((2, 0), 1) | _ \<Rightarrow> (f64_key x, if neg x then 0 else 1))"

lemma fst_total_key: "\<not> is_nan x \<Longrightarrow> fst (f64_total_key x) = f64_key x"
  by (cases x) (simp_all add: f64_total_key_def)

lemma total_key_sum: "sum_ok x \<Longrightarrow> f64_total_key x = (f64_key x, 1)"
  by (cases x) (simp_all add: f64_total_key_def sum_ok_def)

section \<open>Costs of walks\<close>

text \<open>What a shortest-path search needs of its costs: sums along a walk stay in the domain, never decrease
  and respect the order of the keys. Rounding is compatible with this, although it makes the sum neither
  associative nor cancellative.\<close>

fun walk :: "('n \<times> 'w \<times> 'n) set \<Rightarrow> 'n \<Rightarrow> ('n \<times> 'w \<times> 'n) list \<Rightarrow> 'n \<Rightarrow> bool" where
  "walk G a [] b = (a = b)"
| "walk G a (e # es) b = (e \<in> G \<and> fst e = a \<and> walk G (snd (snd e)) es b)"

lemma walk_append: "walk G a (p @ q) b \<longleftrightarrow> (\<exists>c. walk G a p c \<and> walk G c q b)"
  by (induction p arbitrary: a) auto

lemma walk_set: "walk G a p b \<Longrightarrow> set p \<subseteq> G"
  by (induction p arbitrary: a) auto

locale path_cost =
  fixes zero :: 'c
    and add :: "'c \<Rightarrow> 'w \<Rightarrow> 'c"
    and key :: "'c \<Rightarrow> 'k :: linorder"
    and good :: "'c \<Rightarrow> bool"
    and weight :: "'w \<Rightarrow> bool"
  assumes good_zero: "good zero"
    and good_add: "good a \<Longrightarrow> weight w \<Longrightarrow> good (add a w)"
    and key_add: "good a \<Longrightarrow> weight w \<Longrightarrow> key a \<le> key (add a w)"
    and key_mono: "good a \<Longrightarrow> good b \<Longrightarrow> weight w \<Longrightarrow> key a \<le> key b \<Longrightarrow> key (add a w) \<le> key (add b w)"
    and key_inj: "good a \<Longrightarrow> good b \<Longrightarrow> key a = key b \<Longrightarrow> a = b"
begin

lemma good_foldl: "\<forall>w\<in>set ws. weight w \<Longrightarrow> good (foldl add zero ws)"
  by (induction ws rule: rev_induct) (simp_all add: good_zero good_add)

text \<open>The labels of a search, ordered by cost and then by the number of hops, grow strictly along an edge.\<close>

lemma label_increases: "good a \<Longrightarrow> weight w \<Longrightarrow> (key a, h :: nat) < (key (add a w), h + 1)"
  using key_add [of a w] by auto

text \<open>The cut property: let \<open>D\<close> label the settled nodes \<open>S\<close> and the frontier, let every edge that leaves
  a settled node be relaxed, and let every label outside \<open>S\<close> be at least \<open>b\<close>. Then a walk costs at least
  the label of its last node, when that is settled, and at least \<open>b\<close> otherwise.\<close>

lemma cut:
  assumes start: "D s0 = Some zero"
    and labels: "\<And>x c. D x = Some c \<Longrightarrow> good c"
    and settled: "\<And>x. x \<in> S \<Longrightarrow> D x \<noteq> None"
    and relaxed: "\<And>u w x c. (u, w, x) \<in> G \<Longrightarrow> u \<in> S \<Longrightarrow> D u = Some c \<Longrightarrow>
      \<exists>c'. D x = Some c' \<and> key c' \<le> key (add c w)"
    and frontier: "\<And>x c. D x = Some c \<Longrightarrow> x \<notin> S \<Longrightarrow> b \<le> key c"
    and weights: "\<And>u w x. (u, w, x) \<in> G \<Longrightarrow> weight w"
    and walk: "walk G s0 p x"
  shows "(x \<in> S \<and> (\<exists>c. D x = Some c \<and> key c \<le> key (foldl add zero (map (\<lambda>e. fst (snd e)) p)))) \<or>
    b \<le> key (foldl add zero (map (\<lambda>e. fst (snd e)) p))"
  using walk
proof (induction p arbitrary: x rule: rev_induct)
  case Nil
  then show ?case using start frontier by auto
next
  case (snoc e p)
  obtain u w y where e: "e = (u, w, y)" by (cases e)
  have G: "(u, w, x) \<in> G" and p: "walk G s0 p u" and y: "y = x"
    using snoc.prems by (auto simp: walk_append e)
  let ?c = "foldl add zero (map (\<lambda>e. fst (snd e)) p)"
  have c: "good ?c" using walk_set [OF p] weights by (intro good_foldl) fastforce
  note wt = weights [OF G]
  have "(x \<in> S \<and> (\<exists>c. D x = Some c \<and> key c \<le> key (add ?c w))) \<or> b \<le> key (add ?c w)"
  proof (cases "b \<le> key ?c")
    case True
    then show ?thesis using key_add [OF c wt] by force
  next
    case False
    then obtain d where d: "u \<in> S" "D u = Some d" "key d \<le> key ?c" using snoc.IH [OF p] by blast
    then obtain d' where d': "D x = Some d'" "key d' \<le> key (add d w)" using relaxed [OF G] by blast
    have "key d' \<le> key (add ?c w)" using d' key_mono [OF labels [OF d(2)] c wt d(3)] by simp
    then show ?thesis using d' frontier [of x d'] by fastforce
  qed
  then show ?case by (simp add: e y)
qed

end

interpretation f64_cost: path_cost f64_zero f64_add f64_key sum_ok cost_ok
  by unfold_locales (auto simp: sum_ok_zero add_cost intro: add_cost_mono dest: sum_ok_key_inj)

end
