(* ===== verification/F64Cast.thy ===== *)
theory F64Cast
  imports F64Order
begin

text \<open>
  The conversions of the standard library between floating point and integers: \<open>ceil\<close>, \<open>round\<close>, the saturating
  casts \<open>as usize\<close> and \<open>as i32\<close>, the cast to \<open>f32\<close>, and \<open>to_radians\<close>. An \<open>f32\<close> is a value of \<open>f64\<close>.
\<close>

type_synonym f32 = f64
type_synonym i32 = "32 word"
type_synonym u16 = "16 word"

fun f64_ceil :: "f64 \<Rightarrow> f64" where
  "f64_ceil (Fin s m) = (let k = \<lceil>val (Fin s m)\<rceil> in if k = 0 then Fin s 0 else Fin (k < 0) (of_int \<bar>k\<bar>))"
| "f64_ceil x = x"

text \<open>\<open>x as usize\<close> saturates and sends \<open>NaN\<close> to zero.\<close>

fun as_usize :: "f64 \<Rightarrow> nat" where
  "as_usize NaN = 0"
| "as_usize (Inf s) = (if s then 0 else 2 ^ 64 - 1)"
| "as_usize (Fin s m) = (if s then 0 else min (nat \<lfloor>m\<rfloor>) (2 ^ 64 - 1))"

text \<open>\<open>f64::round\<close>: to the nearest integer, halves away from zero.\<close>

fun f64_round_away :: "f64 \<Rightarrow> f64" where
  "f64_round_away (Fin s m) = Fin s (of_int \<lfloor>m + 1 / 2\<rfloor>)"
| "f64_round_away x = x"

text \<open>\<open>x as i32\<close> truncates, saturates and sends \<open>NaN\<close> to zero.\<close>

fun as_i32 :: "f64 \<Rightarrow> i32" where
  "as_i32 NaN = 0"
| "as_i32 (Inf s) = (if s then word_of_int (- (2 ^ 31)) else word_of_int (2 ^ 31 - 1))"
| "as_i32 (Fin s m) = word_of_int (if s then max (- \<lfloor>m\<rfloor>) (- (2 ^ 31)) else min \<lfloor>m\<rfloor> (2 ^ 31 - 1))"

text \<open>\<open>x as f32\<close>: 24 bits of significand, least exponent \<open>-149\<close>, overflow at \<open>2 ^ 128\<close>.\<close>

fun as_f32 :: "f64 \<Rightarrow> f32" where
  "as_f32 NaN = NaN"
| "as_f32 (Inf s) = Inf s"
| "as_f32 (Fin s m) = (if m = 0 then Fin s 0 else
     let e = max (floor_log2 m - 23) (- 149);
         v = of_int (round_even (m / 2 powi e)) * 2 powi e
     in if 2 ^ 128 \<le> v then Inf s else Fin s v)"

definition f32_max :: f64 where
  "f32_max = Fin False (2 ^ 128 - 2 ^ 104)"

definition f64_pi :: f64 where
  "f64_pi = Fin False (884279719003555 / 2 ^ 48)"

definition f64_tau :: f64 where
  "f64_tau = Fin False (884279719003555 / 2 ^ 47)"

definition to_radians :: "f64 \<Rightarrow> f64" where
  "to_radians x = f64_mul x (f64_div f64_pi (f64_lit 180))"

section \<open>Errors of rounding\<close>

lemma round_mag_error:
  assumes "0 < m" "m < 2 powi k" "- 1021 \<le> k"
  shows "\<bar>round_mag m - m\<bar> \<le> 2 powi (k - 54)"
proof -
  let ?e = "ulp_exp m"
  have e: "?e \<le> k - 53" using floor_log2_less [OF assms(1,2)] assms(3) by (simp add: ulp_exp_def)
  have "\<bar>m / 2 powi ?e - of_int (round_even (m / 2 powi ?e))\<bar> \<le> 1 / 2" by (rule round_even_near)
  then have "\<bar>m / 2 powi ?e - of_int (round_even (m / 2 powi ?e))\<bar> * 2 powi ?e \<le> 1 / 2 * 2 powi ?e"
    by (intro mult_right_mono) auto
  moreover have "\<bar>m / 2 powi ?e - of_int (round_even (m / 2 powi ?e))\<bar> * 2 powi ?e = \<bar>m - round_mag m\<bar>"
    using assms(1) by (simp add: round_mag_def abs_mult_pos left_diff_distrib)
  moreover have "1 / 2 * 2 powi ?e \<le> (2 :: rat) powi (k - 54)"
  proof -
    have "1 / 2 * (2 :: rat) powi ?e = 2 powi (?e - 1)" by (simp add: power_int_diff)
    also have "\<dots> \<le> 2 powi (k - 54)" using e by (simp add: powi_le_iff)
    finally show ?thesis .
  qed
  ultimately show ?thesis by (simp add: abs_minus_commute)
qed

text \<open>Rounding to the nearest integer moves a number by at most one half.\<close>

lemma round_away_near: "\<bar>of_int \<lfloor>m + 1 / 2\<rfloor> - m\<bar> \<le> (1 / 2 :: rat)"
proof -
  have "of_int \<lfloor>m + 1 / 2\<rfloor> \<le> m + 1 / 2" "m + 1 / 2 < of_int \<lfloor>m + 1 / 2\<rfloor> + 1" by linarith+
  then show ?thesis unfolding abs_le_iff by linarith
qed

text \<open>The cast of an integer in range is exact.\<close>

lemma as_i32_integer:
  assumes "- (2 ^ 31) \<le> (if s then - k else k)" "(if s then - k else k) < 2 ^ 31"
  shows "sint (as_i32 (Fin s (of_int k))) = (if s then - k else k)"
proof -
  have "as_i32 (Fin s (of_int k)) = word_of_int (if s then - k else k)"
  proof (cases s)
    case True
    then have "max (- k) (- (2 ^ 31)) = - k" using assms(1) by (intro max_absorb1) simp
    then show ?thesis using True by (simp only: as_i32.simps floor_of_int if_True)
  next
    case False
    then have "min k (2 ^ 31 - 1) = k" using assms(2) by (intro min_absorb1) simp
    then show ?thesis using False by (simp only: as_i32.simps floor_of_int if_False)
  qed
  moreover have "sint (word_of_int (if s then - k else k) :: i32) = (if s then - k else k)"
    using assms by (simp add: sint_sbintrunc' signed_take_bit_int_eq_self)
  ultimately show ?thesis by simp
qed

end
