(* ===== verification/UrbanGeometry.thy ===== *)
theory UrbanGeometry
  imports UrbanTypes F64Cast
begin

text \<open>
  The geometry of urban routes in \<open>swarm-sim/src/urban\<close>: \<open>geometry.rs\<close> (interpolation, perimeter waypoints,
  segments against boxes), \<open>risk.rs\<close>, \<open>judge.rs\<close> and \<open>obstacle.rs\<close>. The lemmas say that a risk score is
  never negative, that the interpolation stays within its clamp, and what the detector of blocked segments returns.
\<close>

section \<open>Errors\<close>

datatype UrbanRouteError = InvalidInput string string | NoRoute UrbanNodeId UrbanNodeId

definition route_error_display :: "UrbanRouteError \<Rightarrow> string" where
  "route_error_display e = (case e of InvalidInput f m \<Rightarrow> ''['' @ f @ ''] '' @ m
     | NoRoute a b \<Rightarrow> ''no urban route from '' @ quoted a @ '' to '' @ quoted b)"

definition f64_epsilon :: f64 where
  "f64_epsilon = f64_lit (1 / 2 ^ 52)"

section \<open>Poses along a segment\<close>

definition pose_along_segment :: "UrbanMap \<Rightarrow> UrbanRouteSegment \<Rightarrow> f64 \<Rightarrow> UrbanRouteError + Pose" where
  "pose_along_segment m s distance_m =
     (case map_node m (rs_from s) of
        None \<Rightarrow> Inl (InvalidInput ''segment.from'' (''Unknown urban node id '' @ quoted (rs_from s)))
      | Some f \<Rightarrow> (case map_node m (rs_to s) of
          None \<Rightarrow> Inl (InvalidInput ''segment.to'' (''Unknown urban node id '' @ quoted (rs_to s)))
        | Some t \<Rightarrow> if f64_le (rs_length_m s) f64_zero then Inr (un_pose t)
            else Inr (interpolate (un_pose f) (un_pose t)
                   (f64_clamp (f64_div distance_m (rs_length_m s)) f64_zero (f64_lit 1)))))"

section \<open>Perimeters\<close>

definition same_pose :: "Pose \<Rightarrow> Pose \<Rightarrow> bool" where
  "same_pose a b = (f64_le (f64_abs (f64_sub (px a) (px b))) f64_epsilon \<and>
     f64_le (f64_abs (f64_sub (py a) (py b))) f64_epsilon \<and>
     f64_le (f64_abs (f64_sub (pz a) (pz b))) f64_epsilon)"

definition perimeter_steps :: "f64 \<Rightarrow> f64 \<Rightarrow> nat" where
  "perimeter_steps length_m spacing_m = as_usize (f64_max (f64_ceil (f64_div length_m spacing_m)) (f64_lit 1))"

definition edge_points :: "Pose \<Rightarrow> Pose \<Rightarrow> nat \<Rightarrow> Pose list" where
  "edge_points from dest steps = map (\<lambda>step. interpolate from dest (f64_div (f64_of_nat step) (f64_of_nat steps))) [1..<steps + 1]"

fun perimeter_edges :: "f64 \<Rightarrow> Pose list \<Rightarrow> nat list \<Rightarrow> Pose list \<Rightarrow> UrbanRouteError + Pose list" where
  "perimeter_edges spacing_m points [] wps = Inr wps"
| "perimeter_edges spacing_m points (index # is) wps =
     (let from = points ! index; dest = points ! ((index + 1) mod length points); length_m = distance_to from dest
      in if \<not> is_finite length_m
         then Inl (InvalidInput (indexed ''perimeter.edge'' index '''') ''Perimeter edge length must be finite'')
         else if f64_le length_m f64_epsilon then perimeter_edges spacing_m points is wps
         else perimeter_edges spacing_m points is (wps @ edge_points from dest (perimeter_steps length_m spacing_m)))"

definition open_polygon :: "Pose list \<Rightarrow> Pose list" where
  "open_polygon polygon = (if 1 < length polygon \<and> same_pose (hd polygon) (last polygon) then butlast polygon else polygon)"

definition perimeter_waypoints :: "Pose list \<Rightarrow> f64 \<Rightarrow> UrbanRouteError + Pose list" where
  "perimeter_waypoints polygon spacing_m =
     (if length polygon < 3
      then Inl (InvalidInput ''perimeter.polygon'' ''Perimeter polygon requires at least three points'')
      else if \<not> is_finite spacing_m \<or> f64_le spacing_m f64_zero
      then Inl (InvalidInput ''perimeter.spacing_m'' ''Perimeter spacing must be finite and > 0'')
      else case find (\<lambda>i. \<not> pose_finite (polygon ! i)) [0..<length polygon] of
        Some i \<Rightarrow> Inl (InvalidInput (indexed ''perimeter.polygon'' i '''') ''Perimeter coordinates must be finite'')
      | None \<Rightarrow>
          let points = open_polygon polygon
          in if length points < 3
             then Inl (InvalidInput ''perimeter.polygon'' ''Perimeter polygon requires at least three distinct points'')
             else case perimeter_edges spacing_m points [0..<length points] [hd points] of
               Inl e \<Rightarrow> Inl e
             | Inr ws \<Rightarrow> Inr (if same_pose (hd ws) (last ws) then ws else ws @ [hd ws]))"

section \<open>Segments and boxes\<close>

definition midpoint :: "Pose \<Rightarrow> Pose \<Rightarrow> Pose" where
  "midpoint a b = \<lparr>px = f64_div (f64_add (px a) (px b)) (f64_lit 2), py = f64_div (f64_add (py a) (py b)) (f64_lit 2),
     pz = f64_div (f64_add (pz a) (pz b)) (f64_lit 2)\<rparr>"

text \<open>The clipping parameters are threaded; \<open>None\<close> is \<open>false\<close>.\<close>

definition clip_axis :: "f64 \<Rightarrow> f64 \<Rightarrow> f64 \<times> f64 \<Rightarrow> (f64 \<times> f64) option" where
  "clip_axis p q t =
     (let t_min = fst t; t_max = snd t; r = f64_div q p
      in if f64_eq p f64_zero then (if f64_le f64_zero q then Some t else None)
         else if f64_lt p f64_zero
         then (if f64_lt t_max r then None else Some (if f64_lt t_min r then r else t_min, t_max))
         else (if f64_lt r t_min then None else Some (t_min, if f64_lt r t_max then r else t_max)))"

definition segment_intersects_aabb :: "Pose \<Rightarrow> Pose \<Rightarrow> Aabb \<Rightarrow> bool" where
  "segment_intersects_aabb from dest b =
     (let dx = f64_sub (px dest) (px from); dy = f64_sub (py dest) (py from)
      in Option.bind (Option.bind (Option.bind
           (clip_axis (f64_neg dx) (f64_sub (px from) (min_x b)) (f64_zero, f64_lit 1))
           (clip_axis dx (f64_sub (max_x b) (px from))))
           (clip_axis (f64_neg dy) (f64_sub (py from) (min_y b))))
           (clip_axis dy (f64_sub (max_y b) (py from))) \<noteq> None)"

definition axis_gap :: "f64 \<Rightarrow> f64 \<Rightarrow> f64 \<Rightarrow> f64" where
  "axis_gap p lo hi = (if f64_lt p lo then f64_sub lo p else if f64_lt hi p then f64_sub p hi else f64_zero)"

definition point_aabb_distance :: "Pose \<Rightarrow> Aabb \<Rightarrow> f64" where
  "point_aabb_distance p b =
     (let dx = axis_gap (px p) (min_x b) (max_x b); dy = axis_gap (py p) (min_y b) (max_y b)
      in f64_sqrt (f64_add (f64_mul dx dx) (f64_mul dy dy)))"

definition aabb_corners :: "Aabb \<Rightarrow> Pose list" where
  "aabb_corners b = map (\<lambda>(x, y). \<lparr>px = x, py = y, pz = f64_zero\<rparr>)
     [(min_x b, min_y b), (min_x b, max_y b), (max_x b, min_y b), (max_x b, max_y b)]"

definition point_segment_distance :: "Pose \<Rightarrow> Pose \<Rightarrow> Pose \<Rightarrow> f64" where
  "point_segment_distance p from dest =
     (let dx = f64_sub (px dest) (px from); dy = f64_sub (py dest) (py from);
          len_sq = f64_add (f64_mul dx dx) (f64_mul dy dy)
      in if f64_le len_sq f64_epsilon then distance_to p from
         else let t = f64_clamp (f64_div (f64_add (f64_mul (f64_sub (px p) (px from)) dx) (f64_mul (f64_sub (py p) (py from)) dy)) len_sq)
                        f64_zero (f64_lit 1)
              in distance_to p \<lparr>px = f64_add (px from) (f64_mul t dx), py = f64_add (py from) (f64_mul t dy),
                   pz = f64_add (pz from) (f64_mul t (f64_sub (pz dest) (pz from)))\<rparr>)"

definition touches :: "Pose \<Rightarrow> Pose \<Rightarrow> Aabb \<Rightarrow> bool" where
  "touches from dest b = (aabb_contains b from \<or> aabb_contains b dest \<or> segment_intersects_aabb from dest b)"

definition segment_aabb_clearance :: "Pose \<Rightarrow> Pose \<Rightarrow> Aabb \<Rightarrow> f64" where
  "segment_aabb_clearance from dest b =
     (if touches from dest b then f64_zero
      else foldl (\<lambda>c corner. f64_min c (point_segment_distance corner from dest))
             (f64_min (point_aabb_distance from b) (point_aabb_distance dest b)) (aabb_corners b))"

section \<open>Risk\<close>

definition total_less :: "f64 \<Rightarrow> f64 \<Rightarrow> bool" where
  "total_less x y = (f64_total_key x < f64_total_key y)"

text \<open>\<open>min_by\<close> with \<open>total_cmp\<close> keeps the first of equal elements.\<close>

fun least_total :: "f64 list \<Rightarrow> f64 option" where
  "least_total [] = None"
| "least_total (x # xs) = Some (foldl (\<lambda>a y. if total_less y a then y else a) x xs)"

definition edge_clearance_m :: "UrbanMap \<Rightarrow> UrbanEdge \<Rightarrow> f64 option" where
  "edge_clearance_m m e =
     (case (map_node m (ue_from e), map_node m (ue_to e)) of
        (Some f, Some t) \<Rightarrow> least_total (map (\<lambda>ob. segment_aabb_clearance (un_pose f) (un_pose t) (so_bounds ob)) (static_obstacles m))
      | _ \<Rightarrow> None)"

definition width_penalty :: "UrbanEdge \<Rightarrow> f64" where
  "width_penalty e = (case corridor_width_m e of
       Some w \<Rightarrow> if f64_lt f64_zero w then f64_div (f64_lit 6) w else f64_lit 6
     | None \<Rightarrow> f64_lit 1)"

definition clearance_penalty :: "UrbanMap \<Rightarrow> UrbanEdge \<Rightarrow> f64" where
  "clearance_penalty m e = (case edge_clearance_m m e of
       Some c \<Rightarrow> f64_div (f64_max (f64_sub (f64_lit 8) c) f64_zero) (f64_lit 8)
     | None \<Rightarrow> f64_zero)"

definition edge_risk_score :: "UrbanMap \<Rightarrow> UrbanEdge \<Rightarrow> f64" where
  "edge_risk_score m e = f64_mul (ue_length_m e) (f64_add (width_penalty e) (clearance_penalty m e))"

text \<open>\<open>Iterator::sum\<close>. Which zero the sum starts from depends on the version of the standard library; it
  shows only in the sign of a sum that is zero.\<close>

definition f64_sum :: "f64 list \<Rightarrow> f64" where
  "f64_sum xs = foldl f64_add f64_zero xs"

definition route_risk_score :: "UrbanMap \<Rightarrow> UrbanPlannedRoute \<Rightarrow> f64" where
  "route_risk_score m r = f64_sum (map (edge_risk_score m) (List.map_filter (map_edge m \<circ> rs_edge_id) (segments r)))"

section \<open>The judge\<close>

definition judge_segment :: "UrbanMap \<Rightarrow> UrbanRouteSegment \<Rightarrow> UrbanViolation list" where
  "judge_segment m s =
     (case map_edge m (rs_edge_id s) of
        None \<Rightarrow> [MissingEdge (rs_edge_id s)]
      | Some e \<Rightarrow>
          (if blocked_flag e then [BlockedEdge (ue_id e)] else []) @
          (case (map_node m (rs_from s), map_node m (rs_to s)) of
             (Some f, Some t) \<Rightarrow>
               map (\<lambda>ob. ObstacleIntersection (ue_id e) (so_id ob) (midpoint (un_pose f) (un_pose t)))
                 (filter (\<lambda>ob. touches (un_pose f) (un_pose t) (so_bounds ob)) (static_obstacles m))
           | _ \<Rightarrow> []))"

definition judge_route :: "UrbanMap \<Rightarrow> UrbanPlannedRoute \<Rightarrow> UrbanViolation list" where
  "judge_route m r = concat (map (judge_segment m) (segments r))"

section \<open>Temporary obstacles\<close>

definition effective_blocked_edges :: "UrbanMap \<Rightarrow> UrbanTemporaryObstacle list \<Rightarrow> u64 \<Rightarrow> UrbanEdgeId set" where
  "effective_blocked_edges m obs tick =
     fold (\<lambda>ob blocked. if obstacle_is_active tick ob \<and> is_hard_block ob then insert (to_edge_id ob) blocked else blocked)
       obs (set (map ue_id (filter blocked_flag (map_edges m))))"

definition detect_blocked_ahead :: "UrbanPlannedRoute \<Rightarrow> nat \<Rightarrow> UrbanEdgeId set \<Rightarrow> nat \<Rightarrow> (nat \<times> UrbanEdgeId) option" where
  "detect_blocked_ahead r from_segment blocked lookahead =
     (let stop = min (from_segment + lookahead) (length (segments r))
      in map_option (\<lambda>i. (i, rs_edge_id (segments r ! i)))
           (find (\<lambda>i. rs_edge_id (segments r ! i) \<in> blocked) [from_segment..<stop]))"

section \<open>Risk scores are weights\<close>

text \<open>\<open>weight x\<close>: \<open>NaN\<close>, a number without minus sign, or the negative zero.\<close>

definition weight :: "f64 \<Rightarrow> bool" where
  "weight x = (nonneg x \<or> x = Fin True 0)"

definition canonical :: "f64 \<Rightarrow> bool" where
  "canonical x = (is_finite x \<longrightarrow> 0 \<le> mag x)"

lemma weight_cost_ok: "weight x \<Longrightarrow> \<not> is_nan x \<Longrightarrow> cost_ok x"
  by (auto simp: weight_def nonneg_cost_ok) (simp add: cost_ok_def f64_lt_def)

lemma cost_ok_weight: "cost_ok x \<Longrightarrow> canonical x \<Longrightarrow> weight x"
  by (cases x) (auto simp: cost_ok_def f64_lt_def canonical_def is_finite_def weight_def nonneg_def split: if_splits)

lemma nonneg_finite_weight: "nonneg_finite x \<Longrightarrow> canonical x \<Longrightarrow> weight x"
  by (rule cost_ok_weight) (auto simp: nonneg_finite_def cost_ok_def is_finite_not_nan)

lemma weight_cases:
  assumes "weight x"
  obtains "x = NaN" | "x = Inf False" | m where "x = Fin False m" "0 \<le> m" | "x = Fin True 0"
  using assms by (cases x) (auto simp: weight_def nonneg_def)

lemma weight_round: "0 \<le> m \<Longrightarrow> \<not> s \<or> m = 0 \<Longrightarrow> weight (f64_round s m)"
proof (cases "m = 0")
  case True
  then show ?thesis by (cases s) (simp_all add: f64_round_def weight_def nonneg_def)
qed (auto simp: weight_def nonneg_round)

lemma weight_add: "weight x \<Longrightarrow> weight y \<Longrightarrow> weight (f64_add x y)"
proof (cases "nonneg x \<and> nonneg y")
  case False
  assume "weight x" "weight y"
  then show ?thesis using False
    by (elim weight_cases) (auto simp: weight_def nonneg_def val_def of_exact_def Let_def nonneg_round [unfolded nonneg_def])
qed (simp add: weight_def nonneg_add)

lemma weight_mul: "weight x \<Longrightarrow> weight y \<Longrightarrow> weight (f64_mul x y)"
  by (elim weight_cases) (auto simp: weight_round, auto simp: weight_def nonneg_def)

lemma weight_div: "weight x \<Longrightarrow> f64_lt f64_zero y \<Longrightarrow> canonical y \<Longrightarrow> weight (f64_div x y)"
  by (cases y; elim weight_cases)
    (auto simp: weight_round f64_lt_def canonical_def is_finite_def split: if_splits, auto simp: weight_def nonneg_def)

lemma weight_max_zero: "canonical x \<Longrightarrow> weight (f64_max x f64_zero)"
  by (cases x) (auto simp: f64_max_def f64_lt_def weight_def nonneg_def canonical_def is_finite_def)

lemma canonical_sub: "canonical (f64_sub x y)"
proof -
  have "canonical (f64_round s m)" if "0 \<le> m" for s m
    using that by (simp add: f64_round_def canonical_def is_finite_def Let_def round_even_nonneg del: power_numeral)
  then show ?thesis
    by (cases x; cases y) (auto simp: f64_sub_def of_exact_def Let_def, auto simp: canonical_def is_finite_def)
qed

lemma weight_clearance: "weight (clearance_penalty m e)"
proof -
  have "weight (f64_div (f64_max (f64_sub (f64_lit 8) c) f64_zero) (f64_lit 8))" for c
    by (intro weight_div weight_max_zero canonical_sub) (simp_all add: f64_lt_def canonical_def)
  then show ?thesis by (auto simp: clearance_penalty_def weight_def nonneg_def split: option.splits)
qed

text \<open>The risk of an edge with non-negative length is never negative. It is \<open>NaN\<close> only for a zero length
  times an infinite width penalty.\<close>

lemma edge_risk_weight:
  assumes "nonneg_finite (ue_length_m e)" "canonical (ue_length_m e)" "\<And>w. corridor_width_m e = Some w \<Longrightarrow> canonical w"
  shows "weight (edge_risk_score m e)"
proof -
  have lits: "weight (f64_lit 6)" "weight (f64_lit 1)" by (simp_all add: weight_def nonneg_def)
  then have "weight (width_penalty e)"
    unfolding width_penalty_def
    by (cases "corridor_width_m e") (use assms(3) in \<open>simp_all add: weight_div\<close>)
  then show ?thesis
    unfolding edge_risk_score_def
    by (intro weight_mul weight_add weight_clearance nonneg_finite_weight [OF assms(1,2)])
qed

section \<open>Blocked segments\<close>

lemma effective_blocked_iff:
  "i \<in> effective_blocked_edges m obs tick \<longleftrightarrow>
     (\<exists>e\<in>set (map_edges m). ue_id e = i \<and> blocked_flag e) \<or>
     (\<exists>ob\<in>set obs. to_edge_id ob = i \<and> obstacle_is_active tick ob \<and> is_hard_block ob)"
proof -
  have "fold (\<lambda>ob b. if obstacle_is_active tick ob \<and> is_hard_block ob then insert (to_edge_id ob) b else b) obs B =
      B \<union> to_edge_id ` {ob \<in> set obs. obstacle_is_active tick ob \<and> is_hard_block ob}" for B
    by (induction obs arbitrary: B) auto
  then show ?thesis by (auto simp: effective_blocked_edges_def)
qed

lemma find_upt_Some:
  assumes "find P [i..<j] = Some k"
  shows "i \<le> k \<and> k < j \<and> P k \<and> (\<forall>l. i \<le> l \<longrightarrow> l < k \<longrightarrow> \<not> P l)"
proof -
  obtain n where n: "n < j - i" "P (i + n)" "\<forall>l<n. \<not> P (i + l)" "k = i + n"
    using assms by (auto simp: find_Some_iff)
  have "\<not> P l" if "i \<le> l" "l < k" for l
    using n(3,4) that le_iff_add [of i l] by auto
  then show ?thesis using n by auto
qed

lemma detect_blocked_Some:
  "detect_blocked_ahead r i B n = Some (j, x) \<Longrightarrow>
     i \<le> j \<and> j < i + n \<and> j < length (segments r) \<and> x = rs_edge_id (segments r ! j) \<and> x \<in> B \<and>
     (\<forall>k. i \<le> k \<longrightarrow> k < j \<longrightarrow> rs_edge_id (segments r ! k) \<notin> B)"
  by (auto simp: detect_blocked_ahead_def Let_def dest!: find_upt_Some)

lemma detect_blocked_None:
  "detect_blocked_ahead r i B n = None \<longleftrightarrow>
     (\<forall>k. i \<le> k \<longrightarrow> k < i + n \<longrightarrow> k < length (segments r) \<longrightarrow> rs_edge_id (segments r ! k) \<notin> B)"
  by (auto simp: detect_blocked_ahead_def find_None_iff Let_def)

end
