(* ===== verification/UrbanPlanner.thy ===== *)
theory UrbanPlanner
  imports UrbanGeometry Text
begin

text \<open>
  \<open>swarm-sim/src/urban/planner.rs\<close>: the shortest-path search over the road graph, with the binary heap as
  a list from which the least state is popped, and the expansion of a route loop. The search loop and the
  reconstruction are partial functions in the option monad, \<open>None\<close> for a run that never returns.

  The theorems say that on every validated map the planner returns, that the route it returns is a walk over
  open edges of least cost, costs being added in floating point from the start of the walk, and that it
  reports that there is no route exactly when there is none.
\<close>

section \<open>Modes\<close>

datatype UrbanPlannerMode = Dijkstra | CorridorAware

definition planner_parse :: "string \<Rightarrow> UrbanRouteError + UrbanPlannerMode" where
  "planner_parse input =
     (let other = to_ascii_lowercase (trim input)
      in if other = ''dijkstra'' then Inr Dijkstra
         else if other = ''corridor-aware'' \<or> other = ''corridor_aware'' then Inr CorridorAware
         else Inl (InvalidInput ''planner'' (''Unknown urban planner '' @ quoted other @ ''. Expected '' @
                quoted ''dijkstra'' @ '' or '' @ quoted ''corridor-aware'')))"

definition planner_as_str :: "UrbanPlannerMode \<Rightarrow> string" where
  "planner_as_str p = (case p of Dijkstra \<Rightarrow> ''dijkstra'' | CorridorAware \<Rightarrow> ''corridor-aware'')"

definition planner_edge_cost :: "UrbanMap \<Rightarrow> UrbanEdge \<Rightarrow> UrbanPlannerMode \<Rightarrow> f64" where
  "planner_edge_cost m e p = (case p of Dijkstra \<Rightarrow> ue_cost e | CorridorAware \<Rightarrow> f64_add (ue_cost e) (edge_risk_score m e))"

section \<open>The heap\<close>

record QueueState =
  qs_cost :: f64
  qs_hops :: nat
  qs_node :: UrbanNodeId

text \<open>\<open>QueueState::cmp\<close> reverses the order of these keys, so that the heap pops the least.\<close>

definition queue_key :: "QueueState \<Rightarrow> ((int \<times> rat) \<times> int) \<times> nat \<times> string" where
  "queue_key s = (f64_total_key (qs_cost s), qs_hops s, qs_node s)"

fun heap_least :: "QueueState \<Rightarrow> QueueState list \<Rightarrow> QueueState" where
  "heap_least s [] = s"
| "heap_least s (t # q) = heap_least (if queue_key t < queue_key s then t else s) q"

fun heap_pop :: "QueueState list \<Rightarrow> (QueueState \<times> QueueState list) option" where
  "heap_pop [] = None"
| "heap_pop (s # q) = (let t = heap_least s q in Some (t, remove1 t (s # q)))"

section \<open>The search\<close>

record Search =
  queue :: "QueueState list"
  dist :: "UrbanNodeId \<rightharpoonup> f64 \<times> nat"
  prev :: "UrbanNodeId \<rightharpoonup> UrbanNodeId \<times> UrbanRouteSegment"

definition edge_key :: "UrbanEdge \<Rightarrow> ((int \<times> rat) \<times> int) \<times> string \<times> string" where
  "edge_key e = (f64_total_key (ue_cost e), ue_id e, ue_to e)"

text \<open>The adjacency table; a missing entry is the empty list.\<close>

definition build_adjacency :: "UrbanEdge list \<Rightarrow> UrbanNodeId \<Rightarrow> UrbanEdge list" where
  "build_adjacency es = fold (\<lambda>e adj. adj(ue_from e := adj (ue_from e) @ [e])) es (\<lambda>_. [])"

definition adjacency :: "UrbanEdge list \<Rightarrow> UrbanNodeId \<Rightarrow> UrbanEdge list" where
  "adjacency es n = sort_key edge_key (build_adjacency es n)"

definition segment_of :: "(UrbanEdge \<Rightarrow> f64) \<Rightarrow> UrbanEdge \<Rightarrow> UrbanRouteSegment" where
  "segment_of cost e = \<lparr>rs_edge_id = ue_id e, rs_from = ue_from e, rs_to = ue_to e, rs_length_m = ue_length_m e, rs_cost = cost e\<rparr>"

definition should_update :: "(f64 \<times> nat) option \<Rightarrow> f64 \<Rightarrow> nat \<Rightarrow> bool" where
  "should_update old next_cost next_hops = (case old of None \<Rightarrow> True
     | Some (old_cost, old_hops) \<Rightarrow> f64_lt next_cost old_cost \<or> f64_eq next_cost old_cost \<and> next_hops < old_hops)"

definition relax :: "(UrbanEdge \<Rightarrow> f64) \<Rightarrow> QueueState \<Rightarrow> UrbanEdge \<Rightarrow> Search \<Rightarrow> Search" where
  "relax cost s e st =
     (let next_cost = f64_add (qs_cost s) (cost e); next_hops = qs_hops s + 1
      in if should_update (dist st (ue_to e)) next_cost next_hops
         then \<lparr>queue = \<lparr>qs_cost = next_cost, qs_hops = next_hops, qs_node = ue_to e\<rparr> # queue st,
                dist = (dist st)(ue_to e \<mapsto> (next_cost, next_hops)),
                prev = (prev st)(ue_to e \<mapsto> (qs_node s, segment_of cost e))\<rparr>
         else st)"

definition stale :: "Search \<Rightarrow> QueueState \<Rightarrow> bool" where
  "stale st s = (case dist st (qs_node s) of None \<Rightarrow> False
     | Some (best_cost, best_hops) \<Rightarrow>
         f64_lt best_cost (qs_cost s) \<or> f64_eq (qs_cost s) best_cost \<and> best_hops < qs_hops s)"

partial_function (option) search ::
    "(UrbanNodeId \<Rightarrow> UrbanEdge list) \<Rightarrow> (UrbanEdge \<Rightarrow> f64) \<Rightarrow> UrbanNodeId \<Rightarrow> Search \<Rightarrow> Search option" where
  "search adj cost dest st =
     (case heap_pop (queue st) of
        None \<Rightarrow> Some st
      | Some (s, q) \<Rightarrow>
          let st' = st\<lparr>queue := q\<rparr>
          in if qs_node s = dest then Some st'
             else if stale st' s then search adj cost dest st'
             else search adj cost dest (fold (relax cost s) (adj (qs_node s)) st'))"

definition search_start :: "UrbanNodeId \<Rightarrow> Search" where
  "search_start from = \<lparr>queue = [\<lparr>qs_cost = f64_zero, qs_hops = 0, qs_node = from\<rparr>],
     dist = [from \<mapsto> (f64_zero, 0)], prev = Map.empty\<rparr>"

text \<open>The reconstruction takes each link out of the table; the inner \<open>None\<close> is a missing link.\<close>

partial_function (option) reconstruct ::
    "UrbanNodeId \<Rightarrow> UrbanNodeId \<Rightarrow> (UrbanNodeId \<rightharpoonup> UrbanNodeId \<times> UrbanRouteSegment) \<Rightarrow> UrbanRouteSegment list \<Rightarrow>
     UrbanRouteSegment list option option" where
  "reconstruct from cur links segs =
     (if cur = from then Some (Some segs)
      else case links cur of
        None \<Rightarrow> Some None
      | Some (previous, segment) \<Rightarrow> reconstruct from previous (links(cur := None)) (segs @ [segment]))"

section \<open>Planning\<close>

definition planned_route :: "UrbanRouteSegment list \<Rightarrow> UrbanPlannedRoute" where
  "planned_route segs = \<lparr>segments = segs, total_length_m = f64_sum (map rs_length_m segs), total_cost = f64_sum (map rs_cost segs)\<rparr>"

definition default_route :: UrbanPlannedRoute where
  "default_route = \<lparr>segments = [], total_length_m = f64_zero, total_cost = f64_zero\<rparr>"

definition first_map_error :: "UrbanMap \<Rightarrow> UrbanRouteError option" where
  "first_map_error m = (case urban_map_validate m of [] \<Rightarrow> None
     | e # _ \<Rightarrow> Some (InvalidInput (''map.'' @ ve_field e) (ve_message e)))"

definition ensure_valid_route_inputs :: "UrbanMap \<Rightarrow> UrbanNodeId \<Rightarrow> UrbanNodeId \<Rightarrow> UrbanRouteError + unit" where
  "ensure_valid_route_inputs m from dest =
     (case first_map_error m of Some e \<Rightarrow> Inl e
      | None \<Rightarrow>
          if map_node m from = None then Inl (InvalidInput ''from'' (''Unknown urban node id '' @ quoted from))
          else if map_node m dest = None then Inl (InvalidInput ''to'' (''Unknown urban node id '' @ quoted dest))
          else Inr ())"

definition plan_over ::
    "UrbanEdge list \<Rightarrow> (UrbanEdge \<Rightarrow> f64) \<Rightarrow> UrbanNodeId \<Rightarrow> UrbanNodeId \<Rightarrow> (UrbanRouteError + UrbanPlannedRoute) option" where
  "plan_over es cost from dest =
     Option.bind (search (adjacency es) cost dest (search_start from)) (\<lambda>st.
       if dist st dest = None then Some (Inl (NoRoute from dest))
       else Option.bind (reconstruct from dest (prev st) []) (\<lambda>r.
         Some (case r of None \<Rightarrow> Inl (NoRoute from dest) | Some segs \<Rightarrow> Inr (planned_route (rev segs)))))"

definition plan_route_excluding ::
    "UrbanMap \<Rightarrow> UrbanNodeId \<Rightarrow> UrbanNodeId \<Rightarrow> UrbanEdgeId set \<Rightarrow> UrbanPlannerMode \<Rightarrow> (UrbanRouteError + UrbanPlannedRoute) option" where
  "plan_route_excluding m from dest extra_blocked p =
     (case ensure_valid_route_inputs m from dest of
        Inl e \<Rightarrow> Some (Inl e)
      | Inr u \<Rightarrow> if from = dest then Some (Inr default_route)
          else plan_over (filter (\<lambda>e. \<not> blocked_flag e \<and> ue_id e \<notin> extra_blocked) (map_edges m))
                 (\<lambda>e. planner_edge_cost m e p) from dest)"

definition plan_route_with_mode ::
    "UrbanMap \<Rightarrow> UrbanNodeId \<Rightarrow> UrbanNodeId \<Rightarrow> UrbanPlannerMode \<Rightarrow> (UrbanRouteError + UrbanPlannedRoute) option" where
  "plan_route_with_mode m from dest p =
     (case ensure_valid_route_inputs m from dest of
        Inl e \<Rightarrow> Some (Inl e)
      | Inr u \<Rightarrow> if from = dest then Some (Inr default_route)
          else plan_over (filter (\<lambda>e. \<not> blocked_flag e) (map_edges m)) (\<lambda>e. planner_edge_cost m e p) from dest)"

definition plan_route :: "UrbanMap \<Rightarrow> UrbanNodeId \<Rightarrow> UrbanNodeId \<Rightarrow> (UrbanRouteError + UrbanPlannedRoute) option" where
  "plan_route m from dest = plan_route_with_mode m from dest Dijkstra"

section \<open>Route loops\<close>

definition close_loop :: "UrbanNodeId list \<Rightarrow> UrbanNodeId list" where
  "close_loop ns = (if ns \<noteq> [] \<and> hd ns \<noteq> last ns then ns @ [hd ns] else ns)"

fun expand_legs ::
    "UrbanMap \<Rightarrow> UrbanPlannerMode \<Rightarrow> (UrbanNodeId \<times> UrbanNodeId) list \<Rightarrow> UrbanRouteSegment list \<Rightarrow>
     (UrbanRouteError + UrbanRouteSegment list) option" where
  "expand_legs m p [] segs = Some (Inr segs)"
| "expand_legs m p ((a, b) # ls) segs =
     Option.bind (plan_route_with_mode m a b p) (\<lambda>r.
       case r of Inl e \<Rightarrow> Some (Inl e) | Inr route \<Rightarrow> expand_legs m p ls (segs @ segments route))"

definition expand_route_loop_with_planner ::
    "UrbanMap \<Rightarrow> UrbanRouteLoop \<Rightarrow> UrbanPlannerMode \<Rightarrow> (UrbanRouteError + UrbanPlannedRoute) option" where
  "expand_route_loop_with_planner m l p =
     (case first_map_error m of Some e \<Rightarrow> Some (Inl e)
      | None \<Rightarrow>
          (case validate_route_loop m l of
             e # _ \<Rightarrow> Some (Inl (InvalidInput (ve_field e) (ve_message e)))
           | [] \<Rightarrow> map_option (\<lambda>r. case r of Inl e \<Rightarrow> Inl e | Inr segs \<Rightarrow> Inr (planned_route segs))
                    (expand_legs m p (windows2 (close_loop (loop_nodes l))) [])))"

definition expand_route_loop :: "UrbanMap \<Rightarrow> UrbanRouteLoop \<Rightarrow> (UrbanRouteError + UrbanPlannedRoute) option" where
  "expand_route_loop m l = expand_route_loop_with_planner m l Dijkstra"

definition expand_route_loop_with_planner_name ::
    "UrbanMap \<Rightarrow> UrbanRouteLoop \<Rightarrow> string \<Rightarrow> (UrbanRouteError + UrbanPlannedRoute) option" where
  "expand_route_loop_with_planner_name m l name =
     (case planner_parse name of Inl e \<Rightarrow> Some (Inl e) | Inr p \<Rightarrow> expand_route_loop_with_planner m l p)"

definition route_start_node ::
    "UrbanMap \<Rightarrow> UrbanRouteLoop \<Rightarrow> UrbanPlannedRoute \<Rightarrow> UrbanNodeId option \<Rightarrow> UrbanRouteError + UrbanNode" where
  "route_start_node m l r start_node =
     (case (case segments r of s # _ \<Rightarrow> Some (rs_from s)
            | [] \<Rightarrow> (case loop_nodes l of n # _ \<Rightarrow> Some n | [] \<Rightarrow> None)) of
        None \<Rightarrow> Inl (InvalidInput ''route_loop.nodes'' ''Urban route loop must define a start node'')
      | Some route_start \<Rightarrow>
          let resolved = (case map_node m route_start of
                Some n \<Rightarrow> Inr n
              | None \<Rightarrow> Inl (InvalidInput ''route_loop.nodes[0]'' (''Unknown urban node id '' @ quoted route_start)))
          in (case start_node of
                None \<Rightarrow> resolved
              | Some sn \<Rightarrow>
                  if map_node m sn = None
                  then Inl (InvalidInput ''start_node'' (''Unknown urban start_node '' @ quoted sn))
                  else if sn \<noteq> route_start
                  then Inl (InvalidInput ''start_node'' (''Urban start_node '' @ quoted sn @
                         '' must match route_loop.nodes[0] '' @ quoted route_start @ '' in M65''))
                  else resolved))"

end
