(* ===== verification/UrbanOptimal.thy ===== *)
theory UrbanOptimal
  imports UrbanPlanner
begin

text \<open>
  Correctness of the shortest-path search of \<open>UrbanPlanner\<close>. The invariant of the loop speaks of the set
  \<open>S\<close> of settled nodes and the set \<open>R\<close> of relaxed edges; optimality is the cut property of the locale
  \<open>path_cost\<close>, interpreted on floating-point sums.
\<close>

section \<open>The heap\<close>

lemma heap_least_mem: "heap_least s q \<in> insert s (set q)"
  by (induction q arbitrary: s) (auto split: if_splits)

lemma heap_least_le: "t \<in> insert s (set q) \<Longrightarrow> queue_key (heap_least s q) \<le> queue_key t"
proof (induction q arbitrary: s t)
  case (Cons u q)
  let ?s = "if queue_key u < queue_key s then u else s"
  have "queue_key (heap_least ?s q) \<le> queue_key ?s" using Cons.IH [of ?s ?s] by simp
  moreover have "queue_key ?s \<le> queue_key s" "queue_key ?s \<le> queue_key u" by auto
  moreover have "queue_key (heap_least ?s q) \<le> queue_key t" if "t \<in> set q" using Cons.IH [of t ?s] that by simp
  ultimately show ?case using Cons.prems by (auto simp del: if_split intro: order_trans)
qed simp

lemma heap_pop_None [simp]: "heap_pop q = None \<longleftrightarrow> q = []"
  by (cases q) (simp_all add: Let_def)

lemma heap_pop_SomeD:
  assumes "heap_pop q = Some (s, q')"
  shows "s \<in> set q" "q' = remove1 s q" "\<And>t. t \<in> set q \<Longrightarrow> queue_key s \<le> queue_key t" "length q' < length q"
proof -
  obtain x xs where q: "q = x # xs" using assms by (cases q) auto
  then have s: "s = heap_least x xs" and q': "q' = remove1 s q" using assms by (auto simp: Let_def)
  show mem: "s \<in> set q" using heap_least_mem [of x xs] s q by simp
  show "q' = remove1 s q" by (rule q')
  show "queue_key s \<le> queue_key t" if "t \<in> set q" for t using heap_least_le [of t x xs] that s q by simp
  show "length q' < length q" using length_remove1 [of s q] mem q unfolding q' by simp
qed

section \<open>Walks and labels\<close>

fun route_walk :: "UrbanEdge set \<Rightarrow> UrbanNodeId \<Rightarrow> UrbanEdge list \<Rightarrow> UrbanNodeId \<Rightarrow> bool" where
  "route_walk E a [] b = (a = b)"
| "route_walk E a (e # es) b = (e \<in> E \<and> ue_from e = a \<and> route_walk E (ue_to e) es b)"

definition route_cost :: "(UrbanEdge \<Rightarrow> f64) \<Rightarrow> UrbanEdge list \<Rightarrow> f64" where
  "route_cost cost es = f64_sum (map cost es)"

lemma route_walk_snoc: "route_walk E a (es @ [e]) b \<longleftrightarrow> route_walk E a es (ue_from e) \<and> e \<in> E \<and> ue_to e = b"
  by (induction es arbitrary: a) auto

lemma route_cost_snoc: "route_cost cost (es @ [e]) = f64_add (route_cost cost es) (cost e)"
  by (simp add: route_cost_def f64_sum_def)

definition triple :: "(UrbanEdge \<Rightarrow> f64) \<Rightarrow> UrbanEdge \<Rightarrow> UrbanNodeId \<times> f64 \<times> UrbanNodeId" where
  "triple cost e = (ue_from e, cost e, ue_to e)"

lemma walk_triple: "route_walk E a es b \<Longrightarrow> walk (triple cost ` E) a (map (triple cost) es) b"
  by (induction es arbitrary: a) (auto simp: triple_def)

lemma cost_triple: "foldl f64_add f64_zero (map (\<lambda>e. fst (snd e)) (map (triple cost) es)) = route_cost cost es"
  by (simp add: route_cost_def f64_sum_def triple_def comp_def)

definition label :: "f64 \<times> nat \<Rightarrow> (int \<times> rat) \<times> nat" where
  "label d = (f64_key (fst d), snd d)"

definition qd :: "QueueState \<Rightarrow> f64 \<times> nat" where
  "qd s = (qs_cost s, qs_hops s)"

lemma label_inj: "sum_ok c \<Longrightarrow> sum_ok c' \<Longrightarrow> label (c, h) = label (c', h') \<Longrightarrow> c = c' \<and> h = h'"
  using f64_cost.key_inj by (auto simp: label_def)

lemma label_key: "label d \<le> label d' \<Longrightarrow> f64_key (fst d) \<le> f64_key (fst d')"
  by (auto simp: label_def)

lemma queue_key_label:
  assumes "queue_key s \<le> queue_key t" "sum_ok (qs_cost s)" "sum_ok (qs_cost t)"
  shows "label (qd s) \<le> label (qd t)"
  using assms by (auto simp: queue_key_def total_key_sum label_def qd_def)

lemma update_iff_label:
  assumes "sum_ok c" "\<And>d. old = Some d \<Longrightarrow> sum_ok (fst d)"
  shows "should_update old c h \<longleftrightarrow> (\<forall>d. old = Some d \<longrightarrow> label (c, h) < label d)"
  using assms sum_ok_not_nan
  by (auto simp: should_update_def label_def f64_lt_def f64_eq_def split: option.splits)

lemma stale_iff_label:
  assumes "sum_ok (qs_cost s)" "dist st (qs_node s) = Some d" "sum_ok (fst d)"
  shows "stale st s \<longleftrightarrow> label d < label (qd s)"
  using assms sum_ok_not_nan
  by (auto simp: stale_def label_def qd_def f64_lt_def f64_eq_def split: prod.splits)

section \<open>The invariant\<close>

definition linked :: "UrbanEdge set \<Rightarrow> (UrbanEdge \<Rightarrow> f64) \<Rightarrow> UrbanNodeId set \<Rightarrow> Search \<Rightarrow> UrbanNodeId \<Rightarrow> f64 \<times> nat \<Rightarrow> bool" where
  "linked E cost S st x d =
     (\<exists>e\<in>E. \<exists>du. ue_to e = x \<and> ue_from e \<in> S \<and> prev st x = Some (ue_from e, segment_of cost e) \<and>
        dist st (ue_from e) = Some du \<and> d = (f64_add (fst du) (cost e), snd du + 1))"

definition search_inv ::
    "UrbanEdge set \<Rightarrow> (UrbanEdge \<Rightarrow> f64) \<Rightarrow> UrbanNodeId \<Rightarrow> UrbanNodeId set \<Rightarrow> UrbanEdge set \<Rightarrow> Search \<Rightarrow> bool" where
  "search_inv E cost from S R st =
     (dist st from = Some (f64_zero, 0) \<and>
      (\<forall>x d. dist st x = Some d \<longrightarrow> sum_ok (fst d) \<and> (x \<noteq> from \<longrightarrow> linked E cost S st x d)) \<and>
      (\<forall>q\<in>set (queue st). sum_ok (qs_cost q) \<and> (\<exists>d. dist st (qs_node q) = Some d \<and> label d \<le> label (qd q))) \<and>
      (\<forall>x d. dist st x = Some d \<longrightarrow> x \<notin> S \<longrightarrow> \<lparr>qs_cost = fst d, qs_hops = snd d, qs_node = x\<rparr> \<in> set (queue st)) \<and>
      (\<forall>x\<in>S. \<exists>d. dist st x = Some d \<and> (\<forall>q\<in>set (queue st). label d \<le> label (qd q))) \<and>
      (\<forall>e\<in>R. ue_from e \<in> S \<and> (\<exists>d d'. dist st (ue_from e) = Some d \<and> dist st (ue_to e) = Some d' \<and>
         label d' \<le> label (f64_add (fst d) (cost e), snd d + 1))))"

lemma search_invI:
  assumes "dist st from = Some (f64_zero, 0)"
    and "\<And>x d. dist st x = Some d \<Longrightarrow> sum_ok (fst d)"
    and "\<And>x d. dist st x = Some d \<Longrightarrow> x \<noteq> from \<Longrightarrow> linked E cost S st x d"
    and "\<And>q. q \<in> set (queue st) \<Longrightarrow> sum_ok (qs_cost q)"
    and "\<And>q. q \<in> set (queue st) \<Longrightarrow> \<exists>d. dist st (qs_node q) = Some d \<and> label d \<le> label (qd q)"
    and "\<And>x d. dist st x = Some d \<Longrightarrow> x \<notin> S \<Longrightarrow> \<lparr>qs_cost = fst d, qs_hops = snd d, qs_node = x\<rparr> \<in> set (queue st)"
    and "\<And>x. x \<in> S \<Longrightarrow> \<exists>d. dist st x = Some d \<and> (\<forall>q\<in>set (queue st). label d \<le> label (qd q))"
    and "\<And>e. e \<in> R \<Longrightarrow> ue_from e \<in> S \<and> (\<exists>d d'. dist st (ue_from e) = Some d \<and> dist st (ue_to e) = Some d' \<and>
         label d' \<le> label (f64_add (fst d) (cost e), snd d + 1))"
  shows "search_inv E cost from S R st"
  unfolding search_inv_def using assms by blast

lemma search_invD:
  assumes "search_inv E cost from S R st"
  shows "dist st from = Some (f64_zero, 0)"
    and "dist st x = Some d \<Longrightarrow> sum_ok (fst d)"
    and "dist st x = Some d \<Longrightarrow> x \<noteq> from \<Longrightarrow> linked E cost S st x d"
    and "q \<in> set (queue st) \<Longrightarrow> sum_ok (qs_cost q)"
    and "q \<in> set (queue st) \<Longrightarrow> \<exists>d. dist st (qs_node q) = Some d \<and> label d \<le> label (qd q)"
    and "dist st x = Some d \<Longrightarrow> x \<notin> S \<Longrightarrow> \<lparr>qs_cost = fst d, qs_hops = snd d, qs_node = x\<rparr> \<in> set (queue st)"
    and "x \<in> S \<Longrightarrow> \<exists>d. dist st x = Some d \<and> (\<forall>q\<in>set (queue st). label d \<le> label (qd q))"
    and "e \<in> R \<Longrightarrow> ue_from e \<in> S \<and> (\<exists>d d'. dist st (ue_from e) = Some d \<and> dist st (ue_to e) = Some d' \<and>
         label d' \<le> label (f64_add (fst d) (cost e), snd d + 1))"
  using assms unfolding search_inv_def by blast+

lemma search_inv_start: "search_inv E cost from {} {} (search_start from)"
  by (rule search_invI) (auto simp: search_start_def qd_def split: if_splits)

section \<open>Relaxation\<close>

lemma label_zero: "sum_ok c \<Longrightarrow> label (f64_zero, 0) < label (c, Suc h)"
  by (cases c) (auto simp: label_def sum_ok_def val_def)

lemma label_add: "sum_ok c \<Longrightarrow> cost_ok w \<Longrightarrow> label (c, h) < label (f64_add c w, Suc h)"
  using f64_cost.label_increases [of c w h] by (simp add: label_def)

text \<open>A new, smaller label for a node that is not settled.\<close>

definition relabel :: "(UrbanEdge \<Rightarrow> f64) \<Rightarrow> UrbanEdge \<Rightarrow> f64 \<times> nat \<Rightarrow> Search \<Rightarrow> Search" where
  "relabel cost e d st =
     \<lparr>queue = \<lparr>qs_cost = fst d, qs_hops = snd d, qs_node = ue_to e\<rparr> # queue st, dist = (dist st)(ue_to e \<mapsto> d),
      prev = (prev st)(ue_to e \<mapsto> (ue_from e, segment_of cost e))\<rparr>"

lemma relax_relabel:
  assumes "ue_from e = qs_node s"
  shows "relax cost s e st =
    (if should_update (dist st (ue_to e)) (f64_add (qs_cost s) (cost e)) (qs_hops s + 1)
     then relabel cost e (f64_add (qs_cost s) (cost e), qs_hops s + 1) st else st)"
  by (simp add: relax_def relabel_def Let_def assms)

lemma relabel_linked:
  assumes inv: "search_inv E cost from S R st" and x: "dist (relabel cost e d st) x = Some dx" "x \<noteq> from"
    and e: "e \<in> E" "ue_from e \<in> S" "ue_to e \<notin> S" "dist st (ue_from e) = Some du" "d = (f64_add (fst du) (cost e), snd du + 1)"
  shows "linked E cost S (relabel cost e d st) x dx"
proof (cases "x = ue_to e")
  case True
  then show ?thesis
    unfolding linked_def using x e by (intro bexI [of _ e] exI [of _ du]) (auto simp: relabel_def)
next
  case False
  then have "linked E cost S st x dx" using x search_invD(3) [OF inv] by (simp add: relabel_def)
  then obtain e' du' where "e' \<in> E" "ue_to e' = x" "ue_from e' \<in> S" "prev st x = Some (ue_from e', segment_of cost e')"
      "dist st (ue_from e') = Some du'" "dx = (f64_add (fst du') (cost e'), snd du' + 1)"
    unfolding linked_def by blast
  then show ?thesis
    unfolding linked_def using False e(3) by (intro bexI [of _ e'] exI [of _ du']) (auto simp: relabel_def)
qed

lemma relabel_queue:
  assumes inv: "search_inv E cost from S R st" and q: "q \<in> set (queue (relabel cost e d st))"
    and new: "\<And>d'. dist st (ue_to e) = Some d' \<Longrightarrow> label d < label d'"
  shows "\<exists>d'. dist (relabel cost e d st) (qs_node q) = Some d' \<and> label d' \<le> label (qd q)"
proof (cases "q \<in> set (queue st)")
  case True
  then obtain d' where "dist st (qs_node q) = Some d'" "label d' \<le> label (qd q)" using search_invD(5) [OF inv] by blast
  then show ?thesis using new [of d'] by (auto simp: relabel_def simp del: split_paired_Ex)
next
  case False
  then show ?thesis using q by (auto simp: relabel_def qd_def)
qed

lemma relabel_inv:
  assumes inv: "search_inv E cost from S R st"
    and e: "e \<in> E" "ue_from e \<in> S" "ue_to e \<notin> S" "dist st (ue_from e) = Some du" "d = (f64_add (fst du) (cost e), snd du + 1)"
    and new: "\<And>d'. dist st (ue_to e) = Some d' \<Longrightarrow> label d < label d'"
    and top: "\<And>x d'. x \<in> S \<Longrightarrow> dist st x = Some d' \<Longrightarrow> label d' \<le> label d"
    and d: "sum_ok (fst d)" "ue_to e \<noteq> from"
  shows "search_inv E cost from S (insert e R) (relabel cost e d st)"
proof (rule search_invI)
  let ?st = "relabel cost e d st"
  note D = search_invD [OF inv]
  have same: "dist ?st x = dist st x" if "x \<in> S" for x using that e(3) by (auto simp: relabel_def)
  show "dist ?st from = Some (f64_zero, 0)" using D(1) d(2) by (simp add: relabel_def)
  show "sum_ok (fst dx)" if "dist ?st x = Some dx" for x dx using that D(2) d(1) by (auto simp: relabel_def split: if_splits)
  show "sum_ok (qs_cost q)" if "q \<in> set (queue ?st)" for q using that D(4) d(1) by (auto simp: relabel_def)
  show "\<lparr>qs_cost = fst dx, qs_hops = snd dx, qs_node = x\<rparr> \<in> set (queue ?st)" if "dist ?st x = Some dx" "x \<notin> S" for x dx
    using that D(6) by (auto simp: relabel_def split: if_splits)
  show "\<exists>dx. dist ?st x = Some dx \<and> (\<forall>q\<in>set (queue ?st). label dx \<le> label (qd q))" if x: "x \<in> S" for x
    using D(7) [OF x] top [OF x] same [OF x] by (auto simp: relabel_def qd_def)
  show "ue_from e' \<in> S \<and> (\<exists>d d'. dist ?st (ue_from e') = Some d \<and> dist ?st (ue_to e') = Some d' \<and>
      label d' \<le> label (f64_add (fst d) (cost e'), snd d + 1))" if "e' \<in> insert e R" for e'
  proof (cases "e' = e")
    case True
    then show ?thesis using e same [OF e(2)] by (simp add: relabel_def)
  next
    case False
    then obtain d1 d2 where d12: "ue_from e' \<in> S" "dist st (ue_from e') = Some d1" "dist st (ue_to e') = Some d2"
        "label d2 \<le> label (f64_add (fst d1) (cost e'), snd d1 + 1)" using D(8) [of e'] \<open>e' \<in> insert e R\<close> by blast
    have "\<exists>d3. dist ?st (ue_to e') = Some d3 \<and> label d3 \<le> label d2" using new [of d2] d12(3) by (auto simp: relabel_def simp del: split_paired_Ex)
    then show ?thesis using d12 same [OF d12(1)] by (metis order_trans)
  qed
qed (use relabel_linked [OF inv _ _ e] relabel_queue [OF inv _ new] in blast)+

lemma relax_inv:
  assumes inv: "search_inv E cost from S R st"
    and s: "qs_node s \<in> S" "dist st (qs_node s) = Some (qd s)"
    and top: "\<And>x d. x \<in> S \<Longrightarrow> dist st x = Some d \<Longrightarrow> label d \<le> label (qd s)"
    and e: "e \<in> E" "ue_from e = qs_node s" "cost_ok (cost e)"
  shows "search_inv E cost from S (insert e R) (relax cost s e st) \<and> (\<forall>x\<in>S. dist (relax cost s e st) x = dist st x)"
proof -
  let ?c = "f64_add (qs_cost s) (cost e)" and ?h = "qs_hops s + 1"
  note D = search_invD [OF inv]
  have sc: "sum_ok (qs_cost s)" using D(2) [OF s(2)] by (simp add: qd_def)
  have c: "sum_ok ?c" by (rule f64_cost.good_add [OF sc e(3)])
  have less: "label (qd s) < label (?c, ?h)" using label_add [OF sc e(3)] by (simp add: qd_def)
  have upd: "should_update (dist st (ue_to e)) ?c ?h \<longleftrightarrow> (\<forall>d. dist st (ue_to e) = Some d \<longrightarrow> label (?c, ?h) < label d)"
    by (rule update_iff_label [OF c]) (rule D(2))
  show ?thesis
  proof (cases "should_update (dist st (ue_to e)) ?c ?h")
    case False
    then obtain d where d: "dist st (ue_to e) = Some d" "label d \<le> label (?c, ?h)" using upd by auto
    have "search_inv E cost from S (insert e R) st"
      using inv s e d unfolding search_inv_def by (simp add: qd_def del: split_paired_Ex split_paired_All)
    then show ?thesis using False by (simp add: relax_relabel [of e s] e(2))
  next
    case True
    note new = upd [THEN iffD1, OF True, rule_format]
    have notS: "ue_to e \<notin> S" using D(7) [of "ue_to e"] top [of "ue_to e"] new less by fastforce
    have "ue_to e \<noteq> from" using new [of "(f64_zero, 0)"] D(1) label_zero [OF c, of "qs_hops s"] by auto
    moreover have "label d \<le> label (?c, ?h)" if "x \<in> S" "dist st x = Some d" for x d
      using top [OF that] less by simp
    ultimately have "search_inv E cost from S (insert e R) (relabel cost e (?c, ?h) st)"
      using e s notS new c by (intro relabel_inv [OF inv, of e "qd s"]) (auto simp: qd_def)
    then show ?thesis using True notS e(2) by (auto simp: relax_relabel [of e s] relabel_def)
  qed
qed

lemma relax_all:
  assumes "search_inv E cost from S R st" "qs_node s \<in> S" "dist st (qs_node s) = Some (qd s)"
    and "\<And>x d. x \<in> S \<Longrightarrow> dist st x = Some d \<Longrightarrow> label d \<le> label (qd s)"
    and "\<And>e. e \<in> set es \<Longrightarrow> e \<in> E \<and> ue_from e = qs_node s \<and> cost_ok (cost e)"
  shows "search_inv E cost from S (set es \<union> R) (fold (relax cost s) es st)"
  using assms
proof (induction es arbitrary: R st)
  case (Cons e es)
  have "e \<in> E" "ue_from e = qs_node s" "cost_ok (cost e)" using Cons.prems(5) by auto
  then have r: "search_inv E cost from S (insert e R) (relax cost s e st) \<and> (\<forall>x\<in>S. dist (relax cost s e st) x = dist st x)"
    using Cons.prems(1-4) by (intro relax_inv) auto
  have same: "dist (relax cost s e st) x = dist st x" if "x \<in> S" for x using r that by blast
  have "search_inv E cost from S (set es \<union> insert e R) (fold (relax cost s) es (relax cost s e st))"
    by (rule Cons.IH [OF r [THEN conjunct1]]) (use Cons.prems(2-5) same in auto)
  then show ?case by simp
qed simp

section \<open>The loop\<close>

lemma linked_mono: "linked E cost S st x d \<Longrightarrow> S \<subseteq> S' \<Longrightarrow> linked E cost S' (st\<lparr>queue := q\<rparr>) x d"
  unfolding linked_def by fastforce

lemma pop_least:
  assumes inv: "search_inv E cost from S R st" and pop: "heap_pop (queue st) = Some (s, q)"
  shows "t \<in> set (queue st) \<Longrightarrow> label (qd s) \<le> label (qd t)"
    and "x \<in> S \<Longrightarrow> dist st x = Some d \<Longrightarrow> label d \<le> label (qd s)"
    and "dist st x = Some d \<Longrightarrow> x \<notin> S \<Longrightarrow> label (qd s) \<le> label d"
    and "sum_ok (qs_cost s)" and "\<exists>d. dist st (qs_node s) = Some d \<and> label d \<le> label (qd s)"
proof -
  note D = search_invD [OF inv] and P = heap_pop_SomeD [OF pop]
  show least: "label (qd s) \<le> label (qd t)" if "t \<in> set (queue st)" for t
    by (rule queue_key_label [OF P(3) [OF that] D(4) [OF P(1)] D(4) [OF that]])
  show "label d \<le> label (qd s)" if "x \<in> S" "dist st x = Some d" using D(7) [OF that(1)] that(2) P(1) by auto
  show "label (qd s) \<le> label d" if "dist st x = Some d" "x \<notin> S" using least [OF D(6) [OF that]] by (simp add: qd_def)
  show "sum_ok (qs_cost s)" "\<exists>d. dist st (qs_node s) = Some d \<and> label d \<le> label (qd s)" using D(4,5) P(1) by blast+
qed

lemma pop_inv:
  assumes inv: "search_inv E cost from S R st" and pop: "heap_pop (queue st) = Some (s, q)"
    and S': "S' = S \<or> S' = insert (qs_node s) S"
    and keep: "S' = S \<Longrightarrow> qs_node s \<notin> S \<Longrightarrow> dist st (qs_node s) \<noteq> Some (qd s)"
    and d: "dist st (qs_node s) = Some (qd s) \<or> S' = S"
  shows "search_inv E cost from S' R (st\<lparr>queue := q\<rparr>)"
proof (rule search_invI)
  note D = search_invD [OF inv] and P = heap_pop_SomeD [OF pop] and L = pop_least [OF inv pop]
  have sub: "t \<in> set (queue st)" if "t \<in> set q" for t using that P(2) set_remove1_subset by fastforce
  show "linked E cost S' (st\<lparr>queue := q\<rparr>) x dx" if "dist (st\<lparr>queue := q\<rparr>) x = Some dx" "x \<noteq> from" for x dx
    by (rule linked_mono [OF D(3)]) (use that S' in auto)
  show "\<lparr>qs_cost = fst dx, qs_hops = snd dx, qs_node = x\<rparr> \<in> set (queue (st\<lparr>queue := q\<rparr>))"
    if "dist (st\<lparr>queue := q\<rparr>) x = Some dx" "x \<notin> S'" for x dx
  proof -
    have "\<lparr>qs_cost = fst dx, qs_hops = snd dx, qs_node = x\<rparr> \<in> set (queue st)" using D(6) that S' by auto
    moreover have "\<lparr>qs_cost = fst dx, qs_hops = snd dx, qs_node = x\<rparr> \<noteq> s"
      using that S' keep by (auto simp: qd_def)
    ultimately show ?thesis by (simp add: P(2) in_set_remove1)
  qed
  show "\<exists>dx. dist (st\<lparr>queue := q\<rparr>) x = Some dx \<and> (\<forall>t\<in>set (queue (st\<lparr>queue := q\<rparr>)). label dx \<le> label (qd t))"
    if "x \<in> S'" for x
  proof (cases "x \<in> S")
    case True
    then show ?thesis using D(7) [OF True] sub by auto
  next
    case False
    then show ?thesis using that S' d L(1) sub by (auto simp del: split_paired_Ex)
  qed
  show "ue_from e \<in> S' \<and> (\<exists>d d'. dist (st\<lparr>queue := q\<rparr>) (ue_from e) = Some d \<and> dist (st\<lparr>queue := q\<rparr>) (ue_to e) = Some d' \<and>
      label d' \<le> label (f64_add (fst d) (cost e), snd d + 1))" if "e \<in> R" for e
    using D(8) [OF that] S' by auto
qed (use search_invD [OF inv] heap_pop_SomeD(2) [OF pop] set_remove1_subset [of s "queue st"] in auto)

lemma relax_noop:
  assumes inv: "search_inv E cost from S R st" and s: "dist st (qs_node s) = Some (qd s)"
    and es: "\<And>e. e \<in> set es \<Longrightarrow> e \<in> R \<and> ue_from e = qs_node s \<and> cost_ok (cost e)"
  shows "fold (relax cost s) es st = st"
proof -
  note D = search_invD [OF inv]
  have "relax cost s e st = st" if e: "e \<in> set es" for e
  proof -
    have sc: "sum_ok (f64_add (qs_cost s) (cost e))" using f64_cost.good_add D(2) [OF s] es [OF e] by (simp add: qd_def)
    have "\<exists>d. dist st (ue_to e) = Some d \<and> label d \<le> label (f64_add (qs_cost s) (cost e), qs_hops s + 1)"
      using D(8) [of e] es [OF e] s by (auto simp: qd_def)
    then have "\<not> should_update (dist st (ue_to e)) (f64_add (qs_cost s) (cost e)) (qs_hops s + 1)"
      by (subst update_iff_label [OF sc]) (use D(2) in \<open>auto simp: not_less\<close>)
    then show ?thesis by (simp add: relax_def)
  qed
  then show ?thesis by (induction es) auto
qed

definition search_end :: "UrbanEdge set \<Rightarrow> (UrbanEdge \<Rightarrow> f64) \<Rightarrow> UrbanNodeId \<Rightarrow> UrbanNodeId \<Rightarrow> Search \<Rightarrow> bool" where
  "search_end E cost from dest st' =
     (\<exists>S st. search_inv E cost from S {e\<in>E. ue_from e \<in> S} st \<and> dest \<notin> S \<and> dist st' = dist st \<and> prev st' = prev st \<and>
        (\<forall>s q. heap_pop (queue st) = Some (s, q) \<longrightarrow> qs_node s = dest))"

lemma search_terminates:
  assumes adj: "\<And>n. set (adj n) = {e\<in>E. ue_from e = n}" and fin: "finite E"
    and costs: "\<And>e. e \<in> E \<Longrightarrow> cost_ok (cost e)"
    and "search_inv E cost from S {e\<in>E. ue_from e \<in> S} st" "dest \<notin> S"
  shows "\<exists>st'. search adj cost dest st = Some st' \<and> search_end E cost from dest st'"
  using assms(4,5)
proof (induction "(S, st)" arbitrary: S st
    rule: wf_induct_rule [OF wf_measures [of "[\<lambda>(S, st). card (insert from (ue_to ` E) - S), \<lambda>(S, st). length (queue st)]"]])
  case 1
  let ?N = "insert from (ue_to ` E)" and ?R = "\<lambda>S. {e\<in>E. ue_from e \<in> S}"
  note inv = 1(2) and unfold = search.simps [of adj cost dest st]
  show ?case
  proof (cases "heap_pop (queue st)")
    case None
    then have "search_end E cost from dest st"
      using inv 1(3) unfolding search_end_def by (intro exI [of _ S] exI [of _ st]) (simp del: heap_pop_None)
    then show ?thesis using None by (simp add: unfold del: heap_pop_None)
  next
    case (Some p)
    then obtain s q where pop: "heap_pop (queue st) = Some (s, q)" by (cases p) auto
    note L = pop_least [OF inv pop] and P = heap_pop_SomeD [OF pop]
    obtain d where d: "dist st (qs_node s) = Some d" "label d \<le> label (qd s)" using L(5) by blast
    let ?st = "st\<lparr>queue := q\<rparr>"
    have st: "stale ?st s \<longleftrightarrow> label d < label (qd s)"
      using stale_iff_label [OF L(4), of ?st d] d search_invD(2) [OF inv] by simp
    consider (arrived) "qs_node s = dest" | (skip) "qs_node s \<noteq> dest" "stale ?st s"
      | (again) "qs_node s \<noteq> dest" "\<not> stale ?st s" "qs_node s \<in> S"
      | (settle) "qs_node s \<noteq> dest" "\<not> stale ?st s" "qs_node s \<notin> S" by blast
    then show ?thesis
    proof cases
      case arrived
      then have "search_end E cost from dest ?st"
        using inv 1(3) pop unfolding search_end_def by (intro exI [of _ S] exI [of _ st]) auto
      then show ?thesis using arrived pop by (simp add: unfold Let_def)
    next
      case skip
      have "search_inv E cost from S (?R S) ?st" by (rule pop_inv [OF inv pop]) (use skip st d in auto)
      then show ?thesis using 1(1) [of S ?st] 1(3) skip pop P(4) by (simp add: unfold Let_def)
    next
      case again
      have ds: "dist st (qs_node s) = Some (qd s)"
        using again st d label_inj search_invD(2) [OF inv d(1)] L(4) by (metis order_le_less prod.collapse qd_def)
      have i: "search_inv E cost from S (?R S) ?st" by (rule pop_inv [OF inv pop]) (use again in auto)
      have "fold (relax cost s) (adj (qs_node s)) ?st = ?st"
        by (rule relax_noop [OF i]) (use ds again adj costs in auto)
      then show ?thesis using 1(1) [of S ?st] i 1(3) again pop P(4) by (simp add: unfold Let_def)
    next
      case settle
      have ds: "dist st (qs_node s) = Some (qd s)"
        using settle st d label_inj search_invD(2) [OF inv d(1)] L(4) by (metis order_le_less prod.collapse qd_def)
      let ?S = "insert (qs_node s) S"
      have i: "search_inv E cost from ?S (?R S) ?st" by (rule pop_inv [OF inv pop]) (use ds settle in auto)
      have "search_inv E cost from ?S (set (adj (qs_node s)) \<union> ?R S) (fold (relax cost s) (adj (qs_node s)) ?st)"
        by (rule relax_all [OF i]) (use ds L(2) adj costs in auto)
      moreover have "set (adj (qs_node s)) \<union> ?R S = ?R ?S" using adj by auto
      moreover have "qs_node s \<in> ?N" using search_invD(3) [OF inv ds] unfolding linked_def by (metis imageI insert_iff)
      then have "card (?N - ?S) < card (?N - S)" using settle fin by (intro psubset_card_mono) auto
      ultimately show ?thesis using 1(1) [of ?S "fold (relax cost s) (adj (qs_node s)) ?st"] 1(3) settle pop
        by (simp add: unfold Let_def)
    qed
  qed
qed

section \<open>The result\<close>

lemma final_cut:
  assumes inv: "search_inv E cost from S {e\<in>E. ue_from e \<in> S} st"
    and costs: "\<And>e. e \<in> E \<Longrightarrow> cost_ok (cost e)"
    and frontier: "\<And>x d. dist st x = Some d \<Longrightarrow> x \<notin> S \<Longrightarrow> b \<le> f64_key (fst d)"
    and walk: "route_walk E from es x"
  shows "x \<in> S \<or> b \<le> f64_key (route_cost cost es)"
proof -
  note D = search_invD [OF inv]
  let ?D = "\<lambda>x. map_option fst (dist st x)"
  have "(x \<in> S \<and> (\<exists>c. ?D x = Some c \<and> f64_key c \<le> f64_key (route_cost cost es))) \<or> b \<le> f64_key (route_cost cost es)"
    unfolding cost_triple [symmetric]
  proof (rule f64_cost.cut [where D = ?D and S = S and ?s0.0 = "from" and G = "triple cost ` E"])
    show "?D from = Some f64_zero" using D(1) by simp
    show "sum_ok c" if "?D y = Some c" for y c using that D(2) by auto
    show "?D y \<noteq> None" if "y \<in> S" for y using D(7) [OF that] by auto
    show "\<exists>c'. ?D y = Some c' \<and> f64_key c' \<le> f64_key (f64_add c w)"
      if G: "(u, w, y) \<in> triple cost ` E" "u \<in> S" "?D u = Some c" for u w y c
    proof -
      obtain e where e: "e \<in> E" "ue_from e = u" "ue_to e = y" "w = cost e" using G(1) by (auto simp: triple_def)
      then obtain d d' where "dist st u = Some d" "dist st y = Some d'" "label d' \<le> label (f64_add (fst d) w, snd d + 1)"
        using D(8) [of e] G(2) by blast
      then show ?thesis using label_key G(3) by fastforce
    qed
    show "b \<le> f64_key c" if "?D y = Some c" "y \<notin> S" for y c using that frontier by auto
    show "cost_ok w" if "(u, w, y) \<in> triple cost ` E" for u w y using that costs by (auto simp: triple_def)
    show "walk (triple cost ` E) from (map (triple cost) es) x" by (rule walk_triple [OF walk])
  qed
  then show ?thesis by blast
qed

lemma end_optimal:
  assumes fin: "search_end E cost from dest st" and costs: "\<And>e. e \<in> E \<Longrightarrow> cost_ok (cost e)"
    and walk: "route_walk E from es dest"
  shows "\<exists>d. dist st dest = Some d \<and> f64_key (fst d) \<le> f64_key (route_cost cost es)"
proof -
  obtain S st0 where inv: "search_inv E cost from S {e\<in>E. ue_from e \<in> S} st0" and S: "dest \<notin> S"
    and same: "dist st = dist st0" and pop: "\<And>s q. heap_pop (queue st0) = Some (s, q) \<Longrightarrow> qs_node s = dest"
    using fin unfolding search_end_def by blast
  note D = search_invD [OF inv]
  show ?thesis
  proof (cases "heap_pop (queue st0)")
    case None
    have "dest \<in> S \<or> (2, 0) \<le> f64_key (route_cost cost es)"
      by (rule final_cut [OF inv costs _ walk]) (use D(6) None in auto)
    moreover have "\<not> (2, 0) \<le> f64_key (route_cost cost es)"
      using order_trans [of "(2, 0)" "f64_key (route_cost cost es)" "(1, 0)"] key_le_inf by auto
    ultimately show ?thesis using S by blast
  next
    case (Some p)
    then obtain s q where p: "heap_pop (queue st0) = Some (s, q)" by (cases p) auto
    note L = pop_least [OF inv p]
    obtain d where d: "dist st0 dest = Some d" "label d \<le> label (qd s)" using L(5) pop [OF p] by auto
    have "dest \<in> S \<or> f64_key (fst d) \<le> f64_key (route_cost cost es)"
    proof (rule final_cut [OF inv costs _ walk])
      show "f64_key (fst d) \<le> f64_key (fst d')" if "dist st0 x = Some d'" "x \<notin> S" for x d'
        using label_key [of d d'] L(3) [OF that] d(2) by simp
    qed
    then show ?thesis using S d same by auto
  qed
qed

lemma reconstruct_walk:
  assumes inv: "search_inv E cost from S R st" and "dist st x = Some d"
    and "\<And>y dy. dist st y = Some dy \<Longrightarrow> snd dy \<le> snd d \<Longrightarrow> links y = prev st y"
  shows "\<exists>es. reconstruct from x links segs = Some (Some (segs @ rev (map (segment_of cost) es))) \<and>
    route_walk E from es x \<and> route_cost cost es = fst d \<and> length es = snd d"
  using assms(2,3)
proof (induction "snd d" arbitrary: x d links segs)
  case 0
  have "x = from"
  proof (rule ccontr)
    assume "x \<noteq> from"
    then show False using search_invD(3) [OF inv 0(2)] 0(1) unfolding linked_def by auto
  qed
  then show ?case using 0 search_invD(1) [OF inv]
    by (intro exI [of _ "[]"]) (auto simp: reconstruct.simps route_cost_def f64_sum_def)
next
  case (Suc n)
  then have x: "x \<noteq> from" using search_invD(1) [OF inv] by auto
  then obtain e du where e: "e \<in> E" "ue_to e = x" "prev st x = Some (ue_from e, segment_of cost e)"
      "dist st (ue_from e) = Some du" "d = (f64_add (fst du) (cost e), snd du + 1)"
    using search_invD(3) [OF inv Suc(3) x] unfolding linked_def by blast
  have "links x = prev st x" using Suc(4) [OF Suc(3)] by simp
  then have step: "reconstruct from x links segs = reconstruct from (ue_from e) (links(x := None)) (segs @ [segment_of cost e])"
    using x e(3) by (simp add: reconstruct.simps [of "from" x])
  have "(links(x := None)) y = prev st y" if "dist st y = Some dy" "snd dy \<le> snd du" for y dy
    using that Suc(3) Suc(4) [of y dy] e(5) by auto
  then obtain es where "reconstruct from (ue_from e) (links(x := None)) (segs @ [segment_of cost e]) =
      Some (Some ((segs @ [segment_of cost e]) @ rev (map (segment_of cost) es)))"
      "route_walk E from es (ue_from e)" "route_cost cost es = fst du" "length es = snd du"
    using Suc(1) [of du "ue_from e" "links(x := None)"] Suc(2) e by (metis Suc_eq_plus1 nat.inject snd_conv)
  then show ?case using e step
    by (intro exI [of _ "es @ [e]"]) (simp add: route_walk_snoc route_cost_snoc)
qed

section \<open>Planning\<close>

lemma set_build: "set (fold (\<lambda>e adj. adj(ue_from e := adj (ue_from e) @ [e])) es adj n) = set (adj n) \<union> {e\<in>set es. ue_from e = n}"
  by (induction es arbitrary: adj) auto

lemma set_adjacency: "set (adjacency es n) = {e\<in>set es. ue_from e = n}"
  by (simp add: adjacency_def build_adjacency_def set_build)

definition shortest :: "UrbanEdge set \<Rightarrow> (UrbanEdge \<Rightarrow> f64) \<Rightarrow> UrbanNodeId \<Rightarrow> UrbanNodeId \<Rightarrow> UrbanEdge list \<Rightarrow> bool" where
  "shortest E cost a b es = (route_walk E a es b \<and> (\<forall>es'. route_walk E a es' b \<longrightarrow> f64_le (route_cost cost es) (route_cost cost es')))"

lemma planned_route_cost: "total_cost (planned_route (map (segment_of cost) es)) = route_cost cost es"
  by (simp add: planned_route_def route_cost_def segment_of_def comp_def)

lemma route_cost_ok: "route_walk E a es b \<Longrightarrow> (\<And>e. e \<in> E \<Longrightarrow> cost_ok (cost e)) \<Longrightarrow> sum_ok (route_cost cost es)"
proof -
  assume w: "route_walk E a es b" and c: "\<And>e. e \<in> E \<Longrightarrow> cost_ok (cost e)"
  have "set es \<subseteq> E" using w by (induction es arbitrary: a) auto
  then show "sum_ok (route_cost cost es)"
    unfolding route_cost_def f64_sum_def using c by (intro f64_cost.good_foldl) auto
qed

lemma plan_over_exact:
  assumes costs: "\<And>e. e \<in> set es \<Longrightarrow> cost_ok (cost e)"
  shows "(\<exists>p. plan_over es cost from dest = Some (Inr (planned_route (map (segment_of cost) p))) \<and> shortest (set es) cost from dest p)
    \<or> (plan_over es cost from dest = Some (Inl (NoRoute from dest)) \<and> (\<nexists>p. route_walk (set es) from p dest))"
proof -
  obtain st where st: "search (adjacency es) cost dest (search_start from) = Some st" "search_end (set es) cost from dest st"
    using search_terminates [of "adjacency es" "set es" cost "from" "{}" "search_start from" dest]
      search_inv_start costs set_adjacency by auto
  have opt: "\<exists>d. dist st dest = Some d \<and> f64_key (fst d) \<le> f64_key (route_cost cost p)"
    if "route_walk (set es) from p dest" for p using end_optimal [OF st(2) _ that] costs by blast
  obtain S st0 where inv: "search_inv (set es) cost from S {e\<in>set es. ue_from e \<in> S} st0"
      "dist st = dist st0" "prev st = prev st0" using st(2) unfolding search_end_def by blast
  show ?thesis
  proof (cases "dist st dest")
    case None
    then show ?thesis using opt st(1) by (auto simp: plan_over_def)
  next
    case (Some d)
    then obtain p where p: "reconstruct from dest (prev st) [] = Some (Some (rev (map (segment_of cost) p)))"
        "route_walk (set es) from p dest" "route_cost cost p = fst d"
      using reconstruct_walk [OF inv(1), of dest d "prev st" "[]"] inv by auto
    have "f64_le (route_cost cost p) (route_cost cost p')" if "route_walk (set es) from p' dest" for p'
      using opt [OF that] Some p(3) route_cost_ok [OF p(2), of cost] route_cost_ok [OF that, of cost] costs sum_ok_not_nan
      by (auto simp: f64_le_def)
    then show ?thesis using p(1,2) Some st(1) by (auto simp: plan_over_def shortest_def)
  qed
qed

lemma ensure_valid_Inr: "ensure_valid_route_inputs m a b = Inr u \<longleftrightarrow>
    urban_map_validate m = [] \<and> map_node m a \<noteq> None \<and> map_node m b \<noteq> None"
  by (auto simp: ensure_valid_route_inputs_def first_map_error_def split: list.splits)

text \<open>The costs a planner works with are numbers: for the plain planner every validated map has this, for
  the corridor-aware planner it excludes an edge of zero length with an infinite width penalty.\<close>

definition planner_costs_ok :: "UrbanMap \<Rightarrow> UrbanPlannerMode \<Rightarrow> bool" where
  "planner_costs_ok m p = (p = CorridorAware \<longrightarrow> (\<forall>e\<in>set (map_edges m). cost_ok (planner_edge_cost m e p)))"

lemma validated_edges:
  assumes "urban_map_validate m = []"
  shows "distinct (map ue_id (map_edges m))" "e \<in> set (map_edges m) \<Longrightarrow> edge_ok (un_id ` set (map_nodes m)) e"
  using assms by (simp_all add: urban_map_validate_def Let_def validate_edges_Nil)

lemma planner_costs:
  assumes "urban_map_validate m = []" "planner_costs_ok m p" "e \<in> set (map_edges m)"
  shows "cost_ok (planner_edge_cost m e p)"
proof (cases p)
  case Dijkstra
  then show ?thesis using validated_edges(2) [OF assms(1,3)]
    by (simp add: planner_edge_cost_def edge_ok_def nonneg_finite_def cost_ok_def is_finite_not_nan)
qed (use assms in \<open>simp add: planner_costs_ok_def\<close>)

lemma shortest_Nil:
  assumes "\<And>e. e \<in> E \<Longrightarrow> cost_ok (cost e)"
  shows "shortest E cost a a []"
proof -
  have "f64_key f64_zero \<le> f64_key c" if "sum_ok c" for c using label_zero [OF that, of 0] by (auto simp: label_def)
  then have "f64_le f64_zero (route_cost cost es)" if "route_walk E a es a" for es
    using route_cost_ok [OF that, of cost] assms sum_ok_not_nan by (simp add: f64_le_def)
  then show ?thesis by (simp add: shortest_def route_cost_def f64_sum_def)
qed

definition open_edges :: "UrbanMap \<Rightarrow> UrbanEdgeId set \<Rightarrow> UrbanEdge set" where
  "open_edges m X = {e\<in>set (map_edges m). \<not> blocked_flag e \<and> ue_id e \<notin> X}"

abbreviation route_of :: "UrbanMap \<Rightarrow> UrbanPlannerMode \<Rightarrow> UrbanEdge list \<Rightarrow> UrbanPlannedRoute" where
  "route_of m p es \<equiv> planned_route (map (segment_of (\<lambda>e. planner_edge_cost m e p)) es)"

lemma default_route_planned: "default_route = planned_route []"
  by (simp add: default_route_def planned_route_def f64_sum_def)

lemma plan_excluding_cases:
  assumes valid: "urban_map_validate m = []" "map_node m a \<noteq> None" "map_node m b \<noteq> None" and costs: "planner_costs_ok m p"
  shows "(\<exists>es. plan_route_excluding m a b X p = Some (Inr (route_of m p es)) \<and>
        shortest (open_edges m X) (\<lambda>e. planner_edge_cost m e p) a b es)
    \<or> (plan_route_excluding m a b X p = Some (Inl (NoRoute a b)) \<and> (\<nexists>es. route_walk (open_edges m X) a es b))"
proof -
  have ok: "cost_ok (planner_edge_cost m e p)" if "e \<in> open_edges m X" for e
    using that planner_costs [OF valid(1) costs] by (simp add: open_edges_def)
  have E: "set (filter (\<lambda>e. \<not> blocked_flag e \<and> ue_id e \<notin> X) (map_edges m)) = open_edges m X" by (auto simp: open_edges_def)
  have v: "ensure_valid_route_inputs m a b = Inr ()" using valid by (simp add: ensure_valid_Inr)
  show ?thesis
  proof (cases "a = b")
    case True
    then show ?thesis using shortest_Nil [of "open_edges m X", OF ok] v default_route_planned
      by (intro disjI1 exI [of _ "[]"]) (simp add: plan_route_excluding_def)
  next
    case False
    then show ?thesis
      using plan_over_exact [of "filter (\<lambda>e. \<not> blocked_flag e \<and> ue_id e \<notin> X) (map_edges m)"
          "\<lambda>e. planner_edge_cost m e p" a b] ok v unfolding E by (simp add: plan_route_excluding_def)
  qed
qed

lemma with_mode_excluding: "plan_route_with_mode m a b p = plan_route_excluding m a b {} p"
  unfolding plan_route_with_mode_def plan_route_excluding_def by (simp cong: sum.case_cong)

lemma plan_excluding_OkD:
  assumes "plan_route_excluding m a b X p = Some (Inr r)" and costs: "planner_costs_ok m p"
  obtains es where "r = route_of m p es" "shortest (open_edges m X) (\<lambda>e. planner_edge_cost m e p) a b es"
    "urban_map_validate m = []"
proof -
  have v: "urban_map_validate m = []" "map_node m a \<noteq> None" "map_node m b \<noteq> None"
    using assms(1) ensure_valid_Inr [of m a b] by (auto simp: plan_route_excluding_def split: sum.splits)
  show ?thesis using plan_excluding_cases [OF v costs, of X] assms(1) that v(1) by auto
qed

lemma route_walk_set: "route_walk E a es b \<Longrightarrow> set es \<subseteq> E"
  by (induction es arbitrary: a) auto

lemma map_edge_known:
  assumes "urban_map_validate m = []" "e \<in> set (map_edges m)"
  shows "map_edge m (ue_id e) = Some e"
proof -
  have "find (\<lambda>e'. ue_id e' = ue_id e) es = Some e" if "e \<in> set es" "distinct (map ue_id es)" for es
    using that by (induction es) (auto simp: image_iff)
  then show ?thesis using assms validated_edges(1) by (simp add: map_edge_def)
qed

lemma loop_nodes_known:
  assumes "validate_route_loop m l = []" "x \<in> set (loop_nodes l)"
  shows "map_node m x \<noteq> None"
proof -
  have "x \<in> snd ` set (enumerate 0 (loop_nodes l))" using assms(2) by (metis list.set_map map_snd_enumerate)
  then obtain i where "(i, x) \<in> set (enumerate 0 (loop_nodes l))" by auto
  then have "x \<in> un_id ` set (map_nodes m)" using assms(1) by (fastforce simp: validate_route_loop_def)
  then show ?thesis by (auto simp: map_node_def find_None_iff)
qed

lemma windows2_set: "(a, b) \<in> set (windows2 xs) \<Longrightarrow> a \<in> set xs \<and> b \<in> set xs"
  by (induction xs rule: windows2.induct) auto

lemma set_close_loop: "set (close_loop ns) = set ns"
  by (cases ns) (auto simp: close_loop_def)

lemma expand_legs_cases:
  assumes valid: "urban_map_validate m = []" "planner_costs_ok m p"
    and known: "\<forall>leg\<in>set ls. map_node m (fst leg) \<noteq> None \<and> map_node m (snd leg) \<noteq> None"
  shows "(\<exists>legs. list_all2 (\<lambda>(a, b) es. shortest (open_edges m {}) (\<lambda>e. planner_edge_cost m e p) a b es) ls legs \<and>
        expand_legs m p ls segs = Some (Inr (segs @ map (segment_of (\<lambda>e. planner_edge_cost m e p)) (concat legs)))) \<or>
    (\<exists>(a, b)\<in>set ls. (\<nexists>es. route_walk (open_edges m {}) a es b) \<and> expand_legs m p ls segs = Some (Inl (NoRoute a b)))"
  using known
proof (induction ls arbitrary: segs)
  case (Cons leg ls)
  obtain a b where leg: "leg = (a, b)" by (cases leg)
  have k: "map_node m a \<noteq> None" "map_node m b \<noteq> None" using Cons.prems leg by auto
  consider es where "plan_route_with_mode m a b p = Some (Inr (route_of m p es))"
        "shortest (open_edges m {}) (\<lambda>e. planner_edge_cost m e p) a b es"
    | "plan_route_with_mode m a b p = Some (Inl (NoRoute a b))" "\<nexists>es. route_walk (open_edges m {}) a es b"
    using plan_excluding_cases [OF valid(1) k valid(2), of "{}"] unfolding with_mode_excluding by blast
  then show ?case
  proof cases
    case 1
    let ?seg = "segment_of (\<lambda>e. planner_edge_cost m e p)"
    have step: "expand_legs m p (leg # ls) segs = expand_legs m p ls (segs @ map ?seg es)"
      using 1 by (simp add: leg planned_route_def)
    have tail: "\<forall>leg\<in>set ls. map_node m (fst leg) \<noteq> None \<and> map_node m (snd leg) \<noteq> None" using Cons.prems by simp
    show ?thesis using Cons.IH [OF tail, of "segs @ map ?seg es"]
    proof (elim disjE exE conjE bexE)
      fix legs assume "list_all2 (\<lambda>(a, b) es. shortest (open_edges m {}) (\<lambda>e. planner_edge_cost m e p) a b es) ls legs"
        "expand_legs m p ls (segs @ map ?seg es) = Some (Inr ((segs @ map ?seg es) @ map ?seg (concat legs)))"
      then show ?thesis using 1(2) unfolding step by (intro disjI1 exI [of _ "es # legs"]) (simp add: leg)
    next
      fix l assume "l \<in> set ls" "case l of (a, b) \<Rightarrow> (\<nexists>es. route_walk (open_edges m {}) a es b) \<and>
          expand_legs m p ls (segs @ map ?seg es) = Some (Inl (NoRoute a b))"
      then show ?thesis unfolding step by (intro disjI2 bexI [of _ l]) auto
    qed
  next
    case 2
    then show ?thesis by (intro disjI2 bexI [of _ leg]) (auto simp: leg)
  qed
qed simp

text \<open>(C12) Shortest routes. On a validated map, between known nodes, the planner returns; it returns either a
  route along open edges from start to destination whose cost, added in floating point along the route, is
  at most that of every other such walk, or the error that there is no route, and then there is no such walk.\<close>

theorem plan_route_shortest:
  assumes "urban_map_validate m = []" "map_node m a \<noteq> None" "map_node m b \<noteq> None" "planner_costs_ok m p"
  shows "\<exists>r. plan_route_excluding m a b X p = Some r \<and>
    (case r of
       Inl e \<Rightarrow> e = NoRoute a b \<and> (\<nexists>es. route_walk (open_edges m X) a es b)
     | Inr route \<Rightarrow> \<exists>es. segments route = map (segment_of (\<lambda>e. planner_edge_cost m e p)) es \<and>
         route_walk (open_edges m X) a es b \<and> total_cost route = route_cost (\<lambda>e. planner_edge_cost m e p) es \<and>
         (\<forall>es'. route_walk (open_edges m X) a es' b \<longrightarrow>
            f64_le (total_cost route) (route_cost (\<lambda>e. planner_edge_cost m e p) es')))"
proof -
  consider es where "plan_route_excluding m a b X p = Some (Inr (route_of m p es))"
        "shortest (open_edges m X) (\<lambda>e. planner_edge_cost m e p) a b es"
    | "plan_route_excluding m a b X p = Some (Inl (NoRoute a b))" "\<nexists>es. route_walk (open_edges m X) a es b"
    using plan_excluding_cases [OF assms] by blast
  then show ?thesis
  proof cases
    case 1
    have "segments (route_of m p es) = map (segment_of (\<lambda>e. planner_edge_cost m e p)) es" by (simp add: planned_route_def)
    then show ?thesis using 1 by (auto simp: shortest_def planned_route_cost intro!: exI [of _ es])
  qed simp
qed

text \<open>Replanning around obstacles. A route planned with the edges blocked at a tick excluded has no missing
  and no blocked edge for the judge, and the detector finds nothing ahead on it at that tick, at any
  position and with any lookahead.\<close>

theorem replanned_route_clear:
  assumes "plan_route_excluding m a b (effective_blocked_edges m obs tick) p = Some (Inr route)" "planner_costs_ok m p"
  shows "(\<forall>v\<in>set (judge_route m route). \<exists>e ob loc. v = ObstacleIntersection e ob loc) \<and>
    detect_blocked_ahead route i (effective_blocked_edges m obs tick) n = None"
proof -
  let ?X = "effective_blocked_edges m obs tick" and ?seg = "segment_of (\<lambda>e. planner_edge_cost m e p)"
  obtain es where es: "route = route_of m p es" "shortest (open_edges m ?X) (\<lambda>e. planner_edge_cost m e p) a b es"
      and valid: "urban_map_validate m = []" by (rule plan_excluding_OkD [OF assms])
  have segs: "segments route = map ?seg es" by (simp add: es(1) planned_route_def)
  have E: "e \<in> open_edges m ?X" if "e \<in> set es" for e
    using route_walk_set [of "open_edges m ?X" a es b] es(2) that by (auto simp: shortest_def)
  have "\<exists>e ob loc. v = ObstacleIntersection e ob loc" if "e \<in> set es" "v \<in> set (judge_segment m (?seg e))" for e v
    using that(2) E [OF that(1)] map_edge_known [OF valid, of e]
    by (auto simp: judge_segment_def segment_of_def open_edges_def split: option.splits)
  moreover have "rs_edge_id (segments route ! k) \<notin> ?X" if "k < length (segments route)" for k
    using that E [of "es ! k"] by (simp add: segs segment_of_def open_edges_def)
  ultimately show ?thesis unfolding detect_blocked_None by (auto simp: judge_route_def segs)
qed

text \<open>Patrol loops. Expanding a validated loop over a validated map returns: either the loop is closed by
  shortest routes between consecutive nodes, the last back to the first, in this order, or some leg has no
  route and the error names a leg that has none.\<close>

theorem expand_loop_exact:
  assumes "urban_map_validate m = []" "validate_route_loop m l = []" "planner_costs_ok m p"
  shows "(\<exists>legs. list_all2 (\<lambda>(a, b) es. shortest (open_edges m {}) (\<lambda>e. planner_edge_cost m e p) a b es)
        (windows2 (close_loop (loop_nodes l))) legs \<and>
      expand_route_loop_with_planner m l p = Some (Inr (route_of m p (concat legs)))) \<or>
    (\<exists>(a, b)\<in>set (windows2 (close_loop (loop_nodes l))). (\<nexists>es. route_walk (open_edges m {}) a es b) \<and>
      expand_route_loop_with_planner m l p = Some (Inl (NoRoute a b)))"
proof -
  have "map_node m x \<noteq> None" if "x \<in> set (loop_nodes l)" for x using loop_nodes_known [OF assms(2) that] .
  then have "map_node m a \<noteq> None \<and> map_node m b \<noteq> None" if "(a, b) \<in> set (windows2 (close_loop (loop_nodes l)))" for a b
    using windows2_set [OF that] unfolding set_close_loop by blast
  then have known: "\<forall>leg\<in>set (windows2 (close_loop (loop_nodes l))). map_node m (fst leg) \<noteq> None \<and> map_node m (snd leg) \<noteq> None"
    by (metis prod.collapse)
  show ?thesis
    using expand_legs_cases [OF assms(1,3) known, where segs = "[]"] assms(1,2)
    by (fastforce simp: expand_route_loop_with_planner_def first_map_error_def)
qed

section \<open>Examples\<close>

definition detour_map :: UrbanMap where
  "detour_map = sample_map\<lparr>map_edges := [sample_edge ''e1'' ''n1'' ''n2'', (sample_edge ''e2'' ''n1'' ''n2'')\<lparr>ue_cost := f64_lit 2\<rparr>,
     sample_edge ''e3'' ''n2'' ''n1'']\<rparr>"

definition detour_obstacle :: UrbanTemporaryObstacle where
  "detour_obstacle = \<lparr>to_edge_id = ''e1'', appears_at_tick = 3, disappears_at_tick = Some 9, to_reason = None, to_severity = None\<rparr>"

lemma detour_valid:
  "urban_map_validate detour_map = []" "map_node detour_map ''n1'' \<noteq> None" "map_node detour_map ''n2'' \<noteq> None"
  "planner_costs_ok detour_map Dijkstra"
  by (simp_all add: detour_map_def sample_map_def sample_node_at_def sample_edge_def urban_map_validate_def map_node_def
      pose_finite_def validate_pose_def nonneg_finite_def default_pose_def is_finite_def f64_lt_def Let_def planner_costs_ok_def)

lemma detour_blocked: "effective_blocked_edges detour_map [detour_obstacle] 5 = {''e1''}"
  by (auto simp: effective_blocked_iff detour_map_def sample_map_def sample_edge_def detour_obstacle_def
      obstacle_is_active_def is_hard_block_def)

lemma detour_walk: "route_walk (open_edges detour_map {''e1''}) ''n1'' [(sample_edge ''e2'' ''n1'' ''n2'')\<lparr>ue_cost := f64_lit 2\<rparr>] ''n2''"
  by (simp add: open_edges_def detour_map_def sample_map_def sample_edge_def)

theorem plan_route_shortest_witness:
  "\<exists>route. plan_route_excluding detour_map ''n1'' ''n2'' {''e1''} Dijkstra = Some (Inr route)"
proof -
  obtain r where r: "plan_route_excluding detour_map ''n1'' ''n2'' {''e1''} Dijkstra = Some r"
      "\<And>e. r = Inl e \<Longrightarrow> \<nexists>es. route_walk (open_edges detour_map {''e1''}) ''n1'' es ''n2''"
    using plan_route_shortest [OF detour_valid, of "{''e1''}"] by force
  then show ?thesis using detour_walk by (cases r) blast+
qed

theorem replanned_route_clear_witness:
  "\<exists>route. plan_route_excluding detour_map ''n1'' ''n2'' {''e1''} Dijkstra = Some (Inr route) \<and>
     detect_blocked_ahead route 0 {''e1''} 3 = None"
proof -
  obtain route where r: "plan_route_excluding detour_map ''n1'' ''n2'' {''e1''} Dijkstra = Some (Inr route)"
    using plan_excluding_cases [OF detour_valid, of "{''e1''}"] detour_walk by blast
  then show ?thesis
    using replanned_route_clear [of detour_map "''n1''" "''n2''" "[detour_obstacle]" 5 Dijkstra route 0 3] detour_valid(4)
    by (auto simp: detour_blocked)
qed

theorem expand_loop_exact_witness:
  "\<exists>r. expand_route_loop_with_planner detour_map \<lparr>loop_nodes = [''n1'', ''n2'']\<rparr> Dijkstra = Some r"
  using expand_loop_exact [of detour_map "\<lparr>loop_nodes = [''n1'', ''n2'']\<rparr>" Dijkstra] detour_valid
  by (auto simp: validate_route_loop_def detour_map_def sample_map_def sample_node_at_def)

end
