(* ===== verification/Deconfliction.thy ===== *)
theory Deconfliction
  imports UrbanTypes "HOL-Library.Multiset"
begin

text \<open>
  \<open>swarm-sim/src/urban/deconfliction.rs\<close>: the registry of segment locks. A batch of requests is sorted and
  grouped by edge; a locked edge keeps its holder, a free one goes to the request the right-of-way policy
  selects. The theorems compare the registry with its abstract contract, a map from edges to holders.
\<close>

section \<open>Data\<close>

record UrbanSegmentLock =
  lk_edge_id :: UrbanEdgeId
  holder_agent_id :: AgentId
  acquired_at_tick :: u64
  lk_segment_index :: nat

record SegmentLockRequest =
  rq_agent_id :: AgentId
  rq_edge_id :: UrbanEdgeId
  rq_segment_index :: nat
  request_order :: nat

record UrbanSegmentConflictRecord =
  cr_tick :: u64
  cr_edge_id :: UrbanEdgeId
  cr_holder_agent_id :: AgentId
  requester_agent_id :: AgentId
  cr_policy :: UrbanRightOfWayPolicy
  cr_reason :: string

datatype SegmentLockDecision =
  Acquired UrbanSegmentLock
| HeldAlready UrbanSegmentLock
| Conflict UrbanSegmentConflictRecord

record UrbanSegmentLockRegistry =
  active_locks :: "(UrbanEdgeId, UrbanSegmentLock) hmap"
  conflict_history :: "UrbanSegmentConflictRecord list"
  round_robin_next :: "(UrbanEdgeId, nat) hmap"

definition lock_registry_new :: UrbanSegmentLockRegistry where
  "lock_registry_new = \<lparr>active_locks = [], conflict_history = [], round_robin_next = []\<rparr>"

type_synonym priorities = "AgentId \<rightharpoonup> u8"

section \<open>Right of way\<close>

definition priority_of :: "priorities \<Rightarrow> AgentId \<Rightarrow> u8" where
  "priority_of ps a = (case ps a of Some p \<Rightarrow> p | None \<Rightarrow> 0)"

text \<open>The comparison of \<open>max_by\<close>: the priority, then the reversed order of the identifiers.\<close>

definition outranks :: "priorities \<Rightarrow> SegmentLockRequest \<Rightarrow> SegmentLockRequest \<Rightarrow> bool" where
  "outranks ps r s = (priority_of ps (rq_agent_id s) < priority_of ps (rq_agent_id r) \<or>
     priority_of ps (rq_agent_id s) = priority_of ps (rq_agent_id r) \<and> rq_agent_id r < rq_agent_id s)"

text \<open>\<open>max_by\<close> over the enumerated group: of equal maxima the last one.\<close>

fun max_index :: "priorities \<Rightarrow> nat \<times> SegmentLockRequest \<Rightarrow> (nat \<times> SegmentLockRequest) list \<Rightarrow> nat" where
  "max_index ps b [] = fst b"
| "max_index ps b (x # xs) = max_index ps (if outranks ps (snd b) (snd x) then b else x) xs"

definition winner_index ::
    "UrbanSegmentLockRegistry \<Rightarrow> UrbanEdgeId \<Rightarrow> SegmentLockRequest list \<Rightarrow> UrbanRightOfWayPolicy \<Rightarrow> priorities \<Rightarrow> nat" where
  "winner_index reg e grp policy ps =
     (case policy of
        FirstCome \<Rightarrow> 0
      | MissionCriticalOverride \<Rightarrow> 0
      | RowPriority \<Rightarrow> (case enumerate 0 grp of [] \<Rightarrow> 0 | x # xs \<Rightarrow> max_index ps x xs)
      | RoundRobin \<Rightarrow> (case hm_get (round_robin_next reg) e of Some c \<Rightarrow> c | None \<Rightarrow> 0) mod max (length grp) 1)"

section \<open>Batches\<close>

definition request_key :: "SegmentLockRequest \<Rightarrow> string \<times> nat \<times> string" where
  "request_key r = (rq_edge_id r, request_order r, rq_agent_id r)"

definition push_group ::
    "(UrbanEdgeId \<times> SegmentLockRequest list) list \<Rightarrow> SegmentLockRequest \<Rightarrow> (UrbanEdgeId \<times> SegmentLockRequest list) list" where
  "push_group gs r =
     (if gs \<noteq> [] \<and> fst (last gs) = rq_edge_id r
      then butlast gs @ [(fst (last gs), snd (last gs) @ [r])]
      else gs @ [(rq_edge_id r, [r])])"

definition record_conflict ::
    "u64 \<Rightarrow> UrbanEdgeId \<Rightarrow> AgentId \<Rightarrow> AgentId \<Rightarrow> UrbanRightOfWayPolicy \<Rightarrow> string \<Rightarrow> UrbanSegmentLockRegistry \<Rightarrow>
     UrbanSegmentConflictRecord \<times> UrbanSegmentLockRegistry" where
  "record_conflict tick e held_by requester policy reason reg =
     (let r = \<lparr>cr_tick = tick, cr_edge_id = e, cr_holder_agent_id = held_by, requester_agent_id = requester,
               cr_policy = policy, cr_reason = reason\<rparr>
      in (r, reg\<lparr>conflict_history := conflict_history reg @ [r]\<rparr>))"

fun decide_held ::
    "u64 \<Rightarrow> UrbanRightOfWayPolicy \<Rightarrow> UrbanEdgeId \<Rightarrow> UrbanSegmentLock \<Rightarrow> SegmentLockRequest list \<Rightarrow>
     UrbanSegmentLockRegistry \<times> (AgentId \<times> SegmentLockDecision) list \<Rightarrow>
     UrbanSegmentLockRegistry \<times> (AgentId \<times> SegmentLockDecision) list" where
  "decide_held tick policy e lock [] acc = acc"
| "decide_held tick policy e lock (r # rs) (reg, ds) =
     (if rq_agent_id r = holder_agent_id lock
      then decide_held tick policy e lock rs (reg, ds @ [(rq_agent_id r, HeldAlready lock)])
      else case record_conflict tick e (holder_agent_id lock) (rq_agent_id r) policy ''segment already locked'' reg of
        (c, reg') \<Rightarrow> decide_held tick policy e lock rs (reg', ds @ [(rq_agent_id r, Conflict c)]))"

fun decide_free ::
    "u64 \<Rightarrow> UrbanRightOfWayPolicy \<Rightarrow> UrbanEdgeId \<Rightarrow> UrbanSegmentLock \<Rightarrow> nat \<Rightarrow> (nat \<times> SegmentLockRequest) list \<Rightarrow>
     UrbanSegmentLockRegistry \<times> (AgentId \<times> SegmentLockDecision) list \<Rightarrow>
     UrbanSegmentLockRegistry \<times> (AgentId \<times> SegmentLockDecision) list" where
  "decide_free tick policy e lock w [] acc = acc"
| "decide_free tick policy e lock w ((i, r) # rs) (reg, ds) =
     (if i = w then decide_free tick policy e lock w rs (reg, ds @ [(rq_agent_id r, Acquired lock)])
      else case record_conflict tick e (holder_agent_id lock) (rq_agent_id r) policy ''right-of-way loser'' reg of
        (c, reg') \<Rightarrow> decide_free tick policy e lock w rs (reg', ds @ [(rq_agent_id r, Conflict c)]))"

definition decide_group ::
    "u64 \<Rightarrow> UrbanRightOfWayPolicy \<Rightarrow> priorities \<Rightarrow> UrbanEdgeId \<times> SegmentLockRequest list \<Rightarrow>
     UrbanSegmentLockRegistry \<times> (AgentId \<times> SegmentLockDecision) list \<Rightarrow>
     UrbanSegmentLockRegistry \<times> (AgentId \<times> SegmentLockDecision) list" where
  "decide_group tick policy ps g acc =
     (let e = fst g; grp = snd g; reg = fst acc
      in case hm_get (active_locks reg) e of
        Some lock \<Rightarrow> decide_held tick policy e lock grp acc
      | None \<Rightarrow>
          let w = winner_index reg e grp policy ps; winner = grp ! w;
              lock = \<lparr>lk_edge_id = e, holder_agent_id = rq_agent_id winner, acquired_at_tick = tick,
                      lk_segment_index = rq_segment_index winner\<rparr>;
              reg1 = reg\<lparr>active_locks := hm_insert e lock (active_locks reg)\<rparr>;
              reg2 = (if policy = RoundRobin
                      then reg1\<lparr>round_robin_next := hm_insert e ((w + 1) mod max (length grp) 1) (round_robin_next reg1)\<rparr>
                      else reg1)
          in decide_free tick policy e lock w (enumerate 0 grp) (reg2, snd acc))"

definition request_batch ::
    "SegmentLockRequest list \<Rightarrow> u64 \<Rightarrow> UrbanRightOfWayPolicy \<Rightarrow> priorities \<Rightarrow> UrbanSegmentLockRegistry \<Rightarrow>
     UrbanSegmentLockRegistry \<times> (AgentId \<times> SegmentLockDecision) list" where
  "request_batch requests tick policy ps reg =
     (let grouped = foldl push_group [] (sort_key request_key requests)
      in case fold (decide_group tick policy ps) grouped (reg, []) of
        (reg', decisions) \<Rightarrow> (reg', sort_key fst decisions))"

text \<open>\<open>None\<close> is the panic of \<open>expect\<close>.\<close>

definition request_lock ::
    "SegmentLockRequest \<Rightarrow> u64 \<Rightarrow> UrbanRightOfWayPolicy \<Rightarrow> priorities \<Rightarrow> UrbanSegmentLockRegistry \<Rightarrow>
     UrbanSegmentLockRegistry \<times> SegmentLockDecision option" where
  "request_lock r tick policy ps reg =
     (case request_batch [r] tick policy ps reg of
        (reg', ds) \<Rightarrow> (reg', case ds of [] \<Rightarrow> None | d # _ \<Rightarrow> Some (snd d)))"

section \<open>Release and queries\<close>

definition lock_release ::
    "UrbanEdgeId \<Rightarrow> AgentId \<Rightarrow> u64 \<Rightarrow> UrbanSegmentLockRegistry \<Rightarrow> UrbanSegmentLockRegistry \<times> UrbanSegmentLock option" where
  "lock_release e a tick reg =
     (case hm_get (active_locks reg) e of
        None \<Rightarrow> (reg, None)
      | Some lock \<Rightarrow> if holder_agent_id lock \<noteq> a then (reg, None)
          else (reg\<lparr>active_locks := hm_remove e (active_locks reg)\<rparr>, Some lock))"

definition is_locked_by_other :: "UrbanSegmentLockRegistry \<Rightarrow> UrbanEdgeId \<Rightarrow> AgentId \<Rightarrow> bool" where
  "is_locked_by_other reg e a = (case hm_get (active_locks reg) e of Some lock \<Rightarrow> holder_agent_id lock \<noteq> a | None \<Rightarrow> False)"

definition locked_edges_except :: "UrbanSegmentLockRegistry \<Rightarrow> AgentId \<Rightarrow> UrbanEdgeId list" where
  "locked_edges_except reg a = map lk_edge_id (filter (\<lambda>lock. holder_agent_id lock \<noteq> a) (hm_values (active_locks reg)))"

section \<open>Grouping\<close>

lemma max_index_winner:
  assumes "max_index ps b xs = i" "\<And>j r. (j, r) \<in> set (b # xs) \<Longrightarrow> grp ! j = r"
  shows "\<exists>r. (i, r) \<in> set (b # xs) \<and> (\<forall>(j, s)\<in>set (b # xs). \<not> outranks ps s r)"
  using assms
proof (induction xs arbitrary: b)
  case Nil
  then show ?case by (cases b) (auto simp: outranks_def)
next
  case (Cons x xs)
  let ?b = "if outranks ps (snd b) (snd x) then b else x"
  obtain r where r: "(i, r) \<in> set (?b # xs)" "\<forall>(j, s)\<in>set (?b # xs). \<not> outranks ps s r"
    using Cons.IH [of ?b] Cons.prems by (auto split: if_splits)
  have "\<not> outranks ps s r" if "(j, s) = b \<or> (j, s) = x" for j s
    using that r(2) by (cases b; cases x) (auto simp: outranks_def split: if_splits)
  then show ?case using r by (auto split: if_splits)
qed

definition edge_requests :: "UrbanEdgeId \<Rightarrow> SegmentLockRequest list \<Rightarrow> SegmentLockRequest list" where
  "edge_requests e rs = filter (\<lambda>r. rq_edge_id r = e) (sort_key request_key rs)"

lemma edge_requests_Nil: "edge_requests e rs = [] \<longleftrightarrow> e \<notin> rq_edge_id ` set rs"
  by (auto simp: edge_requests_def filter_empty_conv)

lemma sorted_map_fst: "sorted (map f xs) \<Longrightarrow> sorted (map (\<lambda>x. fst (f x)) xs)"
  by (auto simp: sorted_iff_nth_mono less_eq_prod_def intro: less_imp_le)

lemma sorted_edges: "sorted (map rq_edge_id (sort_key request_key rs))"
  using sorted_map_fst [of request_key "sort_key request_key rs"] by (simp add: request_key_def)

lemma push_groups:
  assumes "sorted (map rq_edge_id xs)"
  shows "distinct (map fst (foldl push_group [] xs)) \<and> set (map fst (foldl push_group [] xs)) = rq_edge_id ` set xs \<and>
    (\<forall>g\<in>set (foldl push_group [] xs). snd g = filter (\<lambda>r. rq_edge_id r = fst g) xs) \<and>
    (xs \<noteq> [] \<longrightarrow> foldl push_group [] xs \<noteq> [] \<and> fst (last (foldl push_group [] xs)) = rq_edge_id (last xs))"
  using assms
proof (induction xs rule: rev_induct)
  case (snoc r xs)
  let ?gs = "foldl push_group [] xs"
  have IH: "distinct (map fst ?gs)" "set (map fst ?gs) = rq_edge_id ` set xs"
      "\<forall>g\<in>set ?gs. snd g = filter (\<lambda>r. rq_edge_id r = fst g) xs"
      "xs \<noteq> [] \<longrightarrow> ?gs \<noteq> [] \<and> fst (last ?gs) = rq_edge_id (last xs)"
    using snoc by (auto simp: sorted_append)
  show ?case
  proof (cases "?gs \<noteq> [] \<and> fst (last ?gs) = rq_edge_id r")
    case True
    then obtain hs where hs: "?gs = hs @ [last ?gs]" by (metis append_butlast_last_id)
    define l where "l = last ?gs"
    have gs: "?gs = hs @ [l]" "fst l = rq_edge_id r" using hs True by (simp_all add: l_def)
    have "fst g \<noteq> rq_edge_id r" if "g \<in> set hs" for g
    proof -
      have "fst g \<in> fst ` set hs" using that by simp
      moreover have "rq_edge_id r \<notin> fst ` set hs" using IH(1) unfolding gs(1) gs(2) [symmetric] by simp
      ultimately show ?thesis by metis
    qed
    moreover have step: "foldl push_group [] (xs @ [r]) = hs @ [(fst l, snd l @ [r])]"
      by (simp add: gs push_group_def [of "hs @ [l]" r])
    ultimately show ?thesis using IH unfolding step gs(1) by (auto simp: gs(2))
  next
    case False
    have "rq_edge_id r \<notin> rq_edge_id ` set xs"
    proof
      assume "rq_edge_id r \<in> rq_edge_id ` set xs"
      then have ne: "xs \<noteq> []" by auto
      then obtain ys where ys: "xs = ys @ [last xs]" by (metis append_butlast_last_id)
      have "\<forall>y\<in>set ys. rq_edge_id y \<le> rq_edge_id (last xs)"
        using snoc.prems by (subst (asm) ys) (simp add: sorted_append)
      then have "rq_edge_id r \<le> rq_edge_id (last xs)"
        using \<open>rq_edge_id r \<in> rq_edge_id ` set xs\<close> by (subst (asm) (2) ys) auto
      moreover have "rq_edge_id (last xs) \<le> rq_edge_id r" using snoc.prems ne by (simp add: sorted_append)
      ultimately show False using IH(4) False ne by auto
    qed
    moreover have "rq_edge_id r \<notin> fst ` set ?gs" using calculation IH(2) by simp
    moreover have step: "foldl push_group [] (xs @ [r]) = ?gs @ [(rq_edge_id r, [r])]"
      using False by (auto simp: push_group_def [of ?gs r])
    moreover have "filter (\<lambda>x. rq_edge_id x = rq_edge_id r) xs = []" using calculation(1) unfolding filter_empty_conv by (metis imageI)
    ultimately show ?thesis using IH unfolding step by (auto simp: image_iff)
  qed
qed simp

section \<open>One group\<close>

abbreviation lock_at :: "UrbanSegmentLockRegistry \<Rightarrow> UrbanEdgeId \<Rightarrow> UrbanSegmentLock option" where
  "lock_at reg e \<equiv> hm_get (active_locks reg) e"

abbreviation cursor_at :: "UrbanSegmentLockRegistry \<Rightarrow> UrbanEdgeId \<Rightarrow> nat option" where
  "cursor_at reg e \<equiv> hm_get (round_robin_next reg) e"

definition conflict_of :: "u64 \<Rightarrow> UrbanRightOfWayPolicy \<Rightarrow> UrbanSegmentLock \<Rightarrow> UrbanEdgeId \<Rightarrow> string \<Rightarrow> AgentId \<Rightarrow> UrbanSegmentConflictRecord" where
  "conflict_of tick policy lock e reason a = \<lparr>cr_tick = tick, cr_edge_id = e, cr_holder_agent_id = holder_agent_id lock,
     requester_agent_id = a, cr_policy = policy, cr_reason = reason\<rparr>"

definition held_decision :: "u64 \<Rightarrow> UrbanRightOfWayPolicy \<Rightarrow> UrbanEdgeId \<Rightarrow> UrbanSegmentLock \<Rightarrow> SegmentLockRequest \<Rightarrow> AgentId \<times> SegmentLockDecision" where
  "held_decision tick policy e lock r = (rq_agent_id r, if rq_agent_id r = holder_agent_id lock then HeldAlready lock
     else Conflict (conflict_of tick policy lock e ''segment already locked'' (rq_agent_id r)))"

definition free_decision :: "u64 \<Rightarrow> UrbanRightOfWayPolicy \<Rightarrow> UrbanEdgeId \<Rightarrow> UrbanSegmentLock \<Rightarrow> nat \<Rightarrow> nat \<times> SegmentLockRequest \<Rightarrow> AgentId \<times> SegmentLockDecision" where
  "free_decision tick policy e lock w x = (rq_agent_id (snd x), if fst x = w then Acquired lock
     else Conflict (conflict_of tick policy lock e ''right-of-way loser'' (rq_agent_id (snd x))))"

definition conflicts_in :: "(AgentId \<times> SegmentLockDecision) list \<Rightarrow> UrbanSegmentConflictRecord list" where
  "conflicts_in ds = List.map_filter (\<lambda>(a, d). case d of Conflict c \<Rightarrow> Some c | _ \<Rightarrow> None) ds"

lemma conflicts_in_simps [simp]: "conflicts_in [] = []"
  "conflicts_in ((a, d) # ds) = (case d of Conflict c \<Rightarrow> c # conflicts_in ds | _ \<Rightarrow> conflicts_in ds)"
  "conflicts_in (xs @ ys) = conflicts_in xs @ conflicts_in ys"
  by (auto simp: conflicts_in_def List.map_filter_def split: SegmentLockDecision.splits)

lemma decide_held_eq:
  "decide_held tick policy e lock rs (reg, ds) =
     (reg\<lparr>conflict_history := conflict_history reg @ conflicts_in (map (held_decision tick policy e lock) rs)\<rparr>,
      ds @ map (held_decision tick policy e lock) rs)"
  by (induction rs arbitrary: reg ds) (simp_all add: held_decision_def record_conflict_def conflict_of_def Let_def)

lemma decide_free_eq:
  "decide_free tick policy e lock w xs (reg, ds) =
     (reg\<lparr>conflict_history := conflict_history reg @ conflicts_in (map (free_decision tick policy e lock w) xs)\<rparr>,
      ds @ map (free_decision tick policy e lock w) xs)"
proof (induction xs arbitrary: reg ds)
  case (Cons x xs)
  then show ?case by (cases x) (simp add: free_decision_def record_conflict_def conflict_of_def Let_def)
qed simp

lemma enumerate_nth: "(j, r) \<in> set (enumerate 0 rs) \<Longrightarrow> j < length rs \<and> r = rs ! j"
  by (simp add: in_set_enumerate_eq)

lemma max_index_group:
  assumes "rs \<noteq> []" "i = (case enumerate 0 rs of [] \<Rightarrow> 0 | x # xs \<Rightarrow> max_index ps x xs)"
  shows "i < length rs \<and> (\<forall>s\<in>set rs. \<not> outranks ps s (rs ! i))"
proof -
  obtain x xs where xs: "enumerate 0 rs = x # xs" using assms(1) by (cases rs) auto
  have "max_index ps x xs = i" using assms(2) by (simp add: xs)
  moreover have "rs ! j = r" if "(j, r) \<in> set (x # xs)" for j r
    using enumerate_nth [of j r rs] that unfolding xs [symmetric] by simp
  ultimately obtain r where r: "(i, r) \<in> set (x # xs)" "\<forall>(j, s)\<in>set (x # xs). \<not> outranks ps s r"
    using max_index_winner [of ps x xs i rs] by blast
  have "i < length rs" "r = rs ! i" using r(1) enumerate_nth [of i r rs] unfolding xs [symmetric] by simp_all
  moreover have "\<not> outranks ps s r" if "s \<in> set rs" for s
  proof -
    have "s \<in> snd ` set (enumerate 0 rs)" using that by (metis list.set_map map_snd_enumerate)
    then show ?thesis using r(2) unfolding xs [symmetric] by auto
  qed
  ultimately show ?thesis by blast
qed

lemma winner_bound: "rs \<noteq> [] \<Longrightarrow> winner_index reg e rs policy ps < length rs"
  using max_index_group [of rs _ ps] by (cases policy) (simp_all add: winner_index_def)

definition lock_for :: "u64 \<Rightarrow> UrbanEdgeId \<Rightarrow> SegmentLockRequest \<Rightarrow> UrbanSegmentLock" where
  "lock_for tick e r = \<lparr>lk_edge_id = e, holder_agent_id = rq_agent_id r, acquired_at_tick = tick, lk_segment_index = rq_segment_index r\<rparr>"

definition group_lock ::
    "u64 \<Rightarrow> UrbanRightOfWayPolicy \<Rightarrow> priorities \<Rightarrow> UrbanSegmentLockRegistry \<Rightarrow> UrbanEdgeId \<Rightarrow> SegmentLockRequest list \<Rightarrow> UrbanSegmentLock" where
  "group_lock tick policy ps reg e rs = (case lock_at reg e of Some l \<Rightarrow> l
     | None \<Rightarrow> lock_for tick e (rs ! winner_index reg e rs policy ps))"

definition group_decisions ::
    "u64 \<Rightarrow> UrbanRightOfWayPolicy \<Rightarrow> priorities \<Rightarrow> UrbanSegmentLockRegistry \<Rightarrow> UrbanEdgeId \<times> SegmentLockRequest list \<Rightarrow>
     (AgentId \<times> SegmentLockDecision) list" where
  "group_decisions tick policy ps reg g =
     (let e = fst g; l = group_lock tick policy ps reg e (snd g)
      in if lock_at reg e = None then map (free_decision tick policy e l (winner_index reg e (snd g) policy ps)) (enumerate 0 (snd g))
         else map (held_decision tick policy e l) (snd g))"

lemma decide_group_spec:
  assumes "decide_group tick policy ps g (reg, ds) = (reg', ds')"
  shows "ds' = ds @ group_decisions tick policy ps reg g"
    and "conflict_history reg' = conflict_history reg @ conflicts_in (group_decisions tick policy ps reg g)"
    and "lock_at reg' x = (if x = fst g then Some (group_lock tick policy ps reg (fst g) (snd g)) else lock_at reg x)"
    and "x \<noteq> fst g \<Longrightarrow> cursor_at reg' x = cursor_at reg x"
    and "hm_wf (active_locks reg) \<Longrightarrow> hm_wf (active_locks reg')"
  using assms
  by (auto simp: decide_group_def Let_def decide_held_eq decide_free_eq group_decisions_def group_lock_def lock_for_def
      split: option.splits if_splits)

section \<open>A batch\<close>

lemma group_cong:
  assumes "lock_at reg' (fst g) = lock_at reg (fst g)" "cursor_at reg' (fst g) = cursor_at reg (fst g)"
  shows "group_lock tick policy ps reg' (fst g) rs = group_lock tick policy ps reg (fst g) rs"
    "group_decisions tick policy ps reg' g = group_decisions tick policy ps reg g"
proof -
  have w: "winner_index reg' (fst g) rs policy ps = winner_index reg (fst g) rs policy ps" for rs
    unfolding winner_index_def assms(2) ..
  show l: "group_lock tick policy ps reg' (fst g) rs = group_lock tick policy ps reg (fst g) rs" for rs
    unfolding group_lock_def assms(1) w ..
  show "group_decisions tick policy ps reg' g = group_decisions tick policy ps reg g"
    unfolding group_decisions_def Let_def assms(1) w l ..
qed

lemma decide_groups:
  assumes "distinct (map fst gs)" "fold (decide_group tick policy ps) gs (reg, ds) = (reg', ds')"
    and "\<forall>g\<in>set gs. snd g = rs_of (fst g)"
  shows "ds' = ds @ concat (map (group_decisions tick policy ps reg) gs) \<and>
    conflict_history reg' = conflict_history reg @ conflicts_in (concat (map (group_decisions tick policy ps reg) gs)) \<and>
    (\<forall>x. lock_at reg' x = (if x \<in> fst ` set gs then Some (group_lock tick policy ps reg x (rs_of x)) else lock_at reg x)) \<and>
    (hm_wf (active_locks reg) \<longrightarrow> hm_wf (active_locks reg'))"
  using assms
proof (induction gs arbitrary: reg ds)
  case (Cons g gs)
  obtain reg1 ds1 where g: "decide_group tick policy ps g (reg, ds) = (reg1, ds1)" by fastforce
  note G = decide_group_spec [OF g]
  have other: "fst h \<noteq> fst g" if "h \<in> set gs" for h
    using Cons.prems(1) that by (metis distinct.simps(2) image_eqI list.set_map list.simps(9))
  have same: "group_decisions tick policy ps reg1 h = group_decisions tick policy ps reg h"
      "group_lock tick policy ps reg1 (fst h) rs = group_lock tick policy ps reg (fst h) rs" if "h \<in> set gs" for h rs
    using group_cong [of reg1 h reg] G(3,4) other [OF that] by simp_all
  have eq: "map (group_decisions tick policy ps reg1) gs = map (group_decisions tick policy ps reg) gs"
    using same(1) by (intro map_cong) simp_all
  have "fold (decide_group tick policy ps) gs (reg1, ds1) = (reg', ds')" using Cons.prems(2) g by simp
  then have IH: "ds' = ds1 @ concat (map (group_decisions tick policy ps reg) gs)"
      "conflict_history reg' = conflict_history reg1 @ conflicts_in (concat (map (group_decisions tick policy ps reg) gs))"
      "\<forall>x. lock_at reg' x = (if x \<in> fst ` set gs then Some (group_lock tick policy ps reg1 x (rs_of x)) else lock_at reg1 x)"
      "hm_wf (active_locks reg1) \<longrightarrow> hm_wf (active_locks reg')"
    using Cons.IH [of reg1 ds1] Cons.prems(1,3) unfolding eq by simp_all
  have "lock_at reg' x = (if x \<in> fst ` set (g # gs) then Some (group_lock tick policy ps reg x (rs_of x)) else lock_at reg x)" for x
    using IH(3) G(3) same(2) other Cons.prems(3) by auto
  then show ?case using IH G by simp
qed simp

definition grouped :: "SegmentLockRequest list \<Rightarrow> (UrbanEdgeId \<times> SegmentLockRequest list) list" where
  "grouped rs = foldl push_group [] (sort_key request_key rs)"

lemma grouped:
  shows "distinct (map fst (grouped rs))" "fst ` set (grouped rs) = rq_edge_id ` set rs"
    "g \<in> set (grouped rs) \<Longrightarrow> snd g = edge_requests (fst g) rs \<and> snd g \<noteq> []"
proof -
  have P: "distinct (map fst (grouped rs))" "set (map fst (grouped rs)) = rq_edge_id ` set (sort_key request_key rs)"
      "\<forall>g\<in>set (grouped rs). snd g = edge_requests (fst g) rs"
    using push_groups [OF sorted_edges [of rs]] unfolding grouped_def edge_requests_def by blast+
  show "distinct (map fst (grouped rs))" by (rule P(1))
  show E: "fst ` set (grouped rs) = rq_edge_id ` set rs" using P(2) by simp
  show "snd g = edge_requests (fst g) rs \<and> snd g \<noteq> []" if "g \<in> set (grouped rs)"
    using P(3) that E edge_requests_Nil [of "fst g" rs] by fastforce
qed

lemma batch_spec:
  assumes "request_batch rs tick policy ps reg = (reg', ds)"
  shows "mset ds = mset (concat (map (group_decisions tick policy ps reg) (grouped rs)))"
    and "conflict_history reg' = conflict_history reg @ conflicts_in (concat (map (group_decisions tick policy ps reg) (grouped rs)))"
    and "lock_at reg' e = (if e \<in> rq_edge_id ` set rs then Some (group_lock tick policy ps reg e (edge_requests e rs)) else lock_at reg e)"
    and "sorted (map fst ds)"
    and "hm_wf (active_locks reg) \<Longrightarrow> hm_wf (active_locks reg')"
proof -
  obtain reg1 ds1 where f: "fold (decide_group tick policy ps) (grouped rs) (reg, []) = (reg1, ds1)" by fastforce
  have r: "reg' = reg1" "ds = sort_key fst ds1" using assms f by (auto simp: request_batch_def grouped_def)
  have "\<forall>g\<in>set (grouped rs). snd g = edge_requests (fst g) rs" using grouped(3) by blast
  note D = decide_groups [OF grouped(1) f this]
  show "mset ds = mset (concat (map (group_decisions tick policy ps reg) (grouped rs)))"
    "conflict_history reg' = conflict_history reg @ conflicts_in (concat (map (group_decisions tick policy ps reg) (grouped rs)))"
    "lock_at reg' e = (if e \<in> rq_edge_id ` set rs then Some (group_lock tick policy ps reg e (edge_requests e rs)) else lock_at reg e)"
    "hm_wf (active_locks reg) \<Longrightarrow> hm_wf (active_locks reg')"
    using D unfolding grouped(2) r by simp_all
  show "sorted (map fst ds)" by (simp add: r)
qed

section \<open>Properties\<close>

lemma mset_groups: "mset (concat (map snd (foldl push_group [] xs))) = mset xs"
proof (induction xs rule: rev_induct)
  case (snoc r xs)
  let ?gs = "foldl push_group [] xs"
  show ?case
  proof (cases "?gs \<noteq> [] \<and> fst (last ?gs) = rq_edge_id r")
    case True
    then obtain hs l where gs: "?gs = hs @ [l]" by (metis append_butlast_last_id)
    then show ?thesis using snoc True by (simp add: push_group_def [of "hs @ [l]" r])
  next
    case False
    then show ?thesis using snoc by (auto simp: push_group_def [of ?gs r])
  qed
qed simp

lemma mset_conflicts: "mset xs = mset ys \<Longrightarrow> mset (conflicts_in xs) = mset (conflicts_in ys)"
  by (simp add: conflicts_in_def List.map_filter_def mset_filter mset_map)

definition acquires :: "UrbanEdgeId \<Rightarrow> AgentId \<times> SegmentLockDecision \<Rightarrow> bool" where
  "acquires e d = (case snd d of Acquired l \<Rightarrow> lk_edge_id l = e | _ \<Rightarrow> False)"

lemma group_agents: "map fst (group_decisions tick policy ps reg g) = map rq_agent_id (snd g)"
proof -
  have "map (\<lambda>x. rq_agent_id (snd x)) (enumerate 0 (snd g)) = map rq_agent_id (map snd (enumerate 0 (snd g)))"
    by (simp only: map_map comp_def)
  then show ?thesis
    by (simp add: group_decisions_def Let_def comp_def) (simp add: free_decision_def held_decision_def)
qed

lemma one_index: "w < length rs \<Longrightarrow> length (filter (\<lambda>x. fst x = w) (enumerate 0 rs)) = 1"
proof -
  assume w: "w < length rs"
  have "length (filter (\<lambda>x. fst x = w) (enumerate 0 rs)) = length (filter (\<lambda>i. i = w) (map fst (enumerate 0 rs)))"
    by (simp add: filter_map comp_def del: map_fst_enumerate)
  also have "\<dots> = card ({i. i = w} \<inter> {0..<length rs})" by (simp add: distinct_length_filter)
  also have "{i. i = w} \<inter> {0..<length rs} = {w}" using w by auto
  finally show ?thesis by simp
qed

lemma group_acquires:
  assumes "snd g \<noteq> []"
  shows "length (filter (acquires e) (group_decisions tick policy ps reg g)) =
    (if fst g = e \<and> lock_at reg e = None then 1 else 0)"
proof (cases "lock_at reg (fst g)")
  case None
  have "acquires e (free_decision tick policy (fst g) (group_lock tick policy ps reg (fst g) (snd g)) w x) \<longleftrightarrow> fst g = e \<and> fst x = w" for w x
    by (auto simp: acquires_def free_decision_def group_lock_def None lock_for_def)
  then show ?thesis
    using one_index [OF winner_bound [OF assms, of reg "fst g" policy ps]] None
    by (cases "fst g = e") (simp_all add: group_decisions_def Let_def filter_map comp_def)
next
  case (Some l)
  then show ?thesis by (auto simp: group_decisions_def Let_def filter_map comp_def acquires_def held_decision_def filter_empty_conv)
qed

lemma concat_acquires:
  assumes "distinct (map fst gs)" "\<And>g. g \<in> set gs \<Longrightarrow> snd g \<noteq> []"
  shows "length (filter (acquires e) (concat (map (group_decisions tick policy ps reg) gs))) =
    (if e \<in> fst ` set gs \<and> lock_at reg e = None then 1 else 0)"
  using assms by (induction gs) (auto simp: group_acquires)

definition decision_sound :: "UrbanSegmentLockRegistry \<Rightarrow> UrbanSegmentLockRegistry \<Rightarrow> AgentId \<times> SegmentLockDecision \<Rightarrow> bool" where
  "decision_sound reg reg' d =
     (case snd d of
        Acquired l \<Rightarrow> holder_agent_id l = fst d \<and> lock_at reg (lk_edge_id l) = None \<and> lock_at reg' (lk_edge_id l) = Some l
      | HeldAlready l \<Rightarrow> holder_agent_id l = fst d \<and> (\<exists>e. lock_at reg e = Some l \<and> lock_at reg' e = Some l)
      | Conflict c \<Rightarrow> requester_agent_id c = fst d \<and>
          (\<exists>l. lock_at reg' (cr_edge_id c) = Some l \<and> holder_agent_id l = cr_holder_agent_id c))"

lemma group_sound:
  assumes "d \<in> set (group_decisions tick policy ps reg g)"
    and "lock_at reg' (fst g) = Some (group_lock tick policy ps reg (fst g) (snd g))"
  shows "decision_sound reg reg' d"
proof (cases "lock_at reg (fst g)")
  case None
  obtain i r where r: "(i, r) \<in> set (enumerate 0 (snd g))"
      "d = free_decision tick policy (fst g) (group_lock tick policy ps reg (fst g) (snd g)) (winner_index reg (fst g) (snd g) policy ps) (i, r)"
    using assms(1) None by (auto simp: group_decisions_def Let_def)
  have "r = snd g ! i" using enumerate_nth [OF r(1)] by simp
  then show ?thesis
    using r(2) None assms(2) by (auto simp: decision_sound_def free_decision_def group_lock_def lock_for_def conflict_of_def)
next
  case (Some l)
  then show ?thesis
    using assms by (auto simp: group_decisions_def Let_def held_decision_def decision_sound_def conflict_of_def group_lock_def)
qed

text \<open>(C14) Segment locks. A batch of requests leaves every held edge with its holder, gives every free requested
  edge to one request, chosen by the policy among the requests for it in order of arrival, and leaves the
  other edges free. Every request gets one decision; the decision agrees with the locks after the batch, and a
  free requested edge is acquired exactly once. Exactly the conflicts decided are appended to the history.\<close>

theorem request_batch_exact:
  assumes "request_batch rs tick policy ps reg = (reg', ds)"
  shows "(\<forall>e. lock_at reg' e = (case lock_at reg e of Some l \<Rightarrow> Some l
        | None \<Rightarrow> if edge_requests e rs = [] then None
            else Some (lock_for tick e (edge_requests e rs ! winner_index reg e (edge_requests e rs) policy ps)))) \<and>
    mset (map fst ds) = mset (map rq_agent_id rs) \<and> (\<forall>d\<in>set ds. decision_sound reg reg' d) \<and>
    (\<forall>e. length (filter (acquires e) ds) = (if lock_at reg e = None \<and> edge_requests e rs \<noteq> [] then 1 else 0)) \<and>
    (\<exists>cs. conflict_history reg' = conflict_history reg @ cs \<and> mset cs = mset (conflicts_in ds))"
proof -
  note B = batch_spec [OF assms]
  let ?ds = "concat (map (group_decisions tick policy ps reg) (grouped rs))"
  have locks: "lock_at reg' e = (case lock_at reg e of Some l \<Rightarrow> Some l | None \<Rightarrow> if edge_requests e rs = [] then None
      else Some (lock_for tick e (edge_requests e rs ! winner_index reg e (edge_requests e rs) policy ps)))" for e
    unfolding B(3) edge_requests_Nil by (cases "lock_at reg e") (simp_all add: group_lock_def)
  have "map fst ?ds = map rq_agent_id (concat (map snd (grouped rs)))" by (simp add: map_concat comp_def group_agents)
  moreover have "mset (map fst ds) = mset (map fst ?ds)" using B(1) by (simp only: mset_map)
  moreover have "mset (concat (map snd (grouped rs))) = mset rs" using mset_groups by (simp add: grouped_def)
  ultimately have agents: "mset (map fst ds) = mset (map rq_agent_id rs)" by (simp only: mset_map)
  have "decision_sound reg reg' d" if "d \<in> set ds" for d
  proof -
    have "d \<in> set ?ds" using that B(1) mset_eq_setD by metis
    then obtain g where g: "g \<in> set (grouped rs)" "d \<in> set (group_decisions tick policy ps reg g)" by auto
    have "fst g \<in> rq_edge_id ` set rs" using g(1) grouped(2) by force
    then show ?thesis using group_sound [OF g(2)] B(3) grouped(3) [OF g(1)] by simp
  qed
  moreover have "length (filter (acquires e) ds) = (if lock_at reg e = None \<and> edge_requests e rs \<noteq> [] then 1 else 0)" for e
  proof -
    have "length (filter (acquires e) ds) = length (filter (acquires e) ?ds)"
      using B(1) by (metis mset_filter size_mset)
    also have "\<dots> = (if e \<in> fst ` set (grouped rs) \<and> lock_at reg e = None then 1 else 0)"
      by (rule concat_acquires [OF grouped(1)]) (use grouped(3) in blast)
    finally show ?thesis unfolding grouped(2) edge_requests_Nil by auto
  qed
  moreover have "mset (conflicts_in ?ds) = mset (conflicts_in ds)" using B(1) by (rule mset_conflicts [symmetric])
  ultimately show ?thesis using locks agents B(2) by blast
qed

lemma edge_requests_set: "set (edge_requests e rs) = {r\<in>set rs. rq_edge_id r = e}"
  by (auto simp: edge_requests_def)

text \<open>Right of way. The request that gets a free edge is, under first come and mission-critical override, the
  one with the least order of arrival, and under priority one that no other request outranks: no request for
  the edge has a higher priority, nor the same one and a smaller agent identifier.\<close>

theorem right_of_way:
  assumes "request_batch rs tick policy ps reg = (reg', ds)" "lock_at reg e = None" "r0 \<in> set rs" "rq_edge_id r0 = e"
    and "policy \<noteq> RoundRobin"
  shows "\<exists>w\<in>set rs. rq_edge_id w = e \<and> lock_at reg' e = Some (lock_for tick e w) \<and>
    (\<forall>r\<in>set rs. rq_edge_id r = e \<longrightarrow>
       (if policy = RowPriority then \<not> outranks ps r w
        else (request_order w, rq_agent_id w) \<le> (request_order r, rq_agent_id r)))"
proof -
  let ?rs = "edge_requests e rs" and ?w = "winner_index reg e (edge_requests e rs) policy ps"
  have ne: "?rs \<noteq> []" using assms(3,4) by (auto simp: edge_requests_Nil)
  have lock: "lock_at reg' e = Some (lock_for tick e (?rs ! ?w))"
    using batch_spec(3) [OF assms(1), of e] assms(2-4) ne by (simp add: group_lock_def edge_requests_Nil)
  have mem: "?rs ! ?w \<in> set ?rs" using winner_bound [OF ne] by (rule nth_mem)
  have "if policy = RowPriority then \<not> outranks ps r (?rs ! ?w)
      else (request_order (?rs ! ?w), rq_agent_id (?rs ! ?w)) \<le> (request_order r, rq_agent_id r)"
    if r: "r \<in> set rs" "rq_edge_id r = e" for r
  proof (cases "policy = RowPriority")
    case True
    then show ?thesis using max_index_group [OF ne, of _ ps] r edge_requests_set [of e rs] by (simp add: winner_index_def)
  next
    case False
    then have w: "?w = 0" using assms(5) by (cases policy) (simp_all add: winner_index_def)
    have "sorted (map request_key ?rs)" unfolding edge_requests_def by (rule sorted_filter) simp
    moreover have "r \<in> set ?rs" using r edge_requests_set by blast
    ultimately have "request_key (?rs ! 0) \<le> request_key r" using ne by (cases ?rs) auto
    moreover have "rq_edge_id (?rs ! 0) = e" using mem unfolding w edge_requests_set by simp
    ultimately show ?thesis using False w r(2) by (simp add: request_key_def)
  qed
  then show ?thesis using lock mem unfolding edge_requests_set by blast
qed

text \<open>One round of a contest for an edge: the batch, then the release by the winner.\<close>

definition contest_round ::
    "UrbanEdgeId \<Rightarrow> SegmentLockRequest list \<Rightarrow> u64 \<Rightarrow> priorities \<Rightarrow> UrbanSegmentLockRegistry \<Rightarrow> UrbanSegmentLockRegistry \<times> AgentId option" where
  "contest_round e rs tick ps reg =
     (let reg1 = fst (request_batch rs tick RoundRobin ps reg); winner = map_option holder_agent_id (lock_at reg1 e)
      in (case winner of None \<Rightarrow> reg1 | Some a \<Rightarrow> fst (lock_release e a tick reg1), winner))"

fun contest :: "nat \<Rightarrow> UrbanEdgeId \<Rightarrow> SegmentLockRequest list \<Rightarrow> u64 \<Rightarrow> priorities \<Rightarrow> UrbanSegmentLockRegistry \<Rightarrow> AgentId option list" where
  "contest 0 e rs tick ps reg = []"
| "contest (Suc n) e rs tick ps reg =
     (case contest_round e rs tick ps reg of (reg', w) \<Rightarrow> w # contest n e rs (tick + 1) ps reg')"

lemma decide_group_cursor:
  assumes "decide_group tick RoundRobin ps g (reg, ds) = (reg', ds')" "lock_at reg (fst g) = None"
  shows "cursor_at reg' (fst g) = Some ((winner_index reg (fst g) (snd g) RoundRobin ps + 1) mod max (length (snd g)) 1)"
  using assms by (auto simp: decide_group_def Let_def decide_free_eq)

lemma single_group:
  assumes "rs \<noteq> []" "\<forall>r\<in>set rs. rq_edge_id r = e"
  shows "grouped rs = [(e, sort_key request_key rs)]"
proof -
  have all: "edge_requests e rs = sort_key request_key rs" using assms(2) by (simp add: edge_requests_def filter_id_conv)
  have "rq_edge_id ` set rs = {e}" using assms by (cases rs) auto
  then have keys: "fst ` set (grouped rs) = {e}" using grouped(2) [of rs] by simp
  obtain g gs where g: "grouped rs = g # gs" using keys by (cases "grouped rs") auto
  have "gs = []"
  proof (cases gs)
    case (Cons h hs)
    then show ?thesis using grouped(1) [of rs] keys by (auto simp: g)
  qed simp
  then show ?thesis using grouped(3) [of g rs] keys all g by (cases g) simp
qed

lemma contest_round_spec:
  assumes "rs \<noteq> []" "\<forall>r\<in>set rs. rq_edge_id r = e" "lock_at reg e = None"
    and "c = (case cursor_at reg e of Some c \<Rightarrow> c | None \<Rightarrow> 0) mod length rs"
  shows "\<exists>reg'. contest_round e rs tick ps reg = (reg', Some (rq_agent_id (sort_key request_key rs ! c))) \<and>
    lock_at reg' e = None \<and> cursor_at reg' e = Some ((c + 1) mod length rs)"
proof -
  obtain reg1 ds where b: "request_batch rs tick RoundRobin ps reg = (reg1, ds)" by fastforce
  have pos: "max (length rs) 1 = length rs" using assms(1) by (cases rs) auto
  have w: "winner_index reg e (sort_key request_key rs) RoundRobin ps = c" by (simp add: winner_index_def assms(4) pos [simplified])
  have lock: "lock_at reg1 e = Some (lock_for tick e (sort_key request_key rs ! c))"
  proof -
    have "e \<in> rq_edge_id ` set rs" using assms(1,2) by (cases rs) auto
    moreover have "edge_requests e rs = sort_key request_key rs" using assms(2) by (simp add: edge_requests_def filter_id_conv)
    ultimately show ?thesis using batch_spec(3) [OF b, of e] assms(3) w by (simp add: group_lock_def)
  qed
  obtain ds1 where "decide_group tick RoundRobin ps (e, sort_key request_key rs) (reg, []) = (reg1, ds1)"
    using b single_group [OF assms(1,2)] by (auto simp: request_batch_def grouped_def [symmetric] split: prod.splits)
  then have cur: "cursor_at reg1 e = Some ((c + 1) mod length rs)"
    using decide_group_cursor [of tick ps "(e, sort_key request_key rs)" reg "[]" reg1] assms(3) w pos by simp
  show ?thesis
    using lock cur b by (simp add: contest_round_def Let_def lock_release_def) (simp add: lock_for_def)
qed

lemma contest_winners:
  assumes "rs \<noteq> []" "\<forall>r\<in>set rs. rq_edge_id r = e" "lock_at reg e = None"
    and "c = (case cursor_at reg e of Some c \<Rightarrow> c | None \<Rightarrow> 0)"
  shows "contest k e rs tick ps reg = map (\<lambda>i. Some (rq_agent_id (sort_key request_key rs ! ((c + i) mod length rs)))) [0..<k]"
  using assms(3,4)
proof (induction k arbitrary: reg tick c)
  case (Suc k)
  obtain reg' where r: "contest_round e rs tick ps reg = (reg', Some (rq_agent_id (sort_key request_key rs ! (c mod length rs))))"
      "lock_at reg' e = None" "cursor_at reg' e = Some ((c mod length rs + 1) mod length rs)"
    using contest_round_spec [OF assms(1,2) Suc.prems(1), of "c mod length rs" tick ps] Suc.prems(2) by auto
  have "contest k e rs (tick + 1) ps reg' =
      map (\<lambda>i. Some (rq_agent_id (sort_key request_key rs ! (((c mod length rs + 1) mod length rs + i) mod length rs)))) [0..<k]"
    using Suc.IH [OF r(2)] r(3) by simp
  also have "\<dots> = map (\<lambda>i. Some (rq_agent_id (sort_key request_key rs ! ((c + i) mod length rs)))) (map Suc [0..<k])"
    by (simp add: mod_simps add.assoc comp_def)
  finally show ?case using r(1) by (simp add: map_Suc_upt upt_rec [of 0 "Suc k"] del: upt_Suc)
qed simp

text \<open>(C15) Fairness of round robin. When the same requests compete for a free edge again and again and each winner
  releases it, every run of as many rounds as there are requests gives each request the edge exactly once, in
  the cyclic order of arrival.\<close>

theorem round_robin_fair:
  assumes "rs \<noteq> []" "\<forall>r\<in>set rs. rq_edge_id r = e" "lock_at reg e = None"
  shows "\<exists>c. contest (length rs) e rs tick ps reg = map (\<lambda>r. Some (rq_agent_id r)) (rotate c (sort_key request_key rs)) \<and>
    mset (contest (length rs) e rs tick ps reg) = mset (map (\<lambda>r. Some (rq_agent_id r)) rs)"
proof -
  define c where "c = (case cursor_at reg e of Some c \<Rightarrow> c | None \<Rightarrow> 0)"
  have "contest (length rs) e rs tick ps reg = map (\<lambda>r. Some (rq_agent_id r)) (rotate c (sort_key request_key rs))"
    unfolding contest_winners [OF assms c_def] by (rule nth_equalityI) (simp_all add: nth_rotate)
  moreover have "mset (rotate c xs) = mset xs" for xs :: "SegmentLockRequest list"
  proof (induction c)
    case (Suc c)
    have "mset (rotate1 ys) = mset ys" for ys :: "SegmentLockRequest list" by (cases ys) simp_all
    then show ?case using Suc by simp
  qed simp
  ultimately show ?thesis by (intro exI [of _ c]) simp
qed

section \<open>Examples\<close>

definition sample_request :: "AgentId \<Rightarrow> nat \<Rightarrow> SegmentLockRequest" where
  "sample_request a n = \<lparr>rq_agent_id = a, rq_edge_id = ''edge-a-b'', rq_segment_index = 0, request_order = n\<rparr>"

theorem request_batch_exact_witness:
  "length (filter (acquires ''edge-a-b'') (snd (request_batch [sample_request ''a'' 0, sample_request ''b'' 1] 1 FirstCome
     Map.empty lock_registry_new))) = 1"
  using request_batch_exact [of "[sample_request ''a'' 0, sample_request ''b'' 1]" 1 FirstCome Map.empty lock_registry_new, OF surjective_pairing]
  by (auto simp: lock_registry_new_def edge_requests_Nil sample_request_def)

theorem right_of_way_witness:
  "\<exists>w. lock_at (fst (request_batch [sample_request ''a'' 1, sample_request ''b'' 0] 1 FirstCome Map.empty lock_registry_new)) ''edge-a-b'' =
     Some (lock_for 1 ''edge-a-b'' w) \<and> request_order w = 0"
  using right_of_way [of "[sample_request ''a'' 1, sample_request ''b'' 0]" 1 FirstCome Map.empty lock_registry_new _ _ "''edge-a-b''"
      "sample_request ''b'' 0", OF surjective_pairing]
  by (auto simp: lock_registry_new_def sample_request_def)

theorem round_robin_fair_witness:
  "mset (contest 2 ''edge-a-b'' [sample_request ''a'' 0, sample_request ''b'' 1] 1 Map.empty lock_registry_new) = {#Some ''a'', Some ''b''#}"
  using round_robin_fair [of "[sample_request ''a'' 0, sample_request ''b'' 1]" "''edge-a-b''" lock_registry_new 1 Map.empty]
  by (simp add: lock_registry_new_def sample_request_def numeral_2_eq_2)

end
