(* ===== verification/SegmentCoordinator.thy ===== *)
theory SegmentCoordinator
  imports Deconfliction Network
begin

text \<open>
  \<open>swarm-sim/src/urban/segment_coordinator.rs\<close>: the network-facing owner of the segment locks. It answers
  reservations with grants and denials, hands out leases and expires them. The transport, the encoding of
  messages and the calendar are parameters: \<open>clock\<close> holds \<open>Utc.timestamp_opt\<close> with its \<open>single\<close>, and the
  instant of second zero.

  The theorem says that a lease is exclusive while it is valid, for every inbox and over the simulated
  network.
\<close>

section \<open>State\<close>

record 'dt clock =
  timestamp_opt :: "int \<Rightarrow> 'dt option"
  unix_epoch :: 'dt

record ('tr, 'dt) SegmentCoordinator =
  sc_transport :: 'tr
  coordinator_id :: AgentId
  sc_locks :: "(UrbanEdgeId, UrbanSegmentLock \<times> 'dt Lease) hmap"
  sc_policy :: UrbanRightOfWayPolicy
  sc_priorities :: priorities
  default_lease_ticks :: u64

datatype CoordinatorEvent =
  GrantSent UrbanEdgeId AgentId
| DenySent UrbanEdgeId AgentId SegmentDenyReason
| Released UrbanEdgeId AgentId
| LeaseExpiredEvent UrbanEdgeId AgentId

datatype 'e SegmentCoordinatorError = TransportError 'e

definition segment_coordinator_new :: "AgentId \<Rightarrow> 'tr \<Rightarrow> UrbanRightOfWayPolicy \<Rightarrow> priorities \<Rightarrow> ('tr, 'dt) SegmentCoordinator" where
  "segment_coordinator_new i tr policy ps = \<lparr>sc_transport = tr, coordinator_id = i, sc_locks = [], sc_policy = policy,
     sc_priorities = ps, default_lease_ticks = 30\<rparr>"

definition with_default_lease_ticks :: "u64 \<Rightarrow> ('tr, 'dt) SegmentCoordinator \<Rightarrow> ('tr, 'dt) SegmentCoordinator" where
  "with_default_lease_ticks n c = c\<lparr>default_lease_ticks := max n 1\<rparr>"

definition tick_to_time :: "'dt clock \<Rightarrow> u64 \<Rightarrow> 'dt" where
  "tick_to_time clk tick = (case timestamp_opt clk (min (int (unat tick)) (2 ^ 63 - 1)) of Some t \<Rightarrow> t | None \<Rightarrow> unix_epoch clk)"

section \<open>Leases and messages\<close>

definition lease_for :: "'dt clock \<Rightarrow> u64 \<Rightarrow> UrbanEdgeId \<Rightarrow> AgentId \<Rightarrow> ('tr, 'dt) SegmentCoordinator \<Rightarrow> 'dt Lease" where
  "lease_for clk tick e a c = \<lparr>l_lease_id = ''lease-'' @ e @ ''-'' @ a @ ''-'' @ show_nat (unat tick), holder = a, l_resource_id = e,
     l_resource_kind = ''urban_edge'', granted_at = tick_to_time clk tick,
     expires_at = tick_to_time clk (saturating_add tick (default_lease_ticks c))\<rparr>"

definition deny_reason :: "AgentId \<Rightarrow> AgentId \<Rightarrow> ('tr, 'dt) SegmentCoordinator \<Rightarrow> SegmentDenyReason" where
  "deny_reason requester held_by c =
     (if (sc_policy c = RowPriority \<or> sc_policy c = MissionCriticalOverride) \<and>
         priority_of (sc_priorities c) requester < priority_of (sc_priorities c) held_by
      then PolicyDenied else AlreadyHeld)"

definition send_message ::
    "(RawMessage \<Rightarrow> 'tr \<Rightarrow> ('tr, 'e, unit) fallible) \<Rightarrow> ('dt SwarmMessageEnvelope \<Rightarrow> byte list) \<Rightarrow> 'dt clock \<Rightarrow> u64 \<Rightarrow> AgentId \<Rightarrow>
     'dt SwarmMessage \<Rightarrow> ('tr, 'dt) SegmentCoordinator \<Rightarrow>
     (('tr, 'dt) SegmentCoordinator, 'e SegmentCoordinatorError, unit) fallible" where
  "send_message send enc clk tick dest msg c =
     (let env = \<lparr>se_schema_version = swarm_protocol_schema_version,
                 envelope_id = ''segment-coordinator-'' @ coordinator_id c @ ''-'' @ dest @ ''-'' @ show_nat (unat tick),
                 correlation_id = None, se_from = coordinator_id c, se_to = dest, sent_at = tick_to_time clk tick,
                 ttl_ticks = 10, message = msg\<rparr>
      in case send (into_raw_message enc env) (sc_transport c) of
        (tr, r) \<Rightarrow> (c\<lparr>sc_transport := tr\<rparr>, case r of Inl e \<Rightarrow> Inl (TransportError e) | Inr u \<Rightarrow> Inr ()))"

definition send_grant where
  "send_grant send enc clk tick e dest lease c = send_message send enc clk tick dest (SegmentGrant e dest lease) c"

definition send_deny where
  "send_deny send enc clk tick e dest held_by reason c = send_message send enc clk tick dest (SegmentDeny e dest held_by reason) c"

section \<open>Handlers\<close>

text \<open>The outcome of a handler is the coordinator and either the error or the extended list of events.\<close>

type_synonym ('tr, 'dt, 'e) handled =
  "(('tr, 'dt) SegmentCoordinator, 'e SegmentCoordinatorError, CoordinatorEvent list) fallible"

definition answered ::
    "(('tr, 'dt) SegmentCoordinator, 'e SegmentCoordinatorError, unit) fallible \<Rightarrow> CoordinatorEvent list \<Rightarrow> CoordinatorEvent \<Rightarrow>
     ('tr, 'dt, 'e) handled" where
  "answered r events ev = (case r of (c, Inl e) \<Rightarrow> (c, Inl e) | (c, Inr u) \<Rightarrow> (c, Inr (events @ [ev])))"

definition handle_reserve ::
    "(RawMessage \<Rightarrow> 'tr \<Rightarrow> ('tr, 'e, unit) fallible) \<Rightarrow> ('dt SwarmMessageEnvelope \<Rightarrow> byte list) \<Rightarrow> 'dt clock \<Rightarrow> u64 \<Rightarrow>
     UrbanEdgeId \<Rightarrow> nat \<Rightarrow> AgentId \<Rightarrow> CoordinatorEvent list \<Rightarrow> ('tr, 'dt) SegmentCoordinator \<Rightarrow> ('tr, 'dt, 'e) handled" where
  "handle_reserve send enc clk tick e segment_index requester events c =
     (case hm_get (sc_locks c) e of
        Some (lock, lease) \<Rightarrow>
          if holder_agent_id lock = requester
          then answered (send_grant send enc clk tick e requester lease c) events (GrantSent e requester)
          else (let reason = deny_reason requester (holder_agent_id lock) c
                in answered (send_deny send enc clk tick e requester (holder_agent_id lock) reason c) events
                     (DenySent e requester reason))
      | None \<Rightarrow>
          (let lease = lease_for clk tick e requester c;
               lock = \<lparr>lk_edge_id = e, holder_agent_id = requester, acquired_at_tick = tick, lk_segment_index = segment_index\<rparr>
           in answered (send_grant send enc clk tick e requester lease (c\<lparr>sc_locks := hm_insert e (lock, lease) (sc_locks c)\<rparr>))
                events (GrantSent e requester)))"

definition handle_release ::
    "UrbanEdgeId \<Rightarrow> LeaseId \<Rightarrow> AgentId \<Rightarrow> CoordinatorEvent list \<Rightarrow> ('tr, 'dt) SegmentCoordinator \<Rightarrow>
     ('tr, 'dt) SegmentCoordinator \<times> CoordinatorEvent list" where
  "handle_release e lease_id from events c =
     (case hm_get (sc_locks c) e of
        None \<Rightarrow> (c, events)
      | Some (lock, lease) \<Rightarrow>
          if holder_agent_id lock \<noteq> from \<or> l_lease_id lease \<noteq> lease_id then (c, events)
          else (c\<lparr>sc_locks := hm_remove e (sc_locks c)\<rparr>, events @ [Released e from]))"

definition expire_leases ::
    "('dt :: linorder) clock \<Rightarrow> u64 \<Rightarrow> CoordinatorEvent list \<Rightarrow> ('tr, 'dt) SegmentCoordinator \<Rightarrow>
     ('tr, 'dt) SegmentCoordinator \<times> CoordinatorEvent list" where
  "expire_leases clk tick events c =
     (let now = tick_to_time clk tick;
          expired = map (\<lambda>(e, lock, lease). (e, holder_agent_id lock)) (filter (\<lambda>(e, lock, lease). \<not> is_valid_at lease now) (sc_locks c))
      in foldl (\<lambda>(c, events) (e, a). (c\<lparr>sc_locks := hm_remove e (sc_locks c)\<rparr>, events @ [LeaseExpiredEvent e a])) (c, events) expired)"

definition handle_message ::
    "(RawMessage \<Rightarrow> 'tr \<Rightarrow> ('tr, 'e, unit) fallible) \<Rightarrow> ('dt SwarmMessageEnvelope \<Rightarrow> byte list) \<Rightarrow>
     (byte list \<Rightarrow> 'dt SwarmMessageEnvelope option) \<Rightarrow> 'dt clock \<Rightarrow> u64 \<Rightarrow> RawMessage \<Rightarrow> CoordinatorEvent list \<Rightarrow>
     ('tr, 'dt) SegmentCoordinator \<Rightarrow> ('tr, 'dt, 'e) handled" where
  "handle_message send enc dec clk tick raw events c =
     (case from_raw_message dec raw of
        None \<Rightarrow> (c, Inr events)
      | Some env \<Rightarrow>
          (case message env of
             SegmentReserve e segment_index requester _ \<Rightarrow> handle_reserve send enc clk tick e segment_index requester events c
           | SegmentRelease e lease_id \<Rightarrow> (case handle_release e lease_id (se_from env) events c of (c', evs) \<Rightarrow> (c', Inr evs))
           | _ \<Rightarrow> (c, Inr events)))"

text \<open>The loop over the inbox; \<open>None\<close> stands for an inbox that never empties.\<close>

partial_function (option) handle_inbox ::
    "('tr \<Rightarrow> ('tr, 'e, RawMessage option) fallible) \<Rightarrow>
     (RawMessage \<Rightarrow> CoordinatorEvent list \<Rightarrow> ('tr, 'dt) SegmentCoordinator \<Rightarrow> ('tr, 'dt, 'e) handled) \<Rightarrow>
     CoordinatorEvent list \<Rightarrow> ('tr, 'dt) SegmentCoordinator \<Rightarrow> ('tr, 'dt, 'e) handled option" where
  "handle_inbox poll handle events c =
     (case poll (sc_transport c) of
        (tr, Inl e) \<Rightarrow> Some (c\<lparr>sc_transport := tr\<rparr>, Inl (TransportError e))
      | (tr, Inr None) \<Rightarrow> Some (c\<lparr>sc_transport := tr\<rparr>, Inr events)
      | (tr, Inr (Some raw)) \<Rightarrow>
          (case handle raw events (c\<lparr>sc_transport := tr\<rparr>) of
             (c', Inl e) \<Rightarrow> Some (c', Inl e)
           | (c', Inr events') \<Rightarrow> handle_inbox poll handle events' c'))"

definition handle_incoming ::
    "('tr \<Rightarrow> ('tr, 'e, RawMessage option) fallible) \<Rightarrow> (RawMessage \<Rightarrow> 'tr \<Rightarrow> ('tr, 'e, unit) fallible) \<Rightarrow>
     ('dt SwarmMessageEnvelope \<Rightarrow> byte list) \<Rightarrow> (byte list \<Rightarrow> 'dt SwarmMessageEnvelope option) \<Rightarrow> ('dt :: linorder) clock \<Rightarrow> u64 \<Rightarrow>
     ('tr, 'dt) SegmentCoordinator \<Rightarrow> ('tr, 'dt, 'e) handled option" where
  "handle_incoming poll send enc dec clk tick c =
     (case expire_leases clk tick [] c of
        (c', events) \<Rightarrow> handle_inbox poll (handle_message send enc dec clk tick) events c')"

section \<open>The interface of a transport that also sends\<close>

locale duplex_transport = transport poll pending
  for poll :: "'tr \<Rightarrow> ('tr, 'e, RawMessage option) fallible" and pending :: "'tr \<Rightarrow> RawMessage list" +
  fixes send :: "RawMessage \<Rightarrow> 'tr \<Rightarrow> ('tr, 'e, unit) fallible"
    and own :: "'tr \<Rightarrow> AgentId"
  assumes poll_own: "own (fst (poll tr)) = own tr"
    and send_other: "rm_to m \<noteq> own tr \<Longrightarrow>
      snd (send m tr) = Inr () \<and> pending (fst (send m tr)) = pending tr \<and> own (fst (send m tr)) = own tr"
begin

text \<open>A rule for the loop over the inbox: \<open>I\<close> relates the messages handled so far, the events and the
  coordinator; it depends on the transport through its owner only.\<close>

lemma inbox_rule:
  assumes "I seen evs c" and "\<forall>m\<in>set (pending (sc_transport c)). ok m"
    and step: "\<And>m seen evs c. ok m \<Longrightarrow> I seen evs c \<Longrightarrow> \<exists>c' evs'. handle m evs c = (c', Inr evs') \<and>
      I (seen @ [m]) evs' c' \<and> pending (sc_transport c') = pending (sc_transport c)"
    and tr: "\<And>seen evs c t. I seen evs c \<Longrightarrow> own t = own (sc_transport c) \<Longrightarrow> I seen evs (c\<lparr>sc_transport := t\<rparr>)"
  shows "\<exists>c' evs'. handle_inbox poll handle evs c = Some (c', Inr evs') \<and> I (seen @ pending (sc_transport c)) evs' c'"
  using assms(1,2)
proof (induction "pending (sc_transport c)" arbitrary: c seen evs)
  case Nil
  obtain t where "poll (sc_transport c) = (t, Inr None)" "own t = own (sc_transport c)"
    using poll_empty [of "sc_transport c"] poll_own [of "sc_transport c"] Nil(1) by (metis prod.collapse)
  then show ?case using tr [OF Nil(2)] Nil(1) by (simp add: handle_inbox.simps)
next
  case (Cons m ms)
  obtain t where t: "poll (sc_transport c) = (t, Inr (Some m))" "own t = own (sc_transport c)" "pending t = ms"
    using poll_next [of "sc_transport c" m ms] poll_own [of "sc_transport c"] Cons(2) by (metis prod.collapse)
  obtain c' evs' where h: "handle m evs (c\<lparr>sc_transport := t\<rparr>) = (c', Inr evs')" "I (seen @ [m]) evs' c'" "pending (sc_transport c') = ms"
    using step [OF _ tr [OF Cons(3) t(2)], of m] Cons(2) [symmetric] Cons(4) t(3) by auto
  have "\<exists>c'' evs''. handle_inbox poll handle evs' c' = Some (c'', Inr evs'') \<and> I ((seen @ [m]) @ ms) evs'' c''"
    using Cons(1) [of c' "seen @ [m]" evs'] h Cons(2) [symmetric] Cons(4) by simp
  then show ?case using t(1) h(1) Cons(2) [symmetric] by (simp add: handle_inbox.simps [of poll handle evs c])
qed

text \<open>Sending to someone else only changes the transport.\<close>

lemma send_message_ok:
  assumes "dest \<noteq> own (sc_transport c)"
  shows "\<exists>t. send_message send enc clk tick dest msg c = (c\<lparr>sc_transport := t\<rparr>, Inr ()) \<and>
    pending t = pending (sc_transport c) \<and> own t = own (sc_transport c)"
proof -
  define env where "env = \<lparr>se_schema_version = swarm_protocol_schema_version,
    envelope_id = ''segment-coordinator-'' @ coordinator_id c @ ''-'' @ dest @ ''-'' @ show_nat (unat tick),
    correlation_id = None, se_from = coordinator_id c, se_to = dest, sent_at = tick_to_time clk tick, ttl_ticks = 10, message = msg\<rparr>"
  obtain t r where t: "send (into_raw_message enc env) (sc_transport c) = (t, r)" by fastforce
  have "rm_to (into_raw_message enc env) = dest" by (simp add: into_raw_message_def env_def)
  then have "r = Inr ()" "pending t = pending (sc_transport c)" "own t = own (sc_transport c)"
    using send_other [of "into_raw_message enc env" "sc_transport c"] assms t by simp_all
  then show ?thesis using t unfolding send_message_def env_def by (intro exI [of _ t]) simp
qed

end

lemma queue_send_other: "rm_to m \<noteq> i \<Longrightarrow> queue_of (fst (network_send g m n)) i = queue_of n i"
  by (cases rule: network_send_cases [of g m n]) (auto simp: queue_of_def enqueue_def Let_def)

interpretation agent_duplex: duplex_transport agent_poll agent_pending "agent_send g" "\<lambda>s. at_own_id (snd s)" for g
proof unfold_locales
  fix tr :: "'a agent_bus" and m
  obtain bus t where tr: "tr = (bus, t)" by (cases tr)
  obtain bus' r where s: "network_send g m bus = (bus', r)" by (cases "network_send g m bus")
  show "at_own_id (snd (fst (agent_poll tr))) = at_own_id (snd tr)"
    by (auto simp: agent_poll_def tr split: list.splits prod.splits)
  show "snd (agent_send g m tr) = Inr () \<and> agent_pending (fst (agent_send g m tr)) = agent_pending tr \<and>
      at_own_id (snd (fst (agent_send g m tr))) = at_own_id (snd tr)" if "rm_to m \<noteq> at_own_id (snd tr)"
    using that queue_send_other [of m "at_own_id t" g bus] network_send_frame [of g m bus]
    by (simp add: agent_send_def agent_pending_def due_def tr s)
qed

section \<open>What a tick does to the locks\<close>

definition reserves :: "(byte list \<Rightarrow> 'dt SwarmMessageEnvelope option) \<Rightarrow> RawMessage \<Rightarrow> UrbanEdgeId \<Rightarrow> AgentId \<Rightarrow> bool" where
  "reserves dec raw e a = (\<exists>env i d. from_raw_message dec raw = Some env \<and> message env = SegmentReserve e i a d)"

definition releases :: "(byte list \<Rightarrow> 'dt SwarmMessageEnvelope option) \<Rightarrow> RawMessage \<Rightarrow> UrbanEdgeId \<Rightarrow> AgentId \<Rightarrow> LeaseId \<Rightarrow> bool" where
  "releases dec raw e a lid = (\<exists>env. from_raw_message dec raw = Some env \<and> message env = SegmentRelease e lid \<and> se_from env = a)"

definition tick_inv ::
    "(byte list \<Rightarrow> ('dt :: linorder) SwarmMessageEnvelope option) \<Rightarrow> 'dt \<Rightarrow> (UrbanEdgeId \<rightharpoonup> UrbanSegmentLock \<times> 'dt Lease) \<Rightarrow>
     RawMessage list \<Rightarrow> CoordinatorEvent list \<Rightarrow> ('tr, 'dt) SegmentCoordinator \<Rightarrow> bool" where
  "tick_inv dec now L0 seen evs c =
     ((\<forall>e lk ls. L0 e = Some (lk, ls) \<longrightarrow> (\<forall>m\<in>set seen. \<not> releases dec m e (holder_agent_id lk) (l_lease_id ls)) \<longrightarrow>
         hm_get (sc_locks c) e = Some (lk, ls) \<and> (\<forall>a. GrantSent e a \<in> set evs \<longrightarrow> a = holder_agent_id lk)) \<and>
      (\<forall>e lk ls. hm_get (sc_locks c) e = Some (lk, ls) \<longrightarrow> is_valid_at ls now) \<and>
      (\<forall>m\<in>set seen. \<forall>e a. reserves dec m e a \<longrightarrow> GrantSent e a \<in> set evs \<or> (\<exists>r. DenySent e a r \<in> set evs)))"

lemma answered_ok: "answered (c, Inr u) evs ev = (c, Inr (evs @ [ev]))"
  by (simp add: answered_def)

lemma tick_inv_grant:
  assumes "tick_inv dec now L0 seen evs c" "from_raw_message dec m = Some env" "message env = SegmentReserve e i a d"
    and "hm_get (sc_locks c) e = Some (lk, ls)" "holder_agent_id lk = a" "sc_locks c' = sc_locks c"
  shows "tick_inv dec now L0 (seen @ [m]) (evs @ [GrantSent e a]) c'"
  using assms unfolding tick_inv_def by (auto simp: reserves_def)

lemma tick_inv_deny:
  assumes "tick_inv dec now L0 seen evs c" "from_raw_message dec m = Some env" "message env = SegmentReserve e i a d"
    and "sc_locks c' = sc_locks c"
  shows "tick_inv dec now L0 (seen @ [m]) (evs @ [DenySent e a r]) c'"
  using assms unfolding tick_inv_def by (auto simp: reserves_def)

lemma tick_inv_new:
  assumes "tick_inv dec now L0 seen evs c" "from_raw_message dec m = Some env" "message env = SegmentReserve e i a d"
    and "hm_get (sc_locks c) e = None" "sc_locks c' = hm_insert e (lk, ls) (sc_locks c)" "is_valid_at ls now"
  shows "tick_inv dec now L0 (seen @ [m]) (evs @ [GrantSent e a]) c'"
  using assms unfolding tick_inv_def by (auto simp: reserves_def)

lemma tick_inv_release:
  assumes "tick_inv dec now L0 seen evs c" "from_raw_message dec m = Some env" "message env = SegmentRelease e lid"
    and "hm_get (sc_locks c) e = Some (lk, ls)" "holder_agent_id lk = se_from env" "l_lease_id ls = lid"
    and "sc_locks c' = hm_remove e (sc_locks c)"
  shows "tick_inv dec now L0 (seen @ [m]) (evs @ [Released e (se_from env)]) c'"
proof -
  have rel: "releases dec m e (holder_agent_id lk) (l_lease_id ls)" using assms(2,3,5,6) by (simp add: releases_def)
  have nores: "\<not> reserves dec m x a" for x a using assms(2,3) by (simp add: reserves_def)
  have keep: "hm_get (sc_locks c') x = Some (lk', ls') \<and> (\<forall>a. GrantSent x a \<in> set evs \<longrightarrow> a = holder_agent_id lk')"
    if L0: "L0 x = Some (lk', ls')" and no: "\<forall>m'\<in>set (seen @ [m]). \<not> releases dec m' x (holder_agent_id lk') (l_lease_id ls')" for x lk' ls'
  proof -
    have "hm_get (sc_locks c) x = Some (lk', ls') \<and> (\<forall>a. GrantSent x a \<in> set evs \<longrightarrow> a = holder_agent_id lk')"
      using assms(1) L0 no unfolding tick_inv_def by simp
    moreover have "x \<noteq> e" using calculation rel no assms(4) by auto
    ultimately show ?thesis using assms(7) by simp
  qed
  then show ?thesis using assms(1,7) nores unfolding tick_inv_def by simp
qed

lemma tick_inv_skip:
  assumes "tick_inv dec now L0 seen evs c" "\<And>e a. \<not> reserves dec m e a" "sc_locks c' = sc_locks c"
  shows "tick_inv dec now L0 (seen @ [m]) evs c'"
  using assms unfolding tick_inv_def by auto

text \<open>One message, over a transport that delivers.\<close>

context duplex_transport
begin

lemma handle_reserve_inv:
  assumes inv: "tick_inv dec (tick_to_time clk tick) L0 seen evs c" and a: "a \<noteq> own (sc_transport c)"
    and reserve: "from_raw_message dec m = Some env" "message env = SegmentReserve e k a d"
    and lease: "tick_to_time clk tick < tick_to_time clk (saturating_add tick (default_lease_ticks c))"
  shows "\<exists>c' evs'. handle_reserve send enc clk tick e k a evs c = (c', Inr evs') \<and>
    tick_inv dec (tick_to_time clk tick) L0 (seen @ [m]) evs' c' \<and> own (sc_transport c') = own (sc_transport c) \<and>
    default_lease_ticks c' = default_lease_ticks c \<and> pending (sc_transport c') = pending (sc_transport c)"
proof (cases "hm_get (sc_locks c) e")
  case None
  let ?lock = "\<lparr>lk_edge_id = e, holder_agent_id = a, acquired_at_tick = tick, lk_segment_index = k\<rparr>"
  let ?c = "c\<lparr>sc_locks := hm_insert e (?lock, lease_for clk tick e a c) (sc_locks c)\<rparr>"
  obtain t where t: "send_message send enc clk tick a (SegmentGrant e a (lease_for clk tick e a c)) ?c = (?c\<lparr>sc_transport := t\<rparr>, Inr ())"
      "pending t = pending (sc_transport c)" "own t = own (sc_transport c)"
    using send_message_ok [of a ?c enc clk tick] a by auto
  have "is_valid_at (lease_for clk tick e a c) (tick_to_time clk tick)" using lease by (simp add: is_valid_at_def lease_for_def)
  then show ?thesis
    using t tick_inv_new [OF inv reserve None, of "?c\<lparr>sc_transport := t\<rparr>" ?lock "lease_for clk tick e a c"]
    by (simp add: handle_reserve_def None Let_def send_grant_def answered_ok)
next
  case (Some p)
  then obtain lk ls where p: "hm_get (sc_locks c) e = Some (lk, ls)" by (cases p) auto
  obtain t1 where t1: "send_message send enc clk tick a (SegmentGrant e a ls) c = (c\<lparr>sc_transport := t1\<rparr>, Inr ())"
      "pending t1 = pending (sc_transport c)" "own t1 = own (sc_transport c)" using send_message_ok [OF a] by blast
  obtain t2 where t2: "send_message send enc clk tick a (SegmentDeny e a (holder_agent_id lk) (deny_reason a (holder_agent_id lk) c)) c =
        (c\<lparr>sc_transport := t2\<rparr>, Inr ())" "pending t2 = pending (sc_transport c)" "own t2 = own (sc_transport c)"
    using send_message_ok [OF a] by blast
  show ?thesis
  proof (cases "holder_agent_id lk = a")
    case True
    then show ?thesis using t1 tick_inv_grant [OF inv reserve p True, of "c\<lparr>sc_transport := t1\<rparr>"]
      by (simp add: handle_reserve_def p send_grant_def answered_ok)
  next
    case False
    then show ?thesis using t2 tick_inv_deny [OF inv reserve, of "c\<lparr>sc_transport := t2\<rparr>"]
      by (simp add: handle_reserve_def p send_deny_def Let_def answered_ok)
  qed
qed

lemma handle_message_inv:
  assumes inv: "tick_inv dec (tick_to_time clk tick) L0 seen evs c" and own: "own (sc_transport c) = i"
    and ok: "\<And>e a. reserves dec m e a \<Longrightarrow> a \<noteq> i"
    and lease: "tick_to_time clk tick < tick_to_time clk (saturating_add tick (default_lease_ticks c))"
  shows "\<exists>c' evs'. handle_message send enc dec clk tick m evs c = (c', Inr evs') \<and>
    tick_inv dec (tick_to_time clk tick) L0 (seen @ [m]) evs' c' \<and> own (sc_transport c') = i \<and>
    default_lease_ticks c' = default_lease_ticks c \<and> pending (sc_transport c') = pending (sc_transport c)"
proof -
  consider (reserve) env e k a d where "from_raw_message dec m = Some env" "message env = SegmentReserve e k a d"
    | (release) env e lid where "from_raw_message dec m = Some env" "message env = SegmentRelease e lid"
    | (other) "\<And>e a. \<not> reserves dec m e a" "handle_message send enc dec clk tick m evs c = (c, Inr evs)"
    by (cases "from_raw_message dec m"; cases "message (the (from_raw_message dec m))")
      (auto simp: handle_message_def reserves_def)
  then show ?thesis
  proof cases
    case reserve
    have a: "a \<noteq> own (sc_transport c)" using ok reserve own by (auto simp: reserves_def)
    have h: "handle_message send enc dec clk tick m evs c = handle_reserve send enc clk tick e k a evs c"
      by (simp add: handle_message_def reserve)
    show ?thesis using handle_reserve_inv [OF inv a reserve lease] own by (simp add: h)
  next
    case release
    have nores: "\<And>e a. \<not> reserves dec m e a" using release by (simp add: reserves_def)
    show ?thesis
    proof (cases "\<exists>lk ls. hm_get (sc_locks c) e = Some (lk, ls) \<and> holder_agent_id lk = se_from env \<and> l_lease_id ls = lid")
      case True
      then obtain lk ls where l: "hm_get (sc_locks c) e = Some (lk, ls)" "holder_agent_id lk = se_from env" "l_lease_id ls = lid" by blast
      then show ?thesis using own tick_inv_release [OF inv release l, of "c\<lparr>sc_locks := hm_remove e (sc_locks c)\<rparr>"]
        by (simp add: handle_message_def release handle_release_def)
    next
      case False
      then have "handle_message send enc dec clk tick m evs c = (c, Inr evs)"
        by (auto simp: handle_message_def release handle_release_def split: option.splits)
      then show ?thesis using own tick_inv_skip [OF inv nores, of c] by simp
    qed
  next
    case other
    then show ?thesis using own tick_inv_skip [OF inv other(1), of c] by simp
  qed
qed

end

section \<open>Exclusive leases\<close>

text \<open>What the code relies on of \<open>chrono\<close>: seconds up to \<open>hi\<close> are instants, in their order.\<close>

definition calendar :: "('dt :: linorder) clock \<Rightarrow> int \<Rightarrow> bool" where
  "calendar clk hi = (\<forall>s t. 0 \<le> s \<longrightarrow> s < t \<longrightarrow> t \<le> hi \<longrightarrow>
     (\<exists>a b. timestamp_opt clk s = Some a \<and> timestamp_opt clk t = Some b \<and> a < b))"

lemma lease_after:
  assumes "calendar clk hi" "hi < 2 ^ 63" "int (unat tick) + int (unat n) \<le> hi" "0 < n"
  shows "tick_to_time clk tick < tick_to_time clk (saturating_add tick n)"
proof -
  have "int (unat tick + unat n) < int (2 ^ 63)" unfolding of_nat_add of_nat_power of_nat_numeral using assms(2,3) by linarith
  then have small: "unat tick + unat n < 2 ^ 63" by (simp only: of_nat_less_iff)
  then have sum: "unat (saturating_add tick n) = unat tick + unat n" by (simp add: unat_saturating_add)
  have pos: "0 < unat n" using assms(4) by (simp add: word_less_nat_alt)
  obtain a b where ab: "timestamp_opt clk (int (unat tick)) = Some a" "timestamp_opt clk (int (unat tick + unat n)) = Some b" "a < b"
  proof -
    have "0 \<le> int (unat tick)" "int (unat tick) < int (unat tick + unat n)" "int (unat tick + unat n) \<le> hi"
      using pos assms(3) unfolding of_nat_add by linarith+
    then show ?thesis using assms(1) that unfolding calendar_def by blast
  qed
  have "min (int (unat tick)) (2 ^ 63 - 1) = int (unat tick)" "min (int (unat tick + unat n)) (2 ^ 63 - 1) = int (unat tick + unat n)"
    using assms(2,3) unfolding of_nat_add by linarith+
  then show ?thesis using ab by (simp only: tick_to_time_def sum option.case)
qed

lemma expire_fold:
  "foldl (\<lambda>(c, events) (e, a). (c\<lparr>sc_locks := hm_remove e (sc_locks c)\<rparr>, events @ [LeaseExpiredEvent e a])) (c, evs) xs =
     (c\<lparr>sc_locks := foldl (\<lambda>l (e, a). hm_remove e l) (sc_locks c) xs\<rparr>, evs @ map (\<lambda>(e, a). LeaseExpiredEvent e a) xs)"
  by (induction xs arbitrary: c evs) auto

lemma get_foldl_remove: "hm_get (foldl (\<lambda>l (e, a). hm_remove e l) l xs) x = (if x \<in> fst ` set xs then None else hm_get l x)"
  by (induction xs arbitrary: l) auto

lemma expire_leases_spec:
  assumes "hm_wf (sc_locks c)" "expire_leases clk tick [] c = (c', evs)"
  shows "hm_get (sc_locks c') e = Some (lk, ls) \<longleftrightarrow> hm_get (sc_locks c) e = Some (lk, ls) \<and> is_valid_at ls (tick_to_time clk tick)"
    and "sc_transport c' = sc_transport c" "default_lease_ticks c' = default_lease_ticks c" "GrantSent e a \<notin> set evs"
proof -
  let ?xs = "map (\<lambda>(e, lock, lease). (e, holder_agent_id lock)) (filter (\<lambda>(e, lock, lease). \<not> is_valid_at lease (tick_to_time clk tick)) (sc_locks c))"
  have c': "c' = c\<lparr>sc_locks := foldl (\<lambda>l (e, a). hm_remove e l) (sc_locks c) ?xs\<rparr>"
    and evs: "evs = map (\<lambda>(e, a). LeaseExpiredEvent e a) ?xs"
    using assms(2) unfolding expire_leases_def Let_def expire_fold by simp_all
  have mem: "e \<in> fst ` set ?xs \<longleftrightarrow> (\<exists>lk ls. hm_get (sc_locks c) e = Some (lk, ls) \<and> \<not> is_valid_at ls (tick_to_time clk tick))"
    using hm_get_Some_iff [OF assms(1)] by force
  show "hm_get (sc_locks c') e = Some (lk, ls) \<longleftrightarrow> hm_get (sc_locks c) e = Some (lk, ls) \<and> is_valid_at ls (tick_to_time clk tick)"
    unfolding c' using mem by (auto simp: get_foldl_remove)
  show "sc_transport c' = sc_transport c" "default_lease_ticks c' = default_lease_ticks c" by (simp_all add: c')
  show "GrantSent e a \<notin> set evs" by (auto simp: evs)
qed

text \<open>(C13) Exclusive leases. Over the simulated network a coordinator handles its whole inbox without error. A lease that
  is valid at this tick and that its holder does not release in this inbox stays with its holder, and nobody
  else is granted the segment. All leases in force afterwards are valid, and every reservation is answered.\<close>

theorem valid_lease_exclusive:
  fixes c :: "('r agent_bus, 'dt :: linorder) SegmentCoordinator"
  assumes wf: "hm_wf (sc_locks c)"
    and others: "\<forall>m\<in>set (agent_pending (sc_transport c)). \<forall>e a. reserves dec m e a \<longrightarrow> a \<noteq> at_own_id (snd (sc_transport c))"
    and time: "calendar clk hi" "hi < 2 ^ 63" "int (unat tick) + int (unat (default_lease_ticks c)) \<le> hi" "0 < default_lease_ticks c"
  shows "\<exists>c' evs. handle_incoming agent_poll (agent_send g) enc dec clk tick c = Some (c', Inr evs) \<and>
    (\<forall>e lk ls. hm_get (sc_locks c) e = Some (lk, ls) \<longrightarrow> is_valid_at ls (tick_to_time clk tick) \<longrightarrow>
       (\<forall>m\<in>set (agent_pending (sc_transport c)). \<not> releases dec m e (holder_agent_id lk) (l_lease_id ls)) \<longrightarrow>
       hm_get (sc_locks c') e = Some (lk, ls) \<and> (\<forall>a. GrantSent e a \<in> set evs \<longrightarrow> a = holder_agent_id lk)) \<and>
    (\<forall>e lk ls. hm_get (sc_locks c') e = Some (lk, ls) \<longrightarrow> is_valid_at ls (tick_to_time clk tick)) \<and>
    (\<forall>m\<in>set (agent_pending (sc_transport c)). \<forall>e a. reserves dec m e a \<longrightarrow>
       GrantSent e a \<in> set evs \<or> (\<exists>r. DenySent e a r \<in> set evs))"
proof -
  obtain c1 evs1 where x: "expire_leases clk tick [] c = (c1, evs1)" by fastforce
  note X = expire_leases_spec [OF wf x]
  let ?i = "at_own_id (snd (sc_transport c))" and ?now = "tick_to_time clk tick" and ?L = "hm_get (sc_locks c1)"
  define I where "I seen evs c' \<longleftrightarrow> tick_inv dec ?now ?L seen evs c' \<and> at_own_id (snd (sc_transport c')) = ?i \<and>
    default_lease_ticks c' = default_lease_ticks c" for seen evs and c' :: "('r agent_bus, 'dt) SegmentCoordinator"
  define ok where "ok m \<longleftrightarrow> (\<forall>e a. reserves dec m e a \<longrightarrow> a \<noteq> ?i)" for m
  have lease: "?now < tick_to_time clk (saturating_add tick (default_lease_ticks c))" by (rule lease_after [OF time])
  have "\<exists>c' evs'. handle_inbox agent_poll (handle_message (agent_send g) enc dec clk tick) evs1 c1 = Some (c', Inr evs') \<and>
      I ([] @ agent_pending (sc_transport c1)) evs' c'"
  proof (rule agent_duplex.inbox_rule [where ok = ok])
    show "I [] evs1 c1" unfolding I_def tick_inv_def using X by auto
    show "\<forall>m\<in>set (agent_pending (sc_transport c1)). ok m" using others X(2) by (simp add: ok_def)
    show "\<exists>c'' evs''. handle_message (agent_send g) enc dec clk tick m evs' c' = (c'', Inr evs'') \<and> I (seen @ [m]) evs'' c'' \<and>
        agent_pending (sc_transport c'') = agent_pending (sc_transport c')" if "ok m" "I seen evs' c'" for m seen evs' c'
      using agent_duplex.handle_message_inv [of dec clk tick ?L seen evs' c' ?i m g enc] that lease
      unfolding I_def ok_def by auto
    show "I seen evs' (c'\<lparr>sc_transport := t\<rparr>)" if "I seen evs' c'" "at_own_id (snd t) = at_own_id (snd (sc_transport c'))" for seen evs' c' t
      using that unfolding I_def tick_inv_def by simp
  qed
  then obtain c' evs' where r: "handle_incoming agent_poll (agent_send g) enc dec clk tick c = Some (c', Inr evs')"
      "tick_inv dec ?now ?L (agent_pending (sc_transport c)) evs' c'"
    by (auto simp: handle_incoming_def x I_def X(2))
  have "?L e = Some (lk, ls)" if "hm_get (sc_locks c) e = Some (lk, ls)" "is_valid_at ls ?now" for e lk ls using X(1) that by blast
  then show ?thesis using r unfolding tick_inv_def by (intro exI [of _ c'] exI [of _ evs'] conjI) blast+
qed

section \<open>Example\<close>

definition sample_clock :: "int clock" where
  "sample_clock = \<lparr>timestamp_opt = (\<lambda>s. Some s), unix_epoch = 0\<rparr>"

definition sample_lock :: "UrbanSegmentLock \<times> int Lease" where
  "sample_lock = (\<lparr>lk_edge_id = ''e'', holder_agent_id = ''a'', acquired_at_tick = 1, lk_segment_index = 0\<rparr>,
     \<lparr>l_lease_id = ''lease-e-a-1'', holder = ''a'', l_resource_id = ''e'', l_resource_kind = ''urban_edge'', granted_at = 1, expires_at = 31\<rparr>)"

definition sample_decode :: "byte list \<Rightarrow> int SwarmMessageEnvelope option" where
  "sample_decode b = Some \<lparr>se_schema_version = swarm_protocol_schema_version, envelope_id = ''x'', correlation_id = None, se_from = ''b'',
     se_to = ''coord'', sent_at = 4, ttl_ticks = 10, message = SegmentReserve ''e'' 0 ''b'' 5\<rparr>"

definition sample_coordinator :: "(unit agent_bus, int) SegmentCoordinator" where
  "sample_coordinator = (segment_coordinator_new ''coord''
      (network_new fair_rng sample_config, \<lparr>at_own_id = ''coord'', at_buffer = [\<lparr>rm_from = ''b'', rm_to = ''coord'', payload = []\<rparr>]\<rparr>)
      FirstCome Map.empty)\<lparr>sc_locks := [(''e'', sample_lock)]\<rparr>"

theorem valid_lease_exclusive_witness:
  "\<exists>c' evs. handle_incoming agent_poll (agent_send fair_rng) (\<lambda>_. []) sample_decode sample_clock 5 sample_coordinator = Some (c', Inr evs) \<and>
     hm_get (sc_locks c') ''e'' = Some sample_lock"
proof -
  have p: "agent_pending (sc_transport sample_coordinator) = [\<lparr>rm_from = ''b'', rm_to = ''coord'', payload = []\<rparr>]"
    by (simp add: sample_coordinator_def segment_coordinator_new_def agent_pending_def due_def queue_of_def network_new_def)
  have r: "reserves sample_decode m e a \<longleftrightarrow> e = ''e'' \<and> a = ''b''" for m e a
    by (auto simp: reserves_def from_raw_message_def sample_decode_def)
  have n: "\<not> releases sample_decode m e a l" for m e a l by (simp add: releases_def from_raw_message_def sample_decode_def)
  have v: "is_valid_at (snd sample_lock) (tick_to_time sample_clock 5)"
    by (simp add: is_valid_at_def sample_lock_def tick_to_time_def sample_clock_def)
  have c: "hm_wf (sc_locks sample_coordinator)" "at_own_id (snd (sc_transport sample_coordinator)) = ''coord''"
      "default_lease_ticks sample_coordinator = 30" "hm_get (sc_locks sample_coordinator) ''e'' = Some sample_lock"
    by (simp_all add: sample_coordinator_def segment_coordinator_new_def hm_wf_def hm_get_def)
  have t: "calendar sample_clock 100" by (simp add: calendar_def sample_clock_def)
  obtain lk ls where l: "sample_lock = (lk, ls)" by fastforce
  have o: "\<forall>m\<in>set (agent_pending (sc_transport sample_coordinator)). \<forall>e a. reserves sample_decode m e a \<longrightarrow>
      a \<noteq> at_own_id (snd (sc_transport sample_coordinator))" by (simp add: r c)
  have u: "int (unat (5 :: u64)) + int (unat (default_lease_ticks sample_coordinator)) \<le> 100" "0 < default_lease_ticks sample_coordinator"
    by (simp_all add: c)
  have h: "(100 :: int) < 2 ^ 63" by simp
  obtain c' evs where run: "handle_incoming agent_poll (agent_send fair_rng) (\<lambda>_. []) sample_decode sample_clock 5 sample_coordinator = Some (c', Inr evs)"
      and keep: "\<forall>e lk ls. hm_get (sc_locks sample_coordinator) e = Some (lk, ls) \<longrightarrow> is_valid_at ls (tick_to_time sample_clock 5) \<longrightarrow>
         (\<forall>m\<in>set (agent_pending (sc_transport sample_coordinator)). \<not> releases sample_decode m e (holder_agent_id lk) (l_lease_id ls)) \<longrightarrow>
         hm_get (sc_locks c') e = Some (lk, ls) \<and> (\<forall>a. GrantSent e a \<in> set evs \<longrightarrow> a = holder_agent_id lk)"
    using valid_lease_exclusive [OF c(1) o t h u, of fair_rng "\<lambda>_. []"] by (elim exE conjE) blast
  have "hm_get (sc_locks c') ''e'' = Some sample_lock"
    using keep [rule_format, of "''e''" lk ls] v c(4) n unfolding l by simp
  then show ?thesis using run by blast
qed

end
