(* ===== verification/PartitionSupervisor.thy ===== *)
theory PartitionSupervisor
  imports Node "HOL-Library.Multiset" "HOL-Library.Product_Lexorder" "HOL-Library.List_Lexorder"
begin

text \<open>
  \<open>swarm-sim/src/runner/internal/partition_supervisor.rs\<close>: what the supervisor does when the swarm splits, when
  a partition heals and when nodes fail. The mutable arguments of the handlers are the record \<open>Supervisor\<close>;
  \<open>Event\<close> has the variants of the replay event these handlers push. The instants of leases are the parameter
  \<open>instant\<close>; where it is undefined the code panics, \<open>None\<close> here.

  The theorems characterise the components of the swarm and say that healing leaves at most one agent with a
  valid lease per resource and keeps the lease that is older than all others.
\<close>

section \<open>State\<close>

datatype 'dt Event =
  OwnershipConflictEvent u64 string AgentId AgentId
| PartitionDetectedEvent u64 "AgentId list" "AgentId list"
| PartitionHealedEvent u64
| SupervisorDegradedDecision u64 ConnectivityLossKind SupervisorDecision "string list"
| SupervisorReconciled u64 "'dt SupervisorReconcileResult"
| CommandSuppressed u64 string string

record ('tr, 'dt) Supervisor =
  sup_nodes :: "(('tr, 'dt) AgentNode \<times> AgentId) list"
  degraded_decision_log :: "DegradedDecisionLog list"
  partition_reports :: "PartitionReport list"
  reconciliation_reports :: "'dt ReconciliationReport list"
  log_builder :: "'dt Event list option"

definition log_push :: "'dt Event \<Rightarrow> ('tr, 'dt) Supervisor \<Rightarrow> ('tr, 'dt) Supervisor" where
  "log_push ev s = s\<lparr>log_builder := map_option (\<lambda>es. es @ [ev]) (log_builder s)\<rparr>"

definition push_decision :: "DegradedDecisionLog \<Rightarrow> ('tr, 'dt) Supervisor \<Rightarrow> ('tr, 'dt) Supervisor" where
  "push_decision d s = s\<lparr>degraded_decision_log := degraded_decision_log s @ [d]\<rparr>"

section \<open>Connected components\<close>

definition canonical_partition_pair :: "AgentId \<Rightarrow> AgentId \<Rightarrow> AgentId \<times> AgentId" where
  "canonical_partition_pair a b = (if a \<le> b then (a, b) else (b, a))"

text \<open>The peers pushed when an agent is visited.\<close>

definition open_peers :: "AgentId list \<Rightarrow> (AgentId \<times> AgentId) set \<Rightarrow> AgentId set \<Rightarrow> AgentId \<Rightarrow> AgentId list" where
  "open_peers ids pairs visited a =
     filter (\<lambda>p. p \<noteq> a \<and> canonical_partition_pair a p \<notin> pairs \<and> p \<notin> visited) ids"

text \<open>The stack is a list whose head is its top.\<close>

function visit_component ::
    "AgentId list \<Rightarrow> (AgentId \<times> AgentId) set \<Rightarrow> AgentId list \<Rightarrow> AgentId set \<Rightarrow> AgentId list \<Rightarrow> AgentId set \<times> AgentId list" where
  "visit_component ids pairs [] visited component = (visited, component)"
| "visit_component ids pairs (a # stack) visited component =
     (if a \<in> visited then visit_component ids pairs stack visited component
      else visit_component ids pairs (rev (open_peers ids pairs (insert a visited) a) @ stack) (insert a visited) (component @ [a]))"
  by pat_completeness auto

termination
proof (relation "measures [\<lambda>(ids, pairs, stack, visited, component). card (set ids \<union> set stack - visited),
    \<lambda>(ids, pairs, stack, visited, component). length stack]", goal_cases)
  case (2 ids pairs a stack visited component)
  then have "set ids \<union> set (a # stack) - visited = set ids \<union> set stack - visited" by auto
  then show ?case by simp
next
  case (3 ids pairs a stack visited component)
  have "set ids \<union> set (rev (open_peers ids pairs (insert a visited) a) @ stack) - insert a visited \<subset> set ids \<union> set (a # stack) - visited"
    using 3 by (auto simp: open_peers_def)
  then show ?case by (auto intro: psubset_card_mono)
qed simp

fun visit_components ::
    "AgentId list \<Rightarrow> (AgentId \<times> AgentId) set \<Rightarrow> AgentId list \<Rightarrow> AgentId set \<Rightarrow> AgentId list list \<Rightarrow> AgentId list list" where
  "visit_components ids pairs [] visited components = components"
| "visit_components ids pairs (a # as) visited components =
     (if a \<in> visited then visit_components ids pairs as visited components
      else case visit_component ids pairs [a] visited [] of
        (visited', component) \<Rightarrow> visit_components ids pairs as visited' (components @ [sort component]))"

definition connected_components :: "AgentId list \<Rightarrow> (AgentId \<times> AgentId) set \<Rightarrow> AgentId list list" where
  "connected_components ids pairs = sort_key (\<lambda>c. (length c, take 1 c)) (visit_components ids pairs ids {} [])"

section \<open>A partition starts\<close>

definition lease_snapshot :: "AgentId \<Rightarrow> ActiveLeaseRecord \<Rightarrow> LeaseTickSnapshot" where
  "lease_snapshot a l = \<lparr>lt_lease_id = al_lease_id l, lt_holder = a, lt_resource_id = al_resource_id l,
     lt_resource_kind = al_resource_kind l, lt_granted_tick = granted_tick l, lt_expiry_tick = expiry_tick l\<rparr>"

definition current_valid_leases ::
    "(('tr, 'dt) AgentNode \<times> AgentId) list \<Rightarrow> AgentId set \<Rightarrow> u64 \<Rightarrow> (AgentId \<times> ActiveLeaseRecord) list" where
  "current_valid_leases nodes crashed now =
     concat (map (\<lambda>(n, a). if a \<in> crashed then [] else map (Pair a) (filter (\<lambda>l. is_valid_at_tick l now) (active_leases n))) nodes)"

definition activation_decision ::
    "u64 \<Rightarrow> nat list \<Rightarrow> LeaseTickSnapshot list \<Rightarrow> AgentId \<Rightarrow> ('tr, 'dt) Supervisor \<Rightarrow> ('tr, 'dt) Supervisor" where
  "activation_decision now group_sizes leases a s =
     (let affected_resources = map lt_resource_id (filter (\<lambda>l. lt_holder l = a) leases);
          decision = (if affected_resources = [] then ForbidReassignment else ContinueUnderLease)
      in log_push (SupervisorDegradedDecision now (SwarmPartitioned group_sizes) decision affected_resources)
           (push_decision \<lparr>dd_tick = now, dd_condition = SwarmPartitioned group_sizes, dd_decision = decision,
              dd_affected_resources = affected_resources, dd_affected_agents = [a],
              dd_absence_kind = Some (LinkLoss now)\<rparr> s))"

definition handle_partition_activation ::
    "AgentId set \<Rightarrow> (AgentId \<times> AgentId) set \<Rightarrow> u64 \<Rightarrow> ('tr, 'dt) Supervisor \<Rightarrow> ('tr, 'dt) Supervisor" where
  "handle_partition_activation crashed pairs now s =
     (let agent_ids = map snd (filter (\<lambda>(n, a). a \<notin> crashed) (sup_nodes s));
          components = connected_components agent_ids pairs;
          group_sizes = map length components;
          affected = remdups_adj (sort (concat components));
          leases = map (\<lambda>(a, l). lease_snapshot a l) (filter (\<lambda>(a, l). a \<in> set affected) (current_valid_leases (sup_nodes s) crashed now));
          s1 = s\<lparr>partition_reports := partition_reports s @
                 [\<lparr>partition_tick = now, heal_tick = None, pr_affected_agents = affected, leases_at_partition = leases\<rparr>]\<rparr>;
          s2 = fold (activation_decision now group_sizes leases) affected s1
      in log_push (if 2 \<le> length components then PartitionDetectedEvent now (components ! 0) (components ! 1)
                   else PartitionDetectedEvent now affected []) s2)"

section \<open>A partition heals\<close>

type_synonym contender = "nat \<times> AgentId \<times> ActiveLeaseRecord"

definition contender_key :: "contender \<Rightarrow> u64 \<times> AgentId" where
  "contender_key x = (granted_tick (snd (snd x)), fst (snd x))"

definition conflicts_with ::
    "string \<Rightarrow> AgentId \<Rightarrow> 'dt Lease \<Rightarrow> ConflictResolution \<Rightarrow> (AgentId \<times> 'dt Lease) list \<Rightarrow> 'dt OwnershipConflict list" where
  "conflicts_with rid winner lease res others =
     map (\<lambda>(a, l). \<lparr>oc_resource_id = rid, holder_a = winner, lease_a = lease, holder_b = a, lease_b = l, resolution = res\<rparr>) others"

definition reconcile_valid_contenders ::
    "(int \<Rightarrow> 'dt option) \<Rightarrow> string \<Rightarrow> contender list \<Rightarrow> u64 \<Rightarrow>
     (ConflictResolution \<times> AgentId \<times> 'dt Lease \<times> 'dt OwnershipConflict list) option" where
  "reconcile_valid_contenders instant rid contenders ms =
     (case those (map (\<lambda>(i, a, l). map_option (\<lambda>lease. ((i, a, l), lease)) (as_lease instant a ms l)) contenders) of
        None \<Rightarrow> None
      | Some cs \<Rightarrow>
          (case sort_key (\<lambda>c. contender_key (fst c)) cs of
             [] \<Rightarrow> None
           | ((i, winner, w), lease) # rest \<Rightarrow>
               let tied_winners = length (takeWhile (\<lambda>c. granted_tick (snd (snd (fst c))) = granted_tick w) (((i, winner, w), lease) # rest));
                   res = (if 1 < tied_winners then SupervisorReset else OlderLeaseWins winner)
               in Some (res, winner, lease, conflicts_with rid winner lease res (map (\<lambda>c. (fst (snd (fst c)), snd c)) rest))))"

definition drop_lease :: "string \<Rightarrow> contender \<Rightarrow> (('tr, 'dt) AgentNode \<times> AgentId) list \<Rightarrow> (('tr, 'dt) AgentNode \<times> AgentId) list" where
  "drop_lease rid x nodes =
     (case x of (i, a, l) \<Rightarrow>
        nodes[i := ((fst (nodes ! i))\<lparr>active_leases :=
          filter (\<lambda>c. \<not> (al_resource_id c = rid \<and> al_lease_id c = al_lease_id l)) (active_leases (fst (nodes ! i)))\<rparr>, snd (nodes ! i))])"

fun reject_losers :: "u64 \<Rightarrow> string \<Rightarrow> AgentId \<Rightarrow> contender list \<Rightarrow> ('tr, 'dt) Supervisor \<Rightarrow> string set \<Rightarrow> ('tr, 'dt) Supervisor \<times> string set" where
  "reject_losers now rid winner [] s rej = (s, rej)"
| "reject_losers now rid winner (x # xs) s rej =
     (if fst (snd x) = winner then reject_losers now rid winner xs s rej
      else reject_losers now rid winner xs
             (log_push (OwnershipConflictEvent now rid winner (fst (snd x))) (s\<lparr>sup_nodes := drop_lease rid x (sup_nodes s)\<rparr>)) (insert rid rej))"

definition reset_resource :: "u64 \<Rightarrow> string \<Rightarrow> contender list \<Rightarrow> ('tr, 'dt) Supervisor \<Rightarrow> ('tr, 'dt) Supervisor" where
  "reset_resource now rid xs s =
     (let affected = map (\<lambda>x. fst (snd x)) xs;
          s1 = s\<lparr>sup_nodes := fold (drop_lease rid) xs (sup_nodes s)\<rparr>
      in log_push (CommandSuppressed now rid ''ambiguous_authority'')
           (push_decision \<lparr>dd_tick = now, dd_condition = SwarmPartitioned [length affected], dd_decision = ForbidReassignment,
              dd_affected_resources = [rid], dd_affected_agents = affected, dd_absence_kind = None\<rparr> s1))"

record ('tr, 'dt) Healing =
  hl_sup :: "('tr, 'dt) Supervisor"
  hl_accepted :: "string set"
  hl_rejected :: "string set"
  hl_conflicts :: "'dt OwnershipConflict list"

definition heal_resource ::
    "(int \<Rightarrow> 'dt option) \<Rightarrow> u64 \<Rightarrow> u64 \<Rightarrow> string set \<Rightarrow> string \<times> contender list \<Rightarrow> ('tr, 'dt) Healing \<Rightarrow> ('tr, 'dt) Healing option" where
  "heal_resource instant ms now stale g h =
     (let rid = fst g; xs = snd g; h1 = (if rid \<in> stale then h\<lparr>hl_rejected := insert rid (hl_rejected h)\<rparr> else h)
      in if length xs = 1 then Some (h1\<lparr>hl_accepted := insert rid (hl_accepted h1)\<rparr>)
         else case reconcile_valid_contenders instant rid xs ms of
           None \<Rightarrow> None
         | Some (res, w, wl, cs) \<Rightarrow>
             let h2 = h1\<lparr>hl_conflicts := hl_conflicts h1 @ cs\<rparr>
             in (case res of
                   OlderLeaseWins winner \<Rightarrow>
                     (case reject_losers now rid winner xs (hl_sup h2) (hl_rejected h2) of (s, rej) \<Rightarrow>
                        Some (h2\<lparr>hl_sup := s, hl_accepted := insert rid (hl_accepted h2), hl_rejected := rej\<rparr>))
                 | SupervisorReset \<Rightarrow>
                     Some (h2\<lparr>hl_sup := reset_resource now rid xs (hl_sup h2), hl_rejected := insert rid (hl_rejected h2)\<rparr>)))"

fun heal_resources ::
    "(int \<Rightarrow> 'dt option) \<Rightarrow> u64 \<Rightarrow> u64 \<Rightarrow> string set \<Rightarrow> (string \<times> contender list) list \<Rightarrow> ('tr, 'dt) Healing \<Rightarrow> ('tr, 'dt) Healing option" where
  "heal_resources instant ms now stale [] h = Some h"
| "heal_resources instant ms now stale (g # gs) h =
     Option.bind (heal_resource instant ms now stale g h) (heal_resources instant ms now stale gs)"

definition live_leases :: "AgentId set \<Rightarrow> (('tr, 'dt) AgentNode \<times> AgentId) list \<Rightarrow> contender list" where
  "live_leases crashed nodes =
     concat (map (\<lambda>(i, n, a). if a \<in> crashed then [] else map (\<lambda>l. (i, a, l)) (active_leases n)) (enumerate 0 nodes))"

text \<open>The \<open>BTreeMap\<close> from resources to contenders, in the order of its keys.\<close>

definition by_resource :: "contender list \<Rightarrow> (string \<times> contender list) list" where
  "by_resource xs = map (\<lambda>r. (r, filter (\<lambda>x. al_resource_id (snd (snd x)) = r) xs))
     (sort (remdups (map (\<lambda>x. al_resource_id (snd (snd x))) xs)))"

fun mark_healed :: "u64 \<Rightarrow> AgentId \<times> AgentId \<Rightarrow> PartitionReport list \<Rightarrow> PartitionReport list" where
  "mark_healed now pair [] = []"
| "mark_healed now pair (r # rs) =
     (if heal_tick r = None \<and> fst pair \<in> set (pr_affected_agents r) \<and> snd pair \<in> set (pr_affected_agents r)
      then r\<lparr>heal_tick := Some now\<rparr> # rs else r # mark_healed now pair rs)"

definition handle_partition_heal ::
    "(int \<Rightarrow> 'dt option) \<Rightarrow> AgentId set \<Rightarrow> u64 \<Rightarrow> AgentId \<times> AgentId \<Rightarrow> u64 \<Rightarrow> ('tr, 'dt) Supervisor \<Rightarrow> ('tr, 'dt) Supervisor option" where
  "handle_partition_heal instant crashed now healed_pair ms s =
     (let s1 = s\<lparr>partition_reports := rev (mark_healed now healed_pair (rev (partition_reports s)))\<rparr>;
          leases = live_leases crashed (sup_nodes s1);
          valid = by_resource (filter (\<lambda>x. is_valid_at_tick (snd (snd x)) now) leases);
          stale = set (map (\<lambda>x. al_resource_id (snd (snd x))) (filter (\<lambda>x. \<not> is_valid_at_tick (snd (snd x)) now) leases))
      in case heal_resources instant ms now stale valid \<lparr>hl_sup = s1, hl_accepted = {}, hl_rejected = {}, hl_conflicts = []\<rparr> of
           None \<Rightarrow> None
         | Some h \<Rightarrow>
             let rejected = hl_rejected h \<union> (stale - hl_accepted h);
                 result = \<lparr>accepted = sorted_list_of_set (hl_accepted h), rejected = sorted_list_of_set rejected, conflicts = hl_conflicts h\<rparr>;
                 s2 = (hl_sup h)\<lparr>reconciliation_reports := reconciliation_reports (hl_sup h) @ [\<lparr>reconnect_tick = now, rr_result = result\<rparr>]\<rparr>
             in Some (log_push (SupervisorReconciled now result) (log_push (PartitionHealedEvent now) s2)))"

section \<open>Nodes fail\<close>

definition fail_node :: "AgentId set \<Rightarrow> u64 \<Rightarrow> ('tr, 'dt) AgentNode \<times> AgentId \<Rightarrow> (('tr, 'dt) AgentNode \<times> AgentId) \<times> DegradedDecisionLog list" where
  "fail_node failed now na =
     (case na of (n, a) \<Rightarrow>
        let affected_resources = map al_resource_id (filter (\<lambda>l. is_valid_at_tick l now) (active_leases n))
        in if a \<notin> failed \<or> affected_resources = [] then (na, [])
           else ((n\<lparr>active_leases := filter (\<lambda>l. \<not> is_valid_at_tick l now) (active_leases n)\<rparr>, a),
                 [\<lparr>dd_tick = now, dd_condition = DroneIsolated, dd_decision = ReleaseAfterTimeout 0,
                   dd_affected_resources = affected_resources, dd_affected_agents = [a], dd_absence_kind = Some NodeFailure\<rparr>]))"

definition handle_node_failures :: "AgentId set \<Rightarrow> u64 \<Rightarrow> ('tr, 'dt) Supervisor \<Rightarrow> ('tr, 'dt) Supervisor" where
  "handle_node_failures failed now s =
     s\<lparr>sup_nodes := map (\<lambda>na. fst (fail_node failed now na)) (sup_nodes s),
       degraded_decision_log := degraded_decision_log s @ concat (map (\<lambda>na. snd (fail_node failed now na)) (sup_nodes s))\<rparr>"

section \<open>Components are the classes of linked agents\<close>

definition linked :: "AgentId list \<Rightarrow> (AgentId \<times> AgentId) set \<Rightarrow> (AgentId \<times> AgentId) set" where
  "linked ids pairs = {(a, b). a \<in> set ids \<and> b \<in> set ids \<and> a \<noteq> b \<and> canonical_partition_pair a b \<notin> pairs}"

lemma connected_sym: "(a, b) \<in> linked ids pairs \<Longrightarrow> (b, a) \<in> linked ids pairs"
  by (auto simp: linked_def canonical_partition_pair_def split: if_splits)

lemma sym_connected_rtrancl: "(a, b) \<in> (linked ids pairs)\<^sup>* \<Longrightarrow> (b, a) \<in> (linked ids pairs)\<^sup>*"
  by (rule symD [OF sym_rtrancl]) (auto simp: sym_def connected_sym)

definition closed_under :: "('a \<times> 'a) set \<Rightarrow> 'a set \<Rightarrow> bool" where
  "closed_under r V = (\<forall>a b. a \<in> V \<longrightarrow> (a, b) \<in> r \<longrightarrow> b \<in> V)"

lemma closed_rtrancl: "(a, b) \<in> r\<^sup>* \<Longrightarrow> closed_under r V \<Longrightarrow> a \<in> V \<Longrightarrow> b \<in> V"
  by (induction rule: rtrancl_induct) (auto simp: closed_under_def)

definition visit_inv ::
    "AgentId list \<Rightarrow> (AgentId \<times> AgentId) set \<Rightarrow> AgentId \<Rightarrow> AgentId set \<Rightarrow> AgentId list \<Rightarrow> AgentId set \<Rightarrow> AgentId list \<Rightarrow> bool" where
  "visit_inv ids pairs a0 V stack visited component =
     (a0 \<notin> V \<and> visited = V \<union> set component \<and> set component \<inter> V = {} \<and> distinct component \<and>
      set stack \<union> set component \<subseteq> {b. (a0, b) \<in> (linked ids pairs)\<^sup>*} \<and> set stack \<subseteq> set ids \<and>
      a0 \<in> set component \<union> set stack \<and>
      (\<forall>x y. x \<in> set component \<longrightarrow> (x, y) \<in> linked ids pairs \<longrightarrow> y \<in> visited \<union> set stack))"

lemma open_peers_connected:
  "a \<in> set ids \<Longrightarrow> set (open_peers ids pairs visited a) = {b. (a, b) \<in> linked ids pairs \<and> b \<notin> visited}"
  by (auto simp: open_peers_def linked_def)

lemma visit_inv_skip:
  assumes "visit_inv ids pairs a0 V (a # stack) visited component" "a \<in> visited"
  shows "visit_inv ids pairs a0 V stack visited component"
proof -
  have "a0 \<in> set component \<union> set stack" using assms by (auto simp: visit_inv_def)
  moreover have "\<forall>x y. x \<in> set component \<longrightarrow> (x, y) \<in> linked ids pairs \<longrightarrow> y \<in> visited \<union> set stack"
    using assms by (simp add: visit_inv_def) blast
  ultimately show ?thesis using assms(1) by (simp add: visit_inv_def)
qed

lemma visit_inv_push:
  assumes inv: "visit_inv ids pairs a0 V (a # stack) visited component" and new: "a \<notin> visited"
  shows "visit_inv ids pairs a0 V (rev (open_peers ids pairs (insert a visited) a) @ stack) (insert a visited) (component @ [a])"
proof -
  have a: "a \<in> set ids" "(a0, a) \<in> (linked ids pairs)\<^sup>*" using inv by (auto simp: visit_inv_def)
  have "set (open_peers ids pairs (insert a visited) a) \<subseteq> {b. (a0, b) \<in> (linked ids pairs)\<^sup>*} \<inter> set ids"
    unfolding open_peers_connected [OF a(1)] using a(2) by (auto simp: linked_def intro: rtrancl_into_rtrancl)
  moreover have "y \<in> insert a visited \<union> (set (open_peers ids pairs (insert a visited) a) \<union> set stack)"
    if "x \<in> insert a (set component)" "(x, y) \<in> linked ids pairs" for x y
    using that inv unfolding open_peers_connected [OF a(1)] by (auto simp: visit_inv_def)
  ultimately show ?thesis using inv new a(2) by (simp add: visit_inv_def) blast
qed

lemma visit_component_inv:
  assumes "visit_inv ids pairs a0 V stack visited component"
  shows "\<exists>c. visit_component ids pairs stack visited component = (V \<union> set c, c) \<and> visit_inv ids pairs a0 V [] (V \<union> set c) c"
  using assms
proof (induction ids pairs stack visited component rule: visit_component.induct)
  case (1 ids pairs visited component)
  then show ?case by (auto simp: visit_inv_def)
next
  case (2 ids pairs a stack visited component)
  show ?case
  proof (cases "a \<in> visited")
    case True
    then show ?thesis using 2(1) [OF True visit_inv_skip [OF 2(3) True]] by simp
  next
    case False
    then show ?thesis using 2(2) [OF False visit_inv_push [OF 2(3) False]] by simp
  qed
qed

lemma visit_component_class:
  assumes V: "closed_under (linked ids pairs) V" and a: "a \<in> set ids" "a \<notin> V"
  obtains c where "visit_component ids pairs [a] V [] = (V \<union> set c, c)" "distinct c" "set c = {b. (a, b) \<in> (linked ids pairs)\<^sup>*}"
    "set c \<inter> V = {}" "closed_under (linked ids pairs) (V \<union> set c)"
proof -
  have "visit_inv ids pairs a V [a] V []" using a by (auto simp: visit_inv_def)
  then obtain c where c: "visit_component ids pairs [a] V [] = (V \<union> set c, c)" "visit_inv ids pairs a V [] (V \<union> set c) c"
    using visit_component_inv by blast
  from c(2) have inv: "a \<in> set c" "set c \<subseteq> {b. (a, b) \<in> (linked ids pairs)\<^sup>*}" "distinct c" "set c \<inter> V = {}"
    "\<And>x y. x \<in> set c \<Longrightarrow> (x, y) \<in> linked ids pairs \<Longrightarrow> y \<in> V \<union> set c"
    unfolding visit_inv_def by simp_all
  have "y \<in> set c" if "x \<in> set c" "(x, y) \<in> linked ids pairs" for x y
    using inv(4,5) that V connected_sym [OF that(2)] unfolding closed_under_def by blast
  then have cl: "closed_under (linked ids pairs) (set c)" unfolding closed_under_def by blast
  have "set c = {b. (a, b) \<in> (linked ids pairs)\<^sup>*}"
    using inv(2) closed_rtrancl [OF _ cl inv(1)] by blast
  moreover have "closed_under (linked ids pairs) (V \<union> set c)" using cl V unfolding closed_under_def by blast
  ultimately show ?thesis using that c(1) inv(3,4) by blast
qed

definition is_class :: "AgentId list \<Rightarrow> (AgentId \<times> AgentId) set \<Rightarrow> AgentId list \<Rightarrow> bool" where
  "is_class ids pairs c = (c \<noteq> [] \<and> sorted c \<and> distinct c \<and> (\<forall>a\<in>set c. set c = {b. (a, b) \<in> (linked ids pairs)\<^sup>*}))"

lemma is_class_sort:
  assumes "distinct c" "set c = {b. (a, b) \<in> (linked ids pairs)\<^sup>*}"
  shows "is_class ids pairs (sort c)"
proof -
  have "{b. (a, b) \<in> (linked ids pairs)\<^sup>*} = {b. (x, b) \<in> (linked ids pairs)\<^sup>*}" if "(a, x) \<in> (linked ids pairs)\<^sup>*" for x
    using that sym_connected_rtrancl [OF that] by (auto intro: rtrancl_trans)
  moreover have "a \<in> set c" using assms(2) by simp
  then have "set (sort c) \<noteq> {}" by auto
  then have "sort c \<noteq> []" by (metis list.set(1))
  ultimately show ?thesis using assms by (simp add: is_class_def)
qed

lemma connected_rtrancl_ids: "(a, b) \<in> (linked ids pairs)\<^sup>* \<Longrightarrow> a \<in> set ids \<Longrightarrow> b \<in> set ids"
  by (induction rule: rtrancl_induct) (auto simp: linked_def)

lemma visit_components_spec:
  assumes "closed_under (linked ids pairs) visited" "set as \<subseteq> set ids" "visited = set (concat cs)"
    and "distinct (concat cs)" "\<forall>c\<in>set cs. is_class ids pairs c"
  shows "distinct (concat (visit_components ids pairs as visited cs)) \<and>
    set (concat (visit_components ids pairs as visited cs)) = visited \<union> {b. \<exists>a\<in>set as. (a, b) \<in> (linked ids pairs)\<^sup>*} \<and>
    (\<forall>c\<in>set (visit_components ids pairs as visited cs). is_class ids pairs c)"
  using assms
proof (induction as arbitrary: visited cs)
  case (Cons a as)
  have as: "set as \<subseteq> set ids" using Cons.prems(2) by simp
  show ?case
  proof (cases "a \<in> visited")
    case True
    have "b \<in> visited" if "(a, b) \<in> (linked ids pairs)\<^sup>*" for b
      using closed_rtrancl [OF that Cons.prems(1)] True by blast
    then have eq: "visited \<union> {b. \<exists>a\<in>set (a # as). (a, b) \<in> (linked ids pairs)\<^sup>*} =
        visited \<union> {b. \<exists>a\<in>set as. (a, b) \<in> (linked ids pairs)\<^sup>*}"
      unfolding list.set(2) bex_simps(5) by blast
    have "visit_components ids pairs (a # as) visited cs = visit_components ids pairs as visited cs" using True by simp
    then show ?thesis unfolding eq using Cons.IH [OF Cons.prems(1) as Cons.prems(3-5)] by argo
  next
    case False
    obtain c where c: "visit_component ids pairs [a] visited [] = (visited \<union> set c, c)" "distinct c"
        "set c = {b. (a, b) \<in> (linked ids pairs)\<^sup>*}" "set c \<inter> visited = {}" "closed_under (linked ids pairs) (visited \<union> set c)"
      using visit_component_class [OF Cons.prems(1) _ False] Cons.prems(2) by auto
    have "visited \<union> set c = set (concat (cs @ [sort c]))" using Cons.prems(3) by auto
    moreover have "distinct (concat (cs @ [sort c]))" using Cons.prems(3,4) c(2,4) by simp blast
    moreover have "\<forall>c\<in>set (cs @ [sort c]). is_class ids pairs c" using Cons.prems(5) is_class_sort [OF c(2,3)] by simp
    ultimately have "distinct (concat (visit_components ids pairs as (visited \<union> set c) (cs @ [sort c]))) \<and>
        set (concat (visit_components ids pairs as (visited \<union> set c) (cs @ [sort c]))) =
          visited \<union> set c \<union> {b. \<exists>a\<in>set as. (a, b) \<in> (linked ids pairs)\<^sup>*} \<and>
        (\<forall>c\<in>set (visit_components ids pairs as (visited \<union> set c) (cs @ [sort c])). is_class ids pairs c)"
      using Cons.IH [OF c(5) as] by blast
    then show ?thesis using c(1,3) False by (simp add: Collect_disj_eq Un_assoc)
  qed
qed auto

text \<open>(C16) The components computed when the swarm splits are exactly the classes of agents that can still reach each
  other: every listed agent is in exactly one component, two agents share a component when and only when a chain of pairs
  that are not partitioned joins them, each component is sorted, and smaller components come first.
\<close>

theorem connected_components_exact:
  "distinct (concat (connected_components ids pairs)) \<and>
   set (concat (connected_components ids pairs)) = set ids \<and>
   (\<forall>c a b. c \<in> set (connected_components ids pairs) \<longrightarrow> a \<in> set c \<longrightarrow>
      (b \<in> set c) = ((a, b) \<in> {(x, y). x \<in> set ids \<and> y \<in> set ids \<and> x \<noteq> y \<and> canonical_partition_pair x y \<notin> pairs}\<^sup>*)) \<and>
   (\<forall>c. c \<in> set (connected_components ids pairs) \<longrightarrow> c \<noteq> [] \<and> sorted c) \<and>
   sorted (map length (connected_components ids pairs))"
proof -
  let ?cs = "connected_components ids pairs" and ?vs = "visit_components ids pairs ids {} []"
  have vs: "distinct (concat ?vs)" "set (concat ?vs) = {b. \<exists>a\<in>set ids. (a, b) \<in> (linked ids pairs)\<^sup>*}" "\<forall>c\<in>set ?vs. is_class ids pairs c"
    using visit_components_spec [of ids pairs "{}" ids "[]"] by (simp_all add: closed_under_def)
  have m: "mset ?cs = mset ?vs" by (simp add: connected_components_def)
  then have "mset (concat ?cs) = mset (concat ?vs)" by (metis mset_concat mset_map sum_mset_sum_list)
  then have d: "distinct (concat ?cs)" "set (concat ?cs) = set (concat ?vs)" using vs(1) by (metis mset_eq_imp_distinct_iff, metis mset_eq_setD)
  have cls: "\<And>c. c \<in> set ?cs \<Longrightarrow> is_class ids pairs c" using vs(3) mset_eq_setD [OF m] by simp
  have "sorted (map (\<lambda>c. (length c, take 1 c)) ?cs)" by (simp add: connected_components_def)
  then have "sorted_wrt (\<lambda>x y. length x \<le> length y) ?cs"
    unfolding sorted_wrt_map by (rule sorted_wrt_mono_rel [rotated]) (auto simp: less_eq_prod_def)
  then have len: "sorted (map length ?cs)" by (simp add: sorted_wrt_map)
  have cover: "set (concat ?cs) = set ids" using d(2) vs(2) connected_rtrancl_ids by auto
  have "(b \<in> set c) = ((a, b) \<in> (linked ids pairs)\<^sup>*)" if "c \<in> set ?cs" "a \<in> set c" for c a b
    using cls [OF that(1)] that(2) unfolding is_class_def by blast
  moreover have "c \<noteq> [] \<and> sorted c" if "c \<in> set ?cs" for c using cls [OF that] by (simp add: is_class_def)
  ultimately show ?thesis using d(1) cover len unfolding linked_def by blast
qed

text \<open>Two cut pairs isolate \<open>b\<close>; \<open>a\<close> and \<open>c\<close> stay together.\<close>

theorem connected_components_exact_witness:
  "connected_components [''a'', ''b'', ''c''] {(''a'', ''b''), (''b'', ''c'')} = [[''b''], [''a'', ''c'']] \<and>
   (''a'', ''b'') \<notin> {(x, y). x \<in> set [''a'', ''b'', ''c''] \<and> y \<in> set [''a'', ''b'', ''c''] \<and> x \<noteq> y \<and>
      canonical_partition_pair x y \<notin> {(''a'', ''b''), (''b'', ''c'')}}\<^sup>*"
proof -
  have cs: "connected_components [''a'', ''b'', ''c''] {(''a'', ''b''), (''b'', ''c'')} = [[''b''], [''a'', ''c'']]"
    by (simp add: connected_components_def open_peers_def canonical_partition_pair_def less_eq_prod_def)
  let ?ids = "[''a'', ''b'', ''c'']" and ?pairs = "{(''a'', ''b''), (''b'', ''c'')}"
  from connected_components_exact [of ?ids ?pairs]
  have "\<forall>c a b. c \<in> set (connected_components ?ids ?pairs) \<longrightarrow> a \<in> set c \<longrightarrow>
      (b \<in> set c) = ((a, b) \<in> {(x, y). x \<in> set ?ids \<and> y \<in> set ?ids \<and> x \<noteq> y \<and> canonical_partition_pair x y \<notin> ?pairs}\<^sup>*)"
    by (elim conjE)
  from this [rule_format, of "[''a'', ''c'']" "''a''" "''b''"] cs show ?thesis by simp
qed

section \<open>Healing keeps the lease that is older than all others\<close>

text \<open>Agent \<open>a\<close> holds the contender whose lease was granted before every other contender's.\<close>

definition oldest_holder :: "contender list \<Rightarrow> AgentId \<Rightarrow> bool" where
  "oldest_holder xs a = (\<exists>x\<in>set xs. fst (snd x) = a \<and> (\<forall>y\<in>#mset xs - {#x#}. granted_tick (snd (snd x)) < granted_tick (snd (snd y))))"

definition losers :: "contender list \<Rightarrow> contender list" where
  "losers xs = filter (\<lambda>x. \<not> oldest_holder xs (fst (snd x))) xs"

definition drop_contender :: "contender \<Rightarrow> (('tr, 'dt) AgentNode \<times> AgentId) list \<Rightarrow> (('tr, 'dt) AgentNode \<times> AgentId) list" where
  "drop_contender x = drop_lease (al_resource_id (snd (snd x))) x"

lemma oldest_holder_unique:
  assumes "oldest_holder xs a" "oldest_holder xs b"
  shows "a = b"
proof -
  obtain x y where x: "x \<in> set xs" "fst (snd x) = a" "\<forall>z\<in>#mset xs - {#x#}. granted_tick (snd (snd x)) < granted_tick (snd (snd z))"
    and y: "y \<in> set xs" "fst (snd y) = b" "\<forall>z\<in>#mset xs - {#y#}. granted_tick (snd (snd y)) < granted_tick (snd (snd z))"
    using assms unfolding oldest_holder_def by blast
  have "x = y"
  proof (rule ccontr)
    assume "x \<noteq> y"
    then have "y \<in># mset xs - {#x#}" "x \<in># mset xs - {#y#}" using x(1) y(1) by (simp_all add: in_diff_count count_greater_zero_iff [symmetric] del: count_greater_zero_iff) auto
    then show False using x(3) y(3) by fastforce
  qed
  then show ?thesis using x(2) y(2) by simp
qed

lemma oldest_holderI:
  assumes "mset xs = add_mset x R" "\<forall>y\<in>#R. granted_tick (snd (snd x)) < granted_tick (snd (snd y))"
  shows "oldest_holder xs (fst (snd x))"
proof -
  have "x \<in> set xs" using assms(1) by (metis set_mset_mset union_single_eq_member)
  then show ?thesis unfolding oldest_holder_def using assms by (intro bexI [of _ x]) auto
qed

lemma no_oldest_holder:
  assumes m: "mset xs = add_mset x (add_mset y R)" and tie: "granted_tick (snd (snd y)) = granted_tick (snd (snd x))"
    and le: "\<forall>z\<in>#R. granted_tick (snd (snd x)) \<le> granted_tick (snd (snd z))"
  shows "\<not> oldest_holder xs a"
proof
  assume "oldest_holder xs a"
  then obtain z where z: "z \<in># mset xs" "\<forall>u\<in>#mset xs - {#z#}. granted_tick (snd (snd z)) < granted_tick (snd (snd u))"
    unfolding oldest_holder_def by auto
  show False
  proof (cases "z = x")
    case True
    then show False using z(2) m tie by auto
  next
    case False
    then have "granted_tick (snd (snd z)) < granted_tick (snd (snd x))" using z(2) m by auto
    moreover have "granted_tick (snd (snd x)) \<le> granted_tick (snd (snd z))" using z(1) m False tie le by auto
    ultimately show False by simp
  qed
qed

lemma oldest_holder_single: "oldest_holder [x] a = (a = fst (snd x))"
  by (auto simp: oldest_holder_def)

lemma those_pair_fst:
  "those (map (\<lambda>x. map_option (Pair x) (f x)) xs) = Some cs \<Longrightarrow> map fst cs = xs"
  by (induction xs arbitrary: cs) (auto split: option.splits)

lemma those_map_total: "(\<forall>x\<in>set xs. f x \<noteq> None) \<Longrightarrow> \<exists>ys. those (map f xs) = Some ys"
  by (induction xs) auto

lemma reconcile_cases:
  assumes "reconcile_valid_contenders instant rid xs ms = Some (res, w, wl, cs)"
  obtains x R where "mset xs = add_mset x R" "w = fst (snd x)" "res = OlderLeaseWins w" "\<forall>y\<in>#R. granted_tick (snd (snd x)) < granted_tick (snd (snd y))"
    | x y R where "mset xs = add_mset x (add_mset y R)" "res = SupervisorReset" "granted_tick (snd (snd y)) = granted_tick (snd (snd x))"
        "\<forall>z\<in>#R. granted_tick (snd (snd x)) \<le> granted_tick (snd (snd z))"
proof -
  let ?f = "\<lambda>(i, a, l). map_option (\<lambda>lease. ((i, a, l), lease)) (as_lease instant a ms l)"
  obtain ys where ys: "those (map ?f xs) = Some ys"
    using assms unfolding reconcile_valid_contenders_def by (cases "those (map ?f xs)") auto
  have "those (map (\<lambda>x. map_option (Pair x) (as_lease instant (fst (snd x)) ms (snd (snd x)))) xs) = Some ys" using ys by (simp add: case_prod_unfold)
  then have xs: "xs = map fst ys" by (rule those_pair_fst [symmetric])
  define zs where "zs = sort_key (\<lambda>c. contender_key (fst c)) ys"
  have m: "mset xs = mset (map fst zs)" unfolding xs zs_def by simp
  have srt: "sorted (map (\<lambda>c. contender_key (fst c)) zs)" unfolding zs_def by simp
  obtain c0 rest where c0: "zs = c0 # rest"
    using assms ys by (cases zs) (auto simp: reconcile_valid_contenders_def zs_def [symmetric])
  obtain i w' l lease where "c0 = ((i, w', l), lease)" by (metis prod_cases4 surj_pair)
  moreover have "w' = w"
    using assms ys c0 calculation by (simp add: reconcile_valid_contenders_def zs_def [symmetric] Let_def)
  ultimately have zs: "zs = ((i, w, l), lease) # rest" using c0 by simp
  have res: "res = (if 1 < length (takeWhile (\<lambda>c. granted_tick (snd (snd (fst c))) = granted_tick l) zs) then SupervisorReset else OlderLeaseWins w)"
    using assms ys zs by (simp add: reconcile_valid_contenders_def zs_def [symmetric] Let_def)
  have le: "granted_tick l \<le> granted_tick (snd (snd (fst c)))" if "c \<in> set rest" for c
    using srt that unfolding zs by (auto simp: contender_key_def)
  show ?thesis
  proof (cases "rest \<noteq> [] \<and> granted_tick (snd (snd (fst (hd rest)))) = granted_tick l")
    case True
    then obtain c rest' where r: "rest = c # rest'" "granted_tick (snd (snd (fst c))) = granted_tick l" by (cases rest) auto
    show ?thesis
      using that(2) [of "(i, w, l)" "fst c" "mset (map fst rest')"] m res le r unfolding zs by auto
  next
    case False
    have lt: "granted_tick l < granted_tick (snd (snd (fst c)))" if "c \<in> set rest" for c
    proof -
      have "granted_tick (snd (snd (fst (hd rest)))) \<le> granted_tick (snd (snd (fst c)))"
        using srt that unfolding zs by (cases rest) (auto simp: contender_key_def)
      moreover have "granted_tick l \<noteq> granted_tick (snd (snd (fst (hd rest))))" "granted_tick l \<le> granted_tick (snd (snd (fst (hd rest))))"
        using False that le by (cases rest; fastforce)+
      ultimately show ?thesis by simp
    qed
    then have "takeWhile (\<lambda>c. granted_tick (snd (snd (fst c))) = granted_tick l) rest = []" by (cases rest) force+
    then show ?thesis using that(1) [of "(i, w, l)" "mset (map fst rest)"] m res lt unfolding zs by auto
  qed
qed

lemma reconcile_total:
  assumes "xs \<noteq> []" "\<forall>x\<in>set xs. as_lease instant (fst (snd x)) ms (snd (snd x)) \<noteq> None"
  shows "reconcile_valid_contenders instant rid xs ms \<noteq> None"
proof -
  let ?f = "\<lambda>(i, a, l). map_option (\<lambda>lease. ((i, a, l), lease)) (as_lease instant a ms l)"
  obtain ys where ys: "those (map ?f xs) = Some ys" using those_map_total [of xs ?f] assms(2) by fastforce
  have "length ys = length xs" using ys by (induction xs arbitrary: ys) (auto split: option.splits)
  then have "sort_key (\<lambda>c. contender_key (fst c)) ys \<noteq> []" using assms(1) by (metis length_0_conv length_sort)
  then show ?thesis unfolding reconcile_valid_contenders_def ys by (auto simp: Let_def split: list.splits)
qed

lemma reject_losers_nodes:
  assumes "\<forall>x\<in>set xs. al_resource_id (snd (snd x)) = rid"
  shows "sup_nodes (fst (reject_losers now rid winner xs s rej)) = fold drop_contender (filter (\<lambda>x. fst (snd x) \<noteq> winner) xs) (sup_nodes s)"
  using assms by (induction xs arbitrary: s rej) (simp_all add: log_push_def drop_contender_def)

lemma reset_resource_nodes:
  assumes "\<forall>x\<in>set xs. al_resource_id (snd (snd x)) = rid"
  shows "sup_nodes (reset_resource now rid xs s) = fold drop_contender xs (sup_nodes s)"
proof -
  have "fold (drop_lease rid) xs (sup_nodes s) = fold drop_contender xs (sup_nodes s)"
    by (rule fold_cong) (simp_all add: drop_contender_def assms)
  then show ?thesis by (simp add: reset_resource_def log_push_def push_decision_def Let_def)
qed

lemma heal_resource_nodes:
  assumes res: "\<forall>x\<in>set xs. al_resource_id (snd (snd x)) = rid" and "xs \<noteq> []"
    and inst: "\<forall>x\<in>set xs. as_lease instant (fst (snd x)) ms (snd (snd x)) \<noteq> None"
  shows "\<exists>h'. heal_resource instant ms now stale (rid, xs) h = Some h' \<and> sup_nodes (hl_sup h') = fold drop_contender (losers xs) (sup_nodes (hl_sup h))"
proof (cases "length xs = 1")
  case True
  then obtain x where "xs = [x]" by (cases xs) auto
  then show ?thesis by (simp add: heal_resource_def losers_def oldest_holder_single)
next
  case False
  obtain r w wl cs where r: "reconcile_valid_contenders instant rid xs ms = Some (r, w, wl, cs)"
    using reconcile_total [OF assms(2) inst] by (metis option.exhaust prod_cases4)
  then show ?thesis
  proof (cases rule: reconcile_cases)
    case (1 x R)
    have "oldest_holder xs a = (a = w)" for a
      using oldest_holderI [OF 1(1,4)] oldest_holder_unique 1(2) by blast
    then have "losers xs = filter (\<lambda>x. fst (snd x) \<noteq> w) xs" by (simp add: losers_def)
    then show ?thesis using False r 1(3) by (simp add: heal_resource_def Let_def case_prod_unfold reject_losers_nodes [OF res])
  next
    case (2 x y R)
    have "losers xs = xs" by (simp add: losers_def no_oldest_holder [OF 2(1,3,4)])
    then show ?thesis using False r 2(2) by (simp add: heal_resource_def Let_def reset_resource_nodes [OF res])
  qed
qed

lemma heal_resources_nodes:
  assumes "\<forall>g\<in>set gs. snd g \<noteq> [] \<and> (\<forall>x\<in>set (snd g). al_resource_id (snd (snd x)) = fst g \<and> as_lease instant (fst (snd x)) ms (snd (snd x)) \<noteq> None)"
  shows "\<exists>h'. heal_resources instant ms now stale gs h = Some h' \<and>
    sup_nodes (hl_sup h') = fold drop_contender (concat (map (\<lambda>g. losers (snd g)) gs)) (sup_nodes (hl_sup h))"
  using assms
proof (induction gs arbitrary: h)
  case (Cons g gs)
  obtain h1 where h1: "heal_resource instant ms now stale g h = Some h1" "sup_nodes (hl_sup h1) = fold drop_contender (losers (snd g)) (sup_nodes (hl_sup h))"
    using heal_resource_nodes [of "snd g" "fst g" instant ms now stale h] Cons.prems by auto
  then show ?case using Cons.IH [of h1] Cons.prems by simp
qed simp

lemma drop_contender_nth:
  assumes "i < length nodes"
  shows "drop_contender x nodes ! i =
    ((fst (nodes ! i))\<lparr>active_leases := filter (\<lambda>c. \<not> (fst x = i \<and> al_resource_id c = al_resource_id (snd (snd x)) \<and> al_lease_id c = al_lease_id (snd (snd x))))
       (active_leases (fst (nodes ! i)))\<rparr>, snd (nodes ! i))"
  using assms by (cases x; cases "fst x = i") (simp_all add: drop_contender_def drop_lease_def)

lemma length_drop_contender [simp]: "length (drop_contender x nodes) = length nodes"
  by (cases x) (simp add: drop_contender_def drop_lease_def)

lemma length_fold_drop [simp]: "length (fold drop_contender xs nodes) = length nodes"
  by (induction xs arbitrary: nodes) simp_all

lemma fold_drop_nth:
  assumes "i < length nodes"
  shows "snd (fold drop_contender xs nodes ! i) = snd (nodes ! i) \<and>
    active_leases (fst (fold drop_contender xs nodes ! i)) =
      filter (\<lambda>c. \<forall>x\<in>set xs. \<not> (fst x = i \<and> al_resource_id c = al_resource_id (snd (snd x)) \<and> al_lease_id c = al_lease_id (snd (snd x))))
        (active_leases (fst (nodes ! i)))"
  using assms
proof (induction xs arbitrary: nodes)
  case (Cons x xs)
  show ?case using Cons.IH [of "drop_contender x nodes"] Cons.prems
    by (simp add: drop_contender_nth conj_commute)
qed simp

lemma in_live_leases:
  "x \<in> set (live_leases crashed nodes) \<longleftrightarrow>
   fst x < length nodes \<and> fst (snd x) = snd (nodes ! fst x) \<and> snd (nodes ! fst x) \<notin> crashed \<and> snd (snd x) \<in> set (active_leases (fst (nodes ! fst x)))"
  unfolding live_leases_def by (cases x) (force simp: in_set_enumerate_eq)

definition contenders :: "AgentId set \<Rightarrow> (('tr, 'dt) AgentNode \<times> AgentId) list \<Rightarrow> u64 \<Rightarrow> string \<Rightarrow> contender list" where
  "contenders crashed nodes now rid =
     filter (\<lambda>x. al_resource_id (snd (snd x)) = rid) (filter (\<lambda>x. is_valid_at_tick (snd (snd x)) now) (live_leases crashed nodes))"

lemma in_losers_by_resource:
  "x \<in> set (concat (map (\<lambda>g. losers (snd g)) (by_resource xs))) \<longleftrightarrow>
   x \<in> set xs \<and> \<not> oldest_holder (filter (\<lambda>y. al_resource_id (snd (snd y)) = al_resource_id (snd (snd x))) xs) (fst (snd x))"
  unfolding by_resource_def losers_def by auto

lemma by_resource_groups: "g \<in> set (by_resource xs) \<Longrightarrow>
   snd g \<noteq> [] \<and> (\<forall>x\<in>set (snd g). al_resource_id (snd (snd x)) = fst g \<and> x \<in> set xs)"
  unfolding by_resource_def by (force simp: filter_empty_conv)

lemma handle_partition_heal_nodes:
  assumes "\<forall>x\<in>set (live_leases crashed (sup_nodes s)). as_lease instant (fst (snd x)) ms (snd (snd x)) \<noteq> None"
  shows "\<exists>s'. handle_partition_heal instant crashed now pair ms s = Some s' \<and>
    sup_nodes s' = fold drop_contender (concat (map (\<lambda>g. losers (snd g))
      (by_resource (filter (\<lambda>x. is_valid_at_tick (snd (snd x)) now) (live_leases crashed (sup_nodes s)))))) (sup_nodes s)"
proof -
  let ?gs = "by_resource (filter (\<lambda>x. is_valid_at_tick (snd (snd x)) now) (live_leases crashed (sup_nodes s)))"
  have "\<forall>g\<in>set ?gs. snd g \<noteq> [] \<and> (\<forall>x\<in>set (snd g). al_resource_id (snd (snd x)) = fst g \<and> as_lease instant (fst (snd x)) ms (snd (snd x)) \<noteq> None)"
    using by_resource_groups assms by fastforce
  from heal_resources_nodes [OF this] show ?thesis
    unfolding handle_partition_heal_def Let_def log_push_def by (fastforce split: option.splits)
qed

lemma healed_leases:
  assumes i: "i < length nodes" "snd (nodes ! i) \<notin> crashed"
    and nodes': "nodes' = fold drop_contender (concat (map (\<lambda>g. losers (snd g))
      (by_resource (filter (\<lambda>x. is_valid_at_tick (snd (snd x)) now) (live_leases crashed nodes))))) nodes"
  shows "filter (\<lambda>l. is_valid_at_tick l now) (active_leases (fst (nodes' ! i))) =
    filter (\<lambda>l. is_valid_at_tick l now \<and> oldest_holder (contenders crashed nodes now (al_resource_id l)) (snd (nodes ! i))) (active_leases (fst (nodes ! i)))"
proof -
  let ?xs = "filter (\<lambda>x. is_valid_at_tick (snd (snd x)) now) (live_leases crashed nodes)"
  let ?D = "set (concat (map (\<lambda>g. losers (snd g)) (by_resource ?xs)))"
  have dropped: "(\<exists>x\<in>?D. fst x = i \<and> al_resource_id l = al_resource_id (snd (snd x)) \<and> al_lease_id l = al_lease_id (snd (snd x))) =
      (\<not> oldest_holder (contenders crashed nodes now (al_resource_id l)) (snd (nodes ! i)))"
    if l: "l \<in> set (active_leases (fst (nodes ! i)))" "is_valid_at_tick l now" for l
  proof
    assume "\<exists>x\<in>?D. fst x = i \<and> al_resource_id l = al_resource_id (snd (snd x)) \<and> al_lease_id l = al_lease_id (snd (snd x))"
    then obtain x where x: "x \<in> ?D" "fst x = i" "al_resource_id l = al_resource_id (snd (snd x))" by blast
    then show "\<not> oldest_holder (contenders crashed nodes now (al_resource_id l)) (snd (nodes ! i))"
      unfolding in_losers_by_resource contenders_def in_live_leases set_filter by auto
  next
    assume "\<not> oldest_holder (contenders crashed nodes now (al_resource_id l)) (snd (nodes ! i))"
    then have "(i, snd (nodes ! i), l) \<in> ?D"
      unfolding in_losers_by_resource contenders_def using l i by (simp add: in_live_leases)
    then show "\<exists>x\<in>?D. fst x = i \<and> al_resource_id l = al_resource_id (snd (snd x)) \<and> al_lease_id l = al_lease_id (snd (snd x))" by force
  qed
  have "active_leases (fst (nodes' ! i)) = filter (\<lambda>l. \<forall>x\<in>?D. \<not> (fst x = i \<and> al_resource_id l = al_resource_id (snd (snd x)) \<and>
      al_lease_id l = al_lease_id (snd (snd x)))) (active_leases (fst (nodes ! i)))"
    unfolding nodes' using fold_drop_nth [OF i(1)] by blast
  then show ?thesis unfolding filter_filter using dropped by (simp only: filter_filter) (rule filter_cong [OF refl], blast)
qed

text \<open>(C17) When a partition heals, the supervisor finishes (if the instants of the leases exist), keeps every node in its
  place and leaves crashed nodes alone. Of the valid leases of a running node it keeps exactly those on resources for
  which that node's agent holds the lease granted before every other valid one; where the oldest lease is not unique every
  contender loses its lease. So afterwards no two running agents hold valid leases on one resource.
\<close>

theorem heal_exclusive:
  assumes "\<forall>x\<in>set (live_leases crashed (sup_nodes s)). as_lease instant (fst (snd x)) ms (snd (snd x)) \<noteq> None"
  shows "\<exists>s'. handle_partition_heal instant crashed now pair ms s = Some s' \<and>
    map snd (sup_nodes s') = map snd (sup_nodes s) \<and>
    (\<forall>i<length (sup_nodes s). snd (sup_nodes s ! i) \<in> crashed \<longrightarrow>
       active_leases (fst (sup_nodes s' ! i)) = active_leases (fst (sup_nodes s ! i))) \<and>
    (\<forall>i<length (sup_nodes s). snd (sup_nodes s ! i) \<notin> crashed \<longrightarrow>
       filter (\<lambda>l. is_valid_at_tick l now) (active_leases (fst (sup_nodes s' ! i))) =
       filter (\<lambda>l. is_valid_at_tick l now \<and> oldest_holder (contenders crashed (sup_nodes s) now (al_resource_id l)) (snd (sup_nodes s ! i)))
         (active_leases (fst (sup_nodes s ! i)))) \<and>
    (\<forall>n a l n' a' l'. (n, a) \<in> set (sup_nodes s') \<and> (n', a') \<in> set (sup_nodes s') \<and> a \<notin> crashed \<and> a' \<notin> crashed \<and>
       l \<in> set (active_leases n) \<and> l' \<in> set (active_leases n') \<and> is_valid_at_tick l now \<and> is_valid_at_tick l' now \<and>
       al_resource_id l = al_resource_id l' \<longrightarrow> a = a')"
proof -
  obtain s' where s': "handle_partition_heal instant crashed now pair ms s = Some s'" and
    nodes: "sup_nodes s' = fold drop_contender (concat (map (\<lambda>g. losers (snd g))
      (by_resource (filter (\<lambda>x. is_valid_at_tick (snd (snd x)) now) (live_leases crashed (sup_nodes s)))))) (sup_nodes s)"
    using handle_partition_heal_nodes [OF assms] by blast
  have len: "length (sup_nodes s') = length (sup_nodes s)" by (simp add: nodes)
  have ids: "snd (sup_nodes s' ! i) = snd (sup_nodes s ! i)" if "i < length (sup_nodes s)" for i
    using fold_drop_nth [OF that] by (simp add: nodes)
  have valid: "filter (\<lambda>l. is_valid_at_tick l now) (active_leases (fst (sup_nodes s' ! i))) =
       filter (\<lambda>l. is_valid_at_tick l now \<and> oldest_holder (contenders crashed (sup_nodes s) now (al_resource_id l)) (snd (sup_nodes s ! i)))
         (active_leases (fst (sup_nodes s ! i)))" if "i < length (sup_nodes s)" "snd (sup_nodes s ! i) \<notin> crashed" for i
    using healed_leases [OF that nodes] .
  have keeps: "oldest_holder (contenders crashed (sup_nodes s) now (al_resource_id l)) a"
    if "(n, a) \<in> set (sup_nodes s')" "a \<notin> crashed" "l \<in> set (active_leases n)" "is_valid_at_tick l now" for n a l
  proof -
    from that(1) obtain i where i: "i < length (sup_nodes s)" "sup_nodes s' ! i = (n, a)" using len by (auto simp: in_set_conv_nth)
    have "l \<in> set (filter (\<lambda>l. is_valid_at_tick l now) (active_leases (fst (sup_nodes s' ! i))))" using that i by simp
    moreover have "snd (sup_nodes s ! i) = a" "snd (sup_nodes s ! i) \<notin> crashed" using ids [OF i(1)] that(2) i(2) by auto
    ultimately show ?thesis unfolding valid [OF i(1) \<open>snd (sup_nodes s ! i) \<notin> crashed\<close>] by simp
  qed
  have crashed: "active_leases (fst (sup_nodes s' ! i)) = active_leases (fst (sup_nodes s ! i))"
    if "i < length (sup_nodes s)" "snd (sup_nodes s ! i) \<in> crashed" for i
  proof -
    let ?D = "concat (map (\<lambda>g. losers (snd g)) (by_resource (filter (\<lambda>x. is_valid_at_tick (snd (snd x)) now) (live_leases crashed (sup_nodes s)))))"
    have "fst x \<noteq> i" if "x \<in> set ?D" for x
      using that \<open>snd (sup_nodes s ! i) \<in> crashed\<close> unfolding in_losers_by_resource set_filter in_live_leases by auto
    then show ?thesis using fold_drop_nth [OF that(1), of ?D] unfolding nodes by (simp add: filter_id_conv)
  qed
  have "map snd (sup_nodes s') = map snd (sup_nodes s)" using len ids by (simp add: list_eq_iff_nth_eq)
  moreover have "a = a'" if "(n, a) \<in> set (sup_nodes s') \<and> (n', a') \<in> set (sup_nodes s') \<and> a \<notin> crashed \<and> a' \<notin> crashed \<and>
       l \<in> set (active_leases n) \<and> l' \<in> set (active_leases n') \<and> is_valid_at_tick l now \<and> is_valid_at_tick l' now \<and>
       al_resource_id l = al_resource_id l'" for n a l n' a' l'
    using keeps [of n a l] keeps [of n' a' l'] that by (intro oldest_holder_unique [of "contenders crashed (sup_nodes s) now (al_resource_id l)"]) auto
  ultimately show ?thesis using s' valid crashed by blast
qed

definition lease_record :: "string \<Rightarrow> u64 \<Rightarrow> ActiveLeaseRecord" where
  "lease_record i g = \<lparr>al_lease_id = i, al_resource_id = ''e1'', al_resource_kind = ''edge'', granted_tick = g, expiry_tick = 50\<rparr>"

definition split_node :: "AgentId \<Rightarrow> ActiveLeaseRecord list \<Rightarrow> (unit, int) AgentNode \<times> AgentId" where
  "split_node a ls = ((agent_node_new a [] free_coordinator ())\<lparr>active_leases := ls\<rparr>, a)"

definition split_supervisor :: "(unit, int) Supervisor" where
  "split_supervisor = \<lparr>sup_nodes = [split_node ''a'' [lease_record ''l1'' 4], split_node ''b'' [lease_record ''l2'' 9], split_node ''c'' [lease_record ''l3'' 1]],
     degraded_decision_log = [], partition_reports = [], reconciliation_reports = [], log_builder = None\<rparr>"

text \<open>Agent \<open>a\<close> was granted the edge before \<open>b\<close> and keeps it; the lease of the crashed agent \<open>c\<close>, the oldest, takes no part.\<close>

theorem heal_exclusive_witness:
  "\<exists>s'. handle_partition_heal Some {''c''} 20 (''a'', ''b'') 100 split_supervisor = Some s' \<and>
     filter (\<lambda>l. is_valid_at_tick l 20) (active_leases (fst (sup_nodes s' ! 0))) = [lease_record ''l1'' 4] \<and>
     filter (\<lambda>l. is_valid_at_tick l 20) (active_leases (fst (sup_nodes s' ! 1))) = [] \<and>
     active_leases (fst (sup_nodes s' ! 2)) = [lease_record ''l3'' 1]"
proof -
  let ?nodes = "sup_nodes split_supervisor" and ?xs = "[(0, ''a'', lease_record ''l1'' 4), (1, ''b'', lease_record ''l2'' 9)]"
  have xs: "contenders {''c''} ?nodes 20 ''e1'' = ?xs"
    by (simp add: contenders_def live_leases_def split_supervisor_def split_node_def lease_record_def is_valid_at_tick_def)
  have old: "oldest_holder ?xs ''a''" "\<not> oldest_holder ?xs ''b''" by (simp_all add: oldest_holder_def lease_record_def)
  have ls: "length ?nodes = 3" "active_leases (fst (?nodes ! 0)) = [lease_record ''l1'' 4]" "active_leases (fst (?nodes ! 1)) = [lease_record ''l2'' 9]"
      "active_leases (fst (?nodes ! 2)) = [lease_record ''l3'' 1]" "snd (?nodes ! 0) = ''a''" "snd (?nodes ! 1) = ''b''" "snd (?nodes ! 2) = ''c''"
    by (simp_all add: split_supervisor_def split_node_def)
  have rec: "al_resource_id (lease_record i g) = ''e1''" "is_valid_at_tick (lease_record i g) 20" for i g
    by (simp_all add: lease_record_def is_valid_at_tick_def)
  have "\<forall>x\<in>set (live_leases {''c''} ?nodes). as_lease Some (fst (snd x)) 100 (snd (snd x)) \<noteq> None"
    by (simp add: as_lease_def)
  from heal_exclusive [OF this, of 20 "(''a'', ''b'')"]
  obtain s' where s': "handle_partition_heal Some {''c''} 20 (''a'', ''b'') 100 split_supervisor = Some s'"
    and c: "\<forall>i<length ?nodes. snd (?nodes ! i) \<in> {''c''} \<longrightarrow> active_leases (fst (sup_nodes s' ! i)) = active_leases (fst (?nodes ! i))"
    and v: "\<forall>i<length ?nodes. snd (?nodes ! i) \<notin> {''c''} \<longrightarrow> filter (\<lambda>l. is_valid_at_tick l 20) (active_leases (fst (sup_nodes s' ! i))) =
       filter (\<lambda>l. is_valid_at_tick l 20 \<and> oldest_holder (contenders {''c''} ?nodes 20 (al_resource_id l)) (snd (?nodes ! i))) (active_leases (fst (?nodes ! i)))"
    by (elim exE conjE) blast
  show ?thesis
    using s' c [rule_format, of 2] v [rule_format, of 0] v [rule_format, of 1] ls xs old rec by simp
qed

section \<open>Failed nodes hold no valid lease\<close>

lemma handle_node_failures_exact:
  "(n', a) \<in> set (sup_nodes (handle_node_failures failed now s)) \<longleftrightarrow>
   (\<exists>n. (n, a) \<in> set (sup_nodes s) \<and>
      n' = (if a \<in> failed then n\<lparr>active_leases := filter (\<lambda>l. \<not> is_valid_at_tick l now) (active_leases n)\<rparr> else n))"
proof -
  have fail: "fst (fail_node failed now (n, b)) =
      ((if b \<in> failed then n\<lparr>active_leases := filter (\<lambda>l. \<not> is_valid_at_tick l now) (active_leases n)\<rparr> else n), b)" for n :: "('a, 'b) AgentNode" and b
  proof (cases "filter (\<lambda>l. is_valid_at_tick l now) (active_leases n) = []")
    case True
    then have "filter (\<lambda>l. \<not> is_valid_at_tick l now) (active_leases n) = active_leases n"
      by (simp add: filter_empty_conv filter_id_conv)
    then show ?thesis using True by (simp add: fail_node_def)
  qed (simp add: fail_node_def)
  show ?thesis unfolding handle_node_failures_def by (auto simp: image_iff fail Bex_def split_paired_Ex)
qed

end
