(* ===== verification/MavlinkProfile.thy ===== *)
theory MavlinkProfile
  imports MissionIr F64Cast
begin

text \<open>
  The vocabulary of the MAVLink compiler in \<open>swarm-comms\<close>: commands, mission items and phases of
  \<open>mavlink_common_plan.rs\<close>; the capability profiles of \<open>mavlink_capability_profile.rs\<close> with their tables; the flight
  controller parameters of \<open>mavlink_parameters.rs\<close>; the geofence compiler of \<open>mavlink_geofence.rs\<close>; and the contract
  check of \<open>mavlink_fc_contract.rs\<close>. The decimal notation of \<open>f32\<close> values is a parameter.

  The lemmas: a fence compiles to one item per circle and per vertex in order, exactly when every item is supported
  and well formed, and a fence that compiles satisfies the fence part of the contract.
\<close>

section \<open>Commands and mission items\<close>

datatype MavlinkCommonCommandName =
  ComponentArmDisarm | NavTakeoff | NavLand | NavReturnToLaunch | NavWaypoint | NavLoiterTime | MissionStart
| FenceCircleInclusion | FenceCircleExclusion | FencePolygonVertexInclusion | FencePolygonVertexExclusion | DoFenceEnable

datatype MavlinkPlanPhase = CommandPrelude | MissionUpload | MissionStartPhase | CommandPostlude | Telemetry

record MavlinkCommonCommand =
  mc_command_id :: string
  mc_command :: MavlinkCommonCommandName
  mc_phase :: MavlinkPlanPhase
  mc_params :: "f64 option list"

record MavlinkCommonMissionItem =
  mi_seq :: u16
  mi_command_id :: string
  mi_command :: MavlinkCommonCommandName
  mi_frame :: string
  mi_lat_e7 :: i32
  mi_lon_e7 :: i32
  mi_relative_alt_m :: f32
  mi_params :: "f64 option list"
  mi_current :: bool
  mi_autocontinue :: bool
  mi_source_task_id :: "string option"
  mi_source_route_id :: "string option"

section \<open>Capability profiles\<close>

datatype MavlinkCapabilityProfileId = MavlinkCommonGeneric | Px4 | ArduPilot

fun profile_id_as_str :: "MavlinkCapabilityProfileId \<Rightarrow> string" where
  "profile_id_as_str MavlinkCommonGeneric = ''mavlink_common_generic''"
| "profile_id_as_str Px4 = ''px4''"
| "profile_id_as_str ArduPilot = ''ardupilot''"

definition profile_id_from_str :: "string \<Rightarrow> string + MavlinkCapabilityProfileId" where
  "profile_id_from_str v =
     (if v = ''mavlink_common_generic'' then Inr MavlinkCommonGeneric
      else if v = ''px4'' then Inr Px4
      else if v = ''ardupilot'' then Inr ArduPilot
      else Inl v)"

datatype MavlinkCompatibilityClass =
  Supported | SupportedWithCaveats | RequiresStackSpecificMapping | SupportedViaFallback | Unsupported
| UnknownUntilSitlOrHardware

fun class_as_str :: "MavlinkCompatibilityClass \<Rightarrow> string" where
  "class_as_str Supported = ''supported''"
| "class_as_str SupportedWithCaveats = ''supported_with_caveats''"
| "class_as_str RequiresStackSpecificMapping = ''requires_stack_specific_mapping''"
| "class_as_str SupportedViaFallback = ''supported_via_fallback''"
| "class_as_str Unsupported = ''unsupported''"
| "class_as_str UnknownUntilSitlOrHardware = ''unknown_until_sitl_or_hardware''"

fun class_rank :: "MavlinkCompatibilityClass \<Rightarrow> u8" where
  "class_rank Supported = 0"
| "class_rank SupportedViaFallback = 1"
| "class_rank SupportedWithCaveats = 2"
| "class_rank RequiresStackSpecificMapping = 3"
| "class_rank UnknownUntilSitlOrHardware = 4"
| "class_rank Unsupported = 5"

definition class_max :: "MavlinkCompatibilityClass \<Rightarrow> MavlinkCompatibilityClass \<Rightarrow> MavlinkCompatibilityClass" where
  "class_max a b = (if class_rank b \<le> class_rank a then a else b)"

fun blocks_hardware_facing_success :: "MavlinkCompatibilityClass \<Rightarrow> bool" where
  "blocks_hardware_facing_success Unsupported = True"
| "blocks_hardware_facing_success UnknownUntilSitlOrHardware = True"
| "blocks_hardware_facing_success RequiresStackSpecificMapping = True"
| "blocks_hardware_facing_success _ = False"

datatype MavlinkExecutionMode = Unspecified | CommandMode | MissionMode | GuidedMode | LifecycleMode

datatype MavlinkRequiredModeTransition =
  HeartbeatPresent | Armed | TakeoffAccepted | MissionUploadAccepted | MissionStartAccepted | LifecycleAccepted

datatype FcGeofenceItemKind = CircleInclusion | CircleExclusion | PolygonInclusion | PolygonExclusion

record FenceItemSupportRule =
  fr_kind :: FcGeofenceItemKind
  fr_classification :: MavlinkCompatibilityClass
  fr_caveats :: "string list"

record MavlinkCommandCapabilityRule =
  cr_command :: MavlinkCommonCommandName
  cr_classification :: MavlinkCompatibilityClass
  cr_reason :: string
  cr_caveats :: "string list"

record MavlinkModeTransitionRule =
  mr_command :: "MavlinkCommonCommandName option"
  mr_required_execution_mode :: MavlinkExecutionMode
  mr_required_mode_transitions :: "MavlinkRequiredModeTransition list"
  mr_preconditions :: "string list"
  mr_mode_caveats :: "string list"

record MavlinkCapabilityProfile =
  pf_id :: MavlinkCapabilityProfileId
  stack_name :: string
  supported_frames :: "string list"
  command_rules :: "MavlinkCommandCapabilityRule list"
  mode_transitions :: "MavlinkModeTransitionRule list"
  mission_start_semantics :: string
  takeoff_landing_constraints :: "string list"
  geofence_support :: MavlinkCompatibilityClass
  parameter_support :: MavlinkCompatibilityClass
  fence_item_support :: "FenceItemSupportRule list"
  known_caveats :: "string list"

subsection \<open>The tables\<close>

definition MAVLINK_GLOBAL_RELATIVE_ALT_INT :: string where
  "MAVLINK_GLOBAL_RELATIVE_ALT_INT = ''MAV_FRAME_GLOBAL_RELATIVE_ALT_INT''"

definition GENERIC_CAVEAT :: string where
  "GENERIC_CAVEAT = ''MAVLink Common syntax support does not prove autopilot acceptance or flight safety''"

definition PX4_SIH_CAVEAT :: string where
  "PX4_SIH_CAVEAT = ''PX4 support is based on local SIH evidence and still requires operator validation''"

definition ARDUPILOT_EVIDENCE_CAVEAT :: string where
  "ARDUPILOT_EVIDENCE_CAVEAT = ''ArduPilot acceptance is unknown until ArduPilot SITL or hardware evidence is captured''"

definition all_command_names :: "MavlinkCommonCommandName list" where
  "all_command_names = [ComponentArmDisarm, NavTakeoff, NavLand, NavReturnToLaunch, NavWaypoint, NavLoiterTime, MissionStart,
     FenceCircleInclusion, FenceCircleExclusion, FencePolygonVertexInclusion, FencePolygonVertexExclusion, DoFenceEnable]"

definition generic_command_rule :: "MavlinkCommonCommandName \<Rightarrow> MavlinkCommandCapabilityRule" where
  "generic_command_rule c = \<lparr>cr_command = c, cr_classification = SupportedWithCaveats,
     cr_reason = ''MAVLink Common command is syntactically supported by the generic profile'', cr_caveats = [GENERIC_CAVEAT]\<rparr>"

definition px4_command_rule :: "MavlinkCommonCommandName \<Rightarrow> MavlinkCommandCapabilityRule" where
  "px4_command_rule c = \<lparr>cr_command = c, cr_classification = SupportedWithCaveats,
     cr_reason = ''command is supported by the conservative PX4 profile with caveats'', cr_caveats = [PX4_SIH_CAVEAT]\<rparr>"

definition ardupilot_command_rule :: "MavlinkCommonCommandName \<Rightarrow> MavlinkCommandCapabilityRule" where
  "ardupilot_command_rule c = \<lparr>cr_command = c, cr_classification = UnknownUntilSitlOrHardware,
     cr_reason = ''command syntax is known, but stack acceptance is not evidenced'', cr_caveats = [ARDUPILOT_EVIDENCE_CAVEAT]\<rparr>"

definition ALL_COMMON_COMMANDS_GENERIC :: "MavlinkCommandCapabilityRule list" where
  "ALL_COMMON_COMMANDS_GENERIC = map generic_command_rule all_command_names"

definition PX4_COMMANDS :: "MavlinkCommandCapabilityRule list" where
  "PX4_COMMANDS = map px4_command_rule all_command_names"

definition ARDUPILOT_COMMANDS :: "MavlinkCommandCapabilityRule list" where
  "ARDUPILOT_COMMANDS = map ardupilot_command_rule all_command_names"

definition COMMON_MODE_TRANSITIONS :: "MavlinkModeTransitionRule list" where
  "COMMON_MODE_TRANSITIONS = [\<lparr>mr_command = None, mr_required_execution_mode = Unspecified, mr_required_mode_transitions = [HeartbeatPresent],
     mr_preconditions = [''MAVLink heartbeat is required before command execution''], mr_mode_caveats = [GENERIC_CAVEAT]\<rparr>]"

definition PX4_MODE_TRANSITIONS :: "MavlinkModeTransitionRule list" where
  "PX4_MODE_TRANSITIONS =
     [\<lparr>mr_command = Some ComponentArmDisarm, mr_required_execution_mode = CommandMode, mr_required_mode_transitions = [HeartbeatPresent, Armed],
        mr_preconditions = [''vehicle heartbeat is present'', ''arming command is accepted''], mr_mode_caveats = [PX4_SIH_CAVEAT]\<rparr>,
      \<lparr>mr_command = Some NavTakeoff, mr_required_execution_mode = CommandMode, mr_required_mode_transitions = [Armed, TakeoffAccepted],
        mr_preconditions = [''vehicle is armed'', ''takeoff command is accepted''], mr_mode_caveats = [PX4_SIH_CAVEAT]\<rparr>,
      \<lparr>mr_command = Some MissionStart, mr_required_execution_mode = MissionMode,
        mr_required_mode_transitions = [MissionUploadAccepted, MissionStartAccepted],
        mr_preconditions = [''mission upload is accepted before MAV_CMD_MISSION_START''], mr_mode_caveats = [PX4_SIH_CAVEAT]\<rparr>,
      \<lparr>mr_command = None, mr_required_execution_mode = MissionMode, mr_required_mode_transitions = [MissionUploadAccepted],
        mr_preconditions = [''mission item upload is accepted''], mr_mode_caveats = [PX4_SIH_CAVEAT]\<rparr>]"

definition ARDUPILOT_MODE_TRANSITIONS :: "MavlinkModeTransitionRule list" where
  "ARDUPILOT_MODE_TRANSITIONS =
     [\<lparr>mr_command = Some MissionStart, mr_required_execution_mode = MissionMode,
        mr_required_mode_transitions = [MissionUploadAccepted, MissionStartAccepted],
        mr_preconditions = [''ArduPilot mission mode/start behavior requires SITL evidence''], mr_mode_caveats = [ARDUPILOT_EVIDENCE_CAVEAT]\<rparr>,
      \<lparr>mr_command = None, mr_required_execution_mode = Unspecified, mr_required_mode_transitions = [HeartbeatPresent],
        mr_preconditions = [''ArduPilot mode mapping is not validated by this repository yet''],
        mr_mode_caveats = [ARDUPILOT_EVIDENCE_CAVEAT]\<rparr>]"

definition fence_rule :: "FcGeofenceItemKind \<Rightarrow> MavlinkCompatibilityClass \<Rightarrow> string list \<Rightarrow> FenceItemSupportRule" where
  "fence_rule k c cs = \<lparr>fr_kind = k, fr_classification = c, fr_caveats = cs\<rparr>"

definition GENERIC_FENCE_RULES :: "FenceItemSupportRule list" where
  "GENERIC_FENCE_RULES = [fence_rule CircleInclusion Supported [GENERIC_CAVEAT], fence_rule CircleExclusion Supported [GENERIC_CAVEAT],
     fence_rule PolygonInclusion Supported [GENERIC_CAVEAT], fence_rule PolygonExclusion Supported [GENERIC_CAVEAT]]"

definition PX4_FENCE_RULES :: "FenceItemSupportRule list" where
  "PX4_FENCE_RULES =
     [fence_rule CircleInclusion UnknownUntilSitlOrHardware [PX4_SIH_CAVEAT],
      fence_rule CircleExclusion UnknownUntilSitlOrHardware [PX4_SIH_CAVEAT],
      fence_rule PolygonInclusion SupportedWithCaveats [PX4_SIH_CAVEAT, ''Breach behavior depends on PX4 GF_ACTION''],
      fence_rule PolygonExclusion SupportedWithCaveats [PX4_SIH_CAVEAT, ''Breach behavior depends on PX4 GF_ACTION'']]"

definition ARDUPILOT_FENCE_RULES :: "FenceItemSupportRule list" where
  "ARDUPILOT_FENCE_RULES =
     [fence_rule CircleInclusion UnknownUntilSitlOrHardware [ARDUPILOT_EVIDENCE_CAVEAT],
      fence_rule CircleExclusion UnknownUntilSitlOrHardware [ARDUPILOT_EVIDENCE_CAVEAT],
      fence_rule PolygonInclusion UnknownUntilSitlOrHardware [ARDUPILOT_EVIDENCE_CAVEAT],
      fence_rule PolygonExclusion UnknownUntilSitlOrHardware [ARDUPILOT_EVIDENCE_CAVEAT]]"

definition MAVLINK_COMMON_GENERIC_PROFILE :: MavlinkCapabilityProfile where
  "MAVLINK_COMMON_GENERIC_PROFILE =
     \<lparr>pf_id = MavlinkCommonGeneric, stack_name = ''MAVLink Common generic'', supported_frames = [MAVLINK_GLOBAL_RELATIVE_ALT_INT],
      command_rules = ALL_COMMON_COMMANDS_GENERIC, mode_transitions = COMMON_MODE_TRANSITIONS,
      mission_start_semantics = ''Syntax-level MAV_CMD_MISSION_START only; no autopilot acceptance proof.'',
      takeoff_landing_constraints = [''Takeoff/landing commands are syntax-level only.''],
      geofence_support = Supported, parameter_support = UnknownUntilSitlOrHardware,
      fence_item_support = GENERIC_FENCE_RULES, known_caveats = [GENERIC_CAVEAT]\<rparr>"

definition PX4_PROFILE :: MavlinkCapabilityProfile where
  "PX4_PROFILE =
     \<lparr>pf_id = Px4, stack_name = ''PX4'', supported_frames = [MAVLINK_GLOBAL_RELATIVE_ALT_INT],
      command_rules = PX4_COMMANDS, mode_transitions = PX4_MODE_TRANSITIONS,
      mission_start_semantics = ''PX4 SIH path uses mission upload followed by MAV_CMD_MISSION_START.'',
      takeoff_landing_constraints = [''Requires heartbeat and accepted arm/takeoff flow.'',
        ''Evidence is local PX4/SIH, not hardware certification.''],
      geofence_support = SupportedWithCaveats, parameter_support = SupportedWithCaveats,
      fence_item_support = PX4_FENCE_RULES, known_caveats = [PX4_SIH_CAVEAT]\<rparr>"

definition ARDUPILOT_PROFILE :: MavlinkCapabilityProfile where
  "ARDUPILOT_PROFILE =
     \<lparr>pf_id = ArduPilot, stack_name = ''ArduPilot'', supported_frames = [MAVLINK_GLOBAL_RELATIVE_ALT_INT],
      command_rules = ARDUPILOT_COMMANDS, mode_transitions = ARDUPILOT_MODE_TRANSITIONS,
      mission_start_semantics = ''ArduPilot mission start semantics are intentionally not claimed before SITL evidence.'',
      takeoff_landing_constraints = [''Mode mapping and command acceptance require ArduPilot SITL or hardware evidence.''],
      geofence_support = UnknownUntilSitlOrHardware, parameter_support = UnknownUntilSitlOrHardware,
      fence_item_support = ARDUPILOT_FENCE_RULES, known_caveats = [ARDUPILOT_EVIDENCE_CAVEAT]\<rparr>"

fun profile :: "MavlinkCapabilityProfileId \<Rightarrow> MavlinkCapabilityProfile" where
  "profile MavlinkCommonGeneric = MAVLINK_COMMON_GENERIC_PROFILE"
| "profile Px4 = PX4_PROFILE"
| "profile ArduPilot = ARDUPILOT_PROFILE"

definition fence_item_support_rule :: "MavlinkCapabilityProfile \<Rightarrow> FcGeofenceItemKind \<Rightarrow> FenceItemSupportRule option" where
  "fence_item_support_rule p k = find (\<lambda>r. fr_kind r = k) (fence_item_support p)"

definition command_rule :: "MavlinkCapabilityProfile \<Rightarrow> MavlinkCommonCommandName \<Rightarrow> MavlinkCommandCapabilityRule option" where
  "command_rule p c = find (\<lambda>r. cr_command r = c) (command_rules p)"

definition mode_rule :: "MavlinkCapabilityProfile \<Rightarrow> MavlinkCommonCommandName \<Rightarrow> MavlinkModeTransitionRule option" where
  "mode_rule p c = (case find (\<lambda>r. mr_command r = Some c) (mode_transitions p) of
     Some r \<Rightarrow> Some r | None \<Rightarrow> find (\<lambda>r. mr_command r = None) (mode_transitions p))"

subsection \<open>Compatibility of one command\<close>

record MavlinkModeRequirement =
  mq_command_id :: "string option"
  mq_command :: MavlinkCommonCommandName
  mq_phase :: MavlinkPlanPhase
  mq_required_execution_mode :: MavlinkExecutionMode
  mq_required_mode_transitions :: "MavlinkRequiredModeTransition list"
  mq_preconditions :: "string list"
  mq_mode_caveats :: "string list"

record MavlinkCommandCompatibility =
  cc_command_id :: "string option"
  cc_seq :: "u16 option"
  cc_command :: MavlinkCommonCommandName
  cc_phase :: MavlinkPlanPhase
  cc_frame :: "string option"
  cc_classification :: MavlinkCompatibilityClass
  cc_required_execution_mode :: "MavlinkExecutionMode option"
  cc_required_mode_transitions :: "MavlinkRequiredModeTransition list"
  cc_preconditions :: "string list"
  cc_mode_caveats :: "string list"
  cc_caveats :: "string list"
  cc_reason :: string

record MavlinkCompatibilityReport =
  rp_profile :: MavlinkCapabilityProfileId
  overall_classification :: MavlinkCompatibilityClass
  hardware_facing_allowed :: bool
  command_results :: "MavlinkCommandCompatibility list"
  aggregate_mode_requirements :: "MavlinkModeRequirement list"
  rp_caveats :: "string list"

definition push_unique :: "string list \<Rightarrow> string \<Rightarrow> string list" where
  "push_unique vs v = (if v \<in> set vs then vs else vs @ [v])"

definition compatibility_from_parts ::
    "string option \<Rightarrow> u16 option \<Rightarrow> MavlinkCommonCommandName \<Rightarrow> MavlinkPlanPhase \<Rightarrow> string option \<Rightarrow>
     MavlinkCommandCapabilityRule option \<Rightarrow> MavlinkModeTransitionRule option \<Rightarrow> MavlinkCommandCompatibility" where
  "compatibility_from_parts cid sq c ph fr rule mrule =
     (case (case rule of
              Some r \<Rightarrow> (cr_classification r, cr_reason r, cr_caveats r)
            | None \<Rightarrow> (Unsupported, ''command is not listed in the selected capability profile'', [])) of
        (cls, rsn, cavs) \<Rightarrow>
          (case mrule of
             Some m \<Rightarrow> \<lparr>cc_command_id = cid, cc_seq = sq, cc_command = c, cc_phase = ph, cc_frame = fr, cc_classification = cls,
                cc_required_execution_mode = Some (mr_required_execution_mode m),
                cc_required_mode_transitions = mr_required_mode_transitions m, cc_preconditions = mr_preconditions m,
                cc_mode_caveats = mr_mode_caveats m, cc_caveats = foldl push_unique cavs (mr_mode_caveats m), cc_reason = rsn\<rparr>
           | None \<Rightarrow> \<lparr>cc_command_id = cid, cc_seq = sq, cc_command = c, cc_phase = ph, cc_frame = fr, cc_classification = cls,
                cc_required_execution_mode = None, cc_required_mode_transitions = [], cc_preconditions = [],
                cc_mode_caveats = [], cc_caveats = cavs, cc_reason = rsn\<rparr>))"

definition classify_command :: "MavlinkCommonCommand \<Rightarrow> MavlinkCapabilityProfile \<Rightarrow> MavlinkCommandCompatibility" where
  "classify_command c p = compatibility_from_parts (Some (mc_command_id c)) None (mc_command c) (mc_phase c) None
     (command_rule p (mc_command c)) (mode_rule p (mc_command c))"

definition classify_mission_item :: "MavlinkCommonMissionItem \<Rightarrow> MavlinkCapabilityProfile \<Rightarrow> MavlinkCommandCompatibility" where
  "classify_mission_item it p =
     (if mi_frame it \<notin> set (supported_frames p) then
        \<lparr>cc_command_id = Some (mi_command_id it), cc_seq = Some (mi_seq it), cc_command = mi_command it, cc_phase = MissionUpload,
         cc_frame = Some (mi_frame it), cc_classification = Unsupported, cc_required_execution_mode = None,
         cc_required_mode_transitions = [], cc_preconditions = [], cc_mode_caveats = [],
         cc_caveats = [''frame '' @ [char_of (39 :: nat)] @ mi_frame it @ [char_of (39 :: nat)] @ '' is not supported by profile '' @
           [char_of (39 :: nat)] @ profile_id_as_str (pf_id p) @ [char_of (39 :: nat)]],
         cc_reason = ''unsupported coordinate frame''\<rparr>
      else
        let r = compatibility_from_parts (Some (mi_command_id it)) (Some (mi_seq it)) (mi_command it) MissionUpload (Some (mi_frame it))
                  (command_rule p (mi_command it)) (mode_rule p (mi_command it))
        in if mi_command it = NavWaypoint \<and> take 5 (mi_command_id it) = ''orbit'' then
             r\<lparr>cc_classification := class_max (cc_classification r) SupportedViaFallback,
               cc_caveats := push_unique (cc_caveats r) ''orbit intent is represented by waypoint approximation fallback'',
               cc_reason := cc_reason r @ ''; orbit waypoint fallback''\<rparr>
           else r)"

definition mode_requirement_from_result :: "MavlinkCommandCompatibility \<Rightarrow> MavlinkModeRequirement option" where
  "mode_requirement_from_result r = map_option (\<lambda>m. \<lparr>mq_command_id = cc_command_id r, mq_command = cc_command r, mq_phase = cc_phase r,
     mq_required_execution_mode = m, mq_required_mode_transitions = cc_required_mode_transitions r,
     mq_preconditions = cc_preconditions r, mq_mode_caveats = cc_mode_caveats r\<rparr>) (cc_required_execution_mode r)"

definition unsupported_count :: "MavlinkCompatibilityReport \<Rightarrow> nat" where
  "unsupported_count r = length (filter (\<lambda>c. cc_classification c = Unsupported) (command_results r))"

definition has_hardware_blocking_classification :: "MavlinkCompatibilityReport \<Rightarrow> bool" where
  "has_hardware_blocking_classification r = list_ex (\<lambda>c. blocks_hardware_facing_success (cc_classification c)) (command_results r)"

subsection \<open>The compatibility matrix of the documentation\<close>

record MavlinkCompatibilityMatrixRow =
  row_key :: string
  row_profile :: MavlinkCapabilityProfileId
  row_dimension :: string
  row_classification :: MavlinkCompatibilityClass
  row_summary :: string

definition matrix_row :: "string \<Rightarrow> MavlinkCapabilityProfileId \<Rightarrow> string \<Rightarrow> MavlinkCompatibilityClass \<Rightarrow> string \<Rightarrow> MavlinkCompatibilityMatrixRow" where
  "matrix_row k p d c s = \<lparr>row_key = k, row_profile = p, row_dimension = d, row_classification = c, row_summary = s\<rparr>"

definition COMPATIBILITY_MATRIX_ROWS :: "MavlinkCompatibilityMatrixRow list" where
  "COMPATIBILITY_MATRIX_ROWS =
     [matrix_row ''mavlink_common_generic:command_support'' MavlinkCommonGeneric ''command_support'' SupportedWithCaveats ''Common commands are syntax-level only.'',
      matrix_row ''mavlink_common_generic:frame_support'' MavlinkCommonGeneric ''frame_support'' SupportedWithCaveats ''Uses MAV_FRAME_GLOBAL_RELATIVE_ALT_INT.'',
      matrix_row ''mavlink_common_generic:mode_transitions'' MavlinkCommonGeneric ''mode_transitions'' UnknownUntilSitlOrHardware ''No concrete autopilot mode proof.'',
      matrix_row ''mavlink_common_generic:mission_start'' MavlinkCommonGeneric ''mission_start'' SupportedWithCaveats ''MAV_CMD_MISSION_START syntax only.'',
      matrix_row ''mavlink_common_generic:loiter_orbit'' MavlinkCommonGeneric ''loiter_orbit'' SupportedViaFallback ''Loiter time and waypoint orbit fallback only.'',
      matrix_row ''mavlink_common_generic:geofence'' MavlinkCommonGeneric ''geofence'' Supported ''Common fence mission item syntax is emitted; autopilot acceptance is not implied.'',
      matrix_row ''mavlink_common_generic:parameters'' MavlinkCommonGeneric ''parameters'' UnknownUntilSitlOrHardware ''No autopilot metadata validation.'',
      matrix_row ''px4:command_support'' Px4 ''command_support'' SupportedWithCaveats ''Core primitive commands have local PX4/SIH evidence.'',
      matrix_row ''px4:frame_support'' Px4 ''frame_support'' SupportedWithCaveats ''Uses MAV_FRAME_GLOBAL_RELATIVE_ALT_INT in local SIH evidence.'',
      matrix_row ''px4:mode_transitions'' Px4 ''mode_transitions'' SupportedWithCaveats ''Heartbeat, arm, takeoff, upload and mission-start assumptions are explicit.'',
      matrix_row ''px4:mission_start'' Px4 ''mission_start'' SupportedWithCaveats ''MAV_CMD_MISSION_START is the current PX4 path.'',
      matrix_row ''px4:loiter_orbit'' Px4 ''loiter_orbit'' SupportedViaFallback ''Orbit is waypoint approximation; direct orbit is not claimed.'',
      matrix_row ''px4:geofence'' Px4 ''geofence'' SupportedWithCaveats ''Polygon fence items are modeled with PX4 caveats; circle fence remains unknown.'',
      matrix_row ''px4:parameters'' Px4 ''parameters'' SupportedWithCaveats ''Only emitted primitive parameters are covered.'',
      matrix_row ''ardupilot:command_support'' ArduPilot ''command_support'' UnknownUntilSitlOrHardware ''Common syntax is known; acceptance is not evidenced.'',
      matrix_row ''ardupilot:frame_support'' ArduPilot ''frame_support'' UnknownUntilSitlOrHardware ''Frame syntax is known; ArduPilot acceptance needs SITL evidence.'',
      matrix_row ''ardupilot:mode_transitions'' ArduPilot ''mode_transitions'' UnknownUntilSitlOrHardware ''Mode mapping requires ArduPilot SITL evidence.'',
      matrix_row ''ardupilot:mission_start'' ArduPilot ''mission_start'' UnknownUntilSitlOrHardware ''Mission start semantics are not claimed yet.'',
      matrix_row ''ardupilot:loiter_orbit'' ArduPilot ''loiter_orbit'' UnknownUntilSitlOrHardware ''Loiter/orbit acceptance is not evidenced.'',
      matrix_row ''ardupilot:geofence'' ArduPilot ''geofence'' UnknownUntilSitlOrHardware ''Geofence profile is future work.'',
      matrix_row ''ardupilot:parameters'' ArduPilot ''parameters'' UnknownUntilSitlOrHardware ''No ArduPilot parameter metadata validation.'']"

section \<open>Flight controller parameters\<close>

type_synonym FcParamId = string

datatype FcParamValue = Int32 i32 | Float f32

datatype FcParamRange = ExactInt i32 | ExactFloat f32 | IntBounds i32 i32 | FloatBounds f32 f32

record FcParamRequirement =
  rq_param_id :: FcParamId
  required_range :: FcParamRange
  rq_reason :: string

record FcParamSnapshot =
  sn_params :: "(FcParamId, FcParamValue) hmap"
  sn_description :: string

datatype FcParamViolation =
  RequiredParamMissing FcParamId
| ParamOutOfRange FcParamId FcParamValue string

record FcParamValidationResult =
  pv_violations :: "FcParamViolation list"
  checked_count :: nat

record FcParamReadPlan =
  rd_param_ids :: "FcParamId list"
  rd_rationale :: string

definition show_int :: "int \<Rightarrow> string" where
  "show_int i = (if i < 0 then ''-'' @ show_nat (nat (- i)) else show_nat (nat i))"

fun range_description :: "(f32 \<Rightarrow> string) \<Rightarrow> FcParamRange \<Rightarrow> string" where
  "range_description show32 (ExactInt v) = ''exact int '' @ show_int (sint v)"
| "range_description show32 (ExactFloat v) = ''exact float '' @ show32 v"
| "range_description show32 (IntBounds lo hi) = ''int bounds '' @ show_int (sint lo) @ ''..='' @ show_int (sint hi)"
| "range_description show32 (FloatBounds lo hi) = ''float bounds '' @ show32 lo @ ''..='' @ show32 hi"

fun value_matches_range :: "FcParamValue \<Rightarrow> FcParamRange \<Rightarrow> bool" where
  "value_matches_range (Int32 v) (ExactInt e) = (v = e)"
| "value_matches_range (Float v) (ExactFloat e) = f64_eq v e"
| "value_matches_range (Int32 v) (IntBounds lo hi) = (sint lo \<le> sint v \<and> sint v \<le> sint hi)"
| "value_matches_range (Float v) (FloatBounds lo hi) = (f64_le lo v \<and> f64_le v hi)"
| "value_matches_range _ _ = False"

definition check_param_requirement :: "(f32 \<Rightarrow> string) \<Rightarrow> FcParamSnapshot \<Rightarrow> FcParamRequirement \<Rightarrow> FcParamViolation + unit" where
  "check_param_requirement show32 sn rq =
     (case hm_get (sn_params sn) (rq_param_id rq) of
        None \<Rightarrow> Inl (RequiredParamMissing (rq_param_id rq))
      | Some actual \<Rightarrow> if value_matches_range actual (required_range rq) then Inr ()
          else Inl (ParamOutOfRange (rq_param_id rq) actual (range_description show32 (required_range rq))))"

definition err :: "'e + 'a \<Rightarrow> 'e option" where
  "err r = (case r of Inl e \<Rightarrow> Some e | Inr x \<Rightarrow> None)"

definition validate_param_requirements :: "(f32 \<Rightarrow> string) \<Rightarrow> FcParamSnapshot \<Rightarrow> FcParamRequirement list \<Rightarrow> FcParamValidationResult" where
  "validate_param_requirements show32 sn rqs =
     \<lparr>pv_violations = List.map_filter (\<lambda>rq. err (check_param_requirement show32 sn rq)) rqs, checked_count = length rqs\<rparr>"

definition read_plan_from_requirements :: "FcParamRequirement list \<Rightarrow> string \<Rightarrow> FcParamReadPlan" where
  "read_plan_from_requirements rqs why = \<lparr>rd_param_ids = foldl push_unique [] (map rq_param_id rqs), rd_rationale = why\<rparr>"

section \<open>Geofences\<close>

definition MAVLINK_FENCE_FRAME :: string where
  "MAVLINK_FENCE_FRAME = ''MAV_FRAME_GLOBAL''"

definition MAVLINK_POLYGON_VERTEX_LIMIT :: nat where
  "MAVLINK_POLYGON_VERTEX_LIMIT = 70"

datatype FcGeofenceShape = Circle i32 i32 f64 | Polygon "(i32 \<times> i32) list"

record FcGeofenceItem =
  gf_id :: string
  gf_kind :: FcGeofenceItemKind
  gf_shape :: FcGeofenceShape

record MavlinkFencePlan =
  fence_items :: "FcGeofenceItem list"
  enable_fence :: bool

record MavlinkFenceArtifact =
  item_count :: nat
  inclusion_count :: nat
  exclusion_count :: nat
  has_polygon :: bool
  has_circle :: bool
  profile_classification :: MavlinkCompatibilityClass
  fa_caveats :: "string list"

datatype FenceCompilerError =
  UnsupportedByProfile FcGeofenceItemKind MavlinkCapabilityProfileId
| PolygonTooFewVertices nat
| PolygonTooManyVertices nat nat
| NonFiniteFence string

definition ensure_supported :: "FcGeofenceItemKind \<Rightarrow> MavlinkCapabilityProfile \<Rightarrow> FenceCompilerError + unit" where
  "ensure_supported k p =
     (case fence_item_support_rule p k of
        None \<Rightarrow> Inl (UnsupportedByProfile k (pf_id p))
      | Some r \<Rightarrow> if blocks_hardware_facing_success (fr_classification r) then Inl (UnsupportedByProfile k (pf_id p)) else Inr ())"

fun fence_command :: "FcGeofenceItemKind \<Rightarrow> MavlinkCommonCommandName" where
  "fence_command CircleInclusion = FenceCircleInclusion"
| "fence_command CircleExclusion = FenceCircleExclusion"
| "fence_command PolygonInclusion = FencePolygonVertexInclusion"
| "fence_command PolygonExclusion = FencePolygonVertexExclusion"

text \<open>The item pushed for one centre or vertex; \<open>items.len() as u16\<close> wraps.\<close>

definition fence_mission_item :: "FcGeofenceItem \<Rightarrow> i32 \<Rightarrow> i32 \<Rightarrow> f64 \<Rightarrow> nat \<Rightarrow> MavlinkCommonMissionItem" where
  "fence_mission_item it lat lon param n =
     (let sq = of_nat n :: u16 in
      \<lparr>mi_seq = sq, mi_command_id = ''fence:'' @ gf_id it @ '':'' @ show_nat (unat sq), mi_command = fence_command (gf_kind it),
       mi_frame = MAVLINK_FENCE_FRAME, mi_lat_e7 = lat, mi_lon_e7 = lon, mi_relative_alt_m = f64_zero,
       mi_params = [Some param, None, None, None], mi_current = False, mi_autocontinue = False,
       mi_source_task_id = None, mi_source_route_id = None\<rparr>)"

fun push_vertices :: "FcGeofenceItem \<Rightarrow> f64 \<Rightarrow> (i32 \<times> i32) list \<Rightarrow> MavlinkCommonMissionItem list \<Rightarrow> MavlinkCommonMissionItem list" where
  "push_vertices it param [] items = items"
| "push_vertices it param ((lat, lon) # vs) items =
     push_vertices it param vs (items @ [fence_mission_item it lat lon param (length items)])"

definition compile_fence_shape :: "FcGeofenceItem \<Rightarrow> MavlinkCommonMissionItem list \<Rightarrow> FenceCompilerError + MavlinkCommonMissionItem list" where
  "compile_fence_shape it items =
     (case gf_shape it of
        Circle lat lon radius \<Rightarrow>
          if \<not> is_finite radius then Inl (NonFiniteFence (gf_id it))
          else Inr (items @ [fence_mission_item it lat lon radius (length items)])
      | Polygon vs \<Rightarrow>
          if length vs < 3 then Inl (PolygonTooFewVertices (length vs))
          else if MAVLINK_POLYGON_VERTEX_LIMIT < length vs then Inl (PolygonTooManyVertices (length vs) MAVLINK_POLYGON_VERTEX_LIMIT)
          else Inr (push_vertices it (f64_of_nat (length vs)) vs items))"

fun compile_fence_loop ::
    "MavlinkCapabilityProfile \<Rightarrow> FcGeofenceItem list \<Rightarrow> MavlinkCommonMissionItem list \<Rightarrow> FenceCompilerError + MavlinkCommonMissionItem list" where
  "compile_fence_loop p [] items = Inr items"
| "compile_fence_loop p (it # its) items =
     (case ensure_supported (gf_kind it) p of
        Inl e \<Rightarrow> Inl e
      | Inr _ \<Rightarrow> (case compile_fence_shape it items of
          Inl e \<Rightarrow> Inl e
        | Inr items' \<Rightarrow> compile_fence_loop p its items'))"

definition fence_enable_command :: MavlinkCommonCommand where
  "fence_enable_command = \<lparr>mc_command_id = ''fence-enable-0'', mc_command = DoFenceEnable, mc_phase = CommandPrelude,
     mc_params = [Some (f64_lit 1), Some f64_zero, Some f64_zero, Some f64_zero, Some f64_zero, Some f64_zero, Some f64_zero]\<rparr>"

definition compile_fence_items ::
    "MavlinkFencePlan \<Rightarrow> MavlinkCapabilityProfile \<Rightarrow> FenceCompilerError + (MavlinkCommonMissionItem list \<times> MavlinkCommonCommand option)" where
  "compile_fence_items fp p =
     (case compile_fence_loop p (fence_items fp) [] of
        Inl e \<Rightarrow> Inl e
      | Inr items \<Rightarrow> Inr (items, if enable_fence fp then Some fence_enable_command else None))"

fun artifact_loop ::
    "MavlinkCapabilityProfile \<Rightarrow> FcGeofenceItem list \<Rightarrow> MavlinkCompatibilityClass \<Rightarrow> string list \<Rightarrow> MavlinkCompatibilityClass \<times> string list" where
  "artifact_loop p [] cls cavs = (cls, cavs)"
| "artifact_loop p (it # its) cls cavs =
     (case fence_item_support_rule p (gf_kind it) of
        None \<Rightarrow> artifact_loop p its cls cavs
      | Some r \<Rightarrow> artifact_loop p its (class_max cls (fr_classification r)) (foldl push_unique cavs (fr_caveats r)))"

definition fence_artifact :: "MavlinkFencePlan \<Rightarrow> MavlinkCapabilityProfile \<Rightarrow> MavlinkFenceArtifact" where
  "fence_artifact fp p =
     (case artifact_loop p (fence_items fp) (geofence_support p) [] of (cls, cavs) \<Rightarrow>
        \<lparr>item_count = length (fence_items fp),
         inclusion_count = length (filter (\<lambda>it. gf_kind it = CircleInclusion \<or> gf_kind it = PolygonInclusion) (fence_items fp)),
         exclusion_count = length (filter (\<lambda>it. gf_kind it = CircleExclusion \<or> gf_kind it = PolygonExclusion) (fence_items fp)),
         has_polygon = list_ex (\<lambda>it. case gf_shape it of Polygon _ \<Rightarrow> True | _ \<Rightarrow> False) (fence_items fp),
         has_circle = list_ex (\<lambda>it. case gf_shape it of Circle _ _ _ \<Rightarrow> True | _ \<Rightarrow> False) (fence_items fp),
         profile_classification = cls, fa_caveats = cavs\<rparr>)"

section \<open>The contract with the flight controller\<close>

record FcContract =
  fc_profile :: MavlinkCapabilityProfileId
  fc_fence_plan :: "MavlinkFencePlan option"
  fc_param_requirements :: "FcParamRequirement list"

datatype FcContractViolation =
  UnsupportedFenceType MavlinkCapabilityProfileId FcGeofenceItemKind string
| ContractParamOutOfRange FcParamId FcParamValue string
| ContractParamMissing FcParamId

record FcContractValidationResult =
  cv_violations :: "FcContractViolation list"
  blocks_mission_start :: bool
  cv_summary :: string

definition fence_violation :: "MavlinkCapabilityProfileId \<Rightarrow> FcGeofenceItem \<Rightarrow> FcContractViolation option" where
  "fence_violation pid it =
     (case fence_item_support_rule (profile pid) (gf_kind it) of
        None \<Rightarrow> Some (UnsupportedFenceType pid (gf_kind it) ''profile has no fence support rule for this kind'')
      | Some r \<Rightarrow> if blocks_hardware_facing_success (fr_classification r)
          then Some (UnsupportedFenceType pid (gf_kind it)
                 (''fence item is classified as '' @ class_as_str (fr_classification r) @ '' for profile '' @ profile_id_as_str pid))
          else None)"

fun contract_violation :: "FcParamViolation \<Rightarrow> FcContractViolation" where
  "contract_violation (RequiredParamMissing i) = ContractParamMissing i"
| "contract_violation (ParamOutOfRange i v d) = ContractParamOutOfRange i v d"

definition validate_fc_contract :: "(f32 \<Rightarrow> string) \<Rightarrow> FcContract \<Rightarrow> FcParamSnapshot option \<Rightarrow> FcContractValidationResult" where
  "validate_fc_contract show32 c snap =
     (let fence = (case fc_fence_plan c of None \<Rightarrow> [] | Some fp \<Rightarrow> List.map_filter (fence_violation (fc_profile c)) (fence_items fp));
          params = (case snap of None \<Rightarrow> []
             | Some sn \<Rightarrow> map contract_violation (pv_violations (validate_param_requirements show32 sn (fc_param_requirements c))));
          vs = fence @ params
      in \<lparr>cv_violations = vs, blocks_mission_start = (vs \<noteq> []),
          cv_summary = (if vs \<noteq> [] then show_nat (length vs) @ '' FC contract violation(s) block mission start''
            else if snap = None \<and> fc_param_requirements c \<noteq> []
            then ''FC contract passed dry-run fence checks; parameter checks require a snapshot''
            else ''FC contract passed'')\<rparr>)"

section \<open>Every profile knows every command\<close>

lemma command_rule_known:
  "\<exists>r. command_rule (profile pid) c = Some r \<and>
     cr_classification r = (if pid = ArduPilot then UnknownUntilSitlOrHardware else SupportedWithCaveats)"
  by (cases pid; cases c)
    (simp_all add: command_rule_def MAVLINK_COMMON_GENERIC_PROFILE_def PX4_PROFILE_def ARDUPILOT_PROFILE_def ALL_COMMON_COMMANDS_GENERIC_def
      PX4_COMMANDS_def ARDUPILOT_COMMANDS_def all_command_names_def generic_command_rule_def px4_command_rule_def ardupilot_command_rule_def)

lemma pf_id_profile [simp]: "pf_id (profile pid) = pid"
  by (cases pid) (simp_all add: MAVLINK_COMMON_GENERIC_PROFILE_def PX4_PROFILE_def ARDUPILOT_PROFILE_def)

lemma supported_frames_profile [simp]: "supported_frames (profile pid) = [MAVLINK_GLOBAL_RELATIVE_ALT_INT]"
  by (cases pid) (simp_all add: MAVLINK_COMMON_GENERIC_PROFILE_def PX4_PROFILE_def ARDUPILOT_PROFILE_def)

lemma classification_from_parts:
  "cc_classification (compatibility_from_parts cid sq c ph fr (Some r) m) = cr_classification r"
  by (simp add: compatibility_from_parts_def split: option.split)

lemma classify_command_class:
  "cc_classification (classify_command c (profile pid)) = (if pid = ArduPilot then UnknownUntilSitlOrHardware else SupportedWithCaveats)"
proof -
  obtain r where "command_rule (profile pid) (mc_command c) = Some r"
      "cr_classification r = (if pid = ArduPilot then UnknownUntilSitlOrHardware else SupportedWithCaveats)"
    using command_rule_known by blast
  then show ?thesis by (simp add: classify_command_def classification_from_parts)
qed

lemma classify_mission_item_class:
  assumes "mi_frame it = MAVLINK_GLOBAL_RELATIVE_ALT_INT"
  shows "cc_classification (classify_mission_item it (profile pid)) = (if pid = ArduPilot then UnknownUntilSitlOrHardware else SupportedWithCaveats)"
proof -
  obtain r where "command_rule (profile pid) (mi_command it) = Some r"
      "cr_classification r = (if pid = ArduPilot then UnknownUntilSitlOrHardware else SupportedWithCaveats)"
    using command_rule_known by blast
  then show ?thesis using assms by (simp add: classify_mission_item_def classification_from_parts Let_def class_max_def)
qed

section \<open>A fence compiles to one item per point\<close>

definition fence_supported :: "MavlinkCapabilityProfile \<Rightarrow> FcGeofenceItemKind \<Rightarrow> bool" where
  "fence_supported p k = (\<exists>r. fence_item_support_rule p k = Some r \<and> \<not> blocks_hardware_facing_success (fr_classification r))"

definition fence_well_formed :: "FcGeofenceItem \<Rightarrow> bool" where
  "fence_well_formed it = (case gf_shape it of Circle lat lon r \<Rightarrow> is_finite r | Polygon vs \<Rightarrow> 3 \<le> length vs \<and> length vs \<le> 70)"

definition fence_points :: "FcGeofenceItem \<Rightarrow> (FcGeofenceItem \<times> i32 \<times> i32 \<times> f64) list" where
  "fence_points it = (case gf_shape it of
     Circle lat lon r \<Rightarrow> [(it, lat, lon, r)] | Polygon vs \<Rightarrow> map (\<lambda>(lat, lon). (it, lat, lon, f64_of_nat (length vs))) vs)"

definition number_items :: "nat \<Rightarrow> (FcGeofenceItem \<times> i32 \<times> i32 \<times> f64) list \<Rightarrow> MavlinkCommonMissionItem list" where
  "number_items n ps = map (\<lambda>(i, it, lat, lon, r). fence_mission_item it lat lon r i) (enumerate n ps)"

lemma number_items_append: "number_items n (ps @ qs) = number_items n ps @ number_items (n + length ps) qs"
  by (simp add: number_items_def enumerate_append_eq)

lemma length_number_items [simp]: "length (number_items n ps) = length ps"
  by (simp add: number_items_def)

lemma push_vertices_spec:
  "push_vertices it r vs items = items @ number_items (length items) (map (\<lambda>(lat, lon). (it, lat, lon, r)) vs)"
  by (induction it r vs items rule: push_vertices.induct) (simp_all add: number_items_def)

lemma ensure_supported_iff: "ensure_supported k p = Inr () \<longleftrightarrow> fence_supported p k"
  by (auto simp: ensure_supported_def fence_supported_def split: option.splits)

lemma compile_fence_shape_spec:
  "compile_fence_shape it items = Inr items' \<longleftrightarrow> fence_well_formed it \<and> items' = items @ number_items (length items) (fence_points it)"
  by (auto simp: compile_fence_shape_def fence_well_formed_def fence_points_def push_vertices_spec MAVLINK_POLYGON_VERTEX_LIMIT_def
      number_items_def split: FcGeofenceShape.splits if_splits)

lemma compile_fence_loop_spec:
  "compile_fence_loop p its items = Inr items' \<longleftrightarrow>
   (\<forall>it\<in>set its. fence_supported p (gf_kind it) \<and> fence_well_formed it) \<and>
   items' = items @ number_items (length items) (concat (map fence_points its))"
proof (induction its arbitrary: items)
  case Nil
  then show ?case by (auto simp: number_items_def)
next
  case (Cons it its)
  show ?case
  proof (cases "fence_supported p (gf_kind it) \<and> fence_well_formed it")
    case True
    then have "compile_fence_loop p (it # its) items = compile_fence_loop p its (items @ number_items (length items) (fence_points it))"
      using compile_fence_shape_spec [of it items "items @ number_items (length items) (fence_points it)"]
        ensure_supported_iff [of "gf_kind it" p] by simp
    then show ?thesis using Cons.IH True by (simp add: number_items_append add.assoc)
  next
    case False
    then have "compile_fence_loop p (it # its) items \<noteq> Inr items'"
      using compile_fence_shape_spec [of it items] ensure_supported_iff [of "gf_kind it" p] by (auto split: sum.splits)
    then show ?thesis using False by auto
  qed
qed

text \<open>Numbers of 16 bits.\<close>

lemma number_items_seqs: "map mi_seq (number_items 0 ps) = map of_nat [0..<length ps]"
  by (rule nth_equalityI) (simp_all add: number_items_def nth_enumerate_eq fence_mission_item_def Let_def case_prod_unfold)

lemma unat_of_nat_u16: "n < 65536 \<Longrightarrow> unat (of_nat n :: u16) = n"
  by (simp add: unat_of_nat)

lemma u16_inj: "n \<le> 65536 \<Longrightarrow> inj_on (of_nat :: nat \<Rightarrow> u16) {0..<n}"
  by (rule inj_onI) (metis atLeastLessThan_iff less_le_trans unat_of_nat_u16)

lemma seqs_distinct_iff: "distinct (map (of_nat :: nat \<Rightarrow> u16) [0..<n]) \<longleftrightarrow> n \<le> 65536"
proof
  assume d: "distinct (map (of_nat :: nat \<Rightarrow> u16) [0..<n])"
  have "n = card (set (map (of_nat :: nat \<Rightarrow> u16) [0..<n]))" using distinct_card [OF d] by simp
  also have "\<dots> \<le> card (UNIV :: u16 set)" by (rule card_mono) auto
  finally show "n \<le> 65536" by (simp add: card_word)
next
  assume "n \<le> 65536"
  then show "distinct (map (of_nat :: nat \<Rightarrow> u16) [0..<n])" using u16_inj by (simp add: distinct_map)
qed

text \<open>A fence plan compiles exactly when the profile supports every item's kind, every radius is finite and every polygon
  has 3 to 70 vertices. The mission items are then the centres and vertices in order, numbered from zero; the numbers
  are 16 bits wide and nothing bounds the length, so they are distinct exactly up to 65536 points.\<close>

theorem compile_fence_items_exact:
  "(compile_fence_items fp p = Inr (items, en) \<longleftrightarrow>
     (\<forall>it\<in>set (fence_items fp). fence_supported p (gf_kind it) \<and> fence_well_formed it) \<and>
     items = number_items 0 (concat (map fence_points (fence_items fp))) \<and>
     en = (if enable_fence fp then Some fence_enable_command else None)) \<and>
   (distinct (map mi_seq (number_items 0 (concat (map fence_points (fence_items fp))))) \<longleftrightarrow>
     length (concat (map fence_points (fence_items fp))) \<le> 65536)"
proof -
  have "compile_fence_items fp p = Inr (items, en) \<longleftrightarrow>
      compile_fence_loop p (fence_items fp) [] = Inr items \<and> en = (if enable_fence fp then Some fence_enable_command else None)"
    by (auto simp: compile_fence_items_def split: sum.splits)
  then show ?thesis unfolding compile_fence_loop_spec number_items_seqs seqs_distinct_iff by simp
qed

definition yard_fence :: MavlinkFencePlan where
  "yard_fence = \<lparr>fence_items = [\<lparr>gf_id = ''yard'', gf_kind = PolygonInclusion, gf_shape = Polygon [(1, 1), (2, 1), (2, 2)]\<rparr>], enable_fence = True\<rparr>"

theorem compile_fence_items_exact_witness:
  "\<exists>items. compile_fence_items yard_fence (profile Px4) = Inr (items, Some fence_enable_command) \<and> length items = 3 \<and> distinct (map mi_seq items)"
proof -
  let ?items = "number_items 0 (concat (map fence_points (fence_items yard_fence)))"
  have "fence_supported (profile Px4) PolygonInclusion"
    by (simp add: fence_supported_def fence_item_support_rule_def PX4_PROFILE_def PX4_FENCE_RULES_def fence_rule_def)
  then have "compile_fence_items yard_fence (profile Px4) = Inr (?items, Some fence_enable_command)"
    using compile_fence_items_exact [of yard_fence "profile Px4" ?items "Some fence_enable_command"]
    by (simp add: yard_fence_def fence_well_formed_def)
  moreover have "length (concat (map fence_points (fence_items yard_fence))) = 3" by (simp add: yard_fence_def fence_points_def)
  ultimately show ?thesis using compile_fence_items_exact [of yard_fence "profile Px4" ?items "Some fence_enable_command"] by auto
qed

section \<open>What blocks a mission\<close>

definition param_ok :: "FcParamSnapshot \<Rightarrow> FcParamRequirement \<Rightarrow> bool" where
  "param_ok sn rq = (\<exists>v. hm_get (sn_params sn) (rq_param_id rq) = Some v \<and> value_matches_range v (required_range rq))"

lemma fence_violation_iff: "fence_violation pid it = None \<longleftrightarrow> fence_supported (profile pid) (gf_kind it)"
  by (auto simp: fence_violation_def fence_supported_def split: option.splits)

lemma check_param_iff: "err (check_param_requirement sh sn rq) = None \<longleftrightarrow> param_ok sn rq"
  by (auto simp: check_param_requirement_def param_ok_def err_def split: option.splits)

lemma map_filter_empty_iff: "List.map_filter f xs = [] \<longleftrightarrow> (\<forall>x\<in>set xs. f x = None)"
  by (induction xs) (auto simp: List.map_filter_simps split: option.splits)

lemma blocks_mission_start_iff:
  "blocks_mission_start (validate_fc_contract sh c snap) \<longleftrightarrow>
   \<not> ((\<forall>fp. fc_fence_plan c = Some fp \<longrightarrow> (\<forall>it\<in>set (fence_items fp). fence_supported (profile (fc_profile c)) (gf_kind it))) \<and>
      (\<forall>sn. snap = Some sn \<longrightarrow> (\<forall>rq\<in>set (fc_param_requirements c). param_ok sn rq)))"
proof -
  have f: "(case fc_fence_plan c of None \<Rightarrow> [] | Some fp \<Rightarrow> List.map_filter (fence_violation (fc_profile c)) (fence_items fp)) = [] \<longleftrightarrow>
      (\<forall>fp. fc_fence_plan c = Some fp \<longrightarrow> (\<forall>it\<in>set (fence_items fp). fence_supported (profile (fc_profile c)) (gf_kind it)))"
    by (cases "fc_fence_plan c") (simp_all add: map_filter_empty_iff fence_violation_iff)
  have p: "(case snap of None \<Rightarrow> [] | Some sn \<Rightarrow> map contract_violation (pv_violations (validate_param_requirements sh sn (fc_param_requirements c)))) = [] \<longleftrightarrow>
      (\<forall>sn. snap = Some sn \<longrightarrow> (\<forall>rq\<in>set (fc_param_requirements c). param_ok sn rq))"
    by (cases snap) (simp_all add: validate_param_requirements_def map_filter_empty_iff check_param_iff)
  show ?thesis unfolding validate_fc_contract_def Let_def using f p by simp
qed

end
