(* ===== verification/MavlinkPlan.thy ===== *)
theory MavlinkPlan
  imports MavlinkProfile
begin

text \<open>
  \<open>swarm-comms/src/mavlink_coords.rs\<close> and \<open>mavlink_common_plan.rs\<close>: the conversion of positions to the integer
  coordinates of MAVLink and the compiler from mission plans to MAVLink plans, with the classification of
  \<open>mavlink_capability_profile.rs\<close>. What the code takes from libraries is the record \<open>CompilerEnv\<close>: \<open>cos\<close> and \<open>sin\<close>
  (whose precision the standard library leaves open), the decimal notation of floats, \<open>serde_json::to_vec\<close> and \<open>Sha256\<close>.
\<close>

section \<open>Coordinates\<close>

record MavlinkCoordinateOrigin =
  or_lat_deg :: f64
  or_lon_deg :: f64
  or_alt_m :: f64

record MavlinkIntCoordinate =
  ic_lat_e7 :: i32
  ic_lon_e7 :: i32
  ic_relative_alt_m :: f32

datatype MavlinkCoordinateError =
  NonFinite string
| LatitudeOutOfRange f64
| LongitudeUnstableNearPole
| LongitudeOutOfRange f64
| AltitudeOutOfRange f64
| ScaledCoordinateOutOfRange string f64

record CompilerEnv =
  env_cos :: "f64 \<Rightarrow> f64"
  env_sin :: "f64 \<Rightarrow> f64"
  show_f64 :: "f64 \<Rightarrow> string"
  show_f32 :: "f32 \<Rightarrow> string"
  plan_to_vec :: "MissionCommandPlan \<Rightarrow> string + u8 list"
  sha256 :: "u8 list \<Rightarrow> u8 list"

definition ensure_finite :: "string \<Rightarrow> f64 \<Rightarrow> MavlinkCoordinateError + unit" where
  "ensure_finite label v = (if is_finite v then Inr () else Inl (NonFinite label))"

definition local_to_lat_deg :: "f64 \<Rightarrow> f64 \<Rightarrow> MavlinkCoordinateError + f64" where
  "local_to_lat_deg north_m origin_lat =
     and_then (ensure_finite ''north_m'' north_m) (and_then (ensure_finite ''origin_lat_deg'' origin_lat)
       (let lat = f64_add origin_lat (f64_div north_m (f64_lit 111320))
        in if f64_le (Fin True 90) lat \<and> f64_le lat (f64_lit 90) then Inr lat else Inl (LatitudeOutOfRange lat)))"

definition local_to_lon_deg :: "CompilerEnv \<Rightarrow> f64 \<Rightarrow> f64 \<Rightarrow> f64 \<Rightarrow> MavlinkCoordinateError + f64" where
  "local_to_lon_deg env east_m origin_lat origin_lon =
     and_then (ensure_finite ''east_m'' east_m) (and_then (ensure_finite ''origin_lat_deg'' origin_lat)
       (and_then (ensure_finite ''origin_lon_deg'' origin_lon)
         (let meters_per_degree = f64_mul (f64_lit 111320) (env_cos env (to_radians origin_lat))
          in if f64_lt (f64_abs meters_per_degree) (f64_lit 1) then Inl LongitudeUnstableNearPole
             else let lon = f64_add origin_lon (f64_div east_m meters_per_degree)
               in if f64_le (Fin True 180) lon \<and> f64_le lon (f64_lit 180) then Inr lon else Inl (LongitudeOutOfRange lon))))"

definition relative_altitude :: "f64 \<Rightarrow> MavlinkCoordinateError + f32" where
  "relative_altitude z = and_then (ensure_finite ''z_m'' z)
     (if f64_lt z (f64_neg f32_max) \<or> f64_lt f32_max z then Inl (AltitudeOutOfRange z) else Inr (as_f32 z))"

definition scaled_coordinate :: "f64 \<Rightarrow> string \<Rightarrow> MavlinkCoordinateError + i32" where
  "scaled_coordinate v label = and_then (ensure_finite label v)
     (let scaled = f64_round_away (f64_mul v (f64_lit 10000000))
      in if f64_lt scaled (Fin True (2 ^ 31)) \<or> f64_lt (f64_lit (2 ^ 31 - 1)) scaled then Inl (ScaledCoordinateOutOfRange label scaled)
         else Inr (as_i32 scaled))"

text \<open>The order of the \<open>?\<close> in the struct literal.\<close>

definition int_coordinate :: "f64 \<Rightarrow> f64 \<Rightarrow> f64 \<Rightarrow> MavlinkCoordinateError + MavlinkIntCoordinate" where
  "int_coordinate lat lon alt =
     (case scaled_coordinate lat ''latitude'' of Inl e \<Rightarrow> Inl e | Inr la \<Rightarrow>
       (case scaled_coordinate lon ''longitude'' of Inl e \<Rightarrow> Inl e | Inr lo \<Rightarrow>
         (case relative_altitude alt of Inl e \<Rightarrow> Inl e | Inr al \<Rightarrow>
            Inr \<lparr>ic_lat_e7 = la, ic_lon_e7 = lo, ic_relative_alt_m = al\<rparr>)))"

definition local_to_mavlink_int :: "CompilerEnv \<Rightarrow> f64 \<Rightarrow> f64 \<Rightarrow> f64 \<Rightarrow> MavlinkCoordinateOrigin \<Rightarrow> MavlinkCoordinateError + MavlinkIntCoordinate" where
  "local_to_mavlink_int env east_m north_m z origin =
     (case local_to_lat_deg north_m (or_lat_deg origin) of Inl e \<Rightarrow> Inl e | Inr lat \<Rightarrow>
       (case local_to_lon_deg env east_m (or_lat_deg origin) (or_lon_deg origin) of Inl e \<Rightarrow> Inl e | Inr lon \<Rightarrow>
          int_coordinate lat lon z))"

section \<open>The compiled plan\<close>

datatype MavlinkOrbitStrategy = OrbitUnsupported | WaypointApproximation u16

record MavlinkCommonPlanOptions =
  op_backend_profile :: string
  capability_profile :: MavlinkCapabilityProfileId
  home_origin :: "MavlinkCoordinateOrigin option"
  default_hold_position :: "Position option"
  orbit_strategy :: MavlinkOrbitStrategy
  fence_plan :: "MavlinkFencePlan option"
  param_requirements :: "FcParamRequirement list"
  param_snapshot :: "FcParamSnapshot option"

definition default_plan_options :: MavlinkCommonPlanOptions where
  "default_plan_options = \<lparr>op_backend_profile = ''mavlink_common_generic'', capability_profile = MavlinkCommonGeneric,
     home_origin = None, default_hold_position = None, orbit_strategy = OrbitUnsupported, fence_plan = None,
     param_requirements = [], param_snapshot = None\<rparr>"

datatype MavlinkExpectedAckKind = CommandAck | MissionAck

record MavlinkExpectedAck =
  ak_phase :: MavlinkPlanPhase
  ak_kind :: MavlinkExpectedAckKind
  ak_command_id :: "string option"
  ak_command :: "MavlinkCommonCommandName option"
  ak_seq :: "u16 option"

datatype MavlinkTelemetryMilestoneKind = HeartbeatExpected | MissionItemReachedExpected | TerminalStateExpected

record MavlinkTelemetryMilestone =
  tm_phase :: MavlinkPlanPhase
  tm_kind :: MavlinkTelemetryMilestoneKind
  tm_command_id :: "string option"
  tm_seq :: "u16 option"
  tm_description :: string

record MavlinkUnsupportedFeature =
  uf_rule_id :: string
  uf_command_id :: string
  uf_command_kind :: string
  uf_required :: bool
  uf_reason :: string

record MavlinkPlanValidationResult =
  passed :: bool
  ir_validation_passed :: bool
  unsupported_required_count :: nat
  vr_notes :: "string list"

record MavlinkCommonPlan =
  pl_schema_version :: string
  source_mission_id :: string
  command_ir_hash :: string
  backend_profile :: string
  command_prelude :: "MavlinkCommonCommand list"
  geofence_prelude :: "MavlinkCommonMissionItem list option"
  fence_summary :: "MavlinkFenceArtifact option"
  fc_contract_result :: "FcContractValidationResult option"
  mission_items :: "MavlinkCommonMissionItem list"
  mission_start :: "MavlinkCommonCommand option"
  command_postlude :: "MavlinkCommonCommand list"
  expected_acks :: "MavlinkExpectedAck list"
  telemetry_milestones :: "MavlinkTelemetryMilestone list"
  unsupported_features :: "MavlinkUnsupportedFeature list"
  validation_result :: MavlinkPlanValidationResult
  compatibility :: "MavlinkCompatibilityReport option"

datatype MavlinkCommonCompilerError =
  IrValidation string
| Coordinate string
| MissingHomeOrigin
| InvalidOrbitSegments u16
| TooManyMissionItems nat
| IrSerialization string
| FenceCompilation FenceCompilerError

definition quoted :: "string \<Rightarrow> string" where
  "quoted s = [char_of (39 :: nat)] @ s @ [char_of (39 :: nat)]"

fun coordinate_error_display :: "CompilerEnv \<Rightarrow> MavlinkCoordinateError \<Rightarrow> string" where
  "coordinate_error_display env (NonFinite label) = label @ '' must be finite''"
| "coordinate_error_display env (LatitudeOutOfRange x) = ''latitude out of range after local conversion: '' @ show_f64 env x"
| "coordinate_error_display env LongitudeUnstableNearPole = ''longitude conversion is unstable near the poles''"
| "coordinate_error_display env (LongitudeOutOfRange x) = ''longitude out of range after local conversion: '' @ show_f64 env x"
| "coordinate_error_display env (AltitudeOutOfRange x) = ''altitude out of f32 range: '' @ show_f64 env x"
| "coordinate_error_display env (ScaledCoordinateOutOfRange label x) =
     label @ '' out of MAVLink int32 range after scaling: '' @ show_f64 env x"

fun ir_error_display :: "CompilerEnv \<Rightarrow> MissionIrError \<Rightarrow> string" where
  "ir_error_display env (DuplicateCommandId i) = ''duplicate command id '' @ quoted i"
| "ir_error_display env (InvalidTakeoffAltitude x) = ''takeoff altitude must be positive, got '' @ show_f64 env x"
| "ir_error_display env (InvalidDuration x) = ''hold/loiter duration must be positive, got '' @ show_f64 env x @ ''s''"
| "ir_error_display env (InvalidOrbitRadius x) = ''orbit radius must be positive, got '' @ show_f64 env x @ ''m''"
| "ir_error_display env (InvalidOrbitTurns x) = ''orbit turns must be positive, got '' @ show_f64 env x"
| "ir_error_display env (EmptyRoute r) = ''follow_route command has no waypoints (route_id = '' @ quoted r @ '')''"
| "ir_error_display env (NonFiniteCoordinate c x y z) =
     ''non-finite coordinate in '' @ c @ '': ('' @ show_f64 env x @ '', '' @ show_f64 env y @ '', '' @ show_f64 env z @ '')''"
| "ir_error_display env (AmbiguousCoordinateFrame k f) = ''position kind '' @ quoted k @ '' is ambiguous for coordinate frame '' @ quoted f"

definition coordinate_error :: "CompilerEnv \<Rightarrow> MavlinkCoordinateError + 'a \<Rightarrow> MavlinkCommonCompilerError + 'a" where
  "coordinate_error env r = (case r of Inl e \<Rightarrow> Inl (Coordinate (coordinate_error_display env e)) | Inr x \<Rightarrow> Inr x)"

definition options_validate :: "MavlinkCommonPlanOptions \<Rightarrow> MavlinkCommonCompilerError + unit" where
  "options_validate o' = (case orbit_strategy o' of
     WaypointApproximation n \<Rightarrow> if n = 0 then Inl (InvalidOrbitSegments n) else Inr ()
   | OrbitUnsupported \<Rightarrow> Inr ())"

section \<open>The compiler\<close>

record Compiler =
  cp_command_prelude :: "MavlinkCommonCommand list"
  cp_command_postlude :: "MavlinkCommonCommand list"
  cp_mission_items :: "MavlinkCommonMissionItem list"
  cp_unsupported_features :: "MavlinkUnsupportedFeature list"
  cp_last_anchor :: "MavlinkIntCoordinate option"

definition compiler_new :: Compiler where
  "compiler_new = \<lparr>cp_command_prelude = [], cp_command_postlude = [], cp_mission_items = [], cp_unsupported_features = [], cp_last_anchor = None\<rparr>"

definition convert_position ::
    "CompilerEnv \<Rightarrow> CoordinateFrame \<Rightarrow> MavlinkCommonPlanOptions \<Rightarrow> Position \<Rightarrow> MavlinkCommonCompilerError + MavlinkIntCoordinate" where
  "convert_position env frame opts p =
     (case p of
        Geo geo \<Rightarrow> coordinate_error env (int_coordinate (lat_deg geo) (lon_deg geo) (alt_m geo))
      | Local loc \<Rightarrow>
          (case home_origin opts of
             None \<Rightarrow> Inl MissingHomeOrigin
           | Some origin \<Rightarrow>
               (case (case frame of
                        LocalEnu \<Rightarrow> (x_m loc, y_m loc, z_m loc)
                      | LocalNed \<Rightarrow> (y_m loc, x_m loc, f64_neg (z_m loc))
                      | Wgs84 \<Rightarrow> (x_m loc, y_m loc, z_m loc)) of
                  (east_m, north_m, alt) \<Rightarrow> coordinate_error env (local_to_mavlink_int env east_m north_m alt origin))))"

text \<open>The phase selects the list; the compiler only passes the two command phases.\<close>

definition push_command :: "MissionCommandEntry \<Rightarrow> MavlinkCommonCommandName \<Rightarrow> f64 option list \<Rightarrow> MavlinkPlanPhase \<Rightarrow> Compiler \<Rightarrow> Compiler" where
  "push_command e c params ph s =
     (let mc = \<lparr>mc_command_id = command_id e, mc_command = c, mc_phase = ph, mc_params = params\<rparr>
      in if ph = CommandPrelude then s\<lparr>cp_command_prelude := cp_command_prelude s @ [mc]\<rparr>
         else s\<lparr>cp_command_postlude := cp_command_postlude s @ [mc]\<rparr>)"

definition push_lifecycle_command :: "MissionCommandEntry \<Rightarrow> MavlinkCommonCommandName \<Rightarrow> f64 option list \<Rightarrow> Compiler \<Rightarrow> Compiler" where
  "push_lifecycle_command e c params s =
     push_command e c params (if cp_mission_items s = [] then CommandPrelude else CommandPostlude) s"

definition push_mission_item ::
    "MissionCommandEntry \<Rightarrow> MavlinkCommonCommandName \<Rightarrow> MavlinkIntCoordinate \<Rightarrow> f64 option list \<Rightarrow> Compiler \<Rightarrow> MavlinkCommonCompilerError + Compiler" where
  "push_mission_item e c coord params s =
     (let sq = length (cp_mission_items s)
      in if 65535 < sq then Inl (TooManyMissionItems (sq + 1))
         else Inr (s\<lparr>cp_last_anchor := Some coord, cp_mission_items := cp_mission_items s @
           [\<lparr>mi_seq = of_nat sq, mi_command_id = command_id e, mi_command = c, mi_frame = MAVLINK_GLOBAL_RELATIVE_ALT_INT,
             mi_lat_e7 = ic_lat_e7 coord, mi_lon_e7 = ic_lon_e7 coord, mi_relative_alt_m = ic_relative_alt_m coord,
             mi_params = params, mi_current = (sq = 0), mi_autocontinue = True,
             mi_source_task_id = source_task_id e, mi_source_route_id = source_route_id e\<rparr>]\<rparr>))"

definition push_unsupported :: "MissionCommandEntry \<Rightarrow> string \<Rightarrow> string \<Rightarrow> Compiler \<Rightarrow> Compiler" where
  "push_unsupported e rule why s = s\<lparr>cp_unsupported_features := cp_unsupported_features s @
     [\<lparr>uf_rule_id = rule, uf_command_id = command_id e, uf_command_kind = kind_name (command e), uf_required = True, uf_reason = why\<rparr>]\<rparr>"

definition compile_hold_or_unsupported ::
    "CompilerEnv \<Rightarrow> CoordinateFrame \<Rightarrow> MavlinkCommonPlanOptions \<Rightarrow> MissionCommandEntry \<Rightarrow> f64 \<Rightarrow> string \<Rightarrow> Compiler \<Rightarrow>
     MavlinkCommonCompilerError + Compiler" where
  "compile_hold_or_unsupported env frame opts e duration rule s =
     (let push = (\<lambda>coord. push_mission_item e NavLoiterTime coord [Some duration, Some f64_zero, Some f64_zero, Some f64_zero] s)
      in case cp_last_anchor s of
           Some coord \<Rightarrow> push coord
         | None \<Rightarrow> (case default_hold_position opts of
             Some p \<Rightarrow> (case convert_position env frame opts p of Inl er \<Rightarrow> Inl er | Inr coord \<Rightarrow> push coord)
           | None \<Rightarrow> Inr (push_unsupported e rule ''Hold/loiter duration requires a previous waypoint or default_hold_position'' s)))"

fun try_fold :: "('a \<Rightarrow> 's \<Rightarrow> 'e + 's) \<Rightarrow> 'a list \<Rightarrow> 's \<Rightarrow> 'e + 's" where
  "try_fold f [] s = Inr s"
| "try_fold f (x # xs) s = (case f x s of Inl e \<Rightarrow> Inl e | Inr s' \<Rightarrow> try_fold f xs s')"

definition orbit_coordinate ::
    "CompilerEnv \<Rightarrow> CoordinateFrame \<Rightarrow> MavlinkCommonPlanOptions \<Rightarrow> Position \<Rightarrow> f64 \<Rightarrow> OrbitDirection \<Rightarrow> u16 \<Rightarrow> nat \<Rightarrow>
     MavlinkCommonCompilerError + MavlinkIntCoordinate" where
  "orbit_coordinate env frame opts c radius dir segments index =
     (let fraction = f64_div (f64_of_nat index) (f64_of_nat (unat segments));
          signed_turns = (case dir of CounterClockwise \<Rightarrow> fraction | Clockwise \<Rightarrow> f64_neg fraction);
          angle = f64_mul signed_turns f64_tau;
          east_offset = f64_mul radius (env_cos env angle);
          north_offset = f64_mul radius (env_sin env angle)
      in case c of
           Local loc \<Rightarrow> convert_position env frame opts
             (Local \<lparr>x_m = f64_add (x_m loc) east_offset, y_m = f64_add (y_m loc) north_offset, z_m = z_m loc\<rparr>)
         | Geo geo \<Rightarrow> coordinate_error env (local_to_mavlink_int env east_offset north_offset (alt_m geo)
             \<lparr>or_lat_deg = lat_deg geo, or_lon_deg = lon_deg geo, or_alt_m = alt_m geo\<rparr>))"

definition compile_orbit ::
    "CompilerEnv \<Rightarrow> CoordinateFrame \<Rightarrow> MavlinkCommonPlanOptions \<Rightarrow> MissionCommandEntry \<Rightarrow> Position \<Rightarrow> f64 \<Rightarrow> f64 \<Rightarrow> OrbitDirection \<Rightarrow>
     Compiler \<Rightarrow> MavlinkCommonCompilerError + Compiler" where
  "compile_orbit env frame opts e c radius n dir s =
     (case orbit_strategy opts of
        OrbitUnsupported \<Rightarrow> Inr (push_unsupported e ''orbit_unsupported'' ''Orbit requires backend-specific support or waypoint approximation'' s)
      | WaypointApproximation segments \<Rightarrow>
          let count = as_usize (f64_ceil (f64_mul n (f64_of_nat (unat segments))))
          in if 65535 < count then Inl (TooManyMissionItems count)
             else try_fold (\<lambda>index s'. case orbit_coordinate env frame opts c radius dir segments index of
                      Inl er \<Rightarrow> Inl er
                    | Inr coord \<Rightarrow> push_mission_item e NavWaypoint coord [Some f64_zero, Some f64_zero, Some f64_zero, None] s')
                  [0..<count] s)"

definition push_waypoint ::
    "CompilerEnv \<Rightarrow> CoordinateFrame \<Rightarrow> MavlinkCommonPlanOptions \<Rightarrow> MissionCommandEntry \<Rightarrow> f64 option \<Rightarrow> Position \<Rightarrow> Compiler \<Rightarrow>
     MavlinkCommonCompilerError + Compiler" where
  "push_waypoint env frame opts e radius p s =
     (case convert_position env frame opts p of
        Inl er \<Rightarrow> Inl er
      | Inr coord \<Rightarrow> push_mission_item e NavWaypoint coord [Some f64_zero, radius, Some f64_zero, None] s)"

abbreviation zeros :: "f64 option list" where
  "zeros \<equiv> [Some f64_zero, Some f64_zero, Some f64_zero, Some f64_zero, Some f64_zero, Some f64_zero]"

definition compile_entry ::
    "CompilerEnv \<Rightarrow> CoordinateFrame \<Rightarrow> MavlinkCommonPlanOptions \<Rightarrow> MissionCommandEntry \<Rightarrow> Compiler \<Rightarrow> MavlinkCommonCompilerError + Compiler" where
  "compile_entry env frame opts e s =
     (case command e of
        Arm \<Rightarrow> Inr (push_command e ComponentArmDisarm (Some (f64_lit 1) # zeros) CommandPrelude s)
      | Disarm \<Rightarrow> Inr (push_command e ComponentArmDisarm (Some f64_zero # zeros) CommandPrelude s)
      | Takeoff alt \<Rightarrow> Inr (push_command e NavTakeoff
          [Some f64_zero, Some f64_zero, Some f64_zero, None, Some f64_zero, Some f64_zero, Some alt] CommandPrelude s)
      | Hold d \<Rightarrow> compile_hold_or_unsupported env frame opts e d ''hold_requires_position'' s
      | Land \<Rightarrow> Inr (push_lifecycle_command e NavLand
          [Some f64_zero, Some f64_zero, Some f64_zero, None, Some f64_zero, Some f64_zero, Some f64_zero] s)
      | ReturnToLaunch \<Rightarrow> Inr (push_lifecycle_command e NavReturnToLaunch (Some f64_zero # zeros) s)
      | Abort \<Rightarrow> Inr (push_lifecycle_command e NavReturnToLaunch (Some f64_zero # zeros) s)
      | GoTo p \<Rightarrow> push_waypoint env frame opts e (Some f64_zero) p s
      | FollowRoute _ wps \<Rightarrow> try_fold (\<lambda>wp. push_waypoint env frame opts e (acceptance_radius_m wp) (wp_position wp)) wps s
      | LoiterTime d \<Rightarrow> compile_hold_or_unsupported env frame opts e d ''loiter_time_requires_position'' s
      | Orbit c radius n dir \<Rightarrow> compile_orbit env frame opts e c radius n dir s
      | Pause \<Rightarrow> Inr (push_unsupported e ''pause_unsupported'' ''Pause has no conservative MAVLink Common mapping in M81'' s)
      | Resume \<Rightarrow> Inr (push_unsupported e ''resume_unsupported'' ''Resume has no conservative MAVLink Common mapping in M81'' s))"

section \<open>Finishing\<close>

definition command_ack :: "MavlinkPlanPhase \<Rightarrow> MavlinkCommonCommand \<Rightarrow> MavlinkExpectedAck" where
  "command_ack ph c = \<lparr>ak_phase = ph, ak_kind = CommandAck, ak_command_id = Some (mc_command_id c), ak_command = Some (mc_command c), ak_seq = None\<rparr>"

definition build_expected_acks ::
    "MavlinkCommonCommand list \<Rightarrow> MavlinkCommonMissionItem list \<Rightarrow> MavlinkCommonCommand option \<Rightarrow> MavlinkCommonCommand list \<Rightarrow> MavlinkExpectedAck list" where
  "build_expected_acks prelude items start postlude =
     map (\<lambda>c. command_ack (mc_phase c) c) prelude @
     (if items = [] then [] else [\<lparr>ak_phase = MissionUpload, ak_kind = MissionAck, ak_command_id = None, ak_command = None,
        ak_seq = Some (mi_seq (last items))\<rparr>]) @
     (case start of None \<Rightarrow> [] | Some c \<Rightarrow> [command_ack MissionStartPhase c]) @
     map (\<lambda>c. command_ack (mc_phase c) c) postlude"

fun debug_terminal_state :: "TerminalState \<Rightarrow> string" where
  "debug_terminal_state Landed = ''Landed''"
| "debug_terminal_state Hovering = ''Hovering''"
| "debug_terminal_state AtWaypoint = ''AtWaypoint''"
| "debug_terminal_state OrbitComplete = ''OrbitComplete''"
| "debug_terminal_state RouteComplete = ''RouteComplete''"
| "debug_terminal_state Aborted = ''Aborted''"

definition build_telemetry_milestones :: "TerminalState \<Rightarrow> MavlinkCommonMissionItem list \<Rightarrow> MavlinkTelemetryMilestone list" where
  "build_telemetry_milestones terminal items =
     [\<lparr>tm_phase = Telemetry, tm_kind = HeartbeatExpected, tm_command_id = None, tm_seq = None,
       tm_description = ''MAVLink HEARTBEAT expected before command/upload execution''\<rparr>] @
     map (\<lambda>it. \<lparr>tm_phase = Telemetry, tm_kind = MissionItemReachedExpected, tm_command_id = Some (mi_command_id it),
       tm_seq = Some (mi_seq it), tm_description = ''MISSION_ITEM_REACHED expected for seq='' @ show_nat (unat (mi_seq it))\<rparr>) items @
     [\<lparr>tm_phase = Telemetry, tm_kind = TerminalStateExpected, tm_command_id = None, tm_seq = None,
       tm_description = ''terminal state expected: '' @ debug_terminal_state terminal\<rparr>]"

definition COMMAND_IR_HASH_DOMAIN :: "u8 list" where
  "COMMAND_IR_HASH_DOMAIN = map of_char ''mavlink_common_plan.ir_hash.v1'' @ [0]"

definition hex_digit :: "nat \<Rightarrow> char" where
  "hex_digit d = (if d < 10 then char_of (48 + d) else char_of (87 + d))"

definition hex_byte :: "u8 \<Rightarrow> string" where
  "hex_byte b = [hex_digit (unat b div 16), hex_digit (unat b mod 16)]"

definition plan_hash :: "CompilerEnv \<Rightarrow> MissionCommandPlan \<Rightarrow> MavlinkCommonCompilerError + string" where
  "plan_hash env plan = (case plan_to_vec env plan of
     Inl m \<Rightarrow> Inl (IrSerialization m)
   | Inr json \<Rightarrow> Inr (concat (map hex_byte (sha256 env (COMMAND_IR_HASH_DOMAIN @ json)))))"

definition classify_mavlink_plan_compatibility :: "MavlinkCommonPlan \<Rightarrow> MavlinkCapabilityProfile \<Rightarrow> MavlinkCompatibilityReport" where
  "classify_mavlink_plan_compatibility plan p =
     (let results = map (\<lambda>c. classify_command c p) (command_prelude plan) @
            map (\<lambda>it. classify_mission_item it p) (mission_items plan) @
            (case mission_start plan of None \<Rightarrow> [] | Some c \<Rightarrow> [classify_command c p]) @
            map (\<lambda>c. classify_command c p) (command_postlude plan)
      in \<lparr>rp_profile = pf_id p,
          overall_classification = foldl (\<lambda>o' r. class_max o' (cc_classification r)) Supported results,
          hardware_facing_allowed = (pf_id p \<noteq> MavlinkCommonGeneric \<and>
            \<not> list_ex (\<lambda>r. blocks_hardware_facing_success (cc_classification r)) results),
          command_results = results,
          aggregate_mode_requirements = List.map_filter mode_requirement_from_result results,
          rp_caveats = foldl push_unique (foldl push_unique [] (known_caveats p))
            (concat (map (\<lambda>r. cc_caveats r @ cc_mode_caveats r) results))\<rparr>)"

text \<open>The counters are of type \<open>usize\<close>; the lists they count are in memory, so the sums do not wrap.\<close>

definition fail_validation :: "nat \<Rightarrow> string \<Rightarrow> MavlinkCommonPlan \<Rightarrow> MavlinkCommonPlan" where
  "fail_validation n note plan = plan\<lparr>validation_result := (validation_result plan)\<lparr>passed := False,
     unsupported_required_count := unsupported_required_count (validation_result plan) + n,
     vr_notes := vr_notes (validation_result plan) @ [note]\<rparr>\<rparr>"

definition mission_start_command :: MavlinkCommonCommand where
  "mission_start_command = \<lparr>mc_command_id = ''mission-start-0'', mc_command = MissionStart, mc_phase = MissionStartPhase,
     mc_params = Some f64_zero # zeros\<rparr>"

text \<open>\<open>finish\<close> up to the construction of the plan, with the fence already compiled.\<close>

definition assemble ::
    "CompilerEnv \<Rightarrow> MissionCommandPlan \<Rightarrow> MavlinkCommonPlanOptions \<Rightarrow> MavlinkCommonMissionItem list option \<Rightarrow> MavlinkFenceArtifact option \<Rightarrow>
     string \<Rightarrow> Compiler \<Rightarrow> MavlinkCommonPlan" where
  "assemble env plan opts fence summary hash s =
     (let start = (if cp_mission_items s = [] then None else Some mission_start_command);
          n = length (filter uf_required (cp_unsupported_features s))
      in \<lparr>pl_schema_version = ''mavlink_common_plan.v1'', source_mission_id = mission_id plan, command_ir_hash = hash,
          backend_profile = profile_id_as_str (capability_profile opts),
          command_prelude = cp_command_prelude s, geofence_prelude = fence, fence_summary = summary,
          fc_contract_result = (if fence_plan opts \<noteq> None \<or> param_requirements opts \<noteq> [] then
            Some (validate_fc_contract (show_f32 env) \<lparr>fc_profile = capability_profile opts, fc_fence_plan = fence_plan opts,
              fc_param_requirements = param_requirements opts\<rparr> (param_snapshot opts)) else None),
          mission_items = cp_mission_items s, mission_start = start, command_postlude = cp_command_postlude s,
          expected_acks = build_expected_acks (cp_command_prelude s) (cp_mission_items s) start (cp_command_postlude s),
          telemetry_milestones = build_telemetry_milestones (expected_terminal_state plan) (cp_mission_items s),
          unsupported_features = cp_unsupported_features s,
          validation_result = \<lparr>passed = (n = 0), ir_validation_passed = True, unsupported_required_count = n,
            vr_notes = [''M81 compiler output is transport-free; no hardware upload is implied'',
              ''PX4/ArduPilot semantics are not identical even for MAVLink Common commands''] @
              (if 0 < n then [show_nat n @ '' required feature(s) are unsupported by M81''] else [])\<rparr>,
          compatibility = None\<rparr>)"

definition judge :: "MavlinkCommonPlanOptions \<Rightarrow> MavlinkCommonPlan \<Rightarrow> MavlinkCommonPlan" where
  "judge opts plan =
     (let report = classify_mavlink_plan_compatibility plan (profile (capability_profile opts));
          m = unsupported_count report;
          plan1 = (if 0 < m then fail_validation m (show_nat m @ '' profile compatibility issue(s) are unsupported by '' @
                     profile_id_as_str (capability_profile opts)) plan else plan);
          plan2 = (case fc_contract_result plan1 of
                     None \<Rightarrow> plan1
                   | Some r \<Rightarrow> if blocks_mission_start r
                       then fail_validation (length (cv_violations r)) (show_nat (length (cv_violations r)) @ '' FC contract violation(s) block mission start'') plan1
                       else plan1)
      in plan2\<lparr>compatibility := Some report\<rparr>)"

definition finish ::
    "CompilerEnv \<Rightarrow> MissionCommandPlan \<Rightarrow> MavlinkCommonPlanOptions \<Rightarrow> Compiler \<Rightarrow> MavlinkCommonCompilerError + MavlinkCommonPlan" where
  "finish env plan opts s =
     (case (case fence_plan opts of
              None \<Rightarrow> Inr (None, None, s)
            | Some fp \<Rightarrow>
                (case compile_fence_items fp (profile (capability_profile opts)) of
                   Inl e \<Rightarrow> Inl (FenceCompilation e)
                 | Inr (items, enable) \<Rightarrow> Inr (Some items, Some (fence_artifact fp (profile (capability_profile opts))),
                     (case enable of None \<Rightarrow> s | Some c \<Rightarrow> s\<lparr>cp_command_prelude := c # cp_command_prelude s\<rparr>)))) of
        Inl e \<Rightarrow> Inl e
      | Inr (fence, summary, s') \<Rightarrow>
          (case plan_hash env plan of
             Inl e \<Rightarrow> Inl e
           | Inr hash \<Rightarrow> Inr (judge opts (assemble env plan opts fence summary hash s'))))"

definition compile_mavlink_common_plan ::
    "CompilerEnv \<Rightarrow> MissionCommandPlan \<Rightarrow> MavlinkCommonPlanOptions \<Rightarrow> MavlinkCommonCompilerError + MavlinkCommonPlan" where
  "compile_mavlink_common_plan env plan opts =
     (case validate plan of
        Inl e \<Rightarrow> Inl (IrValidation (ir_error_display env e))
      | Inr _ \<Rightarrow> and_then (options_validate opts)
          (case try_fold (compile_entry env (coordinate_frame plan) opts) (commands plan) compiler_new of
             Inl e \<Rightarrow> Inl e
           | Inr s \<Rightarrow> finish env plan opts s))"

section \<open>Items are numbered\<close>

lemma try_fold_invariant:
  assumes "\<And>x s s'. x \<in> set xs \<Longrightarrow> P s \<Longrightarrow> f x s = Inr s' \<Longrightarrow> P s'" "P s" "try_fold f xs s = Inr s'"
  shows "P s'"
  using assms by (induction xs arbitrary: s) (auto split: sum.splits)

definition compiler_inv :: "Compiler \<Rightarrow> bool" where
  "compiler_inv s =
     (length (cp_mission_items s) \<le> 65536 \<and>
      (\<forall>i<length (cp_mission_items s). mi_seq (cp_mission_items s ! i) = of_nat i \<and> mi_current (cp_mission_items s ! i) = (i = 0) \<and>
         mi_autocontinue (cp_mission_items s ! i) \<and> mi_frame (cp_mission_items s ! i) = MAVLINK_GLOBAL_RELATIVE_ALT_INT) \<and>
      (\<forall>c\<in>set (cp_command_prelude s). mc_phase c = CommandPrelude) \<and> (\<forall>c\<in>set (cp_command_postlude s). mc_phase c = CommandPostlude) \<and>
      (cp_mission_items s = [] \<longrightarrow> cp_command_postlude s = []) \<and> (\<forall>u\<in>set (cp_unsupported_features s). uf_required u))"

lemma compiler_inv_new: "compiler_inv compiler_new"
  by (simp add: compiler_inv_def compiler_new_def)

lemma push_mission_item_inv: "compiler_inv s \<Longrightarrow> push_mission_item e c coord params s = Inr s' \<Longrightarrow> compiler_inv s'"
  by (auto simp: push_mission_item_def compiler_inv_def Let_def nth_append less_Suc_eq split: if_splits)

lemma push_command_inv:
  "compiler_inv s \<Longrightarrow> ph = CommandPrelude \<or> (ph = CommandPostlude \<and> cp_mission_items s \<noteq> []) \<Longrightarrow> compiler_inv (push_command e c params ph s)"
  by (auto simp: push_command_def compiler_inv_def Let_def)

lemma push_lifecycle_inv: "compiler_inv s \<Longrightarrow> compiler_inv (push_lifecycle_command e c params s)"
  by (simp add: push_lifecycle_command_def push_command_inv)

lemma push_unsupported_inv: "compiler_inv s \<Longrightarrow> compiler_inv (push_unsupported e r w s)"
  by (simp add: push_unsupported_def compiler_inv_def)

lemma push_waypoint_inv: "compiler_inv s \<Longrightarrow> push_waypoint env frame opts e r p s = Inr s' \<Longrightarrow> compiler_inv s'"
  by (auto simp: push_waypoint_def push_mission_item_inv split: sum.splits)

lemma compile_hold_inv: "compiler_inv s \<Longrightarrow> compile_hold_or_unsupported env frame opts e d r s = Inr s' \<Longrightarrow> compiler_inv s'"
  by (auto simp: compile_hold_or_unsupported_def Let_def push_mission_item_inv push_unsupported_inv split: option.splits sum.splits)

lemma compile_orbit_inv: "compiler_inv s \<Longrightarrow> compile_orbit env frame opts e c radius n dir s = Inr s' \<Longrightarrow> compiler_inv s'"
  unfolding compile_orbit_def Let_def
  by (auto simp: push_unsupported_inv push_mission_item_inv split: MavlinkOrbitStrategy.splits if_splits sum.splits
      elim!: try_fold_invariant [where P = compiler_inv, rotated 2])

lemma compile_entry_inv: "compiler_inv s \<Longrightarrow> compile_entry env frame opts e s = Inr s' \<Longrightarrow> compiler_inv s'"
  unfolding compile_entry_def
  by (auto simp: push_command_inv push_lifecycle_inv push_unsupported_inv split: MissionCommand.splits
      intro: push_waypoint_inv compile_hold_inv compile_orbit_inv elim!: try_fold_invariant [where P = compiler_inv, rotated 2])

lemma compile_entries_inv: "try_fold (compile_entry env frame opts) es compiler_new = Inr s \<Longrightarrow> compiler_inv s"
  by (rule try_fold_invariant [where P = compiler_inv, OF compile_entry_inv compiler_inv_new])

section \<open>The stages of a successful compilation\<close>

lemma judge_keeps:
  "mission_items (judge opts p) = mission_items p" "mission_start (judge opts p) = mission_start p"
  "command_prelude (judge opts p) = command_prelude p" "command_postlude (judge opts p) = command_postlude p"
  "expected_acks (judge opts p) = expected_acks p" "unsupported_features (judge opts p) = unsupported_features p"
  "fc_contract_result (judge opts p) = fc_contract_result p" "geofence_prelude (judge opts p) = geofence_prelude p"
  by (simp_all add: judge_def fail_validation_def Let_def split: option.split)

lemma compile_stages:
  assumes "compile_mavlink_common_plan env plan opts = Inr p"
  obtains s fence summary hash en where "validate plan = Inr ()" "options_validate opts = Inr ()"
    "try_fold (compile_entry env (coordinate_frame plan) opts) (commands plan) compiler_new = Inr s"
    "(fence_plan opts = None \<and> en = None \<and> fence = None) \<or>
     (\<exists>fp items. fence_plan opts = Some fp \<and> fence = Some items \<and> compile_fence_items fp (profile (capability_profile opts)) = Inr (items, en))"
    "p = judge opts (assemble env plan opts fence summary hash (case en of None \<Rightarrow> s | Some c \<Rightarrow> s\<lparr>cp_command_prelude := c # cp_command_prelude s\<rparr>))"
proof -
  obtain s where s: "validate plan = Inr ()" "options_validate opts = Inr ()"
      "try_fold (compile_entry env (coordinate_frame plan) opts) (commands plan) compiler_new = Inr s" "finish env plan opts s = Inr p"
    using assms unfolding compile_mavlink_common_plan_def by (auto simp: and_then_def split: sum.splits)
  show ?thesis
  proof (cases "fence_plan opts")
    case None
    then obtain hash where "p = judge opts (assemble env plan opts None None hash s)"
      using s(4) by (auto simp: finish_def split: sum.splits)
    then show ?thesis using that [OF s(1-3), of None None None hash] None by simp
  next
    case (Some fp)
    then obtain items en hash where c: "compile_fence_items fp (profile (capability_profile opts)) = Inr (items, en)"
        "p = judge opts (assemble env plan opts (Some items) (Some (fence_artifact fp (profile (capability_profile opts)))) hash
               (case en of None \<Rightarrow> s | Some c \<Rightarrow> s\<lparr>cp_command_prelude := c # cp_command_prelude s\<rparr>))"
      using s(4) by (auto simp: finish_def split: sum.splits)
    then show ?thesis using that [OF s(1-3) _ c(2)] Some by blast
  qed
qed

lemma assemble_fields:
  "mission_items (assemble env plan opts f su h s) = cp_mission_items s"
  "command_prelude (assemble env plan opts f su h s) = cp_command_prelude s"
  "command_postlude (assemble env plan opts f su h s) = cp_command_postlude s"
  "unsupported_features (assemble env plan opts f su h s) = cp_unsupported_features s"
  "mission_start (assemble env plan opts f su h s) = (if cp_mission_items s = [] then None else Some mission_start_command)"
  "expected_acks (assemble env plan opts f su h s) = build_expected_acks (cp_command_prelude s) (cp_mission_items s)
     (if cp_mission_items s = [] then None else Some mission_start_command) (cp_command_postlude s)"
  "geofence_prelude (assemble env plan opts f su h s) = f"
  by (simp_all add: assemble_def Let_def)

lemmas compiled_fields = judge_keeps assemble_fields

definition with_enable :: "MavlinkCommonCommand option \<Rightarrow> Compiler \<Rightarrow> Compiler" where
  "with_enable en s = (case en of None \<Rightarrow> s | Some c \<Rightarrow> s\<lparr>cp_command_prelude := c # cp_command_prelude s\<rparr>)"

lemma with_enable_fields [simp]:
  "cp_mission_items (with_enable en s) = cp_mission_items s" "cp_command_postlude (with_enable en s) = cp_command_postlude s"
  "cp_unsupported_features (with_enable en s) = cp_unsupported_features s"
  "cp_command_prelude (with_enable en s) = (case en of None \<Rightarrow> [] | Some c \<Rightarrow> [c]) @ cp_command_prelude s"
  by (simp_all add: with_enable_def split: option.split)

lemma compile_fence_enable: "compile_fence_items fp pr = Inr (items, Some c) \<Longrightarrow> c = fence_enable_command"
  by (auto simp: compile_fence_items_def split: sum.splits if_splits)

lemma acks_of_commands:
  "map ak_command_id (filter (\<lambda>a. ak_kind a = CommandAck) (build_expected_acks pre items st post)) =
   map (\<lambda>c. Some (mc_command_id c)) (pre @ (case st of None \<Rightarrow> [] | Some c \<Rightarrow> [c]) @ post)"
  "map ak_seq (filter (\<lambda>a. ak_kind a = MissionAck) (build_expected_acks pre items st post)) =
   (if items = [] then [] else [Some (mi_seq (last items))])"
  by (simp_all add: build_expected_acks_def command_ack_def comp_def filter_map split: option.split)

text \<open>(C21) A compiled plan is ready for upload: at most 65536 items, numbered by their position without wrap-around, the
  first and only the first marked current, all in the global frame; a start command exactly when there are items; the
  commands of the two lists carry their phase, and without items nothing follows; and the expected acknowledgements
  are one per command in the order of sending and one for the upload that names the last item.\<close>

theorem compiled_plan_uploadable:
  assumes "compile_mavlink_common_plan env plan opts = Inr p"
  shows "length (mission_items p) \<le> 65536 \<and>
    (\<forall>i<length (mission_items p). unat (mi_seq (mission_items p ! i)) = i \<and> mi_current (mission_items p ! i) = (i = 0) \<and>
      mi_autocontinue (mission_items p ! i) \<and> mi_frame (mission_items p ! i) = MAVLINK_GLOBAL_RELATIVE_ALT_INT) \<and>
    mission_start p = (if mission_items p = [] then None else Some mission_start_command) \<and>
    (\<forall>c\<in>set (command_prelude p). mc_phase c = CommandPrelude) \<and> (\<forall>c\<in>set (command_postlude p). mc_phase c = CommandPostlude) \<and>
    (mission_items p = [] \<longrightarrow> command_postlude p = []) \<and>
    map ak_command_id (filter (\<lambda>a. ak_kind a = CommandAck) (expected_acks p)) =
      map (\<lambda>c. Some (mc_command_id c)) (command_prelude p @ (case mission_start p of None \<Rightarrow> [] | Some c \<Rightarrow> [c]) @ command_postlude p) \<and>
    map ak_seq (filter (\<lambda>a. ak_kind a = MissionAck) (expected_acks p)) =
      (if mission_items p = [] then [] else [Some (of_nat (length (mission_items p) - 1))])"
proof -
  obtain s fence summary hash en where st: "try_fold (compile_entry env (coordinate_frame plan) opts) (commands plan) compiler_new = Inr s"
      "(fence_plan opts = None \<and> en = None \<and> fence = None) \<or>
       (\<exists>fp items. fence_plan opts = Some fp \<and> fence = Some items \<and> compile_fence_items fp (profile (capability_profile opts)) = Inr (items, en))"
      and p: "p = judge opts (assemble env plan opts fence summary hash (with_enable en s))"
    using compile_stages [OF assms] unfolding with_enable_def by metis
  have inv: "compiler_inv s" using compile_entries_inv [OF st(1)] .
  have en: "\<forall>c\<in>set (case en of None \<Rightarrow> [] | Some c \<Rightarrow> [c]). mc_phase c = CommandPrelude"
    using st(2) by (cases en) (auto dest!: compile_fence_enable simp: fence_enable_command_def)
  have "length (mission_items p) \<le> 65536" using inv by (simp add: p compiled_fields compiler_inv_def)
  moreover have "\<forall>i<length (mission_items p). unat (mi_seq (mission_items p ! i)) = i \<and> mi_current (mission_items p ! i) = (i = 0) \<and>
      mi_autocontinue (mission_items p ! i) \<and> mi_frame (mission_items p ! i) = MAVLINK_GLOBAL_RELATIVE_ALT_INT"
    using inv by (simp add: p compiled_fields compiler_inv_def unat_of_nat_u16)
  moreover have "mission_start p = (if mission_items p = [] then None else Some mission_start_command)" by (simp add: p compiled_fields)
  moreover have "(\<forall>c\<in>set (command_prelude p). mc_phase c = CommandPrelude) \<and> (\<forall>c\<in>set (command_postlude p). mc_phase c = CommandPostlude)"
    using inv en by (auto simp: p compiled_fields compiler_inv_def)
  moreover have "mission_items p = [] \<longrightarrow> command_postlude p = []" using inv by (simp add: p compiled_fields compiler_inv_def)
  moreover have "map ak_command_id (filter (\<lambda>a. ak_kind a = CommandAck) (expected_acks p)) =
      map (\<lambda>c. Some (mc_command_id c)) (command_prelude p @ (case mission_start p of None \<Rightarrow> [] | Some c \<Rightarrow> [c]) @ command_postlude p)"
    by (simp add: p compiled_fields acks_of_commands)
  moreover have "map ak_seq (filter (\<lambda>a. ak_kind a = MissionAck) (expected_acks p)) =
      (if mission_items p = [] then [] else [Some (of_nat (length (mission_items p) - 1))])"
    using inv by (simp add: p compiled_fields acks_of_commands compiler_inv_def last_conv_nth)
  ultimately show ?thesis by blast
qed

end
