(* ===== verification/MavlinkFaithful.thy ===== *)
theory MavlinkFaithful
  imports MavlinkPlan
begin

text \<open>
  What a compiled MAVLink plan says about the mission it comes from: the verdict of the plan, the items of every
  command, the place of the lifecycle commands, and the accuracy of the coordinates.
\<close>

section \<open>The verdict\<close>

declare profile.simps [simp del]

definition plan_results :: "MavlinkCommonPlan \<Rightarrow> MavlinkCapabilityProfile \<Rightarrow> MavlinkCommandCompatibility list" where
  "plan_results p pr = map (\<lambda>c. classify_command c pr) (command_prelude p) @ map (\<lambda>it. classify_mission_item it pr) (mission_items p) @
     (case mission_start p of None \<Rightarrow> [] | Some c \<Rightarrow> [classify_command c pr]) @ map (\<lambda>c. classify_command c pr) (command_postlude p)"

lemma command_results_plan: "command_results (classify_mavlink_plan_compatibility p pr) = plan_results p pr"
  by (simp add: classify_mavlink_plan_compatibility_def plan_results_def Let_def)

lemma plan_results_class:
  assumes "\<forall>it\<in>set (mission_items p). mi_frame it = MAVLINK_GLOBAL_RELATIVE_ALT_INT" "r \<in> set (plan_results p (profile pid))"
  shows "cc_classification r = (if pid = ArduPilot then UnknownUntilSitlOrHardware else SupportedWithCaveats)"
  using assms by (auto simp: plan_results_def classify_command_class classify_mission_item_class split: option.splits)

lemma results_block_iff:
  assumes "\<forall>it\<in>set (mission_items p). mi_frame it = MAVLINK_GLOBAL_RELATIVE_ALT_INT"
  shows "(\<exists>x\<in>set (plan_results p (profile pid)). blocks_hardware_facing_success (cc_classification x)) \<longleftrightarrow>
    pid = ArduPilot \<and> plan_results p (profile pid) \<noteq> []"
proof -
  have "blocks_hardware_facing_success (cc_classification x) = (pid = ArduPilot)" if "x \<in> set (plan_results p (profile pid))" for x
    using plan_results_class [OF assms that] by simp
  then have "(\<exists>x\<in>set (plan_results p (profile pid)). blocks_hardware_facing_success (cc_classification x)) \<longleftrightarrow>
      (\<exists>x. x \<in> set (plan_results p (profile pid)) \<and> pid = ArduPilot)" by blast
  then show ?thesis by (auto simp: ex_in_conv)
qed

lemma no_profile_issue:
  assumes "\<forall>it\<in>set (mission_items p). mi_frame it = MAVLINK_GLOBAL_RELATIVE_ALT_INT"
  shows "unsupported_count (classify_mavlink_plan_compatibility p (profile pid)) = 0"
  using plan_results_class [OF assms] by (auto simp: unsupported_count_def command_results_plan filter_empty_conv split: if_splits)

lemma judge_passed:
  assumes "\<forall>it\<in>set (mission_items p). mi_frame it = MAVLINK_GLOBAL_RELATIVE_ALT_INT"
  shows "passed (validation_result (judge opts p)) \<longleftrightarrow>
    passed (validation_result p) \<and> (\<forall>r. fc_contract_result p = Some r \<longrightarrow> \<not> blocks_mission_start r)"
  using no_profile_issue [OF assms, of "capability_profile opts"]
  by (auto simp: judge_def Let_def fail_validation_def split: option.splits)

lemma judge_compatibility:
  "compatibility (judge opts p) = Some (classify_mavlink_plan_compatibility p (profile (capability_profile opts)))"
  by (simp add: judge_def Let_def)

lemma assemble_verdict:
  "passed (validation_result (assemble env plan opts f su h s)) = (\<forall>u\<in>set (cp_unsupported_features s). \<not> uf_required u)"
  "fc_contract_result (assemble env plan opts f su h s) = (if fence_plan opts \<noteq> None \<or> param_requirements opts \<noteq> [] then
     Some (validate_fc_contract (show_f32 env) \<lparr>fc_profile = capability_profile opts, fc_fence_plan = fence_plan opts,
       fc_param_requirements = param_requirements opts\<rparr> (param_snapshot opts)) else None)"
  by (simp_all add: assemble_def Let_def filter_empty_conv)

lemma compile_fence_supported:
  assumes "compile_fence_items fp pr = Inr (items, en)" "it \<in> set (fence_items fp)"
  shows "fence_supported pr (gf_kind it)"
proof -
  obtain xs where "compile_fence_loop pr (fence_items fp) [] = Inr xs"
    using assms(1) by (auto simp: compile_fence_items_def split: sum.splits)
  then show ?thesis using assms(2) unfolding compile_fence_loop_spec by blast
qed

text \<open>The verdict of a compiled plan. It passes exactly when no command was recorded as unsupported and, if a snapshot of
  the flight controller's parameters is given, every required parameter is present and in range: the profiles list
  every command and a fence that compiles meets the contract. Hardware is released for PX4 always, for the generic
  profile never, and for ArduPilot only when the plan has no command and no item at all.\<close>

theorem compiled_verdict_exact:
  assumes "compile_mavlink_common_plan env plan opts = Inr p"
  shows "(passed (validation_result p) \<longleftrightarrow> unsupported_features p = [] \<and>
      (\<forall>sn. param_snapshot opts = Some sn \<longrightarrow> (\<forall>rq\<in>set (param_requirements opts). param_ok sn rq))) \<and>
    (\<exists>r. compatibility p = Some r \<and> unsupported_count r = 0 \<and>
      (hardware_facing_allowed r \<longleftrightarrow> (case capability_profile opts of MavlinkCommonGeneric \<Rightarrow> False | Px4 \<Rightarrow> True
         | ArduPilot \<Rightarrow> command_prelude p = [] \<and> mission_items p = [] \<and> command_postlude p = [])))"
proof -
  obtain s fence summary hash en where st: "try_fold (compile_entry env (coordinate_frame plan) opts) (commands plan) compiler_new = Inr s"
      and fp: "(fence_plan opts = None \<and> en = None \<and> fence = None) \<or>
       (\<exists>fp items. fence_plan opts = Some fp \<and> fence = Some items \<and> compile_fence_items fp (profile (capability_profile opts)) = Inr (items, en))"
      and p: "p = judge opts (assemble env plan opts fence summary hash (with_enable en s))"
    using compile_stages [OF assms] unfolding with_enable_def by metis
  let ?a = "assemble env plan opts fence summary hash (with_enable en s)" and ?pid = "capability_profile opts"
  have inv: "compiler_inv s" using compile_entries_inv [OF st] .
  then have fr: "\<forall>it\<in>set (mission_items ?a). mi_frame it = MAVLINK_GLOBAL_RELATIVE_ALT_INT"
    by (auto simp: compiled_fields compiler_inv_def in_set_conv_nth)
  have fence: "\<forall>f. fence_plan opts = Some f \<longrightarrow> (\<forall>it\<in>set (fence_items f). fence_supported (profile ?pid) (gf_kind it))"
    using fp compile_fence_supported by fastforce
  have contract: "(\<forall>r. fc_contract_result ?a = Some r \<longrightarrow> \<not> blocks_mission_start r) \<longleftrightarrow>
      (\<forall>sn. param_snapshot opts = Some sn \<longrightarrow> (\<forall>rq\<in>set (param_requirements opts). param_ok sn rq))"
    using fence by (auto simp: assemble_verdict blocks_mission_start_iff)
  have "passed (validation_result ?a) \<longleftrightarrow> unsupported_features p = []"
    using inv by (auto simp: assemble_verdict p compiled_fields compiler_inv_def)
  then have verdict: "passed (validation_result p) \<longleftrightarrow> unsupported_features p = [] \<and>
      (\<forall>sn. param_snapshot opts = Some sn \<longrightarrow> (\<forall>rq\<in>set (param_requirements opts). param_ok sn rq))"
    using judge_passed [OF fr] contract p by blast
  let ?r = "classify_mavlink_plan_compatibility ?a (profile ?pid)"
  have "hardware_facing_allowed ?r \<longleftrightarrow> ?pid \<noteq> MavlinkCommonGeneric \<and> \<not> (\<exists>x\<in>set (plan_results ?a (profile ?pid)). blocks_hardware_facing_success (cc_classification x))"
    by (simp add: classify_mavlink_plan_compatibility_def Let_def list_ex_iff plan_results_def)
  then have "hardware_facing_allowed ?r \<longleftrightarrow> ?pid \<noteq> MavlinkCommonGeneric \<and> \<not> (?pid = ArduPilot \<and> plan_results ?a (profile ?pid) \<noteq> [])"
    unfolding results_block_iff [OF fr] .
  moreover have "plan_results ?a (profile ?pid) = [] \<longleftrightarrow> command_prelude p = [] \<and> mission_items p = [] \<and> command_postlude p = []"
    by (auto simp: plan_results_def p compiled_fields split: option.splits)
  ultimately have "hardware_facing_allowed ?r \<longleftrightarrow> (case ?pid of MavlinkCommonGeneric \<Rightarrow> False | Px4 \<Rightarrow> True
         | ArduPilot \<Rightarrow> command_prelude p = [] \<and> mission_items p = [] \<and> command_postlude p = [])"
    by (auto split: MavlinkCapabilityProfileId.split)
  moreover have "compatibility p = Some ?r" using p judge_compatibility by simp
  ultimately show ?thesis using verdict no_profile_issue [OF fr, of ?pid] by blast
qed

section \<open>What becomes of every command\<close>

definition coord_of :: "MavlinkCommonMissionItem \<Rightarrow> MavlinkIntCoordinate" where
  "coord_of it = \<lparr>ic_lat_e7 = mi_lat_e7 it, ic_lon_e7 = mi_lon_e7 it, ic_relative_alt_m = mi_relative_alt_m it\<rparr>"

definition waypoint_for :: "CompilerEnv \<Rightarrow> CoordinateFrame \<Rightarrow> MavlinkCommonPlanOptions \<Rightarrow> f64 option \<times> Position \<Rightarrow> MavlinkCommonMissionItem \<Rightarrow> bool" where
  "waypoint_for env frame opts rp it = (convert_position env frame opts (snd rp) = Inr (coord_of it) \<and> mi_command it = NavWaypoint \<and>
     mi_params it = [Some f64_zero, fst rp, Some f64_zero, None])"

definition orbit_count :: "f64 \<Rightarrow> u16 \<Rightarrow> nat" where
  "orbit_count n segments = as_usize (f64_ceil (f64_mul n (f64_of_nat (unat segments))))"

definition loiters_for :: "f64 \<Rightarrow> MavlinkCommonMissionItem list \<Rightarrow> bool" where
  "loiters_for d out = (out = [] \<or> (\<exists>it. out = [it] \<and> mi_command it = NavLoiterTime \<and> hd (mi_params it) = Some d))"

text \<open>The items of one entry.\<close>

definition item_rel :: "CompilerEnv \<Rightarrow> CoordinateFrame \<Rightarrow> MavlinkCommonPlanOptions \<Rightarrow> MissionCommandEntry \<Rightarrow> MavlinkCommonMissionItem list \<Rightarrow> bool" where
  "item_rel env frame opts e out =
     ((\<forall>it\<in>set out. mi_command_id it = command_id e \<and> mi_source_task_id it = source_task_id e \<and> mi_source_route_id it = source_route_id e) \<and>
      (case command e of
         GoTo p \<Rightarrow> list_all2 (waypoint_for env frame opts) [(Some f64_zero, p)] out
       | FollowRoute _ wps \<Rightarrow> list_all2 (waypoint_for env frame opts) (map (\<lambda>wp. (acceptance_radius_m wp, wp_position wp)) wps) out
       | Hold d \<Rightarrow> loiters_for d out
       | LoiterTime d \<Rightarrow> loiters_for d out
       | Orbit c radius n dir \<Rightarrow> (case orbit_strategy opts of
             OrbitUnsupported \<Rightarrow> out = []
           | WaypointApproximation segments \<Rightarrow>
               list_all2 (\<lambda>i it. orbit_coordinate env frame opts c radius dir segments i = Inr (coord_of it) \<and> mi_command it = NavWaypoint)
                 [0..<orbit_count n segments] out)
       | _ \<Rightarrow> out = []))"

text \<open>The command sent for one entry before the upload or after the mission; \<open>started\<close> says that an item precedes it.\<close>

definition lifecycle_of :: "MissionCommand \<Rightarrow> (MavlinkCommonCommandName \<times> f64 option list) option" where
  "lifecycle_of c = (case c of
     Land \<Rightarrow> Some (NavLand, [Some f64_zero, Some f64_zero, Some f64_zero, None, Some f64_zero, Some f64_zero, Some f64_zero])
   | ReturnToLaunch \<Rightarrow> Some (NavReturnToLaunch, Some f64_zero # zeros)
   | Abort \<Rightarrow> Some (NavReturnToLaunch, Some f64_zero # zeros)
   | _ \<Rightarrow> None)"

definition immediate_of :: "MissionCommand \<Rightarrow> (MavlinkCommonCommandName \<times> f64 option list) option" where
  "immediate_of c = (case c of
     Arm \<Rightarrow> Some (ComponentArmDisarm, Some (f64_lit 1) # zeros)
   | Disarm \<Rightarrow> Some (ComponentArmDisarm, Some f64_zero # zeros)
   | Takeoff alt \<Rightarrow> Some (NavTakeoff, [Some f64_zero, Some f64_zero, Some f64_zero, None, Some f64_zero, Some f64_zero, Some alt])
   | _ \<Rightarrow> None)"

definition sent :: "MissionCommandEntry \<Rightarrow> MavlinkPlanPhase \<Rightarrow> (MavlinkCommonCommandName \<times> f64 option list) option \<Rightarrow> MavlinkCommonCommand list" where
  "sent e ph c = (case c of None \<Rightarrow> [] | Some (n, ps) \<Rightarrow> [\<lparr>mc_command_id = command_id e, mc_command = n, mc_phase = ph, mc_params = ps\<rparr>])"

definition prelude_out :: "bool \<Rightarrow> MissionCommandEntry \<Rightarrow> MavlinkCommonCommand list" where
  "prelude_out started e = sent e CommandPrelude (immediate_of (command e)) @
     (if started then [] else sent e CommandPrelude (lifecycle_of (command e)))"

definition postlude_out :: "bool \<Rightarrow> MissionCommandEntry \<Rightarrow> MavlinkCommonCommand list" where
  "postlude_out started e = (if started then sent e CommandPostlude (lifecycle_of (command e)) else [])"

definition rejected_out :: "MavlinkCommonPlanOptions \<Rightarrow> MissionCommandEntry \<Rightarrow> MavlinkCommonMissionItem list \<Rightarrow> string list" where
  "rejected_out opts e out = (if (case command e of Pause \<Rightarrow> True | Resume \<Rightarrow> True | Hold _ \<Rightarrow> out = [] | LoiterTime _ \<Rightarrow> out = []
     | Orbit _ _ _ _ \<Rightarrow> orbit_strategy opts = OrbitUnsupported | _ \<Rightarrow> False) then [command_id e] else [])"

definition extends :: "Compiler \<Rightarrow> MavlinkCommonCommand list \<Rightarrow> MavlinkCommonCommand list \<Rightarrow> MavlinkCommonMissionItem list \<Rightarrow> string list \<Rightarrow> Compiler \<Rightarrow> bool" where
  "extends s pre post out rej s' =
     (cp_command_prelude s' = cp_command_prelude s @ pre \<and> cp_command_postlude s' = cp_command_postlude s @ post \<and>
      cp_mission_items s' = cp_mission_items s @ out \<and>
      map uf_command_id (cp_unsupported_features s') = map uf_command_id (cp_unsupported_features s) @ rej)"

lemma extends_refl: "extends s [] [] [] [] s"
  by (simp add: extends_def)

lemma extends_trans: "extends s a b c d s1 \<Longrightarrow> extends s1 a' b' c' d' s2 \<Longrightarrow> extends s (a @ a') (b @ b') (c @ c') (d @ d') s2"
  by (simp add: extends_def)

definition from_entry :: "MissionCommandEntry \<Rightarrow> MavlinkCommonMissionItem \<Rightarrow> bool" where
  "from_entry e it = (mi_command_id it = command_id e \<and> mi_source_task_id it = source_task_id e \<and> mi_source_route_id it = source_route_id e)"

lemma push_mission_item_out:
  assumes "push_mission_item e c coord params s = Inr s'"
  obtains it where "extends s [] [] [it] [] s'" "coord_of it = coord" "mi_command it = c" "mi_params it = params" "from_entry e it"
  using assms by (auto simp: push_mission_item_def extends_def coord_of_def from_entry_def Let_def split: if_splits)

lemma try_fold_out:
  assumes step: "\<And>x s s'. x \<in> set xs \<Longrightarrow> f x s = Inr s' \<Longrightarrow> \<exists>it. extends s [] [] [it] [] s' \<and> R x it"
    and "try_fold f xs s = Inr s'"
  shows "\<exists>out. extends s [] [] out [] s' \<and> list_all2 R xs out"
  using assms
proof (induction xs arbitrary: s)
  case Nil
  then show ?case using extends_refl by auto
next
  case (Cons x xs)
  obtain s1 where s1: "f x s = Inr s1" "try_fold f xs s1 = Inr s'" using Cons.prems(2) by (auto split: sum.splits)
  obtain it where it: "extends s [] [] [it] [] s1" "R x it" using Cons.prems(1) [OF _ s1(1)] by auto
  obtain out where out: "extends s1 [] [] out [] s'" "list_all2 R xs out" using Cons.IH [OF _ s1(2)] Cons.prems(1) by auto
  show ?case using extends_trans [OF it(1) out(1)] it(2) out(2) by auto
qed

lemma hold_out:
  assumes "compile_hold_or_unsupported env frame opts e d r s = Inr s'"
  obtains it where "extends s [] [] [it] [] s'" "mi_command it = NavLoiterTime" "hd (mi_params it) = Some d" "from_entry e it"
    | "extends s [] [] [] [command_id e] s'"
proof (cases "cp_last_anchor s = None \<and> default_hold_position opts = None")
  case True
  then have "extends s [] [] [] [command_id e] s'"
    using assms by (auto simp: compile_hold_or_unsupported_def Let_def push_unsupported_def extends_def)
  then show ?thesis using that(2) by blast
next
  case False
  then obtain coord where "push_mission_item e NavLoiterTime coord [Some d, Some f64_zero, Some f64_zero, Some f64_zero] s = Inr s'"
    using assms by (auto simp: compile_hold_or_unsupported_def Let_def split: option.splits sum.splits)
  then show ?thesis by (rule push_mission_item_out) (use that(1) in auto)
qed

lemma waypoint_out:
  assumes "push_waypoint env frame opts e r p s = Inr s'"
  shows "\<exists>it. extends s [] [] [it] [] s' \<and> waypoint_for env frame opts (r, p) it \<and> from_entry e it"
proof -
  obtain coord where c: "convert_position env frame opts p = Inr coord"
      "push_mission_item e NavWaypoint coord [Some f64_zero, r, Some f64_zero, None] s = Inr s'"
    using assms by (auto simp: push_waypoint_def split: sum.splits)
  show ?thesis by (rule push_mission_item_out [OF c(2)]) (auto simp: waypoint_for_def c(1))
qed

lemma orbit_out:
  assumes "compile_orbit env frame opts e c radius n dir s = Inr s'"
  shows "\<exists>out rej. extends s [] [] out rej s' \<and> rej = (if orbit_strategy opts = OrbitUnsupported then [command_id e] else []) \<and>
    (\<forall>it\<in>set out. from_entry e it) \<and>
    (case orbit_strategy opts of OrbitUnsupported \<Rightarrow> out = []
     | WaypointApproximation segments \<Rightarrow>
         list_all2 (\<lambda>i it. orbit_coordinate env frame opts c radius dir segments i = Inr (coord_of it) \<and> mi_command it = NavWaypoint)
           [0..<orbit_count n segments] out)"
proof (cases "orbit_strategy opts")
  case OrbitUnsupported
  then show ?thesis using assms by (auto simp: compile_orbit_def push_unsupported_def extends_def)
next
  case (WaypointApproximation segments)
  let ?f = "\<lambda>index s'. case orbit_coordinate env frame opts c radius dir segments index of Inl er \<Rightarrow> Inl er
    | Inr coord \<Rightarrow> push_mission_item e NavWaypoint coord [Some f64_zero, Some f64_zero, Some f64_zero, None] s'"
  let ?R = "\<lambda>i it. (orbit_coordinate env frame opts c radius dir segments i = Inr (coord_of it) \<and> mi_command it = NavWaypoint) \<and> from_entry e it"
  have f: "try_fold ?f [0..<orbit_count n segments] s = Inr s'"
    using assms WaypointApproximation by (simp add: compile_orbit_def Let_def orbit_count_def split: if_splits)
  have "\<exists>out. extends s [] [] out [] s' \<and> list_all2 ?R [0..<orbit_count n segments] out"
  proof (rule try_fold_out [OF _ f])
    fix x t t' assume "?f x t = Inr t'"
    then obtain coord where "orbit_coordinate env frame opts c radius dir segments x = Inr coord"
        "push_mission_item e NavWaypoint coord [Some f64_zero, Some f64_zero, Some f64_zero, None] t = Inr t'"
      by (auto split: sum.splits)
    then show "\<exists>it. extends t [] [] [it] [] t' \<and> ?R x it" by (auto elim!: push_mission_item_out)
  qed
  then obtain out where out: "extends s [] [] out [] s'" "list_all2 ?R [0..<orbit_count n segments] out" by blast
  have "\<forall>it\<in>set out. from_entry e it" using out(2) by (auto simp: list_all2_conv_all_nth in_set_conv_nth)
  then show ?thesis using out WaypointApproximation by (auto elim: list_all2_mono)
qed

lemma item_rel_from:
  "item_rel env frame opts e out \<longleftrightarrow> (\<forall>it\<in>set out. from_entry e it) \<and>
      (case command e of
         GoTo p \<Rightarrow> list_all2 (waypoint_for env frame opts) [(Some f64_zero, p)] out
       | FollowRoute _ wps \<Rightarrow> list_all2 (waypoint_for env frame opts) (map (\<lambda>wp. (acceptance_radius_m wp, wp_position wp)) wps) out
       | Hold d \<Rightarrow> loiters_for d out
       | LoiterTime d \<Rightarrow> loiters_for d out
       | Orbit c radius n dir \<Rightarrow> (case orbit_strategy opts of
             OrbitUnsupported \<Rightarrow> out = []
           | WaypointApproximation segments \<Rightarrow>
               list_all2 (\<lambda>i it. orbit_coordinate env frame opts c radius dir segments i = Inr (coord_of it) \<and> mi_command it = NavWaypoint)
                 [0..<orbit_count n segments] out)
       | _ \<Rightarrow> out = [])"
  by (simp add: item_rel_def from_entry_def)

lemma push_command_out:
  "extends s (if ph = CommandPrelude then sent e ph (Some (c, ps)) else []) (if ph = CommandPrelude then [] else sent e ph (Some (c, ps))) [] []
     (push_command e c ps ph s)"
  by (simp add: push_command_def extends_def sent_def Let_def)

lemma push_unsupported_out: "extends s [] [] [] [command_id e] (push_unsupported e r w s)"
  by (simp add: push_unsupported_def extends_def)

definition entry_effect ::
    "CompilerEnv \<Rightarrow> CoordinateFrame \<Rightarrow> MavlinkCommonPlanOptions \<Rightarrow> MissionCommandEntry \<Rightarrow> MavlinkCommonMissionItem list \<Rightarrow> Compiler \<Rightarrow> Compiler \<Rightarrow> bool" where
  "entry_effect env frame opts e out s s' =
     (extends s (prelude_out (cp_mission_items s \<noteq> []) e) (postlude_out (cp_mission_items s \<noteq> []) e) out (rejected_out opts e out) s' \<and>
      item_rel env frame opts e out)"

lemma command_entry_effect:
  assumes "immediate_of (command e) = Some (c, ps) \<and> lifecycle_of (command e) = None \<and> s' = push_command e c ps CommandPrelude s \<or>
    immediate_of (command e) = None \<and> lifecycle_of (command e) = Some (c, ps) \<and> s' = push_lifecycle_command e c ps s"
  shows "entry_effect env frame opts e [] s s'"
proof -
  have "item_rel env frame opts e []" "rejected_out opts e [] = []"
    using assms by (auto simp: item_rel_def rejected_out_def immediate_of_def lifecycle_of_def split: MissionCommand.splits)
  moreover have "extends s (prelude_out (cp_mission_items s \<noteq> []) e) (postlude_out (cp_mission_items s \<noteq> []) e) [] [] s'"
    using assms push_command_out [of s CommandPrelude e c ps] push_command_out [of s CommandPostlude e c ps]
    by (auto simp: prelude_out_def postlude_out_def push_lifecycle_command_def sent_def)
  ultimately show ?thesis by (simp add: entry_effect_def)
qed

lemma item_entry_effect:
  assumes "immediate_of (command e) = None" "lifecycle_of (command e) = None" "extends s [] [] out (rejected_out opts e out) s'"
    "item_rel env frame opts e out"
  shows "entry_effect env frame opts e out s s'"
  using assms by (simp add: entry_effect_def prelude_out_def postlude_out_def sent_def)

lemma hold_entry_effect:
  assumes "command e = Hold d \<or> command e = LoiterTime d" "compile_hold_or_unsupported env frame opts e d r s = Inr s'"
  shows "\<exists>out. entry_effect env frame opts e out s s'"
  using assms(2)
proof (cases rule: hold_out)
  case (1 it)
  then show ?thesis using assms(1)
    by (intro exI [of _ "[it]"] item_entry_effect) (auto simp: item_rel_from rejected_out_def immediate_of_def lifecycle_of_def loiters_for_def)
next
  case 2
  then show ?thesis using assms(1)
    by (intro exI [of _ "[]"] item_entry_effect) (auto simp: item_rel_from rejected_out_def immediate_of_def lifecycle_of_def loiters_for_def)
qed

lemma compile_entry_effect:
  assumes "compile_entry env frame opts e s = Inr s'"
  shows "\<exists>out. entry_effect env frame opts e out s s'"
proof (cases "command e")
  case (GoTo p)
  then obtain it where "extends s [] [] [it] [] s'" "waypoint_for env frame opts (Some f64_zero, p) it" "from_entry e it"
    using assms waypoint_out by (fastforce simp: compile_entry_def)
  then show ?thesis using GoTo
    by (intro exI [of _ "[it]"] item_entry_effect) (simp_all add: item_rel_from rejected_out_def immediate_of_def lifecycle_of_def)
next
  case (FollowRoute rid wps)
  let ?R = "\<lambda>wp it. waypoint_for env frame opts (acceptance_radius_m wp, wp_position wp) it \<and> from_entry e it"
  have "\<exists>out. extends s [] [] out [] s' \<and> list_all2 ?R wps out"
    by (rule try_fold_out [where f = "\<lambda>wp. push_waypoint env frame opts e (acceptance_radius_m wp) (wp_position wp)"])
      (use assms FollowRoute waypoint_out in \<open>auto simp: compile_entry_def\<close>)
  then obtain out where out: "extends s [] [] out [] s'" "list_all2 ?R wps out" by blast
  have "\<forall>it\<in>set out. from_entry e it" using out(2) by (auto simp: list_all2_conv_all_nth in_set_conv_nth)
  moreover have "list_all2 (waypoint_for env frame opts) (map (\<lambda>wp. (acceptance_radius_m wp, wp_position wp)) wps) out"
    using out(2) by (auto simp: list_all2_map1 elim: list_all2_mono)
  ultimately show ?thesis using FollowRoute out(1)
    by (intro exI [of _ out] item_entry_effect) (simp_all add: item_rel_from rejected_out_def immediate_of_def lifecycle_of_def)
next
  case (Hold d)
  then show ?thesis using assms hold_entry_effect by (simp add: compile_entry_def)
next
  case (LoiterTime d)
  then show ?thesis using assms hold_entry_effect by (simp add: compile_entry_def)
next
  case (Orbit c radius n dir)
  then have "compile_orbit env frame opts e c radius n dir s = Inr s'" using assms by (simp add: compile_entry_def)
  then obtain out rej where o: "extends s [] [] out rej s'" "rej = (if orbit_strategy opts = OrbitUnsupported then [command_id e] else [])"
      "\<forall>it\<in>set out. from_entry e it"
      "case orbit_strategy opts of OrbitUnsupported \<Rightarrow> out = []
       | WaypointApproximation segments \<Rightarrow>
           list_all2 (\<lambda>i it. orbit_coordinate env frame opts c radius dir segments i = Inr (coord_of it) \<and> mi_command it = NavWaypoint)
             [0..<orbit_count n segments] out"
    using orbit_out by blast
  then have "rejected_out opts e out = rej" using Orbit by (simp add: rejected_out_def)
  moreover have "item_rel env frame opts e out" using Orbit o(3,4) by (simp add: item_rel_from)
  ultimately show ?thesis using Orbit o(1) by (intro exI [of _ out] item_entry_effect) (simp_all add: immediate_of_def lifecycle_of_def)
next
  case Pause
  then show ?thesis using assms push_unsupported_out
    by (intro exI [of _ "[]"] item_entry_effect) (auto simp: compile_entry_def item_rel_from rejected_out_def immediate_of_def lifecycle_of_def)
next
  case Resume
  then show ?thesis using assms push_unsupported_out
    by (intro exI [of _ "[]"] item_entry_effect) (auto simp: compile_entry_def item_rel_from rejected_out_def immediate_of_def lifecycle_of_def)
qed (use assms in \<open>auto simp: compile_entry_def immediate_of_def lifecycle_of_def intro!: exI [of _ "[]"] command_entry_effect\<close>)

section \<open>The whole plan\<close>

text \<open>The commands before and after the mission for entries paired with their items.\<close>

fun plan_prelude :: "bool \<Rightarrow> (MissionCommandEntry \<times> MavlinkCommonMissionItem list) list \<Rightarrow> MavlinkCommonCommand list" where
  "plan_prelude started [] = []"
| "plan_prelude started ((e, out) # r) = prelude_out started e @ plan_prelude (started \<or> out \<noteq> []) r"

fun plan_postlude :: "bool \<Rightarrow> (MissionCommandEntry \<times> MavlinkCommonMissionItem list) list \<Rightarrow> MavlinkCommonCommand list" where
  "plan_postlude started [] = []"
| "plan_postlude started ((e, out) # r) = postlude_out started e @ plan_postlude (started \<or> out \<noteq> []) r"

lemma compile_entries_effect:
  assumes "try_fold (compile_entry env frame opts) es s = Inr s'"
  shows "\<exists>outs. list_all2 (item_rel env frame opts) es outs \<and>
    extends s (plan_prelude (cp_mission_items s \<noteq> []) (zip es outs)) (plan_postlude (cp_mission_items s \<noteq> []) (zip es outs)) (concat outs)
      (concat (map2 (rejected_out opts) es outs)) s'"
  using assms
proof (induction es arbitrary: s)
  case Nil
  then show ?case using extends_refl by (intro exI [of _ "[]"]) simp
next
  case (Cons e es)
  obtain s1 where s1: "compile_entry env frame opts e s = Inr s1" "try_fold (compile_entry env frame opts) es s1 = Inr s'"
    using Cons.prems by (auto split: sum.splits)
  obtain out where out: "entry_effect env frame opts e out s s1" using compile_entry_effect [OF s1(1)] by blast
  then have st: "(cp_mission_items s1 \<noteq> []) = (cp_mission_items s \<noteq> [] \<or> out \<noteq> [])" by (auto simp: entry_effect_def extends_def)
  obtain outs where outs: "list_all2 (item_rel env frame opts) es outs"
      "extends s1 (plan_prelude (cp_mission_items s1 \<noteq> []) (zip es outs)) (plan_postlude (cp_mission_items s1 \<noteq> []) (zip es outs)) (concat outs)
        (concat (map2 (rejected_out opts) es outs)) s'"
    using Cons.IH [OF s1(2)] by blast
  show ?case using extends_trans [OF _ outs(2) [unfolded st]] out outs(1)
    by (intro exI [of _ "out # outs"]) (simp add: entry_effect_def)
qed

lemma compile_fence_enable_iff:
  "compile_fence_items fp pr = Inr (items, en) \<Longrightarrow> en = (if enable_fence fp then Some fence_enable_command else None)"
  by (auto simp: compile_fence_items_def split: sum.splits)

lemma rejected_ids: "list_all2 R es outs \<Longrightarrow> x \<in> set (concat (map2 (rejected_out opts) es outs)) \<Longrightarrow> \<exists>e\<in>set es. x = command_id e"
  by (induction rule: list_all2_induct) (auto simp: rejected_out_def split: if_splits)

text \<open>(C18) What the compiler makes of a mission. The items are the items of the entries one after the other: one waypoint per
  position of a route, with the converted coordinate and the acceptance radius, the points of an approximated orbit
  in order, one loiter item per hold. Arm, disarm and takeoff are sent before the upload, in order; land, return and abort
  after the mission when an item precedes them and before it otherwise. What is recorded as unsupported are exactly the
  pauses, the resumes, the orbits without a strategy and the holds that got no item.\<close>

theorem compiled_mission_faithful:
  assumes "compile_mavlink_common_plan env plan opts = Inr p"
  shows "\<exists>outs. list_all2 (item_rel env (coordinate_frame plan) opts) (commands plan) outs \<and>
    mission_items p = concat outs \<and>
    command_prelude p = (case fence_plan opts of Some fp \<Rightarrow> if enable_fence fp then [fence_enable_command] else [] | None \<Rightarrow> []) @
      plan_prelude False (zip (commands plan) outs) \<and>
    command_postlude p = plan_postlude False (zip (commands plan) outs) \<and>
    map uf_command_id (unsupported_features p) = concat (map2 (rejected_out opts) (commands plan) outs)"
proof -
  obtain s fence summary hash en where st: "try_fold (compile_entry env (coordinate_frame plan) opts) (commands plan) compiler_new = Inr s"
      and fp: "(fence_plan opts = None \<and> en = None \<and> fence = None) \<or>
       (\<exists>fp items. fence_plan opts = Some fp \<and> fence = Some items \<and> compile_fence_items fp (profile (capability_profile opts)) = Inr (items, en))"
      and p: "p = judge opts (assemble env plan opts fence summary hash (with_enable en s))"
    using compile_stages [OF assms] unfolding with_enable_def by metis
  have "(case en of None \<Rightarrow> [] | Some c \<Rightarrow> [c]) = (case fence_plan opts of Some fp \<Rightarrow> if enable_fence fp then [fence_enable_command] else [] | None \<Rightarrow> [])"
    using fp compile_fence_enable_iff by fastforce
  then show ?thesis using compile_entries_effect [OF st] unfolding p
    by (auto simp: compiled_fields extends_def compiler_new_def)
qed

section \<open>Accuracy of coordinates\<close>

lemma scaled_magnitude:
  assumes "0 \<le> m" "m \<le> 180"
  shows "\<bar>of_int \<lfloor>round_mag (m * 10000000) + 1 / 2\<rfloor> - m * 10000000\<bar> \<le> 1 / 2 + 1 / 8388608"
proof -
  have "\<bar>round_mag (m * 10000000) - m * 10000000\<bar> \<le> 1 / 8388608"
  proof (cases "m = 0")
    case True
    then show ?thesis by (simp add: round_mag_def)
  next
    case False
    have "(2 :: rat) powi 31 = 2147483648" "(2 :: rat) powi (31 - 54) = 1 / 8388608" by (simp_all add: power_int_def power_one_over)
    then show ?thesis using round_mag_error [of "m * 10000000" 31] assms False by simp
  qed
  then show ?thesis using round_away_near [of "round_mag (m * 10000000)"] unfolding abs_le_iff by linarith
qed

text \<open>A finite latitude or longitude in range always converts, to an integer of at most 1,800,000,000 in magnitude, and
  the integer differs from ten million times the coordinate by at most one half and the rounding error of one
  multiplication.\<close>

theorem scaled_coordinate_accurate:
  assumes "is_finite v" "0 \<le> mag v" "mag v \<le> 180"
  shows "\<exists>k. scaled_coordinate v label = Inr k \<and> \<bar>sint k\<bar> \<le> 1800000000 \<and> \<bar>of_int (sint k) - val v * 10000000\<bar> \<le> 1 / 2 + 1 / 8388608"
proof -
  obtain s m where v: "v = Fin s m" using assms(1) by (cases v) (auto simp: is_finite_def)
  let ?r = "round_mag (m * 10000000)"
  define k where "k = \<lfloor>?r + 1 / 2\<rfloor>"
  have m: "0 \<le> m" "m \<le> 180" using assms v by auto
  have near: "\<bar>of_int k - m * 10000000\<bar> \<le> 1 / 2 + 1 / 8388608" unfolding k_def by (rule scaled_magnitude [OF m])
  have k: "0 \<le> k" using round_mag_nonneg [of "m * 10000000"] m by (simp add: k_def)
  have "(of_int k :: rat) < of_int 1800000001" using near m(2) unfolding abs_le_iff of_int_numeral by linarith
  then have k2: "k \<le> 1800000000" unfolding of_int_less_iff by linarith
  have "?r < 2 ^ 1024"
  proof -
    have "?r < of_int k + 1" unfolding k_def by linarith
    also have "\<dots> = of_int (k + 1)" by simp
    also have "\<dots> \<le> of_int (2 ^ 31)" unfolding of_int_le_iff using k2 by simp
    also have "\<dots> \<le> (2 :: rat) ^ 1024" unfolding of_int_power of_int_numeral by (rule power_increasing) auto
    finally show ?thesis .
  qed
  then have scaled: "f64_round_away (f64_mul v (f64_lit 10000000)) = Fin s (of_int k)"
    by (simp add: v f64_round_mag k_def)
  let ?v = "if s then - k else k"
  have range: "- (2 ^ 31) \<le> ?v" "?v < 2 ^ 31" "\<bar>?v\<bar> \<le> 1800000000" using k k2 by auto
  have "scaled_coordinate v label = Inr (as_i32 (Fin s (of_int k)))"
    using assms(1) k k2 unfolding scaled_coordinate_def scaled Let_def ensure_finite_def
    by (auto simp: and_then_def f64_lt_def is_nan_def)
  moreover have "sint (as_i32 (Fin s (of_int k))) = ?v" by (rule as_i32_integer [OF range(1,2)])
  moreover have "\<bar>of_int ?v - val v * 10000000\<bar> \<le> 1 / 2 + 1 / 8388608"
    using near by (cases s) (simp_all add: v val_def abs_minus_commute)
  ultimately show ?thesis using range(3) by (intro exI [of _ "as_i32 (Fin s (of_int k))"]) simp
qed

theorem scaled_coordinate_accurate_witness:
  "\<exists>k. scaled_coordinate (f64_lit (95 / 2)) ''latitude'' = Inr k \<and> \<bar>of_int (sint k) - 475000000\<bar> \<le> (1 / 2 + 1 / 8388608 :: rat)"
  using scaled_coordinate_accurate [of "f64_lit (95 / 2)" "''latitude''"] by (auto simp: is_finite_def val_def)

section \<open>A mission\<close>

definition plain_env :: CompilerEnv where
  "plain_env = \<lparr>env_cos = (\<lambda>x. f64_lit 1), env_sin = (\<lambda>x. f64_zero), show_f64 = (\<lambda>x. []), show_f32 = (\<lambda>x. []),
     plan_to_vec = (\<lambda>p. Inr []), sha256 = (\<lambda>bs. [])\<rparr>"

definition geo_position :: "rat \<Rightarrow> rat \<Rightarrow> Position" where
  "geo_position lat lon = Geo \<lparr>lat_deg = f64_lit lat, lon_deg = f64_lit lon, alt_m = f64_lit 10\<rparr>"

definition survey_mission :: MissionCommandPlan where
  "survey_mission = (sample_plan [Arm, Takeoff (f64_lit 10), GoTo (geo_position (95 / 2) 8), Land, Disarm])\<lparr>coordinate_frame := Wgs84\<rparr>"

lemma survey_commands:
  "commands survey_mission = map (\<lambda>(i, c). \<lparr>command_id = i, command = c, source_task_id = None, source_route_id = None, source_agent_id = None\<rparr>)
     [(''0'', Arm), (''1'', Takeoff (f64_lit 10)), (''2'', GoTo (geo_position (95 / 2) 8)), (''3'', Land), (''4'', Disarm)]"
  by code_simp

lemma survey_valid: "validate survey_mission = Inr ()"
  by code_simp

lemma survey_scaled:
  "scaled_coordinate (f64_lit (95 / 2)) ''latitude'' = Inr 475000000" "scaled_coordinate (f64_lit 8) ''longitude'' = Inr 80000000"
proof -
  have "f64_mul (f64_lit (95 / 2)) (f64_lit 10000000) = f64_lit 475000000" "f64_mul (f64_lit 8) (f64_lit 10000000) = f64_lit 80000000" by simp_all
  note m = this
  show "scaled_coordinate (f64_lit (95 / 2)) ''latitude'' = Inr 475000000" unfolding scaled_coordinate_def m by code_simp
  show "scaled_coordinate (f64_lit 8) ''longitude'' = Inr 80000000" unfolding scaled_coordinate_def m by code_simp
qed

lemma survey_altitude: "relative_altitude (f64_lit 10) = Inr (f64_lit 10)"
  by code_simp

lemma survey_converts:
  "convert_position plain_env Wgs84 default_plan_options (geo_position (95 / 2) 8) =
   Inr \<lparr>ic_lat_e7 = 475000000, ic_lon_e7 = 80000000, ic_relative_alt_m = f64_lit 10\<rparr>"
  by (simp add: convert_position_def geo_position_def int_coordinate_def survey_scaled survey_altitude coordinate_error_def)

lemma survey_compiles: "\<exists>p. compile_mavlink_common_plan plain_env survey_mission default_plan_options = Inr p"
proof -
  have "coordinate_frame survey_mission = Wgs84" by (simp add: survey_mission_def)
  then have "\<exists>s. try_fold (compile_entry plain_env (coordinate_frame survey_mission) default_plan_options) (commands survey_mission) compiler_new = Inr s"
    unfolding survey_commands
    by (simp add: compile_entry_def push_waypoint_def survey_converts push_mission_item_def push_command_def push_lifecycle_command_def compiler_new_def Let_def)
  then show ?thesis
    by (auto simp: compile_mavlink_common_plan_def survey_valid options_validate_def default_plan_options_def and_then_def finish_def plan_hash_def plain_env_def)
qed

text \<open>The mission arms, takes off, flies to a point, lands and disarms. Its landing is sent after the mission, its disarm
  command before it, between takeoff and upload.\<close>

theorem compiled_mission_faithful_witness:
  "\<exists>p. compile_mavlink_common_plan plain_env survey_mission default_plan_options = Inr p \<and> length (mission_items p) = 1 \<and>
     map mc_command_id (command_prelude p) = [''0'', ''1'', ''4''] \<and> map mc_command_id (command_postlude p) = [''3'']"
proof -
  obtain p where p: "compile_mavlink_common_plan plain_env survey_mission default_plan_options = Inr p" using survey_compiles by blast
  from compiled_mission_faithful [OF p] obtain outs where
    o: "list_all2 (item_rel plain_env (coordinate_frame survey_mission) default_plan_options) (commands survey_mission) outs"
    and f: "mission_items p = concat outs" "command_postlude p = plan_postlude False (zip (commands survey_mission) outs)"
      "command_prelude p = (case fence_plan default_plan_options of Some fp \<Rightarrow> if enable_fence fp then [fence_enable_command] else [] | None \<Rightarrow> []) @
        plan_prelude False (zip (commands survey_mission) outs)" by blast
  obtain it where "outs = [[], [], [it], [], []]"
    using o unfolding survey_commands by (auto simp: list_all2_Cons1 item_rel_def)
  then show ?thesis using p f unfolding survey_commands
    by (simp add: default_plan_options_def prelude_out_def postlude_out_def immediate_of_def lifecycle_of_def sent_def)
qed

theorem compiled_verdict_exact_witness:
  "\<exists>p. compile_mavlink_common_plan plain_env survey_mission default_plan_options = Inr p \<and>
     passed (validation_result p) = (unsupported_features p = []) \<and> (\<exists>r. compatibility p = Some r \<and> \<not> hardware_facing_allowed r)"
proof -
  obtain p where p: "compile_mavlink_common_plan plain_env survey_mission default_plan_options = Inr p" using survey_compiles by blast
  have "param_snapshot default_plan_options = None" "capability_profile default_plan_options = MavlinkCommonGeneric"
    by (simp_all add: default_plan_options_def)
  then show ?thesis using compiled_verdict_exact [OF p] p by auto
qed

theorem compiled_plan_uploadable_witness:
  "\<exists>p. compile_mavlink_common_plan plain_env survey_mission default_plan_options = Inr p \<and> length (mission_items p) \<le> 65536"
  using survey_compiles compiled_plan_uploadable by blast

end
