(* ===== verification/MavlinkExecutor.thy ===== *)
theory MavlinkExecutor
  imports MavlinkPlan
begin

text \<open>
  \<open>swarm-comms/src/mavlink_executor.rs\<close>: the execution of a compiled plan, phase by phase, against a provider of acknowledgements, with
  retries after timeouts; the artifact that records an execution; and the configuration of a flight controller. A provider is a record of
  operations on its own state, for the trait \<open>AckProvider\<close>. The retry counters are \<open>u32\<close> and wrap as they do in a release build.

  The properties: the executor sends the steps of the plan in their order, stops at the first one that fails, and succeeds exactly if none
  does; a plan with a fence or a violated contract is not sent at all; every answer of the provider is accounted for.
\<close>

section \<open>Reports\<close>

datatype MavlinkExecutionStepResult =
  Accepted
| Rejected string
| StepTimeout u64
| TransportFailure string
| Skipped string

fun is_retryable :: "MavlinkExecutionStepResult \<Rightarrow> bool" where
  "is_retryable (StepTimeout ms) = True"
| "is_retryable _ = False"

fun is_terminal_failure :: "MavlinkExecutionStepResult \<Rightarrow> bool" where
  "is_terminal_failure (Rejected why) = True"
| "is_terminal_failure (StepTimeout ms) = True"
| "is_terminal_failure (TransportFailure why) = True"
| "is_terminal_failure _ = False"

datatype MavlinkExecutionOutcome =
  OutcomeCompleted
| OutcomeRetried u32
| OutcomeAborted nat string
| OutcomeFailed nat string

fun outcome_is_success :: "MavlinkExecutionOutcome \<Rightarrow> bool" where
  "outcome_is_success OutcomeCompleted = True"
| "outcome_is_success (OutcomeRetried n) = True"
| "outcome_is_success _ = False"

datatype MissionExecuteLifecycleState =
  LifecyclePlanned | LifecycleUploaded | LifecycleStarted | LifecycleCompleted | LifecycleAborted | LifecycleUnsupported

record MavlinkPlanExecutionReport =
  er_plan_id :: string
  er_steps :: "(nat \<times> string \<times> MavlinkExecutionStepResult) list"
  er_overall :: MavlinkExecutionOutcome
  er_lifecycle_state :: MissionExecuteLifecycleState
  er_telemetry_milestones_reached :: "MavlinkTelemetryMilestoneKind list"
  er_retry_count :: u32

datatype MavlinkExecutionEvidenceMode = LocalMockExecutor | ScriptedProfileExecutor | TransportBacked

record MavlinkExecutionArtifact =
  ea_schema_version :: string
  ea_execution_mode :: MavlinkExecutionEvidenceMode
  ea_profile_id :: string
  ea_plan_id :: string
  ea_git_commit :: string
  ea_command :: "string list"
  expected_upload_phase :: bool
  expected_start_phase :: bool
  execution_report :: MavlinkPlanExecutionReport
  ea_caveats :: "string list"

definition MAVLINK_EXECUTION_ARTIFACT_SCHEMA_VERSION :: string where
  "MAVLINK_EXECUTION_ARTIFACT_SCHEMA_VERSION = ''mavlink_execution_artifact.v1''"

fun command_as_str :: "MavlinkCommonCommandName \<Rightarrow> string" where
  "command_as_str ComponentArmDisarm = ''MAV_CMD_COMPONENT_ARM_DISARM''"
| "command_as_str NavTakeoff = ''MAV_CMD_NAV_TAKEOFF''"
| "command_as_str NavLand = ''MAV_CMD_NAV_LAND''"
| "command_as_str NavReturnToLaunch = ''MAV_CMD_NAV_RETURN_TO_LAUNCH''"
| "command_as_str NavWaypoint = ''MAV_CMD_NAV_WAYPOINT''"
| "command_as_str NavLoiterTime = ''MAV_CMD_NAV_LOITER_TIME''"
| "command_as_str MissionStart = ''MAV_CMD_MISSION_START''"
| "command_as_str FenceCircleInclusion = ''MAV_CMD_NAV_FENCE_CIRCLE_INCLUSION''"
| "command_as_str FenceCircleExclusion = ''MAV_CMD_NAV_FENCE_CIRCLE_EXCLUSION''"
| "command_as_str FencePolygonVertexInclusion = ''MAV_CMD_NAV_FENCE_POLYGON_VERTEX_INCLUSION''"
| "command_as_str FencePolygonVertexExclusion = ''MAV_CMD_NAV_FENCE_POLYGON_VERTEX_EXCLUSION''"
| "command_as_str DoFenceEnable = ''MAV_CMD_DO_FENCE_ENABLE''"

definition artifact_new ::
    "MavlinkExecutionEvidenceMode \<Rightarrow> string \<Rightarrow> string \<Rightarrow> string list \<Rightarrow> MavlinkPlanExecutionReport \<Rightarrow> string list \<Rightarrow> MavlinkExecutionArtifact" where
  "artifact_new mode profile_name git_commit cmd r caveats =
     \<lparr>ea_schema_version = MAVLINK_EXECUTION_ARTIFACT_SCHEMA_VERSION, ea_execution_mode = mode, ea_profile_id = profile_name,
      ea_plan_id = er_plan_id r, ea_git_commit = git_commit, ea_command = cmd,
      expected_upload_phase = list_ex (\<lambda>(_, label, _). label = ''mission_upload'') (er_steps r),
      expected_start_phase = list_ex (\<lambda>(_, label, _). label = command_as_str MissionStart) (er_steps r),
      execution_report = r, ea_caveats = caveats\<rparr>"

section \<open>Providers of acknowledgements\<close>

type_synonym 'p ack_call = "'p \<Rightarrow> MavlinkExecutionStepResult \<times> 'p"

record 'p AckProvider =
  ack_prelude_command :: "MavlinkCommonCommand \<Rightarrow> 'p ack_call"
  ack_mission_upload :: "'p ack_call"
  ack_mission_start :: "'p ack_call"
  ack_postlude_command :: "MavlinkCommonCommand \<Rightarrow> 'p ack_call"

definition MockAckProvider :: "unit AckProvider" where
  "MockAckProvider = \<lparr>ack_prelude_command = (\<lambda>c p. (Accepted, p)), ack_mission_upload = (\<lambda>p. (Accepted, p)),
     ack_mission_start = (\<lambda>p. (Accepted, p)), ack_postlude_command = (\<lambda>c p. (Accepted, p))\<rparr>"

fun next_result :: "MavlinkExecutionStepResult list ack_call" where
  "next_result [] = (Accepted, [])"
| "next_result (r # script) = (r, script)"

definition ScriptedAckProvider :: "MavlinkExecutionStepResult list AckProvider" where
  "ScriptedAckProvider = \<lparr>ack_prelude_command = (\<lambda>c. next_result), ack_mission_upload = next_result,
     ack_mission_start = next_result, ack_postlude_command = (\<lambda>c. next_result)\<rparr>"

section \<open>The executor\<close>

text \<open>The loop of \<open>try_with_retry\<close>, with the retries that are left.\<close>

fun retry_loop :: "'p ack_call \<Rightarrow> nat \<Rightarrow> u32 \<Rightarrow> 'p \<Rightarrow> MavlinkExecutionStepResult \<times> u32 \<times> 'p" where
  "retry_loop call 0 retries p = (case call p of (r, p') \<Rightarrow> (r, retries, p'))"
| "retry_loop call (Suc left) retries p =
     (case call p of (r, p') \<Rightarrow> (case r of StepTimeout ms \<Rightarrow> retry_loop call left (retries + 1) p' | _ \<Rightarrow> (r, retries, p')))"

definition try_with_retry :: "'p ack_call \<Rightarrow> u32 \<Rightarrow> 'p \<Rightarrow> MavlinkExecutionStepResult \<times> u32 \<times> 'p" where
  "try_with_retry call budget p = retry_loop call (unat budget) 0 p"

record 'p execution =
  ex_steps :: "(nat \<times> string \<times> MavlinkExecutionStepResult) list"
  ex_retries :: u32
  ex_index :: nat
  ex_ack :: 'p

text \<open>One step of any phase: call the provider, record the result, stop on a failure.\<close>

definition execute_step ::
    "string \<Rightarrow> u32 \<Rightarrow> string \<Rightarrow> (u64 \<Rightarrow> string) \<Rightarrow> 'p ack_call \<Rightarrow> 'p execution \<Rightarrow> MavlinkPlanExecutionReport \<times> 'p + 'p execution" where
  "execute_step plan_id budget label timeout_reason call s =
     (case try_with_retry call budget (ex_ack s) of (result, retries, p) \<Rightarrow>
        let total_retries = ex_retries s + retries; steps = ex_steps s @ [(ex_index s, label, result)];
            stop = (\<lambda>overall. Inl (\<lparr>er_plan_id = plan_id, er_steps = steps, er_overall = overall, er_lifecycle_state = LifecycleAborted,
              er_telemetry_milestones_reached = [], er_retry_count = total_retries\<rparr>, p))
        in case result of
             Rejected reason \<Rightarrow> stop (OutcomeAborted (ex_index s) reason)
           | StepTimeout ms \<Rightarrow> stop (OutcomeAborted (ex_index s) (timeout_reason ms))
           | TransportFailure reason \<Rightarrow> stop (OutcomeFailed (ex_index s) reason)
           | _ \<Rightarrow> Inr \<lparr>ex_steps = steps, ex_retries = total_retries, ex_index = ex_index s + 1, ex_ack = p\<rparr>)"

fun execute_commands ::
    "string \<Rightarrow> u32 \<Rightarrow> (string \<Rightarrow> u64 \<Rightarrow> string) \<Rightarrow> (MavlinkCommonCommand \<Rightarrow> 'p ack_call) \<Rightarrow> MavlinkCommonCommand list \<Rightarrow> 'p execution \<Rightarrow>
     MavlinkPlanExecutionReport \<times> 'p + 'p execution" where
  "execute_commands plan_id budget timeout_reason call [] s = Inr s"
| "execute_commands plan_id budget timeout_reason call (c # cs) s =
     (let label = command_as_str (mc_command c)
      in case execute_step plan_id budget label (timeout_reason label) (call c) s of
           Inl r \<Rightarrow> Inl r | Inr s' \<Rightarrow> execute_commands plan_id budget timeout_reason call cs s')"

definition prelude_timeout :: "string \<Rightarrow> u64 \<Rightarrow> string" where
  "prelude_timeout label ms = ''timeout after '' @ show_nat (unat ms) @ ''ms for '' @ label"

definition postlude_timeout :: "string \<Rightarrow> u64 \<Rightarrow> string" where
  "postlude_timeout label ms = ''postlude timeout after '' @ show_nat (unat ms) @ ''ms for '' @ label"

definition upload_timeout :: "u64 \<Rightarrow> string" where
  "upload_timeout ms = ''upload timeout after '' @ show_nat (unat ms) @ ''ms''"

definition start_timeout :: "u64 \<Rightarrow> string" where
  "start_timeout ms = ''mission start timeout after '' @ show_nat (unat ms) @ ''ms''"

definition geofence_refusal :: string where
  "geofence_refusal = ''unsupported FC config phase: current MAVLink Common generated mission messages do not expose mission_type=MAV_MISSION_TYPE_FENCE; refusing to execute geofence prelude before fence upload support exists''"

text \<open>The four phases, each entered only if the one before it passed.\<close>

definition execute_phases ::
    "'p AckProvider \<Rightarrow> u32 \<Rightarrow> MavlinkCommonPlan \<Rightarrow> 'p execution \<Rightarrow> MavlinkPlanExecutionReport \<times> 'p + 'p execution" where
  "execute_phases ack budget plan s0 =
     (let plan_id = source_mission_id plan
      in case execute_commands plan_id budget prelude_timeout (ack_prelude_command ack) (command_prelude plan) s0 of
           Inl r \<Rightarrow> Inl r
         | Inr s1 \<Rightarrow>
        case (if mission_items plan \<noteq> [] then execute_step plan_id budget ''mission_upload'' upload_timeout (ack_mission_upload ack) s1 else Inr s1) of
           Inl r \<Rightarrow> Inl r
         | Inr s2 \<Rightarrow>
        case (case mission_start plan of
                Some c \<Rightarrow> execute_step plan_id budget (command_as_str (mc_command c)) start_timeout (ack_mission_start ack) s2
              | None \<Rightarrow> Inr s2) of
           Inl r \<Rightarrow> Inl r
         | Inr s3 \<Rightarrow> execute_commands plan_id budget postlude_timeout (ack_postlude_command ack) (command_postlude plan) s3)"

definition execute_all :: "'p AckProvider \<Rightarrow> u32 \<Rightarrow> MavlinkCommonPlan \<Rightarrow> 'p \<Rightarrow> MavlinkPlanExecutionReport \<times> 'p" where
  "execute_all ack budget plan p =
     (case execute_phases ack budget plan \<lparr>ex_steps = [], ex_retries = 0, ex_index = 0, ex_ack = p\<rparr> of
        Inl r \<Rightarrow> r
      | Inr s \<Rightarrow> (\<lparr>er_plan_id = source_mission_id plan, er_steps = ex_steps s,
          er_overall = (if ex_retries s = 0 then OutcomeCompleted else OutcomeRetried (ex_retries s)),
          er_lifecycle_state = LifecycleCompleted, er_telemetry_milestones_reached = [HeartbeatExpected], er_retry_count = ex_retries s\<rparr>, ex_ack s))"

definition execute :: "'p AckProvider \<Rightarrow> u32 \<Rightarrow> MavlinkCommonPlan \<Rightarrow> 'p \<Rightarrow> MavlinkPlanExecutionReport \<times> 'p" where
  "execute ack budget plan p =
     (if (case geofence_prelude plan of Some items \<Rightarrow> items \<noteq> [] | None \<Rightarrow> False)
      then (\<lparr>er_plan_id = source_mission_id plan, er_steps = [(0, ''fc_config_geofence_upload'', Rejected geofence_refusal)],
             er_overall = OutcomeAborted 0 geofence_refusal, er_lifecycle_state = LifecycleAborted,
             er_telemetry_milestones_reached = [], er_retry_count = 0\<rparr>, p)
      else case fc_contract_result plan of
        Some contract \<Rightarrow>
          if blocks_mission_start contract
          then (\<lparr>er_plan_id = source_mission_id plan, er_steps = [], er_overall = OutcomeAborted 0 (cv_summary contract),
                 er_lifecycle_state = LifecycleAborted, er_telemetry_milestones_reached = [], er_retry_count = 0\<rparr>, p)
          else execute_all ack budget plan p
      | None \<Rightarrow> execute_all ack budget plan p)"

section \<open>Configuration of the flight controller\<close>

record GeofenceUploadOk =
  items_uploaded :: nat
  fence_enable_sent :: bool

record FcParamWritePlan =
  writes :: "(FcParamId \<times> FcParamValue) list"
  rationale :: string

record FcParamWriteOk =
  written_count :: nat

datatype FcConfigError =
  ConfigUnsupported string string
| ConfigTimeout string string
| ConfigRejected string string
| ConfigMismatch string string string
| ConfigTransportFailure string string
| ConfigContractViolation string

record 'p FcConfigProvider =
  upload_fence :: "MavlinkFencePlan \<Rightarrow> 'p \<Rightarrow> (FcConfigError + GeofenceUploadOk) \<times> 'p"
  read_params :: "FcParamRequirement list \<Rightarrow> 'p \<Rightarrow> (FcConfigError + FcParamSnapshot) \<times> 'p"
  write_params :: "FcParamWritePlan \<Rightarrow> 'p \<Rightarrow> (FcConfigError + FcParamWriteOk) \<times> 'p"

record MockFcConfig =
  accept_geofence :: bool
  param_values :: "(FcParamId, FcParamValue) hmap"

definition default_mock_config :: MockFcConfig where
  "default_mock_config = \<lparr>accept_geofence = True, param_values = []\<rparr>"

definition with_geofence_rejection :: "MockFcConfig \<Rightarrow> MockFcConfig" where
  "with_geofence_rejection m = m\<lparr>accept_geofence := False\<rparr>"

definition with_param :: "FcParamId \<Rightarrow> FcParamValue \<Rightarrow> MockFcConfig \<Rightarrow> MockFcConfig" where
  "with_param i v m = m\<lparr>param_values := hm_insert i v (param_values m)\<rparr>"

definition MockFcConfigProvider :: "MockFcConfig FcConfigProvider" where
  "MockFcConfigProvider =
     \<lparr>upload_fence = (\<lambda>plan m.
        (if \<not> accept_geofence m then Inl (ConfigRejected ''geofence_upload'' ''mock rejection'')
         else Inr \<lparr>items_uploaded = length (fence_items plan), fence_enable_sent = enable_fence plan\<rparr>, m)),
      read_params = (\<lambda>reqs m.
        (Inr \<lparr>sn_params = hm_collect (List.map_filter (\<lambda>r. map_option (\<lambda>v. (rq_param_id r, v)) (hm_get (param_values m) (rq_param_id r))) reqs),
              sn_description = ''mock snapshot''\<rparr>, m)),
      write_params = (\<lambda>plan m. (Inr \<lparr>written_count = length (writes plan)\<rparr>, m))\<rparr>"

definition execute_geofence_upload :: "'p FcConfigProvider \<Rightarrow> MavlinkFencePlan \<Rightarrow> 'p \<Rightarrow> (FcConfigError + GeofenceUploadOk) \<times> 'p" where
  "execute_geofence_upload provider plan p = upload_fence provider plan p"

definition execute_param_snapshot :: "'p FcConfigProvider \<Rightarrow> FcParamRequirement list \<Rightarrow> 'p \<Rightarrow> (FcConfigError + FcParamSnapshot) \<times> 'p" where
  "execute_param_snapshot provider reqs p = read_params provider reqs p"

definition execute_param_write :: "'p FcConfigProvider \<Rightarrow> FcParamWritePlan \<Rightarrow> 'p \<Rightarrow> (FcConfigError + FcParamWriteOk) \<times> 'p" where
  "execute_param_write provider plan p = write_params provider plan p"

section \<open>The plan as one sequence of steps\<close>

type_synonym 'p task = "string \<times> (u64 \<Rightarrow> string) \<times> 'p ack_call"

definition command_tasks :: "(string \<Rightarrow> u64 \<Rightarrow> string) \<Rightarrow> (MavlinkCommonCommand \<Rightarrow> 'p ack_call) \<Rightarrow> MavlinkCommonCommand list \<Rightarrow> 'p task list" where
  "command_tasks why call cs = map (\<lambda>c. (command_as_str (mc_command c), why (command_as_str (mc_command c)), call c)) cs"

definition plan_tasks :: "'p AckProvider \<Rightarrow> MavlinkCommonPlan \<Rightarrow> 'p task list" where
  "plan_tasks ack plan =
     command_tasks prelude_timeout (ack_prelude_command ack) (command_prelude plan) @
     (if mission_items plan \<noteq> [] then [(''mission_upload'', upload_timeout, ack_mission_upload ack)] else []) @
     (case mission_start plan of Some c \<Rightarrow> [(command_as_str (mc_command c), start_timeout, ack_mission_start ack)] | None \<Rightarrow> []) @
     command_tasks postlude_timeout (ack_postlude_command ack) (command_postlude plan)"

definition plan_labels :: "MavlinkCommonPlan \<Rightarrow> string list" where
  "plan_labels plan =
     map (command_as_str \<circ> mc_command) (command_prelude plan) @
     (if mission_items plan \<noteq> [] then [''mission_upload''] else []) @
     (case mission_start plan of Some c \<Rightarrow> [command_as_str (mc_command c)] | None \<Rightarrow> []) @
     map (command_as_str \<circ> mc_command) (command_postlude plan)"

fun run_tasks :: "string \<Rightarrow> u32 \<Rightarrow> 'p task list \<Rightarrow> 'p execution \<Rightarrow> MavlinkPlanExecutionReport \<times> 'p + 'p execution" where
  "run_tasks plan_id budget [] s = Inr s"
| "run_tasks plan_id budget ((label, why, call) # ts) s =
     (case execute_step plan_id budget label why call s of Inl r \<Rightarrow> Inl r | Inr s' \<Rightarrow> run_tasks plan_id budget ts s')"

lemma run_tasks_append:
  "run_tasks i b (xs @ ys) s = (case run_tasks i b xs s of Inl r \<Rightarrow> Inl r | Inr s' \<Rightarrow> run_tasks i b ys s')"
  by (induction i b xs s rule: run_tasks.induct) (auto split: sum.splits)

lemma execute_commands_tasks: "execute_commands i b why call cs s = run_tasks i b (command_tasks why call cs) s"
  by (induction cs arbitrary: s) (auto simp: command_tasks_def Let_def split: sum.splits)

lemma run_single: "run_tasks i b [(label, why, call)] s = execute_step i b label why call s"
  by (simp split: sum.splits)

text \<open>The four phases are the one sequence.\<close>

lemma execute_phases_tasks: "execute_phases ack b plan s = run_tasks (source_mission_id plan) b (plan_tasks ack plan) s"
  unfolding execute_phases_def plan_tasks_def run_tasks_append execute_commands_tasks Let_def
  by (cases "mission_start plan"; cases "mission_items plan = []") (simp_all add: run_single del: run_tasks.simps(2) cong: sum.case_cong)

lemma plan_tasks_labels: "map fst (plan_tasks ack plan) = plan_labels plan"
  by (simp add: plan_tasks_def plan_labels_def command_tasks_def comp_def split: option.split)

section \<open>Following the plan\<close>

text \<open>What a report says of the steps of a plan with labels \<open>ls\<close>: the steps are the first ones of the plan, numbered in order; all but the
  last one passed; and the outcome is a success if the plan was completed and otherwise names the last step, which failed.\<close>

definition passes :: "MavlinkExecutionStepResult \<Rightarrow> bool" where
  "passes r = (\<not> is_terminal_failure r)"

lemma passes_simps [simp]:
  "passes Accepted" "passes (Skipped why)" "\<not> passes (Rejected why)" "\<not> passes (StepTimeout ms)" "\<not> passes (TransportFailure why)"
  by (simp_all add: passes_def)

definition follows :: "string list \<Rightarrow> MavlinkPlanExecutionReport \<Rightarrow> bool" where
  "follows ls r \<longleftrightarrow> (\<exists>k\<le>length ls.
     map (\<lambda>(i, l, _). (i, l)) (er_steps r) = enumerate 0 (take k ls) \<and>
     (if outcome_is_success (er_overall r)
      then k = length ls \<and> list_all (\<lambda>(_, _, x). passes x) (er_steps r) \<and> er_lifecycle_state r = LifecycleCompleted
      else 0 < k \<and> list_all (\<lambda>(_, _, x). passes x) (butlast (er_steps r)) \<and> \<not> passes (snd (snd (List.last (er_steps r)))) \<and>
        er_lifecycle_state r = LifecycleAborted \<and> (\<exists>why. er_overall r \<in> {OutcomeAborted (k - 1) why, OutcomeFailed (k - 1) why})))"

definition running :: "string list \<Rightarrow> 'p execution \<Rightarrow> bool" where
  "running ls s \<longleftrightarrow> ex_index s \<le> length ls \<and> map (\<lambda>(i, l, _). (i, l)) (ex_steps s) = enumerate 0 (take (ex_index s) ls) \<and>
     list_all (\<lambda>(_, _, x). passes x) (ex_steps s)"

lemma execute_step_running:
  assumes "running ls s" "ex_index s < length ls" "ls ! ex_index s = label"
  shows "case execute_step i b label why call s of
      Inl (r, p) \<Rightarrow> \<not> outcome_is_success (er_overall r) \<and> follows ls r
    | Inr s' \<Rightarrow> running ls s' \<and> ex_index s' = Suc (ex_index s)"
proof -
  obtain result retries p where t: "try_with_retry call b (ex_ack s) = (result, retries, p)"
    by (cases "try_with_retry call b (ex_ack s)")
  have num: "map (\<lambda>(i, l, _). (i, l)) (ex_steps s @ [(ex_index s, label, x)]) = enumerate 0 (take (Suc (ex_index s)) ls)" for x
    using assms by (simp add: running_def take_Suc_conv_app_nth enumerate_append_eq)
  have pass: "list_all (\<lambda>(_, _, x). passes x) (ex_steps s)" using assms(1) by (simp add: running_def)
  show ?thesis
  proof (cases "passes result")
    case True
    then show ?thesis using num pass assms(2)
      by (cases result) (auto simp: execute_step_def t Let_def running_def)
  next
    case False
    then show ?thesis using num pass assms(2)
      by (cases result) (auto simp: execute_step_def t Let_def follows_def intro!: exI [of _ "Suc (ex_index s)"])
  qed
qed

lemma run_tasks_running:
  "running ls s \<Longrightarrow> drop (ex_index s) ls = map fst ts \<Longrightarrow>
   (case run_tasks i b ts s of
      Inl (r, p) \<Rightarrow> \<not> outcome_is_success (er_overall r) \<and> follows ls r
    | Inr s' \<Rightarrow> running ls s' \<and> ex_index s' = length ls)"
proof (induction i b ts s rule: run_tasks.induct)
  case (1 i b s)
  then show ?case by (simp add: running_def)
next
  case (2 i b label why call ts s)
  have idx: "ex_index s < length ls" using 2(3) by (cases "ex_index s < length ls") auto
  then have lab: "ls ! ex_index s = label" "drop (Suc (ex_index s)) ls = map fst ts"
    using 2(3) by (auto simp: Cons_nth_drop_Suc [symmetric])
  show ?case
  proof (cases "execute_step i b label why call s")
    case (Inl rp)
    then show ?thesis using execute_step_running [OF 2(2) idx lab(1), of i b why call] by simp
  next
    case (Inr s')
    then have "running ls s'" "ex_index s' = Suc (ex_index s)" using execute_step_running [OF 2(2) idx lab(1), of i b why call] by simp_all
    then show ?thesis using 2(1) [OF Inr] lab(2) Inr by simp
  qed
qed

definition refused :: "MavlinkCommonPlan \<Rightarrow> bool" where
  "refused plan \<longleftrightarrow> (\<exists>items. geofence_prelude plan = Some items \<and> items \<noteq> []) \<or> (\<exists>c. fc_contract_result plan = Some c \<and> blocks_mission_start c)"

lemma execute_not_refused: "\<not> refused plan \<Longrightarrow> execute ack b plan p = execute_all ack b plan p"
  by (auto simp: execute_def refused_def split: option.splits)

lemma execute_all_tasks:
  "execute_all ack b plan p = (case run_tasks (source_mission_id plan) b (plan_tasks ack plan) \<lparr>ex_steps = [], ex_retries = 0, ex_index = 0, ex_ack = p\<rparr> of
     Inl r \<Rightarrow> r
   | Inr s \<Rightarrow> (\<lparr>er_plan_id = source_mission_id plan, er_steps = ex_steps s,
       er_overall = (if ex_retries s = 0 then OutcomeCompleted else OutcomeRetried (ex_retries s)), er_lifecycle_state = LifecycleCompleted,
       er_telemetry_milestones_reached = [HeartbeatExpected], er_retry_count = ex_retries s\<rparr>, ex_ack s))"
  by (simp add: execute_all_def execute_phases_tasks)

lemma execute_all_follows: "follows (plan_labels plan) (fst (execute_all ack b plan p))"
proof -
  let ?s = "\<lparr>ex_steps = [], ex_retries = 0, ex_index = 0, ex_ack = p\<rparr> :: 'a execution"
  have "running (plan_labels plan) ?s" by (simp add: running_def)
  from run_tasks_running [OF this, of "plan_tasks ack plan" "source_mission_id plan" b] plan_tasks_labels [of ack plan]
  have t: "case run_tasks (source_mission_id plan) b (plan_tasks ack plan) ?s of
      Inl (r, p) \<Rightarrow> \<not> outcome_is_success (er_overall r) \<and> follows (plan_labels plan) r
    | Inr s' \<Rightarrow> running (plan_labels plan) s' \<and> ex_index s' = length (plan_labels plan)" by simp
  show ?thesis
  proof (cases "run_tasks (source_mission_id plan) b (plan_tasks ack plan) ?s")
    case (Inl rp)
    then show ?thesis using t by (auto simp: execute_all_tasks)
  next
    case (Inr s')
    then show ?thesis using t
      by (auto simp: execute_all_tasks running_def follows_def intro!: exI [of _ "length (plan_labels plan)"])
  qed
qed

section \<open>What the provider receives\<close>

text \<open>To speak of the requests a provider receives, wrap it into one that records every call with its answer. The wrapped provider
  answers as the original, so the executor behaves the same with it (part of the theorem below).\<close>

datatype request = SendPrelude MavlinkCommonCommand | UploadMission | StartMission | SendPostlude MavlinkCommonCommand

type_synonym request_log = "(request \<times> MavlinkExecutionStepResult) list"

definition logged_call :: "request \<Rightarrow> 'p ack_call \<Rightarrow> ('p \<times> request_log) ack_call" where
  "logged_call req call = (\<lambda>(p, lg). case call p of (r, p') \<Rightarrow> (r, (p', lg @ [(req, r)])))"

definition logged :: "'p AckProvider \<Rightarrow> ('p \<times> request_log) AckProvider" where
  "logged ack = \<lparr>ack_prelude_command = (\<lambda>c. logged_call (SendPrelude c) (ack_prelude_command ack c)),
     ack_mission_upload = logged_call UploadMission (ack_mission_upload ack),
     ack_mission_start = logged_call StartMission (ack_mission_start ack),
     ack_postlude_command = (\<lambda>c. logged_call (SendPostlude c) (ack_postlude_command ack c))\<rparr>"

text \<open>The requests a plan calls for, in order.\<close>

definition plan_requests :: "MavlinkCommonPlan \<Rightarrow> request list" where
  "plan_requests plan =
     map SendPrelude (command_prelude plan) @
     (if mission_items plan \<noteq> [] then [UploadMission] else []) @
     (case mission_start plan of Some c \<Rightarrow> [StartMission] | None \<Rightarrow> []) @
     map SendPostlude (command_postlude plan)"

text \<open>The log that belongs to reported steps: step after step, the next request of the plan is sent, again after each timeout but at
  most \<open>budget\<close> times again, and the step records its last answer. A step that ends in a timeout has used the whole budget.\<close>

inductive sent :: "nat \<Rightarrow> request list \<Rightarrow> (nat \<times> string \<times> MavlinkExecutionStepResult) list \<Rightarrow> request_log \<Rightarrow> bool"
  for budget where
  sent_Nil: "sent budget reqs [] []"
| sent_Cons: "length ms \<le> budget \<Longrightarrow> (is_retryable res \<Longrightarrow> length ms = budget) \<Longrightarrow> sent budget reqs steps lg \<Longrightarrow>
    sent budget (req # reqs) ((i, l, res) # steps) (map (\<lambda>m. (req, StepTimeout m)) ms @ (req, res) # lg)"

inductive_cases sent_ConsE: "sent budget reqs (st # steps) lg"
inductive_cases sent_NilE: "sent budget reqs [] lg"

lemma sent_lengths: "sent budget reqs steps lg \<Longrightarrow>
    length steps \<le> length lg \<and> length lg \<le> length steps * Suc budget \<and> length steps \<le> length reqs"
  by (induction rule: sent.induct) auto

lemma retry_loop_logged:
  assumes "retry_loop call n k p = (r, k', p')"
  shows "\<exists>ms. length ms \<le> n \<and> (is_retryable r \<longrightarrow> length ms = n) \<and> k' = k + of_nat (length ms) \<and>
    (\<forall>lg. retry_loop (logged_call req call) n k (p, lg) =
       (r, k', p', lg @ map (\<lambda>m. (req, StepTimeout m)) ms @ [(req, r)]))"
  using assms
proof (induction n arbitrary: k p)
  case 0
  then show ?case by (auto simp: logged_call_def split: prod.splits)
next
  case (Suc n)
  obtain r0 p0 where c: "call p = (r0, p0)" by (cases "call p")
  show ?case
  proof (cases r0)
    case (StepTimeout m0)
    then have "retry_loop call n (k + 1) p0 = (r, k', p')" using Suc.prems c by simp
    from Suc.IH [OF this] obtain ms where ms: "length ms \<le> n" "is_retryable r \<longrightarrow> length ms = n"
      "k' = k + 1 + of_nat (length ms)"
      "\<forall>lg. retry_loop (logged_call req call) n (k + 1) (p0, lg) =
         (r, k', p', lg @ map (\<lambda>m. (req, StepTimeout m)) ms @ [(req, r)])" by blast
    then show ?thesis
      by (intro exI [of _ "m0 # ms"]) (simp add: logged_call_def c StepTimeout add.assoc)
  qed (use Suc.prems c in \<open>auto simp: logged_call_def intro!: exI [of _ "[]"]\<close>)
qed

definition lift_log :: "request_log \<Rightarrow> 'p execution \<Rightarrow> ('p \<times> request_log) execution" where
  "lift_log lg s = \<lparr>ex_steps = ex_steps s, ex_retries = ex_retries s, ex_index = ex_index s, ex_ack = (ex_ack s, lg)\<rparr>"

definition logged_result :: "request_log \<Rightarrow> MavlinkPlanExecutionReport \<times> 'p + 'p execution \<Rightarrow>
    MavlinkPlanExecutionReport \<times> ('p \<times> request_log) + ('p \<times> request_log) execution" where
  "logged_result lg res = (case res of Inl (r, p) \<Rightarrow> Inl (r, (p, lg)) | Inr s \<Rightarrow> Inr (lift_log lg s))"

definition reported :: "MavlinkPlanExecutionReport \<times> 'p + 'p execution \<Rightarrow> (nat \<times> string \<times> MavlinkExecutionStepResult) list \<times> u32" where
  "reported res = (case res of Inl (r, p) \<Rightarrow> (er_steps r, er_retry_count r) | Inr s \<Rightarrow> (ex_steps s, ex_retries s))"

lemma execute_step_logged:
  "\<exists>ms res. length ms \<le> unat b \<and> (is_retryable res \<longrightarrow> length ms = unat b) \<and>
     reported (execute_step i b label why call s) = (ex_steps s @ [(ex_index s, label, res)], ex_retries s + of_nat (length ms)) \<and>
     (\<forall>lg. execute_step i b label why (logged_call req call) (lift_log lg s) =
        logged_result (lg @ map (\<lambda>m. (req, StepTimeout m)) ms @ [(req, res)]) (execute_step i b label why call s))"
proof -
  obtain res k p where t: "retry_loop call (unat b) 0 (ex_ack s) = (res, k, p)"
    by (cases "retry_loop call (unat b) 0 (ex_ack s)")
  from retry_loop_logged [OF t, of req] obtain ms where ms: "length ms \<le> unat b" "is_retryable res \<longrightarrow> length ms = unat b"
    "k = of_nat (length ms)" "\<forall>lg. retry_loop (logged_call req call) (unat b) 0 (ex_ack s, lg) =
       (res, k, p, lg @ map (\<lambda>m. (req, StepTimeout m)) ms @ [(req, res)])" by auto
  have "reported (execute_step i b label why call s) = (ex_steps s @ [(ex_index s, label, res)], ex_retries s + of_nat (length ms))"
    using ms(3) t by (cases res) (simp_all add: execute_step_def try_with_retry_def reported_def Let_def)
  moreover have "execute_step i b label why (logged_call req call) (lift_log lg s) =
      logged_result (lg @ map (\<lambda>m. (req, StepTimeout m)) ms @ [(req, res)]) (execute_step i b label why call s)" for lg
    using ms(4) t by (cases res) (simp_all add: execute_step_def try_with_retry_def logged_result_def lift_log_def Let_def)
  ultimately show ?thesis using ms(1,2) by blast
qed

definition logged_tasks :: "request list \<Rightarrow> 'p task list \<Rightarrow> ('p \<times> request_log) task list" where
  "logged_tasks reqs ts = map2 (\<lambda>req (label, why, call). (label, why, logged_call req call)) reqs ts"

lemma run_tasks_logged:
  assumes "length reqs = length ts"
  shows "\<exists>steps lg n. sent (unat b) reqs steps lg \<and> length lg = length steps + n \<and>
    reported (run_tasks i b ts s) = (ex_steps s @ steps, ex_retries s + of_nat n) \<and>
    (\<forall>lg0. run_tasks i b (logged_tasks reqs ts) (lift_log lg0 s) = logged_result (lg0 @ lg) (run_tasks i b ts s))"
  using assms
proof (induction i b ts s arbitrary: reqs rule: run_tasks.induct)
  case (1 i b s)
  then show ?case
    by (intro exI [of _ "[]"] exI [of _ 0]) (simp add: sent_Nil reported_def logged_tasks_def logged_result_def)
next
  case (2 i b label why call ts s)
  then obtain req reqs' where reqs: "reqs = req # reqs'" "length reqs' = length ts" by (cases reqs) auto
  obtain ms res where st: "length ms \<le> unat b" "is_retryable res \<longrightarrow> length ms = unat b"
    "reported (execute_step i b label why call s) = (ex_steps s @ [(ex_index s, label, res)], ex_retries s + of_nat (length ms))"
    "\<And>lg. execute_step i b label why (logged_call req call) (lift_log lg s) =
        logged_result (lg @ map (\<lambda>m. (req, StepTimeout m)) ms @ [(req, res)]) (execute_step i b label why call s)"
    using execute_step_logged [of b i label why call s req] by blast
  note step = sent_Cons [OF st(1) mp [OF st(2)]]
  have one: "sent (unat b) reqs [(ex_index s, label, res)] (map (\<lambda>m. (req, StepTimeout m)) ms @ [(req, res)])"
    unfolding reqs(1) by (rule step [OF _ sent_Nil])
  show ?case
  proof (cases "execute_step i b label why call s")
    case (Inl rp)
    then show ?thesis
      using one st(3,4)
      by (intro exI [of _ "[(ex_index s, label, res)]"] exI [of _ "map (\<lambda>m. (req, StepTimeout m)) ms @ [(req, res)]"]
          exI [of _ "length ms"]) (cases rp, simp add: reqs logged_tasks_def logged_result_def reported_def)
  next
    case (Inr s')
    from 2(1) [OF Inr reqs(2)] obtain steps lg n where ih: "sent (unat b) reqs' steps lg" "length lg = length steps + n"
      "reported (run_tasks i b ts s') = (ex_steps s' @ steps, ex_retries s' + of_nat n)"
      "\<And>lg0. run_tasks i b (logged_tasks reqs' ts) (lift_log lg0 s') = logged_result (lg0 @ lg) (run_tasks i b ts s')" by blast
    have "sent (unat b) reqs ((ex_index s, label, res) # steps) (map (\<lambda>m. (req, StepTimeout m)) ms @ (req, res) # lg)"
      using step [OF _ ih(1)] reqs by simp
    then show ?thesis
      using st(3) ih(2,3) Inr st(4) ih(4)
      by (intro exI [of _ "(ex_index s, label, res) # steps"]
          exI [of _ "map (\<lambda>m. (req, StepTimeout m)) ms @ (req, res) # lg"] exI [of _ "length ms + n"])
        (cases "run_tasks i b ts s'"; auto simp: reqs logged_tasks_def logged_result_def reported_def add.assoc)
  qed
qed

lemma plan_tasks_logged: "plan_tasks (logged ack) plan = logged_tasks (plan_requests plan) (plan_tasks ack plan)"
  by (auto simp: plan_tasks_def plan_requests_def logged_tasks_def command_tasks_def logged_def zip_map_map
      zip_append zip_same_conv_map comp_def split: option.split)

lemma length_plan_requests: "length (plan_requests plan) = length (plan_tasks ack plan)"
  by (simp add: plan_requests_def plan_tasks_def command_tasks_def split: option.split)

lemma execute_all_logged:
  "\<exists>lg. execute_all (logged ack) b plan (p, []) = (fst (execute_all ack b plan p), (snd (execute_all ack b plan p), lg)) \<and>
     sent (unat b) (plan_requests plan) (er_steps (fst (execute_all ack b plan p))) lg \<and>
     er_retry_count (fst (execute_all ack b plan p)) = of_nat (length lg - length (er_steps (fst (execute_all ack b plan p))))"
proof -
  let ?s = "\<lparr>ex_steps = [], ex_retries = 0, ex_index = 0, ex_ack = p\<rparr> :: 'a execution"
  from run_tasks_logged [OF length_plan_requests [of plan ack], of b "source_mission_id plan" ?s]
  obtain steps lg n where q: "sent (unat b) (plan_requests plan) steps lg" "length lg = length steps + n"
    "reported (run_tasks (source_mission_id plan) b (plan_tasks ack plan) ?s) = (steps, of_nat n)"
    "run_tasks (source_mission_id plan) b (plan_tasks (logged ack) plan) (lift_log [] ?s) =
       logged_result lg (run_tasks (source_mission_id plan) b (plan_tasks ack plan) ?s)"
    by (auto simp: plan_tasks_logged)
  have start: "lift_log [] ?s = \<lparr>ex_steps = [], ex_retries = 0, ex_index = 0, ex_ack = (p, [])\<rparr>" by (simp add: lift_log_def)
  show ?thesis
    using q(1-3) q(4) [unfolded start]
    by (intro exI [of _ lg]; cases "run_tasks (source_mission_id plan) b (plan_tasks ack plan) ?s")
      (auto simp: execute_all_tasks logged_result_def reported_def lift_log_def)
qed

text \<open>(C19) Execution of a plan. A plan with fence items or a violated contract is refused and the provider is not called at all. For any
  other plan the provider receives the requests of the plan, one after the other in the order prelude commands, upload, start, postlude
  commands: each is sent again after a timeout, at most \<open>budget\<close> times, and nothing is sent after the first request whose last answer is a
  rejection, a timeout or a transport failure. The report has one step for each request sent, numbered and labelled as in the plan, with
  the last answer received; its retry counter is the number of repeated requests (in 32 bits); it is a success exactly if every request of
  the plan was sent and passed, and otherwise names the step that failed.\<close>

theorem execution_follows_plan:
  "\<exists>requests. execute (logged ack) budget plan (p, []) = (fst (execute ack budget plan p), (snd (execute ack budget plan p), requests)) \<and>
    (if refused plan
     then requests = [] \<and> er_lifecycle_state (fst (execute ack budget plan p)) = LifecycleAborted \<and>
       snd (execute ack budget plan p) = p \<and>
       \<not> outcome_is_success (er_overall (fst (execute ack budget plan p))) \<and> er_retry_count (fst (execute ack budget plan p)) = 0
     else follows (plan_labels plan) (fst (execute ack budget plan p)) \<and>
       sent (unat budget) (plan_requests plan) (er_steps (fst (execute ack budget plan p))) requests \<and>
       er_retry_count (fst (execute ack budget plan p)) = of_nat (length requests - length (er_steps (fst (execute ack budget plan p)))))"
proof (cases "refused plan")
  case True
  then show ?thesis by (auto simp: refused_def execute_def split: option.splits)
next
  case False
  then show ?thesis
    using execute_all_follows [of plan ack budget p] execute_all_logged [of ack budget plan p] by (auto simp: execute_not_refused)
qed

definition arm_start_plan :: MavlinkCommonPlan where
  "arm_start_plan = \<lparr>pl_schema_version = [], source_mission_id = ''m'', command_ir_hash = [], backend_profile = [],
     command_prelude = [\<lparr>mc_command_id = ''arm'', mc_command = ComponentArmDisarm, mc_phase = CommandPrelude, mc_params = []\<rparr>],
     geofence_prelude = None, fence_summary = None, fc_contract_result = None, mission_items = [],
     mission_start = Some \<lparr>mc_command_id = ''go'', mc_command = MissionStart, mc_phase = MissionStartPhase, mc_params = []\<rparr>,
     command_postlude = [], expected_acks = [], telemetry_milestones = [], unsupported_features = [],
     validation_result = \<lparr>passed = True, ir_validation_passed = True, unsupported_required_count = 0, vr_notes = []\<rparr>,
     compatibility = None\<rparr>"

text \<open>The arm command times out once and is repeated; the start is rejected and ends the execution.\<close>

theorem execution_follows_plan_witness:
  "map snd (snd (snd (execute (logged ScriptedAckProvider) 1 arm_start_plan ([StepTimeout 500, Accepted, Rejected ''no''], [])))) =
     [StepTimeout 500, Accepted, Rejected ''no''] \<and>
   er_retry_count (fst (execute ScriptedAckProvider 1 arm_start_plan [StepTimeout 500, Accepted, Rejected ''no''])) = 1 \<and>
   \<not> outcome_is_success (er_overall (fst (execute ScriptedAckProvider 1 arm_start_plan [StepTimeout 500, Accepted, Rejected ''no''])))"
proof -
  let ?script = "[StepTimeout 500, Accepted, Rejected ''no'']"
  let ?run = "execute ScriptedAckProvider 1 arm_start_plan ?script"
  have report: "fst (execute (logged ScriptedAckProvider) 1 arm_start_plan (?script, [])) = fst ?run"
    using execution_follows_plan [of ScriptedAckProvider 1 arm_start_plan ?script] by auto
  have run: "execute (logged ScriptedAckProvider) 1 arm_start_plan (?script, []) =
      (\<lparr>er_plan_id = ''m'', er_steps = [(0, ''MAV_CMD_COMPONENT_ARM_DISARM'', Accepted), (1, ''MAV_CMD_MISSION_START'', Rejected ''no'')],
        er_overall = OutcomeAborted 1 ''no'', er_lifecycle_state = LifecycleAborted, er_telemetry_milestones_reached = [],
        er_retry_count = 1\<rparr>, ([], [(SendPrelude (hd (command_prelude arm_start_plan)), StepTimeout 500),
        (SendPrelude (hd (command_prelude arm_start_plan)), Accepted), (StartMission, Rejected ''no'')]))"
    by (simp add: execute_def execute_all_def execute_phases_def execute_step_def try_with_retry_def arm_start_plan_def
        logged_def logged_call_def ScriptedAckProvider_def Let_def numeral_2_eq_2 eval_nat_numeral)
  show ?thesis unfolding report [symmetric] run by simp
qed

section \<open>Accounting for the answers\<close>

text \<open>A provider gives a sequence of answers, one for each call.\<close>

definition answers_call :: "('p \<Rightarrow> nat \<Rightarrow> MavlinkExecutionStepResult) \<Rightarrow> 'p ack_call \<Rightarrow> bool" where
  "answers_call answer call \<longleftrightarrow> (\<forall>p. fst (call p) = answer p 0 \<and> (\<forall>n. answer (snd (call p)) n = answer p (Suc n)))"

definition timeouts :: "(nat \<Rightarrow> MavlinkExecutionStepResult) \<Rightarrow> nat \<Rightarrow> nat" where
  "timeouts f n = length (filter is_retryable (map f [0..<n]))"

lemma timeouts_Suc: "timeouts f (Suc n) = timeouts f n + (if is_retryable (f n) then 1 else 0)"
  by (simp add: timeouts_def)

lemma timeouts_add: "timeouts f (n + m) = timeouts f n + timeouts (\<lambda>j. f (j + n)) m"
  by (induction m) (simp_all add: timeouts_Suc add.commute timeouts_def [of _ 0])

lemma timeouts_all: "(\<And>j. j < n \<Longrightarrow> is_retryable (f j)) \<Longrightarrow> timeouts f n = n"
  by (induction n) (simp_all add: timeouts_Suc timeouts_def [of _ 0])

text \<open>One step takes the answers up to the first that is no timeout, but at most one more than the budget.\<close>

lemma retry_loop_answers:
  assumes call: "answers_call answer call"
  shows "retry_loop call n k p = (r, k', p') \<Longrightarrow>
    \<exists>m\<le>n. k' = k + of_nat m \<and> r = answer p m \<and> (\<forall>j. answer p' j = answer p (j + Suc m)) \<and> (\<forall>j<m. is_retryable (answer p j))"
proof (induction n arbitrary: k p)
  case 0
  then show ?case using call by (auto simp: answers_call_def split: prod.splits) (metis fst_conv snd_conv)+
next
  case (Suc n)
  obtain r0 p0 where c: "call p = (r0, p0)" by (cases "call p")
  then have a: "r0 = answer p 0" "\<And>j. answer p0 j = answer p (Suc j)" using call unfolding answers_call_def by (metis fst_conv snd_conv)+
  show ?case
  proof (cases "is_retryable r0")
    case True
    then have "retry_loop call n (k + 1) p0 = (r, k', p')" using Suc.prems c by (cases r0) auto
    from Suc.IH [OF this] obtain m where m: "m \<le> n" "k' = k + 1 + of_nat m" "r = answer p0 m" "\<forall>j. answer p' j = answer p0 (j + Suc m)"
      "\<forall>j<m. is_retryable (answer p0 j)" by blast
    have "\<forall>j<Suc m. is_retryable (answer p j)" using m(5) a True by (metis less_Suc_eq_0_disj)
    then show ?thesis using m a by (intro exI [of _ "Suc m"]) (simp add: add.assoc)
  next
    case False
    then have "r = r0" "k' = k" "p' = p0" using Suc.prems c by (cases r0; auto)+
    then show ?thesis using a by (intro exI [of _ 0]) auto
  qed
qed

definition accounted ::
    "('p \<Rightarrow> nat \<Rightarrow> MavlinkExecutionStepResult) \<Rightarrow> u32 \<Rightarrow> 'p \<Rightarrow> (nat \<times> string \<times> MavlinkExecutionStepResult) list \<Rightarrow> nat \<Rightarrow> 'p \<Rightarrow> bool" where
  "accounted answer budget p0 steps n p \<longleftrightarrow>
     n \<le> unat budget * length steps \<and> (\<forall>j. answer p j = answer p0 (j + (length steps + n))) \<and>
     timeouts (answer p0) (length steps + n) = n + length (filter (\<lambda>(_, _, x). is_retryable x) steps)"

definition step_report :: "MavlinkPlanExecutionReport \<times> 'p + 'p execution \<Rightarrow> (nat \<times> string \<times> MavlinkExecutionStepResult) list \<times> u32 \<times> 'p" where
  "step_report res = (case res of Inl (r, p) \<Rightarrow> (er_steps r, er_retry_count r, p) | Inr s \<Rightarrow> (ex_steps s, ex_retries s, ex_ack s))"

lemma step_report_execute_step:
  "try_with_retry call b (ex_ack s) = (r, k, p) \<Longrightarrow>
   step_report (execute_step i b label why call s) = (ex_steps s @ [(ex_index s, label, r)], ex_retries s + k, p)"
  by (cases r) (simp_all add: execute_step_def Let_def step_report_def)

lemma accounted_step:
  assumes call: "answers_call answer call" and acc: "accounted answer b p0 (ex_steps s) n (ex_ack s)" "ex_retries s = of_nat n"
  shows "\<exists>steps n' p'. step_report (execute_step i b label why call s) = (steps, of_nat n', p') \<and> accounted answer b p0 steps n' p'"
proof -
  obtain r k p where t: "try_with_retry call b (ex_ack s) = (r, k, p)" by (cases "try_with_retry call b (ex_ack s)")
  obtain m where m: "m \<le> unat b" "k = of_nat m" "r = answer (ex_ack s) m" "\<forall>j. answer p j = answer (ex_ack s) (j + Suc m)"
    "\<forall>j<m. is_retryable (answer (ex_ack s) j)"
    using retry_loop_answers [OF call, of "unat b" 0 "ex_ack s" r k p] t by (auto simp: try_with_retry_def)
  let ?c = "length (ex_steps s) + n" and ?steps = "ex_steps s @ [(ex_index s, label, r)]"
  have shift: "answer (ex_ack s) j = answer p0 (j + ?c)" for j using acc(1) by (simp add: accounted_def)
  have "timeouts (answer p0) (?c + Suc m) = timeouts (answer p0) ?c + timeouts (answer (ex_ack s)) (Suc m)"
    unfolding timeouts_add shift [abs_def] ..
  also have "timeouts (answer (ex_ack s)) (Suc m) = m + (if is_retryable r then 1 else 0)"
    using m(3,5) by (simp add: timeouts_Suc timeouts_all)
  finally have "timeouts (answer p0) (length ?steps + (n + m)) = n + m + length (filter (\<lambda>(_, _, x). is_retryable x) ?steps)"
    using acc(1) by (simp add: accounted_def ac_simps)
  moreover have "answer p j = answer p0 (j + (length ?steps + (n + m)))" for j using m(4) shift by (simp add: ac_simps)
  moreover have "n + m \<le> unat b * length ?steps" using acc(1) m(1) by (simp add: accounted_def)
  ultimately have "accounted answer b p0 ?steps (n + m) p" by (simp add: accounted_def)
  moreover have "step_report (execute_step i b label why call s) = (?steps, of_nat (n + m), p)"
    using step_report_execute_step [OF t] acc(2) m(2) by simp
  ultimately show ?thesis by blast
qed

lemma accounted_tasks:
  "\<forall>(_, _, call)\<in>set ts. answers_call answer call \<Longrightarrow> accounted answer b p0 (ex_steps s) n (ex_ack s) \<Longrightarrow> ex_retries s = of_nat n \<Longrightarrow>
   \<exists>steps n' p'. step_report (run_tasks i b ts s) = (steps, of_nat n', p') \<and> accounted answer b p0 steps n' p'"
proof (induction i b ts s arbitrary: n rule: run_tasks.induct)
  case (1 i b s)
  then show ?case by (auto simp: step_report_def)
next
  case (2 i b label why call ts s)
  have "answers_call answer call" using 2(2) by simp
  from accounted_step [OF this 2(3,4), of i label why] obtain steps n' p' where
    r: "step_report (execute_step i b label why call s) = (steps, of_nat n', p')" "accounted answer b p0 steps n' p'" by blast
  show ?case
  proof (cases "execute_step i b label why call s")
    case (Inl rp)
    then show ?thesis using r by auto
  next
    case (Inr s')
    then have "ex_steps s' = steps" "ex_retries s' = of_nat n'" "ex_ack s' = p'" using r(1) by (simp_all add: step_report_def)
    then show ?thesis using 2(1) [OF Inr, of n'] 2(2) r(2) Inr by simp
  qed
qed

locale ack_sequence =
  fixes ack :: "'p AckProvider" and answer :: "'p \<Rightarrow> nat \<Rightarrow> MavlinkExecutionStepResult"
  assumes prelude_answers: "answers_call answer (ack_prelude_command ack c)"
    and upload_answers: "answers_call answer (ack_mission_upload ack)"
    and start_answers: "answers_call answer (ack_mission_start ack)"
    and postlude_answers: "answers_call answer (ack_postlude_command ack c)"
begin

lemma plan_tasks_answer: "\<forall>(_, _, call)\<in>set (plan_tasks ack plan). answers_call answer call"
  by (auto simp: plan_tasks_def command_tasks_def prelude_answers upload_answers start_answers postlude_answers split: option.splits if_splits)

lemma execution_accounted:
  assumes "\<not> refused plan" "execute ack b plan p = (r, p')"
  shows "\<exists>n. er_retry_count r = of_nat n \<and> accounted answer b p (er_steps r) n p'"
proof -
  let ?s = "\<lparr>ex_steps = [], ex_retries = 0, ex_index = 0, ex_ack = p\<rparr> :: 'p execution"
  let ?res = "run_tasks (source_mission_id plan) b (plan_tasks ack plan) ?s"
  have "accounted answer b p (ex_steps ?s) 0 (ex_ack ?s)" by (simp add: accounted_def timeouts_def)
  from accounted_tasks [OF plan_tasks_answer [of plan] this, of "source_mission_id plan"] obtain steps n q where
    q: "step_report ?res = (steps, of_nat n, q)" "accounted answer b p steps n q" by auto
  have "execute_all ack b plan p = (r, p')" using assms by (simp add: execute_not_refused)
  then have "step_report ?res = (er_steps r, er_retry_count r, p')"
    by (cases ?res) (auto simp: execute_all_tasks step_report_def)
  then have "er_retry_count r = of_nat n \<and> accounted answer b p (er_steps r) n p'" using q by simp
  then show ?thesis by blast
qed

end

fun scripted_answer :: "MavlinkExecutionStepResult list \<Rightarrow> nat \<Rightarrow> MavlinkExecutionStepResult" where
  "scripted_answer script n = (if n < length script then script ! n else Accepted)"

lemma next_result_answers: "answers_call scripted_answer next_result"
  unfolding answers_call_def
proof
  fix p show "fst (next_result p) = scripted_answer p 0 \<and> (\<forall>n. scripted_answer (snd (next_result p)) n = scripted_answer p (Suc n))"
    by (cases p) auto
qed

interpretation scripted: ack_sequence ScriptedAckProvider scripted_answer
  by unfold_locales (simp_all add: ScriptedAckProvider_def next_result_answers)

interpretation mock: ack_sequence MockAckProvider "\<lambda>p n. Accepted"
  by unfold_locales (simp_all add: MockAckProvider_def answers_call_def)

text \<open>Retries. Against any script of answers and as long as the counter cannot wrap, the executor consumes one answer for each step it reports and
  one for each retry it counts, no more than the budget allows per step; the retries are exactly the timeouts that were answered, less the
  timeouts that ended a step.\<close>

theorem scripted_retries_accounted:
  assumes "\<not> refused plan" "execute ScriptedAckProvider budget plan script = (r, rest)" "unat budget * length (plan_labels plan) < 2 ^ 32"
  shows "unat (er_retry_count r) \<le> unat budget * length (er_steps r) \<and>
    (\<forall>j. scripted_answer rest j = scripted_answer script (j + (length (er_steps r) + unat (er_retry_count r)))) \<and>
    timeouts (scripted_answer script) (length (er_steps r) + unat (er_retry_count r)) =
      unat (er_retry_count r) + length (filter (\<lambda>(_, _, x). is_retryable x) (er_steps r))"
proof -
  obtain n where n: "er_retry_count r = of_nat n" "accounted scripted_answer budget script (er_steps r) n rest"
    using scripted.execution_accounted [OF assms(1,2)] by blast
  have "follows (plan_labels plan) r"
    using execute_all_follows [of plan ScriptedAckProvider budget script] assms(1,2) by (simp add: execute_not_refused)
  then obtain k where k: "map (\<lambda>(i, l, _). (i, l)) (er_steps r) = enumerate 0 (take k (plan_labels plan))" unfolding follows_def by blast
  then have "length (er_steps r) \<le> length (plan_labels plan)" by (metis length_map length_enumerate length_take min.cobounded1)
  then have "unat budget * length (er_steps r) < 2 ^ 32" using assms(3) by (meson mult_le_mono2 order_le_less_trans)
  then have "n < 2 ^ 32" using n(2) unfolding accounted_def by (meson order_le_less_trans)
  then have "unat (er_retry_count r) = n" unfolding n(1) by (simp add: unat_of_nat take_bit_nat_eq_self)
  then show ?thesis using n(2) unfolding accounted_def by blast
qed

end
