(* ===== verification/MavlinkMission.thy ===== *)
theory MavlinkMission
  imports MavlinkFaithful MavlinkExecutor
begin

text \<open>
  The compiler and the executor together: which compiled plans the executor sends, and what a dry run against a provider that accepts
  everything reports.
\<close>

section \<open>Which compiled plans are refused\<close>

lemma compiled_fence_empty:
  assumes "compile_fence_items fp pr = Inr (items, en)"
  shows "items = [] \<longleftrightarrow> fence_items fp = []"
proof -
  have loop: "compile_fence_loop pr (fence_items fp) [] = Inr items" using assms by (auto simp: compile_fence_items_def split: sum.splits)
  then have "items = number_items 0 (concat (map fence_points (fence_items fp)))" "\<forall>it\<in>set (fence_items fp). fence_well_formed it"
    unfolding compile_fence_loop_spec by auto
  moreover have "fence_points it \<noteq> []" if "fence_well_formed it" for it
    using that by (auto simp: fence_points_def fence_well_formed_def split: FcGeofenceShape.splits)
  moreover have "number_items n ps = [] \<longleftrightarrow> ps = []" for n ps by (metis length_0_conv length_number_items)
  ultimately show ?thesis by (cases "fence_items fp") auto
qed

lemma compiled_refused:
  assumes "compile_mavlink_common_plan env plan opts = Inr p"
  shows "refused p \<longleftrightarrow> (\<exists>fp. fence_plan opts = Some fp \<and> fence_items fp \<noteq> []) \<or>
    (\<exists>sn. param_snapshot opts = Some sn \<and> (\<exists>rq\<in>set (param_requirements opts). \<not> param_ok sn rq))"
proof -
  obtain s fence summary hash en where
      fp: "(fence_plan opts = None \<and> en = None \<and> fence = None) \<or>
       (\<exists>fp items. fence_plan opts = Some fp \<and> fence = Some items \<and> compile_fence_items fp (profile (capability_profile opts)) = Inr (items, en))"
      and p: "p = judge opts (assemble env plan opts fence summary hash (case en of None \<Rightarrow> s | Some c \<Rightarrow> s\<lparr>cp_command_prelude := c # cp_command_prelude s\<rparr>))"
    by (rule compile_stages [OF assms])
  have "geofence_prelude p = fence" unfolding p by (simp add: compiled_fields)
  then have g: "(\<exists>items. geofence_prelude p = Some items \<and> items \<noteq> []) \<longleftrightarrow> (\<exists>fp. fence_plan opts = Some fp \<and> fence_items fp \<noteq> [])"
    using fp compiled_fence_empty by fastforce
  have sup: "\<forall>f. fence_plan opts = Some f \<longrightarrow> (\<forall>it\<in>set (fence_items f). fence_supported (profile (capability_profile opts)) (gf_kind it))"
    using fp compile_fence_supported by fastforce
  have "(\<exists>c. fc_contract_result p = Some c \<and> blocks_mission_start c) \<longleftrightarrow>
      (\<exists>sn. param_snapshot opts = Some sn \<and> (\<exists>rq\<in>set (param_requirements opts). \<not> param_ok sn rq))"
    unfolding p judge_keeps assemble_verdict using sup by (auto simp: blocks_mission_start_iff)
  then show ?thesis unfolding refused_def g by blast
qed

section \<open>Dry runs\<close>

lemma run_tasks_accepted:
  "\<forall>(_, _, call)\<in>set ts. call = Pair Accepted \<Longrightarrow>
   \<exists>s'. run_tasks i b ts s = Inr s' \<and> ex_retries s' = ex_retries s \<and>
     (list_all (\<lambda>(_, _, x). x = Accepted) (ex_steps s) \<longrightarrow> list_all (\<lambda>(_, _, x). x = Accepted) (ex_steps s'))"
proof (induction i b ts s rule: run_tasks.induct)
  case (2 i b label why call ts s)
  have "retry_loop (Pair Accepted) n 0 p = (Accepted, 0, p)" for n and p :: 'a by (cases n) simp_all
  then have e: "execute_step i b label why call s =
      Inr \<lparr>ex_steps = ex_steps s @ [(ex_index s, label, Accepted)], ex_retries = ex_retries s, ex_index = ex_index s + 1, ex_ack = ex_ack s\<rparr>"
    using 2(2) by (simp add: execute_step_def try_with_retry_def Let_def)
  then show ?case using 2(1) [OF e] 2(2) by auto
qed simp

lemma mock_tasks: "\<forall>(_, _, call)\<in>set (plan_tasks MockAckProvider plan). call = Pair Accepted"
  by (auto simp: plan_tasks_def command_tasks_def MockAckProvider_def split: option.splits if_splits)

text \<open>(C20) Dry runs of compiled plans. The executor refuses a compiled plan exactly if its options have a fence with items, or a snapshot that misses a
  required parameter or has one out of range. Every other compiled plan, run against a provider that accepts everything, completes without
  retries, and its report lists all commands of the prelude, the upload, the start and the postlude in this order, all accepted.\<close>

theorem compiled_plan_dry_run:
  assumes "compile_mavlink_common_plan env plan opts = Inr p"
  shows "let r = fst (execute MockAckProvider budget p ()) in
    if (\<exists>fp. fence_plan opts = Some fp \<and> fence_items fp \<noteq> []) \<or>
       (\<exists>sn. param_snapshot opts = Some sn \<and> (\<exists>rq\<in>set (param_requirements opts). \<not> param_ok sn rq))
    then \<exists>why. er_overall r = OutcomeAborted 0 why
    else er_overall r = OutcomeCompleted \<and> er_retry_count r = 0 \<and>
      map (\<lambda>(i, l, x). (i, l)) (er_steps r) = enumerate 0 (plan_labels p) \<and> list_all (\<lambda>(_, _, x). x = Accepted) (er_steps r)"
proof (cases "refused p")
  case True
  moreover from this have "\<exists>why. er_overall (fst (execute MockAckProvider budget p ())) = OutcomeAborted 0 why"
    by (auto simp: refused_def execute_def split: option.splits)
  ultimately show ?thesis unfolding compiled_refused [OF assms] Let_def by (simp only: if_True)
next
  case False
  let ?r = "fst (execute MockAckProvider budget p ())"
  from run_tasks_accepted [OF mock_tasks [of p], of "source_mission_id p" budget "\<lparr>ex_steps = [], ex_retries = 0, ex_index = 0, ex_ack = ()\<rparr>"]
  have r: "er_overall ?r = OutcomeCompleted" "er_retry_count ?r = 0" "list_all (\<lambda>(_, _, x). x = Accepted) (er_steps ?r)"
    by (auto simp: execute_not_refused [OF False] execute_all_tasks)
  have "follows (plan_labels p) ?r" using execute_all_follows by (simp add: execute_not_refused [OF False])
  then have "map (\<lambda>(i, l, x). (i, l)) (er_steps ?r) = enumerate 0 (plan_labels p)" using r(1) by (auto simp: follows_def)
  then show ?thesis using r False unfolding compiled_refused [OF assms] Let_def by (simp only: if_False)
qed

lemma survey_plan:
  obtains p where "compile_mavlink_common_plan plain_env survey_mission default_plan_options = Inr p" "\<not> refused p"
proof -
  obtain p where p: "compile_mavlink_common_plan plain_env survey_mission default_plan_options = Inr p" using survey_compiles by blast
  then show thesis using compiled_refused [OF p] by (intro that) (simp_all add: default_plan_options_def)
qed

theorem compiled_plan_dry_run_witness:
  "\<exists>p. compile_mavlink_common_plan plain_env survey_mission default_plan_options = Inr p \<and>
     er_overall (fst (execute MockAckProvider 0 p ())) = OutcomeCompleted"
proof -
  obtain p where p: "compile_mavlink_common_plan plain_env survey_mission default_plan_options = Inr p" "\<not> refused p" by (rule survey_plan)
  then show ?thesis using compiled_plan_dry_run [OF p(1), of 0] unfolding compiled_refused [OF p(1)] Let_def by (auto split: if_splits)
qed

theorem scripted_retries_accounted_witness:
  "\<exists>p. compile_mavlink_common_plan plain_env survey_mission default_plan_options = Inr p \<and>
     er_retry_count (fst (execute ScriptedAckProvider 0 p [StepTimeout 5])) = 0"
proof -
  obtain p where p: "compile_mavlink_common_plan plain_env survey_mission default_plan_options = Inr p" "\<not> refused p" by (rule survey_plan)
  obtain r rest where e: "execute ScriptedAckProvider 0 p [StepTimeout 5] = (r, rest)" by (cases "execute ScriptedAckProvider 0 p [StepTimeout 5]")
  from scripted_retries_accounted [OF p(2) e] have "unat (er_retry_count r) = 0" by simp
  then show ?thesis using p(1) e by (auto simp: unat_eq_0)
qed

end
