(* ===== verification/CommandPlane.thy ===== *)
theory CommandPlane
  imports MavlinkPlan Connectivity Text "HOL-Library.List_Lexorder"
begin

text \<open>
  The crate \<open>swarm-command-plane\<close>: command plans for a whole swarm (\<open>types.rs\<close>), the logical topology with its routes
  (\<open>topology.rs\<close>), synchronised commands (\<open>sync.rs\<close>), failure policies (\<open>policy.rs\<close>), summaries (\<open>summary.rs\<close>), validation
  (\<open>validation.rs\<close>) and the fan-out that builds a plan (\<open>fanout.rs\<close>). The order in which a \<open>HashMap\<close> is iterated is the
  argument \<open>order\<close>; it decides which of several errors is reported.
\<close>

section \<open>Types\<close>

datatype SwarmCommandRole =
  CrScout | CrObserver | CrRelay | CrLeader | CrCoordinator | CrMothership | CrCarrier | CrReserve | CrRecovery

fun role_from :: "Role \<Rightarrow> SwarmCommandRole" where
  "role_from Scout = CrScout"
| "role_from Relay = CrRelay"
| "role_from Mapper = CrObserver"
| "role_from Inspector = CrObserver"
| "role_from Thermal = CrObserver"
| "role_from Carrier = CrCarrier"

datatype SwarmSupervisorState =
  StPlanned | StDispatched | StActive | StDegraded | StReplacing | StAborting | StCompleted | StFailed

datatype SwarmAbortPolicy = AbortAgentOnly | AbortMission | ContinueDegraded | ReplaceFromReserve

datatype SwarmOwnershipKind = OwnedTask | OwnedRouteSegment | OwnedTarget | OwnedReplacementMission

datatype SwarmOwnershipStatus = OwnershipActive | OwnershipReleased

record SwarmOwnershipRef =
  rf_kind :: SwarmOwnershipKind
  rf_resource_id :: string

record SwarmOwnershipRecord =
  ow_agent_id :: AgentId
  ow_kind :: SwarmOwnershipKind
  ow_resource_id :: string
  ow_status :: SwarmOwnershipStatus
  ow_tick :: u64
  ow_reason :: string

record SwarmOwnershipHandoff =
  from_agent_id :: AgentId
  to_agent_id :: AgentId
  ho_kind :: SwarmOwnershipKind
  ho_resource_id :: string
  ho_tick :: u64
  ho_reason :: string

datatype SynchronizedCommandKind = ArmAll | TakeoffAll | StartAll | AbortAll

datatype PartialSuccessPolicy = RequireAll | AtLeast nat

record SynchronizedCommandWindow =
  sw_kind :: SynchronizedCommandKind
  sw_agent_ids :: "AgentId list"
  sw_timeout_ms :: u64
  partial_success_policy :: PartialSuccessPolicy

record SynchronizedCommandResult =
  sr_kind :: SynchronizedCommandKind
  succeeded :: "AgentId list"
  failed :: "AgentId list"
  timed_out :: "AgentId list"
  sr_accepted :: bool

datatype SwarmTopologyKind = CentralizedGcs | P2pLogical | MothershipTopology | RelayTopology | Mesh

datatype SwarmTopologyNodeKind = GcsNode | AgentKind | RelayKind | MothershipKind | CarrierKind

datatype SwarmTransportDeliveryModel = InMemory | Logical | LegacyUdp | FutureMavlinkRouter

record SwarmTransportAssumptions =
  delivery_model :: SwarmTransportDeliveryModel
  max_delay_ms :: "u64 option"
  ta_drop_rate :: "f64 option"
  hardware_boundary :: string

record SwarmTopologyNode =
  tn_node_id :: string
  tn_agent_id :: "AgentId option"
  tn_kind :: SwarmTopologyNodeKind
  tn_available :: bool

record SwarmTopologyLink =
  from_node_id :: string
  to_node_id :: string
  tl_available :: bool
  tl_delay_ms :: "u64 option"
  tl_drop_rate :: "f64 option"
  tl_reason :: "string option"

record SwarmMothershipDependency =
  parent_agent_id :: AgentId
  child_agent_id :: AgentId
  dependency_kind :: string
  md_reason :: string

record SwarmTopologyConfig =
  tc_kind :: SwarmTopologyKind
  gcs_node_id :: string
  tc_nodes :: "SwarmTopologyNode list"
  tc_links :: "SwarmTopologyLink list"
  tc_transport :: SwarmTransportAssumptions
  mothership_dependencies :: "SwarmMothershipDependency list"

record SwarmCommandRoute =
  rt_route_id :: string
  rt_from_node_id :: string
  rt_to_agent_id :: AgentId
  via_node_ids :: "string list"
  allowed :: bool
  degraded :: bool
  rt_reason :: string

record SwarmAgentCommandPlan =
  ap_agent_id :: AgentId
  ap_role :: SwarmCommandRole
  ap_command_plan :: MissionCommandPlan
  ap_mavlink_plan :: MavlinkCommonPlan
  ap_expected_acks :: "MavlinkExpectedAck list"
  ap_telemetry_milestones :: "MavlinkTelemetryMilestone list"
  ap_abort_policy :: SwarmAbortPolicy
  ap_ownership_refs :: "SwarmOwnershipRef list"

record SwarmCommandArtifactSummary =
  sm_schema_version :: string
  sm_plan_id :: string
  agent_plan_count :: nat
  active_ownership_count :: nat
  handoff_count :: nat
  sync_operation_count :: nat
  sm_topology_kind :: "SwarmTopologyKind option"
  topology_node_count :: nat
  topology_link_count :: nat
  command_route_count :: nat
  degraded_route_count :: nat
  mothership_dependency_count :: nat

record SwarmCommandPlan =
  sp_schema_version :: string
  sp_plan_id :: string
  supervisor_state :: SwarmSupervisorState
  sp_agents :: "SwarmAgentCommandPlan list"
  sp_ownership :: "SwarmOwnershipRecord list"
  sp_handoffs :: "SwarmOwnershipHandoff list"
  global_abort_policy :: SwarmAbortPolicy
  sync_operations :: "SynchronizedCommandWindow list"
  sync_results :: "SynchronizedCommandResult list"
  sp_topology :: "SwarmTopologyConfig option"
  command_routes :: "SwarmCommandRoute list"
  sp_summary :: SwarmCommandArtifactSummary

definition SWARM_COMMAND_PLANE_SCHEMA_VERSION :: string where
  "SWARM_COMMAND_PLANE_SCHEMA_VERSION = ''swarm_command_plane.v1''"

section \<open>Synchronised commands\<close>

datatype SyncAgentOutcome = SyncSucceeded | SyncFailed | SyncTimedOut

fun sync_loop ::
    "(AgentId, SyncAgentOutcome) hmap \<Rightarrow> AgentId list \<Rightarrow> AgentId set \<Rightarrow> AgentId list \<times> AgentId list \<times> AgentId list \<Rightarrow>
     AgentId set \<times> AgentId list \<times> AgentId list \<times> AgentId list" where
  "sync_loop outcomes [] seen acc = (seen, acc)"
| "sync_loop outcomes (a # as) seen (ok, bad, late) =
     (if a \<in> seen then sync_loop outcomes as seen (ok, bad, late)
      else sync_loop outcomes as (insert a seen)
        (case (case hm_get outcomes a of Some r \<Rightarrow> r | None \<Rightarrow> SyncSucceeded) of
           SyncSucceeded \<Rightarrow> (ok @ [a], bad, late)
         | SyncFailed \<Rightarrow> (ok, bad @ [a], late)
         | SyncTimedOut \<Rightarrow> (ok, bad, late @ [a])))"

definition evaluate_synchronized_command :: "SynchronizedCommandWindow \<Rightarrow> (AgentId, SyncAgentOutcome) hmap \<Rightarrow> SynchronizedCommandResult" where
  "evaluate_synchronized_command w outcomes =
     (case sync_loop outcomes (sw_agent_ids w) {} ([], [], []) of (seen, ok, bad, late) \<Rightarrow>
        \<lparr>sr_kind = sw_kind w, succeeded = ok, failed = bad, timed_out = late,
         sr_accepted = (case partial_success_policy w of
            RequireAll \<Rightarrow> length ok = card seen \<and> bad = [] \<and> late = []
          | AtLeast n \<Rightarrow> n \<le> length ok)\<rparr>)"

section \<open>Topology\<close>

definition DEFAULT_GCS_NODE_ID :: string where
  "DEFAULT_GCS_NODE_ID = ''gcs''"

definition in_memory_logical :: SwarmTransportAssumptions where
  "in_memory_logical = \<lparr>delivery_model = InMemory, max_delay_ms = Some 0, ta_drop_rate = Some f64_zero,
     hardware_boundary = ''logical command-plane routing only; no RF mesh or hardware transport guarantee''\<rparr>"

definition agent_node_id :: "AgentId \<Rightarrow> string" where
  "agent_node_id a = ''agent:'' @ a"

definition centralized_gcs_for_agents :: "SwarmAgentCommandPlan list \<Rightarrow> SwarmTopologyConfig" where
  "centralized_gcs_for_agents agents =
     \<lparr>tc_kind = CentralizedGcs, gcs_node_id = DEFAULT_GCS_NODE_ID,
      tc_nodes = \<lparr>tn_node_id = DEFAULT_GCS_NODE_ID, tn_agent_id = None, tn_kind = GcsNode, tn_available = True\<rparr> #
        map (\<lambda>a. \<lparr>tn_node_id = agent_node_id (ap_agent_id a), tn_agent_id = Some (ap_agent_id a), tn_kind = AgentKind, tn_available = True\<rparr>) agents,
      tc_links = concat (map (\<lambda>a.
        [\<lparr>from_node_id = DEFAULT_GCS_NODE_ID, to_node_id = agent_node_id (ap_agent_id a), tl_available = True, tl_delay_ms = Some 0,
          tl_drop_rate = Some f64_zero, tl_reason = Some ''centralized_gcs_command_path''\<rparr>,
         \<lparr>from_node_id = agent_node_id (ap_agent_id a), to_node_id = DEFAULT_GCS_NODE_ID, tl_available = True, tl_delay_ms = Some 0,
          tl_drop_rate = Some f64_zero, tl_reason = Some ''centralized_gcs_ack_path''\<rparr>]) agents),
      tc_transport = in_memory_logical, mothership_dependencies = []\<rparr>"

definition agent_node_id_in_topology :: "SwarmTopologyConfig \<Rightarrow> AgentId \<Rightarrow> string option" where
  "agent_node_id_in_topology t a = map_option tn_node_id (find (\<lambda>n. tn_agent_id n = Some a) (tc_nodes t))"

definition mothership_parent_node_id :: "SwarmTopologyConfig \<Rightarrow> AgentId \<Rightarrow> string option" where
  "mothership_parent_node_id t child =
     Option.bind (find (\<lambda>d. child_agent_id d = child) (mothership_dependencies t)) (\<lambda>d. agent_node_id_in_topology t (parent_agent_id d))"

definition available_link_exists :: "SwarmTopologyConfig \<Rightarrow> string \<Rightarrow> string \<Rightarrow> bool" where
  "available_link_exists t a b = list_ex (\<lambda>l. tl_available l \<and> from_node_id l = a \<and> to_node_id l = b) (tc_links t)"

subsection \<open>Breadth-first routes\<close>

definition available_nodes :: "SwarmTopologyConfig \<Rightarrow> string set" where
  "available_nodes t = set (map tn_node_id (filter tn_available (tc_nodes t)))"

definition topology_adjacency :: "SwarmTopologyConfig \<Rightarrow> adjacency" where
  "topology_adjacency t =
     hm_map (\<lambda>k ns. remdups_adj (sort ns))
       (foldl (\<lambda>adj l. if from_node_id l \<in> available_nodes t \<and> to_node_id l \<in> available_nodes t
                       then push_neighbor (from_node_id l) (to_node_id l) adj else adj) [] (filter tl_available (tc_links t)))"

fun push_unseen ::
    "string \<Rightarrow> string list \<Rightarrow> string list \<times> (string, string) hmap \<times> string set \<Rightarrow> string list \<times> (string, string) hmap \<times> string set" where
  "push_unseen node [] s = s"
| "push_unseen node (n # ns) (queue, previous, seen) =
     (if n \<in> seen then push_unseen node ns (queue, previous, seen)
      else push_unseen node ns (queue @ [n], hm_insert n node previous, insert n seen))"

lemma push_unseen_measure:
  "set ns \<subseteq> universe adj \<Longrightarrow>
   2 * card (universe adj - snd (snd (push_unseen x ns (q, p, v)))) + length (fst (push_unseen x ns (q, p, v)))
     \<le> 2 * card (universe adj - v) + length q"
proof (induction ns arbitrary: q p v)
  case (Cons n ns)
  show ?case
  proof (cases "n \<in> v")
    case False
    have "universe adj - insert n v = universe adj - v - {n}" by auto
    moreover have "n \<in> universe adj - v" using False Cons.prems by simp
    ultimately have "Suc (card (universe adj - insert n v)) = card (universe adj - v)"
      using card_Suc_Diff1 [of "universe adj - v" n] by simp
    then show ?thesis using Cons.IH [of "q @ [n]" "hm_insert n x p" "insert n v"] Cons.prems False by simp
  next
    case True
    then show ?thesis using Cons by simp
  qed
qed simp

lemma route_step_measure:
  "(case push_unseen x (neighbors adj x) (q, p, v) of (q', p', v') \<Rightarrow> 2 * card (universe adj - v') + length q')
     < Suc (2 * card (universe adj - v) + length q)"
  using push_unseen_measure [OF neighbors_universe, of adj x x q p v] by (cases "push_unseen x (neighbors adj x) (q, p, v)") auto

function route_search :: "adjacency \<Rightarrow> string \<Rightarrow> string list \<Rightarrow> (string, string) hmap \<Rightarrow> string set \<Rightarrow> (string, string) hmap option" where
  "route_search adj target [] previous seen = None"
| "route_search adj target (node # queue) previous seen =
     (if node = target then Some previous
      else case push_unseen node (neighbors adj node) (queue, previous, seen) of
        (queue', previous', seen') \<Rightarrow> route_search adj target queue' previous' seen')"
  by pat_completeness auto

termination
  by (relation "measure (\<lambda>(adj, t, q, p, v). 2 * card (universe adj - v) + length q)") (auto simp: route_step_measure)

text \<open>The loop of \<open>reconstruct_path\<close>; the table of the search has no cycle, and its size bounds the length of a chain.\<close>

fun reconstruct_loop :: "nat \<Rightarrow> string \<Rightarrow> (string, string) hmap \<Rightarrow> string \<Rightarrow> string list \<Rightarrow> string list" where
  "reconstruct_loop 0 start previous cursor path = path"
| "reconstruct_loop (Suc n) start previous cursor path =
     (if cursor = start then path
      else case hm_get previous cursor of None \<Rightarrow> path | Some parent \<Rightarrow> reconstruct_loop n start previous parent (path @ [parent]))"

definition reconstruct_path :: "string \<Rightarrow> string \<Rightarrow> (string, string) hmap \<Rightarrow> string list" where
  "reconstruct_path start dest previous = rev (reconstruct_loop (Suc (length previous)) start previous dest [dest])"

definition bfs_path :: "SwarmTopologyConfig \<Rightarrow> string \<Rightarrow> string \<Rightarrow> string list option" where
  "bfs_path t start dest =
     (if start \<notin> available_nodes t \<or> dest \<notin> available_nodes t then None
      else map_option (reconstruct_path start dest) (route_search (topology_adjacency t) dest [start] [] {start}))"

subsection \<open>Routes\<close>

definition route_path_for_kind :: "SwarmTopologyConfig \<Rightarrow> string \<Rightarrow> string \<Rightarrow> AgentId \<Rightarrow> string list option" where
  "route_path_for_kind t start dest a =
     (case (if tc_kind t = MothershipTopology then mothership_parent_node_id t a else None) of
        Some parent \<Rightarrow>
          if parent \<noteq> dest then
            (case bfs_path t start parent of None \<Rightarrow> None
             | Some path \<Rightarrow> (case bfs_path t parent dest of None \<Rightarrow> None | Some child_path \<Rightarrow> Some (path @ drop 1 child_path)))
          else bfs_path t start dest
      | None \<Rightarrow> bfs_path t start dest)"

definition route_path_degraded :: "SwarmTopologyConfig \<Rightarrow> string list \<Rightarrow> bool" where
  "route_path_degraded t path = list_ex (\<lambda>(a, b). list_ex (\<lambda>l. tl_available l \<and> from_node_id l = a \<and> to_node_id l = b \<and>
     f64_lt f64_zero (case tl_drop_rate l of Some r \<Rightarrow> r | None \<Rightarrow> f64_zero)) (tc_links t)) (windows2 path)"

fun route_reason :: "SwarmTopologyKind \<Rightarrow> string" where
  "route_reason CentralizedGcs = ''centralized_gcs_route''"
| "route_reason P2pLogical = ''p2p_logical_route''"
| "route_reason MothershipTopology = ''mothership_dependency_route''"
| "route_reason RelayTopology = ''relay_route''"
| "route_reason Mesh = ''mesh_route''"

fun blocked_reason :: "SwarmTopologyKind \<Rightarrow> string" where
  "blocked_reason CentralizedGcs = ''centralized_gcs_route_unavailable''"
| "blocked_reason P2pLogical = ''p2p_logical_link_missing''"
| "blocked_reason MothershipTopology = ''mothership_dependency_route_unavailable''"
| "blocked_reason RelayTopology = ''relay_unavailable_or_partitioned''"
| "blocked_reason Mesh = ''mesh_partition_or_blocked_link''"

definition route_between :: "SwarmTopologyConfig \<Rightarrow> string \<Rightarrow> AgentId \<Rightarrow> SwarmCommandRoute" where
  "route_between t start a =
     (let blocked = (\<lambda>why. \<lparr>rt_route_id = ''route:'' @ start @ '':'' @ a, rt_from_node_id = start, rt_to_agent_id = a, via_node_ids = [],
            allowed = False, degraded = True, rt_reason = why\<rparr>)
      in case agent_node_id_in_topology t a of
           None \<Rightarrow> blocked ''missing_agent_topology_node''
         | Some dest \<Rightarrow>
             (case route_path_for_kind t start dest a of
                None \<Rightarrow> blocked (blocked_reason (tc_kind t))
              | Some path \<Rightarrow> \<lparr>rt_route_id = ''route:'' @ start @ '':'' @ a, rt_from_node_id = start, rt_to_agent_id = a, via_node_ids = path,
                  allowed = True, degraded = route_path_degraded t path, rt_reason = route_reason (tc_kind t)\<rparr>))"

definition push_new_route :: "SwarmCommandRoute list \<Rightarrow> SwarmCommandRoute \<Rightarrow> SwarmCommandRoute list" where
  "push_new_route routes r = (if list_all (\<lambda>e. rt_route_id e \<noteq> rt_route_id r) routes then routes @ [r] else routes)"

definition route_command_plan :: "SwarmTopologyConfig \<Rightarrow> SwarmAgentCommandPlan list \<Rightarrow> SwarmCommandRoute list" where
  "route_command_plan t agents =
     (let routes = map (\<lambda>a. route_between t (gcs_node_id t) (ap_agent_id a)) agents
      in if tc_kind t = P2pLogical then
           let agent_nodes = sort_key tn_node_id (filter (\<lambda>n. tn_agent_id n \<noteq> None) (tc_nodes t))
           in foldl push_new_route routes
                (concat (map (\<lambda>src. List.map_filter (\<lambda>dst. if tn_node_id src = tn_node_id dst then None
                    else map_option (route_between t (tn_node_id src)) (tn_agent_id dst)) agent_nodes) agent_nodes))
         else routes)"

subsection \<open>Cycles of dependencies\<close>

definition dependency_graph :: "SwarmMothershipDependency list \<Rightarrow> adjacency" where
  "dependency_graph ds = foldl (\<lambda>g d. push_neighbor (parent_agent_id d) (child_agent_id d) g) [] ds"

text \<open>The recursion of \<open>dfs_cycle\<close>, with the loop over the children: the agents still to search, the set \<open>visiting\<close> and the
  set \<open>visited\<close>. The result is whether a cycle was found, with the two sets.\<close>

partial_function (option) dfs_agents ::
    "adjacency \<Rightarrow> AgentId list \<Rightarrow> AgentId set \<Rightarrow> AgentId set \<Rightarrow> (bool \<times> AgentId set \<times> AgentId set) option" where
  "dfs_agents g as visiting visited =
     (case as of
        [] \<Rightarrow> Some (False, visiting, visited)
      | a # rest \<Rightarrow>
          if a \<in> visited then dfs_agents g rest visiting visited
          else if a \<in> visiting then Some (True, visiting, visited)
          else Option.bind (dfs_agents g (sort (neighbors g a)) (insert a visiting) visited)
            (\<lambda>(found, visiting', visited').
               if found then Some (True, visiting', visited')
               else dfs_agents g rest (visiting' - {a}) (insert a visited')))"

fun first_cycle :: "adjacency \<Rightarrow> AgentId list \<Rightarrow> AgentId set \<Rightarrow> AgentId set \<Rightarrow> AgentId option option" where
  "first_cycle g [] visiting visited = Some None"
| "first_cycle g (a # as) visiting visited =
     Option.bind (dfs_agents g [a] visiting visited)
       (\<lambda>(found, visiting', visited'). if found then Some (Some a) else first_cycle g as visiting' visited')"

definition has_mothership_cycle :: "SwarmMothershipDependency list \<Rightarrow> AgentId option option" where
  "has_mothership_cycle ds = first_cycle (dependency_graph ds) (sort (hm_keys (dependency_graph ds))) {} {}"

section \<open>Validation\<close>

datatype SwarmCommandPlaneError =
  UnsupportedSchema string
| DuplicateAgentPlan AgentId
| DuplicateOwnership SwarmOwnershipKind string
| SourceAgentMismatch string string AgentId
| MissingActiveOwnership AgentId SwarmOwnershipKind string
| MissingReplacementAgent
| MissingFailedAgent AgentId
| MissingHandoffEvidence SwarmOwnershipKind string AgentId AgentId
| MissingAbortTargets
| MissingTopologyNode string
| DuplicateTopologyNode string
| UnknownTopologyLinkEndpoint string
| MissingCommandRoute AgentId
| UnknownCommandRouteNode string string
| CommandRoutePathMismatch string
| MothershipRouteBypassesParent string string
| BlockedRouteWithoutReason string
| MothershipDependencyCycle AgentId
| UnknownMothershipDependencyAgent AgentId
| MissingTransportAssumption

type_synonym checked = "SwarmCommandPlaneError + unit"
type_synonym resource = "SwarmOwnershipKind \<times> string"
type_synonym released_map = "(resource, AgentId list) hmap"

definition reject_if :: "bool \<Rightarrow> SwarmCommandPlaneError \<Rightarrow> checked" where
  "reject_if b e = (if b then Inl e else Inr ())"

lemma reject_if_ok [simp]: "reject_if b e = Inr u \<longleftrightarrow> \<not> b"
  by (simp add: reject_if_def)

definition is_reserve :: "SwarmAgentCommandPlan \<Rightarrow> bool" where
  "is_reserve a = (ap_role a = CrReserve \<or> ap_role a = CrRecovery)"

definition ensure_replacement_candidate :: "SwarmCommandPlan \<Rightarrow> checked" where
  "ensure_replacement_candidate plan = reject_if (\<not> list_ex is_reserve (sp_agents plan)) MissingReplacementAgent"

definition ensure_replacement_candidate_for_agent :: "SwarmCommandPlan \<Rightarrow> AgentId \<Rightarrow> checked" where
  "ensure_replacement_candidate_for_agent plan failed_id =
     reject_if (\<not> list_ex (\<lambda>a. ap_agent_id a \<noteq> failed_id \<and> is_reserve a) (sp_agents plan)) MissingReplacementAgent"

definition has_handoff :: "SwarmCommandPlan \<Rightarrow> resource \<Rightarrow> AgentId \<Rightarrow> AgentId \<Rightarrow> bool" where
  "has_handoff plan key giver taker =
     list_ex (\<lambda>h. ho_kind h = fst key \<and> ho_resource_id h = snd key \<and> from_agent_id h = giver \<and> to_agent_id h = taker) (sp_handoffs plan)"

definition validate_handoff_evidence ::
    "(released_map \<Rightarrow> released_map) \<Rightarrow> SwarmCommandPlan \<Rightarrow> (resource, AgentId) hmap \<Rightarrow> released_map \<Rightarrow> checked" where
  "validate_handoff_evidence order plan active released =
     try_for_each (\<lambda>(key, givers). case hm_get active key of
         None \<Rightarrow> Inr ()
       | Some taker \<Rightarrow> try_for_each (\<lambda>giver. if giver = taker then Inr ()
           else reject_if (\<not> has_handoff plan key giver taker) (MissingHandoffEvidence (fst key) (snd key) giver taker)) givers)
       (order released)"

definition validate_command_route :: "SwarmTopologyConfig \<Rightarrow> string set \<Rightarrow> SwarmCommandRoute \<Rightarrow> checked" where
  "validate_command_route t node_ids r =
     (if rt_from_node_id r \<notin> node_ids then Inl (UnknownCommandRouteNode (rt_route_id r) (rt_from_node_id r))
      else and_then (try_for_each (\<lambda>n. reject_if (n \<notin> node_ids) (UnknownCommandRouteNode (rt_route_id r) n)) (via_node_ids r))
        (case agent_node_id_in_topology t (rt_to_agent_id r) of
           None \<Rightarrow> Inl (MissingTopologyNode (''agent:'' @ rt_to_agent_id r))
         | Some dest \<Rightarrow>
             (let expected = route_between t (rt_from_node_id r) (rt_to_agent_id r); via = via_node_ids r
              in if \<not> allowed r then
                   (if trim (rt_reason r) = [] then Inl (BlockedRouteWithoutReason (rt_route_id r))
                    else reject_if (allowed expected) (CommandRoutePathMismatch (rt_route_id r)))
                 else if \<not> allowed expected \<or> via \<noteq> via_node_ids expected \<or> via = [] \<or> hd via \<noteq> rt_from_node_id r \<or> List.last via \<noteq> dest
                 then Inl (CommandRoutePathMismatch (rt_route_id r))
                 else and_then (try_for_each (\<lambda>(a, b). reject_if (\<not> available_link_exists t a b) (CommandRoutePathMismatch (rt_route_id r))) (windows2 via))
                   (case mothership_parent_node_id t (rt_to_agent_id r) of
                      None \<Rightarrow> Inr ()
                    | Some parent \<Rightarrow> reject_if (parent \<notin> set via) (MothershipRouteBypassesParent (rt_route_id r) parent)))))"

definition validate_agent_route :: "SwarmCommandPlan \<Rightarrow> SwarmTopologyConfig \<Rightarrow> SwarmAgentCommandPlan \<Rightarrow> checked" where
  "validate_agent_route plan t a =
     (if \<not> list_ex (\<lambda>n. tn_agent_id n = Some (ap_agent_id a)) (tc_nodes t) then Inl (MissingTopologyNode (''agent:'' @ ap_agent_id a))
      else case find (\<lambda>r. rt_to_agent_id r = ap_agent_id a \<and> rt_from_node_id r = gcs_node_id t) (command_routes plan) of
        None \<Rightarrow> Inl (MissingCommandRoute (ap_agent_id a))
      | Some r \<Rightarrow> reject_if (\<not> allowed r \<and> trim (rt_reason r) = []) (BlockedRouteWithoutReason (rt_route_id r)))"

text \<open>The search for a cycle always returns (\<open>has_mothership_cycle_total\<close>); \<open>None\<close> stands for a search that does not.\<close>

definition validate_topology :: "SwarmCommandPlan \<Rightarrow> SwarmTopologyConfig \<Rightarrow> checked option" where
  "validate_topology plan t =
     (let node_ids = set (map tn_node_id (tc_nodes t)); agent_ids = set (map ap_agent_id (sp_agents plan));
          known = (\<lambda>a. reject_if (a \<notin> agent_ids) (UnknownMothershipDependencyAgent a));
          checks =
            and_then (reject_if (trim (hardware_boundary (tc_transport t)) = []) MissingTransportAssumption)
           (and_then (case find_dup {} (map tn_node_id (tc_nodes t)) of Some n \<Rightarrow> Inl (DuplicateTopologyNode n) | None \<Rightarrow> Inr ())
           (and_then (reject_if (gcs_node_id t \<notin> node_ids) (MissingTopologyNode (gcs_node_id t)))
           (and_then (try_for_each (\<lambda>l. try_for_each (\<lambda>n. reject_if (n \<notin> node_ids) (UnknownTopologyLinkEndpoint n))
                       [from_node_id l, to_node_id l]) (tc_links t))
           (and_then (try_for_each (validate_agent_route plan t) (sp_agents plan))
           (and_then (try_for_each (validate_command_route t node_ids) (command_routes plan))
             (try_for_each (\<lambda>d. try_for_each known [parent_agent_id d, child_agent_id d]) (mothership_dependencies t)))))))
      in case checks of
           Inl e \<Rightarrow> Some (Inl e)
         | Inr _ \<Rightarrow> map_option (\<lambda>c. case c of Some a \<Rightarrow> Inl (MothershipDependencyCycle a) | None \<Rightarrow> Inr ())
             (has_mothership_cycle (mothership_dependencies t)))"

text \<open>The first loop of \<open>validate_swarm_command_plan\<close>, over the agents with the set of identifiers seen.\<close>

definition validate_source_agent :: "SwarmAgentCommandPlan \<Rightarrow> checked" where
  "validate_source_agent a = try_for_each (\<lambda>e. case source_agent_id e of
       None \<Rightarrow> Inr ()
     | Some src \<Rightarrow> reject_if (src \<noteq> ap_agent_id a) (SourceAgentMismatch (command_id e) src (ap_agent_id a)))
     (commands (ap_command_plan a))"

fun validate_agents :: "AgentId set \<Rightarrow> SwarmAgentCommandPlan list \<Rightarrow> checked" where
  "validate_agents seen [] = Inr ()"
| "validate_agents seen (a # as) =
     (if ap_agent_id a \<in> seen then Inl (DuplicateAgentPlan (ap_agent_id a))
      else and_then (validate_source_agent a) (validate_agents (insert (ap_agent_id a) seen) as))"

fun collect_ownership ::
    "SwarmOwnershipRecord list \<Rightarrow> (resource, AgentId) hmap \<Rightarrow> released_map \<Rightarrow> SwarmCommandPlaneError + (resource, AgentId) hmap \<times> released_map" where
  "collect_ownership [] active released = Inr (active, released)"
| "collect_ownership (r # rs) active released =
     (let key = (ow_kind r, ow_resource_id r)
      in if ow_status r = OwnershipReleased
         then collect_ownership rs active
                (hm_insert key ((case hm_get released key of Some l \<Rightarrow> l | None \<Rightarrow> []) @ [ow_agent_id r]) released)
         else if hm_get active key \<noteq> None then Inl (DuplicateOwnership (ow_kind r) (ow_resource_id r))
         else collect_ownership rs (hm_insert key (ow_agent_id r) active) released)"

definition validate_ownership_refs :: "(resource, AgentId) hmap \<Rightarrow> SwarmAgentCommandPlan \<Rightarrow> checked" where
  "validate_ownership_refs active a =
     try_for_each (\<lambda>r. reject_if (hm_get active (rf_kind r, rf_resource_id r) \<noteq> Some (ap_agent_id a))
       (MissingActiveOwnership (ap_agent_id a) (rf_kind r) (rf_resource_id r))) (ap_ownership_refs a)"

definition validate_policies :: "SwarmCommandPlan \<Rightarrow> checked" where
  "validate_policies plan =
     and_then (reject_if (global_abort_policy plan = AbortMission \<and> sp_agents plan = []) MissingAbortTargets)
    (and_then (if global_abort_policy plan = ReplaceFromReserve then ensure_replacement_candidate plan else Inr ())
      (try_for_each (\<lambda>a. if ap_abort_policy a = ReplaceFromReserve then ensure_replacement_candidate_for_agent plan (ap_agent_id a) else Inr ())
        (sp_agents plan)))"

definition validate_swarm_command_plan :: "(released_map \<Rightarrow> released_map) \<Rightarrow> SwarmCommandPlan \<Rightarrow> checked option" where
  "validate_swarm_command_plan order plan =
     (let checks =
        and_then (reject_if (sp_schema_version plan \<noteq> SWARM_COMMAND_PLANE_SCHEMA_VERSION) (UnsupportedSchema (sp_schema_version plan)))
       (and_then (validate_agents {} (sp_agents plan))
         (case collect_ownership (sp_ownership plan) [] [] of
            Inl e \<Rightarrow> Inl e
          | Inr (active, released) \<Rightarrow>
              and_then (validate_handoff_evidence order plan active released)
             (and_then (try_for_each (validate_ownership_refs active) (sp_agents plan)) (validate_policies plan))))
      in case checks of
           Inl e \<Rightarrow> Some (Inl e)
         | Inr _ \<Rightarrow> (case sp_topology plan of None \<Rightarrow> Some (Inr ()) | Some t \<Rightarrow> validate_topology plan t))"

section \<open>Failure policies\<close>

datatype SwarmFailureDecision =
  DecideAbortAgentOnly AgentId
| DecideAbortMission AgentId "AgentId list"
| DecideContinueDegraded AgentId "SwarmOwnershipRecord list"
| DecideReplaceFromReserve AgentId AgentId "SwarmOwnershipHandoff list"

definition released_ownership :: "SwarmCommandPlan \<Rightarrow> AgentId \<Rightarrow> SwarmOwnershipRecord list" where
  "released_ownership plan failed_id = filter (\<lambda>r. ow_agent_id r = failed_id \<and> ow_status r = OwnershipActive) (sp_ownership plan)"

definition apply_agent_failure :: "SwarmCommandPlan \<Rightarrow> AgentId \<Rightarrow> SwarmCommandPlaneError + SwarmFailureDecision" where
  "apply_agent_failure plan failed_id =
     (case find (\<lambda>a. ap_agent_id a = failed_id) (sp_agents plan) of
        None \<Rightarrow> Inl (MissingFailedAgent failed_id)
      | Some f \<Rightarrow>
          (case ap_abort_policy f of
             AbortAgentOnly \<Rightarrow> Inr (DecideAbortAgentOnly failed_id)
           | AbortMission \<Rightarrow> Inr (DecideAbortMission failed_id (map ap_agent_id (sp_agents plan)))
           | ContinueDegraded \<Rightarrow> Inr (DecideContinueDegraded failed_id (released_ownership plan failed_id))
           | ReplaceFromReserve \<Rightarrow>
               and_then (ensure_replacement_candidate_for_agent plan failed_id)
                 (case find is_reserve (filter (\<lambda>a. ap_agent_id a \<noteq> failed_id) (sp_agents plan)) of
                    None \<Rightarrow> Inl MissingReplacementAgent
                  | Some r \<Rightarrow> Inr (DecideReplaceFromReserve failed_id (ap_agent_id r)
                      (map (\<lambda>w. \<lparr>from_agent_id = failed_id, to_agent_id = ap_agent_id r, ho_kind = ow_kind w, ho_resource_id = ow_resource_id w,
                          ho_tick = ow_tick w, ho_reason = ''agent_failure_replacement''\<rparr>)
                        (filter (\<lambda>w. ow_agent_id w = failed_id \<and> ow_status w = OwnershipActive) (sp_ownership plan)))))))"

section \<open>Summary and fan-out\<close>

definition summarize_swarm_command_plan :: "SwarmCommandPlan \<Rightarrow> SwarmCommandArtifactSummary" where
  "summarize_swarm_command_plan plan =
     \<lparr>sm_schema_version = SWARM_COMMAND_PLANE_SCHEMA_VERSION, sm_plan_id = sp_plan_id plan, agent_plan_count = length (sp_agents plan),
      active_ownership_count = length (filter (\<lambda>r. ow_status r = OwnershipActive) (sp_ownership plan)),
      handoff_count = length (sp_handoffs plan), sync_operation_count = length (sync_operations plan),
      sm_topology_kind = map_option tc_kind (sp_topology plan),
      topology_node_count = (case sp_topology plan of None \<Rightarrow> 0 | Some t \<Rightarrow> length (tc_nodes t)),
      topology_link_count = (case sp_topology plan of None \<Rightarrow> 0 | Some t \<Rightarrow> length (tc_links t)),
      command_route_count = length (command_routes plan), degraded_route_count = length (filter degraded (command_routes plan)),
      mothership_dependency_count = (case sp_topology plan of None \<Rightarrow> 0 | Some t \<Rightarrow> length (mothership_dependencies t))\<rparr>"

definition default_summary :: SwarmCommandArtifactSummary where
  "default_summary = \<lparr>sm_schema_version = [], sm_plan_id = [], agent_plan_count = 0, active_ownership_count = 0, handoff_count = 0,
     sync_operation_count = 0, sm_topology_kind = None, topology_node_count = 0, topology_link_count = 0, command_route_count = 0,
     degraded_route_count = 0, mothership_dependency_count = 0\<rparr>"

record AgentCommandAssignment =
  ca_agent_id :: AgentId
  ca_role :: SwarmCommandRole
  ca_command_plan :: MissionCommandPlan
  ca_abort_policy :: SwarmAbortPolicy
  ca_ownership_refs :: "SwarmOwnershipRef list"

record SwarmCommandFanoutInput =
  fi_plan_id :: string
  assignments :: "AgentCommandAssignment list"
  fi_ownership :: "SwarmOwnershipRecord list"
  fi_global_abort_policy :: SwarmAbortPolicy
  fi_sync_operations :: "SynchronizedCommandWindow list"
  fi_topology :: "SwarmTopologyConfig option"
  mavlink_options :: MavlinkCommonPlanOptions

fun fence_error_display :: "FenceCompilerError \<Rightarrow> string" where
  "fence_error_display (UnsupportedByProfile k p) =
     ''fence item kind '' @ quoted (case k of CircleInclusion \<Rightarrow> ''CircleInclusion'' | CircleExclusion \<Rightarrow> ''CircleExclusion''
        | PolygonInclusion \<Rightarrow> ''PolygonInclusion'' | PolygonExclusion \<Rightarrow> ''PolygonExclusion'') @
     '' is not supported by profile '' @ quoted (profile_id_as_str p)"
| "fence_error_display (PolygonTooFewVertices n) = ''polygon fence requires at least 3 vertices, got '' @ show_nat n"
| "fence_error_display (PolygonTooManyVertices n limit) =
     ''polygon fence exceeds MAVLink limit of '' @ show_nat limit @ '' vertices, got '' @ show_nat n"
| "fence_error_display (NonFiniteFence i) = ''fence item '' @ quoted i @ '' contains non-finite coordinate''"

fun compiler_error_display :: "MavlinkCommonCompilerError \<Rightarrow> string" where
  "compiler_error_display (IrValidation m) = ''mission IR validation failed: '' @ m"
| "compiler_error_display (Coordinate m) = ''coordinate conversion failed: '' @ m"
| "compiler_error_display MissingHomeOrigin = ''local position requires MavlinkCommonPlanOptions.home_origin''"
| "compiler_error_display (InvalidOrbitSegments n) = ''orbit approximation requires segments_per_turn > 0, got '' @ show_nat (unat n)"
| "compiler_error_display (TooManyMissionItems n) = ''compiled mission contains too many mission items: '' @ show_nat n"
| "compiler_error_display (IrSerialization m) = ''mission IR serialization failed: '' @ m"
| "compiler_error_display (FenceCompilation e) = ''fence compilation failed: '' @ fence_error_display e"

definition compile_assignment ::
    "CompilerEnv \<Rightarrow> MavlinkCommonPlanOptions \<Rightarrow> AgentCommandAssignment \<Rightarrow> SwarmCommandPlaneError + SwarmAgentCommandPlan" where
  "compile_assignment env opts a =
     (case compile_mavlink_common_plan env (ca_command_plan a) opts of
        Inl e \<Rightarrow> Inl (UnsupportedSchema (compiler_error_display e))
      | Inr m \<Rightarrow> Inr \<lparr>ap_agent_id = ca_agent_id a, ap_role = ca_role a, ap_command_plan = ca_command_plan a, ap_mavlink_plan = m,
          ap_expected_acks = expected_acks m, ap_telemetry_milestones = telemetry_milestones m, ap_abort_policy = ca_abort_policy a,
          ap_ownership_refs = ca_ownership_refs a\<rparr>)"

fun compile_assignments ::
    "CompilerEnv \<Rightarrow> MavlinkCommonPlanOptions \<Rightarrow> AgentCommandAssignment list \<Rightarrow> SwarmCommandPlaneError + SwarmAgentCommandPlan list" where
  "compile_assignments env opts [] = Inr []"
| "compile_assignments env opts (a # as) =
     (case compile_assignment env opts a of
        Inl e \<Rightarrow> Inl e
      | Inr p \<Rightarrow> (case compile_assignments env opts as of Inl e \<Rightarrow> Inl e | Inr ps \<Rightarrow> Inr (p # ps)))"

definition assemble_plan :: "SwarmCommandFanoutInput \<Rightarrow> SwarmAgentCommandPlan list \<Rightarrow> SwarmCommandPlan" where
  "assemble_plan i agents =
     (let t = (case fi_topology i of Some t \<Rightarrow> t | None \<Rightarrow> centralized_gcs_for_agents agents);
          plan = \<lparr>sp_schema_version = SWARM_COMMAND_PLANE_SCHEMA_VERSION, sp_plan_id = fi_plan_id i, supervisor_state = StPlanned,
            sp_agents = agents, sp_ownership = fi_ownership i, sp_handoffs = [], global_abort_policy = fi_global_abort_policy i,
            sync_operations = fi_sync_operations i, sync_results = [], sp_topology = Some t,
            command_routes = route_command_plan t agents, sp_summary = default_summary\<rparr>
      in plan\<lparr>sp_summary := summarize_swarm_command_plan plan\<rparr>)"

definition build_swarm_command_plan ::
    "(released_map \<Rightarrow> released_map) \<Rightarrow> CompilerEnv \<Rightarrow> SwarmCommandFanoutInput \<Rightarrow> (SwarmCommandPlaneError + SwarmCommandPlan) option" where
  "build_swarm_command_plan order env i =
     (case compile_assignments env (mavlink_options i) (assignments i) of
        Inl e \<Rightarrow> Some (Inl e)
      | Inr agents \<Rightarrow>
          (let plan = assemble_plan i agents
           in map_option (\<lambda>r. case r of Inl e \<Rightarrow> Inl e | Inr _ \<Rightarrow> Inr plan) (validate_swarm_command_plan order plan)))"

end
