(* ===== verification/CommandRoutes.thy ===== *)
theory CommandRoutes
  imports CommandPlane
begin

text \<open>
  The routes of \<open>topology.rs\<close>: the breadth-first search with its table of predecessors finds a shortest chain of available links, a
  route over a mothership is a shortest one among those that visit the parent, and every computed route passes the validation.
\<close>

section \<open>The adjacency lists\<close>

lemma neighbors_sorted_dedup: "set (neighbors (hm_map (\<lambda>k ns. remdups_adj (sort ns)) adj) x) = set (neighbors adj x)"
  by (cases "hm_get adj x") (simp_all add: neighbors_def)

lemma neighbors_push_links:
  "set (neighbors (foldl (\<lambda>adj l. if P l then push_neighbor (f l) (g l) adj else adj) adj ls) x) =
     set (neighbors adj x) \<union> {g l | l. l \<in> set ls \<and> P l \<and> f l = x}"
  by (induction ls arbitrary: adj) auto

lemma neighbors_Nil [simp]: "neighbors [] x = []"
  by (simp add: neighbors_def)

lemma neighbors_topology:
  "y \<in> set (neighbors (topology_adjacency t) x) \<longleftrightarrow> x \<in> available_nodes t \<and> y \<in> available_nodes t \<and> available_link_exists t x y"
  unfolding topology_adjacency_def neighbors_sorted_dedup neighbors_push_links
  by (auto simp: available_link_exists_def list_ex_iff)

section \<open>Routes as chains of links\<close>

definition is_route :: "SwarmTopologyConfig \<Rightarrow> string \<Rightarrow> string \<Rightarrow> string list \<Rightarrow> bool" where
  "is_route t a b p \<longleftrightarrow> p \<noteq> [] \<and> hd p = a \<and> List.last p = b \<and> set p \<subseteq> available_nodes t \<and> successively (available_link_exists t) p"

definition chain :: "adjacency \<Rightarrow> string list \<Rightarrow> bool" where
  "chain adj p = successively (\<lambda>x y. y \<in> set (neighbors adj x)) p"

lemma chain_snoc: "chain adj (p @ [y]) \<longleftrightarrow> chain adj p \<and> (p = [] \<or> y \<in> set (neighbors adj (List.last p)))"
  by (auto simp: chain_def successively_append_iff)

lemma walk_chain: "walk adj n a b \<longleftrightarrow> (\<exists>p. length p = Suc n \<and> hd p = a \<and> List.last p = b \<and> chain adj p)"
proof (induction n arbitrary: b)
  case 0
  show ?case
  proof
    assume "walk adj 0 a b"
    then show "\<exists>p. length p = Suc 0 \<and> hd p = a \<and> List.last p = b \<and> chain adj p"
      by (intro exI [of _ "[a]"]) (simp add: chain_def)
  qed (auto simp: length_Suc_conv)
next
  case (Suc n)
  show ?case
  proof
    assume "walk adj (Suc n) a b"
    then obtain y p where "length p = Suc n" "hd p = a" "List.last p = y" "chain adj p" "b \<in> set (neighbors adj y)"
      using Suc by auto
    moreover have "p \<noteq> []" using \<open>length p = Suc n\<close> by auto
    ultimately show "\<exists>p. length p = Suc (Suc n) \<and> hd p = a \<and> List.last p = b \<and> chain adj p"
      by (intro exI [of _ "p @ [b]"]) (auto simp: chain_snoc)
  next
    assume "\<exists>p. length p = Suc (Suc n) \<and> hd p = a \<and> List.last p = b \<and> chain adj p"
    then obtain p where p: "length p = Suc (Suc n)" "hd p = a" "List.last p = b" "chain adj p" by blast
    then obtain q y where q: "p = q @ [y]" by (cases p rule: rev_cases) auto
    then have "q \<noteq> []" using p by auto
    then have "length q = Suc n \<and> hd q = a \<and> List.last q = List.last q \<and> chain adj q" "b \<in> set (neighbors adj (List.last q))"
      using p q by (auto simp: chain_snoc)
    then show "walk adj (Suc n) a b" using Suc by auto
  qed
qed

lemma chain_route:
  assumes "a \<in> available_nodes t"
  shows "p \<noteq> [] \<and> hd p = a \<and> List.last p = b \<and> chain (topology_adjacency t) p \<longleftrightarrow> is_route t a b p"
proof (cases "p = []")
  case False
  have "chain (topology_adjacency t) p \<longleftrightarrow> set p \<subseteq> available_nodes t \<and> successively (available_link_exists t) p"
    if "hd p = a"
    using that False
  proof (induction p rule: rev_induct)
    case (snoc y ys)
    show ?case
    proof (cases "ys = []")
      case True
      then show ?thesis using snoc.prems assms by (simp add: chain_def)
    next
      case False
      then have "chain (topology_adjacency t) ys \<longleftrightarrow> set ys \<subseteq> available_nodes t \<and> successively (available_link_exists t) ys"
        using snoc by simp
      moreover have "List.last ys \<in> set ys" using False by simp
      ultimately show ?thesis using False by (auto simp: chain_snoc neighbors_topology successively_append_iff)
    qed
  qed simp
  with False show ?thesis by (auto simp: is_route_def)
qed (simp add: is_route_def)

section \<open>The search\<close>

text \<open>The table of predecessors: every visited node but the source has a predecessor one level above it that links to it.\<close>

definition pred_inv :: "adjacency \<Rightarrow> string \<Rightarrow> (string \<rightharpoonup> nat) \<Rightarrow> (string, string) hmap \<Rightarrow> bool" where
  "pred_inv adj src seen previous \<longleftrightarrow> hm_get previous src = None \<and>
     (\<forall>y h. y \<noteq> src \<and> seen y = Some h \<longrightarrow>
        (\<exists>x k. hm_get previous y = Some x \<and> h = Suc k \<and> seen x = Some k \<and> y \<in> set (neighbors adj x)))"

lemma push_unseen_spec:
  "push_unseen x ns (q, p, v) = (q', p', v') \<Longrightarrow>
     v' = v \<union> set ns \<and> (\<exists>new. q' = q @ new \<and> distinct new \<and> set new = set ns - v) \<and>
     (\<forall>y. hm_get p' y = (if y \<in> set ns - v then Some x else hm_get p y))"
proof (induction ns arbitrary: q p v)
  case (Cons n ns)
  show ?case
  proof (cases "n \<in> v")
    case True
    then show ?thesis using Cons by auto
  next
    case False
    then have "push_unseen x ns (q @ [n], hm_insert n x p, insert n v) = (q', p', v')" using Cons.prems by simp
    from Cons.IH [OF this] obtain new where "v' = insert n v \<union> set ns" "q' = (q @ [n]) @ new" "distinct new"
      "set new = set ns - insert n v" "\<forall>y. hm_get p' y = (if y \<in> set ns - insert n v then Some x else hm_get (hm_insert n x p) y)"
      by blast
    with False show ?thesis by (intro conjI exI [of _ "n # new"]) auto
  qed
qed auto

lemma pred_inv_step:
  assumes inv: "pred_inv adj src seen p" "seen x = Some h" "seen src = Some 0"
    and p': "\<forall>y. hm_get p' y = (if y \<in> set (neighbors adj x) - dom seen then Some x else hm_get p y)"
  shows "pred_inv adj src (see_level h (neighbors adj x) seen) p'"
  unfolding pred_inv_def
proof (intro conjI allI impI)
  show "hm_get p' src = None" using inv p' by (auto simp: pred_inv_def)
  fix y k assume y: "y \<noteq> src \<and> see_level h (neighbors adj x) seen y = Some k"
  show "\<exists>x' k'. hm_get p' y = Some x' \<and> k = Suc k' \<and> see_level h (neighbors adj x) seen x' = Some k' \<and> y \<in> set (neighbors adj x')"
  proof (cases "seen y")
    case None
    then show ?thesis using y p' inv(2) by (intro exI [of _ x] exI [of _ h]) (auto simp: see_level_def split: if_splits)
  next
    case (Some m)
    then have "m = k" using y by (simp add: see_level_def)
    then obtain x' k' where "hm_get p y = Some x'" "k = Suc k'" "seen x' = Some k'" "y \<in> set (neighbors adj x')"
      using inv(1) Some y unfolding pred_inv_def by blast
    then show ?thesis using Some p' by (intro exI [of _ x'] exI [of _ k']) (auto simp: see_level_def)
  qed
qed

text \<open>The search follows the one of the connectivity graph: it ends with a predecessor table in which the target lies at its distance,
  and without one exactly if there is no walk.\<close>

lemma route_search_spec:
  assumes "bfs_inv adj src seen q" "pred_inv adj src seen p" "\<And>k. seen dest = Some k \<Longrightarrow> (dest, k) \<in> set q"
  shows "case route_search adj dest (map fst q) p (dom seen) of
      None \<Rightarrow> \<forall>n. \<not> walk adj n src dest
    | Some p' \<Rightarrow> \<exists>seen' h. pred_inv adj src seen' p' \<and> seen' src = Some 0 \<and> seen' dest = Some h \<and> hop_distance adj src dest h"
  using assms
proof (induction adj dest "map fst q" p "dom seen" arbitrary: seen q rule: route_search.induct)
  case (1 adj dest p)
  then have "\<not> walk adj n src dest" for n
    using bfs_inv_walk [OF 1(2), of n dest] by fastforce
  then show ?case using 1 by simp
next
  case (2 adj dest node queue p)
  obtain h q0 where q: "q = (node, h) # q0" "queue = map fst q0" using 2(2) by auto
  have seen: "seen node = Some h" "seen src = Some 0" using 2(3) unfolding q bfs_inv_def by simp_all
  show ?case
  proof (cases "node = dest")
    case True
    have "hop_loop adj dest (dom seen) q = Some h" using True q by simp
    then have "hop_distance adj src dest h" using hop_loop_spec [OF 2(3) refl 2(5)] by simp
    then show ?thesis using True q seen 2(4) by auto
  next
    case False
    obtain q1 p1 v1 where s: "push_unseen node (neighbors adj node) (queue, p, dom seen) = (q1, p1, v1)"
      by (cases "push_unseen node (neighbors adj node) (queue, p, dom seen)")
    let ?seen = "see_level h (neighbors adj node) seen"
    obtain new where new: "v1 = dom seen \<union> set (neighbors adj node)" "q1 = queue @ new" "set new = set (neighbors adj node) - dom seen"
      "\<forall>y. hm_get p1 y = (if y \<in> set (neighbors adj node) - dom seen then Some node else hm_get p y)"
      using push_unseen_spec [OF s] by blast
    let ?new = "map (\<lambda>y. (y, Suc h)) new"
    have n: "set ?new = {(y, Suc h) | y. y \<in> set (neighbors adj node) \<and> seen y = None}" using new(3) by (auto simp: domIff)
    have v1: "v1 = dom ?seen" using new(1) by (auto simp: see_level_def split: if_splits)
    have q1: "q1 = map fst (q0 @ ?new)" using new(2) q by (simp add: comp_def)
    have inv: "bfs_inv adj src ?seen (q0 @ ?new)" by (rule bfs_inv_step [OF 2(3) [unfolded q(1)] n])
    have pred: "pred_inv adj src ?seen p1" by (rule pred_inv_step [OF 2(4) seen new(4)])
    have que: "(dest, k) \<in> set (q0 @ ?new)" if "?seen dest = Some k" for k
      using that 2(5) False q new(3) by (auto simp: see_level_def split: if_splits)
    have "(map fst (q0 @ ?new), p1, dom ?seen) = push_unseen node (neighbors adj node) (queue, p, dom seen)" using s v1 q1 by simp
    from 2(1) [OF False this refl inv pred que] show ?thesis
      using s False q v1 q1 by (simp only: list.map fst_conv route_search.simps if_False prod.case)
  qed
qed

text \<open>The levels between the source and a visited node are inhabited by keys of the table, so the table is long enough.\<close>

lemma pred_inv_level:
  assumes "pred_inv adj src seen p" "seen src = Some 0" "seen x = Some h"
  shows "h \<le> length p"
proof -
  let ?lower = "\<lambda>h. {y. \<exists>k. seen y = Some k \<and> 0 < k \<and> k \<le> h}"
  have "?lower h \<subseteq> set (hm_keys p)" for h
  proof
    fix y assume "y \<in> ?lower h"
    then obtain k where "seen y = Some k" "0 < k" by blast
    then have "y \<noteq> src" using assms(2) by auto
    then have "hm_get p y \<noteq> None" using assms(1) \<open>seen y = Some k\<close> unfolding pred_inv_def by fastforce
    then show "y \<in> set (hm_keys p)" by (simp add: hm_get_None_iff)
  qed
  then have fin: "finite (?lower h)" "card (?lower h) \<le> card (set (hm_keys p))" for h
    by (rule finite_subset [OF _ finite_set], rule card_mono [OF finite_set])
  have "h \<le> card (?lower h)" if "seen x = Some h" for x
    using that
  proof (induction h arbitrary: x)
    case (Suc h)
    then have "x \<noteq> src" using assms(2) by auto
    then obtain y where "seen y = Some h" using Suc.prems assms(1) unfolding pred_inv_def by blast
    then have "h \<le> card (?lower h)" by (rule Suc.IH)
    moreover have "insert x (?lower h) \<subseteq> ?lower (Suc h)" using Suc.prems by auto
    then have "card (insert x (?lower h)) \<le> card (?lower (Suc h))" using fin(1) by (intro card_mono) auto
    moreover have "x \<notin> ?lower h" using Suc.prems by auto
    ultimately show ?case using fin(1) [of h] by simp
  qed simp
  from this [OF assms(3)] fin(2) [of h] card_length [of "hm_keys p"] show ?thesis by simp
qed

lemma reconstruct_loop_spec:
  assumes "pred_inv adj src seen p" "seen src = Some 0" "seen x = Some h" "h < n"
  shows "\<exists>ys. reconstruct_loop n src p x path = path @ ys \<and> length ys = h \<and> List.last (x # ys) = src \<and> chain adj (rev (x # ys))"
  using assms(3,4)
proof (induction n arbitrary: x h path)
  case (Suc n)
  show ?case
  proof (cases "x = src")
    case True
    then show ?thesis using Suc.prems assms(2) by (auto simp: chain_def)
  next
    case False
    then obtain y k where y: "hm_get p x = Some y" "h = Suc k" "seen y = Some k" "x \<in> set (neighbors adj y)"
      using assms(1) Suc.prems unfolding pred_inv_def by blast
    from Suc.IH [OF y(3), of "path @ [y]"] Suc.prems y(2) obtain ys where
      "reconstruct_loop n src p y (path @ [y]) = (path @ [y]) @ ys" "length ys = k" "List.last (y # ys) = src" "chain adj (rev (y # ys))"
      by auto
    moreover from this have "chain adj (rev (y # ys) @ [x])" using y(4) by (simp only: chain_snoc) (simp add: last_rev)
    ultimately show ?thesis using False y by (intro exI [of _ "y # ys"]) simp
  qed
qed simp

lemma reconstruct_path_spec:
  assumes "pred_inv adj src seen p" "seen src = Some 0" "seen dest = Some h"
  shows "length (reconstruct_path src dest p) = Suc h \<and> hd (reconstruct_path src dest p) = src \<and>
    List.last (reconstruct_path src dest p) = dest \<and> chain adj (reconstruct_path src dest p)"
proof -
  have "h < Suc (length p)" using pred_inv_level [OF assms] by simp
  from reconstruct_loop_spec [OF assms this, of "[dest]"] obtain ys where
    ys: "reconstruct_loop (Suc (length p)) src p dest [dest] = [dest] @ ys" "length ys = h" "List.last (dest # ys) = src"
    "chain adj (rev (dest # ys))" by blast
  then have "reconstruct_path src dest p = rev (dest # ys)" by (simp only: reconstruct_path_def append.simps)
  then show ?thesis using ys by (auto simp: hd_rev last_rev)
qed

text \<open>The path returned is a shortest route; none is returned exactly if there is no route.\<close>

lemma bfs_path_Some:
  assumes "bfs_path t a b = Some p"
  shows "is_route t a b p \<and> (\<forall>q. is_route t a b q \<longrightarrow> length p \<le> length q)"
proof -
  let ?adj = "topology_adjacency t" and ?seen = "\<lambda>y. if y = a then Some (0 :: nat) else None"
  have nodes: "a \<in> available_nodes t" using assms by (simp add: bfs_path_def split: if_splits)
  obtain prev where prev: "route_search ?adj b [a] [] {a} = Some prev" "p = reconstruct_path a b prev"
    using assms by (auto simp: bfs_path_def split: if_splits)
  have "dom ?seen = {a}" by (auto split: if_splits)
  moreover have "pred_inv ?adj a ?seen []" by (simp add: pred_inv_def)
  ultimately obtain seen h where h: "pred_inv ?adj a seen prev" "seen a = Some 0" "seen b = Some h" "hop_distance ?adj a b h"
    using route_search_spec [OF bfs_inv_start, of ?adj a "[]" b] prev(1) by (auto split: if_splits)
  note r = reconstruct_path_spec [OF h(1-3), folded prev(2)]
  then have "is_route t a b p" using chain_route [OF nodes, of p b] by fastforce
  moreover have "length p \<le> length q" if "is_route t a b q" for q
  proof -
    from that have "q \<noteq> [] \<and> hd q = a \<and> List.last q = b \<and> chain ?adj q" using chain_route [OF nodes] by blast
    moreover from this have "length q = Suc (length q - 1)" by (cases q) auto
    ultimately have "walk ?adj (length q - 1) a b" unfolding walk_chain by blast
    then show ?thesis using h(4) r \<open>length q = Suc (length q - 1)\<close> by (auto simp: hop_distance_def)
  qed
  ultimately show ?thesis by blast
qed

lemma is_route_ends: "is_route t a b p \<Longrightarrow> a \<in> available_nodes t \<and> b \<in> available_nodes t"
  unfolding is_route_def using hd_in_set last_in_set by blast

lemma bfs_path_None: "bfs_path t a b = None \<longleftrightarrow> (\<forall>p. \<not> is_route t a b p)"
proof
  show "\<forall>p. \<not> is_route t a b p \<Longrightarrow> bfs_path t a b = None"
    using bfs_path_Some [of t a b] by (cases "bfs_path t a b") auto
  assume none: "bfs_path t a b = None"
  show "\<forall>p. \<not> is_route t a b p"
  proof (intro allI notI)
    fix p assume p: "is_route t a b p"
    let ?adj = "topology_adjacency t" and ?seen = "\<lambda>y. if y = a then Some (0 :: nat) else None"
    have nodes: "a \<in> available_nodes t" "b \<in> available_nodes t" using is_route_ends [OF p] by simp_all
    then have "route_search ?adj b [a] [] {a} = None" using none by (simp add: bfs_path_def)
    moreover have "dom ?seen = {a}" by (auto split: if_splits)
    moreover have "pred_inv ?adj a ?seen []" by (simp add: pred_inv_def)
    ultimately have "\<not> walk ?adj n a b" for n
      using route_search_spec [OF bfs_inv_start, of ?adj a "[]" b] by (auto split: if_splits)
    moreover from p have "p \<noteq> [] \<and> hd p = a \<and> List.last p = b \<and> chain ?adj p" using chain_route [OF nodes(1)] by blast
    then have "walk ?adj (length p - 1) a b" unfolding walk_chain by (intro exI [of _ p]) (cases p; auto)
    ultimately show False by blast
  qed
qed

section \<open>Routes to an agent\<close>

lemma is_route_join: "is_route t a b p \<Longrightarrow> is_route t b c q \<Longrightarrow> is_route t a c (p @ drop 1 q)"
  by (cases q) (auto simp: is_route_def successively_append_iff successively_Cons)

lemma is_route_prefix: "is_route t a c (xs @ b # ys) \<Longrightarrow> is_route t a b (xs @ [b])"
  by (cases xs) (auto simp: is_route_def successively_append_iff successively_Cons hd_append)

lemma is_route_suffix: "is_route t a c (xs @ b # ys) \<Longrightarrow> is_route t b c (b # ys)"
  by (auto simp: is_route_def successively_append_iff)

lemma is_route_split:
  assumes "is_route t a c p" "b \<in> set p"
  obtains q r where "is_route t a b q" "is_route t b c r" "p = q @ drop 1 r"
proof -
  obtain xs ys where p: "p = xs @ b # ys" using assms(2) by (auto dest: split_list)
  then show thesis using assms(1) by (intro that [of "xs @ [b]" "b # ys"]) (auto intro: is_route_prefix is_route_suffix)
qed

definition visits_parent :: "SwarmTopologyConfig \<Rightarrow> AgentId \<Rightarrow> string list \<Rightarrow> bool" where
  "visits_parent t a p = (\<forall>parent. tc_kind t = MothershipTopology \<and> mothership_parent_node_id t a = Some parent \<longrightarrow> parent \<in> set p)"

lemma bfs_path_shortest: "is_route t a b p \<Longrightarrow> \<exists>q. bfs_path t a b = Some q \<and> length q \<le> length p"
  using bfs_path_None [of t a b] bfs_path_Some [of t a b] by (cases "bfs_path t a b") auto

text \<open>A route of a mothership topology is put together at the parent.\<close>

lemma route_path_for_kind_parent:
  assumes "tc_kind t = MothershipTopology" "mothership_parent_node_id t a = Some parent" "parent \<noteq> dest"
  shows "route_path_for_kind t start dest a =
    Option.bind (bfs_path t start parent) (\<lambda>p. map_option (\<lambda>q. p @ drop 1 q) (bfs_path t parent dest))"
  using assms by (simp add: route_path_for_kind_def bind_eq_Some_conv split: option.splits)

lemma route_path_for_kind_direct:
  "\<not> (\<exists>parent. tc_kind t = MothershipTopology \<and> mothership_parent_node_id t a = Some parent \<and> parent \<noteq> dest) \<Longrightarrow>
   route_path_for_kind t start dest a = bfs_path t start dest"
  by (auto simp: route_path_for_kind_def split: option.splits)

lemma route_path_for_kind_spec:
  "case route_path_for_kind t start dest a of
     None \<Rightarrow> \<forall>p. \<not> (is_route t start dest p \<and> visits_parent t a p)
   | Some p \<Rightarrow> is_route t start dest p \<and> visits_parent t a p \<and>
       (\<forall>q. is_route t start dest q \<and> visits_parent t a q \<longrightarrow> length p \<le> length q)"
proof (cases "\<exists>parent. tc_kind t = MothershipTopology \<and> mothership_parent_node_id t a = Some parent \<and> parent \<noteq> dest")
  case True
  then obtain parent where par: "tc_kind t = MothershipTopology" "mothership_parent_node_id t a = Some parent" "parent \<noteq> dest" by blast
  have vp: "visits_parent t a q \<longleftrightarrow> parent \<in> set q" for q using par by (simp add: visits_parent_def)
  have low: "\<exists>p1 p2. bfs_path t start parent = Some p1 \<and> bfs_path t parent dest = Some p2 \<and> length (p1 @ drop 1 p2) \<le> length q"
    if q: "is_route t start dest q" "parent \<in> set q" for q
  proof -
    obtain q1 q2 where s: "is_route t start parent q1" "is_route t parent dest q2" "q = q1 @ drop 1 q2" by (rule is_route_split [OF q])
    then obtain p1 p2 where "bfs_path t start parent = Some p1" "length p1 \<le> length q1" "bfs_path t parent dest = Some p2" "length p2 \<le> length q2"
      using bfs_path_shortest by blast
    then show ?thesis using s(3) by auto
  qed
  show ?thesis
  proof (cases "route_path_for_kind t start dest a")
    case None
    then show ?thesis using low vp par by (fastforce simp: route_path_for_kind_parent)
  next
    case (Some p)
    then obtain p1 p2 where p: "bfs_path t start parent = Some p1" "bfs_path t parent dest = Some p2" "p = p1 @ drop 1 p2"
      using par by (auto simp: route_path_for_kind_parent bind_eq_Some_conv)
    then have "is_route t start parent p1" "is_route t parent dest p2" using bfs_path_Some by blast+
    then have "is_route t start dest p" unfolding p(3) by (rule is_route_join)
    moreover have "parent \<in> set p" using \<open>is_route t start parent p1\<close> p(3) by (auto simp: is_route_def)
    ultimately show ?thesis using Some low vp p by fastforce
  qed
next
  case False
  have "visits_parent t a q" if "is_route t start dest q" for q using False that by (auto simp: visits_parent_def is_route_def)
  then show ?thesis using bfs_path_Some [of t start dest] bfs_path_None [of t start dest]
    by (auto simp: route_path_for_kind_direct [OF False] split: option.split)
qed

definition lossy_link :: "SwarmTopologyConfig \<Rightarrow> string \<Rightarrow> string \<Rightarrow> bool" where
  "lossy_link t a b = (\<exists>l\<in>set (tc_links t). tl_available l \<and> from_node_id l = a \<and> to_node_id l = b \<and>
     (\<exists>r. tl_drop_rate l = Some r \<and> f64_lt f64_zero r))"

lemma windows2_nth: "(a, b) \<in> set (windows2 p) \<longleftrightarrow> (\<exists>i. Suc i < length p \<and> p ! i = a \<and> p ! Suc i = b)"
proof (induction p rule: windows2.induct)
  case (1 x y zs)
  show ?case
  proof
    assume "(a, b) \<in> set (windows2 (x # y # zs))"
    then consider "a = x" "b = y" | "(a, b) \<in> set (windows2 (y # zs))" by auto
    then show "\<exists>i. Suc i < length (x # y # zs) \<and> (x # y # zs) ! i = a \<and> (x # y # zs) ! Suc i = b"
    proof cases
      case 1
      then show ?thesis by (intro exI [of _ 0]) simp
    next
      case 2
      then obtain i where "Suc i < length (y # zs)" "(y # zs) ! i = a" "(y # zs) ! Suc i = b" using \<open>(a, b) \<in> set (windows2 (y # zs)) = _\<close> by blast
      then show ?thesis by (intro exI [of _ "Suc i"]) simp
    qed
  next
    assume "\<exists>i. Suc i < length (x # y # zs) \<and> (x # y # zs) ! i = a \<and> (x # y # zs) ! Suc i = b"
    then obtain i where i: "Suc i < length (x # y # zs)" "(x # y # zs) ! i = a" "(x # y # zs) ! Suc i = b" by blast
    then show "(a, b) \<in> set (windows2 (x # y # zs))" using 1 by (cases i) auto
  qed
qed auto

lemma route_path_degraded_exact: "route_path_degraded t p \<longleftrightarrow> (\<exists>i. Suc i < length p \<and> lossy_link t (p ! i) (p ! Suc i))"
proof -
  have "f64_lt f64_zero (case d of Some r \<Rightarrow> r | None \<Rightarrow> f64_zero) \<longleftrightarrow> (\<exists>r. d = Some r \<and> f64_lt f64_zero r)" for d
    by (cases d) simp_all
  then have "route_path_degraded t p \<longleftrightarrow> (\<exists>(a, b)\<in>set (windows2 p). lossy_link t a b)"
    by (simp add: route_path_degraded_def list_ex_iff lossy_link_def case_prod_beta)
  also have "\<dots> \<longleftrightarrow> (\<exists>i. Suc i < length p \<and> lossy_link t (p ! i) (p ! Suc i))"
    using windows2_nth [of _ _ p] by fastforce
  finally show ?thesis .
qed

text \<open>(C24) Command routes. A command is routed from a node to an agent exactly if the agent has a node that a chain of available links between
  available nodes connects to it, in a mothership topology by way of the node of the agent's mothership; the route computed is such a chain
  and a shortest one, and it is marked degraded exactly if it is blocked or one of its links loses messages.\<close>

theorem route_between_shortest:
  "let r = route_between t start a in
    (allowed r \<longleftrightarrow> (\<exists>dest p. agent_node_id_in_topology t a = Some dest \<and> is_route t start dest p \<and> visits_parent t a p)) \<and>
    (allowed r \<longrightarrow> (\<exists>dest. agent_node_id_in_topology t a = Some dest \<and> is_route t start dest (via_node_ids r) \<and> visits_parent t a (via_node_ids r) \<and>
       (\<forall>p. is_route t start dest p \<and> visits_parent t a p \<longrightarrow> length (via_node_ids r) \<le> length p))) \<and>
    (degraded r \<longleftrightarrow> \<not> allowed r \<or> (\<exists>i. Suc i < length (via_node_ids r) \<and> lossy_link t (via_node_ids r ! i) (via_node_ids r ! Suc i)))"
proof (cases "agent_node_id_in_topology t a")
  case None
  then show ?thesis by (simp add: Let_def route_between_def)
next
  case (Some dest)
  show ?thesis
  proof (cases "route_path_for_kind t start dest a")
    case None
    then show ?thesis using Some route_path_for_kind_spec [of t start dest a] by (simp add: Let_def route_between_def)
  next
    case (Some p)
    then show ?thesis using \<open>agent_node_id_in_topology t a = Some dest\<close> route_path_for_kind_spec [of t start dest a]
      by (auto simp: Let_def route_between_def route_path_degraded_exact)
  qed
qed

definition relay_topology :: SwarmTopologyConfig where
  "relay_topology = \<lparr>tc_kind = RelayTopology, gcs_node_id = ''gcs'',
     tc_nodes = map (\<lambda>(i, a, k). \<lparr>tn_node_id = i, tn_agent_id = a, tn_kind = k, tn_available = True\<rparr>)
       [(''gcs'', None, GcsNode), (''r'', None, RelayKind), (''agent:a'', Some ''a'', AgentKind)],
     tc_links = map (\<lambda>(a, b, d). \<lparr>from_node_id = a, to_node_id = b, tl_available = True, tl_delay_ms = None, tl_drop_rate = d, tl_reason = None\<rparr>)
       [(''gcs'', ''r'', None), (''r'', ''agent:a'', Some (Fin False 1))],
     tc_transport = in_memory_logical, mothership_dependencies = []\<rparr>"

theorem route_between_shortest_witness:
  "allowed (route_between relay_topology ''gcs'' ''a'') \<and> length (via_node_ids (route_between relay_topology ''gcs'' ''a'')) \<le> 3"
proof -
  have "is_route relay_topology ''gcs'' ''agent:a'' [''gcs'', ''r'', ''agent:a'']" "visits_parent relay_topology ''a'' [''gcs'', ''r'', ''agent:a'']"
    "agent_node_id_in_topology relay_topology ''a'' = Some ''agent:a''"
    by (simp_all add: is_route_def visits_parent_def relay_topology_def available_nodes_def available_link_exists_def agent_node_id_in_topology_def)
  then show ?thesis using route_between_shortest [of relay_topology "''gcs''" "''a''"] by (fastforce simp: Let_def)
qed

end
