(* ===== verification/CommandCycles.thy ===== *)
theory CommandCycles
  imports CommandPlane
begin

text \<open>
  The search for cycles of mothership dependencies (\<open>has_mothership_cycle\<close> and \<open>dfs_cycle\<close> of \<open>topology.rs\<close>): it always returns, and it
  reports an agent exactly if the dependencies have a cycle, one from which a cycle is reached.
\<close>

definition edges :: "adjacency \<Rightarrow> (string \<times> string) set" where
  "edges g = {(x, y). y \<in> set (neighbors g x)}"

text \<open>What the finished agents are: no dependency leads out of them, and none of them is on a cycle.\<close>

definition settled :: "adjacency \<Rightarrow> string set \<Rightarrow> bool" where
  "settled g V \<longleftrightarrow> edges g `` V \<subseteq> V \<and> (\<forall>x\<in>V. (x, x) \<notin> (edges g)\<^sup>+)"

definition reaches_cycle :: "adjacency \<Rightarrow> string \<Rightarrow> bool" where
  "reaches_cycle g a \<longleftrightarrow> (\<exists>c. (a, c) \<in> (edges g)\<^sup>* \<and> (c, c) \<in> (edges g)\<^sup>+)"

lemma settled_trancl: "settled g V \<Longrightarrow> x \<in> V \<Longrightarrow> (x, y) \<in> (edges g)\<^sup>+ \<Longrightarrow> y \<in> V"
proof -
  assume "settled g V" "x \<in> V" and step: "(x, y) \<in> (edges g)\<^sup>+"
  from step show "y \<in> V" by (induction rule: trancl_induct) (use \<open>settled g V\<close> \<open>x \<in> V\<close> in \<open>auto simp: settled_def\<close>)
qed

lemma settled_no_cycle: "settled g V \<Longrightarrow> a \<in> V \<Longrightarrow> \<not> reaches_cycle g a"
  unfolding reaches_cycle_def using settled_trancl by (metis rtranclD settled_def)

lemma settled_insert:
  assumes "settled g V" "a \<notin> V" "set (neighbors g a) \<subseteq> V"
  shows "settled g (insert a V)"
proof -
  have "edges g `` insert a V \<subseteq> insert a V" using assms by (auto simp: settled_def edges_def)
  moreover have "(a, a) \<notin> (edges g)\<^sup>+"
  proof
    assume "(a, a) \<in> (edges g)\<^sup>+"
    then obtain c where "(a, c) \<in> edges g" "(c, a) \<in> (edges g)\<^sup>*" by (blast dest: tranclD)
    moreover from this(1) have "c \<in> V" using assms(3) by (auto simp: edges_def)
    ultimately show False using assms(1,2) settled_trancl by (metis rtranclD)
  qed
  ultimately show ?thesis using assms(1) by (auto simp: settled_def)
qed

lemma reaches_cycle_step: "y \<in> set (neighbors g x) \<Longrightarrow> reaches_cycle g y \<Longrightarrow> reaches_cycle g x"
  unfolding reaches_cycle_def edges_def by (blast intro: converse_rtrancl_into_rtrancl)

text \<open>Every agent being searched depends, through the agents above, on none of the finished ones and leads to all those still to search.\<close>

definition search_inv :: "adjacency \<Rightarrow> string list \<Rightarrow> string set \<Rightarrow> string set \<Rightarrow> bool" where
  "search_inv g as visiting visited \<longleftrightarrow> settled g visited \<and> visiting \<inter> visited = {} \<and> (\<forall>v\<in>visiting. \<forall>a\<in>set as. (v, a) \<in> (edges g)\<^sup>+)"

lemma search_inv_children: "search_inv g (a # as) visiting visited \<Longrightarrow> a \<notin> visited \<Longrightarrow> search_inv g (sort (neighbors g a)) (insert a visiting) visited"
  by (auto simp: search_inv_def edges_def intro: trancl_into_trancl)

lemma search_inv_rest:
  assumes "search_inv g (a # as) visiting visited" "search_inv g cs (insert a visiting) visited'" "set (neighbors g a) \<subseteq> visited'" "a \<notin> visiting"
  shows "search_inv g as visiting (insert a visited')"
proof -
  have "a \<notin> visited'" "settled g visited'" using assms(2) by (auto simp: search_inv_def)
  then have "settled g (insert a visited')" using assms(3) by (intro settled_insert)
  then show ?thesis using assms by (auto simp: search_inv_def)
qed

text \<open>The search returns; without a cycle it has finished all its agents, with one it has seen an agent that reaches a cycle.\<close>

definition search_result :: "adjacency \<Rightarrow> string list \<Rightarrow> string set \<Rightarrow> string set \<Rightarrow> (bool \<times> string set \<times> string set) option \<Rightarrow> bool" where
  "search_result g as visiting visited r \<longleftrightarrow>
     (case r of None \<Rightarrow> False
      | Some (found, visiting', visited') \<Rightarrow>
          if found then \<exists>a\<in>set as. reaches_cycle g a
          else visiting' = visiting \<and> visited \<union> set as \<subseteq> visited' \<and> search_inv g [] visiting visited')"

lemma search_result_cases:
  assumes "search_result g as visiting visited r"
  obtains visited' where "r = Some (False, visiting, visited')" "visited \<union> set as \<subseteq> visited'" "search_inv g [] visiting visited'"
  | vg vd a where "r = Some (True, vg, vd)" "a \<in> set as" "reaches_cycle g a"
  using assms by (auto simp: search_result_def split: option.splits if_splits)

lemma search_result_later:
  "search_result g as visiting V r \<Longrightarrow> insert a visited \<subseteq> V \<Longrightarrow> search_result g (a # as) visiting visited r"
  by (auto simp: search_result_def split: option.splits) blast

lemma dfs_agents_Nil: "dfs_agents g [] visiting visited = Some (False, visiting, visited)"
  by (subst dfs_agents.simps) simp

lemma dfs_agents_Cons:
  "dfs_agents g (a # rest) visiting visited =
     (if a \<in> visited then dfs_agents g rest visiting visited
      else if a \<in> visiting then Some (True, visiting, visited)
      else Option.bind (dfs_agents g (sort (neighbors g a)) (insert a visiting) visited)
        (\<lambda>(found, visiting', visited'). if found then Some (True, visiting', visited')
           else dfs_agents g rest (visiting' - {a}) (insert a visited')))"
  by (subst dfs_agents.simps) simp

lemma dfs_agents_spec:
  assumes fin: "finite U" and closed: "\<And>x. set (neighbors g x) \<subseteq> U"
  shows "set as \<subseteq> U \<Longrightarrow> search_inv g as visiting visited \<Longrightarrow> search_result g as visiting visited (dfs_agents g as visiting visited)"
proof (induction "card (U - visiting - visited)" arbitrary: as visiting visited rule: less_induct)
  case less
  show ?case using less.prems
  proof (induction as)
    case Nil
    then show ?case by (auto simp: dfs_agents_Nil search_result_def search_inv_def)
  next
    case (Cons a rest)
    consider (old) "a \<in> visited" | (cycle) "a \<notin> visited" "a \<in> visiting" | (new) "a \<notin> visited" "a \<notin> visiting" by blast
    then show ?case
    proof cases
      case old
      have "search_inv g rest visiting visited" using Cons.prems by (simp add: search_inv_def)
      with Cons have "search_result g rest visiting visited (dfs_agents g rest visiting visited)" by simp
      with old show ?thesis by (simp add: dfs_agents_Cons search_result_later)
    next
      case cycle
      then have "reaches_cycle g a" using Cons.prems(2) by (auto simp: search_inv_def reaches_cycle_def)
      with cycle show ?thesis by (auto simp: dfs_agents_Cons search_result_def)
    next
      case new
      let ?cs = "sort (neighbors g a)"
      have a: "a \<in> U - visiting - visited" using new Cons.prems by simp
      have "U - insert a visiting - visited \<subset> U - visiting - visited" using a by blast
      then have "card (U - insert a visiting - visited) < card (U - visiting - visited)" using fin by (intro psubset_card_mono) auto
      from less.hyps [OF this _ search_inv_children [OF Cons.prems(2) new(1)]] closed
      have "search_result g ?cs (insert a visiting) visited (dfs_agents g ?cs (insert a visiting) visited)" by simp
      then show ?thesis
      proof (cases rule: search_result_cases)
        case (2 vg vd c)
        then show ?thesis using new reaches_cycle_step by (auto simp: dfs_agents_Cons search_result_def)
      next
        case (1 vd)
        have inv: "search_inv g rest visiting (insert a vd)" using search_inv_rest [OF Cons.prems(2) 1(3) _ new(2)] 1(2) by simp
        have "U - visiting - insert a vd \<subset> U - visiting - visited" using a 1(2) by blast
        then have "card (U - visiting - insert a vd) < card (U - visiting - visited)" using fin by (intro psubset_card_mono) auto
        from less.hyps [OF this _ inv] Cons.prems have "search_result g rest visiting (insert a vd) (dfs_agents g rest visiting (insert a vd))" by simp
        then have "search_result g (a # rest) visiting visited (dfs_agents g rest visiting (insert a vd))"
          using 1(2) by (intro search_result_later) auto
        then show ?thesis using 1(1) new by (simp add: dfs_agents_Cons)
      qed
    qed
  qed
qed

lemma dfs_agent:
  assumes "settled g visited"
  obtains visited' where "dfs_agents g [a] {} visited = Some (False, {}, visited')" "insert a visited \<subseteq> visited'" "settled g visited'"
  | vg vd where "dfs_agents g [a] {} visited = Some (True, vg, vd)" "reaches_cycle g a"
proof -
  have "search_inv g [a] {} visited" using assms by (simp add: search_inv_def)
  moreover have "set (neighbors g x) \<subseteq> insert a (universe g)" for x using neighbors_universe by blast
  ultimately have "search_result g [a] {} visited (dfs_agents g [a] {} visited)"
    by (intro dfs_agents_spec [of "insert a (universe g)"]) simp_all
  then show thesis by (cases rule: search_result_cases) (use that in \<open>auto simp: search_inv_def\<close>)
qed

lemma first_cycle_spec:
  "settled g visited \<Longrightarrow>
     (\<exists>a\<in>set as. first_cycle g as {} visited = Some (Some a) \<and> reaches_cycle g a) \<or>
     (first_cycle g as {} visited = Some None \<and> (\<forall>a\<in>set as. \<not> reaches_cycle g a))"
proof (induction as arbitrary: visited)
  case (Cons a as)
  from Cons.prems show ?case
  proof (cases rule: dfs_agent [of g visited a])
    case (1 visited')
    then have "\<not> reaches_cycle g a" using settled_no_cycle by blast
    then show ?thesis using 1 Cons.IH [OF 1(3)] by auto
  qed simp
qed simp

section \<open>Exactness\<close>

definition dependencies :: "SwarmMothershipDependency list \<Rightarrow> (AgentId \<times> AgentId) set" where
  "dependencies ds = {(parent_agent_id d, child_agent_id d) | d. d \<in> set ds}"

lemma neighbors_dependency_graph:
  "set (neighbors (foldl (\<lambda>g d. push_neighbor (parent_agent_id d) (child_agent_id d) g) g ds) x) =
     set (neighbors g x) \<union> {child_agent_id d | d. d \<in> set ds \<and> parent_agent_id d = x}"
  by (induction ds arbitrary: g) auto

lemma edges_dependency_graph: "edges (dependency_graph ds) = dependencies ds"
proof -
  have "neighbors [] x = []" for x by (simp add: neighbors_def)
  then show ?thesis by (auto simp: edges_def dependency_graph_def neighbors_dependency_graph dependencies_def)
qed

lemma edge_from_key: "(x, y) \<in> edges g \<Longrightarrow> x \<in> set (hm_keys g)"
  by (auto simp: edges_def neighbors_def dest!: hm_get_SomeD [OF sym] split: option.splits intro: rev_image_eqI)

lemma mothership_cycle:
  "(acyclic (dependencies ds) \<and> has_mothership_cycle ds = Some None) \<or>
   (\<not> acyclic (dependencies ds) \<and>
    (\<exists>a c. has_mothership_cycle ds = Some (Some a) \<and> (a, c) \<in> (dependencies ds)\<^sup>* \<and> (c, c) \<in> (dependencies ds)\<^sup>+))"
proof -
  let ?g = "dependency_graph ds" let ?as = "sort (hm_keys ?g)"
  note E = edges_dependency_graph [of ds]
  have "settled ?g {}" by (simp add: settled_def)
  from first_cycle_spec [OF this, of ?as] consider
      (cycle) a where "has_mothership_cycle ds = Some (Some a)" "reaches_cycle ?g a"
    | (none) "has_mothership_cycle ds = Some None" "\<forall>a\<in>set (hm_keys ?g). \<not> reaches_cycle ?g a"
    unfolding has_mothership_cycle_def by auto
  then show ?thesis
  proof cases
    case cycle
    then obtain c where "(a, c) \<in> (dependencies ds)\<^sup>*" "(c, c) \<in> (dependencies ds)\<^sup>+" by (auto simp: reaches_cycle_def E)
    then show ?thesis using cycle(1) by (auto simp: acyclic_def)
  next
    case none
    have "(x, x) \<notin> (dependencies ds)\<^sup>+" for x
    proof
      assume c: "(x, x) \<in> (dependencies ds)\<^sup>+"
      then obtain y where "(x, y) \<in> edges ?g" using E by (metis tranclD)
      then have "x \<in> set (hm_keys ?g)" by (rule edge_from_key)
      moreover have "reaches_cycle ?g x" using c by (auto simp: reaches_cycle_def E)
      ultimately show False using none(2) by blast
    qed
    then show ?thesis using none(1) by (simp add: acyclic_def)
  qed
qed

text \<open>(C25) Cycles of mothership dependencies. The depth-first search always returns. It reports no agent exactly if the relation between the
  parents and the children of the dependencies is acyclic; otherwise it reports an agent whose dependents lead into a cycle.\<close>

theorem mothership_cycle_exact:
  "(acyclic (dependencies ds) \<and> has_mothership_cycle ds = Some None) \<or>
   (\<not> acyclic (dependencies ds) \<and>
    (\<exists>a c. has_mothership_cycle ds = Some (Some a) \<and> (a, c) \<in> (dependencies ds)\<^sup>* \<and> (c, c) \<in> (dependencies ds)\<^sup>+))"
  by (rule mothership_cycle)

theorem mothership_cycle_exact_witness:
  "\<exists>a. has_mothership_cycle [\<lparr>parent_agent_id = ''m'', child_agent_id = ''n'', dependency_kind = [], md_reason = []\<rparr>,
      \<lparr>parent_agent_id = ''n'', child_agent_id = ''m'', dependency_kind = [], md_reason = []\<rparr>] = Some (Some a)"
proof -
  let ?ds = "[\<lparr>parent_agent_id = ''m'', child_agent_id = ''n'', dependency_kind = [], md_reason = []\<rparr>,
    \<lparr>parent_agent_id = ''n'', child_agent_id = ''m'', dependency_kind = [], md_reason = []\<rparr>]"
  have "(''m'', ''n'') \<in> dependencies ?ds" "(''n'', ''m'') \<in> dependencies ?ds" by (force simp: dependencies_def)+
  then have "\<not> acyclic (dependencies ?ds)" by (meson acyclic_def trancl.intros)
  then show ?thesis using mothership_cycle_exact [of ?ds] by blast
qed

end
