(* ===== verification/CommandValidation.thy ===== *)
theory CommandValidation
  imports CommandRoutes CommandCycles
begin

text \<open>
  What \<open>validate_swarm_command_plan\<close> accepts (\<open>validation.rs\<close>), stated without its loops and tables, and what the rest of the command plane
  may rely on: the routes that the fan-out computes pass it, the default topology passes it, and in a plan it accepted every failure policy
  can be carried out.
\<close>

lemmas check_simps = try_for_each_ok list_ex_iff

section \<open>The declarative specification\<close>

definition route_ok :: "SwarmTopologyConfig \<Rightarrow> SwarmCommandRoute \<Rightarrow> bool" where
  "route_ok t r \<longleftrightarrow>
     rt_from_node_id r \<in> set (map tn_node_id (tc_nodes t)) \<and> set (via_node_ids r) \<subseteq> set (map tn_node_id (tc_nodes t)) \<and>
     agent_node_id_in_topology t (rt_to_agent_id r) \<noteq> None \<and>
     allowed r = allowed (route_between t (rt_from_node_id r) (rt_to_agent_id r)) \<and>
     (if allowed r then via_node_ids r = via_node_ids (route_between t (rt_from_node_id r) (rt_to_agent_id r)) \<and>
          (\<forall>parent. mothership_parent_node_id t (rt_to_agent_id r) = Some parent \<longrightarrow> parent \<in> set (via_node_ids r))
      else trim (rt_reason r) \<noteq> [])"

lemma successively_windows2: "successively P p \<longleftrightarrow> (\<forall>(a, b)\<in>set (windows2 p). P a b)"
  by (induction p rule: windows2.induct) auto

lemma route_between_path:
  assumes "allowed (route_between t start a)" "agent_node_id_in_topology t a = Some dest"
  shows "is_route t start dest (via_node_ids (route_between t start a)) \<and> visits_parent t a (via_node_ids (route_between t start a))"
  using assms route_path_for_kind_spec [of t start dest a]
  by (simp add: route_between_def Let_def split: option.splits)

lemma route_between_ids [simp]: "rt_from_node_id (route_between t start a) = start" "rt_to_agent_id (route_between t start a) = a"
  by (simp_all add: route_between_def Let_def split: option.splits)

lemma available_node_ids: "available_nodes t \<subseteq> set (map tn_node_id (tc_nodes t))"
  by (auto simp: available_nodes_def)

text \<open>The tests of the ends and links of a path never fail where the path is the computed one.\<close>

lemma validate_command_route_ok: "validate_command_route t (set (map tn_node_id (tc_nodes t))) r = Inr () \<longleftrightarrow> route_ok t r"
proof (cases "agent_node_id_in_topology t (rt_to_agent_id r)")
  case None
  then show ?thesis by (auto simp: validate_command_route_def route_ok_def)
next
  case (Some dest)
  let ?e = "route_between t (rt_from_node_id r) (rt_to_agent_id r)"
  show ?thesis
  proof (cases "allowed r \<and> allowed ?e \<and> via_node_ids r = via_node_ids ?e")
    case True
    then have "is_route t (rt_from_node_id r) dest (via_node_ids r)" using route_between_path [OF _ Some] by simp
    then show ?thesis using True Some
      by (auto simp: validate_command_route_def route_ok_def Let_def check_simps is_route_def successively_windows2 split: option.splits)
  next
    case False
    then show ?thesis using Some by (auto simp: validate_command_route_def route_ok_def Let_def check_simps)
  qed
qed

definition topology_ok :: "SwarmCommandPlan \<Rightarrow> SwarmTopologyConfig \<Rightarrow> bool" where
  "topology_ok plan t \<longleftrightarrow>
     trim (hardware_boundary (tc_transport t)) \<noteq> [] \<and> distinct (map tn_node_id (tc_nodes t)) \<and>
     gcs_node_id t \<in> set (map tn_node_id (tc_nodes t)) \<and>
     (\<forall>l\<in>set (tc_links t). from_node_id l \<in> set (map tn_node_id (tc_nodes t)) \<and> to_node_id l \<in> set (map tn_node_id (tc_nodes t))) \<and>
     (\<forall>a\<in>set (sp_agents plan). agent_node_id_in_topology t (ap_agent_id a) \<noteq> None \<and>
        (\<exists>r\<in>set (command_routes plan). rt_to_agent_id r = ap_agent_id a \<and> rt_from_node_id r = gcs_node_id t)) \<and>
     (\<forall>r\<in>set (command_routes plan). route_ok t r) \<and>
     (\<forall>d\<in>set (mothership_dependencies t). {parent_agent_id d, child_agent_id d} \<subseteq> set (map ap_agent_id (sp_agents plan))) \<and>
     acyclic (dependencies (mothership_dependencies t))"

lemma agent_node_exists: "list_ex (\<lambda>n. tn_agent_id n = Some a) (tc_nodes t) \<longleftrightarrow> agent_node_id_in_topology t a \<noteq> None"
  by (auto simp: agent_node_id_in_topology_def list_ex_iff find_None_iff)

lemma validate_agent_route_ok:
  assumes "\<forall>r\<in>set (command_routes plan). route_ok t r"
  shows "validate_agent_route plan t a = Inr () \<longleftrightarrow> agent_node_id_in_topology t (ap_agent_id a) \<noteq> None \<and>
    (\<exists>r\<in>set (command_routes plan). rt_to_agent_id r = ap_agent_id a \<and> rt_from_node_id r = gcs_node_id t)"
proof -
  have "allowed r \<or> trim (rt_reason r) \<noteq> []" if "r \<in> set (command_routes plan)" for r
    using assms that by (auto simp: route_ok_def)
  then show ?thesis
    by (auto simp: validate_agent_route_def agent_node_exists find_None_iff find_Some_iff split: option.splits) (metis nth_mem)+
qed

lemma validate_topology_ok: "validate_topology plan t = Some (Inr ()) \<longleftrightarrow> topology_ok plan t"
proof -
  have cyc: "map_option (\<lambda>c. case c of Some a \<Rightarrow> Inl (MothershipDependencyCycle a) | None \<Rightarrow> Inr ()) (has_mothership_cycle ds) =
      Some (Inr () :: checked) \<longleftrightarrow> acyclic (dependencies ds)" for ds
    using mothership_cycle [of ds] by auto
  have routes: "try_for_each (validate_command_route t (set (map tn_node_id (tc_nodes t)))) (command_routes plan) = Inr () \<longleftrightarrow>
      (\<forall>r\<in>set (command_routes plan). route_ok t r)" by (simp only: try_for_each_ok validate_command_route_ok)
  have agents: "try_for_each (validate_agent_route plan t) (sp_agents plan) = Inr () \<longleftrightarrow>
      (\<forall>a\<in>set (sp_agents plan). agent_node_id_in_topology t (ap_agent_id a) \<noteq> None \<and>
        (\<exists>r\<in>set (command_routes plan). rt_to_agent_id r = ap_agent_id a \<and> rt_from_node_id r = gcs_node_id t))"
    if "\<forall>r\<in>set (command_routes plan). route_ok t r"
    using validate_agent_route_ok [OF that] by (simp add: try_for_each_ok)
  have dup: "(case find_dup {} xs of Some n \<Rightarrow> Inl (DuplicateTopologyNode n) | None \<Rightarrow> Inr ()) = (Inr () :: checked) \<longleftrightarrow> distinct xs" for xs
    using find_dup_None [of "{}" xs] by (auto split: option.splits)
  have pair: "try_for_each f [x, y] = Inr () \<longleftrightarrow> f x = Inr () \<and> f y = Inr ()" for f :: "string \<Rightarrow> checked" and x y
    by (simp only: try_for_each_ok) simp
  have split: "(case x of Inl e \<Rightarrow> Some (Inl e) | Inr _ \<Rightarrow> k) = Some (Inr () :: checked) \<longleftrightarrow> x = Inr () \<and> k = Some (Inr ())" for x k
    by (cases x) auto
  show ?thesis
    unfolding validate_topology_def Let_def split and_then_ok cyc routes dup topology_ok_def reject_if_ok
      try_for_each_ok [of _ "tc_links t"] try_for_each_ok [of _ "mothership_dependencies t"] pair
    using agents by auto
qed

text \<open>Validation of the topology always returns.\<close>

lemma validate_topology_total: "validate_topology plan t \<noteq> None"
  using mothership_cycle [of "mothership_dependencies t"] by (auto simp: validate_topology_def Let_def split: sum.splits)

section \<open>Ownership\<close>

definition resource :: "SwarmOwnershipRecord \<Rightarrow> resource" where
  "resource r = (ow_kind r, ow_resource_id r)"

abbreviation is_active :: "SwarmOwnershipRecord \<Rightarrow> bool" where
  "is_active r \<equiv> ow_status r = OwnershipActive"

lemma not_active: "\<not> is_active r \<longleftrightarrow> ow_status r = OwnershipReleased"
  by (cases "ow_status r") auto

text \<open>The loop over the records builds the owner of each active resource and the agents that released each resource.\<close>

lemma collect_ownership_ok:
  "collect_ownership rs active released = Inr (active', released') \<Longrightarrow>
     distinct (map resource (filter is_active rs)) \<and> (\<forall>r\<in>set rs. is_active r \<longrightarrow> hm_get active (resource r) = None) \<and>
     (\<forall>k a. hm_get active' k = Some a \<longleftrightarrow> hm_get active k = Some a \<or> (\<exists>r\<in>set rs. is_active r \<and> resource r = k \<and> ow_agent_id r = a)) \<and>
     (\<forall>k. set (case hm_get released' k of Some l \<Rightarrow> l | None \<Rightarrow> []) =
        set (case hm_get released k of Some l \<Rightarrow> l | None \<Rightarrow> []) \<union> {ow_agent_id r | r. r \<in> set rs \<and> \<not> is_active r \<and> resource r = k})"
proof (induction rs arbitrary: active released)
  case (Cons r rs)
  show ?case
  proof (cases "is_active r")
    case True
    then have none: "hm_get active (resource r) = None"
      and rec: "collect_ownership rs (hm_insert (resource r) (ow_agent_id r) active) released = Inr (active', released')"
      using Cons.prems by (auto simp: resource_def Let_def split: if_splits)
    from Cons.IH [OF rec] True none show ?thesis by (auto split: if_splits)
  next
    case False
    then have rec: "collect_ownership rs active
        (hm_insert (resource r) ((case hm_get released (resource r) of Some l \<Rightarrow> l | None \<Rightarrow> []) @ [ow_agent_id r]) released) = Inr (active', released')"
      using Cons.prems by (simp add: resource_def Let_def not_active)
    from Cons.IH [OF rec] False show ?thesis by auto
  qed
qed simp

lemma collect_ownership_total:
  "distinct (map resource (filter is_active rs)) \<Longrightarrow> (\<forall>r\<in>set rs. is_active r \<longrightarrow> hm_get active (resource r) = None) \<Longrightarrow>
   \<exists>res. collect_ownership rs active released = Inr res"
proof (induction rs arbitrary: active released)
  case (Cons r rs)
  show ?case
  proof (cases "is_active r")
    case True
    then have "\<forall>x\<in>set rs. is_active x \<longrightarrow> resource x \<noteq> resource r" using Cons.prems(1) by (auto simp: image_iff)
    then have "\<forall>r'\<in>set rs. is_active r' \<longrightarrow> hm_get (hm_insert (resource r) (ow_agent_id r) active) (resource r') = None"
      using Cons.prems(2) by auto
    then obtain res where "collect_ownership rs (hm_insert (resource r) (ow_agent_id r) active) released = Inr res"
      using Cons.IH [of "hm_insert (resource r) (ow_agent_id r) active" released] Cons.prems True by auto
    then show ?thesis using Cons.prems True by (auto simp: resource_def Let_def)
  next
    case False
    then show ?thesis using Cons by (simp add: Let_def not_active)
  qed
qed simp

section \<open>The whole plan\<close>

definition contents_ok :: "SwarmCommandPlan \<Rightarrow> bool" where
  "contents_ok plan \<longleftrightarrow>
     sp_schema_version plan = SWARM_COMMAND_PLANE_SCHEMA_VERSION \<and> distinct (map ap_agent_id (sp_agents plan)) \<and>
     (\<forall>a\<in>set (sp_agents plan). \<forall>e\<in>set (commands (ap_command_plan a)). source_agent_id e \<in> {None, Some (ap_agent_id a)}) \<and>
     distinct (map resource (filter is_active (sp_ownership plan))) \<and>
     (\<forall>old\<in>set (sp_ownership plan). \<forall>new\<in>set (sp_ownership plan).
        \<not> is_active old \<and> is_active new \<and> resource old = resource new \<and> ow_agent_id old \<noteq> ow_agent_id new \<longrightarrow>
        (\<exists>h\<in>set (sp_handoffs plan). (ho_kind h, ho_resource_id h) = resource new \<and> from_agent_id h = ow_agent_id old \<and> to_agent_id h = ow_agent_id new)) \<and>
     (\<forall>a\<in>set (sp_agents plan). \<forall>r\<in>set (ap_ownership_refs a).
        \<exists>w\<in>set (sp_ownership plan). is_active w \<and> resource w = (rf_kind r, rf_resource_id r) \<and> ow_agent_id w = ap_agent_id a) \<and>
     (global_abort_policy plan = AbortMission \<longrightarrow> sp_agents plan \<noteq> []) \<and>
     (global_abort_policy plan = ReplaceFromReserve \<longrightarrow> (\<exists>b\<in>set (sp_agents plan). is_reserve b)) \<and>
     (\<forall>a\<in>set (sp_agents plan). ap_abort_policy a = ReplaceFromReserve \<longrightarrow>
        (\<exists>b\<in>set (sp_agents plan). ap_agent_id b \<noteq> ap_agent_id a \<and> is_reserve b))"

definition plan_ok :: "SwarmCommandPlan \<Rightarrow> bool" where
  "plan_ok plan \<longleftrightarrow> contents_ok plan \<and> (\<forall>t. sp_topology plan = Some t \<longrightarrow> topology_ok plan t)"

lemma validate_agents_ok:
  "validate_agents seen as = Inr () \<longleftrightarrow> distinct (map ap_agent_id as) \<and> ap_agent_id ` set as \<inter> seen = {} \<and>
     (\<forall>a\<in>set as. \<forall>e\<in>set (commands (ap_command_plan a)). source_agent_id e \<in> {None, Some (ap_agent_id a)})"
proof (induction as arbitrary: seen)
  case (Cons a as)
  have "validate_source_agent a = Inr () \<longleftrightarrow> (\<forall>e\<in>set (commands (ap_command_plan a)). source_agent_id e \<in> {None, Some (ap_agent_id a)})"
    unfolding validate_source_agent_def try_for_each_ok by (intro ball_cong) (auto split: option.splits)
  then show ?case using Cons by auto
qed simp

lemma validate_policies_ok:
  "validate_policies plan = Inr () \<longleftrightarrow>
     (global_abort_policy plan = AbortMission \<longrightarrow> sp_agents plan \<noteq> []) \<and>
     (global_abort_policy plan = ReplaceFromReserve \<longrightarrow> (\<exists>b\<in>set (sp_agents plan). is_reserve b)) \<and>
     (\<forall>a\<in>set (sp_agents plan). ap_abort_policy a = ReplaceFromReserve \<longrightarrow>
        (\<exists>b\<in>set (sp_agents plan). ap_agent_id b \<noteq> ap_agent_id a \<and> is_reserve b))"
proof -
  have "(if b then x else Inr ()) = (Inr () :: checked) \<longleftrightarrow> (b \<longrightarrow> x = Inr ())" for b x by simp
  then show ?thesis
    by (simp add: validate_policies_def ensure_replacement_candidate_def ensure_replacement_candidate_for_agent_def check_simps)
qed

lemma validate_handoff_evidence_ok:
  assumes "\<And>m. set (order m) = set m" "hm_wf released"
  shows "validate_handoff_evidence order plan active released = Inr () \<longleftrightarrow>
    (\<forall>k givers taker giver. hm_get released k = Some givers \<and> hm_get active k = Some taker \<and> giver \<in> set givers \<and> giver \<noteq> taker \<longrightarrow>
       has_handoff plan k giver taker)"
proof -
  have "(case hm_get active k of None \<Rightarrow> Inr ()
      | Some taker \<Rightarrow> try_for_each (\<lambda>giver. if giver = taker then Inr ()
          else reject_if (\<not> has_handoff plan k giver taker) (MissingHandoffEvidence (fst k) (snd k) giver taker)) givers) = (Inr () :: checked) \<longleftrightarrow>
      (\<forall>taker giver. hm_get active k = Some taker \<and> giver \<in> set givers \<and> giver \<noteq> taker \<longrightarrow> has_handoff plan k giver taker)" for k givers
    by (cases "hm_get active k") (auto simp: try_for_each_ok)
  then show ?thesis
    unfolding validate_handoff_evidence_def try_for_each_ok assms(1) hm_get_Some_iff [OF assms(2)] by (auto split: prod.splits)
qed

lemma collect_ownership_wf: "hm_wf released \<Longrightarrow> collect_ownership rs active released = Inr (active', released') \<Longrightarrow> hm_wf released'"
proof (induction rs arbitrary: active released)
  case (Cons r rs)
  show ?case
  proof (cases "is_active r")
    case True
    then show ?thesis using Cons by (auto simp: Let_def split: if_splits)
  next
    case False
    then show ?thesis using Cons.prems Cons.IH [of "hm_insert _ _ released" active] by (simp add: Let_def not_active)
  qed
qed simp

text \<open>The checks on the tables of owners are the conditions on the records.\<close>

lemma ownership_checks:
  assumes order: "\<And>m. set (order m) = set m"
    and c: "collect_ownership (sp_ownership plan) [] [] = Inr (active, released)"
  shows "validate_handoff_evidence order plan active released = Inr () \<longleftrightarrow>
      (\<forall>old\<in>set (sp_ownership plan). \<forall>new\<in>set (sp_ownership plan).
        \<not> is_active old \<and> is_active new \<and> resource old = resource new \<and> ow_agent_id old \<noteq> ow_agent_id new \<longrightarrow>
        (\<exists>h\<in>set (sp_handoffs plan). (ho_kind h, ho_resource_id h) = resource new \<and> from_agent_id h = ow_agent_id old \<and> to_agent_id h = ow_agent_id new))"
    (is "_ = ?handoffs")
    and "try_for_each (validate_ownership_refs active) (sp_agents plan) = Inr () \<longleftrightarrow>
      (\<forall>a\<in>set (sp_agents plan). \<forall>r\<in>set (ap_ownership_refs a).
        \<exists>w\<in>set (sp_ownership plan). is_active w \<and> resource w = (rf_kind r, rf_resource_id r) \<and> ow_agent_id w = ap_agent_id a)"
proof -
  have act: "hm_get active k = Some a \<longleftrightarrow> (\<exists>r\<in>set (sp_ownership plan). is_active r \<and> resource r = k \<and> ow_agent_id r = a)" for k a
    using collect_ownership_ok [OF c] by (cases k) simp
  have rel: "(\<exists>l. hm_get released k = Some l \<and> a \<in> set l) \<longleftrightarrow> (\<exists>r\<in>set (sp_ownership plan). \<not> is_active r \<and> resource r = k \<and> ow_agent_id r = a)" for k a
  proof -
    have "set (case hm_get released k of Some l \<Rightarrow> l | None \<Rightarrow> []) = {ow_agent_id r | r. r \<in> set (sp_ownership plan) \<and> \<not> is_active r \<and> resource r = k}"
      using collect_ownership_ok [OF c] by (cases k) simp
    moreover have "(\<exists>l. hm_get released k = Some l \<and> a \<in> set l) \<longleftrightarrow> a \<in> set (case hm_get released k of Some l \<Rightarrow> l | None \<Rightarrow> [])"
      by (cases "hm_get released k") simp_all
    ultimately show ?thesis by auto
  qed
  have wf: "hm_wf released" using collect_ownership_wf [OF _ c] by (simp add: hm_wf_def)
  have hand: "has_handoff plan k giver taker \<longleftrightarrow>
      (\<exists>h\<in>set (sp_handoffs plan). (ho_kind h, ho_resource_id h) = k \<and> from_agent_id h = giver \<and> to_agent_id h = taker)" for k giver taker
    by (cases k) (auto simp: has_handoff_def list_ex_iff)
  have "validate_handoff_evidence order plan active released = Inr () \<longleftrightarrow>
      (\<forall>k giver taker. (\<exists>l. hm_get released k = Some l \<and> giver \<in> set l) \<and> hm_get active k = Some taker \<and> giver \<noteq> taker \<longrightarrow> has_handoff plan k giver taker)"
    unfolding validate_handoff_evidence_ok [OF order wf] by blast
  then show "validate_handoff_evidence order plan active released = Inr () \<longleftrightarrow> ?handoffs" unfolding act rel hand by metis
  show "try_for_each (validate_ownership_refs active) (sp_agents plan) = Inr () \<longleftrightarrow>
      (\<forall>a\<in>set (sp_agents plan). \<forall>r\<in>set (ap_ownership_refs a).
        \<exists>w\<in>set (sp_ownership plan). is_active w \<and> resource w = (rf_kind r, rf_resource_id r) \<and> ow_agent_id w = ap_agent_id a)"
    unfolding try_for_each_ok validate_ownership_refs_def reject_if_ok not_not act ..
qed

definition content_checks :: "(released_map \<Rightarrow> released_map) \<Rightarrow> SwarmCommandPlan \<Rightarrow> checked" where
  "content_checks order plan =
     and_then (reject_if (sp_schema_version plan \<noteq> SWARM_COMMAND_PLANE_SCHEMA_VERSION) (UnsupportedSchema (sp_schema_version plan)))
       (and_then (validate_agents {} (sp_agents plan))
         (case collect_ownership (sp_ownership plan) [] [] of
            Inl e \<Rightarrow> Inl e
          | Inr (active, released) \<Rightarrow>
              and_then (validate_handoff_evidence order plan active released)
             (and_then (try_for_each (validate_ownership_refs active) (sp_agents plan)) (validate_policies plan))))"

lemma content_checks_ok:
  assumes "\<And>m. set (order m) = set m"
  shows "content_checks order plan = Inr () \<longleftrightarrow> contents_ok plan"
proof (cases "collect_ownership (sp_ownership plan) [] []")
  case (Inl e)
  then have "\<not> distinct (map resource (filter is_active (sp_ownership plan)))"
    using collect_ownership_total [of "sp_ownership plan" "[]" "[]"] by auto
  then show ?thesis using Inl by (simp add: content_checks_def contents_ok_def)
next
  case (Inr r)
  obtain active released where r: "r = (active, released)" by (cases r)
  note c = Inr [unfolded r]
  have "distinct (map resource (filter is_active (sp_ownership plan)))" using collect_ownership_ok [OF c] by simp
  then show ?thesis
    unfolding content_checks_def contents_ok_def c sum.case prod.case and_then_ok reject_if_ok not_not validate_agents_ok
      ownership_checks [OF assms c] validate_policies_ok by auto
qed

lemma validate_spec:
  assumes "\<And>m. set (order m) = set m"
  shows "validate_swarm_command_plan order plan = Some (Inr ()) \<longleftrightarrow> plan_ok plan" "validate_swarm_command_plan order plan \<noteq> None"
proof -
  have v: "validate_swarm_command_plan order plan = (case content_checks order plan of Inl e \<Rightarrow> Some (Inl e)
      | Inr _ \<Rightarrow> (case sp_topology plan of None \<Rightarrow> Some (Inr ()) | Some t \<Rightarrow> validate_topology plan t))"
    unfolding validate_swarm_command_plan_def content_checks_def Let_def ..
  show "validate_swarm_command_plan order plan = Some (Inr ()) \<longleftrightarrow> plan_ok plan"
    using content_checks_ok [OF assms, of plan] unfolding v plan_ok_def
    by (cases "content_checks order plan"; cases "sp_topology plan") (auto simp: validate_topology_ok)
  show "validate_swarm_command_plan order plan \<noteq> None"
    unfolding v using validate_topology_total by (auto split: sum.splits option.splits)
qed

text \<open>(C23) Validation of swarm command plans. Validation always returns, and it accepts a plan exactly if: the schema is the current one; no two
  agents share an identifier and every command names its own agent as source, if any; no resource has two active owners; a resource that one
  agent released and another holds was handed over between them; every ownership an agent refers to is active and its own; the abort policies
  have the agents they need; and the topology has unique nodes, closed links, a node and a route from the ground station for every agent,
  only routes that are the computed shortest ones, and no cycle of dependencies. The order of a hash table does not matter.\<close>

theorem validate_swarm_command_plan_exact:
  assumes "\<And>m. set (order m) = set m"
  shows "(validate_swarm_command_plan order plan = Some (Inr ()) \<longleftrightarrow> plan_ok plan) \<and> validate_swarm_command_plan order plan \<noteq> None"
  using validate_spec [of order plan, OF assms] by blast

section \<open>Failure policies\<close>

lemma find_Some_set: "find P xs = Some x \<Longrightarrow> x \<in> set xs \<and> P x"
  by (auto simp: find_Some_iff)

text \<open>(C26) Failure policies. In a plan that passed validation every failure of one of its agents is decided without an error, and as the agent's own
  policy says: the mission is aborted for all agents; the failed agent's active ownership is released; or a reserve or recovery agent other
  than the failed one takes over exactly the active ownership of the failed one.\<close>

theorem apply_agent_failure_decides:
  assumes "\<And>m. set (order m) = set m" "validate_swarm_command_plan order plan = Some (Inr ())" "a \<in> set (sp_agents plan)"
  shows "(case ap_abort_policy a of
      AbortAgentOnly \<Rightarrow> apply_agent_failure plan (ap_agent_id a) = Inr (DecideAbortAgentOnly (ap_agent_id a))
    | AbortMission \<Rightarrow> apply_agent_failure plan (ap_agent_id a) = Inr (DecideAbortMission (ap_agent_id a) (map ap_agent_id (sp_agents plan)))
    | ContinueDegraded \<Rightarrow> \<exists>rs. apply_agent_failure plan (ap_agent_id a) = Inr (DecideContinueDegraded (ap_agent_id a) rs) \<and>
        set rs = {r \<in> set (sp_ownership plan). ow_agent_id r = ap_agent_id a \<and> is_active r}
    | ReplaceFromReserve \<Rightarrow> \<exists>b hs. apply_agent_failure plan (ap_agent_id a) = Inr (DecideReplaceFromReserve (ap_agent_id a) (ap_agent_id b) hs) \<and>
        b \<in> set (sp_agents plan) \<and> ap_agent_id b \<noteq> ap_agent_id a \<and> is_reserve b \<and>
        (\<forall>h\<in>set hs. from_agent_id h = ap_agent_id a \<and> to_agent_id h = ap_agent_id b) \<and>
        map (\<lambda>h. (ho_kind h, ho_resource_id h)) hs = map resource (filter (\<lambda>r. ow_agent_id r = ap_agent_id a \<and> is_active r) (sp_ownership plan)))"
proof -
  have ok: "contents_ok plan" using validate_spec(1) [OF assms(1), of plan] assms(2) by (simp add: plan_ok_def)
  then have "inj_on ap_agent_id (set (sp_agents plan))" by (simp add: contents_ok_def distinct_map)
  then have f: "find (\<lambda>b. ap_agent_id b = ap_agent_id a) (sp_agents plan) = Some a"
    using assms(3) by (cases "find (\<lambda>b. ap_agent_id b = ap_agent_id a) (sp_agents plan)")
      (auto simp: find_None_iff dest!: find_Some_set inj_onD)
  show ?thesis
  proof (cases "ap_abort_policy a")
    case ReplaceFromReserve
    let ?others = "filter (\<lambda>b. ap_agent_id b \<noteq> ap_agent_id a) (sp_agents plan)"
    obtain c where "c \<in> set ?others" "is_reserve c" using ok assms(3) ReplaceFromReserve by (auto simp: contents_ok_def)
    then obtain b where b: "find is_reserve ?others = Some b" by (cases "find is_reserve ?others") (auto simp: find_None_iff)
    have "list_ex (\<lambda>b. ap_agent_id b \<noteq> ap_agent_id a \<and> is_reserve b) (sp_agents plan)" using find_Some_set [OF b] by (auto simp: list_ex_iff)
    then have "ensure_replacement_candidate_for_agent plan (ap_agent_id a) = Inr ()" by (simp add: ensure_replacement_candidate_for_agent_def)
    then show ?thesis using find_Some_set [OF b] f b ReplaceFromReserve
      by (auto simp: apply_agent_failure_def resource_def intro!: exI [of _ b])
  qed (simp_all add: apply_agent_failure_def f released_ownership_def conj_commute)
qed

end
