(* ===== verification/CommandFanout.thy ===== *)
theory CommandFanout
  imports CommandValidation MavlinkFaithful
begin

text \<open>
  The fan-out (\<open>fanout.rs\<close>): the routes it computes pass the validation of its own plan, and with the default topology every agent is
  commanded over the direct link to the ground station.
\<close>

section \<open>Computed routes are valid\<close>

lemma blocked_reason_not_blank: "trim (blocked_reason k) \<noteq> []"
proof -
  have "list_all (\<lambda>k. trim (blocked_reason k) \<noteq> []) [CentralizedGcs, P2pLogical, MothershipTopology, RelayTopology, Mesh]" by code_simp
  then show ?thesis by (cases k) simp_all
qed

lemma computed_route_ok:
  assumes "start \<in> set (map tn_node_id (tc_nodes t))" "agent_node_id_in_topology t a = Some dest"
    and "tc_kind t = MothershipTopology \<or> mothership_parent_node_id t a = None"
  shows "route_ok t (route_between t start a)"
proof (cases "allowed (route_between t start a)")
  case True
  from route_between_path [OF True assms(2)] have "is_route t start dest (via_node_ids (route_between t start a))"
    and "visits_parent t a (via_node_ids (route_between t start a))" by simp_all
  then show ?thesis using True assms available_node_ids [of t] by (auto simp: route_ok_def is_route_def visits_parent_def)
next
  case False
  then have "via_node_ids (route_between t start a) = [] \<and> rt_reason (route_between t start a) = blocked_reason (tc_kind t)"
    using assms(2) by (auto simp: route_between_def Let_def split: option.splits)
  then show ?thesis using False assms blocked_reason_not_blank by (simp add: route_ok_def)
qed

section \<open>The default topology\<close>

lemma central_nodes:
  "map tn_node_id (tc_nodes (centralized_gcs_for_agents as)) = ''gcs'' # map (agent_node_id \<circ> ap_agent_id) as"
  "available_nodes (centralized_gcs_for_agents as) = set (''gcs'' # map (agent_node_id \<circ> ap_agent_id) as)"
  by (simp_all add: centralized_gcs_for_agents_def DEFAULT_GCS_NODE_ID_def available_nodes_def comp_def image_image)

lemma central_links:
  "available_link_exists (centralized_gcs_for_agents as) ''gcs'' (agent_node_id a) \<longleftrightarrow> a \<in> ap_agent_id ` set as"
  by (auto simp: centralized_gcs_for_agents_def available_link_exists_def list_ex_iff DEFAULT_GCS_NODE_ID_def agent_node_id_def)

lemma central_not_degraded: "\<not> route_path_degraded (centralized_gcs_for_agents as) p"
  by (auto simp: route_path_degraded_def list_ex_iff centralized_gcs_for_agents_def)

lemma central_fields [simp]:
  "tc_kind (centralized_gcs_for_agents as) = CentralizedGcs" "gcs_node_id (centralized_gcs_for_agents as) = ''gcs''"
  "mothership_dependencies (centralized_gcs_for_agents as) = []" "tc_transport (centralized_gcs_for_agents as) = in_memory_logical"
  by (simp_all add: centralized_gcs_for_agents_def DEFAULT_GCS_NODE_ID_def)

lemma central_agent_node:
  "a \<in> ap_agent_id ` set as \<Longrightarrow> agent_node_id_in_topology (centralized_gcs_for_agents as) a = Some (agent_node_id a)"
proof -
  assume a: "a \<in> ap_agent_id ` set as"
  let ?nodes = "tc_nodes (centralized_gcs_for_agents as)" and ?P = "\<lambda>n. tn_agent_id n = Some a"
  have "find ?P ?nodes \<noteq> None" using a by (auto simp: find_None_iff centralized_gcs_for_agents_def)
  then obtain n where n: "find ?P ?nodes = Some n" by auto
  then have "tn_node_id n = agent_node_id a" using find_Some_set [OF n] by (auto simp: centralized_gcs_for_agents_def)
  then show ?thesis using n by (simp add: agent_node_id_in_topology_def)
qed

lemma central_route:
  assumes "a \<in> ap_agent_id ` set as"
  shows "route_between (centralized_gcs_for_agents as) ''gcs'' a =
    \<lparr>rt_route_id = ''route:gcs:'' @ a, rt_from_node_id = ''gcs'', rt_to_agent_id = a, via_node_ids = [''gcs'', ''agent:'' @ a],
     allowed = True, degraded = False, rt_reason = ''centralized_gcs_route''\<rparr>"
proof -
  let ?t = "centralized_gcs_for_agents as" and ?n = "agent_node_id a"
  have r: "is_route ?t ''gcs'' ?n [''gcs'', ?n]" using assms by (auto simp: is_route_def central_nodes central_links)
  then obtain p where p: "bfs_path ?t ''gcs'' ?n = Some p" "length p \<le> length [''gcs'', ?n]" using bfs_path_shortest by blast
  then have "p \<noteq> []" "hd p = ''gcs''" "List.last p = ?n" using bfs_path_Some by (auto simp: is_route_def)
  moreover have "''gcs'' \<noteq> ?n" by (simp add: agent_node_id_def)
  ultimately have "p = [''gcs'', ?n]" using p(2) by (cases p; cases "tl p") auto
  then show ?thesis using p(1) central_agent_node [OF assms] central_not_degraded
    by (simp add: route_between_def route_path_for_kind_def Let_def agent_node_id_def)
qed

lemma central_routes:
  "route_command_plan (centralized_gcs_for_agents as) as =
    map (\<lambda>b. \<lparr>rt_route_id = ''route:gcs:'' @ ap_agent_id b, rt_from_node_id = ''gcs'', rt_to_agent_id = ap_agent_id b,
      via_node_ids = [''gcs'', ''agent:'' @ ap_agent_id b], allowed = True, degraded = False, rt_reason = ''centralized_gcs_route''\<rparr>) as"
  by (simp add: route_command_plan_def Let_def central_route)

lemma boundary_not_blank: "trim (hardware_boundary in_memory_logical) \<noteq> []"
  by code_simp

text \<open>With the default topology the topology is never the reason to reject a plan.\<close>

lemma central_topology_ok:
  assumes "distinct (map ap_agent_id (sp_agents plan))" "t = centralized_gcs_for_agents (sp_agents plan)"
    "command_routes plan = route_command_plan t (sp_agents plan)"
  shows "topology_ok plan t"
proof -
  have "distinct (map tn_node_id (tc_nodes t))"
    using assms(1) unfolding assms(2) central_nodes by (auto simp: distinct_map comp_inj_on inj_on_def agent_node_id_def)
  moreover have "route_ok t r" if "r \<in> set (command_routes plan)" for r
  proof -
    from that obtain a where a: "a \<in> set (sp_agents plan)" "r = route_between t ''gcs'' (ap_agent_id a)"
      unfolding assms(2,3) by (auto simp: route_command_plan_def Let_def)
    show ?thesis unfolding a(2) assms(2)
      by (rule computed_route_ok [OF _ central_agent_node]) (use a in \<open>auto simp: central_nodes mothership_parent_node_id_def\<close>)
  qed
  moreover have "\<exists>r\<in>set (command_routes plan). rt_to_agent_id r = ap_agent_id a \<and> rt_from_node_id r = ''gcs''" if "a \<in> set (sp_agents plan)" for a
    using that unfolding assms(2,3) central_routes by auto
  moreover have "\<forall>l\<in>set (tc_links t). from_node_id l \<in> set (map tn_node_id (tc_nodes t)) \<and> to_node_id l \<in> set (map tn_node_id (tc_nodes t))"
    unfolding assms(2) central_nodes by (auto simp: centralized_gcs_for_agents_def DEFAULT_GCS_NODE_ID_def)
  ultimately show ?thesis using boundary_not_blank central_agent_node [of _ "sp_agents plan"]
    by (auto simp: topology_ok_def assms(2) central_nodes dependencies_def acyclic_def)
qed

section \<open>The fan-out\<close>

lemma compile_assignments_ok:
  "compile_assignments env opts as = Inr ps \<Longrightarrow> list_all2 (\<lambda>a p. compile_assignment env opts a = Inr p) as ps"
  by (induction as arbitrary: ps) (auto simp: list_all2_Cons1 split: sum.splits)

lemma compile_assignment_fields:
  "compile_assignment env opts a = Inr p \<Longrightarrow> ap_agent_id p = ca_agent_id a \<and> ap_command_plan p = ca_command_plan a \<and>
     compile_mavlink_common_plan env (ca_command_plan a) opts = Inr (ap_mavlink_plan p)"
  by (auto simp: compile_assignment_def split: sum.splits)

text \<open>(C22) Fan-out of a swarm command. Without a topology of its own the input is rejected only for its contents, never for the topology built for it:
  when every assignment compiles, the plan is built exactly if its contents pass. Every agent then has the compiled form of its own command
  plan and is commanded over the direct, lossless route from the ground station, and the summary counts what the plan holds.\<close>

theorem build_swarm_command_plan_default:
  assumes "\<And>m. set (order m) = set m" "fi_topology i = None" "compile_assignments env (mavlink_options i) (assignments i) = Inr agents"
  shows "(\<forall>plan. build_swarm_command_plan order env i = Some (Inr plan) \<longleftrightarrow> plan = assemble_plan i agents \<and> contents_ok plan) \<and>
    list_all2 (\<lambda>a p. ap_agent_id p = ca_agent_id a \<and> compile_mavlink_common_plan env (ca_command_plan a) (mavlink_options i) = Inr (ap_mavlink_plan p))
      (assignments i) (sp_agents (assemble_plan i agents)) \<and>
    map (\<lambda>r. (via_node_ids r, allowed r, degraded r)) (command_routes (assemble_plan i agents)) =
      map (\<lambda>a. ([''gcs'', ''agent:'' @ ca_agent_id a], True, False)) (assignments i) \<and>
    degraded_route_count (sp_summary (assemble_plan i agents)) = 0 \<and> command_route_count (sp_summary (assemble_plan i agents)) = length (assignments i)"
proof -
  let ?plan = "assemble_plan i agents" and ?t = "centralized_gcs_for_agents agents"
  note all = compile_assignments_ok [OF assms(3)]
  have fields: "sp_agents ?plan = agents" "sp_topology ?plan = Some ?t" "command_routes ?plan = route_command_plan ?t agents"
    using assms(2) by (simp_all add: assemble_plan_def Let_def)
  have "plan_ok ?plan \<longleftrightarrow> contents_ok ?plan"
    using central_topology_ok [of ?plan ?t] by (auto simp: plan_ok_def fields contents_ok_def)
  then have "validate_swarm_command_plan order ?plan = Some (Inr ()) \<longleftrightarrow> contents_ok ?plan" using validate_spec(1) [of order, OF assms(1)] by simp
  then have 1: "\<forall>plan. build_swarm_command_plan order env i = Some (Inr plan) \<longleftrightarrow> plan = ?plan \<and> contents_ok plan"
  proof -
    obtain r where r: "validate_swarm_command_plan order ?plan = Some r" using validate_spec(2) [of order ?plan, OF assms(1)] by auto
    show ?thesis using \<open>(validate_swarm_command_plan order ?plan = Some (Inr ())) = _\<close>
      by (cases r) (auto simp: build_swarm_command_plan_def assms(3) Let_def r)
  qed
  have 2: "list_all2 (\<lambda>a p. ap_agent_id p = ca_agent_id a \<and> compile_mavlink_common_plan env (ca_command_plan a) (mavlink_options i) = Inr (ap_mavlink_plan p))
      (assignments i) agents"
    using all by (rule list_all2_mono) (simp add: compile_assignment_fields)
  then have ids: "map ap_agent_id agents = map ca_agent_id (assignments i)" "length agents = length (assignments i)"
    by (induction rule: list_all2_induct) auto
  have "map (\<lambda>r. (via_node_ids r, allowed r, degraded r)) (command_routes ?plan) =
      map (\<lambda>x. ([''gcs'', ''agent:'' @ x], True, False)) (map ap_agent_id agents)"
    by (simp add: fields central_routes)
  then have 3: "map (\<lambda>r. (via_node_ids r, allowed r, degraded r)) (command_routes ?plan) =
      map (\<lambda>a. ([''gcs'', ''agent:'' @ ca_agent_id a], True, False)) (assignments i)"
    by (simp only: ids) (simp add: comp_def)
  have "degraded_route_count (sp_summary ?plan) = 0" "command_route_count (sp_summary ?plan) = length (assignments i)"
    using assms(2) ids(2) by (simp_all add: assemble_plan_def Let_def summarize_swarm_command_plan_def central_routes)
  with 1 2 3 show ?thesis by (simp add: fields)
qed

section \<open>A swarm of two\<close>

definition pair_input :: SwarmCommandFanoutInput where
  "pair_input = \<lparr>fi_plan_id = ''p'',
     assignments = map (\<lambda>(a, r, pol). \<lparr>ca_agent_id = a, ca_role = r, ca_command_plan = survey_mission, ca_abort_policy = pol, ca_ownership_refs = []\<rparr>)
       [(''a'', CrScout, ReplaceFromReserve), (''b'', CrReserve, AbortAgentOnly)],
     fi_ownership = [\<lparr>ow_agent_id = ''a'', ow_kind = OwnedTask, ow_resource_id = ''t'', ow_status = OwnershipActive, ow_tick = 0, ow_reason = []\<rparr>],
     fi_global_abort_policy = AbortMission, fi_sync_operations = [], fi_topology = None, mavlink_options = default_plan_options\<rparr>"

lemma pair_compiles:
  obtains agents where "compile_assignments plain_env (mavlink_options pair_input) (assignments pair_input) = Inr agents"
    "map ap_agent_id agents = [''a'', ''b'']" "map ap_role agents = [CrScout, CrReserve]"
    "map ap_abort_policy agents = [ReplaceFromReserve, AbortAgentOnly]" "\<forall>p\<in>set agents. ap_command_plan p = survey_mission \<and> ap_ownership_refs p = []"
proof -
  obtain m where "compile_mavlink_common_plan plain_env survey_mission default_plan_options = Inr m" using survey_compiles by blast
  then show thesis by (intro that) (auto simp: pair_input_def compile_assignment_def)
qed

lemma pair_contents:
  assumes "map ap_agent_id agents = [''a'', ''b'']" "map ap_role agents = [CrScout, CrReserve]"
    "map ap_abort_policy agents = [ReplaceFromReserve, AbortAgentOnly]" "\<forall>p\<in>set agents. ap_command_plan p = survey_mission \<and> ap_ownership_refs p = []"
  shows "contents_ok (assemble_plan pair_input agents)"
proof -
  obtain x y where agents: "agents = [x, y]" using assms(1) by (auto simp: map_eq_Cons_conv)
  have src: "\<forall>e\<in>set (commands survey_mission). source_agent_id e = None" by (simp add: survey_commands)
  show ?thesis using assms src
    by (simp add: agents contents_ok_def assemble_plan_def Let_def pair_input_def is_reserve_def resource_def)
qed

theorem build_swarm_command_plan_default_witness:
  "\<exists>plan. build_swarm_command_plan (\<lambda>m. m) plain_env pair_input = Some (Inr plan) \<and>
     map via_node_ids (command_routes plan) = [[''gcs'', ''agent:a''], [''gcs'', ''agent:b'']]"
proof (rule pair_compiles)
  fix agents
  assume c: "compile_assignments plain_env (mavlink_options pair_input) (assignments pair_input) = Inr agents"
    and f: "map ap_agent_id agents = [''a'', ''b'']" "map ap_role agents = [CrScout, CrReserve]"
    "map ap_abort_policy agents = [ReplaceFromReserve, AbortAgentOnly]" "\<forall>p\<in>set agents. ap_command_plan p = survey_mission \<and> ap_ownership_refs p = []"
  have "fi_topology pair_input = None" by (simp add: pair_input_def)
  note b = build_swarm_command_plan_default [of "\<lambda>m. m", OF refl this c]
  then have "build_swarm_command_plan (\<lambda>m. m) plain_env pair_input = Some (Inr (assemble_plan pair_input agents))" using pair_contents [OF f] by blast
  moreover have "map fst (map (\<lambda>r. (via_node_ids r, allowed r, degraded r)) (command_routes (assemble_plan pair_input agents))) =
      [[''gcs'', ''agent:a''], [''gcs'', ''agent:b'']]"
    using b by (simp add: pair_input_def)
  ultimately show ?thesis by (simp add: comp_def)
qed

lemma pair_plan:
  obtains plan where "validate_swarm_command_plan (\<lambda>m. m) plan = Some (Inr ())" "plan_ok plan" "map ap_agent_id (sp_agents plan) = [''a'', ''b'']"
    "map ap_abort_policy (sp_agents plan) = [ReplaceFromReserve, AbortAgentOnly]" "map ow_agent_id (sp_ownership plan) = [''a'']"
    "map resource (sp_ownership plan) = [(OwnedTask, ''t'')]" "map ow_status (sp_ownership plan) = [OwnershipActive]"
proof (rule pair_compiles)
  fix agents :: "SwarmAgentCommandPlan list"
  assume f: "map ap_agent_id agents = [''a'', ''b'']" "map ap_role agents = [CrScout, CrReserve]"
    "map ap_abort_policy agents = [ReplaceFromReserve, AbortAgentOnly]" "\<forall>p\<in>set agents. ap_command_plan p = survey_mission \<and> ap_ownership_refs p = []"
  let ?plan = "assemble_plan pair_input agents"
  have fields: "sp_agents ?plan = agents" "sp_topology ?plan = Some (centralized_gcs_for_agents agents)"
    "command_routes ?plan = route_command_plan (centralized_gcs_for_agents agents) agents" "sp_ownership ?plan = fi_ownership pair_input"
    by (simp_all add: assemble_plan_def Let_def pair_input_def)
  have "plan_ok ?plan" using pair_contents [OF f] central_topology_ok [of ?plan "centralized_gcs_for_agents agents"] f(1) by (simp add: plan_ok_def fields)
  then show thesis using f validate_spec(1) [of "\<lambda>m. m" ?plan, OF refl]
    by (intro that [of ?plan]) (simp_all add: fields, simp_all add: pair_input_def resource_def)
qed

theorem validate_swarm_command_plan_exact_witness:
  "\<exists>plan. length (sp_agents plan) = 2 \<and> validate_swarm_command_plan (\<lambda>m. m) plan = Some (Inr ())"
proof (rule pair_plan)
  fix plan assume "plan_ok plan" "map ap_agent_id (sp_agents plan) = [''a'', ''b'']"
  then show ?thesis using validate_swarm_command_plan_exact [of "\<lambda>m. m" plan, OF refl] arg_cong [of _ _ length] by force
qed

theorem apply_agent_failure_decides_witness:
  "\<exists>plan b hs. apply_agent_failure plan ''a'' = Inr (DecideReplaceFromReserve ''a'' b hs) \<and> b \<noteq> ''a'' \<and>
     map (\<lambda>h. (ho_kind h, ho_resource_id h)) hs = [(OwnedTask, ''t'')]"
proof (rule pair_plan)
  fix plan assume v: "validate_swarm_command_plan (\<lambda>m. m) plan = Some (Inr ())"
    and f: "map ap_agent_id (sp_agents plan) = [''a'', ''b'']" "map ap_abort_policy (sp_agents plan) = [ReplaceFromReserve, AbortAgentOnly]"
    "map ow_agent_id (sp_ownership plan) = [''a'']" "map resource (sp_ownership plan) = [(OwnedTask, ''t'')]" "map ow_status (sp_ownership plan) = [OwnershipActive]"
  obtain x y where "sp_agents plan = [x, y]" "ap_agent_id x = ''a''" "ap_abort_policy x = ReplaceFromReserve" using f(1,2) by (auto simp: map_eq_Cons_conv)
  then have x: "x \<in> set (sp_agents plan)" "ap_agent_id x = ''a''" "ap_abort_policy x = ReplaceFromReserve" by simp_all
  obtain w where "sp_ownership plan = [w]" "ow_agent_id w = ''a''" "resource w = (OwnedTask, ''t'')" "is_active w" using f(3-5) by (auto simp: map_eq_Cons_conv)
  then show ?thesis using apply_agent_failure_decides [of "\<lambda>m. m", OF refl v x(1)] x by (intro exI [of _ plan]) auto
qed

section \<open>Synchronised commands\<close>

definition outcome_of :: "(AgentId, SyncAgentOutcome) hmap \<Rightarrow> AgentId \<Rightarrow> SyncAgentOutcome" where
  "outcome_of outcomes a = (case hm_get outcomes a of Some r \<Rightarrow> r | None \<Rightarrow> SyncSucceeded)"

definition sync_inv :: "(AgentId, SyncAgentOutcome) hmap \<Rightarrow> AgentId set \<Rightarrow> AgentId list \<times> AgentId list \<times> AgentId list \<Rightarrow> bool" where
  "sync_inv outcomes seen s \<longleftrightarrow> (case s of (ok, bad, late) \<Rightarrow>
     distinct ok \<and> distinct bad \<and> distinct late \<and> set ok = {a \<in> seen. outcome_of outcomes a = SyncSucceeded} \<and>
     set bad = {a \<in> seen. outcome_of outcomes a = SyncFailed} \<and> set late = {a \<in> seen. outcome_of outcomes a = SyncTimedOut})"

lemma sync_inv_step:
  "sync_inv outcomes seen (ok, bad, late) \<Longrightarrow> a \<notin> seen \<Longrightarrow>
   sync_inv outcomes (insert a seen) (case outcome_of outcomes a of
     SyncSucceeded \<Rightarrow> (ok @ [a], bad, late) | SyncFailed \<Rightarrow> (ok, bad @ [a], late) | SyncTimedOut \<Rightarrow> (ok, bad, late @ [a]))"
  by (cases "outcome_of outcomes a") (auto simp: sync_inv_def)

lemma sync_loop_spec:
  "sync_inv outcomes seen s \<Longrightarrow> sync_loop outcomes as seen s = (seen', s') \<Longrightarrow> sync_inv outcomes seen' s' \<and> seen' = seen \<union> set as"
proof (induction as arbitrary: seen s)
  case (Cons a as)
  obtain ok bad late where s: "s = (ok, bad, late)" by (cases s)
  show ?case
  proof (cases "a \<in> seen")
    case True
    then show ?thesis using Cons.IH [OF Cons.prems(1)] Cons.prems(2) s by auto
  next
    case False
    then show ?thesis using Cons.IH [OF sync_inv_step [OF Cons.prems(1) [unfolded s] False]] Cons.prems(2) s
      by (auto simp: outcome_of_def)
  qed
qed simp

text \<open>Synchronised commands. The three lists of the result hold every agent of the window once, each in the list of its outcome, agents without a
  report counting as successes; the command is accepted exactly if every agent succeeded or, with a quorum, enough distinct agents did.\<close>

theorem evaluate_synchronized_command_exact:
  "let r = evaluate_synchronized_command w outcomes; agents = set (sw_agent_ids w) in
   distinct (succeeded r @ failed r @ timed_out r) \<and>
   set (succeeded r) = {a \<in> agents. outcome_of outcomes a = SyncSucceeded} \<and>
   set (failed r) = {a \<in> agents. outcome_of outcomes a = SyncFailed} \<and>
   set (timed_out r) = {a \<in> agents. outcome_of outcomes a = SyncTimedOut} \<and>
   (sr_accepted r \<longleftrightarrow> (case partial_success_policy w of
      RequireAll \<Rightarrow> {a \<in> agents. outcome_of outcomes a = SyncSucceeded} = agents
    | AtLeast n \<Rightarrow> n \<le> card {a \<in> agents. outcome_of outcomes a = SyncSucceeded}))"
proof -
  let ?ids = "sw_agent_ids w"
  obtain seen ok bad late where s: "sync_loop outcomes ?ids {} ([], [], []) = (seen, ok, bad, late)"
    by (cases "sync_loop outcomes ?ids {} ([], [], [])") auto
  have "sync_inv outcomes {} ([], [], [])" by (simp add: sync_inv_def)
  from sync_loop_spec [OF this s] have inv: "sync_inv outcomes (set ?ids) (ok, bad, late)" and seen: "seen = set ?ids" by auto
  then have sets: "set ok = {a \<in> set ?ids. outcome_of outcomes a = SyncSucceeded}" "set bad = {a \<in> set ?ids. outcome_of outcomes a = SyncFailed}"
    "set late = {a \<in> set ?ids. outcome_of outcomes a = SyncTimedOut}" and d: "distinct (ok @ bad @ late)"
    by (auto simp: sync_inv_def)
  have u: "set ok \<union> set bad \<union> set late = set ?ids" unfolding sets using SyncAgentOutcome.exhaust by blast
  have len: "length ok = card (set ok)" using d by (simp add: distinct_card)
  have all: "length ok = card seen \<and> bad = [] \<and> late = [] \<longleftrightarrow> set ok = set ?ids"
  proof
    assume "set ok = set ?ids"
    moreover from this have "\<forall>a\<in>set ?ids. outcome_of outcomes a = SyncSucceeded" using sets(1) by blast
    then have "set bad = {}" "set late = {}" using sets(2,3) by simp_all
    ultimately show "length ok = card seen \<and> bad = [] \<and> late = []" using len seen by simp
  qed (use u in auto)
  show ?thesis
    unfolding Let_def evaluate_synchronized_command_def s prod.case SynchronizedCommandResult.simps all
    using d len by (simp add: sets split: PartialSuccessPolicy.split)
qed

end
