(* ===== verification/Safety.thy ===== *)
theory Safety
  imports Node F64Order
begin

text \<open>
  The safety crate, \<open>swarm-safety/src/lib.rs\<close> and \<open>preflight.rs\<close>: geofence, no-fly zones with their activity window, separation, the check of
  one agent and the filter of tasks; the wrapper \<open>SafetyAllocator\<close> of \<open>swarm-sim/src/runner/types.rs\<close> that hides forbidden tasks from an
  allocator; and the count of violations of one tick, \<open>swarm-sim/src/runner/internal/safety.rs\<close>.
\<close>

section \<open>Constraints\<close>

text \<open>A geofence is its bounds and a separation constraint its least distance.\<close>

record NoFlyZone =
  nf_bounds :: Aabb
  active_from_tick :: "u64 option"
  active_until_tick :: "u64 option"

definition is_active_at :: "NoFlyZone \<Rightarrow> u64 \<Rightarrow> bool" where
  "is_active_at z t =
     (let after_start = (case active_from_tick z of None \<Rightarrow> True | Some k \<Rightarrow> k \<le> t);
          before_end = (case active_until_tick z of None \<Rightarrow> True | Some k \<Rightarrow> t \<le> k)
      in after_start \<and> before_end)"

record SafetyConfig =
  geofence :: "Aabb option"
  no_fly_zones :: "NoFlyZone list"
  separation :: "f64 option"
  max_altitude_m :: "f64 option"
  min_altitude_m :: "f64 option"
  max_route_length_m :: "f64 option"
  max_duration_ticks :: "u64 option"

definition default_safety_config :: SafetyConfig where
  "default_safety_config = \<lparr>geofence = None, no_fly_zones = [], separation = None, max_altitude_m = None, min_altitude_m = None,
     max_route_length_m = None, max_duration_ticks = None\<rparr>"

datatype ViolationType =
  GeofenceExited
| NoFlyZoneEntered
| SeparationBreached AgentId

record SafetyViolation =
  sv_agent_id :: AgentId
  violation_type :: ViolationType

section \<open>The check of an agent\<close>

definition geofence_violations :: "SafetyConfig \<Rightarrow> Agent \<Rightarrow> SafetyViolation list" where
  "geofence_violations c a =
     (case geofence c of
        None \<Rightarrow> []
      | Some b \<Rightarrow> if aabb_contains b (a_pose a) then [] else [\<lparr>sv_agent_id = a_id a, violation_type = GeofenceExited\<rparr>])"

text \<open>\<open>dx * dx + dy * dy < min_dist * min_dist\<close>.\<close>

definition too_close :: "f64 \<Rightarrow> Agent \<Rightarrow> Agent \<Rightarrow> bool" where
  "too_close min_dist a other =
     (let dx = f64_sub (px (a_pose a)) (px (a_pose other)); dy = f64_sub (py (a_pose a)) (py (a_pose other));
          dist_sq = f64_add (f64_mul dx dx) (f64_mul dy dy)
      in f64_lt dist_sq (f64_mul min_dist min_dist))"

definition separation_violations :: "SafetyConfig \<Rightarrow> Agent \<Rightarrow> Agent list \<Rightarrow> SafetyViolation list" where
  "separation_violations c a others =
     (case separation c of
        None \<Rightarrow> []
      | Some d \<Rightarrow> concat (map (\<lambda>other. if a_id other = a_id a then []
          else if too_close d a other then [\<lparr>sv_agent_id = a_id a, violation_type = SeparationBreached (a_id other)\<rparr>] else []) others))"

definition check_agent_at_tick :: "SafetyConfig \<Rightarrow> Agent \<Rightarrow> Agent list \<Rightarrow> u64 \<Rightarrow> SafetyViolation list" where
  "check_agent_at_tick c a others now =
     geofence_violations c a @
     concat (map (\<lambda>z. if is_active_at z now \<and> aabb_contains (nf_bounds z) (a_pose a)
       then [\<lparr>sv_agent_id = a_id a, violation_type = NoFlyZoneEntered\<rparr>] else []) (no_fly_zones c)) @
     separation_violations c a others"

definition check_agent :: "SafetyConfig \<Rightarrow> Agent \<Rightarrow> Agent list \<Rightarrow> SafetyViolation list" where
  "check_agent c a others =
     geofence_violations c a @
     concat (map (\<lambda>z. if aabb_contains (nf_bounds z) (a_pose a)
       then [\<lparr>sv_agent_id = a_id a, violation_type = NoFlyZoneEntered\<rparr>] else []) (no_fly_zones c)) @
     separation_violations c a others"

definition is_task_reachable :: "SafetyConfig \<Rightarrow> Task \<Rightarrow> bool" where
  "is_task_reachable c t =
     (case t_pose t of None \<Rightarrow> True | Some p \<Rightarrow> \<not> list_ex (\<lambda>z. aabb_contains (nf_bounds z) p) (no_fly_zones c))"

definition filter_safe_tasks :: "SafetyConfig \<Rightarrow> Task list \<Rightarrow> Task list" where
  "filter_safe_tasks c ts = filter (is_task_reachable c) ts"

section \<open>Preflight reports\<close>

datatype ViolationSeverity = SeverityError | SeverityWarning

record PreflightViolation =
  rule_id :: string
  severity :: ViolationSeverity
  affected_id :: "string option"
  reason :: string

record SafetyValidationReport =
  passed :: bool
  violations :: "PreflightViolation list"

definition report_ok :: SafetyValidationReport where
  "report_ok = \<lparr>passed = True, violations = []\<rparr>"

definition from_violations :: "PreflightViolation list \<Rightarrow> SafetyValidationReport" where
  "from_violations vs = \<lparr>passed = list_all (\<lambda>v. severity v \<noteq> SeverityError) vs, violations = vs\<rparr>"

section \<open>The allocator wrapper\<close>

text \<open>\<open>SafetyAllocator\<close> around an inner allocator; both of its methods filter the tasks alike.\<close>

definition safety_filter :: "SafetyConfig option \<Rightarrow> Task list \<Rightarrow> Task list" where
  "safety_filter c ts =
     (case c of
        Some cfg \<Rightarrow> filter (\<lambda>t. case t_pose t of None \<Rightarrow> True | Some p \<Rightarrow> \<not> list_ex (\<lambda>z. aabb_contains (nf_bounds z) p) (no_fly_zones cfg)) ts
      | None \<Rightarrow> ts)"

definition safety_allocate :: "SafetyConfig option \<Rightarrow> 'st alloc_fun \<Rightarrow> 'st alloc_fun" where
  "safety_allocate c inner st ts as conn = inner st (safety_filter c ts) as conn"

section \<open>The violations of a tick\<close>

text \<open>An agent as the runner rebuilds it from a membership entry.\<close>

definition runner_agent :: "AgentId \<Rightarrow> AgentEntry \<Rightarrow> Agent" where
  "runner_agent i e =
     \<lparr>a_id = i, a_role = e_role e, a_health = e_health e, a_pose = e_pose e, a_capabilities = e_capabilities e, a_current_task = None,
      a_battery = e_battery e, a_comms_range = e_comms_range e, a_generation = e_generation e, a_speed = f64_zero, a_max_range = f64_zero,
      a_battery_drain_rate = f64_zero, a_battery_model = None\<rparr>"

text \<open>The entry a node holds of itself, else the agent of the scenario, whose absence panics.\<close>

definition own_agent :: "Agent list \<Rightarrow> ('tr, 'dt) AgentNode \<times> AgentId \<Rightarrow> Agent option" where
  "own_agent scenario na = (case hm_get (agents (membership (coordinator (fst na)))) (snd na) of
      Some e \<Rightarrow> Some (runner_agent (snd na) e)
    | None \<Rightarrow> find (\<lambda>a. a_id a = snd na) scenario)"

datatype ReplayViolation = NoFly | Geofenced | Separation

fun replay_violation :: "ViolationType \<Rightarrow> ReplayViolation" where
  "replay_violation NoFlyZoneEntered = NoFly"
| "replay_violation GeofenceExited = Geofenced"
| "replay_violation (SeparationBreached _) = Separation"

datatype SafetyEvent = EvSafetyViolation AgentId ReplayViolation u64

definition node_violations :: "SafetyConfig \<Rightarrow> Agent list \<Rightarrow> ('tr, 'dt) AgentNode \<times> AgentId \<Rightarrow> SafetyViolation list" where
  "node_violations c all_agents na =
     (case hm_get (agents (membership (coordinator (fst na)))) (snd na) of
        None \<Rightarrow> []
      | Some e \<Rightarrow> check_agent c (runner_agent (snd na) e) all_agents)"

definition record_safety_violations ::
    "AgentId set \<Rightarrow> Agent list \<Rightarrow> SafetyConfig \<Rightarrow> u64 \<Rightarrow> (('tr, 'dt) AgentNode \<times> AgentId) list \<Rightarrow> SafetyEvent list option \<Rightarrow>
     (u64 \<times> SafetyEvent list option) option" where
  "record_safety_violations crashed scenario c now nodes lg =
     (let alive = filter (\<lambda>na. snd na \<notin> crashed) nodes
      in map_option (\<lambda>all_agents. foldl (\<lambda>(n, lg) na. let vs = node_violations c all_agents na
           in (n + of_nat (length vs), map_option (\<lambda>l. l @ map (\<lambda>v. EvSafetyViolation (snd na) (replay_violation (violation_type v)) now) vs) lg))
           (0, lg) alive)
         (those (map (own_agent scenario) alive)))"

section \<open>The check\<close>

lemma too_close_sym: "too_close d a b = too_close d b a"
  by (simp add: too_close_def Let_def f64_square_sub [of "px (a_pose a)"] f64_square_sub [of "py (a_pose a)"])

text \<open>On a grid of 1/1024 metre, up to 32 kilometres from the origin, the arithmetic of the separation check is exact: the test
  is the comparison of the squared distance with the squared least distance.\<close>

definition on_grid :: "f64 \<Rightarrow> bool" where
  "on_grid x \<longleftrightarrow> (\<exists>s n. x = Fin s (of_nat n / 2 ^ 10) \<and> n < 2 ^ 25)"

lemma round_dyadic:
  assumes "n < 2 ^ 53" "k \<le> 1000"
  shows "f64_round s (of_nat n / 2 ^ k) = Fin s (of_nat n / 2 ^ k)"
proof (cases "n = 0")
  case True
  then show ?thesis by (simp add: f64_round_def)
next
  case False
  let ?m = "of_nat n / 2 ^ k :: rat"
  have pos: "0 < ?m" using False by simp
  have up: "?m < 2 powi (53 - int k)"
  proof -
    have "(of_nat n :: rat) < of_nat (2 ^ 53)" using assms(1) by (simp only: of_nat_less_iff)
    then have "?m < 2 ^ 53 / 2 ^ k" by (intro divide_strict_right_mono) simp_all
    also have "\<dots> = 2 powi (53 - int k)" by (simp add: power_int_diff)
    finally show ?thesis .
  qed
  have e: "ulp_exp ?m \<le> - int k" using floor_log2_less [OF pos up] assms(2) by (simp add: ulp_exp_def)
  obtain j where j: "(2 :: rat) powi (- int k) / 2 powi ulp_exp ?m = of_int j" using int_multiple [OF e] by blast
  have "?m / 2 powi ulp_exp ?m = of_int (int n * j)"
    using j by (simp add: power_int_minus divide_inverse mult.assoc)
  then have "round_mag ?m = of_int (int n * j) * 2 powi ulp_exp ?m"
    using pos by (simp only: round_mag_def round_even_of_int) simp
  also have "\<dots> = ?m" using \<open>?m / 2 powi ulp_exp ?m = of_int (int n * j)\<close> [symmetric] by simp
  finally have r: "round_mag ?m = ?m" .
  have "?m < 2 ^ 1024"
  proof -
    have "53 - int k \<le> int 1024" by simp
    then have "(2 :: rat) powi (53 - int k) \<le> 2 powi (int 1024)" by (simp only: powi_le_iff)
    with up show ?thesis unfolding power_int_of_nat by (rule order_less_le_trans)
  qed
  then have "\<not> (?m \<noteq> 0 \<and> 2 ^ 1024 \<le> ?m)" by (simp only: not_le [symmetric] de_Morgan_conj disjI2 simp_thms not_not)
  then show ?thesis by (simp only: f64_round_mag r if_False)
qed

lemma grid_sub:
  assumes "on_grid x" "on_grid y"
  shows "\<exists>s n. f64_sub x y = Fin s (of_nat n / 2 ^ 10) \<and> n < 2 ^ 26 \<and> (of_nat n / 2 ^ 10) = \<bar>val x - val y\<bar>"
proof -
  obtain s m where x: "x = Fin s (of_nat m / 2 ^ 10)" "m < 2 ^ 25" using assms(1) by (auto simp: on_grid_def)
  obtain t n where y: "y = Fin t (of_nat n / 2 ^ 10)" "n < 2 ^ 25" using assms(2) by (auto simp: on_grid_def)
  define i where "i = (if s then - int m else int m) - (if t then - int n else int n)"
  have v: "val x - val y = of_int i / 2 ^ 10"
    by (simp add: x y i_def val_def diff_divide_distrib [symmetric] add_divide_distrib [symmetric])
  have nv: "val x + val (f64_neg y) = val x - val y" by (simp add: y val_def)
  have small: "nat \<bar>i\<bar> < 2 ^ 26" using x(2) y(2) by (auto simp: i_def)
  then have "nat \<bar>i\<bar> < 2 ^ 53" by simp
  then have r: "f64_round b (of_nat (nat \<bar>i\<bar>) / 2 ^ 10) = Fin b (of_nat (nat \<bar>i\<bar>) / 2 ^ 10)" for b
    by (rule round_dyadic) simp
  have a: "\<bar>val x - val y\<bar> = of_nat (nat \<bar>i\<bar>) / 2 ^ 10" unfolding v by simp
  have "\<exists>b. f64_sub x y = Fin b (of_nat (nat \<bar>i\<bar>) / 2 ^ 10)"
  proof (cases "val x - val y = 0")
    case True
    then have "of_nat (nat \<bar>i\<bar>) / 2 ^ 10 = (0 :: rat)" using a by simp
    moreover have "\<exists>b. f64_sub x y = Fin b 0"
      using True nv by (simp add: f64_sub_def x y Let_def)
    ultimately show ?thesis by simp
  next
    case False
    then have "f64_sub x y = of_exact (val x - val y)"
      using nv by (simp add: f64_sub_def x y Let_def)
    then show ?thesis by (simp only: of_exact_def a r) blast
  qed
  then obtain b where "f64_sub x y = Fin b (of_nat (nat \<bar>i\<bar>) / 2 ^ 10)" by blast
  then show ?thesis using small a [symmetric] by (intro exI conjI)
qed

lemma too_close_grid:
  assumes "on_grid d" "on_grid (px (a_pose a))" "on_grid (py (a_pose a))" "on_grid (px (a_pose b))" "on_grid (py (a_pose b))"
  shows "too_close d a b \<longleftrightarrow>
    (val (px (a_pose a)) - val (px (a_pose b)))\<^sup>2 + (val (py (a_pose a)) - val (py (a_pose b)))\<^sup>2 < (val d)\<^sup>2"
proof -
  obtain s m where x: "f64_sub (px (a_pose a)) (px (a_pose b)) = Fin s (of_nat m / 2 ^ 10)" "m < 2 ^ 26"
    "of_nat m / 2 ^ 10 = \<bar>val (px (a_pose a)) - val (px (a_pose b))\<bar>" using grid_sub [OF assms(2,4)] by blast
  obtain t n where y: "f64_sub (py (a_pose a)) (py (a_pose b)) = Fin t (of_nat n / 2 ^ 10)" "n < 2 ^ 26"
    "of_nat n / 2 ^ 10 = \<bar>val (py (a_pose a)) - val (py (a_pose b))\<bar>" using grid_sub [OF assms(3,5)] by blast
  obtain u k where d: "d = Fin u (of_nat k / 2 ^ 10)" "k < 2 ^ 25" using assms(1) by (auto simp: on_grid_def)
  have sq: "of_nat i / 2 ^ 10 * (of_nat i / 2 ^ 10) = (of_nat (i\<^sup>2) / 2 ^ 20 :: rat)" for i
    by (simp add: power2_eq_square)
  have lt: "i < 2 ^ 26 \<Longrightarrow> i\<^sup>2 < 2 ^ 52" for i :: nat
    using power_strict_mono [of i "2 ^ 26" 2] by simp
  have mul: "i < 2 ^ 26 \<Longrightarrow> f64_mul (Fin b (of_nat i / 2 ^ 10)) (Fin b (of_nat i / 2 ^ 10)) = Fin False (of_nat (i\<^sup>2) / 2 ^ 20)" for b i
    using lt [of i] round_dyadic [of "i\<^sup>2" 20 False] by (simp only: f64_mul.simps sq) simp
  have sum: "f64_add (Fin False (of_nat (m\<^sup>2) / 2 ^ 20)) (Fin False (of_nat (n\<^sup>2) / 2 ^ 20)) = Fin False (of_nat (m\<^sup>2 + n\<^sup>2) / 2 ^ 20)"
  proof -
    have bound: "m\<^sup>2 + n\<^sup>2 < 2 ^ 53" using lt [OF x(2)] lt [OF y(2)] by simp
    have "\<not> ((of_nat m)\<^sup>2 + (of_nat n)\<^sup>2) / 2 ^ 20 < (0 :: rat)" by (simp add: not_less)
    then show ?thesis
      using round_dyadic [OF bound, of 20 False]
      by (simp add: val_def of_exact_def Let_def add_divide_distrib [symmetric] del: power_numeral)
  qed
  have k: "k < 2 ^ 26" using d(2) by simp
  have "too_close d a b \<longleftrightarrow> (of_nat (m\<^sup>2 + n\<^sup>2) / 2 ^ 20 :: rat) < of_nat (k\<^sup>2) / 2 ^ 20"
    unfolding too_close_def Let_def x(1) y(1) d(1) mul [OF x(2)] mul [OF y(2)] mul [OF k] sum f64_cmp_Fin
    by (simp only: val_def f64.case if_False)
  also have "\<dots> \<longleftrightarrow> (of_nat m / 2 ^ 10)\<^sup>2 + (of_nat n / 2 ^ 10)\<^sup>2 < (of_nat k / 2 ^ 10 :: rat)\<^sup>2"
    by (simp add: power_divide add_divide_distrib [symmetric] divide_less_cancel)
  also have "\<dots> \<longleftrightarrow> (val (px (a_pose a)) - val (px (a_pose b)))\<^sup>2 + (val (py (a_pose a)) - val (py (a_pose b)))\<^sup>2 < (val d)\<^sup>2"
    unfolding x(3) y(3) by (simp add: d(1) val_def)
  finally show ?thesis .
qed

text \<open>(C31) Safety check. The report of an agent at a tick is, in this order: leaving the geofence, if its position is outside the bounds;
  one violation for each no-fly zone that contains it and whose window, both ends included, holds the tick; and one for each agent of
  another identity that is nearer than the separation distance, in the order given. The check without a tick reports the zones
  whatever their window. Bounds are compared as floating-point values; distances are exact for positions and separation on the grid
  (multiples of 1/1024 metre below 32 kilometres), which the two hypotheses require.\<close>

theorem safety_check_exact:
  fixes c :: SafetyConfig and a :: Agent and others :: "Agent list" and now :: u64
  assumes grid: "\<forall>b\<in>set (a # others). on_grid (px (a_pose b)) \<and> on_grid (py (a_pose b))" "\<forall>d. separation c = Some d \<longrightarrow> on_grid d"
  defines "inside \<equiv> \<lambda>b. f64_le (min_x b) (px (a_pose a)) \<and> f64_le (px (a_pose a)) (max_x b) \<and>
      f64_le (min_y b) (py (a_pose a)) \<and> f64_le (py (a_pose a)) (max_y b)"
    and "in_window \<equiv> \<lambda>z. (\<forall>k. active_from_tick z = Some k \<longrightarrow> k \<le> now) \<and> (\<forall>k. active_until_tick z = Some k \<longrightarrow> now \<le> k)"
    and "near \<equiv> \<lambda>b. a_id b \<noteq> a_id a \<and> (\<exists>d. separation c = Some d \<and>
      (val (px (a_pose a)) - val (px (a_pose b)))\<^sup>2 + (val (py (a_pose a)) - val (py (a_pose b)))\<^sup>2 < (val d)\<^sup>2)"
  defines "reported \<equiv> \<lambda>zones. map (\<lambda>v. \<lparr>sv_agent_id = a_id a, violation_type = v\<rparr>)
      ((if \<exists>b. geofence c = Some b \<and> \<not> inside b then [GeofenceExited] else []) @
       replicate (length (filter (\<lambda>z. inside (nf_bounds z)) zones)) NoFlyZoneEntered @
       map (\<lambda>b. SeparationBreached (a_id b)) (filter near others))"
  shows "check_agent_at_tick c a others now = reported (filter in_window (no_fly_zones c)) \<and>
    check_agent c a others = reported (no_fly_zones c)"
proof -
  let ?v = "\<lambda>v. \<lparr>sv_agent_id = a_id a, violation_type = v\<rparr>"
  have inside: "aabb_contains b (a_pose a) = inside b" for b by (simp add: aabb_contains_def inside_def)
  have window: "is_active_at z now = in_window z" for z
    by (auto simp: is_active_at_def in_window_def split: option.splits)
  have fence: "geofence_violations c a = map ?v (if \<exists>b. geofence c = Some b \<and> \<not> inside b then [GeofenceExited] else [])"
    by (auto simp: geofence_violations_def inside split: option.splits)
  have zones: "concat (map (\<lambda>z. if P z \<and> inside (nf_bounds z) then [?v NoFlyZoneEntered] else []) zs) =
      map ?v (replicate (length (filter (\<lambda>z. inside (nf_bounds z)) (filter P zs))) NoFlyZoneEntered)" for P zs
    by (induction zs) auto
  have sep: "separation_violations c a others = map ?v (map (\<lambda>b. SeparationBreached (a_id b)) (filter near others))"
  proof (cases "separation c")
    case None
    then show ?thesis by (simp add: separation_violations_def near_def)
  next
    case (Some d)
    have "concat (map (\<lambda>b. if a_id b = a_id a then [] else if too_close d a b then [?v (SeparationBreached (a_id b))] else []) bs) =
        map ?v (map (\<lambda>b. SeparationBreached (a_id b)) (filter near bs))" if "set bs \<subseteq> set others" for bs
      using that
    proof (induction bs)
      case (Cons b bs)
      then have "too_close d a b \<longleftrightarrow> (val (px (a_pose a)) - val (px (a_pose b)))\<^sup>2 + (val (py (a_pose a)) - val (py (a_pose b)))\<^sup>2 < (val d)\<^sup>2"
        using grid Some by (intro too_close_grid) auto
      with Cons Some show ?case by (simp add: near_def)
    qed simp
    then show ?thesis using Some by (simp add: separation_violations_def)
  qed
  show ?thesis
    using zones [of in_window "no_fly_zones c"] zones [of "\<lambda>_. True" "no_fly_zones c"]
    by (simp add: check_agent_at_tick_def check_agent_def fence sep inside window reported_def)
qed

section \<open>The wrapper keeps the contract of an allocator\<close>

lemma safety_filter_reachable: "safety_filter (Some c) ts = filter_safe_tasks c ts"
  by (simp add: safety_filter_def filter_safe_tasks_def is_task_reachable_def [abs_def])

lemma safety_filter_sub: "set (safety_filter c ts) \<subseteq> set ts"
  by (auto simp: safety_filter_def split: option.splits)

lemma safety_filter_distinct: "distinct (map t_id ts) \<Longrightarrow> distinct (map t_id (safety_filter c ts))"
  by (auto simp: safety_filter_def distinct_map_filter split: option.splits)

locale guarded_allocator = allocator +
  fixes cfg :: SafetyConfig

sublocale guarded_allocator \<subseteq> guarded: allocator inv "safety_allocate (Some cfg) alloc"
proof
  fix st ts as conn ds st'
  assume a: "inv st" "safety_allocate (Some cfg) alloc st ts as conn = Some (ds, st')"
  show "inv st'" using a keeps by (auto simp: safety_allocate_def)
  have "fst ` set ds \<subseteq> t_id ` set (safety_filter (Some cfg) ts)" using a offered by (auto simp: safety_allocate_def)
  then show "fst ` set ds \<subseteq> t_id ` set ts" using safety_filter_sub by blast
qed

context guarded_allocator
begin

lemma reachable_only:
  assumes "inv st" "safety_allocate (Some cfg) alloc st ts as conn = Some (ds, st')" "(k, i) \<in> set ds"
  shows "\<exists>t\<in>set ts. t_id t = k \<and> is_task_reachable cfg t"
proof -
  have "k \<in> t_id ` set (filter_safe_tasks cfg ts)"
    using offered [OF assms(1)] assms(2,3) by (force simp: safety_allocate_def safety_filter_reachable)
  then show ?thesis by (auto simp: filter_safe_tasks_def)
qed

end

interpretation safe_greedy: guarded_allocator "\<lambda>_. True" "stateless (greedy_allocate_with_connectivity g)" cfg for g cfg
  by unfold_locales

interpretation safe_auction: guarded_allocator "\<lambda>_. True" "stateless (auction_allocate_with_connectivity u)" cfg for u cfg
  by unfold_locales

interpretation safe_cbba: guarded_allocator "\<lambda>s. hash_order (fst s) \<and> cbba_inv (snd s)" cbba_alloc cfg for cfg
  by unfold_locales

section \<open>The count of the runner\<close>

lemma card_symmetric:
  assumes sym: "\<And>i j. R i j \<Longrightarrow> R j i" and irrefl: "\<And>i. \<not> R i i"
  shows "(\<Sum>i<n. card {j. j < n \<and> R i j}) = 2 * card {(i, j). i < j \<and> j < n \<and> R i (j :: nat)}"
proof -
  let ?up = "{(i, j). i < j \<and> j < n \<and> R i j}" and ?down = "{(i, j). j < i \<and> i < n \<and> R i j}"
  have fin: "finite ?up" "finite ?down" by (rule finite_subset [of _ "{..<n} \<times> {..<n}"]; auto)+
  have "(\<Sum>i<n. card {j. j < n \<and> R i j}) = card (SIGMA i : {..<n}. {j. j < n \<and> R i j})" by (simp add: card_SigmaI)
  also have "(SIGMA i : {..<n}. {j. j < n \<and> R i j}) = ?up \<union> ?down" using irrefl by (auto simp: linorder_neq_iff) (metis linorder_neqE_nat)
  also have "card (?up \<union> ?down) = card ?up + card ?down" using fin by (intro card_Un_disjoint) auto
  also have "?down = prod.swap ` ?up" using sym by (auto simp: image_iff)
  also have "card (prod.swap ` ?up) = card ?up" by (rule card_image) (simp add: inj_on_def)
  finally show ?thesis by simp
qed

lemma length_concat_filter: "length (concat (map (\<lambda>x. if P x then [] else if Q x then [f x] else []) xs)) = length (filter (\<lambda>x. \<not> P x \<and> Q x) xs)"
  by (induction xs) auto

lemma separation_count:
  assumes "distinct (map a_id as)" "separation c = Some d"
  shows "sum_list (map (\<lambda>a. length (separation_violations c a as)) as) =
    2 * card {(i, j). i < j \<and> j < length as \<and> too_close d (as ! i) (as ! j)}"
proof -
  let ?R = "\<lambda>i j. i < length as \<and> j < length as \<and> i \<noteq> j \<and> too_close d (as ! i) (as ! j)"
  have ids: "a_id (as ! j) = a_id (as ! i) \<longleftrightarrow> i = j" if "i < length as" "j < length as" for i j
    using assms(1) that by (auto simp: distinct_conv_nth)
  have "length (separation_violations c (as ! i) as) = card {j. j < length as \<and> ?R i j}" if "i < length as" for i
  proof -
    have "{j. j < length as \<and> \<not> a_id (as ! j) = a_id (as ! i) \<and> too_close d (as ! i) (as ! j)} = {j. j < length as \<and> ?R i j}"
      using ids that by blast
    then show ?thesis by (simp add: separation_violations_def assms(2) length_concat_filter length_filter_conv_card)
  qed
  then have "sum_list (map (\<lambda>a. length (separation_violations c a as)) as) = (\<Sum>i<length as. card {j. j < length as \<and> ?R i j})"
    by (simp add: sum_list_sum_nth atLeast0LessThan)
  also have "\<dots> = 2 * card {(i, j). i < j \<and> j < length as \<and> ?R i j}"
    by (rule card_symmetric) (auto simp: too_close_sym [of d])
  also have "{(i, j). i < j \<and> j < length as \<and> ?R i j} = {(i, j). i < j \<and> j < length as \<and> too_close d (as ! i) (as ! j)}" by auto
  finally show ?thesis .
qed

definition own_pose_agents :: "(('tr, 'dt) AgentNode \<times> AgentId) list \<Rightarrow> Agent list" where
  "own_pose_agents nodes = map (\<lambda>na. runner_agent (snd na) (the (hm_get (agents (membership (coordinator (fst na)))) (snd na)))) nodes"

lemma own_agents_those:
  assumes "\<forall>na\<in>set nodes. hm_get (agents (membership (coordinator (fst na)))) (snd na) \<noteq> None"
  shows "those (map (own_agent scenario) nodes) = Some (own_pose_agents nodes)"
    and "map (node_violations c os) nodes = map (\<lambda>a. check_agent c a os) (own_pose_agents nodes)"
  using assms by (induction nodes) (auto simp: own_agent_def own_pose_agents_def node_violations_def)

lemma violation_fold:
  "fst (foldl (\<lambda>(n, lg) na. (n + of_nat (length (f na)), g na lg)) (k, lg) nodes) = k + (of_nat (sum_list (map (\<lambda>na. length (f na)) nodes)) :: u64)"
  by (induction nodes arbitrary: k lg) (simp_all add: add.assoc)

text \<open>(C32) Violations of a tick. With distinct identities and a node that knows itself for each agent that has not crashed, the count of a tick is
  the number of agents outside the geofence, plus the number of pairs of an agent and a no-fly zone around it, plus two for each pair of
  agents closer than the separation distance: every breach is reported by both.\<close>

theorem safety_violations_counted:
  assumes "distinct (map snd nodes)"
    and "\<forall>na\<in>set nodes. hm_get (agents (membership (coordinator (fst na)))) (snd na) \<noteq> None"
    and "separation c = Some d"
  shows "let as = own_pose_agents (filter (\<lambda>na. snd na \<notin> crashed) nodes)
    in map_option fst (record_safety_violations crashed scenario c now nodes lg) = Some (of_nat (
      length (filter (\<lambda>a. \<exists>b. geofence c = Some b \<and> \<not> aabb_contains b (a_pose a)) as) +
      sum_list (map (\<lambda>a. length (filter (\<lambda>z. aabb_contains (nf_bounds z) (a_pose a)) (no_fly_zones c))) as) +
      2 * card {(i, j). i < j \<and> j < length as \<and> too_close d (as ! i) (as ! j)}))"
proof -
  define alive where "alive = filter (\<lambda>na. snd na \<notin> crashed) nodes"
  define as where "as = own_pose_agents alive"
  have known: "\<forall>na\<in>set alive. hm_get (agents (membership (coordinator (fst na)))) (snd na) \<noteq> None" using assms(2) by (simp add: alive_def)
  have "map a_id as = map snd alive" by (simp add: as_def own_pose_agents_def runner_agent_def comp_def)
  then have ids: "distinct (map a_id as)" using assms(1) by (simp add: alive_def distinct_map_filter)
  have fence: "length (geofence_violations c a) = (if \<exists>b. geofence c = Some b \<and> \<not> aabb_contains b (a_pose a) then 1 else 0)" for a
    by (auto simp: geofence_violations_def split: option.splits)
  have zones: "length (concat (map (\<lambda>z. if aabb_contains (nf_bounds z) (a_pose a) then [v z] else []) zs)) =
      length (filter (\<lambda>z. aabb_contains (nf_bounds z) (a_pose a)) zs)" for a zs and v :: "NoFlyZone \<Rightarrow> SafetyViolation"
    by (induction zs) auto
  have one: "length (check_agent c a as) = (if \<exists>b. geofence c = Some b \<and> \<not> aabb_contains b (a_pose a) then 1 else 0) +
      length (filter (\<lambda>z. aabb_contains (nf_bounds z) (a_pose a)) (no_fly_zones c)) + length (separation_violations c a as)" for a
    by (simp add: check_agent_def fence zones)
  have "sum_list (map (\<lambda>na. length (node_violations c as na)) alive) = sum_list (map length (map (node_violations c as) alive))"
    by (simp add: comp_def)
  also have "\<dots> = sum_list (map (\<lambda>a. length (check_agent c a as)) as)"
    unfolding own_agents_those(2) [OF known] as_def [symmetric] by (simp add: comp_def)
  also have "\<dots> = length (filter (\<lambda>a. \<exists>b. geofence c = Some b \<and> \<not> aabb_contains b (a_pose a)) as) +
      sum_list (map (\<lambda>a. length (filter (\<lambda>z. aabb_contains (nf_bounds z) (a_pose a)) (no_fly_zones c))) as) +
      sum_list (map (\<lambda>a. length (separation_violations c a as)) as)"
    unfolding one by (simp add: sum_list_addf sum_list_filter_le_nat sum_list_triv length_filter_map) (induction as; simp)
  finally show ?thesis
    using separation_count [OF ids assms(3)]
    by (simp add: record_safety_violations_def Let_def alive_def [symmetric] as_def [symmetric] own_agents_those(1) [OF known]
        violation_fold del: of_nat_add of_nat_mult)
qed

text \<open>(C33) Safe allocation. Behind the wrapper the greedy allocator and the auction decide only tasks that were offered and whose pose lies in no
  no-fly zone.\<close>

theorem safe_allocation:
  "(\<forall>ds st'. safety_allocate (Some c) (stateless (greedy_allocate_with_connectivity g)) st ts as conn = Some (ds, st') \<longrightarrow>
      (\<forall>(k, i)\<in>set ds. \<exists>t\<in>set ts. t_id t = k \<and> is_task_reachable c t)) \<and>
   (\<forall>ds st'. safety_allocate (Some c) (stateless (auction_allocate_with_connectivity u)) st ts as conn = Some (ds, st') \<longrightarrow>
      (\<forall>(k, i)\<in>set ds. \<exists>t\<in>set ts. t_id t = k \<and> is_task_reachable c t))"
  by (auto dest: safe_greedy.reachable_only [OF TrueI] safe_auction.reachable_only [OF TrueI])

section \<open>Instances\<close>

definition square :: Aabb where
  "square = \<lparr>min_x = f64_zero, min_y = f64_zero, max_x = f64_lit 2, max_y = f64_lit 2\<rparr>"

definition timed_zone :: NoFlyZone where
  "timed_zone = \<lparr>nf_bounds = square, active_from_tick = Some 5, active_until_tick = Some 9\<rparr>"

definition zone_config :: SafetyConfig where
  "zone_config = default_safety_config\<lparr>no_fly_zones := [timed_zone], separation := Some (f64_lit 1)\<rparr>"

lemma square_origin: "aabb_contains square default_pose"
  by (simp add: square_def aabb_contains_def default_pose_def f64_le_def)

text \<open>An agent in a zone before the window opens, half a metre from another one that has to keep one metre: at the tick only the
  separation is violated, without the tick the zone is too.\<close>

theorem safety_check_exact_witness:
  "map violation_type (check_agent_at_tick zone_config (sample_agent ''a'')
     [sample_agent ''a'', (sample_agent ''b'')\<lparr>a_pose := default_pose\<lparr>px := f64_lit (1 / 2)\<rparr>\<rparr>] 3) = [SeparationBreached ''b''] \<and>
   map violation_type (check_agent zone_config (sample_agent ''a'')
     [sample_agent ''a'', (sample_agent ''b'')\<lparr>a_pose := default_pose\<lparr>px := f64_lit (1 / 2)\<rparr>\<rparr>]) = [NoFlyZoneEntered, SeparationBreached ''b'']"
proof -
  let ?b = "(sample_agent ''b'')\<lparr>a_pose := default_pose\<lparr>px := f64_lit (1 / 2)\<rparr>\<rparr>"
  have g: "on_grid f64_zero" "on_grid (f64_lit 1)" "on_grid (f64_lit (1 / 2))"
    unfolding on_grid_def
    by (rule exI [of _ False], rule exI [of _ 0], simp) (rule exI [of _ False], rule exI [of _ 1024], simp,
        rule exI [of _ False], rule exI [of _ 512], simp)
  have p: "a_pose (sample_agent ''a'') = default_pose" "a_id (sample_agent ''a'') = ''a''" "a_id (sample_agent ''b'') = ''b''"
    by (simp_all add: sample_agent_def)
  have "\<forall>b\<in>set (sample_agent ''a'' # [sample_agent ''a'', ?b]). on_grid (px (a_pose b)) \<and> on_grid (py (a_pose b))"
    using g by (simp add: p default_pose_def)
  moreover have "\<forall>d. separation zone_config = Some d \<longrightarrow> on_grid d" using g by (simp add: zone_config_def)
  moreover note safety_check_exact [of "sample_agent ''a''" "[sample_agent ''a'', ?b]" zone_config 3]
  ultimately show ?thesis
    using square_origin [unfolded aabb_contains_def]
    by (simp add: p zone_config_def default_safety_config_def timed_zone_def default_pose_def val_def power2_eq_square)
qed

definition still_node :: "AgentId \<Rightarrow> (unit, unit) AgentNode \<times> AgentId" where
  "still_node i = (agent_node_new i [] (coordinator_new [sample_agent i] [] 3) (), i)"

lemma still_node_entry: "hm_get (agents (membership (coordinator (fst (still_node i))))) (snd (still_node i)) = Some (entry_of_agent (sample_agent i))"
  by (simp add: still_node_def agent_node_new_def coordinator_new_def membership_new_def hm_get_collect sample_agent_def)

theorem safety_violations_counted_witness:
  "map_option fst (record_safety_violations {''c''} [] zone_config 3 [still_node ''a'', still_node ''b'', still_node ''c''] None) = Some 4"
proof -
  let ?nodes = "[still_node ''a'', still_node ''b'', still_node ''c'']"
  have ids: "map snd ?nodes = [''a'', ''b'', ''c'']" by (simp add: still_node_def)
  have alive: "filter (\<lambda>na. snd na \<notin> {''c''}) ?nodes = [still_node ''a'', still_node ''b'']" by (simp add: still_node_def)
  let ?as = "[runner_agent ''a'' (entry_of_agent (sample_agent ''a'')), runner_agent ''b'' (entry_of_agent (sample_agent ''b''))]"
  have as: "own_pose_agents [still_node ''a'', still_node ''b''] = ?as"
    using still_node_entry [of "''a''"] still_node_entry [of "''b''"] by (simp add: own_pose_agents_def) (simp add: still_node_def)
  have close: "too_close (f64_lit 1) (runner_agent i (entry_of_agent (sample_agent i))) (runner_agent j (entry_of_agent (sample_agent j)))" for i j
    by (simp add: too_close_def runner_agent_def entry_of_agent_def sample_agent_def default_pose_def f64_sub_def val_def f64_lt_def f64_round_def [of _ 0])
  have "{(i, j). i < j \<and> j < length ?as \<and> too_close (f64_lit 1) (?as ! i) (?as ! j)} = {(0, 1)}"
    using close [of "''a''" "''b''"] by (auto simp: less_Suc_eq)
  then have pairs: "card {(i, j). i < j \<and> j < length ?as \<and> too_close (f64_lit 1) (?as ! i) (?as ! j)} = 1" by simp
  have zone: "aabb_contains square (a_pose (runner_agent i (entry_of_agent (sample_agent i))))" for i
    using square_origin by (simp add: runner_agent_def entry_of_agent_def sample_agent_def)
  have c: "geofence zone_config = None" "no_fly_zones zone_config = [timed_zone]" "separation zone_config = Some (f64_lit 1)" "nf_bounds timed_zone = square"
    by (simp_all add: zone_config_def default_safety_config_def timed_zone_def)
  have d: "distinct (map snd ?nodes)" unfolding ids by simp
  have k: "\<forall>na\<in>set ?nodes. hm_get (agents (membership (coordinator (fst na)))) (snd na) \<noteq> None" using still_node_entry by simp
  from safety_violations_counted [OF d k c(3), of "{''c''}" "[]" 3 None] show ?thesis
    unfolding alive Let_def as pairs c by (simp add: c zone)
qed

definition zoned_greedy :: "(decisions \<times> unit) option" where
  "zoned_greedy = safety_allocate (Some zone_config) (stateless (greedy_allocate_with_connectivity \<lparr>ga_comms_penalty_weight = f64_zero\<rparr>)) ()
     [sample_alloc_task ''t'', sample_alloc_task ''u''\<lparr>t_pose := None\<rparr>] [sample_alloc_agent ''a'' Scout] sample_context"

theorem safe_allocation_witness:
  "zoned_greedy = Some ([(''u'', ''a'')], ()) \<and> is_task_reachable zone_config (sample_alloc_task ''u''\<lparr>t_pose := None\<rparr>)"
proof -
  have f: "safety_filter (Some zone_config) [sample_alloc_task ''t'', sample_alloc_task ''u''\<lparr>t_pose := None\<rparr>] = [sample_alloc_task ''u''\<lparr>t_pose := None\<rparr>]"
    using square_origin by (simp add: safety_filter_def zone_config_def timed_zone_def sample_alloc_task_def)
  have g: "zoned_greedy = Some ([(''u'', ''a'')], ())"
    unfolding zoned_greedy_def safety_allocate_def f
    by (simp add: stateless_def greedy_allocate_with_connectivity_def allocate_with_registry_def greedy_allocate_def
        List.map_filter_def sample_alloc_task_def sample_alloc_agent_def by_priority_def Let_def
        eligible_def has_all_capabilities_def has_required_role_def greedy_choice_def best_greedy_agent_def val_def)
  from safe_allocation [of zone_config "\<lparr>ga_comms_penalty_weight = f64_zero\<rparr>" "()" "[sample_alloc_task ''t'', sample_alloc_task ''u''\<lparr>t_pose := None\<rparr>]"
      "[sample_alloc_agent ''a'' Scout]" sample_context]
  have "\<exists>t\<in>set [sample_alloc_task ''t'', sample_alloc_task ''u''\<lparr>t_pose := None\<rparr>]. t_id t = ''u'' \<and> is_task_reachable zone_config t"
    using g by (simp add: zoned_greedy_def)
  then show ?thesis using g by (simp add: sample_alloc_task_def)
qed

end
