(* ===== verification/SearchGrid.thy ===== *)
theory SearchGrid
  imports Node F64Cast
begin

text \<open>
  Search missions: the grid, the sensor and the belief map of \<open>swarm-types/src/grid.rs\<close>, the scan state of \<open>swarm-runtime/src/grid_state.rs\<close>
  and the step of the runner that scans cells, \<open>swarm-sim/src/runner/internal/sar.rs\<close>. Cell indices and counters are \<open>u32\<close> and wrap as in a
  release build. The logarithm and the first number drawn from a generator seeded with a given \<open>u64\<close> are parameters. An index outside the
  belief map panics, which is \<open>None\<close>.
\<close>

section \<open>Grid and sensor\<close>

record SearchGrid =
  sg_width :: u32
  sg_height :: u32
  sg_cell_size :: f64

definition u32_as_f64 :: "u32 \<Rightarrow> f64" where
  "u32_as_f64 x = f64_of_nat (unat x)"

definition cell_center :: "SearchGrid \<Rightarrow> u32 \<Rightarrow> u32 \<Rightarrow> Pose" where
  "cell_center g x y = default_pose\<lparr>px := f64_mul (f64_add (u32_as_f64 x) (f64_lit (1 / 2))) (sg_cell_size g),
     py := f64_mul (f64_add (u32_as_f64 y) (f64_lit (1 / 2))) (sg_cell_size g)\<rparr>"

fun f64_floor :: "f64 \<Rightarrow> f64" where
  "f64_floor (Fin s m) = (let k = \<lfloor>val (Fin s m)\<rfloor> in if k = 0 then Fin s 0 else Fin (k < 0) (of_int \<bar>k\<bar>))"
| "f64_floor x = x"

definition cell_at_pose :: "SearchGrid \<Rightarrow> Pose \<Rightarrow> (u32 \<times> u32) option" where
  "cell_at_pose g p =
     (let x = as_i32 (f64_floor (f64_div (px p) (sg_cell_size g))); y = as_i32 (f64_floor (f64_div (py p) (sg_cell_size g)))
      in if 0 \<le> sint x \<and> sint x < sint (sg_width g) \<and> 0 \<le> sint y \<and> sint y < sint (sg_height g) then Some (x, y) else None)"

definition total_cells :: "SearchGrid \<Rightarrow> u32" where
  "total_cells g = sg_width g * sg_height g"

definition cell_index :: "SearchGrid \<Rightarrow> u32 \<Rightarrow> u32 \<Rightarrow> nat" where
  "cell_index g x y = unat (y * sg_width g + x)"

datatype CellState =
  Unvisited
| Visited "AgentId list" u64
| TargetFound string AgentId u64

record HiddenTarget =
  ht_id :: string
  ht_cell_x :: u32
  ht_cell_y :: u32

definition target_pose :: "SearchGrid \<Rightarrow> HiddenTarget \<Rightarrow> Pose" where
  "target_pose g t = cell_center g (ht_cell_x t) (ht_cell_y t)"

record SensorModel =
  scout_pod :: f64
  thermal_pod :: f64
  relay_pod :: f64
  detection_probability :: f64
  false_positive_rate :: f64
  detection_range_m :: f64
  field_of_view_deg :: f64
  altitude_factor :: f64

definition sensor_new_v2 :: "f64 \<Rightarrow> f64 \<Rightarrow> f64 \<Rightarrow> f64 \<Rightarrow> f64 \<Rightarrow> SensorModel" where
  "sensor_new_v2 scout thermal relay pd pf =
     \<lparr>scout_pod = scout, thermal_pod = thermal, relay_pod = relay, detection_probability = pd, false_positive_rate = pf,
      detection_range_m = f64_zero, field_of_view_deg = f64_zero, altitude_factor = f64_zero\<rparr>"

definition sensor_new :: "f64 \<Rightarrow> f64 \<Rightarrow> f64 \<Rightarrow> SensorModel" where
  "sensor_new scout thermal relay = sensor_new_v2 scout thermal relay (f64_lit (1 / 2)) (of_exact (1 / 10))"

fun probability :: "SensorModel \<Rightarrow> Role \<Rightarrow> f64" where
  "probability s Scout = scout_pod s"
| "probability s Thermal = thermal_pod s"
| "probability s _ = relay_pod s"

section \<open>Belief map\<close>

record BeliefCell =
  bc_prior :: f64
  bc_posterior :: f64
  bc_scan_count :: u32
  bc_last_scan_tick :: "u64 option"

record BeliefMap =
  bm_grid :: SearchGrid
  bm_cells :: "BeliefCell list list"
  bm_false_positives :: u32
  bm_confirmation_scans :: u32

definition belief_new :: "SearchGrid \<Rightarrow> f64 \<Rightarrow> BeliefMap" where
  "belief_new g prior =
     \<lparr>bm_grid = g, bm_cells = replicate (unat (sg_height g)) (replicate (unat (sg_width g))
        \<lparr>bc_prior = prior, bc_posterior = prior, bc_scan_count = 0, bc_last_scan_tick = None\<rparr>),
      bm_false_positives = 0, bm_confirmation_scans = 0\<rparr>"

definition cell_of :: "BeliefMap \<Rightarrow> u32 \<times> u32 \<Rightarrow> BeliefCell option" where
  "cell_of b c = (case c of (x, y) \<Rightarrow>
     if unat y < length (bm_cells b) \<and> unat x < length (bm_cells b ! unat y) then Some (bm_cells b ! unat y ! unat x) else None)"

definition set_cell :: "u32 \<times> u32 \<Rightarrow> BeliefCell \<Rightarrow> BeliefMap \<Rightarrow> BeliefMap" where
  "set_cell c bc b = (case c of (x, y) \<Rightarrow> b\<lparr>bm_cells := (bm_cells b)[unat y := (bm_cells b ! unat y)[unat x := bc]]\<rparr>)"

definition bayes :: "SensorModel \<Rightarrow> bool \<Rightarrow> f64 \<Rightarrow> f64" where
  "bayes sensor detection p_t =
     (let p_d_given_t = detection_probability sensor; p_d_given_not_t = false_positive_rate sensor;
          p_not_t = f64_sub (f64_lit 1) p_t;
          p_d = f64_add (f64_mul p_d_given_t p_t) (f64_mul p_d_given_not_t p_not_t);
          posterior = (if f64_lt f64_zero p_d \<and> f64_lt p_d (f64_lit 1)
            then if detection then f64_div (f64_mul p_d_given_t p_t) p_d
                 else f64_div (f64_mul (f64_sub (f64_lit 1) p_d_given_t) p_t) (f64_sub (f64_lit 1) p_d)
            else p_t)
      in f64_clamp posterior f64_zero (f64_lit 1))"

definition belief_update :: "u32 \<times> u32 \<Rightarrow> bool \<Rightarrow> SensorModel \<Rightarrow> BeliefMap \<Rightarrow> BeliefMap option" where
  "belief_update c detection sensor b =
     map_option (\<lambda>bc. set_cell c (bc\<lparr>bc_scan_count := bc_scan_count bc + 1, bc_posterior := bayes sensor detection (bc_posterior bc)\<rparr>) b) (cell_of b c)"

definition cell_entropy :: "(f64 \<Rightarrow> f64) \<Rightarrow> BeliefMap \<Rightarrow> u32 \<times> u32 \<Rightarrow> f64 option" where
  "cell_entropy log2 b c = map_option (\<lambda>bc. let p = bc_posterior bc; q = f64_sub (f64_lit 1) p
     in if f64_le p f64_zero \<or> f64_le (f64_lit 1) p then f64_zero
        else f64_sub (f64_mul (f64_neg p) (log2 p)) (f64_mul q (log2 q))) (cell_of b c)"

definition grid_cells :: "SearchGrid \<Rightarrow> (u32 \<times> u32) list" where
  "grid_cells g = concat (map (\<lambda>y. map (\<lambda>x. (of_nat x, of_nat y)) [0..<unat (sg_width g)]) [0..<unat (sg_height g)])"

text \<open>A stable sort by a comparison of two or more elements panics if one of them is \<open>NaN\<close>.\<close>

definition highest_uncertainty_cells :: "(f64 \<Rightarrow> f64) \<Rightarrow> nat \<Rightarrow> BeliefMap \<Rightarrow> (u32 \<times> u32) list option" where
  "highest_uncertainty_cells log2 n b =
     Option.bind (those (map (\<lambda>c. map_option (Pair c) (cell_entropy log2 b c)) (grid_cells (bm_grid b))))
       (\<lambda>xs. if 2 \<le> length xs \<and> list_ex (is_nan \<circ> snd) xs then None
             else Some (map fst (take n (rev (sort_key (f64_key \<circ> snd) (rev xs))))))"

definition mean_entropy :: "(f64 \<Rightarrow> f64) \<Rightarrow> BeliefMap \<Rightarrow> f64 option" where
  "mean_entropy log2 b =
     map_option (\<lambda>es. f64_div (foldl f64_add f64_zero es) (u32_as_f64 (sg_width (bm_grid b) * sg_height (bm_grid b))))
       (those (map (cell_entropy log2 b) (grid_cells (bm_grid b))))"

section \<open>Scan state\<close>

record GridState =
  gs_grid :: SearchGrid
  gs_cells :: "CellState list"
  gs_targets :: "HiddenTarget list"
  gs_sensor :: SensorModel
  gs_targets_found :: u32
  gs_first_find_tick :: "u64 option"
  gs_scan_count :: u32
  gs_belief_map :: "BeliefMap option"

definition grid_state_new :: "SearchGrid \<Rightarrow> HiddenTarget list \<Rightarrow> SensorModel \<Rightarrow> GridState" where
  "grid_state_new g ts sensor =
     \<lparr>gs_grid = g, gs_cells = replicate (unat (total_cells g)) Unvisited, gs_targets = ts, gs_sensor = sensor, gs_targets_found = 0,
      gs_first_find_tick = None, gs_scan_count = 0, gs_belief_map = None\<rparr>"

definition with_belief :: "f64 \<Rightarrow> GridState \<Rightarrow> GridState" where
  "with_belief prior s = s\<lparr>gs_belief_map := Some (belief_new (gs_grid s) prior)\<rparr>"

definition detection_roll :: "GridState \<Rightarrow> Role \<Rightarrow> f64 \<Rightarrow> f64 \<Rightarrow> bool" where
  "detection_roll s role agent_z roll =
     (let altitude_penalty = (if f64_lt f64_zero (altitude_factor (gs_sensor s)) \<and> f64_lt f64_zero agent_z
            then f64_max (f64_sub (f64_lit 1) (f64_mul (altitude_factor (gs_sensor s)) agent_z)) f64_zero else f64_lit 1)
      in f64_lt roll (f64_mul (probability (gs_sensor s) role) altitude_penalty))"

definition target_here :: "GridState \<Rightarrow> u32 \<Rightarrow> u32 \<Rightarrow> HiddenTarget option" where
  "target_here s x y = find (\<lambda>t. ht_cell_x t = x \<and> ht_cell_y t = y) (gs_targets s)"

text \<open>The update of the belief map with its two counters.\<close>

definition scan_belief :: "u32 \<times> u32 \<Rightarrow> bool \<Rightarrow> bool \<Rightarrow> SensorModel \<Rightarrow> BeliefMap \<Rightarrow> BeliefMap option" where
  "scan_belief c detected no_target sensor b =
     map_option (\<lambda>b1.
       let b2 = (if detected \<and> no_target then b1\<lparr>bm_false_positives := bm_false_positives b1 + 1\<rparr> else b1)
       in if (case cell_of b2 c of Some bc \<Rightarrow> 1 < bc_scan_count bc | None \<Rightarrow> False)
          then b2\<lparr>bm_confirmation_scans := bm_confirmation_scans b2 + 1\<rparr> else b2) (belief_update c detected sensor b)"

definition mark_cell :: "AgentId \<Rightarrow> u64 \<Rightarrow> nat \<Rightarrow> HiddenTarget option \<Rightarrow> bool \<Rightarrow> GridState \<Rightarrow> GridState \<times> bool" where
  "mark_cell a now idx target detected s =
     (case (if detected then target else None) of
        Some t \<Rightarrow> (s\<lparr>gs_cells := (gs_cells s)[idx := TargetFound (ht_id t) a now], gs_targets_found := gs_targets_found s + 1,
           gs_first_find_tick := (case gs_first_find_tick s of None \<Rightarrow> Some now | Some k \<Rightarrow> Some k)\<rparr>, True)
      | None \<Rightarrow> (s\<lparr>gs_cells := (gs_cells s)[idx := Visited [a] now]\<rparr>, False))"

definition scan_cell :: "AgentId \<Rightarrow> u32 \<Rightarrow> u32 \<Rightarrow> Role \<Rightarrow> u64 \<Rightarrow> f64 \<Rightarrow> f64 \<Rightarrow> GridState \<Rightarrow> (GridState \<times> bool) option" where
  "scan_cell a x y role now agent_z roll s =
     (let idx = cell_index (gs_grid s) x y
      in if length (gs_cells s) \<le> idx then Some (s, False)
         else if gs_cells s ! idx \<noteq> Unvisited then Some (s, (case gs_cells s ! idx of TargetFound _ _ _ \<Rightarrow> True | _ \<Rightarrow> False))
         else
           let target = target_here s x y; detected = detection_roll s role agent_z roll;
               s1 = s\<lparr>gs_scan_count := gs_scan_count s + 1\<rparr>
           in case gs_belief_map s1 of
                None \<Rightarrow> Some (mark_cell a now idx target detected s1)
              | Some b \<Rightarrow> map_option (\<lambda>b'. mark_cell a now idx target detected (s1\<lparr>gs_belief_map := Some b'\<rparr>))
                  (scan_belief (x, y) detected (target = None) (gs_sensor s) b))"

definition coverage_fraction :: "GridState \<Rightarrow> f64" where
  "coverage_fraction s = f64_div (f64_of_nat (length (filter (\<lambda>c. c \<noteq> Unvisited) (gs_cells s)))) (f64_of_nat (length (gs_cells s)))"

definition all_targets_found :: "GridState \<Rightarrow> bool" where
  "all_targets_found s = (gs_targets_found s = of_nat (length (gs_targets s)))"

section \<open>The step of the runner\<close>

datatype SarEvent =
  EvSarScan AgentId "u32 \<times> u32" u64 bool
| EvSarDetection AgentId Pose u64
| EvTaskCompleted TaskId AgentId u64

type_synonym sar_log = "SarEvent list option"

definition sar_push :: "SarEvent list \<Rightarrow> sar_log \<Rightarrow> sar_log" where
  "sar_push es lg = map_option (\<lambda>l. l @ es) lg"

text \<open>The loop over the tasks of one agent: the grid, the log and the tasks scanned.\<close>

fun scan_tasks ::
    "(u64 \<Rightarrow> f64) \<Rightarrow> u64 \<Rightarrow> u64 \<Rightarrow> AgentId \<Rightarrow> AgentEntry option \<Rightarrow> (TaskId \<times> (u32 \<times> u32) option) list \<Rightarrow> GridState \<times> sar_log \<times> TaskId list \<Rightarrow>
     (GridState \<times> sar_log \<times> TaskId list) option" where
  "scan_tasks draw seed now a entry [] acc = Some acc"
| "scan_tasks draw seed now a entry ((tid, cell) # ts) (gs, lg, done_ids) =
     (case (cell, entry) of
        (Some (x, y), Some e) \<Rightarrow>
          (let pose = cell_center (gs_grid gs) x y
           in if f64_lt (distance_to (e_pose e) pose) (f64_mul (sg_cell_size (gs_grid gs)) (of_exact (1 / 10)))
              then (case scan_cell a x y (e_role e) now (pz (e_pose e)) (draw (seed + now)) gs of
                      None \<Rightarrow> None
                    | Some (gs', detected) \<Rightarrow>
                        scan_tasks draw seed now a entry ts
                          (gs', sar_push (EvSarScan a (x, y) now detected # (if detected then [EvSarDetection a pose now] else [])) lg, done_ids @ [tid]))
              else scan_tasks draw seed now a entry ts (gs, lg, done_ids))
      | _ \<Rightarrow> scan_tasks draw seed now a entry ts (gs, lg, done_ids))"

definition complete_scanned :: "TaskId list \<Rightarrow> TaskRegistry \<Rightarrow> TaskRegistry" where
  "complete_scanned tids r = foldl (\<lambda>r tid. fst (complete_assigned_task r tid)) r tids"

definition with_registry :: "(TaskRegistry \<Rightarrow> TaskRegistry) \<Rightarrow> ('tr, 'dt) AgentNode \<Rightarrow> ('tr, 'dt) AgentNode" where
  "with_registry f n = n\<lparr>coordinator := (coordinator n)\<lparr>registry := f (registry (coordinator n))\<rparr>\<rparr>"

fun scan_nodes ::
    "(u64 \<Rightarrow> f64) \<Rightarrow> u64 \<Rightarrow> u64 \<Rightarrow> AgentId set \<Rightarrow> (('tr, 'dt) AgentNode \<times> AgentId) list \<Rightarrow> GridState \<times> sar_log \<Rightarrow>
     ((('tr, 'dt) AgentNode \<times> AgentId) list \<times> GridState \<times> sar_log) option" where
  "scan_nodes draw seed now crashed [] acc = Some ([], acc)"
| "scan_nodes draw seed now crashed ((n, a) # ns) (gs, lg) =
     (if a \<in> crashed then map_option (\<lambda>(ns', acc). ((n, a) # ns', acc)) (scan_nodes draw seed now crashed ns (gs, lg))
      else
        let assigned = map (\<lambda>t. (t_id t, t_grid_cell t)) (filter (\<lambda>t. t_assigned_to t = Some a) (hm_values (tasks (registry (coordinator n)))))
        in case scan_tasks draw seed now a (hm_get (agents (membership (coordinator n))) a) assigned (gs, lg, []) of
             None \<Rightarrow> None
           | Some (gs', lg', tids) \<Rightarrow>
               map_option (\<lambda>(ns', acc). ((with_registry (complete_scanned tids) n, a) # ns', acc))
                 (scan_nodes draw seed now crashed ns (gs', sar_push (map (\<lambda>tid. EvTaskCompleted tid a now) tids) lg')))"

text \<open>\<open>x as u8\<close> of a value between zero and ten.\<close>

definition entropy_to_priority :: "f64 \<Rightarrow> u8" where
  "entropy_to_priority e =
     (case f64_round_away (f64_mul (f64_clamp e f64_zero (f64_lit 1)) (f64_lit 10)) of
        NaN \<Rightarrow> 0
      | Inf s \<Rightarrow> (if s then 0 else 255)
      | Fin s m \<Rightarrow> (if s then 0 else of_int (min \<lfloor>m\<rfloor> 255)))"

definition rerank_task :: "(f64 \<Rightarrow> f64) \<Rightarrow> BeliefMap \<Rightarrow> Task \<Rightarrow> Task option" where
  "rerank_task log2 b t =
     (if t_kind t \<notin> {Some SarScan, Some SarConfirmationScan} \<or> t_status t \<in> {Completed, Failed} then Some t
      else case t_grid_cell t of
        None \<Rightarrow> Some t
      | Some c \<Rightarrow> map_option (\<lambda>e. t\<lparr>t_priority := entropy_to_priority e\<rparr>) (cell_entropy log2 b c))"

definition rerank_tasks_by_entropy :: "(f64 \<Rightarrow> f64) \<Rightarrow> GridState \<Rightarrow> TaskRegistry \<Rightarrow> TaskRegistry option" where
  "rerank_tasks_by_entropy log2 gs r =
     (case gs_belief_map gs of
        None \<Rightarrow> Some r
      | Some b \<Rightarrow> map_option (\<lambda>ts. r\<lparr>tasks := ts\<rparr>) (those (map (\<lambda>(tid, t). map_option (Pair tid) (rerank_task log2 b t)) (tasks r))))"

definition rerank_nodes :: "(f64 \<Rightarrow> f64) \<Rightarrow> GridState \<Rightarrow> (('tr, 'dt) AgentNode \<times> AgentId) list \<Rightarrow> (('tr, 'dt) AgentNode \<times> AgentId) list option" where
  "rerank_nodes log2 gs nodes =
     those (map (\<lambda>(n, a). map_option (\<lambda>r. (with_registry (\<lambda>_. r) n, a)) (rerank_tasks_by_entropy log2 gs (registry (coordinator n)))) nodes)"

definition record_sar_scans ::
    "(f64 \<Rightarrow> f64) \<Rightarrow> (u64 \<Rightarrow> f64) \<Rightarrow> u64 \<Rightarrow> u64 \<Rightarrow> bool \<Rightarrow> AgentId set \<Rightarrow> (('tr, 'dt) AgentNode \<times> AgentId) list \<Rightarrow> GridState \<Rightarrow> sar_log \<Rightarrow>
     ((('tr, 'dt) AgentNode \<times> AgentId) list \<times> GridState \<times> sar_log) option" where
  "record_sar_scans log2 draw seed now dynamic crashed nodes gs lg =
     (case scan_nodes draw seed now crashed nodes (gs, lg) of
        None \<Rightarrow> None
      | Some (nodes', gs', lg') \<Rightarrow>
          if dynamic then map_option (\<lambda>nodes''. (nodes'', gs', lg')) (rerank_nodes log2 gs' nodes') else Some (nodes', gs', lg'))"

section \<open>Accounting for scans\<close>

definition visited_cells :: "GridState \<Rightarrow> nat set" where
  "visited_cells s = {i. i < length (gs_cells s) \<and> gs_cells s ! i \<noteq> Unvisited}"

definition found_cells :: "GridState \<Rightarrow> nat set" where
  "found_cells s = {i. i < length (gs_cells s) \<and> (\<exists>tid a k. gs_cells s ! i = TargetFound tid a k)}"

definition in_grid :: "SearchGrid \<Rightarrow> u32 \<Rightarrow> u32 \<Rightarrow> bool" where
  "in_grid g x y \<longleftrightarrow> unat x < unat (sg_width g) \<and> unat y < unat (sg_height g)"

definition belief_ok :: "GridState \<Rightarrow> BeliefMap \<Rightarrow> bool" where
  "belief_ok s b \<longleftrightarrow> bm_confirmation_scans b = 0 \<and> length (bm_cells b) = unat (sg_height (gs_grid s)) \<and>
     (\<forall>row\<in>set (bm_cells b). length row = unat (sg_width (gs_grid s))) \<and>
     (\<forall>x y. in_grid (gs_grid s) x y \<longrightarrow>
        bc_scan_count (bm_cells b ! unat y ! unat x) = (if cell_index (gs_grid s) x y \<in> visited_cells s then 1 else 0))"

definition search_inv :: "GridState \<Rightarrow> bool" where
  "search_inv s \<longleftrightarrow>
     unat (sg_width (gs_grid s)) * unat (sg_height (gs_grid s)) < 2 ^ 32 \<and>
     length (gs_cells s) = unat (sg_width (gs_grid s)) * unat (sg_height (gs_grid s)) \<and>
     gs_scan_count s = of_nat (card (visited_cells s)) \<and> gs_targets_found s = of_nat (card (found_cells s)) \<and>
     (\<forall>i\<in>found_cells s. \<exists>t\<in>set (gs_targets s). i = cell_index (gs_grid s) (ht_cell_x t) (ht_cell_y t)) \<and>
     (gs_first_find_tick s = None \<longleftrightarrow> found_cells s = {}) \<and>
     (\<forall>b. gs_belief_map s = Some b \<longrightarrow> belief_ok s b)"

lemma finite_cells [simp]: "finite (visited_cells s)" "finite (found_cells s)"
  by (simp_all add: visited_cells_def found_cells_def)

lemma found_subset: "found_cells s \<subseteq> visited_cells s"
  by (auto simp: found_cells_def visited_cells_def)

lemma cell_index_nat:
  assumes "unat (sg_width g) * unat (sg_height g) < 2 ^ 32" "in_grid g x y"
  shows "cell_index g x y = unat y * unat (sg_width g) + unat x"
proof -
  have "unat y * unat (sg_width g) + unat x < Suc (unat y) * unat (sg_width g)" using assms(2) by (simp add: in_grid_def)
  also have "\<dots> \<le> unat (sg_height g) * unat (sg_width g)" using assms(2) by (intro mult_le_mono1) (simp add: in_grid_def)
  finally have b: "unat y * unat (sg_width g) + unat x < 2 ^ 32" using assms(1) by (simp add: mult.commute)
  then have "unat (y * sg_width g) = unat y * unat (sg_width g)" by (simp add: unat_word_ariths take_bit_nat_eq_self)
  then show ?thesis using b by (simp add: cell_index_def unat_word_ariths take_bit_nat_eq_self)
qed

lemma cell_index_inj:
  assumes "unat (sg_width g) * unat (sg_height g) < 2 ^ 32" "in_grid g x y" "in_grid g x' y'" "cell_index g x y = cell_index g x' y'"
  shows "x = x' \<and> y = y'"
proof -
  have eq: "unat y * unat (sg_width g) + unat x = unat y' * unat (sg_width g) + unat x'"
    using assms by (simp add: cell_index_nat)
  have w: "unat x < unat (sg_width g)" "unat x' < unat (sg_width g)" using assms(2,3) by (simp_all add: in_grid_def)
  have "unat y = unat y'" using arg_cong [OF eq, of "\<lambda>n. n div unat (sg_width g)"] w by simp
  moreover have "unat x = unat x'" using arg_cong [OF eq, of "\<lambda>n. n mod unat (sg_width g)"] w by simp
  ultimately show ?thesis by (simp add: word_unat_eq_iff)
qed

lemma search_inv_new:
  assumes "unat (sg_width g) * unat (sg_height g) < 2 ^ 32"
  shows "search_inv (grid_state_new g ts sensor)"
proof -
  have "unat (total_cells g) = unat (sg_width g) * unat (sg_height g)"
    using assms by (simp add: total_cells_def unat_word_ariths take_bit_nat_eq_self)
  moreover have "visited_cells (grid_state_new g ts sensor) = {}" "found_cells (grid_state_new g ts sensor) = {}"
    by (auto simp: visited_cells_def found_cells_def grid_state_new_def)
  ultimately show ?thesis using assms by (simp add: search_inv_def) (simp add: grid_state_new_def)
qed

lemma search_inv_with_belief:
  assumes "search_inv s" "visited_cells s = {}"
  shows "search_inv (with_belief prior s)"
proof -
  have eq: "visited_cells (with_belief prior s) = visited_cells s" "found_cells (with_belief prior s) = found_cells s" "gs_grid (with_belief prior s) = gs_grid s"
    by (simp_all add: visited_cells_def found_cells_def with_belief_def)
  have "belief_ok (with_belief prior s) (belief_new (gs_grid s) prior)"
    unfolding belief_ok_def eq using assms(2) by (auto simp: belief_new_def in_grid_def)
  then show ?thesis using assms(1) by (simp add: search_inv_def eq) (simp add: with_belief_def)
qed

text \<open>The effect of a scan of an unvisited cell on the two sets of cells.\<close>

lemma mark_cell_sets:
  assumes "idx < length (gs_cells s)" "gs_cells s ! idx = Unvisited"
  shows "visited_cells (fst (mark_cell a now idx target detected s)) = insert idx (visited_cells s)"
    and "found_cells (fst (mark_cell a now idx target detected s)) = (if detected \<and> target \<noteq> None then insert idx (found_cells s) else found_cells s)"
  using assms by (auto simp: mark_cell_def visited_cells_def found_cells_def nth_list_update split: option.splits if_splits)

lemma mark_cell_frame [simp]:
  "gs_grid (fst (mark_cell a now idx target detected s)) = gs_grid s"
  "gs_targets (fst (mark_cell a now idx target detected s)) = gs_targets s"
  "gs_sensor (fst (mark_cell a now idx target detected s)) = gs_sensor s"
  "gs_scan_count (fst (mark_cell a now idx target detected s)) = gs_scan_count s"
  "gs_belief_map (fst (mark_cell a now idx target detected s)) = gs_belief_map s"
  "length (gs_cells (fst (mark_cell a now idx target detected s))) = length (gs_cells s)"
  by (auto simp: mark_cell_def split: option.splits)

lemma mark_cell_counters:
  "gs_targets_found (fst (mark_cell a now idx target detected s)) = gs_targets_found s + (if detected \<and> target \<noteq> None then 1 else 0)"
  "gs_first_find_tick (fst (mark_cell a now idx target detected s)) =
     (if detected \<and> target \<noteq> None \<and> gs_first_find_tick s = None then Some now else gs_first_find_tick s)"
  "snd (mark_cell a now idx target detected s) = (detected \<and> target \<noteq> None)"
  by (auto simp: mark_cell_def split: option.splits)

lemma belief_ok_shape:
  assumes "belief_ok s b"
  shows "cell_of b (x, y) = (if in_grid (gs_grid s) x y then Some (bm_cells b ! unat y ! unat x) else None)"
  using assms by (auto simp: belief_ok_def cell_of_def in_grid_def)

text \<open>The belief map after a scan of a cell that was not visited before: one more scan is counted at that cell, and no confirmation scan.\<close>

lemma scan_belief_ok:
  assumes ok: "belief_ok s b" and bound: "unat (sg_width (gs_grid s)) * unat (sg_height (gs_grid s)) < 2 ^ 32"
    and fresh: "cell_index (gs_grid s) x y \<notin> visited_cells s"
    and upd: "scan_belief (x, y) det nt sensor b = Some b'"
    and s': "gs_grid s' = gs_grid s" "visited_cells s' = insert (cell_index (gs_grid s) x y) (visited_cells s)"
  shows "belief_ok s' b' \<and> in_grid (gs_grid s) x y"
proof -
  have ing: "in_grid (gs_grid s) x y"
    using upd by (auto simp: scan_belief_def belief_update_def belief_ok_shape [OF ok] split: if_splits)
  define bc where "bc = (bm_cells b ! unat y ! unat x)\<lparr>bc_scan_count := bc_scan_count (bm_cells b ! unat y ! unat x) + 1,
    bc_posterior := bayes sensor det (bc_posterior (bm_cells b ! unat y ! unat x))\<rparr>"
  have len: "unat y < length (bm_cells b)" "unat x < length (bm_cells b ! unat y)"
    using ok ing by (auto simp: belief_ok_def in_grid_def)
  have zero: "bc_scan_count (bm_cells b ! unat y ! unat x) = 0"
    using ok ing fresh by (auto simp: belief_ok_def)
  have b': "bm_cells b' = (bm_cells b)[unat y := (bm_cells b ! unat y)[unat x := bc]]" "bm_confirmation_scans b' = 0"
    using upd ing len zero ok
    by (auto simp: scan_belief_def belief_update_def belief_ok_shape [OF ok] set_cell_def cell_of_def bc_def belief_ok_def Let_def split: if_splits)
  have count: "bc_scan_count (bm_cells b' ! unat v ! unat u) = (if cell_index (gs_grid s) u v \<in> visited_cells s' then 1 else 0)"
    if "in_grid (gs_grid s) u v" for u v
  proof (cases "u = x \<and> v = y")
    case True
    then show ?thesis using len zero by (simp add: b' s' bc_def)
  next
    case False
    then have "cell_index (gs_grid s) u v \<noteq> cell_index (gs_grid s) x y" using cell_index_inj [OF bound that ing] by blast
    moreover have "bm_cells b' ! unat v ! unat u = bm_cells b ! unat v ! unat u"
      using False len by (auto simp: b' nth_list_update word_unat_eq_iff)
    ultimately show ?thesis using ok that by (simp add: belief_ok_def s')
  qed
  have "length row = unat (sg_width (gs_grid s))" if "row \<in> set (bm_cells b')" for row
  proof -
    have "row = (bm_cells b ! unat y)[unat x := bc] \<or> row \<in> set (bm_cells b)"
      using that set_update_subset_insert [of "bm_cells b" "unat y"] unfolding b' by blast
    then show ?thesis using ok nth_mem [OF len(1)] by (auto simp: belief_ok_def)
  qed
  then show ?thesis using ing count ok by (auto simp: belief_ok_def b' s')
qed

lemma scan_cell_cases:
  assumes "scan_cell a x y role now z roll s = Some (s', hit)"
  obtains (skip) "s' = s" "length (gs_cells s) \<le> cell_index (gs_grid s) x y \<or> gs_cells s ! cell_index (gs_grid s) x y \<noteq> Unvisited"
  | (scan) s1 where "cell_index (gs_grid s) x y < length (gs_cells s)" "gs_cells s ! cell_index (gs_grid s) x y = Unvisited"
      "(s', hit) = mark_cell a now (cell_index (gs_grid s) x y) (target_here s x y) (detection_roll s role z roll) s1"
      "(gs_belief_map s = None \<and> s1 = s\<lparr>gs_scan_count := gs_scan_count s + 1\<rparr>) \<or>
       (\<exists>b b'. gs_belief_map s = Some b \<and> scan_belief (x, y) (detection_roll s role z roll) (target_here s x y = None) (gs_sensor s) b = Some b' \<and>
          s1 = s\<lparr>gs_scan_count := gs_scan_count s + 1, gs_belief_map := Some b'\<rparr>)"
proof (cases "length (gs_cells s) \<le> cell_index (gs_grid s) x y \<or> gs_cells s ! cell_index (gs_grid s) x y \<noteq> Unvisited")
  case True
  then show thesis using assms skip by (auto simp: scan_cell_def Let_def split: if_splits)
next
  case False
  then show thesis using assms scan by (auto simp: scan_cell_def Let_def split: option.splits)
qed

lemma scan_cell_inv:
  assumes inv: "search_inv s" and run: "scan_cell a x y role now z roll s = Some (s', hit)"
  shows "search_inv s' \<and> gs_grid s' = gs_grid s \<and> gs_targets s' = gs_targets s \<and> visited_cells s \<subseteq> visited_cells s' \<and> found_cells s \<subseteq> found_cells s'"
  using run
proof (cases rule: scan_cell_cases)
  case skip
  then show ?thesis using inv by simp
next
  case (scan s1)
  let ?i = "cell_index (gs_grid s) x y" and ?det = "detection_roll s role z roll" and ?t = "target_here s x y"
  have s1: "gs_grid s1 = gs_grid s" "gs_cells s1 = gs_cells s" "gs_targets s1 = gs_targets s" "gs_targets_found s1 = gs_targets_found s"
      "gs_first_find_tick s1 = gs_first_find_tick s" "gs_scan_count s1 = gs_scan_count s + 1" "visited_cells s1 = visited_cells s" "found_cells s1 = found_cells s"
    using scan(4) by (auto simp: visited_cells_def found_cells_def)
  have s': "s' = fst (mark_cell a now ?i ?t ?det s1)" using scan(3) by (metis fst_conv)
  have sets: "visited_cells s' = insert ?i (visited_cells s)"
      "found_cells s' = (if ?det \<and> ?t \<noteq> None then insert ?i (found_cells s) else found_cells s)"
    using mark_cell_sets [of ?i s1 a now ?t ?det] scan(1,2) by (auto simp: s' s1)
  have fresh: "?i \<notin> visited_cells s" "?i \<notin> found_cells s" using scan(2) by (simp_all add: visited_cells_def found_cells_def)
  have target: "\<exists>t\<in>set (gs_targets s). ?i = cell_index (gs_grid s) (ht_cell_x t) (ht_cell_y t)" if "?t \<noteq> None"
    using that by (auto simp: target_here_def find_Some_iff set_conv_nth)
  have belief: "belief_ok s' b'" if "gs_belief_map s' = Some b'" for b'
  proof -
    have "gs_belief_map s1 = Some b'" using that by (simp add: s')
    then obtain b where "gs_belief_map s = Some b" "scan_belief (x, y) ?det (?t = None) (gs_sensor s) b = Some b'"
      using scan(4) by auto
    then show ?thesis using scan_belief_ok [of s b x y ?det "?t = None" "gs_sensor s" b' s'] inv fresh(1) sets(1)
      by (simp add: search_inv_def s' s1)
  qed
  have fields: "gs_scan_count s' = gs_scan_count s + 1" "gs_targets_found s' = gs_targets_found s + (if ?det \<and> ?t \<noteq> None then 1 else 0)"
      "gs_first_find_tick s' = (if ?det \<and> ?t \<noteq> None \<and> gs_first_find_tick s = None then Some now else gs_first_find_tick s)"
      "gs_grid s' = gs_grid s" "gs_targets s' = gs_targets s" "length (gs_cells s') = length (gs_cells s)"
    by (simp_all add: s' mark_cell_counters s1)
  have counts: "gs_scan_count s' = of_nat (card (visited_cells s'))" "gs_targets_found s' = of_nat (card (found_cells s'))"
    using inv fresh by (simp_all add: search_inv_def sets fields)
  show ?thesis
    using inv counts belief target sets by (auto simp: search_inv_def fields)
qed

text \<open>An invariant kept by every scan of a cell is kept by the loops over the tasks and the nodes, and by the step of the runner.\<close>

locale scan_invariant =
  fixes P :: "GridState \<Rightarrow> bool"
  assumes scan: "P s \<Longrightarrow> scan_cell a x y role now z roll s = Some (s', hit) \<Longrightarrow> P s'"
begin

lemma scan_tasks_keeps: "scan_tasks draw seed now a entry ts (gs, lg, ids) = Some (gs', lg', ids') \<Longrightarrow> P gs \<Longrightarrow> P gs'"
proof (induction ts arbitrary: gs lg ids)
  case (Cons t ts)
  then show ?case by (cases t) (auto simp: Let_def split: option.splits if_splits prod.splits dest: scan)
qed simp

lemma scan_nodes_keeps: "scan_nodes draw seed now crashed ns (gs, lg) = Some (ns', gs', lg') \<Longrightarrow> P gs \<Longrightarrow> P gs'"
proof (induction ns arbitrary: gs lg ns')
  case (Cons n ns)
  then show ?case by (cases n) (auto simp: Let_def split: option.splits if_splits prod.splits dest!: scan_tasks_keeps)
qed simp

lemma record_sar_scans_keeps:
  "record_sar_scans log2 draw seed now dynamic crashed nodes gs lg = Some (nodes', gs', lg') \<Longrightarrow> P gs \<Longrightarrow> P gs'"
  by (auto simp: record_sar_scans_def split: option.splits if_splits dest: scan_nodes_keeps)

end

text \<open>The states a search mission reaches: the grid starts with every cell unvisited, with or without a belief map, and changes in the scan step of
  a tick only; the nodes and the log also change in the rest of the tick.\<close>

inductive sar_reachable ::
    "SearchGrid \<Rightarrow> HiddenTarget list \<Rightarrow> SensorModel \<Rightarrow> f64 option \<Rightarrow> (('tr, 'dt) AgentNode \<times> AgentId) list \<times> GridState \<times> sar_log \<Rightarrow> bool"
  for g ts sensor prior where
  start: "prior = None \<Longrightarrow> sar_reachable g ts sensor prior (nodes, grid_state_new g ts sensor, lg)"
| start_belief: "prior = Some p \<Longrightarrow> sar_reachable g ts sensor prior (nodes, with_belief p (grid_state_new g ts sensor), lg)"
| scans: "sar_reachable g ts sensor prior (nodes, s, lg) \<Longrightarrow>
    record_sar_scans log2 draw seed now dynamic crashed nodes s lg = Some (nodes', s', lg') \<Longrightarrow> sar_reachable g ts sensor prior (nodes', s', lg')"
| rest_of_tick: "sar_reachable g ts sensor prior (nodes, s, lg) \<Longrightarrow> sar_reachable g ts sensor prior (nodes', s, lg')"

interpretation search: scan_invariant "\<lambda>s. search_inv s \<and> gs_grid s = g \<and> gs_targets s = ts" for g ts
  by unfold_locales (use scan_cell_inv in auto)

lemma grid_state_frame [simp]:
  "gs_grid (grid_state_new g ts sensor) = g" "gs_targets (grid_state_new g ts sensor) = ts" "gs_sensor (grid_state_new g ts sensor) = sensor"
  "gs_grid (with_belief p s) = gs_grid s" "gs_targets (with_belief p s) = gs_targets s" "gs_sensor (with_belief p s) = gs_sensor s"
  by (simp_all add: grid_state_new_def with_belief_def)

lemma visited_new: "visited_cells (grid_state_new g ts sensor) = {}"
  by (auto simp: visited_cells_def grid_state_new_def)

lemma sar_reachable_inv:
  assumes "sar_reachable g ts sensor prior st" "unat (sg_width g) * unat (sg_height g) < 2 ^ 32"
  shows "search_inv (fst (snd st)) \<and> gs_grid (fst (snd st)) = g \<and> gs_targets (fst (snd st)) = ts"
  using assms
proof (induction rule: sar_reachable.induct)
  case (start nodes lg)
  then show ?case by (simp add: search_inv_new)
next
  case (start_belief p nodes lg)
  then show ?case by (simp add: search_inv_with_belief search_inv_new visited_new)
next
  case (scans nodes s lg log2 draw seed now dynamic crashed nodes' s' lg')
  then show ?case using search.record_sar_scans_keeps by fastforce
qed simp

text \<open>(C29) Search accounting: after any number of ticks the scan counter is the number of cells visited and the counter of targets found the number
  of cells that hold a found target, which are cells of hidden targets; the first find is recorded exactly when there is one; a mission whose
  targets share a cell never finds all of them, and the counter of confirmation scans stays at zero.\<close>

theorem sar_scan_accounting:
  assumes run: "sar_reachable g ts sensor prior (nodes, s, lg)" and bound: "unat (sg_width g) * unat (sg_height g) < 2 ^ 32"
  shows "unat (gs_scan_count s) = card (visited_cells s) \<and> unat (gs_targets_found s) = card (found_cells s) \<and>
    found_cells s \<subseteq> (\<lambda>t. cell_index g (ht_cell_x t) (ht_cell_y t)) ` set ts \<and>
    (gs_first_find_tick s = None \<longleftrightarrow> found_cells s = {}) \<and>
    (all_targets_found s \<and> length ts < 2 ^ 32 \<longrightarrow> distinct (map (\<lambda>t. cell_index g (ht_cell_x t) (ht_cell_y t)) ts)) \<and>
    (\<forall>b. gs_belief_map s = Some b \<longrightarrow> bm_confirmation_scans b = 0)"
proof -
  have inv: "search_inv s" "gs_grid s = g" "gs_targets s = ts" using sar_reachable_inv [OF run bound] by simp_all
  let ?f = "\<lambda>t. cell_index g (ht_cell_x t) (ht_cell_y t)"
  have sub: "found_cells s \<subseteq> ?f ` set ts" using inv by (auto simp: search_inv_def)
  have "card (visited_cells s) \<le> length (gs_cells s)"
    using card_mono [of "{..<length (gs_cells s)}" "visited_cells s"] by (auto simp: visited_cells_def)
  moreover have "length (gs_cells s) < 2 ^ 32" using inv bound by (simp add: search_inv_def)
  moreover have "card (found_cells s) \<le> card (visited_cells s)" by (rule card_mono) (simp_all add: found_subset)
  ultimately have small: "card (visited_cells s) < 2 ^ 32" "card (found_cells s) < 2 ^ 32" by linarith+
  have counts: "unat (gs_scan_count s) = card (visited_cells s)" "unat (gs_targets_found s) = card (found_cells s)"
    using inv(1) small by (simp_all add: search_inv_def unat_of_nat take_bit_nat_eq_self)
  have "distinct (map ?f ts)" if "all_targets_found s" "length ts < 2 ^ 32"
  proof -
    have "unat (gs_targets_found s) = length ts" using that inv(3) by (simp add: all_targets_found_def unat_of_nat take_bit_nat_eq_self)
    then have "length (map ?f ts) \<le> card (set (map ?f ts))" using card_mono [OF _ sub] by (simp add: counts)
    then show ?thesis by (simp only: card_distinct card_length le_antisym)
  qed
  then show ?thesis using inv(1) sub counts by (simp add: search_inv_def belief_ok_def)
qed

section \<open>The belief of a cell is a probability\<close>

definition unit_f64 :: "f64 \<Rightarrow> bool" where
  "unit_f64 x = (case x of Fin s m \<Rightarrow> 0 \<le> m \<and> m \<le> 1 \<and> (s \<longrightarrow> m = 0) | _ \<Rightarrow> False)"

definition is_num :: "f64 \<Rightarrow> bool" where
  "is_num x = (case x of NaN \<Rightarrow> False | Inf _ \<Rightarrow> True | Fin _ m \<Rightarrow> 0 \<le> m)"

lemma is_num_simps [simp]: "\<not> is_num NaN" "is_num (Inf s)" "is_num (Fin s m) \<longleftrightarrow> 0 \<le> m"
  by (simp_all add: is_num_def)

lemma is_num_round: "0 \<le> m \<Longrightarrow> is_num (f64_round s m)"
  unfolding f64_round_mag by (simp only: is_num_simps round_mag_nonneg split: if_split) simp

lemma clamp_unit: "is_num x \<Longrightarrow> unit_f64 (f64_clamp x f64_zero (f64_lit 1))"
  by (cases x) (auto simp: f64_clamp_def unit_f64_def f64_lt_def)

lemma round_mag_unit:
  assumes "0 \<le> m" "m \<le> 1"
  shows "round_mag m \<le> 1" "f64_round s m = Fin s (round_mag m)"
proof -
  have "round_mag m \<le> round_mag 1" using assms by (rule round_mag_mono)
  also have "round_mag 1 \<le> 1" using round_mag_upper [of 1 0] floor_log2_less [of 1 1] by (simp add: ulp_exp_def)
  finally show le: "round_mag m \<le> 1" .
  have "round_mag m < 2 ^ 1024" by (rule le_less_trans [OF le one_less_power]) simp_all
  then show "f64_round s m = Fin s (round_mag m)" unfolding f64_round_mag by (simp only: not_le [symmetric] simp_thms if_False)
qed

lemma round_mag_grid: "\<exists>k. round_mag m = of_int k * 2 powi (- 1074)"
proof (cases "m = 0")
  case True
  then show ?thesis by (intro exI [of _ 0]) (simp add: round_mag_def)
next
  case False
  have "- 1074 \<le> ulp_exp m" by (simp add: ulp_exp_def)
  then obtain j where "(2 :: rat) powi ulp_exp m / 2 powi (- 1074) = of_int j" using int_multiple by metis
  then have "(2 :: rat) powi ulp_exp m = of_int j * 2 powi (- 1074)" by (simp add: field_simps)
  then have "round_mag m = of_int (round_even (m / 2 powi ulp_exp m) * j) * 2 powi (- 1074)" using False by (simp add: round_mag_def)
  then show ?thesis by blast
qed

lemma round_mag_ge:
  assumes "- 1074 \<le> k" "2 powi k \<le> m"
  shows "2 powi k \<le> round_mag m"
proof -
  have pos: "(0 :: rat) < 2 powi k" by (rule zero_less_power_int) simp
  have "floor_log2 (2 powi k) < k + 1" by (rule floor_log2_less [OF pos]) (simp only: powi_less_iff)
  then have "ulp_exp (2 powi k) \<le> k" using assms(1) by (simp add: ulp_exp_def)
  then have "2 powi k \<le> round_mag (2 powi k)" using pos by (intro round_mag_lower) simp_all
  also have "\<dots> \<le> round_mag m" using pos assms(2) by (intro round_mag_mono) simp_all
  finally show ?thesis .
qed

lemma f64_round_pos: "- 1074 \<le> k \<Longrightarrow> 2 powi k \<le> m \<Longrightarrow> f64_lt f64_zero (f64_round False m)"
proof -
  assume "- 1074 \<le> k" "2 powi k \<le> m"
  then have "2 powi k \<le> round_mag m" by (rule round_mag_ge)
  moreover have "(0 :: rat) < 2 powi k" by (rule zero_less_power_int) simp
  ultimately have "0 < round_mag m" by linarith
  then show ?thesis unfolding f64_round_mag f64_lt_def by (simp only: split: if_split) simp
qed

text \<open>The difference of one and a smaller representable number does not vanish.\<close>

lemma grid_gap:
  fixes g :: rat
  assumes "0 < g" "1 = of_int j * g" "x = of_int k * g" "x < 1"
  shows "g \<le> 1 - x"
proof -
  have "of_int k * g < of_int j * g" using assms(2-4) by simp
  then have "k + 1 \<le> j" using assms(1) by simp
  then have "of_int (k + 1) * g \<le> of_int j * g" using assms(1) by (intro mult_right_mono) simp_all
  then show ?thesis using assms(2,3) by (simp add: distrib_right)
qed

lemma round_mag_complement:
  assumes "round_mag m < 1"
  shows "round_mag (1 - round_mag m) \<noteq> 0"
proof -
  obtain k where k: "round_mag m = of_int k * 2 powi (- 1074)" using round_mag_grid by blast
  obtain j where "(2 :: rat) powi 0 / 2 powi (- 1074) = of_int j" using int_multiple [of "- 1074" 0] by auto
  then have j: "1 = of_int j * (2 :: rat) powi (- 1074)" by (simp only: divide_eq_eq power_int_0_right) simp
  have "2 powi (- 1074) \<le> 1 - round_mag m" by (rule grid_gap [OF _ j k assms]) simp
  then have "2 powi (- 1074) \<le> round_mag (1 - round_mag m)" by (intro round_mag_ge) simp_all
  moreover have "(0 :: rat) < 2 powi (- 1074)" by (rule zero_less_power_int) simp
  ultimately show ?thesis by (metis leD)
qed

lemma unit_f64_cases:
  assumes "unit_f64 x"
  obtains s m where "x = Fin s m" "0 \<le> m" "m \<le> 1" "val x = m"
  using assms by (cases x) (auto simp: unit_f64_def val_def)

lemma unit_f64_round: "0 \<le> m \<Longrightarrow> m \<le> 1 \<Longrightarrow> unit_f64 (f64_round False m)"
  by (simp add: round_mag_unit unit_f64_def round_mag_nonneg)

lemma unit_f64_mul:
  assumes "unit_f64 x" "unit_f64 y"
  shows "unit_f64 (f64_mul x y)"
proof -
  obtain s m t n where xy: "x = Fin s m" "y = Fin t n" "0 \<le> m" "m \<le> 1" "0 \<le> n" "n \<le> 1" "s \<longrightarrow> m = 0" "t \<longrightarrow> n = 0"
    using assms by (auto simp: unit_f64_def split: f64.splits)
  then have "0 \<le> m * n" "m * n \<le> 1" by (simp_all add: mult_le_one)
  moreover have "s \<noteq> t \<longrightarrow> m * n = 0" using xy by auto
  ultimately show ?thesis
    by (cases "s = t") (simp_all add: xy(1,2) unit_f64_round, simp add: unit_f64_def f64_round_def)
qed

lemma unit_f64_complement:
  assumes "unit_f64 x"
  shows "unit_f64 (f64_sub (f64_lit 1) x)"
proof -
  obtain s m where x: "x = Fin s m" "0 \<le> m" "m \<le> 1" "val x = m" using unit_f64_cases [OF assms] .
  then have v: "val (Fin (\<not> s) m) = - m" by (simp add: val_def split: if_splits)
  have "f64_sub (f64_lit 1) x = (if m = 1 then f64_zero else f64_round False (1 - m))"
    using x(2,3) v by (auto simp: f64_sub_def x(1) val_def [of "f64_lit 1"] of_exact_def Let_def)
  then show ?thesis using x(2,3) by (simp add: unit_f64_round) (simp add: unit_f64_def)
qed

text \<open>The sum of two probabilities, where it lies strictly between zero and one: its complement is not rounded to zero.\<close>

lemma unit_f64_add:
  assumes "unit_f64 x" "unit_f64 y" "f64_lt f64_zero (f64_add x y)" "f64_lt (f64_add x y) (f64_lit 1)"
  shows "unit_f64 (f64_add x y) \<and> mag (f64_add x y) \<noteq> 0 \<and> mag (f64_sub (f64_lit 1) (f64_add x y)) \<noteq> 0"
proof -
  obtain s m where x: "x = Fin s m" "0 \<le> m" "val x = m" using unit_f64_cases [OF assms(1)] .
  obtain t n where y: "y = Fin t n" "0 \<le> n" "val y = n" using unit_f64_cases [OF assms(2)] .
  have sum: "f64_add x y = (if m + n = 0 then Fin (s \<and> t) 0 else f64_round False (m + n))"
    using x(2,3) y(2,3) by (simp add: x(1) y(1) of_exact_def Let_def)
  then have pos: "m + n \<noteq> 0" using assms(3) by (auto simp: f64_lt_def split: if_splits)
  then have add: "f64_add x y = Fin False (round_mag (m + n))"
    using sum assms(4) by (auto simp: f64_round_mag f64_lt_def simp del: power_numeral split: if_splits)
  then have r: "0 < round_mag (m + n)" "round_mag (m + n) < 1" using assms(3,4) by (simp_all add: f64_lt_def)
  then have sub: "f64_sub (f64_lit 1) (f64_add x y) = f64_round False (1 - round_mag (m + n))"
    by (simp add: add f64_sub_def val_def of_exact_def Let_def)
  have "mag (f64_sub (f64_lit 1) (f64_add x y)) = round_mag (1 - round_mag (m + n))"
    unfolding sub using r by (simp add: round_mag_unit(2))
  then show ?thesis using r round_mag_complement [OF r(2)] by (simp add: add unit_f64_def)
qed

lemma unit_f64_div:
  assumes "unit_f64 x" "unit_f64 y" "mag y \<noteq> 0"
  shows "is_num (f64_div x y)"
  using assms by (auto simp: unit_f64_def split: f64.splits intro!: is_num_round)

lemma bayes_unit:
  assumes s: "unit_f64 (detection_probability sensor)" "unit_f64 (false_positive_rate sensor)" and p: "unit_f64 p"
  shows "unit_f64 (bayes sensor det p)"
proof -
  let ?hit = "f64_mul (detection_probability sensor) p"
  let ?pd = "f64_add ?hit (f64_mul (false_positive_rate sensor) (f64_sub (f64_lit 1) p))"
  have u: "unit_f64 ?hit" "unit_f64 (f64_mul (f64_sub (f64_lit 1) (detection_probability sensor)) p)"
      "unit_f64 (f64_mul (false_positive_rate sensor) (f64_sub (f64_lit 1) p))"
    using s p by (simp_all add: unit_f64_mul unit_f64_complement)
  have "is_num p" using p by (auto simp: unit_f64_def split: f64.splits)
  moreover have "is_num (f64_div ?hit ?pd)" "is_num (f64_div (f64_mul (f64_sub (f64_lit 1) (detection_probability sensor)) p) (f64_sub (f64_lit 1) ?pd))"
    if "f64_lt f64_zero ?pd" "f64_lt ?pd (f64_lit 1)"
    using unit_f64_add [OF u(1,3) that] u unit_f64_complement by (simp_all add: unit_f64_div)
  ultimately show ?thesis unfolding bayes_def Let_def by (intro clamp_unit) simp
qed

definition belief_unit :: "GridState \<Rightarrow> bool" where
  "belief_unit s \<longleftrightarrow> (case gs_belief_map s of None \<Rightarrow> True | Some b \<Rightarrow> \<forall>row\<in>set (bm_cells b). \<forall>bc\<in>set row. unit_f64 (bc_posterior bc))"

lemma set_cell_all:
  assumes "\<forall>row\<in>set (bm_cells b). \<forall>bc\<in>set row. Q bc" "Q bc" "cell_of b c = Some bc0"
  shows "\<forall>row\<in>set (bm_cells (set_cell c bc b)). \<forall>bc\<in>set row. Q bc"
proof -
  obtain x y where c: "c = (x, y)" by (cases c)
  have "row \<in> set (bm_cells b) \<or> row = (bm_cells b ! unat y)[unat x := bc]" if "row \<in> set (bm_cells (set_cell c bc b))" for row
    using that set_update_subset_insert [of "bm_cells b" "unat y"] by (auto simp: set_cell_def c)
  moreover have "bm_cells b ! unat y \<in> set (bm_cells b)" using assms(3) by (auto simp: cell_of_def c split: if_splits)
  then have "\<forall>bc'\<in>set ((bm_cells b ! unat y)[unat x := bc]). Q bc'"
    using assms(1,2) set_update_subset_insert [of "bm_cells b ! unat y" "unat x" bc] by blast
  ultimately show ?thesis using assms(1) by blast
qed

lemma cell_of_mem: "cell_of b c = Some bc \<Longrightarrow> \<exists>row\<in>set (bm_cells b). bc \<in> set row"
  by (auto simp: cell_of_def split: if_splits prod.splits) (metis nth_mem)

lemma scan_belief_unit:
  assumes "unit_f64 (detection_probability sensor)" "unit_f64 (false_positive_rate sensor)"
    and "scan_belief c det nt sensor b = Some b'" "\<forall>row\<in>set (bm_cells b). \<forall>bc\<in>set row. unit_f64 (bc_posterior bc)"
  shows "\<forall>row\<in>set (bm_cells b'). \<forall>bc\<in>set row. unit_f64 (bc_posterior bc)"
proof -
  obtain bc where bc: "cell_of b c = Some bc" using assms(3) by (auto simp: scan_belief_def belief_update_def)
  then have "unit_f64 (bayes sensor det (bc_posterior bc))" using cell_of_mem bayes_unit assms(1,2,4) by blast
  then have "\<forall>row\<in>set (bm_cells (set_cell c (bc\<lparr>bc_scan_count := bc_scan_count bc + 1, bc_posterior := bayes sensor det (bc_posterior bc)\<rparr>) b)).
      \<forall>bc\<in>set row. unit_f64 (bc_posterior bc)"
    using assms(4) bc by (intro set_cell_all) auto
  then show ?thesis using assms(3) bc by (auto simp: scan_belief_def belief_update_def Let_def split: if_splits)
qed

lemma scan_cell_unit:
  assumes "unit_f64 (detection_probability sensor)" "unit_f64 (false_positive_rate sensor)"
    and "belief_unit s \<and> gs_sensor s = sensor" "scan_cell a x y role now z roll s = Some (s', hit)"
  shows "belief_unit s' \<and> gs_sensor s' = sensor"
  using assms(4)
proof (cases rule: scan_cell_cases)
  case skip
  then show ?thesis using assms(3) by simp
next
  case (scan s1)
  have s': "s' = fst (mark_cell a now (cell_index (gs_grid s) x y) (target_here s x y) (detection_roll s role z roll) s1)"
    using scan(3) by (metis fst_conv)
  show ?thesis
    using scan(4) assms(3) scan_belief_unit [OF assms(1,2)] by (auto simp: s' belief_unit_def split: option.splits)
qed

interpretation unit_belief: scan_invariant "\<lambda>s. unit_f64 (detection_probability sensor) \<and> unit_f64 (false_positive_rate sensor) \<longrightarrow>
    belief_unit s \<and> gs_sensor s = sensor" for sensor
  by unfold_locales (use scan_cell_unit in blast)

text \<open>(C30) Beliefs are probabilities: with a prior, a detection probability and a false positive rate between zero and one, every posterior of the
  belief map is a number between zero and one after any number of scans; the quotients of the update never divide by zero.\<close>

theorem sar_belief_is_probability:
  assumes "sar_reachable g ts sensor (Some p) (nodes, s, lg)"
    and "unit_f64 p" "unit_f64 (detection_probability sensor)" "unit_f64 (false_positive_rate sensor)"
  shows "\<forall>b. gs_belief_map s = Some b \<longrightarrow> (\<forall>row\<in>set (bm_cells b). \<forall>bc\<in>set row. unit_f64 (bc_posterior bc))"
proof -
  have "belief_unit (fst (snd st)) \<and> gs_sensor (fst (snd st)) = sensor" if "sar_reachable g ts sensor (Some p) st" for st :: "(('a, 'b) AgentNode \<times> AgentId) list \<times> GridState \<times> sar_log"
    using that
  proof (induction rule: sar_reachable.induct)
    case (start_belief p' nodes lg)
    then show ?case using assms(2) by (auto simp: belief_unit_def with_belief_def belief_new_def grid_state_new_def)
  next
    case (scans nodes s lg log2 draw seed now dynamic crashed nodes' s' lg')
    then show ?case using unit_belief.record_sar_scans_keeps [of log2 draw seed now dynamic crashed nodes s lg nodes' s' lg' sensor] assms(3,4) by simp
  qed simp_all
  from this [OF assms(1)] show ?thesis by (auto simp: belief_unit_def split: option.splits)
qed

section \<open>Instances\<close>

lemma f64_round_half [simp]: "f64_round s (1 / 2) = Fin s (1 / 2)"
proof -
  have "ulp_exp (1 / 2) \<le> - 1" using floor_log2_less [of "1 / 2" 1] by (simp add: ulp_exp_def)
  then have "round_mag (1 / 2) = 1 / 2"
    using round_mag_upper [of "1 / 2" "- 1"] round_mag_lower [of "1 / 2" "- 1"] by simp
  then show ?thesis using round_mag_unit(2) [of "1 / 2" s] by simp
qed

definition search_site :: SearchGrid where
  "search_site = \<lparr>sg_width = 2, sg_height = 1, sg_cell_size = f64_lit 2\<rparr>"

definition searcher :: "(unit, unit) AgentNode" where
  "searcher = agent_node_new ''a'' [] (coordinator_new [sample_agent ''a''\<lparr>a_pose := default_pose\<lparr>px := f64_lit 1, py := f64_lit 1\<rparr>\<rparr>]
     [sample_task ''t''\<lparr>t_assigned_to := Some ''a'', t_status := Assigned, t_grid_cell := Some (0, 0)\<rparr>] 3) ()"

definition search_targets :: "HiddenTarget list" where
  "search_targets = [\<lparr>ht_id = ''x'', ht_cell_x = 0, ht_cell_y = 0\<rparr>]"

definition search_sensor :: SensorModel where
  "search_sensor = sensor_new_v2 (f64_lit 1) (f64_lit 1) f64_zero (f64_lit (1 / 2)) (f64_lit (1 / 4))"

lemma search_site_center: "cell_center search_site 0 0 = default_pose\<lparr>px := f64_lit 1, py := f64_lit 1\<rparr>"
  by (simp add: cell_center_def search_site_def u32_as_f64_def f64_of_nat_def val_def of_exact_def f64_round_def [of _ 0])

lemma search_site_threshold: "f64_lt f64_zero (f64_mul (f64_lit 2) (of_exact (1 / 10)))"
proof -
  have "2 powi (- 4) \<le> (1 / 10 :: rat)" by (simp add: power_int_minus)
  then have r: "2 powi (- 4) \<le> round_mag (1 / 10)" by (rule round_mag_ge [rotated]) simp
  then have "2 powi (- 4) \<le> 2 * round_mag (1 / 10)" using round_mag_nonneg [of "1 / 10"] by linarith
  then show ?thesis using f64_round_pos [of "- 4"] by (simp add: of_exact_def round_mag_unit)
qed

definition search_found :: GridState where
  "search_found = (grid_state_new search_site search_targets search_sensor)\<lparr>gs_scan_count := 1, gs_targets_found := 1, gs_first_find_tick := Some 1,
     gs_cells := [TargetFound ''x'' ''a'' 1, Unvisited]\<rparr>"

lemma search_cells: "replicate (unat (total_cells search_site)) Unvisited = [Unvisited, Unvisited]"
  by code_simp

lemma search_scan:
  "scan_cell ''a'' 0 0 Scout 1 f64_zero f64_zero (grid_state_new search_site search_targets search_sensor) = Some (search_found, True)"
  by (simp add: search_found_def scan_cell_def grid_state_new_def search_cells cell_index_def)
    (simp add: search_targets_def search_sensor_def target_here_def detection_roll_def sensor_new_v2_def mark_cell_def f64_lt_def)

lemma search_tick:
  assumes "gs_grid s = search_site" "scan_cell ''a'' 0 0 Scout 1 f64_zero f64_zero s = Some (s', hit)"
  shows "record_sar_scans (\<lambda>_. f64_zero) (\<lambda>_. f64_zero) 0 1 False {} [(searcher, ''a'')] s None =
     Some ([(with_registry (complete_scanned [''t'']) searcher, ''a'')], s', None)"
proof -
  let ?at = "default_pose\<lparr>px := f64_lit 1, py := f64_lit 1\<rparr>"
  let ?entry = "entry_of_agent (sample_agent ''a''\<lparr>a_pose := ?at\<rparr>)"
  have n: "hm_values (tasks (registry (coordinator searcher))) = [sample_task ''t''\<lparr>t_assigned_to := Some ''a'', t_status := Assigned, t_grid_cell := Some (0, 0)\<rparr>]"
    "hm_get (agents (membership (coordinator searcher))) ''a'' = Some ?entry"
    "e_pose ?entry = ?at" "e_role ?entry = Scout" "pz ?at = f64_zero" "sg_cell_size search_site = f64_lit 2"
    by code_simp+
  have d: "distance_to ?at ?at = f64_zero" by code_simp
  show ?thesis
    using assms search_site_threshold
    by (simp add: record_sar_scans_def n search_site_center d sar_push_def sample_task_def)
qed

lemma search_found_cells: "visited_cells search_found = {0}" "found_cells search_found = {0}"
  by (auto simp: visited_cells_def found_cells_def search_found_def less_Suc_eq)

lemma search_site_bound: "unat (sg_width search_site) * unat (sg_height search_site) < 2 ^ 32"
  by (simp add: search_site_def)

theorem sar_scan_accounting_witness:
  "visited_cells search_found = {0} \<and> unat (gs_scan_count search_found) = card (visited_cells search_found) \<and>
   unat (gs_targets_found search_found) = card (found_cells search_found)"
proof -
  have "sar_reachable search_site search_targets search_sensor None ([(searcher, ''a'')], grid_state_new search_site search_targets search_sensor, None)"
    by (rule start) simp
  then have "sar_reachable search_site search_targets search_sensor None ([(with_registry (complete_scanned [''t'']) searcher, ''a'')], search_found, None)"
    using search_tick [OF grid_state_frame(1) search_scan] by (rule scans)
  from sar_scan_accounting [OF this search_site_bound] show ?thesis by (simp add: search_found_cells)
qed

theorem sar_belief_is_probability_witness:
  "\<exists>s hit b. scan_cell ''a'' 0 0 Scout 1 f64_zero f64_zero (with_belief (f64_lit (1 / 2)) (grid_state_new search_site search_targets search_sensor)) = Some (s, hit) \<and>
     gs_belief_map s = Some b \<and> (\<forall>row\<in>set (bm_cells b). \<forall>bc\<in>set row. unit_f64 (bc_posterior bc))"
proof -
  let ?s0 = "with_belief (f64_lit (1 / 2)) (grid_state_new search_site search_targets search_sensor)"
  have cells: "gs_cells ?s0 = [Unvisited, Unvisited]" "gs_grid ?s0 = search_site"
      "gs_belief_map ?s0 = Some (belief_new search_site (f64_lit (1 / 2)))" "cell_index search_site 0 0 = 0"
    by (simp_all add: with_belief_def grid_state_new_def search_cells cell_index_def)
  have "belief_update (0, 0) det search_sensor (belief_new search_site (f64_lit (1 / 2))) \<noteq> None" for det
    by (simp add: belief_update_def cell_of_def belief_new_def search_site_def)
  then obtain b where "scan_belief (0, 0) True False search_sensor (belief_new search_site (f64_lit (1 / 2))) = Some b"
    by (fastforce simp: scan_belief_def)
  moreover have "detection_roll ?s0 Scout f64_zero f64_zero" "target_here ?s0 0 0 \<noteq> None"
    by (simp_all add: detection_roll_def target_here_def search_targets_def search_sensor_def sensor_new_v2_def f64_lt_def)
  ultimately have "\<exists>s hit. scan_cell ''a'' 0 0 Scout 1 f64_zero f64_zero ?s0 = Some (s, hit) \<and> gs_belief_map s = Some b"
    by (auto simp: scan_cell_def cells mark_cell_def)
  then obtain s hit where s: "scan_cell ''a'' 0 0 Scout 1 f64_zero f64_zero ?s0 = Some (s, hit)" "gs_belief_map s = Some b" by blast
  have "sar_reachable search_site search_targets search_sensor (Some (f64_lit (1 / 2))) ([(searcher, ''a'')], ?s0, None)"
    by (rule start_belief) simp
  then have "sar_reachable search_site search_targets search_sensor (Some (f64_lit (1 / 2))) ([(with_registry (complete_scanned [''t'']) searcher, ''a'')], s, None)"
    using search_tick [OF cells(2) s(1)] by (rule scans)
  from sar_belief_is_probability [OF this] s show ?thesis by (simp add: unit_f64_def search_sensor_def sensor_new_v2_def)
qed

end
