(* ===== verification/FieldMissions.thy ===== *)
theory FieldMissions
  imports SearchGrid MissionIr
begin

text \<open>
  Inspection and wildfire missions: the graphs of \<open>swarm-types/src/edge.rs\<close>, the states of \<open>swarm-sim/src/runner/types.rs\<close>, and the steps of
  the runner that record visits of edges (\<open>internal/inspection.rs\<close>) and map zones under a spreading threat (\<open>internal/wildfire.rs\<close>).
\<close>

section \<open>Inspection graphs\<close>

type_synonym EdgeId = string

record InspectionEdgeData =
  ie_id :: EdgeId
  ie_from :: Pose
  ie_to :: Pose
  ie_length_m :: f64
  ie_priority :: u8

record InspectionGraph =
  ig_edges :: "InspectionEdgeData list"
  ig_depot :: Pose

definition flat_pose :: "f64 \<Rightarrow> f64 \<Rightarrow> Pose" where
  "flat_pose x y = default_pose\<lparr>px := x, py := y\<rparr>"

definition make_edge :: "string \<Rightarrow> nat \<Rightarrow> f64 \<times> f64 \<Rightarrow> f64 \<times> f64 \<Rightarrow> f64 \<Rightarrow> InspectionEdgeData" where
  "make_edge name i a b len =
     \<lparr>ie_id = name @ show_nat i, ie_from = flat_pose (fst a) (snd a), ie_to = flat_pose (fst b) (snd b), ie_length_m = len, ie_priority = 1\<rparr>"

text \<open>\<open>i as f64 * cell\<close>.\<close>

definition steps_of :: "nat \<Rightarrow> f64 \<Rightarrow> f64" where
  "steps_of i cell = f64_mul (f64_of_nat i) cell"

definition linear_route :: "u32 \<Rightarrow> f64 \<Rightarrow> InspectionGraph" where
  "linear_route n_segments cell =
     \<lparr>ig_edges = map (\<lambda>i. make_edge ''edge-'' i (steps_of i cell, f64_zero) (steps_of (i + 1) cell, f64_zero) cell) [0..<unat n_segments],
      ig_depot = default_pose\<rparr>"

definition grid_perimeter :: "u32 \<Rightarrow> u32 \<Rightarrow> f64 \<Rightarrow> InspectionGraph" where
  "grid_perimeter width height cell =
     (let w = steps_of (unat width) cell; h = steps_of (unat height) cell;
          bottom = map (\<lambda>i. make_edge ''edge-bottom-'' i (steps_of i cell, f64_zero) (steps_of (i + 1) cell, f64_zero) cell) [0..<unat width];
          right = map (\<lambda>i. make_edge ''edge-right-'' i (w, steps_of i cell) (w, steps_of (i + 1) cell) cell) [0..<unat height];
          top = map (\<lambda>i. make_edge ''edge-top-'' i (f64_sub w (steps_of i cell), h) (f64_sub w (steps_of (i + 1) cell), h) cell) [0..<unat width];
          left = map (\<lambda>i. make_edge ''edge-left-'' i (f64_zero, f64_sub h (steps_of i cell)) (f64_zero, f64_sub h (steps_of (i + 1) cell)) cell) [0..<unat height]
      in \<lparr>ig_edges = bottom @ right @ top @ left, ig_depot = default_pose\<rparr>)"

section \<open>Visits of edges\<close>

record InspectionState =
  is_graph :: InspectionGraph
  is_covered :: "EdgeId set"
  visit_counts :: "(EdgeId, u32) hmap"

definition inspection_new :: "InspectionGraph \<Rightarrow> InspectionState" where
  "inspection_new g = \<lparr>is_graph = g, is_covered = {}, visit_counts = []\<rparr>"

datatype FieldEvent =
  EvEdgeVisited EdgeId AgentId u64
| EvAgentObservation AgentId string u64
| EvFieldTaskCompleted TaskId AgentId u64
| EvHazardMapUpdated string f64 u8 u64
| EvTaskPriorityUpdated TaskId u8 u8 u64
| EvPriorityReallocationRequested TaskId u8 u8 "AgentId option" u64
| EvPriorityTaskReleased TaskId u8 u8 "AgentId option" u64

type_synonym field_log = "FieldEvent list option"

definition field_push :: "FieldEvent list \<Rightarrow> field_log \<Rightarrow> field_log" where
  "field_push es lg = map_option (\<lambda>l. l @ es) lg"

text \<open>One visit: the count of the edge, the set of covered edges, and whether it was a revisit.\<close>

definition visit_edge :: "EdgeId \<Rightarrow> InspectionState \<times> u64 \<Rightarrow> InspectionState \<times> u64" where
  "visit_edge e acc = (case acc of (s, revisits) \<Rightarrow>
     (s\<lparr>visit_counts := hm_insert e ((case hm_get (visit_counts s) e of Some k \<Rightarrow> k | None \<Rightarrow> 0) + 1) (visit_counts s),
        is_covered := insert e (is_covered s)\<rparr>,
      if e \<in> is_covered s then revisits + 1 else revisits))"

definition find_edge :: "EdgeId \<Rightarrow> InspectionState \<Rightarrow> InspectionEdgeData option" where
  "find_edge e s = find (\<lambda>x. ie_id x = e) (ig_edges (is_graph s))"

text \<open>The edge a task makes its agent visit now, if any.\<close>

definition edge_in_reach :: "AgentEntry option \<Rightarrow> Task \<Rightarrow> InspectionState \<Rightarrow> EdgeId option" where
  "edge_in_reach entry t s =
     (case (t_edge_id t, entry) of
        (Some e, Some a) \<Rightarrow>
          (case find_edge e s of
             None \<Rightarrow> None
           | Some edge \<Rightarrow>
               let task_pose = (case t_pose t of Some p \<Rightarrow> p | None \<Rightarrow> e_pose a);
                   threshold = f64_max (f64_mul (ie_length_m edge) (of_exact (1 / 10))) (f64_lit 1)
               in if f64_lt (distance_to (e_pose a) task_pose) threshold then Some e else None)
      | _ \<Rightarrow> None)"

type_synonym inspection_acc = "InspectionState \<times> u64 \<times> field_log \<times> TaskRegistry"

definition inspect_task :: "u64 \<Rightarrow> AgentId \<Rightarrow> AgentEntry option \<Rightarrow> Task \<Rightarrow> inspection_acc \<Rightarrow> inspection_acc" where
  "inspect_task now a entry t acc = (case acc of (s, revisits, lg, r) \<Rightarrow>
     (case edge_in_reach entry t s of
        None \<Rightarrow> (s, revisits, lg, r)
      | Some e \<Rightarrow>
          let sr = visit_edge e (s, revisits)
          in (fst sr, snd sr, field_push [EvEdgeVisited e a now, EvFieldTaskCompleted (t_id t) a now] lg, fst (complete_assigned_task r (t_id t)))))"

definition assigned_to_agent :: "AgentId \<Rightarrow> (Task \<Rightarrow> bool) \<Rightarrow> ('tr, 'dt) AgentNode \<Rightarrow> Task list" where
  "assigned_to_agent a P n = filter P (filter (\<lambda>t. t_assigned_to t = Some a) (hm_values (tasks (registry (coordinator n)))))"

fun inspect_nodes ::
    "u64 \<Rightarrow> AgentId set \<Rightarrow> (('tr, 'dt) AgentNode \<times> AgentId) list \<Rightarrow> InspectionState \<times> u64 \<times> field_log \<Rightarrow>
     (('tr, 'dt) AgentNode \<times> AgentId) list \<times> InspectionState \<times> u64 \<times> field_log" where
  "inspect_nodes now crashed [] acc = ([], acc)"
| "inspect_nodes now crashed ((n, a) # ns) (s, revisits, lg) =
     (if a \<in> crashed then apfst (Cons (n, a)) (inspect_nodes now crashed ns (s, revisits, lg))
      else case fold (inspect_task now a (hm_get (agents (membership (coordinator n))) a)) (assigned_to_agent a (\<lambda>t. t_edge_id t \<noteq> None) n)
             (s, revisits, lg, registry (coordinator n)) of
           (s', revisits', lg', r') \<Rightarrow> apfst (Cons (with_registry (\<lambda>_. r') n, a)) (inspect_nodes now crashed ns (s', revisits', lg')))"

definition record_inspection_edge_visits ::
    "u64 \<Rightarrow> AgentId set \<Rightarrow> (('tr, 'dt) AgentNode \<times> AgentId) list \<Rightarrow> InspectionState \<Rightarrow> field_log \<Rightarrow>
     (('tr, 'dt) AgentNode \<times> AgentId) list \<times> InspectionState \<times> u64 \<times> field_log" where
  "record_inspection_edge_visits now crashed nodes s lg = inspect_nodes now crashed nodes (s, 0, lg)"

definition inspection_complete :: "InspectionState \<Rightarrow> bool" where
  "inspection_complete s = (card (is_covered s) = length (ig_edges (is_graph s)))"

section \<open>Wildfire mapping\<close>

record WildfireZone =
  wz_id :: string
  wz_threat :: f64
  wz_priority :: u8

record WildfireState =
  wf_zones :: "WildfireZone list"
  mapped_zone_ids :: "string set"
  update_interval_ticks :: u64
  enable_dynamic_threat :: bool
  enable_zone_expansion :: bool
  enable_spatial_spread :: bool

record PriorityReallocationRequest =
  pr_task_id :: TaskId
  pr_old_priority :: u8
  pr_new_priority :: u8
  pr_previous_agent_id :: "AgentId option"
  pr_tick :: u64

record WildfireTickMetrics =
  wm_priority_updates :: u64
  wm_high_priority_zones_mapped :: u64
  wm_time_to_map_first_high_risk :: "u64 option"
  wm_zone_observations :: u64
  wm_avg_threat_level :: f64
  wm_requests :: "PriorityReallocationRequest list"

definition no_wildfire_metrics :: WildfireTickMetrics where
  "no_wildfire_metrics = \<lparr>wm_priority_updates = 0, wm_high_priority_zones_mapped = 0, wm_time_to_map_first_high_risk = None,
     wm_zone_observations = 0, wm_avg_threat_level = f64_zero, wm_requests = []\<rparr>"

text \<open>A zone mapped for the first time.\<close>

definition note_mapped :: "u64 \<Rightarrow> bool \<Rightarrow> string \<Rightarrow> WildfireState \<Rightarrow> WildfireTickMetrics \<Rightarrow> WildfireTickMetrics" where
  "note_mapped now already zid w m =
     (case find (\<lambda>z. wz_id z = zid) (wf_zones w) of
        None \<Rightarrow> m
      | Some z \<Rightarrow> if 5 \<le> wz_priority z
          then m\<lparr>wm_high_priority_zones_mapped := wm_high_priority_zones_mapped m + 1,
                 wm_time_to_map_first_high_risk := (if \<not> already \<and> wm_time_to_map_first_high_risk m = None then Some now
                   else wm_time_to_map_first_high_risk m)\<rparr>
          else m)"

type_synonym wildfire_acc = "WildfireState \<times> WildfireTickMetrics \<times> field_log \<times> TaskRegistry"

definition map_zone :: "u64 \<Rightarrow> bool \<Rightarrow> AgentId \<Rightarrow> AgentEntry option \<Rightarrow> Task \<Rightarrow> wildfire_acc \<Rightarrow> wildfire_acc" where
  "map_zone now already a entry t acc = (case acc of (w, m, lg, r) \<Rightarrow>
     (case entry of
        None \<Rightarrow> (w, m, lg, r)
      | Some e \<Rightarrow>
          let task_pose = (case t_pose t of Some p \<Rightarrow> p | None \<Rightarrow> e_pose e)
          in if f64_lt (distance_to (e_pose e) task_pose) (f64_lit 1) then
               let m1 = m\<lparr>wm_zone_observations := wm_zone_observations m + 1\<rparr>
               in if t_id t \<in> mapped_zone_ids w then (w, m1, lg, r)
                  else let w1 = w\<lparr>mapped_zone_ids := insert (t_id t) (mapped_zone_ids w)\<rparr>
                       in (w1, note_mapped now already (t_id t) w1 m1,
                           field_push [EvAgentObservation a (t_id t) now, EvFieldTaskCompleted (t_id t) a now] lg, fst (complete_assigned_task r (t_id t)))
             else (w, m, lg, r)))"

fun map_nodes_zones ::
    "u64 \<Rightarrow> bool \<Rightarrow> AgentId set \<Rightarrow> (('tr, 'dt) AgentNode \<times> AgentId) list \<Rightarrow> WildfireState \<times> WildfireTickMetrics \<times> field_log \<Rightarrow>
     (('tr, 'dt) AgentNode \<times> AgentId) list \<times> WildfireState \<times> WildfireTickMetrics \<times> field_log" where
  "map_nodes_zones now already crashed [] acc = ([], acc)"
| "map_nodes_zones now already crashed ((n, a) # ns) (w, m, lg) =
     (if a \<in> crashed then apfst (Cons (n, a)) (map_nodes_zones now already crashed ns (w, m, lg))
      else case fold (map_zone now already a (hm_get (agents (membership (coordinator n))) a)) (assigned_to_agent a (\<lambda>t. t_kind t = Some MappingZone) n)
             (w, m, lg, registry (coordinator n)) of
           (w', m', lg', r') \<Rightarrow> apfst (Cons (with_registry (\<lambda>_. r') n, a)) (map_nodes_zones now already crashed ns (w', m', lg')))"

section \<open>The spreading threat\<close>

definition base_increase :: "(f64 \<times> f64 \<times> f64) option \<Rightarrow> WildfireZone \<Rightarrow> f64" where
  "base_increase wind z =
     (case wind of
        None \<Rightarrow> of_exact (1 / 10)
      | Some (wx, wy, _) \<Rightarrow>
          let magnitude = f64_sqrt (f64_add (f64_mul wx wx) (f64_mul wy wy))
          in if f64_lt f64_zero magnitude \<and> f64_lt (f64_lit (1 / 2)) (wz_threat z)
             then f64_add (of_exact (1 / 10)) (f64_mul magnitude (of_exact (1 / 20))) else of_exact (1 / 10))"

definition spread_neighbors :: "nat \<Rightarrow> nat \<Rightarrow> nat list" where
  "spread_neighbors zone_count i = (if i = 0 then [1] else if i = zone_count - 1 then [i - 1] else [i - 1, i + 1])"

definition spread_from :: "WildfireZone list \<Rightarrow> nat \<Rightarrow> f64 list \<Rightarrow> f64 list" where
  "spread_from zones i incs =
     (if f64_lt (of_exact (4 / 5)) (wz_threat (zones ! i))
      then fold (\<lambda>j cs. if j < length zones then cs[j := f64_add (cs ! j) (of_exact (1 / 20))] else cs) (spread_neighbors (length zones) i) incs
      else incs)"

definition threat_changes :: "(f64 \<times> f64 \<times> f64) option \<Rightarrow> WildfireState \<Rightarrow> f64 list" where
  "threat_changes wind w =
     (let incs = map (base_increase wind) (wf_zones w)
      in if enable_spatial_spread w then fold (spread_from (wf_zones w)) [0..<length (wf_zones w)] incs else incs)"

definition grow_zone :: "WildfireZone \<Rightarrow> f64 \<Rightarrow> WildfireZone" where
  "grow_zone z change =
     (let new_threat = f64_min (f64_add (wz_threat z) change) (f64_lit 1);
          raise = (if f64_lt (of_exact (1 / 5)) (f64_sub new_threat (wz_threat z)) then 2 else 1)
      in z\<lparr>wz_threat := new_threat, wz_priority := min (wz_priority z + raise) 10\<rparr>)"

definition zone_event :: "u64 \<Rightarrow> WildfireZone \<Rightarrow> FieldEvent" where
  "zone_event now z = EvHazardMapUpdated (wz_id z) (wz_threat z) (wz_priority z) now"

text \<open>The tasks of one registry take the priorities of their zones. The accumulator holds the metrics, the log and the tasks a reallocation was
  requested for.\<close>

type_synonym priority_acc = "WildfireTickMetrics \<times> field_log \<times> TaskId set"

definition update_task_priority ::
    "u64 \<Rightarrow> u8 option \<Rightarrow> WildfireZone list \<Rightarrow> Task \<Rightarrow> priority_acc \<Rightarrow> Task \<times> priority_acc" where
  "update_task_priority now threshold zones t acc = (case acc of (m, lg, requested) \<Rightarrow>
     if t_kind t \<noteq> Some MappingZone \<or> t_status t \<in> {Completed, Failed} then (t, acc)
     else case find (\<lambda>z. wz_id z = t_id t) zones of
       None \<Rightarrow> (t, acc)
     | Some z \<Rightarrow>
         let old = t_priority t; t' = t\<lparr>t_priority := wz_priority z\<rparr>
         in if old = wz_priority z then (t', acc)
            else
              let m1 = m\<lparr>wm_priority_updates := wm_priority_updates m + 1\<rparr>;
                  lg1 = field_push [EvTaskPriorityUpdated (t_id t) old (wz_priority z) now] lg
              in (case threshold of
                    None \<Rightarrow> (t', m1, lg1, requested)
                  | Some th \<Rightarrow>
                      if old < th \<and> th \<le> wz_priority z \<and> t_id t \<notin> requested
                      then (t', m1\<lparr>wm_requests := wm_requests m1 @ [\<lparr>pr_task_id = t_id t, pr_old_priority = old, pr_new_priority = wz_priority z,
                              pr_previous_agent_id = t_assigned_to t, pr_tick = now\<rparr>]\<rparr>,
                            field_push [EvPriorityReallocationRequested (t_id t) old (wz_priority z) (t_assigned_to t) now] lg1, insert (t_id t) requested)
                      else (t', m1, lg1, requested)))"

fun update_task_priorities ::
    "u64 \<Rightarrow> u8 option \<Rightarrow> WildfireZone list \<Rightarrow> (TaskId, Task) hmap \<Rightarrow> priority_acc \<Rightarrow> (TaskId, Task) hmap \<times> priority_acc" where
  "update_task_priorities now threshold zones [] acc = ([], acc)"
| "update_task_priorities now threshold zones ((k, t) # ts) acc =
     (let (t', acc') = update_task_priority now threshold zones t acc
      in apfst (Cons (k, t')) (update_task_priorities now threshold zones ts acc'))"

fun update_node_priorities ::
    "u64 \<Rightarrow> u8 option \<Rightarrow> WildfireZone list \<Rightarrow> (('tr, 'dt) AgentNode \<times> AgentId) list \<Rightarrow> priority_acc \<Rightarrow> (('tr, 'dt) AgentNode \<times> AgentId) list \<times> priority_acc" where
  "update_node_priorities now threshold zones [] acc = ([], acc)"
| "update_node_priorities now threshold zones ((n, a) # ns) acc =
     (let (ts, acc') = update_task_priorities now threshold zones (tasks (registry (coordinator n))) acc
      in apfst (Cons (with_registry (\<lambda>r. r\<lparr>tasks := ts\<rparr>) n, a)) (update_node_priorities now threshold zones ns acc'))"

definition update_dynamic_threat ::
    "(f64 \<times> f64 \<times> f64) option \<Rightarrow> u8 option \<Rightarrow> u64 \<Rightarrow>
     (('tr, 'dt) AgentNode \<times> AgentId) list \<times> WildfireState \<times> WildfireTickMetrics \<times> field_log \<Rightarrow>
     (('tr, 'dt) AgentNode \<times> AgentId) list \<times> WildfireState \<times> WildfireTickMetrics \<times> field_log" where
  "update_dynamic_threat wind threshold now st = (case st of (nodes, w, m, lg) \<Rightarrow>
     if \<not> enable_dynamic_threat w \<or> now = 0 \<or> update_interval_ticks w = 0 \<or> now mod update_interval_ticks w \<noteq> 0 then (nodes, w, m, lg)
     else
       let zones = map2 grow_zone (wf_zones w) (threat_changes wind w); w1 = w\<lparr>wf_zones := zones\<rparr>;
           lg1 = field_push (map (zone_event now) zones) lg
       in (case update_node_priorities now threshold zones nodes (m, lg1, {}) of
             (nodes', m', lg', _) \<Rightarrow> (nodes', w1, m', lg')))"

definition average_threat_level :: "WildfireState \<Rightarrow> f64" where
  "average_threat_level w = (if wf_zones w = [] then f64_zero
     else f64_div (foldl f64_add f64_zero (map wz_threat (wf_zones w))) (f64_of_nat (length (wf_zones w))))"

definition process_wildfire_mapping_tick ::
    "(f64 \<times> f64 \<times> f64) option \<Rightarrow> u8 option \<Rightarrow> u64 \<Rightarrow> bool \<Rightarrow> AgentId set \<Rightarrow>
     (('tr, 'dt) AgentNode \<times> AgentId) list \<Rightarrow> WildfireState \<Rightarrow> field_log \<Rightarrow>
     (('tr, 'dt) AgentNode \<times> AgentId) list \<times> WildfireState \<times> WildfireTickMetrics \<times> field_log" where
  "process_wildfire_mapping_tick wind threshold now already crashed nodes w lg =
     (case update_dynamic_threat wind threshold now (map_nodes_zones now already crashed nodes (w, no_wildfire_metrics, lg)) of
        (nodes', w', m', lg') \<Rightarrow> (nodes', w', m'\<lparr>wm_avg_threat_level := average_threat_level w'\<rparr>, lg'))"

section \<open>Accounting for visits\<close>

fun visited_edge :: "FieldEvent \<Rightarrow> EdgeId option" where
  "visited_edge (EvEdgeVisited e _ _) = Some e"
| "visited_edge _ = None"

definition visits :: "FieldEvent list \<Rightarrow> EdgeId list" where
  "visits l = List.map_filter visited_edge l"

lemma visits_append [simp]: "visits (l @ l') = visits l @ visits l'"
  by (simp add: visits_def List.map_filter_def)

lemma visits_one [simp]: "visits [EvEdgeVisited e a now, EvFieldTaskCompleted t a now] = [e]" "visits [] = []"
  by (simp_all add: visits_def List.map_filter_def)

definition inspected :: "InspectionGraph \<Rightarrow> InspectionState \<Rightarrow> u64 \<Rightarrow> FieldEvent list \<Rightarrow> bool" where
  "inspected g s revisits l \<longleftrightarrow> is_graph s = g \<and> is_covered s = set (visits l) \<and> set (visits l) \<subseteq> ie_id ` set (ig_edges g) \<and>
     (\<forall>e. hm_get (visit_counts s) e = (if e \<in> set (visits l) then Some (of_nat (count_list (visits l) e)) else None)) \<and>
     revisits = of_nat (length (visits l) - card (set (visits l)))"

lemma inspected_visit:
  assumes "inspected g s (base + revisits) l" "e \<in> ie_id ` set (ig_edges g)"
  shows "inspected g (fst (visit_edge e (s, revisits))) (base + snd (visit_edge e (s, revisits))) (l @ [EvEdgeVisited e a now, EvFieldTaskCompleted t a now])"
proof -
  let ?vs = "visits l"
  have len: "card (set ?vs) \<le> length ?vs" by (rule card_length)
  have rev: "base + snd (visit_edge e (s, revisits)) = of_nat (length (?vs @ [e]) - card (set (?vs @ [e])))"
  proof (cases "e \<in> set ?vs")
    case True
    then have "card (set (?vs @ [e])) = card (set ?vs)" by (simp add: insert_absorb)
    moreover have "e \<in> is_covered s" using True assms(1) by (simp add: inspected_def)
    moreover have "length (?vs @ [e]) - card (set ?vs) = Suc (length ?vs - card (set ?vs))" using len by simp
    moreover have "base + (revisits + 1) = of_nat (length ?vs - card (set ?vs)) + 1" using assms(1) by (simp add: inspected_def add.assoc [symmetric])
    ultimately show ?thesis by (simp only: visit_edge_def prod.case snd_conv if_True of_nat_Suc add.commute [of 1])
  next
    case False
    then have "e \<notin> is_covered s" using assms(1) by (simp add: inspected_def)
    then show ?thesis using False assms(1) by (simp add: visit_edge_def inspected_def)
  qed
  have zero: "count_list ?vs e = 0" if "e \<notin> set ?vs" using that by (simp add: count_list_0_iff)
  have counts: "hm_get (visit_counts (fst (visit_edge e (s, revisits)))) x = (if x \<in> set (?vs @ [e]) then Some (of_nat (count_list (?vs @ [e]) x)) else None)" for x
    using assms(1) zero by (cases "x = e"; cases "e \<in> set ?vs") (simp_all add: inspected_def visit_edge_def)
  have frame: "is_graph (fst (visit_edge e (s, revisits))) = is_graph s" "is_covered (fst (visit_edge e (s, revisits))) = insert e (is_covered s)"
    by (simp_all add: visit_edge_def)
  show ?thesis
    unfolding inspected_def visits_append visits_one using assms counts rev frame by (simp add: inspected_def)
qed

lemma inspect_task_keeps:
  assumes "inspect_task now a entry t (s, revisits, Some l, r) = (s', revisits', lg', r')" "inspected g s (base + revisits) l"
  shows "\<exists>l'. lg' = Some l' \<and> inspected g s' (base + revisits') l'"
proof (cases "edge_in_reach entry t s")
  case None
  then show ?thesis using assms by (auto simp: inspect_task_def)
next
  case (Some e)
  then have "find_edge e s \<noteq> None" by (auto simp: edge_in_reach_def Let_def split: option.splits if_splits)
  then have "e \<in> ie_id ` set (ig_edges g)" using assms(2) by (auto simp: find_edge_def inspected_def find_Some_iff set_conv_nth)
  from inspected_visit [OF assms(2) this, of a now "t_id t"] assms(1) Some show ?thesis by (simp add: inspect_task_def field_push_def Let_def) blast
qed

lemma inspect_tasks_keeps:
  "fold (inspect_task now a entry) ts (s, revisits, Some l, r) = (s', revisits', lg', r') \<Longrightarrow> inspected g s (base + revisits) l \<Longrightarrow>
   \<exists>l'. lg' = Some l' \<and> inspected g s' (base + revisits') l'"
proof (induction ts arbitrary: s revisits l r)
  case (Cons t ts)
  obtain s1 rev1 lg1 r1 where one: "inspect_task now a entry t (s, revisits, Some l, r) = (s1, rev1, lg1, r1)" by (metis surj_pair)
  then obtain l1 where "lg1 = Some l1" "inspected g s1 (base + rev1) l1" using inspect_task_keeps Cons.prems(2) by blast
  then show ?case using Cons.IH [of s1 rev1 l1 r1] Cons.prems(1) one by simp
qed auto

lemma inspect_nodes_keeps:
  "inspect_nodes now crashed ns (s, revisits, Some l) = (ns', s', revisits', lg') \<Longrightarrow> inspected g s (base + revisits) l \<Longrightarrow>
   \<exists>l'. lg' = Some l' \<and> inspected g s' (base + revisits') l'"
proof (induction ns arbitrary: s revisits l ns')
  case (Cons na ns)
  obtain n a where na: "na = (n, a)" by (cases na)
  show ?case
  proof (cases "a \<in> crashed")
    case True
    then show ?thesis using Cons na by (auto simp: apfst_def map_prod_def split: prod.splits)
  next
    case False
    obtain s1 rev1 lg1 r1 where f: "fold (inspect_task now a (hm_get (agents (membership (coordinator n))) a)) (assigned_to_agent a (\<lambda>t. t_edge_id t \<noteq> None) n)
        (s, revisits, Some l, registry (coordinator n)) = (s1, rev1, lg1, r1)" by (metis surj_pair)
    then obtain l1 where "lg1 = Some l1" "inspected g s1 (base + rev1) l1" using inspect_tasks_keeps Cons.prems(2) by blast
    then show ?thesis using Cons.IH [of s1 rev1 l1] Cons.prems(1) f False by (auto simp: na apfst_def map_prod_def split: prod.splits)
  qed
qed auto

text \<open>An inspection mission with a log: the step of each tick adds its revisits to a running sum; the rest of a tick changes nodes and logs
  other events.\<close>

inductive inspection_run ::
    "InspectionGraph \<Rightarrow> (('tr, 'dt) AgentNode \<times> AgentId) list \<times> InspectionState \<times> u64 \<times> FieldEvent list \<Rightarrow> bool"
  for g where
  begin_run: "inspection_run g (nodes, inspection_new g, 0, [])"
| visit_step: "inspection_run g (nodes, s, n, l) \<Longrightarrow>
    record_inspection_edge_visits now crashed nodes s (Some l) = (nodes', s', k, Some l') \<Longrightarrow> inspection_run g (nodes', s', n + k, l')"
| other_step: "inspection_run g (nodes, s, n, l) \<Longrightarrow> visits es = [] \<Longrightarrow> inspection_run g (nodes', s, n, l @ es)"

lemma inspection_run_inspected: "inspection_run g st \<Longrightarrow> inspected g (fst (snd st)) (fst (snd (snd st))) (snd (snd (snd st)))"
proof (induction rule: inspection_run.induct)
  case (visit_step nodes s n l now crashed nodes' s' k l')
  then show ?case using inspect_nodes_keeps [of now crashed nodes s 0 l nodes' s' k "Some l'" g n] by (simp add: record_inspection_edge_visits_def)
qed (simp_all add: inspected_def inspection_new_def)

text \<open>(C34) Inspection accounting. At every tick the covered edges are those whose visits the log records, all of them edges of the graph; the
  counter of an edge is the number of its visits and the revisit counter the visits beyond the first of each edge; and when the mission counts as
  complete, every edge of the graph has been visited and no two edges share an identifier.\<close>

theorem inspection_accounting:
  assumes "inspection_run g (nodes, s, revisits, l)"
  shows "is_covered s = set (visits l) \<and> is_covered s \<subseteq> ie_id ` set (ig_edges g) \<and>
    (\<forall>e. hm_get (visit_counts s) e = (if e \<in> set (visits l) then Some (of_nat (count_list (visits l) e)) else None)) \<and>
    revisits = of_nat (length (visits l) - card (set (visits l))) \<and>
    (inspection_complete s \<longrightarrow> is_covered s = ie_id ` set (ig_edges g) \<and> distinct (map ie_id (ig_edges g)))"
proof -
  have i: "inspected g s revisits l" using inspection_run_inspected [OF assms] by simp
  have "is_covered s = ie_id ` set (ig_edges g) \<and> distinct (map ie_id (ig_edges g))" if "inspection_complete s"
  proof -
    have sub: "is_covered s \<subseteq> set (map ie_id (ig_edges g))" using i by (auto simp: inspected_def)
    have len: "length (map ie_id (ig_edges g)) = card (is_covered s)" using that i by (simp add: inspection_complete_def inspected_def)
    then have "card (set (map ie_id (ig_edges g))) = length (map ie_id (ig_edges g))"
      using card_mono [OF _ sub] card_length [of "map ie_id (ig_edges g)"] by simp
    moreover from this have "is_covered s = set (map ie_id (ig_edges g))" using card_subset_eq [OF _ sub] len by simp
    ultimately show ?thesis using card_distinct by fastforce
  qed
  then show ?thesis using i by (auto simp: inspected_def)
qed

section \<open>The threat never falls\<close>

text \<open>A threat level is a representable number between zero and one; a priority is at most ten.\<close>

definition zone_ok :: "WildfireZone \<Rightarrow> bool" where
  "zone_ok z \<longleftrightarrow> unit_f64 (wz_threat z) \<and> round_mag (mag (wz_threat z)) = mag (wz_threat z) \<and> wz_priority z \<le> 10"

definition zone_grows :: "WildfireZone \<Rightarrow> WildfireZone \<Rightarrow> bool" where
  "zone_grows z z' \<longleftrightarrow> wz_id z' = wz_id z \<and> f64_le (wz_threat z) (wz_threat z') \<and> wz_priority z \<le> wz_priority z'"

definition increment :: "f64 \<Rightarrow> bool" where
  "increment c \<longleftrightarrow> nonneg c \<and> \<not> is_nan c"

lemma f64_round_not_nan [simp]: "\<not> is_nan (f64_round s m)"
  unfolding f64_round_mag by (simp only: is_nan_simps split: if_split) simp

lemma increment_round: "0 \<le> m \<Longrightarrow> increment (f64_round False m)"
  by (simp add: increment_def nonneg_round)

lemma increment_add:
  assumes "increment a" "increment b"
  shows "increment (f64_add a b)"
proof -
  have "nonneg (f64_add a b)" using assms by (simp add: increment_def nonneg_add)
  moreover have "\<not> is_nan (f64_add a b)"
    using assms by (cases a; cases b) (simp_all add: increment_def nonneg_def of_exact_def Let_def)
  ultimately show ?thesis by (simp add: increment_def)
qed

lemma increment_of_exact: "0 \<le> q \<Longrightarrow> increment (of_exact q)"
  by (simp add: of_exact_def increment_round)

lemma square_nonneg: "nonneg (f64_mul x x)"
  by (cases x) (auto simp: nonneg_round, auto simp: nonneg_def)

lemma base_increase_ok: "increment (base_increase wind z)"
proof -
  have tenth: "increment (of_exact (1 / 10))" by (simp add: increment_of_exact)
  have "2 powi (- 5) \<le> (1 / 20 :: rat)" by (simp add: power_int_minus)
  then have "2 powi (- 5) \<le> round_mag (1 / 20)" by (rule round_mag_ge [rotated]) simp
  moreover have "(0 :: rat) < 2 powi (- 5)" by (rule zero_less_power_int) simp
  ultimately have pos: "0 < round_mag (1 / 20)" by linarith
  define r where "r = round_mag (1 / 20)"
  have r: "of_exact (1 / 20) = Fin False r" "0 < r" using pos by (simp_all add: of_exact_def round_mag_unit r_def)
  have prod: "increment (f64_mul m (of_exact (1 / 20)))" if "f64_lt f64_zero m" "nonneg m" for m
  proof (cases m)
    case (Fin s x)
    then have "\<not> s" "0 \<le> x" using that(2) by (simp_all add: nonneg_def)
    then show ?thesis using r by (simp add: Fin increment_round)
  qed (use that r in \<open>auto simp: f64_lt_def increment_def nonneg_def\<close>)
  have "nonneg (f64_sqrt (f64_add (f64_mul wx wx) (f64_mul wy wy)))" for wx wy
    by (intro nonneg_sqrt nonneg_add square_nonneg)
  then show ?thesis
    using tenth prod by (auto simp: base_increase_def Let_def increment_add split: option.splits)
qed

definition increments :: "nat \<Rightarrow> f64 list \<Rightarrow> bool" where
  "increments n cs \<longleftrightarrow> (\<forall>c\<in>set cs. increment c) \<and> length cs = n"

lemma increments_update: "increments n cs \<Longrightarrow> j < n \<Longrightarrow> increments n (cs[j := f64_add (cs ! j) (of_exact (1 / 20))])"
  by (auto simp: increments_def increment_add increment_of_exact dest!: subsetD [OF set_update_subset_insert])

lemma spread_from_ok: "increments (length zones) cs \<Longrightarrow> increments (length zones) (spread_from zones i cs)"
  unfolding spread_from_def
  by (simp only: split: if_split) (intro conjI impI fold_invariant [where P = "increments (length zones)" and Q = "\<lambda>_. True"]; simp add: increments_update)

lemma threat_changes_ok: "increments (length (wf_zones w)) (threat_changes wind w)"
proof -
  have "increments (length (wf_zones w)) (map (base_increase wind) (wf_zones w))" by (simp add: increments_def base_increase_ok)
  then show ?thesis
    unfolding threat_changes_def Let_def
    by (simp only: split: if_split)
      (intro conjI impI fold_invariant [where P = "increments (length (wf_zones w))" and Q = "\<lambda>_. True"]; simp add: spread_from_ok)
qed

lemma priority_raise:
  assumes "(p :: u8) \<le> 10" "r \<in> {1, 2}"
  shows "p \<le> min (p + r) 10 \<and> min (p + r) 10 \<le> 10"
proof -
  have "unat p \<le> 10" using assms(1) by (simp add: word_le_nat_alt)
  moreover have "unat r \<le> 2" using assms(2) by auto
  ultimately have "unat (p + r) = unat p + unat r" by (simp add: unat_word_ariths take_bit_nat_eq_self)
  then have "p \<le> p + r" by (simp add: word_le_nat_alt)
  then show ?thesis using assms(1) by simp
qed

lemma grown_threat:
  assumes "increment c" "0 \<le> a" "a \<le> 1" "val (Fin s a) = a" "round_mag a = a"
  shows "\<exists>b. f64_min (f64_add (Fin s a) c) (f64_lit 1) = Fin False b \<and> a \<le> b \<and> b \<le> 1 \<and> round_mag b = b \<or>
    f64_min (f64_add (Fin s a) c) (f64_lit 1) = Fin s 0 \<and> a = 0"
proof -
  have one: "round_mag 1 = 1" using round_mag_ge [of 0 1] round_mag_unit(1) [of 1] by simp
  have top: "f64_min (Inf False) (f64_lit 1) = f64_lit 1" by (simp add: f64_min_def f64_lt_def)
  show ?thesis
  proof (cases c)
    case NaN
    then show ?thesis using assms(1) by (simp add: increment_def)
  next
    case (Inf t)
    then have "f64_add (Fin s a) c = Inf False" using assms(1) by (simp add: increment_def nonneg_def)
    then show ?thesis using top one assms(3) by simp
  next
    case (Fin t m)
    then have c: "\<not> t" "0 \<le> m" using assms(1) by (simp_all add: increment_def nonneg_def)
    have sum: "f64_add (Fin s a) c = (if a + m = 0 then Fin False 0 else f64_round False (a + m))"
      using c assms(2,4) by (simp add: Fin val_def [of "Fin False m"] of_exact_def Let_def)
    have mono: "a \<le> round_mag (a + m)" using round_mag_mono [OF assms(2), of "a + m"] c(2) assms(5) by simp
    consider "a + m = 0" | "f64_add (Fin s a) c = Inf False" | "f64_add (Fin s a) c = Fin False (round_mag (a + m))"
      using sum by (auto simp: f64_round_mag simp del: power_numeral split: if_splits)
    then show ?thesis
    proof cases
      case 1
      then have "a = 0" "f64_add (Fin s a) c = f64_zero" using sum c(2) assms(2) by simp_all
      then show ?thesis by (simp add: f64_min_def f64_lt_def round_mag_def)
    next
      case 2
      then show ?thesis using top one assms(3) by simp
    next
      case 3
      have "round_mag (round_mag (a + m)) = round_mag (a + m)" using assms(2) c(2) by (intro round_mag_idem) simp
      then show ?thesis using 3 mono one assms(3) by (simp add: f64_min_def f64_lt_def)
    qed
  qed
qed

lemma grow_zone_ok:
  assumes "zone_ok z" "increment c"
  shows "zone_ok (grow_zone z c) \<and> zone_grows z (grow_zone z c)"
proof -
  obtain s a where z: "wz_threat z = Fin s a" "0 \<le> a" "a \<le> 1" "val (Fin s a) = a" "s \<longrightarrow> a = 0" "round_mag a = a"
    using assms(1) by (auto simp: zone_ok_def unit_f64_def val_def split: f64.splits)
  let ?t = "f64_min (f64_add (wz_threat z) c) (f64_lit 1)"
  obtain s' b where t: "?t = Fin s' b" "a \<le> b" "b \<le> 1" "round_mag b = b" "s' \<longrightarrow> b = 0"
    using grown_threat [OF assms(2) z(2,3,4,6)] z(1,6) by auto
  have "f64_le (wz_threat z) ?t" using t z by (auto simp: f64_le_def)
  moreover have "wz_priority z \<le> 10" using assms(1) by (simp add: zone_ok_def)
  ultimately show ?thesis
    using t z(2) priority_raise [of "wz_priority z"] by (auto simp: grow_zone_def Let_def zone_ok_def zone_grows_def unit_f64_def)
qed

text \<open>Mapping zones leaves the zones alone and only adds mapped identifiers.\<close>

lemma map_zone_zones:
  "map_zone now already a entry t (w, m, lg, r) = (w', m', lg', r') \<Longrightarrow> wf_zones w' = wf_zones w \<and> mapped_zone_ids w \<subseteq> mapped_zone_ids w'"
  by (auto simp: map_zone_def Let_def split: option.splits if_splits)

lemma map_zones_zones:
  "fold (map_zone now already a entry) ts (w, m, lg, r) = (w', m', lg', r') \<Longrightarrow> wf_zones w' = wf_zones w \<and> mapped_zone_ids w \<subseteq> mapped_zone_ids w'"
proof (induction ts arbitrary: w m lg r)
  case (Cons t ts)
  obtain w1 m1 lg1 r1 where one: "map_zone now already a entry t (w, m, lg, r) = (w1, m1, lg1, r1)" by (metis surj_pair)
  then show ?case using Cons.IH [of w1 m1 lg1 r1] Cons.prems map_zone_zones [OF one] by auto
qed simp

lemma map_nodes_zones_zones:
  "map_nodes_zones now already crashed ns (w, m, lg) = (ns', w', m', lg') \<Longrightarrow> wf_zones w' = wf_zones w \<and> mapped_zone_ids w \<subseteq> mapped_zone_ids w'"
proof (induction ns arbitrary: w m lg ns')
  case (Cons na ns)
  obtain n a where na: "na = (n, a)" by (cases na)
  show ?case
  proof (cases "a \<in> crashed")
    case True
    then show ?thesis using Cons by (auto simp: na apfst_def map_prod_def split: prod.splits)
  next
    case False
    obtain w1 m1 lg1 r1 where f: "fold (map_zone now already a (hm_get (agents (membership (coordinator n))) a))
        (assigned_to_agent a (\<lambda>t. t_kind t = Some MappingZone) n) (w, m, lg, registry (coordinator n)) = (w1, m1, lg1, r1)" by (metis surj_pair)
    then show ?thesis
      using Cons.IH [of w1 m1 lg1] Cons.prems False map_zones_zones [OF f] by (auto simp: na apfst_def map_prod_def split: prod.splits)
  qed
qed simp

lemma update_dynamic_threat_zones:
  assumes "update_dynamic_threat wind threshold now (nodes, w, m, lg) = (nodes', w', m', lg')"
  shows "(wf_zones w' = wf_zones w \<or> (\<exists>cs. increments (length (wf_zones w)) cs \<and> wf_zones w' = map2 grow_zone (wf_zones w) cs)) \<and>
    mapped_zone_ids w' = mapped_zone_ids w"
  using assms threat_changes_ok [of w wind] by (auto simp: update_dynamic_threat_def Let_def split: if_splits prod.splits)

text \<open>A wildfire mission: mapping steps, and the rest of the ticks, which changes nodes only.\<close>

inductive wildfire_run ::
    "WildfireState \<Rightarrow> (('tr, 'dt) AgentNode \<times> AgentId) list \<times> WildfireState \<Rightarrow> bool"
  for w0 where
  wf_start: "wildfire_run w0 (nodes, w0)"
| wf_step: "wildfire_run w0 (nodes, w) \<Longrightarrow>
    process_wildfire_mapping_tick wind threshold now already crashed nodes w lg = (nodes', w', m', lg') \<Longrightarrow> wildfire_run w0 (nodes', w')"
| wf_other: "wildfire_run w0 (nodes, w) \<Longrightarrow> wildfire_run w0 (nodes', w)"

lemma zone_grows_refl: "zone_ok z \<Longrightarrow> zone_grows z z"
  by (auto simp: zone_ok_def unit_f64_def zone_grows_def split: f64.splits)

lemma zone_grows_trans: "zone_grows x y \<Longrightarrow> zone_grows y z \<Longrightarrow> zone_grows x z"
  by (auto simp: zone_grows_def f64_le_def)

lemma zones_grow_refl: "list_all zone_ok zs \<Longrightarrow> list_all2 zone_grows zs zs"
  by (simp add: list_all_length list_all2_conv_all_nth zone_grows_refl)

lemma grow_zones:
  assumes "list_all zone_ok zs" "increments (length zs) cs"
  shows "list_all zone_ok (map2 grow_zone zs cs) \<and> list_all2 zone_grows zs (map2 grow_zone zs cs)"
  using assms grow_zone_ok by (auto simp: list_all_length list_all2_conv_all_nth increments_def)

text \<open>(C35) A wildfire threat never falls. From zones whose threat is a number between zero and one and whose priority is at most ten, every number of
  mapping ticks, whatever the wind and the spread, keeps the zones in place, keeps these bounds, and lowers neither the threat nor the priority
  of a zone; and a mapped zone stays mapped.\<close>

theorem wildfire_threat_monotone:
  assumes run: "wildfire_run w0 (nodes, w)" and ok: "list_all zone_ok (wf_zones w0)"
  shows "list_all2 zone_grows (wf_zones w0) (wf_zones w) \<and> list_all zone_ok (wf_zones w) \<and> mapped_zone_ids w0 \<subseteq> mapped_zone_ids w"
proof -
  have "list_all2 zone_grows (wf_zones w0) (wf_zones (snd st)) \<and> list_all zone_ok (wf_zones (snd st)) \<and> mapped_zone_ids w0 \<subseteq> mapped_zone_ids (snd st)"
    if "wildfire_run w0 st" for st :: "(('a, 'b) AgentNode \<times> AgentId) list \<times> WildfireState"
    using that
  proof (induction rule: wildfire_run.induct)
    case (wf_start nodes)
    then show ?case using ok zones_grow_refl by simp
  next
    case (wf_step nodes w wind threshold now already crashed lg nodes' w' m' lg')
    obtain n1 w1 m1 lg1 where one: "map_nodes_zones now already crashed nodes (w, no_wildfire_metrics, lg) = (n1, w1, m1, lg1)" by (metis surj_pair)
    obtain n2 w2 m2 lg2 where two: "update_dynamic_threat wind threshold now (n1, w1, m1, lg1) = (n2, w2, m2, lg2)" by (metis surj_pair)
    have w': "w' = w2" using wf_step.hyps(2) one two by (simp add: process_wildfire_mapping_tick_def)
    have z1: "wf_zones w1 = wf_zones w" "mapped_zone_ids w \<subseteq> mapped_zone_ids w1" using map_nodes_zones_zones [OF one] by simp_all
    have ih: "list_all2 zone_grows (wf_zones w0) (wf_zones w)" "list_all zone_ok (wf_zones w)" "mapped_zone_ids w0 \<subseteq> mapped_zone_ids w"
      using wf_step.IH by simp_all
    from update_dynamic_threat_zones [OF two] have "wf_zones w2 = wf_zones w1 \<or>
        (\<exists>cs. increments (length (wf_zones w1)) cs \<and> wf_zones w2 = map2 grow_zone (wf_zones w1) cs)" "mapped_zone_ids w2 = mapped_zone_ids w1" by simp_all
    then have "list_all zone_ok (wf_zones w2) \<and> list_all2 zone_grows (wf_zones w) (wf_zones w2)"
      using grow_zones [OF ih(2)] zones_grow_refl [OF ih(2)] ih(2) z1(1) by auto
    moreover from this have "list_all2 zone_grows (wf_zones w0) (wf_zones w2)"
      using list_all2_trans [of zone_grows zone_grows zone_grows] zone_grows_trans ih(1) by blast
    ultimately show ?case using w' ih(3) z1(2) \<open>mapped_zone_ids w2 = mapped_zone_ids w1\<close> by auto
  qed simp
  from this [OF run] show ?thesis by simp
qed

section \<open>Task priorities follow the zones\<close>

definition follows_zone :: "WildfireZone list \<Rightarrow> Task \<Rightarrow> bool" where
  "follows_zone zones t \<longleftrightarrow> t_kind t = Some MappingZone \<and> t_status t \<notin> {Completed, Failed} \<longrightarrow>
     (\<forall>z. find (\<lambda>z. wz_id z = t_id t) zones = Some z \<longrightarrow> t_priority t = wz_priority z)"

definition requests_ok :: "u8 option \<Rightarrow> priority_acc \<Rightarrow> bool" where
  "requests_ok threshold acc \<longleftrightarrow> (case acc of (m, lg, requested) \<Rightarrow>
     set (map pr_task_id (wm_requests m)) = requested \<and> distinct (map pr_task_id (wm_requests m)) \<and>
     (\<forall>r\<in>set (wm_requests m). \<exists>th. threshold = Some th \<and> pr_old_priority r < th \<and> th \<le> pr_new_priority r))"

lemma update_task_priority_ok:
  assumes "update_task_priority now threshold zones t acc = (t', acc')"
  shows "follows_zone zones t' \<and> (\<exists>p. t' = t\<lparr>t_priority := p\<rparr>) \<and> (requests_ok threshold acc \<longrightarrow> requests_ok threshold acc')"
proof -
  obtain m lg requested where acc: "acc = (m, lg, requested)" by (metis surj_pair)
  have keep: "\<exists>p. t = t\<lparr>t_priority := p\<rparr>" by (rule exI [of _ "t_priority t"]) simp
  show ?thesis
    using assms keep
    by (cases "t_kind t \<noteq> Some MappingZone \<or> t_status t \<in> {Completed, Failed}"; cases "find (\<lambda>z. wz_id z = t_id t) zones"; cases threshold)
      (auto simp: update_task_priority_def acc follows_zone_def requests_ok_def Let_def split: if_splits)
qed

lemma update_task_priorities_ok:
  "update_task_priorities now threshold zones ts acc = (ts', acc') \<Longrightarrow>
   list_all2 (\<lambda>(k, t) (k', t'). k' = k \<and> follows_zone zones t' \<and> (\<exists>p. t' = t\<lparr>t_priority := p\<rparr>)) ts ts' \<and>
   (requests_ok threshold acc \<longrightarrow> requests_ok threshold acc')"
proof (induction ts arbitrary: acc acc' ts')
  case (Cons kt ts)
  obtain k t where kt: "kt = (k, t)" by (cases kt)
  obtain t1 acc1 where one: "update_task_priority now threshold zones t acc = (t1, acc1)" by (cases "update_task_priority now threshold zones t acc")
  obtain ts1 acc2 where two: "update_task_priorities now threshold zones ts acc1 = (ts1, acc2)" by (cases "update_task_priorities now threshold zones ts acc1")
  show ?case using Cons.prems Cons.IH [OF two] update_task_priority_ok [OF one] by (auto simp: kt one two)
qed simp

lemma update_node_priorities_ok:
  "update_node_priorities now threshold zones ns acc = (ns', acc') \<Longrightarrow>
   list_all2 (\<lambda>(n, a) (n', a'). a' = a \<and> (\<exists>ts. n' = with_registry (\<lambda>r. r\<lparr>tasks := ts\<rparr>) n \<and>
     list_all2 (\<lambda>(k, t) (k', t'). k' = k \<and> follows_zone zones t' \<and> (\<exists>p. t' = t\<lparr>t_priority := p\<rparr>)) (tasks (registry (coordinator n))) ts)) ns ns' \<and>
   (requests_ok threshold acc \<longrightarrow> requests_ok threshold acc')"
proof (induction ns arbitrary: acc acc' ns')
  case (Cons na ns)
  obtain n a where na: "na = (n, a)" by (cases na)
  obtain ts acc1 where one: "update_task_priorities now threshold zones (tasks (registry (coordinator n))) acc = (ts, acc1)"
    by (cases "update_task_priorities now threshold zones (tasks (registry (coordinator n))) acc")
  obtain ns1 acc2 where two: "update_node_priorities now threshold zones ns acc1 = (ns1, acc2)" by (cases "update_node_priorities now threshold zones ns acc1")
  show ?case using Cons.prems Cons.IH [OF two] update_task_priorities_ok [OF one] by (auto simp: na one two)
qed simp

text \<open>(C36) Priorities follow the zones. In a tick on which the threat is updated, every unfinished mapping task of every node ends with the priority
  of its zone, and a reallocation is requested at most once per task and only for tasks whose priority crossed the threshold from below.\<close>

theorem wildfire_priorities_follow:
  assumes "update_dynamic_threat wind threshold now (nodes, w, m, lg) = (nodes', w', m', lg')"
    and "enable_dynamic_threat w" "now \<noteq> 0" "update_interval_ticks w \<noteq> 0" "now mod update_interval_ticks w = 0" "wm_requests m = []"
  shows "(\<forall>(n, a)\<in>set nodes'. \<forall>(k, t)\<in>set (tasks (registry (coordinator n))). t_kind t = Some MappingZone \<and> t_status t \<notin> {Completed, Failed} \<longrightarrow>
      (\<forall>z. find (\<lambda>z. wz_id z = t_id t) (wf_zones w') = Some z \<longrightarrow> t_priority t = wz_priority z)) \<and>
    distinct (map pr_task_id (wm_requests m')) \<and>
    (\<forall>r\<in>set (wm_requests m'). \<exists>th. threshold = Some th \<and> pr_old_priority r < th \<and> th \<le> pr_new_priority r)"
proof -
  let ?zones = "map2 grow_zone (wf_zones w) (threat_changes wind w)"
  obtain ns1 m1 lg1 rq1 where u: "update_node_priorities now threshold ?zones nodes (m, field_push (map (zone_event now) ?zones) lg, {}) = (ns1, m1, lg1, rq1)"
    by (metis surj_pair)
  have r: "nodes' = ns1" "m' = m1" "wf_zones w' = ?zones" using assms(1-5) u by (simp_all add: update_dynamic_threat_def Let_def, auto)
  have req: "requests_ok threshold (m1, lg1, rq1)" using update_node_priorities_ok [OF u] assms(6) by (simp add: requests_ok_def)
  have nodes: "list_all2 (\<lambda>(n, a) (n', a'). a' = a \<and> (\<exists>ts. n' = with_registry (\<lambda>r. r\<lparr>tasks := ts\<rparr>) n \<and>
     list_all2 (\<lambda>(k, t) (k', t'). k' = k \<and> follows_zone ?zones t' \<and> (\<exists>p. t' = t\<lparr>t_priority := p\<rparr>)) (tasks (registry (coordinator n))) ts)) nodes ns1"
    using update_node_priorities_ok [OF u] by blast
  have "follows_zone ?zones t" if na: "(n, a) \<in> set ns1" and kt: "(k, t) \<in> set (tasks (registry (coordinator n)))" for n a k t
  proof -
    obtain n0 a0 ts where n: "n = with_registry (\<lambda>r. r\<lparr>tasks := ts\<rparr>) n0"
        "list_all2 (\<lambda>(k, t) (k', t'). k' = k \<and> follows_zone ?zones t' \<and> (\<exists>p. t' = t\<lparr>t_priority := p\<rparr>)) (tasks (registry (coordinator n0))) ts"
      using nodes na by (fastforce simp: in_set_conv_nth list_all2_conv_all_nth)
    then have "(k, t) \<in> set ts" using kt by (simp add: with_registry_def)
    then show ?thesis using n(2) by (fastforce simp: in_set_conv_nth list_all2_conv_all_nth)
  qed
  then show ?thesis using req unfolding r by (fastforce simp: requests_ok_def follows_zone_def)
qed

section \<open>Instances\<close>

definition line_edge :: "EdgeId \<Rightarrow> InspectionEdgeData" where
  "line_edge e = \<lparr>ie_id = e, ie_from = default_pose, ie_to = default_pose, ie_length_m = f64_zero, ie_priority = 1\<rparr>"

definition line_graph :: InspectionGraph where
  "line_graph = \<lparr>ig_edges = [line_edge ''e''], ig_depot = default_pose\<rparr>"

definition inspector :: "TaskId \<Rightarrow> (unit, unit) AgentNode" where
  "inspector t = agent_node_new ''a'' [] (coordinator_new [sample_agent ''a'']
     [sample_task t\<lparr>t_assigned_to := Some ''a'', t_status := Assigned, t_edge_id := Some ''e'', t_kind := Some MappingZone\<rparr>] 3) ()"

lemma inspector_tasks:
  "hm_values (tasks (registry (coordinator (inspector t)))) =
     [sample_task t\<lparr>t_assigned_to := Some ''a'', t_status := Assigned, t_edge_id := Some ''e'', t_kind := Some MappingZone\<rparr>]"
  "hm_get (agents (membership (coordinator (inspector t)))) ''a'' = Some (entry_of_agent (sample_agent ''a''))"
  by (simp_all add: inspector_def agent_node_new_def coordinator_new_def registry_new_def membership_new_def hm_collect_def hm_insert_def hm_get_def
      sample_task_def sample_agent_def)

lemma distance_self: "distance_to default_pose default_pose = f64_zero"
  by (simp add: distance_to_def default_pose_def f64_sub_def val_def f64_round_def [of _ 0])

lemma inspector_reaches:
  "edge_in_reach (Some (entry_of_agent (sample_agent ''a''))) (sample_task t\<lparr>t_assigned_to := Some ''a'', t_status := Assigned, t_edge_id := Some ''e'', t_kind := Some MappingZone\<rparr>)
     (inspection_new line_graph) = Some ''e''"
proof -
  have "f64_lt f64_zero (f64_max (f64_mul f64_zero (of_exact (1 / 10))) (f64_lit 1))"
    by (simp add: of_exact_def round_mag_unit f64_round_def [of _ 0] f64_max_def f64_lt_def)
  then show ?thesis
    by (simp add: edge_in_reach_def find_edge_def inspection_new_def line_graph_def line_edge_def sample_task_def entry_of_agent_def
        sample_agent_def distance_self)
qed

theorem inspection_accounting_witness:
  "\<exists>nodes s. record_inspection_edge_visits 1 {} [(inspector ''t'', ''a'')] (inspection_new line_graph) (Some []) =
       (nodes, s, 0, Some [EvEdgeVisited ''e'' ''a'' 1, EvFieldTaskCompleted ''t'' ''a'' 1]) \<and>
     inspection_complete s \<and> is_covered s = {''e''} \<and> distinct (map ie_id (ig_edges line_graph))"
proof -
  let ?s = "fst (visit_edge ''e'' (inspection_new line_graph, 0))"
  obtain nodes where step: "record_inspection_edge_visits 1 {} [(inspector ''t'', ''a'')] (inspection_new line_graph) (Some []) =
       (nodes, ?s, 0, Some [EvEdgeVisited ''e'' ''a'' 1, EvFieldTaskCompleted ''t'' ''a'' 1])"
    by (simp add: record_inspection_edge_visits_def assigned_to_agent_def inspector_tasks inspect_task_def inspector_reaches field_push_def)
      (simp add: visit_edge_def inspection_new_def sample_task_def Let_def)
  have "inspection_run line_graph ([(inspector ''t'', ''a'')], inspection_new line_graph, 0, [])" by (rule begin_run)
  then have "inspection_run line_graph (nodes, ?s, 0 + 0, [EvEdgeVisited ''e'' ''a'' 1, EvFieldTaskCompleted ''t'' ''a'' 1])"
    using step by (rule visit_step)
  note r = inspection_accounting [OF this]
  have "inspection_complete ?s" by (simp add: inspection_complete_def visit_edge_def inspection_new_def line_graph_def)
  then show ?thesis using r step by auto
qed

definition dry_zone :: WildfireZone where
  "dry_zone = \<lparr>wz_id = ''t'', wz_threat = f64_zero, wz_priority = 3\<rparr>"

definition dry_state :: WildfireState where
  "dry_state = \<lparr>wf_zones = [dry_zone], mapped_zone_ids = {}, update_interval_ticks = 1, enable_dynamic_threat = True, enable_zone_expansion = False,
     enable_spatial_spread = False\<rparr>"

theorem wildfire_threat_monotone_witness:
  "\<exists>nodes w m lg. process_wildfire_mapping_tick None None 1 False {} [(inspector ''t'', ''a'')] dry_state None = (nodes, w, m, lg) \<and>
     list_all2 zone_grows (wf_zones dry_state) (wf_zones w) \<and> list_all zone_ok (wf_zones w)"
proof -
  obtain nodes w m lg where step: "process_wildfire_mapping_tick None None 1 False {} [(inspector ''t'', ''a'')] dry_state None = (nodes, w, m, lg)"
    by (metis surj_pair)
  have "wildfire_run dry_state ([(inspector ''t'', ''a'')], dry_state)" by (rule wf_start)
  then have "wildfire_run dry_state (nodes, w)" using step by (rule wf_step)
  moreover have "list_all zone_ok (wf_zones dry_state)"
    by (simp add: dry_state_def dry_zone_def zone_ok_def unit_f64_def round_mag_def)
  ultimately show ?thesis using wildfire_threat_monotone step by blast
qed

theorem wildfire_priorities_follow_witness:
  "\<exists>nodes w m lg. update_dynamic_threat None (Some 4) 1 ([(inspector ''t'', ''a'')], dry_state, no_wildfire_metrics, None) = (nodes, w, m, lg) \<and>
     map pr_task_id (wm_requests m) = [''t''] \<and> distinct (map pr_task_id (wm_requests m))"
proof -
  obtain nodes w m lg where step: "update_dynamic_threat None (Some 4) 1 ([(inspector ''t'', ''a'')], dry_state, no_wildfire_metrics, None) = (nodes, w, m, lg)"
    by (metis surj_pair)
  have inc: "threat_changes None dry_state = [of_exact (1 / 10)]" by (simp add: threat_changes_def dry_state_def base_increase_def)
  obtain th p where z: "grow_zone dry_zone (of_exact (1 / 10)) = \<lparr>wz_id = ''t'', wz_threat = th, wz_priority = p\<rparr>" "p = 4 \<or> p = 5"
    by (simp add: grow_zone_def dry_zone_def Let_def)
  have n: "tasks (registry (coordinator (inspector ''t''))) =
      [(''t'', sample_task ''t''\<lparr>t_assigned_to := Some ''a'', t_status := Assigned, t_edge_id := Some ''e'', t_kind := Some MappingZone\<rparr>)]"
    by (simp add: inspector_def agent_node_new_def coordinator_new_def registry_new_def hm_collect_def hm_insert_def sample_task_def)
  have w: "enable_dynamic_threat dry_state" "update_interval_ticks dry_state = 1" "wf_zones dry_state = [dry_zone]" by (simp_all add: dry_state_def)
  have "map pr_task_id (wm_requests m) = [''t'']"
    using step z(2) by (auto simp: update_dynamic_threat_def w inc z(1) n Let_def update_task_priority_def sample_task_def no_wildfire_metrics_def)
  moreover have "distinct (map pr_task_id (wm_requests m))"
    using wildfire_priorities_follow [OF step] by (simp add: dry_state_def no_wildfire_metrics_def)
  ultimately show ?thesis using step by (intro exI [of _ nodes] exI [of _ w] exI [of _ m] exI [of _ lg] conjI)
qed

end
