(* ===== verification/SimState.thy ===== *)
theory SimState
  imports Safety FieldMissions PartitionSupervisor
begin

text \<open>
  The simulation runner, \<open>swarm-sim/src/runner\<close>: clock, scenario and configuration, the state of the tick loop (\<open>internal/loop_state.rs\<close>), and the
  steps of a tick that act on the whole fleet: failures and events (\<open>internal/events.rs\<close>, \<open>dynamic_tasks.rs\<close>, \<open>partitions.rs\<close>), heartbeats and node
  processing on the shared bus (\<open>allocation.rs\<close>), connectivity (\<open>network.rs\<close>), movement (\<open>movement.rs\<close>), divergence of views and unassigned
  tasks (\<open>tick_loop.rs\<close>, \<open>urban_helpers.rs\<close>), mission completion (\<open>scenario_runner_public.rs\<close>, \<open>types.rs\<close>). The loop itself is in \<open>SimLoop\<close>.

  All nodes share one network behind a reference-counted cell: the state holds the network, and a node borrows it for the time it runs
  (\<open>on_bus\<close>). Random numbers come from a source that is a parameter. \<open>None\<close> is a panic.
\<close>

section \<open>Clock, scenario and configuration\<close>

record Clock =
  clock_current :: u64
  clock_tick_duration_ms :: u64

definition clock_new :: "u64 \<Rightarrow> Clock" where
  "clock_new ms = \<lparr>clock_current = 0, clock_tick_duration_ms = ms\<rparr>"

definition clock_advance :: "Clock \<Rightarrow> Clock" where
  "clock_advance c = c\<lparr>clock_current := clock_current c + 1\<rparr>"

definition elapsed_ms :: "Clock \<Rightarrow> u64" where
  "elapsed_ms c = clock_current c * clock_tick_duration_ms c"

record Scenario =
  sc_name :: string
  sc_seed :: u64
  sc_agents :: "Agent list"
  sc_tasks :: "Task list"
  sc_ground_nodes :: "(string \<times> Pose \<times> f64) list"
  sc_base_station :: "Pose option"

record FailureEvent =
  fe_agent_id :: AgentId
  fe_at_tick :: u64

record DynamicTaskEvent =
  de_at_tick :: u64
  de_task :: Task

record PartitionEvent =
  pe_at_tick :: u64
  pe_until_tick :: "u64 option"
  pe_heal_at_tick :: "u64 option"
  pe_agents :: "AgentId \<times> AgentId"

record InitialAgentLeaseRecord =
  il_lease_id :: string
  il_resource_id :: string
  il_resource_kind :: string
  il_granted_tick :: u64
  il_expiry_tick :: u64

text \<open>The fields of \<open>RunConfig\<close> the tick loop reads.\<close>

record RunConfig =
  rc_max_ticks :: u64
  rc_timeout_ticks :: u64
  rc_max_unassigned_ticks :: u64
  rc_packet_loss_rate :: f64
  rc_latency_ticks :: u64
  rc_latency_per_hop :: u64
  rc_comms_jitter_ticks :: u64
  rc_failures :: "FailureEvent list"
  rc_dynamic_tasks :: "DynamicTaskEvent list"
  rc_partition_events :: "PartitionEvent list"
  rc_gossip_interval_ticks :: u64
  rc_base_id :: "AgentId option"
  rc_enable_movement :: bool
  rc_tick_duration_ms :: u64
  rc_grid_state :: "GridState option"
  rc_enable_cbba :: bool
  rc_safety_config :: "SafetyConfig option"
  rc_inspection_state :: "InspectionState option"
  rc_wildfire_state :: "WildfireState option"
  rc_wind :: "(f64 \<times> f64 \<times> f64) option"
  rc_pose_noise_m :: f64
  rc_wildfire_priority_realloc_threshold :: "u8 option"
  rc_dynamic_belief_updates :: bool
  rc_autonomy :: AgentAutonomyConfig
  rc_initial_agent_leases :: "(AgentId, (string \<times> u64) list) hmap"
  rc_initial_agent_lease_records :: "(AgentId, InitialAgentLeaseRecord list) hmap"

text \<open>The environment of a run: codec and clock of the nodes, the generator of the network, the generator the runner seeds for each tick, the
  logarithm, and the debug text of a mission state.\<close>

record ('r, 'dt, 'g) SimEnv =
  se_node :: "('r agent_bus, Infallible, 'dt) NodeEnv"
  se_net :: "'r rng_source"
  se_seed :: "u64 \<Rightarrow> 'g"
  se_gen :: "'g \<Rightarrow> f64 \<times> 'g"
  se_log2 :: "f64 \<Rightarrow> f64"
  se_debug :: "'dt AgentMissionState \<Rightarrow> string"

section \<open>Events\<close>

datatype 'dt SimEvent =
  EvTickStart u64
| EvAgentFailed AgentId u64
| EvPartitionAdded AgentId AgentId u64
| EvPartitionRemoved AgentId AgentId u64
| EvSupervisor "'dt Event"
| EvTaskAssigned TaskId AgentId u64
| EvAgentGcsLost AgentId u64 string
| EvAgentGcsReconnected AgentId u64 u64
| EvAgentStateReconciled AgentId u64 u64 string u64 string
| EvAgentContinuingUnderLease AgentId string u64
| EvAgentLeaseExpiredDuringGcsLoss AgentId string string u64
| EvAgentNeighborLost AgentId AgentId u64
| EvSafety SafetyEvent
| EvCbbaConverged u64
| EvField FieldEvent
| EvSar SarEvent
| EvCbbaBundleUpdated AgentId nat u64 u64
| EvTaskExpired TaskId u64
| EvPoseUpdated AgentId Pose u64

type_synonym 'dt sim_log = "'dt SimEvent list option"

definition sim_push :: "'dt SimEvent list \<Rightarrow> 'dt sim_log \<Rightarrow> 'dt sim_log" where
  "sim_push es lg = map_option (\<lambda>l. l @ es) lg"

text \<open>A component that pushes events of its own kind starts from an empty list if there is a log; its events are appended.\<close>

definition sub_log :: "'dt sim_log \<Rightarrow> 'e list option" where
  "sub_log lg = map_option (\<lambda>_. []) lg"

definition join_log :: "('e \<Rightarrow> 'dt SimEvent) \<Rightarrow> 'e list option \<Rightarrow> 'dt sim_log \<Rightarrow> 'dt sim_log" where
  "join_log wrap es lg = (case es of None \<Rightarrow> lg | Some l \<Rightarrow> sim_push (map wrap l) lg)"

section \<open>State of the loop\<close>

type_synonym ('r, 'dt) fleet = "(('r agent_bus, 'dt) AgentNode \<times> AgentId) list"

record ('r, 'dt, 'st) TickLoopState =
  ts_nodes :: "('r, 'dt) fleet"
  ts_bus :: "'r InMemNetwork"
  ts_allocator :: 'st
  ts_clock :: Clock
  ts_log :: "'dt sim_log"
  ts_failure_ticks :: "(AgentId, u64) hmap"
  ts_crashed :: "AgentId set"
  ts_detected :: "AgentId set"
  ts_unassigned_durations :: "(TaskId, u64) hmap"
  ts_max_task_unassigned_ticks :: u64
  ts_detection_time_ticks :: "u64 option"
  ts_detection_tick :: "u64 option"
  ts_reallocation_time_ticks :: "u64 option"
  ts_total_ticks :: u64
  ts_tasks_injected :: u64
  ts_tasks_expired :: u64
  ts_conflicting_assignments :: u64
  ts_stale_messages_discarded :: u64
  ts_partition_events :: u64
  ts_partitions_active :: bool
  ts_convergence_ticks :: "u64 option"
  ts_heal_tick :: "u64 option"
  ts_max_view_divergence :: u64
  ts_revisit_count :: u64
  ts_total_distance_travelled :: f64
  ts_time_to_first_exhaustion :: "u64 option"
  ts_safety_violations :: u64
  ts_cbba_convergence_tick :: "u64 option"
  ts_wildfire_state :: "WildfireState option"
  ts_priority_updates :: u64
  ts_high_priority_zones_mapped :: u64
  ts_time_to_map_first_high_risk :: "u64 option"
  ts_threat_level_over_time :: "f64 list"
  ts_zone_observations :: u64
  ts_coverage_over_time :: "f64 list"
  ts_grid_state :: "GridState option"
  ts_inspection_state :: "InspectionState option"
  ts_availability_per_tick :: "f64 list"
  ts_disconnected_agents_max :: u64
  ts_relay_reallocation_ticks :: "u64 option"
  ts_relay_detection_tick :: "u64 option"
  ts_total_hop_count_sum :: f64
  ts_total_hop_count_ticks :: u64
  ts_base_id :: AgentId
  ts_base_pose :: Pose
  ts_gcs_lost_count :: u64
  ts_gcs_lost_total_ticks :: u64
  ts_neighbor_lost_count :: u64
  ts_failsafe_rtl_count :: u64
  ts_lease_expired_during_gcs_loss_count :: u64
  ts_active_partition_pairs :: "(AgentId \<times> AgentId) set"
  ts_partition_reports :: "PartitionReport list"
  ts_reconciliation_reports :: "'dt ReconciliationReport list"
  ts_degraded_decision_log :: "DegradedDecisionLog list"

definition default_cbba_config :: CbbaConfig where
  "default_cbba_config = \<lparr>max_bundle_size = 5, max_rounds = 20, score_weight_distance = f64_lit 1, score_weight_battery = f64_lit (1 / 2),
     retransmit_max_attempts = 3, retransmit_backoff_ticks = 2, retransmit_threshold_packet_loss = of_exact (1 / 10)\<rparr>"

definition initial_leases :: "RunConfig \<Rightarrow> AgentId \<Rightarrow> ActiveLeaseRecord list" where
  "initial_leases c a =
     (case hm_get (rc_initial_agent_lease_records c) a of
        Some ls \<Rightarrow> map (\<lambda>l. \<lparr>al_lease_id = il_lease_id l, al_resource_id = il_resource_id l, al_resource_kind = il_resource_kind l,
            granted_tick = il_granted_tick l, expiry_tick = il_expiry_tick l\<rparr>) ls
      | None \<Rightarrow> (case hm_get (rc_initial_agent_leases c) a of
            Some ls \<Rightarrow> map (\<lambda>(lease, expiry). \<lparr>al_lease_id = lease, al_resource_id = lease, al_resource_kind = ''task'', granted_tick = 0,
                expiry_tick = expiry\<rparr>) ls
          | None \<Rightarrow> []))"

definition initial_network :: "('r, 'dt, 'g) SimEnv \<Rightarrow> Scenario \<Rightarrow> RunConfig \<Rightarrow> 'r InMemNetwork" where
  "initial_network env sc c = network_new (se_net env)
     \<lparr>packet_loss_rate = rc_packet_loss_rate c, latency_ticks = rc_latency_ticks c, latency_per_hop = rc_latency_per_hop c, nc_seed = sc_seed sc,
      nc_partitions = {}, comms_jitter_ticks = rc_comms_jitter_ticks c\<rparr>"

definition initial_node :: "('r, 'dt, 'g) SimEnv \<Rightarrow> Scenario \<Rightarrow> RunConfig \<Rightarrow> AgentId \<Rightarrow> Agent \<Rightarrow> ('r agent_bus, 'dt) AgentNode" where
  "initial_node env sc c base a =
     (agent_node_new (a_id a) (filter (\<lambda>i. i \<noteq> a_id a) (map a_id (sc_agents sc))) (coordinator_new (sc_agents sc) (sc_tasks sc) (rc_timeout_ticks c))
        (initial_network env sc c, agent_transport_new (a_id a)))
      \<lparr>gossip_interval_ticks := rc_gossip_interval_ticks c,
       node_config := default_node_config\<lparr>enable_movement := rc_enable_movement c, tick_duration_ms := rc_tick_duration_ms c\<rparr>,
       autonomy := rc_autonomy c, gcs_id := Some base, active_leases := initial_leases c (a_id a),
       an_cbba := (if rc_enable_cbba c then Some ((cbba_new default_cbba_config)\<lparr>cb_packet_loss_rate := rc_packet_loss_rate c\<rparr>) else None)\<rparr>"

definition loop_state_new :: "('r, 'dt, 'g) SimEnv \<Rightarrow> Scenario \<Rightarrow> RunConfig \<Rightarrow> 'st \<Rightarrow> 'dt sim_log \<Rightarrow> ('r, 'dt, 'st) TickLoopState" where
  "loop_state_new env sc c alloc lg =
     (let base = (case rc_base_id c of Some b \<Rightarrow> b | None \<Rightarrow> ''base'') in
      \<lparr>ts_nodes = map (\<lambda>a. (initial_node env sc c base a, a_id a)) (sc_agents sc), ts_bus = initial_network env sc c, ts_allocator = alloc,
       ts_clock = clock_new 1, ts_log = lg, ts_failure_ticks = hm_collect (map (\<lambda>f. (fe_agent_id f, fe_at_tick f)) (rc_failures c)),
       ts_crashed = {}, ts_detected = {}, ts_unassigned_durations = [], ts_max_task_unassigned_ticks = 0, ts_detection_time_ticks = None,
       ts_detection_tick = None, ts_reallocation_time_ticks = None, ts_total_ticks = 0, ts_tasks_injected = 0, ts_tasks_expired = 0,
       ts_conflicting_assignments = 0, ts_stale_messages_discarded = 0, ts_partition_events = 0, ts_partitions_active = False,
       ts_convergence_ticks = None, ts_heal_tick = None, ts_max_view_divergence = 0, ts_revisit_count = 0, ts_total_distance_travelled = f64_zero,
       ts_time_to_first_exhaustion = None, ts_safety_violations = 0, ts_cbba_convergence_tick = None, ts_wildfire_state = rc_wildfire_state c,
       ts_priority_updates = 0, ts_high_priority_zones_mapped = 0, ts_time_to_map_first_high_risk = None, ts_threat_level_over_time = [],
       ts_zone_observations = 0, ts_coverage_over_time = [], ts_grid_state = rc_grid_state c, ts_inspection_state = rc_inspection_state c,
       ts_availability_per_tick = [], ts_disconnected_agents_max = 0, ts_relay_reallocation_ticks = None, ts_relay_detection_tick = None,
       ts_total_hop_count_sum = f64_zero, ts_total_hop_count_ticks = 0, ts_base_id = base,
       ts_base_pose = (case sc_base_station sc of Some p \<Rightarrow> p | None \<Rightarrow> default_pose), ts_gcs_lost_count = 0, ts_gcs_lost_total_ticks = 0,
       ts_neighbor_lost_count = 0, ts_failsafe_rtl_count = 0, ts_lease_expired_during_gcs_loss_count = 0, ts_active_partition_pairs = {},
       ts_partition_reports = [], ts_reconciliation_reports = [], ts_degraded_decision_log = []\<rparr>)"

section \<open>Failures, dynamic tasks and partitions\<close>

definition record_agent_failures :: "FailureEvent list \<Rightarrow> u64 \<Rightarrow> AgentId set \<times> 'dt sim_log \<Rightarrow> AgentId set \<times> 'dt sim_log" where
  "record_agent_failures fs now acc =
     fold (\<lambda>f (crashed, lg). (insert (fe_agent_id f) crashed, sim_push [EvAgentFailed (fe_agent_id f) now] lg)) (filter (\<lambda>f. fe_at_tick f = now) fs) acc"

definition all_failure_ticks_passed :: "FailureEvent list \<Rightarrow> u64 \<Rightarrow> bool" where
  "all_failure_ticks_passed fs now = list_all (\<lambda>f. fe_at_tick f \<le> now) fs"

definition tasks_injected_at_tick :: "DynamicTaskEvent list \<Rightarrow> u64 \<Rightarrow> Task list" where
  "tasks_injected_at_tick es now = map de_task (filter (\<lambda>e. de_at_tick e = now) es)"

definition all_dynamic_tasks_injected :: "DynamicTaskEvent list \<Rightarrow> u64 \<Rightarrow> bool" where
  "all_dynamic_tasks_injected es now = list_all (\<lambda>e. de_at_tick e \<le> now) es"

definition all_partitions_resolved :: "PartitionEvent list \<Rightarrow> u64 \<Rightarrow> bool" where
  "all_partitions_resolved es now = list_all (\<lambda>e. case pe_until_tick e of None \<Rightarrow> False | Some u \<Rightarrow> u \<le> now) es"

record PartitionTickOutcome =
  po_partition_events :: u64
  po_partitions_active :: bool
  po_heal_tick :: "u64 option"
  po_added_pairs :: "(AgentId \<times> AgentId) list"
  po_healed_pairs :: "(AgentId \<times> AgentId) list"

definition no_partition_outcome :: PartitionTickOutcome where
  "no_partition_outcome = \<lparr>po_partition_events = 0, po_partitions_active = False, po_heal_tick = None, po_added_pairs = [], po_healed_pairs = []\<rparr>"

definition unconverge :: "('tr, 'dt) AgentNode \<Rightarrow> ('tr, 'dt) AgentNode" where
  "unconverge n = n\<lparr>an_cbba := map_option (\<lambda>cb. cb\<lparr>cb_converged := False\<rparr>) (an_cbba n)\<rparr>"

type_synonym ('r, 'dt) partition_acc = "'r InMemNetwork \<times> ('r, 'dt) fleet \<times> 'dt sim_log \<times> PartitionTickOutcome"

definition partition_begins :: "u64 \<Rightarrow> PartitionEvent \<Rightarrow> ('r, 'dt) partition_acc \<Rightarrow> ('r, 'dt) partition_acc" where
  "partition_begins now e acc = (case (acc, pe_agents e) of ((bus, nodes, lg, out), (a, b)) \<Rightarrow>
     if pe_at_tick e = now
     then (add_partition a b bus, nodes, sim_push [EvPartitionAdded a b now] lg,
           out\<lparr>po_partition_events := po_partition_events out + 1, po_partitions_active := True, po_added_pairs := po_added_pairs out @ [ordered_pair a b]\<rparr>)
     else acc)"

definition partition_ends :: "u64 \<Rightarrow> PartitionEvent \<Rightarrow> ('r, 'dt) partition_acc \<Rightarrow> ('r, 'dt) partition_acc" where
  "partition_ends now e acc = (case (acc, pe_agents e) of ((bus, nodes, lg, out), (a, b)) \<Rightarrow>
     if pe_until_tick e = Some now
     then (remove_partition a b bus, nodes, sim_push [EvPartitionRemoved a b now] lg,
           out\<lparr>po_heal_tick := Some now, po_healed_pairs := po_healed_pairs out @ [ordered_pair a b]\<rparr>)
     else acc)"

definition partition_heals :: "u64 \<Rightarrow> PartitionEvent \<Rightarrow> ('r, 'dt) partition_acc \<Rightarrow> ('r, 'dt) partition_acc" where
  "partition_heals now e acc = (case (acc, pe_agents e) of ((bus, nodes, lg, out), (a, b)) \<Rightarrow>
     if pe_heal_at_tick e = Some now
     then (remove_partition a b bus, map (apfst unconverge) nodes, lg,
           out\<lparr>po_heal_tick := Some now, po_healed_pairs := po_healed_pairs out @ [ordered_pair a b]\<rparr>)
     else acc)"

definition apply_partition_events ::
    "PartitionEvent list \<Rightarrow> u64 \<Rightarrow> 'r InMemNetwork \<Rightarrow> ('r, 'dt) fleet \<Rightarrow> 'dt sim_log \<Rightarrow> ('r, 'dt) partition_acc" where
  "apply_partition_events es now bus nodes lg =
     fold (\<lambda>e acc. partition_heals now e (partition_ends now e (partition_begins now e acc))) es (bus, nodes, lg, no_partition_outcome)"

section \<open>Nodes on the shared bus\<close>

text \<open>A step of a node, with the network in place of the shared cell; the network it leaves behind is that of the others.\<close>

definition plug :: "'r InMemNetwork \<Rightarrow> ('r agent_bus, 'dt) AgentNode \<Rightarrow> ('r agent_bus, 'dt) AgentNode" where
  "plug bus n = n\<lparr>an_transport := (bus, snd (an_transport n))\<rparr>"

definition send_gcs_heartbeats ::
    "('r, 'dt, 'g) SimEnv \<Rightarrow> ('r, 'dt) fleet \<Rightarrow> AgentId set \<Rightarrow> AgentId \<Rightarrow> u64 \<Rightarrow> 'r InMemNetwork \<Rightarrow> 'r InMemNetwork" where
  "send_gcs_heartbeats env nodes crashed base now bus =
     fold (\<lambda>(n, a) bus. if a \<in> crashed then bus
        else fst (network_send (se_net env) \<lparr>rm_from = base, rm_to = a, payload = to_payload (se_node env) (Heartbeat now 1)\<rparr> bus)) nodes bus"

fun send_alive_heartbeats ::
    "('r, 'dt, 'g) SimEnv \<Rightarrow> AgentId set \<Rightarrow> u64 \<Rightarrow> ('r, 'dt) fleet \<Rightarrow> 'r InMemNetwork \<Rightarrow> ('r, 'dt) fleet \<times> 'r InMemNetwork" where
  "send_alive_heartbeats env crashed now [] bus = ([], bus)"
| "send_alive_heartbeats env crashed now ((n, a) # ns) bus =
     (if a \<in> crashed then apfst (Cons (n, a)) (send_alive_heartbeats env crashed now ns bus)
      else let n' = fst (send_heartbeats (se_node env) now (plug bus n))
           in apfst (Cons (n', a)) (send_alive_heartbeats env crashed now ns (fst (an_transport n'))))"

type_synonym 'dt tick_outputs = "(AgentId \<times> 'dt NodeTickOutput) list"

fun process_alive_nodes ::
    "('r, 'dt, 'g) SimEnv \<Rightarrow> 'st alloc_fun \<Rightarrow> AgentId set \<Rightarrow> u64 \<Rightarrow> Task list \<Rightarrow> ('r, 'dt) fleet \<Rightarrow> 'r InMemNetwork \<times> 'st \<Rightarrow>
     (('r, 'dt) fleet \<times> ('r InMemNetwork \<times> 'st) \<times> 'dt tick_outputs) option" where
  "process_alive_nodes env alloc crashed now injected [] acc = Some ([], acc, [])"
| "process_alive_nodes env alloc crashed now injected ((n, a) # ns) (bus, st) =
     (if a \<in> crashed then map_option (\<lambda>(ns', acc, outs). ((n, a) # ns', acc, outs)) (process_alive_nodes env alloc crashed now injected ns (bus, st))
      else case process_inbox_and_allocate (se_node env) alloc now st injected (plug bus n) of
             None \<Rightarrow> None
           | Some (n', st', out) \<Rightarrow>
               map_option (\<lambda>(ns', acc, outs). ((n', a) # ns', acc, (a, out) # outs))
                 (process_alive_nodes env alloc crashed now injected ns (fst (an_transport n'), st')))"

section \<open>Connectivity\<close>

definition first_alive :: "AgentId set \<Rightarrow> ('a \<times> AgentId) list \<Rightarrow> ('a \<times> AgentId) option" where
  "first_alive crashed nodes = find (\<lambda>na. snd na \<notin> crashed) nodes"

definition first_active_agent_id :: "AgentId set \<Rightarrow> ('a \<times> AgentId) list \<Rightarrow> AgentId option" where
  "first_active_agent_id crashed nodes = map_option snd (first_alive crashed nodes)"

definition connectivity_snapshot_from_node :: "AgentId set \<Rightarrow> Scenario \<Rightarrow> AgentId \<Rightarrow> Pose \<Rightarrow> ('tr, 'dt) AgentNode \<Rightarrow> ConnectivitySnapshot" where
  "connectivity_snapshot_from_node crashed sc base pose n =
     \<lparr>agent_entries = map (\<lambda>(i, e). (i, e_pose e, e_comms_range e, Alive)) (filter (\<lambda>(i, e). i \<notin> crashed) (agents (membership (coordinator n)))),
      ground_nodes = sc_ground_nodes sc, cs_base_id = base, base_pose = pose\<rparr>"

definition update_connectivity_snapshot ::
    "('r, 'dt) fleet \<Rightarrow> AgentId set \<Rightarrow> Scenario \<Rightarrow> AgentId \<Rightarrow> Pose \<Rightarrow> 'r InMemNetwork \<Rightarrow> 'r InMemNetwork" where
  "update_connectivity_snapshot nodes crashed sc base pose bus =
     (case first_alive crashed nodes of
        None \<Rightarrow> bus
      | Some (n, _) \<Rightarrow> set_connectivity_snapshot (connectivity_snapshot_from_node crashed sc base pose n) bus)"

record ConnectivityMetricsTick =
  cm_availability :: f64
  cm_disconnected_agents :: u64
  cm_average_hop_count :: "f64 option"

definition connectivity_metrics_tick ::
    "('r, 'dt) fleet \<Rightarrow> AgentId set \<Rightarrow> Scenario \<Rightarrow> AgentId \<Rightarrow> Pose \<Rightarrow> ConnectivityMetricsTick option" where
  "connectivity_metrics_tick nodes crashed sc base pose =
     map_option (\<lambda>(n, _).
       let reach = reachability_from_base (connectivity_snapshot_from_node crashed sc base pose n);
           ids = map fst (alive_agents (membership (coordinator n)));
           hops = List.map_filter (hm_get reach) ids;
           reachable_count = length (filter (\<lambda>i. hm_get reach i \<noteq> None) ids)
       in \<lparr>cm_availability = availability_fraction reach ids, cm_disconnected_agents = of_nat (length ids - reachable_count),
           cm_average_hop_count = (if 0 < reachable_count then Some (f64_div (f64_of_nat (sum_list hops)) (f64_of_nat reachable_count)) else None)\<rparr>)
       (first_alive crashed nodes)"

section \<open>Movement and environment\<close>

definition teleport_node :: "AgentId \<Rightarrow> ('tr, 'dt) AgentNode \<Rightarrow> ('tr, 'dt) AgentNode" where
  "teleport_node a n =
     n\<lparr>coordinator := (coordinator n)\<lparr>membership := fold (\<lambda>t v. case t_pose t of None \<Rightarrow> v | Some p \<Rightarrow> update_pose a p v)
         (assigned_to_agent a (\<lambda>_. True) n) (membership (coordinator n))\<rparr>\<rparr>"

definition teleport_assigned_tasks_when_movement_disabled :: "AgentId set \<Rightarrow> bool \<Rightarrow> ('r, 'dt) fleet \<Rightarrow> ('r, 'dt) fleet" where
  "teleport_assigned_tasks_when_movement_disabled crashed enabled nodes =
     (if enabled then nodes else map (\<lambda>(n, a). if a \<in> crashed then (n, a) else (teleport_node a n, a)) nodes)"

fun environment_nodes ::
    "('g \<Rightarrow> f64 \<times> 'g) \<Rightarrow> AgentId set \<Rightarrow> (f64 \<times> f64 \<times> f64) option \<Rightarrow> f64 \<Rightarrow> f64 \<Rightarrow> 'g \<Rightarrow> ('r, 'dt) fleet \<Rightarrow> ('r, 'dt) fleet" where
  "environment_nodes gen crashed wind noise dt g [] = []"
| "environment_nodes gen crashed wind noise dt g ((n, a) # ns) =
     (if a \<in> crashed then (n, a) # environment_nodes gen crashed wind noise dt g ns
      else case Membership.apply_environment_effects gen wind noise g dt (membership (coordinator n)) of
        (v, g') \<Rightarrow> (n\<lparr>coordinator := (coordinator n)\<lparr>membership := v\<rparr>\<rparr>, a) # environment_nodes gen crashed wind noise dt g' ns)"

definition fleet_environment_effects ::
    "('r, 'dt, 'g) SimEnv \<Rightarrow> AgentId set \<Rightarrow> (f64 \<times> f64 \<times> f64) option \<Rightarrow> f64 \<Rightarrow> u64 \<Rightarrow> u64 \<Rightarrow> u64 \<Rightarrow> ('r, 'dt) fleet \<Rightarrow> ('r, 'dt) fleet" where
  "fleet_environment_effects env crashed wind noise ms seed now nodes =
     (if wind = None \<and> f64_le noise f64_zero then nodes
      else environment_nodes (se_gen env) crashed wind noise (f64_div (f64_of_nat (unat ms)) (f64_lit 1000)) (se_seed env (seed + now + 0xCAFE)) nodes)"

section \<open>Views and unassigned tasks\<close>

definition assignment_map :: "('tr, 'dt) AgentNode \<Rightarrow> (TaskId, AgentId) hmap" where
  "assignment_map n = hm_collect (List.map_filter (\<lambda>t. map_option (Pair (t_id t)) (t_assigned_to t)) (hm_values (tasks (registry (coordinator n)))))"

definition same_map :: "('k, 'v) hmap \<Rightarrow> ('k, 'v) hmap \<Rightarrow> bool" where
  "same_map m m' = (set m = set m')"

text \<open>The number of views that differ from the first one; \<open>None\<close> without any.\<close>

definition diverged_views :: "AgentId set \<Rightarrow> ('r, 'dt) fleet \<Rightarrow> nat option" where
  "diverged_views crashed nodes =
     (case map (\<lambda>(n, _). assignment_map n) (filter (\<lambda>(_, a). a \<notin> crashed) nodes) of
        [] \<Rightarrow> None
      | reference # maps \<Rightarrow> Some (length (filter (\<lambda>m. \<not> same_map m reference) (reference # maps))))"

definition update_view_divergence ::
    "('r, 'dt) fleet \<Rightarrow> AgentId set \<Rightarrow> u64 \<Rightarrow> u64 option \<Rightarrow> u64 \<times> u64 option \<Rightarrow> u64 \<times> u64 option" where
  "update_view_divergence nodes crashed now healed acc =
     (case (diverged_views crashed nodes, acc) of
        (None, _) \<Rightarrow> acc
      | (Some d, (max_div, conv)) \<Rightarrow>
          (max max_div (of_nat d),
           case healed of
             None \<Rightarrow> conv
           | Some heal_at \<Rightarrow> if heal_at < now \<and> (of_nat d :: u64) = 0 \<and> conv = None then Some (now - heal_at) else conv))"

definition update_unassigned_durations :: "Coordinator \<Rightarrow> (TaskId, u64) hmap \<Rightarrow> u64 \<Rightarrow> (TaskId, u64) hmap \<times> u64" where
  "update_unassigned_durations c durations current_max =
     (let ids = remdups (map t_id (unassigned (registry c)))
      in fold (\<lambda>tid (ds, m). let d = (case hm_get ds tid of Some k \<Rightarrow> k | None \<Rightarrow> 0) + 1 in (hm_insert tid d ds, max m d)) ids
           (hm_retain (\<lambda>k _. k \<in> set ids) durations, current_max))"

definition released_tasks_reassigned :: "Coordinator \<Rightarrow> TaskId list \<Rightarrow> bool" where
  "released_tasks_reassigned c released =
     list_all (\<lambda>r. list_ex (\<lambda>t. t_id t = r \<and> t_assigned_to t \<noteq> None) (hm_values (tasks (registry c)))) released"

section \<open>Completion\<close>

record RunState =
  scanned_cells :: "(u32 \<times> u32) set"
  covered_edges :: "EdgeId set"
  completed_tasks :: "TaskId set"
  mapped_zones :: "string set"

fun adapter_is_completed :: "MissionAdapter \<Rightarrow> Task \<Rightarrow> RunState \<Rightarrow> bool" where
  "adapter_is_completed SarAdapter t s = (case t_grid_cell t of Some c \<Rightarrow> c \<in> scanned_cells s | None \<Rightarrow> False)"
| "adapter_is_completed InspectionAdapter t s = (case t_edge_id t of Some e \<Rightarrow> e \<in> covered_edges s | None \<Rightarrow> False)"
| "adapter_is_completed WildfireAdapter t s = (t_id t \<in> mapped_zones s)"
| "adapter_is_completed _ t s = (t_id t \<in> completed_tasks s)"

text \<open>The cell at an index of the grid; a grid of width zero holds no cell.\<close>

definition cell_at_index :: "SearchGrid \<Rightarrow> nat \<Rightarrow> u32 \<times> u32" where
  "cell_at_index g i = (of_nat (i mod unat (sg_width g)), of_nat (i div unat (sg_width g)))"

definition build_run_state :: "GridState option \<Rightarrow> InspectionState option \<Rightarrow> WildfireState option \<Rightarrow> Task list \<Rightarrow> RunState" where
  "build_run_state gs ins wfs ts =
     \<lparr>scanned_cells = (case gs of None \<Rightarrow> {}
        | Some g \<Rightarrow> set (map (cell_at_index (gs_grid g)) (filter (\<lambda>i. gs_cells g ! i \<noteq> Unvisited) [0..<length (gs_cells g)]))),
      covered_edges = (case ins of None \<Rightarrow> {} | Some i \<Rightarrow> is_covered i),
      completed_tasks = set (map t_id (filter (\<lambda>t. t_assigned_to t \<noteq> None \<or> t_status t = Completed) ts)),
      mapped_zones = (case wfs of None \<Rightarrow> {} | Some w \<Rightarrow> mapped_zone_ids w)\<rparr>"

definition adapter_driven_complete :: "Task list \<Rightarrow> RunState \<Rightarrow> bool" where
  "adapter_driven_complete ts s =
     list_all (\<lambda>t. case adapter_for_task t of Some a \<Rightarrow> adapter_is_completed a t s | None \<Rightarrow> True) (filter (\<lambda>t. t_kind t \<noteq> None) ts)"

record MissionStopSnapshot =
  ms_all_tasks_assigned :: bool
  ms_all_failure_ticks_passed :: bool
  ms_all_expected_failures_detected :: bool
  ms_all_dynamic_tasks_injected :: bool
  ms_post_partition_converged :: bool
  ms_sar_complete :: bool
  ms_inspection_complete :: bool
  ms_adapter_complete :: bool

definition should_stop_tick :: "MissionStopSnapshot \<Rightarrow> u64 \<Rightarrow> u64 \<Rightarrow> bool" where
  "should_stop_tick s max_task_unassigned max_unassigned =
     (ms_all_tasks_assigned s \<and> max_task_unassigned \<le> max_unassigned \<and> ms_all_failure_ticks_passed s \<and> ms_all_expected_failures_detected s \<and>
      ms_all_dynamic_tasks_injected s \<and> ms_post_partition_converged s \<and> ms_sar_complete s \<and> ms_inspection_complete s \<and> ms_adapter_complete s)"

definition task_completion_rate :: "Task list \<Rightarrow> f64" where
  "task_completion_rate ts =
     (let completed_or_active = filter (\<lambda>t. t_status t = Completed \<or> (t_status t \<noteq> Unassigned \<and> t_assigned_to t \<noteq> None)) ts
      in if ts = [] then f64_lit 1 else f64_div (f64_of_nat (length completed_or_active)) (f64_of_nat (length ts)))"

definition ratio_reached :: "nat \<Rightarrow> nat \<Rightarrow> f64 \<Rightarrow> bool" where
  "ratio_reached part whole threshold =
     f64_le threshold (if f64_lt f64_zero (f64_of_nat whole) then f64_div (f64_of_nat part) (f64_of_nat whole) else f64_lit 1)"

text \<open>Success by mission; the urban branch takes the two results of the route planner.\<close>

definition compute_mission_success ::
    "u64 \<Rightarrow> string option \<Rightarrow> f64 \<Rightarrow> f64 \<Rightarrow> f64 option \<Rightarrow> bool \<Rightarrow> bool \<Rightarrow> u64 \<Rightarrow> GridState option \<Rightarrow> InspectionState option \<Rightarrow> WildfireState option \<Rightarrow>
     bool \<Rightarrow> bool \<Rightarrow> u64 \<Rightarrow> bool \<Rightarrow> bool \<times> string option" where
  "compute_mission_success max_unassigned strategy wildfire_threshold inspection_threshold sar_threshold all_assigned all_detected max_task_unassigned
     gs ins wfs urban route_planned violation_count route_completed =
     (let steady = (all_detected \<and> max_task_unassigned \<le> max_unassigned) in
      case gs of
        Some g \<Rightarrow>
          (let goal = (case sar_threshold of
                 Some th \<Rightarrow> ratio_reached (unat (gs_targets_found g)) (length (gs_targets g)) th
               | None \<Rightarrow> all_targets_found g);
               ok = (goal \<and> steady)
           in if \<not> ok \<and> strategy = Some ''cbba'' \<and> \<not> all_assigned then (False, Some ''delayed_reconvergence'')
              else if \<not> ok \<and> strategy = Some ''centralized'' then (False, Some ''static_pre_plan'')
              else (ok, None))
      | None \<Rightarrow> (case ins of
        Some i \<Rightarrow> (ratio_reached (card (is_covered i)) (length (ig_edges (is_graph i))) inspection_threshold \<and> steady, None)
      | None \<Rightarrow> (case wfs of
        Some w \<Rightarrow> (ratio_reached (card (mapped_zone_ids w)) (length (wf_zones w)) wildfire_threshold \<and> steady, None)
      | None \<Rightarrow> if urban then (route_planned \<and> violation_count = 0 \<and> route_completed, None)
                else (all_assigned \<and> steady, None))))"

end
