(* ===== verification/SimLoop.thy ===== *)
theory SimLoop
  imports SimState
begin

text \<open>
  The tick loop, \<open>swarm-sim/src/runner/internal/tick_loop.rs\<close>: one definition per block of the loop body, in the order of the source, composed by
  \<open>tick_once\<close>; \<open>run_tick_loop\<close> repeats it at most \<open>max_ticks\<close> times. The runner's entry is \<open>run_internal\<close> of
  \<open>scenario_runner_internal.rs\<close>, up to the assembly of metrics.
\<close>

section \<open>Start of a tick\<close>

definition start_tick :: "RunConfig \<Rightarrow> ('r, 'dt, 'st) TickLoopState \<Rightarrow> ('r, 'dt, 'st) TickLoopState \<times> AgentId set" where
  "start_tick c s =
     (let clk = clock_advance (ts_clock s); now = clock_current clk;
          acc = record_agent_failures (rc_failures c) now (ts_crashed s, sim_push [EvTickStart now] (ts_log s))
      in (s\<lparr>ts_clock := clk, ts_total_ticks := now, ts_crashed := fst acc, ts_log := snd acc, ts_bus := advance_tick (ts_bus s)\<rparr>,
          fst acc - ts_crashed s))"

definition to_supervisor :: "('r, 'dt, 'st) TickLoopState \<Rightarrow> ('r agent_bus, 'dt) Supervisor" where
  "to_supervisor s =
     \<lparr>sup_nodes = ts_nodes s, degraded_decision_log = ts_degraded_decision_log s, partition_reports = ts_partition_reports s,
      reconciliation_reports = ts_reconciliation_reports s, log_builder = sub_log (ts_log s)\<rparr>"

definition from_supervisor :: "('r agent_bus, 'dt) Supervisor \<Rightarrow> ('r, 'dt, 'st) TickLoopState \<Rightarrow> ('r, 'dt, 'st) TickLoopState" where
  "from_supervisor p s =
     s\<lparr>ts_nodes := sup_nodes p, ts_degraded_decision_log := degraded_decision_log p, ts_partition_reports := partition_reports p,
       ts_reconciliation_reports := reconciliation_reports p, ts_log := join_log EvSupervisor (log_builder p) (ts_log s)\<rparr>"

definition activate_pair :: "u64 \<Rightarrow> AgentId \<times> AgentId \<Rightarrow> ('r, 'dt, 'st) TickLoopState \<Rightarrow> ('r, 'dt, 'st) TickLoopState" where
  "activate_pair now p s =
     (let s1 = s\<lparr>ts_active_partition_pairs := insert p (ts_active_partition_pairs s)\<rparr>
      in from_supervisor (handle_partition_activation (ts_crashed s1) (ts_active_partition_pairs s1) now (to_supervisor s1)) s1)"

definition heal_pair ::
    "('r, 'dt, 'g) SimEnv \<Rightarrow> RunConfig \<Rightarrow> u64 \<Rightarrow> AgentId \<times> AgentId \<Rightarrow> ('r, 'dt, 'st) TickLoopState \<Rightarrow> ('r, 'dt, 'st) TickLoopState option" where
  "heal_pair env c now p s =
     (let s1 = s\<lparr>ts_active_partition_pairs := ts_active_partition_pairs s - {p}\<rparr>
      in map_option (\<lambda>q. from_supervisor q s1)
           (handle_partition_heal (at_millis (se_node env)) (ts_crashed s1) now p (rc_tick_duration_ms c) (to_supervisor s1)))"

fun heal_pairs ::
    "('r, 'dt, 'g) SimEnv \<Rightarrow> RunConfig \<Rightarrow> u64 \<Rightarrow> (AgentId \<times> AgentId) list \<Rightarrow> ('r, 'dt, 'st) TickLoopState \<Rightarrow> ('r, 'dt, 'st) TickLoopState option" where
  "heal_pairs env c now [] s = Some s"
| "heal_pairs env c now (p # ps) s = Option.bind (heal_pair env c now p s) (heal_pairs env c now ps)"

definition partition_block ::
    "('r, 'dt, 'g) SimEnv \<Rightarrow> RunConfig \<Rightarrow> u64 \<Rightarrow> AgentId set \<Rightarrow> ('r, 'dt, 'st) TickLoopState \<Rightarrow> ('r, 'dt, 'st) TickLoopState option" where
  "partition_block env c now failed_now s =
     (case apply_partition_events (rc_partition_events c) now (ts_bus s) (ts_nodes s) (ts_log s) of
        (bus, nodes, lg, out) \<Rightarrow>
          let s1 = s\<lparr>ts_bus := bus, ts_nodes := nodes, ts_log := lg, ts_partition_events := ts_partition_events s + po_partition_events out,
                ts_partitions_active := (ts_partitions_active s \<or> po_partitions_active out),
                ts_heal_tick := (if po_heal_tick out \<noteq> None then po_heal_tick out else ts_heal_tick s)\<rparr>;
              s2 = fold (activate_pair now) (po_added_pairs out) s1
          in map_option (\<lambda>s3. from_supervisor (handle_node_failures failed_now now (to_supervisor s3)) s3)
               (heal_pairs env c now (po_healed_pairs out) s2))"

section \<open>Communication and allocation\<close>

definition node_block ::
    "('r, 'dt, 'g) SimEnv \<Rightarrow> 'st alloc_fun \<Rightarrow> Scenario \<Rightarrow> RunConfig \<Rightarrow> u64 \<Rightarrow> ('r, 'dt, 'st) TickLoopState \<Rightarrow>
     (('r, 'dt, 'st) TickLoopState \<times> 'dt tick_outputs) option" where
  "node_block env alloc sc c now s =
     (let injected = tasks_injected_at_tick (rc_dynamic_tasks c) now;
          bus1 = update_connectivity_snapshot (ts_nodes s) (ts_crashed s) sc (ts_base_id s) (ts_base_pose s) (ts_bus s);
          bus2 = send_gcs_heartbeats env (ts_nodes s) (ts_crashed s) (ts_base_id s) now bus1;
          sent = send_alive_heartbeats env (ts_crashed s) now (ts_nodes s) bus2
      in map_option (\<lambda>(nodes, (bus, st), outs).
             (s\<lparr>ts_tasks_injected := ts_tasks_injected s + of_nat (length injected), ts_nodes := nodes, ts_bus := bus, ts_allocator := st\<rparr>, outs))
           (process_alive_nodes env (safety_allocate (rc_safety_config c) alloc) (ts_crashed s) now injected (fst sent) (snd sent, ts_allocator s)))"

definition output_of :: "AgentId option \<Rightarrow> 'dt tick_outputs \<Rightarrow> 'dt NodeTickOutput option" where
  "output_of target outs = Option.bind target (\<lambda>i. map_option snd (find (\<lambda>p. fst p = i) outs))"

definition log_assignments :: "u64 \<Rightarrow> AgentId option \<Rightarrow> 'dt tick_outputs \<Rightarrow> ('r, 'dt, 'st) TickLoopState \<Rightarrow> ('r, 'dt, 'st) TickLoopState" where
  "log_assignments now target outs s =
     (case output_of target outs of
        None \<Rightarrow> s
      | Some out \<Rightarrow> s\<lparr>ts_log := sim_push (map (\<lambda>x. EvTaskAssigned (ac_task_id x) (ac_agent_id x) now) (reassigned_tasks out)) (ts_log s)\<rparr>)"

definition autonomy_events :: "('r, 'dt, 'g) SimEnv \<Rightarrow> u64 \<Rightarrow> AgentId \<Rightarrow> 'dt NodeTickOutput \<Rightarrow> 'dt SimEvent list" where
  "autonomy_events env now a out =
     (if gcs_lost_this_tick out then [EvAgentGcsLost a now (case gcs_lost_policy_name out of Some p \<Rightarrow> p | None \<Rightarrow> [])] else []) @
     (if gcs_reconnected_this_tick out then EvAgentGcsReconnected a now (gcs_recovered_lost_ticks out) #
        (case reconcile_report out of
           None \<Rightarrow> []
         | Some r \<Rightarrow> [EvAgentStateReconciled a now (gcs_lost_ticks r) (policy_applied r) (of_nat (length (active_leases_at_reconnect r)))
             (se_debug env (mission_state_at_reconnect r))]) else []) @
     (case continuing_under_lease_this_tick out of None \<Rightarrow> [] | Some l \<Rightarrow> [EvAgentContinuingUnderLease a l now]) @
     (case lease_expired_in_gcs_loss out of None \<Rightarrow> [] | Some (l, p) \<Rightarrow> [EvAgentLeaseExpiredDuringGcsLoss a l p now]) @
     map (\<lambda>lost. EvAgentNeighborLost a lost now) (neighbors_lost_this_tick out)"

definition note_autonomy ::
    "('r, 'dt, 'g) SimEnv \<Rightarrow> u64 \<Rightarrow> AgentId \<times> 'dt NodeTickOutput \<Rightarrow> ('r, 'dt, 'st) TickLoopState \<Rightarrow> ('r, 'dt, 'st) TickLoopState" where
  "note_autonomy env now ao s = (case ao of (a, out) \<Rightarrow>
     s\<lparr>ts_gcs_lost_count := ts_gcs_lost_count s + (if gcs_lost_this_tick out then 1 else 0),
       ts_failsafe_rtl_count := ts_failsafe_rtl_count s +
         (if gcs_lost_this_tick out \<and> gcs_lost_policy_name out = Some ''return_to_launch'' then 1 else 0),
       ts_lease_expired_during_gcs_loss_count := ts_lease_expired_during_gcs_loss_count s + (if lease_expired_in_gcs_loss out \<noteq> None then 1 else 0),
       ts_neighbor_lost_count := ts_neighbor_lost_count s + of_nat (length (neighbors_lost_this_tick out)),
       ts_log := sim_push (autonomy_events env now a out) (ts_log s)\<rparr>)"

fun is_degraded :: "'dt AgentMissionState \<Rightarrow> bool" where
  "is_degraded (GcsLost _ _) = True"
| "is_degraded (ContinuingUnderLease _ _) = True"
| "is_degraded _ = False"

definition count_degraded :: "('r, 'dt, 'st) TickLoopState \<Rightarrow> ('r, 'dt, 'st) TickLoopState" where
  "count_degraded s =
     s\<lparr>ts_gcs_lost_total_ticks := ts_gcs_lost_total_ticks s +
        of_nat (length (filter (\<lambda>(n, a). a \<notin> ts_crashed s \<and> is_degraded (mission_state n)) (ts_nodes s)))\<rparr>"

section \<open>Movement, safety and missions\<close>

definition movement_block :: "('r, 'dt, 'g) SimEnv \<Rightarrow> Scenario \<Rightarrow> RunConfig \<Rightarrow> u64 \<Rightarrow> ('r, 'dt, 'st) TickLoopState \<Rightarrow> ('r, 'dt, 'st) TickLoopState" where
  "movement_block env sc c now s =
     s\<lparr>ts_nodes := fleet_environment_effects env (ts_crashed s) (rc_wind c) (rc_pose_noise_m c) (rc_tick_duration_ms c) (sc_seed sc) now
        (teleport_assigned_tasks_when_movement_disabled (ts_crashed s) (rc_enable_movement c) (ts_nodes s))\<rparr>"

definition safety_block :: "Scenario \<Rightarrow> RunConfig \<Rightarrow> u64 \<Rightarrow> ('r, 'dt, 'st) TickLoopState \<Rightarrow> ('r, 'dt, 'st) TickLoopState option" where
  "safety_block sc c now s =
     (case rc_safety_config c of
        None \<Rightarrow> Some s
      | Some cfg \<Rightarrow> map_option (\<lambda>(k, es). s\<lparr>ts_safety_violations := ts_safety_violations s + k, ts_log := join_log EvSafety es (ts_log s)\<rparr>)
          (record_safety_violations (ts_crashed s) (sc_agents sc) cfg now (ts_nodes s) (sub_log (ts_log s))))"

definition cbba_block :: "u64 \<Rightarrow> ('r, 'dt, 'st) TickLoopState \<Rightarrow> ('r, 'dt, 'st) TickLoopState" where
  "cbba_block now s =
     (if ts_cbba_convergence_tick s = None \<and>
         list_all (\<lambda>(n, a). a \<in> ts_crashed s \<or> (case an_cbba n of None \<Rightarrow> True | Some cb \<Rightarrow> cb_converged cb)) (ts_nodes s)
      then s\<lparr>ts_cbba_convergence_tick := Some now, ts_log := sim_push [EvCbbaConverged now] (ts_log s)\<rparr> else s)"

definition inspection_block :: "u64 \<Rightarrow> ('r, 'dt, 'st) TickLoopState \<Rightarrow> ('r, 'dt, 'st) TickLoopState" where
  "inspection_block now s =
     (case ts_inspection_state s of
        None \<Rightarrow> s
      | Some i \<Rightarrow> (case record_inspection_edge_visits now (ts_crashed s) (ts_nodes s) i (sub_log (ts_log s)) of
          (nodes, i', k, es) \<Rightarrow> s\<lparr>ts_nodes := nodes, ts_inspection_state := Some i', ts_revisit_count := ts_revisit_count s + k,
             ts_log := join_log EvField es (ts_log s)\<rparr>))"

definition sar_block :: "('r, 'dt, 'g) SimEnv \<Rightarrow> Scenario \<Rightarrow> RunConfig \<Rightarrow> u64 \<Rightarrow> ('r, 'dt, 'st) TickLoopState \<Rightarrow> ('r, 'dt, 'st) TickLoopState option" where
  "sar_block env sc c now s =
     (case ts_grid_state s of
        None \<Rightarrow> Some s
      | Some g \<Rightarrow> map_option (\<lambda>(nodes, g', es). s\<lparr>ts_nodes := nodes, ts_grid_state := Some g',
             ts_coverage_over_time := ts_coverage_over_time s @ [coverage_fraction g'], ts_log := join_log EvSar es (ts_log s)\<rparr>)
          (record_sar_scans (se_log2 env) (\<lambda>x. fst (se_gen env (se_seed env x))) (sc_seed sc) now (rc_dynamic_belief_updates c) (ts_crashed s)
             (ts_nodes s) g (sub_log (ts_log s))))"

text \<open>A requested reallocation releases the task in every running node; the first former owner is logged.\<close>

fun release_in_nodes :: "AgentId set \<Rightarrow> TaskId \<Rightarrow> (('tr, 'dt) AgentNode \<times> AgentId) list \<Rightarrow> (('tr, 'dt) AgentNode \<times> AgentId) list \<times> AgentId option" where
  "release_in_nodes crashed tid [] = ([], None)"
| "release_in_nodes crashed tid ((n, a) # ns) =
     (case release_in_nodes crashed tid ns of (ns', owner) \<Rightarrow>
        if a \<in> crashed then ((n, a) # ns', owner)
        else ((with_registry (\<lambda>r. fst (release_task r tid)) n, a) # ns',
              case snd (release_task (registry (coordinator n)) tid) of Some o' \<Rightarrow> Some o' | None \<Rightarrow> owner))"

definition release_requested :: "u64 \<Rightarrow> PriorityReallocationRequest \<Rightarrow> ('r, 'dt, 'st) TickLoopState \<Rightarrow> ('r, 'dt, 'st) TickLoopState" where
  "release_requested now r s =
     (case release_in_nodes (ts_crashed s) (pr_task_id r) (ts_nodes s) of (nodes, owner) \<Rightarrow>
        s\<lparr>ts_nodes := nodes,
          ts_log := (case owner of None \<Rightarrow> ts_log s
            | Some a \<Rightarrow> sim_push [EvField (EvPriorityTaskReleased (pr_task_id r) (pr_old_priority r) (pr_new_priority r) (Some a) now)] (ts_log s))\<rparr>)"

definition wildfire_block :: "RunConfig \<Rightarrow> u64 \<Rightarrow> ('r, 'dt, 'st) TickLoopState \<Rightarrow> ('r, 'dt, 'st) TickLoopState" where
  "wildfire_block c now s =
     (case ts_wildfire_state s of
        None \<Rightarrow> s
      | Some w \<Rightarrow>
          (case process_wildfire_mapping_tick (rc_wind c) (rc_wildfire_priority_realloc_threshold c) now (ts_time_to_map_first_high_risk s \<noteq> None)
                  (ts_crashed s) (ts_nodes s) w (sub_log (ts_log s)) of
             (nodes, w', m, es) \<Rightarrow>
               fold (release_requested now) (wm_requests m)
                 (s\<lparr>ts_nodes := nodes, ts_wildfire_state := Some w', ts_log := join_log EvField es (ts_log s),
                    ts_priority_updates := ts_priority_updates s + wm_priority_updates m,
                    ts_high_priority_zones_mapped := ts_high_priority_zones_mapped s + wm_high_priority_zones_mapped m,
                    ts_time_to_map_first_high_risk := (if ts_time_to_map_first_high_risk s = None then wm_time_to_map_first_high_risk m
                      else ts_time_to_map_first_high_risk s),
                    ts_zone_observations := ts_zone_observations s + wm_zone_observations m,
                    ts_threat_level_over_time := ts_threat_level_over_time s @ [wm_avg_threat_level m]\<rparr>)))"

section \<open>Measurements\<close>

definition connectivity_block :: "Scenario \<Rightarrow> ('r, 'dt, 'st) TickLoopState \<Rightarrow> ('r, 'dt, 'st) TickLoopState" where
  "connectivity_block sc s =
     (case connectivity_metrics_tick (ts_nodes s) (ts_crashed s) sc (ts_base_id s) (ts_base_pose s) of
        None \<Rightarrow> s
      | Some m \<Rightarrow>
          s\<lparr>ts_availability_per_tick := ts_availability_per_tick s @ [cm_availability m],
            ts_disconnected_agents_max := max (ts_disconnected_agents_max s) (cm_disconnected_agents m),
            ts_total_hop_count_sum := (case cm_average_hop_count m of None \<Rightarrow> ts_total_hop_count_sum s | Some h \<Rightarrow> f64_add (ts_total_hop_count_sum s) h),
            ts_total_hop_count_ticks := ts_total_hop_count_ticks s + (if cm_average_hop_count m = None then 0 else 1)\<rparr>)"

definition min_list_option :: "u64 list \<Rightarrow> u64 option" where
  "min_list_option xs = (case xs of [] \<Rightarrow> None | x # ys \<Rightarrow> Some (fold min ys x))"

definition exhausted_in :: "('r, 'dt) fleet \<Rightarrow> AgentId \<Rightarrow> bool" where
  "exhausted_in nodes i =
     (case find (\<lambda>(n, _). own_id n = i) nodes of
        None \<Rightarrow> False
      | Some (n, _) \<Rightarrow> (case hm_get (agents (membership (coordinator n))) i of None \<Rightarrow> False | Some e \<Rightarrow> f64_le (e_battery e) f64_zero))"

definition note_output :: "u64 \<Rightarrow> 'dt NodeTickOutput \<Rightarrow> ('r, 'dt, 'st) TickLoopState \<Rightarrow> ('r, 'dt, 'st) TickLoopState" where
  "note_output now out s =
     (let first_failure = (case min_list_option (List.map_filter (hm_get (ts_failure_ticks s)) (nt_newly_failed out)) of Some t \<Rightarrow> t | None \<Rightarrow> now);
          detects = (ts_detection_time_ticks s = None \<and> nt_newly_failed out \<noteq> [])
      in s\<lparr>ts_conflicting_assignments := ts_conflicting_assignments s + conflicting_assignments out,
           ts_stale_messages_discarded := ts_stale_messages_discarded s + discarded_messages out,
           ts_detection_time_ticks := (if detects then Some (saturating_sub now first_failure) else ts_detection_time_ticks s),
           ts_detection_tick := (if detects then Some now else ts_detection_tick s),
           ts_detected := ts_detected s \<union> set (nt_newly_failed out),
           ts_total_distance_travelled := foldl f64_add (ts_total_distance_travelled s) (map snd (distance_travelled out)),
           ts_time_to_first_exhaustion := (if ts_time_to_first_exhaustion s = None \<and> list_ex (exhausted_in (ts_nodes s)) (nt_newly_failed out)
             then Some now else ts_time_to_first_exhaustion s)\<rparr>)"

definition cbba_events :: "u64 \<Rightarrow> 'dt tick_outputs \<Rightarrow> AgentId set \<Rightarrow> ('r, 'dt) fleet \<Rightarrow> 'dt SimEvent list" where
  "cbba_events now outs crashed nodes =
     concat (map (\<lambda>(n, a). case an_cbba n of None \<Rightarrow> []
       | Some cb \<Rightarrow> [EvCbbaBundleUpdated a (case hm_get (cb_bundles cb) a of Some b \<Rightarrow> length b | None \<Rightarrow> 0)
           (case output_of (Some a) outs of Some out \<Rightarrow> conflicting_assignments out | None \<Rightarrow> 0) now])
       (filter (\<lambda>(n, a). a \<notin> crashed) nodes))"

definition divergence_block :: "u64 \<Rightarrow> 'dt tick_outputs \<Rightarrow> AgentId option \<Rightarrow> ('r, 'dt, 'st) TickLoopState \<Rightarrow> ('r, 'dt, 'st) TickLoopState" where
  "divergence_block now outs target s =
     (let s1 = s\<lparr>ts_log := sim_push (cbba_events now outs (ts_crashed s) (ts_nodes s)) (ts_log s)\<rparr>;
          dv = update_view_divergence (ts_nodes s1) (ts_crashed s1) now (ts_heal_tick s1) (ts_max_view_divergence s1, ts_convergence_ticks s1);
          s2 = s1\<lparr>ts_max_view_divergence := fst dv, ts_convergence_ticks := snd dv\<rparr>
      in case output_of target outs of
           None \<Rightarrow> s2
         | Some out \<Rightarrow> s2\<lparr>ts_tasks_expired := ts_tasks_expired s2 + of_nat (length (nt_expired_task_ids out)),
               ts_log := sim_push (map (\<lambda>t. EvTaskExpired t now) (nt_expired_task_ids out)) (ts_log s2)\<rparr>)"

definition reallocation_block :: "u64 \<Rightarrow> 'dt tick_outputs \<Rightarrow> AgentId option \<Rightarrow> Coordinator \<Rightarrow> ('r, 'dt, 'st) TickLoopState \<Rightarrow> ('r, 'dt, 'st) TickLoopState" where
  "reallocation_block now outs target co s =
     (case (ts_detection_tick s, ts_reallocation_time_ticks s, output_of target outs) of
        (Some detected_at, None, Some out) \<Rightarrow>
          if released_tasks_reassigned co (nt_released_tasks out) then s\<lparr>ts_reallocation_time_ticks := Some (saturating_sub now detected_at)\<rparr> else s
      | _ \<Rightarrow> s)"

definition relay_block :: "u64 \<Rightarrow> 'dt tick_outputs \<Rightarrow> Coordinator \<Rightarrow> ('r, 'dt, 'st) TickLoopState \<Rightarrow> ('r, 'dt, 'st) TickLoopState" where
  "relay_block now outs co s =
     (if ts_relay_reallocation_ticks s \<noteq> None then s
      else
        let relay_failed = filter (\<lambda>i. case hm_get (agents (membership co)) i of Some e \<Rightarrow> e_role e = Relay | None \<Rightarrow> False)
              (concat (map (\<lambda>(_, out). nt_newly_failed out) outs));
            s1 = (if relay_failed \<noteq> [] then s\<lparr>ts_relay_detection_tick := Some now\<rparr> else s)
        in case ts_relay_detection_tick s1 of
             None \<Rightarrow> s1
           | Some det_at \<Rightarrow>
               if list_all (\<lambda>t. case t_assigned_to t of Some a \<Rightarrow> is_alive (membership co) a | None \<Rightarrow> False)
                    (filter (\<lambda>t. t_required_role t = Some Relay) (hm_values (tasks (registry co))))
               then s1\<lparr>ts_relay_reallocation_ticks := Some (saturating_sub now det_at)\<rparr> else s1)"

definition duration_block :: "u64 \<Rightarrow> 'dt tick_outputs \<Rightarrow> AgentId option \<Rightarrow> ('r, 'dt, 'st) TickLoopState \<Rightarrow> ('r, 'dt, 'st) TickLoopState" where
  "duration_block now outs target s =
     (case Option.bind target (\<lambda>i. find (\<lambda>(_, a). a = i) (ts_nodes s)) of
        None \<Rightarrow> s
      | Some (n, _) \<Rightarrow>
          (case update_unassigned_durations (coordinator n) (ts_unassigned_durations s) (ts_max_task_unassigned_ticks s) of
             (ds, m) \<Rightarrow> relay_block now outs (coordinator n)
               (reallocation_block now outs target (coordinator n) (s\<lparr>ts_unassigned_durations := ds, ts_max_task_unassigned_ticks := m\<rparr>))))"

section \<open>End of a tick\<close>

definition stop_snapshot :: "RunConfig \<Rightarrow> u64 \<Rightarrow> ('r, 'dt, 'st) TickLoopState \<Rightarrow> MissionStopSnapshot" where
  "stop_snapshot c now s =
     (let first = first_alive (ts_crashed s) (ts_nodes s);
          live_tasks = (case first of Some (n, _) \<Rightarrow> hm_values (tasks (registry (coordinator n))) | None \<Rightarrow> [])
      in \<lparr>ms_all_tasks_assigned = (case first of Some (n, _) \<Rightarrow> all_assigned_or_completed (registry (coordinator n)) | None \<Rightarrow> False),
          ms_all_failure_ticks_passed = all_failure_ticks_passed (rc_failures c) now,
          ms_all_expected_failures_detected = (ts_crashed s \<subseteq> ts_detected s),
          ms_all_dynamic_tasks_injected = all_dynamic_tasks_injected (rc_dynamic_tasks c) now,
          ms_post_partition_converged = (all_partitions_resolved (rc_partition_events c) now \<and>
            (ts_convergence_ticks s \<noteq> None \<or> ts_max_view_divergence s = 0)),
          ms_sar_complete = (case ts_grid_state s of None \<Rightarrow> True | Some g \<Rightarrow> all_targets_found g),
          ms_inspection_complete = (case ts_inspection_state s of None \<Rightarrow> True | Some i \<Rightarrow> inspection_complete i),
          ms_adapter_complete = adapter_driven_complete live_tasks
            (build_run_state (ts_grid_state s) (ts_inspection_state s) (ts_wildfire_state s) live_tasks)\<rparr>)"

definition mission_blocks ::
    "('r, 'dt, 'g) SimEnv \<Rightarrow> Scenario \<Rightarrow> RunConfig \<Rightarrow> u64 \<Rightarrow> ('r, 'dt, 'st) TickLoopState \<Rightarrow> ('r, 'dt, 'st) TickLoopState option" where
  "mission_blocks env sc c now s =
     Option.bind (safety_block sc c now (movement_block env sc c now s))
       (\<lambda>s1. map_option (wildfire_block c now) (sar_block env sc c now (inspection_block now (cbba_block now s1))))"

definition measure_blocks :: "Scenario \<Rightarrow> u64 \<Rightarrow> 'dt tick_outputs \<Rightarrow> AgentId option \<Rightarrow> ('r, 'dt, 'st) TickLoopState \<Rightarrow> ('r, 'dt, 'st) TickLoopState" where
  "measure_blocks sc now outs target s =
     duration_block now outs target (divergence_block now outs target (fold (\<lambda>ao. note_output now (snd ao)) outs (connectivity_block sc s)))"

definition tick_once ::
    "('r, 'dt, 'g) SimEnv \<Rightarrow> 'st alloc_fun \<Rightarrow> Scenario \<Rightarrow> RunConfig \<Rightarrow> ('r, 'dt, 'st) TickLoopState \<Rightarrow> (('r, 'dt, 'st) TickLoopState \<times> bool) option" where
  "tick_once env alloc sc c s =
     (case start_tick c s of (s0, failed_now) \<Rightarrow>
       let now = ts_total_ticks s0 in
       Option.bind (partition_block env c now failed_now s0) (\<lambda>s1.
       Option.bind (node_block env alloc sc c now s1) (\<lambda>(s2, outs).
         let target = first_active_agent_id (ts_crashed s2) (ts_nodes s2);
             s3 = count_degraded (fold (note_autonomy env now) outs (log_assignments now target outs s2))
         in map_option (\<lambda>s4. let s5 = measure_blocks sc now outs target s4
                in (s5, should_stop_tick (stop_snapshot c now s5) (ts_max_task_unassigned_ticks s5) (rc_max_unassigned_ticks c)))
              (mission_blocks env sc c now s3))))"

fun tick_loop :: "('r, 'dt, 'g) SimEnv \<Rightarrow> 'st alloc_fun \<Rightarrow> Scenario \<Rightarrow> RunConfig \<Rightarrow> nat \<Rightarrow> ('r, 'dt, 'st) TickLoopState \<Rightarrow> ('r, 'dt, 'st) TickLoopState option" where
  "tick_loop env alloc sc c 0 s = Some s"
| "tick_loop env alloc sc c (Suc k) s =
     Option.bind (tick_once env alloc sc c s) (\<lambda>(s', stop). if stop then Some s' else tick_loop env alloc sc c k s')"

definition run_tick_loop ::
    "('r, 'dt, 'g) SimEnv \<Rightarrow> 'st alloc_fun \<Rightarrow> Scenario \<Rightarrow> RunConfig \<Rightarrow> ('r, 'dt, 'st) TickLoopState \<Rightarrow> ('r, 'dt, 'st) TickLoopState option" where
  "run_tick_loop env alloc sc c s = tick_loop env alloc sc c (unat (rc_max_ticks c)) s"

definition run_internal ::
    "('r, 'dt, 'g) SimEnv \<Rightarrow> 'st alloc_fun \<Rightarrow> 'st \<Rightarrow> Scenario \<Rightarrow> RunConfig \<Rightarrow> 'dt sim_log \<Rightarrow> ('r, 'dt, 'st) TickLoopState option" where
  "run_internal env alloc st sc c lg = run_tick_loop env alloc sc c (loop_state_new env sc c st lg)"

end
