(* ===== verification/SimSafety.thy ===== *)
theory SimSafety
  imports SimLoop NodeSafety
begin

text \<open>
  Theorems about the tick loop: every block keeps the invariants of every node and leaves the view of a crashed agent alone; the set of crashed
  agents is that of the configured failures; the loop returns; and what holds when it stops early.
\<close>

section \<open>What a block does to the fleet\<close>

text \<open>Identities, the invariant of a coordinator and the configuration are kept, leases may only go, and the membership view of a crashed agent does
  not change.\<close>

definition node_step :: "AgentId set \<Rightarrow> ('tr, 'dt) AgentNode \<times> AgentId \<Rightarrow> ('tr, 'dt) AgentNode \<times> AgentId \<Rightarrow> bool" where
  "node_step crashed x y \<longleftrightarrow> snd y = snd x \<and> (coord_inv (coordinator (fst x)) \<longrightarrow> coord_inv (coordinator (fst y))) \<and>
     (snd x \<in> crashed \<longrightarrow> membership (coordinator (fst y)) = membership (coordinator (fst x))) \<and>
     node_config (fst y) = node_config (fst x) \<and> set (active_leases (fst y)) \<subseteq> set (active_leases (fst x))"

definition fleet_step :: "AgentId set \<Rightarrow> (('tr, 'dt) AgentNode \<times> AgentId) list \<Rightarrow> (('tr, 'dt) AgentNode \<times> AgentId) list \<Rightarrow> bool" where
  "fleet_step crashed = list_all2 (node_step crashed)"

lemma node_step_refl [simp]: "node_step crashed x x"
  by (simp add: node_step_def)

lemma node_step_trans: "node_step crashed x y \<Longrightarrow> node_step crashed y z \<Longrightarrow> node_step crashed x z"
  by (auto simp: node_step_def)

lemma fleet_step_refl [simp]: "fleet_step crashed ns ns"
  by (simp add: fleet_step_def list.rel_refl)

lemma fleet_step_trans [trans]: "fleet_step crashed ns ms \<Longrightarrow> fleet_step crashed ms ks \<Longrightarrow> fleet_step crashed ns ks"
  unfolding fleet_step_def by (rule list_all2_trans [OF node_step_trans])

lemma fleet_step_Cons [simp]:
  "fleet_step crashed (x # ns) (y # ms) \<longleftrightarrow> node_step crashed x y \<and> fleet_step crashed ns ms"
  "fleet_step crashed [] []"
  by (simp_all add: fleet_step_def)

lemma fleet_step_map: "(\<And>x. x \<in> set ns \<Longrightarrow> node_step crashed x (f x)) \<Longrightarrow> fleet_step crashed ns (map f ns)"
  by (induction ns) auto

text \<open>Steps that drop leases or change the transport, and leave the rest of a node alone.\<close>

definition same_core :: "('tr, 'dt) AgentNode \<times> AgentId \<Rightarrow> ('tr, 'dt) AgentNode \<times> AgentId \<Rightarrow> bool" where
  "same_core x y \<longleftrightarrow> snd y = snd x \<and> coordinator (fst y) = coordinator (fst x) \<and> node_config (fst y) = node_config (fst x) \<and>
     set (active_leases (fst y)) \<subseteq> set (active_leases (fst x))"

definition lease_drop :: "(('tr, 'dt) AgentNode \<times> AgentId) list \<Rightarrow> (('tr, 'dt) AgentNode \<times> AgentId) list \<Rightarrow> bool" where
  "lease_drop = list_all2 same_core"

lemma lease_drop_refl [simp]: "lease_drop ns ns"
  by (simp add: lease_drop_def list.rel_refl same_core_def)

lemma lease_drop_trans [trans]: "lease_drop ns ms \<Longrightarrow> lease_drop ms ks \<Longrightarrow> lease_drop ns ks"
  unfolding lease_drop_def by (rule list_all2_trans [of same_core same_core]) (auto simp: same_core_def)

lemma lease_drop_Cons [simp]: "lease_drop (x # ns) (y # ms) \<longleftrightarrow> same_core x y \<and> lease_drop ns ms"
  by (simp add: lease_drop_def)

lemma lease_drop_map: "(\<And>x. x \<in> set ns \<Longrightarrow> same_core x (f x)) \<Longrightarrow> lease_drop ns (map f ns)"
  by (induction ns) auto

lemma lease_drop_fold: "(\<And>x ns. lease_drop ns (f x ns)) \<Longrightarrow> lease_drop ns (fold f xs ns)"
  by (induction xs arbitrary: ns) (auto intro: lease_drop_trans)

lemma fleet_step_drop: "lease_drop ns ms \<Longrightarrow> fleet_step crashed ns ms"
  unfolding lease_drop_def fleet_step_def by (erule list_all2_mono) (auto simp: same_core_def node_step_def)

section \<open>The supervisor touches leases only\<close>

lemma drop_drop_lease: "lease_drop nodes (drop_lease rid x nodes)"
proof -
  obtain i a l where x: "x = (i, a, l)" by (metis prod_cases3)
  show ?thesis
    by (cases "i < length nodes")
      (auto simp: lease_drop_def list_all2_conv_all_nth drop_lease_def x nth_list_update same_core_def list_update_beyond)
qed

lemma drop_reject_losers: "reject_losers now rid w xs s rej = (s', rej') \<Longrightarrow> lease_drop (sup_nodes s) (sup_nodes s')"
proof (induction xs arbitrary: s rej)
  case (Cons x xs)
  show ?case
  proof (cases "fst (snd x) = w")
    case False
    from Cons.IH [OF Cons.prems [unfolded reject_losers.simps if_not_P [OF False]]] show ?thesis
      using lease_drop_trans [OF drop_drop_lease] by (simp add: log_push_def)
  qed (use Cons in simp)
qed simp

lemma drop_reset_resource: "lease_drop (sup_nodes s) (sup_nodes (reset_resource now rid xs s))"
  by (simp add: reset_resource_def log_push_def push_decision_def Let_def lease_drop_fold drop_drop_lease)

lemma drop_heal_resource:
  assumes "heal_resource inst ms now stale g h = Some h'"
  shows "lease_drop (sup_nodes (hl_sup h)) (sup_nodes (hl_sup h'))"
  using assms drop_reset_resource
  by (auto simp: heal_resource_def Let_def split: if_splits option.splits prod.splits ConflictResolution.splits dest!: drop_reject_losers)

lemma drop_heal_resources: "heal_resources inst ms now stale gs h = Some h' \<Longrightarrow> lease_drop (sup_nodes (hl_sup h)) (sup_nodes (hl_sup h'))"
proof (induction gs arbitrary: h)
  case (Cons g gs)
  then obtain h1 where "heal_resource inst ms now stale g h = Some h1" "heal_resources inst ms now stale gs h1 = Some h'"
    by (auto simp: bind_eq_Some_conv)
  then show ?case using Cons.IH drop_heal_resource lease_drop_trans by blast
qed simp

lemma drop_partition_heal: "handle_partition_heal inst crashed now p ms s = Some s' \<Longrightarrow> lease_drop (sup_nodes s) (sup_nodes s')"
  by (auto simp: handle_partition_heal_def Let_def log_push_def dest!: drop_heal_resources split: option.splits)

lemma sup_nodes_activation [simp]: "sup_nodes (handle_partition_activation crashed pairs now s) = sup_nodes s"
proof -
  have "sup_nodes (fold (activation_decision now gs ls) as s) = sup_nodes s" for gs ls as and s :: "('a, 'b) Supervisor"
    by (induction as arbitrary: s) (simp_all add: activation_decision_def log_push_def push_decision_def Let_def)
  then show ?thesis by (simp add: handle_partition_activation_def Let_def log_push_def)
qed

lemma drop_node_failures: "lease_drop (sup_nodes s) (sup_nodes (handle_node_failures failed now s))"
  by (auto simp: handle_node_failures_def fail_node_def Let_def same_core_def intro!: lease_drop_map split: prod.splits)

section \<open>The blocks of a tick\<close>

lemma drop_unconverge: "lease_drop nodes (map (apfst unconverge) nodes)"
  by (auto simp: unconverge_def same_core_def intro!: lease_drop_map split: prod.splits option.splits)

lemma drop_partition_events:
  assumes "apply_partition_events es now bus nodes lg = (bus', nodes', lg', out)"
  shows "lease_drop nodes nodes'"
proof -
  have step: "lease_drop (fst (snd acc)) (fst (snd (partition_heals now e (partition_ends now e (partition_begins now e acc)))))"
    for e and acc :: "('r, 'dt) partition_acc"
    by (auto simp: partition_heals_def partition_ends_def partition_begins_def drop_unconverge split: prod.splits
        intro: lease_drop_trans [OF drop_unconverge])
  have "lease_drop (fst (snd acc)) (fst (snd (fold (\<lambda>e acc. partition_heals now e (partition_ends now e (partition_begins now e acc))) es acc)))"
    for acc :: "('r, 'dt) partition_acc"
  proof (induction es arbitrary: acc)
    case (Cons e es)
    show ?case using lease_drop_trans [OF step Cons.IH] by simp
  qed simp
  from this [of "(bus, nodes, lg, no_partition_outcome)"] assms show ?thesis
    by (simp add: apply_partition_events_def)
qed

lemma from_supervisor_frame [simp]:
  "ts_nodes (from_supervisor p s) = sup_nodes p" "ts_crashed (from_supervisor p s) = ts_crashed s" "ts_total_ticks (from_supervisor p s) = ts_total_ticks s"
  "ts_clock (from_supervisor p s) = ts_clock s" "sup_nodes (to_supervisor s) = ts_nodes s" "ts_grid_state (from_supervisor p s) = ts_grid_state s"
  "ts_detected (from_supervisor p s) = ts_detected s"
  by (simp_all add: from_supervisor_def to_supervisor_def)

text \<open>What a block leaves alone.\<close>

definition same_clock :: "('r, 'dt, 'st) TickLoopState \<Rightarrow> ('r, 'dt, 'st) TickLoopState \<Rightarrow> bool" where
  "same_clock s s' \<longleftrightarrow> ts_clock s' = ts_clock s \<and> ts_total_ticks s' = ts_total_ticks s \<and> ts_crashed s' = ts_crashed s"

lemma same_clock_refl [simp]: "same_clock s s"
  by (simp add: same_clock_def)

lemma same_clock_trans [trans]: "same_clock s s' \<Longrightarrow> same_clock s' s'' \<Longrightarrow> same_clock s s''"
  by (simp add: same_clock_def)

definition block_ok :: "('r, 'dt, 'st) TickLoopState \<Rightarrow> ('r, 'dt, 'st) TickLoopState \<Rightarrow> bool" where
  "block_ok s s' \<longleftrightarrow> same_clock s s' \<and> fleet_step (ts_crashed s) (ts_nodes s) (ts_nodes s')"

lemma block_ok_refl [simp]: "block_ok s s"
  by (simp add: block_ok_def)

lemma block_ok_trans [trans]: "block_ok s s' \<Longrightarrow> block_ok s' s'' \<Longrightarrow> block_ok s s''"
  unfolding block_ok_def same_clock_def by (auto intro: fleet_step_trans)

lemma fold_block_ok: "(\<And>x s. block_ok s (f x s)) \<Longrightarrow> block_ok s (fold f xs s)"
  by (induction xs arbitrary: s) (auto intro: block_ok_trans)

lemma activate_pair_ok: "block_ok s (activate_pair now p s)"
  by (simp add: activate_pair_def Let_def block_ok_def same_clock_def)

lemma heal_pair_ok: "heal_pair env c now p s = Some s' \<Longrightarrow> block_ok s s'"
  by (auto simp: heal_pair_def Let_def block_ok_def same_clock_def intro!: fleet_step_drop dest: drop_partition_heal)

lemma heal_pairs_ok: "heal_pairs env c now ps s = Some s' \<Longrightarrow> block_ok s s'"
proof (induction ps arbitrary: s)
  case (Cons p ps)
  then obtain s1 where "heal_pair env c now p s = Some s1" "heal_pairs env c now ps s1 = Some s'" by (auto simp: bind_eq_Some_conv)
  then show ?case using Cons.IH heal_pair_ok block_ok_trans by blast
qed simp

lemma partition_block_ok:
  assumes "partition_block env c now failed_now s = Some s'"
  shows "block_ok s s'"
proof -
  obtain bus nodes lg out where a: "apply_partition_events (rc_partition_events c) now (ts_bus s) (ts_nodes s) (ts_log s) = (bus, nodes, lg, out)"
    by (metis surj_pair)
  let ?s1 = "s\<lparr>ts_bus := bus, ts_nodes := nodes, ts_log := lg, ts_partition_events := ts_partition_events s + po_partition_events out,
                ts_partitions_active := (ts_partitions_active s \<or> po_partitions_active out),
                ts_heal_tick := (if po_heal_tick out \<noteq> None then po_heal_tick out else ts_heal_tick s)\<rparr>"
  obtain s3 where s3: "heal_pairs env c now (po_healed_pairs out) (fold (activate_pair now) (po_added_pairs out) ?s1) = Some s3"
      "s' = from_supervisor (handle_node_failures failed_now now (to_supervisor s3)) s3"
    using assms by (auto simp: partition_block_def a Let_def)
  have "block_ok s ?s1" using drop_partition_events [OF a] by (simp add: block_ok_def same_clock_def fleet_step_drop)
  also have "block_ok ?s1 (fold (activate_pair now) (po_added_pairs out) ?s1)" by (rule fold_block_ok) (rule activate_pair_ok)
  also have "block_ok \<dots> s3" using heal_pairs_ok [OF s3(1)] .
  also have "block_ok s3 s'" using drop_node_failures [of "to_supervisor s3" failed_now now] by (simp add: s3(2) block_ok_def same_clock_def fleet_step_drop)
  finally show ?thesis .
qed

text \<open>Sending and processing.\<close>

lemma coordinator_plug [simp]: "coordinator (plug bus n) = coordinator n"
  by (simp add: plug_def)

lemma coordinator_heartbeats [simp]: "coordinator (fst (send_heartbeats env now n)) = coordinator n"
  by (simp add: send_heartbeats_def broadcast_def split: prod.splits)

lemma heartbeats_lview [simp]: "lview (fst (send_heartbeats env now n)) = lview n"
  by (simp add: send_heartbeats_def broadcast_def lview_def split: prod.splits)

lemma plug_lview [simp]: "lview (plug bus n) = lview n"
  by (simp add: plug_def lview_def)

lemma lview_core: "lview m = lview n \<Longrightarrow> node_config m = node_config n \<and> active_leases m = active_leases n"
  by (simp add: lview_def)

lemma drop_alive_heartbeats: "lease_drop ns (fst (send_alive_heartbeats env crashed now ns bus))"
proof (induction ns arbitrary: bus)
  case (Cons x ns)
  obtain n a where x: "x = (n, a)" by (cases x)
  have "same_core (n, a) (fst (send_heartbeats (se_node env) now (plug bus n)), a)"
    using lview_core [of "fst (send_heartbeats (se_node env) now (plug bus n))" n] by (simp add: same_core_def)
  moreover have "same_core (n, a) (n, a)" by (simp add: same_core_def)
  ultimately show ?case using Cons by (simp add: x Let_def)
qed simp

lemma process_alive_step:
  assumes "decoder_wf (se_node env)" "\<forall>t\<in>set injected. owner_ok t"
  shows "process_alive_nodes env alloc crashed now injected ns acc = Some (ns', acc', outs) \<Longrightarrow> fleet_step crashed ns ns'"
proof (induction ns arbitrary: acc ns' acc' outs)
  case (Cons x ns)
  obtain n a where x: "x = (n, a)" by (cases x)
  obtain bus st where acc: "acc = (bus, st)" by (cases acc)
  show ?case
  proof (cases "a \<in> crashed")
    case True
    then show ?thesis using Cons by (auto simp: x acc)
  next
    case False
    then obtain n1 st1 out where p: "process_inbox_and_allocate (se_node env) alloc now st injected (plug bus n) = Some (n1, st1, out)"
      using Cons.prems by (auto simp: x acc split: option.splits)
    have "coord_inv (coordinator n) \<Longrightarrow> coord_inv (coordinator n1)"
      using process_inbox_inv [OF assms(1) _ assms(2) p] by simp
    then have "node_step crashed (n, a) (n1, a)"
      using False lview_core [of n1 n] process_inbox_lview [OF p] by (simp add: node_step_def)
    then show ?thesis using Cons False p by (auto simp: x acc)
  qed
qed simp

definition injected_ok :: "RunConfig \<Rightarrow> bool" where
  "injected_ok c \<longleftrightarrow> (\<forall>e\<in>set (rc_dynamic_tasks c). owner_ok (de_task e))"

lemma node_block_ok:
  assumes "node_block env alloc sc c now s = Some (s', outs)"
  shows "same_clock s s' \<and> (decoder_wf (se_node env) \<and> injected_ok c \<longrightarrow> fleet_step (ts_crashed s) (ts_nodes s) (ts_nodes s'))"
proof -
  have inj: "injected_ok c \<Longrightarrow> \<forall>t\<in>set (tasks_injected_at_tick (rc_dynamic_tasks c) now). owner_ok t"
    by (auto simp: tasks_injected_at_tick_def injected_ok_def)
  define bus where "bus = send_gcs_heartbeats env (ts_nodes s) (ts_crashed s) (ts_base_id s) now
     (update_connectivity_snapshot (ts_nodes s) (ts_crashed s) sc (ts_base_id s) (ts_base_pose s) (ts_bus s))"
  define sent where "sent = send_alive_heartbeats env (ts_crashed s) now (ts_nodes s) bus"
  obtain nodes bus' st where p: "process_alive_nodes env (safety_allocate (rc_safety_config c) alloc) (ts_crashed s) now
      (tasks_injected_at_tick (rc_dynamic_tasks c) now) (fst sent) (snd sent, ts_allocator s) = Some (nodes, (bus', st), outs)"
      "s' = s\<lparr>ts_tasks_injected := ts_tasks_injected s + of_nat (length (tasks_injected_at_tick (rc_dynamic_tasks c) now)), ts_nodes := nodes, ts_bus := bus', ts_allocator := st\<rparr>"
    using assms by (auto simp: node_block_def Let_def sent_def bus_def)
  have "fleet_step (ts_crashed s) (ts_nodes s) (fst sent)" unfolding sent_def by (rule fleet_step_drop [OF drop_alive_heartbeats])
  moreover have "decoder_wf (se_node env) \<Longrightarrow> injected_ok c \<Longrightarrow> fleet_step (ts_crashed s) (fst sent) nodes"
    using process_alive_step [OF _ inj p(1)] .
  ultimately show ?thesis by (auto simp: p(2) same_clock_def intro: fleet_step_trans)
qed

lemma log_assignments_ok [simp]: "block_ok s (log_assignments now target outs s)"
  by (simp add: log_assignments_def block_ok_def same_clock_def split: option.split)

lemma note_autonomy_ok [simp]: "block_ok s (note_autonomy env now ao s)"
  by (simp add: note_autonomy_def block_ok_def same_clock_def split: prod.split)

lemma count_degraded_ok [simp]: "block_ok s (count_degraded s)"
  by (simp add: count_degraded_def block_ok_def same_clock_def)

text \<open>Movement.\<close>

lemma teleport_membership: "mem_wf (membership (coordinator n)) \<Longrightarrow> mem_wf (membership (coordinator (teleport_node a n)))"
proof -
  have "mem_wf v \<Longrightarrow> mem_wf (fold (\<lambda>t v. case t_pose t of None \<Rightarrow> v | Some p \<Rightarrow> update_pose a p v) ts v)" for ts v
    by (induction ts arbitrary: v) (auto split: option.splits)
  then show "mem_wf (membership (coordinator n)) \<Longrightarrow> mem_wf (membership (coordinator (teleport_node a n)))" by (simp add: teleport_node_def)
qed

lemma teleport_step: "fleet_step crashed ns (teleport_assigned_tasks_when_movement_disabled crashed enabled ns)"
  unfolding teleport_assigned_tasks_when_movement_disabled_def
  by (auto intro!: fleet_step_map simp: node_step_def coord_inv_def teleport_membership split: prod.splits) (simp_all add: teleport_node_def)

lemma environment_loop_keys: "hm_keys (fst (environment_loop gen wind noise dt g es)) = hm_keys es"
proof (induction es arbitrary: g)
  case (Cons x es)
  obtain i e where "x = (i, e)" by (cases x)
  then show ?case using Cons by (auto simp: Let_def split: prod.splits) (metis fst_conv)+
qed simp

lemma environment_step: "fleet_step crashed ns (environment_nodes gen crashed wind noise dt g ns)"
proof (induction ns arbitrary: g)
  case (Cons x ns)
  obtain n a where x: "x = (n, a)" by (cases x)
  obtain v g' where e: "Membership.apply_environment_effects gen wind noise g dt (membership (coordinator n)) = (v, g')" by (metis surj_pair)
  then have "hm_keys (agents v) = hm_keys (agents (membership (coordinator n)))"
    using environment_loop_keys [of gen wind noise dt g "agents (membership (coordinator n))"]
    by (auto simp: Membership.apply_environment_effects_def Let_def split: prod.splits)
  then have "mem_wf (membership (coordinator n)) \<Longrightarrow> mem_wf v" by (simp add: hm_wf_def)
  then show ?case using Cons by (simp add: x e node_step_def coord_inv_def)
qed simp

lemma movement_block_ok [simp]: "block_ok s (movement_block env sc c now s)"
  by (auto simp: movement_block_def block_ok_def same_clock_def fleet_environment_effects_def
      intro: fleet_step_trans [OF teleport_step environment_step] teleport_step)

lemma safety_block_ok: "safety_block sc c now s = Some s' \<Longrightarrow> block_ok s s'"
  by (auto simp: safety_block_def block_ok_def same_clock_def split: option.splits)

lemma cbba_block_ok [simp]: "block_ok s (cbba_block now s)"
  by (simp add: cbba_block_def block_ok_def same_clock_def)

text \<open>Missions change registries, by operations that keep their invariant.\<close>

lemma with_registry_step: "(reg_inv (registry (coordinator n)) \<Longrightarrow> reg_inv (f (registry (coordinator n)))) \<Longrightarrow> node_step crashed (n, a) (with_registry f n, a)"
  by (simp add: node_step_def with_registry_def coord_inv_def)

lemma inspect_tasks_inv: "fold (inspect_task now a entry) ts (s, k, lg, r) = (s', k', lg', r') \<Longrightarrow> reg_inv r \<Longrightarrow> reg_inv r'"
proof (induction ts arbitrary: s k lg r)
  case (Cons t ts)
  obtain s1 k1 lg1 r1 where one: "inspect_task now a entry t (s, k, lg, r) = (s1, k1, lg1, r1)" by (metis surj_pair)
  then have "reg_inv r1" using Cons.prems(2) by (auto simp: inspect_task_def Let_def complete_assigned_inv split: option.splits)
  then show ?case using Cons.IH [of s1 k1 lg1 r1] Cons.prems(1) one by simp
qed simp

lemma inspect_nodes_step: "fleet_step crashed ns (fst (inspect_nodes now crashed ns acc))"
proof (induction now crashed ns acc rule: inspect_nodes.induct)
  case (2 now crashed n a ns s k lg)
  obtain s1 k1 lg1 r1 where f: "fold (inspect_task now a (hm_get (agents (membership (coordinator n))) a)) (assigned_to_agent a (\<lambda>t. t_edge_id t \<noteq> None) n)
      (s, k, lg, registry (coordinator n)) = (s1, k1, lg1, r1)" by (metis surj_pair)
  have "node_step crashed (n, a) (with_registry (\<lambda>_. r1) n, a)" using inspect_tasks_inv [OF f] by (rule with_registry_step)
  then show ?case using 2 f by simp
qed simp

lemma inspection_block_ok [simp]: "block_ok s (inspection_block now s)"
proof (cases "ts_inspection_state s")
  case (Some i)
  obtain ns i1 k es where r: "inspect_nodes now (ts_crashed s) (ts_nodes s) (i, 0, sub_log (ts_log s)) = (ns, i1, k, es)" by (metis surj_pair)
  from inspect_nodes_step [of "ts_crashed s" "ts_nodes s" now "(i, 0, sub_log (ts_log s))"] r
  show ?thesis by (simp add: inspection_block_def Some record_inspection_edge_visits_def block_ok_def same_clock_def)
qed (simp add: inspection_block_def)

lemma complete_scanned_inv: "reg_inv r \<Longrightarrow> reg_inv (complete_scanned tids r)"
  unfolding complete_scanned_def by (induction tids arbitrary: r) (simp_all add: complete_assigned_inv)

lemma scan_nodes_step: "scan_nodes draw seed now crashed ns acc = Some (ns', acc') \<Longrightarrow> fleet_step crashed ns ns'"
proof (induction draw seed now crashed ns acc arbitrary: ns' acc' rule: scan_nodes.induct)
  case (2 draw seed now crashed n a ns gs lg)
  show ?case
  proof (cases "a \<in> crashed")
    case True
    then obtain ms where "scan_nodes draw seed now crashed ns (gs, lg) = Some (ms, acc')" "ns' = (n, a) # ms" using 2(3) by auto
    then show ?thesis using 2(1) True by simp
  next
    case False
    define assigned where "assigned = map (\<lambda>t. (t_id t, t_grid_cell t)) (filter (\<lambda>t. t_assigned_to t = Some a) (hm_values (tasks (registry (coordinator n)))))"
    obtain gs1 lg1 tids where sc: "scan_tasks draw seed now a (hm_get (agents (membership (coordinator n))) a) assigned (gs, lg, []) = Some (gs1, lg1, tids)"
      using 2(3) False by (simp add: assigned_def split: option.splits) auto
    then obtain ms where ms: "scan_nodes draw seed now crashed ns (gs1, sar_push (map (\<lambda>tid. EvTaskCompleted tid a now) tids) lg1) = Some (ms, acc')"
        "ns' = (with_registry (complete_scanned tids) n, a) # ms"
      using 2(3) False by (auto simp: assigned_def)
    have "node_step crashed (n, a) (with_registry (complete_scanned tids) n, a)" using complete_scanned_inv by (rule with_registry_step)
    then show ?thesis using 2(2) [OF False assigned_def sc refl refl ms(1)] ms(2) by simp
  qed
qed simp

text \<open>A registry whose tasks keep their identity, status and owner.\<close>

lemma reg_inv_same_tasks:
  assumes "reg_inv r" "list_all2 (\<lambda>(k, t) (k', t'). k' = k \<and> t_id t' = t_id t \<and> t_status t' = t_status t \<and> t_assigned_to t' = t_assigned_to t) (tasks r) ts"
  shows "reg_inv (r\<lparr>tasks := ts\<rparr>)"
proof -
  have keys: "hm_keys ts = hm_keys (tasks r)" using assms(2) by (induction rule: list_all2_induct) auto
  have wf: "hm_wf ts" using assms(1) keys by (simp add: reg_inv_iff hm_wf_def)
  have "t_id t = k \<and> owner_ok t" if "hm_get ts k = Some t" for k t
  proof -
    have "(k, t) \<in> set ts" using that hm_get_Some_iff [OF wf] by blast
    then obtain i where i: "i < length ts" "ts ! i = (k, t)" by (auto simp: in_set_conv_nth)
    have len: "i < length (tasks r)" using i(1) assms(2) by (simp add: list_all2_lengthD)
    obtain k0 t0 where x: "tasks r ! i = (k0, t0)" by (cases "tasks r ! i")
    with list_all2_nthD [OF assms(2) len] i(2)
    have t0: "tasks r ! i = (k, t0)" "t_id t = t_id t0" "t_status t = t_status t0" "t_assigned_to t = t_assigned_to t0" by simp_all
    have "i < length (tasks r)" by (rule len)
    then have "(k, t0) \<in> set (tasks r)" using t0(1) nth_mem by metis
    then have "task_of r k = Some t0" using assms(1) by (simp add: reg_inv_iff task_of_def hm_get_Some_iff)
    then have "t_id t0 = k \<and> owner_ok t0" using assms(1) by (simp add: reg_inv_iff)
    then show ?thesis using t0 by (simp add: owner_ok_def unfinished_def)
  qed
  then show ?thesis using wf by (simp add: reg_inv_iff task_of_def)
qed


text \<open>Changing priorities keeps the registry.\<close>

definition same_task :: "TaskId \<times> Task \<Rightarrow> TaskId \<times> Task \<Rightarrow> bool" where
  "same_task x y \<longleftrightarrow> fst y = fst x \<and> t_id (snd y) = t_id (snd x) \<and> t_status (snd y) = t_status (snd x) \<and> t_assigned_to (snd y) = t_assigned_to (snd x)"

lemma same_tasks_step:
  assumes "list_all2 same_task (tasks (registry (coordinator n))) ts"
  shows "node_step crashed (n, a) (with_registry (\<lambda>r. r\<lparr>tasks := ts\<rparr>) n, a)"
proof (rule with_registry_step)
  show "reg_inv (registry (coordinator n)) \<Longrightarrow> reg_inv ((registry (coordinator n))\<lparr>tasks := ts\<rparr>)"
    by (erule reg_inv_same_tasks) (rule list_all2_mono [OF assms], auto simp: same_task_def)
qed

lemma those_list_all2: "those (map f xs) = Some ys \<Longrightarrow> (\<And>x y. x \<in> set xs \<Longrightarrow> f x = Some y \<Longrightarrow> P x y) \<Longrightarrow> list_all2 P xs ys"
  by (induction xs arbitrary: ys) (auto split: option.splits)

lemma rerank_tasks_step:
  assumes "rerank_tasks_by_entropy log2 gs (registry (coordinator n)) = Some r"
  shows "node_step crashed (n, a) (with_registry (\<lambda>_. r) n, a)"
proof (cases "gs_belief_map gs")
  case None
  then have "r = registry (coordinator n)" using assms by (simp add: rerank_tasks_by_entropy_def)
  then show ?thesis by (intro with_registry_step) simp
next
  case (Some b)
  then obtain ts where ts: "those (map (\<lambda>(tid, t). map_option (Pair tid) (rerank_task log2 b t)) (tasks (registry (coordinator n)))) = Some ts"
      "r = (registry (coordinator n))\<lparr>tasks := ts\<rparr>"
    using assms by (auto simp: rerank_tasks_by_entropy_def)
  have "list_all2 same_task (tasks (registry (coordinator n))) ts"
    by (rule those_list_all2 [OF ts(1)]) (auto simp: rerank_task_def same_task_def split: if_splits option.splits)
  from same_tasks_step [OF this] show ?thesis by (simp add: ts(2) with_registry_def)
qed

lemma rerank_nodes_step: "rerank_nodes log2 gs ns = Some ns' \<Longrightarrow> fleet_step crashed ns ns'"
  unfolding rerank_nodes_def fleet_step_def by (rule those_list_all2) (auto dest: rerank_tasks_step)

lemma sar_block_ok:
  assumes "sar_block env sc c now s = Some s'"
  shows "block_ok s s'"
proof (cases "ts_grid_state s")
  case (Some g)
  obtain ns g1 es where r: "record_sar_scans (se_log2 env) (\<lambda>x. fst (se_gen env (se_seed env x))) (sc_seed sc) now (rc_dynamic_belief_updates c) (ts_crashed s)
        (ts_nodes s) g (sub_log (ts_log s)) = Some (ns, g1, es)"
      "s' = s\<lparr>ts_nodes := ns, ts_grid_state := Some g1, ts_coverage_over_time := ts_coverage_over_time s @ [coverage_fraction g1], ts_log := join_log EvSar es (ts_log s)\<rparr>"
    using assms by (auto simp: sar_block_def Some)
  then have "fleet_step (ts_crashed s) (ts_nodes s) ns"
    using fleet_step_trans [OF scan_nodes_step rerank_nodes_step] scan_nodes_step
    by (fastforce simp: record_sar_scans_def split: option.splits if_splits)
  then show ?thesis by (simp add: r(2) block_ok_def same_clock_def)
qed (use assms in \<open>simp add: sar_block_def\<close>)

lemma map_zones_inv: "fold (map_zone now already a entry) ts (w, m, lg, r) = (w', m', lg', r') \<Longrightarrow> reg_inv r \<Longrightarrow> reg_inv r'"
proof (induction ts arbitrary: w m lg r)
  case (Cons t ts)
  obtain w1 m1 lg1 r1 where one: "map_zone now already a entry t (w, m, lg, r) = (w1, m1, lg1, r1)" by (metis surj_pair)
  then have "reg_inv r1" using Cons.prems(2) by (auto simp: map_zone_def Let_def complete_assigned_inv split: option.splits if_splits)
  then show ?case using Cons.IH [of w1 m1 lg1 r1] Cons.prems(1) one by simp
qed simp

lemma map_nodes_zones_step: "fleet_step crashed ns (fst (map_nodes_zones now already crashed ns acc))"
proof (induction now already crashed ns acc rule: map_nodes_zones.induct)
  case (2 now already crashed n a ns w m lg)
  obtain w1 m1 lg1 r1 where f: "fold (map_zone now already a (hm_get (agents (membership (coordinator n))) a)) (assigned_to_agent a (\<lambda>t. t_kind t = Some MappingZone) n)
      (w, m, lg, registry (coordinator n)) = (w1, m1, lg1, r1)" by (metis surj_pair)
  have "node_step crashed (n, a) (with_registry (\<lambda>_. r1) n, a)" using map_zones_inv [OF f] by (rule with_registry_step)
  then show ?case using 2 f by simp
qed simp

lemma update_task_priorities_same: "update_task_priorities now threshold zones ts acc = (ts', acc') \<Longrightarrow> list_all2 same_task ts ts'"
proof (induction ts arbitrary: acc ts' acc')
  case (Cons x ts)
  obtain k t where x: "x = (k, t)" by (cases x)
  obtain t1 acc1 where one: "update_task_priority now threshold zones t acc = (t1, acc1)" by (metis surj_pair)
  obtain ts1 acc2 where rest: "update_task_priorities now threshold zones ts acc1 = (ts1, acc2)" by (metis surj_pair)
  have "same_task (k, t) (k, t1)"
    using one by (auto simp: update_task_priority_def same_task_def Let_def split: if_splits option.splits prod.splits)
  then show ?case using Cons.prems Cons.IH [OF rest] by (auto simp: x one rest)
qed simp

lemma update_node_priorities_step: "fleet_step crashed ns (fst (update_node_priorities now threshold zones ns acc))"
proof (induction ns arbitrary: acc)
  case (Cons x ns)
  obtain n a where x: "x = (n, a)" by (cases x)
  obtain ts acc1 where u: "update_task_priorities now threshold zones (tasks (registry (coordinator n))) acc = (ts, acc1)" by (metis surj_pair)
  show ?case using Cons [of acc1] same_tasks_step [OF update_task_priorities_same [OF u]] by (simp add: x u)
qed simp

lemma dynamic_threat_step: "fleet_step crashed (fst st) (fst (update_dynamic_threat wind threshold now st))"
proof -
  obtain ns w m lg where st: "st = (ns, w, m, lg)" by (metis surj_pair)
  show ?thesis
    using update_node_priorities_step [of crashed ns now threshold "map2 grow_zone (wf_zones w) (threat_changes wind w)"]
    by (simp add: st update_dynamic_threat_def Let_def case_prod_beta)
qed

lemma release_in_nodes_step: "fleet_step crashed ns (fst (release_in_nodes cr tid ns))"
  by (induction cr tid ns rule: release_in_nodes.induct) (auto simp: case_prod_beta intro!: with_registry_step release_task_inv)

lemma release_requested_ok: "block_ok s (release_requested now r s)"
  using release_in_nodes_step [of "ts_crashed s" "ts_nodes s" "ts_crashed s" "pr_task_id r"]
  by (simp add: release_requested_def block_ok_def same_clock_def case_prod_beta)

lemma wildfire_block_ok [simp]: "block_ok s (wildfire_block c now s)"
proof (cases "ts_wildfire_state s")
  case (Some w)
  let ?already = "ts_time_to_map_first_high_risk s \<noteq> None"
  let ?mapped = "map_nodes_zones now ?already (ts_crashed s) (ts_nodes s) (w, no_wildfire_metrics, sub_log (ts_log s))"
  obtain ns w1 m es where u: "update_dynamic_threat (rc_wind c) (rc_wildfire_priority_realloc_threshold c) now ?mapped = (ns, w1, m, es)" by (metis surj_pair)
  have "fleet_step (ts_crashed s) (ts_nodes s) ns"
    using fleet_step_trans [OF map_nodes_zones_step dynamic_threat_step] u by (metis fst_conv)
  then have "block_ok s (s\<lparr>ts_nodes := ns, ts_wildfire_state := Some w1, ts_log := join_log EvField es (ts_log s), ts_priority_updates := x1,
      ts_high_priority_zones_mapped := x2, ts_time_to_map_first_high_risk := x3, ts_zone_observations := x4, ts_threat_level_over_time := x5\<rparr>)" for x1 x2 x3 x4 x5
    by (simp add: block_ok_def same_clock_def)
  moreover have "block_ok s1 (fold (release_requested now) rs s1)" for rs and s1 :: "('a, 'b, 'c) TickLoopState"
    by (rule fold_block_ok) (rule release_requested_ok)
  ultimately show ?thesis
    unfolding wildfire_block_def Some option.case process_wildfire_mapping_tick_def u prod.case by (rule block_ok_trans)
qed (simp add: wildfire_block_def)


text \<open>Measurements touch no node.\<close>

lemma measured [simp]:
  "ts_nodes (measure_blocks sc now outs target s) = ts_nodes s" "same_clock s (measure_blocks sc now outs target s)"
  "ts_grid_state (measure_blocks sc now outs target s) = ts_grid_state s" "ts_tasks_injected (measure_blocks sc now outs target s) = ts_tasks_injected s"
proof -
  have c: "ts_nodes (connectivity_block sc s) = ts_nodes s \<and> same_clock s (connectivity_block sc s) \<and> ts_grid_state (connectivity_block sc s) = ts_grid_state s \<and>
      ts_tasks_injected (connectivity_block sc s) = ts_tasks_injected s" for s :: "('a, 'b, 'c) TickLoopState"
    by (simp add: connectivity_block_def same_clock_def split: option.split)
  have n: "ts_nodes (fold (\<lambda>ao. note_output now (snd ao)) outs s) = ts_nodes s \<and> same_clock s (fold (\<lambda>ao. note_output now (snd ao)) outs s) \<and>
      ts_grid_state (fold (\<lambda>ao. note_output now (snd ao)) outs s) = ts_grid_state s \<and>
      ts_tasks_injected (fold (\<lambda>ao. note_output now (snd ao)) outs s) = ts_tasks_injected s" for s :: "('a, 'b, 'c) TickLoopState"
    by (induction outs arbitrary: s) (simp_all add: note_output_def Let_def same_clock_def)
  have d: "ts_nodes (divergence_block now outs target s) = ts_nodes s \<and> same_clock s (divergence_block now outs target s) \<and>
      ts_grid_state (divergence_block now outs target s) = ts_grid_state s \<and> ts_tasks_injected (divergence_block now outs target s) = ts_tasks_injected s"
    for s :: "('a, 'b, 'c) TickLoopState"
    by (simp add: divergence_block_def Let_def same_clock_def split: option.split)
  have e: "ts_nodes (reallocation_block now outs target co s) = ts_nodes s \<and> same_clock s (reallocation_block now outs target co s) \<and>
      ts_grid_state (reallocation_block now outs target co s) = ts_grid_state s \<and>
      ts_tasks_injected (reallocation_block now outs target co s) = ts_tasks_injected s" for co and s :: "('a, 'b, 'c) TickLoopState"
    by (simp add: reallocation_block_def same_clock_def split: option.split)
  have r: "ts_nodes (relay_block now outs co s) = ts_nodes s \<and> same_clock s (relay_block now outs co s) \<and>
      ts_grid_state (relay_block now outs co s) = ts_grid_state s \<and> ts_tasks_injected (relay_block now outs co s) = ts_tasks_injected s"
    for co and s :: "('a, 'b, 'c) TickLoopState"
    by (simp add: relay_block_def Let_def same_clock_def split: option.split)
  have u: "ts_nodes (duration_block now outs target s) = ts_nodes s \<and> same_clock s (duration_block now outs target s) \<and>
      ts_grid_state (duration_block now outs target s) = ts_grid_state s \<and> ts_tasks_injected (duration_block now outs target s) = ts_tasks_injected s"
    for s :: "('a, 'b, 'c) TickLoopState"
    using e r by (simp add: duration_block_def same_clock_def split: option.split prod.split)
  show "ts_nodes (measure_blocks sc now outs target s) = ts_nodes s" "same_clock s (measure_blocks sc now outs target s)"
    "ts_grid_state (measure_blocks sc now outs target s) = ts_grid_state s" "ts_tasks_injected (measure_blocks sc now outs target s) = ts_tasks_injected s"
    using c n d u by (simp_all add: measure_blocks_def same_clock_def)
qed

lemma mission_blocks_ok:
  assumes "mission_blocks env sc c now s = Some s'"
  shows "block_ok s s'"
proof -
  obtain s1 s2 where s: "safety_block sc c now (movement_block env sc c now s) = Some s1"
      "sar_block env sc c now (inspection_block now (cbba_block now s1)) = Some s2" "s' = wildfire_block c now s2"
    using assms by (auto simp: mission_blocks_def bind_eq_Some_conv)
  have "block_ok s (movement_block env sc c now s)" by simp
  also have "block_ok \<dots> s1" using s(1) by (rule safety_block_ok)
  also have "block_ok s1 (cbba_block now s1)" by simp
  also have "block_ok \<dots> (inspection_block now (cbba_block now s1))" by simp
  also have "block_ok \<dots> s2" using s(2) by (rule sar_block_ok)
  also have "block_ok s2 s'" by (simp add: s(3))
  finally show ?thesis .
qed

section \<open>One tick\<close>

lemma record_agent_failures_crashed:
  "fst (record_agent_failures fs now (crashed, lg)) = crashed \<union> {fe_agent_id f | f. f \<in> set fs \<and> fe_at_tick f = now}"
proof -
  have "fst (fold (\<lambda>f (crashed, lg). (insert (fe_agent_id f) crashed, sim_push [EvAgentFailed (fe_agent_id f) now] lg)) xs (crashed, lg)) =
      crashed \<union> fe_agent_id ` set xs" for xs and lg :: "'a sim_log"
    by (induction xs arbitrary: crashed lg) auto
  then show ?thesis by (auto simp: record_agent_failures_def)
qed

lemma start_tick_frame:
  assumes "start_tick c s = (s0, failed)"
  shows "ts_nodes s0 = ts_nodes s" "ts_clock s0 = clock_advance (ts_clock s)" "ts_total_ticks s0 = clock_current (ts_clock s) + 1"
    "ts_crashed s0 = ts_crashed s \<union> {fe_agent_id f | f. f \<in> set (rc_failures c) \<and> fe_at_tick f = clock_current (ts_clock s) + 1}"
    "ts_grid_state s0 = ts_grid_state s" "ts_tasks_injected s0 = ts_tasks_injected s"
proof -
  have s0: "s0 = fst (start_tick c s)" using assms by simp
  show "ts_nodes s0 = ts_nodes s" "ts_clock s0 = clock_advance (ts_clock s)" "ts_total_ticks s0 = clock_current (ts_clock s) + 1"
    "ts_grid_state s0 = ts_grid_state s" "ts_tasks_injected s0 = ts_tasks_injected s"
    by (simp_all add: s0 start_tick_def Let_def clock_advance_def)
  show "ts_crashed s0 = ts_crashed s \<union> {fe_agent_id f | f. f \<in> set (rc_failures c) \<and> fe_at_tick f = clock_current (ts_clock s) + 1}"
    unfolding s0 start_tick_def Let_def by (simp add: clock_advance_def record_agent_failures_crashed)
qed

text \<open>The states between the blocks of a tick.\<close>

lemma tick_once_stages:
  assumes "tick_once env alloc sc c s = Some (s', stop)"
  obtains s0 failed s1 s2 outs s4 where "start_tick c s = (s0, failed)" "partition_block env c (ts_total_ticks s0) failed s0 = Some s1"
    "node_block env alloc sc c (ts_total_ticks s0) s1 = Some (s2, outs)"
    "mission_blocks env sc c (ts_total_ticks s0) (count_degraded (fold (note_autonomy env (ts_total_ticks s0)) outs
       (log_assignments (ts_total_ticks s0) (first_active_agent_id (ts_crashed s2) (ts_nodes s2)) outs s2))) = Some s4"
    "s' = measure_blocks sc (ts_total_ticks s0) outs (first_active_agent_id (ts_crashed s2) (ts_nodes s2)) s4"
    "stop = should_stop_tick (stop_snapshot c (ts_total_ticks s0) s') (ts_max_task_unassigned_ticks s') (rc_max_unassigned_ticks c)"
proof -
  obtain s0 failed where st: "start_tick c s = (s0, failed)" by (metis surj_pair)
  show ?thesis
    using assms by (auto simp: tick_once_def st Let_def bind_eq_Some_conv intro: that [OF st])
qed

lemma tick_once_ok:
  assumes "tick_once env alloc sc c s = Some (s', stop)"
  shows "(decoder_wf (se_node env) \<and> injected_ok c \<longrightarrow> fleet_step (ts_crashed s') (ts_nodes s) (ts_nodes s'))"
    and "ts_clock s' = clock_advance (ts_clock s)" "ts_total_ticks s' = clock_current (ts_clock s) + 1"
    and "ts_crashed s' = ts_crashed s \<union> {fe_agent_id f | f. f \<in> set (rc_failures c) \<and> fe_at_tick f = clock_current (ts_clock s) + 1}"
    and "stop = should_stop_tick (stop_snapshot c (ts_total_ticks s') s') (ts_max_task_unassigned_ticks s') (rc_max_unassigned_ticks c)"
proof -
  obtain s0 failed s1 s2 outs s4 where st: "start_tick c s = (s0, failed)" and p: "partition_block env c (ts_total_ticks s0) failed s0 = Some s1"
    and n: "node_block env alloc sc c (ts_total_ticks s0) s1 = Some (s2, outs)"
    and m: "mission_blocks env sc c (ts_total_ticks s0) (count_degraded (fold (note_autonomy env (ts_total_ticks s0)) outs
       (log_assignments (ts_total_ticks s0) (first_active_agent_id (ts_crashed s2) (ts_nodes s2)) outs s2))) = Some s4"
    and s': "s' = measure_blocks sc (ts_total_ticks s0) outs (first_active_agent_id (ts_crashed s2) (ts_nodes s2)) s4"
    and stop: "stop = should_stop_tick (stop_snapshot c (ts_total_ticks s0) s') (ts_max_task_unassigned_ticks s') (rc_max_unassigned_ticks c)"
    using tick_once_stages [OF assms] by blast
  let ?now = "ts_total_ticks s0" and ?target = "first_active_agent_id (ts_crashed s2) (ts_nodes s2)"
  note frame = start_tick_frame [OF st]
  have a: "block_ok s0 s1" using p by (rule partition_block_ok)
  note b = node_block_ok [OF n]
  have "block_ok s2 (log_assignments ?now ?target outs s2)" by simp
  also have "block_ok \<dots> (fold (note_autonomy env ?now) outs \<dots>)" by (rule fold_block_ok) simp
  also have "block_ok \<dots> (count_degraded \<dots>)" by simp
  also have "block_ok \<dots> s4" using m by (rule mission_blocks_ok)
  finally have d: "block_ok s2 s4" .
  have e: "ts_nodes s' = ts_nodes s4" "same_clock s4 s'" unfolding s' by simp_all
  have clk: "same_clock s0 s'" using a b d e by (auto simp: block_ok_def intro: same_clock_trans)
  show "(decoder_wf (se_node env) \<and> injected_ok c \<longrightarrow> fleet_step (ts_crashed s') (ts_nodes s) (ts_nodes s'))"
  proof
    assume "decoder_wf (se_node env) \<and> injected_ok c"
    then have "fleet_step (ts_crashed s0) (ts_nodes s1) (ts_nodes s2)" using a b by (simp add: block_ok_def same_clock_def)
    then have "fleet_step (ts_crashed s0) (ts_nodes s0) (ts_nodes s4)"
      using a b d by (auto simp: block_ok_def same_clock_def intro: fleet_step_trans)
    then show "fleet_step (ts_crashed s') (ts_nodes s) (ts_nodes s')" using e clk frame by (simp add: same_clock_def)
  qed
  show total: "ts_total_ticks s' = clock_current (ts_clock s) + 1" and "ts_clock s' = clock_advance (ts_clock s)"
    and "ts_crashed s' = ts_crashed s \<union> {fe_agent_id f | f. f \<in> set (rc_failures c) \<and> fe_at_tick f = clock_current (ts_clock s) + 1}"
    using clk frame by (simp_all add: same_clock_def)
  show "stop = should_stop_tick (stop_snapshot c (ts_total_ticks s') s') (ts_max_task_unassigned_ticks s') (rc_max_unassigned_ticks c)"
    using stop total frame by simp
qed

section \<open>Runs\<close>

text \<open>The states at the end of the ticks of a run.\<close>

inductive sim_reachable ::
    "('r, 'dt, 'g) SimEnv \<Rightarrow> 'st alloc_fun \<Rightarrow> Scenario \<Rightarrow> RunConfig \<Rightarrow> ('r, 'dt, 'st) TickLoopState \<Rightarrow> nat \<Rightarrow> ('r, 'dt, 'st) TickLoopState \<Rightarrow> bool"
  for env alloc sc c s0 where
  sim_start: "sim_reachable env alloc sc c s0 0 s0"
| sim_tick: "sim_reachable env alloc sc c s0 k s \<Longrightarrow> tick_once env alloc sc c s = Some (s', stop) \<Longrightarrow> sim_reachable env alloc sc c s0 (Suc k) s'"

text \<open>A run ends after at most the given number of ticks, and earlier only when it may stop.\<close>

lemma tick_loop_reachable:
  "tick_loop env alloc sc c k s = Some s' \<Longrightarrow> sim_reachable env alloc sc c s0 j s \<Longrightarrow>
   \<exists>m\<le>k. sim_reachable env alloc sc c s0 (j + m) s' \<and>
     (m < k \<longrightarrow> should_stop_tick (stop_snapshot c (ts_total_ticks s') s') (ts_max_task_unassigned_ticks s') (rc_max_unassigned_ticks c))"
proof (induction k arbitrary: s j)
  case (Suc k)
  then obtain s1 stop where one: "tick_once env alloc sc c s = Some (s1, stop)" "(if stop then Some s1 else tick_loop env alloc sc c k s1) = Some s'"
    by (auto simp: bind_eq_Some_conv)
  have r: "sim_reachable env alloc sc c s0 (j + 1) s1" using sim_tick [OF Suc.prems(2) one(1)] by simp
  show ?case
  proof (cases stop)
    case True
    then show ?thesis using one tick_once_ok(5) [OF one(1)] r by (intro exI [of _ 1]) simp
  next
    case False
    then obtain m where "m \<le> k" "sim_reachable env alloc sc c s0 (j + 1 + m) s'"
        "m < k \<longrightarrow> should_stop_tick (stop_snapshot c (ts_total_ticks s') s') (ts_max_task_unassigned_ticks s') (rc_max_unassigned_ticks c)"
      using Suc.IH [OF _ r] one(2) by auto
    then show ?thesis by (intro exI [of _ "Suc m"]) simp
  qed
qed auto

lemma sim_reachable_clock:
  assumes "sim_reachable env alloc sc c s0 k s" "clock_current (ts_clock s0) = 0" "ts_crashed s0 = {}" "ts_total_ticks s0 = 0"
  shows "clock_current (ts_clock s) = of_nat k \<and> ts_total_ticks s = of_nat k \<and>
    (k < 2 ^ 64 \<longrightarrow> ts_crashed s = {fe_agent_id f | f. f \<in> set (rc_failures c) \<and> 1 \<le> unat (fe_at_tick f) \<and> unat (fe_at_tick f) \<le> k})"
  using assms
proof (induction rule: sim_reachable.induct)
  case (sim_tick k s s' stop)
  note one = tick_once_ok [OF sim_tick.hyps(2)]
  have ih: "clock_current (ts_clock s) = of_nat k" using sim_tick by simp
  have "ts_crashed s' = {fe_agent_id f | f. f \<in> set (rc_failures c) \<and> 1 \<le> unat (fe_at_tick f) \<and> unat (fe_at_tick f) \<le> Suc k}" if "Suc k < 2 ^ 64"
  proof -
    have now: "x = of_nat k + 1 \<longleftrightarrow> unat x = Suc k" for x :: u64
    proof
      assume "x = of_nat k + 1"
      then have "x = of_nat (Suc k)" by simp
      then show "unat x = Suc k" using that by (simp add: unat_of_nat take_bit_nat_eq_self del: of_nat_Suc)
    next
      assume "unat x = Suc k"
      then have "(of_nat (unat x) :: u64) = of_nat (Suc k)" by (rule arg_cong)
      then show "x = of_nat k + 1" by simp
    qed
    have "ts_crashed s = {fe_agent_id f | f. f \<in> set (rc_failures c) \<and> 1 \<le> unat (fe_at_tick f) \<and> unat (fe_at_tick f) \<le> k}"
      using sim_tick that by simp
    then show ?thesis unfolding one(4) ih now by (fastforce simp: le_Suc_eq)
  qed
  then show ?case using one(2,3) ih by (simp add: clock_advance_def algebra_simps)
qed (auto simp: unat_gt_0)

section \<open>A run returns\<close>

text \<open>The calendar is asked about leases only: those of every node stay among the initial ones, with the tick duration of the run.\<close>

definition fleet_leases_ok :: "u64 \<Rightarrow> (('tr, 'dt) AgentNode \<times> AgentId) list \<Rightarrow> bool" where
  "fleet_leases_ok ms ns \<longleftrightarrow> (\<forall>x\<in>set ns. tick_duration_ms (node_config (fst x)) = ms \<and> (\<forall>l\<in>set (active_leases (fst x)). lease_in_range ms l))"

lemma fleet_leases_Cons: "fleet_leases_ok ms (x # ns) \<longleftrightarrow>
    (tick_duration_ms (node_config (fst x)) = ms \<and> (\<forall>l\<in>set (active_leases (fst x)). lease_in_range ms l)) \<and> fleet_leases_ok ms ns"
  by (simp add: fleet_leases_ok_def)

lemma node_step_leases:
  "node_step dead x y \<Longrightarrow> tick_duration_ms (node_config (fst x)) = ms \<Longrightarrow> \<forall>l\<in>set (active_leases (fst x)). lease_in_range ms l \<Longrightarrow>
   tick_duration_ms (node_config (fst y)) = ms \<and> (\<forall>l\<in>set (active_leases (fst y)). lease_in_range ms l)"
  unfolding node_step_def by (metis subsetD)

lemma fleet_step_leases: "fleet_step crashed ns ms \<Longrightarrow> fleet_leases_ok k ns \<Longrightarrow> fleet_leases_ok k ms"
  unfolding fleet_step_def
proof (induction rule: list_all2_induct)
  case (Cons x xs y ys)
  then show ?case unfolding fleet_leases_Cons using node_step_leases [OF Cons.hyps(1)] by blast
qed simp

lemma fleet_leases_range: "fleet_leases_ok ms ns \<Longrightarrow> (n, a) \<in> set ns \<Longrightarrow> leases_in_range n"
  by (force simp: fleet_leases_ok_def leases_in_range_def)

definition runnable :: "('r, 'dt, 'g) SimEnv \<Rightarrow> 'st alloc_fun \<Rightarrow> bool" where
  "runnable env alloc \<longleftrightarrow> env_poll (se_node env) = agent_poll \<and> calendar_documented (se_node env) \<and> decoder_wf (se_node env) \<and>
     (\<forall>st ts as conn. alloc st ts as conn \<noteq> None)"

lemma heal_pair_total:
  assumes "calendar_documented (se_node env)" "fleet_leases_ok (rc_tick_duration_ms c) (ts_nodes s)"
  shows "\<exists>s'. heal_pair env c now p s = Some s'"
proof -
  define s1 where "s1 = s\<lparr>ts_active_partition_pairs := ts_active_partition_pairs s - {p}\<rparr>"
  have "as_lease (at_millis (se_node env)) (fst (snd x)) (rc_tick_duration_ms c) (snd (snd x)) \<noteq> None"
    if x: "x \<in> set (live_leases (ts_crashed s1) (sup_nodes (to_supervisor s1)))" for x
  proof -
    obtain i n a where "(i, n, a) \<in> set (enumerate 0 (ts_nodes s))" "snd (snd x) \<in> set (active_leases n)"
      using x by (auto simp: live_leases_def s1_def split: if_splits)
    then have "(n, a) \<in> set (ts_nodes s)" "snd (snd x) \<in> set (active_leases n)" by (auto simp: enumerate_eq_zip dest: set_zip_rightD)
    then have "lease_in_range (rc_tick_duration_ms c) (snd (snd x))" using assms(2) by (force simp: fleet_leases_ok_def)
    then show ?thesis by (rule as_lease_total [OF assms(1)])
  qed
  then have "\<forall>x\<in>set (live_leases (ts_crashed s1) (sup_nodes (to_supervisor s1))). as_lease (at_millis (se_node env)) (fst (snd x)) (rc_tick_duration_ms c) (snd (snd x)) \<noteq> None"
    by blast
  from handle_partition_heal_nodes [OF this] obtain q where "handle_partition_heal (at_millis (se_node env)) (ts_crashed s1) now p (rc_tick_duration_ms c) (to_supervisor s1) = Some q"
    by blast
  then show ?thesis by (simp add: heal_pair_def Let_def s1_def)
qed

lemma heal_pairs_total:
  "calendar_documented (se_node env) \<Longrightarrow> fleet_leases_ok (rc_tick_duration_ms c) (ts_nodes s) \<Longrightarrow> \<exists>s'. heal_pairs env c now ps s = Some s'"
proof (induction ps arbitrary: s)
  case (Cons p ps)
  obtain s1 where s1: "heal_pair env c now p s = Some s1" using heal_pair_total [OF Cons.prems] by blast
  have "fleet_leases_ok (rc_tick_duration_ms c) (ts_nodes s1)"
    using heal_pair_ok [OF s1] fleet_step_leases Cons.prems(2) by (auto simp: block_ok_def)
  from Cons.IH [OF Cons.prems(1) this] show ?case using s1 by simp
qed simp

lemma partition_block_total:
  assumes "calendar_documented (se_node env)" "fleet_leases_ok (rc_tick_duration_ms c) (ts_nodes s)"
  shows "\<exists>s'. partition_block env c now failed s = Some s'"
proof -
  obtain bus nodes lg out where a: "apply_partition_events (rc_partition_events c) now (ts_bus s) (ts_nodes s) (ts_log s) = (bus, nodes, lg, out)"
    by (metis surj_pair)
  let ?s1 = "s\<lparr>ts_bus := bus, ts_nodes := nodes, ts_log := lg, ts_partition_events := ts_partition_events s + po_partition_events out,
                ts_partitions_active := (ts_partitions_active s \<or> po_partitions_active out),
                ts_heal_tick := (if po_heal_tick out \<noteq> None then po_heal_tick out else ts_heal_tick s)\<rparr>"
  have "fleet_leases_ok (rc_tick_duration_ms c) nodes"
    using fleet_step_leases [OF fleet_step_drop [OF drop_partition_events [OF a]] assms(2)] .
  moreover have "block_ok ?s1 (fold (activate_pair now) (po_added_pairs out) ?s1)" by (rule fold_block_ok) (rule activate_pair_ok)
  ultimately have "fleet_leases_ok (rc_tick_duration_ms c) (ts_nodes (fold (activate_pair now) (po_added_pairs out) ?s1))"
    using fleet_step_leases by (auto simp: block_ok_def)
  from heal_pairs_total [OF assms(1) this, of now "po_healed_pairs out"] show ?thesis
    by (auto simp: partition_block_def a Let_def)
qed

lemma process_alive_total:
  assumes "runnable env alloc"
  shows "fleet_leases_ok ms ns \<Longrightarrow>
    \<exists>r. process_alive_nodes env (safety_allocate cfg alloc) crashed now injected ns acc = Some r"
proof (induction ns arbitrary: acc)
  case (Cons x ns)
  obtain n a where x: "x = (n, a)" by (cases x)
  obtain bus st where acc: "acc = (bus, st)" by (cases acc)
  have rest: "fleet_leases_ok ms ns" using Cons.prems by (simp add: fleet_leases_ok_def)
  have "leases_in_range n" by (rule fleet_leases_range [OF Cons.prems, of n a]) (simp add: x)
  then have "leases_in_range (plug bus n)" by (simp add: lview_range [OF plug_lview])
  moreover have "transport (env_poll (se_node env)) agent_pending" using assms agent.transport_axioms by (simp add: runnable_def)
  moreover have "calendar_documented (se_node env)" "\<And>st ts as conn. safety_allocate cfg alloc st ts as conn \<noteq> None"
    using assms by (simp_all add: runnable_def safety_allocate_def del: not_None_eq)
  ultimately obtain n' st' out where "process_inbox_and_allocate (se_node env) (safety_allocate cfg alloc) now st injected (plug bus n) = Some (n', st', out)"
    using process_inbox_total [of "se_node env" agent_pending "plug bus n" "safety_allocate cfg alloc" st now injected] by auto
  then show ?case using Cons.IH [OF rest, of "(fst (an_transport n'), st')"] Cons.IH [OF rest, of "(bus, st)"] by (auto simp: x acc)
qed simp

lemma node_block_total:
  assumes "runnable env alloc" "fleet_leases_ok (rc_tick_duration_ms c) (ts_nodes s)"
  shows "\<exists>s' outs. node_block env alloc sc c now s = Some (s', outs)"
proof -
  define sent where "sent = send_alive_heartbeats env (ts_crashed s) now (ts_nodes s) (send_gcs_heartbeats env (ts_nodes s) (ts_crashed s) (ts_base_id s) now
     (update_connectivity_snapshot (ts_nodes s) (ts_crashed s) sc (ts_base_id s) (ts_base_pose s) (ts_bus s)))"
  have "fleet_leases_ok (rc_tick_duration_ms c) (fst sent)"
    unfolding sent_def by (rule fleet_step_leases [OF fleet_step_drop [OF drop_alive_heartbeats] assms(2)])
  then obtain nodes bus st outs where "process_alive_nodes env (safety_allocate (rc_safety_config c) alloc) (ts_crashed s) now
      (tasks_injected_at_tick (rc_dynamic_tasks c) now) (fst sent) (snd sent, ts_allocator s) = Some (nodes, (bus, st), outs)"
    using process_alive_total [OF assms(1)] by (metis prod_cases3 surj_pair)
  then show ?thesis by (simp add: node_block_def Let_def sent_def)
qed

lemma those_total_map: "(\<And>x. x \<in> set xs \<Longrightarrow> \<exists>y. f x = Some y) \<Longrightarrow> \<exists>ys. those (map f xs) = Some ys"
  by (induction xs) fastforce+

lemma safety_block_total:
  assumes "snd ` set (ts_nodes s) \<subseteq> a_id ` set (sc_agents sc)"
  shows "\<exists>s'. safety_block sc c now s = Some s'"
proof -
  have "\<exists>ag. own_agent (sc_agents sc) na = Some ag" if "na \<in> set (filter (\<lambda>na. snd na \<notin> ts_crashed s) (ts_nodes s))" for na
  proof -
    have "snd na \<in> a_id ` set (sc_agents sc)" using that assms by auto
    then have "find (\<lambda>a. a_id a = snd na) (sc_agents sc) \<noteq> None" by (auto simp: find_None_iff)
    then show ?thesis by (auto simp: own_agent_def split: option.split)
  qed
  then obtain ags where "those (map (own_agent (sc_agents sc)) (filter (\<lambda>na. snd na \<notin> ts_crashed s) (ts_nodes s))) = Some ags"
    using those_total_map [of "filter (\<lambda>na. snd na \<notin> ts_crashed s) (ts_nodes s)" "own_agent (sc_agents sc)"] by blast
  then show ?thesis by (simp add: safety_block_def record_safety_violations_def Let_def case_prod_unfold split: option.split)
qed

definition no_belief :: "GridState option \<Rightarrow> bool" where
  "no_belief gs \<longleftrightarrow> (\<forall>g. gs = Some g \<longrightarrow> gs_belief_map g = None)"

lemma scan_tasks_total: "gs_belief_map gs = None \<Longrightarrow> \<exists>gs' lg' ids'. scan_tasks draw seed now a entry ts (gs, lg, ids) = Some (gs', lg', ids') \<and> gs_belief_map gs' = None"
proof (induction ts arbitrary: gs lg ids)
  case (Cons t ts)
  obtain tid cell where t: "t = (tid, cell)" by (cases t)
  have scan: "\<exists>gs' hit. scan_cell a x y role now z roll gs = Some (gs', hit) \<and> gs_belief_map gs' = None" for x y role z roll
    using Cons.prems by (auto simp: scan_cell_def mark_cell_def Let_def split: option.split)
  show ?case
  proof (cases "cell = None \<or> entry = None")
    case True
    then show ?thesis using Cons by (auto simp: t split: option.split)
  next
    case False
    then obtain x y e where c: "cell = Some (x, y)" "entry = Some e" by auto
    obtain gs' hit where "scan_cell a x y (e_role e) now (pz (e_pose e)) (draw (seed + now)) gs = Some (gs', hit)" "gs_belief_map gs' = None"
      using scan by blast
    then show ?thesis using Cons by (simp add: t c Let_def)
  qed
qed simp

lemma scan_nodes_total:
  "gs_belief_map (fst acc) = None \<Longrightarrow> \<exists>ns' gs' lg'. scan_nodes draw seed now crashed ns acc = Some (ns', gs', lg') \<and> gs_belief_map gs' = None"
proof (induction ns arbitrary: acc)
  case (Cons x ns)
  obtain n a where x: "x = (n, a)" by (cases x)
  obtain gs lg where acc: "acc = (gs, lg)" by (cases acc)
  define assigned where "assigned = map (\<lambda>t. (t_id t, t_grid_cell t)) (filter (\<lambda>t. t_assigned_to t = Some a) (hm_values (tasks (registry (coordinator n)))))"
  obtain gs1 lg1 ids where s: "scan_tasks draw seed now a (hm_get (agents (membership (coordinator n))) a) assigned (gs, lg, []) = Some (gs1, lg1, ids)"
      "gs_belief_map gs1 = None"
    using scan_tasks_total [of gs draw seed now a "hm_get (agents (membership (coordinator n))) a" assigned lg "[]"] Cons.prems by (auto simp: acc)
  have rest: "\<exists>ns' gs' lg'. scan_nodes draw seed now crashed ns (gs0, lg0) = Some (ns', gs', lg') \<and> gs_belief_map gs' = None"
    if "gs_belief_map gs0 = None" for gs0 lg0
    using Cons.IH [of "(gs0, lg0)"] that by simp
  show ?case
    using rest [of gs lg] rest [of gs1 "sar_push (map (\<lambda>tid. EvTaskCompleted tid a now) ids) lg1"] s Cons.prems
    by (auto simp: x acc assigned_def [symmetric])
next
  case Nil
  then show ?case by (cases acc) simp
qed

lemma sar_block_total:
  assumes "no_belief (ts_grid_state s)"
  shows "\<exists>s'. sar_block env sc c now s = Some s' \<and> no_belief (ts_grid_state s')"
proof (cases "ts_grid_state s")
  case (Some g)
  then have "gs_belief_map g = None" using assms by (simp add: no_belief_def)
  then obtain ns g1 lg1 where "scan_nodes (\<lambda>x. fst (se_gen env (se_seed env x))) (sc_seed sc) now (ts_crashed s) (ts_nodes s) (g, sub_log (ts_log s)) =
      Some (ns, g1, lg1)" "gs_belief_map g1 = None"
    using scan_nodes_total [of "(g, sub_log (ts_log s))"] by fastforce
  moreover have "\<exists>ns'. rerank_nodes (se_log2 env) g1 ns = Some ns'"
    unfolding rerank_nodes_def by (rule those_total_map) (auto simp: rerank_tasks_by_entropy_def calculation(2))
  ultimately show ?thesis by (auto simp: sar_block_def Some record_sar_scans_def no_belief_def)
qed (simp add: sar_block_def no_belief_def)

lemma fleet_step_ids: "fleet_step crashed ns ms \<Longrightarrow> map snd ms = map snd ns"
  unfolding fleet_step_def by (induction rule: list_all2_induct) (simp_all add: node_step_def)

lemma grid_frame [simp]:
  "ts_grid_state (log_assignments now target outs s) = ts_grid_state s" "ts_grid_state (note_autonomy env now ao s) = ts_grid_state s"
  "ts_grid_state (count_degraded s) = ts_grid_state s" "ts_grid_state (movement_block env sc c now s) = ts_grid_state s"
  "ts_grid_state (cbba_block now s) = ts_grid_state s" "ts_grid_state (inspection_block now s) = ts_grid_state s"
  "ts_grid_state (release_requested now r s) = ts_grid_state s" "ts_grid_state (activate_pair now p s) = ts_grid_state s"
  by (simp_all add: log_assignments_def note_autonomy_def count_degraded_def movement_block_def cbba_block_def inspection_block_def release_requested_def
      activate_pair_def Let_def split: option.split prod.split)

lemma grid_fold: "(\<And>x s. ts_grid_state (f x s) = ts_grid_state s) \<Longrightarrow> ts_grid_state (fold f xs s) = ts_grid_state s"
  by (induction xs arbitrary: s) simp_all

lemma grid_folds [simp]:
  "ts_grid_state (fold (release_requested now) rs s) = ts_grid_state s" "ts_grid_state (fold (activate_pair now) ps s) = ts_grid_state s"
  "ts_grid_state (fold (note_autonomy env now) outs s) = ts_grid_state s"
  by (rule grid_fold; simp)+

lemma grid_wildfire [simp]: "ts_grid_state (wildfire_block c now s) = ts_grid_state s"
  by (simp add: wildfire_block_def split: option.split prod.split)

lemma grid_safety: "safety_block sc c now s = Some s' \<Longrightarrow> ts_grid_state s' = ts_grid_state s"
  by (auto simp: safety_block_def split: option.splits)

lemma grid_node_block: "node_block env alloc sc c now s = Some (s', outs) \<Longrightarrow> ts_grid_state s' = ts_grid_state s"
  by (auto simp: node_block_def Let_def)

lemma grid_heal: "heal_pairs env c now ps s = Some s' \<Longrightarrow> ts_grid_state s' = ts_grid_state s"
  by (induction ps arbitrary: s) (auto simp: bind_eq_Some_conv heal_pair_def Let_def)

lemma grid_partition: "partition_block env c now failed s = Some s' \<Longrightarrow> ts_grid_state s' = ts_grid_state s"
  by (auto simp: partition_block_def Let_def dest!: grid_heal split: prod.splits)

definition sim_ready :: "Scenario \<Rightarrow> RunConfig \<Rightarrow> ('r, 'dt, 'st) TickLoopState \<Rightarrow> bool" where
  "sim_ready sc c s \<longleftrightarrow> map snd (ts_nodes s) = map a_id (sc_agents sc) \<and> no_belief (ts_grid_state s) \<and>
     fleet_leases_ok (rc_tick_duration_ms c) (ts_nodes s)"

lemma tick_once_total:
  assumes "runnable env alloc" "injected_ok c" "sim_ready sc c s"
  shows "\<exists>s' stop. tick_once env alloc sc c s = Some (s', stop) \<and> sim_ready sc c s'"
proof -
  have env: "calendar_documented (se_node env)" "decoder_wf (se_node env)" using assms(1) by (simp_all add: runnable_def)
  obtain s0 failed where st: "start_tick c s = (s0, failed)" by (metis surj_pair)
  let ?now = "ts_total_ticks s0"
  note frame = start_tick_frame [OF st]
  have leases0: "fleet_leases_ok (rc_tick_duration_ms c) (ts_nodes s0)" using assms(3) frame by (simp add: sim_ready_def)
  obtain s1 where p: "partition_block env c ?now failed s0 = Some s1" using partition_block_total [OF env(1) leases0] by blast
  have leases1: "fleet_leases_ok (rc_tick_duration_ms c) (ts_nodes s1)"
    using partition_block_ok [OF p] fleet_step_leases leases0 by (auto simp: block_ok_def)
  obtain s2 outs where n: "node_block env alloc sc c ?now s1 = Some (s2, outs)" using node_block_total [OF assms(1) leases1] by blast
  let ?target = "first_active_agent_id (ts_crashed s2) (ts_nodes s2)"
  define s3 where "s3 = count_degraded (fold (note_autonomy env ?now) outs (log_assignments ?now ?target outs s2))"
  have ids1: "map snd (ts_nodes s1) = map snd (ts_nodes s0)" using partition_block_ok [OF p] by (auto simp: block_ok_def dest: fleet_step_ids)
  have ids2: "map snd (ts_nodes s2) = map snd (ts_nodes s1)" using node_block_ok [OF n] env(2) assms(2) by (auto dest: fleet_step_ids)
  have "block_ok s2 (log_assignments ?now ?target outs s2)" by simp
  also have "block_ok \<dots> (fold (note_autonomy env ?now) outs \<dots>)" by (rule fold_block_ok) simp
  also have "block_ok \<dots> s3" by (simp add: s3_def)
  also have "block_ok \<dots> (movement_block env sc c ?now s3)" by simp
  finally have "map snd (ts_nodes (movement_block env sc c ?now s3)) = map snd (ts_nodes s2)" by (auto simp: block_ok_def dest: fleet_step_ids)
  then have ids: "map snd (ts_nodes (movement_block env sc c ?now s3)) = map a_id (sc_agents sc)"
    using ids1 ids2 frame assms(3) by (simp add: sim_ready_def)
  then have "snd ` set (ts_nodes (movement_block env sc c ?now s3)) \<subseteq> a_id ` set (sc_agents sc)" by (metis list.set_map order_refl)
  from safety_block_total [OF this] obtain s4 where sf: "safety_block sc c ?now (movement_block env sc c ?now s3) = Some s4" by blast
  have "ts_grid_state s3 = ts_grid_state s2"
    by (simp add: s3_def)
  then have "ts_grid_state (inspection_block ?now (cbba_block ?now s4)) = ts_grid_state s"
    using grid_safety [OF sf] grid_node_block [OF n] grid_partition [OF p] frame by simp
  then have "no_belief (ts_grid_state (inspection_block ?now (cbba_block ?now s4)))" using assms(3) by (simp add: sim_ready_def)
  from sar_block_total [OF this] obtain s5 where sar: "sar_block env sc c ?now (inspection_block ?now (cbba_block ?now s4)) = Some s5" "no_belief (ts_grid_state s5)"
    by blast
  have m: "mission_blocks env sc c ?now s3 = Some (wildfire_block c ?now s5)" by (simp add: mission_blocks_def sf sar)
  define s' where "s' = measure_blocks sc ?now outs ?target (wildfire_block c ?now s5)"
  obtain stop where t: "tick_once env alloc sc c s = Some (s', stop)"
    by (simp add: tick_once_def st p n Let_def m [unfolded s3_def] s'_def)
  have "no_belief (ts_grid_state s')" using sar(2) by (simp add: s'_def)
  moreover have step: "fleet_step (ts_crashed s') (ts_nodes s) (ts_nodes s')" using tick_once_ok(1) [OF t] env(2) assms(2) by simp
  moreover have "fleet_leases_ok (rc_tick_duration_ms c) (ts_nodes s')"
    using fleet_step_leases [OF step] assms(3) by (simp add: sim_ready_def)
  ultimately show ?thesis using t assms(3) fleet_step_ids [OF step] by (auto simp: sim_ready_def)
qed

lemma tick_loop_total:
  assumes "runnable env alloc" "injected_ok c"
  shows "sim_ready sc c s \<Longrightarrow> \<exists>s'. tick_loop env alloc sc c k s = Some s'"
proof (induction k arbitrary: s)
  case (Suc k)
  obtain s1 stop where "tick_once env alloc sc c s = Some (s1, stop)" "sim_ready sc c s1" using tick_once_total [OF assms Suc.prems] by blast
  then show ?case using Suc.IH by auto
qed simp

definition config_leases_ok :: "RunConfig \<Rightarrow> bool" where
  "config_leases_ok c \<longleftrightarrow> (\<forall>a. \<forall>l\<in>set (initial_leases c a). lease_in_range (rc_tick_duration_ms c) l)"

lemma loop_state_new_ready:
  "no_belief (rc_grid_state c) \<Longrightarrow> config_leases_ok c \<Longrightarrow> sim_ready sc c (loop_state_new env sc c st lg)"
  by (auto simp: sim_ready_def loop_state_new_def Let_def comp_def fleet_leases_ok_def initial_node_def config_leases_ok_def)

lemma run_internal_total:
  assumes "runnable env alloc" "injected_ok c" "no_belief (rc_grid_state c)" "config_leases_ok c"
  shows "\<exists>s. run_internal env alloc st sc c lg = Some s"
  unfolding run_internal_def run_tick_loop_def by (rule tick_loop_total [OF assms(1,2) loop_state_new_ready [OF assms(3,4)]])

end
