(* ===== verification/EventLog.thy ===== *)
theory EventLog
  imports SimSafety UrbanTypes
begin

text \<open>
  The event log, \<open>swarm-replay/src\<close>: the variants of \<open>Event\<close> (\<open>event_log.rs\<close>) in four groups, the state reconstructed from a log (\<open>replay/state.rs\<close>)
  and its summary (\<open>replay/summary.rs\<close>). A log of the simulator is replayed through \<open>log_event\<close>, which names the variant each event of the loop is
  pushed as; what the replay recovers of a run is in \<open>Replay\<close>.
\<close>

section \<open>Events\<close>

datatype DropReason = PacketLoss | PartitionDrop | LatencyExceeded

datatype RunLogEvent =
  LogTickStart u64
| LogAgentFailed AgentId u64
| LogTaskAssigned TaskId AgentId u64
| LogTaskStarted TaskId AgentId u64
| LogTaskCompleted TaskId AgentId u64
| LogTaskExpired TaskId u64
| LogMessageSent AgentId AgentId u64 nat
| LogMessageDropped AgentId AgentId u64 DropReason
| LogPartitionAdded AgentId AgentId u64
| LogPartitionRemoved AgentId AgentId u64
| LogPoseUpdated AgentId Pose u64
| LogSarScan AgentId "u32 \<times> u32" u64 bool
| LogSarDetection AgentId Pose u64
| LogEdgeVisited string AgentId u64
| LogSafetyViolation AgentId ReplayViolation u64
| LogCbbaConverged u64
| LogCbbaBundleUpdated AgentId nat u64 u64
| LogAgentObservation AgentId string u64
| LogHazardMapUpdated string f64 u8 u64
| LogTaskPriorityUpdated TaskId u8 u8 u64
| LogWildfirePriorityReallocationRequested TaskId u8 u8 "AgentId option" u64
| LogWildfirePriorityTaskReleased TaskId u8 u8 "AgentId option" u64

datatype UrbanLogEvent =
  LogUrbanRoutePlanned AgentId u64 "UrbanEdgeId list" f64
| LogUrbanSegmentEntered AgentId u64 nat UrbanEdgeId UrbanNodeId UrbanNodeId
| LogUrbanSegmentCompleted AgentId u64 nat UrbanEdgeId
| LogUrbanViolation AgentId u64 "nat option" "UrbanEdgeId option" "string option" Pose string
| LogUrbanPatrolCompleted AgentId u64 f64 f64
| LogBusObserved AgentId u64 string Pose f64 u64
| LogBusDetected AgentId u64 string Pose f64 u64
| LogBusFalsePositive AgentId u64 Pose u64
| LogUrbanSearchCompleted AgentId u64 bool "string option" string f64
| LogUrbanEdgeBlocked AgentId u64 UrbanEdgeId "string option"
| LogUrbanEdgeUnblocked AgentId u64 UrbanEdgeId
| LogUrbanObstacleDetected AgentId u64 UrbanEdgeId nat
| LogUrbanPolicyDecision AgentId u64 UrbanEdgeId string
| LogUrbanRouteReplanned AgentId u64 "UrbanEdgeId list" f64
| LogUrbanWaitStarted AgentId u64 UrbanEdgeId
| LogUrbanWaitCompleted AgentId u64 UrbanEdgeId u64
| LogUrbanNoRouteAvailable AgentId u64 UrbanNodeId UrbanNodeId string
| LogUrbanSegmentLockAcquired AgentId u64 UrbanEdgeId UrbanRightOfWayPolicy string
| LogUrbanSegmentLockReleased AgentId u64 UrbanEdgeId u64
| LogUrbanSegmentConflict u64 UrbanEdgeId AgentId AgentId UrbanRightOfWayPolicy string
| LogUrbanDeconflictWait AgentId u64 UrbanEdgeId string
| LogUrbanDeconflictReplan AgentId u64 UrbanEdgeId "UrbanEdgeId list" f64 string
| LogUrbanDeconflictAbort AgentId u64 UrbanEdgeId string
| LogUrbanSegmentCoordinatorEvent u64 UrbanEdgeId AgentId string "string option"

datatype CommandLogEvent =
  LogSwarmCommandPlanDispatched u64 string nat
| LogSwarmAgentCommandDispatched u64 string AgentId nat
| LogSwarmOwnershipAcquired u64 AgentId string string string
| LogSwarmOwnershipReleased u64 AgentId string string string
| LogSwarmOwnershipHandoff u64 AgentId AgentId string string string
| LogSwarmSupervisorStateChanged u64 string string string
| LogSwarmSyncCommandIssued u64 string "AgentId list"
| LogSwarmSyncCommandResult u64 string "AgentId list" "AgentId list" "AgentId list" bool
| LogSwarmTopologyConfigured u64 string nat nat
| LogSwarmCommandRouteSelected u64 string string AgentId "string list" bool
| LogSwarmCommandRouteBlocked u64 string string AgentId string
| LogSwarmTopologyDegraded u64 string "AgentId list" string
| LogSwarmMothershipDependencyRecorded u64 AgentId AgentId string
| LogSwarmProtocolMessage u64 AgentId AgentId string string
| LogLeaseGranted u64 string AgentId string u64
| LogLeaseExpired u64 string string
| LogOwnershipConflict u64 string AgentId AgentId

datatype 'dt AgentLogEvent =
  LogAgentGcsLost AgentId u64 string
| LogAgentGcsReconnected AgentId u64 u64
| LogAgentContinuingUnderLease AgentId string u64
| LogAgentLeaseExpiredDuringGcsLoss AgentId string string u64
| LogAgentNeighborLost AgentId AgentId u64
| LogAgentStateReconciled AgentId u64 u64 string u64 string
| LogPartitionDetected u64 "AgentId list" "AgentId list"
| LogPartitionHealed u64
| LogSupervisorDegradedDecision u64 ConnectivityLossKind SupervisorDecision "string list"
| LogSupervisorReconciled u64 "'dt SupervisorReconcileResult"
| LogCommandSuppressed u64 string string

text \<open>\<open>Event\<close>\<close>

datatype 'dt LogEvent = RunLog RunLogEvent | UrbanLog UrbanLogEvent | CommandLog CommandLogEvent | AgentLog "'dt AgentLogEvent"

section \<open>Replay\<close>

record ReplayState =
  failed_agents :: "(AgentId \<times> u64) list"
  assigned_tasks :: "(TaskId \<times> AgentId \<times> u64) list"
  rs_messages_sent :: u64
  rs_messages_dropped :: u64
  rs_partition_events :: u64
  final_poses :: "(AgentId \<times> Pose) list"

definition replay_start :: ReplayState where
  "replay_start = \<lparr>failed_agents = [], assigned_tasks = [], rs_messages_sent = 0, rs_messages_dropped = 0, rs_partition_events = 0, final_poses = []\<rparr>"

fun overwrite_pose :: "AgentId \<Rightarrow> Pose \<Rightarrow> (AgentId \<times> Pose) list \<Rightarrow> (AgentId \<times> Pose) list" where
  "overwrite_pose a p [] = [(a, p)]"
| "overwrite_pose a p ((b, q) # ps) = (if b = a then (b, p) # ps else (b, q) # overwrite_pose a p ps)"

definition replay_event :: "ReplayState \<Rightarrow> 'dt LogEvent \<Rightarrow> ReplayState" where
  "replay_event s e = (case e of
     RunLog ev \<Rightarrow> (case ev of
       LogAgentFailed a now \<Rightarrow> s\<lparr>failed_agents := failed_agents s @ [(a, now)]\<rparr>
     | LogTaskAssigned t a now \<Rightarrow> s\<lparr>assigned_tasks := filter (\<lambda>(t', _, _). t' \<noteq> t) (assigned_tasks s) @ [(t, a, now)]\<rparr>
     | LogWildfirePriorityTaskReleased t _ _ _ _ \<Rightarrow> s\<lparr>assigned_tasks := filter (\<lambda>(t', _, _). t' \<noteq> t) (assigned_tasks s)\<rparr>
     | LogMessageSent _ _ _ _ \<Rightarrow> s\<lparr>rs_messages_sent := rs_messages_sent s + 1\<rparr>
     | LogMessageDropped _ _ _ _ \<Rightarrow> s\<lparr>rs_messages_dropped := rs_messages_dropped s + 1\<rparr>
     | LogPartitionAdded _ _ _ \<Rightarrow> s\<lparr>rs_partition_events := rs_partition_events s + 1\<rparr>
     | LogPartitionRemoved _ _ _ \<Rightarrow> s\<lparr>rs_partition_events := rs_partition_events s + 1\<rparr>
     | LogPoseUpdated a p _ \<Rightarrow> s\<lparr>final_poses := overwrite_pose a p (final_poses s)\<rparr>
     | _ \<Rightarrow> s)
   | _ \<Rightarrow> s)"

definition replay :: "'dt LogEvent list \<Rightarrow> ReplayState" where
  "replay es = foldl replay_event replay_start es"

section \<open>Summary\<close>

record ReplaySummary =
  sum_total_ticks :: u64
  sum_assignments :: nat
  sum_completions :: nat
  sum_conflicts :: nat
  sum_failures :: nat
  sum_safety_violations :: nat
  sum_sar_scans :: nat
  sum_sar_detections :: nat
  sum_edges_visited :: nat
  sum_cbba_convergence_ticks :: "u64 list"
  sum_messages_sent :: u64
  sum_messages_dropped :: u64
  sum_zones_mapped :: nat
  sum_hazard_updates :: nat
  sum_observations :: nat
  sum_priority_reallocation_requests :: nat
  sum_priority_task_releases :: nat
  sum_urban_routes_planned :: nat
  sum_urban_segments_entered :: nat
  sum_urban_segments_completed :: nat
  sum_urban_violations :: nat
  sum_urban_patrol_completions :: nat
  sum_urban_completion_ticks :: "u64 list"
  sum_bus_observations :: nat
  sum_bus_detections :: nat
  sum_bus_false_positives :: nat
  sum_urban_search_completions :: nat
  sum_urban_search_time_to_detection_ticks :: "u64 list"
  sum_urban_search_no_detection_count :: nat
  sum_plan_dispatched :: nat
  sum_agent_command_dispatched :: nat
  sum_ownership_handoff :: nat
  sum_sync_partial_failure :: nat
  sum_supervisor_state_change :: nat
  sum_topology_configured :: nat
  sum_command_route_selected :: nat
  sum_command_route_blocked :: nat
  sum_topology_degraded :: nat
  sum_mothership_dependency :: nat

definition summary_start :: ReplaySummary where
  "summary_start =
     \<lparr>sum_total_ticks = 0, sum_assignments = 0, sum_completions = 0, sum_conflicts = 0, sum_failures = 0, sum_safety_violations = 0, sum_sar_scans = 0,
      sum_sar_detections = 0, sum_edges_visited = 0, sum_cbba_convergence_ticks = [], sum_messages_sent = 0, sum_messages_dropped = 0,
      sum_zones_mapped = 0, sum_hazard_updates = 0, sum_observations = 0, sum_priority_reallocation_requests = 0, sum_priority_task_releases = 0,
      sum_urban_routes_planned = 0, sum_urban_segments_entered = 0, sum_urban_segments_completed = 0, sum_urban_violations = 0,
      sum_urban_patrol_completions = 0, sum_urban_completion_ticks = [], sum_bus_observations = 0, sum_bus_detections = 0, sum_bus_false_positives = 0,
      sum_urban_search_completions = 0, sum_urban_search_time_to_detection_ticks = [], sum_urban_search_no_detection_count = 0,
      sum_plan_dispatched = 0, sum_agent_command_dispatched = 0, sum_ownership_handoff = 0, sum_sync_partial_failure = 0,
      sum_supervisor_state_change = 0, sum_topology_configured = 0, sum_command_route_selected = 0, sum_command_route_blocked = 0,
      sum_topology_degraded = 0, sum_mothership_dependency = 0\<rparr>"

definition summarize_run :: "ReplaySummary \<Rightarrow> RunLogEvent \<Rightarrow> ReplaySummary" where
  "summarize_run s e = (case e of
     LogTickStart now \<Rightarrow> s\<lparr>sum_total_ticks := max (sum_total_ticks s) now\<rparr>
   | LogTaskAssigned _ _ _ \<Rightarrow> s\<lparr>sum_assignments := sum_assignments s + 1\<rparr>
   | LogTaskCompleted _ _ _ \<Rightarrow> s\<lparr>sum_completions := sum_completions s + 1\<rparr>
   | LogAgentFailed _ _ \<Rightarrow> s\<lparr>sum_failures := sum_failures s + 1\<rparr>
   | LogMessageSent _ _ _ _ \<Rightarrow> s\<lparr>sum_messages_sent := sum_messages_sent s + 1\<rparr>
   | LogMessageDropped _ _ _ _ \<Rightarrow> s\<lparr>sum_messages_dropped := sum_messages_dropped s + 1\<rparr>
   | LogSafetyViolation _ _ _ \<Rightarrow> s\<lparr>sum_safety_violations := sum_safety_violations s + 1\<rparr>
   | LogSarScan _ _ _ _ \<Rightarrow> s\<lparr>sum_sar_scans := sum_sar_scans s + 1\<rparr>
   | LogSarDetection _ _ _ \<Rightarrow> s\<lparr>sum_sar_detections := sum_sar_detections s + 1\<rparr>
   | LogEdgeVisited _ _ _ \<Rightarrow> s\<lparr>sum_edges_visited := sum_edges_visited s + 1\<rparr>
   | LogCbbaConverged now \<Rightarrow> s\<lparr>sum_cbba_convergence_ticks := sum_cbba_convergence_ticks s @ [now]\<rparr>
   | LogAgentObservation _ _ _ \<Rightarrow> s\<lparr>sum_observations := sum_observations s + 1\<rparr>
   | LogHazardMapUpdated _ _ _ _ \<Rightarrow> s\<lparr>sum_hazard_updates := sum_hazard_updates s + 1\<rparr>
   | LogWildfirePriorityReallocationRequested _ _ _ _ _ \<Rightarrow> s\<lparr>sum_priority_reallocation_requests := sum_priority_reallocation_requests s + 1\<rparr>
   | LogWildfirePriorityTaskReleased _ _ _ _ _ \<Rightarrow> s\<lparr>sum_priority_task_releases := sum_priority_task_releases s + 1\<rparr>
   | _ \<Rightarrow> s)"

definition summarize_urban :: "ReplaySummary \<Rightarrow> UrbanLogEvent \<Rightarrow> ReplaySummary" where
  "summarize_urban s e = (case e of
     LogUrbanRoutePlanned _ _ _ _ \<Rightarrow> s\<lparr>sum_urban_routes_planned := sum_urban_routes_planned s + 1\<rparr>
   | LogUrbanSegmentEntered _ _ _ _ _ _ \<Rightarrow> s\<lparr>sum_urban_segments_entered := sum_urban_segments_entered s + 1\<rparr>
   | LogUrbanSegmentCompleted _ _ _ _ \<Rightarrow> s\<lparr>sum_urban_segments_completed := sum_urban_segments_completed s + 1\<rparr>
   | LogUrbanViolation _ _ _ _ _ _ _ \<Rightarrow> s\<lparr>sum_urban_violations := sum_urban_violations s + 1\<rparr>
   | LogUrbanPatrolCompleted _ now _ _ \<Rightarrow> s\<lparr>sum_urban_patrol_completions := sum_urban_patrol_completions s + 1,
       sum_urban_completion_ticks := sum_urban_completion_ticks s @ [now]\<rparr>
   | LogBusObserved _ _ _ _ _ _ \<Rightarrow> s\<lparr>sum_bus_observations := sum_bus_observations s + 1\<rparr>
   | LogBusDetected _ now _ _ _ _ \<Rightarrow> s\<lparr>sum_bus_detections := sum_bus_detections s + 1,
       sum_urban_search_time_to_detection_ticks := sum_urban_search_time_to_detection_ticks s @ [now]\<rparr>
   | LogBusFalsePositive _ _ _ _ \<Rightarrow> s\<lparr>sum_bus_false_positives := sum_bus_false_positives s + 1\<rparr>
   | LogUrbanSearchCompleted _ _ detected _ _ _ \<Rightarrow> s\<lparr>sum_urban_search_completions := sum_urban_search_completions s + 1,
       sum_urban_search_no_detection_count := sum_urban_search_no_detection_count s + (if detected then 0 else 1)\<rparr>
   | _ \<Rightarrow> s)"

definition summarize_command :: "ReplaySummary \<Rightarrow> CommandLogEvent \<Rightarrow> ReplaySummary" where
  "summarize_command s e = (case e of
     LogSwarmCommandPlanDispatched _ _ _ \<Rightarrow> s\<lparr>sum_plan_dispatched := sum_plan_dispatched s + 1\<rparr>
   | LogSwarmAgentCommandDispatched _ _ _ _ \<Rightarrow> s\<lparr>sum_agent_command_dispatched := sum_agent_command_dispatched s + 1\<rparr>
   | LogSwarmOwnershipHandoff _ _ _ _ _ _ \<Rightarrow> s\<lparr>sum_ownership_handoff := sum_ownership_handoff s + 1\<rparr>
   | LogSwarmSyncCommandResult _ _ _ failed late _ \<Rightarrow>
       (if failed \<noteq> [] \<or> late \<noteq> [] then s\<lparr>sum_sync_partial_failure := sum_sync_partial_failure s + 1\<rparr> else s)
   | LogSwarmSupervisorStateChanged _ _ _ _ \<Rightarrow> s\<lparr>sum_supervisor_state_change := sum_supervisor_state_change s + 1\<rparr>
   | LogSwarmTopologyConfigured _ _ _ _ \<Rightarrow> s\<lparr>sum_topology_configured := sum_topology_configured s + 1\<rparr>
   | LogSwarmCommandRouteSelected _ _ _ _ _ _ \<Rightarrow> s\<lparr>sum_command_route_selected := sum_command_route_selected s + 1\<rparr>
   | LogSwarmCommandRouteBlocked _ _ _ _ _ \<Rightarrow> s\<lparr>sum_command_route_blocked := sum_command_route_blocked s + 1\<rparr>
   | LogSwarmTopologyDegraded _ _ _ _ \<Rightarrow> s\<lparr>sum_topology_degraded := sum_topology_degraded s + 1\<rparr>
   | LogSwarmMothershipDependencyRecorded _ _ _ _ \<Rightarrow> s\<lparr>sum_mothership_dependency := sum_mothership_dependency s + 1\<rparr>
   | _ \<Rightarrow> s)"

definition summarize :: "'dt LogEvent list \<Rightarrow> ReplaySummary" where
  "summarize es = foldl (\<lambda>s e. case e of RunLog ev \<Rightarrow> summarize_run s ev | UrbanLog ev \<Rightarrow> summarize_urban s ev
     | CommandLog ev \<Rightarrow> summarize_command s ev | AgentLog _ \<Rightarrow> s) summary_start es"

section \<open>The events of the simulator\<close>

fun supervisor_event :: "'dt Event \<Rightarrow> 'dt LogEvent" where
  "supervisor_event (OwnershipConflictEvent now r a b) = CommandLog (LogOwnershipConflict now r a b)"
| "supervisor_event (PartitionDetectedEvent now as bs) = AgentLog (LogPartitionDetected now as bs)"
| "supervisor_event (PartitionHealedEvent now) = AgentLog (LogPartitionHealed now)"
| "supervisor_event (PartitionSupervisor.SupervisorDegradedDecision now k d rs) = AgentLog (LogSupervisorDegradedDecision now k d rs)"
| "supervisor_event (PartitionSupervisor.SupervisorReconciled now r) = AgentLog (LogSupervisorReconciled now r)"
| "supervisor_event (PartitionSupervisor.CommandSuppressed now r why) = AgentLog (LogCommandSuppressed now r why)"

fun field_event :: "FieldEvent \<Rightarrow> RunLogEvent" where
  "field_event (EvEdgeVisited e a now) = LogEdgeVisited e a now"
| "field_event (EvAgentObservation a z now) = LogAgentObservation a z now"
| "field_event (EvFieldTaskCompleted t a now) = LogTaskCompleted t a now"
| "field_event (EvHazardMapUpdated z threat p now) = LogHazardMapUpdated z threat p now"
| "field_event (EvTaskPriorityUpdated t p q now) = LogTaskPriorityUpdated t p q now"
| "field_event (EvPriorityReallocationRequested t p q a now) = LogWildfirePriorityReallocationRequested t p q a now"
| "field_event (EvPriorityTaskReleased t p q a now) = LogWildfirePriorityTaskReleased t p q a now"

fun sar_event :: "SarEvent \<Rightarrow> RunLogEvent" where
  "sar_event (EvSarScan a c now d) = LogSarScan a c now d"
| "sar_event (EvSarDetection a p now) = LogSarDetection a p now"
| "sar_event (EvTaskCompleted t a now) = LogTaskCompleted t a now"

fun log_event :: "'dt SimEvent \<Rightarrow> 'dt LogEvent" where
  "log_event (EvTickStart now) = RunLog (LogTickStart now)"
| "log_event (EvAgentFailed a now) = RunLog (LogAgentFailed a now)"
| "log_event (EvPartitionAdded a b now) = RunLog (LogPartitionAdded a b now)"
| "log_event (EvPartitionRemoved a b now) = RunLog (LogPartitionRemoved a b now)"
| "log_event (EvSupervisor e) = supervisor_event e"
| "log_event (EvTaskAssigned t a now) = RunLog (LogTaskAssigned t a now)"
| "log_event (EvAgentGcsLost a now p) = AgentLog (LogAgentGcsLost a now p)"
| "log_event (EvAgentGcsReconnected a now k) = AgentLog (LogAgentGcsReconnected a now k)"
| "log_event (EvAgentStateReconciled a now k p n m) = AgentLog (LogAgentStateReconciled a now k p n m)"
| "log_event (EvAgentContinuingUnderLease a l now) = AgentLog (LogAgentContinuingUnderLease a l now)"
| "log_event (EvAgentLeaseExpiredDuringGcsLoss a l p now) = AgentLog (LogAgentLeaseExpiredDuringGcsLoss a l p now)"
| "log_event (EvAgentNeighborLost a b now) = AgentLog (LogAgentNeighborLost a b now)"
| "log_event (EvSafety (EvSafetyViolation a v now)) = RunLog (LogSafetyViolation a v now)"
| "log_event (EvCbbaConverged now) = RunLog (LogCbbaConverged now)"
| "log_event (EvField e) = RunLog (field_event e)"
| "log_event (EvSar e) = RunLog (sar_event e)"
| "log_event (EvCbbaBundleUpdated a n k now) = RunLog (LogCbbaBundleUpdated a n k now)"
| "log_event (EvTaskExpired t now) = RunLog (LogTaskExpired t now)"
| "log_event (EvPoseUpdated a p now) = RunLog (LogPoseUpdated a p now)"

text \<open>\<open>record_final_poses\<close>\<close>

definition record_final_poses :: "('r, 'dt) fleet \<Rightarrow> u64 \<Rightarrow> 'dt sim_log \<Rightarrow> 'dt sim_log" where
  "record_final_poses nodes now lg =
     sim_push (concat (map (\<lambda>(n, a). case hm_get (agents (membership (coordinator n))) a of None \<Rightarrow> [] | Some e \<Rightarrow> [EvPoseUpdated a (e_pose e) now]) nodes)) lg"

end
