(* ===== verification/Simulation.thy ===== *)
theory Simulation
  imports SimSafety
begin

text \<open>
  What a whole run of the simulator guarantees, over \<open>SimLoop\<close>: the invariants of every agent, that a run returns, which agents have crashed, what
  holds when a run stops early, and how long a task counts as unassigned.
\<close>

section \<open>The invariants of a fleet\<close>

lemma fleet_step_inv:
  "fleet_step crashed ns ms \<Longrightarrow> (\<forall>x\<in>set ns. coord_inv (coordinator (fst x))) \<Longrightarrow> (\<forall>x\<in>set ms. coord_inv (coordinator (fst x)))"
  unfolding fleet_step_def by (induction rule: list_all2_induct) (simp_all add: node_step_def)

lemma loop_state_new_inv: "\<forall>t\<in>set (sc_tasks sc). owner_ok t \<Longrightarrow> \<forall>x\<in>set (ts_nodes (loop_state_new env sc c st lg)). coord_inv (coordinator (fst x))"
  by (simp add: loop_state_new_def Let_def initial_node_def agent_node_new_def coord_inv_new)

lemma loop_state_new_frame:
  "map snd (ts_nodes (loop_state_new env sc c st lg)) = map a_id (sc_agents sc)" "clock_current (ts_clock (loop_state_new env sc c st lg)) = 0"
  "ts_crashed (loop_state_new env sc c st lg) = {}" "ts_total_ticks (loop_state_new env sc c st lg) = 0"
  by (simp_all add: loop_state_new_def Let_def comp_def clock_new_def)

lemma sim_reachable_fleet:
  assumes "sim_reachable env alloc sc c s0 k s" "decoder_wf (se_node env)" "injected_ok c" "\<forall>x\<in>set (ts_nodes s0). coord_inv (coordinator (fst x))"
  shows "map snd (ts_nodes s) = map snd (ts_nodes s0) \<and> (\<forall>x\<in>set (ts_nodes s). coord_inv (coordinator (fst x)))"
  using assms
proof (induction rule: sim_reachable.induct)
  case (sim_tick k s s' stop)
  have step: "fleet_step (ts_crashed s') (ts_nodes s) (ts_nodes s')" using tick_once_ok(1) [OF sim_tick.hyps(2)] sim_tick.prems by simp
  have ih: "map snd (ts_nodes s) = map snd (ts_nodes s0)" "\<forall>x\<in>set (ts_nodes s). coord_inv (coordinator (fst x))"
    using sim_tick.IH [OF sim_tick.prems] by blast+
  show ?case using fleet_step_ids [OF step] fleet_step_inv [OF step ih(2)] unfolding ih(1) by (rule conjI)
qed blast

text \<open>(C8) Invariant of a simulation. Whatever the allocator, the messages, the partitions and the missions do, every tick of a run keeps one node for
  every agent of the scenario in its place, the invariants of membership and registry in every node, and every crashed agent crashed; and the
  view of an agent that has crashed by the end of a tick, in that tick or before, does not change in it.\<close>

theorem simulation_invariant:
  assumes "sim_reachable env alloc sc c (loop_state_new env sc c st lg) k s" "tick_once env alloc sc c s = Some (s', stop)"
    and "decoder_wf (se_node env)" "injected_ok c" "\<forall>t\<in>set (sc_tasks sc). owner_ok t"
  shows "map snd (ts_nodes s') = map a_id (sc_agents sc) \<and> (\<forall>x\<in>set (ts_nodes s'). coord_inv (coordinator (fst x))) \<and> ts_crashed s \<subseteq> ts_crashed s' \<and>
    (\<forall>i<length (ts_nodes s'). snd (ts_nodes s' ! i) \<in> ts_crashed s' \<longrightarrow>
       membership (coordinator (fst (ts_nodes s' ! i))) = membership (coordinator (fst (ts_nodes s ! i))))"
proof -
  have step: "fleet_step (ts_crashed s') (ts_nodes s) (ts_nodes s')" using tick_once_ok(1) [OF assms(2)] assms(3,4) by simp
  have "map snd (ts_nodes s') = map a_id (sc_agents sc) \<and> (\<forall>x\<in>set (ts_nodes s'). coord_inv (coordinator (fst x)))"
    using sim_reachable_fleet [OF sim_tick [OF assms(1,2)] assms(3,4) loop_state_new_inv [OF assms(5)]] by (simp add: loop_state_new_frame)
  moreover have "ts_crashed s \<subseteq> ts_crashed s'" using tick_once_ok(4) [OF assms(2)] by blast
  moreover have "membership (coordinator (fst (ts_nodes s' ! i))) = membership (coordinator (fst (ts_nodes s ! i)))"
    if "i < length (ts_nodes s')" "snd (ts_nodes s' ! i) \<in> ts_crashed s'" for i
    using step that by (auto simp: fleet_step_def list_all2_conv_all_nth node_step_def)
  ultimately show ?thesis by blast
qed

section \<open>A run returns and stops\<close>

text \<open>(C9) A run returns. On the in-memory transport, with a calendar that knows the instants of the first 8 * 10^15 milliseconds, as chrono documents,
  initial leases whose ticks lie in that range, a decoder that builds proper tables and injected tasks that name no owner, a run without a belief map
  panics neither with the auction, nor with the connectivity-aware allocator, nor with CBBA: no agent of the fleet is missing from the scenario, no lease
  is out of range when a partition heals, and every tick of every node ends. Runs with a belief map are left out because their tasks are ranked by
  an entropy whose logarithm is a parameter of the model, and the greedy allocator because it panics on a score that is not a number.\<close>

theorem simulation_returns:
  assumes "env_poll (se_node env) = agent_poll" "calendar_documented (se_node env)" "decoder_wf (se_node env)" "injected_ok c"
    and "no_belief (rc_grid_state c)"
    and "\<forall>a. \<forall>l\<in>set (initial_leases c a). lease_in_range (rc_tick_duration_ms c) l"
  shows "(\<exists>s. run_internal env (stateless (auction_allocate_with_connectivity u)) () sc c lg = Some s) \<and>
    (\<exists>s. run_internal env (stateless (connectivity_aware_allocate u)) () sc c lg = Some s) \<and>
    (\<exists>s. run_internal env cbba_alloc cb sc c lg = Some s)"
proof -
  have "config_leases_ok c" using assms(6) by (simp add: config_leases_ok_def)
  note total = run_internal_total [OF _ assms(4,5) this]
  have "runnable env (stateless (auction_allocate_with_connectivity u))" "runnable env (stateless (connectivity_aware_allocate u))" "runnable env cbba_alloc"
    using assms(1-3) by (simp_all add: runnable_def allocators_total del: not_None_eq)
  then show ?thesis by (intro conjI total)
qed

lemma stop_snapshot_facts:
  assumes "should_stop_tick (stop_snapshot c now s) (ts_max_task_unassigned_ticks s) (rc_max_unassigned_ticks c)"
  shows "(\<forall>f\<in>set (rc_failures c). fe_at_tick f \<le> now) \<and> ts_crashed s \<subseteq> ts_detected s \<and> (\<forall>e\<in>set (rc_dynamic_tasks c). de_at_tick e \<le> now) \<and>
    (\<forall>p\<in>set (rc_partition_events c). \<exists>u. pe_until_tick p = Some u \<and> u \<le> now) \<and> ts_max_task_unassigned_ticks s \<le> rc_max_unassigned_ticks c \<and>
    (\<exists>n a. (n, a) \<in> set (ts_nodes s) \<and> a \<notin> ts_crashed s \<and> all_assigned_or_completed (registry (coordinator n))) \<and>
    (\<forall>g. ts_grid_state s = Some g \<longrightarrow> all_targets_found g) \<and> (\<forall>i. ts_inspection_state s = Some i \<longrightarrow> inspection_complete i)"
proof -
  note stop = assms [unfolded should_stop_tick_def stop_snapshot_def Let_def, simplified]
  obtain n a where "first_alive (ts_crashed s) (ts_nodes s) = Some (n, a)" "all_assigned_or_completed (registry (coordinator n))"
    using stop by (auto split: option.splits)
  moreover from this(1) have "(n, a) \<in> set (ts_nodes s)" "a \<notin> ts_crashed s"
    unfolding first_alive_def find_Some_iff by (metis nth_mem, metis snd_conv)
  moreover have "(\<forall>p\<in>set (rc_partition_events c). \<exists>u. pe_until_tick p = Some u \<and> u \<le> now)"
    using stop by (auto simp: all_partitions_resolved_def list_all_iff split: option.splits)
  ultimately show ?thesis
    using stop by (auto simp: all_failure_ticks_passed_def all_dynamic_tasks_injected_def list_all_iff split: option.splits)
qed

text \<open>(C10) When a run ends. A run ends after at most \<open>max_ticks\<close> ticks; the crashed agents are those whose configured failure lies between the first
  tick and the last, so a failure at tick zero never happens; and a run that ends early has passed every configured failure and injection, has detected every crash,
  has seen the end of every partition by its \<open>until_tick\<close>, has a running agent whose tasks are all assigned or completed and no task that waited too long, and, if it
  has such missions, has found all targets and visited all edges.\<close>

theorem run_ends_when_done:
  assumes "run_internal env alloc st sc c lg = Some s"
  shows "\<exists>k\<le>unat (rc_max_ticks c). ts_total_ticks s = of_nat k \<and>
    ts_crashed s = {fe_agent_id f | f. f \<in> set (rc_failures c) \<and> 1 \<le> unat (fe_at_tick f) \<and> unat (fe_at_tick f) \<le> k} \<and>
    (k < unat (rc_max_ticks c) \<longrightarrow>
      (\<forall>f\<in>set (rc_failures c). unat (fe_at_tick f) \<le> k) \<and> ts_crashed s \<subseteq> ts_detected s \<and>
      (\<forall>e\<in>set (rc_dynamic_tasks c). unat (de_at_tick e) \<le> k) \<and>
      (\<forall>p\<in>set (rc_partition_events c). \<exists>u. pe_until_tick p = Some u \<and> unat u \<le> k) \<and>
      ts_max_task_unassigned_ticks s \<le> rc_max_unassigned_ticks c \<and>
      (\<exists>n a. (n, a) \<in> set (ts_nodes s) \<and> a \<notin> ts_crashed s \<and> all_assigned_or_completed (registry (coordinator n))) \<and>
      (\<forall>g. ts_grid_state s = Some g \<longrightarrow> all_targets_found g) \<and> (\<forall>i. ts_inspection_state s = Some i \<longrightarrow> inspection_complete i))"
proof -
  let ?s0 = "loop_state_new env sc c st lg"
  obtain k where k: "k \<le> unat (rc_max_ticks c)" "sim_reachable env alloc sc c ?s0 (0 + k) s"
      "k < unat (rc_max_ticks c) \<longrightarrow> should_stop_tick (stop_snapshot c (ts_total_ticks s) s) (ts_max_task_unassigned_ticks s) (rc_max_unassigned_ticks c)"
    using tick_loop_reachable [OF _ sim_start] assms unfolding run_internal_def run_tick_loop_def by blast
  have "unat (rc_max_ticks c) < 2 ^ LENGTH(64)" by (rule unsigned_less)
  then have lim: "k < 2 ^ 64" using k(1) by simp
  have clk: "ts_total_ticks s = of_nat k"
    "ts_crashed s = {fe_agent_id f | f. f \<in> set (rc_failures c) \<and> 1 \<le> unat (fe_at_tick f) \<and> unat (fe_at_tick f) \<le> k}"
    using sim_reachable_clock [OF k(2)] lim by (simp_all add: loop_state_new_frame)
  have le: "x \<le> of_nat k \<longleftrightarrow> unat x \<le> k" for x :: u64
    using lim by (simp add: word_le_nat_alt unat_of_nat take_bit_nat_eq_self)
  have stop: "(\<forall>f\<in>set (rc_failures c). unat (fe_at_tick f) \<le> k) \<and> ts_crashed s \<subseteq> ts_detected s \<and> (\<forall>e\<in>set (rc_dynamic_tasks c). unat (de_at_tick e) \<le> k) \<and>
      (\<forall>p\<in>set (rc_partition_events c). \<exists>u. pe_until_tick p = Some u \<and> unat u \<le> k) \<and> ts_max_task_unassigned_ticks s \<le> rc_max_unassigned_ticks c \<and>
      (\<exists>n a. (n, a) \<in> set (ts_nodes s) \<and> a \<notin> ts_crashed s \<and> all_assigned_or_completed (registry (coordinator n))) \<and>
      (\<forall>g. ts_grid_state s = Some g \<longrightarrow> all_targets_found g) \<and> (\<forall>i. ts_inspection_state s = Some i \<longrightarrow> inspection_complete i)"
    if "k < unat (rc_max_ticks c)"
    using stop_snapshot_facts [of c "of_nat k" s] k(3) that unfolding clk(1) le by blast
  show ?thesis
    by (rule exI [of _ k], rule conjI [OF k(1)], rule conjI [OF clk(1)], rule conjI [OF clk(2)], rule impI, rule stop)
qed

section \<open>How long a task counts as unassigned\<close>

definition waited :: "(TaskId, u64) hmap \<Rightarrow> TaskId \<Rightarrow> u64" where
  "waited ds k = (case hm_get ds k of Some d \<Rightarrow> d | None \<Rightarrow> 0)"

lemma durations_fold:
  assumes "distinct ids"
  shows "case fold (\<lambda>tid (ds, m). let d = (case hm_get ds tid of Some k \<Rightarrow> k | None \<Rightarrow> 0) + 1 in (hm_insert tid d ds, max m d)) ids (ds, m) of
    (ds', m') \<Rightarrow> (\<forall>k. hm_get ds' k = (if k \<in> set ids then Some (waited ds k + 1) else hm_get ds k)) \<and> m \<le> m' \<and> (\<forall>k\<in>set ids. waited ds k + 1 \<le> m')"
  using assms
proof (induction ids arbitrary: ds m)
  case (Cons i ids)
  define ds1 where "ds1 = hm_insert i (waited ds i + 1) ds"
  define m1 where "m1 = max m (waited ds i + 1)"
  obtain ds' m' where r: "fold (\<lambda>tid (ds, m). let d = (case hm_get ds tid of Some k \<Rightarrow> k | None \<Rightarrow> 0) + 1 in (hm_insert tid d ds, max m d)) ids (ds1, m1) = (ds', m')"
    by (rule prod.exhaust)
  have same: "k \<noteq> i \<Longrightarrow> waited ds1 k = waited ds k" for k by (simp add: waited_def ds1_def)
  have ih: "\<forall>k. hm_get ds' k = (if k \<in> set ids then Some (waited ds1 k + 1) else hm_get ds1 k)" "m1 \<le> m'" "\<forall>k\<in>set ids. waited ds1 k + 1 \<le> m'"
    using Cons.IH [of ds1 m1] Cons.prems by (simp_all add: r)
  have "hm_get ds' k = (if k \<in> set (i # ids) then Some (waited ds k + 1) else hm_get ds k)" for k
    using ih(1) same [of k] Cons.prems by (auto simp: ds1_def)
  moreover have "m \<le> m'" "waited ds i + 1 \<le> m'" using ih(2) by (simp_all add: m1_def)
  moreover have "\<forall>k\<in>set ids. waited ds k + 1 \<le> m'"
  proof
    fix k assume k: "k \<in> set ids"
    then have "k \<noteq> i" using Cons.prems by auto
    then show "waited ds k + 1 \<le> m'" using ih(3) k same by metis
  qed
  ultimately show ?case using r by (simp add: Let_def ds1_def m1_def waited_def)
qed simp

lemma update_unassigned_durations_spec:
  assumes "update_unassigned_durations co ds m = (ds', m')"
  shows "hm_get ds' k = (if k \<in> t_id ` set (unassigned (registry co)) then Some (waited ds k + 1) else None) \<and> m \<le> m' \<and>
    (k \<in> t_id ` set (unassigned (registry co)) \<longrightarrow> waited ds k + 1 \<le> m')"
proof -
  define ids where "ids = remdups (map t_id (unassigned (registry co)))"
  define ds1 where "ds1 = hm_retain (\<lambda>k _. k \<in> set ids) ds"
  have "fold (\<lambda>tid (ds, m). let d = (case hm_get ds tid of Some k \<Rightarrow> k | None \<Rightarrow> 0) + 1 in (hm_insert tid d ds, max m d)) ids (ds1, m) = (ds', m')"
    using assms unfolding update_unassigned_durations_def ids_def [symmetric] Let_def ds1_def .
  from durations_fold [of ids ds1 m, unfolded this prod.case] have r: "\<forall>k. hm_get ds' k = (if k \<in> set ids then Some (waited ds1 k + 1) else hm_get ds1 k)"
    "m \<le> m'" "\<forall>k\<in>set ids. waited ds1 k + 1 \<le> m'" by (simp_all add: ids_def)
  have get: "hm_get ds1 k = (if k \<in> set ids then hm_get ds k else None)"
    unfolding ds1_def by (induction ds) (auto simp: hm_retain_def hm_get_def)
  then have "k \<in> set ids \<Longrightarrow> waited ds1 k = waited ds k" by (simp add: waited_def)
  then have "hm_get ds' k = (if k \<in> set ids then Some (waited ds k + 1) else None) \<and> m \<le> m' \<and> (k \<in> set ids \<longrightarrow> waited ds k + 1 \<le> m')"
    using r get by auto
  then show ?thesis by (simp add: ids_def)
qed

lemma completed_task_waits:
  assumes "\<forall>co\<in>set cs. k \<in> t_id ` set (unassigned (registry co))" "hm_get ds0 k = None"
    and "fold (\<lambda>co (ds, m). update_unassigned_durations co ds m) cs (ds0, m0) = (ds, m)"
  shows "waited ds k = of_nat (length cs) \<and> (cs \<noteq> [] \<longrightarrow> of_nat (length cs) \<le> m)"
  using assms(1,3)
proof (induction cs arbitrary: ds m rule: rev_induct)
  case Nil
  then show ?case using assms(2) by (simp add: waited_def)
next
  case (snoc co cs)
  obtain ds1 m1 where f: "fold (\<lambda>co (ds, m). update_unassigned_durations co ds m) cs (ds0, m0) = (ds1, m1)" by (metis surj_pair)
  have u: "update_unassigned_durations co ds1 m1 = (ds, m)" using snoc.prems(2) f by simp
  have ih: "waited ds1 k = of_nat (length cs)" using snoc f by simp
  show ?case using update_unassigned_durations_spec [OF u, of k] snoc.prems(1) ih by (simp add: waited_def add.commute)
qed

text \<open>(C11) A completed task counts as unassigned. Completing a task takes its owner away, and the count of unassigned ticks looks at owners only: from
  then on the task counts as waiting at every tick, the longest wait is at least the number of ticks since the completion, and once these are more
  than the configured limit neither the run stops early nor does any mission but an urban one succeed, whatever else it achieves.\<close>

theorem completed_task_counts_as_unassigned:
  assumes "reg_inv r" "task_of r k = Some t" "unfinished t"
    and "\<forall>co\<in>set cs. task_of (registry co) k = task_of (fst (complete_assigned_task r k)) k"
    and "hm_get ds0 k = None" "unat max_unassigned < length cs" "length cs < 2 ^ 64"
    and "fold (\<lambda>co (ds, m). update_unassigned_durations co ds m) cs (ds0, m0) = (ds, m)"
  shows "of_nat (length cs) \<le> m \<and> \<not> should_stop_tick done_snapshot m max_unassigned \<and>
    \<not> fst (compute_mission_success max_unassigned strategy wildfire_threshold inspection_threshold sar_threshold all_assigned all_detected m gs ins wfs
        False route_planned violation_count route_completed)"
proof -
  have "task_of (fst (complete_assigned_task r k)) k = Some (t\<lparr>t_assigned_to := None, t_status := Completed\<rparr>)" "t_id t = k"
    using assms(1-3) by (simp_all add: complete_assigned_task_def task_of_def put_task_def reg_inv_iff)
  then have kept: "\<forall>co\<in>set cs. k \<in> t_id ` set (unassigned (registry co))"
    using assms(4) by (auto simp: unassigned_def task_of_def image_iff dest!: hm_get_SomeD intro!: bexI)
  have "cs \<noteq> []" using assms(6) by auto
  then have long: "of_nat (length cs) \<le> m" using completed_task_waits [OF kept assms(5,8)] by simp
  moreover have "max_unassigned < of_nat (length cs)" using assms(6,7) by (simp add: word_less_nat_alt unat_of_nat take_bit_nat_eq_self)
  ultimately have "\<not> m \<le> max_unassigned" by (meson leD le_less_trans less_le_trans)
  then show ?thesis using long by (simp add: should_stop_tick_def compute_mission_success_def Let_def split: option.split)
qed

section \<open>Instances\<close>

definition sim_env :: "(unit, int, unit) SimEnv" where
  "sim_env = \<lparr>se_node = sample_env, se_net = fair_rng, se_seed = (\<lambda>_. ()), se_gen = (\<lambda>g. (f64_zero, g)), se_log2 = (\<lambda>x. x), se_debug = (\<lambda>_. [])\<rparr>"

definition sim_scenario :: Scenario where
  "sim_scenario = \<lparr>sc_name = ''pair'', sc_seed = 7, sc_agents = [sample_agent ''a'', sample_agent ''b''], sc_tasks = [sample_task ''t''],
     sc_ground_nodes = [], sc_base_station = None\<rparr>"

definition sim_config :: RunConfig where
  "sim_config = \<lparr>rc_max_ticks = 5, rc_timeout_ticks = 3, rc_max_unassigned_ticks = 2, rc_packet_loss_rate = f64_zero, rc_latency_ticks = 0,
     rc_latency_per_hop = 0, rc_comms_jitter_ticks = 0, rc_failures = [\<lparr>fe_agent_id = ''b'', fe_at_tick = 2\<rparr>, \<lparr>fe_agent_id = ''a'', fe_at_tick = 0\<rparr>],
     rc_dynamic_tasks = [\<lparr>de_at_tick = 3, de_task = sample_task ''u''\<rparr>],
     rc_partition_events = [\<lparr>pe_at_tick = 1, pe_until_tick = None, pe_heal_at_tick = Some 2, pe_agents = (''a'', ''b'')\<rparr>],
     rc_gossip_interval_ticks = 2, rc_base_id = None, rc_enable_movement = False, rc_tick_duration_ms = 100, rc_grid_state = None, rc_enable_cbba = True,
     rc_safety_config = Some zone_config, rc_inspection_state = Some (inspection_new line_graph), rc_wildfire_state = Some dry_state, rc_wind = None,
     rc_pose_noise_m = f64_zero, rc_wildfire_priority_realloc_threshold = Some 5, rc_dynamic_belief_updates = False, rc_autonomy = default_autonomy,
     rc_initial_agent_leases = [(''b'', [(''z'', 40)])],
     rc_initial_agent_lease_records = [(''a'', [\<lparr>il_lease_id = ''l'', il_resource_id = ''z'', il_resource_kind = ''task'', il_granted_tick = 0, il_expiry_tick = 50\<rparr>])]\<rparr>"

lemma sim_sample:
  "runnable sim_env cbba_alloc" "injected_ok sim_config" "no_belief (rc_grid_state sim_config)" "\<forall>t\<in>set (sc_tasks sim_scenario). owner_ok t"
  "decoder_wf (se_node sim_env)" "config_leases_ok sim_config"
  using sample_env_ok
  by (simp_all add: runnable_def sim_env_def cbba_alloc_total injected_ok_def sim_config_def no_belief_def sim_scenario_def owner_ok_def unfinished_def
      sample_task_def del: not_None_eq) (auto simp: sample_env_def config_leases_ok_def initial_leases_def sim_config_def lease_in_range_def calendar_limit_def hm_get_def
      split: if_splits)

lemma sim_sample_crashed:
  assumes "2 \<le> k"
  shows "{fe_agent_id f | f. f \<in> set (rc_failures sim_config) \<and> 1 \<le> unat (fe_at_tick f) \<and> unat (fe_at_tick f) \<le> k} = {''b''}"
proof -
  have "{fe_agent_id f | f. f \<in> set fs \<and> P f} = fe_agent_id ` set (filter P fs)" for fs P by auto
  from this [of "rc_failures sim_config" "\<lambda>f. 1 \<le> unat (fe_at_tick f) \<and> unat (fe_at_tick f) \<le> k"] show ?thesis
    using assms by (simp add: sim_config_def)
qed

lemma sim_sample_ready: "sim_ready sim_scenario sim_config (loop_state_new sim_env sim_scenario sim_config sample_cbba lg)"
  by (rule loop_state_new_ready) (rule sim_sample(3,6))+

theorem simulation_invariant_witness:
  "\<exists>s s' stop. sim_reachable sim_env cbba_alloc sim_scenario sim_config (loop_state_new sim_env sim_scenario sim_config sample_cbba None) 1 s \<and>
     tick_once sim_env cbba_alloc sim_scenario sim_config s = Some (s', stop) \<and> ts_crashed s' = {''b''} \<and>
     membership (coordinator (fst (ts_nodes s' ! 1))) = membership (coordinator (fst (ts_nodes s ! 1)))"
proof -
  let ?s0 = "loop_state_new sim_env sim_scenario sim_config sample_cbba None"
  obtain s stop1 where one: "tick_once sim_env cbba_alloc sim_scenario sim_config ?s0 = Some (s, stop1)" "sim_ready sim_scenario sim_config s"
    using tick_once_total [OF sim_sample(1,2) sim_sample_ready] by blast
  obtain s' stop where two: "tick_once sim_env cbba_alloc sim_scenario sim_config s = Some (s', stop)" "sim_ready sim_scenario sim_config s'"
    using tick_once_total [OF sim_sample(1,2) one(2)] by blast
  have r: "sim_reachable sim_env cbba_alloc sim_scenario sim_config ?s0 1 s" using sim_tick [OF sim_start one(1)] by simp
  from sim_reachable_clock [OF sim_tick [OF r two(1)]] sim_sample_crashed [of "Suc 1"] have crashed: "ts_crashed s' = {''b''}"
    by (simp add: loop_state_new_frame)
  have ids: "map snd (ts_nodes s') = [''a'', ''b'']" using two(2) by (simp add: sim_ready_def sim_scenario_def sample_agent_def)
  then have "1 < length (ts_nodes s')" "snd (ts_nodes s' ! 1) = ''b''" by (auto simp: map_eq_Cons_conv)
  with simulation_invariant [OF r two(1) sim_sample(5,2,4)] crashed
  have "membership (coordinator (fst (ts_nodes s' ! 1))) = membership (coordinator (fst (ts_nodes s ! 1)))" by auto
  with r two(1) crashed show ?thesis by blast
qed

theorem simulation_returns_witness:
  "initial_leases sim_config ''a'' \<noteq> [] \<and> (\<exists>s. run_internal sim_env cbba_alloc sample_cbba sim_scenario sim_config (Some []) = Some s)"
proof -
  have poll: "env_poll (se_node sim_env) = agent_poll" "calendar_documented (se_node sim_env)" using sim_sample(1) by (simp_all add: runnable_def)
  have leases: "\<forall>a. \<forall>l\<in>set (initial_leases sim_config a). lease_in_range (rc_tick_duration_ms sim_config) l"
    using sim_sample(6) by (simp add: config_leases_ok_def)
  have "initial_leases sim_config ''a'' \<noteq> []" by (simp add: initial_leases_def sim_config_def hm_get_def)
  then show ?thesis using simulation_returns [OF poll sim_sample(5,2,3) leases, THEN conjunct2, THEN conjunct2] by (rule conjI)
qed

theorem run_ends_when_done_witness:
  "\<exists>s. run_internal sim_env cbba_alloc sample_cbba sim_scenario sim_config None = Some s \<and> ts_total_ticks s = 5 \<and> ts_crashed s = {''b''}"
proof -
  obtain s where s: "run_internal sim_env cbba_alloc sample_cbba sim_scenario sim_config None = Some s"
    using run_internal_total [OF sim_sample(1,2,3,6)] by blast
  from run_ends_when_done [OF s] obtain k where k: "k \<le> 5" "ts_total_ticks s = of_nat k"
      "ts_crashed s = {fe_agent_id f | f. f \<in> set (rc_failures sim_config) \<and> 1 \<le> unat (fe_at_tick f) \<and> unat (fe_at_tick f) \<le> k}"
      "k < 5 \<longrightarrow> (\<forall>p\<in>set (rc_partition_events sim_config). \<exists>u. pe_until_tick p = Some u \<and> unat u \<le> k)"
    by (auto simp: sim_config_def)
  then have "k = 5" by (auto simp: sim_config_def)
  then show ?thesis using s k(2,3) sim_sample_crashed [of 5] by simp
qed

theorem completed_task_counts_as_unassigned_witness:
  "let r = registry_new [sample_task ''t''\<lparr>t_status := Assigned, t_assigned_to := Some ''a''\<rparr>];
       co = (coordinator_new [sample_agent ''a''] [] 3)\<lparr>registry := fst (complete_assigned_task r ''t'')\<rparr>;
       m = snd (fold (\<lambda>co (ds, m). update_unassigned_durations co ds m) [co, co, co] ([], 0))
   in 3 \<le> m \<and> \<not> should_stop_tick \<lparr>ms_all_tasks_assigned = True, ms_all_failure_ticks_passed = True, ms_all_expected_failures_detected = True,
        ms_all_dynamic_tasks_injected = True, ms_post_partition_converged = True, ms_sar_complete = True, ms_inspection_complete = True,
        ms_adapter_complete = True\<rparr> m 2"
proof -
  let ?r = "registry_new [sample_task ''t''\<lparr>t_status := Assigned, t_assigned_to := Some ''a''\<rparr>]"
  let ?co = "(coordinator_new [sample_agent ''a''] [] 3)\<lparr>registry := fst (complete_assigned_task ?r ''t'')\<rparr>"
  obtain ds m where f: "fold (\<lambda>co (ds, m). update_unassigned_durations co ds m) [?co, ?co, ?co] ([], 0) = (ds, m)" by (metis surj_pair)
  have r: "reg_inv ?r" "task_of ?r ''t'' = Some (sample_task ''t''\<lparr>t_status := Assigned, t_assigned_to := Some ''a''\<rparr>)"
    by (simp_all add: new_inv owner_ok_def unfinished_def, simp add: registry_new_def task_of_def sample_task_def hm_get_collect)
  have "of_nat (length [?co, ?co, ?co]) \<le> m \<and> \<not> should_stop_tick s m 2" for s
    using completed_task_counts_as_unassigned [OF r(1,2) _ _ _ _ _ f, of 2 s] by (simp add: unfinished_def)
  then show ?thesis unfolding Let_def f by simp
qed

end
