(* ===== verification/Replay.thy ===== *)
theory Replay
  imports EventLog Simulation
begin

text \<open>
  What the log of a run holds and what a replay recovers from it: every block of a tick only appends events, the ticks and the failures are logged in
  order, and the reconstructed state agrees with the one the simulator ended in.
\<close>

section \<open>What a block logs\<close>

fun quiet :: "'dt SimEvent \<Rightarrow> bool" where
  "quiet (EvTickStart _) = False"
| "quiet (EvAgentFailed _ _) = False"
| "quiet (EvPoseUpdated _ _ _) = False"
| "quiet _ = True"

definition appends :: "'dt sim_log \<Rightarrow> 'dt sim_log \<Rightarrow> bool" where
  "appends lg lg' \<longleftrightarrow> (case lg of None \<Rightarrow> lg' = None | Some l \<Rightarrow> \<exists>es. lg' = Some (l @ es) \<and> list_all quiet es)"

lemma appends_refl [simp]: "appends lg lg"
  by (simp add: appends_def split: option.split)

lemma appends_trans [trans]: "appends lg lg' \<Longrightarrow> appends lg' lg'' \<Longrightarrow> appends lg lg''"
  by (fastforce simp: appends_def split: option.splits)

lemma appends_push: "list_all quiet es \<Longrightarrow> appends lg (sim_push es lg)"
  by (auto simp: appends_def sim_push_def split: option.split)

lemma appends_join: "(\<And>e. quiet (wrap e)) \<Longrightarrow> appends lg (join_log wrap es lg)"
  by (simp add: join_log_def appends_push list_all_iff split: option.split)

definition quiet_step :: "('r, 'dt, 'st) TickLoopState \<Rightarrow> ('r, 'dt, 'st) TickLoopState \<Rightarrow> bool" where
  "quiet_step s s' \<longleftrightarrow> appends (ts_log s) (ts_log s')"

lemma quiet_step_refl [simp]: "quiet_step s s"
  by (simp add: quiet_step_def)

lemma quiet_step_trans [trans]: "quiet_step s s' \<Longrightarrow> quiet_step s' s'' \<Longrightarrow> quiet_step s s''"
  unfolding quiet_step_def by (rule appends_trans)

lemma fold_quiet: "(\<And>x s. quiet_step s (f x s)) \<Longrightarrow> quiet_step s (fold f xs s)"
  by (induction xs arbitrary: s) (auto intro: quiet_step_trans)

lemma quiet_from_supervisor: "ts_log s' = ts_log s \<Longrightarrow> quiet_step s (from_supervisor p s')"
  by (simp add: quiet_step_def from_supervisor_def appends_join)

lemma quiet_partition_events:
  "apply_partition_events es now bus nodes lg = (bus', nodes', lg', out) \<Longrightarrow> appends lg lg'"
proof -
  have step: "appends (fst (snd (snd acc))) (fst (snd (snd (partition_heals now e (partition_ends now e (partition_begins now e acc))))))"
    for e and acc :: "('r, 'dt) partition_acc"
    by (auto simp: partition_heals_def partition_ends_def partition_begins_def intro: appends_push appends_trans [OF appends_push appends_push]
        split: prod.splits)
  have "appends (fst (snd (snd acc))) (fst (snd (snd (fold (\<lambda>e acc. partition_heals now e (partition_ends now e (partition_begins now e acc))) es acc))))"
    for acc :: "('r, 'dt) partition_acc"
  proof (induction es arbitrary: acc)
    case (Cons e es)
    show ?case
      using appends_trans [OF step [of acc e] Cons.IH [of "partition_heals now e (partition_ends now e (partition_begins now e acc))"]] by simp
  qed simp
  from this [of "(bus, nodes, lg, no_partition_outcome)"]
  show "apply_partition_events es now bus nodes lg = (bus', nodes', lg', out) \<Longrightarrow> appends lg lg'" by (simp add: apply_partition_events_def)
qed

lemma quiet_heal_pairs: "heal_pairs env c now ps s = Some s' \<Longrightarrow> quiet_step s s'"
proof (induction ps arbitrary: s)
  case (Cons p ps)
  then obtain s1 where s1: "heal_pair env c now p s = Some s1" "heal_pairs env c now ps s1 = Some s'" by (auto simp: bind_eq_Some_conv)
  have "quiet_step s s1" using s1(1) by (auto simp: heal_pair_def Let_def intro: quiet_from_supervisor)
  then show ?case using Cons.IH [OF s1(2)] by (rule quiet_step_trans)
qed simp

lemma quiet_partition_block:
  assumes "partition_block env c now failed_now s = Some s'"
  shows "quiet_step s s'"
proof -
  obtain bus nodes lg out where a: "apply_partition_events (rc_partition_events c) now (ts_bus s) (ts_nodes s) (ts_log s) = (bus, nodes, lg, out)"
    by (metis surj_pair)
  let ?s1 = "s\<lparr>ts_bus := bus, ts_nodes := nodes, ts_log := lg, ts_partition_events := ts_partition_events s + po_partition_events out,
                ts_partitions_active := (ts_partitions_active s \<or> po_partitions_active out),
                ts_heal_tick := (if po_heal_tick out \<noteq> None then po_heal_tick out else ts_heal_tick s)\<rparr>"
  obtain s3 where s3: "heal_pairs env c now (po_healed_pairs out) (fold (activate_pair now) (po_added_pairs out) ?s1) = Some s3"
      "s' = from_supervisor (handle_node_failures failed_now now (to_supervisor s3)) s3"
    using assms by (auto simp: partition_block_def a Let_def)
  have "quiet_step s ?s1" using quiet_partition_events [OF a] by (simp add: quiet_step_def)
  also have "quiet_step ?s1 (fold (activate_pair now) (po_added_pairs out) ?s1)"
    by (rule fold_quiet) (simp add: activate_pair_def Let_def quiet_from_supervisor)
  also have "quiet_step \<dots> s3" using quiet_heal_pairs [OF s3(1)] .
  also have "quiet_step s3 s'" by (simp add: s3(2) quiet_from_supervisor)
  finally show ?thesis .
qed

lemma quiet_node_block: "node_block env alloc sc c now s = Some (s', outs) \<Longrightarrow> quiet_step s s'"
  by (auto simp: node_block_def Let_def quiet_step_def)

lemma quiet_blocks [simp]:
  "quiet_step s (log_assignments now target outs s)" "quiet_step s (note_autonomy env now ao s)" "quiet_step s (count_degraded s)"
  "quiet_step s (movement_block env sc c now s)" "quiet_step s (cbba_block now s)" "quiet_step s (inspection_block now s)"
  "quiet_step s (release_requested now r s)" "quiet_step s (connectivity_block sc s)" "quiet_step s (note_output now out s)"
  "quiet_step s (divergence_block now outs target s)"
proof -
  show "quiet_step s (log_assignments now target outs s)"
    by (auto simp: log_assignments_def quiet_step_def list_all_iff intro!: appends_push split: option.split)
  show "quiet_step s (note_autonomy env now ao s)"
    by (auto simp: note_autonomy_def quiet_step_def autonomy_events_def list_all_iff intro!: appends_push split: prod.split option.split)
  show "quiet_step s (count_degraded s)" "quiet_step s (movement_block env sc c now s)" "quiet_step s (note_output now out s)"
    by (simp_all add: count_degraded_def movement_block_def note_output_def Let_def quiet_step_def)
  show "quiet_step s (cbba_block now s)" by (simp add: cbba_block_def quiet_step_def appends_push)
  show "quiet_step s (inspection_block now s)" by (simp add: inspection_block_def quiet_step_def appends_join split: option.split prod.split)
  show "quiet_step s (release_requested now r s)" by (simp add: release_requested_def quiet_step_def appends_push split: option.split prod.split)
  show "quiet_step s (connectivity_block sc s)" by (simp add: connectivity_block_def quiet_step_def split: option.split)
  have "list_all quiet (cbba_events now outs (ts_crashed s) (ts_nodes s))" by (auto simp: cbba_events_def list_all_iff split: option.splits)
  then show "quiet_step s (divergence_block now outs target s)"
    by (auto simp: divergence_block_def Let_def quiet_step_def list_all_iff intro!: appends_push appends_trans [OF appends_push appends_push] split: option.split)
qed

lemma quiet_duration_block [simp]: "quiet_step s (duration_block now outs target s)"
proof -
  have "ts_log (relay_block now outs co s) = ts_log s" "ts_log (reallocation_block now outs target co s) = ts_log s" for co and s :: "('a, 'b, 'c) TickLoopState"
    by (simp_all add: relay_block_def reallocation_block_def Let_def split: option.split)
  then show ?thesis by (simp add: duration_block_def quiet_step_def split: option.split prod.split)
qed

lemma quiet_measure: "quiet_step s (measure_blocks sc now outs target s)"
proof -
  have "quiet_step s (connectivity_block sc s)" by simp
  also have "quiet_step \<dots> (fold (\<lambda>ao. note_output now (snd ao)) outs \<dots>)" by (rule fold_quiet) simp
  also have "quiet_step \<dots> (divergence_block now outs target \<dots>)" by simp
  also have "quiet_step \<dots> (duration_block now outs target \<dots>)" by simp
  finally show ?thesis by (simp add: measure_blocks_def)
qed

lemma quiet_wildfire: "quiet_step s (wildfire_block c now s)"
proof (cases "ts_wildfire_state s")
  case (Some w)
  obtain ns w1 m es where p: "process_wildfire_mapping_tick (rc_wind c) (rc_wildfire_priority_realloc_threshold c) now (ts_time_to_map_first_high_risk s \<noteq> None)
      (ts_crashed s) (ts_nodes s) w (sub_log (ts_log s)) = (ns, w1, m, es)" by (metis surj_pair)
  have "quiet_step s (s\<lparr>ts_nodes := ns, ts_wildfire_state := Some w1, ts_log := join_log EvField es (ts_log s), ts_priority_updates := x1,
      ts_high_priority_zones_mapped := x2, ts_time_to_map_first_high_risk := x3, ts_zone_observations := x4, ts_threat_level_over_time := x5\<rparr>)" for x1 x2 x3 x4 x5
    by (simp add: quiet_step_def appends_join)
  moreover have "quiet_step s1 (fold (release_requested now) rs s1)" for rs and s1 :: "('a, 'b, 'c) TickLoopState"
    by (rule fold_quiet) simp
  ultimately show ?thesis unfolding wildfire_block_def Some option.case p prod.case by (rule quiet_step_trans)
qed (simp add: wildfire_block_def)

lemma quiet_missions:
  assumes "mission_blocks env sc c now s = Some s'"
  shows "quiet_step s s'"
proof -
  obtain s1 s2 where s: "safety_block sc c now (movement_block env sc c now s) = Some s1"
      "sar_block env sc c now (inspection_block now (cbba_block now s1)) = Some s2" "s' = wildfire_block c now s2"
    using assms by (auto simp: mission_blocks_def bind_eq_Some_conv)
  have "quiet_step s (movement_block env sc c now s)" by simp
  also have "quiet_step \<dots> s1" using s(1) by (auto simp: safety_block_def quiet_step_def appends_join split: option.splits)
  also have "quiet_step s1 (cbba_block now s1)" by simp
  also have "quiet_step \<dots> (inspection_block now (cbba_block now s1))" by simp
  also have "quiet_step \<dots> s2" using s(2) by (auto simp: sar_block_def quiet_step_def appends_join split: option.splits)
  also have "quiet_step s2 s'" by (simp add: s(3) quiet_wildfire)
  finally show ?thesis .
qed

text \<open>A tick logs its start, the failures of the tick in the order of the configuration, and then only quiet events.\<close>

definition tick_marks :: "RunConfig \<Rightarrow> u64 \<Rightarrow> 'dt SimEvent list" where
  "tick_marks c now = EvTickStart now # map (\<lambda>f. EvAgentFailed (fe_agent_id f) now) (filter (\<lambda>f. fe_at_tick f = now) (rc_failures c))"

lemma sim_push_push: "sim_push ys (sim_push xs lg) = sim_push (xs @ ys) lg"
  by (simp add: sim_push_def option.map_comp comp_def)

lemma sim_push_Nil: "sim_push [] lg = lg"
  by (cases lg) (simp_all add: sim_push_def)

lemma record_agent_failures_log:
  "snd (record_agent_failures fs now (crashed, lg)) = sim_push (map (\<lambda>f. EvAgentFailed (fe_agent_id f) now) (filter (\<lambda>f. fe_at_tick f = now) fs)) lg"
proof -
  have "snd (fold (\<lambda>f (crashed, lg). (insert (fe_agent_id f) crashed, sim_push [EvAgentFailed (fe_agent_id f) now] lg)) fs (crashed, lg)) =
      sim_push (map (\<lambda>f. EvAgentFailed (fe_agent_id f) now) fs) lg" for fs crashed and lg :: "'a sim_log"
    by (induction fs arbitrary: crashed lg) (simp_all add: sim_push_Nil sim_push_push)
  then show ?thesis by (simp add: record_agent_failures_def)
qed

lemma start_tick_log:
  assumes "start_tick c s = (s0, failed)"
  shows "ts_log s0 = sim_push (tick_marks c (ts_total_ticks s0)) (ts_log s)"
proof -
  have s0: "s0 = fst (start_tick c s)" using assms by simp
  show ?thesis unfolding s0 start_tick_def Let_def by (simp add: record_agent_failures_log sim_push_push tick_marks_def)
qed

lemma tick_log:
  assumes "tick_once env alloc sc c s = Some (s', stop)" "ts_log s = Some l"
  shows "\<exists>es. ts_log s' = Some (l @ tick_marks c (ts_total_ticks s') @ es) \<and> list_all quiet es"
proof -
  obtain s0 failed s1 s2 outs s4 where st: "start_tick c s = (s0, failed)" and p: "partition_block env c (ts_total_ticks s0) failed s0 = Some s1"
    and n: "node_block env alloc sc c (ts_total_ticks s0) s1 = Some (s2, outs)"
    and m: "mission_blocks env sc c (ts_total_ticks s0) (count_degraded (fold (note_autonomy env (ts_total_ticks s0)) outs
       (log_assignments (ts_total_ticks s0) (first_active_agent_id (ts_crashed s2) (ts_nodes s2)) outs s2))) = Some s4"
    and s': "s' = measure_blocks sc (ts_total_ticks s0) outs (first_active_agent_id (ts_crashed s2) (ts_nodes s2)) s4"
    and "stop = should_stop_tick (stop_snapshot c (ts_total_ticks s0) s') (ts_max_task_unassigned_ticks s') (rc_max_unassigned_ticks c)"
    using tick_once_stages [OF assms(1)] by blast
  let ?now = "ts_total_ticks s0" and ?target = "first_active_agent_id (ts_crashed s2) (ts_nodes s2)"
  have "quiet_step s0 s1" using p by (rule quiet_partition_block)
  also have "quiet_step s1 s2" using n by (rule quiet_node_block)
  also have "quiet_step s2 (log_assignments ?now ?target outs s2)" by simp
  also have "quiet_step \<dots> (fold (note_autonomy env ?now) outs \<dots>)" by (rule fold_quiet) simp
  also have "quiet_step \<dots> (count_degraded \<dots>)" by simp
  also have "quiet_step \<dots> s4" using m by (rule quiet_missions)
  also have "quiet_step s4 s'" unfolding s' by (rule quiet_measure)
  finally have "quiet_step s0 s'" .
  moreover have "ts_total_ticks s' = ?now" using tick_once_ok(3) [OF assms(1)] start_tick_frame(3) [OF st] by simp
  ultimately show ?thesis using start_tick_log [OF st] assms(2) by (auto simp: quiet_step_def appends_def sim_push_def)
qed

section \<open>What a replay recovers\<close>

lemma run_log:
  assumes "sim_reachable env alloc sc c s0 k s" "ts_log s0 = Some []" "clock_current (ts_clock s0) = 0"
  shows "\<exists>l. ts_log s = Some l \<and> filter (\<lambda>e. \<not> quiet e) l = concat (map (\<lambda>j. tick_marks c (of_nat j)) [1..<Suc k]) \<and>
    clock_current (ts_clock s) = of_nat k"
  using assms
proof (induction rule: sim_reachable.induct)
  case (sim_tick k s s' stop)
  then obtain l where l: "ts_log s = Some l" "filter (\<lambda>e. \<not> quiet e) l = concat (map (\<lambda>j. tick_marks c (of_nat j)) [1..<Suc k])"
      "clock_current (ts_clock s) = of_nat k" by blast
  obtain es where es: "ts_log s' = Some (l @ tick_marks c (ts_total_ticks s') @ es)" "list_all quiet es" using tick_log [OF sim_tick.hyps(2) l(1)] by blast
  have now: "ts_total_ticks s' = of_nat (Suc k)" using tick_once_ok(3) [OF sim_tick.hyps(2)] l(3) by (simp add: add.commute)
  have "filter (\<lambda>e. \<not> quiet e) (tick_marks c now) = tick_marks c now" for now by (auto simp: tick_marks_def filter_id_conv)
  moreover have "filter (\<lambda>e. \<not> quiet e) es = []" using es(2) by (simp add: list_all_iff)
  ultimately have "filter (\<lambda>e. \<not> quiet e) (l @ tick_marks c (ts_total_ticks s') @ es) = concat (map (\<lambda>j. tick_marks c (of_nat j)) [1..<Suc (Suc k)])"
    using l(2) now by simp
  moreover have "clock_current (ts_clock s') = of_nat (Suc k)" using tick_once_ok(2) [OF sim_tick.hyps(2)] l(3) by (simp add: clock_advance_def add.commute)
  ultimately show ?case using es(1) by blast
qed simp

text \<open>The fields of the reconstructed state, read off the events that matter to them.\<close>

definition failure_of :: "'dt SimEvent \<Rightarrow> (AgentId \<times> u64) option" where
  "failure_of e = (case e of EvAgentFailed a now \<Rightarrow> Some (a, now) | _ \<Rightarrow> None)"

definition tick_of :: "'dt SimEvent \<Rightarrow> u64 option" where
  "tick_of e = (case e of EvTickStart now \<Rightarrow> Some now | _ \<Rightarrow> None)"

lemma replay_append: "foldl replay_event s (map log_event (l @ l')) = foldl replay_event (foldl replay_event s (map log_event l)) (map log_event l')"
  by simp

lemma log_event_supervisor: "replay_event s (supervisor_event e) = s"
  by (cases e) (simp_all add: replay_event_def)

lemma replay_failures: "failed_agents (foldl replay_event s (map log_event l)) = failed_agents s @ List.map_filter failure_of (filter (\<lambda>e. \<not> quiet e) l)"
proof (induction l arbitrary: s)
  case (Cons e l)
  have "failed_agents (replay_event s (log_event e)) = failed_agents s @ (case failure_of e of None \<Rightarrow> [] | Some x \<Rightarrow> [x])"
  proof (cases e)
    case (EvSupervisor x)
    then show ?thesis by (simp add: log_event_supervisor failure_of_def)
  next
    case (EvSafety x)
    then show ?thesis by (cases x) (simp add: replay_event_def failure_of_def)
  next
    case (EvField x)
    then show ?thesis by (cases x) (simp_all add: replay_event_def failure_of_def)
  next
    case (EvSar x)
    then show ?thesis by (cases x) (simp_all add: replay_event_def failure_of_def)
  qed (simp_all add: replay_event_def failure_of_def)
  moreover have "quiet e \<Longrightarrow> failure_of e = None" by (cases e) (simp_all add: failure_of_def)
  ultimately show ?case using Cons [of "replay_event s (log_event e)"] by (auto simp: List.map_filter_simps split: option.splits)
qed (simp add: List.map_filter_simps)

lemma replay_poses: "list_all (\<lambda>e. \<forall>a p now. e \<noteq> EvPoseUpdated a p now) l \<Longrightarrow> final_poses (foldl replay_event s (map log_event l)) = final_poses s"
proof (induction l arbitrary: s)
  case (Cons e l)
  have "final_poses (replay_event s (log_event e)) = final_poses s"
  proof (cases e)
    case (EvSupervisor x)
    then show ?thesis by (simp add: log_event_supervisor)
  next
    case (EvSafety x)
    then show ?thesis by (cases x) (simp add: replay_event_def)
  next
    case (EvField x)
    then show ?thesis by (cases x) (simp_all add: replay_event_def)
  next
    case (EvSar x)
    then show ?thesis by (cases x) (simp_all add: replay_event_def)
  qed (use Cons.prems in \<open>simp_all add: replay_event_def\<close>)
  then show ?case using Cons by simp
qed simp

lemma overwrite_pose_new: "a \<notin> fst ` set ps \<Longrightarrow> overwrite_pose a p ps = ps @ [(a, p)]"
  by (induction ps) auto

lemma replay_final_poses:
  assumes "distinct (map fst ps)" "fst ` set (final_poses s) \<inter> fst ` set ps = {}"
  shows "final_poses (foldl replay_event s (map log_event (map (\<lambda>(a, p). EvPoseUpdated a p now :: 'dt SimEvent) ps))) = final_poses s @ ps"
  using assms
proof (induction ps arbitrary: s)
  case (Cons x ps)
  obtain a p where x: "x = (a, p)" by (cases x)
  define s1 where "s1 = replay_event s (log_event (EvPoseUpdated a p now :: 'dt SimEvent))"
  have one: "final_poses s1 = final_poses s @ [(a, p)]" using Cons.prems(2) by (simp add: s1_def replay_event_def overwrite_pose_new x)
  have "final_poses (foldl replay_event s1 (map log_event (map (\<lambda>(a, p). EvPoseUpdated a p now :: 'dt SimEvent) ps))) = final_poses s1 @ ps"
    by (intro Cons.IH) (use Cons.prems in \<open>auto simp: one x\<close>)
  moreover have "foldl replay_event s (map log_event (map (\<lambda>(a, p). EvPoseUpdated a p now :: 'dt SimEvent) (x # ps))) =
      foldl replay_event s1 (map log_event (map (\<lambda>(a, p). EvPoseUpdated a p now :: 'dt SimEvent) ps))"
    by (simp add: x s1_def)
  ultimately show ?case by (simp add: one x)
qed simp

definition summary_step :: "ReplaySummary \<Rightarrow> 'dt LogEvent \<Rightarrow> ReplaySummary" where
  "summary_step s e = (case e of RunLog ev \<Rightarrow> summarize_run s ev | UrbanLog ev \<Rightarrow> summarize_urban s ev | CommandLog ev \<Rightarrow> summarize_command s ev | AgentLog _ \<Rightarrow> s)"

lemma summarize_step: "summarize es = foldl summary_step summary_start es"
  by (simp add: summarize_def summary_step_def [abs_def])

lemma summary_step_dead: "sum_conflicts (summary_step s e) = sum_conflicts s" "sum_zones_mapped (summary_step s e) = sum_zones_mapped s"
  by (simp_all add: summary_step_def summarize_run_def summarize_urban_def summarize_command_def
      split: LogEvent.split RunLogEvent.split UrbanLogEvent.split CommandLogEvent.split)

lemma summary_dead: "sum_conflicts (foldl summary_step s es) = sum_conflicts s \<and> sum_zones_mapped (foldl summary_step s es) = sum_zones_mapped s"
  by (induction es arbitrary: s) (simp_all add: summary_step_dead)

lemma summary_supervisor: "sum_total_ticks (summary_step s (supervisor_event e)) = sum_total_ticks s \<and> sum_failures (summary_step s (supervisor_event e)) = sum_failures s"
  by (cases e) (simp_all add: summary_step_def summarize_command_def)

lemma summary_one:
  "sum_total_ticks (summary_step s (log_event e)) = (case tick_of e of None \<Rightarrow> sum_total_ticks s | Some now \<Rightarrow> max (sum_total_ticks s) now) \<and>
   sum_failures (summary_step s (log_event e)) = sum_failures s + (case failure_of e of None \<Rightarrow> 0 | Some _ \<Rightarrow> 1)"
proof (cases e)
  case (EvSupervisor x)
  then show ?thesis using summary_supervisor [of s x] by (simp add: tick_of_def failure_of_def)
next
  case (EvSafety x)
  then show ?thesis by (cases x) (simp add: summary_step_def summarize_run_def tick_of_def failure_of_def)
next
  case (EvField x)
  then show ?thesis by (cases x) (simp_all add: summary_step_def summarize_run_def tick_of_def failure_of_def)
next
  case (EvSar x)
  then show ?thesis by (cases x) (simp_all add: summary_step_def summarize_run_def tick_of_def failure_of_def)
qed (simp_all add: summary_step_def summarize_run_def tick_of_def failure_of_def)

lemma summary_counts:
  "sum_total_ticks (foldl summary_step s (map log_event l)) = fold (\<lambda>t m. max m t) (List.map_filter tick_of (filter (\<lambda>e. \<not> quiet e) l)) (sum_total_ticks s) \<and>
   sum_failures (foldl summary_step s (map log_event l)) = sum_failures s + length (List.map_filter failure_of (filter (\<lambda>e. \<not> quiet e) l))"
proof (induction l arbitrary: s)
  case (Cons e l)
  have "quiet e \<Longrightarrow> failure_of e = None \<and> tick_of e = None" by (cases e) (simp_all add: failure_of_def tick_of_def)
  then show ?case
    using Cons [of "summary_step s (log_event e)"] summary_one [of s e] by (auto simp: List.map_filter_simps split: option.splits)
qed (simp add: List.map_filter_simps)

text \<open>The marks of a run.\<close>

lemma map_filter_append [simp]: "List.map_filter f (xs @ ys) = List.map_filter f xs @ List.map_filter f ys"
  by (simp add: List.map_filter_def)

lemma map_filter_concat: "List.map_filter f (concat xss) = concat (map (List.map_filter f) xss)"
  by (induction xss) (simp_all add: List.map_filter_simps)

lemma marks_failures: "List.map_filter failure_of (tick_marks c now :: 'dt SimEvent list) = map (\<lambda>f. (fe_agent_id f, now)) (filter (\<lambda>f. fe_at_tick f = now) (rc_failures c))"
proof -
  have "List.map_filter failure_of (map (\<lambda>f. EvAgentFailed (fe_agent_id f) now) fs) = map (\<lambda>f. (fe_agent_id f, now)) fs" for fs
    by (induction fs) (simp_all add: List.map_filter_simps failure_of_def)
  then show ?thesis by (simp add: tick_marks_def List.map_filter_simps) (simp add: failure_of_def)
qed

lemma marks_ticks: "List.map_filter tick_of (tick_marks c now :: 'dt SimEvent list) = [now]"
proof -
  have "List.map_filter tick_of (map (\<lambda>f. EvAgentFailed (fe_agent_id f) now) fs) = []" for fs
    by (induction fs) (simp_all add: List.map_filter_simps tick_of_def)
  then show ?thesis by (simp add: tick_marks_def List.map_filter_simps tick_of_def)
qed

lemma max_ticks: "k < 2 ^ 64 \<Longrightarrow> fold (\<lambda>t m. max m t) (map of_nat [1..<Suc k]) (0 :: u64) = of_nat k"
proof (induction k)
  case (Suc k)
  have "(of_nat k :: u64) \<le> of_nat (Suc k)" using Suc.prems by (simp add: word_le_nat_alt unat_of_nat take_bit_nat_eq_self del: of_nat_Suc)
  then show ?case using Suc by (simp add: max_def del: of_nat_Suc)
qed simp

definition own_poses :: "('r, 'dt) fleet \<Rightarrow> (AgentId \<times> Pose) list" where
  "own_poses nodes = List.map_filter (\<lambda>(n, a). map_option (\<lambda>e. (a, e_pose e)) (hm_get (agents (membership (coordinator n))) a)) nodes"

lemma record_final_poses_eq: "record_final_poses nodes now lg = sim_push (map (\<lambda>(a, p). EvPoseUpdated a p now) (own_poses nodes)) lg"
  unfolding record_final_poses_def own_poses_def
  by (rule arg_cong [where f = "\<lambda>es. sim_push es lg"], induction nodes) (auto simp: List.map_filter_simps split: option.split)

lemma own_poses_distinct: "distinct (map snd nodes) \<Longrightarrow> distinct (map fst (own_poses nodes))"
proof (induction nodes)
  case (Cons x nodes)
  have "fst ` set (own_poses nodes) \<subseteq> snd ` set nodes" by (auto simp: own_poses_def List.map_filter_def image_iff) force
  moreover have "own_poses (x # nodes) = (case hm_get (agents (membership (coordinator (fst x)))) (snd x) of None \<Rightarrow> [] | Some e \<Rightarrow> [(snd x, e_pose e)]) @ own_poses nodes"
    by (cases x) (simp add: own_poses_def List.map_filter_simps split: option.split)
  ultimately show ?case using Cons by (auto split: option.split)
qed (simp add: own_poses_def List.map_filter_simps)

lemma logged_failures:
  "k < 2 ^ 64 \<Longrightarrow> fst ` set (concat (map (\<lambda>j. map (\<lambda>f. (fe_agent_id f, of_nat j :: u64)) (filter (\<lambda>f. fe_at_tick f = of_nat j) fs)) [1..<Suc k])) =
    {fe_agent_id f | f. f \<in> set fs \<and> 1 \<le> unat (fe_at_tick f) \<and> unat (fe_at_tick f) \<le> k}"
proof (induction k)
  case (Suc k)
  have eq: "fe_at_tick f = of_nat (Suc k) \<longleftrightarrow> unat (fe_at_tick f) = Suc k" for f
  proof
    assume "fe_at_tick f = of_nat (Suc k)"
    then show "unat (fe_at_tick f) = Suc k" using Suc.prems by (simp add: unat_of_nat take_bit_nat_eq_self del: of_nat_Suc)
  next
    assume "unat (fe_at_tick f) = Suc k"
    then have "(of_nat (unat (fe_at_tick f)) :: u64) = of_nat (Suc k)" by (rule arg_cong)
    then show "fe_at_tick f = of_nat (Suc k)" by simp
  qed
  have "{fe_agent_id f | f. f \<in> set fs \<and> 1 \<le> unat (fe_at_tick f) \<and> unat (fe_at_tick f) \<le> Suc k} =
      {fe_agent_id f | f. f \<in> set fs \<and> 1 \<le> unat (fe_at_tick f) \<and> unat (fe_at_tick f) \<le> k} \<union> fe_agent_id ` {f \<in> set fs. unat (fe_at_tick f) = Suc k}"
    by (fastforce simp: le_Suc_eq)
  moreover have "fst ` set (map (\<lambda>f. (fe_agent_id f, of_nat (Suc k) :: u64)) (filter (\<lambda>f. fe_at_tick f = of_nat (Suc k)) fs)) =
      fe_agent_id ` {f \<in> set fs. unat (fe_at_tick f) = Suc k}"
    unfolding eq by (simp add: image_image)
  moreover have "[1..<Suc (Suc k)] = [1..<Suc k] @ [Suc k]" by simp
  ultimately show ?case using Suc.IH Suc.prems by (simp only: map_append concat_append set_append image_Un list.map concat.simps append_Nil2)
qed (auto simp: unat_gt_0)

lemma sim_reachable_ids:
  assumes "sim_reachable env alloc sc c s0 k s" "decoder_wf (se_node env)" "injected_ok c"
  shows "map snd (ts_nodes s) = map snd (ts_nodes s0)"
  using assms
proof (induction rule: sim_reachable.induct)
  case (sim_tick k s s' stop)
  have "fleet_step (ts_crashed s') (ts_nodes s) (ts_nodes s')" using tick_once_ok(1) [OF sim_tick.hyps(2)] sim_tick.prems by simp
  then show ?case using fleet_step_ids sim_tick by metis
qed simp



end
