(* ===== verification/Spec2Isabelle.thy ===== *)
theory Spec2Isabelle
  imports NodeSafety UrbanOptimal SegmentCoordinator PartitionSupervisor MavlinkMission CommandFanout Replay
begin

text \<open>
  A verification development of the swarm runtime in \<open>src/crates\<close>: agents that share tasks, keep each
  other's state by gossip, allocate work, survive failures and partitions, fly missions over a road graph and
  hand plans to flight controllers.

  \<^bold>\<open>How the program fits together.\<close> A \<open>Coordinator\<close> (swarm-runtime) owns the task registry, the membership view and
  the failure detector of one agent. An \<open>AgentNode\<close> drives it: every tick it sends heartbeats over a transport,
  reads its inbox, merges gossip, detects failed peers, releases and reallocates their tasks through an
  allocator (swarm-alloc), moves, and runs the autonomy state machines for lost links. The transport of the
  simulator is \<open>SimulatedNetwork\<close> (swarm-comms), whose reachability follows the mesh graph of
  \<open>connectivity.rs\<close>. The simulator (swarm-sim) runs a fleet of nodes tick by tick over one network, injects failures, partitions and
  tasks, records the progress of its missions and decides when to stop; it has a supervisor that reacts to partitions, healing and crashes, and
  the urban missions: a road graph, a route planner, segment locks and the coordinator that leases segments over
  the network. Missions leave the swarm as hardware-agnostic plans (swarm-mission-ir), which swarm-comms compiles to
  MAVLink and swarm-command-plane fans out to the whole swarm.

  \<^bold>\<open>Theories and sources.\<close>
  \<^item> \<open>Prelude\<close>, \<open>F64\<close>, \<open>F64Order\<close>, \<open>F64Cast\<close>: machine integers with the saturating operations, hash maps and sets as lists
    with distinct keys, results as sums, and \<open>f64\<close> as exact binary64 values with rounding, so that every comparison
    and sum of the sources is the one the hardware makes. \<open>F64Order\<close> proves rounding monotone and idempotent.
  \<^item> \<open>SwarmTypes\<close>, \<open>UrbanTypes\<close>, \<open>MissionIr\<close>: the data of swarm-types and swarm-mission-ir with their validators.
  \<^item> \<open>Registry\<close> (task_registry.rs), \<open>Membership\<close> (membership.rs, failure.rs), \<open>Coordination\<close> (coordinator.rs), \<open>Gossip\<close>
    (message.rs, gossip.rs), \<open>Reallocation\<close> (reallocation.rs), \<open>Autonomy\<close> (autonomy.rs), \<open>Node\<close> and \<open>NodeSafety\<close> (runtime.rs):
    one agent. A task has at most one owner and its lifecycle is a step relation; a tick keeps every invariant,
    returns unless the allocator panics or a lease lies outside the range of the calendar, and recovers the tasks of failed agents; the state of
    the link to the ground station is a function of the history of its heartbeats; gossip merges converge.
  \<^item> \<open>Allocators\<close> (allocator.rs, connectivity_aware.rs), \<open>RoutePlanner\<close> (route_planner.rs), \<open>Cbba\<close> (cbba.rs): greedy and auction
    results are the best by their scores in the order of priority, 2-opt never lengthens a tour, battery trimming keeps the longest feasible
    prefix, and consensus on bids takes the highest.
  \<^item> \<open>Connectivity\<close> (connectivity.rs), \<open>Network\<close> (network.rs, transport.rs), \<open>SwarmProtocol\<close> (swarm_protocol.rs): breadth-first
    reachability is exact, every message sent is accounted for and delivered within its latency or dropped, duplicates
    are let through once.
  \<^item> \<open>UrbanGeometry\<close>, \<open>UrbanPlanner\<close>, \<open>UrbanOptimal\<close> (swarm-sim/src/urban: geometry, risk, judge, obstacle, planner): the search
    returns a cheapest route in floating-point arithmetic, or says that none exists.
  \<^item> \<open>Deconfliction\<close>, \<open>SegmentCoordinator\<close> (deconfliction.rs, segment_coordinator.rs): a segment has one holder, a valid lease
    excludes everybody else, round robin is fair.
  \<^item> \<open>PartitionSupervisor\<close> (partition_supervisor.rs): components are the classes of agents that still reach each other,
    and healing leaves a resource with the agent whose lease is oldest or with nobody.
  \<^item> \<open>MavlinkProfile\<close>, \<open>MavlinkPlan\<close>, \<open>MavlinkFaithful\<close>, \<open>MavlinkExecutor\<close>, \<open>MavlinkMission\<close> (mavlink_capability_profile.rs, mavlink_parameters.rs, mavlink_geofence.rs,
    mavlink_fc_contract.rs, mavlink_coords.rs, mavlink_common_plan.rs, mavlink_executor.rs): the compiler to MAVLink; what it makes of every
    command, when it accepts a plan, and how accurate its coordinates are; and the executor, which sends the requests of a plan in order, as the log of a
    provider shows, accounts for every retry, and completes every compiled plan that it does not refuse.
  \<^item> \<open>CommandPlane\<close> with \<open>CommandRoutes\<close>, \<open>CommandCycles\<close>, \<open>CommandValidation\<close>, \<open>CommandFanout\<close> (swarm-command-plane): command plans for
    a swarm. Routes are shortest chains of links, by way of the mothership where there is one; cycles of dependencies are found;
    validation accepts exactly a declarative specification; the fan-out passes its own validation and a validated plan can handle
    the failure of each of its agents. \<open>Text\<close> holds the string operations of the standard library.
  \<^item> \<open>SearchGrid\<close>, \<open>FieldMissions\<close>, \<open>Safety\<close> (grid.rs, edge.rs, grid_state.rs, swarm-safety and runner/internal: sar.rs, inspection.rs, wildfire.rs,
    safety.rs): scans with their belief map, which stays a map of probabilities; inspection of edges and mapping of wildfire zones with their
    accounting; geofences, no-fly zones and separation (on positions that are multiples of 1/1024 metre below 32 km distances are exact), and the allocator that withholds unsafe tasks.
  \<^item> \<open>SimState\<close>, \<open>SimLoop\<close> (swarm-sim/src/runner): the state of the simulation and its tick loop, block by block over the models above.
    All nodes share one network; a node borrows it for the time it runs.
  \<^item> \<open>SimSafety\<close>, \<open>Simulation\<close>: every block of a tick is a step that keeps the identity and the invariants of every node and the view of
    crashed agents; a run with the auction, the connectivity-aware allocator or CBBA and without a belief map returns, and what holds when it ends.
  \<^item> \<open>EventLog\<close>, \<open>Replay\<close> (swarm-replay: event_log.rs, replay/state.rs, replay/summary.rs): the events of a log, the state replayed from them
    and their summary; the replay of the log of a run recovers its failures and final poses.

  \<^bold>\<open>Interfaces.\<close> What one component relies on in another is a locale, interpreted on the model's own definitions: the
  registry as the coordinator uses it, the allocators as reallocation uses them, transports as the node and the segment
  coordinator use them (the second extends the first), the costs of paths as the planner uses them, and the providers of
  acknowledgements as the executor uses them.

  \<^bold>\<open>Parameters.\<close> Code that is not in the repository is an argument: the random generator, JSON encoding and decoding, the
  calendar type of leases (known for the first 8 * 10^15 milliseconds, as chrono documents; nothing is assumed beyond), the iteration order of hash sets where it is observable, trigonometric functions, the
  decimal notation of floats and SHA-256. Where a theorem needs something of them it is a named hypothesis with
  a witness.

  \<^bold>\<open>Loops.\<close> Most loops are total functions by structural recursion or a measure (the queue and the unvisited nodes of the
  breadth-first searches). The outer loop of 2-opt has the bound \<open>max_iterations\<close> of the code itself. The search and the
  reconstruction of the urban planner and the depth-first search for dependency cycles are \<open>partial_function (option)\<close>, and it is proved
  that they return. The reconstruction of a command route has the size of the table of predecessors plus one as fuel, which is proved
  enough. No theorem is conditional on termination; where the code can panic the model returns \<open>None\<close> and a theorem says when it does not.

  \<^bold>\<open>Not modelled.\<close> Network and serial I/O (mavlink/transport.rs and the other files behind the feature
  \<open>mavlink-transport\<close>, drone_link.rs), serde-derived encodings, the command-line programs and report writers of
  swarm-examples and swarm-scenarios, the rendering of logs (swarm-replay/src/replay/render.rs), metrics aggregation and export, the
  benchmark, regression and DSL front ends of swarm-sim and the scripted runners of its urban missions.
\<close>

end
